(* ===== verification/Strubs_Prelude.thy ===== *)
theory Strubs_Prelude
  imports Main "HOL-Library.Word" "HOL-Library.Sublist"
begin

text \<open>
  Shared vocabulary of the development: bytes and buffers, JavaScript's rounding on integers,
  error values, the collections the component theories add their facts to, and the generic lemmas
  on lists (splicing a buffer, cutting it into equal chunks) that several components use.
\<close>

unbundle bit_operations_syntax

named_theorems layout_simps \<open>equations and bounds of the chunk layout of an object\<close>
named_theorems frame_simps \<open>fields an operation leaves alone\<close>
named_theorems accounting \<open>byte accounting of a volume\<close>

section \<open>Bytes and errors\<close>

type_synonym byte = "8 word"
type_synonym bytes = "byte list"

text \<open>
  A thrown \<open>Error\<close>: the message, the optional \<open>code\<close>, and the context fields that
  \<open>Slice._decorateError\<close> fills in. A fallible function returns \<open>Inl\<close> of it.
\<close>

record js_error =
  err_code :: "string option"
  err_message :: string
  err_objectId :: "string option"
  err_sliceIndex :: "nat option"
  err_volumeId :: "nat option"
  err_fileName :: "string option"

definition mk_error :: "string option \<Rightarrow> string \<Rightarrow> js_error" where
  "mk_error c m = \<lparr>err_code = c, err_message = m, err_objectId = None, err_sliceIndex = None,
     err_volumeId = None, err_fileName = None\<rparr>"

abbreviation plain_error :: "string \<Rightarrow> js_error" where
  "plain_error m \<equiv> mk_error None m"

abbreviation coded_error :: "string \<Rightarrow> string \<Rightarrow> js_error" where
  "coded_error c m \<equiv> mk_error (Some c) m"

lemma mk_error_sel [simp]:
  "err_code (mk_error c m) = c" "err_message (mk_error c m) = m"
  "err_objectId (mk_error c m) = None" "err_sliceIndex (mk_error c m) = None"
  "err_volumeId (mk_error c m) = None" "err_fileName (mk_error c m) = None"
  by (simp_all add: mk_error_def)

section \<open>Rounding\<close>

text \<open>\<open>Math.ceil(a / b)\<close> on integers whose quotient a double represents exactly enough (sizes below \<open>2^53\<close>).\<close>

definition ceil_div :: "int \<Rightarrow> int \<Rightarrow> int" where
  "ceil_div a b = - ((- a) div b)"

lemma ceil_div_le_iff:
  assumes "0 < b"
  shows "ceil_div a b \<le> q \<longleftrightarrow> a \<le> q * b"
proof -
  define r where "r = (- a) mod b"
  have eq: "a = ceil_div a b * b - r"
    unfolding ceil_div_def r_def using minus_mod_eq_div_mult [of "- a" b] by simp
  have r: "0 \<le> r" "r < b" using assms by (simp_all add: r_def)
  show ?thesis
  proof
    assume "ceil_div a b \<le> q"
    then have "ceil_div a b * b \<le> q * b" using assms by (simp add: mult_right_mono)
    then show "a \<le> q * b" using eq r by linarith
  next
    assume "a \<le> q * b"
    then have "ceil_div a b * b < (q + 1) * b" using eq r by (simp add: algebra_simps)
    then have "ceil_div a b < q + 1" using assms by simp
    then show "ceil_div a b \<le> q" by simp
  qed
qed

lemma ceil_div_mult_ge: "0 < b \<Longrightarrow> a \<le> ceil_div a b * b"
  using ceil_div_le_iff by blast

lemma ceil_div_mult_less: "0 < b \<Longrightarrow> (ceil_div a b - 1) * b < a"
  using ceil_div_le_iff [of b a "ceil_div a b - 1"] by linarith

lemma less_ceil_div_iff: "0 < b \<Longrightarrow> q < ceil_div a b \<longleftrightarrow> q * b < a"
  using ceil_div_le_iff [of b a q] by linarith

lemma ceil_div_nonneg: "0 < b \<Longrightarrow> - b < a \<Longrightarrow> 0 \<le> ceil_div a b"
  using less_ceil_div_iff [of b "-1" a] by simp

lemma ceil_div_add_mult: "0 < b \<Longrightarrow> ceil_div (a + k * b) b = ceil_div a b + k"
proof (rule antisym)
  assume b: "0 < b"
  show "ceil_div (a + k * b) b \<le> ceil_div a b + k"
    using ceil_div_mult_ge [OF b, of a] by (simp add: ceil_div_le_iff b distrib_right)
  have "a \<le> (ceil_div (a + k * b) b - k) * b"
    using ceil_div_mult_ge [OF b, of "a + k * b"] by (simp add: left_diff_distrib)
  then show "ceil_div a b + k \<le> ceil_div (a + k * b) b"
    by (simp add: ceil_div_le_iff [OF b, symmetric] le_diff_eq)
qed

lemma ceil_div_diff_mult: "0 < b \<Longrightarrow> ceil_div (a - k * b) b = ceil_div a b - k"
  using ceil_div_add_mult [of b a "- k"] by simp

lemma ceil_div_mono: "0 < b \<Longrightarrow> a \<le> a' \<Longrightarrow> ceil_div a b \<le> ceil_div a' b"
  using ceil_div_le_iff [of b a "ceil_div a' b"] ceil_div_mult_ge [of b a'] by linarith

section \<open>Decimal numerals\<close>

definition is_digit :: "char \<Rightarrow> bool" where
  "is_digit c \<longleftrightarrow> (48::nat) \<le> of_char c \<and> (of_char c::nat) \<le> 57"

text \<open>\<open>String(n)\<close>\<close>

fun decimal :: "nat \<Rightarrow> string" where
  "decimal n = (if n < 10 then [char_of (48 + n)] else decimal (n div 10) @ [char_of (48 + n mod 10)])"

declare decimal.simps [simp del]

section \<open>Buffers\<close>

text \<open>\<open>src.copy(dst, off)\<close>: overwrite \<open>length src\<close> bytes of \<open>dst\<close> from \<open>off\<close> on; what does not fit is dropped.\<close>

definition buf_copy :: "'a list \<Rightarrow> nat \<Rightarrow> 'a list \<Rightarrow> 'a list" where
  "buf_copy dst off src = take off dst @ take (length dst - off) src @ drop (off + length src) dst"

text \<open>\<open>buf.slice(a, b)\<close> and \<open>buf.subarray(a, b)\<close>.\<close>

definition buf_slice :: "'a list \<Rightarrow> nat \<Rightarrow> nat \<Rightarrow> 'a list" where
  "buf_slice b s e = take (e - s) (drop s b)"

lemma length_buf_copy [simp]: "off \<le> length dst \<Longrightarrow> length (buf_copy dst off src) = length dst"
  by (simp add: buf_copy_def)

lemma length_buf_slice [simp]: "length (buf_slice b s e) = min (e - s) (length b - s)"
  by (simp add: buf_slice_def min.commute)

lemma take_buf_copy: "n \<le> off \<Longrightarrow> off \<le> length dst \<Longrightarrow> take n (buf_copy dst off src) = take n dst"
  by (simp add: buf_copy_def min_absorb1)

lemma take_buf_copy_append:
  "off + length src \<le> length dst \<Longrightarrow>
   take (off + length src) (buf_copy dst off src) = take off dst @ src"
  by (simp add: buf_copy_def)

lemma drop_buf_copy:
  "off + length src \<le> length dst \<Longrightarrow> off + length src \<le> n \<Longrightarrow> drop n (buf_copy dst off src) = drop n dst"
  by (simp add: buf_copy_def drop_append min_absorb1)

lemma buf_slice_copy_same:
  "off + length src \<le> length dst \<Longrightarrow> buf_slice (buf_copy dst off src) off (off + length src) = src"
  by (simp add: buf_copy_def buf_slice_def min_absorb1)

lemma buf_slice_prefix:
  "take n b = take n b' \<Longrightarrow> e \<le> n \<Longrightarrow> buf_slice b s e = buf_slice b' s e"
  by (simp add: buf_slice_def) (metis (no_types, lifting) drop_take le_add_diff_inverse2 min_def min_diff take_take)

section \<open>Equal chunks\<close>

text \<open>The list of the first \<open>n\<close> chunks of \<open>c\<close> elements.\<close>

definition chunks_of :: "nat \<Rightarrow> nat \<Rightarrow> 'a list \<Rightarrow> 'a list list" where
  "chunks_of c n xs = map (\<lambda>i. buf_slice xs (i * c) (i * c + c)) [0..<n]"

lemma length_chunks_of [simp]: "length (chunks_of c n xs) = n"
  by (simp add: chunks_of_def)

lemma nth_chunks_of [simp]: "i < n \<Longrightarrow> chunks_of c n xs ! i = take c (drop (i * c) xs)"
  by (simp add: chunks_of_def buf_slice_def)

lemma chunks_of_Suc: "chunks_of c (Suc n) xs = chunks_of c n xs @ [take c (drop (n * c) xs)]"
  by (simp add: chunks_of_def buf_slice_def)

lemma concat_chunks_of: "n * c \<le> length xs \<Longrightarrow> concat (chunks_of c n xs) = take (n * c) xs"
proof (induction n)
  case 0
  then show ?case by (simp add: chunks_of_def)
next
  case (Suc n)
  then have "concat (chunks_of c (Suc n) xs) = take (n * c) xs @ take c (drop (n * c) xs)"
    by (simp add: chunks_of_Suc)
  also have "\<dots> = take (n * c + c) xs" by (simp add: take_add)
  finally show ?case by (simp add: add.commute)
qed

end
