(* ===== verification/Plan_Layout.thy ===== *)
theory Plan_Layout
  imports Strubs_Prelude
begin

text \<open>
  \<^verbatim>\<open>lib/io/plan.ts\<close>: the placement plan of an object and the chunk layout derived from its size.
  An object is cut into chunk sets; a set holds one chunk per slice. The first (start) chunk leaves
  room for the 48-byte slice header, then come full (standard) chunks, then one end chunk; all sizes
  are multiples of 8. The lemmas show that this layout covers every byte of the object, that no
  chunk set is pure padding, that every chunk fits the chunk buffer, and how far the declared
  \<open>sliceSize\<close> is from the bytes a slice really occupies.
\<close>

section \<open>The plan\<close>

definition FILE_HEADER_SIZE :: int where "FILE_HEADER_SIZE = 48"
definition CHUNK_HEADER_SIZE :: int where "CHUNK_HEADER_SIZE = 16"

record plan =
  p_fileSize :: "int option"
  p_dataSliceCount :: "int option"
  p_paritySliceCount :: "int option"
  p_dataVolumes :: "nat list"
  p_parityVolumes :: "nat list"
  p_chunkSize :: "int option"
  p_sliceSize :: "int option"
  p_startChunkDataSize :: "int option"
  p_standardChunkDataSize :: "int option"
  p_endChunkDataSize :: "int option"
  p_standardChunkCountPerSlice :: "int option"
  p_standardChunkSetOffset :: "int option"
  p_endChunkSetDataOffset :: "int option"

definition new_plan :: plan where
  "new_plan = \<lparr>p_fileSize = None, p_dataSliceCount = None, p_paritySliceCount = None,
     p_dataVolumes = [], p_parityVolumes = [], p_chunkSize = None, p_sliceSize = None,
     p_startChunkDataSize = None, p_standardChunkDataSize = None, p_endChunkDataSize = None,
     p_standardChunkCountPerSlice = None, p_standardChunkSetOffset = None,
     p_endChunkSetDataOffset = None\<rparr>"

definition totalSliceCount :: "plan \<Rightarrow> int" where
  "totalSliceCount p =
     (case p_dataSliceCount p of None \<Rightarrow> 0 | Some n \<Rightarrow> n)
     + (case p_paritySliceCount p of None \<Rightarrow> 0 | Some n \<Rightarrow> n)"

text \<open>
  \<open>populatePlanDerivedFields\<close>. The division by a zero slice count or by a chunk size that leaves no
  room for data gives \<open>Infinity\<close> or \<open>NaN\<close> in JavaScript, not an exception; the model answers
  \<open>PlanNonFinite\<close> there, so that no integer stands for such a value.
\<close>

datatype plan_error = PlanNotConfigured | PlanNonFinite

definition populatePlanDerivedFields :: "plan \<Rightarrow> plan_error + plan" where
  "populatePlanDerivedFields plan =
    (case (p_fileSize plan, p_dataSliceCount plan, p_chunkSize plan) of
       (Some fileSize, Some dataSliceCount, Some chunkSize) \<Rightarrow>
         if dataSliceCount = 0 \<or> chunkSize = CHUNK_HEADER_SIZE then Inl PlanNonFinite
         else
           let sliceDataSize = ceil_div fileSize dataSliceCount;
               startChunkSize = chunkSize - FILE_HEADER_SIZE;
               chunkCount = 1 + ceil_div (sliceDataSize - startChunkSize + CHUNK_HEADER_SIZE)
                                         (chunkSize - CHUNK_HEADER_SIZE);
               sliceSize = FILE_HEADER_SIZE + sliceDataSize + CHUNK_HEADER_SIZE * chunkCount;
               standardChunkDataSize = chunkSize - CHUNK_HEADER_SIZE;
               start0 = min (standardChunkDataSize - FILE_HEADER_SIZE) (fileSize div dataSliceCount);
               start1 = max 1 start0;
               startChunkDataSize = ceil_div start1 8 * 8;
               standardChunkSetOffset = startChunkDataSize * dataSliceCount;
               bytesRemaining = max 0 (fileSize - standardChunkSetOffset);
               bytesRemainingPerSlice = ceil_div bytesRemaining dataSliceCount;
               standardChunkCountPerSlice = bytesRemainingPerSlice div standardChunkDataSize;
               totalBytesInStandardChunks =
                 standardChunkCountPerSlice * standardChunkDataSize * dataSliceCount;
               totalBytesBeforeEndChunkSet = standardChunkSetOffset + totalBytesInStandardChunks;
               endChunkSetBytes = fileSize - totalBytesBeforeEndChunkSet;
               endChunkSetDataOffset = fileSize - endChunkSetBytes;
               end0 = ceil_div endChunkSetBytes dataSliceCount;
               endChunkDataSize = ceil_div end0 8 * 8
           in Inr (plan\<lparr>p_sliceSize := Some sliceSize,
                        p_standardChunkDataSize := Some standardChunkDataSize,
                        p_startChunkDataSize := Some startChunkDataSize,
                        p_standardChunkSetOffset := Some standardChunkSetOffset,
                        p_standardChunkCountPerSlice := Some standardChunkCountPerSlice,
                        p_endChunkSetDataOffset := Some endChunkSetDataOffset,
                        p_endChunkDataSize := Some endChunkDataSize\<rparr>)
     | _ \<Rightarrow> Inl PlanNotConfigured)"

definition computeSliceSize :: "plan \<Rightarrow> plan_error + plan" where
  "computeSliceSize = populatePlanDerivedFields"

section \<open>The layout as a sequence of chunk sizes\<close>

text \<open>
  Sizes that the production configuration guarantees: a positive object, at least one data slice,
  a chunk size that is a multiple of 8 and has room for both headers and 8 bytes of data.
\<close>

definition plan_ok :: "int \<Rightarrow> int \<Rightarrow> int \<Rightarrow> bool" where
  "plan_ok sz d C \<longleftrightarrow> 0 < sz \<and> 0 < d \<and> 72 \<le> C \<and> 8 dvd C"

record layout =
  ly_start :: int
  ly_standard :: int
  ly_count :: int
  ly_end :: int
  ly_stdOffset :: int
  ly_endOffset :: int

definition layout_of :: "plan \<Rightarrow> layout option" where
  "layout_of p =
    (case (p_startChunkDataSize p, p_standardChunkDataSize p, p_standardChunkCountPerSlice p) of
       (Some s, Some t, Some n) \<Rightarrow>
         (case (p_endChunkDataSize p, p_standardChunkSetOffset p, p_endChunkSetDataOffset p) of
            (Some e, Some so, Some eo) \<Rightarrow>
              Some \<lparr>ly_start = s, ly_standard = t, ly_count = n, ly_end = e,
                    ly_stdOffset = so, ly_endOffset = eo\<rparr>
          | _ \<Rightarrow> None)
     | _ \<Rightarrow> None)"

text \<open>The data sizes of a slice's chunks, in file order (the order \<open>verifyOpenSlice\<close> reads them in).\<close>

definition chunk_sizes :: "layout \<Rightarrow> int list" where
  "chunk_sizes l = ly_start l # replicate (nat (ly_count l)) (ly_standard l)
     @ (if 0 < ly_end l then [ly_end l] else [])"

text \<open>Bytes a complete slice file occupies: the header and, per chunk, its checksum and its data.\<close>

definition slice_file_size :: "layout \<Rightarrow> int" where
  "slice_file_size l = FILE_HEADER_SIZE + sum_list (map (\<lambda>c. CHUNK_HEADER_SIZE + c) (chunk_sizes l))"

definition mk_layout :: "int \<Rightarrow> int \<Rightarrow> int \<Rightarrow> layout" where
  "mk_layout sz d C =
     (let t = C - 16; s = ceil_div (max 1 (min (t - 48) (sz div d))) 8 * 8;
          n = ceil_div (max 0 (sz - s * d)) d div t; tot = s * d + n * t * d
      in \<lparr>ly_start = s, ly_standard = t, ly_count = n,
          ly_end = ceil_div (ceil_div (sz - tot) d) 8 * 8, ly_stdOffset = s * d, ly_endOffset = sz - (sz - tot)\<rparr>)"

lemma mk_layout_sel:
  "ly_standard (mk_layout sz d C) = C - 16"
  "ly_start (mk_layout sz d C) = ceil_div (max 1 (min (C - 16 - 48) (sz div d))) 8 * 8"
  "ly_stdOffset (mk_layout sz d C) = ly_start (mk_layout sz d C) * d"
  "ly_count (mk_layout sz d C) = ceil_div (max 0 (sz - ly_start (mk_layout sz d C) * d)) d div (C - 16)"
  "ly_endOffset (mk_layout sz d C) = sz - (sz - (ly_start (mk_layout sz d C) * d
     + ly_count (mk_layout sz d C) * (C - 16) * d))"
  "ly_end (mk_layout sz d C) = ceil_div (ceil_div (sz - (ly_start (mk_layout sz d C) * d
     + ly_count (mk_layout sz d C) * (C - 16) * d)) d) 8 * 8"
  by (simp_all only: mk_layout_def Let_def layout.simps)

lemma populate_layout:
  assumes "p_fileSize p = Some sz" "p_dataSliceCount p = Some d" "p_chunkSize p = Some C"
    and "plan_ok sz d C"
  shows "\<exists>p'. populatePlanDerivedFields p = Inr p' \<and> layout_of p' = Some (mk_layout sz d C) \<and>
    p_sliceSize p' =
      Some (48 + ceil_div sz d + 16 * (1 + ceil_div (ceil_div sz d - (C - 48) + 16) (C - 16))) \<and>
    p_dataVolumes p' = p_dataVolumes p \<and> p_parityVolumes p' = p_parityVolumes p \<and>
    p_paritySliceCount p' = p_paritySliceCount p \<and> p_dataSliceCount p' = Some d \<and>
    p_chunkSize p' = Some C \<and> p_fileSize p' = Some sz"
proof -
  let ?l = "mk_layout sz d C"
  have nf: "\<not> (d = 0 \<or> C = 16)" using assms(4) by (auto simp: plan_ok_def)
  have "populatePlanDerivedFields p = Inr (p\<lparr>
      p_sliceSize :=
        Some (48 + ceil_div sz d + 16 * (1 + ceil_div (ceil_div sz d - (C - 48) + 16) (C - 16))),
      p_standardChunkDataSize := Some (ly_standard ?l), p_startChunkDataSize := Some (ly_start ?l),
      p_standardChunkSetOffset := Some (ly_stdOffset ?l),
      p_standardChunkCountPerSlice := Some (ly_count ?l),
      p_endChunkSetDataOffset := Some (ly_endOffset ?l), p_endChunkDataSize := Some (ly_end ?l)\<rparr>)"
    unfolding populatePlanDerivedFields_def mk_layout_def FILE_HEADER_SIZE_def CHUNK_HEADER_SIZE_def
      assms(1-3) option.case prod.case Let_def layout.simps if_not_P [OF nf] ..
  then show ?thesis using assms(1-3) by (simp add: layout_of_def)
qed

subsection \<open>Arithmetic of the layout\<close>

lemma dvd8_round [simp]: "8 dvd ceil_div x 8 * 8" for x :: int
  by simp

lemma round8_le: "8 dvd b \<Longrightarrow> a \<le> b \<Longrightarrow> ceil_div a 8 * 8 \<le> b" for a b :: int
proof -
  assume "8 dvd b" "a \<le> b"
  then obtain k where k: "b = 8 * k" by (elim dvdE)
  then have "ceil_div a 8 \<le> k" using \<open>a \<le> b\<close> by (simp add: ceil_div_le_iff)
  then show ?thesis using k by simp
qed

lemma round8_bounds: "a \<le> ceil_div a 8 * 8" "ceil_div a 8 * 8 \<le> a + 7" for a :: int
  using ceil_div_mult_ge [of 8 a] ceil_div_mult_less [of 8 a] by simp_all

lemma round8_dvd: "8 dvd a \<Longrightarrow> ceil_div a 8 * 8 = a" for a :: int
  using round8_le [of a a] round8_bounds(1) [of a] by simp

lemma ceil_floor_div: "0 < d \<Longrightarrow> ceil_div a d \<le> a div d + 1" "0 < d \<Longrightarrow> a div d \<le> ceil_div a d" for a d :: int
proof -
  assume d: "0 < d"
  have m: "a = a div d * d + a mod d" "0 \<le> a mod d" "a mod d < d" using d by simp_all
  show "ceil_div a d \<le> a div d + 1"
    unfolding ceil_div_le_iff [OF d] distrib_right using m by linarith
  have "a div d * d \<le> ceil_div a d * d" using m ceil_div_mult_ge [OF d, of a] by linarith
  then show "a div d \<le> ceil_div a d" using d by simp
qed

text \<open>The start chunk: a positive multiple of 8 that leaves room for the slice header.\<close>

lemma start_bounds:
  assumes "plan_ok sz d C"
  shows "8 \<le> ly_start (mk_layout sz d C)" "8 dvd ly_start (mk_layout sz d C)"
    "ly_start (mk_layout sz d C) + 48 \<le> ly_standard (mk_layout sz d C)"
    "ly_start (mk_layout sz d C) \<le> max 1 (sz div d) + 7"
proof -
  define m where "m = max 1 (min (C - 16 - 48) (sz div d))"
  have s: "ly_start (mk_layout sz d C) = ceil_div m 8 * 8" "ly_standard (mk_layout sz d C) = C - 16"
    by (simp_all add: mk_layout_sel(1,2) m_def)
  have C: "72 \<le> C" "8 dvd C" using assms by (auto simp: plan_ok_def)
  have "0 < ceil_div m 8" by (simp add: less_ceil_div_iff m_def)
  then show "8 \<le> ly_start (mk_layout sz d C)" by (simp add: s)
  show "8 dvd ly_start (mk_layout sz d C)" by (simp add: s)
  have "m \<le> C - 64" "8 dvd C - 64" using C by (auto simp: m_def)
  then show "ly_start (mk_layout sz d C) + 48 \<le> ly_standard (mk_layout sz d C)"
    using round8_le [of "C - 64" m] by (simp add: s)
  have "m \<le> max 1 (sz div d)" by (auto simp: m_def)
  then show "ly_start (mk_layout sz d C) \<le> max 1 (sz div d) + 7"
    using round8_bounds(2) [of m] by (simp add: s)
qed

text \<open>The three regions: where the standard chunk sets and the end chunk set begin.\<close>

lemma layout_offsets [layout_simps]:
  "ly_stdOffset (mk_layout sz d C) = ly_start (mk_layout sz d C) * d"
  "ly_endOffset (mk_layout sz d C) =
     (ly_start (mk_layout sz d C) + ly_count (mk_layout sz d C) * ly_standard (mk_layout sz d C)) * d"
  "ly_standard (mk_layout sz d C) = C - 16"
  by (simp_all add: mk_layout_sel(1,3,5) distrib_right)

lemma count_bounds:
  assumes "plan_ok sz d C"
  defines "l \<equiv> mk_layout sz d C"
  shows "0 \<le> ly_count l"
    "ly_count l * ly_standard l \<le> ceil_div (max 0 (sz - ly_stdOffset l)) d"
    "ceil_div (max 0 (sz - ly_stdOffset l)) d < (ly_count l + 1) * ly_standard l"
proof -
  define B where "B = ceil_div (max 0 (sz - ly_stdOffset l)) d"
  have d: "0 < d" and t: "0 < ly_standard l"
    using assms(1) by (auto simp: plan_ok_def l_def layout_simps)
  have n: "ly_count l = B div ly_standard l"
    by (simp add: B_def l_def mk_layout_sel(1,3) mk_layout_sel(4))
  have "0 \<le> B" using d by (simp add: B_def ceil_div_nonneg)
  then show "0 \<le> ly_count l" using t by (simp add: n pos_imp_zdiv_nonneg_iff)
  have m: "B = ly_count l * ly_standard l + B mod ly_standard l" "0 \<le> B mod ly_standard l"
    "B mod ly_standard l < ly_standard l" using t by (simp_all add: n)
  show "ly_count l * ly_standard l \<le> ceil_div (max 0 (sz - ly_stdOffset l)) d"
    unfolding B_def [symmetric] using m by linarith
  show "ceil_div (max 0 (sz - ly_stdOffset l)) d < (ly_count l + 1) * ly_standard l"
    unfolding B_def [symmetric] distrib_right using m by linarith
qed

text \<open>The end chunk: nonnegative, a multiple of 8, at most a standard chunk.\<close>

lemma end_bounds:
  assumes "plan_ok sz d C"
  defines "l \<equiv> mk_layout sz d C"
  shows "0 \<le> ly_end l" "8 dvd ly_end l" "ly_end l \<le> ly_standard l"
    "sz \<le> ly_endOffset l + ly_end l * d" "0 < ly_end l \<longleftrightarrow> ly_endOffset l < sz"
    "ly_end l < sz - ly_endOffset l + 8 * d \<or> ly_end l = 0"
proof -
  define E where "E = sz - ly_endOffset l"
  have d: "0 < d" and C: "72 \<le> C" "8 dvd C" and sz: "0 < sz"
    using assms(1) by (auto simp: plan_ok_def)
  have e: "ly_end l = ceil_div (ceil_div E d) 8 * 8"
    by (simp add: E_def l_def mk_layout_sel(5) mk_layout_sel(6))
  show "8 dvd ly_end l" by (simp add: e)
  have E: "E = sz - ly_stdOffset l - ly_count l * ly_standard l * d"
    by (simp add: E_def l_def layout_simps distrib_right)
  note cb = count_bounds [OF assms(1), folded l_def]
  have low: "-7 \<le> ceil_div E d"
  proof (cases "ly_stdOffset l < sz")
    case True
    then have "ceil_div (max 0 (sz - ly_stdOffset l)) d = ceil_div E d + ly_count l * ly_standard l"
      using ceil_div_add_mult [OF d, of E "ly_count l * ly_standard l"] by (simp add: E)
    with cb(2) show ?thesis by linarith
  next
    case False
    then have "ceil_div (max 0 (sz - ly_stdOffset l)) d = 0"
      using d by (simp add: ceil_div_def)
    moreover have "0 \<le> ly_count l * ly_standard l" using cb(1) C by (simp add: l_def layout_simps)
    ultimately have "ly_count l * ly_standard l = 0" using cb(2) by linarith
    then have "E = sz - ly_start l * d" by (simp add: E l_def layout_simps)
    then have "ceil_div E d = ceil_div sz d - ly_start l"
      using ceil_div_add_mult [OF d, of sz "- ly_start l"] by simp
    moreover have "ly_start l \<le> max 1 (sz div d) + 7"
      using start_bounds(4) [OF assms(1)] by (simp add: l_def)
    moreover have "max 1 (sz div d) \<le> ceil_div sz d"
      using ceil_floor_div(2) [OF d, of sz] less_ceil_div_iff [OF d, of 0 sz] sz by simp
    ultimately show ?thesis by linarith
  qed
  then show nn: "0 \<le> ly_end l" using less_ceil_div_iff [of 8 "-1" "ceil_div E d"] by (simp add: e)
  have "ceil_div E d \<le> ly_standard l"
  proof (cases "ly_stdOffset l < sz")
    case True
    then have "ceil_div (max 0 (sz - ly_stdOffset l)) d = ceil_div E d + ly_count l * ly_standard l"
      using ceil_div_add_mult [OF d, of E "ly_count l * ly_standard l"] by (simp add: E)
    with cb(3) show ?thesis by (simp add: distrib_right)
  next
    case False
    moreover have "0 \<le> ly_count l * ly_standard l * d" using cb(1) d C by (simp add: l_def layout_simps)
    ultimately have "E \<le> 0" by (simp add: E)
    then have "ceil_div E d \<le> 0" using d by (simp add: ceil_div_le_iff)
    with C show ?thesis by (simp add: l_def layout_simps)
  qed
  moreover have "8 dvd ly_standard l" using C(2) by (simp add: l_def layout_simps)
  ultimately show "ly_end l \<le> ly_standard l" by (simp add: e round8_le)
  have "E \<le> ceil_div E d * d" by (rule ceil_div_mult_ge [OF d])
  also have "\<dots> \<le> ly_end l * d" using d round8_bounds(1) by (simp add: e mult_right_mono)
  finally show cover: "sz \<le> ly_endOffset l + ly_end l * d" by (simp add: E_def)
  show iff: "0 < ly_end l \<longleftrightarrow> ly_endOffset l < sz"
    using d by (simp add: e less_ceil_div_iff E_def)
  show "ly_end l < sz - ly_endOffset l + 8 * d \<or> ly_end l = 0"
  proof (cases "0 < ly_end l")
    case True
    have "ceil_div E d \<le> E" using True iff d by (simp add: ceil_div_le_iff E_def)
    then show ?thesis using round8_bounds(2) [of "ceil_div E d"] d by (simp add: e E_def)
  qed (use nn in simp)
qed

subsection \<open>The chunk sequence\<close>

lemma sum_chunk_sizes:
  assumes "plan_ok sz d C"
  defines "l \<equiv> mk_layout sz d C"
  shows "sum_list (chunk_sizes l) = ly_start l + ly_count l * ly_standard l + ly_end l"
    "int (length (chunk_sizes l)) = 1 + ly_count l + (if 0 < ly_end l then 1 else 0)"
  using count_bounds(1) [OF assms(1)] end_bounds(1) [OF assms(1)]
  by (auto simp: chunk_sizes_def l_def sum_list_replicate)

lemma chunk_sizes_bounds:
  assumes "plan_ok sz d C" and "c \<in> set (chunk_sizes (mk_layout sz d C))"
  shows "0 < c" "8 dvd c" "c + 16 \<le> C"
proof -
  have C: "72 \<le> C" "8 dvd C" using assms(1) by (auto simp: plan_ok_def)
  have "c = ly_start (mk_layout sz d C) \<or> c = C - 16 \<or> c = ly_end (mk_layout sz d C) \<and> 0 < c"
    using assms(2) by (auto simp: chunk_sizes_def layout_simps split: if_splits)
  then show "0 < c" "8 dvd c" "c + 16 \<le> C"
    using start_bounds(1-3) [OF assms(1)] end_bounds(2,3) [OF assms(1)] C
    by (auto simp: layout_simps)
qed

lemma slice_file_size_eq:
  "slice_file_size l = 48 + 16 * int (length (chunk_sizes l)) + sum_list (chunk_sizes l)"
  unfolding slice_file_size_def FILE_HEADER_SIZE_def CHUNK_HEADER_SIZE_def
  by (simp add: sum_list_addf sum_list_triv)

lemma end_zero_last:
  assumes "plan_ok sz d C" and "ly_end (mk_layout sz d C) = 0" and "0 < ly_count (mk_layout sz d C)"
  defines "l \<equiv> mk_layout sz d C"
  shows "(ly_start l + (ly_count l - 1) * ly_standard l) * d < sz"
proof -
  have d: "0 < d" and t: "0 < ly_standard l" using assms(1) by (auto simp: plan_ok_def l_def layout_simps)
  have n: "0 < ly_count l" using assms(3) by (simp add: l_def)
  have "1 * ly_standard l \<le> ly_count l * ly_standard l"
    using n t by (intro mult_right_mono) simp_all
  then have "ly_standard l \<le> ceil_div (max 0 (sz - ly_stdOffset l)) d"
    using count_bounds(2) [OF assms(1), folded l_def] by linarith
  then have pos: "max 0 (sz - ly_stdOffset l) = sz - ly_stdOffset l"
    using t d ceil_div_le_iff [OF d, of "max 0 (sz - ly_stdOffset l)" 0] by (auto simp: max_def split: if_splits)
  have "(ly_count l - 1) * ly_standard l < ceil_div (sz - ly_stdOffset l) d"
    using count_bounds(2) [OF assms(1), folded l_def] t by (simp add: pos left_diff_distrib)
  then have "(ly_count l - 1) * ly_standard l * d < sz - ly_stdOffset l"
    using d by (simp add: less_ceil_div_iff)
  then show ?thesis by (simp add: l_def layout_simps distrib_right)
qed

lemma butlast_chunks_less:
  assumes "plan_ok sz d C"
  shows "d * sum_list (butlast (chunk_sizes (mk_layout sz d C))) < sz"
proof -
  let ?l = "mk_layout sz d C"
  have sz: "0 < sz" using assms by (simp add: plan_ok_def)
  have n: "0 \<le> ly_count ?l" by (rule count_bounds(1) [OF assms])
  show ?thesis
  proof (cases "0 < ly_end ?l")
    case True
    then have "sum_list (butlast (chunk_sizes ?l)) = ly_start ?l + ly_count ?l * ly_standard ?l"
      using n by (simp add: chunk_sizes_def butlast_append sum_list_replicate)
    moreover have "ly_endOffset ?l < sz" using True end_bounds(5) [OF assms] by simp
    ultimately show ?thesis by (simp add: layout_offsets(2) mult.commute)
  next
    case False
    then have e: "ly_end ?l = 0" using end_bounds(1) [OF assms] by simp
    show ?thesis
    proof (cases "ly_count ?l = 0")
      case True
      then show ?thesis using e sz by (simp add: chunk_sizes_def)
    next
      case nz: False
      then obtain k where k: "nat (ly_count ?l) = Suc k" using n by (cases "nat (ly_count ?l)") auto
      then have "sum_list (butlast (chunk_sizes ?l)) = ly_start ?l + int k * ly_standard ?l"
        using e by (simp add: chunk_sizes_def sum_list_replicate replicate_append_same [symmetric] butlast_append)
      moreover have "int k = ly_count ?l - 1" using k n by linarith
      ultimately have "d * sum_list (butlast (chunk_sizes ?l)) =
          (ly_start ?l + (ly_count ?l - 1) * ly_standard ?l) * d" by (simp add: mult.commute)
      also have "\<dots> < sz" using end_zero_last [OF assms e] nz n by simp
      finally show ?thesis .
    qed
  qed
qed

text \<open>
  The derived layout partitions the object: its chunk sets have room for every byte, no chunk set
  but the last is incomplete and none is pure padding, and each chunk (with its checksum) fits the
  chunk buffer, at a data size that is a positive multiple of 8.
\<close>

theorem layout_covers_object:
  assumes "p_fileSize p = Some sz" "p_dataSliceCount p = Some d" "p_chunkSize p = Some C"
    and "plan_ok sz d C"
  shows "\<exists>p' l. populatePlanDerivedFields p = Inr p' \<and> layout_of p' = Some l \<and>
    sz \<le> d * sum_list (chunk_sizes l) \<and> d * sum_list (butlast (chunk_sizes l)) < sz \<and>
    (\<forall>c \<in> set (chunk_sizes l). 0 < c \<and> 8 dvd c \<and> c + CHUNK_HEADER_SIZE \<le> C)"
proof -
  let ?l = "mk_layout sz d C"
  obtain p' where p': "populatePlanDerivedFields p = Inr p'" "layout_of p' = Some ?l"
    using populate_layout [OF assms] by blast
  have d: "0 < d" "0 < sz" using assms(4) by (auto simp: plan_ok_def)
  have cover: "sz \<le> d * sum_list (chunk_sizes ?l)"
    using end_bounds(4) [OF assms(4)]
    by (simp add: sum_chunk_sizes [OF assms(4)] layout_simps algebra_simps)
  have "d * sum_list (butlast (chunk_sizes ?l)) < sz"
    by (rule butlast_chunks_less [OF assms(4)])
  with p' cover show ?thesis
    using chunk_sizes_bounds [OF assms(4)] by (auto simp: CHUNK_HEADER_SIZE_def)
qed

theorem layout_covers_object_witness:
  "\<exists>p' l. populatePlanDerivedFields (new_plan\<lparr>p_fileSize := Some 100000, p_dataSliceCount := Some 4,
       p_chunkSize := Some 16384\<rparr>) = Inr p' \<and> layout_of p' = Some l \<and>
    100000 \<le> 4 * sum_list (chunk_sizes l) \<and> 4 * sum_list (butlast (chunk_sizes l)) < 100000 \<and>
    (\<forall>c \<in> set (chunk_sizes l). 0 < c \<and> 8 dvd c \<and> c + CHUNK_HEADER_SIZE \<le> 16384)"
  by (rule layout_covers_object) (simp_all add: plan_ok_def)

subsection \<open>The declared slice size\<close>

lemma per_slice_data:
  assumes "plan_ok sz d C"
  defines "l \<equiv> mk_layout sz d C"
  shows "ceil_div sz d \<le> sum_list (chunk_sizes l)" "sum_list (chunk_sizes l) \<le> ceil_div sz d + 7"
    "0 < ly_end l \<longleftrightarrow> ly_start l + ly_count l * ly_standard l < ceil_div sz d"
proof -
  have d: "0 < d" using assms(1) by (simp add: plan_ok_def)
  define r where "r = ceil_div sz d - (ly_start l + ly_count l * ly_standard l)"
  have "ceil_div (sz - ly_endOffset l) d = r"
    by (simp only: l_def layout_offsets(2) r_def ceil_div_diff_mult [OF d])
  then have e: "ly_end l = ceil_div r 8 * 8"
    by (simp add: l_def mk_layout_sel(5) mk_layout_sel(6))
  then show "ceil_div sz d \<le> sum_list (chunk_sizes l)" "sum_list (chunk_sizes l) \<le> ceil_div sz d + 7"
    using round8_bounds [of r] by (simp_all add: sum_chunk_sizes [OF assms(1), folded l_def] r_def)
  show "0 < ly_end l \<longleftrightarrow> ly_start l + ly_count l * ly_standard l < ceil_div sz d"
    by (simp add: e less_ceil_div_iff r_def)
qed

lemma ceil_div_eqI: "0 < b \<Longrightarrow> (q - 1) * b < a \<Longrightarrow> a \<le> q * b \<Longrightarrow> ceil_div a b = q" for a b q :: int
  using less_ceil_div_iff [of b "q - 1" a] ceil_div_le_iff [of b a q] by linarith

lemma chunk_count_bounds:
  assumes "plan_ok sz d C"
  defines "l \<equiv> mk_layout sz d C"
    and "cc \<equiv> 1 + ceil_div (ceil_div sz d - (C - 48) + 16) (C - 16)"
  shows "cc \<le> int (length (chunk_sizes l))" "int (length (chunk_sizes l)) \<le> cc + 1"
proof -
  define S where "S = ceil_div sz d"
  have d: "0 < d" and C: "72 \<le> C" "8 dvd C" and sz: "0 < sz"
    using assms(1) by (auto simp: plan_ok_def)
  have S1: "1 \<le> S" using sz less_ceil_div_iff [OF d, of 0 sz] by (simp add: S_def)
  have t: "ly_standard l = C - 16" by (simp add: l_def layout_simps)
  have len: "int (length (chunk_sizes l)) = 1 + ly_count l + (if 0 < ly_end l then 1 else 0)"
    by (simp add: l_def sum_chunk_sizes [OF assms(1)])
  note iff = per_slice_data(3) [OF assms(1), folded l_def, folded S_def]
  have so: "ly_stdOffset l = ly_start l * d" by (simp add: l_def layout_simps)
  have B: "ceil_div (max 0 (sz - ly_stdOffset l)) d = max 0 (S - ly_start l)"
  proof -
    have eq: "ceil_div (sz - ly_start l * d) d = S - ly_start l"
      using ceil_div_add_mult [OF d, of sz "- ly_start l"] by (simp add: S_def)
    show ?thesis
    proof (cases "sz \<le> ly_start l * d")
      case True
      then have "S \<le> ly_start l" using d by (simp add: S_def ceil_div_le_iff)
      with True d show ?thesis by (simp add: so ceil_div_def)
    next
      case False
      then have "ly_start l < S" using d by (simp add: S_def less_ceil_div_iff)
      with False eq show ?thesis by (simp add: so)
    qed
  qed
  note cb = count_bounds [OF assms(1), folded l_def, unfolded B t]
  have "cc \<le> int (length (chunk_sizes l)) \<and> int (length (chunk_sizes l)) \<le> cc + 1"
  proof (cases "C - 64 \<le> sz div d")
    case True
    then have "ly_start l = ceil_div (C - 64) 8 * 8"
      using C by (simp add: l_def mk_layout_sel(2) min_absorb1 max_absorb2)
    moreover have "8 dvd C - 64" using C(2) by simp
    ultimately have st: "ly_start l = C - 64" by (simp add: round8_dvd)
    have ge: "C - 64 \<le> S" using True ceil_floor_div(2) [OF d, of sz] by (simp add: S_def)
    define n where "n = ly_count l"
    have "ceil_div (S - (C - 48) + 16) (C - 16) = n + (if 0 < ly_end l then 1 else 0)"
    proof (rule ceil_div_eqI)
      show "0 < C - 16" using C by simp
      show "(n + (if 0 < ly_end l then 1 else 0) - 1) * (C - 16) < S - (C - 48) + 16"
        using cb(2) ge st iff C by (auto simp: n_def t left_diff_distrib distrib_right)
      show "S - (C - 48) + 16 \<le> (n + (if 0 < ly_end l then 1 else 0)) * (C - 16)"
        using cb(3) ge st iff by (auto simp: n_def t distrib_right)
    qed
    then show ?thesis by (simp add: cc_def S_def len n_def)
  next
    case False
    then have "S \<le> C - 64" using ceil_floor_div(1) [OF d, of sz] by (simp add: S_def)
    then have "ceil_div (S - (C - 48) + 16) (C - 16) = 0"
      using S1 C by (intro ceil_div_eqI) simp_all
    moreover have "ly_count l = 0"
    proof -
      have "ly_start l \<ge> max 1 (sz div d)"
        using False round8_bounds(1) [of "max 1 (sz div d)"]
        by (simp add: l_def mk_layout_sel(2) min_absorb2)
      then have "max 0 (S - ly_start l) \<le> 1"
        using ceil_floor_div(1) [OF d, of sz] by (simp add: S_def)
      with cb(2) have "ly_count l * (C - 16) \<le> 1" by (rule order_trans)
      also have "1 < 1 * (C - 16)" using C by simp
      finally have "ly_count l * (C - 16) < 1 * (C - 16)" .
      then have "ly_count l < 1" using C by (simp only: mult_less_cancel_right)
      then show ?thesis using cb(1) by simp
    qed
    ultimately show ?thesis by (simp add: cc_def S_def len)
  qed
  then show "cc \<le> int (length (chunk_sizes l))" "int (length (chunk_sizes l)) \<le> cc + 1" by simp_all
qed

text \<open>
  \<open>plan.sliceSize\<close>, which the planner reserves on each volume and which is stored in the object's
  record, never exceeds the size of the slice file the writer produces, and falls short of it by at
  most 23 bytes (8-byte rounding and at most one end chunk it did not count).
\<close>

theorem sliceSize_close_to_file:
  assumes "p_fileSize p = Some sz" "p_dataSliceCount p = Some d" "p_chunkSize p = Some C"
    and "plan_ok sz d C"
  shows "\<exists>p' l s. populatePlanDerivedFields p = Inr p' \<and> layout_of p' = Some l \<and>
    p_sliceSize p' = Some s \<and> s \<le> slice_file_size l \<and> slice_file_size l \<le> s + 23"
proof -
  let ?l = "mk_layout sz d C"
  obtain p' where p': "populatePlanDerivedFields p = Inr p'" "layout_of p' = Some ?l"
    "p_sliceSize p' =
      Some (48 + ceil_div sz d + 16 * (1 + ceil_div (ceil_div sz d - (C - 48) + 16) (C - 16)))"
    using populate_layout [OF assms] by blast
  with per_slice_data(1,2) [OF assms(4)] chunk_count_bounds [OF assms(4)] show ?thesis
    by (simp add: slice_file_size_eq)
qed

theorem sliceSize_close_to_file_witness:
  "\<exists>p' l s. populatePlanDerivedFields (new_plan\<lparr>p_fileSize := Some 1, p_dataSliceCount := Some 4,
       p_chunkSize := Some 16384\<rparr>) = Inr p' \<and> layout_of p' = Some l \<and>
    p_sliceSize p' = Some s \<and> s \<le> slice_file_size l \<and> slice_file_size l \<le> s + 23"
  by (rule sliceSize_close_to_file [where sz = 1 and d = 4 and C = 16384]) (simp_all add: plan_ok_def)

end
