(* ===== verification/Object_Codec.thy ===== *)
theory Object_Codec
  imports Plan_Layout
begin

text \<open>
  \<^verbatim>\<open>lib/io/file-object/base.ts\<close>: the state shared by the object writer and reader, with its three
  configurations (start, middle, end chunk group), and the erasure code they use. The Reed-Solomon
  library is outside the repository: its \<open>encode\<close> is a parameter, and \<open>rs_law\<close> states its documented
  behaviour (any \<open>d\<close> present shards determine the rest). The second half gives the reference meaning
  of an object's slices: which bytes of the object, or of the parity computed from them, chunk \<open>j\<close>
  of slice \<open>i\<close> holds.
\<close>

section \<open>The shared state\<close>

record base =
  b_size :: nat
  b_chunkSize :: nat
  b_dataSliceCount :: nat
  b_paritySliceCount :: nat
  b_rsSourcesBits :: "32 word"
  b_rsTargetsBits :: "32 word"
  b_dataOffset :: nat
  b_chunkSetBuffer :: bytes
  b_chunkSetBufferPosition :: nat
  b_chunkSetBufferRemaining :: nat
  b_startChunkDataSize :: nat
  b_standardChunkSetOffset :: nat
  b_standardChunkDataSize :: nat
  b_standardChunkSetDataSize :: nat
  b_standardChunkCountPerSlice :: nat
  b_endChunkSetDataOffset :: nat
  b_endChunkDataSize :: nat
  b_nextChunkGroupOffset :: nat
  b_chunkDataSize :: nat
  b_chunkSetDataSize :: nat
  b_chunkSetParityOffset :: nat
  b_chunkSetParitySize :: nat
  b_chunkSetSliceOffsets :: "nat list"
  b_chunkSetNextSliceIndex :: nat
  b_chunkSetNextSliceOffset :: nat

definition MAX_SAFE_INTEGER :: nat where "MAX_SAFE_INTEGER = 9007199254740991"

abbreviation totalSlices :: "'a base_scheme \<Rightarrow> nat" where
  "totalSlices b \<equiv> b_dataSliceCount b + b_paritySliceCount b"

definition new_base :: "nat \<Rightarrow> nat \<Rightarrow> nat \<Rightarrow> nat \<Rightarrow> base" where
  "new_base sz chunkSize d p = \<lparr>b_size = sz, b_chunkSize = chunkSize, b_dataSliceCount = d,
     b_paritySliceCount = p, b_rsSourcesBits = 0, b_rsTargetsBits = 0, b_dataOffset = 0,
     b_chunkSetBuffer = [], b_chunkSetBufferPosition = 0, b_chunkSetBufferRemaining = 0,
     b_startChunkDataSize = 0, b_standardChunkSetOffset = 0, b_standardChunkDataSize = 0,
     b_standardChunkSetDataSize = 0, b_standardChunkCountPerSlice = 0, b_endChunkSetDataOffset = 0,
     b_endChunkDataSize = 0, b_nextChunkGroupOffset = 0, b_chunkDataSize = 0, b_chunkSetDataSize = 0,
     b_chunkSetParityOffset = 0, b_chunkSetParitySize = 0, b_chunkSetSliceOffsets = [],
     b_chunkSetNextSliceIndex = 0, b_chunkSetNextSliceOffset = 0\<rparr>"

text \<open>
  \<open>_configureInternals\<close>: \<open>rsCreate\<close> is what the library's \<open>create\<close> throws for these counts, and
  \<open>mem\<close> the unspecified contents of the buffer \<open>allocUnsafe\<close> returns.
\<close>

definition configureInternals ::
  "(nat \<Rightarrow> nat \<Rightarrow> js_error option) \<Rightarrow> (nat \<Rightarrow> bytes) \<Rightarrow> plan option \<Rightarrow> 'a base_scheme \<Rightarrow> js_error + 'a base_scheme" where
  "configureInternals rsCreate mem plan b =
    (case rsCreate (b_dataSliceCount b) (b_paritySliceCount b) of Some e \<Rightarrow> Inl e
     | None \<Rightarrow>
       (case plan of None \<Rightarrow> Inl (plain_error ''plan not configured'')
        | Some p \<Rightarrow>
          (case layout_of p of None \<Rightarrow> Inl (plain_error ''plan not configured'')
           | Some l \<Rightarrow>
             Inr (b\<lparr>b_dataOffset := 0,
                    b_standardChunkDataSize := nat (ly_standard l),
                    b_standardChunkSetDataSize := nat (ly_standard l) * b_dataSliceCount b,
                    b_chunkSetBuffer := mem (nat (ly_standard l) * totalSlices b),
                    b_startChunkDataSize := nat (ly_start l),
                    b_standardChunkSetOffset := nat (ly_stdOffset l),
                    b_endChunkSetDataOffset := nat (ly_endOffset l),
                    b_endChunkDataSize := nat (ly_end l),
                    b_standardChunkCountPerSlice := nat (ly_count l)\<rparr>))))"

definition resetBufferPositions :: "'a base_scheme \<Rightarrow> 'a base_scheme" where
  "resetBufferPositions b = b\<lparr>b_chunkSetNextSliceIndex := 1,
     b_chunkSetNextSliceOffset :=
       (if 1 < length (b_chunkSetSliceOffsets b) then b_chunkSetSliceOffsets b ! 1 else 0),
     b_chunkSetBufferPosition := 0, b_chunkSetBufferRemaining := b_chunkSetDataSize b\<rparr>"

definition configureCommonState :: "'a base_scheme \<Rightarrow> 'a base_scheme" where
  "configureCommonState b = resetBufferPositions (b\<lparr>
     b_chunkSetDataSize := b_chunkDataSize b * b_dataSliceCount b,
     b_chunkSetParityOffset := b_chunkDataSize b * b_dataSliceCount b,
     b_chunkSetParitySize := b_chunkDataSize b * b_paritySliceCount b,
     b_chunkSetSliceOffsets := map (\<lambda>i. i * b_chunkDataSize b) [0..<totalSlices b]\<rparr>)"

definition configureStartState :: "'a base_scheme \<Rightarrow> 'a base_scheme" where
  "configureStartState b = configureCommonState (b\<lparr>b_chunkDataSize := b_startChunkDataSize b,
     b_nextChunkGroupOffset := b_standardChunkSetOffset b\<rparr>)"

definition configureMiddleState :: "'a base_scheme \<Rightarrow> 'a base_scheme" where
  "configureMiddleState b = configureCommonState (b\<lparr>b_chunkDataSize := b_standardChunkDataSize b,
     b_nextChunkGroupOffset := b_endChunkSetDataOffset b\<rparr>)"

definition configureEndState :: "'a base_scheme \<Rightarrow> 'a base_scheme" where
  "configureEndState b = configureCommonState (b\<lparr>b_chunkDataSize := b_endChunkDataSize b,
     b_nextChunkGroupOffset := MAX_SAFE_INTEGER\<rparr>)"

definition configureNextChunkGroup :: "'a base_scheme \<Rightarrow> js_error + 'a base_scheme" where
  "configureNextChunkGroup b =
    (if b_dataOffset b = b_endChunkSetDataOffset b then Inr (configureEndState b)
     else if b_dataOffset b = b_standardChunkSetOffset b then Inr (configureMiddleState b)
     else Inl (plain_error ''data offset not valid for this operation''))"

section \<open>The erasure code\<close>

text \<open>
  \<open>encode(ctx, sources, targets, input, output)\<close>: the new contents of the data region and of the
  parity region. Shards are numbered through both regions.
\<close>

type_synonym rs_encode = "32 word \<Rightarrow> 32 word \<Rightarrow> bytes \<Rightarrow> bytes \<Rightarrow> js_error + bytes \<times> bytes"

definition shard :: "nat \<Rightarrow> nat \<Rightarrow> bytes \<Rightarrow> bytes" where
  "shard c i cw = take c (drop (i * c) cw)"

definition shard_set :: "nat \<Rightarrow> 32 word \<Rightarrow> nat set" where
  "shard_set n s = {i. i < n \<and> bit s i}"

definition rs_law :: "nat \<Rightarrow> nat \<Rightarrow> rs_encode \<Rightarrow> (bytes \<Rightarrow> bytes) \<Rightarrow> bool" where
  "rs_law d p enc par \<longleftrightarrow>
    (\<forall>c data. length data = d * c \<longrightarrow> length (par data) = p * c) \<and>
    (\<forall>c S T data inp out. 0 < c \<and> 8 dvd c \<and> length data = d * c \<and> length inp = d * c \<and> length out = p * c \<and>
       d \<le> card (shard_set (d + p) S) \<and> shard_set (d + p) S \<inter> shard_set (d + p) T = {} \<and>
       (\<forall>i \<in> shard_set (d + p) S. shard c i (inp @ out) = shard c i (data @ par data)) \<longrightarrow>
       (\<exists>inp' out'. enc S T inp out = Inr (inp', out') \<and> length inp' = d * c \<and> length out' = p * c \<and>
          (\<forall>i < d + p. shard c i (inp' @ out') =
             (if i \<in> shard_set (d + p) T then shard c i (data @ par data) else shard c i (inp @ out)))))"

lemma rs_lawD:
  assumes "rs_law d p enc par" "0 < c" "8 dvd c" "length data = d * c" "length inp = d * c" "length out = p * c"
    and "d \<le> card (shard_set (d + p) S)" "shard_set (d + p) S \<inter> shard_set (d + p) T = {}"
    and "\<And>i. i \<in> shard_set (d + p) S \<Longrightarrow> shard c i (inp @ out) = shard c i (data @ par data)"
  obtains inp' out' where "enc S T inp out = Inr (inp', out')" "length inp' = d * c" "length out' = p * c"
    "\<And>i. i < d + p \<Longrightarrow> shard c i (inp' @ out') =
       (if i \<in> shard_set (d + p) T then shard c i (data @ par data) else shard c i (inp @ out))"
proof -
  note law = assms(1) [unfolded rs_law_def, THEN conjunct2, THEN spec [of _ c], THEN spec [of _ S], THEN spec [of _ T],
      THEN spec [of _ data], THEN spec [of _ inp], THEN spec [of _ out], THEN mp]
  show thesis using law assms(2-) that by auto
qed

text \<open>\<open>_computeParity\<close>: the library call on the two regions of the chunk set buffer.\<close>

definition computeParity :: "rs_encode \<Rightarrow> 'a base_scheme \<Rightarrow> js_error + 'a base_scheme" where
  "computeParity enc b =
    (let ds = b_chunkSetDataSize b; po = b_chunkSetParityOffset b; ps = b_chunkSetParitySize b in
     case enc (b_rsSourcesBits b) (b_rsTargetsBits b) (buf_slice (b_chunkSetBuffer b) 0 ds)
            (buf_slice (b_chunkSetBuffer b) po (po + ps)) of
       Inl e \<Rightarrow> Inl e
     | Inr (inp, out) \<Rightarrow> Inr (b\<lparr>b_chunkSetBuffer := buf_copy (buf_copy (b_chunkSetBuffer b) 0 inp) po out\<rparr>))"

text \<open>The loops that build the two bit masks (\<open>x |= 1 << index\<close>).\<close>

definition bits_from :: "nat list \<Rightarrow> 32 word" where
  "bits_from is = fold (\<lambda>i s. s OR push_bit i 1) is 0"

lemma bit_fold_or: "bit (fold (\<lambda>i s. s OR push_bit i (1 :: 32 word)) is s) k \<longleftrightarrow> bit s k \<or> k \<in> set is \<and> k < 32"
  by (induction "is" arbitrary: s) (auto simp: bit_simps)

lemma bit_bits_from [simp]: "bit (bits_from is) k \<longleftrightarrow> k \<in> set is \<and> k < 32"
  unfolding bits_from_def by (subst bit_fold_or) simp

lemma shard_set_bits_from: "n \<le> 32 \<Longrightarrow> shard_set n (bits_from is) = set is \<inter> {..<n}"
  by (auto simp: shard_set_def)

section \<open>What the slices of an object hold\<close>

text \<open>Size of the chunks of chunk set \<open>k\<close>, and where in the object the set begins.\<close>

definition csize :: "'a base_scheme \<Rightarrow> nat \<Rightarrow> nat" where
  "csize b k = (if k = 0 then b_startChunkDataSize b
     else if k \<le> b_standardChunkCountPerSlice b then b_standardChunkDataSize b else b_endChunkDataSize b)"

definition coff :: "'a base_scheme \<Rightarrow> nat \<Rightarrow> nat" where
  "coff b k = (\<Sum>j<k. csize b j * b_dataSliceCount b)"

definition group_end :: "'a base_scheme \<Rightarrow> nat \<Rightarrow> nat" where
  "group_end b k = (if k = 0 then b_standardChunkSetOffset b
     else if k \<le> b_standardChunkCountPerSlice b then b_endChunkSetDataOffset b else MAX_SAFE_INTEGER)"

definition set_count :: "'a base_scheme \<Rightarrow> nat" where
  "set_count b = Suc (b_standardChunkCountPerSlice b) + (if 0 < b_endChunkDataSize b then 1 else 0)"

text \<open>The bytes of chunk set \<open>j\<close> of a padded object \<open>P\<close>, and chunk \<open>j\<close> of slice \<open>i\<close>.\<close>

definition cset :: "'a base_scheme \<Rightarrow> bytes \<Rightarrow> nat \<Rightarrow> bytes" where
  "cset b P j = take (csize b j * b_dataSliceCount b) (drop (coff b j) P)"

definition slice_chunk :: "(bytes \<Rightarrow> bytes) \<Rightarrow> 'a base_scheme \<Rightarrow> bytes \<Rightarrow> nat \<Rightarrow> nat \<Rightarrow> bytes" where
  "slice_chunk par b P i j = shard (csize b j) i (cset b P j @ par (cset b P j))"

text \<open>The object padded with zeros to whole chunk sets.\<close>

definition padded :: "'a base_scheme \<Rightarrow> bytes \<Rightarrow> bytes" where
  "padded b D = D @ replicate (coff b (set_count b) - length D) 0"

definition base_ok :: "'a base_scheme \<Rightarrow> bool" where
  "base_ok b \<longleftrightarrow> 0 < b_dataSliceCount b \<and> 2 \<le> totalSlices b \<and> totalSlices b \<le> 32 \<and>
     0 < b_startChunkDataSize b \<and> 8 dvd b_startChunkDataSize b \<and>
     b_startChunkDataSize b \<le> b_standardChunkDataSize b \<and> 8 dvd b_standardChunkDataSize b \<and>
     b_endChunkDataSize b \<le> b_standardChunkDataSize b \<and> 8 dvd b_endChunkDataSize b \<and>
     b_standardChunkSetOffset b = coff b 1 \<and>
     b_endChunkSetDataOffset b = coff b (Suc (b_standardChunkCountPerSlice b)) \<and>
     b_standardChunkDataSize b + 16 = b_chunkSize b \<and>
     b_size b < MAX_SAFE_INTEGER \<and> b_size b \<le> coff b (set_count b) \<and> coff b (set_count b - 1) < b_size b"

lemma coff_Suc [simp]: "coff b (Suc k) = coff b k + csize b k * b_dataSliceCount b"
  by (simp add: coff_def)

lemma coff_0 [simp]: "coff b 0 = 0" by (simp add: coff_def)

lemma coff_mono: "j \<le> k \<Longrightarrow> coff b j \<le> coff b k"
  unfolding coff_def by (rule sum_mono2) auto

lemma csize_pos: "base_ok b \<Longrightarrow> k < set_count b \<Longrightarrow> 0 < csize b k"
  by (auto simp: base_ok_def csize_def set_count_def split: if_splits)

lemma csize_le: "base_ok b \<Longrightarrow> csize b k \<le> b_standardChunkDataSize b"
  by (auto simp: base_ok_def csize_def)

lemma csize_dvd: "base_ok b \<Longrightarrow> 8 dvd csize b k"
  by (auto simp: base_ok_def csize_def)

lemma coff_less: "base_ok b \<Longrightarrow> j < k \<Longrightarrow> k \<le> set_count b \<Longrightarrow> coff b j < coff b k"
proof -
  assume a: "base_ok b" "j < k" "k \<le> set_count b"
  then have "0 < csize b j * b_dataSliceCount b" using csize_pos [of b j] by (simp add: base_ok_def)
  then show ?thesis using coff_mono [of "Suc j" k b] a(2) by (simp del: nat_0_less_mult_iff)
qed

lemma length_cset: "coff b (Suc j) \<le> length P \<Longrightarrow> length (cset b P j) = csize b j * b_dataSliceCount b"
  by (simp add: cset_def)

lemma cset_prefix: "take (coff b (Suc j)) P = take (coff b (Suc j)) P' \<Longrightarrow> cset b P j = cset b P' j"
  by (metis add_diff_cancel_left' coff_Suc cset_def drop_take)

lemma length_shard: "(i + 1) * c \<le> length cw \<Longrightarrow> length (shard c i cw) = c"
  by (simp add: shard_def)

lemma shard_append_left: "(i + 1) * c \<le> length xs \<Longrightarrow> shard c i (xs @ ys) = shard c i xs"
  by (simp add: shard_def)

lemma shard_take: "(i + 1) * c \<le> n \<Longrightarrow> shard c i (take n xs) = shard c i xs"
proof -
  assume "(i + 1) * c \<le> n"
  then have "min (n - i * c) c = c" by (simp add: min_def) linarith
  then show ?thesis by (simp add: shard_def drop_take min.commute)
qed

lemma shards_eq:
  assumes "length xs = n * c" "length ys = n * c" "\<And>i. i < n \<Longrightarrow> shard c i xs = shard c i ys"
  shows "xs = ys"
proof -
  have "take (k * c) xs = take (k * c) ys" if "k \<le> n" for k
    using that
  proof (induction k)
    case (Suc k)
    then show ?case using assms(3) [of k]
      by (simp add: add.commute [of c] take_add shard_def)
  qed simp
  from this [of n] show ?thesis using assms(1,2) by simp
qed

subsection \<open>The configurations follow the layout\<close>

definition configured :: "'a base_scheme \<Rightarrow> nat \<Rightarrow> bool" where
  "configured b k \<longleftrightarrow> b_chunkDataSize b = csize b k \<and> b_nextChunkGroupOffset b = group_end b k \<and>
     b_chunkSetDataSize b = csize b k * b_dataSliceCount b \<and>
     b_chunkSetParityOffset b = csize b k * b_dataSliceCount b \<and>
     b_chunkSetParitySize b = csize b k * b_paritySliceCount b \<and>
     b_chunkSetSliceOffsets b = map (\<lambda>i. i * csize b k) [0..<totalSlices b]"

text \<open>The fields that stay as \<open>_configureInternals\<close> set them.\<close>

definition geom :: "'a base_scheme \<Rightarrow> (nat \<times> nat \<times> nat \<times> nat) \<times> nat \<times> nat \<times> nat \<times> nat \<times> nat \<times> nat" where
  "geom b = ((b_size b, b_chunkSize b, b_dataSliceCount b, b_paritySliceCount b), b_startChunkDataSize b,
     b_standardChunkSetOffset b, b_standardChunkDataSize b, b_standardChunkCountPerSlice b,
     b_endChunkSetDataOffset b, b_endChunkDataSize b)"

lemma geom_spec:
  assumes "geom b = geom g"
  shows "csize b = csize g" "coff b = coff g" "group_end b = group_end g" "set_count b = set_count g"
    "cset b = cset g" "slice_chunk par b = slice_chunk par g" "base_ok b = base_ok g"
    "b_dataSliceCount b = b_dataSliceCount g" "b_paritySliceCount b = b_paritySliceCount g" "b_size b = b_size g"
    "b_standardChunkSetOffset b = b_standardChunkSetOffset g" "b_endChunkSetDataOffset b = b_endChunkSetDataOffset g"
    "b_standardChunkDataSize b = b_standardChunkDataSize g" "b_startChunkDataSize b = b_startChunkDataSize g"
    "b_endChunkDataSize b = b_endChunkDataSize g" "b_chunkSize b = b_chunkSize g"
    "b_standardChunkCountPerSlice b = b_standardChunkCountPerSlice g"
proof -
  show cs: "csize b = csize g" using assms by (auto simp: geom_def csize_def fun_eq_iff)
  show co: "coff b = coff g" using assms cs by (auto simp: geom_def coff_def fun_eq_iff)
  show sc: "set_count b = set_count g" using assms by (auto simp: geom_def set_count_def)
  show ct: "cset b = cset g" using assms cs co by (auto simp: geom_def cset_def fun_eq_iff)
  show "slice_chunk par b = slice_chunk par g" using cs ct by (auto simp: slice_chunk_def fun_eq_iff)
  show "base_ok b = base_ok g" using assms cs co sc by (auto simp: geom_def base_ok_def)
  show "group_end b = group_end g" using assms by (auto simp: geom_def group_end_def fun_eq_iff)
qed (use assms in \<open>auto simp: geom_def\<close>)

lemma geom_update [simp]:
  "geom (b\<lparr>b_dataOffset := x1\<rparr>) = geom b" "geom (b\<lparr>b_chunkSetBuffer := x2\<rparr>) = geom b"
  "geom (b\<lparr>b_chunkSetBufferPosition := x3\<rparr>) = geom b" "geom (b\<lparr>b_chunkSetBufferRemaining := x4\<rparr>) = geom b"
  "geom (b\<lparr>b_nextChunkGroupOffset := x5\<rparr>) = geom b" "geom (b\<lparr>b_chunkDataSize := x6\<rparr>) = geom b"
  "geom (b\<lparr>b_chunkSetDataSize := x7\<rparr>) = geom b" "geom (b\<lparr>b_chunkSetParityOffset := x8\<rparr>) = geom b"
  "geom (b\<lparr>b_chunkSetParitySize := x9\<rparr>) = geom b" "geom (b\<lparr>b_chunkSetSliceOffsets := x10\<rparr>) = geom b"
  "geom (b\<lparr>b_chunkSetNextSliceIndex := x11\<rparr>) = geom b" "geom (b\<lparr>b_chunkSetNextSliceOffset := x12\<rparr>) = geom b"
  "geom (b\<lparr>b_rsSourcesBits := x13\<rparr>) = geom b" "geom (b\<lparr>b_rsTargetsBits := x14\<rparr>) = geom b"
  by (simp_all add: geom_def)

lemmas configure_defs = configureStartState_def configureMiddleState_def configureEndState_def
  configureCommonState_def resetBufferPositions_def

lemma geom_configure [simp]:
  "geom (resetBufferPositions b) = geom b" "geom (configureStartState b) = geom b"
  "geom (configureMiddleState b) = geom b" "geom (configureEndState b) = geom b"
  by (simp_all add: configure_defs)

text \<open>A configured base at the beginning of a chunk set.\<close>

definition at_start :: "'a base_scheme \<Rightarrow> bool" where
  "at_start b \<longleftrightarrow> b_chunkSetNextSliceIndex b = 1 \<and> b_chunkSetNextSliceOffset b = b_chunkDataSize b \<and>
     b_chunkSetBufferPosition b = 0 \<and> b_chunkSetBufferRemaining b = b_chunkSetDataSize b"

lemma configured_reset:
  "base_ok b \<Longrightarrow> configured b k \<Longrightarrow> configured (resetBufferPositions b) k \<and> at_start (resetBufferPositions b)"
  by (auto simp: configured_def at_start_def resetBufferPositions_def csize_def group_end_def base_ok_def)

lemma configured_start: "base_ok b \<Longrightarrow> configured (configureStartState b) 0 \<and> at_start (configureStartState b)"
  by (auto simp: configured_def at_start_def configure_defs csize_def group_end_def base_ok_def)

lemma configured_middle:
  "base_ok b \<Longrightarrow> 0 < k \<Longrightarrow> k \<le> b_standardChunkCountPerSlice b \<Longrightarrow>
   configured (configureMiddleState b) k \<and> at_start (configureMiddleState b)"
  by (auto simp: configured_def at_start_def configure_defs csize_def group_end_def base_ok_def)

lemma configured_end:
  "base_ok b \<Longrightarrow> b_standardChunkCountPerSlice b < k \<Longrightarrow>
   configured (configureEndState b) k \<and> at_start (configureEndState b)"
  by (auto simp: configured_def at_start_def configure_defs csize_def group_end_def base_ok_def)

text \<open>Which fields a configuration change leaves alone.\<close>

lemma configure_frame [simp]:
  "b_dataOffset (resetBufferPositions b) = b_dataOffset b" "b_dataOffset (configureStartState b) = b_dataOffset b"
  "b_dataOffset (configureMiddleState b) = b_dataOffset b" "b_dataOffset (configureEndState b) = b_dataOffset b"
  "b_chunkSetBuffer (resetBufferPositions b) = b_chunkSetBuffer b" "b_chunkSetBuffer (configureStartState b) = b_chunkSetBuffer b"
  "b_chunkSetBuffer (configureMiddleState b) = b_chunkSetBuffer b" "b_chunkSetBuffer (configureEndState b) = b_chunkSetBuffer b"
  "b_rsSourcesBits (resetBufferPositions b) = b_rsSourcesBits b" "b_rsSourcesBits (configureStartState b) = b_rsSourcesBits b"
  "b_rsSourcesBits (configureMiddleState b) = b_rsSourcesBits b" "b_rsSourcesBits (configureEndState b) = b_rsSourcesBits b"
  "b_rsTargetsBits (resetBufferPositions b) = b_rsTargetsBits b" "b_rsTargetsBits (configureStartState b) = b_rsTargetsBits b"
  "b_rsTargetsBits (configureMiddleState b) = b_rsTargetsBits b" "b_rsTargetsBits (configureEndState b) = b_rsTargetsBits b"
  "base.more (resetBufferPositions b) = base.more b" "base.more (configureStartState b) = base.more b"
  "base.more (configureMiddleState b) = base.more b" "base.more (configureEndState b) = base.more b"
  by (simp_all add: configure_defs)

lemma configured_reset_iff: "configured (resetBufferPositions b) k = configured b k"
  by (simp add: configured_def resetBufferPositions_def csize_def group_end_def)

text \<open>
  Moving to the next chunk set, the way both the writer and the reader do: at a group boundary the
  next group is configured, otherwise the buffer positions are reset.
\<close>

definition next_set :: "'a base_scheme \<Rightarrow> js_error + 'a base_scheme" where
  "next_set b = (if b_dataOffset b = b_nextChunkGroupOffset b then configureNextChunkGroup b
     else Inr (resetBufferPositions b))"

lemma coff_eq_iff:
  assumes "base_ok b" "j \<le> set_count b" "k \<le> set_count b"
  shows "coff b j = coff b k \<longleftrightarrow> j = k"
  using coff_less [OF assms(1), of j k] coff_less [OF assms(1), of k j] assms(2,3)
  by (metis less_irrefl nat_neq_iff)

lemma Suc_count_le: "Suc (b_standardChunkCountPerSlice b) \<le> set_count b"
  by (simp add: set_count_def)

text \<open>After a full chunk set the next one is configured; the last set may end short of its size.\<close>

lemma next_set_configured:
  assumes ok: "base_ok b" and cfg: "configured b k" and k: "k < set_count b" and max: "b_dataOffset b < MAX_SAFE_INTEGER"
    and off: "b_dataOffset b = coff b (Suc k) \<or> Suc k = set_count b \<and> b_dataOffset b = b_size b"
  shows "\<exists>b'. next_set b = Inr b' \<and> geom b' = geom b \<and> base.more b' = base.more b \<and>
    b_dataOffset b' = b_dataOffset b \<and> b_chunkSetBuffer b' = b_chunkSetBuffer b \<and>
    b_rsSourcesBits b' = b_rsSourcesBits b \<and> b_rsTargetsBits b' = b_rsTargetsBits b \<and> at_start b' \<and>
    (b_dataOffset b = coff b (Suc k) \<and> Suc k < set_count b \<longrightarrow> configured b' (Suc k))"
proof -
  let ?n = "b_standardChunkCountPerSlice b"
  have std: "b_standardChunkSetOffset b = coff b (Suc 0)" and fin: "b_endChunkSetDataOffset b = coff b (Suc ?n)"
    using ok by (auto simp: base_ok_def)
  have eq: "coff b (Suc k) = coff b (Suc j) \<longleftrightarrow> k = j" if "Suc j \<le> set_count b" for j
    using coff_eq_iff [OF ok, of "Suc k" "Suc j"] that k by auto
  note [simp del] = coff_Suc
  have short: "b_dataOffset b = coff b (Suc k) \<or> Suc k = set_count b \<and> b_dataOffset b < coff b (set_count b)"
    using off ok by (auto simp: base_ok_def)
  have reset: ?thesis if "b_dataOffset b \<noteq> b_nextChunkGroupOffset b"
    and "Suc k < set_count b \<longrightarrow> csize b (Suc k) = csize b k \<and> group_end b (Suc k) = group_end b k"
    using that configured_reset [OF ok cfg] geom_spec [OF geom_configure(1) [of b]]
    by (auto simp: next_set_def configured_def)
  have fin': ?thesis if "b_dataOffset b = b_nextChunkGroupOffset b" "b_dataOffset b = coff b (Suc ?n)" "k = ?n"
    using that configured_end [OF ok, of "Suc k"] fin by (auto simp: next_set_def configureNextChunkGroup_def)
  have ng: "b_nextChunkGroupOffset b = group_end b k" using cfg by (simp add: configured_def)
  consider "k = 0" "?n = 0" | "k = 0" "0 < ?n" | "0 < k" "k < ?n" | "0 < k" "k = ?n" | "?n < k" by linarith
  then show ?thesis
  proof cases
    case 1
    then show ?thesis using reset fin' short std by (cases "b_dataOffset b = coff b 1") (auto simp: ng group_end_def)
  next
    case 2
    then have "b_dataOffset b = coff b 1" using short Suc_count_le [of b] by auto
    moreover from this have "b_dataOffset b \<noteq> coff b (Suc ?n)" using 2 eq [of ?n] Suc_count_le [of b] by simp
    ultimately show ?thesis using 2 configured_middle [OF ok, of 1] std fin
      by (auto simp: next_set_def configureNextChunkGroup_def ng group_end_def)
  next
    case 3
    then have "b_dataOffset b = coff b (Suc k)" using short Suc_count_le [of b] by auto
    moreover have "coff b (Suc k) \<noteq> coff b (Suc ?n)" using 3 eq [of ?n] Suc_count_le [of b] by simp
    ultimately show ?thesis using 3 fin by (intro reset) (auto simp: ng group_end_def csize_def)
  next
    case 4
    then show ?thesis using reset fin' short fin
      by (cases "b_dataOffset b = coff b (Suc k)") (auto simp: ng group_end_def)
  next
    case 5
    then show ?thesis using max k by (intro reset) (auto simp: ng group_end_def set_count_def split: if_splits)
  qed
qed

subsection \<open>A populated plan configures a well-formed base\<close>

lemma coff_closed:
  "k \<le> b_standardChunkCountPerSlice b \<Longrightarrow>
   coff b (Suc k) = (b_startChunkDataSize b + k * b_standardChunkDataSize b) * b_dataSliceCount b"
proof (induction k)
  case 0
  then show ?case by (simp add: csize_def)
next
  case (Suc k)
  then have "coff b (Suc (Suc k)) = coff b (Suc k) + b_standardChunkDataSize b * b_dataSliceCount b"
    by (simp add: csize_def)
  with Suc show ?case by (simp add: algebra_simps)
qed

lemma coff_last:
  "coff b (set_count b) = (b_startChunkDataSize b + b_standardChunkCountPerSlice b * b_standardChunkDataSize b
     + b_endChunkDataSize b) * b_dataSliceCount b"
  using coff_closed [of "b_standardChunkCountPerSlice b" b]
  by (auto simp: set_count_def csize_def algebra_simps simp del: coff_Suc)
    (auto simp: csize_def)

lemma configureInternals_ok:
  assumes "populatePlanDerivedFields pl = Inr pl'" "p_fileSize pl = Some (int (b_size b))"
    and "p_dataSliceCount pl = Some (int (b_dataSliceCount b))" "p_chunkSize pl = Some (int (b_chunkSize b))"
    and ok: "plan_ok (int (b_size b)) (int (b_dataSliceCount b)) (int (b_chunkSize b))"
    and "rsCreate (b_dataSliceCount b) (b_paritySliceCount b) = None"
    and "0 < b_paritySliceCount b" "totalSlices b \<le> 32" "b_size b < MAX_SAFE_INTEGER"
    and "\<And>n. length (mem n) = n"
  shows "\<exists>b'. configureInternals rsCreate mem (Some pl') b = Inr b' \<and> base_ok b' \<and>
    length (b_chunkSetBuffer b') = b_standardChunkDataSize b' * totalSlices b' \<and> b_dataOffset b' = 0 \<and>
    base.more b' = base.more b \<and> b_size b' = b_size b \<and> b_dataSliceCount b' = b_dataSliceCount b \<and>
    b_paritySliceCount b' = b_paritySliceCount b \<and> b_chunkSize b' = b_chunkSize b"
proof -
  let ?sz = "int (b_size b)" and ?d = "int (b_dataSliceCount b)" and ?C = "int (b_chunkSize b)"
  let ?l = "mk_layout ?sz ?d ?C"
  obtain S T N E where l: "ly_start ?l = int S" "ly_standard ?l = int T" "ly_count ?l = int N" "ly_end ?l = int E"
  proof -
    have "0 \<le> ly_start ?l" "0 \<le> ly_standard ?l" "0 \<le> ly_count ?l" "0 \<le> ly_end ?l"
      using start_bounds(1,3) [OF ok] count_bounds(1) [OF ok] end_bounds(1) [OF ok] by linarith+
    then show thesis using that by (metis nonneg_int_cases)
  qed
  have lay: "layout_of pl' = Some ?l" using populate_layout [OF assms(2-5)] assms(1) by auto
  define b' where "b' = b\<lparr>b_dataOffset := 0, b_standardChunkDataSize := T,
      b_standardChunkSetDataSize := T * b_dataSliceCount b, b_chunkSetBuffer := mem (T * totalSlices b),
      b_startChunkDataSize := S, b_standardChunkSetOffset := S * b_dataSliceCount b,
      b_endChunkSetDataOffset := (S + N * T) * b_dataSliceCount b, b_endChunkDataSize := E,
      b_standardChunkCountPerSlice := N\<rparr>"
  have off: "nat (ly_stdOffset ?l) = S * b_dataSliceCount b" "nat (ly_endOffset ?l) = (S + N * T) * b_dataSliceCount b"
    unfolding layout_offsets(1,2) l by (metis nat_int of_nat_mult of_nat_add)+
  have cfg: "configureInternals rsCreate mem (Some pl') b = Inr b'"
    unfolding configureInternals_def lay assms(6) option.case off by (simp add: l b'_def)
  have sel: "b_standardChunkDataSize b' = T" "b_startChunkDataSize b' = S" "b_standardChunkCountPerSlice b' = N"
    "b_endChunkDataSize b' = E" "b_dataSliceCount b' = b_dataSliceCount b" "b_size b' = b_size b"
    "b_paritySliceCount b' = b_paritySliceCount b" "b_chunkSize b' = b_chunkSize b"
    "b_standardChunkSetOffset b' = S * b_dataSliceCount b"
    "b_endChunkSetDataOffset b' = (S + N * T) * b_dataSliceCount b"
    by (simp_all add: b'_def)
  have S: "8 \<le> S" "8 dvd S" "S + 48 \<le> T" using start_bounds(1-3) [OF ok] unfolding l by presburger+
  have E: "8 dvd E" "E \<le> T" using end_bounds(2,3) [OF ok] unfolding l by presburger+
  have T: "T + 16 = b_chunkSize b" "8 dvd T" using l(2) ok by (simp_all add: layout_offsets(3) plan_ok_def) presburger+
  have "int (b_size b) \<le> int ((S + N * T + E) * b_dataSliceCount b)"
    using end_bounds(4) [OF ok] unfolding layout_offsets(2) l by (simp add: distrib_right)
  then have cover: "b_size b' \<le> coff b' (set_count b')" unfolding coff_last sel by linarith
  have last: "coff b' (set_count b' - 1) < b_size b'"
  proof (cases "0 < E")
    case True
    then have "(S + N * T) * b_dataSliceCount b < b_size b"
      using end_bounds(5) [OF ok] unfolding layout_offsets(2) l by (metis of_nat_0_less_iff of_nat_add of_nat_less_iff of_nat_mult)
    then show ?thesis using True coff_closed [of N b'] by (simp add: set_count_def sel del: coff_Suc)
  next
    case False
    then have e: "E = 0" by simp
    show ?thesis
    proof (cases N)
      case 0
      then show ?thesis using e ok by (simp add: set_count_def sel plan_ok_def)
    next
      case (Suc m)
      have "(int S + (int N - 1) * int T) * ?d < ?sz" using end_zero_last [OF ok] unfolding l using e Suc by simp
      then have "int ((S + m * T) * b_dataSliceCount b) < ?sz" using Suc by simp
      then have "(S + m * T) * b_dataSliceCount b < b_size b" by linarith
      then show ?thesis using e Suc coff_closed [of m b'] by (simp add: set_count_def sel del: coff_Suc)
    qed
  qed
  have "base_ok b'"
    unfolding base_ok_def using S E T cover last assms(7-9) ok coff_closed [of 0 b'] coff_closed [of N b']
    by (auto simp: sel plan_ok_def simp del: coff_Suc)
  moreover have "length (b_chunkSetBuffer b') = b_standardChunkDataSize b' * totalSlices b'"
    by (simp add: b'_def assms(10))
  moreover have "b_dataOffset b' = 0" "base.more b' = base.more b" by (simp_all add: b'_def)
  ultimately show ?thesis using cfg sel by blast
qed

section \<open>A code that obeys the law\<close>

text \<open>Two data shards and their exclusive or, the smallest erasure code.\<close>

definition xor_bytes :: "bytes \<Rightarrow> bytes \<Rightarrow> bytes" where
  "xor_bytes a b = map2 (XOR) a b"

definition xor_par :: "bytes \<Rightarrow> bytes" where
  "xor_par data = (let c = length data div 2 in xor_bytes (take c data) (drop c data))"

definition xor_enc :: rs_encode where
  "xor_enc S T inp out =
    (let c = length out; a = take c inp; b = drop c inp in
     Inr ((if bit T 0 then xor_bytes b out else a) @ (if bit T 1 then xor_bytes a out else b),
          if bit T 2 then xor_bytes a b else out))"

lemma length_xor_bytes [simp]: "length (xor_bytes a b) = min (length a) (length b)"
  by (simp add: xor_bytes_def)

lemma xor_word: "x XOR (x XOR y) = y" "y XOR (x XOR y) = x" for x y :: byte
  by (auto simp: bit_eq_iff bit_xor_iff)

lemma xor_cancel:
  "length a = length b \<Longrightarrow> xor_bytes a (xor_bytes a b) = b" "length a = length b \<Longrightarrow> xor_bytes b (xor_bytes a b) = a"
  by (simp_all add: xor_bytes_def list_eq_iff_nth_eq xor_word)

lemma three_shards:
  assumes "length a = c" "length b = c" "length x = c"
  shows "shard c 0 ((a @ b) @ x) = a" "shard c 1 ((a @ b) @ x) = b" "shard c 2 ((a @ b) @ x) = x"
  using assms by (simp_all add: shard_def)

lemma below_three: "i < 3 \<longleftrightarrow> i = 0 \<or> i = 1 \<or> i = (2 :: nat)"
  by auto

lemma xor_enc_ok:
  assumes ab: "length a = c" "length b = c" "length A = c" "length B = c" "length x = c"
    and S: "2 \<le> card (shard_set 3 S)" "shard_set 3 S \<inter> shard_set 3 T = {}"
    and agree: "\<And>i. i \<in> shard_set 3 S \<Longrightarrow> shard c i ((a @ b) @ x) = shard c i ((A @ B) @ xor_bytes A B)"
  shows "xor_enc S T (a @ b) x = Inr ((if bit T 0 then A else a) @ (if bit T 1 then B else b), if bit T 2 then xor_bytes A B else x)"
proof -
  have xl: "length (xor_bytes A B) = c" using ab by simp
  note sh = three_shards [OF ab(1,2,5)] three_shards [OF ab(3,4) xl]
  have a: "bit S 0 \<Longrightarrow> a = A" and b: "bit S 1 \<Longrightarrow> b = B" and x: "bit S 2 \<Longrightarrow> x = xor_bytes A B"
    using agree [of 0] agree [of 1] agree [of 2] by (simp_all only: sh shard_set_def mem_Collect_eq) simp_all
  have dis: "\<not> (bit S i \<and> bit T i)" if "i < 3" for i using S(2) that by (auto simp: shard_set_def)
  have two: "\<not> (shard_set 3 S \<subseteq> {i})" for i using S(1) card_mono [of "{i}" "shard_set 3 S"] by fastforce
  have pair: "bit S i \<and> bit S j" if "\<forall>m < 3. m = i \<or> m = j \<or> m = k" "\<not> bit S k" for i j k
  proof -
    have "shard_set 3 S \<subseteq> {i, j}" using that by (auto simp: shard_set_def)
    then show ?thesis using two [of i] two [of j] by (auto simp: shard_set_def)
  qed
  have T0: "bit T 0 \<Longrightarrow> b = B \<and> x = xor_bytes A B" using dis [of 0] pair [of 1 2 0] below_three b x by auto
  have T1: "bit T 1 \<Longrightarrow> a = A \<and> x = xor_bytes A B" using dis [of 1] pair [of 0 2 1] below_three a x by auto
  have T2: "bit T 2 \<Longrightarrow> a = A \<and> b = B" using dis [of 2] pair [of 0 1 2] below_three a b by auto
  have e0: "(if bit T 0 then xor_bytes b x else a) = (if bit T 0 then A else a)"
    using T0 ab by (cases "bit T 0") (simp_all add: xor_cancel)
  have e1: "(if bit T 1 then xor_bytes a x else b) = (if bit T 1 then B else b)"
    using T1 ab by (cases "bit T 1") (simp_all add: xor_cancel)
  have e2: "(if bit T 2 then xor_bytes a b else x) = (if bit T 2 then xor_bytes A B else x)"
    using T2 by (cases "bit T 2") simp_all
  have "take (length x) (a @ b) = a" "drop (length x) (a @ b) = b" using ab by simp_all
  then show ?thesis unfolding xor_enc_def Let_def by (simp only: e0 e1 e2)
qed

lemma xor_law: "rs_law 2 1 xor_enc xor_par"
  unfolding rs_law_def
proof (intro conjI allI impI)
  show "length (xor_par data) = 1 * c" if "length data = 2 * c" for c data
    using that by (simp add: xor_par_def Let_def)
next
  fix c S T data inp out
  assume h: "0 < c \<and> 8 dvd c \<and> length data = 2 * c \<and> length inp = 2 * c \<and> length out = 1 * c \<and>
    2 \<le> card (shard_set (2 + 1) S) \<and> shard_set (2 + 1) S \<inter> shard_set (2 + 1) T = {} \<and>
    (\<forall>i \<in> shard_set (2 + 1) S. shard c i (inp @ out) = shard c i (data @ xor_par data))"
  define a b A B where "a = take c inp" and "b = drop c inp" and "A = take c data" and "B = drop c data"
  have ab: "length a = c" "length b = c" "length A = c" "length B = c" "length out = c"
    using h by (auto simp: a_def b_def A_def B_def)
  have eq: "inp = a @ b" "data = A @ B" "xor_par (A @ B) = xor_bytes A B"
    using h by (simp_all add: a_def b_def A_def B_def xor_par_def Let_def)
  let ?a = "if bit T 0 then A else a" and ?b = "if bit T 1 then B else b" and ?x = "if bit T 2 then xor_bytes A B else out"
  have lens: "length ?a = c" "length ?b = c" "length ?x = c" "length (xor_bytes A B) = c" using ab by simp_all
  have "xor_enc S T inp out = Inr (?a @ ?b, ?x)"
    unfolding eq(1) by (rule xor_enc_ok [OF ab]) (use h eq in \<open>simp_all\<close>)
  moreover have "\<forall>i < 2 + 1. shard c i ((?a @ ?b) @ ?x) =
      (if i \<in> shard_set (2 + 1) T then shard c i (data @ xor_par data) else shard c i (inp @ out))"
    unfolding eq using three_shards [OF lens(1-3)] three_shards [OF ab(3,4) lens(4)] three_shards [OF ab(1,2,5)]
    by (simp add: below_three shard_set_def)
  ultimately show "\<exists>inp' out'. xor_enc S T inp out = Inr (inp', out') \<and> length inp' = 2 * c \<and> length out' = 1 * c \<and>
      (\<forall>i < 2 + 1. shard c i (inp' @ out') =
         (if i \<in> shard_set (2 + 1) T then shard c i (data @ xor_par data) else shard c i (inp @ out)))"
    using lens by (intro exI [of _ "?a @ ?b"] exI [of _ ?x]) (simp add: mult_2)
qed

end
