(* ===== verification/Slice_Format.thy ===== *)
theory Slice_Format
  imports Plan_Layout
begin

text \<open>
  The on-disk format of a slice, from \<^verbatim>\<open>lib/io/file-object/slice.ts\<close> and \<^verbatim>\<open>lib/constants.ts\<close>: the 48-byte
  header \<open>create()\<close> writes and \<open>_validateHeader\<close> checks, and the chunk records (checksum, then data) that
  \<open>writeChunk()\<close> appends and \<open>readChunk()\<close> reads back. The hash function is the third-party binding
  \<open>@ronomon/crypto-async\<close>: a parameter \<open>md5\<close>, of which only the digest length is assumed.
\<close>

section \<open>Integers in a Buffer\<close>

text \<open>\<open>n\<close> little-endian bytes of a value, and the unsigned and signed values they denote.\<close>

fun le_bytes :: "nat \<Rightarrow> int \<Rightarrow> bytes" where
  "le_bytes 0 v = []"
| "le_bytes (Suc n) v = word_of_int (v mod 256) # le_bytes n (v div 256)"

fun le_value :: "bytes \<Rightarrow> int" where
  "le_value [] = 0"
| "le_value (b # bs) = uint b + 256 * le_value bs"

definition readIntLE :: "bytes \<Rightarrow> int" where
  "readIntLE bs = (let u = le_value bs in if u < 2 ^ (8 * length bs - 1) then u else u - 2 ^ (8 * length bs))"

text \<open>\<open>writeIntLE(v, _, n)\<close> and \<open>writeUInt8(v)\<close>, which throw when the value does not fit.\<close>

definition writeIntLE :: "nat \<Rightarrow> int \<Rightarrow> js_error + bytes" where
  "writeIntLE n v =
    (if - (2 ^ (8 * n - 1)) \<le> v \<and> v < 2 ^ (8 * n - 1) then Inr (le_bytes n v)
     else Inl (coded_error ''ERR_OUT_OF_RANGE'' ''writeIntLE''))"

definition writeUInt8 :: "nat \<Rightarrow> js_error + bytes" where
  "writeUInt8 v = (if v < 256 then Inr [of_nat v] else Inl (coded_error ''ERR_OUT_OF_RANGE'' ''writeUInt8''))"

lemma length_le_bytes [simp]: "length (le_bytes n v) = n"
  by (induction n arbitrary: v) simp_all

lemma le_value_le_bytes: "le_value (le_bytes n v) = v mod 256 ^ n"
proof (induction n arbitrary: v)
  case (Suc n)
  have "uint (word_of_int (v mod 256) :: byte) = v mod 256"
    by (simp add: uint_word_of_int)
  then show ?case using Suc by (simp add: zmod_zmult2_eq)
qed simp

lemma readIntLE_writeIntLE:
  assumes "writeIntLE n v = Inr bs" "0 < n"
  shows "readIntLE bs = v"
proof -
  from assms have r: "- (2 ^ (8 * n - 1)) \<le> v" "v < 2 ^ (8 * n - 1)" and bs: "bs = le_bytes n v"
    by (auto simp: writeIntLE_def split: if_splits)
  have p: "(2::int) ^ (8 * n) = 2 * 2 ^ (8 * n - 1)" using assms(2)
    by (metis Suc_pred' mult_is_0 neq0_conv power_Suc zero_neq_numeral)
  have q: "(256::int) ^ n = 2 ^ (8 * n)" by (simp add: power_mult)
  have u: "le_value bs = v mod 2 ^ (8 * n)" by (simp add: bs le_value_le_bytes q)
  have len: "length bs = n" by (simp add: bs)
  show ?thesis
  proof (cases "0 \<le> v")
    case True
    then have "v mod 2 ^ (8 * n) = v" using r p by (intro mod_pos_pos_trivial) auto
    then show ?thesis using r by (simp add: readIntLE_def Let_def u len)
  next
    case False
    then have "(v + 2 ^ (8 * n)) mod 2 ^ (8 * n) = v + 2 ^ (8 * n)" using r p by (intro mod_pos_pos_trivial) auto
    then have "v mod 2 ^ (8 * n) = v + 2 ^ (8 * n)" by simp
    then show ?thesis using False r p by (simp add: readIntLE_def Let_def u len)
  qed
qed

section \<open>The header\<close>

definition SLICE_MAGIC :: bytes where "SLICE_MAGIC = [0x01, 0xc3, 0xbb, 0x02]"

text \<open>What the header describes: the fields of the file object and the index of the slice.\<close>

record slice_ref =
  sr_idBuf :: bytes
  sr_size :: int
  sr_dataSliceCount :: nat
  sr_paritySliceCount :: nat
  sr_sliceIndex :: nat
  sr_chunkSize :: int

definition bind_err :: "'e + 'a \<Rightarrow> ('a \<Rightarrow> 'e + 'b) \<Rightarrow> 'e + 'b" where
  "bind_err r f = (case r of Inl e \<Rightarrow> Inl e | Inr a \<Rightarrow> f a)"

lemma bind_err_Inr [simp]: "bind_err (Inr a) f = f a" and bind_err_Inl [simp]: "bind_err (Inl e) f = Inl e"
  by (simp_all add: bind_err_def)

lemma bind_err_eq_Inr: "bind_err r f = Inr b \<longleftrightarrow> (\<exists>a. r = Inr a \<and> f a = Inr b)"
  by (cases r) simp_all

text \<open>
  The 48 bytes \<open>create()\<close> puts on disk, in the order it writes them; bytes 7 to 22 are the md5 of
  bytes 23 to 47.
\<close>

definition slice_header :: "(bytes \<Rightarrow> bytes) \<Rightarrow> slice_ref \<Rightarrow> js_error + bytes" where
  "slice_header md5 r =
    bind_err (writeIntLE 5 (sr_size r)) (\<lambda>sz.
    bind_err (writeUInt8 (sr_dataSliceCount r)) (\<lambda>d.
    bind_err (writeUInt8 (sr_paritySliceCount r)) (\<lambda>p.
    bind_err (writeUInt8 (sr_sliceIndex r)) (\<lambda>i.
    bind_err (writeIntLE 3 (sr_chunkSize r)) (\<lambda>c.
      let fields = take 12 (sr_idBuf r) @ sz @ d @ p @ i @ c @ [0, 0]
      in Inr (SLICE_MAGIC @ [1] @ le_bytes 2 FILE_HEADER_SIZE @ md5 fields @ fields))))))"

text \<open>\<open>_validateHeader(buf)\<close>: the first check that fails, as an EHEADER error.\<close>

definition validateHeader :: "slice_ref \<Rightarrow> bytes \<Rightarrow> js_error option" where
  "validateHeader r buf =
    (if buf_slice buf 23 35 \<noteq> sr_idBuf r then Some (coded_error ''EHEADER'' ''slice header object id mismatch'')
     else if unat (buf ! 40) \<noteq> sr_dataSliceCount r
       then Some (coded_error ''EHEADER'' ''slice header data slice count mismatch'')
     else if unat (buf ! 41) \<noteq> sr_paritySliceCount r
       then Some (coded_error ''EHEADER'' ''slice header parity slice count mismatch'')
     else if unat (buf ! 42) \<noteq> sr_sliceIndex r
       then Some (coded_error ''EHEADER'' ''slice header slice index mismatch'')
     else if readIntLE (buf_slice buf 43 46) \<noteq> sr_chunkSize r
       then Some (coded_error ''EHEADER'' ''slice header chunk size mismatch'')
     else None)"

text \<open>The advisory header checksum that \<open>open()\<close> computes.\<close>

definition advisoryHeaderMd5Ok :: "(bytes \<Rightarrow> bytes) \<Rightarrow> bytes \<Rightarrow> bool" where
  "advisoryHeaderMd5Ok md5 hdr \<longleftrightarrow> buf_slice hdr 7 23 = md5 (buf_slice hdr 23 48)"

definition digest16 :: "(bytes \<Rightarrow> bytes) \<Rightarrow> bool" where
  "digest16 md5 \<longleftrightarrow> (\<forall>x. length (md5 x) = 16)"

lemma digest16D [simp]: "digest16 md5 \<Longrightarrow> length (md5 x) = 16"
  by (simp add: digest16_def)

lemma header_shape:
  assumes "slice_header md5 r = Inr h" "length (sr_idBuf r) = 12"
  obtains sz c where "writeIntLE 5 (sr_size r) = Inr sz" "writeIntLE 3 (sr_chunkSize r) = Inr c"
    "length sz = 5" "length c = 3"
    "sr_dataSliceCount r < 256" "sr_paritySliceCount r < 256" "sr_sliceIndex r < 256"
    "h = SLICE_MAGIC @ [1] @ le_bytes 2 FILE_HEADER_SIZE
       @ md5 (sr_idBuf r @ sz @ [of_nat (sr_dataSliceCount r), of_nat (sr_paritySliceCount r), of_nat (sr_sliceIndex r)] @ c @ [0, 0])
       @ sr_idBuf r @ sz @ [of_nat (sr_dataSliceCount r), of_nat (sr_paritySliceCount r), of_nat (sr_sliceIndex r)] @ c @ [0, 0]"
proof -
  from assms(1) obtain sz c where "writeIntLE 5 (sr_size r) = Inr sz" "writeIntLE 3 (sr_chunkSize r) = Inr c"
    "sr_dataSliceCount r < 256" "sr_paritySliceCount r < 256" "sr_sliceIndex r < 256"
    "h = SLICE_MAGIC @ [1] @ le_bytes 2 FILE_HEADER_SIZE
       @ md5 (sr_idBuf r @ sz @ [of_nat (sr_dataSliceCount r), of_nat (sr_paritySliceCount r), of_nat (sr_sliceIndex r)] @ c @ [0, 0])
       @ sr_idBuf r @ sz @ [of_nat (sr_dataSliceCount r), of_nat (sr_paritySliceCount r), of_nat (sr_sliceIndex r)] @ c @ [0, 0]"
    using assms(2)
    by (auto simp: slice_header_def bind_err_eq_Inr writeUInt8_def Let_def split: if_splits)
  moreover from this have "length sz = 5" "length c = 3"
    by (auto simp: writeIntLE_def split: if_splits)
  ultimately show ?thesis using that by blast
qed

lemma header_fields:
  assumes "slice_header md5 r = Inr h" "length (sr_idBuf r) = 12" "digest16 md5"
  shows "length h = 48" "buf_slice h 23 35 = sr_idBuf r" "unat (h ! 40) = sr_dataSliceCount r"
    "unat (h ! 41) = sr_paritySliceCount r" "unat (h ! 42) = sr_sliceIndex r"
    "readIntLE (buf_slice h 43 46) = sr_chunkSize r" "advisoryHeaderMd5Ok md5 h"
proof -
  obtain sz c where f: "writeIntLE 3 (sr_chunkSize r) = Inr c" "length sz = 5" "length c = 3"
    "sr_dataSliceCount r < 256" "sr_paritySliceCount r < 256" "sr_sliceIndex r < 256"
    and h: "h = SLICE_MAGIC @ [1] @ le_bytes 2 FILE_HEADER_SIZE
       @ md5 (sr_idBuf r @ sz @ [of_nat (sr_dataSliceCount r), of_nat (sr_paritySliceCount r), of_nat (sr_sliceIndex r)] @ c @ [0, 0])
       @ sr_idBuf r @ sz @ [of_nat (sr_dataSliceCount r), of_nat (sr_paritySliceCount r), of_nat (sr_sliceIndex r)] @ c @ [0, 0]"
    using header_shape [OF assms(1,2)] by metis
  note sizes = f(2,3) assms(2) digest16D [OF assms(3)]
  define pre where "pre = SLICE_MAGIC @ [1] @ le_bytes 2 FILE_HEADER_SIZE
       @ md5 (sr_idBuf r @ sz @ [of_nat (sr_dataSliceCount r), of_nat (sr_paritySliceCount r), of_nat (sr_sliceIndex r)] @ c @ [0, 0])"
  have pl: "length pre = 23" by (simp add: pre_def SLICE_MAGIC_def sizes)
  have h2: "h = pre @ sr_idBuf r @ sz @ [of_nat (sr_dataSliceCount r), of_nat (sr_paritySliceCount r), of_nat (sr_sliceIndex r)] @ c @ [0, 0]"
    by (simp add: h pre_def)
  show "length h = 48" by (simp add: h2 pl sizes)
  show "buf_slice h 23 35 = sr_idBuf r" by (simp add: h2 buf_slice_def pl sizes)
  show "unat (h ! 40) = sr_dataSliceCount r" "unat (h ! 41) = sr_paritySliceCount r" "unat (h ! 42) = sr_sliceIndex r"
    using f(4-6) by (simp_all add: h2 nth_append pl sizes unat_of_nat)
  have "buf_slice h 43 46 = c" by (simp add: h2 buf_slice_def pl sizes)
  then show "readIntLE (buf_slice h 43 46) = sr_chunkSize r" using readIntLE_writeIntLE [OF f(1)] by simp
  show "advisoryHeaderMd5Ok md5 h"
    by (simp add: advisoryHeaderMd5Ok_def buf_slice_def h SLICE_MAGIC_def sizes)
qed

text \<open>
  The header written for one slice is accepted by \<open>_validateHeader\<close> for another exactly when they
  agree on the object id, both slice counts, the slice index and the chunk size, so a stale or
  misplaced slice file is never taken as a source; and the stored header checksum matches.
\<close>

theorem validateHeader_iff_same_slice:
  assumes "slice_header md5 r = Inr h" and "length (sr_idBuf r) = 12" and "digest16 md5"
  shows "(validateHeader r' h = None \<longleftrightarrow>
      sr_idBuf r' = sr_idBuf r \<and> sr_dataSliceCount r' = sr_dataSliceCount r \<and>
      sr_paritySliceCount r' = sr_paritySliceCount r \<and> sr_sliceIndex r' = sr_sliceIndex r \<and>
      sr_chunkSize r' = sr_chunkSize r) \<and>
    (\<forall>e. validateHeader r' h = Some e \<longrightarrow> err_code e = Some ''EHEADER'') \<and>
    length h = 48 \<and> advisoryHeaderMd5Ok md5 h"
  using header_fields [OF assms] by (auto simp: validateHeader_def)

definition sample_ref :: slice_ref where
  "sample_ref = \<lparr>sr_idBuf = [1, 2, 3, 4, 5, 6, 7, 8, 9, 10, 11, 12], sr_size = 70000, sr_dataSliceCount = 4,
     sr_paritySliceCount = 2, sr_sliceIndex = 5, sr_chunkSize = 16384\<rparr>"

definition sum_digest :: "bytes \<Rightarrow> bytes" where
  "sum_digest bs = replicate 16 (sum_list bs)"

lemma digest16_sum_digest: "digest16 sum_digest"
  by (simp add: digest16_def sum_digest_def)

theorem validateHeader_iff_same_slice_witness:
  "validateHeader sample_ref (projr (slice_header sum_digest sample_ref)) = None"
proof -
  have ok: "slice_header sum_digest sample_ref = Inr (projr (slice_header sum_digest sample_ref))"
    by (simp add: slice_header_def sample_ref_def writeIntLE_def writeUInt8_def Let_def)
  have len: "length (sr_idBuf sample_ref) = 12" by (simp add: sample_ref_def)
  show ?thesis
    using validateHeader_iff_same_slice [OF ok len digest16_sum_digest, of sample_ref] by blast
qed

end
