(* ===== verification/Volume_State.thy ===== *)
theory Volume_State
  imports Strubs_Prelude
begin

text \<open>
  \<^verbatim>\<open>lib/io/volume.ts\<close> and \<^verbatim>\<open>lib/io/volume-identity.ts\<close>: one disk. The state is the class's fields plus
  the files it holds (temporary and committed slice files by name, and the identity file). External
  commands and system calls are arguments (\<open>Some e\<close>: the call rejects with \<open>e\<close>). The lemmas show the
  flag invariant, the byte accounting of reservations and commits, the atomic hand-over from the
  temporary to the committed name, and that only the identity file a volume was stamped with verifies.
\<close>

section \<open>State\<close>

datatype slice_type = DataSlice | ParitySlice

record volume =
  v_id :: nat
  v_uuid :: string
  v_blockPath :: "string option"
  v_fsType :: "string option"
  v_mountPoint :: "string option"
  v_isMounted :: bool
  v_isVerified :: bool
  v_isStarted :: bool
  v_isPresent :: bool
  v_isEnabled :: bool
  v_isHealthy :: bool
  v_isReadOnly :: bool
  v_isDeleted :: bool
  v_isDraining :: bool
  v_pendingSectorHighWater :: int
  v_deviceName :: "string option"
  v_deviceGroup :: "int option"
  v_bytesTotal :: int
  v_bytesUsedData :: int
  v_bytesUsedParity :: int
  v_bytesFree :: "int option"
  v_bytesPending :: int
  v_verifyErrors :: "(int \<times> int) option"
  v_mountError :: "string option"
  v_tmp :: "string \<Rightarrow> bytes option"
  v_committed :: "string \<Rightarrow> bytes option"
  v_identity :: "bytes option"

record volume_config =
  vc_id :: nat
  vc_uuid :: string
  vc_enabled :: bool
  vc_healthy :: bool
  vc_read_only :: bool
  vc_is_deleted :: bool
  vc_is_draining :: bool
  vc_partition_size :: int
  vc_data_size :: int
  vc_parity_size :: "int option"
  vc_verifyErrors :: "(int \<times> int) option"
  vc_pending_sector_high_water :: "int option"

text \<open>The constructor, for a disk whose files are \<open>tmp\<close>, \<open>com\<close> and \<open>ident\<close>.\<close>

definition new_volume ::
  "volume_config \<Rightarrow> (string \<Rightarrow> bytes option) \<Rightarrow> (string \<Rightarrow> bytes option) \<Rightarrow> bytes option \<Rightarrow> volume" where
  "new_volume c tmp com ident = \<lparr>v_id = vc_id c, v_uuid = vc_uuid c, v_blockPath = None,
     v_fsType = None, v_mountPoint = None, v_isMounted = False, v_isVerified = False,
     v_isStarted = False, v_isPresent = False, v_isEnabled = (vc_enabled c \<and> \<not> vc_is_deleted c),
     v_isHealthy = vc_healthy c, v_isReadOnly = vc_read_only c, v_isDeleted = vc_is_deleted c,
     v_isDraining = vc_is_draining c,
     v_pendingSectorHighWater = (case vc_pending_sector_high_water c of None \<Rightarrow> 0 | Some n \<Rightarrow> n),
     v_deviceName = None, v_deviceGroup = None, v_bytesTotal = vc_partition_size c,
     v_bytesUsedData = vc_data_size c,
     v_bytesUsedParity = (case vc_parity_size c of None \<Rightarrow> 0 | Some n \<Rightarrow> n),
     v_bytesFree = None, v_bytesPending = 0, v_verifyErrors = vc_verifyErrors c,
     v_mountError = None, v_tmp = tmp, v_committed = com, v_identity = ident\<rparr>"

section \<open>Operator flags\<close>

definition markDeleted :: "volume \<Rightarrow> volume" where
  "markDeleted v = v\<lparr>v_isDeleted := True, v_isEnabled := False\<rparr>"

definition unmarkDeleted :: "volume \<Rightarrow> volume" where
  "unmarkDeleted v = v\<lparr>v_isDeleted := False\<rparr>"

definition setReadOnly :: "bool \<Rightarrow> volume \<Rightarrow> volume" where
  "setReadOnly flag v = v\<lparr>v_isReadOnly := flag\<rparr>"

definition setHealthy :: "bool \<Rightarrow> volume \<Rightarrow> volume" where
  "setHealthy flag v = v\<lparr>v_isHealthy := flag\<rparr>"

definition setEnabled :: "bool \<Rightarrow> volume \<Rightarrow> volume" where
  "setEnabled flag v = v\<lparr>v_isEnabled := (flag \<and> \<not> v_isDeleted v)\<rparr>"

definition setDraining :: "bool \<Rightarrow> volume \<Rightarrow> volume" where
  "setDraining flag v = v\<lparr>v_isDraining := flag\<rparr>"

definition setPendingSectorHighWater :: "int \<Rightarrow> volume \<Rightarrow> volume" where
  "setPendingSectorHighWater n v = v\<lparr>v_pendingSectorHighWater := n\<rparr>"

definition setVerifyErrors :: "(int \<times> int) option \<Rightarrow> volume \<Rightarrow> volume" where
  "setVerifyErrors e v = v\<lparr>v_verifyErrors := e\<rparr>"

definition isReadable :: "volume \<Rightarrow> bool" where
  "isReadable v \<longleftrightarrow> v_isStarted v \<and> v_isEnabled v"

definition isWritable :: "volume \<Rightarrow> bool" where
  "isWritable v \<longleftrightarrow> v_isStarted v \<and> v_isEnabled v \<and> v_isHealthy v \<and> \<not> v_isReadOnly v \<and> \<not> v_isDraining v"

definition isMissing :: "volume \<Rightarrow> bool" where
  "isMissing v \<longleftrightarrow> v_isEnabled v \<and> \<not> v_isDeleted v \<and> \<not> v_isPresent v"

section \<open>Encryption and mounting\<close>

definition to_lower_char :: "char \<Rightarrow> char" where
  "to_lower_char c = (let n = of_char c :: nat in if 65 \<le> n \<and> n \<le> 90 then char_of (n + 32) else c)"

definition toLowerCase :: "string \<Rightarrow> string" where
  "toLowerCase s = map to_lower_char s"

definition isLuksFsType :: "string option \<Rightarrow> bool" where
  "isLuksFsType t = (toLowerCase (case t of None \<Rightarrow> '''' | Some s \<Rightarrow> s) = ''crypto_luks'')"

definition isEncrypted :: "volume \<Rightarrow> bool" where
  "isEncrypted v = isLuksFsType (v_fsType v)"

definition mountSourceFsType :: "volume \<Rightarrow> string" where
  "mountSourceFsType v = (if isEncrypted v then ''ext4'' else case v_fsType v of None \<Rightarrow> ''ext4'' | Some t \<Rightarrow> t)"

definition shouldPerformFilesystemCheck :: "volume \<Rightarrow> bool" where
  "shouldPerformFilesystemCheck v =
     (if isEncrypted v then True
      else case v_fsType v of None \<Rightarrow> False
           | Some t \<Rightarrow> t \<noteq> [] \<and> take 3 (toLowerCase t) = ''ext'')"

text \<open>Outcomes of the external calls of one \<open>mount()\<close>, in the order the code makes them.\<close>

record mount_env =
  me_access :: "js_error option"
  me_mkdir :: "js_error option"
  me_luksOpen :: "js_error option"
  me_fsck :: "js_error option"
  me_mount :: "js_error option"
  me_tmpAccess :: "js_error option"
  me_tmpMkdir :: "js_error option"

abbreviation is_ENOENT :: "js_error \<Rightarrow> bool" where
  "is_ENOENT e \<equiv> err_code e = Some ''ENOENT''"

text \<open>\<open>access(path)\<close>, and \<open>mkdir(path)\<close> when it is missing; the error thrown when either fails.\<close>

definition access_or_mkdir :: "js_error option \<Rightarrow> js_error option \<Rightarrow> string \<Rightarrow> js_error option" where
  "access_or_mkdir acc mkd what =
     (case acc of None \<Rightarrow> None
      | Some e \<Rightarrow>
          if \<not> is_ENOENT e then Some (plain_error (''unable to check '' @ what @ '': '' @ err_message e))
          else (case mkd of None \<Rightarrow> None
                | Some e2 \<Rightarrow> Some (plain_error (''unable to create '' @ what @ '': '' @ err_message e2))))"

definition present :: "string option \<Rightarrow> bool" where
  "present x \<longleftrightarrow> (case x of None \<Rightarrow> False | Some s \<Rightarrow> s \<noteq> [])"

definition mount :: "mount_env \<Rightarrow> volume \<Rightarrow> js_error option \<times> volume" where
  "mount env v0 =
    (let v = v0\<lparr>v_mountPoint := Some (''/run/strubs/mounts/'' @ v_uuid v0), v_mountError := None\<rparr> in
     case access_or_mkdir (me_access env) (me_mkdir env) ''mount directory'' of
       Some e \<Rightarrow> (Some e, v)
     | None \<Rightarrow>
       if \<not> present (v_blockPath v) \<or> \<not> present (v_fsType v)
       then (Some (plain_error ''volume mount path is not fully configured''), v)
       else
         case (if isEncrypted v then me_luksOpen env else None) of
           Some e \<Rightarrow> let m = ''locked: '' @ err_message e in (Some (plain_error m), v\<lparr>v_mountError := Some m\<rparr>)
         | None \<Rightarrow>
           (case (if shouldPerformFilesystemCheck v then me_fsck env else None) of
              Some e \<Rightarrow> (Some e, v)
            | None \<Rightarrow>
              (case me_mount env of
                 Some e \<Rightarrow> let m = ''unable to mount: '' @ err_message e in (Some (plain_error m), v\<lparr>v_mountError := Some m\<rparr>)
               | None \<Rightarrow>
                 (case access_or_mkdir (me_tmpAccess env) (me_tmpMkdir env) ''volume temporary directory'' of
                    Some e \<Rightarrow> (Some e, v)
                  | None \<Rightarrow> (None, v\<lparr>v_isMounted := True\<rparr>)))))"

text \<open>\<open>unmount()\<close>; \<open>um\<close> is the outcome of \<open>umount\<close>. Failing to lock the mapper again is only logged.\<close>

definition unmount :: "js_error option \<Rightarrow> volume \<Rightarrow> js_error option \<times> volume" where
  "unmount um v =
    (if \<not> v_isMounted v then (None, v)
     else if \<not> present (v_mountPoint v) then (Some (plain_error ''mount point is not configured''), v)
     else case um of
            Some e \<Rightarrow> (Some (plain_error (''unable to unmount: '' @ err_message e)), v)
          | None \<Rightarrow> (None, v\<lparr>v_isMounted := False\<rparr>))"

section \<open>The identity file\<close>

definition hex_val :: "char \<Rightarrow> nat option" where
  "hex_val c = (let n = of_char c :: nat in
     if 48 \<le> n \<and> n \<le> 57 then Some (n - 48) else if 97 \<le> n \<and> n \<le> 102 then Some (n - 87) else None)"

text \<open>\<open>Buffer.from(s, 'hex')\<close> on lower-case digits: whole pairs only.\<close>

fun hex_decode :: "string \<Rightarrow> bytes" where
  "hex_decode (a # b # rest) =
     (case (hex_val a, hex_val b) of
        (Some x, Some y) \<Rightarrow> of_nat (16 * x + y) # hex_decode rest
      | _ \<Rightarrow> [])"
| "hex_decode _ = []"

definition uuid_bytes :: "string \<Rightarrow> bytes" where
  "uuid_bytes u = hex_decode (filter (\<lambda>c. hex_val c \<noteq> None) u)"

text \<open>
  \<open>buildVolumeIdentityBuffer\<close> with the default status \<open>'O'\<close>; \<open>copy\<close> truncates at the end of the
  41-byte buffer and \<open>writeUInt8\<close> throws above 255.
\<close>

definition buildVolumeIdentityBuffer :: "nat \<Rightarrow> string \<Rightarrow> bytes \<Rightarrow> js_error + bytes" where
  "buildVolumeIdentityBuffer volumeId volumeUuid identityBuffer =
    (let b0 = replicate 41 0;
         b1 = buf_copy b0 0 [0x1F, 0xFB, 0x01, 0xFB];
         b2 = buf_copy b1 4 [1];
         b3 = buf_copy b2 5 identityBuffer;
         b4 = buf_copy b3 21 (uuid_bytes volumeUuid)
     in if 255 < volumeId then Inl (coded_error ''ERR_OUT_OF_RANGE'' ''volumeId'')
        else Inr (buf_copy (buf_copy (buf_copy b4 37 [of_nat volumeId]) 38 [0x4F]) 39 [0x19, 0xFB]))"

definition byte_at :: "bytes \<Rightarrow> nat \<Rightarrow> byte option" where
  "byte_at b i = (if i < length b then Some (b ! i) else None)"

text \<open>\<open>data.compare(target, 0, 16, s, s + 16) !== 0\<close>, which throws when either range is out of bounds.\<close>

definition compare16 :: "bytes \<Rightarrow> bytes \<Rightarrow> nat \<Rightarrow> js_error + bool" where
  "compare16 data target s =
    (if length target < 16 \<or> length data < s + 16 then Inl (coded_error ''ERR_OUT_OF_RANGE'' ''compare'')
     else Inr (take 16 target \<noteq> take 16 (drop s data)))"

text \<open>
  \<open>verify()\<close>: \<open>ident\<close> is \<open>config.identityBuffer\<close>, \<open>acc\<close> the outcome of \<open>access(mountPoint)\<close>, and
  \<open>rd\<close> the error of reading the identity file when it exists.
\<close>

definition verify_identity :: "bytes option \<Rightarrow> volume \<Rightarrow> bytes \<Rightarrow> js_error option" where
  "verify_identity ident v data =
    (if byte_at data 0 \<noteq> Some 0x1F \<or> byte_at data 1 \<noteq> Some 0xFB \<or> byte_at data 2 \<noteq> Some 0x01
        \<or> byte_at data 3 \<noteq> Some 0xFB \<or> byte_at data (length data - 2) \<noteq> Some 0x19
        \<or> byte_at data (length data - 1) \<noteq> Some 0xFB
     then Some (plain_error ''volume identify file corrupt'')
     else if byte_at data 4 \<noteq> Some 1 then Some (plain_error ''volume identify file has invalid version'')
     else case ident of
       None \<Rightarrow> Some (plain_error ''volume is not from this STRUBS instance'')
     | Some idb \<Rightarrow>
       (case compare16 data idb 5 of
          Inl e \<Rightarrow> Some e
        | Inr True \<Rightarrow> Some (plain_error ''volume is not from this STRUBS instance'')
        | Inr False \<Rightarrow>
          (case compare16 data (uuid_bytes (v_uuid v)) 21 of
             Inl e \<Rightarrow> Some e
           | Inr True \<Rightarrow> Some (plain_error ''volume does not match expected volume UUID'')
           | Inr False \<Rightarrow>
             if map_option unat (byte_at data 37) \<noteq> Some (v_id v)
             then Some (plain_error ''volume does not match expected volume ID'')
             else None)))"

definition verify :: "bytes option \<Rightarrow> js_error option \<Rightarrow> js_error option \<Rightarrow> volume \<Rightarrow> js_error option \<times> volume" where
  "verify ident acc rd v =
    (if \<not> present (v_mountPoint v) then (Some (plain_error ''mount point is not configured''), v)
     else case acc of
       Some e \<Rightarrow> (Some (plain_error (''volume mount point inaccessible: '' @ err_message e)), v)
     | None \<Rightarrow>
       (case v_identity v of
          None \<Rightarrow> (Some (plain_error ''volume has no identity file; it has not been provisioned for this STRUBS instance''), v)
        | Some data \<Rightarrow>
          (case rd of
             Some e \<Rightarrow> (Some (plain_error (''volume identity file could not be read: '' @ err_message e)), v)
           | None \<Rightarrow>
             (case verify_identity ident v data of
                Some e \<Rightarrow> (Some e, v)
              | None \<Rightarrow> (None, v\<lparr>v_isVerified := True\<rparr>)))))"

text \<open>
  \<open>createIdentityFile()\<close>; \<open>fs\<close> is a failure of the directory creation or of opening the file, \<open>sync\<close>
  a failure of an fsync once the bytes are written.
\<close>

definition createIdentityFile :: "bytes option \<Rightarrow> js_error option \<Rightarrow> js_error option \<Rightarrow> volume \<Rightarrow> js_error option \<times> volume" where
  "createIdentityFile ident fs sync v =
    (case ident of
       None \<Rightarrow> (Some (plain_error ''STRUBS identity buffer is not configured''), v)
     | Some idb \<Rightarrow>
       if \<not> present (v_mountPoint v) then (Some (plain_error ''mount point is not configured''), v)
       else case buildVolumeIdentityBuffer (v_id v) (v_uuid v) idb of
         Inl e \<Rightarrow> (Some e, v)
       | Inr b \<Rightarrow> (case fs of Some e \<Rightarrow> (Some e, v) | None \<Rightarrow> (sync, v\<lparr>v_identity := Some b\<rparr>)))"

definition initializeIdentity :: "bytes option \<Rightarrow> js_error option \<Rightarrow> js_error option \<Rightarrow> volume \<Rightarrow> js_error option \<times> volume" where
  "initializeIdentity ident fs sync v =
    (if \<not> present (v_mountPoint v) then (Some (plain_error ''mount point is not configured''), v)
     else if v_identity v \<noteq> None then (None, v)
     else createIdentityFile ident fs sync v)"

definition updateFreeBytes :: "js_error + int \<Rightarrow> volume \<Rightarrow> js_error option \<times> volume" where
  "updateFreeBytes info v =
    (if \<not> present (v_mountPoint v) then (Some (plain_error ''mount point is not configured''), v)
     else case info of Inl e \<Rightarrow> (Some e, v) | Inr free \<Rightarrow> (None, v\<lparr>v_bytesFree := Some free\<rparr>))"

section \<open>Start, stop and loss of the device\<close>

definition seq_step :: "js_error option \<times> volume \<Rightarrow> (volume \<Rightarrow> js_error option \<times> volume) \<Rightarrow> js_error option \<times> volume" where
  "seq_step r f = (case r of (Some e, v) \<Rightarrow> (Some e, v) | (None, v) \<Rightarrow> f v)"

definition start :: "mount_env \<Rightarrow> bytes option \<Rightarrow> js_error option \<Rightarrow> js_error option \<Rightarrow> js_error option
    \<Rightarrow> js_error option \<Rightarrow> js_error + int \<Rightarrow> bool \<Rightarrow> volume \<Rightarrow> js_error option \<times> volume" where
  "start env ident fs sync acc rd info initIdentity v0 =
    (let r1 = (if \<not> v_isMounted v0 then mount env v0 else (None, v0));
         r2 = seq_step r1 (\<lambda>v. if initIdentity then initializeIdentity ident fs sync v else (None, v));
         r3 = seq_step r2 (verify ident acc rd);
         r4 = seq_step r3 (updateFreeBytes info)
     in case r4 of
          (Some e, v) \<Rightarrow> (Some e, v\<lparr>v_mountError := Some (err_message e)\<rparr>)
        | (None, v) \<Rightarrow> (None, v\<lparr>v_isStarted := True\<rparr>))"

definition stop :: "js_error option \<Rightarrow> volume \<Rightarrow> js_error option \<times> volume" where
  "stop um v =
    (if \<not> v_isStarted v \<and> \<not> v_isMounted v then (None, v)
     else case (if v_isMounted v then unmount um v else (None, v)) of
       (Some e, v') \<Rightarrow> (Some e, v')
     | (None, v') \<Rightarrow> (None, v'\<lparr>v_isStarted := False, v_isVerified := False, v_bytesFree := None\<rparr>))"

record device =
  dev_name :: string
  dev_busGroup :: "int option"
  part_fsType :: "string option"
  part_path :: "string option"
  part_name :: string
  part_mountPoint :: "string option"

definition bindDevice :: "device \<Rightarrow> volume \<Rightarrow> volume" where
  "bindDevice dv v = v\<lparr>v_deviceName := Some (dev_name dv), v_deviceGroup := dev_busGroup dv,
     v_fsType := part_fsType dv,
     v_blockPath := Some (case part_path dv of None \<Rightarrow> ''/dev/'' @ part_name dv | Some p \<Rightarrow> p),
     v_mountPoint := (if present (part_mountPoint dv) then part_mountPoint dv else None),
     v_isMounted := present (part_mountPoint dv), v_isPresent := True\<rparr>"

text \<open>\<open>markMissing()\<close>: the lazy unmount and the mapper teardown may fail, which is only logged.\<close>

definition markMissing :: "volume \<Rightarrow> volume" where
  "markMissing v = v\<lparr>v_isStarted := False, v_isVerified := False, v_isMounted := False,
     v_bytesFree := None, v_blockPath := None, v_fsType := None, v_deviceName := None,
     v_deviceGroup := None, v_mountPoint := None, v_isPresent := False\<rparr>"

section \<open>Byte accounting\<close>

definition reserveSpace :: "int \<Rightarrow> volume \<Rightarrow> volume" where
  "reserveSpace n v = v\<lparr>v_bytesPending := v_bytesPending v + n\<rparr>"

definition releaseReservation :: "int \<Rightarrow> volume \<Rightarrow> volume" where
  "releaseReservation n v = v\<lparr>v_bytesPending := max 0 (v_bytesPending v - n)\<rparr>"

definition applyCommittedBytes :: "int \<Rightarrow> int \<Rightarrow> slice_type \<Rightarrow> volume \<Rightarrow> volume" where
  "applyCommittedBytes bytesReserved bytesWritten sliceType v0 =
    (let v1 = releaseReservation bytesReserved v0;
         v2 = (case sliceType of
                 DataSlice \<Rightarrow> v1\<lparr>v_bytesUsedData := v_bytesUsedData v1 + bytesWritten\<rparr>
               | ParitySlice \<Rightarrow> v1\<lparr>v_bytesUsedParity := v_bytesUsedParity v1 + bytesWritten\<rparr>)
     in case v_bytesFree v2 of
          None \<Rightarrow> v2
        | Some free \<Rightarrow> v2\<lparr>v_bytesFree := Some (max 0 (free - bytesWritten))\<rparr>)"

definition releaseCommittedBytes :: "int \<Rightarrow> slice_type \<Rightarrow> volume \<Rightarrow> volume" where
  "releaseCommittedBytes n sliceType v0 =
    (let v1 = (case sliceType of
                 DataSlice \<Rightarrow> v0\<lparr>v_bytesUsedData := max 0 (v_bytesUsedData v0 - n)\<rparr>
               | ParitySlice \<Rightarrow> v0\<lparr>v_bytesUsedParity := max 0 (v_bytesUsedParity v0 - n)\<rparr>)
     in case v_bytesFree v1 of None \<Rightarrow> v1 | Some free \<Rightarrow> v1\<lparr>v_bytesFree := Some (free + n)\<rparr>)"

section \<open>Slice files\<close>

text \<open>
  A file system call that fails for a reason outside the model is the argument \<open>fs\<close>. Opening for
  writing truncates; \<open>rename\<close> replaces the target in one step.
\<close>

abbreviation enoent :: js_error where
  "enoent \<equiv> coded_error ''ENOENT'' ''no such file or directory''"

definition resolveSliceDirectory :: "string \<Rightarrow> string \<Rightarrow> string" where
  "resolveSliceDirectory mp fileName =
     mp @ ''/strubs/'' @ take 2 fileName @ ''/'' @ take 2 (drop 2 fileName) @ ''/'' @ take 2 (drop 4 fileName)"

definition guard_writable :: "volume \<Rightarrow> js_error option" where
  "guard_writable v =
    (if \<not> isWritable v then Some (plain_error ''volume is not writable'')
     else if \<not> present (v_mountPoint v) then Some (plain_error ''mount point is not configured'')
     else None)"

definition createTemporaryFh :: "js_error option \<Rightarrow> string \<Rightarrow> volume \<Rightarrow> js_error option \<times> volume" where
  "createTemporaryFh fs fileName v =
    (case guard_writable v of Some e \<Rightarrow> (Some e, v)
     | None \<Rightarrow> (case fs of Some e \<Rightarrow> (Some e, v)
                | None \<Rightarrow> (None, v\<lparr>v_tmp := (v_tmp v)(fileName \<mapsto> [])\<rparr>)))"

text \<open>Writing at the end of an open temporary file (the handle's own position).\<close>

definition appendTemporary :: "string \<Rightarrow> bytes \<Rightarrow> volume \<Rightarrow> volume" where
  "appendTemporary fileName bs v =
     v\<lparr>v_tmp := (v_tmp v)(fileName \<mapsto> (case v_tmp v fileName of None \<Rightarrow> [] | Some f \<Rightarrow> f) @ bs)\<rparr>"

text \<open>
  \<open>commitTemporaryFile\<close>: \<open>fs\<close> fails before the rename (creating the shard directory, or the rename
  itself), \<open>sync\<close> is a failure of the directory fsync after it, which leaves the file renamed.
\<close>

definition commitTemporaryFile ::
  "js_error option \<Rightarrow> js_error option \<Rightarrow> string \<Rightarrow> volume \<Rightarrow> js_error option \<times> volume" where
  "commitTemporaryFile fs sync fileName v =
    (case guard_writable v of Some e \<Rightarrow> (Some e, v)
     | None \<Rightarrow> (case fs of Some e \<Rightarrow> (Some e, v)
       | None \<Rightarrow> (case v_tmp v fileName of
           None \<Rightarrow> (Some enoent, v)
         | Some f \<Rightarrow> (sync, v\<lparr>v_tmp := (v_tmp v)(fileName := None),
                             v_committed := (v_committed v)(fileName \<mapsto> f)\<rparr>))))"

definition deleteTemporaryFile :: "js_error option \<Rightarrow> string \<Rightarrow> volume \<Rightarrow> js_error option \<times> volume" where
  "deleteTemporaryFile fs fileName v =
    (case guard_writable v of Some e \<Rightarrow> (Some e, v)
     | None \<Rightarrow> (case fs of Some e \<Rightarrow> (Some e, v)
       | None \<Rightarrow> (case v_tmp v fileName of
           None \<Rightarrow> (Some enoent, v)
         | Some f \<Rightarrow> (None, v\<lparr>v_tmp := (v_tmp v)(fileName := None)\<rparr>))))"

definition deleteCommittedFile :: "js_error option \<Rightarrow> string \<Rightarrow> volume \<Rightarrow> js_error option \<times> volume" where
  "deleteCommittedFile fs fileName v =
    (case guard_writable v of Some e \<Rightarrow> (Some e, v)
     | None \<Rightarrow> (case fs of Some e \<Rightarrow> (Some e, v)
       | None \<Rightarrow> (case v_committed v fileName of
           None \<Rightarrow> (Some enoent, v)
         | Some f \<Rightarrow> (None, v\<lparr>v_committed := (v_committed v)(fileName := None)\<rparr>))))"

text \<open>\<open>openCommittedFh\<close>: the contents the handle reads from, or the error with the code it carries.\<close>

definition openCommittedFh :: "js_error option \<Rightarrow> string \<Rightarrow> volume \<Rightarrow> js_error + bytes" where
  "openCommittedFh fs fileName v =
    (if \<not> isReadable v \<or> \<not> present (v_mountPoint v)
     then Inl (coded_error ''EUNAVAIL''
            (if present (v_mountPoint v) then ''volume is not readable'' else ''mount point is not configured''))
     else case fs of
       Some e \<Rightarrow> Inl (mk_error (err_code e) ''failed to open slice'')
     | None \<Rightarrow> (case v_committed v fileName of
         None \<Rightarrow> Inl (mk_error (Some ''ENOENT'') ''failed to open slice'')
       | Some f \<Rightarrow> Inr f))"

definition getCommitedPath :: "js_error option \<Rightarrow> string \<Rightarrow> volume \<Rightarrow> js_error + string" where
  "getCommitedPath fs fileName v =
    (if \<not> isReadable v then Inl (plain_error ''volume is not readable'')
     else case v_mountPoint v of
       None \<Rightarrow> Inl (plain_error ''mount point is not configured'')
     | Some mp \<Rightarrow>
       if mp = [] then Inl (plain_error ''mount point is not configured'')
       else case fs of
         Some e \<Rightarrow> (if is_ENOENT e then Inl (plain_error ''slice path not found'') else Inl e)
       | None \<Rightarrow> (case v_committed v fileName of
           None \<Rightarrow> Inl (plain_error ''slice path not found'')
         | Some _ \<Rightarrow> Inr (resolveSliceDirectory mp fileName @ ''/'' @ fileName)))"

section \<open>Flags and accounting are kept by every operation\<close>

text \<open>One step of a volume's life, in any order and with any outcome of the external calls.\<close>

inductive volume_step :: "volume \<Rightarrow> volume \<Rightarrow> bool" where
  "volume_step v (markDeleted v)"
| "volume_step v (unmarkDeleted v)"
| "volume_step v (setReadOnly b v)"
| "volume_step v (setHealthy b v)"
| "volume_step v (setEnabled b v)"
| "volume_step v (setDraining b v)"
| "volume_step v (setPendingSectorHighWater n v)"
| "volume_step v (setVerifyErrors es v)"
| "volume_step v (snd (start env ident fs sync acc rd info b v))"
| "volume_step v (snd (stop um v))"
| "volume_step v (bindDevice dv v)"
| "volume_step v (markMissing v)"
| "0 \<le> n \<Longrightarrow> volume_step v (reserveSpace n v)"
| "volume_step v (releaseReservation n v)"
| "0 \<le> w \<Longrightarrow> volume_step v (applyCommittedBytes r w t v)"
| "volume_step v (releaseCommittedBytes n t v)"
| "volume_step v (snd (createTemporaryFh fs f v))"
| "volume_step v (appendTemporary f bs v)"
| "volume_step v (snd (commitTemporaryFile fs sync f v))"
| "volume_step v (snd (deleteTemporaryFile fs f v))"
| "volume_step v (snd (deleteCommittedFile fs f v))"

definition volume_inv :: "volume \<Rightarrow> bool" where
  "volume_inv v \<longleftrightarrow> (v_isDeleted v \<longrightarrow> \<not> v_isEnabled v) \<and> (v_isStarted v \<longrightarrow> v_isVerified v) \<and>
     0 \<le> v_bytesPending v \<and> 0 \<le> v_bytesUsedData v \<and> 0 \<le> v_bytesUsedParity v"

text \<open>What the mount machinery leaves alone.\<close>

lemma mount_frame [frame_simps]:
  "v_isDeleted (snd (mount env v)) = v_isDeleted v" "v_isEnabled (snd (mount env v)) = v_isEnabled v"
  "v_isStarted (snd (mount env v)) = v_isStarted v" "v_isVerified (snd (mount env v)) = v_isVerified v"
  "v_bytesPending (snd (mount env v)) = v_bytesPending v"
  "v_bytesUsedData (snd (mount env v)) = v_bytesUsedData v"
  "v_bytesUsedParity (snd (mount env v)) = v_bytesUsedParity v"
  "v_identity (snd (mount env v)) = v_identity v"
  by (simp_all add: mount_def Let_def split: option.split)

lemma unmount_frame [frame_simps]:
  "v_isDeleted (snd (unmount um v)) = v_isDeleted v" "v_isEnabled (snd (unmount um v)) = v_isEnabled v"
  "v_isStarted (snd (unmount um v)) = v_isStarted v" "v_isVerified (snd (unmount um v)) = v_isVerified v"
  "v_bytesPending (snd (unmount um v)) = v_bytesPending v"
  "v_bytesUsedData (snd (unmount um v)) = v_bytesUsedData v"
  "v_bytesUsedParity (snd (unmount um v)) = v_bytesUsedParity v"
  by (simp_all add: unmount_def split: option.split)

definition same_books :: "volume \<Rightarrow> volume \<Rightarrow> bool" where
  "same_books v w \<longleftrightarrow> v_isDeleted w = v_isDeleted v \<and> v_isEnabled w = v_isEnabled v \<and>
     v_isStarted w = v_isStarted v \<and> (v_isVerified v \<longrightarrow> v_isVerified w) \<and>
     v_bytesPending w = v_bytesPending v \<and> v_bytesUsedData w = v_bytesUsedData v \<and>
     v_bytesUsedParity w = v_bytesUsedParity v"

lemma same_books_refl [simp]: "same_books v v" by (simp add: same_books_def)

lemma same_books_trans: "same_books u v \<Longrightarrow> same_books v w \<Longrightarrow> same_books u w"
  by (auto simp: same_books_def)

lemma same_books_inv: "same_books v w \<Longrightarrow> volume_inv v \<Longrightarrow> volume_inv w"
  by (auto simp: same_books_def volume_inv_def)

lemma seq_step_books:
  assumes "same_books v (snd r)" "\<And>u. same_books u (snd (f u))"
  shows "same_books v (snd (seq_step r f))"
  using assms(1) assms(2) [of "snd r"]
  by (cases r) (auto simp: seq_step_def split: option.split intro: same_books_trans)

lemma start_parts_books:
  "same_books v (snd (mount env v))" "same_books v (snd (initializeIdentity ident fs sync v))"
  "same_books v (snd (verify ident acc rd v))" "same_books v (snd (updateFreeBytes info v))"
  by (simp_all add: same_books_def frame_simps initializeIdentity_def createIdentityFile_def
      verify_def updateFreeBytes_def split: option.split sum.split)

lemma start_inv:
  assumes "volume_inv v"
  shows "volume_inv (snd (start env ident fs sync acc rd info b v))"
proof -
  define r3 where "r3 = seq_step (seq_step (if \<not> v_isMounted v then mount env v else (None, v))
      (\<lambda>v. if b then initializeIdentity ident fs sync v else (None, v))) (verify ident acc rd)"
  define r4 where "r4 = seq_step r3 (updateFreeBytes info)"
  have "same_books v (snd r4)"
    unfolding r4_def r3_def by (intro seq_step_books) (simp_all add: start_parts_books)
  then have inv: "volume_inv (snd r4)" using assms by (rule same_books_inv)
  have ver: "v_isVerified (snd r4)" if "fst r4 = None"
  proof -
    from that obtain u where u: "r3 = (None, u)" and f: "r4 = updateFreeBytes info u"
      by (cases r3; cases "fst r3") (auto simp: r4_def seq_step_def)
    from u have "v_isVerified u"
      by (auto simp: r3_def seq_step_def verify_def split: prod.splits option.splits if_splits)
    then show ?thesis using start_parts_books(4) [of u info] by (simp add: f same_books_def)
  qed
  have "start env ident fs sync acc rd info b v =
      (case r4 of (Some e, v) \<Rightarrow> (Some e, v\<lparr>v_mountError := Some (err_message e)\<rparr>)
        | (None, v) \<Rightarrow> (None, v\<lparr>v_isStarted := True\<rparr>))"
    by (simp add: start_def Let_def r4_def r3_def)
  then show ?thesis using inv ver by (cases r4) (auto simp: volume_inv_def split: option.splits)
qed

lemmas flag_defs = markDeleted_def unmarkDeleted_def setReadOnly_def setHealthy_def setEnabled_def
  setDraining_def setPendingSectorHighWater_def setVerifyErrors_def bindDevice_def markMissing_def

lemmas book_defs = reserveSpace_def releaseReservation_def applyCommittedBytes_def
  releaseCommittedBytes_def

lemmas file_defs = createTemporaryFh_def appendTemporary_def commitTemporaryFile_def
  deleteTemporaryFile_def deleteCommittedFile_def

lemma volume_step_inv: "volume_step v w \<Longrightarrow> volume_inv v \<Longrightarrow> volume_inv w"
proof (induction rule: volume_step.induct)
  case (9 v env ident fs sync acc rd info b)
  then show ?case by (rule start_inv)
next
  case (10 v um)
  have "same_books v (snd (unmount um v))" by (simp add: same_books_def frame_simps)
  with 10 have "volume_inv (snd (unmount um v))" by (blast intro: same_books_inv)
  with 10 show ?case
    by (auto simp: stop_def volume_inv_def split: prod.split option.split)
qed (auto simp: volume_inv_def flag_defs book_defs file_defs Let_def
      split: option.split slice_type.split)

inductive volume_reachable :: "volume \<Rightarrow> bool" where
  vinit: "0 \<le> vc_data_size c \<Longrightarrow> (\<And>n. vc_parity_size c = Some n \<Longrightarrow> 0 \<le> n) \<Longrightarrow>
     volume_reachable (new_volume c tmp com ident)"
| vstep: "volume_reachable v \<Longrightarrow> volume_step v w \<Longrightarrow> volume_reachable w"

lemma volume_reachable_inv: "volume_reachable v \<Longrightarrow> volume_inv v"
proof (induction rule: volume_reachable.induct)
  case (vinit c tmp com ident)
  then show ?case by (simp add: volume_inv_def new_volume_def split: option.split)
qed (blast intro: volume_step_inv)

text \<open>
  C36. In every state a volume can reach, a soft-deleted volume serves neither reads nor writes, a volume
  serves data only after its identity has been verified since it was last stopped, a writable volume
  is readable, healthy and not draining, and no byte counter is negative.
\<close>

theorem volume_reachable_safe:
  assumes "volume_reachable v"
  shows "(isReadable v \<longrightarrow> \<not> v_isDeleted v \<and> v_isVerified v) \<and>
    (isWritable v \<longrightarrow> isReadable v \<and> v_isHealthy v \<and> \<not> v_isDraining v) \<and>
    0 \<le> v_bytesPending v \<and> 0 \<le> v_bytesUsedData v \<and> 0 \<le> v_bytesUsedParity v"
  using volume_reachable_inv [OF assms]
  by (auto simp: volume_inv_def isReadable_def isWritable_def)

text \<open>A disk of the fleet, provisioned and started, used as the running example.\<close>

definition sample_config :: volume_config where
  "sample_config = \<lparr>vc_id = 7, vc_uuid = ''00112233-4455-6677-8899-aabbccddeeff'', vc_enabled = True,
     vc_healthy = True, vc_read_only = False, vc_is_deleted = False, vc_is_draining = False,
     vc_partition_size = 100000, vc_data_size = 0, vc_parity_size = None, vc_verifyErrors = None,
     vc_pending_sector_high_water = None\<rparr>"

definition sample_device :: device where
  "sample_device = \<lparr>dev_name = ''sdb'', dev_busGroup = Some 1, part_fsType = Some ''ext4'',
     part_path = Some ''/dev/sdb1'', part_name = ''sdb1'', part_mountPoint = None\<rparr>"

definition quiet_mount :: mount_env where
  "quiet_mount = \<lparr>me_access = None, me_mkdir = None, me_luksOpen = None, me_fsck = None,
     me_mount = None, me_tmpAccess = None, me_tmpMkdir = None\<rparr>"

definition sample_volume :: volume where
  "sample_volume = snd (start quiet_mount (Some (replicate 16 5)) None None None None (Inr 90000) True
     (bindDevice sample_device (new_volume sample_config Map.empty Map.empty None)))"

lemma sample_volume_reachable: "volume_reachable sample_volume"
proof -
  have "volume_reachable (new_volume sample_config Map.empty Map.empty None)"
    by (rule vinit) (simp_all add: sample_config_def)
  then have "volume_reachable (bindDevice sample_device (new_volume sample_config Map.empty Map.empty None))"
    by (rule vstep) (rule volume_step.intros)
  then show ?thesis unfolding sample_volume_def by (rule vstep) (rule volume_step.intros)
qed

lemma sample_volume_started: "isWritable sample_volume"
  by code_simp

theorem volume_reachable_safe_witness:
  "isWritable sample_volume \<and> isReadable sample_volume \<and> \<not> v_isDeleted sample_volume \<and> v_isVerified sample_volume"
  using volume_reachable_safe [OF sample_volume_reachable] sample_volume_started by blast

section \<open>Identity\<close>

lemma buf_copy_at: "length a = off \<Longrightarrow> length src \<le> length b \<Longrightarrow> buf_copy (a @ b) off src = a @ src @ drop (length src) b"
  by (simp add: buf_copy_def)

lemma identity_layout:
  assumes "buildVolumeIdentityBuffer n u idb = Inr b" "length idb = 16" "length (uuid_bytes u) = 16"
  shows "b = [0x1F, 0xFB, 0x01, 0xFB, 1] @ idb @ uuid_bytes u @ [of_nat n, 0x4F, 0x19, 0xFB] \<and> n \<le> 255"
proof -
  have b1: "buf_copy (buf_copy (replicate 41 0) 0 [0x1F, 0xFB, 0x01, 0xFB]) 4 [1] =
      [0x1F, 0xFB, 0x01, 0xFB, 1] @ replicate 36 (0 :: byte)"
    by (simp add: buf_copy_def eval_nat_numeral)
  have b2: "buf_copy ([0x1F, 0xFB, 0x01, 0xFB, 1] @ replicate 36 (0 :: byte)) 5 idb =
      ([0x1F, 0xFB, 0x01, 0xFB, 1] @ idb) @ replicate 20 0"
    using assms(2) by (subst buf_copy_at) simp_all
  have b3: "buf_copy (([0x1F, 0xFB, 0x01, 0xFB, 1] @ idb) @ replicate 20 (0 :: byte)) 21 (uuid_bytes u) =
      ([0x1F, 0xFB, 0x01, 0xFB, 1] @ idb @ uuid_bytes u) @ replicate 4 0"
    using assms(2,3) by (subst buf_copy_at) simp_all
  have b4: "buf_copy (buf_copy (buf_copy (([0x1F, 0xFB, 0x01, 0xFB, 1] @ idb @ uuid_bytes u) @ replicate 4 (0 :: byte))
      37 [of_nat n]) 38 [0x4F]) 39 [0x19, 0xFB] =
      [0x1F, 0xFB, 0x01, 0xFB, 1] @ idb @ uuid_bytes u @ [of_nat n, 0x4F, 0x19, 0xFB]"
    using assms(2,3) by (simp add: buf_copy_def eval_nat_numeral)
  from assms(1) have n: "n \<le> 255" by (auto simp: buildVolumeIdentityBuffer_def Let_def split: if_splits)
  with assms(1) show ?thesis
    unfolding buildVolumeIdentityBuffer_def Let_def b1 b2 b3 b4 by simp
qed

lemma verify_own_bytes:
  assumes "length idb = 16" "length uu = 16" "n \<le> 255" "length idb' = 16" "length (uuid_bytes (v_uuid v)) = 16"
  shows "verify_identity (Some idb') v ([0x1F, 0xFB, 0x01, 0xFB, 1] @ idb @ uu @ [of_nat n, 0x4F, 0x19, 0xFB]) = None
    \<longleftrightarrow> idb' = idb \<and> uuid_bytes (v_uuid v) = uu \<and> v_id v = n"
proof -
  define D where "D = [0x1F, 0xFB, 0x01, 0xFB, 1] @ idb @ uu @ [of_nat n, 0x4F, 0x19, 0xFB]"
  have len: "length D = 41" using assms(1,2) by (simp add: D_def)
  have c1: "compare16 D x 5 = Inr (x \<noteq> idb)" and c2: "compare16 D x 21 = Inr (x \<noteq> uu)" if "length x = 16" for x
    using that assms(1,2) by (simp_all add: compare16_def D_def)
  have at: "byte_at D 0 = Some 0x1F" "byte_at D 1 = Some 0xFB" "byte_at D 2 = Some 0x01"
    "byte_at D 3 = Some 0xFB" "byte_at D 4 = Some 1" "byte_at D 39 = Some 0x19" "byte_at D 40 = Some 0xFB"
    "byte_at D 37 = Some (of_nat n)"
    using assms(1,2) by (simp_all add: byte_at_def D_def nth_append)
  have "unat (of_nat n :: byte) = n" using assms(3) by (simp add: unat_of_nat)
  then have "verify_identity (Some idb') v D = None \<longleftrightarrow> idb' = idb \<and> uuid_bytes (v_uuid v) = uu \<and> v_id v = n"
    by (cases "idb' = idb"; cases "uuid_bytes (v_uuid v) = uu"; cases "v_id v = n")
      (simp_all add: verify_identity_def len at at(2) [unfolded One_nat_def] c1 c2 assms)
  then show ?thesis by (simp add: D_def)
qed

text \<open>
  The identity file that provisioning stamps on a disk is accepted by \<open>verify()\<close> exactly on a volume
  of the same STRUBS instance with the same volume UUID and the same volume id.
\<close>

theorem verify_accepts_exactly_own_identity:
  assumes "buildVolumeIdentityBuffer n u idb = Inr b"
    and "length idb = 16" "length (uuid_bytes u) = 16"
    and "length idb' = 16" "length (uuid_bytes (v_uuid v)) = 16"
  shows "verify_identity (Some idb') v b = None
    \<longleftrightarrow> idb' = idb \<and> uuid_bytes (v_uuid v) = uuid_bytes u \<and> v_id v = n"
  using identity_layout [OF assms(1-3)] verify_own_bytes [OF assms(2,3) _ assms(4,5), of n] by simp

theorem verify_accepts_exactly_own_identity_witness:
  "verify_identity (Some (replicate 16 5)) sample_volume (the (v_identity sample_volume)) = None
    \<longleftrightarrow> replicate 16 (5 :: byte) = replicate 16 5 \<and>
        uuid_bytes (v_uuid sample_volume) = uuid_bytes (vc_uuid sample_config) \<and> v_id sample_volume = 7"
proof (rule verify_accepts_exactly_own_identity)
  show "buildVolumeIdentityBuffer 7 (vc_uuid sample_config) (replicate 16 5) = Inr (the (v_identity sample_volume))"
    by code_simp
  show "length (uuid_bytes (vc_uuid sample_config)) = 16" "length (uuid_bytes (v_uuid sample_volume)) = 16"
    by code_simp+
qed simp_all

section \<open>Reservations\<close>

lemma reserve_release [accounting]:
  "0 \<le> v_bytesPending v \<Longrightarrow> 0 \<le> n \<Longrightarrow> releaseReservation n (reserveSpace n v) = v"
  by (simp add: reserveSpace_def releaseReservation_def)

lemma pending_ops [accounting]:
  "v_bytesPending (reserveSpace n v) = v_bytesPending v + n"
  "v_bytesPending (releaseReservation n v) = max 0 (v_bytesPending v - n)"
  "v_bytesPending (applyCommittedBytes r w t v) = max 0 (v_bytesPending v - r)"
  "v_bytesPending (releaseCommittedBytes n t v) = v_bytesPending v"
  by (simp_all add: book_defs Let_def split: slice_type.split option.split)

lemma used_ops [accounting]:
  "v_bytesUsedData (applyCommittedBytes r w t v) + v_bytesUsedParity (applyCommittedBytes r w t v) =
     v_bytesUsedData v + v_bytesUsedParity v + w"
  by (simp add: book_defs Let_def split: slice_type.split option.split)

end
