(* ===== verification/Priority_Manager.thy ===== *)
theory Priority_Manager
  imports Strubs_Prelude
begin

text \<open>
  \<^verbatim>\<open>lib/io/volume-priority-manager.ts\<close> and \<^verbatim>\<open>lib/io/io-shutdown.ts\<close>: low-priority work (the scrub) waits while
  normal-priority handles are open on the same volume; shutdown releases every waiter. A promise that
  was handed out is a waiter number; resolving it moves the number to the list of resolved ones. The
  lemmas show that a waiter is parked only behind an open handle, so that none is ever left waiting.
\<close>

datatype priority = NormalPriority | LowPriority

record priority_state =
  highCount :: nat
  waiters :: "nat list"

text \<open>The manager's map, the release closures it handed out (their volume and their \<open>released\<close> flag), the
  next waiter number, and the waiters resolved so far.\<close>

record priority_manager =
  pm_states :: "nat \<Rightarrow> priority_state option"
  pm_handles :: "(nat \<times> bool) list"
  pm_next :: nat
  pm_resolved :: "nat list"

definition pm_empty :: priority_manager where
  "pm_empty = \<lparr>pm_states = Map.empty, pm_handles = [], pm_next = 0, pm_resolved = []\<rparr>"

definition fresh_state :: priority_state where
  "fresh_state = \<lparr>highCount = 0, waiters = []\<rparr>"

definition getState :: "nat \<Rightarrow> priority_manager \<Rightarrow> priority_state" where
  "getState v m = (case pm_states m v of None \<Rightarrow> fresh_state | Some s \<Rightarrow> s)"

definition putState :: "nat \<Rightarrow> priority_state \<Rightarrow> priority_manager \<Rightarrow> priority_manager" where
  "putState v s m = m\<lparr>pm_states := (pm_states m)(v \<mapsto> s)\<rparr>"

definition incrementHigh :: "priority_state \<Rightarrow> priority_state" where
  "incrementHigh s = s\<lparr>highCount := Suc (highCount s)\<rparr>"

text \<open>\<open>drainWaiters()\<close>: the new state and the waiters it resolves.\<close>

definition drainWaiters :: "priority_state \<Rightarrow> priority_state \<times> nat list" where
  "drainWaiters s = (if waiters s = [] then (s, []) else (s\<lparr>waiters := []\<rparr>, waiters s))"

definition decrementHigh :: "priority_state \<Rightarrow> priority_state \<times> nat list" where
  "decrementHigh s =
    (if highCount s = 0 then (s, [])
     else let s' = s\<lparr>highCount := highCount s - 1\<rparr>
          in if highCount s' = 0 then drainWaiters s' else (s', []))"

text \<open>\<open>waitForAccess\<close>: \<open>None\<close> when access is immediate, else the promise to wait on.\<close>

definition waitForAccess :: "nat \<Rightarrow> priority \<Rightarrow> priority_manager \<Rightarrow> nat option \<times> priority_manager" where
  "waitForAccess v pr m =
    (if pr = NormalPriority then (None, m)
     else let s = getState v m in
       if highCount s = 0 then (None, putState v s m)
       else (Some (pm_next m),
             putState v (s\<lparr>waiters := waiters s @ [pm_next m]\<rparr>) (m\<lparr>pm_next := Suc (pm_next m)\<rparr>)))"

text \<open>\<open>registerHandle\<close>: the closure returned for a low-priority handle does nothing (\<open>None\<close>).\<close>

definition registerHandle :: "nat \<Rightarrow> priority \<Rightarrow> priority_manager \<Rightarrow> nat option \<times> priority_manager" where
  "registerHandle v pr m =
    (if pr = LowPriority then (None, m)
     else (Some (length (pm_handles m)),
           putState v (incrementHigh (getState v m)) (m\<lparr>pm_handles := pm_handles m @ [(v, False)]\<rparr>)))"

definition releaseHandle :: "nat \<Rightarrow> priority_manager \<Rightarrow> priority_manager" where
  "releaseHandle h m =
    (if h < length (pm_handles m) then
       (case pm_handles m ! h of
          (v, True) \<Rightarrow> m
        | (v, False) \<Rightarrow>
            (case decrementHigh (getState v m) of
               (s, ws) \<Rightarrow> putState v s (m\<lparr>pm_handles := (pm_handles m)[h := (v, True)],
                                             pm_resolved := pm_resolved m @ ws\<rparr>)))
     else m)"

text \<open>\<open>unblockAll()\<close> over the volumes \<open>vs\<close> the map holds, in insertion order.\<close>

definition forceUnblock :: "nat \<Rightarrow> priority_manager \<Rightarrow> priority_manager" where
  "forceUnblock v m =
    (case pm_states m v of None \<Rightarrow> m
     | Some s \<Rightarrow> (case drainWaiters s of (s', ws) \<Rightarrow> (putState v s' m)\<lparr>pm_resolved := pm_resolved m @ ws\<rparr>))"

definition unblockAll :: "nat list \<Rightarrow> priority_manager \<Rightarrow> priority_manager" where
  "unblockAll vs m = fold forceUnblock vs m"

definition getStats :: "nat list \<Rightarrow> priority_manager \<Rightarrow> (nat \<times> nat \<times> nat) list" where
  "getStats vs m =
    filter (\<lambda>(v, hc, w). 0 < hc \<or> 0 < w)
      (List.map_filter (\<lambda>v. map_option (\<lambda>s. (v, highCount s, length (waiters s))) (pm_states m v)) vs)"

section \<open>Shutdown\<close>

record io_shutdown =
  sd_aborted :: bool
  sd_reason :: "string option"
  sd_waiters :: "nat list"

definition sd_fresh :: io_shutdown where
  "sd_fresh = \<lparr>sd_aborted = False, sd_reason = None, sd_waiters = []\<rparr>"

definition io_abort :: "string \<Rightarrow> nat list \<Rightarrow> io_shutdown \<times> priority_manager \<Rightarrow> io_shutdown \<times> priority_manager" where
  "io_abort reason vs st = (case st of (sd, m) \<Rightarrow>
     if sd_aborted sd then (sd, m)
     else (sd\<lparr>sd_aborted := True, sd_reason := Some reason, sd_waiters := []\<rparr>, unblockAll vs m))"

definition ioabort_error :: js_error where
  "ioabort_error = coded_error ''IOABORT'' ''I/O aborted due to shutdown''"

definition throwIfAborted :: "io_shutdown \<Rightarrow> js_error option" where
  "throwIfAborted sd = (if sd_aborted sd then Some ioabort_error else None)"

section \<open>No waiter is left behind\<close>

datatype pm_op = WaitFor nat priority | Register nat priority | Release nat | UnblockAll "nat list"

fun pm_apply :: "pm_op \<Rightarrow> priority_manager \<Rightarrow> priority_manager" where
  "pm_apply (WaitFor v pr) m = snd (waitForAccess v pr m)"
| "pm_apply (Register v pr) m = snd (registerHandle v pr m)"
| "pm_apply (Release h) m = releaseHandle h m"
| "pm_apply (UnblockAll vs) m = unblockAll vs m"

definition open_on :: "nat \<Rightarrow> (nat \<times> bool) list \<Rightarrow> nat" where
  "open_on v hs = length (filter (\<lambda>h. h = (v, False)) hs)"

definition pm_inv :: "priority_manager \<Rightarrow> bool" where
  "pm_inv m \<longleftrightarrow> (\<forall>v. highCount (getState v m) = open_on v (pm_handles m) \<and>
     (waiters (getState v m) \<noteq> [] \<longrightarrow> 0 < highCount (getState v m)))"

definition pm_waiting :: "priority_manager \<Rightarrow> nat set" where
  "pm_waiting m = (\<Union>v. set (waiters (getState v m)))"

lemma getState_putState [simp]: "getState w (putState v s m) = (if w = v then s else getState w m)"
  by (simp add: getState_def putState_def)

lemma getState_frame [simp]:
  "getState v (m\<lparr>pm_handles := hs\<rparr>) = getState v m" "getState v (m\<lparr>pm_next := n\<rparr>) = getState v m"
  "getState v (m\<lparr>pm_resolved := r\<rparr>) = getState v m"
  by (simp_all add: getState_def)

lemma putState_frame [simp]:
  "pm_handles (putState v s m) = pm_handles m" "pm_resolved (putState v s m) = pm_resolved m"
  "pm_next (putState v s m) = pm_next m"
  by (simp_all add: putState_def)

lemma open_on_append: "open_on v (hs @ [(w, False)]) = (if v = w then Suc (open_on v hs) else open_on v hs)"
  by (auto simp: open_on_def)

lemma open_on_close:
  assumes "h < length hs" "hs ! h = (w, False)"
  shows "Suc (open_on w (hs[h := (w, True)])) = open_on w hs"
    "v \<noteq> w \<Longrightarrow> open_on v (hs[h := (w, True)]) = open_on v hs"
proof -
  have hs: "hs = take h hs @ (w, False) # drop (Suc h) hs" using assms by (metis id_take_nth_drop)
  have up: "hs[h := (w, True)] = take h hs @ (w, True) # drop (Suc h) hs"
    using assms(1) by (simp add: upd_conv_take_nth_drop)
  have c: "open_on u (xs @ y # ys) = open_on u xs + (if y = (u, False) then 1 else 0) + open_on u ys" for u xs y ys
    by (simp add: open_on_def)
  show "Suc (open_on w (hs[h := (w, True)])) = open_on w hs"
    unfolding up by (subst (3) hs) (simp add: c)
  show "v \<noteq> w \<Longrightarrow> open_on v (hs[h := (w, True)]) = open_on v hs"
    unfolding up by (subst (3) hs) (simp add: c)
qed

lemma pm_inv_unblock: "pm_inv m \<Longrightarrow> pm_inv (unblockAll vs m)"
proof (induction vs arbitrary: m)
  case (Cons v vs)
  have "pm_inv (forceUnblock v m)"
  proof (cases "pm_states m v")
    case (Some st)
    then have st: "getState v m = st" by (simp add: getState_def)
    have "highCount st = open_on v (pm_handles m)" using Cons.prems st by (auto simp: pm_inv_def)
    then show ?thesis using Cons.prems Some st by (auto simp: pm_inv_def forceUnblock_def drainWaiters_def)
  qed (use Cons.prems in \<open>simp add: forceUnblock_def\<close>)
  then show ?case using Cons.IH by (simp add: unblockAll_def)
qed (simp add: unblockAll_def)

lemma pm_inv_release:
  assumes "pm_inv m"
  shows "pm_inv (releaseHandle h m)"
proof (cases "h < length (pm_handles m) \<and> \<not> snd (pm_handles m ! h)")
  case True
  then obtain w where h: "h < length (pm_handles m)" "pm_handles m ! h = (w, False)"
    by (cases "pm_handles m ! h") auto
  let ?hs = "(pm_handles m)[h := (w, True)]"
  have hc: "highCount (getState w m) = Suc (open_on w ?hs)"
    using assms open_on_close(1) [OF h] by (simp add: pm_inv_def)
  obtain s ws where d: "decrementHigh (getState w m) = (s, ws)" by fastforce
  then have s: "highCount s = open_on w ?hs" "waiters s \<noteq> [] \<longrightarrow> 0 < highCount s"
    using hc by (auto simp: decrementHigh_def drainWaiters_def Let_def split: if_splits)
  have "releaseHandle h m = putState w s (m\<lparr>pm_handles := ?hs, pm_resolved := pm_resolved m @ ws\<rparr>)"
    using h d by (simp add: releaseHandle_def)
  then show ?thesis using assms s open_on_close(2) [OF h] by (auto simp: pm_inv_def)
next
  case False
  then show ?thesis using assms by (auto simp: releaseHandle_def split: prod.split bool.split)
qed

lemma pm_inv_apply: "pm_inv m \<Longrightarrow> pm_inv (pm_apply op m)"
proof (cases op)
  case (WaitFor v pr)
  assume "pm_inv m"
  then show ?thesis
    by (auto simp: WaitFor pm_inv_def waitForAccess_def Let_def)
next
  case (Register v pr)
  assume "pm_inv m"
  then show ?thesis
    by (auto simp: Register pm_inv_def registerHandle_def incrementHigh_def open_on_append)
qed (simp_all add: pm_inv_unblock pm_inv_release)

lemma pm_inv_run: "pm_inv m \<Longrightarrow> pm_inv (fold pm_apply ops m)"
  by (induction ops arbitrary: m) (simp_all add: pm_inv_apply)

lemma pm_inv_empty: "pm_inv pm_empty"
  by (simp add: pm_inv_def pm_empty_def getState_def fresh_state_def open_on_def)

text \<open>
  After any sequence of waits, handle registrations, releases (repeated or not) and unblocks, the
  high-priority count of a volume is the number of its handles not yet released, and a low-priority
  waiter is parked on a volume only while such a handle is open: once they are all released, no
  waiter is left waiting.
\<close>

theorem priority_no_lost_waiter:
  "let m = fold pm_apply ops pm_empty in
     highCount (getState v m) = open_on v (pm_handles m) \<and>
     (open_on v (pm_handles m) = 0 \<longrightarrow> waiters (getState v m) = [])"
  using pm_inv_run [OF pm_inv_empty, of ops] by (auto simp: pm_inv_def Let_def)

theorem priority_no_lost_waiter_witness:
  "waiters (getState 3 (fold pm_apply [Register 3 NormalPriority, WaitFor 3 LowPriority, Release 0, Release 0] pm_empty)) = []"
proof -
  have "open_on 3 (pm_handles (fold pm_apply [Register 3 NormalPriority, WaitFor 3 LowPriority, Release 0, Release 0] pm_empty)) = 0"
    by code_simp
  then show ?thesis
    using priority_no_lost_waiter [where v = 3 and ops = "[Register 3 NormalPriority, WaitFor 3 LowPriority, Release 0, Release 0]"]
    unfolding Let_def by blast
qed

end
