(* ===== verification/Slice_Ops.thy ===== *)
theory Slice_Ops
  imports Slice_Format Volume_State Priority_Manager
begin

text \<open>
  \<^verbatim>\<open>lib/io/file-object/slice.ts\<close>: the life of one slice on its volume. A slice, its volume and the priority
  manager are threaded through every operation, together with the outcomes of the calls an operation
  makes: \<open>se_aborted k\<close> is the answer of the \<open>k\<close>-th shutdown check, \<open>se_fs k\<close> the failure of the \<open>k\<close>-th
  file-system call, \<open>se_timeout k\<close> whether the \<open>k\<close>-th timed call expires, and \<open>se_short\<close> the number of
  bytes the one \<open>write\<close> of an operation writes when it stops short (the code does not look at
  \<open>bytesWritten\<close>). An operation is described from the moment its low-priority wait is over. The lemmas
  show the chunk round trip, that a read never returns bytes whose checksum differs, what each path
  does to reservations and holds, and that a short write goes unnoticed.
\<close>

datatype slice_mode = WriteMode | ReadMode

record slice =
  sl_ref :: slice_ref
  sl_objectId :: string
  sl_volumeId :: nat
  sl_fileName :: string
  sl_reservedBytes :: int
  sl_hasReservation :: bool
  sl_priority :: priority
  sl_size :: int
  sl_mode :: "slice_mode option"
  sl_cursorOffset :: nat
  sl_isPerformingIO :: bool
  sl_isCommitted :: bool
  sl_outputFh :: bool
  sl_inputFh :: "bytes option"
  sl_hold :: "nat option option"
  sl_headerMd5Ok :: "bool option"

record sworld =
  w_slice :: slice
  w_vol :: volume
  w_pm :: priority_manager

record slice_env =
  se_aborted :: "nat \<Rightarrow> bool"
  se_fs :: "nat \<Rightarrow> js_error option"
  se_timeout :: "nat \<Rightarrow> bool"
  se_short :: "nat option"

definition quiet_env :: slice_env where
  "quiet_env = \<lparr>se_aborted = (\<lambda>_. False), se_fs = (\<lambda>_. None), se_timeout = (\<lambda>_. False), se_short = None\<rparr>"

lemma quiet_env_sel [simp]:
  "se_aborted quiet_env k = False" "se_fs quiet_env k = None" "se_timeout quiet_env k = False" "se_short quiet_env = None"
  by (simp_all add: quiet_env_def)

section \<open>Construction\<close>

text \<open>The constructor: the volume a slice index lives on, or the error it throws.\<close>

definition slice_volume_id :: "nat list \<Rightarrow> nat list \<Rightarrow> nat \<Rightarrow> js_error + nat" where
  "slice_volume_id dataVols parityVols i =
    (if i < length dataVols then Inr (dataVols ! i)
     else if i < length dataVols + length parityVols then Inr (parityVols ! (i - length dataVols))
     else Inl (plain_error ''invalid slice index''))"

definition new_slice :: "slice_ref \<Rightarrow> string \<Rightarrow> nat \<Rightarrow> int \<Rightarrow> bool \<Rightarrow> priority \<Rightarrow> slice" where
  "new_slice r oid vid reserved hasRes pr = \<lparr>sl_ref = r, sl_objectId = oid, sl_volumeId = vid,
     sl_fileName = oid @ ''.'' @ decimal (sr_sliceIndex r), sl_reservedBytes = reserved,
     sl_hasReservation = hasRes, sl_priority = pr, sl_size = 0, sl_mode = None, sl_cursorOffset = 0,
     sl_isPerformingIO = False, sl_isCommitted = False, sl_outputFh = False, sl_inputFh = None,
     sl_hold = None, sl_headerMd5Ok = None\<rparr>"

definition sliceType :: "slice \<Rightarrow> slice_type" where
  "sliceType s = (if sr_sliceIndex (sl_ref s) < sr_dataSliceCount (sl_ref s) then DataSlice else ParitySlice)"

definition isAvailable :: "nat list \<Rightarrow> sworld \<Rightarrow> bool" where
  "isAvailable unavailable w \<longleftrightarrow>
     isReadable (w_vol w) \<and> sr_sliceIndex (sl_ref (w_slice w)) \<notin> set unavailable"

section \<open>Errors, holds and handles\<close>

definition or_else :: "'a option \<Rightarrow> 'a option \<Rightarrow> 'a option" where
  "or_else x y = (case x of None \<Rightarrow> y | Some a \<Rightarrow> Some a)"

definition decorateError :: "slice \<Rightarrow> string \<Rightarrow> js_error \<Rightarrow> js_error" where
  "decorateError s fallback e = e\<lparr>
     err_objectId := or_else (err_objectId e) (Some (sl_objectId s)),
     err_sliceIndex := or_else (err_sliceIndex e) (Some (sr_sliceIndex (sl_ref s))),
     err_volumeId := or_else (err_volumeId e) (Some (sl_volumeId s)),
     err_fileName := or_else (err_fileName e) (Some (sl_fileName s)),
     err_code := or_else (err_code e) (Some fallback)\<rparr>"

definition registerPriorityHold :: "sworld \<Rightarrow> sworld" where
  "registerPriorityHold w =
    (let s = w_slice w in
     if sl_hold s \<noteq> None then w
     else case registerHandle (sl_volumeId s) (sl_priority s) (w_pm w) of
       (h, pm) \<Rightarrow> w\<lparr>w_slice := s\<lparr>sl_hold := Some h\<rparr>, w_pm := pm\<rparr>)"

definition releasePriorityHold :: "sworld \<Rightarrow> sworld" where
  "releasePriorityHold w =
    (let s = w_slice w in
     case sl_hold s of
       None \<Rightarrow> w
     | Some None \<Rightarrow> w\<lparr>w_slice := s\<lparr>sl_hold := None\<rparr>\<rparr>
     | Some (Some h) \<Rightarrow> w\<lparr>w_slice := s\<lparr>sl_hold := None\<rparr>, w_pm := releaseHandle h (w_pm w)\<rparr>)"

definition cleanupOutputHandle :: "js_error option \<Rightarrow> sworld \<Rightarrow> sworld" where
  "cleanupOutputHandle fs w =
    (if \<not> sl_outputFh (w_slice w) then w
     else w\<lparr>w_slice := (w_slice w)\<lparr>sl_outputFh := False\<rparr>,
            w_vol := snd (deleteTemporaryFile fs (sl_fileName (w_slice w)) (w_vol w))\<rparr>)"

definition cleanupInputHandle :: "sworld \<Rightarrow> sworld" where
  "cleanupInputHandle w = w\<lparr>w_slice := (w_slice w)\<lparr>sl_inputFh := None\<rparr>\<rparr>"

abbreviation upd_slice :: "(slice \<Rightarrow> slice) \<Rightarrow> sworld \<Rightarrow> sworld" where
  "upd_slice f w \<equiv> w\<lparr>w_slice := f (w_slice w)\<rparr>"

text \<open>The \<open>finally\<close> clause that every operation ends with.\<close>

definition idle :: "sworld \<Rightarrow> sworld" where
  "idle w = w\<lparr>w_slice := (w_slice w)\<lparr>sl_isPerformingIO := False\<rparr>\<rparr>"

section \<open>Writing\<close>

text \<open>What reaches the file of the bytes handed to \<open>write\<close>.\<close>

definition bytes_written :: "nat option \<Rightarrow> bytes \<Rightarrow> bytes" where
  "bytes_written short bytes = (case short of None \<Rightarrow> bytes | Some n \<Rightarrow> take n bytes)"

lemma bytes_written_None [simp]: "bytes_written None bytes = bytes"
  by (simp add: bytes_written_def)

lemma bytes_written_short: "length (bytes_written short bytes) \<le> length bytes \<and>
    (length (bytes_written short bytes) = length bytes \<longrightarrow> bytes_written short bytes = bytes)"
  by (cases short) (auto simp: bytes_written_def)

definition slice_create :: "(bytes \<Rightarrow> bytes) \<Rightarrow> slice_env \<Rightarrow> sworld \<Rightarrow> js_error option \<times> sworld" where
  "slice_create md5 env w0 =
    (if se_aborted env 0 then (Some ioabort_error, w0)
     else
       let w1 = w0\<lparr>w_slice := (w_slice w0)\<lparr>sl_size := FILE_HEADER_SIZE, sl_cursorOffset := nat FILE_HEADER_SIZE,
                     sl_isPerformingIO := True\<rparr>\<rparr>
       in case createTemporaryFh (se_fs env 0) (sl_fileName (w_slice w1)) (w_vol w1) of
         (Some e, v) \<Rightarrow> (Some e, idle (w1\<lparr>w_vol := v\<rparr>))
       | (None, v) \<Rightarrow>
         let w2 = w1\<lparr>w_vol := v, w_slice := (w_slice w1)\<lparr>sl_outputFh := True\<rparr>\<rparr>
         in if se_aborted env 1 then (Some ioabort_error, idle (cleanupOutputHandle (se_fs env 1) w2))
            else case slice_header md5 (sl_ref (w_slice w2)) of
              Inl e \<Rightarrow> (Some e, idle w2)
            | Inr h \<Rightarrow>
              let w3 = registerPriorityHold w2 in
              (case (if se_aborted env 2 then Some ioabort_error else se_fs env 2) of
                 Some e \<Rightarrow> (Some e, idle (cleanupOutputHandle (se_fs env 1) (releasePriorityHold w3)))
               | None \<Rightarrow>
                 (None, upd_slice (\<lambda>s. s\<lparr>sl_mode := Some WriteMode\<rparr>)
                   (idle (w3\<lparr>w_vol := appendTemporary (sl_fileName (w_slice w3)) (bytes_written (se_short env) h) (w_vol w3)\<rparr>)))))"

text \<open>The record a chunk becomes on disk.\<close>

definition chunk_record :: "(bytes \<Rightarrow> bytes) \<Rightarrow> bytes \<Rightarrow> bytes" where
  "chunk_record md5 data = md5 data @ data"

definition slice_writeChunk :: "(bytes \<Rightarrow> bytes) \<Rightarrow> slice_env \<Rightarrow> bytes \<Rightarrow> sworld \<Rightarrow> js_error option \<times> sworld" where
  "slice_writeChunk md5 env data w =
    (let s = w_slice w in
     if se_aborted env 0 then (Some ioabort_error, w)
     else if sl_isPerformingIO s then (Some (plain_error ''slice already writing''), w)
     else if sl_mode s \<noteq> Some WriteMode then (Some (plain_error ''slice not opened for writing''), w)
     else if \<not> sl_outputFh s then (Some (plain_error ''slice not prepared for writing''), w)
     else if sr_chunkSize (sl_ref s) < CHUNK_HEADER_SIZE + int (length data)
       then (Some (plain_error ''source size out of range''), w)
     else if se_aborted env 1 then (Some ioabort_error, w)
     else case se_fs env 0 of
       Some e \<Rightarrow> (Some e, w)
     | None \<Rightarrow> (None, w\<lparr>w_vol := appendTemporary (sl_fileName s) (bytes_written (se_short env) (chunk_record md5 data)) (w_vol w),
                         w_slice := s\<lparr>sl_size := sl_size s + int (length data) + CHUNK_HEADER_SIZE\<rparr>\<rparr>))"

section \<open>Reading\<close>

definition etimeout :: js_error where "etimeout = coded_error ''ETIMEOUT'' ''slice timed out after 30000ms''"

definition slice_open :: "(bytes \<Rightarrow> bytes) \<Rightarrow> slice_env \<Rightarrow> sworld \<Rightarrow> js_error option \<times> sworld" where
  "slice_open md5 env w0 =
    (if se_aborted env 0 then (Some ioabort_error, w0)
     else
       let w1 = upd_slice (\<lambda>s. s\<lparr>sl_isPerformingIO := True\<rparr>) w0; s1 = w_slice w1;
           opened = (if se_timeout env 0 then Inl etimeout
                     else openCommittedFh (se_fs env 0) (sl_fileName s1) (w_vol w1))
       in case opened of
         Inl e \<Rightarrow> (Some (decorateError s1 ''EOPEN'' e), idle w1)
       | Inr f \<Rightarrow>
         let w2 = upd_slice (\<lambda>s. s\<lparr>sl_inputFh := Some f\<rparr>) w1 in
         if se_aborted env 1 then (Some (decorateError s1 ''EOPEN'' ioabort_error), idle (cleanupInputHandle w2))
         else
           let w3 = registerPriorityHold w2;
               hdr = take (nat FILE_HEADER_SIZE) f;
               outcome =
                 (if se_aborted env 2 then Some ioabort_error
                  else if se_timeout env 1 then Some etimeout
                  else case se_fs env 1 of
                    Some e \<Rightarrow> Some e
                  | None \<Rightarrow>
                    if length hdr \<noteq> nat FILE_HEADER_SIZE then Some (coded_error ''EIO'' ''short read on slice header'')
                    else validateHeader (sl_ref s1) hdr)
           in case outcome of
             Some e \<Rightarrow>
               (Some (decorateError s1 ''EOPEN''
                  (mk_error (or_else (err_code e) (Some ''EOPEN''))
                     (''failed to read slice header: '' @ err_message e))),
                idle (cleanupInputHandle (releasePriorityHold w3)))
           | None \<Rightarrow>
               (None, idle (upd_slice (\<lambda>s. s\<lparr>sl_headerMd5Ok := Some (advisoryHeaderMd5Ok md5 hdr),
                  sl_cursorOffset := nat FILE_HEADER_SIZE, sl_mode := Some ReadMode, sl_isCommitted := True\<rparr>) w3)))"

definition seekToHead :: "slice \<Rightarrow> slice" where
  "seekToHead s = s\<lparr>sl_cursorOffset := nat FILE_HEADER_SIZE\<rparr>"

text \<open>\<open>seekToChunkIndex\<close>, for an io class with the given start and standard chunk data sizes.\<close>

definition chunk_offset :: "nat \<Rightarrow> nat \<Rightarrow> nat \<Rightarrow> nat" where
  "chunk_offset startSize standard chunkIndex =
     nat FILE_HEADER_SIZE
     + (if 0 < chunkIndex then 1 else 0) * (nat CHUNK_HEADER_SIZE + startSize)
     + (chunkIndex - 1) * (nat CHUNK_HEADER_SIZE + standard)"

definition seekToChunkIndex :: "nat \<Rightarrow> nat \<Rightarrow> nat \<Rightarrow> slice \<Rightarrow> slice" where
  "seekToChunkIndex startSize standard chunkIndex s = s\<lparr>sl_cursorOffset := chunk_offset startSize standard chunkIndex\<rparr>"

text \<open>The bytes-level part of \<open>readChunk\<close>: one positioned read of the checksum and the data.\<close>

definition read_chunk_at :: "(bytes \<Rightarrow> bytes) \<Rightarrow> bytes \<Rightarrow> nat \<Rightarrow> nat \<Rightarrow> js_error + bytes" where
  "read_chunk_at md5 f off len =
    (let buf = take (nat CHUNK_HEADER_SIZE + len) (drop off f) in
     if length buf \<noteq> nat CHUNK_HEADER_SIZE + len then Inl (plain_error ''short read on slice chunk'')
     else let data = drop (nat CHUNK_HEADER_SIZE) buf in
       if take (nat CHUNK_HEADER_SIZE) buf \<noteq> md5 data
       then Inl (coded_error ''ECHECKSUM'' ''checksum mismatch'')
       else Inr data)"

definition slice_readChunk :: "(bytes \<Rightarrow> bytes) \<Rightarrow> slice_env \<Rightarrow> nat \<Rightarrow> sworld \<Rightarrow> (js_error + bytes) \<times> sworld" where
  "slice_readChunk md5 env chunkDataSize w =
    (let s = w_slice w in
     if se_aborted env 0 then (Inl ioabort_error, w)
     else if sl_isPerformingIO s then (Inl (plain_error ''slice already reading''), w)
     else if sl_mode s \<noteq> Some ReadMode then (Inl (plain_error ''slice not opened for reading''), w)
     else case sl_inputFh s of
       None \<Rightarrow> (Inl (plain_error ''slice not prepared for reading''), w)
     | Some f \<Rightarrow>
       (case (if se_aborted env 1 then Inl ioabort_error
              else if sr_chunkSize (sl_ref s) < CHUNK_HEADER_SIZE + int chunkDataSize
                then Inl (coded_error ''ERR_OUT_OF_RANGE'' ''length'')
              else if se_timeout env 0 then Inl etimeout
              else case se_fs env 0 of Some e \<Rightarrow> Inl e
                   | None \<Rightarrow> read_chunk_at md5 f (sl_cursorOffset s) chunkDataSize) of
          Inl e \<Rightarrow> (Inl (decorateError s ''EIO'' e), w)
        | Inr data \<Rightarrow>
          (Inr data, upd_slice (\<lambda>s. s\<lparr>sl_cursorOffset := sl_cursorOffset s + nat CHUNK_HEADER_SIZE + chunkDataSize\<rparr>) w)))"

definition skipChunk :: "nat \<Rightarrow> slice \<Rightarrow> slice" where
  "skipChunk chunkDataSize s = s\<lparr>sl_cursorOffset := sl_cursorOffset s + nat CHUNK_HEADER_SIZE + chunkDataSize\<rparr>"

section \<open>Closing, committing, deleting\<close>

text \<open>\<open>_waitForIdle\<close> on a slice whose I/O does not finish within its five seconds.\<close>

definition waitForIdle :: "slice_env \<Rightarrow> slice \<Rightarrow> js_error option" where
  "waitForIdle env s =
    (if sl_isPerformingIO s \<and> \<not> se_aborted env 0 then Some (plain_error ''slice timeout waiting for idle'') else None)"

definition slice_close :: "slice_env \<Rightarrow> sworld \<Rightarrow> js_error option \<times> sworld" where
  "slice_close env w =
    (let s = w_slice w in
     case waitForIdle env s of Some e \<Rightarrow> (Some e, w)
     | None \<Rightarrow>
       (case sl_mode s of
          None \<Rightarrow> (Some (plain_error ''slice is not open''), w)
        | Some WriteMode \<Rightarrow>
          if sl_outputFh s then
            (case or_else (se_fs env 0) (se_fs env 1) of
               Some e \<Rightarrow> (Some e, idle w)
             | None \<Rightarrow> (None, idle (upd_slice (\<lambda>s. s\<lparr>sl_mode := None\<rparr>)
                         (releasePriorityHold (upd_slice (\<lambda>s. s\<lparr>sl_outputFh := False\<rparr>) w)))))
          else (None, idle (upd_slice (\<lambda>s. s\<lparr>sl_mode := None\<rparr>) (releasePriorityHold w)))
        | Some ReadMode \<Rightarrow>
          if sl_inputFh s \<noteq> None then
            (case se_fs env 0 of
               Some e \<Rightarrow> (Some e, idle w)
             | None \<Rightarrow> (None, idle (upd_slice (\<lambda>s. s\<lparr>sl_mode := None\<rparr>)
                         (releasePriorityHold (upd_slice (\<lambda>s. s\<lparr>sl_inputFh := None\<rparr>) w)))))
          else (None, idle (upd_slice (\<lambda>s. s\<lparr>sl_mode := None\<rparr>) (releasePriorityHold w)))))"

definition slice_commit :: "slice_env \<Rightarrow> sworld \<Rightarrow> js_error option \<times> sworld" where
  "slice_commit env w =
    (let s = w_slice w in
     if sl_isPerformingIO s then (Some (plain_error ''slice busy''), w)
     else case commitTemporaryFile (se_fs env 0) (se_fs env 1) (sl_fileName s) (w_vol w) of
       (Some e, v) \<Rightarrow> (Some e, w\<lparr>w_vol := v\<rparr>)
     | (None, v) \<Rightarrow>
       (None, w\<lparr>w_vol := (if sl_hasReservation s then applyCommittedBytes (sl_reservedBytes s) (sl_size s) (sliceType s) v
                            else v),
                w_slice := s\<lparr>sl_isCommitted := True, sl_mode := None\<rparr>\<rparr>))"

definition slice_delete :: "slice_env \<Rightarrow> sworld \<Rightarrow> js_error option \<times> sworld" where
  "slice_delete env w =
    (let s = w_slice w in
     case waitForIdle env s of Some e \<Rightarrow> (Some e, w)
     | None \<Rightarrow>
       (case (if sl_mode s = Some WriteMode \<and> sl_outputFh s then se_fs env 0 else None) of
          Some e \<Rightarrow> (Some e, w)
        | None \<Rightarrow>
          let w1 = (if sl_mode s = Some WriteMode \<and> sl_outputFh s then upd_slice (\<lambda>s. s\<lparr>sl_outputFh := False\<rparr>) w else w);
              r = (if sl_isCommitted s
                   then (case deleteCommittedFile (se_fs env 1) (sl_fileName s) (w_vol w1) of
                           (Some e, v) \<Rightarrow> (Some e, v)
                         | (None, v) \<Rightarrow> (None, releaseCommittedBytes (sl_size s) (sliceType s) v))
                   else (case deleteTemporaryFile (se_fs env 1) (sl_fileName s) (w_vol w1) of
                           (Some e, v) \<Rightarrow> (Some e, v)
                         | (None, v) \<Rightarrow> (None, if sl_hasReservation s then releaseReservation (sl_reservedBytes s) v else v)))
          in case r of
               (Some e, v) \<Rightarrow> (Some e, idle (w1\<lparr>w_vol := v\<rparr>))
             | (None, v) \<Rightarrow> (None, idle (upd_slice (\<lambda>s. s\<lparr>sl_mode := None\<rparr>) (releasePriorityHold (w1\<lparr>w_vol := v\<rparr>))))))"

definition markAsCommitted :: "slice \<Rightarrow> slice" where
  "markAsCommitted s = s\<lparr>sl_isCommitted := True\<rparr>"

section \<open>One slice, written and read back\<close>

text \<open>The calls the writer makes on a slice, and the calls the reader makes, in a process that is not shutting down.\<close>

fun write_all :: "(bytes \<Rightarrow> bytes) \<Rightarrow> bytes list \<Rightarrow> sworld \<Rightarrow> js_error option \<times> sworld" where
  "write_all md5 [] w = (None, w)"
| "write_all md5 (d # ds) w =
     (case slice_writeChunk md5 quiet_env d w of
        (Some e, w') \<Rightarrow> (Some e, w')
      | (None, w') \<Rightarrow> write_all md5 ds w')"

definition seq_world :: "js_error option \<times> sworld \<Rightarrow> (sworld \<Rightarrow> js_error option \<times> sworld) \<Rightarrow> js_error option \<times> sworld" where
  "seq_world r f = (case r of (Some e, w) \<Rightarrow> (Some e, w) | (None, w) \<Rightarrow> f w)"

lemma seq_world_simps [simp]: "seq_world (Some e, w) f = (Some e, w)" "seq_world (None, w) f = f w"
  by (simp_all add: seq_world_def)

definition store_slice :: "(bytes \<Rightarrow> bytes) \<Rightarrow> bytes list \<Rightarrow> sworld \<Rightarrow> js_error option \<times> sworld" where
  "store_slice md5 ds w =
     seq_world (seq_world (seq_world (slice_create md5 quiet_env w) (write_all md5 ds)) (slice_close quiet_env))
       (slice_commit quiet_env)"

fun read_all :: "(bytes \<Rightarrow> bytes) \<Rightarrow> nat list \<Rightarrow> sworld \<Rightarrow> js_error + bytes list" where
  "read_all md5 [] w = Inr []"
| "read_all md5 (n # ns) w =
     (case slice_readChunk md5 quiet_env n w of
        (Inl e, w') \<Rightarrow> Inl e
      | (Inr d, w') \<Rightarrow> bind_err (read_all md5 ns w') (\<lambda>ds. Inr (d # ds)))"

definition load_slice :: "(bytes \<Rightarrow> bytes) \<Rightarrow> nat list \<Rightarrow> sworld \<Rightarrow> js_error + bytes list" where
  "load_slice md5 ns w =
     (case slice_open md5 quiet_env w of (Some e, w') \<Rightarrow> Inl e | (None, w') \<Rightarrow> read_all md5 ns w')"

lemma header_sizes [simp]: "nat FILE_HEADER_SIZE = 48" "nat CHUNK_HEADER_SIZE = 16"
  by (simp_all add: FILE_HEADER_SIZE_def CHUNK_HEADER_SIZE_def)

definition records :: "(bytes \<Rightarrow> bytes) \<Rightarrow> bytes list \<Rightarrow> bytes" where
  "records md5 ds = concat (map (chunk_record md5) ds)"

lemma records_simps [simp]:
  "records md5 [] = []" "records md5 (d # ds) = chunk_record md5 d @ records md5 ds"
  by (simp_all add: records_def)

lemma read_chunk_record [simp]:
  assumes "digest16 md5"
  shows "read_chunk_at md5 (pre @ chunk_record md5 d @ post) (length pre) (length d) = Inr d"
  by (simp add: read_chunk_at_def chunk_record_def digest16D [OF assms] Let_def)

lemma read_chunk_at_sound:
  assumes "read_chunk_at md5 f off len = Inr d"
  shows "take (16 + len) (drop off f) = md5 d @ d \<and> length d = len"
proof -
  define buf where "buf = take (16 + len) (drop off f)"
  from assms have "length buf = 16 + len" "take 16 buf = md5 d" "d = drop 16 buf"
    by (auto simp: read_chunk_at_def buf_def Let_def split: if_splits)
  then show ?thesis using append_take_drop_id [of 16 buf] by (simp add: buf_def)
qed

text \<open>
  A write that stops short is not noticed: the call resolves, the chunk counts in full in the size of
  the slice, and the temporary file has fewer bytes.
\<close>

theorem short_write_unnoticed:
  assumes "\<not> sl_isPerformingIO (w_slice w)" "sl_mode (w_slice w) = Some WriteMode" "sl_outputFh (w_slice w)"
    and "16 + int (length d) \<le> sr_chunkSize (sl_ref (w_slice w))" "v_tmp (w_vol w) (sl_fileName (w_slice w)) = Some f"
    and "k < length (chunk_record md5 d)"
  shows "\<exists>w'. slice_writeChunk md5 (quiet_env\<lparr>se_short := Some k\<rparr>) d w = (None, w') \<and>
    sl_size (w_slice w') = sl_size (w_slice w) + int (length d) + 16 \<and>
    v_tmp (w_vol w') (sl_fileName (w_slice w')) = Some (f @ take k (chunk_record md5 d))"
  using assms
  by (simp add: slice_writeChunk_def Let_def appendTemporary_def CHUNK_HEADER_SIZE_def bytes_written_def quiet_env_def)

text \<open>Chunks are appended to the temporary file and counted in the slice's size.\<close>

definition writing :: "sworld \<Rightarrow> bool" where
  "writing w \<longleftrightarrow> \<not> sl_isPerformingIO (w_slice w) \<and> sl_mode (w_slice w) = Some WriteMode \<and> sl_outputFh (w_slice w)"

lemma writeChunk_quiet:
  assumes "writing w" "v_tmp (w_vol w) (sl_fileName (w_slice w)) = Some f"
    and "16 + int (length d) \<le> sr_chunkSize (sl_ref (w_slice w))"
  shows "slice_writeChunk md5 quiet_env d w =
    (None, w\<lparr>w_vol := (w_vol w)\<lparr>v_tmp := (v_tmp (w_vol w))(sl_fileName (w_slice w) \<mapsto> f @ chunk_record md5 d)\<rparr>,
             w_slice := (w_slice w)\<lparr>sl_size := sl_size (w_slice w) + int (length d) + 16\<rparr>\<rparr>)"
  using assms
  by (simp add: slice_writeChunk_def writing_def Let_def appendTemporary_def CHUNK_HEADER_SIZE_def)

lemma write_all_quiet:
  assumes "writing w" "v_tmp (w_vol w) (sl_fileName (w_slice w)) = Some f"
    and "\<forall>d \<in> set ds. 16 + int (length d) \<le> sr_chunkSize (sl_ref (w_slice w))"
  shows "write_all md5 ds w =
    (None, w\<lparr>w_vol := (w_vol w)\<lparr>v_tmp := (v_tmp (w_vol w))(sl_fileName (w_slice w) \<mapsto> f @ records md5 ds)\<rparr>,
             w_slice := (w_slice w)\<lparr>sl_size := sl_size (w_slice w) + (\<Sum>d\<leftarrow>ds. int (length d) + 16)\<rparr>\<rparr>)"
  using assms
proof (induction ds arbitrary: w f)
  case Nil
  then have "(v_tmp (w_vol w))(sl_fileName (w_slice w) \<mapsto> f) = v_tmp (w_vol w)" by (simp add: fun_upd_idem)
  then show ?case by simp
next
  case (Cons d ds)
  let ?w = "w\<lparr>w_vol := (w_vol w)\<lparr>v_tmp := (v_tmp (w_vol w))(sl_fileName (w_slice w) \<mapsto> f @ chunk_record md5 d)\<rparr>,
             w_slice := (w_slice w)\<lparr>sl_size := sl_size (w_slice w) + int (length d) + 16\<rparr>\<rparr>"
  have step: "slice_writeChunk md5 quiet_env d w = (None, ?w)"
    using Cons.prems by (intro writeChunk_quiet) simp_all
  have "write_all md5 ds ?w =
    (None, ?w\<lparr>w_vol := (w_vol ?w)\<lparr>v_tmp := (v_tmp (w_vol ?w))(sl_fileName (w_slice ?w) \<mapsto> (f @ chunk_record md5 d) @ records md5 ds)\<rparr>,
             w_slice := (w_slice ?w)\<lparr>sl_size := sl_size (w_slice ?w) + (\<Sum>d\<leftarrow>ds. int (length d) + 16)\<rparr>\<rparr>)"
    using Cons.prems by (intro Cons.IH) (simp_all add: writing_def)
  then show ?case by (simp add: step add.assoc fun_upd_def cong: if_cong)
qed

text \<open>A slice about to be written: freshly constructed, on a writable volume with a mount point.\<close>

definition ready_to_write :: "(bytes \<Rightarrow> bytes) \<Rightarrow> sworld \<Rightarrow> bytes \<Rightarrow> bool" where
  "ready_to_write md5 w h \<longleftrightarrow> guard_writable (w_vol w) = None \<and> sl_hold (w_slice w) = None \<and>
     slice_header md5 (sl_ref (w_slice w)) = Inr h"

lemma hold_frame [simp]:
  "w_vol (registerPriorityHold w) = w_vol w" "w_vol (releasePriorityHold w) = w_vol w"
  "sl_ref (w_slice (registerPriorityHold w)) = sl_ref (w_slice w)"
  "sl_ref (w_slice (releasePriorityHold w)) = sl_ref (w_slice w)"
  "sl_fileName (w_slice (registerPriorityHold w)) = sl_fileName (w_slice w)"
  "sl_fileName (w_slice (releasePriorityHold w)) = sl_fileName (w_slice w)"
  "sl_size (w_slice (registerPriorityHold w)) = sl_size (w_slice w)"
  "sl_size (w_slice (releasePriorityHold w)) = sl_size (w_slice w)"
  "sl_mode (w_slice (registerPriorityHold w)) = sl_mode (w_slice w)"
  "sl_mode (w_slice (releasePriorityHold w)) = sl_mode (w_slice w)"
  "sl_outputFh (w_slice (registerPriorityHold w)) = sl_outputFh (w_slice w)"
  "sl_outputFh (w_slice (releasePriorityHold w)) = sl_outputFh (w_slice w)"
  "sl_inputFh (w_slice (registerPriorityHold w)) = sl_inputFh (w_slice w)"
  "sl_inputFh (w_slice (releasePriorityHold w)) = sl_inputFh (w_slice w)"
  "sl_isCommitted (w_slice (registerPriorityHold w)) = sl_isCommitted (w_slice w)"
  "sl_isCommitted (w_slice (releasePriorityHold w)) = sl_isCommitted (w_slice w)"
  "sl_hasReservation (w_slice (registerPriorityHold w)) = sl_hasReservation (w_slice w)"
  "sl_hasReservation (w_slice (releasePriorityHold w)) = sl_hasReservation (w_slice w)"
  "sl_reservedBytes (w_slice (registerPriorityHold w)) = sl_reservedBytes (w_slice w)"
  "sl_reservedBytes (w_slice (releasePriorityHold w)) = sl_reservedBytes (w_slice w)"
  "sl_isPerformingIO (w_slice (registerPriorityHold w)) = sl_isPerformingIO (w_slice w)"
  "sl_cursorOffset (w_slice (registerPriorityHold w)) = sl_cursorOffset (w_slice w)"
  "sl_hold (w_slice (releasePriorityHold w)) = None"
  by (simp_all add: registerPriorityHold_def releasePriorityHold_def Let_def split: prod.split option.split)

lemma idle_simps [simp]:
  "w_vol (idle w) = w_vol w" "w_pm (idle w) = w_pm w" "sl_isPerformingIO (w_slice (idle w)) = False"
  "sl_ref (w_slice (idle w)) = sl_ref (w_slice w)" "sl_fileName (w_slice (idle w)) = sl_fileName (w_slice w)"
  "sl_size (w_slice (idle w)) = sl_size (w_slice w)" "sl_mode (w_slice (idle w)) = sl_mode (w_slice w)"
  "sl_outputFh (w_slice (idle w)) = sl_outputFh (w_slice w)" "sl_inputFh (w_slice (idle w)) = sl_inputFh (w_slice w)"
  "sl_isCommitted (w_slice (idle w)) = sl_isCommitted (w_slice w)" "sl_hold (w_slice (idle w)) = sl_hold (w_slice w)"
  "sl_hasReservation (w_slice (idle w)) = sl_hasReservation (w_slice w)"
  "sl_reservedBytes (w_slice (idle w)) = sl_reservedBytes (w_slice w)"
  "sl_cursorOffset (w_slice (idle w)) = sl_cursorOffset (w_slice w)"
  by (simp_all add: idle_def)

lemma create_quiet:
  assumes "ready_to_write md5 w h"
  shows "\<exists>w'. slice_create md5 quiet_env w = (None, w') \<and> writing w' \<and>
    w_vol w' = (w_vol w)\<lparr>v_tmp := (v_tmp (w_vol w))(sl_fileName (w_slice w) \<mapsto> h)\<rparr> \<and>
    sl_fileName (w_slice w') = sl_fileName (w_slice w) \<and> sl_ref (w_slice w') = sl_ref (w_slice w) \<and>
    sl_size (w_slice w') = 48 \<and> sl_hasReservation (w_slice w') = sl_hasReservation (w_slice w) \<and>
    sl_reservedBytes (w_slice w') = sl_reservedBytes (w_slice w) \<and>
    sl_isCommitted (w_slice w') = sl_isCommitted (w_slice w)"
  using assms
  by (simp add: ready_to_write_def slice_create_def createTemporaryFh_def writing_def Let_def
      appendTemporary_def FILE_HEADER_SIZE_def)

lemma close_quiet:
  assumes "writing w"
  shows "\<exists>w'. slice_close quiet_env w = (None, w') \<and> w_vol w' = w_vol w \<and>
    sl_fileName (w_slice w') = sl_fileName (w_slice w) \<and> sl_ref (w_slice w') = sl_ref (w_slice w) \<and>
    sl_size (w_slice w') = sl_size (w_slice w) \<and> sl_hasReservation (w_slice w') = sl_hasReservation (w_slice w) \<and>
    sl_reservedBytes (w_slice w') = sl_reservedBytes (w_slice w) \<and>
    \<not> sl_isPerformingIO (w_slice w') \<and> sl_hold (w_slice w') = None \<and> sl_mode (w_slice w') = None"
  using assms by (simp add: writing_def slice_close_def waitForIdle_def or_else_def Let_def)

lemma guard_writable_frame [simp]:
  "guard_writable (v\<lparr>v_tmp := t\<rparr>) = guard_writable v" "guard_writable (v\<lparr>v_committed := t\<rparr>) = guard_writable v"
  by (simp_all add: guard_writable_def isWritable_def)

lemma store_slice_ok:
  assumes "ready_to_write md5 w h"
    and "\<forall>d \<in> set ds. 16 + int (length d) \<le> sr_chunkSize (sl_ref (w_slice w))"
  shows "\<exists>w' v. store_slice md5 ds w = (None, w') \<and>
    w_vol w' = (if sl_hasReservation (w_slice w)
      then applyCommittedBytes (sl_reservedBytes (w_slice w)) (48 + (\<Sum>d\<leftarrow>ds. int (length d) + 16)) (sliceType (w_slice w)) v else v) \<and>
    v = (w_vol w)\<lparr>v_tmp := (v_tmp (w_vol w))(sl_fileName (w_slice w) := None),
      v_committed := (v_committed (w_vol w))(sl_fileName (w_slice w) \<mapsto> h @ records md5 ds)\<rparr> \<and>
    sl_hold (w_slice w') = None"
proof -
  obtain w1 where w1: "slice_create md5 quiet_env w = (None, w1)" "writing w1"
    "w_vol w1 = (w_vol w)\<lparr>v_tmp := (v_tmp (w_vol w))(sl_fileName (w_slice w) \<mapsto> h)\<rparr>"
    "sl_fileName (w_slice w1) = sl_fileName (w_slice w)" "sl_ref (w_slice w1) = sl_ref (w_slice w)"
    "sl_size (w_slice w1) = 48" "sl_hasReservation (w_slice w1) = sl_hasReservation (w_slice w)"
    "sl_reservedBytes (w_slice w1) = sl_reservedBytes (w_slice w)"
    using create_quiet [OF assms(1)] by blast
  define w2 where "w2 = w1\<lparr>w_vol := (w_vol w1)\<lparr>v_tmp := (v_tmp (w_vol w1))(sl_fileName (w_slice w1) \<mapsto> h @ records md5 ds)\<rparr>,
             w_slice := (w_slice w1)\<lparr>sl_size := sl_size (w_slice w1) + (\<Sum>d\<leftarrow>ds. int (length d) + 16)\<rparr>\<rparr>"
  have w2: "write_all md5 ds w1 = (None, w2)"
    unfolding w2_def using assms(2) w1 by (intro write_all_quiet) simp_all
  have "writing w2" using w1(2) by (simp add: w2_def writing_def)
  then obtain w3 where w3: "slice_close quiet_env w2 = (None, w3)" "w_vol w3 = w_vol w2"
    "sl_fileName (w_slice w3) = sl_fileName (w_slice w2)" "sl_ref (w_slice w3) = sl_ref (w_slice w2)"
    "sl_size (w_slice w3) = sl_size (w_slice w2)" "sl_hasReservation (w_slice w3) = sl_hasReservation (w_slice w2)"
    "sl_reservedBytes (w_slice w3) = sl_reservedBytes (w_slice w2)"
    "\<not> sl_isPerformingIO (w_slice w3)" "sl_hold (w_slice w3) = None"
    using close_quiet by blast
  have vol: "w_vol w2 = (w_vol w)\<lparr>v_tmp := (v_tmp (w_vol w))(sl_fileName (w_slice w) \<mapsto> h @ records md5 ds)\<rparr>"
    by (simp add: w2_def w1)
  have "guard_writable (w_vol w) = None" using assms(1) by (simp add: ready_to_write_def)
  then show ?thesis
    by (simp add: store_slice_def w1(1) w2 w3 slice_commit_def commitTemporaryFile_def vol Let_def sliceType_def)
      (simp add: w2_def w1 vol)
qed

definition reading :: "sworld \<Rightarrow> bytes \<Rightarrow> bool" where
  "reading w f \<longleftrightarrow> \<not> sl_isPerformingIO (w_slice w) \<and> sl_mode (w_slice w) = Some ReadMode \<and>
     sl_inputFh (w_slice w) = Some f"

lemma read_all_records:
  assumes "digest16 md5" "reading w (pre @ records md5 ds)" "sl_cursorOffset (w_slice w) = length pre"
    and "\<forall>d \<in> set ds. 16 + int (length d) \<le> sr_chunkSize (sl_ref (w_slice w))"
  shows "read_all md5 (map length ds) w = Inr ds"
  using assms(2-)
proof (induction ds arbitrary: w pre)
  case (Cons d ds)
  let ?w = "upd_slice (\<lambda>s. s\<lparr>sl_cursorOffset := length (pre @ chunk_record md5 d)\<rparr>) w"
  have len: "length (chunk_record md5 d) = 16 + length d" by (simp add: chunk_record_def digest16D [OF assms(1)])
  have step: "slice_readChunk md5 quiet_env (length d) w = (Inr d, ?w)"
    using Cons.prems read_chunk_record [OF assms(1), of pre d "records md5 ds"]
    by (simp add: slice_readChunk_def reading_def len CHUNK_HEADER_SIZE_def add.assoc Let_def)
  have "read_all md5 (map length ds) ?w = Inr ds"
    using Cons.prems by (intro Cons.IH [where pre = "pre @ chunk_record md5 d"]) (simp_all add: reading_def)
  then show ?case by (simp add: step)
qed simp

lemma open_quiet:
  assumes "digest16 md5" "slice_header md5 r = Inr h" "length (sr_idBuf r) = 12"
    and "sl_ref (w_slice w) = r" "v_committed (w_vol w) (sl_fileName (w_slice w)) = Some (h @ body)"
    and "isReadable (w_vol w)" "present (v_mountPoint (w_vol w))"
  shows "\<exists>w'. slice_open md5 quiet_env w = (None, w') \<and> reading w' (h @ body) \<and>
    sl_cursorOffset (w_slice w') = 48 \<and> sl_ref (w_slice w') = r \<and> sl_headerMd5Ok (w_slice w') = Some True"
proof -
  note f = header_fields [OF assms(2,3,1)]
  have v: "validateHeader r h = None" using f by (simp add: validateHeader_def)
  show ?thesis
    using assms(4-) by (simp add: slice_open_def openCommittedFh_def f(1,7) v Let_def reading_def idle_def)
qed

lemma committed_readable [simp]:
  "v_isStarted (applyCommittedBytes r n t v) = v_isStarted v" "v_isEnabled (applyCommittedBytes r n t v) = v_isEnabled v"
  "v_mountPoint (applyCommittedBytes r n t v) = v_mountPoint v"
  "v_committed (applyCommittedBytes r n t v) = v_committed v"
  "v_tmp (applyCommittedBytes r n t v) = v_tmp v"
  by (simp_all add: book_defs Let_def split: slice_type.split option.split)

text \<open>
  A slice written through create, writeChunk, close and commit on a writable volume is stored
  without error, its temporary file is gone, and a fresh slice object for the same reference opens it
  and reads back exactly the chunks that were written, in order.
\<close>

theorem slice_store_load:
  assumes "digest16 md5" and "ready_to_write md5 w h" and "length (sr_idBuf (sl_ref (w_slice w))) = 12"
    and "\<forall>d \<in> set ds. 16 + int (length d) \<le> sr_chunkSize (sl_ref (w_slice w))"
    and "sl_ref s = sl_ref (w_slice w)" "sl_fileName s = sl_fileName (w_slice w)"
  shows "\<exists>w'. store_slice md5 ds w = (None, w') \<and> v_tmp (w_vol w') (sl_fileName s) = None \<and>
    load_slice md5 (map length ds) (w'\<lparr>w_slice := s\<rparr>) = Inr ds"
proof -
  obtain w' v where st: "store_slice md5 ds w = (None, w')"
    and vol: "w_vol w' = (if sl_hasReservation (w_slice w)
      then applyCommittedBytes (sl_reservedBytes (w_slice w)) (48 + (\<Sum>d\<leftarrow>ds. int (length d) + 16)) (sliceType (w_slice w)) v else v)"
    and v: "v = (w_vol w)\<lparr>v_tmp := (v_tmp (w_vol w))(sl_fileName (w_slice w) := None),
      v_committed := (v_committed (w_vol w))(sl_fileName (w_slice w) \<mapsto> h @ records md5 ds)\<rparr>"
    using store_slice_ok [OF assms(2,4)] by blast
  have h: "slice_header md5 (sl_ref (w_slice w)) = Inr h" and g: "guard_writable (w_vol w) = None"
    using assms(2) by (simp_all add: ready_to_write_def)
  have r: "isReadable (w_vol w')" "present (v_mountPoint (w_vol w'))" "v_tmp (w_vol w') (sl_fileName s) = None"
    "v_committed (w_vol w') (sl_fileName s) = Some (h @ records md5 ds)"
    using g by (simp_all add: vol v assms(6) guard_writable_def isWritable_def isReadable_def split: if_splits)
  obtain w'' where o: "slice_open md5 quiet_env (w'\<lparr>w_slice := s\<rparr>) = (None, w'')" "reading w'' (h @ records md5 ds)"
    "sl_cursorOffset (w_slice w'') = 48" "sl_ref (w_slice w'') = sl_ref (w_slice w)"
    using open_quiet [OF assms(1) h assms(3), of "w'\<lparr>w_slice := s\<rparr>" "records md5 ds"] r assms(5) by auto
  have "length h = 48" using header_fields(1) [OF h assms(3,1)] .
  then have "read_all md5 (map length ds) w'' = Inr ds"
    using assms(4) o by (intro read_all_records [OF assms(1)]) simp_all
  then show ?thesis using st r o(1) by (simp add: load_slice_def)
qed

section \<open>Reads, holds and the books\<close>

text \<open>An error of the operating system carries a code at most, none of the slice's context.\<close>

definition native_error :: "js_error \<Rightarrow> bool" where
  "native_error e \<longleftrightarrow> err_objectId e = None \<and> err_sliceIndex e = None \<and> err_volumeId e = None \<and> err_fileName e = None"

lemma native_mk_error [simp]: "native_error (mk_error c m)" by (simp add: native_error_def)

definition attributed :: "slice \<Rightarrow> js_error \<Rightarrow> bool" where
  "attributed s e \<longleftrightarrow> err_code e \<noteq> None \<and> err_objectId e = Some (sl_objectId s) \<and>
     err_sliceIndex e = Some (sr_sliceIndex (sl_ref s)) \<and> err_volumeId e = Some (sl_volumeId s) \<and>
     err_fileName e = Some (sl_fileName s)"

lemma decorate_attributed: "native_error e \<Longrightarrow> attributed s (decorateError s c e)"
  by (auto simp: native_error_def attributed_def decorateError_def or_else_def split: option.split)

lemma decorate_again: "attributed s e \<Longrightarrow> decorateError s c e = e"
  by (auto simp: attributed_def decorateError_def or_else_def)

lemma native_errors [simp]: "native_error ioabort_error" "native_error etimeout"
  by (simp_all add: ioabort_error_def etimeout_def)

lemma read_chunk_at_native: "read_chunk_at md5 f off n = Inl e \<Longrightarrow> native_error e"
  by (auto simp: read_chunk_at_def Let_def split: if_splits)

text \<open>
  Whatever the file holds and whatever fails, \<open>readChunk\<close> either returns bytes whose checksum is the
  one stored in front of them on disk and moves the cursor past them, or changes nothing and throws;
  an error raised while reading names the object, slice, volume and file, and has a code.
\<close>

theorem readChunk_checked:
  assumes "slice_readChunk md5 env n w = (r, w')" and "\<And>k e. se_fs env k = Some e \<Longrightarrow> native_error e"
  shows "case r of
      Inr d \<Rightarrow> length d = n \<and> sl_cursorOffset (w_slice w') = sl_cursorOffset (w_slice w) + 16 + n \<and>
        (\<exists>f. reading w f \<and> take (16 + n) (drop (sl_cursorOffset (w_slice w)) f) = md5 d @ d)
    | Inl e \<Rightarrow> w' = w \<and> ((\<exists>f. reading w f) \<and> \<not> se_aborted env 0 \<longrightarrow> attributed (w_slice w) e)"
proof (cases r)
  case (Inl e)
  then show ?thesis using assms
    by (auto simp: slice_readChunk_def reading_def Let_def decorate_attributed
        dest: read_chunk_at_native split: if_splits option.splits sum.splits)
next
  case (Inr d)
  then show ?thesis using assms(1)
    by (auto simp: slice_readChunk_def reading_def Let_def
        dest!: read_chunk_at_sound split: if_splits option.splits sum.splits)
qed

text \<open>A priority hold taken by \<open>open\<close> or \<open>create\<close> is given back on every failing path.\<close>

definition open_handles :: "sworld \<Rightarrow> nat \<Rightarrow> nat" where
  "open_handles w v = open_on v (pm_handles (w_pm w))"

lemma release_register [simp]:
  "sl_hold (w_slice w) = None \<Longrightarrow> open_handles (releasePriorityHold (registerPriorityHold w)) = open_handles w"
  by (simp add: fun_eq_iff registerPriorityHold_def releasePriorityHold_def registerHandle_def releaseHandle_def
      open_handles_def open_on_def Let_def split: prod.split)

lemma open_handles_frame [simp]:
  "open_handles (idle w) = open_handles w" "open_handles (cleanupInputHandle w) = open_handles w"
  "open_handles (cleanupOutputHandle fs w) = open_handles w"
  "open_handles (w\<lparr>w_slice := s\<rparr>) = open_handles w" "open_handles (w\<lparr>w_vol := v\<rparr>) = open_handles w"
  "open_handles (w\<lparr>w_vol := v, w_slice := s\<rparr>) = open_handles w"
  by (simp_all add: open_handles_def fun_eq_iff idle_def cleanupInputHandle_def cleanupOutputHandle_def)

lemma cleanup_hold [simp]:
  "sl_hold (w_slice (cleanupInputHandle w)) = sl_hold (w_slice w)"
  "sl_hold (w_slice (cleanupOutputHandle fs w)) = sl_hold (w_slice w)"
  by (simp_all add: cleanupInputHandle_def cleanupOutputHandle_def)

lemma open_error_hold:
  assumes "slice_open md5 env w = (Some e, w')" "sl_hold (w_slice w) = None"
  shows "sl_hold (w_slice w') = None \<and> open_handles w' = open_handles w"
  using assms by (auto simp: slice_open_def Let_def split: if_splits option.splits sum.splits)

lemma create_error_hold:
  assumes "slice_create md5 env w = (Some e, w')" "sl_hold (w_slice w) = None"
  shows "sl_hold (w_slice w') = None \<and> open_handles w' = open_handles w"
  using assms by (auto simp: slice_create_def Let_def split: if_splits option.splits sum.splits prod.splits)

lemma close_no_hold: "slice_close env w = (None, w') \<Longrightarrow> sl_hold (w_slice w') = None"
  by (auto simp: slice_close_def Let_def or_else_def split: if_splits option.splits slice_mode.splits)

lemma openCommittedFh_native: "openCommittedFh fs n v = Inl e \<Longrightarrow> native_error e"
  by (auto simp: openCommittedFh_def split: if_splits option.splits)

lemma open_error_attributed:
  assumes "slice_open md5 env w = (Some e, w')" "\<not> se_aborted env 0"
  shows "attributed (w_slice w) e"
proof -
  have [simp]: "attributed (s\<lparr>sl_isPerformingIO := b\<rparr>) = attributed s" "attributed (s\<lparr>sl_inputFh := b'\<rparr>) = attributed s"
    for s b b' by (simp_all add: fun_eq_iff attributed_def)
  show ?thesis using assms
    decorate_attributed [OF openCommittedFh_native, of _ _ _ _ "(w_slice w)\<lparr>sl_isPerformingIO := True\<rparr>" "''EOPEN''"]
    decorate_attributed [of _ "(w_slice w)\<lparr>sl_isPerformingIO := True\<rparr>" "''EOPEN''"]
    by (auto simp: slice_open_def Let_def split: if_splits option.splits sum.splits)
qed

text \<open>
  Opening or creating a slice never leaves a priority hold behind when it fails: the slice has none
  and every volume counts as many open handles as before. A successful close gives the hold back. So
  low-priority work is not blocked by a slice that is no longer in use. Every error \<open>open\<close> throws once
  it has started names the object, slice, volume and file, and has a code.
\<close>

theorem slice_hold_released:
  assumes "sl_hold (w_slice w) = None"
  shows "(\<forall>e w'. slice_open md5 env w = (Some e, w') \<longrightarrow>
        sl_hold (w_slice w') = None \<and> open_handles w' = open_handles w \<and>
        (se_aborted env 0 \<or> attributed (w_slice w) e)) \<and>
    (\<forall>e w'. slice_create md5 env w = (Some e, w') \<longrightarrow>
        sl_hold (w_slice w') = None \<and> open_handles w' = open_handles w) \<and>
    (\<forall>u u'. slice_close env u = (None, u') \<longrightarrow> sl_hold (w_slice u') = None)"
  using open_error_hold [OF _ assms] create_error_hold [OF _ assms] close_no_hold open_error_attributed by blast

lemma delete_uncommitted_quiet:
  assumes "writing w" "\<not> sl_isCommitted (w_slice w)" "guard_writable (w_vol w) = None"
    and "v_tmp (w_vol w) (sl_fileName (w_slice w)) = Some f"
  shows "\<exists>w'. slice_delete quiet_env w = (None, w') \<and> sl_hold (w_slice w') = None \<and>
    w_vol w' = (let v = (w_vol w)\<lparr>v_tmp := (v_tmp (w_vol w))(sl_fileName (w_slice w) := None)\<rparr>
      in if sl_hasReservation (w_slice w) then releaseReservation (sl_reservedBytes (w_slice w)) v else v)"
  using assms by (simp add: slice_delete_def writing_def waitForIdle_def deleteTemporaryFile_def Let_def)

definition abort_slice :: "(bytes \<Rightarrow> bytes) \<Rightarrow> bytes list \<Rightarrow> sworld \<Rightarrow> js_error option \<times> sworld" where
  "abort_slice md5 ds w = seq_world (seq_world (slice_create md5 quiet_env w) (write_all md5 ds)) (slice_delete quiet_env)"

lemma abort_slice_ok:
  assumes "ready_to_write md5 w h" "\<not> sl_isCommitted (w_slice w)"
    and "\<forall>d \<in> set ds. 16 + int (length d) \<le> sr_chunkSize (sl_ref (w_slice w))"
  shows "\<exists>w'. abort_slice md5 ds w = (None, w') \<and> sl_hold (w_slice w') = None \<and>
    w_vol w' = (let v = (w_vol w)\<lparr>v_tmp := (v_tmp (w_vol w))(sl_fileName (w_slice w) := None)\<rparr>
      in if sl_hasReservation (w_slice w) then releaseReservation (sl_reservedBytes (w_slice w)) v else v)"
proof -
  obtain w1 where w1: "slice_create md5 quiet_env w = (None, w1)" "writing w1"
    "w_vol w1 = (w_vol w)\<lparr>v_tmp := (v_tmp (w_vol w))(sl_fileName (w_slice w) \<mapsto> h)\<rparr>"
    "sl_fileName (w_slice w1) = sl_fileName (w_slice w)" "sl_ref (w_slice w1) = sl_ref (w_slice w)"
    "sl_hasReservation (w_slice w1) = sl_hasReservation (w_slice w)"
    "sl_reservedBytes (w_slice w1) = sl_reservedBytes (w_slice w)"
    "sl_isCommitted (w_slice w1) = sl_isCommitted (w_slice w)"
    using create_quiet [OF assms(1)] by blast
  define w2 where "w2 = w1\<lparr>w_vol := (w_vol w1)\<lparr>v_tmp := (v_tmp (w_vol w1))(sl_fileName (w_slice w1) \<mapsto> h @ records md5 ds)\<rparr>,
             w_slice := (w_slice w1)\<lparr>sl_size := sl_size (w_slice w1) + (\<Sum>d\<leftarrow>ds. int (length d) + 16)\<rparr>\<rparr>"
  have w2: "write_all md5 ds w1 = (None, w2)"
    unfolding w2_def using assms(3) w1 by (intro write_all_quiet) simp_all
  have "\<exists>w'. slice_delete quiet_env w2 = (None, w') \<and> sl_hold (w_slice w') = None \<and>
    w_vol w' = (let v = (w_vol w2)\<lparr>v_tmp := (v_tmp (w_vol w2))(sl_fileName (w_slice w2) := None)\<rparr>
      in if sl_hasReservation (w_slice w2) then releaseReservation (sl_reservedBytes (w_slice w2)) v else v)"
    using assms(1,2) w1
    by (intro delete_uncommitted_quiet) (simp_all add: w2_def writing_def ready_to_write_def)
  then show ?thesis by (simp add: abort_slice_def w1(1) w2) (simp add: w2_def w1 Let_def cong: if_cong)
qed

lemma length_records: "digest16 md5 \<Longrightarrow> int (length (records md5 ds)) = (\<Sum>d\<leftarrow>ds. int (length d) + 16)"
  by (induction ds) (simp_all add: chunk_record_def)

text \<open>
  The books of a slice balance. Committing a slice that holds a reservation takes the reservation off
  the volume's pending bytes and adds exactly the length of the file that was committed to its used
  bytes. Deleting a slice that was being written removes the temporary file, takes the reservation off
  the pending bytes and changes no other counter and no committed file.
\<close>

theorem slice_books_balance:
  assumes "ready_to_write md5 w h" and "digest16 md5" and "length (sr_idBuf (sl_ref (w_slice w))) = 12"
    and "\<forall>d \<in> set ds. 16 + int (length d) \<le> sr_chunkSize (sl_ref (w_slice w))"
    and "sl_hasReservation (w_slice w)" "\<not> sl_isCommitted (w_slice w)"
    and "sl_reservedBytes (w_slice w) \<le> v_bytesPending (w_vol w)"
  shows "(\<exists>w' f. store_slice md5 ds w = (None, w') \<and> v_committed (w_vol w') (sl_fileName (w_slice w)) = Some f \<and>
      v_bytesPending (w_vol w') = v_bytesPending (w_vol w) - sl_reservedBytes (w_slice w) \<and>
      v_bytesUsedData (w_vol w') + v_bytesUsedParity (w_vol w')
        = v_bytesUsedData (w_vol w) + v_bytesUsedParity (w_vol w) + int (length f)) \<and>
    (\<exists>w'. abort_slice md5 ds w = (None, w') \<and>
      w_vol w' = (w_vol w)\<lparr>v_tmp := (v_tmp (w_vol w))(sl_fileName (w_slice w) := None),
        v_bytesPending := v_bytesPending (w_vol w) - sl_reservedBytes (w_slice w)\<rparr>)"
proof
  have h: "slice_header md5 (sl_ref (w_slice w)) = Inr h" using assms(1) by (simp add: ready_to_write_def)
  have len: "int (length (h @ records md5 ds)) = 48 + (\<Sum>d\<leftarrow>ds. int (length d) + 16)"
    using header_fields(1) [OF h assms(3,2)] length_records [OF assms(2)] by simp
  show "\<exists>w' f. store_slice md5 ds w = (None, w') \<and> v_committed (w_vol w') (sl_fileName (w_slice w)) = Some f \<and>
      v_bytesPending (w_vol w') = v_bytesPending (w_vol w) - sl_reservedBytes (w_slice w) \<and>
      v_bytesUsedData (w_vol w') + v_bytesUsedParity (w_vol w')
        = v_bytesUsedData (w_vol w) + v_bytesUsedParity (w_vol w) + int (length f)"
    using store_slice_ok [OF assms(1,4)] assms(5,7) by (auto simp: accounting len simp del: length_append)
  show "\<exists>w'. abort_slice md5 ds w = (None, w') \<and>
      w_vol w' = (w_vol w)\<lparr>v_tmp := (v_tmp (w_vol w))(sl_fileName (w_slice w) := None),
        v_bytesPending := v_bytesPending (w_vol w) - sl_reservedBytes (w_slice w)\<rparr>"
    using abort_slice_ok [OF assms(1,6,4)] assms(5,7) by (auto simp: releaseReservation_def Let_def)
qed

text \<open>
  When the temporary file cannot be created, the cleanup the writer then runs (\<open>delete\<close>) fails on the
  missing file before it reaches \<open>releaseReservation\<close>: the reserved bytes stay pending on the volume.
\<close>

theorem failed_create_keeps_reservation:
  assumes "guard_writable (w_vol w) = None" and "v_tmp (w_vol w) (sl_fileName (w_slice w)) = None"
    and "\<not> sl_isCommitted (w_slice w)" "sl_mode (w_slice w) = None"
  shows "\<exists>w1 w2. slice_create md5 (quiet_env\<lparr>se_fs := (\<lambda>_. Some e)\<rparr>) w = (Some e, w1) \<and>
    slice_delete quiet_env w1 = (Some enoent, w2) \<and> v_bytesPending (w_vol w2) = v_bytesPending (w_vol w)"
  using assms
  by (simp add: slice_create_def createTemporaryFh_def slice_delete_def waitForIdle_def deleteTemporaryFile_def
      Let_def quiet_env_def)

text \<open>
  Deleting a stored slice through a fresh slice object, as object deletion does, removes the file but
  credits none of its bytes: the size of such an object is still 0, so the used and free counters
  do not move.
\<close>

theorem deleted_slice_not_credited:
  assumes "guard_writable v = None" and "v_committed v (sl_fileName s) = Some f"
    and "s = markAsCommitted (new_slice r oid vid reserved hasRes pr)" and "volume_inv v"
  shows "\<exists>w'. slice_delete quiet_env \<lparr>w_slice = s, w_vol = v, w_pm = pm\<rparr> = (None, w') \<and>
    w_vol w' = v\<lparr>v_committed := (v_committed v)(sl_fileName s := None)\<rparr>"
  using assms
  by (cases "v_bytesFree v")
    (simp_all add: slice_delete_def waitForIdle_def deleteCommittedFile_def releaseCommittedBytes_def Let_def
      markAsCommitted_def new_slice_def volume_inv_def split: slice_type.split)

section \<open>A sample slice\<close>

definition sample_world :: sworld where
  "sample_world = \<lparr>w_slice = new_slice sample_ref ''0102030405060708090a0b0c'' 7 100 True NormalPriority,
     w_vol = reserveSpace 100 sample_volume, w_pm = pm_empty\<rparr>"


lemma sample_guard: "guard_writable sample_volume = None" "v_bytesPending sample_volume = 0"
  by code_simp+

lemma reserve_guard [simp]: "guard_writable (reserveSpace n v) = guard_writable v"
  by (simp add: reserveSpace_def guard_writable_def isWritable_def)

lemma sample_header: "slice_header sum_digest sample_ref = Inr (projr (slice_header sum_digest sample_ref))"
  by (simp add: slice_header_def sample_ref_def writeIntLE_def writeUInt8_def Let_def)

lemma sample_ready: "ready_to_write sum_digest sample_world (projr (slice_header sum_digest sample_ref))"
  using sample_header sample_guard by (simp add: ready_to_write_def sample_world_def new_slice_def)

lemma sample_world_simps [simp]:
  "sl_ref (w_slice sample_world) = sample_ref" "sr_chunkSize sample_ref = 16384" "length (sr_idBuf sample_ref) = 12"
  "sl_hasReservation (w_slice sample_world)" "\<not> sl_isCommitted (w_slice sample_world)"
  "sl_reservedBytes (w_slice sample_world) = 100" "v_bytesPending (w_vol sample_world) = 100"
  "sl_hold (w_slice sample_world) = None" "sl_mode (w_slice sample_world) = None"
  "guard_writable (w_vol sample_world) = None"
  using sample_guard by (simp_all add: sample_world_def new_slice_def sample_ref_def pending_ops)

theorem slice_store_load_witness:
  "\<exists>w'. store_slice sum_digest [[1, 2, 3], [4]] sample_world = (None, w') \<and>
    v_tmp (w_vol w') (sl_fileName (w_slice sample_world)) = None \<and>
    load_slice sum_digest [3, 1] (w'\<lparr>w_slice := w_slice sample_world\<rparr>) = Inr [[1, 2, 3], [4]]"
  using slice_store_load [OF digest16_sum_digest sample_ready, of "[[1, 2, 3], [4]]" "w_slice sample_world"]
  by (simp add: eval_nat_numeral)

theorem slice_books_balance_witness:
  "(\<exists>w' f. store_slice sum_digest [[1, 2, 3], [4]] sample_world = (None, w') \<and>
      v_bytesPending (w_vol w') = 0 \<and>
      v_committed (w_vol w') (sl_fileName (w_slice sample_world)) = Some f) \<and>
   (\<exists>w'. abort_slice sum_digest [[1, 2, 3], [4]] sample_world = (None, w') \<and> v_bytesPending (w_vol w') = 0)"
proof -
  have "(\<exists>w' f. store_slice sum_digest [[1, 2, 3], [4]] sample_world = (None, w') \<and>
      v_committed (w_vol w') (sl_fileName (w_slice sample_world)) = Some f \<and>
      v_bytesPending (w_vol w') = v_bytesPending (w_vol sample_world) - sl_reservedBytes (w_slice sample_world) \<and>
      v_bytesUsedData (w_vol w') + v_bytesUsedParity (w_vol w')
        = v_bytesUsedData (w_vol sample_world) + v_bytesUsedParity (w_vol sample_world) + int (length f)) \<and>
    (\<exists>w'. abort_slice sum_digest [[1, 2, 3], [4]] sample_world = (None, w') \<and>
      w_vol w' = (w_vol sample_world)\<lparr>v_tmp := (v_tmp (w_vol sample_world))(sl_fileName (w_slice sample_world) := None),
        v_bytesPending := v_bytesPending (w_vol sample_world) - sl_reservedBytes (w_slice sample_world)\<rparr>)"
    by (rule slice_books_balance [OF sample_ready digest16_sum_digest]) simp_all
  then show ?thesis by auto
qed

theorem failed_create_keeps_reservation_witness:
  "\<exists>w1 w2. slice_create sum_digest (quiet_env\<lparr>se_fs := (\<lambda>_. Some (plain_error ''ENOSPC''))\<rparr>) sample_world
      = (Some (plain_error ''ENOSPC''), w1) \<and>
    slice_delete quiet_env w1 = (Some enoent, w2) \<and> v_bytesPending (w_vol w2) = v_bytesPending (w_vol sample_world)"
proof (rule failed_create_keeps_reservation)
  show "v_tmp (w_vol sample_world) (sl_fileName (w_slice sample_world)) = None" by code_simp
qed simp_all

theorem slice_hold_released_witness:
  "sl_hold (w_slice (snd (slice_create sum_digest (quiet_env\<lparr>se_fs := (\<lambda>k. if k = 2 then Some (plain_error ''EIO'') else None)\<rparr>)
      sample_world))) = None \<and>
   fst (slice_create sum_digest (quiet_env\<lparr>se_fs := (\<lambda>k. if k = 2 then Some (plain_error ''EIO'') else None)\<rparr>) sample_world)
      = Some (plain_error ''EIO'')"
proof -
  let ?env = "quiet_env\<lparr>se_fs := (\<lambda>k. if k = 2 then Some (plain_error ''EIO'') else None)\<rparr>"
  obtain h where "slice_header sum_digest sample_ref = Inr h" using sample_header by blast
  then have fails: "fst (slice_create sum_digest ?env sample_world) = Some (plain_error ''EIO'')"
    by (simp add: slice_create_def createTemporaryFh_def Let_def quiet_env_def)
  then have "slice_create sum_digest ?env sample_world
      = (Some (plain_error ''EIO''), snd (slice_create sum_digest ?env sample_world))" by (simp add: prod_eq_iff)
  then show ?thesis
    using slice_hold_released [OF sample_world_simps(8), of sum_digest ?env] fails by blast
qed

definition sample_open :: sworld where
  "sample_open = upd_slice (\<lambda>s. s\<lparr>sl_mode := Some ReadMode, sl_inputFh := Some (sum_digest [7, 8] @ [7, 8])\<rparr>) sample_world"

theorem readChunk_checked_witness:
  "fst (slice_readChunk sum_digest quiet_env 2 sample_open) = Inr [7, 8] \<and>
   sl_cursorOffset (w_slice (snd (slice_readChunk sum_digest quiet_env 2 sample_open))) = 18"
proof -
  have r: "fst (slice_readChunk sum_digest quiet_env 2 sample_open) = Inr [7, 8]"
    by (simp add: slice_readChunk_def sample_open_def sample_world_def new_slice_def read_chunk_at_def
        sum_digest_def sample_ref_def CHUNK_HEADER_SIZE_def Let_def)
  have "slice_readChunk sum_digest quiet_env 2 sample_open
      = (Inr [7, 8], snd (slice_readChunk sum_digest quiet_env 2 sample_open))" using r by (simp add: prod_eq_iff)
  from readChunk_checked [OF this] r show ?thesis
    by (simp add: sample_open_def sample_world_def new_slice_def)
qed

theorem deleted_slice_not_credited_witness:
  "\<exists>w'. slice_delete quiet_env \<lparr>w_slice = markAsCommitted (w_slice sample_world),
      w_vol = sample_volume\<lparr>v_committed := (\<lambda>n. Some [1, 2, 3])\<rparr>, w_pm = pm_empty\<rparr> = (None, w') \<and>
    v_bytesFree (w_vol w') = v_bytesFree sample_volume"
proof -
  have "volume_inv (sample_volume\<lparr>v_committed := (\<lambda>n. Some [1, 2, 3])\<rparr>)"
    using volume_reachable_inv [OF sample_volume_reachable] by (simp add: volume_inv_def)
  then have "\<exists>w'. slice_delete quiet_env \<lparr>w_slice = markAsCommitted (w_slice sample_world),
      w_vol = sample_volume\<lparr>v_committed := (\<lambda>n. Some [1, 2, 3])\<rparr>, w_pm = pm_empty\<rparr> = (None, w') \<and>
    w_vol w' = (sample_volume\<lparr>v_committed := (\<lambda>n. Some [1, 2, 3])\<rparr>)\<lparr>v_committed :=
      (v_committed (sample_volume\<lparr>v_committed := (\<lambda>n. Some [1, 2, 3])\<rparr>))(sl_fileName (markAsCommitted (w_slice sample_world)) := None)\<rparr>"
    using sample_guard(1)
    by (intro deleted_slice_not_credited) (simp_all add: sample_world_def)
  then show ?thesis by auto
qed

end
