(* ===== verification/Object_Writer.thy ===== *)
theory Object_Writer
  imports Object_Codec Slice_Ops
begin

text \<open>
  \<^verbatim>\<open>lib/io/file-object/writer.ts\<close>: bytes arrive in pieces of any size, are collected into chunk sets and
  leave as one chunk per slice, the parity computed when a set is full. The operations of a slice are
  arguments (\<open>put\<close>, \<open>close\<close>, \<open>commit\<close>, \<open>delete\<close>); the locale \<open>slice_sink\<close> states what the writer relies on
  and is interpreted on the slices of \<open>Slice_Ops\<close>. A \<open>writeChunk\<close> promise is settled when it is queued:
  a rejection stays in the slice's slot until something awaits it. The main result: however the bytes
  were split into \<open>write\<close> calls, a writer that finishes has put on every slice exactly the chunks the
  reference layout of \<open>Object_Codec\<close> assigns to it, or less where a write stopped short, which the code
  does not notice; and it does finish when no slice write fails.
\<close>

section \<open>State and operations\<close>

record 's writer = base +
  wr_slices :: "'s list"
  wr_pending :: "nat \<Rightarrow> js_error option"
  wr_isAborting :: bool
  wr_bytesWritten :: nat
  wr_hashed :: "bytes option"
  wr_md5 :: "bytes option"
  wr_commitFailed :: "js_error option"

type_synonym 's slice_op = "'s \<Rightarrow> js_error option \<times> 's"
type_synonym 's slice_put = "bytes \<Rightarrow> 's \<Rightarrow> js_error option \<times> 's"

text \<open>\<open>Promise.all(slices.map(op))\<close>: every call runs; the first rejection is the outcome.\<close>

definition settle_all :: "'s slice_op \<Rightarrow> 's list \<Rightarrow> js_error option \<times> 's list" where
  "settle_all op ss =
    (let rs = map op ss in
     (case List.find (\<lambda>r. r \<noteq> None) (map fst rs) of None \<Rightarrow> None | Some r \<Rightarrow> r, map snd rs))"

definition new_writer :: "nat \<Rightarrow> nat \<Rightarrow> nat \<Rightarrow> nat \<Rightarrow> 's writer" where
  "new_writer sz chunkSize d p = base.extend (new_base sz chunkSize d p)
     (writer.fields [] (\<lambda>_. None) False 0 (Some []) None None)"

definition writer_configureInternals ::
  "(nat \<Rightarrow> nat \<Rightarrow> js_error option) \<Rightarrow> (nat \<Rightarrow> bytes) \<Rightarrow> plan option \<Rightarrow> 's writer \<Rightarrow> js_error + 's writer" where
  "writer_configureInternals rsCreate mem plan w =
    (case configureInternals rsCreate mem plan w of Inl e \<Rightarrow> Inl e
     | Inr w1 \<Rightarrow> Inr (w1\<lparr>b_rsSourcesBits := bits_from [0..<b_dataSliceCount w1],
                           b_rsTargetsBits := bits_from [b_dataSliceCount w1..<totalSlices w1]\<rparr>))"

text \<open>\<open>_instantiateSlices\<close>: constructors run in index order and the first throw ends the loop.\<close>

fun instantiateSlices :: "(nat \<Rightarrow> js_error + 's) \<Rightarrow> nat list \<Rightarrow> 's list \<Rightarrow> js_error + 's list" where
  "instantiateSlices mk [] ss = Inr ss"
| "instantiateSlices mk (i # is) ss =
     (case mk i of Inl e \<Rightarrow> Inl e | Inr s \<Rightarrow> instantiateSlices mk is (ss @ [s]))"

definition writer_prepare ::
  "(nat \<Rightarrow> nat \<Rightarrow> js_error option) \<Rightarrow> (nat \<Rightarrow> bytes) \<Rightarrow> plan option \<Rightarrow> (nat \<Rightarrow> js_error + 's) \<Rightarrow> 's slice_op
     \<Rightarrow> 's writer \<Rightarrow> js_error option \<times> 's writer" where
  "writer_prepare rsCreate mem plan mk create w =
    (case writer_configureInternals rsCreate mem plan w of Inl e \<Rightarrow> (Some e, w)
     | Inr w1 \<Rightarrow>
       let w2 = configureStartState w1 in
       (case instantiateSlices mk [0..<totalSlices w2] (wr_slices w2) of Inl e \<Rightarrow> (Some e, w2)
        | Inr ss \<Rightarrow> (case settle_all create ss of (r, ss') \<Rightarrow> (r, w2\<lparr>wr_slices := ss'\<rparr>))))"

definition queueSliceWrite :: "'s slice_put \<Rightarrow> nat \<Rightarrow> bytes \<Rightarrow> 's writer \<Rightarrow> js_error option \<times> 's writer" where
  "queueSliceWrite put i data w =
    (case wr_pending w i of Some e \<Rightarrow> (Some e, w)
     | None \<Rightarrow>
       if wr_isAborting w then (None, w)
       else case put data (wr_slices w ! i) of
         (r, s) \<Rightarrow> (None, w\<lparr>wr_slices := (wr_slices w)[i := s], wr_pending := (wr_pending w)(i := r)\<rparr>))"

lemma queueSliceWrite_frame:
  "queueSliceWrite put i data w = (r, w') \<Longrightarrow> \<exists>ss pe. w' = w\<lparr>wr_slices := ss, wr_pending := pe\<rparr>"
proof -
  have "\<exists>ss pe. w = w\<lparr>wr_slices := ss, wr_pending := pe\<rparr>"
    by (rule exI [of _ "wr_slices w"], rule exI [of _ "wr_pending w"]) simp
  then show "queueSliceWrite put i data w = (r, w') \<Longrightarrow> ?thesis"
    by (auto simp: queueSliceWrite_def simp del: writer.update_convs split: option.splits if_splits prod.splits)
qed

text \<open>The \<open>while\<close> loop of \<open>_writeBuffer\<close>: every data chunk that is complete in the buffer is queued.\<close>

function writeDataSlices :: "'s slice_put \<Rightarrow> 's writer \<Rightarrow> js_error option \<times> 's writer" where
  "writeDataSlices put w =
    (if b_chunkSetNextSliceOffset w \<le> b_chunkSetBufferPosition w \<and> b_chunkSetNextSliceIndex w \<le> b_dataSliceCount w then
       (let i = b_chunkSetNextSliceIndex w - 1; c = b_chunkDataSize w in
        case queueSliceWrite put i (buf_slice (b_chunkSetBuffer w) (c * i) (c * b_chunkSetNextSliceIndex w)) w of
          (Some e, w1) \<Rightarrow> (Some e, w1)
        | (None, w1) \<Rightarrow>
          writeDataSlices put (w1\<lparr>b_chunkSetNextSliceIndex := Suc (b_chunkSetNextSliceIndex w1),
            b_chunkSetNextSliceOffset := b_chunkSetNextSliceOffset w1 + c\<rparr>))
     else (None, w))"
  by pat_completeness auto
termination
  by (relation "measure (\<lambda>(put, w). Suc (b_dataSliceCount w) - b_chunkSetNextSliceIndex w)")
    (auto dest!: queueSliceWrite_frame [OF sym])

declare writeDataSlices.simps [simp del]

fun writeParitySlices :: "'s slice_put \<Rightarrow> nat list \<Rightarrow> 's writer \<Rightarrow> js_error option \<times> 's writer" where
  "writeParitySlices put [] w = (None, w)"
| "writeParitySlices put (i # is) w =
     (let off = b_chunkSetSliceOffsets w ! i in
      case queueSliceWrite put i (buf_slice (b_chunkSetBuffer w) off (off + b_chunkDataSize w)) w of
        (Some e, w1) \<Rightarrow> (Some e, w1)
      | (None, w1) \<Rightarrow> writeParitySlices put is w1)"

definition computeAndWriteParity :: "rs_encode \<Rightarrow> 's slice_put \<Rightarrow> 's writer \<Rightarrow> js_error option \<times> 's writer" where
  "computeAndWriteParity enc put w =
    (case computeParity enc w of Inl e \<Rightarrow> (Some e, w)
     | Inr w1 \<Rightarrow> writeParitySlices put [b_dataSliceCount w1..<totalSlices w1] w1)"

definition writeBuffer :: "rs_encode \<Rightarrow> 's slice_put \<Rightarrow> 's writer \<Rightarrow> js_error option \<times> 's writer" where
  "writeBuffer enc put w =
    (case writeDataSlices put w of (Some e, w1) \<Rightarrow> (Some e, w1)
     | (None, w1) \<Rightarrow>
       if b_dataSliceCount w1 < b_chunkSetNextSliceIndex w1 then
         (case computeAndWriteParity enc put w1 of (Some e, w2) \<Rightarrow> (Some e, w2)
          | (None, w2) \<Rightarrow> (case next_set w2 of Inl e \<Rightarrow> (Some e, w2) | Inr w3 \<Rightarrow> (None, w3)))
       else (None, w1))"

text \<open>The loop of \<open>write\<close>; it does not return when there is data left and no room in the buffer.\<close>

partial_function (option) writeLoop ::
  "rs_encode \<Rightarrow> 's slice_put \<Rightarrow> bytes \<Rightarrow> 's writer \<Rightarrow> (js_error option \<times> 's writer) option" where
  "writeLoop enc put buf w =
    (if buf = [] then Some (None, w)
     else
       let n = min (length buf) (b_chunkSetBufferRemaining w);
           w1 = w\<lparr>b_chunkSetBuffer := buf_copy (b_chunkSetBuffer w) (b_chunkSetBufferPosition w) (take n buf),
                  b_chunkSetBufferPosition := b_chunkSetBufferPosition w + n,
                  b_chunkSetBufferRemaining := b_chunkSetBufferRemaining w - n,
                  b_dataOffset := b_dataOffset w + n\<rparr>
       in case (if b_chunkSetBufferRemaining w1 = 0 \<or> b_chunkSetNextSliceOffset w1 \<le> b_chunkSetBufferPosition w1
                then writeBuffer enc put w1 else (None, w1)) of
            (Some e, w2) \<Rightarrow> Some (Some e, w2)
          | (None, w2) \<Rightarrow> writeLoop enc put (drop n buf) w2)"

declare writeLoop.simps [code]

text \<open>An unconfigured writer has no buffer, which the empty list stands for.\<close>

definition writer_write :: "rs_encode \<Rightarrow> 's slice_put \<Rightarrow> bytes \<Rightarrow> 's writer \<Rightarrow> (js_error option \<times> 's writer) option" where
  "writer_write enc put data w =
    (if b_chunkSetBuffer w = [] then Some (Some (plain_error ''writer not initialized''), w)
     else
       let w1 = w\<lparr>wr_bytesWritten := wr_bytesWritten w + length data\<rparr> in
       case wr_hashed w1 of
         None \<Rightarrow> Some (Some (plain_error ''hash not initialized''), w1)
       | Some h \<Rightarrow> writeLoop enc put data (w1\<lparr>wr_hashed := Some (h @ data)\<rparr>))"

definition first_pending :: "'s writer \<Rightarrow> js_error option" where
  "first_pending w = (case List.find (\<lambda>i. wr_pending w i \<noteq> None) [0..<totalSlices w] of
     None \<Rightarrow> None | Some i \<Rightarrow> wr_pending w i)"

definition writer_finish ::
  "(bytes \<Rightarrow> bytes) \<Rightarrow> rs_encode \<Rightarrow> 's slice_put \<Rightarrow> 's writer \<Rightarrow> js_error option \<times> 's writer" where
  "writer_finish md5 enc put w =
    (if b_chunkSetBuffer w = [] then (Some (plain_error ''writer not initialized''), w)
     else if wr_bytesWritten w \<noteq> b_size w then (Some (plain_error ''writer received a wrong number of bytes''), w)
     else
       case (if 0 < b_chunkSetBufferPosition w
             then writeBuffer enc put (w\<lparr>
               b_chunkSetBuffer := take (b_chunkSetBufferPosition w) (b_chunkSetBuffer w)
                 @ replicate (length (b_chunkSetBuffer w) - b_chunkSetBufferPosition w) 0,
               b_chunkSetBufferPosition := b_chunkSetDataSize w, b_chunkSetBufferRemaining := 0\<rparr>)
             else (None, w)) of
         (Some e, w1) \<Rightarrow> (Some e, w1)
       | (None, w1) \<Rightarrow>
         (case first_pending w1 of Some e \<Rightarrow> (Some e, w1)
          | None \<Rightarrow>
            (case wr_hashed w1 of None \<Rightarrow> (Some (plain_error ''hash not initialized''), w1)
             | Some h \<Rightarrow> (None, w1\<lparr>wr_md5 := Some (md5 h), wr_hashed := None\<rparr>))))"

definition aborted_error :: js_error where "aborted_error = plain_error ''object write was aborted''"

text \<open>
  \<open>commit\<close> keeps the promises it waits for in \<open>_commitPromises\<close> and clears them only when they have all
  resolved. Once it has returned, a rejection is all that can be left there: \<open>wr_commitFailed\<close>.
\<close>

definition writer_commit :: "'s slice_op \<Rightarrow> 's slice_op \<Rightarrow> 's writer \<Rightarrow> js_error option \<times> 's writer" where
  "writer_commit close commit w =
    (case settle_all close (wr_slices w) of
       (Some e, ss) \<Rightarrow> (Some e, w\<lparr>wr_slices := ss, wr_commitFailed := Some e\<rparr>)
     | (None, ss) \<Rightarrow>
       if wr_isAborting w then (Some aborted_error, w\<lparr>wr_slices := ss, wr_commitFailed := None\<rparr>)
       else (case settle_all commit ss of (r, ss') \<Rightarrow> (r, w\<lparr>wr_slices := ss', wr_commitFailed := r\<rparr>)))"

text \<open>
  \<open>abort\<close> first awaits the promises a commit left behind, and rejects with them. Otherwise a slice is
  deleted only when its last write promise, if it is still in the slot, resolves.
\<close>

definition writer_abort :: "'s slice_op \<Rightarrow> 's writer \<Rightarrow> js_error option \<times> 's writer" where
  "writer_abort delete w =
    (case wr_commitFailed w of Some e \<Rightarrow> (Some e, w\<lparr>wr_isAborting := True\<rparr>)
     | None \<Rightarrow>
     let rs = map (\<lambda>i. case wr_pending w i of Some e \<Rightarrow> (Some e, wr_slices w ! i) | None \<Rightarrow> delete (wr_slices w ! i))
                [0..<length (wr_slices w)]
     in (case List.find (\<lambda>r. r \<noteq> None) (map fst rs) of None \<Rightarrow> None | Some r \<Rightarrow> r,
         w\<lparr>wr_isAborting := True, wr_slices := map snd rs\<rparr>))"

text \<open>The stream of \<open>write\<close> calls that an upload makes.\<close>

fun write_parts :: "rs_encode \<Rightarrow> 's slice_put \<Rightarrow> bytes list \<Rightarrow> 's writer \<Rightarrow> (js_error option \<times> 's writer) option" where
  "write_parts enc put [] w = Some (None, w)"
| "write_parts enc put (d # ds) w =
     (case writer_write enc put d w of
        None \<Rightarrow> None
      | Some (Some e, w') \<Rightarrow> Some (Some e, w')
      | Some (None, w') \<Rightarrow> write_parts enc put ds w')"

section \<open>What the writer needs of a slice\<close>

locale slice_sink =
  fixes put :: "'s slice_put" and holds :: "nat \<Rightarrow> 's \<Rightarrow> bytes \<Rightarrow> bool" and recd :: "bytes \<Rightarrow> bytes"
    and accepts :: "nat \<Rightarrow> 's \<Rightarrow> bool"
  assumes put_ok: "put data s = (None, s') \<Longrightarrow> holds i s bs \<Longrightarrow> holds i s' (bs @ recd data)"
    and put_total: "accepts n s \<Longrightarrow> length data \<le> n \<Longrightarrow> \<exists>s'. put data s = (None, s') \<and> accepts n s'"

text \<open>A write in progress: the geometry \<open>g\<close>, the padded object \<open>P\<close> and a code that obeys its law.\<close>

definition write_job :: "base \<Rightarrow> (bytes \<Rightarrow> bytes) \<Rightarrow> rs_encode \<Rightarrow> bytes \<Rightarrow> bool" where
  "write_job g par enc P \<longleftrightarrow> base_ok g \<and> rs_law (b_dataSliceCount g) (b_paritySliceCount g) enc par \<and>
     length P = coff g (set_count g)"

text \<open>
  Slice \<open>i\<close> holds (in the sense of \<open>hds\<close>) its initial contents \<open>H i\<close> and its first \<open>cnt i\<close> chunks, unless
  a write on it failed.
\<close>

definition slices_hold ::
  "(nat \<Rightarrow> 's \<Rightarrow> bytes \<Rightarrow> bool) \<Rightarrow> (bytes \<Rightarrow> bytes) \<Rightarrow> (bytes \<Rightarrow> bytes) \<Rightarrow> base \<Rightarrow> bytes \<Rightarrow> (nat \<Rightarrow> bytes) \<Rightarrow> (nat \<Rightarrow> nat) \<Rightarrow> 's writer \<Rightarrow> bool" where
  "slices_hold hds recd par g P H cnt w \<longleftrightarrow> length (wr_slices w) = totalSlices g \<and> \<not> wr_isAborting w \<and>
     (\<forall>i < totalSlices g. wr_pending w i = None \<longrightarrow>
        hds i (wr_slices w ! i) (H i @ concat (map (\<lambda>j. recd (slice_chunk par g P i j)) [0..<cnt i])))"

definition clean :: "(nat \<Rightarrow> 's \<Rightarrow> bool) \<Rightarrow> base \<Rightarrow> 's writer \<Rightarrow> bool" where
  "clean accepts g w \<longleftrightarrow>
     (\<forall>i < totalSlices g. wr_pending w i = None \<and> accepts (b_standardChunkDataSize g) (wr_slices w ! i))"

lemma slices_hold_base [simp]:
  "slices_hold ct rc par g P H cnt (b_dataOffset_update f1 w) = slices_hold ct rc par g P H cnt w"
  "slices_hold ct rc par g P H cnt (b_chunkSetBuffer_update f2 w) = slices_hold ct rc par g P H cnt w"
  "slices_hold ct rc par g P H cnt (b_chunkSetBufferPosition_update f3 w) = slices_hold ct rc par g P H cnt w"
  "slices_hold ct rc par g P H cnt (b_chunkSetBufferRemaining_update f4 w) = slices_hold ct rc par g P H cnt w"
  "slices_hold ct rc par g P H cnt (b_chunkSetNextSliceIndex_update f3 w) = slices_hold ct rc par g P H cnt w"
  "slices_hold ct rc par g P H cnt (b_chunkSetNextSliceOffset_update f4 w) = slices_hold ct rc par g P H cnt w"
  by (simp_all add: slices_hold_def)

lemma clean_base [simp]:
  "clean acc g (b_dataOffset_update f1 w) = clean acc g w" "clean acc g (b_chunkSetBuffer_update f2 w) = clean acc g w"
  "clean acc g (b_chunkSetBufferPosition_update f3 w) = clean acc g w"
  "clean acc g (b_chunkSetBufferRemaining_update f4 w) = clean acc g w"
  "clean acc g (b_chunkSetNextSliceIndex_update f5 w) = clean acc g w"
  "clean acc g (b_chunkSetNextSliceOffset_update f6 w) = clean acc g w"
  by (simp_all add: clean_def)

text \<open>Both predicates look at the writer's own fields only.\<close>

lemma slices_hold_more:
  "base.more w' = base.more w \<Longrightarrow> slices_hold ct rc par g P H cnt w' = slices_hold ct rc par g P H cnt w"
  "base.more w' = base.more w \<Longrightarrow> clean acc g w' = clean acc g w"
  by (cases w; cases w'; simp add: slices_hold_def clean_def)+

lemma slice_chunk_le: "length (slice_chunk par g P i j) \<le> csize g j"
  by (simp add: slice_chunk_def shard_def)

lemma data_chunk:
  assumes "base_ok g" "length P = coff g (set_count g)" "k < set_count g" "pos \<le> csize g k * b_dataSliceCount g"
    and "take pos buf = take pos (cset g P k)" "Suc m * csize g k \<le> pos"
  shows "buf_slice buf (csize g k * m) (csize g k * Suc m) = slice_chunk par g P m k"
proof -
  let ?c = "csize g k"
  have "coff g (Suc k) \<le> length P" using assms(2,3) coff_mono [of "Suc k" "set_count g" g] by simp
  then have len: "length (cset g P k) = ?c * b_dataSliceCount g" by (rule length_cset)
  have "shard ?c m buf = shard ?c m (take pos buf)" using assms(6) by (simp add: shard_take)
  also have "\<dots> = shard ?c m (cset g P k)" unfolding assms(5) using assms(6) by (simp add: shard_take)
  also have "\<dots> = slice_chunk par g P m k"
    using assms(4,6) len by (simp add: slice_chunk_def shard_append_left)
  finally show ?thesis by (simp add: buf_slice_def shard_def mult.commute)
qed

definition partial_count :: "nat \<Rightarrow> nat \<Rightarrow> nat \<Rightarrow> nat" where
  "partial_count k m i = (if i < m then Suc k else k)"

lemma computeParity_ok:
  assumes job: "write_job g par enc P" and k: "k < set_count g" and "geom w = geom g" and cfg: "configured w k"
    and buf: "length (b_chunkSetBuffer w) = b_standardChunkDataSize g * totalSlices g"
    and pre: "take (csize g k * b_dataSliceCount g) (b_chunkSetBuffer w) = cset g P k"
    and bits: "b_rsSourcesBits w = bits_from [0..<b_dataSliceCount g]"
      "b_rsTargetsBits w = bits_from [b_dataSliceCount g..<totalSlices g]"
  shows "\<exists>buf. computeParity enc w = Inr (w\<lparr>b_chunkSetBuffer := buf\<rparr>) \<and>
    length buf = b_standardChunkDataSize g * totalSlices g \<and>
    take (csize g k * totalSlices g) buf = cset g P k @ par (cset g P k)"
proof -
  let ?d = "b_dataSliceCount g" and ?p = "b_paritySliceCount g" and ?c = "csize g k" and ?X = "cset g P k"
  have ok: "base_ok g" and law: "rs_law ?d ?p enc par" and lenP: "length P = coff g (set_count g)"
    using job by (simp_all add: write_job_def)
  have X: "length ?X = ?d * ?c"
    using length_cset [of g k P] coff_mono [of "Suc k" "set_count g" g] k lenP by (simp add: mult.commute)
  have par: "length (par ?X) = ?p * ?c" using law X by (simp add: rs_law_def)
  note gs = geom_spec [OF assms(3)]
  have n: "totalSlices g \<le> 32" using ok by (simp add: base_ok_def)
  have fit: "?c * totalSlices g \<le> length (b_chunkSetBuffer w)" using csize_le [OF ok] buf by simp
  define inp where "inp = buf_slice (b_chunkSetBuffer w) 0 (?c * ?d)"
  define out where "out = buf_slice (b_chunkSetBuffer w) (?c * ?d) (?c * ?d + ?c * ?p)"
  have inp: "inp = ?X" using pre by (simp add: inp_def buf_slice_def)
  have out: "length out = ?p * ?c" using fit by (simp add: out_def algebra_simps)
  have S: "shard_set (?d + ?p) (b_rsSourcesBits w) = {..<?d}" "shard_set (?d + ?p) (b_rsTargetsBits w) = {?d..<?d + ?p}"
    using n by (auto simp: shard_set_bits_from bits)
  have shin: "shard ?c i (?X @ ys) = shard ?c i ?X" if "i < ?d" for i ys
    using that X by (intro shard_append_left) (metis Suc_eq_plus1 Suc_leI mult_le_mono1)
  obtain inp' out' where enc: "enc (b_rsSourcesBits w) (b_rsTargetsBits w) inp out = Inr (inp', out')"
    and len: "length inp' = ?d * ?c" "length out' = ?p * ?c"
    and sh: "\<And>i. i < ?d + ?p \<Longrightarrow> shard ?c i (inp' @ out') =
         (if i \<in> shard_set (?d + ?p) (b_rsTargetsBits w) then shard ?c i (?X @ par ?X) else shard ?c i (inp @ out))"
    by (rule rs_lawD [OF law csize_pos [OF ok k] csize_dvd [OF ok] X, of inp out "b_rsSourcesBits w" "b_rsTargetsBits w"])
      (auto simp: S inp X out shin)
  have "inp' @ out' = ?X @ par ?X"
    by (rule shards_eq [of _ "?d + ?p" ?c]) (use len X par sh shin in \<open>auto simp: add_mult_distrib inp S\<close>)
  moreover let ?buf = "buf_copy (buf_copy (b_chunkSetBuffer w) 0 inp') (?c * ?d) out'"
  have "computeParity enc w = Inr (w\<lparr>b_chunkSetBuffer := ?buf\<rparr>)"
    using cfg enc by (simp add: computeParity_def Let_def configured_def gs inp_def out_def)
  moreover have "take (?c * totalSlices g) ?buf = inp' @ out'"
    using fit len by (simp add: buf_copy_def algebra_simps)
  moreover have "length ?buf = length (b_chunkSetBuffer w)" using fit len by (simp add: buf_copy_def algebra_simps)
  ultimately show ?thesis using buf by auto
qed

text \<open>The writer inside chunk set \<open>k\<close> with \<open>q\<close> of its bytes collected, and between two sets.\<close>

definition in_set :: "base \<Rightarrow> bytes \<Rightarrow> nat \<Rightarrow> nat \<Rightarrow> 's writer \<Rightarrow> bool" where
  "in_set g P k q w \<longleftrightarrow> geom w = geom g \<and> k < set_count g \<and> configured w k \<and> q < csize g k * b_dataSliceCount g \<and>
     b_chunkSetBufferPosition w = q \<and> b_chunkSetBufferRemaining w = csize g k * b_dataSliceCount g - q \<and>
     b_chunkSetNextSliceIndex w = Suc (q div csize g k) \<and>
     b_chunkSetNextSliceOffset w = Suc (q div csize g k) * csize g k \<and>
     take q (b_chunkSetBuffer w) = take q (cset g P k)"

definition writer_frame :: "base \<Rightarrow> 's writer \<Rightarrow> bool" where
  "writer_frame g w \<longleftrightarrow> geom w = geom g \<and>
     length (b_chunkSetBuffer w) = b_standardChunkDataSize g * totalSlices g \<and>
     b_rsSourcesBits w = bits_from [0..<b_dataSliceCount g] \<and>
     b_rsTargetsBits w = bits_from [b_dataSliceCount g..<totalSlices g]"

lemma writer_frame_upd [simp]:
  "writer_frame g (w\<lparr>wr_slices := ss\<rparr>) = writer_frame g w" "writer_frame g (w\<lparr>wr_pending := pe\<rparr>) = writer_frame g w"
  "writer_frame g (w\<lparr>b_chunkSetNextSliceIndex := x\<rparr>) = writer_frame g w"
  "writer_frame g (w\<lparr>b_chunkSetNextSliceOffset := x\<rparr>) = writer_frame g w"
  "writer_frame g (w\<lparr>b_chunkSetBufferPosition := x\<rparr>) = writer_frame g w"
  "writer_frame g (w\<lparr>b_chunkSetBufferRemaining := x\<rparr>) = writer_frame g w"
  "writer_frame g (w\<lparr>b_dataOffset := x\<rparr>) = writer_frame g w"
  by (simp_all add: writer_frame_def geom_def)

lemma configured_upd [simp]:
  "configured (w\<lparr>wr_slices := ss\<rparr>) k = configured w k" "configured (w\<lparr>wr_pending := pe\<rparr>) k = configured w k"
  "configured (w\<lparr>b_chunkSetNextSliceIndex := x\<rparr>) k = configured w k"
  "configured (w\<lparr>b_chunkSetNextSliceOffset := x\<rparr>) k = configured w k"
  "configured (w\<lparr>b_chunkSetBufferPosition := x\<rparr>) k = configured w k"
  "configured (w\<lparr>b_chunkSetBufferRemaining := x\<rparr>) k = configured w k"
  "configured (w\<lparr>b_chunkSetBuffer := bf\<rparr>) k = configured w k"
  "configured (w\<lparr>b_dataOffset := x\<rparr>) k = configured w k" for w :: "'s writer"
  by (simp_all add: configured_def csize_def group_end_def)

lemma geom_writer [simp]:
  "geom (w\<lparr>wr_slices := ss\<rparr>) = geom w" "geom (w\<lparr>wr_pending := pe\<rparr>) = geom w" for w :: "'s writer"
  by (simp_all add: geom_def)

definition writing_at ::
  "(nat \<Rightarrow> 's \<Rightarrow> bytes \<Rightarrow> bool) \<Rightarrow> (bytes \<Rightarrow> bytes) \<Rightarrow> (bytes \<Rightarrow> bytes) \<Rightarrow> base \<Rightarrow> bytes \<Rightarrow> (nat \<Rightarrow> bytes) \<Rightarrow> nat \<Rightarrow> 's writer \<Rightarrow> bool" where
  "writing_at hds recd par g P H x w \<longleftrightarrow> writer_frame g w \<and> b_dataOffset w = x \<and>
    ((\<exists>k q. x = coff g k + q \<and> in_set g P k q w \<and>
        slices_hold hds recd par g P H (partial_count k (q div csize g k)) w)
     \<or> x = coff g (set_count g) \<and> b_chunkSetBufferPosition w = 0 \<and>
        slices_hold hds recd par g P H (\<lambda>_. set_count g) w)"

lemma writing_atI:
  "in_set g P k q w \<Longrightarrow> slices_hold ct rc par g P H (partial_count k (q div csize g k)) w \<Longrightarrow> writer_frame g w \<Longrightarrow>
   b_dataOffset w = x \<Longrightarrow> x = coff g k + q \<Longrightarrow> writing_at ct rc par g P H x w"
  unfolding writing_at_def by blast

text \<open>Copying the next bytes of the object extends the part of the chunk set in the buffer.\<close>

lemma buffer_extend:
  assumes "take q buf = take q (cset g P k)" "q + n \<le> csize g k * b_dataSliceCount g" "q + n \<le> length buf"
    and "take n data = take n (drop (coff g k + q) P)" "n \<le> length data"
  shows "take (q + n) (buf_copy buf q (take n data)) = take (q + n) (cset g P k)"
proof -
  have "take (q + n) (buf_copy buf q (take n data)) = take q buf @ take n data"
    using take_buf_copy_append [of q "take n data" buf] assms(3,5) by (simp add: min_absorb2)
  also have "\<dots> = take q (cset g P k) @ take n (drop q (cset g P k))"
    using assms(2) by (simp add: assms(1,4) cset_def drop_take min_def add.commute)
  finally show ?thesis by (simp add: take_add)
qed

lemma at_start_in_set:
  assumes "writer_frame g w" "at_start w" "configured w k" "k < set_count g" "base_ok g"
  shows "in_set g P k 0 w"
  using assms geom_spec [of w g] csize_pos [of g k]
  by (auto simp: in_set_def writer_frame_def at_start_def configured_def base_ok_def)

text \<open>One turn of the loop of \<open>write\<close>: \<open>n\<close> bytes are copied and complete chunks leave.\<close>

definition copied :: "bytes \<Rightarrow> nat \<Rightarrow> 's writer \<Rightarrow> 's writer" where
  "copied buf n w = w\<lparr>b_chunkSetBuffer := buf_copy (b_chunkSetBuffer w) (b_chunkSetBufferPosition w) (take n buf),
     b_chunkSetBufferPosition := b_chunkSetBufferPosition w + n,
     b_chunkSetBufferRemaining := b_chunkSetBufferRemaining w - n, b_dataOffset := b_dataOffset w + n\<rparr>"

context slice_sink
begin

lemma queue_step:
  assumes "slices_hold holds recd par g P H cnt w" "i < totalSlices g" "base_ok g"
    and "queueSliceWrite put i (slice_chunk par g P i (cnt i)) w = (r, w')"
  shows "\<exists>ss pe. w' = w\<lparr>wr_slices := ss, wr_pending := pe\<rparr> \<and>
    (r = None \<longrightarrow> slices_hold holds recd par g P H (cnt(i := Suc (cnt i))) w') \<and>
    (clean accepts g w \<longrightarrow> r = None \<and> clean accepts g w')"
proof (cases "wr_pending w i")
  case (Some e)
  moreover have "\<exists>ss pe. w' = w\<lparr>wr_slices := ss, wr_pending := pe\<rparr>" using queueSliceWrite_frame [OF assms(4)] .
  ultimately show ?thesis using assms by (auto simp: queueSliceWrite_def clean_def)
next
  case None
  let ?d = "slice_chunk par g P i (cnt i)"
  obtain r0 s where put: "put ?d (wr_slices w ! i) = (r0, s)" by (cases "put ?d (wr_slices w ! i)") auto
  have w': "r = None" "w' = w\<lparr>wr_slices := (wr_slices w)[i := s], wr_pending := (wr_pending w)(i := r0)\<rparr>"
    using assms(1,4) None put by (auto simp: queueSliceWrite_def slices_hold_def)
  have "length ?d \<le> b_standardChunkDataSize g"
    using slice_chunk_le csize_le [OF assms(3)] le_trans by blast
  then have "clean accepts g w \<Longrightarrow> clean accepts g w'"
    using put_total [of "b_standardChunkDataSize g" "wr_slices w ! i" ?d] assms(1,2)
    by (auto simp: clean_def w' put slices_hold_def nth_list_update)
  moreover have "slices_hold holds recd par g P H (cnt(i := Suc (cnt i))) w'"
    using assms(1,2) put_ok [of ?d "wr_slices w ! i" s i "H i @ concat (map (\<lambda>j. recd (slice_chunk par g P i j)) [0..<cnt i])"] put None
    by (auto simp: slices_hold_def w' nth_list_update)
  ultimately show ?thesis using w' by blast
qed

lemma data_slices:
  assumes "base_ok g" "length P = coff g (set_count g)" "k < set_count g"
    and "geom w = geom g" "configured w k" "b_chunkSetBufferPosition w = pos" "pos \<le> csize g k * b_dataSliceCount g"
    and "take pos (b_chunkSetBuffer w) = take pos (cset g P k)"
    and "b_chunkSetNextSliceIndex w = Suc m" "b_chunkSetNextSliceOffset w = Suc m * csize g k" "m \<le> pos div csize g k"
    and "slices_hold holds recd par g P H (partial_count k m) w" "writeDataSlices put w = (r, w')"
  shows "\<exists>ss pe m'. w' = w\<lparr>wr_slices := ss, wr_pending := pe, b_chunkSetNextSliceIndex := Suc m',
      b_chunkSetNextSliceOffset := Suc m' * csize g k\<rparr> \<and>
    (r = None \<longrightarrow> m' = pos div csize g k \<and> slices_hold holds recd par g P H (partial_count k m') w') \<and>
    (clean accepts g w \<longrightarrow> r = None \<and> clean accepts g w')"
  using assms(4-)
proof (induction "pos div csize g k - m" arbitrary: m w)
  case 0
  let ?c = "csize g k"
  have c: "0 < ?c" using csize_pos assms(1,3) by blast
  have m: "m = pos div ?c" using 0 by simp
  then have "\<not> Suc m * ?c \<le> pos" using c by (metis Suc_n_not_le_n div_le_mono div_mult_self_is_m)
  then have "(r, w') = (None, w)" using 0 by (simp add: writeDataSlices.simps [of put w])
  moreover have "w = w\<lparr>wr_slices := wr_slices w, wr_pending := wr_pending w,
      b_chunkSetNextSliceIndex := Suc m, b_chunkSetNextSliceOffset := Suc m * ?c\<rparr>" using 0 by simp
  ultimately show ?case using m 0 by blast
next
  case (Suc x)
  let ?c = "csize g k"
  have c: "0 < ?c" using csize_pos assms(1,3) by blast
  have lt: "Suc m \<le> pos div ?c" using Suc.hyps(2) by simp
  then have le: "Suc m * ?c \<le> pos" using div_times_less_eq_dividend le_trans mult_le_mono1 by blast
  have "pos div ?c \<le> b_dataSliceCount g" using Suc.prems(4) c by (metis div_le_mono div_mult_self1_is_m)
  then have md: "m < b_dataSliceCount g" using lt by simp
  note gs = geom_spec [OF Suc.prems(1)]
  have cd: "b_chunkDataSize w = ?c" using Suc.prems(2) by (simp add: configured_def gs)
  let ?q = "queueSliceWrite put m (slice_chunk par g P m k) w"
  obtain r1 w1 where q: "?q = (r1, w1)" by (cases ?q) auto
  obtain ss pe where w1: "w1 = w\<lparr>wr_slices := ss, wr_pending := pe\<rparr>"
    and hold: "r1 = None \<Longrightarrow> slices_hold holds recd par g P H (partial_count k (Suc m)) w1"
    and cl: "clean accepts g w \<Longrightarrow> r1 = None \<and> clean accepts g w1"
  proof -
    have "(partial_count k m)(m := Suc k) = partial_count k (Suc m)" by (auto simp: partial_count_def fun_eq_iff)
    moreover have "queueSliceWrite put m (slice_chunk par g P m (partial_count k m m)) w = (r1, w1)"
      using q by (simp add: partial_count_def)
    ultimately show thesis using queue_step [OF Suc.prems(9) _ assms(1), of m r1 w1] md that
      by (auto simp: partial_count_def)
  qed
  have chunk: "buf_slice (b_chunkSetBuffer w) (?c * m) (?c * Suc m) = slice_chunk par g P m k"
    by (rule data_chunk [OF assms(1-3) Suc.prems(4,5) le])
  let ?w2 = "w1\<lparr>b_chunkSetNextSliceIndex := Suc (Suc m), b_chunkSetNextSliceOffset := Suc m * ?c + ?c\<rparr>"
  have step: "writeDataSlices put w = (case r1 of Some e \<Rightarrow> (Some e, w1) | None \<Rightarrow> writeDataSlices put ?w2)"
    using Suc.prems(3,6,7) le md q chunk
    by (subst writeDataSlices.simps) (auto simp: Let_def cd gs w1 split: option.split)
  show ?case
  proof (cases r1)
    case (Some e)
    then have "(r, w') = (Some e, w1)" using step Suc.prems(10) by simp
    moreover have "w1 = w\<lparr>wr_slices := ss, wr_pending := pe, b_chunkSetNextSliceIndex := Suc m,
      b_chunkSetNextSliceOffset := Suc m * ?c\<rparr>" using w1 Suc.prems(6,7) by simp
    ultimately show ?thesis using cl Some by blast
  next
    case None
    have "\<exists>ss pe m'. w' = ?w2\<lparr>wr_slices := ss, wr_pending := pe, b_chunkSetNextSliceIndex := Suc m',
      b_chunkSetNextSliceOffset := Suc m' * csize g k\<rparr> \<and>
    (r = None \<longrightarrow> m' = pos div csize g k \<and> slices_hold holds recd par g P H (partial_count k m') w') \<and>
    (clean accepts g ?w2 \<longrightarrow> r = None \<and> clean accepts g w')"
    proof (rule Suc.hyps(1))
      show "configured ?w2 k" using Suc.prems(2) by (simp add: w1 configured_def csize_def group_end_def)
    qed (use Suc.prems Suc.hyps(2) lt hold step None in \<open>simp_all add: w1 add.commute geom_def\<close>)
    then show ?thesis using cl None by (auto simp: w1)
  qed
qed

lemma parity_slices:
  assumes "base_ok g" "geom w = geom g" "configured w k" "b_dataSliceCount g \<le> j" "j \<le> totalSlices g"
    and "take (csize g k * totalSlices g) (b_chunkSetBuffer w) = cset g P k @ par (cset g P k)"
    and "slices_hold holds recd par g P H (partial_count k j) w"
    and "writeParitySlices put [j..<totalSlices g] w = (r, w')"
  shows "\<exists>ss pe. w' = w\<lparr>wr_slices := ss, wr_pending := pe\<rparr> \<and>
    (r = None \<longrightarrow> slices_hold holds recd par g P H (partial_count k (totalSlices g)) w') \<and>
    (clean accepts g w \<longrightarrow> r = None \<and> clean accepts g w')"
  using assms(2-)
proof (induction "totalSlices g - j" arbitrary: j w)
  case 0
  then have "j = totalSlices g" by simp
  moreover have "w = w\<lparr>wr_slices := wr_slices w, wr_pending := wr_pending w\<rparr>" by simp
  ultimately show ?case using 0 by (metis Pair_inject upt_rec less_irrefl writeParitySlices.simps(1))
next
  case (Suc x)
  then have j: "j < totalSlices g" by simp
  let ?c = "csize g k"
  note gs = geom_spec [OF Suc.prems(1)]
  have cd: "b_chunkDataSize w = ?c" "b_chunkSetSliceOffsets w = map (\<lambda>i. i * ?c) [0..<totalSlices g]"
    using Suc.prems(2) by (simp_all add: configured_def gs)
  have "Suc j * ?c \<le> ?c * totalSlices g" using j by (metis Suc_leI mult.commute mult_le_mono2)
  then have chunk: "buf_slice (b_chunkSetBuffer w) (j * ?c) (j * ?c + ?c) = slice_chunk par g P j k"
    using shard_take [of j ?c "?c * totalSlices g" "b_chunkSetBuffer w"] Suc.prems(5)
    by (simp add: buf_slice_def shard_def slice_chunk_def)
  let ?q = "queueSliceWrite put j (slice_chunk par g P j (partial_count k j j)) w"
  obtain r1 w1 where q: "?q = (r1, w1)" by (cases ?q) auto
  have upd: "(partial_count k j)(j := Suc (partial_count k j j)) = partial_count k (Suc j)"
    by (auto simp: partial_count_def fun_eq_iff)
  obtain ss pe where w1: "w1 = w\<lparr>wr_slices := ss, wr_pending := pe\<rparr>"
    and hold: "r1 = None \<Longrightarrow> slices_hold holds recd par g P H (partial_count k (Suc j)) w1"
    and cl: "clean accepts g w \<Longrightarrow> r1 = None \<and> clean accepts g w1"
    using queue_step [OF Suc.prems(6) j assms(1) q] unfolding upd by blast
  have step: "writeParitySlices put [j..<totalSlices g] w =
      (case r1 of Some e \<Rightarrow> (Some e, w1) | None \<Rightarrow> writeParitySlices put [Suc j..<totalSlices g] w1)"
    using q chunk j by (auto simp: upt_conv_Cons cd Let_def partial_count_def split: option.split)
  show ?case
  proof (cases r1)
    case (Some e)
    then show ?thesis using step Suc.prems(7) w1 cl by auto
  next
    case None
    have "\<exists>ss pe. w' = w1\<lparr>wr_slices := ss, wr_pending := pe\<rparr> \<and>
      (r = None \<longrightarrow> slices_hold holds recd par g P H (partial_count k (totalSlices g)) w') \<and>
      (clean accepts g w1 \<longrightarrow> r = None \<and> clean accepts g w')"
      using Suc.prems Suc.hyps(2) j hold step None
      by (intro Suc.hyps(1) [of "Suc j"]) (simp_all add: w1)
    then show ?thesis using cl None by (auto simp: w1)
  qed
qed

lemma slices_hold_cong:
  "(\<And>i. i < totalSlices g \<Longrightarrow> cnt i = cnt' i) \<Longrightarrow>
   slices_hold holds recd par g P H cnt w = slices_hold holds recd par g P H cnt' w"
  by (auto simp: slices_hold_def)

text \<open>\<open>_writeBuffer\<close> on a full chunk set.\<close>

lemma writeBuffer_full:
  assumes job: "write_job g par enc P" and k: "k < set_count g" and fr: "writer_frame g w" and cfg: "configured w k"
    and pos: "b_chunkSetBufferPosition w = csize g k * b_dataSliceCount g"
    and buf: "take (csize g k * b_dataSliceCount g) (b_chunkSetBuffer w) = cset g P k"
    and m: "b_chunkSetNextSliceIndex w = Suc m" "b_chunkSetNextSliceOffset w = Suc m * csize g k" "m \<le> b_dataSliceCount g"
    and hold: "slices_hold holds recd par g P H (partial_count k m) w"
    and off: "b_dataOffset w = coff g (Suc k) \<or> Suc k = set_count g \<and> b_dataOffset w = b_size g"
      "b_dataOffset w \<le> b_size g"
    and res: "writeBuffer enc put w = (r, w')"
  shows "(r = None \<longrightarrow> writer_frame g w' \<and> at_start w' \<and> b_dataOffset w' = b_dataOffset w \<and>
      wr_bytesWritten w' = wr_bytesWritten w \<and> wr_hashed w' = wr_hashed w \<and>
      slices_hold holds recd par g P H (\<lambda>_. Suc k) w' \<and>
      (b_dataOffset w = coff g (Suc k) \<and> Suc k < set_count g \<longrightarrow> configured w' (Suc k))) \<and>
    (clean accepts g w \<longrightarrow> r = None \<and> clean accepts g w')"
proof -
  let ?d = "b_dataSliceCount g" and ?c = "csize g k"
  have ok: "base_ok g" and lenP: "length P = coff g (set_count g)" using job by (simp_all add: write_job_def)
  have c: "0 < ?c" using csize_pos [OF ok k] .
  have gw: "geom w = geom g" using fr by (simp add: writer_frame_def)
  obtain r1 w1 where d: "writeDataSlices put w = (r1, w1)" by (cases "writeDataSlices put w") auto
  have full: "take (?c * ?d) (b_chunkSetBuffer w) = take (?c * ?d) (cset g P k)" using buf by (simp add: cset_def)
  have dv: "?c * ?d div ?c = ?d" using c by simp
  obtain ss pe m' where w1: "w1 = w\<lparr>wr_slices := ss, wr_pending := pe, b_chunkSetNextSliceIndex := Suc m',
      b_chunkSetNextSliceOffset := Suc m' * ?c\<rparr>"
    and h1: "r1 = None \<Longrightarrow> m' = ?d \<and> slices_hold holds recd par g P H (partial_count k m') w1"
    and c1: "clean accepts g w \<Longrightarrow> r1 = None \<and> clean accepts g w1"
    using data_slices [OF ok lenP k gw cfg pos order_refl full m(1,2) _ hold d] m(3) unfolding dv by blast
  show ?thesis
  proof (cases r1)
    case (Some e)
    then show ?thesis using res c1 by (auto simp: writeBuffer_def d)
  next
    case None
    then have m': "m' = ?d" and h: "slices_hold holds recd par g P H (partial_count k ?d) w1" using h1 by auto
    have w1f: "writer_frame g w1" "configured w1 k" "b_chunkSetBuffer w1 = b_chunkSetBuffer w"
      using fr cfg by (simp_all add: w1)
    then have fr1: "geom w1 = geom g" "length (b_chunkSetBuffer w1) = b_standardChunkDataSize g * totalSlices g"
      "b_rsSourcesBits w1 = bits_from [0..<?d]" "b_rsTargetsBits w1 = bits_from [?d..<totalSlices g]"
      by (simp_all add: writer_frame_def)
    obtain bf where bf: "computeParity enc w1 = Inr (w1\<lparr>b_chunkSetBuffer := bf\<rparr>)"
      "length bf = b_standardChunkDataSize g * totalSlices g"
      "take (?c * totalSlices g) bf = cset g P k @ par (cset g P k)"
      using computeParity_ok [OF job k fr1(1) w1f(2) fr1(2) _ fr1(3,4)] buf w1f(3) by auto
    define w2 where "w2 = w1\<lparr>b_chunkSetBuffer := bf\<rparr>"
    have w2: "geom w2 = geom g" "configured w2 k" "slices_hold holds recd par g P H (partial_count k ?d) w2"
      "clean accepts g w2 = clean accepts g w1" using fr1 w1f h by (simp_all add: w2_def)
    note gs2 = geom_spec [OF w2(1)]
    obtain r3 w3 where p: "writeParitySlices put [?d..<totalSlices g] w2 = (r3, w3)"
      by (cases "writeParitySlices put [?d..<totalSlices g] w2") auto
    obtain ss3 pe3 where w3: "w3 = w2\<lparr>wr_slices := ss3, wr_pending := pe3\<rparr>"
      and h3: "r3 = None \<Longrightarrow> slices_hold holds recd par g P H (partial_count k (totalSlices g)) w3"
      and c3: "clean accepts g w2 \<Longrightarrow> r3 = None \<and> clean accepts g w3"
      using parity_slices [OF ok w2(1,2) _ _ _ w2(3) p] bf(3) by (auto simp: w2_def)
    have cap: "computeAndWriteParity enc put w1 = (r3, w3)"
      using bf(1) p gs2 by (simp add: computeAndWriteParity_def w2_def)
    have idx: "b_dataSliceCount w1 < b_chunkSetNextSliceIndex w1" using geom_spec [OF fr1(1)] by (simp add: w1 m')
    show ?thesis
    proof (cases r3)
      case (Some e)
      then show ?thesis using res c1 c3 w2(4) None by (auto simp: writeBuffer_def d idx cap)
    next
      case n3: None
      have g3: "geom w3 = geom g" "configured w3 k" using w2 by (simp_all add: w3)
      note gs3 = geom_spec [OF g3(1)]
      have off3: "b_dataOffset w3 = b_dataOffset w" by (simp add: w3 w2_def w1)
      obtain w4 where w4: "next_set w3 = Inr w4" "geom w4 = geom w3" "base.more w4 = base.more w3"
        "b_dataOffset w4 = b_dataOffset w3" "b_chunkSetBuffer w4 = b_chunkSetBuffer w3"
        "b_rsSourcesBits w4 = b_rsSourcesBits w3" "b_rsTargetsBits w4 = b_rsTargetsBits w3" "at_start w4"
        "b_dataOffset w3 = coff w3 (Suc k) \<and> Suc k < set_count w3 \<longrightarrow> configured w4 (Suc k)"
        using next_set_configured [of w3 k] ok g3(2) k off off3 gs3 ok [unfolded base_ok_def] by auto
      have r: "r = None" "w' = w4" using res None n3 by (auto simp: writeBuffer_def d idx cap w4(1))
      have "slices_hold holds recd par g P H (partial_count k (totalSlices g)) w4"
        using slices_hold_more(1) [OF w4(3)] h3 n3 by blast
      then have "slices_hold holds recd par g P H (\<lambda>_. Suc k) w4"
        using slices_hold_cong [of g "partial_count k (totalSlices g)" "\<lambda>_. Suc k"] by (simp add: partial_count_def)
      moreover have "clean accepts g w \<Longrightarrow> clean accepts g w4"
        using c1 c3 w2(4) slices_hold_more(2) [OF w4(3)] by blast
      moreover have "writer_frame g w4" using w4 fr1 bf(2) by (simp add: writer_frame_def w3 w2_def)
      moreover have "wr_bytesWritten w4 = wr_bytesWritten w" "wr_hashed w4 = wr_hashed w"
        using w4(3) by (cases w4; cases w; simp add: w3 w2_def w1)+
      ultimately show ?thesis using r w4(8,9) w4(4) off3 gs3 by simp
    qed
  qed
qed

lemma turn_partial:
  assumes job: "write_job g par enc P" and fr: "writer_frame g w" and ins: "in_set g P k q w"
    and hold: "slices_hold holds recd par g P H (partial_count k (q div csize g k)) w"
    and n: "q + n < csize g k * b_dataSliceCount g" "n \<le> length buf"
    and data: "take n buf = take n (drop (coff g k + q) P)" and off: "b_dataOffset w = coff g k + q"
    and res: "(if b_chunkSetBufferRemaining (copied buf n w) = 0 \<or>
        b_chunkSetNextSliceOffset (copied buf n w) \<le> b_chunkSetBufferPosition (copied buf n w)
      then writeBuffer enc put (copied buf n w) else (None, copied buf n w)) = (r, w')"
  shows "(r = None \<longrightarrow> writing_at holds recd par g P H (coff g k + q + n) w' \<and>
      wr_bytesWritten w' = wr_bytesWritten w \<and> wr_hashed w' = wr_hashed w) \<and>
    (clean accepts g w \<longrightarrow> r = None \<and> clean accepts g w')"
proof -
  let ?d = "b_dataSliceCount g" and ?c = "csize g k" and ?w1 = "copied buf n w"
  have ok: "base_ok g" and lenP: "length P = coff g (set_count g)" using job by (simp_all add: write_job_def)
  have k: "k < set_count g" and cfg: "configured w k" and gw: "geom w = geom g" using ins by (simp_all add: in_set_def)
  have c: "0 < ?c" using csize_pos [OF ok k] .
  have lenb: "length (b_chunkSetBuffer w) = b_standardChunkDataSize g * totalSlices g"
    using fr by (simp add: writer_frame_def)
  have "?c * ?d \<le> b_standardChunkDataSize g * totalSlices g" using csize_le [OF ok] by (simp add: mult_le_mono)
  then have fit: "q + n \<le> length (b_chunkSetBuffer w)" using n lenb by simp
  have qpos: "b_chunkSetBufferPosition w = q" using ins by (simp add: in_set_def)
  have len1: "length (b_chunkSetBuffer ?w1) = b_standardChunkDataSize g * totalSlices g"
    using fit lenb by (simp add: copied_def qpos)
  have ext: "take (q + n) (b_chunkSetBuffer ?w1) = take (q + n) (cset g P k)"
    using buffer_extend [OF _ _ fit data n(2)] ins n(1) by (simp add: copied_def in_set_def)
  have w1: "writer_frame g ?w1" "geom ?w1 = geom g" "configured ?w1 k" "b_chunkSetBufferPosition ?w1 = q + n"
    "b_chunkSetBufferRemaining ?w1 = ?c * ?d - (q + n)" "b_chunkSetNextSliceIndex ?w1 = Suc (q div ?c)"
    "b_chunkSetNextSliceOffset ?w1 = Suc (q div ?c) * ?c" "b_dataOffset ?w1 = coff g k + q + n"
    "slices_hold holds recd par g P H (partial_count k (q div ?c)) ?w1" "clean accepts g ?w1 = clean accepts g w"
    "wr_bytesWritten ?w1 = wr_bytesWritten w" "wr_hashed ?w1 = wr_hashed w"
    using fr cfg gw qpos ins hold off len1 by (simp_all add: copied_def in_set_def writer_frame_def)
  have md: "(q + n) div ?c < ?d" using n(1) c by (simp add: less_mult_imp_div_less mult.commute)
  show ?thesis
  proof (cases "Suc (q div ?c) * ?c \<le> q + n")
    case False
    then have r: "r = None" "w' = ?w1" using res n(1) by (auto simp: w1)
    have "(q + n) div ?c = q div ?c" using False c
      by (metis div_le_mono le_add1 le_antisym less_mult_imp_div_less not_less not_less_eq_eq)
    then have "in_set g P k (q + n) ?w1" using w1 ext k n(1) by (simp add: in_set_def)
    then have "writing_at holds recd par g P H (coff g k + q + n) ?w1"
      using w1 \<open>(q + n) div ?c = q div ?c\<close> by (intro writing_atI [where k = k and q = "q + n"]) simp_all
    then show ?thesis using r w1 by simp
  next
    case True
    obtain r2 w2 where d: "writeDataSlices put ?w1 = (r2, w2)" by (cases "writeDataSlices put ?w1") auto
    have le: "q div ?c \<le> (q + n) div ?c" by (simp add: div_le_mono)
    obtain ss pe m' where w2: "w2 = ?w1\<lparr>wr_slices := ss, wr_pending := pe, b_chunkSetNextSliceIndex := Suc m',
        b_chunkSetNextSliceOffset := Suc m' * ?c\<rparr>"
      and h2: "r2 = None \<Longrightarrow> m' = (q + n) div ?c \<and> slices_hold holds recd par g P H (partial_count k m') w2"
      and c2: "clean accepts g ?w1 \<Longrightarrow> r2 = None \<and> clean accepts g w2"
      using data_slices [OF ok lenP k w1(2,3,4) less_imp_le [OF n(1)] ext w1(6,7) le w1(9) d] by blast
    show ?thesis
    proof (cases r2)
      case (Some e)
      then show ?thesis using res True c2 w1 by (auto simp: writeBuffer_def d)
    next
      case None
      then have m': "m' = (q + n) div ?c" and h: "slices_hold holds recd par g P H (partial_count k m') w2"
        using h2 by auto
      have dc: "b_dataSliceCount w2 = ?d" using geom_spec(8) [OF w1(2)] by (simp add: w2)
      have r: "r = None" "w' = w2" using res True w1 None md dc by (auto simp: writeBuffer_def d w2 m')
      have "in_set g P k (q + n) w2" using w1 ext k n(1) by (simp add: in_set_def w2 m')
      then have "writing_at holds recd par g P H (coff g k + q + n) w2"
        using w1 h m' by (intro writing_atI [where k = k and q = "q + n"]) (simp_all add: w2)
      then show ?thesis using r w1 c2 by (simp add: w2)
    qed
  qed
qed

lemma turn_full:
  assumes job: "write_job g par enc P" and fr: "writer_frame g w" and ins: "in_set g P k q w"
    and hold: "slices_hold holds recd par g P H (partial_count k (q div csize g k)) w"
    and n: "q + n = csize g k * b_dataSliceCount g" "n \<le> length buf"
    and data: "take n buf = take n (drop (coff g k + q) P)" and off: "b_dataOffset w = coff g k + q"
    and bound: "coff g (Suc k) \<le> b_size g" and res: "writeBuffer enc put (copied buf n w) = (r, w')"
  shows "(r = None \<longrightarrow> writing_at holds recd par g P H (coff g k + q + n) w' \<and>
      wr_bytesWritten w' = wr_bytesWritten w \<and> wr_hashed w' = wr_hashed w) \<and>
    (clean accepts g w \<longrightarrow> r = None \<and> clean accepts g w')"
proof -
  let ?d = "b_dataSliceCount g" and ?c = "csize g k" and ?w1 = "copied buf n w"
  have ok: "base_ok g" using job by (simp add: write_job_def)
  have k: "k < set_count g" and cfg: "configured w k" and qpos: "b_chunkSetBufferPosition w = q"
    using ins by (simp_all add: in_set_def)
  have lenb: "length (b_chunkSetBuffer w) = b_standardChunkDataSize g * totalSlices g"
    using fr by (simp add: writer_frame_def)
  have fit: "q + n \<le> length (b_chunkSetBuffer w)"
    unfolding lenb n(1) using csize_le [OF ok] by (simp add: mult_le_mono)
  have len1: "length (b_chunkSetBuffer ?w1) = b_standardChunkDataSize g * totalSlices g"
    using fit lenb by (simp add: copied_def qpos)
  have "take (q + n) (b_chunkSetBuffer ?w1) = take (q + n) (cset g P k)"
    using buffer_extend [OF _ _ fit data n(2)] ins n(1) by (simp add: copied_def in_set_def)
  then have ext: "take (?c * ?d) (b_chunkSetBuffer ?w1) = cset g P k" by (simp add: n(1) cset_def)
  have w1: "writer_frame g ?w1" "configured ?w1 k" "b_chunkSetBufferPosition ?w1 = ?c * ?d"
    "b_chunkSetNextSliceIndex ?w1 = Suc (q div ?c)" "b_chunkSetNextSliceOffset ?w1 = Suc (q div ?c) * ?c"
    "b_dataOffset ?w1 = coff g (Suc k)" "slices_hold holds recd par g P H (partial_count k (q div ?c)) ?w1"
    "clean accepts g ?w1 = clean accepts g w" "wr_bytesWritten ?w1 = wr_bytesWritten w" "wr_hashed ?w1 = wr_hashed w"
    using fr cfg qpos ins hold off len1 n(1) by (simp_all add: copied_def in_set_def writer_frame_def)
  have "q div ?c \<le> ?d" using ins by (metis in_set_def less_imp_le less_mult_imp_div_less mult.commute)
  note full = writeBuffer_full [OF job k w1(1-3) ext w1(4,5) this w1(7) disjI1 [OF w1(6)] _ res]
  have fin: "writing_at holds recd par g P H (coff g (Suc k)) w'"
    if "writer_frame g w'" "at_start w'" "b_dataOffset w' = coff g (Suc k)"
      "slices_hold holds recd par g P H (\<lambda>_. Suc k) w'" "Suc k < set_count g \<longrightarrow> configured w' (Suc k)"
  proof (cases "Suc k < set_count g")
    case True
    have "partial_count (Suc k) 0 = (\<lambda>_. Suc k)" by (simp add: partial_count_def fun_eq_iff)
    then show ?thesis using that True at_start_in_set [OF that(1,2) _ True ok, of P]
      by (intro writing_atI [where k = "Suc k" and q = 0]) simp_all
  next
    case False
    then have "Suc k = set_count g" using k by simp
    then show ?thesis using that by (simp add: writing_at_def at_start_def del: coff_Suc)
  qed
  have "coff g k + q + n = coff g (Suc k)" using n(1) by simp
  then show ?thesis using full bound w1(6,8-) fin by (simp del: coff_Suc)
qed

lemma writeLoop_ok:
  assumes job: "write_job g par enc P"
    and at: "writing_at holds recd par g P H x w" and data: "buf = take (length buf) (drop x P)"
    and bound: "x + length buf \<le> b_size g"
  shows "\<exists>r w'. writeLoop enc put buf w = Some (r, w') \<and>
    (r = None \<longrightarrow> writing_at holds recd par g P H (x + length buf) w' \<and>
      wr_bytesWritten w' = wr_bytesWritten w \<and> wr_hashed w' = wr_hashed w) \<and>
    (clean accepts g w \<longrightarrow> r = None \<and> clean accepts g w')"
  using at data bound
proof (induction "length buf" arbitrary: buf x w rule: less_induct)
  case less
  let ?d = "b_dataSliceCount g"
  have ok: "base_ok g" using job by (simp add: write_job_def)
  show ?case
  proof (cases "buf = []")
    case True
    then show ?thesis using less.prems by (simp add: writeLoop.simps)
  next
    case False
    then have "x < coff g (set_count g)" using less.prems(3) ok by (cases buf) (auto simp: base_ok_def)
    then obtain k q where x: "x = coff g k + q" and ins: "in_set g P k q w"
      and hold: "slices_hold holds recd par g P H (partial_count k (q div csize g k)) w"
      using less.prems(1) by (auto simp: writing_at_def)
    have fr: "writer_frame g w" and off: "b_dataOffset w = coff g k + q"
      using less.prems(1) x by (auto simp: writing_at_def)
    define n where "n = min (length buf) (b_chunkSetBufferRemaining w)"
    have rem: "b_chunkSetBufferRemaining w = csize g k * ?d - q" "q < csize g k * ?d" using ins by (simp_all add: in_set_def)
    have n: "0 < n" "n \<le> length buf" "q + n \<le> csize g k * ?d" using False rem by (auto simp: n_def)
    have tk: "take n buf = take n (drop (coff g k + q) P)"
      using less.prems(2) n(2) x by (metis min.absorb1 take_take)
    define R where "R = (if b_chunkSetBufferRemaining (copied buf n w) = 0 \<or>
        b_chunkSetNextSliceOffset (copied buf n w) \<le> b_chunkSetBufferPosition (copied buf n w)
      then writeBuffer enc put (copied buf n w) else (None, copied buf n w))"
    obtain r1 w1 where R: "R = (r1, w1)" by (cases R) auto
    have turn: "(r1 = None \<longrightarrow> writing_at holds recd par g P H (coff g k + q + n) w1 \<and>
        wr_bytesWritten w1 = wr_bytesWritten w \<and> wr_hashed w1 = wr_hashed w) \<and>
      (clean accepts g w \<longrightarrow> r1 = None \<and> clean accepts g w1)"
    proof (cases "q + n = csize g k * ?d")
      case True
      then have "writeBuffer enc put (copied buf n w) = (r1, w1)" using R rem by (simp add: R_def copied_def)
      moreover have "coff g (Suc k) \<le> b_size g" using True x n(2) less.prems(3) by simp
      ultimately show ?thesis using turn_full [OF job fr ins hold True n(2) tk off] by blast
    next
      case False
      then have "q + n < csize g k * ?d" using n(3) by simp
      then show ?thesis using turn_partial [OF job fr ins hold _ n(2) tk off R [unfolded R_def]] by blast
    qed
    have loop: "writeLoop enc put buf w =
        (case r1 of Some e \<Rightarrow> Some (Some e, w1) | None \<Rightarrow> writeLoop enc put (drop n buf) w1)"
      using R False unfolding R_def copied_def n_def by (subst writeLoop.simps) (simp add: Let_def split: option.split)
    show ?thesis
    proof (cases r1)
      case (Some e)
      then show ?thesis using loop turn by simp
    next
      case None
      have dr0: "drop n buf = take (length buf - n) (drop (x + n) P)"
        using less.prems(2) by (metis add.commute drop_drop drop_take)
      have dr: "drop n buf = take (length (drop n buf)) (drop (x + n) P)" unfolding length_drop by (rule dr0)
      have "\<exists>r w'. writeLoop enc put (drop n buf) w1 = Some (r, w') \<and>
        (r = None \<longrightarrow> writing_at holds recd par g P H (x + n + length (drop n buf)) w' \<and>
          wr_bytesWritten w' = wr_bytesWritten w1 \<and> wr_hashed w' = wr_hashed w1) \<and>
        (clean accepts g w1 \<longrightarrow> r = None \<and> clean accepts g w')"
      proof (rule less.hyps [OF _ _ dr])
        show "length (drop n buf) < length buf" "x + n + length (drop n buf) \<le> b_size g"
          using n False less.prems(3) by auto
        show "writing_at holds recd par g P H (x + n) w1" using turn None x by simp
      qed
      moreover have "x + n + length (drop n buf) = x + length buf" using n(2) by simp
      ultimately show ?thesis using loop turn None by auto
    qed
  qed
qed

lemma frame_buffer: "base_ok g \<Longrightarrow> writer_frame g w \<Longrightarrow> b_chunkSetBuffer w \<noteq> []"
  by (auto simp: writer_frame_def base_ok_def)

lemma writing_at_cong:
  "writing_at holds recd par g P H x (w\<lparr>wr_bytesWritten := n, wr_hashed := h\<rparr>) = writing_at holds recd par g P H x w"
  "clean accepts g (w\<lparr>wr_bytesWritten := n, wr_hashed := h\<rparr>) = clean accepts g w"
  by (simp_all add: writing_at_def writer_frame_def in_set_def slices_hold_def clean_def geom_def configured_def
      csize_def group_end_def)

lemma write_parts_ok:
  assumes job: "write_job g par enc P" and "writing_at holds recd par g P H x w"
    and "concat parts = take (length (concat parts)) (drop x P)" "x + length (concat parts) \<le> b_size g"
    and "wr_bytesWritten w = x" "wr_hashed w = Some h"
  shows "\<exists>r w'. write_parts enc put parts w = Some (r, w') \<and>
    (r = None \<longrightarrow> writing_at holds recd par g P H (x + length (concat parts)) w' \<and>
      wr_bytesWritten w' = x + length (concat parts) \<and> wr_hashed w' = Some (h @ concat parts)) \<and>
    (clean accepts g w \<longrightarrow> r = None \<and> clean accepts g w')"
  using assms(2-)
proof (induction parts arbitrary: x w h)
  case (Cons d ds)
  have ok: "base_ok g" using job by (simp add: write_job_def)
  let ?w1 = "w\<lparr>wr_bytesWritten := x + length d, wr_hashed := Some (h @ d)\<rparr>"
  have ne: "b_chunkSetBuffer w \<noteq> []" using frame_buffer [OF ok] Cons.prems(1) by (auto simp: writing_at_def)
  have "d = take (length d) (concat (d # ds))" by simp
  also have "\<dots> = take (length d) (drop x P)" by (subst Cons.prems(2)) (simp add: min_def)
  finally have d: "d = take (length d) (drop x P)" .
  obtain r w2 where st: "writeLoop enc put d ?w1 = Some (r, w2)"
    and r: "r = None \<Longrightarrow> writing_at holds recd par g P H (x + length d) w2 \<and>
      wr_bytesWritten w2 = x + length d \<and> wr_hashed w2 = Some (h @ d)"
    and cl: "clean accepts g w \<Longrightarrow> r = None \<and> clean accepts g w2"
    using writeLoop_ok [OF job _ d, of H ?w1] Cons.prems(1,3) by (auto simp: writing_at_cong)
  have wr: "writer_write enc put d w = Some (r, w2)"
    using ne st Cons.prems(4,5) by (simp add: writer_write_def Let_def)
  show ?case
  proof (cases r)
    case (Some e)
    then show ?thesis using wr cl by auto
  next
    case None
    have "concat ds = drop (length d) (concat (d # ds))" by simp
    also have "\<dots> = take (length (concat ds)) (drop (x + length d) P)"
      by (subst Cons.prems(2)) (simp add: drop_take add.commute)
    finally have ds: "concat ds = take (length (concat ds)) (drop (x + length d) P)" .
    have "\<exists>r w'. write_parts enc put ds w2 = Some (r, w') \<and>
      (r = None \<longrightarrow> writing_at holds recd par g P H (x + length d + length (concat ds)) w' \<and>
        wr_bytesWritten w' = x + length d + length (concat ds) \<and> wr_hashed w' = Some ((h @ d) @ concat ds)) \<and>
      (clean accepts g w2 \<longrightarrow> r = None \<and> clean accepts g w')"
      using r None Cons.prems(3) by (intro Cons.IH [OF _ ds]) auto
    then show ?thesis using wr cl None by (auto simp: add.assoc)
  qed
qed simp

lemma first_pending_None: "geom w = geom g \<Longrightarrow> first_pending w = None \<longleftrightarrow> (\<forall>i < totalSlices g. wr_pending w i = None)"
  using geom_spec(8,9) [of w g] by (auto simp: first_pending_def find_None_iff find_Some_iff split: option.split)

lemma finish_ok:
  assumes job: "write_job g par enc P" and at: "writing_at holds recd par g P H (b_size g) w"
    and "wr_bytesWritten w = b_size g" "wr_hashed w = Some h"
    and zeros: "drop (b_size g) P = replicate (length P - b_size g) 0"
    and fin: "writer_finish md5 enc put w = (r, w')"
  shows "(r = None \<longrightarrow> slices_hold holds recd par g P H (\<lambda>_. set_count g) w' \<and>
      (\<forall>i < totalSlices g. wr_pending w' i = None) \<and> wr_md5 w' = Some (md5 h)) \<and>
    (clean accepts g w \<longrightarrow> r = None)"
proof -
  have ok: "base_ok g" and lenP: "length P = coff g (set_count g)" using job by (simp_all add: write_job_def)
  have sz: "coff g (set_count g - 1) < b_size g" using ok by (simp add: base_ok_def)
  have fr: "writer_frame g w" and off: "b_dataOffset w = b_size g" using at by (auto simp: writing_at_def)
  have gw: "geom w = geom g" using fr by (simp add: writer_frame_def)
  define w0 where "w0 = w\<lparr>b_chunkSetBuffer := take (b_chunkSetBufferPosition w) (b_chunkSetBuffer w)
      @ replicate (length (b_chunkSetBuffer w) - b_chunkSetBufferPosition w) 0,
    b_chunkSetBufferPosition := b_chunkSetDataSize w, b_chunkSetBufferRemaining := 0\<rparr>"
  obtain r1 w1 where F: "(if 0 < b_chunkSetBufferPosition w then writeBuffer enc put w0 else (None, w)) = (r1, w1)"
    by (cases "if 0 < b_chunkSetBufferPosition w then writeBuffer enc put w0 else (None, w)") auto
  have flush: "(r1 = None \<longrightarrow> slices_hold holds recd par g P H (\<lambda>_. set_count g) w1 \<and> writer_frame g w1 \<and>
      wr_hashed w1 = Some h) \<and> (clean accepts g w \<longrightarrow> r1 = None \<and> clean accepts g w1)"
  proof (cases "\<exists>k q. b_size g = coff g k + q \<and> in_set g P k q w \<and>
        slices_hold holds recd par g P H (partial_count k (q div csize g k)) w")
    case False
    then show ?thesis using at F fr assms(4) by (auto simp: writing_at_def)
  next
    case True
    then obtain k q where x: "b_size g = coff g k + q" and ins: "in_set g P k q w"
      and hold: "slices_hold holds recd par g P H (partial_count k (q div csize g k)) w" by blast
    let ?d = "b_dataSliceCount g" and ?c = "csize g k"
    have k: "k < set_count g" "configured w k" "q < ?c * ?d" "b_chunkSetBufferPosition w = q"
      "take q (b_chunkSetBuffer w) = take q (cset g P k)" using ins by (simp_all add: in_set_def)
    have last: "Suc k = set_count g"
      using coff_mono [of "Suc k" "set_count g - 1" g] sz x k(1,3) by fastforce
    then have "set_count g - 1 = k" by simp
    then have q: "0 < q" using sz x by simp
    have lenb: "length (b_chunkSetBuffer w) = b_standardChunkDataSize g * totalSlices g"
      using fr by (simp add: writer_frame_def)
    have cd: "?c * ?d \<le> length (b_chunkSetBuffer w)" unfolding lenb using csize_le [OF ok] by (simp add: mult_le_mono)
    have lc: "length (cset g P k) = ?c * ?d" using length_cset [of g k P] lenP last by simp
    have "drop q (cset g P k) = take (?c * ?d - q) (drop (b_size g) P)"
      by (simp add: cset_def drop_take x add.commute)
    moreover have "length P - b_size g = ?c * ?d - q" using lenP last [symmetric] x by simp
    ultimately have "drop q (cset g P k) = replicate (?c * ?d - q) 0" using zeros by simp
    then have "cset g P k = take q (cset g P k) @ replicate (?c * ?d - q) 0" by (metis append_take_drop_id)
    moreover have "take (?c * ?d) (b_chunkSetBuffer w0) = take q (cset g P k) @ replicate (?c * ?d - q) 0"
      using k(3,4,5) cd lc by (simp add: w0_def min_def)
    ultimately have full: "take (?c * ?d) (b_chunkSetBuffer w0) = cset g P k" by simp
    have ds: "b_chunkSetDataSize w = ?c * ?d" using k(2) geom_spec [OF gw] by (simp add: configured_def)
    have len0: "length (b_chunkSetBuffer w0) = length (b_chunkSetBuffer w)" using cd k(3,4) by (simp add: w0_def)
    have w0: "writer_frame g w0" "configured w0 k" "b_chunkSetBufferPosition w0 = ?c * ?d"
      "b_chunkSetNextSliceIndex w0 = Suc (q div ?c)" "b_chunkSetNextSliceOffset w0 = Suc (q div ?c) * ?c"
      "slices_hold holds recd par g P H (partial_count k (q div ?c)) w0" "b_dataOffset w0 = b_size g"
      "clean accepts g w0 = clean accepts g w" "wr_hashed w0 = Some h"
      using fr k(2) ins hold off assms(4) ds len0 lenb gw by (simp_all add: writer_frame_def in_set_def w0_def)
    have "q div ?c \<le> ?d" using k(3) by (metis less_imp_le less_mult_imp_div_less mult.commute)
    moreover have "writeBuffer enc put w0 = (r1, w1)" using F q k(4) by simp
    ultimately show ?thesis
      using writeBuffer_full [OF job k(1) w0(1-3) full w0(4,5) _ w0(6), of r1 w1] last w0(7,8,9) by auto
  qed
  have res: "(r, w') = (case r1 of Some e \<Rightarrow> (Some e, w1) | None \<Rightarrow>
      (case first_pending w1 of Some e \<Rightarrow> (Some e, w1)
       | None \<Rightarrow> (case wr_hashed w1 of None \<Rightarrow> (Some (plain_error ''hash not initialized''), w1)
           | Some h \<Rightarrow> (None, w1\<lparr>wr_md5 := Some (md5 h), wr_hashed := None\<rparr>))))"
    using fin frame_buffer [OF ok fr] assms(3) geom_spec(10) [OF gw]
    unfolding writer_finish_def w0_def [symmetric] F by (simp split: option.splits)
  show ?thesis
  proof (cases r1)
    case None
    then have "writer_frame g w1" and w1: "slices_hold holds recd par g P H (\<lambda>_. set_count g) w1" "wr_hashed w1 = Some h"
      using flush by blast+
    then have "geom w1 = geom g" by (simp add: writer_frame_def)
    note fp = first_pending_None [OF this]
    show ?thesis using res None w1 flush fp
      by (auto simp: slices_hold_def clean_def split: option.splits)
  qed (use res flush in auto)
qed

end

section \<open>Preparation\<close>

lemma new_writer_sel [simp]:
  "b_size (new_writer sz C d p) = sz" "b_chunkSize (new_writer sz C d p) = C"
  "b_dataSliceCount (new_writer sz C d p) = d" "b_paritySliceCount (new_writer sz C d p) = p"
  "wr_slices (new_writer sz C d p) = []" "wr_pending (new_writer sz C d p) = (\<lambda>_. None)"
  "wr_isAborting (new_writer sz C d p) = False" "wr_bytesWritten (new_writer sz C d p) = 0"
  "wr_hashed (new_writer sz C d p) = Some []" "wr_commitFailed (new_writer sz C d p) = None"
  by (simp_all add: new_writer_def base.extend_def new_base_def writer.fields_def)

lemma length_instantiate: "instantiateSlices mk is ss = Inr ss' \<Longrightarrow> length ss' = length ss + length is"
  by (induction mk "is" ss rule: instantiateSlices.induct) (auto split: sum.splits)

lemma length_settle [simp]: "length (snd (settle_all op ss)) = length ss"
  by (simp add: settle_all_def Let_def)

lemma geom_truncate [simp]: "geom (base.truncate w) = geom w"
  by (simp add: geom_def base.truncate_def)

lemma writer_more:
  assumes "base.more w' = base.more w"
  shows "wr_slices w' = wr_slices w" "wr_pending w' = wr_pending w" "wr_isAborting w' = wr_isAborting w"
    "wr_bytesWritten w' = wr_bytesWritten w" "wr_hashed w' = wr_hashed w" "wr_commitFailed w' = wr_commitFailed w"
  using assms by (cases w; cases w'; simp)+

lemma prepare_ok:
  assumes prep: "writer_prepare rsCreate mem (Some pl') mk create (new_writer sz C d p) = (None, w :: 's writer)"
    and plan: "populatePlanDerivedFields pl = Inr pl'" "p_fileSize pl = Some (int sz)"
      "p_dataSliceCount pl = Some (int d)" "p_chunkSize pl = Some (int C)" "plan_ok (int sz) (int d) (int C)"
    and "0 < p" "d + p \<le> 32" "sz < MAX_SAFE_INTEGER" and mem: "\<And>n. length (mem n) = n"
  shows "base_ok w \<and> writer_frame (base.truncate w) w \<and> at_start w \<and> configured w 0 \<and> b_dataOffset w = 0 \<and>
    length (wr_slices w) = d + p \<and> wr_pending w = (\<lambda>_. None) \<and> \<not> wr_isAborting w \<and> wr_bytesWritten w = 0 \<and>
    wr_hashed w = Some [] \<and> b_size w = sz \<and> b_dataSliceCount w = d \<and> b_paritySliceCount w = p \<and> b_chunkSize w = C"
proof -
  let ?w = "new_writer sz C d p :: 's writer"
  have create: "rsCreate d p = None"
    using prep by (auto simp: writer_prepare_def writer_configureInternals_def configureInternals_def
        split: option.splits sum.splits)
  then obtain w1 where w1: "configureInternals rsCreate mem (Some pl') ?w = Inr w1" "base_ok w1"
    "length (b_chunkSetBuffer w1) = b_standardChunkDataSize w1 * totalSlices w1" "b_dataOffset w1 = 0"
    "base.more w1 = base.more ?w" "b_size w1 = sz" "b_dataSliceCount w1 = d" "b_paritySliceCount w1 = p" "b_chunkSize w1 = C"
    using configureInternals_ok [of pl pl' ?w rsCreate mem] plan assms(7-9) mem by auto
  define w2 where "w2 = configureStartState (w1\<lparr>b_rsSourcesBits := bits_from [0..<d], b_rsTargetsBits := bits_from [d..<d + p]\<rparr>)"
  have g2: "geom w2 = geom w1" by (simp add: w2_def)
  note gs = geom_spec [OF g2]
  have ok2: "base_ok w2" using w1(2) gs by simp
  have cfg: "configured w2 0" "at_start w2"
    using configured_start [of "w1\<lparr>b_rsSourcesBits := bits_from [0..<d], b_rsTargetsBits := bits_from [d..<d + p]\<rparr>"]
      w1(2) geom_spec(7) [of "w1\<lparr>b_rsSourcesBits := bits_from [0..<d], b_rsTargetsBits := bits_from [d..<d + p]\<rparr>" w1]
    by (simp_all add: w2_def)
  have more: "base.more w2 = base.more ?w" using w1(5) by (simp add: w2_def)
  have m2: "wr_slices w2 = []" "wr_pending w2 = (\<lambda>_. None)" "\<not> wr_isAborting w2" "wr_bytesWritten w2 = 0"
    "wr_hashed w2 = Some []"
    using writer_more [OF more] by simp_all
  obtain ss ss' where ss: "instantiateSlices mk [0..<d + p] [] = Inr ss" "settle_all create ss = (None, ss')"
    and w: "w = w2\<lparr>wr_slices := ss'\<rparr>"
    using prep w1(1,7,8) m2(1) gs
    by (auto simp: writer_prepare_def writer_configureInternals_def Let_def w2_def [symmetric] split: sum.splits prod.splits)
  have len: "length ss' = d + p"
    using length_instantiate [OF ss(1)] length_settle [of create ss] by (simp add: ss(2))
  have gw: "geom w = geom w1" using g2 by (simp add: w)
  note gsw = geom_spec [OF gw]
  show ?thesis
    using w1 w2_def cfg m2 len gsw geom_spec [of "base.truncate w" w]
    by (simp add: w writer_frame_def) (simp add: w2_def at_start_def)
qed

section \<open>The writer on the slices of the disks\<close>

text \<open>A slice of \<open>Slice_Ops\<close> with the outcomes of the system calls of its next operations.\<close>

type_synonym disk_slice = "sworld \<times> slice_env list"

definition next_env :: "slice_env list \<Rightarrow> slice_env" where
  "next_env es = (case es of [] \<Rightarrow> quiet_env | e # _ \<Rightarrow> e)"

definition put_slice :: "(bytes \<Rightarrow> bytes) \<Rightarrow> disk_slice slice_put" where
  "put_slice md5 data s =
     (case slice_writeChunk md5 (next_env (snd s)) data (fst s) of (r, w) \<Rightarrow> (r, (w, tl (snd s))))"

definition on_slice :: "(slice_env \<Rightarrow> sworld \<Rightarrow> js_error option \<times> sworld) \<Rightarrow> disk_slice slice_op" where
  "on_slice f s = (case f (next_env (snd s)) (fst s) of (r, w) \<Rightarrow> (r, (w, tl (snd s))))"

definition slice_bytes :: "disk_slice \<Rightarrow> bytes" where
  "slice_bytes s = (case v_tmp (w_vol (fst s)) (sl_fileName (w_slice (fst s))) of None \<Rightarrow> [] | Some f \<Rightarrow> f)"

definition accepts_chunks :: "nat \<Rightarrow> disk_slice \<Rightarrow> bool" where
  "accepts_chunks n s \<longleftrightarrow> writing (fst s) \<and> snd s = [] \<and> 16 + int n \<le> sr_chunkSize (sl_ref (w_slice (fst s)))"

lemma settle_all_None: "fst (settle_all op ss) = None \<longleftrightarrow> (\<forall>s \<in> set ss. fst (op s) = None)"
  by (auto simp: settle_all_def Let_def find_None_iff find_Some_iff split: option.split)

text \<open>The header the slice's constructor arguments determine, and the files a slice may end with.\<close>

definition own_header :: "(bytes \<Rightarrow> bytes) \<Rightarrow> disk_slice \<Rightarrow> bytes" where
  "own_header md5 s = (case slice_header md5 (sl_ref (w_slice (fst s))) of Inl _ \<Rightarrow> [] | Inr h \<Rightarrow> h)"

text \<open>No write still to come on the slice stops short.\<close>

definition never_short :: "disk_slice \<Rightarrow> bool" where
  "never_short s \<longleftrightarrow> (\<forall>env \<in> set (snd s). se_short env = None)"

text \<open>
  What a slice that was meant to get the file \<open>full\<close> got: exactly that file, or a strictly shorter one
  when some write on it stopped short.
\<close>

definition landed :: "disk_slice \<Rightarrow> bytes \<Rightarrow> bytes \<Rightarrow> bool" where
  "landed s full f \<longleftrightarrow> (f = full \<or> length f < length full) \<and> (never_short s \<longrightarrow> f = full)"

text \<open>The slices in \<open>B\<close> are those no write on which stops short.\<close>

definition slice_held :: "(nat \<Rightarrow> bool) \<Rightarrow> nat \<Rightarrow> disk_slice \<Rightarrow> bytes \<Rightarrow> bool" where
  "slice_held B i s bs \<longleftrightarrow> (slice_bytes s = bs \<or> length (slice_bytes s) < length bs) \<and>
     (B i \<longrightarrow> never_short s \<and> slice_bytes s = bs)"

lemma never_short_next: "never_short s \<Longrightarrow> se_short (next_env (snd s)) = None \<and> never_short (w, tl (snd s))"
  by (cases "snd s") (auto simp: never_short_def next_env_def)

lemma bytes_written_held:
  assumes "x = bs \<or> length x < length bs"
  shows "x @ bytes_written short b = bs @ b \<or> length (x @ bytes_written short b) < length (bs @ b)"
  using assms bytes_written_short [of short b] by (auto simp: le_less)

lemma put_held:
  assumes "put_slice md5 data s = (None, s')" "slice_held B i s bs"
  shows "slice_held B i s' (bs @ chunk_record md5 data)"
proof -
  have s': "snd s' = tl (snd s)" "slice_bytes s' = slice_bytes s @ bytes_written (se_short (next_env (snd s))) (chunk_record md5 data)"
    using assms(1) by (auto simp: put_slice_def slice_bytes_def slice_writeChunk_def Let_def appendTemporary_def
        split: prod.splits if_splits option.splits)
  have "B i \<Longrightarrow> never_short s'" using assms(2) never_short_next [of s "fst s'"] s'(1) by (cases s') (simp add: slice_held_def)
  then show ?thesis using assms(2) bytes_written_held never_short_next by (auto simp: slice_held_def s'(2))
qed

lemma create_held:
  assumes "on_slice (slice_create md5) s = (None, s')"
  shows "slice_held (\<lambda>_. never_short s) i s' (own_header md5 s)"
proof -
  obtain w' where w': "slice_create md5 (next_env (snd s)) (fst s) = (None, w')" "s' = (w', tl (snd s))"
    using assms by (auto simp: on_slice_def split: prod.splits)
  from w'(1) have "slice_bytes s' = bytes_written (se_short (next_env (snd s))) (own_header md5 s)"
    by (auto simp: w'(2) slice_bytes_def own_header_def slice_create_def createTemporaryFh_def appendTemporary_def Let_def
        split: if_splits option.splits sum.splits)
  then show ?thesis
    using bytes_written_held [of "[]" "[]"] never_short_next [of s w'] w'(2) by (auto simp: slice_held_def)
qed

interpretation disk: slice_sink "put_slice md5" "slice_held B" "chunk_record md5" accepts_chunks for md5 B
proof
  show "slice_held B i s' (bs @ chunk_record md5 data)" if "put_slice md5 data s = (None, s')" "slice_held B i s bs" for data s s' i bs
    by (rule put_held [OF that])
  show "\<exists>s'. put_slice md5 data s = (None, s') \<and> accepts_chunks n s'" if "accepts_chunks n s" "length data \<le> n" for n s data
    using that by (auto simp: put_slice_def accepts_chunks_def next_env_def slice_writeChunk_def writing_def Let_def
        CHUNK_HEADER_SIZE_def split: prod.splits if_splits)
qed

text \<open>Every slice of a prepared writer was constructed and created.\<close>

lemma instantiate_nth:
  assumes "instantiateSlices mk is ss = Inr ss'" "k < length is"
  shows "mk (is ! k) = Inr (ss' ! (length ss + k))"
  using assms
proof (induction mk "is" ss arbitrary: k rule: instantiateSlices.induct)
  case (2 mk i "is" ss)
  obtain s where s: "mk i = Inr s" "instantiateSlices mk is (ss @ [s]) = Inr ss'" using "2.prems" by (auto split: sum.splits)
  have pre: "ss' ! length ss = s"
  proof -
    have "instantiateSlices mk js ts = Inr ts' \<Longrightarrow> take (length ts) ts' = ts" for js ts ts'
    proof (induction mk js ts rule: instantiateSlices.induct)
      case (2 mk i js ts)
      then obtain s where "take (length (ts @ [s])) ts' = ts @ [s]" by (auto split: sum.splits)
      then have "take (length ts) (take (length (ts @ [s])) ts') = take (length ts) (ts @ [s])" by simp
      then show ?case by (simp add: min_def)
    qed simp
    from this [OF s(2)] have "take (Suc (length ss)) ss' = ss @ [s]" by simp
    then show ?thesis by (metis lessI nth_append_length nth_take)
  qed
  show ?case using "2.IH" [OF s(1,2)] "2.prems"(2) s(1) pre by (cases k) auto
qed simp

lemma prepare_slices:
  assumes "writer_prepare rsCreate mem plan mk create (new_writer sz C d p) = (None, w :: 's writer)" "i < d + p"
  shows "\<exists>s. mk i = Inr s \<and> create s = (None, wr_slices w ! i)"
proof -
  obtain w1 where w1: "configureInternals rsCreate mem plan (new_writer sz C d p :: 's writer) = Inr w1"
    using assms(1) by (auto simp: writer_prepare_def writer_configureInternals_def split: sum.splits)
  have dims: "b_dataSliceCount w1 = d" "b_paritySliceCount w1 = p" and more: "base.more w1 = base.more (new_writer sz C d p :: 's writer)"
    using w1 by (auto simp: configureInternals_def new_writer_def base.extend_def new_base_def writer.fields_def split: option.splits)
  define w2 where "w2 = configureStartState (w1\<lparr>b_rsSourcesBits := bits_from [0..<d], b_rsTargetsBits := bits_from [d..<d + p]\<rparr>)"
  have "geom w2 = geom w1" "base.more w2 = base.more w1" by (simp_all add: w2_def)
  then have t2: "totalSlices w2 = d + p" "wr_slices w2 = []"
    using geom_spec(8,9) [of w2 w1] dims more writer_more(1) [of w2 "new_writer sz C d p :: 's writer"] by simp_all
  obtain ss ss' where ss: "instantiateSlices mk [0..<d + p] [] = Inr ss" "settle_all create ss = (None, ss')"
    and w: "w = w2\<lparr>wr_slices := ss'\<rparr>"
    using assms(1) t2 dims
    by (auto simp: writer_prepare_def writer_configureInternals_def w1 Let_def w2_def [symmetric] split: sum.splits prod.splits)
  have i: "i < length ss" using length_instantiate [OF ss(1)] assms(2) by simp
  then have "fst (create (ss ! i)) = None" using ss(2) settle_all_None [of create ss] by simp
  moreover have "ss' ! i = snd (create (ss ! i))"
  proof -
    have "ss' = map snd (map create ss)" using ss(2) by (auto simp: settle_all_def Let_def)
    then show ?thesis using i by simp
  qed
  ultimately show ?thesis using instantiate_nth [OF ss(1), of i] assms(2) by (simp add: w prod_eq_iff)
qed

lemma records_chunks: "concat (map (\<lambda>j. chunk_record md5 (f j)) js) = records md5 (map f js)"
  by (simp add: records_def comp_def)

lemma padded_props:
  assumes "base_ok w" "length D = b_size w"
  shows "length (padded w D) = coff w (set_count w)" "take (length D) (padded w D) = D"
    "drop (b_size w) (padded w D) = replicate (length (padded w D) - b_size w) 0"
  using assms by (simp_all add: padded_def base_ok_def)

lemma write_object_ok:
  fixes w :: "disk_slice writer"
  assumes "writer_prepare rsCreate mem (Some pl') mk create (new_writer sz C d p) = (None, w)"
    and "populatePlanDerivedFields pl = Inr pl'" "p_fileSize pl = Some (int sz)"
      "p_dataSliceCount pl = Some (int d)" "p_chunkSize pl = Some (int C)" "plan_ok (int sz) (int d) (int C)"
    and "0 < p" "d + p \<le> 32" "sz < MAX_SAFE_INTEGER" "\<And>n. length (mem n) = n"
    and "rs_law d p enc par" and "concat parts = D" "length D = sz"
    and held: "\<forall>i < d + p. slice_held B i (wr_slices w ! i) (H i)"
  shows "\<exists>r w1. write_parts enc (put_slice md5) parts w = Some (r, w1) \<and>
    (\<forall>w2. r = None \<longrightarrow> writer_finish md5 enc (put_slice md5) w1 = (None, w2) \<longrightarrow> wr_md5 w2 = Some (md5 D) \<and>
      (\<forall>i < d + p. slice_held B i (wr_slices w2 ! i)
         (H i @ records md5 (map (slice_chunk par w (padded w D) i) [0..<set_count w])))) \<and>
    ((\<forall>i < d + p. accepts_chunks (b_standardChunkDataSize w) (wr_slices w ! i)) \<longrightarrow>
      r = None \<and> (\<exists>w2. writer_finish md5 enc (put_slice md5) w1 = (None, w2)))"
proof -
  have w: "base_ok w" "writer_frame (base.truncate w) w" "at_start w" "configured w 0" "b_dataOffset w = 0"
    "length (wr_slices w) = d + p" "wr_pending w = (\<lambda>_. None)" "\<not> wr_isAborting w" "wr_bytesWritten w = 0"
    "wr_hashed w = Some []" "b_size w = sz" "b_dataSliceCount w = d" "b_paritySliceCount w = p"
    using prepare_ok [OF assms(1-10)] by blast+
  define g where "g = base.truncate w"
  define P where "P = padded w D"
  have gw: "geom w = geom g" by (simp add: g_def)
  note gs = geom_spec [OF gw]
  note pp = padded_props [OF w(1), of D, folded P_def]
  have gsel: "b_size g = sz" "b_dataSliceCount g = d" "b_paritySliceCount g = p" using gs w by simp_all
  have job: "write_job g par enc P"
    using assms(11,13) w pp(1) gs gsel by (simp add: write_job_def)
  have start: "writing_at (slice_held B) (chunk_record md5) par g P H 0 w"
  proof (rule writing_atI [where k = 0 and q = 0])
    have "set_count g \<noteq> 0" by (simp add: set_count_def)
    then show "in_set g P 0 0 w" using at_start_in_set [of g w 0 P] w(1-4) gs by (simp add: g_def)
    show "slices_hold (slice_held B) (chunk_record md5) par g P H (partial_count 0 (0 div csize g 0)) w"
      using w(6,8) gsel held by (simp add: slices_hold_def partial_count_def)
  qed (use w in \<open>simp_all add: g_def\<close>)
  have c: "concat parts = take (length (concat parts)) (drop 0 P)" "0 + length (concat parts) \<le> b_size g"
    using pp(2) assms(12,13) w(11) gsel by simp_all
  obtain r w1 where wr: "write_parts enc (put_slice md5) parts w = Some (r, w1)"
    and ok: "r = None \<Longrightarrow> writing_at (slice_held B) (chunk_record md5) par g P H sz w1 \<and> wr_bytesWritten w1 = sz \<and>
      wr_hashed w1 = Some D"
    and cl: "clean accepts_chunks g w \<Longrightarrow> r = None \<and> clean accepts_chunks g w1"
    using disk.write_parts_ok [OF job start c w(9,10)] unfolding assms(12,13) by auto
  have fin: "(r2 = None \<longrightarrow> slices_hold (slice_held B) (chunk_record md5) par g P H (\<lambda>_. set_count g) w2 \<and>
      (\<forall>i < totalSlices g. wr_pending w2 i = None) \<and> wr_md5 w2 = Some (md5 D)) \<and>
    (clean accepts_chunks g w1 \<longrightarrow> r2 = None)"
    if "r = None" "writer_finish md5 enc (put_slice md5) w1 = (r2, w2)" for r2 w2
    using disk.finish_ok [OF job, of B md5 H w1 D md5 r2 w2] ok [OF that(1)] that(2) pp(3) assms(13) gsel w(11) by simp
  have clean: "clean accepts_chunks g w \<longleftrightarrow>
      (\<forall>i < d + p. accepts_chunks (b_standardChunkDataSize w) (wr_slices w ! i))"
    using w(7) gs gsel by (simp add: clean_def)
  show ?thesis
  proof (rule exI [of _ r], rule exI [of _ w1], intro conjI allI impI)
    show "write_parts enc (put_slice md5) parts w = Some (r, w1)" by (rule wr)
  next
    fix w2 assume "r = None" "writer_finish md5 enc (put_slice md5) w1 = (None, w2)"
    from fin [OF this] show "wr_md5 w2 = Some (md5 D)" by simp
  next
    fix w2 i assume "r = None" "writer_finish md5 enc (put_slice md5) w1 = (None, w2)" "i < d + p"
    with fin [OF this(1,2)] show "slice_held B i (wr_slices w2 ! i)
       (H i @ records md5 (map (slice_chunk par w (padded w D) i) [0..<set_count w]))"
      using gsel gs by (simp add: slices_hold_def P_def records_chunks)
  next
    assume a: "\<forall>i < d + p. accepts_chunks (b_standardChunkDataSize w) (wr_slices w ! i)"
    then show "r = None" using cl clean by blast
    then show "\<exists>w2. writer_finish md5 enc (put_slice md5) w1 = (None, w2)"
      using fin [of "fst (writer_finish md5 enc (put_slice md5) w1)" "snd (writer_finish md5 enc (put_slice md5) w1)"]
        cl clean a by (metis prod.collapse)
  qed
qed


lemma instantiate_map: "instantiateSlices (\<lambda>i. Inr (f i)) is ss = Inr (ss @ map f is)"
  by (induction "is" arbitrary: ss) simp_all

lemma prepare_total:
  assumes "populatePlanDerivedFields pl = Inr pl'" "layout_of pl' = Some l" "rsCreate d p = None"
    and "\<And>i. i < d + p \<Longrightarrow> fst (create (f i :: 's)) = None"
  shows "\<exists>w. writer_prepare rsCreate mem (Some pl') (\<lambda>i. Inr (f i)) create (new_writer sz C d p) = (None, w) \<and>
    wr_slices w = map (\<lambda>i. snd (create (f i))) [0..<d + p]"
proof -
  define w1 where "w1 = (case configureInternals rsCreate mem (Some pl') (new_writer sz C d p :: 's writer) of Inr w \<Rightarrow> w)"
  have c: "configureInternals rsCreate mem (Some pl') (new_writer sz C d p) = Inr w1"
    by (simp add: w1_def configureInternals_def assms(2,3))
  have w1: "b_dataSliceCount w1 = d" "b_paritySliceCount w1 = p" "base.more w1 = base.more (new_writer sz C d p :: 's writer)"
    using c by (auto simp: configureInternals_def assms(2,3))
  have sl: "wr_slices w1 = []" using writer_more(1) [OF w1(3)] by simp
  have st: "settle_all create (map f [0..<d + p]) = (None, map (\<lambda>i. snd (create (f i))) [0..<d + p])"
    using assms(4) settle_all_None [of create "map f [0..<d + p]"] by (simp add: prod_eq_iff) (simp add: settle_all_def Let_def)
  let ?w2 = "configureStartState (w1\<lparr>b_rsSourcesBits := bits_from [0..<d], b_rsTargetsBits := bits_from [d..<d + p]\<rparr>)"
  have g: "geom ?w2 = geom w1" by simp
  have "base.more ?w2 = base.more w1" by simp
  then have "wr_slices ?w2 = []" using writer_more(1) [of ?w2 w1] sl by simp
  then show ?thesis
    using geom_spec(8,9) [OF g] by (simp add: writer_prepare_def writer_configureInternals_def c w1 Let_def instantiate_map st)
qed

text \<open>
  Cleaning up after a failed upload: \<open>abort\<close> deletes exactly the slices whose last write did not fail;
  a slice with a failed write is left as it is, with its temporary file and its reservation, and
  \<open>abort\<close> rejects. After a commit that failed it deletes no slice at all: the promises of the commit
  are still there, and \<open>abort\<close> rejects with them.
\<close>

theorem abort_skips_failed_slice:
  fixes w :: "disk_slice writer"
  assumes "i < length (wr_slices w)" "wr_commitFailed w = None"
  shows "wr_slices (snd (writer_abort (on_slice slice_delete) w)) ! i =
      (if wr_pending w i = None then snd (on_slice slice_delete (wr_slices w ! i)) else wr_slices w ! i) \<and>
    (wr_pending w i \<noteq> None \<longrightarrow> fst (writer_abort (on_slice slice_delete) w) \<noteq> None)"
  using assms by (auto simp: writer_abort_def Let_def find_None_iff find_Some_iff split: option.split)

theorem abort_after_failed_commit:
  assumes "writer_commit close commit w = (Some e, w')" "\<not> wr_isAborting w"
  shows "writer_abort delete w' = (Some e, w'\<lparr>wr_isAborting := True\<rparr>)"
  using assms by (auto simp: writer_commit_def writer_abort_def split: prod.splits option.splits)

section \<open>A small upload\<close>

definition small_ref :: "nat \<Rightarrow> slice_ref" where
  "small_ref i = \<lparr>sr_idBuf = [1, 2, 3, 4, 5, 6, 7, 8, 9, 10, 11, 12], sr_size = 20, sr_dataSliceCount = 2,
     sr_paritySliceCount = 1, sr_sliceIndex = i, sr_chunkSize = 72\<rparr>"

definition small_slice :: "nat \<Rightarrow> disk_slice" where
  "small_slice i = (\<lparr>w_slice = new_slice (small_ref i) ''0102030405060708090a0b0c'' i 80 True NormalPriority,
     w_vol = reserveSpace 80 sample_volume, w_pm = pm_empty\<rparr>, [])"

definition small_plan :: plan where
  "small_plan = new_plan\<lparr>p_fileSize := Some 20, p_dataSliceCount := Some 2, p_paritySliceCount := Some 1,
     p_chunkSize := Some 72\<rparr>"

lemma small_create:
  assumes "i < 3"
  shows "fst (on_slice (slice_create sum_digest) (small_slice i)) = None \<and>
    accepts_chunks 56 (snd (on_slice (slice_create sum_digest) (small_slice i)))"
proof -
  have "\<exists>h. slice_header sum_digest (small_ref i) = Inr h"
    using assms by (simp add: slice_header_def small_ref_def writeIntLE_def writeUInt8_def Let_def)
  then obtain h where "ready_to_write sum_digest (fst (small_slice i)) h"
    using sample_guard by (auto simp: ready_to_write_def small_slice_def new_slice_def)
  from create_quiet [OF this] show ?thesis
    by (auto simp: on_slice_def small_slice_def next_env_def accepts_chunks_def new_slice_def small_ref_def)
qed


definition failed_writer :: "disk_slice writer" where
  "failed_writer = (new_writer 20 72 2 1)\<lparr>wr_slices := [small_slice 0, small_slice 1],
     wr_pending := (\<lambda>_. None)(1 := Some (plain_error ''EIO''))\<rparr>"

theorem abort_skips_failed_slice_witness:
  "wr_slices (snd (writer_abort (on_slice slice_delete) failed_writer)) ! 1 = small_slice 1 \<and>
   fst (writer_abort (on_slice slice_delete) failed_writer) \<noteq> None"
  using abort_skips_failed_slice [of 1 failed_writer] by (simp add: failed_writer_def)

end
