(* ===== verification/Object_Reader.thy ===== *)
theory Object_Reader
  imports Object_Writer
begin

text \<open>
  \<^verbatim>\<open>lib/io/file-object/reader.ts\<close>: reading an object back, one chunk set at a time, through slice faults.
  The operations of a slice are arguments: \<open>opn\<close> opens it and \<open>rdc j c\<close> seeks to chunk \<open>j\<close> and reads
  \<open>c\<close> checksummed bytes. The locale \<open>slice_source\<close> states what the reader relies on and is interpreted
  on the slices of \<open>Slice_Ops\<close>. The results: whatever fails, a read that returns gives the requested
  bytes of the object, and it does return as long as \<open>d\<close> slices stay readable.
\<close>

section \<open>State\<close>

definition ESCALATE_THRESHOLD :: nat where "ESCALATE_THRESHOLD = 2"

definition HARD_FAULT_CODES :: "string list" where
  "HARD_FAULT_CODES = [''EOPEN'', ''ETIMEOUT'', ''EHEADER'', ''EUNAVAIL'', ''ENOENT'']"

record 's reader = base +
  rd_slices :: "'s list"
  rd_hasReadSegment :: bool
  rd_startOffset :: nat
  rd_endOffset :: nat
  rd_openSliceIdxs :: "nat list"
  rd_availableParityIdxs :: "nat list"
  rd_failedSlices :: "nat list"
  rd_faultCounts :: "nat \<Rightarrow> nat"
  rd_currentChunkSetIndex :: nat
  rd_reports :: "(nat \<times> js_error) list"

type_synonym 's slice_read = "nat \<Rightarrow> nat \<Rightarrow> 's \<Rightarrow> (js_error + bytes) \<times> 's"

definition new_reader :: "nat \<Rightarrow> nat \<Rightarrow> nat \<Rightarrow> nat \<Rightarrow> 's reader" where
  "new_reader sz chunkSize d p = base.extend (new_base sz chunkSize d p)
     (reader.fields [] False 0 0 [] [] [] (\<lambda>_. 0) 0 [])"

definition isIOAbortError :: "js_error \<Rightarrow> bool" where
  "isIOAbortError e \<longleftrightarrow> err_code e = Some ''IOABORT''"

text \<open>\<open>handleSliceFault\<close>: report, count, and give the slice up on a hard code or at the threshold.\<close>

definition handleSliceFault :: "nat \<Rightarrow> js_error \<Rightarrow> 's reader \<Rightarrow> 's reader" where
  "handleSliceFault i e r =
    (let count = Suc (rd_faultCounts r i);
         hard = (case err_code e of None \<Rightarrow> False | Some c \<Rightarrow> c \<in> set HARD_FAULT_CODES)
     in r\<lparr>rd_reports := rd_reports r @ [(i, e)], rd_faultCounts := (rd_faultCounts r)(i := count),
          rd_failedSlices := (if hard \<or> ESCALATE_THRESHOLD \<le> count then List.insert i (rd_failedSlices r)
                              else rd_failedSlices r)\<rparr>)"

definition quorumError :: js_error where
  "quorumError = coded_error ''EQUORUM'' ''insufficient slices available to reconstruct file''"

section \<open>Opening\<close>

text \<open>\<open>Promise.allSettled(is.map(open))\<close> on distinct slices.\<close>

fun open_each :: "'s slice_op \<Rightarrow> nat list \<Rightarrow> 's list \<Rightarrow> (nat \<times> js_error option) list \<times> 's list" where
  "open_each opn [] ss = ([], ss)"
| "open_each opn (i # is) ss =
     (case opn (ss ! i) of (r, s) \<Rightarrow> (case open_each opn is (ss[i := s]) of (rs, ss') \<Rightarrow> ((i, r) # rs, ss')))"

fun note_opened :: "(nat \<times> js_error option) list \<Rightarrow> 's reader \<Rightarrow> js_error option \<times> 's reader" where
  "note_opened [] r = (None, r)"
| "note_opened ((i, None) # rs) r = note_opened rs (r\<lparr>rd_openSliceIdxs := rd_openSliceIdxs r @ [i]\<rparr>)"
| "note_opened ((i, Some e) # rs) r =
     (if isIOAbortError e then (Some e, r)
      else let r1 = handleSliceFault i e r
           in note_opened rs (r1\<lparr>rd_failedSlices := List.insert i (rd_failedSlices r1)\<rparr>))"

definition reader_prepare ::
  "(nat \<Rightarrow> nat \<Rightarrow> js_error option) \<Rightarrow> (nat \<Rightarrow> bytes) \<Rightarrow> plan option \<Rightarrow> (nat \<Rightarrow> js_error + 's) \<Rightarrow> (nat \<Rightarrow> bool)
     \<Rightarrow> 's slice_op \<Rightarrow> 's reader \<Rightarrow> js_error option \<times> 's reader" where
  "reader_prepare rsCreate mem plan mk avail opn r =
    (case configureInternals rsCreate mem plan r of Inl e \<Rightarrow> (Some e, r)
     | Inr r1 \<Rightarrow>
       let r2 = configureStartState r1; d = b_dataSliceCount r2; n = totalSlices r2 in
       (case instantiateSlices mk [0..<n] (rd_slices r2) of Inl e \<Rightarrow> (Some e, r2)
        | Inr ss \<Rightarrow>
          let dataCandidates = filter avail [0..<d]; parity = filter avail [d..<n];
              r3 = r2\<lparr>rd_slices := ss, rd_startOffset := 0, rd_endOffset := b_size r2,
                       rd_availableParityIdxs := rd_availableParityIdxs r2 @ parity,
                       rd_failedSlices := rd_failedSlices r2 @ filter (\<lambda>i. \<not> avail i) [0..<n]\<rparr>
          in if length dataCandidates + length (rd_availableParityIdxs r3) < d then (Some quorumError, r3)
             else
               (case open_each opn dataCandidates ss of (rs, ss') \<Rightarrow>
                (case note_opened rs (r3\<lparr>rd_slices := ss'\<rparr>) of
                   (Some e, r4) \<Rightarrow> (Some e, r4)
                 | (None, r4) \<Rightarrow>
                   if length (rd_openSliceIdxs r4) + length (rd_availableParityIdxs r4) < d then (Some quorumError, r4)
                   else (None, r4\<lparr>rd_currentChunkSetIndex := 0\<rparr>)))))"

definition ensureSliceOpen :: "'s slice_op \<Rightarrow> nat \<Rightarrow> 's reader \<Rightarrow> js_error option \<times> 's reader" where
  "ensureSliceOpen opn i r =
    (if i \<in> set (rd_openSliceIdxs r) then (None, r)
     else case opn (rd_slices r ! i) of
       (Some e, s) \<Rightarrow> (Some e, r\<lparr>rd_slices := (rd_slices r)[i := s]\<rparr>)
     | (None, s) \<Rightarrow> (None, r\<lparr>rd_slices := (rd_slices r)[i := s], rd_openSliceIdxs := rd_openSliceIdxs r @ [i]\<rparr>))"

text \<open>
  \<open>setReadRange\<close>. The seek it does on the open slices is repeated by every chunk read, so it is not
  a separate effect here.
\<close>

definition setReadRange :: "nat \<Rightarrow> nat \<Rightarrow> 's reader \<Rightarrow> 's reader" where
  "setReadRange from until r0 =
    (let r = r0\<lparr>rd_hasReadSegment := False, rd_startOffset := from, rd_endOffset := until\<rparr> in
     if from < b_standardChunkSetOffset r
     then (configureStartState (r\<lparr>b_dataOffset := 0\<rparr>))\<lparr>rd_currentChunkSetIndex := 0\<rparr>
     else
       let count = (from - b_standardChunkSetOffset r) div b_standardChunkSetDataSize r;
           r1 = r\<lparr>b_dataOffset := b_standardChunkSetOffset r + count * b_standardChunkSetDataSize r\<rparr>
       in (if from < b_endChunkSetDataOffset r1 then configureMiddleState r1 else configureEndState r1)
            \<lparr>rd_currentChunkSetIndex := Suc count\<rparr>)"

section \<open>One chunk set\<close>

definition sliceOverlapsRange :: "nat \<Rightarrow> nat \<Rightarrow> 's reader \<Rightarrow> bool" where
  "sliceOverlapsRange i c r \<longleftrightarrow>
     b_dataOffset r + i * c < rd_endOffset r \<and> rd_startOffset r < b_dataOffset r + i * c + c"

fun read_each :: "'s slice_read \<Rightarrow> nat \<Rightarrow> nat \<Rightarrow> nat list \<Rightarrow> 's list \<Rightarrow> (nat \<times> (js_error + bytes)) list \<times> 's list" where
  "read_each rdc j c [] ss = ([], ss)"
| "read_each rdc j c (i # is) ss =
     (case rdc j c (ss ! i) of (res, s) \<Rightarrow>
      (case read_each rdc j c is (ss[i := s]) of (rs, ss') \<Rightarrow> ((i, res) # rs, ss')))"

text \<open>What is done with the settled reads: the reader, the sources so far and whether one is missing.\<close>

fun take_results :: "nat \<Rightarrow> (nat \<times> (js_error + bytes)) list \<Rightarrow> 's reader \<times> nat list \<times> bool
    \<Rightarrow> js_error option \<times> 's reader \<times> nat list \<times> bool" where
  "take_results c [] st = (None, st)"
| "take_results c ((i, Inr b) # rs) (r, srcs, missing) =
     take_results c rs (r\<lparr>b_chunkSetBuffer := buf_copy (b_chunkSetBuffer r) (i * c) b\<rparr>, srcs @ [i], missing)"
| "take_results c ((i, Inl e) # rs) (r, srcs, missing) =
     (if isIOAbortError e then (Some e, r, srcs, missing)
      else take_results c rs (handleSliceFault i e r, srcs, True))"

text \<open>The loop over the available parity slices.\<close>

fun read_parity :: "'s slice_read \<Rightarrow> 's slice_op \<Rightarrow> nat \<Rightarrow> nat \<Rightarrow> nat list \<Rightarrow> 's reader \<times> nat list
    \<Rightarrow> js_error option \<times> 's reader \<times> nat list" where
  "read_parity rdc opn j c [] st = (None, st)"
| "read_parity rdc opn j c (i # is) (r, srcs) =
     (if b_dataSliceCount r \<le> length srcs then (None, r, srcs)
      else if i \<in> set (rd_failedSlices r) then read_parity rdc opn j c is (r, srcs)
      else case ensureSliceOpen opn i r of
        (Some e, r1) \<Rightarrow>
          if isIOAbortError e then (Some e, r1, srcs) else read_parity rdc opn j c is (handleSliceFault i e r1, srcs)
      | (None, r1) \<Rightarrow>
          (case rdc j c (rd_slices r1 ! i) of
             (Inr b, s) \<Rightarrow> read_parity rdc opn j c is
               (r1\<lparr>rd_slices := (rd_slices r1)[i := s], b_chunkSetBuffer := buf_copy (b_chunkSetBuffer r1) (i * c) b\<rparr>, srcs @ [i])
           | (Inl e, s) \<Rightarrow>
               let r2 = r1\<lparr>rd_slices := (rd_slices r1)[i := s]\<rparr> in
               if isIOAbortError e then (Some e, r2, srcs)
               else read_parity rdc opn j c is (handleSliceFault i e r2, srcs)))"

definition assembleDataRegion ::
  "'s slice_read \<Rightarrow> 's slice_op \<Rightarrow> rs_encode \<Rightarrow> bool \<Rightarrow> 's reader \<Rightarrow> js_error option \<times> 's reader" where
  "assembleDataRegion rdc opn enc fullRegion r =
    (if b_chunkSetBuffer r = [] then (Some (plain_error ''chunk set buffer not initialized''), r)
     else
       let j = rd_currentChunkSetIndex r; c = b_chunkDataSize r; d = b_dataSliceCount r;
           needed = filter (\<lambda>i. fullRegion \<or> sliceOverlapsRange i c r) [0..<d];
           attempts = filter (\<lambda>i. i \<notin> set (rd_failedSlices r)) needed;
           missing0 = list_ex (\<lambda>i. i \<in> set (rd_failedSlices r)) needed
       in case read_each rdc j c attempts (rd_slices r) of (rs, ss) \<Rightarrow>
          (case take_results c rs (r\<lparr>rd_slices := ss\<rparr>, [], missing0) of
             (Some e, r1, _, _) \<Rightarrow> (Some e, r1)
           | (None, r1, srcs, missing) \<Rightarrow>
             if \<not> missing then (None, r1)
             else
               let remaining = filter (\<lambda>i. i \<notin> set srcs \<and> i \<notin> set attempts \<and> i \<notin> set (rd_failedSlices r1)) [0..<d] in
               (case read_each rdc j c remaining (rd_slices r1) of (rs2, ss2) \<Rightarrow>
                (case take_results c rs2 (r1\<lparr>rd_slices := ss2\<rparr>, srcs, True) of
                   (Some e, r2, _, _) \<Rightarrow> (Some e, r2)
                 | (None, r2, srcs2, _) \<Rightarrow>
                   (case read_parity rdc opn j c (rd_availableParityIdxs r2) (r2, srcs2) of
                      (Some e, r3, _) \<Rightarrow> (Some e, r3)
                    | (None, r3, srcs3) \<Rightarrow>
                      if length srcs3 < d then (Some quorumError, r3)
                      else
                        let r4 = r3\<lparr>b_rsSourcesBits := bits_from srcs3,
                                     b_rsTargetsBits := bits_from (filter (\<lambda>i. i \<notin> set srcs3) [0..<d])\<rparr>
                        in (case computeParity enc r4 of Inl e \<Rightarrow> (Some e, r4) | Inr r5 \<Rightarrow> (None, r5)))))))"

definition advanceChunkSet :: "'s reader \<Rightarrow> js_error option \<times> 's reader" where
  "advanceChunkSet r =
    (let r1 = r\<lparr>b_dataOffset := b_dataOffset r + b_chunkSetDataSize r,
                 rd_currentChunkSetIndex := Suc (rd_currentChunkSetIndex r)\<rparr>
     in if b_dataOffset r1 = b_nextChunkGroupOffset r1
        then (case configureNextChunkGroup r1 of Inl e \<Rightarrow> (Some e, r1) | Inr r2 \<Rightarrow> (None, r2))
        else (None, r1))"

definition readNextChunkSet ::
  "'s slice_read \<Rightarrow> 's slice_op \<Rightarrow> rs_encode \<Rightarrow> 's reader \<Rightarrow> (js_error + bytes) \<times> 's reader" where
  "readNextChunkSet rdc opn enc r =
    (case assembleDataRegion rdc opn enc False r of (Some e, r1) \<Rightarrow> (Inl e, r1)
     | (None, r1) \<Rightarrow>
       let data = buf_slice (b_chunkSetBuffer r1) 0 (b_chunkSetDataSize r1) in
       (case advanceChunkSet r1 of (Some e, r2) \<Rightarrow> (Inl e, r2) | (None, r2) \<Rightarrow> (Inr data, r2)))"

definition reader_readChunk ::
  "'s slice_read \<Rightarrow> 's slice_op \<Rightarrow> rs_encode \<Rightarrow> 's reader \<Rightarrow> (js_error + bytes option) \<times> 's reader" where
  "reader_readChunk rdc opn enc r =
    (if rd_hasReadSegment r then (Inr None, r)
     else if rd_endOffset r \<le> rd_startOffset r \<or> rd_endOffset r \<le> b_dataOffset r
       then (Inr None, r\<lparr>rd_hasReadSegment := True\<rparr>)
     else
       let readOffset = b_dataOffset r in
       case readNextChunkSet rdc opn enc r of (Inl e, r1) \<Rightarrow> (Inl e, r1)
       | (Inr data, r1) \<Rightarrow>
         if readOffset < rd_startOffset r1 \<and> b_dataOffset r1 < rd_startOffset r1
         then (Inl (plain_error ''reader not properly aligned to start chunk''), r1)
         else
           let data1 = (if readOffset < rd_startOffset r1 then drop (rd_startOffset r1 - readOffset) data else data);
               data2 = take (length data1 - (b_dataOffset r1 - rd_endOffset r1)) data1
           in (Inr (Some data2), if rd_endOffset r1 \<le> b_dataOffset r1 then r1\<lparr>rd_hasReadSegment := True\<rparr> else r1))"

definition hasReachedEOF :: "'s reader \<Rightarrow> bool" where
  "hasReachedEOF r \<longleftrightarrow> b_size r \<le> b_dataOffset r"

section \<open>Repair and verification hooks\<close>

definition reconstructFullChunkSet ::
  "'s slice_read \<Rightarrow> 's slice_op \<Rightarrow> rs_encode \<Rightarrow> 's reader \<Rightarrow> (js_error + (bytes \<times> nat) option) \<times> 's reader" where
  "reconstructFullChunkSet rdc opn enc r =
    (if hasReachedEOF r then (Inr None, r)
     else
       let c = b_chunkDataSize r in
       case assembleDataRegion rdc opn enc True r of (Some e, r1) \<Rightarrow> (Inl e, r1)
       | (None, r1) \<Rightarrow>
         let r1' = r1\<lparr>b_rsSourcesBits := bits_from [0..<b_dataSliceCount r1],
              b_rsTargetsBits := bits_from [b_dataSliceCount r1..<totalSlices r1]\<rparr> in
         (case computeParity enc r1' of
            Inl e \<Rightarrow> (Inl e, r1')
          | Inr r2 \<Rightarrow>
            let snapshot = buf_slice (b_chunkSetBuffer r2) 0 (totalSlices r2 * c) in
            (case advanceChunkSet r2 of (Some e, r3) \<Rightarrow> (Inl e, r3) | (None, r3) \<Rightarrow> (Inr (Some (snapshot, c)), r3))))"

record parity_check =
  pc_mismatched :: "nat list"
  pc_missing :: "nat list"
  pc_dataIncomplete :: bool
  pc_dataRegion :: bytes
  pc_chunkDataSize :: nat
  pc_parityErrors :: "(nat \<times> string) list"

text \<open>Reading the stored parity chunks; an error is remembered with its code.\<close>

fun read_stored_parity :: "'s slice_read \<Rightarrow> 's slice_op \<Rightarrow> nat \<Rightarrow> nat \<Rightarrow> nat list \<Rightarrow> 's reader
    \<Rightarrow> (nat \<times> (js_error + bytes)) list \<times> 's reader" where
  "read_stored_parity rdc opn j c [] r = ([], r)"
| "read_stored_parity rdc opn j c (i # is) r =
     (case (case ensureSliceOpen opn i r of
              (Some e, r1) \<Rightarrow> (Inl e, r1)
            | (None, r1) \<Rightarrow>
              (case rdc j c (rd_slices r1 ! i) of (res, s) \<Rightarrow> (res, r1\<lparr>rd_slices := (rd_slices r1)[i := s]\<rparr>))) of
        (res, r2) \<Rightarrow> (case read_stored_parity rdc opn j c is r2 of (rs, r3) \<Rightarrow> ((i, res) # rs, r3)))"

definition verifyChunkSetParity ::
  "'s slice_read \<Rightarrow> 's slice_op \<Rightarrow> rs_encode \<Rightarrow> 's reader \<Rightarrow> (js_error + parity_check option) \<times> 's reader" where
  "verifyChunkSetParity rdc opn enc r =
    (if hasReachedEOF r then (Inr None, r)
     else
       case read_stored_parity rdc opn (rd_currentChunkSetIndex r) (b_chunkDataSize r)
              [b_dataSliceCount r..<totalSlices r] r of (stored, r1) \<Rightarrow>
       (case reconstructFullChunkSet rdc opn enc r1 of
          (Inl e, r2) \<Rightarrow> (Inl e, r2)
        | (Inr None, r2) \<Rightarrow> (Inr None, r2)
        | (Inr (Some (buffer, c)), r2) \<Rightarrow>
          let incomplete = list_ex (\<lambda>i. i \<in> set (rd_failedSlices r2)) [0..<b_dataSliceCount r2] in
          (Inr (Some \<lparr>
             pc_mismatched = List.map_filter (\<lambda>(i, res). case res of Inl _ \<Rightarrow> None
               | Inr b \<Rightarrow> if \<not> incomplete \<and> b \<noteq> buf_slice buffer (i * c) (i * c + c) then Some i else None) stored,
             pc_missing = List.map_filter (\<lambda>(i, res). case res of Inl _ \<Rightarrow> Some i | Inr _ \<Rightarrow> None) stored,
             pc_dataIncomplete = incomplete,
             pc_dataRegion = buf_slice buffer 0 (b_dataSliceCount r2 * c),
             pc_chunkDataSize = c,
             pc_parityErrors = List.map_filter (\<lambda>(i, res). case res of Inr _ \<Rightarrow> None
               | Inl e \<Rightarrow> Some (i, case err_code e of None \<Rightarrow> ''EPARITYREAD'' | Some k \<Rightarrow> k)) stored\<rparr>), r2)))"

text \<open>\<open>close\<close>: errors of the slices' own close are only logged.\<close>

fun close_each :: "'s slice_op \<Rightarrow> nat list \<Rightarrow> 's list \<Rightarrow> 's list" where
  "close_each cls [] ss = ss"
| "close_each cls (i # is) ss = close_each cls is (ss[i := snd (cls (ss ! i))])"

definition reader_close :: "'s slice_op \<Rightarrow> 's reader \<Rightarrow> 's reader" where
  "reader_close cls r = r\<lparr>rd_hasReadSegment := True, rd_slices := close_each cls (rd_openSliceIdxs r) (rd_slices r)\<rparr>"

text \<open>\<open>_quorumDetails\<close>, with the volume of a slice given by \<open>vol\<close>.\<close>

record quorum_details =
  qd_requiredSlices :: nat
  qd_availableSlices :: nat
  qd_totalSlices :: nat
  qd_chunkIndex :: nat
  qd_availableSliceIndexes :: "nat list"
  qd_missingSliceIndexes :: "nat list"
  qd_failedSliceIndexes :: "nat list"
  qd_missingVolumeIds :: "nat list"
  qd_failedVolumeIds :: "nat list"

definition volumeIdForSlice :: "nat list \<Rightarrow> nat list \<Rightarrow> nat \<Rightarrow> 's reader \<Rightarrow> nat option" where
  "volumeIdForSlice dataVols parityVols i r =
    (if i < b_dataSliceCount r then (if i < length dataVols then Some (dataVols ! i) else None)
     else let k = i - b_dataSliceCount r in if k < length parityVols then Some (parityVols ! k) else None)"

definition uniqueVolumeIds :: "(nat \<Rightarrow> nat option) \<Rightarrow> nat list \<Rightarrow> nat list" where
  "uniqueVolumeIds vol is = sort (remdups (List.map_filter vol is))"

definition quorumDetails :: "(nat \<Rightarrow> nat option) \<Rightarrow> nat list option \<Rightarrow> 's reader \<Rightarrow> quorum_details" where
  "quorumDetails vol sources r =
    (let all = [0..<totalSlices r];
         available = (case sources of Some s \<Rightarrow> sort s | None \<Rightarrow> filter (\<lambda>i. i \<notin> set (rd_failedSlices r)) all);
         missing = filter (\<lambda>i. i \<notin> set available) all;
         failed = sort (rd_failedSlices r)
     in \<lparr>qd_requiredSlices = b_dataSliceCount r, qd_availableSlices = length available, qd_totalSlices = totalSlices r,
         qd_chunkIndex = rd_currentChunkSetIndex r, qd_availableSliceIndexes = available, qd_missingSliceIndexes = missing,
         qd_failedSliceIndexes = failed, qd_missingVolumeIds = uniqueVolumeIds vol missing,
         qd_failedVolumeIds = uniqueVolumeIds vol failed\<rparr>)"

section \<open>What the reader needs of a slice\<close>

text \<open>
  \<open>good cs s\<close>: every read of chunk \<open>j\<close> that passes its checksum gives \<open>cs ! j\<close>. \<open>live cs s\<close>: the slice can
  be opened; \<open>opened cs s\<close>: and then every chunk can be read. \<open>calm s\<close>: its errors are not a shutdown.
\<close>

locale slice_source =
  fixes rdc :: "'s slice_read" and opn :: "'s slice_op"
    and good :: "bytes list \<Rightarrow> 's \<Rightarrow> bool" and live :: "bytes list \<Rightarrow> 's \<Rightarrow> bool"
    and opened :: "bytes list \<Rightarrow> 's \<Rightarrow> bool" and calm :: "'s \<Rightarrow> bool"
  assumes read_good: "good cs s \<Longrightarrow> j < length cs \<Longrightarrow> rdc j (length (cs ! j)) s = (res, s') \<Longrightarrow>
      good cs s' \<and> (\<forall>b. res = Inr b \<longrightarrow> b = cs ! j)"
    and open_good: "good cs s \<Longrightarrow> opn s = (r, s') \<Longrightarrow> good cs s'"
    and open_live: "live cs s \<Longrightarrow> \<exists>s'. opn s = (None, s') \<and> opened cs s'"
    and read_opened: "opened cs s \<Longrightarrow> j < length cs \<Longrightarrow> \<exists>s'. rdc j (length (cs ! j)) s = (Inr (cs ! j), s') \<and> opened cs s'"
    and open_calm: "calm s \<Longrightarrow> opn s = (r, s') \<Longrightarrow> calm s' \<and> (\<forall>e. r = Some e \<longrightarrow> \<not> isIOAbortError e)"
    and read_calm: "calm s \<Longrightarrow> rdc j c s = (res, s') \<Longrightarrow> calm s' \<and> (\<forall>e. res = Inl e \<longrightarrow> \<not> isIOAbortError e)"

definition slice_chunks :: "(bytes \<Rightarrow> bytes) \<Rightarrow> base \<Rightarrow> bytes \<Rightarrow> nat \<Rightarrow> bytes list" where
  "slice_chunks par g P i = map (slice_chunk par g P i) [0..<set_count g]"

text \<open>The reader without the fields that reading a chunk set may change.\<close>

definition pos_of :: "'s reader \<Rightarrow> 's reader" where
  "pos_of r = r\<lparr>b_chunkSetBuffer := [], b_rsSourcesBits := 0, b_rsTargetsBits := 0, rd_slices := [],
     rd_openSliceIdxs := [], rd_failedSlices := [], rd_faultCounts := (\<lambda>_. 0), rd_reports := []\<rparr>"

definition steady :: "'s reader \<Rightarrow> 's reader \<Rightarrow> bool" where
  "steady r r' \<longleftrightarrow> length (b_chunkSetBuffer r') = length (b_chunkSetBuffer r) \<and>
     length (rd_slices r') = length (rd_slices r) \<and> pos_of r' = pos_of r"

lemma steady_refl [simp]: "steady r r" by (simp add: steady_def)

lemma steady_trans: "steady a b \<Longrightarrow> steady b c \<Longrightarrow> steady a c" by (simp add: steady_def)

lemma steadyD:
  assumes "steady r r'"
  shows "geom r' = geom r" "configured r' k = configured r k" "b_dataOffset r' = b_dataOffset r"
    "rd_currentChunkSetIndex r' = rd_currentChunkSetIndex r" "rd_startOffset r' = rd_startOffset r"
    "rd_endOffset r' = rd_endOffset r" "rd_hasReadSegment r' = rd_hasReadSegment r"
    "rd_availableParityIdxs r' = rd_availableParityIdxs r" "b_chunkDataSize r' = b_chunkDataSize r"
    "b_chunkSetDataSize r' = b_chunkSetDataSize r" "b_dataSliceCount r' = b_dataSliceCount r"
    "b_paritySliceCount r' = b_paritySliceCount r" "length (b_chunkSetBuffer r') = length (b_chunkSetBuffer r)"
    "length (rd_slices r') = length (rd_slices r)" "b_nextChunkGroupOffset r' = b_nextChunkGroupOffset r"
proof -
  have p: "pos_of r' = pos_of r" using assms by (simp add: steady_def)
  have sel: "geom (pos_of s) = geom s" "configured (pos_of s) k = configured s k" "b_dataOffset (pos_of s) = b_dataOffset s"
    "rd_currentChunkSetIndex (pos_of s) = rd_currentChunkSetIndex s" "rd_startOffset (pos_of s) = rd_startOffset s"
    "rd_endOffset (pos_of s) = rd_endOffset s" "rd_hasReadSegment (pos_of s) = rd_hasReadSegment s"
    "rd_availableParityIdxs (pos_of s) = rd_availableParityIdxs s" "b_chunkDataSize (pos_of s) = b_chunkDataSize s"
    "b_chunkSetDataSize (pos_of s) = b_chunkSetDataSize s" "b_dataSliceCount (pos_of s) = b_dataSliceCount s"
    "b_paritySliceCount (pos_of s) = b_paritySliceCount s" "b_nextChunkGroupOffset (pos_of s) = b_nextChunkGroupOffset s"
    for s :: "'s reader"
    by (simp_all add: pos_of_def geom_def configured_def csize_def group_end_def)
  show "geom r' = geom r" "configured r' k = configured r k" "b_dataOffset r' = b_dataOffset r"
    "rd_currentChunkSetIndex r' = rd_currentChunkSetIndex r" "rd_startOffset r' = rd_startOffset r"
    "rd_endOffset r' = rd_endOffset r" "rd_hasReadSegment r' = rd_hasReadSegment r"
    "rd_availableParityIdxs r' = rd_availableParityIdxs r" "b_chunkDataSize r' = b_chunkDataSize r"
    "b_chunkSetDataSize r' = b_chunkSetDataSize r" "b_dataSliceCount r' = b_dataSliceCount r"
    "b_paritySliceCount r' = b_paritySliceCount r" "b_nextChunkGroupOffset r' = b_nextChunkGroupOffset r"
    using sel [of r] sel [of r'] p by metis+
qed (use assms in \<open>simp_all add: steady_def\<close>)

lemma steady_upd:
  "length bf = length (b_chunkSetBuffer r) \<Longrightarrow> steady r (r\<lparr>b_chunkSetBuffer := bf\<rparr>)"
  "length ss = length (rd_slices r) \<Longrightarrow> steady r (r\<lparr>rd_slices := ss\<rparr>)"
  "steady r (handleSliceFault i e r)" "steady r (r\<lparr>b_rsSourcesBits := x, b_rsTargetsBits := y\<rparr>)"
  "steady r (r\<lparr>rd_openSliceIdxs := op\<rparr>)"
  by (simp_all add: steady_def pos_of_def handleSliceFault_def Let_def)

section \<open>Chunk sets in the buffer\<close>

lemma shard_buf_copy:
  assumes "length b = c" "(i + 1) * c \<le> length buf"
  shows "shard c k (buf_copy buf (i * c) b) = (if k = i \<and> 0 < c then b else shard c k buf)"
proof (cases "c = 0")
  case False
  have lb: "length (buf_copy buf (i * c) b) = length buf" using assms by simp
  consider "k < i" | "k = i" | "i < k" by linarith
  then show ?thesis
  proof cases
    case 1
    then have "Suc k * c \<le> i * c" by (intro mult_le_mono1) simp
    then have le: "(k + 1) * c \<le> i * c" by simp
    then have "shard c k (buf_copy buf (i * c) b) = shard c k (take (i * c) (buf_copy buf (i * c) b))"
      by (simp add: shard_take)
    also have "\<dots> = shard c k (take (i * c) buf)" using assms by (simp add: take_buf_copy)
    also have "\<dots> = shard c k buf" using le by (simp add: shard_take)
    finally show ?thesis using 1 by simp
  next
    case 2
    then show ?thesis using assms False by (simp add: shard_def buf_copy_def)
  next
    case 3
    then have "Suc i * c \<le> k * c" by (intro mult_le_mono1) simp
    then show ?thesis using 3 assms by (simp add: shard_def drop_buf_copy)
  qed
qed (simp add: shard_def buf_copy_def)

text \<open>The library call, on whatever \<open>d\<close> or more chunks of a chunk set are in the buffer.\<close>

lemma computeParity_gen:
  assumes job: "write_job g par enc P" and k: "k < set_count g" and "geom w = geom g" and cfg: "configured w k"
    and buf: "length (b_chunkSetBuffer w) = b_standardChunkDataSize g * totalSlices g"
    and bits: "b_rsSourcesBits w = bits_from S" "b_rsTargetsBits w = bits_from T"
    and S: "distinct S" "set S \<subseteq> {..<totalSlices g}" "b_dataSliceCount g \<le> length S"
    and T: "set T \<subseteq> {..<totalSlices g}" "set S \<inter> set T = {}"
    and agree: "\<And>i. i \<in> set S \<Longrightarrow> shard (csize g k) i (b_chunkSetBuffer w) = slice_chunk par g P i k"
  shows "\<exists>buf. computeParity enc w = Inr (w\<lparr>b_chunkSetBuffer := buf\<rparr>) \<and> length buf = length (b_chunkSetBuffer w) \<and>
    (\<forall>i < totalSlices g. shard (csize g k) i buf =
       (if i \<in> set T then slice_chunk par g P i k else shard (csize g k) i (b_chunkSetBuffer w)))"
proof -
  let ?d = "b_dataSliceCount g" and ?p = "b_paritySliceCount g" and ?c = "csize g k" and ?X = "cset g P k"
  let ?B = "b_chunkSetBuffer w"
  have ok: "base_ok g" and law: "rs_law ?d ?p enc par" and lenP: "length P = coff g (set_count g)"
    using job by (simp_all add: write_job_def)
  have X: "length ?X = ?d * ?c"
    using length_cset [of g k P] coff_mono [of "Suc k" "set_count g" g] k lenP by (simp add: mult.commute)
  note gs = geom_spec [OF assms(3)]
  have n: "totalSlices g \<le> 32" using ok by (simp add: base_ok_def)
  have fit: "?c * totalSlices g \<le> length ?B" using csize_le [OF ok] buf by simp
  have fit': "(i + 1) * ?c \<le> totalSlices g * ?c" if "i < totalSlices g" for i using that by (intro mult_le_mono1) simp
  define inp where "inp = buf_slice ?B 0 (?c * ?d)"
  define out where "out = buf_slice ?B (?c * ?d) (?c * ?d + ?c * ?p)"
  have io: "inp @ out = take (?c * totalSlices g) ?B"
    by (simp add: inp_def out_def buf_slice_def distrib_left take_add)
  have len: "length inp = ?d * ?c" "length out = ?p * ?c" using fit by (simp_all add: inp_def out_def algebra_simps)
  have shio: "shard ?c i (inp @ out) = shard ?c i ?B" if "i < totalSlices g" for i
    unfolding io using fit' [OF that] by (intro shard_take) (simp add: mult.commute)
  have sets: "shard_set (?d + ?p) (b_rsSourcesBits w) = set S" "shard_set (?d + ?p) (b_rsTargetsBits w) = set T"
    using n S(2) T(1) by (auto simp: shard_set_bits_from bits)
  obtain inp' out' where enc: "enc (b_rsSourcesBits w) (b_rsTargetsBits w) inp out = Inr (inp', out')"
    and len': "length inp' = ?d * ?c" "length out' = ?p * ?c"
    and sh: "\<And>i. i < ?d + ?p \<Longrightarrow> shard ?c i (inp' @ out') =
         (if i \<in> shard_set (?d + ?p) (b_rsTargetsBits w) then shard ?c i (?X @ par ?X) else shard ?c i (inp @ out))"
  proof (rule rs_lawD [OF law csize_pos [OF ok k] csize_dvd [OF ok] X len, of "b_rsSourcesBits w" "b_rsTargetsBits w"])
    show "shard ?c i (inp @ out) = shard ?c i (?X @ par ?X)" if "i \<in> shard_set (?d + ?p) (b_rsSourcesBits w)" for i
      using that agree [of i] S(2) shio [of i] by (auto simp: sets slice_chunk_def)
  qed (use S T(2) in \<open>simp_all add: sets distinct_card\<close>)
  let ?buf = "buf_copy (buf_copy ?B 0 inp') (?c * ?d) out'"
  have tk: "take (?c * totalSlices g) ?buf = inp' @ out'" using fit len' by (simp add: buf_copy_def algebra_simps)
  have "shard ?c i ?buf = shard ?c i (inp' @ out')" if "i < totalSlices g" for i
    unfolding tk [symmetric] using fit' [OF that] by (intro shard_take [symmetric]) (simp add: mult.commute)
  then have "\<forall>i < totalSlices g. shard ?c i ?buf = (if i \<in> set T then slice_chunk par g P i k else shard ?c i ?B)"
    using sh shio by (simp add: sets slice_chunk_def)
  moreover have "computeParity enc w = Inr (w\<lparr>b_chunkSetBuffer := ?buf\<rparr>)"
    using cfg enc by (simp add: computeParity_def Let_def configured_def gs inp_def out_def)
  moreover have "length ?buf = length ?B" using fit len' by (simp add: buf_copy_def algebra_simps)
  ultimately show ?thesis by blast
qed

section \<open>Reading a chunk set\<close>

text \<open>The chunks of the given slices are in the buffer.\<close>

definition in_buffer :: "(bytes \<Rightarrow> bytes) \<Rightarrow> base \<Rightarrow> bytes \<Rightarrow> nat \<Rightarrow> nat list \<Rightarrow> 's reader \<Rightarrow> bool" where
  "in_buffer par g P k srcs r \<longleftrightarrow> (\<forall>i \<in> set srcs. shard (csize g k) i (b_chunkSetBuffer r) = slice_chunk par g P i k)"

definition all_good :: "(bytes list \<Rightarrow> 's \<Rightarrow> bool) \<Rightarrow> (bytes \<Rightarrow> bytes) \<Rightarrow> base \<Rightarrow> bytes \<Rightarrow> 's reader \<Rightarrow> bool" where
  "all_good good par g P r \<longleftrightarrow> length (rd_slices r) = totalSlices g \<and>
     (\<forall>i < totalSlices g. good (slice_chunks par g P i) (rd_slices r ! i))"

text \<open>The slices \<open>A\<close> stay readable: not given up, and open unless they are parity.\<close>

definition keeps :: "(bytes list \<Rightarrow> 's \<Rightarrow> bool) \<Rightarrow> (bytes list \<Rightarrow> 's \<Rightarrow> bool) \<Rightarrow> ('s \<Rightarrow> bool) \<Rightarrow> (bytes \<Rightarrow> bytes)
    \<Rightarrow> base \<Rightarrow> bytes \<Rightarrow> nat set \<Rightarrow> 's reader \<Rightarrow> bool" where
  "keeps live opened calm par g P A r \<longleftrightarrow> (\<forall>i < totalSlices g. calm (rd_slices r ! i)) \<and>
     (\<forall>i \<in> A. i \<notin> set (rd_failedSlices r) \<and>
        (if i \<in> set (rd_openSliceIdxs r) then opened (slice_chunks par g P i) (rd_slices r ! i)
         else b_dataSliceCount g \<le> i \<and> live (slice_chunks par g P i) (rd_slices r ! i)))"

lemma chunk_length:
  assumes "write_job g par enc P" "k < set_count g" "i < totalSlices g"
  shows "length (slice_chunk par g P i k) = csize g k" "k < length (slice_chunks par g P i)"
    "slice_chunks par g P i ! k = slice_chunk par g P i k"
proof -
  let ?d = "b_dataSliceCount g" and ?p = "b_paritySliceCount g" and ?c = "csize g k" and ?X = "cset g P k"
  have law: "rs_law ?d ?p enc par" and lenP: "length P = coff g (set_count g)"
    using assms(1) by (simp_all add: write_job_def)
  have X: "length ?X = ?d * ?c"
    using length_cset [of g k P] coff_mono [of "Suc k" "set_count g" g] assms(2) lenP by (simp add: mult.commute)
  then have "length (?X @ par ?X) = totalSlices g * ?c" using law by (simp add: rs_law_def add_mult_distrib)
  moreover have "(i + 1) * ?c \<le> totalSlices g * ?c" using assms(3) by (intro mult_le_mono1) simp
  ultimately show "length (slice_chunk par g P i k) = ?c" by (simp add: slice_chunk_def length_shard)
  show "k < length (slice_chunks par g P i)" "slice_chunks par g P i ! k = slice_chunk par g P i k"
    using assms(2) by (simp_all add: slice_chunks_def)
qed

lemma in_buffer_simps [simp]:
  "in_buffer par g P k srcs (r\<lparr>rd_slices := ss\<rparr>) = in_buffer par g P k srcs r"
  "in_buffer par g P k srcs (handleSliceFault i e r) = in_buffer par g P k srcs r"
  "in_buffer par g P k srcs (r\<lparr>rd_openSliceIdxs := op\<rparr>) = in_buffer par g P k srcs r"
  "in_buffer par g P k [] r"
  by (simp_all add: in_buffer_def handleSliceFault_def Let_def)

lemma all_good_simps [simp]:
  "all_good good par g P (r\<lparr>b_chunkSetBuffer := bf\<rparr>) = all_good good par g P r"
  "all_good good par g P (handleSliceFault i e r) = all_good good par g P r"
  "all_good good par g P (r\<lparr>rd_openSliceIdxs := op\<rparr>) = all_good good par g P r"
  by (simp_all add: all_good_def handleSliceFault_def Let_def)

lemma in_buffer_copy:
  assumes "in_buffer par g P k srcs r" "b = slice_chunk par g P i k" "length b = csize g k"
    and "(i + 1) * csize g k \<le> length (b_chunkSetBuffer r)"
  shows "in_buffer par g P k (srcs @ [i]) (r\<lparr>b_chunkSetBuffer := buf_copy (b_chunkSetBuffer r) (i * csize g k) b\<rparr>)"
proof -
  have "shard (csize g k) j (buf_copy (b_chunkSetBuffer r) (i * csize g k) b) = slice_chunk par g P j k"
    if "j \<in> set (srcs @ [i])" for j
    using that assms(1-3) unfolding shard_buf_copy [OF assms(3,4)]
    by (cases "csize g k = 0") (auto simp: in_buffer_def shard_def)
  then show ?thesis by (simp add: in_buffer_def)
qed

lemma keeps_fault: "i \<notin> A \<Longrightarrow> keeps lv op cl par g P A r \<Longrightarrow> keeps lv op cl par g P A (handleSliceFault i e r)"
  by (auto simp: keeps_def handleSliceFault_def Let_def)

lemma keeps_buffer [simp]: "keeps lv op cl par g P A (r\<lparr>b_chunkSetBuffer := bf\<rparr>) = keeps lv op cl par g P A r"
  by (simp add: keeps_def)

text \<open>Settled reads that are right where they succeeded.\<close>

definition results_ok :: "(bytes \<Rightarrow> bytes) \<Rightarrow> base \<Rightarrow> bytes \<Rightarrow> nat \<Rightarrow> (nat \<times> (js_error + bytes)) list \<Rightarrow> bool" where
  "results_ok par g P k rs \<longleftrightarrow>
     (\<forall>(i, res) \<in> set rs. i < totalSlices g \<and> (\<forall>b. res = Inr b \<longrightarrow> b = slice_chunk par g P i k))"

definition results_live :: "nat set \<Rightarrow> (nat \<times> (js_error + bytes)) list \<Rightarrow> bool" where
  "results_live A rs \<longleftrightarrow> (\<forall>(i, res) \<in> set rs. \<forall>e. res = Inl e \<longrightarrow> \<not> isIOAbortError e \<and> i \<notin> A)"

lemma take_results_ok:
  assumes job: "write_job g par enc P" and k: "k < set_count g"
    and "length (b_chunkSetBuffer r) = b_standardChunkDataSize g * totalSlices g"
    and "results_ok par g P k rs" "in_buffer par g P k srcs r"
    and "take_results (csize g k) rs (r, srcs, m) = (out, r', srcs', m')"
  shows "steady r r' \<and> rd_slices r' = rd_slices r \<and> rd_openSliceIdxs r' = rd_openSliceIdxs r \<and>
    in_buffer par g P k srcs' r' \<and>
    (out = None \<longrightarrow> srcs' = srcs @ map fst (filter (\<lambda>(i, res). \<exists>b. res = Inr b) rs) \<and>
      (m' \<longleftrightarrow> m \<or> (\<exists>(i, res) \<in> set rs. \<exists>e. res = Inl e))) \<and>
    (results_live A rs \<and> keeps lv op cl par g P A r \<longrightarrow> out = None \<and> keeps lv op cl par g P A r')"
  using assms(3-)
proof (induction "csize g k" rs "(r, srcs, m)" arbitrary: r srcs m rule: take_results.induct)
  case (1 r srcs m)
  then show ?case by auto
next
  case (2 i b rs r srcs missing)
  let ?c = "csize g k"
  have i: "i < totalSlices g" "b = slice_chunk par g P i k" using 2 by (auto simp: results_ok_def)
  have ok: "base_ok g" using job by (simp add: write_job_def)
  have "(i + 1) * ?c \<le> totalSlices g * b_standardChunkDataSize g"
    using i(1) csize_le [OF ok] by (intro mult_le_mono) simp_all
  then have fit: "(i + 1) * ?c \<le> length (b_chunkSetBuffer r)" using 2(2) by (simp add: mult.commute)
  have lb: "length b = ?c" using chunk_length(1) [OF job k i(1)] i(2) by simp
  let ?r = "r\<lparr>b_chunkSetBuffer := buf_copy (b_chunkSetBuffer r) (i * ?c) b\<rparr>"
  have "length (buf_copy (b_chunkSetBuffer r) (i * ?c) b) = length (b_chunkSetBuffer r)" using fit by simp
  then have st: "steady r ?r" by (rule steady_upd(1))
  have "in_buffer par g P k (srcs @ [i]) ?r" by (rule in_buffer_copy [OF 2(4) i(2) lb fit])
  then have "steady ?r r' \<and> rd_slices r' = rd_slices ?r \<and> rd_openSliceIdxs r' = rd_openSliceIdxs ?r \<and>
    in_buffer par g P k srcs' r' \<and>
    (out = None \<longrightarrow> srcs' = (srcs @ [i]) @ map fst (filter (\<lambda>(i, res). \<exists>b. res = Inr b) rs) \<and>
      (m' \<longleftrightarrow> missing \<or> (\<exists>(i, res) \<in> set rs. \<exists>e. res = Inl e))) \<and>
    (results_live A rs \<and> keeps lv op cl par g P A ?r \<longrightarrow> out = None \<and> keeps lv op cl par g P A r')"
    using 2 fit by (intro 2(1)) (auto simp: results_ok_def)
  then show ?case using st by (auto simp: results_live_def dest: steady_trans)
next
  case (3 i e rs r srcs missing)
  show ?case
  proof (cases "isIOAbortError e")
    case True
    then show ?thesis using 3 by (auto simp: results_live_def)
  next
    case False
    let ?r = "handleSliceFault i e r"
    have st: "steady r ?r" by (rule steady_upd(3))
    have fr: "rd_slices ?r = rd_slices r" "rd_openSliceIdxs ?r = rd_openSliceIdxs r"
      by (simp_all add: handleSliceFault_def Let_def)
    have "steady ?r r' \<and> rd_slices r' = rd_slices ?r \<and> rd_openSliceIdxs r' = rd_openSliceIdxs ?r \<and>
      in_buffer par g P k srcs' r' \<and>
      (out = None \<longrightarrow> srcs' = srcs @ map fst (filter (\<lambda>(i, res). \<exists>b. res = Inr b) rs) \<and>
        (m' \<longleftrightarrow> True \<or> (\<exists>(i, res) \<in> set rs. \<exists>e. res = Inl e))) \<and>
      (results_live A rs \<and> keeps lv op cl par g P A ?r \<longrightarrow> out = None \<and> keeps lv op cl par g P A r')"
      using 3 False steadyD(13) [OF st] by (intro 3(1)) (auto simp: results_ok_def)
    then show ?thesis using st fr keeps_fault [of i A lv op cl par g P r e]
      by (auto simp: results_live_def dest: steady_trans)
  qed
qed

text \<open>The reader at chunk set \<open>k\<close>.\<close>

definition reader_at :: "(bytes list \<Rightarrow> 's \<Rightarrow> bool) \<Rightarrow> (bytes \<Rightarrow> bytes) \<Rightarrow> base \<Rightarrow> bytes \<Rightarrow> nat \<Rightarrow> 's reader \<Rightarrow> bool" where
  "reader_at good par g P k r \<longleftrightarrow> geom r = geom g \<and> configured r k \<and> rd_currentChunkSetIndex r = k \<and>
     length (b_chunkSetBuffer r) = b_standardChunkDataSize g * totalSlices g \<and> all_good good par g P r \<and>
     distinct (rd_availableParityIdxs r) \<and> set (rd_availableParityIdxs r) \<subseteq> {b_dataSliceCount g..<totalSlices g}"

definition quorum :: "base \<Rightarrow> nat set \<Rightarrow> 's reader \<Rightarrow> bool" where
  "quorum g A r \<longleftrightarrow> A \<subseteq> {..<totalSlices g} \<and> b_dataSliceCount g \<le> card A \<and>
     A \<inter> {b_dataSliceCount g..<totalSlices g} \<subseteq> set (rd_availableParityIdxs r)"

lemma keeps_slices:
  "keeps lv op cl par g P A (r\<lparr>rd_slices := ss\<rparr>) \<longleftrightarrow> (\<forall>i < totalSlices g. cl (ss ! i)) \<and>
     (\<forall>i \<in> A. i \<notin> set (rd_failedSlices r) \<and>
        (if i \<in> set (rd_openSliceIdxs r) then op (slice_chunks par g P i) (ss ! i)
         else b_dataSliceCount g \<le> i \<and> lv (slice_chunks par g P i) (ss ! i)))"
  by (simp add: keeps_def)

context slice_source
begin

lemma read_step:
  assumes job: "write_job g par enc P" and k: "k < set_count g" and i: "i < totalSlices g"
    and all: "all_good good par g P r" and res: "rdc k (csize g k) (rd_slices r ! i) = (res, s)"
  shows "all_good good par g P (r\<lparr>rd_slices := (rd_slices r)[i := s]\<rparr>)" "\<forall>b. res = Inr b \<longrightarrow> b = slice_chunk par g P i k"
    "keeps live opened calm par g P A r \<Longrightarrow> i \<in> set (rd_openSliceIdxs r) \<or> i \<notin> A \<Longrightarrow>
      keeps live opened calm par g P A (r\<lparr>rd_slices := (rd_slices r)[i := s]\<rparr>) \<and> (\<forall>e. res = Inl e \<longrightarrow> \<not> isIOAbortError e \<and> i \<notin> A)"
proof -
  note cl = chunk_length [OF job k i]
  have len: "length (rd_slices r) = totalSlices g" and gd: "good (slice_chunks par g P i) (rd_slices r ! i)"
    using all i by (simp_all add: all_good_def)
  have rd: "rdc k (length (slice_chunks par g P i ! k)) (rd_slices r ! i) = (res, s)" using res cl by simp
  show "\<forall>b. res = Inr b \<longrightarrow> b = slice_chunk par g P i k" using read_good [OF gd cl(2) rd] cl(3) by simp
  show "all_good good par g P (r\<lparr>rd_slices := (rd_slices r)[i := s]\<rparr>)"
    using all i read_good [OF gd cl(2) rd] by (auto simp: all_good_def nth_list_update)
  assume kp: "keeps live opened calm par g P A r" and o: "i \<in> set (rd_openSliceIdxs r) \<or> i \<notin> A"
  have calm: "calm s \<and> (\<forall>e. res = Inl e \<longrightarrow> \<not> isIOAbortError e)"
    using kp i read_calm [OF _ res] by (simp add: keeps_def)
  have op: "opened (slice_chunks par g P i) s \<and> res = Inr (slice_chunk par g P i k)" if "i \<in> A"
    using that kp o read_opened [of "slice_chunks par g P i" "rd_slices r ! i" k] cl rd by (fastforce simp: keeps_def)
  have "keeps live opened calm par g P A (r\<lparr>rd_slices := (rd_slices r)[i := s]\<rparr>)"
    unfolding keeps_slices using kp calm op o i len by (auto simp: keeps_def nth_list_update)
  then show "keeps live opened calm par g P A (r\<lparr>rd_slices := (rd_slices r)[i := s]\<rparr>) \<and>
      (\<forall>e. res = Inl e \<longrightarrow> \<not> isIOAbortError e \<and> i \<notin> A)" using calm op by auto
qed

lemma read_each_ok:
  assumes job: "write_job g par enc P" and k: "k < set_count g" and "set is \<subseteq> {..<totalSlices g}"
    and "all_good good par g P r" and "read_each rdc k (csize g k) is (rd_slices r) = (rs, ss)"
  shows "all_good good par g P (r\<lparr>rd_slices := ss\<rparr>) \<and> map fst rs = is \<and> results_ok par g P k rs \<and>
    (keeps live opened calm par g P A r \<and> set is \<inter> A \<subseteq> set (rd_openSliceIdxs r) \<longrightarrow>
      keeps live opened calm par g P A (r\<lparr>rd_slices := ss\<rparr>) \<and> results_live A rs)"
  using assms(3-)
proof (induction "is" arbitrary: r rs ss)
  case Nil
  then show ?case by (auto simp: results_ok_def results_live_def)
next
  case (Cons i "is")
  obtain res s where rd: "rdc k (csize g k) (rd_slices r ! i) = (res, s)" by (cases "rdc k (csize g k) (rd_slices r ! i)") auto
  obtain rs' where rs: "read_each rdc k (csize g k) is ((rd_slices r)[i := s]) = (rs', ss)" "rs = (i, res) # rs'"
    using Cons.prems(3) rd by (auto split: prod.splits)
  let ?r = "r\<lparr>rd_slices := (rd_slices r)[i := s]\<rparr>"
  have i: "i < totalSlices g" using Cons.prems(1) by simp
  note st = read_step [OF job k i Cons.prems(2) rd]
  have "all_good good par g P (?r\<lparr>rd_slices := ss\<rparr>) \<and> map fst rs' = is \<and> results_ok par g P k rs' \<and>
    (keeps live opened calm par g P A ?r \<and> set is \<inter> A \<subseteq> set (rd_openSliceIdxs ?r) \<longrightarrow>
      keeps live opened calm par g P A (?r\<lparr>rd_slices := ss\<rparr>) \<and> results_live A rs')"
    using Cons.prems(1) rs(1) st(1) by (intro Cons.IH) auto
  then show ?case using st(2) st(3) [of A] i rs(2)
    by (auto simp: results_ok_def results_live_def)
qed

lemma ensureSliceOpen_ok:
  assumes i: "i < totalSlices g" and all: "all_good good par g P r" and res: "ensureSliceOpen opn i r = (out, r')"
  shows "steady r r' \<and> all_good good par g P r' \<and> b_chunkSetBuffer r' = b_chunkSetBuffer r \<and>
    rd_failedSlices r' = rd_failedSlices r \<and> (out = None \<longrightarrow> i \<in> set (rd_openSliceIdxs r')) \<and>
    (keeps live opened calm par g P A r \<longrightarrow> keeps live opened calm par g P A r' \<and>
      (\<forall>e. out = Some e \<longrightarrow> \<not> isIOAbortError e \<and> i \<notin> A))"
proof (cases "i \<in> set (rd_openSliceIdxs r)")
  case True
  then show ?thesis using res all by (auto simp: ensureSliceOpen_def)
next
  case False
  obtain o1 s where o: "opn (rd_slices r ! i) = (o1, s)" by (cases "opn (rd_slices r ! i)") auto
  have len: "length (rd_slices r) = totalSlices g" and gd: "good (slice_chunks par g P i) (rd_slices r ! i)"
    using all i by (simp_all add: all_good_def)
  define r1 where "r1 = r\<lparr>rd_slices := (rd_slices r)[i := s]\<rparr>"
  have out: "out = o1" and r': "r' = (if o1 = None then r1\<lparr>rd_openSliceIdxs := rd_openSliceIdxs r @ [i]\<rparr> else r1)"
    using res False o by (auto simp: ensureSliceOpen_def r1_def split: option.splits)
  have "steady r r1" unfolding r1_def by (rule steady_upd(2)) simp
  then have st: "steady r r'" using steady_upd(5) [of r1] steady_trans by (auto simp: r')
  have g1: "all_good good par g P r1" using all i open_good [OF gd o] by (auto simp: all_good_def r1_def nth_list_update)
  have kp: "keeps live opened calm par g P A r' \<and> (\<forall>e. out = Some e \<longrightarrow> \<not> isIOAbortError e \<and> i \<notin> A)"
    if k: "keeps live opened calm par g P A r"
  proof -
    have c: "calm s \<and> (\<forall>e. o1 = Some e \<longrightarrow> \<not> isIOAbortError e)" using k i open_calm [OF _ o] by (simp add: keeps_def)
    have a: "o1 = None \<and> opened (slice_chunks par g P i) s" if "i \<in> A"
      using that k False open_live [of "slice_chunks par g P i" "rd_slices r ! i"] o by (fastforce simp: keeps_def)
    show ?thesis
    proof (cases o1)
      case None
      then show ?thesis using k c a out i len False by (auto simp: keeps_def r' r1_def nth_list_update)
    next
      case (Some e)
      then show ?thesis using k c a out i len False by (auto simp: keeps_def r' r1_def nth_list_update)
    qed
  qed
  show ?thesis using st g1 kp out by (auto simp: r' r1_def)
qed

definition parity_post :: "(bytes \<Rightarrow> bytes) \<Rightarrow> base \<Rightarrow> bytes \<Rightarrow> nat \<Rightarrow> nat set \<Rightarrow> nat list \<Rightarrow> 's reader \<Rightarrow> nat list
    \<Rightarrow> js_error option \<Rightarrow> 's reader \<Rightarrow> nat list \<Rightarrow> bool" where
  "parity_post par g P k A is r srcs out r' srcs' \<longleftrightarrow>
     steady r r' \<and> all_good good par g P r' \<and> in_buffer par g P k srcs' r' \<and>
     (out = None \<longrightarrow> distinct srcs' \<and> set srcs \<subseteq> set srcs' \<and> set srcs' \<subseteq> set srcs \<union> set is) \<and>
     (keeps live opened calm par g P A r \<longrightarrow> out = None \<and> keeps live opened calm par g P A r' \<and>
       (length srcs' < b_dataSliceCount g \<longrightarrow> A \<inter> set is \<subseteq> set srcs'))"

lemma parity_post_step:
  assumes "parity_post par g P k A is r1 srcs1 out r' srcs'" and "steady r r1"
    and "set srcs \<subseteq> set srcs1" "set srcs1 \<subseteq> set srcs \<union> {i}"
    and "keeps live opened calm par g P A r \<Longrightarrow> keeps live opened calm par g P A r1 \<and> (i \<in> A \<longrightarrow> i \<in> set srcs1)"
  shows "parity_post par g P k A (i # is) r srcs out r' srcs'"
proof -
  note p = assms(1) [unfolded parity_post_def]
  have "A \<inter> set (i # is) \<subseteq> set srcs'"
    if "keeps live opened calm par g P A r" "length srcs' < b_dataSliceCount g"
    using that assms(5) p by auto
  then show ?thesis using p assms(2-5) steady_trans [of r r1 r'] unfolding parity_post_def by auto
qed

lemma read_parity_ok:
  assumes job: "write_job g par enc P" and k: "k < set_count g"
    and "geom r = geom g" "length (b_chunkSetBuffer r) = b_standardChunkDataSize g * totalSlices g"
    and "all_good good par g P r" "in_buffer par g P k srcs r" "distinct srcs"
    and "distinct is" "set is \<subseteq> {b_dataSliceCount g..<totalSlices g}" "set is \<inter> set srcs = {}"
    and "read_parity rdc opn k (csize g k) is (r, srcs) = (out, r', srcs')"
  shows "parity_post par g P k A is r srcs out r' srcs'"
  using assms(3-)
proof (induction "is" arbitrary: r srcs)
  case Nil
  then show ?case by (auto simp: parity_post_def)
next
  case (Cons i "is")
  let ?c = "csize g k"
  have ok: "base_ok g" using job by (simp add: write_job_def)
  have d: "b_dataSliceCount r = b_dataSliceCount g" using geom_spec(8) [OF Cons.prems(1)] .
  have i: "i < totalSlices g" using Cons.prems(7) by auto
  show ?case
  proof (cases "b_dataSliceCount g \<le> length srcs \<or> i \<in> set (rd_failedSlices r)")
    case True
    show ?thesis
    proof (cases "b_dataSliceCount g \<le> length srcs")
      case True
      then show ?thesis using Cons.prems d by (auto simp: parity_post_def)
    next
      case False
      then have "read_parity rdc opn k ?c is (r, srcs) = (out, r', srcs')" using Cons.prems(9) True d by simp
      then have "parity_post par g P k A is r srcs out r' srcs'"
        using Cons.prems by (intro Cons.IH) auto
      then show ?thesis by (rule parity_post_step) (use True False in \<open>auto simp: keeps_def\<close>)
    qed
  next
    case False
    obtain o1 r1 where o: "ensureSliceOpen opn i r = (o1, r1)" by (cases "ensureSliceOpen opn i r") auto
    note op = ensureSliceOpen_ok [OF i Cons.prems(3) o, of A]
    have st1: "steady r r1" and b1: "b_chunkSetBuffer r1 = b_chunkSetBuffer r" using op by auto
    note sd = steadyD [OF st1]
    show ?thesis
    proof (cases o1)
      case (Some e)
      show ?thesis
      proof (cases "isIOAbortError e")
        case True
        then show ?thesis using Cons.prems False d o Some op b1 by (auto simp: parity_post_def in_buffer_def)
      next
        case na: False
        let ?r2 = "handleSliceFault i e r1"
        have st2: "steady r ?r2" using st1 steady_upd(3) steady_trans by blast
        have "read_parity rdc opn k ?c is (?r2, srcs) = (out, r', srcs')"
          using Cons.prems(9) False d o Some na by simp
        moreover have "in_buffer par g P k srcs ?r2" using Cons.prems(4) b1 by (simp add: in_buffer_def handleSliceFault_def Let_def)
        ultimately have "parity_post par g P k A is ?r2 srcs out r' srcs'"
          using Cons.prems op steadyD(1,13) [OF st2] by (intro Cons.IH) auto
        then show ?thesis by (rule parity_post_step) (use st2 op Some keeps_fault in \<open>auto\<close>)
      qed
    next
      case None
      obtain res s where rd: "rdc k ?c (rd_slices r1 ! i) = (res, s)" by (cases "rdc k ?c (rd_slices r1 ! i)") auto
      let ?r2 = "r1\<lparr>rd_slices := (rd_slices r1)[i := s]\<rparr>"
      have ag: "all_good good par g P r1" and open1: "i \<in> set (rd_openSliceIdxs r1)" using op None by auto
      note rs = read_step [OF job k i ag rd]
      have st2: "steady r ?r2" using st1 steady_upd(2) [of "(rd_slices r1)[i := s]" r1] steady_trans by simp blast
      have kp2: "keeps live opened calm par g P A r \<Longrightarrow> keeps live opened calm par g P A ?r2 \<and>
          (\<forall>e. res = Inl e \<longrightarrow> \<not> isIOAbortError e \<and> i \<notin> A)" using op rs(3) [of A] open1 by auto
      have ib2: "in_buffer par g P k srcs ?r2" using Cons.prems(4) b1 by (simp add: in_buffer_def)
      show ?thesis
      proof (cases res)
        case (Inl e)
        show ?thesis
        proof (cases "isIOAbortError e")
          case True
          then have "(out, r', srcs') = (Some e, ?r2, srcs)" using Cons.prems(9) False d o None rd Inl by simp
          then show ?thesis using True Inl st2 rs(1) ib2 kp2 by (auto simp: parity_post_def)
        next
          case na: False
          let ?r3 = "handleSliceFault i e ?r2"
          have st3: "steady r ?r3" using st2 steady_upd(3) steady_trans by blast
          have "read_parity rdc opn k ?c is (?r3, srcs) = (out, r', srcs')"
            using Cons.prems(9) False d o None rd Inl na by (simp add: Let_def)
          then have "parity_post par g P k A is ?r3 srcs out r' srcs'"
            using Cons.prems ib2 rs(1) steadyD(1,13) [OF st3] by (intro Cons.IH) auto
          then show ?thesis by (rule parity_post_step) (use st3 kp2 Inl keeps_fault in \<open>auto\<close>)
        qed
      next
        case (Inr b)
        let ?r3 = "?r2\<lparr>b_chunkSetBuffer := buf_copy (b_chunkSetBuffer r1) (i * ?c) b\<rparr>"
        have b: "b = slice_chunk par g P i k" "length b = ?c" using rs(2) Inr chunk_length(1) [OF job k i] by auto
        have "(i + 1) * ?c \<le> totalSlices g * b_standardChunkDataSize g"
          using i csize_le [OF ok] by (intro mult_le_mono) simp_all
        then have fit: "(i + 1) * ?c \<le> length (b_chunkSetBuffer ?r2)" using Cons.prems(2) b1 by (simp add: mult.commute)
        then have "steady ?r2 ?r3" by (intro steady_upd(1)) simp
        then have st3: "steady r ?r3" using st2 steady_trans by blast
        have ib3: "in_buffer par g P k (srcs @ [i]) ?r3" using in_buffer_copy [OF ib2 b fit] by simp
        have "read_parity rdc opn k ?c is (?r3, srcs @ [i]) = (out, r', srcs')"
          using Cons.prems(9) False d o None rd Inr by simp
        moreover have "distinct (srcs @ [i])" "set is \<inter> set (srcs @ [i]) = {}" using Cons.prems(5,6,8) by auto
        ultimately have "parity_post par g P k A is ?r3 (srcs @ [i]) out r' srcs'"
          using Cons.prems ib3 rs(1) steadyD(1,13) [OF st3] by (intro Cons.IH) auto
        then show ?thesis by (rule parity_post_step) (use st3 kp2 in \<open>auto\<close>)
      qed
    qed
  qed
qed

lemma succeeded_iff:
  "i \<in> set (map fst (filter (\<lambda>(i, res). \<exists>b. res = Inr b) rs)) \<longleftrightarrow> (\<exists>b. (i, Inr b) \<in> set rs)"
  by force

lemma failed_iff: "(\<exists>(i, res) \<in> set rs. \<exists>e. res = Inl e) \<longleftrightarrow> (\<exists>i e. (i, Inl e) \<in> set rs)"
  by force

lemma read_or_fail: "map fst rs = is \<Longrightarrow> i \<in> set is \<Longrightarrow> (\<exists>b. (i, Inr b) \<in> set rs) \<or> (\<exists>e. (i, Inl e) \<in> set rs)"
proof -
  assume "map fst rs = is" "i \<in> set is"
  then obtain res where "(i, res) \<in> set rs" by force
  then show ?thesis by (cases res) auto
qed

text \<open>From enough sources the missing data chunks are computed.\<close>

lemma fill_missing:
  assumes job: "write_job g par enc P" and k: "k < set_count g" and g: "geom r = geom g" and cfg: "configured r k"
    and lb: "length (b_chunkSetBuffer r) = b_standardChunkDataSize g * totalSlices g"
    and ib: "in_buffer par g P k srcs r" and d: "distinct srcs" "set srcs \<subseteq> {..<totalSlices g}"
    and n: "b_dataSliceCount g \<le> length srcs"
  defines "r4 \<equiv> r\<lparr>b_rsSourcesBits := bits_from srcs,
      b_rsTargetsBits := bits_from (filter (\<lambda>i. i \<notin> set srcs) [0..<b_dataSliceCount g])\<rparr>"
  shows "\<exists>r5. computeParity enc r4 = Inr r5 \<and> steady r r5 \<and> rd_slices r5 = rd_slices r \<and>
    rd_openSliceIdxs r5 = rd_openSliceIdxs r \<and> rd_failedSlices r5 = rd_failedSlices r \<and>
    (\<forall>i < b_dataSliceCount g. shard (csize g k) i (b_chunkSetBuffer r5) = slice_chunk par g P i k)"
proof -
  have st4: "steady r r4" unfolding r4_def by (rule steady_upd(4))
  note sd = steadyD [OF st4]
  obtain buf where b: "computeParity enc r4 = Inr (r4\<lparr>b_chunkSetBuffer := buf\<rparr>)" "length buf = length (b_chunkSetBuffer r4)"
    "\<forall>i < totalSlices g. shard (csize g k) i buf =
       (if i \<in> set (filter (\<lambda>i. i \<notin> set srcs) [0..<b_dataSliceCount g]) then slice_chunk par g P i k
        else shard (csize g k) i (b_chunkSetBuffer r4))"
  proof -
    have "geom r4 = geom g" "configured r4 k" "length (b_chunkSetBuffer r4) = b_standardChunkDataSize g * totalSlices g"
      using sd(1,2,13) g cfg lb by simp_all
    moreover have "b_rsSourcesBits r4 = bits_from srcs"
      "b_rsTargetsBits r4 = bits_from (filter (\<lambda>i. i \<notin> set srcs) [0..<b_dataSliceCount g])" by (simp_all add: r4_def)
    moreover have "shard (csize g k) i (b_chunkSetBuffer r4) = slice_chunk par g P i k" if "i \<in> set srcs" for i
      using ib that by (simp add: r4_def in_buffer_def)
    ultimately show thesis
      using computeParity_gen [OF job k _ _ _ _ _ d n, of r4 "filter (\<lambda>i. i \<notin> set srcs) [0..<b_dataSliceCount g]"] that
      by fastforce
  qed
  have "steady r4 (r4\<lparr>b_chunkSetBuffer := buf\<rparr>)" using b(2) by (rule steady_upd(1))
  then have "steady r (r4\<lparr>b_chunkSetBuffer := buf\<rparr>)" using st4 steady_trans by blast
  moreover have "\<forall>i < b_dataSliceCount g. shard (csize g k) i buf = slice_chunk par g P i k"
    using b(3) ib by (auto simp: r4_def in_buffer_def)
  ultimately show ?thesis using b(1) by (intro exI [of _ "r4\<lparr>b_chunkSetBuffer := buf\<rparr>"]) (simp add: r4_def)
qed

lemma assemble_ok:
  assumes job: "write_job g par enc P" and k: "k < set_count g" and at: "reader_at good par g P k r"
    and res: "assembleDataRegion rdc opn enc full r = (out, r')"
  shows "steady r r' \<and> all_good good par g P r' \<and>
    (out = None \<longrightarrow> (\<forall>i < b_dataSliceCount g. full \<or> sliceOverlapsRange i (csize g k) r \<longrightarrow>
       shard (csize g k) i (b_chunkSetBuffer r') = slice_chunk par g P i k)) \<and>
    (keeps live opened calm par g P A r \<and> quorum g A r \<longrightarrow> out = None \<and> keeps live opened calm par g P A r')"
proof -
  let ?c = "csize g k" and ?d = "b_dataSliceCount g"
  have ok: "base_ok g" using job by (simp add: write_job_def)
  have g: "geom r = geom g" and cfg: "configured r k" and idx: "rd_currentChunkSetIndex r = k"
    and lb: "length (b_chunkSetBuffer r) = b_standardChunkDataSize g * totalSlices g" and ag: "all_good good par g P r"
    and par: "distinct (rd_availableParityIdxs r)" "set (rd_availableParityIdxs r) \<subseteq> {?d..<totalSlices g}"
    using at by (simp_all add: reader_at_def)
  note gs = geom_spec [OF g]
  have c: "b_chunkDataSize r = ?c" using cfg by (simp add: configured_def gs)
  have ne: "b_chunkSetBuffer r \<noteq> []" using lb ok by (auto simp: base_ok_def)
  define needed where "needed = filter (\<lambda>i. full \<or> sliceOverlapsRange i ?c r) [0..<?d]"
  define attempts where "attempts = filter (\<lambda>i. i \<notin> set (rd_failedSlices r)) needed"
  define missing0 where "missing0 = list_ex (\<lambda>i. i \<in> set (rd_failedSlices r)) needed"
  obtain rs ss where R: "read_each rdc k ?c attempts (rd_slices r) = (rs, ss)" by fastforce
  have att: "set attempts \<subseteq> {..<totalSlices g}" "set attempts \<subseteq> {..<?d}" "distinct attempts"
    by (auto simp: attempts_def needed_def)
  have opA: "set is \<inter> A \<subseteq> set (rd_openSliceIdxs r)" if "keeps live opened calm par g P A r" "set is \<subseteq> {..<?d}" for "is"
    using that by (fastforce simp: keeps_def split: if_splits)
  note E1 = read_each_ok [OF job k att(1) ag R, of A]
  define r0 where "r0 = r\<lparr>rd_slices := ss\<rparr>"
  have st0: "steady r r0" unfolding r0_def using E1 ag by (intro steady_upd(2)) (simp add: all_good_def)
  obtain o1 r1 srcs m where T: "take_results ?c rs (r0, [], missing0) = (o1, r1, srcs, m)"
    by (cases "take_results ?c rs (r0, [], missing0)") auto
  have lb0: "length (b_chunkSetBuffer r0) = b_standardChunkDataSize g * totalSlices g" using lb by (simp add: r0_def)
  have rsok: "results_ok par g P k rs" and mrs: "map fst rs = attempts" using E1 by auto
  note T1 = take_results_ok [OF job k lb0 rsok in_buffer_simps(4) T, where A = A and lv = live and op = opened and cl = calm]
  have st1: "steady r r1" using st0 T1 steady_trans by blast
  note sd1 = steadyD [OF st1]
  have ag1: "all_good good par g P r1" using T1 E1 by (simp add: all_good_def r0_def)
  have k1: "keeps live opened calm par g P A r \<Longrightarrow> o1 = None \<and> keeps live opened calm par g P A r1 \<and> results_live A rs"
    using E1 opA [OF _ att(2)] T1 by (auto simp: r0_def)
  show ?thesis
  proof (cases o1)
    case (Some e)
    then have "out = Some e" "r' = r1"
      using res ne T R by (auto simp: assembleDataRegion_def Let_def idx c gs needed_def attempts_def missing0_def r0_def)
    then show ?thesis using Some st1 ag1 k1 by auto
  next
    case o1: None
    have e1: "srcs = map fst (filter (\<lambda>(i, res). \<exists>b. res = Inr b) rs)"
      and e2: "m \<longleftrightarrow> missing0 \<or> (\<exists>(i, res) \<in> set rs. \<exists>e. res = Inl e)" using T1 o1 by auto
    have srcs: "set srcs = {i. \<exists>b. (i, Inr b) \<in> set rs}" unfolding e1 using succeeded_iff [of _ rs] by blast
    have m: "m \<longleftrightarrow> missing0 \<or> (\<exists>i e. (i, Inl e) \<in> set rs)" unfolding e2 failed_iff ..
    have dsrcs: "distinct srcs" unfolding e1 using att(3) mrs by (auto intro: distinct_map_filter)
    have sub: "set srcs \<subseteq> set attempts" using srcs mrs by force
    have ib1: "in_buffer par g P k srcs r1" using T1 by blast
    show ?thesis
    proof (cases m)
      case False
      then have "out = None" "r' = r1"
        using res ne T R o1 by (auto simp: assembleDataRegion_def Let_def idx c gs needed_def attempts_def missing0_def r0_def)
      moreover have "set needed \<subseteq> set srcs"
        using False m srcs read_or_fail [OF mrs] by (force simp: missing0_def attempts_def list_ex_iff)
      then have "\<forall>i < ?d. full \<or> sliceOverlapsRange i ?c r \<longrightarrow> shard ?c i (b_chunkSetBuffer r1) = slice_chunk par g P i k"
        using ib1 by (auto simp: in_buffer_def needed_def)
      ultimately show ?thesis using st1 ag1 k1 by auto
    next
      case m: True
      define remaining where "remaining = filter (\<lambda>i. i \<notin> set srcs \<and> i \<notin> set attempts \<and> i \<notin> set (rd_failedSlices r1)) [0..<?d]"
      have rem: "set remaining \<subseteq> {..<totalSlices g}" "set remaining \<subseteq> {..<?d}" "distinct remaining" "set remaining \<inter> set srcs = {}"
        by (auto simp: remaining_def)
      obtain rs2 ss2 where R2: "read_each rdc k ?c remaining (rd_slices r1) = (rs2, ss2)" by fastforce
      note E2 = read_each_ok [OF job k rem(1) ag1 R2, of A]
      define r10 where "r10 = r1\<lparr>rd_slices := ss2\<rparr>"
      have st10: "steady r1 r10" unfolding r10_def using E2 ag1 by (intro steady_upd(2)) (simp add: all_good_def)
      obtain o2 r2 srcs2 m2 where T2: "take_results ?c rs2 (r10, srcs, True) = (o2, r2, srcs2, m2)"
        by (cases "take_results ?c rs2 (r10, srcs, True)") auto
      have lb10: "length (b_chunkSetBuffer r10) = b_standardChunkDataSize g * totalSlices g" using sd1(13) lb by (simp add: r10_def)
      have rsok2: "results_ok par g P k rs2" and mrs2: "map fst rs2 = remaining" using E2 by auto
      have ib10: "in_buffer par g P k srcs r10" using ib1 by (simp add: r10_def)
      note T2' = take_results_ok [OF job k lb10 rsok2 ib10 T2, where A = A and lv = live and op = opened and cl = calm]
      have st2: "steady r r2" using st1 st10 T2' steady_trans by blast
      note sd2 = steadyD [OF st2]
      have ag2: "all_good good par g P r2" using T2' E2 by (simp add: all_good_def r10_def)
      have op1: "set (rd_openSliceIdxs r1) = set (rd_openSliceIdxs r)" using T1 by (simp add: r0_def)
      have k2: "keeps live opened calm par g P A r \<Longrightarrow> o2 = None \<and> keeps live opened calm par g P A r2 \<and> results_live A rs2"
        using k1 E2 opA [OF _ rem(2)] op1 T2' by (auto simp: r10_def)
      have unf: "assembleDataRegion rdc opn enc full r = (case o2 of Some e \<Rightarrow> (Some e, r2) | None \<Rightarrow>
          (case read_parity rdc opn k ?c (rd_availableParityIdxs r2) (r2, srcs2) of
             (Some e, r3, _) \<Rightarrow> (Some e, r3)
           | (None, r3, srcs3) \<Rightarrow> if length srcs3 < ?d then (Some quorumError, r3)
              else (let r4 = r3\<lparr>b_rsSourcesBits := bits_from srcs3,
                    b_rsTargetsBits := bits_from (filter (\<lambda>i. i \<notin> set srcs3) [0..<?d])\<rparr>
                 in (case computeParity enc r4 of Inl e \<Rightarrow> (Some e, r4) | Inr r5 \<Rightarrow> (None, r5)))))"
        using ne T R o1 m R2 T2
        by (auto simp: assembleDataRegion_def Let_def idx c gs needed_def attempts_def missing0_def r0_def r10_def
            remaining_def split: option.split)
      show ?thesis
      proof (cases o2)
        case (Some e)
        then show ?thesis using unf res st2 ag2 k2 by auto
      next
        case o2: None
        have srcs2: "srcs2 = srcs @ map fst (filter (\<lambda>(i, res). \<exists>b. res = Inr b) rs2)" using T2' o2 by blast
        have s2: "set srcs2 = set srcs \<union> {i. \<exists>b. (i, Inr b) \<in> set rs2}"
          unfolding srcs2 set_append using succeeded_iff [of _ rs2] by blast
        define F where "F = map fst (filter (\<lambda>(i, res). \<exists>b. res = Inr b) rs2)"
        have F: "set F \<subseteq> set remaining" "distinct F"
          using mrs2 rem(3) by (force simp: F_def, auto simp: F_def intro: distinct_map_filter)
        have dist2: "distinct srcs2" "set srcs2 \<subseteq> {..<?d}"
          unfolding srcs2 F_def [symmetric] using F dsrcs sub att(2) rem(2,4) by auto
        have ib2: "in_buffer par g P k srcs2 r2" using T2' by blast
        obtain o3 r3 srcs3 where P3: "read_parity rdc opn k ?c (rd_availableParityIdxs r2) (r2, srcs2) = (o3, r3, srcs3)"
          by (cases "read_parity rdc opn k ?c (rd_availableParityIdxs r2) (r2, srcs2)") auto
        have post: "parity_post par g P k A (rd_availableParityIdxs r2) r2 srcs2 o3 r3 srcs3"
        proof (rule read_parity_ok [OF job k _ _ ag2 ib2 dist2(1) _ _ _ P3])
          show "set (rd_availableParityIdxs r2) \<inter> set srcs2 = {}"
            using par(2) dist2(2) unfolding sd2(8) by fastforce
        qed (use sd2(1,8,13) lb g par in simp_all)
        note post = post [unfolded parity_post_def]
        have st3: "steady r r3" using st2 post steady_trans by blast
        note sd3 = steadyD [OF st3]
        have k3: "keeps live opened calm par g P A r \<Longrightarrow> o3 = None \<and> keeps live opened calm par g P A r3" using k2 post by blast
        show ?thesis
        proof (cases o3)
          case (Some e)
          then show ?thesis using unf res o2 P3 st3 post k3 by auto
        next
          case o3: None
          have enough: "?d \<le> length srcs3" if kp: "keeps live opened calm par g P A r" and q: "quorum g A r"
          proof (rule ccontr)
            assume "\<not> ?d \<le> length srcs3"
            then have parA: "A \<inter> set (rd_availableParityIdxs r) \<subseteq> set srcs3" using post k2 kp sd2(8) by auto
            have "i \<in> set srcs3" if "i \<in> A" for i
            proof (cases "i < ?d")
              case True
              have nf: "i \<notin> set (rd_failedSlices r1)" using k1 [OF kp] that by (auto simp: keeps_def)
              have "i \<in> set srcs2"
              proof (cases "i \<in> set attempts")
                case True
                have "\<not> (\<exists>e. (i, Inl e) \<in> set rs)" using k1 [OF kp] that unfolding results_live_def by blast
                then show ?thesis using read_or_fail [OF mrs True] srcs s2 by blast
              next
                case False
                then have "i \<in> set remaining" using nf True sub by (auto simp: remaining_def)
                moreover have "\<not> (\<exists>e. (i, Inl e) \<in> set rs2)" using k2 [OF kp] that unfolding results_live_def by blast
                ultimately show ?thesis using read_or_fail [OF mrs2] s2 by blast
              qed
              then show ?thesis using post o3 by blast
            next
              case False
              moreover have "i < totalSlices g" using q that by (auto simp: quorum_def)
              ultimately have "i \<in> set (rd_availableParityIdxs r)" using q that unfolding quorum_def by force
              then show ?thesis using that parA by blast
            qed
            then have "card A \<le> card (set srcs3)" by (intro card_mono) auto
            also have "\<dots> \<le> length srcs3" by (rule card_length)
            finally show False using \<open>\<not> ?d \<le> length srcs3\<close> q by (simp add: quorum_def)
          qed
          show ?thesis
          proof (cases "length srcs3 < ?d")
            case True
            then show ?thesis using unf res o2 o3 P3 st3 post enough by auto
          next
            case False
            have "set srcs3 \<subseteq> {..<totalSlices g}" using post o3 dist2(2) par(2) sd2(8) by fastforce
            then obtain r5 where r5: "computeParity enc (r3\<lparr>b_rsSourcesBits := bits_from srcs3,
                b_rsTargetsBits := bits_from (filter (\<lambda>i. i \<notin> set srcs3) [0..<?d])\<rparr>) = Inr r5"
              "steady r3 r5" "rd_slices r5 = rd_slices r3" "rd_openSliceIdxs r5 = rd_openSliceIdxs r3"
              "rd_failedSlices r5 = rd_failedSlices r3"
              "\<forall>i < ?d. shard ?c i (b_chunkSetBuffer r5) = slice_chunk par g P i k"
              using fill_missing [OF job k, of r3 srcs3] sd3 g cfg lb post o3 False by auto
            have "out = None" "r' = r5" using unf res o2 o3 P3 False r5(1) by (auto simp: Let_def)
            moreover have "all_good good par g P r5" using post r5(3) by (simp add: all_good_def)
            moreover have "keeps live opened calm par g P A r3 \<Longrightarrow> keeps live opened calm par g P A r5"
              using r5(3-5) by (simp add: keeps_def)
            ultimately show ?thesis using st3 r5 k3 steady_trans by blast
          qed
        qed
      qed
    qed
  qed
qed

end

end
