(* ===== verification/Object_Read.thy ===== *)
theory Object_Read
  imports Object_Reader
begin

text \<open>
  Reading a byte range of an object: the chunk sets \<open>Object_Reader\<close> assembles, trimmed and strung together
  as \<open>readChunk\<close> does, and the whole path from the files on the disks to the bytes a client gets.
\<close>

section \<open>Advancing\<close>

lemma all_good_eq: "rd_slices r' = rd_slices r \<Longrightarrow> all_good gd par g P r' = all_good gd par g P r"
  by (simp add: all_good_def)

text \<open>The reader's own fields that neither a configuration change nor a move of the offset touches.\<close>

definition same_reader :: "'s reader \<Rightarrow> 's reader \<Rightarrow> bool" where
  "same_reader r r' \<longleftrightarrow> rd_slices r' = rd_slices r \<and> rd_hasReadSegment r' = rd_hasReadSegment r \<and>
     rd_startOffset r' = rd_startOffset r \<and> rd_endOffset r' = rd_endOffset r \<and>
     rd_openSliceIdxs r' = rd_openSliceIdxs r \<and> rd_availableParityIdxs r' = rd_availableParityIdxs r \<and>
     rd_failedSlices r' = rd_failedSlices r \<and> b_chunkSetBuffer r' = b_chunkSetBuffer r"

lemma reader_more:
  assumes "base.more r' = base.more r" "b_chunkSetBuffer r' = b_chunkSetBuffer r"
  shows "same_reader r r'" "rd_currentChunkSetIndex r' = rd_currentChunkSetIndex r"
  using assms by (cases r; cases r'; simp add: same_reader_def)+

lemma keeps_same: "same_reader r r' \<Longrightarrow> keeps lv op cl par g P A r' = keeps lv op cl par g P A r"
  by (simp add: same_reader_def keeps_def)

lemma advance_ok:
  assumes ok: "base_ok g" and k: "k < set_count g" and at: "reader_at gd par g P k r"
    and off: "b_dataOffset r = coff g k" "coff g (Suc k) < MAX_SAFE_INTEGER"
  shows "\<exists>r'. advanceChunkSet r = (None, r') \<and> same_reader r r' \<and> b_dataOffset r' = coff g (Suc k) \<and> geom r' = geom g \<and>
    (Suc k < set_count g \<longrightarrow> reader_at gd par g P (Suc k) r')"
proof -
  have g: "geom r = geom g" and cfg: "configured r k" and idx: "rd_currentChunkSetIndex r = k"
    using at by (simp_all add: reader_at_def)
  define r1 where "r1 = r\<lparr>b_dataOffset := b_dataOffset r + b_chunkSetDataSize r, rd_currentChunkSetIndex := Suc k\<rparr>"
  have g1: "geom r1 = geom g" using g by (simp add: r1_def geom_def)
  note gs = geom_spec [OF g1]
  have off1: "b_dataOffset r1 = coff g (Suc k)" using cfg off geom_spec [OF g] by (simp add: r1_def configured_def)
  have cfg1: "configured r1 k" using cfg by (simp add: r1_def configured_def csize_def group_end_def)
  have idx1: "rd_currentChunkSetIndex r1 = Suc k" by (simp add: r1_def)
  have s1: "same_reader r r1" by (simp add: same_reader_def r1_def)
  obtain r2 where r2: "next_set r1 = Inr r2" "geom r2 = geom r1" "base.more r2 = base.more r1"
    "b_dataOffset r2 = b_dataOffset r1" "b_chunkSetBuffer r2 = b_chunkSetBuffer r1"
    "b_dataOffset r1 = coff r1 (Suc k) \<and> Suc k < set_count r1 \<longrightarrow> configured r2 (Suc k)"
    using next_set_configured [of r1 k] ok cfg1 k off1 off(2) gs by auto
  have fin: ?thesis if adv: "advanceChunkSet r = (None, r')" "geom r' = geom g" "same_reader r1 r'"
      "b_dataOffset r' = b_dataOffset r1" "rd_currentChunkSetIndex r' = Suc k"
      "Suc k < set_count g \<longrightarrow> configured r' (Suc k)" for r'
    using that at s1 off1 by (auto simp: reader_at_def same_reader_def all_good_def)
  show ?thesis
  proof (cases "b_dataOffset r1 = b_nextChunkGroupOffset r1")
    case True
    then have "advanceChunkSet r = (None, r2)"
      using r2(1) by (auto simp: advanceChunkSet_def next_set_def r1_def idx Let_def split: sum.splits)
    then show ?thesis
      by (rule fin) (use r2 reader_more [OF r2(3,5)] g1 off1 gs idx1 in simp_all)
  next
    case False
    then have adv: "advanceChunkSet r = (None, r1)" and "r2 = resetBufferPositions r1"
      using r2(1) by (auto simp: advanceChunkSet_def next_set_def r1_def idx Let_def)
    then have "Suc k < set_count g \<longrightarrow> configured r1 (Suc k)" using r2(6) off1 gs by (simp add: configured_reset_iff)
    then show ?thesis by (intro fin [OF adv g1 _ refl idx1]) (simp_all add: same_reader_def)
  qed
qed

section \<open>The bytes of a chunk set\<close>

abbreviation sub :: "'a list \<Rightarrow> nat \<Rightarrow> nat \<Rightarrow> 'a list" where
  "sub P a b \<equiv> take (b - a) (drop a P)"

lemma data_slice_chunk_nth:
  assumes "length P = coff g (set_count g)" "k < set_count g" "i < b_dataSliceCount g" "z < csize g k"
  shows "slice_chunk par g P i k ! z = P ! (coff g k + i * csize g k + z)"
proof -
  let ?c = "csize g k" and ?d = "b_dataSliceCount g"
  have X: "length (cset g P k) = ?c * ?d"
    using length_cset [of g k P] coff_mono [of "Suc k" "set_count g" g] assms(1,2) by simp
  have le: "i * ?c + ?c \<le> ?d * ?c" using assms(3) by (metis Suc_leI add.commute mult_Suc mult_le_mono1)
  have lt: "i * ?c + z < ?c * ?d" using le assms(4) by (simp add: mult.commute)
  have "(i + 1) * ?c \<le> length (cset g P k)" using le X by (simp add: mult.commute)
  then have "slice_chunk par g P i k ! z = cset g P k ! (i * ?c + z)"
    unfolding slice_chunk_def using assms(4) nth_drop [of "i * ?c" "cset g P k" z]
    by (subst shard_append_left) (simp_all add: shard_def)
  also have "\<dots> = P ! (coff g k + (i * ?c + z))"
    using lt coff_mono [of "Suc k" "set_count g" g] assms(1,2) by (simp add: cset_def)
  finally show ?thesis by (simp add: add.assoc)
qed

lemma data_region:
  assumes lenP: "length P = coff g (set_count g)" and k: "k < set_count g"
    and lb: "csize g k * b_dataSliceCount g \<le> length buf"
    and sh: "\<And>i. i < b_dataSliceCount g \<Longrightarrow> coff g k + i * csize g k < e \<Longrightarrow> s < coff g k + i * csize g k + csize g k \<Longrightarrow>
      shard (csize g k) i buf = slice_chunk par g P i k"
    and ab: "s \<le> a" "coff g k \<le> a" "b \<le> e" "b \<le> coff g (Suc k)"
  shows "sub (take (csize g k * b_dataSliceCount g) buf) (a - coff g k) (b - coff g k) = sub P a b"
proof (cases "a < b")
  case True
  let ?c = "csize g k" and ?d = "b_dataSliceCount g" and ?o = "coff g k"
  have bP: "b \<le> length P" using ab(4) lenP k coff_mono [of "Suc k" "set_count g" g] by simp
  have la: "b - ?o \<le> ?c * ?d" using ab(4) by simp
  show ?thesis
  proof (rule nth_equalityI)
    show "length (sub (take (?c * ?d) buf) (a - ?o) (b - ?o)) = length (sub P a b)" using bP la lb ab by simp
  next
    fix x assume "x < length (sub (take (?c * ?d) buf) (a - ?o) (b - ?o))"
    then have x: "x < b - a" using ab True by simp
    define y where "y = a - ?o + x"
    have y: "?o + y = a + x" "y < ?c * ?d" using x ab la True by (simp_all add: y_def)
    then have c: "0 < ?c" by (cases "?c = 0") auto
    define i z where "i = y div ?c" and "z = y mod ?c"
    have yi: "y = i * ?c + z" and z: "z < ?c"
      using c div_mult_mod_eq [of y ?c] by (simp_all add: i_def z_def)
    have i: "i < ?d" using y(2) by (simp add: i_def less_mult_imp_div_less mult.commute)
    have "shard ?c i buf = slice_chunk par g P i k"
      using y(1) x ab z yi True by (intro sh [OF i]) linarith+
    then have "buf ! y = slice_chunk par g P i k ! z"
      using nth_drop [of "i * ?c" buf z] nth_take [OF z, of "drop (i * ?c) buf"] lb y(2) yi by (simp add: shard_def)
    also have "\<dots> = P ! (a + x)" using data_slice_chunk_nth [OF lenP k i z] y(1) yi by (simp add: add.assoc)
    finally show "sub (take (?c * ?d) buf) (a - ?o) (b - ?o) ! x = sub P a b ! x"
      using x y bP lb ab True by (simp add: y_def)
  qed
qed (use ab in simp)

section \<open>Reading a range\<close>

text \<open>The calls of \<open>readChunk\<close> until it answers null, as \<open>FileObject._read\<close> makes them.\<close>

partial_function (option) read_to_end ::
  "'s slice_read \<Rightarrow> 's slice_op \<Rightarrow> rs_encode \<Rightarrow> 's reader \<Rightarrow> ((js_error + bytes) \<times> 's reader) option" where
  "read_to_end rdc opn enc r =
    (case reader_readChunk rdc opn enc r of
       (Inl e, r1) \<Rightarrow> Some (Inl e, r1)
     | (Inr None, r1) \<Rightarrow> Some (Inr [], r1)
     | (Inr (Some b), r1) \<Rightarrow>
         Option.bind (read_to_end rdc opn enc r1) (\<lambda>(res, r2).
           Some (case res of Inl e \<Rightarrow> (Inl e, r2) | Inr bs \<Rightarrow> (Inr (b @ bs), r2))))"

declare read_to_end.simps [code]

lemma sub_append: "a \<le> m \<Longrightarrow> m \<le> b \<Longrightarrow> sub P a m @ sub P m b = sub P a b"
proof -
  assume "a \<le> m" "m \<le> b"
  then have "b - a = (m - a) + (b - m)" "(m - a) + a = m" by simp_all
  then show ?thesis using take_add [of "m - a" "b - m" "drop a P"] by simp
qed

context slice_source
begin

lemma readChunk_ok:
  assumes job: "write_job g par enc P" and k: "k < set_count g" and at: "reader_at good par g P k r"
    and off: "b_dataOffset r = coff g k" "coff g (set_count g) < MAX_SAFE_INTEGER"
    and rng: "\<not> rd_hasReadSegment r" "rd_startOffset r < rd_endOffset r" "coff g k < rd_endOffset r"
      "rd_startOffset r < coff g (Suc k)"
    and res: "reader_readChunk rdc opn enc r = (out, r')"
  shows "(\<forall>x. out = Inr x \<longrightarrow>
      x = Some (sub P (max (rd_startOffset r) (coff g k)) (min (rd_endOffset r) (coff g (Suc k)))) \<and>
      b_dataOffset r' = coff g (Suc k) \<and> rd_startOffset r' = rd_startOffset r \<and> rd_endOffset r' = rd_endOffset r \<and>
      rd_availableParityIdxs r' = rd_availableParityIdxs r \<and>
      (rd_hasReadSegment r' \<longleftrightarrow> rd_endOffset r \<le> coff g (Suc k)) \<and>
      (Suc k < set_count g \<longrightarrow> reader_at good par g P (Suc k) r')) \<and>
    (keeps live opened calm par g P A r \<and> quorum g A r \<longrightarrow> (\<exists>x. out = Inr x) \<and> keeps live opened calm par g P A r')"
proof -
  let ?c = "csize g k" and ?d = "b_dataSliceCount g" and ?s = "rd_startOffset r" and ?e = "rd_endOffset r"
  have ok: "base_ok g" and lenP: "length P = coff g (set_count g)" using job by (simp_all add: write_job_def)
  have lbr: "length (b_chunkSetBuffer r) = b_standardChunkDataSize g * totalSlices g" using at by (simp add: reader_at_def)
  obtain o1 r1 where A1: "assembleDataRegion rdc opn enc False r = (o1, r1)"
    by (cases "assembleDataRegion rdc opn enc False r") auto
  note as = assemble_ok [OF job k at A1, of A]
  have st: "steady r r1" using as by blast
  note sd = steadyD [OF st]
  show ?thesis
  proof (cases o1)
    case (Some e)
    then have "out = Inl e" "r' = r1"
      using res rng A1 off by (auto simp: reader_readChunk_def readNextChunkSet_def Let_def)
    then show ?thesis using as Some by auto
  next
    case None
    have at1: "reader_at good par g P k r1" using at as sd by (simp add: reader_at_def)
    have fit: "?c * ?d \<le> length (b_chunkSetBuffer r1)"
      unfolding sd(13) lbr using csize_le [OF ok] by (simp add: mult_le_mono)
    have "coff g (Suc k) \<le> coff g (set_count g)" using k by (intro coff_mono) simp
    then obtain r2 where r2: "advanceChunkSet r1 = (None, r2)" "same_reader r1 r2" "b_dataOffset r2 = coff g (Suc k)"
      "Suc k < set_count g \<longrightarrow> reader_at good par g P (Suc k) r2"
      using advance_ok [OF ok k at1] sd(3) off by (auto simp del: coff_Suc)
    have ds: "b_chunkSetDataSize r1 = ?c * ?d"
      using at1 geom_spec [of r1 g] by (simp add: reader_at_def configured_def)
    define data where "data = take (?c * ?d) (b_chunkSetBuffer r1)"
    have ld: "length data = ?c * ?d" using fit by (simp add: data_def)
    have rn: "readNextChunkSet rdc opn enc r = (Inr data, r2)"
      by (simp add: readNextChunkSet_def A1 None r2(1) ds data_def buf_slice_def)
    have se: "rd_startOffset r2 = ?s" "rd_endOffset r2 = ?e" "\<not> rd_hasReadSegment r2"
      "rd_availableParityIdxs r2 = rd_availableParityIdxs r"
      using r2(2) sd rng(1) by (simp_all add: same_reader_def)
    define data1 where "data1 = drop (?s - coff g k) data"
    define data2 where "data2 = take (length data1 - (coff g (Suc k) - ?e)) data1"
    have out: "out = Inr (Some data2)" "r' = (if ?e \<le> coff g (Suc k) then r2\<lparr>rd_hasReadSegment := True\<rparr> else r2)"
      using res rng r2(3) se off(1) unfolding reader_readChunk_def rn data2_def data1_def
      by (auto simp: Let_def simp del: coff_Suc length_drop split: if_splits)
    have "sub data (max ?s (coff g k) - coff g k) (min ?e (coff g (Suc k)) - coff g k) =
        sub P (max ?s (coff g k)) (min ?e (coff g (Suc k)))"
      unfolding data_def using as None off(1)
      by (intro data_region [OF lenP k fit, where s = ?s and e = ?e])
        (auto simp: sliceOverlapsRange_def simp del: coff_Suc)
    moreover have "data2 = sub data (max ?s (coff g k) - coff g k) (min ?e (coff g (Suc k)) - coff g k)"
      unfolding data2_def data1_def using ld rng by (simp add: max_def min_def)
    moreover have "Suc k < set_count g \<longrightarrow> reader_at good par g P (Suc k) r'"
      using r2(4) by (simp add: out(2) reader_at_def all_good_def geom_def configured_def csize_def group_end_def)
    moreover have "keeps live opened calm par g P A r1 \<Longrightarrow> keeps live opened calm par g P A r'"
    proof -
      have "keeps live opened calm par g P A r' = keeps live opened calm par g P A r2" by (simp add: out(2) keeps_def)
      then show "keeps live opened calm par g P A r1 \<Longrightarrow> keeps live opened calm par g P A r'" using keeps_same [OF r2(2)] by blast
    qed
    ultimately show ?thesis using out(1) as None se r2(3) by (auto simp: out(2) simp del: coff_Suc)
  qed
qed

lemma read_to_end_ok:
  assumes job: "write_job g par enc P" and max: "coff g (set_count g) < MAX_SAFE_INTEGER"
    and "k < set_count g" "reader_at good par g P k r" "b_dataOffset r = coff g k"
    and "\<not> rd_hasReadSegment r" "rd_startOffset r < rd_endOffset r" "coff g k < rd_endOffset r"
      "rd_startOffset r < coff g (Suc k)" "rd_endOffset r \<le> coff g (set_count g)"
  shows "\<exists>res r'. read_to_end rdc opn enc r = Some (res, r') \<and>
    (\<forall>bs. res = Inr bs \<longrightarrow> bs = sub P (max (rd_startOffset r) (coff g k)) (rd_endOffset r)) \<and>
    (keeps live opened calm par g P A r \<and> quorum g A r \<longrightarrow> (\<exists>bs. res = Inr bs))"
  using assms(3-)
proof (induction "set_count g - k" arbitrary: k r)
  case 0
  then show ?case by simp
next
  case (Suc x)
  let ?s = "rd_startOffset r" and ?e = "rd_endOffset r"
  have ok: "base_ok g" using job by (simp add: write_job_def)
  obtain out r1 where C: "reader_readChunk rdc opn enc r = (out, r1)" by (cases "reader_readChunk rdc opn enc r") auto
  note rc = readChunk_ok [OF job Suc.prems(1-3) max Suc.prems(4-7) C, of A]
  show ?case
  proof (cases out)
    case (Inl e)
    then have "read_to_end rdc opn enc r = Some (Inl e, r1)" by (subst read_to_end.simps) (simp add: C)
    then show ?thesis using rc Inl by auto
  next
    case (Inr y)
    let ?b = "sub P (max ?s (coff g k)) (min ?e (coff g (Suc k)))"
    have y: "y = Some ?b" and r1: "b_dataOffset r1 = coff g (Suc k)" "rd_startOffset r1 = ?s" "rd_endOffset r1 = ?e"
      "rd_availableParityIdxs r1 = rd_availableParityIdxs r" "rd_hasReadSegment r1 \<longleftrightarrow> ?e \<le> coff g (Suc k)"
      "Suc k < set_count g \<longrightarrow> reader_at good par g P (Suc k) r1"
      and kp: "keeps live opened calm par g P A r \<and> quorum g A r \<Longrightarrow> keeps live opened calm par g P A r1 \<and> quorum g A r1"
      using rc Inr by (auto simp: quorum_def simp del: coff_Suc)
    have step: "read_to_end rdc opn enc r = Option.bind (read_to_end rdc opn enc r1) (\<lambda>(res, r2).
           Some (case res of Inl e \<Rightarrow> (Inl e, r2) | Inr bs \<Rightarrow> (Inr (?b @ bs), r2)))"
      by (subst read_to_end.simps) (simp add: C Inr y del: coff_Suc)
    show ?thesis
    proof (cases "?e \<le> coff g (Suc k)")
      case True
      then have "read_to_end rdc opn enc r1 = Some (Inr [], r1)"
        using r1(5) by (subst read_to_end.simps) (simp add: reader_readChunk_def)
      then show ?thesis using step True by (simp add: min_def del: coff_Suc)
    next
      case False
      then have k': "Suc k < set_count g"
        using Suc.prems(1,8) by (metis Suc_lessI)
      have "\<exists>res r'. read_to_end rdc opn enc r1 = Some (res, r') \<and>
        (\<forall>bs. res = Inr bs \<longrightarrow> bs = sub P (max (rd_startOffset r1) (coff g (Suc k))) (rd_endOffset r1)) \<and>
        (keeps live opened calm par g P A r1 \<and> quorum g A r1 \<longrightarrow> (\<exists>bs. res = Inr bs))"
        using Suc.hyps(2) k' r1 False Suc.prems coff_mono [of "Suc k" "Suc (Suc k)" g]
        by (intro Suc.hyps(1)) (auto simp del: coff_Suc)
      then obtain res r2 where IH: "read_to_end rdc opn enc r1 = Some (res, r2)"
        "\<forall>bs. res = Inr bs \<longrightarrow> bs = sub P (coff g (Suc k)) ?e"
        "keeps live opened calm par g P A r1 \<and> quorum g A r1 \<longrightarrow> (\<exists>bs. res = Inr bs)"
        using r1(2,3) Suc.prems(7) by (auto simp: max_def simp del: coff_Suc)
      have "sub P (max ?s (coff g k)) (coff g (Suc k)) @ sub P (coff g (Suc k)) ?e = sub P (max ?s (coff g k)) ?e"
        using False Suc.prems(7) coff_mono [of k "Suc k" g] by (intro sub_append) (auto simp del: coff_Suc)
      then show ?thesis using step IH kp False by (cases res) (auto simp: min_def simp del: coff_Suc)
    qed
  qed
qed

end

section \<open>Seeking\<close>

lemma setReadRange_ok:
  assumes ok: "base_ok g" and g: "geom r = geom g" and sds: "b_standardChunkSetDataSize r = b_standardChunkDataSize g * b_dataSliceCount g"
    and lb: "length (b_chunkSetBuffer r) = b_standardChunkDataSize g * totalSlices g" and all: "all_good gd par g P r"
    and pa: "distinct (rd_availableParityIdxs r)" "set (rd_availableParityIdxs r) \<subseteq> {b_dataSliceCount g..<totalSlices g}"
    and a: "a < coff g (set_count g)"
  shows "\<exists>k. k < set_count g \<and> reader_at gd par g P k (setReadRange a b r) \<and> b_dataOffset (setReadRange a b r) = coff g k \<and>
    coff g k \<le> a \<and> a < coff g (Suc k) \<and> rd_startOffset (setReadRange a b r) = a \<and> rd_endOffset (setReadRange a b r) = b \<and>
    \<not> rd_hasReadSegment (setReadRange a b r) \<and> rd_availableParityIdxs (setReadRange a b r) = rd_availableParityIdxs r \<and>
    rd_slices (setReadRange a b r) = rd_slices r \<and> rd_openSliceIdxs (setReadRange a b r) = rd_openSliceIdxs r \<and>
    rd_failedSlices (setReadRange a b r) = rd_failedSlices r"
proof -
  let ?n = "b_standardChunkCountPerSlice g" and ?T = "b_standardChunkDataSize g" and ?d = "b_dataSliceCount g"
  note gs = geom_spec [OF g]
  have okd: "b_standardChunkSetOffset g = coff g (Suc 0)" "b_endChunkSetDataOffset g = coff g (Suc ?n)" "0 < ?T * ?d"
    using ok by (auto simp: base_ok_def)
  define r0 where "r0 = r\<lparr>rd_hasReadSegment := False, rd_startOffset := a, rd_endOffset := b\<rparr>"
  have fin: ?thesis if srr: "setReadRange a b r = (cf (r0\<lparr>b_dataOffset := coff g k\<rparr>))\<lparr>rd_currentChunkSetIndex := k\<rparr>"
      and cf: "geom (cf (r0\<lparr>b_dataOffset := coff g k\<rparr>)) = geom g" "configured (cf (r0\<lparr>b_dataOffset := coff g k\<rparr>)) k"
        "base.more (cf (r0\<lparr>b_dataOffset := coff g k\<rparr>)) = base.more (r0\<lparr>b_dataOffset := coff g k\<rparr>)"
        "b_chunkSetBuffer (cf (r0\<lparr>b_dataOffset := coff g k\<rparr>)) = b_chunkSetBuffer (r0\<lparr>b_dataOffset := coff g k\<rparr>)"
        "b_dataOffset (cf (r0\<lparr>b_dataOffset := coff g k\<rparr>)) = coff g k"
      and k: "k < set_count g" "coff g k \<le> a" "a < coff g (Suc k)" for cf k
  proof -
    let ?r = "cf (r0\<lparr>b_dataOffset := coff g k\<rparr>)"
    have more: "same_reader (r0\<lparr>b_dataOffset := coff g k\<rparr>) ?r" by (rule reader_more [OF cf(3,4)])
    have up: "geom (x\<lparr>rd_currentChunkSetIndex := k\<rparr>) = geom x" "configured (x\<lparr>rd_currentChunkSetIndex := k\<rparr>) j = configured x j"
      for x :: "'a reader" and j by (simp_all add: geom_def configured_def csize_def group_end_def)
    have "reader_at gd par g P k (setReadRange a b r)"
      using cf more all pa lb by (simp add: srr reader_at_def up same_reader_def r0_def all_good_def)
    then show ?thesis using cf(5) more k
      by (intro exI [of _ k]) (simp add: srr same_reader_def r0_def del: coff_Suc)
  qed
  have okr: "base_ok (r0\<lparr>b_dataOffset := x\<rparr>)" for x
    using geom_spec(7) [of "r0\<lparr>b_dataOffset := x\<rparr>" g] g ok by (simp add: r0_def geom_def)
  have gr: "geom (r0\<lparr>b_dataOffset := x\<rparr>) = geom g" for x using g by (simp add: r0_def geom_def)
  note grs = geom_spec [OF gr]
  show ?thesis
  proof (cases "a < coff g 1")
    case True
    have "setReadRange a b r = (configureStartState (r0\<lparr>b_dataOffset := coff g 0\<rparr>))\<lparr>rd_currentChunkSetIndex := 0\<rparr>"
      using True okd(1) gs by (simp add: setReadRange_def Let_def r0_def)
    then show ?thesis
      by (rule fin) (use True gr configured_start [OF okr] in \<open>simp_all add: set_count_def\<close>)
  next
    case False
    define q where "q = (a - coff g (Suc 0)) div (?T * ?d)"
    have lo: "coff g (Suc 0) + q * (?T * ?d) \<le> a" and hi: "a < coff g (Suc 0) + q * (?T * ?d) + ?T * ?d"
      using False div_mult_mod_eq [of "a - coff g (Suc 0)" "?T * ?d"] mod_less_divisor [OF okd(3), of "a - coff g (Suc 0)"]
      by (simp_all add: q_def)
    have cl: "coff g (Suc j) = coff g (Suc 0) + j * (?T * ?d)" if "j \<le> ?n" for j
      using coff_closed [OF that] coff_closed [of 0 g] by (simp add: add_mult_distrib mult.assoc del: coff_Suc)
    show ?thesis
    proof (cases "a < coff g (Suc ?n)")
      case True
      have "q < ?n"
      proof (rule ccontr)
        assume "\<not> q < ?n"
        then have "?n * (?T * ?d) \<le> q * (?T * ?d)" by (intro mult_le_mono1) simp
        then show False using True cl [OF order_refl] lo by linarith
      qed
      then have k: "coff g (Suc q) = coff g (Suc 0) + q * (?T * ?d)" "coff g (Suc (Suc q)) = coff g (Suc q) + ?T * ?d"
        using cl [of q] cl [of "Suc q"] by simp_all
      have "setReadRange a b r = (configureMiddleState (r0\<lparr>b_dataOffset := coff g (Suc q)\<rparr>))\<lparr>rd_currentChunkSetIndex := Suc q\<rparr>"
        using True False okd gs sds k(1)
        by (simp add: setReadRange_def Let_def r0_def q_def del: coff_Suc)
      then show ?thesis
        by (rule fin) (use gr configured_middle [OF okr, of "Suc q"] grs \<open>q < ?n\<close> k lo hi in
          \<open>simp_all add: set_count_def del: coff_Suc\<close>)
    next
      case ge: False
      then have sc: "set_count g = Suc (Suc ?n)" using a by (auto simp: set_count_def split: if_splits)
      have e: "coff g (Suc (Suc ?n)) = coff g (Suc ?n) + b_endChunkDataSize g * ?d" by (simp add: csize_def)
      have "b_endChunkDataSize g * ?d \<le> ?T * ?d" using ok by (simp add: base_ok_def)
      then have "a < coff g (Suc 0) + ?n * (?T * ?d) + ?T * ?d" using a cl [OF order_refl] e unfolding sc by linarith
      moreover have "coff g (Suc 0) + ?n * (?T * ?d) \<le> a" using ge cl [of ?n] by simp
      ultimately have "a - coff g (Suc 0) - ?n * (?T * ?d) < ?T * ?d" "?n * (?T * ?d) \<le> a - coff g (Suc 0)" by simp_all
      then have q: "q = ?n"
        unfolding q_def by (intro div_nat_eqI) (simp_all add: algebra_simps del: coff_Suc)
      have "setReadRange a b r = (configureEndState (r0\<lparr>b_dataOffset := coff g (Suc ?n)\<rparr>))\<lparr>rd_currentChunkSetIndex := Suc ?n\<rparr>"
        using ge False okd gs sds cl [of ?n] q
        by (simp add: setReadRange_def Let_def r0_def q_def del: coff_Suc)
      then show ?thesis
        by (rule fin) (use gr configured_end [OF okr, of _ "Suc ?n"] grs ge a sc in \<open>simp_all del: coff_Suc\<close>)
    qed
  qed
qed

section \<open>Opening the slices\<close>

lemma open_each_eq:
  assumes "distinct is" "set is \<subseteq> {..<length ss}"
  shows "open_each opn is ss = (map (\<lambda>i. (i, fst (opn (ss ! i)))) is,
    map (\<lambda>j. if j \<in> set is then snd (opn (ss ! j)) else ss ! j) [0..<length ss])"
  using assms
proof (induction "is" arbitrary: ss)
  case (Cons i "is")
  then show ?case by (auto simp: split_beta nth_list_update)
qed (simp add: map_nth)

lemma note_opened_ok:
  assumes "note_opened rs r = (out, r')"
  shows "steady r r' \<and> rd_slices r' = rd_slices r \<and>
    (out = None \<longrightarrow> rd_openSliceIdxs r' = rd_openSliceIdxs r @ map fst (filter (\<lambda>(i, o'). o' = None) rs) \<and>
      set (rd_failedSlices r') = set (rd_failedSlices r) \<union> {i. \<exists>e. (i, Some e) \<in> set rs}) \<and>
    ((\<forall>i e. (i, Some e) \<in> set rs \<longrightarrow> \<not> isIOAbortError e) \<longrightarrow> out = None)"
  using assms
proof (induction rs r rule: note_opened.induct)
  case (2 i rs r)
  let ?r = "r\<lparr>rd_openSliceIdxs := rd_openSliceIdxs r @ [i]\<rparr>"
  have "steady r ?r" by (rule steady_upd(5))
  then show ?case using 2(1) 2(2) by (auto dest: steady_trans)
next
  case (3 i e rs r)
  let ?r = "handleSliceFault i e r"
  let ?r1 = "?r\<lparr>rd_failedSlices := List.insert i (rd_failedSlices ?r)\<rparr>"
  have "steady ?r ?r1" by (simp add: steady_def pos_of_def)
  then have st: "steady r ?r1" using steady_upd(3) steady_trans by blast
  have fr: "rd_slices ?r1 = rd_slices r" "rd_openSliceIdxs ?r1 = rd_openSliceIdxs r"
    "set (rd_failedSlices ?r1) = insert i (set (rd_failedSlices r))"
    by (auto simp: handleSliceFault_def Let_def)
  show ?case
  proof (cases "isIOAbortError e")
    case False
    then have "note_opened rs ?r1 = (out, r')" using 3(2) by (simp add: Let_def)
    from 3(1) [OF False refl this] show ?thesis using st fr by (auto dest: steady_trans)
  qed (use 3 in auto)
qed simp

lemma steady_setSize: "steady r r' \<Longrightarrow> b_standardChunkSetDataSize r' = b_standardChunkSetDataSize r"
proof -
  have "b_standardChunkSetDataSize (pos_of s) = b_standardChunkSetDataSize s" for s :: "'s reader" by (simp add: pos_of_def)
  then show "steady r r' \<Longrightarrow> b_standardChunkSetDataSize r' = b_standardChunkSetDataSize r" unfolding steady_def by metis
qed

context slice_source
begin

lemma reader_prepare_ok:
  assumes conf: "configureInternals rsCreate mem (Some pl') (new_reader sz C d p :: 's reader) = Inr r1"
    and ok: "base_ok r1" and buf: "length (b_chunkSetBuffer r1) = b_standardChunkDataSize r1 * totalSlices r1"
    and dim: "b_dataSliceCount r1 = d" "b_paritySliceCount r1 = p" and more: "base.more r1 = base.more (new_reader sz C d p :: 's reader)"
    and g: "geom g = geom r1" and gd: "\<And>i. i < d + p \<Longrightarrow> good (slice_chunks par g P i) (sl i)"
    and prep: "reader_prepare rsCreate mem (Some pl') (\<lambda>i. Inr (sl i)) avail opn (new_reader sz C d p) = (out, r)"
  shows "out = None \<longrightarrow> geom r = geom g \<and> b_standardChunkSetDataSize r = b_standardChunkSetDataSize r1 \<and>
      length (b_chunkSetBuffer r) = b_standardChunkDataSize g * totalSlices g \<and> all_good good par g P r \<and>
      distinct (rd_availableParityIdxs r) \<and> set (rd_availableParityIdxs r) \<subseteq> {b_dataSliceCount g..<totalSlices g}" (is ?safe)
    and "A \<subseteq> {..<d + p} \<Longrightarrow> d \<le> card A \<Longrightarrow> \<forall>i < d + p. calm (sl i) \<Longrightarrow>
      \<forall>i \<in> A. avail i \<and> live (slice_chunks par g P i) (sl i) \<Longrightarrow>
      out = None \<and> keeps live opened calm par g P A r \<and> quorum g A r"
proof -
  note gs = geom_spec [OF g]
  have rd1: "rd_slices r1 = []" "rd_availableParityIdxs r1 = []" "rd_failedSlices r1 = []" "rd_openSliceIdxs r1 = []"
    using more by (cases r1; simp add: new_reader_def base.defs reader.defs)+
  define r2 where "r2 = configureStartState r1"
  have r2: "geom r2 = geom r1" "rd_slices r2 = []" "rd_availableParityIdxs r2 = []" "rd_failedSlices r2 = []"
    "rd_openSliceIdxs r2 = []" "b_dataSliceCount r2 = d" "b_paritySliceCount r2 = p"
    "b_chunkSetBuffer r2 = b_chunkSetBuffer r1" "b_standardChunkSetDataSize r2 = b_standardChunkSetDataSize r1"
    using rd1 dim reader_more [of r2 r1] by (simp_all add: r2_def same_reader_def configure_defs)
  define ss where "ss = map sl [0..<d + p]"
  define cand where "cand = filter avail [0..<d]"
  define pars where "pars = filter avail [d..<d + p]"
  define r3 where "r3 = r2\<lparr>rd_slices := ss, rd_startOffset := 0, rd_endOffset := b_size r2,
     rd_availableParityIdxs := pars, rd_failedSlices := filter (\<lambda>i. \<not> avail i) [0..<d + p]\<rparr>"
  define rs where "rs = map (\<lambda>i. (i, fst (opn (sl i)))) cand"
  define ss' where "ss' = map (\<lambda>j. if j \<in> set cand then snd (opn (sl j)) else sl j) [0..<d + p]"
  have lss: "length ss = d + p" "\<And>i. i < d + p \<Longrightarrow> ss ! i = sl i" by (simp_all add: ss_def)
  have cand: "set cand \<subseteq> {..<d}" "distinct cand" "distinct pars" "set pars \<subseteq> {d..<d + p}"
    by (auto simp: cand_def pars_def)
  have oe: "open_each opn cand ss = (rs, ss')"
  proof -
    have sub: "set cand \<subseteq> {..<d + p}" using cand(1) by auto
    then have "map (\<lambda>i. (i, fst (opn (ss ! i)))) cand = rs" unfolding rs_def using lss(2) by (intro map_cong) auto
    moreover have "map (\<lambda>j. if j \<in> set cand then snd (opn (ss ! j)) else ss ! j) [0..<d + p] = ss'"
      unfolding ss'_def using lss(2) by (intro map_cong) auto
    ultimately show ?thesis using open_each_eq [of cand ss opn] cand(2) sub lss(1) by simp
  qed
  obtain o4 r4 where r4: "note_opened rs (r3\<lparr>rd_slices := ss'\<rparr>) = (o4, r4)" by (cases "note_opened rs (r3\<lparr>rd_slices := ss'\<rparr>)") auto
  note no = note_opened_ok [OF r4]
  have run: "(out, r) = (if length cand + length pars < d then (Some quorumError, r3)
      else case o4 of Some e \<Rightarrow> (Some e, r4) | None \<Rightarrow>
        if length (rd_openSliceIdxs r4) + length (rd_availableParityIdxs r4) < d then (Some quorumError, r4)
        else (None, r4\<lparr>rd_currentChunkSetIndex := 0\<rparr>))"
    unfolding prep [symmetric] using conf r2
    by (simp add: reader_prepare_def r2_def [symmetric] Let_def instantiate_map ss_def [symmetric]
        cand_def [symmetric] pars_def [symmetric] r3_def [symmetric] oe r4 split: option.split)
  have st: "steady (r3\<lparr>rd_slices := ss'\<rparr>) r4" using no by blast
  note sd = steadyD [OF st]
  have g4: "geom r4 = geom g" using sd(1) r2(1) g by (simp add: r3_def geom_def)
  have ss': "ss' ! i = (if i \<in> set cand then snd (opn (sl i)) else sl i)" if "i < d + p" for i
    using that by (simp add: ss'_def)
  have dims: "b_dataSliceCount g = d" "b_paritySliceCount g = p" using gs dim by simp_all
  have ag: "all_good good par g P r4"
    using no gd ss' open_good by (auto simp: all_good_def dims ss'_def prod_eq_iff)
  show ?safe
    using run g4 ag cand sd(8,13) steady_setSize [OF st] buf r2 gs dims
    by (simp add: r3_def all_good_def geom_def split: if_splits option.splits)
  assume A: "A \<subseteq> {..<d + p}" "d \<le> card A" and cl: "\<forall>i < d + p. calm (sl i)"
    and lv: "\<forall>i \<in> A. avail i \<and> live (slice_chunks par g P i) (sl i)"
  have opn: "\<exists>s'. opn (sl i) = (None, s') \<and> opened (slice_chunks par g P i) s'" if "i \<in> A" for i
    using lv that open_live by blast
  have o4: "o4 = None"
  proof -
    have "\<not> isIOAbortError e" if "(i, Some e) \<in> set rs" for i e
      using that cl cand(1) open_calm [of "sl i" "Some e" "snd (opn (sl i))"] by (auto simp: rs_def prod_eq_iff)
    then show ?thesis using no by blast
  qed
  define ops where "ops = map fst (filter (\<lambda>(i, o'). o' = None) rs)"
  have ops: "rd_openSliceIdxs r4 = ops" "set ops \<subseteq> set cand" "A \<inter> {..<d} \<subseteq> set ops" "distinct ops"
  proof -
    show "rd_openSliceIdxs r4 = ops" using no o4 r2(5) by (simp add: ops_def r3_def)
    have e: "ops = filter (\<lambda>i. fst (opn (sl i)) = None) cand" unfolding ops_def rs_def by (induction cand) auto
    then show "set ops \<subseteq> set cand" "distinct ops" using cand(2) by auto
    show "A \<inter> {..<d} \<subseteq> set ops" unfolding e using opn lv by (fastforce simp: cand_def)
  qed
  have parA: "A \<inter> {d..<d + p} \<subseteq> set pars" using lv by (auto simp: pars_def)
  have "i \<in> set ops \<union> set pars" if "i \<in> A" for i
    using subsetD [OF ops(3), of i] subsetD [OF parA, of i] subsetD [OF A(1), of i] that by (cases "i < d") simp_all
  then have "card A \<le> card (set ops \<union> set pars)" by (intro card_mono) auto
  also have "\<dots> \<le> length ops + length pars" using card_Un_le [of "set ops" "set pars"] ops(4) cand(3) by (simp add: distinct_card)
  finally have q: "d \<le> length ops + length pars" using A(2) by simp
  have "length ops \<le> length cand" using ops cand(2) by (metis card_mono distinct_card List.finite_set)
  then have res: "out = None" "r = r4\<lparr>rd_currentChunkSetIndex := 0\<rparr>"
    using run q o4 ops(1) sd(8) by (auto simp: r3_def split: if_splits)
  have fl: "set (rd_failedSlices r4) = {i. i < d + p \<and> \<not> avail i} \<union> {i. \<exists>e. (i, Some e) \<in> set rs}"
    using no o4 by (auto simp: r3_def)
  have "calm (rd_slices r4 ! i)" if i: "i < d + p" for i
  proof -
    have "calm (snd (opn (sl i)))" using open_calm [of "sl i" "fst (opn (sl i))" "snd (opn (sl i))"] cl i by simp
    then show ?thesis using no ss' [OF i] cl i by simp
  qed
  moreover have "i \<notin> set (rd_failedSlices r4)" if "i \<in> A" for i
    using fl lv opn that by (fastforce simp: rs_def)
  moreover have "if i \<in> set ops then opened (slice_chunks par g P i) (rd_slices r4 ! i)
      else d \<le> i \<and> live (slice_chunks par g P i) (rd_slices r4 ! i)" if i: "i \<in> A" for i
  proof -
    have ip: "i < d + p" using A(1) i by auto
    then have sl: "rd_slices r4 ! i = (if i \<in> set cand then snd (opn (sl i)) else sl i)" using no ss' by simp
    show ?thesis
    proof (cases "i \<in> set ops")
      case True
      then show ?thesis using sl ops(2) opn [OF i] by auto
    next
      case False
      then have "d \<le> i" using ops(3) i by (auto simp: not_less)
      then show ?thesis using False sl cand(1) lv i by auto
    qed
  qed
  ultimately have "keeps live opened calm par g P A r" using ops(1) by (simp add: keeps_def res dims)
  moreover have "quorum g A r" using A parA sd(8) by (simp add: quorum_def res dims r3_def)
  ultimately show "out = None \<and> keeps live opened calm par g P A r \<and> quorum g A r" using res(1) by blast
qed

end

section \<open>The reader on the slices of the disks\<close>

text \<open>\<open>_readSliceChunk\<close>: seek to the chunk and read it, for the chunk sizes of the reader's layout.\<close>

definition readSliceChunk :: "(bytes \<Rightarrow> bytes) \<Rightarrow> nat \<Rightarrow> nat \<Rightarrow> disk_slice slice_read" where
  "readSliceChunk md5 startSize standard chunkIndex chunkDataSize s =
     (case slice_readChunk md5 (next_env (snd s)) chunkDataSize
        (upd_slice (seekToChunkIndex startSize standard chunkIndex) (fst s)) of (r, w) \<Rightarrow> (r, (w, tl (snd s))))"

text \<open>
  A file whose chunks are right wherever their checksum matches (whatever happened to the rest of it),
  and one in which every chunk reads back.
\<close>

definition honest_file :: "(bytes \<Rightarrow> bytes) \<Rightarrow> nat \<Rightarrow> nat \<Rightarrow> bytes list \<Rightarrow> bytes \<Rightarrow> bool" where
  "honest_file md5 S T cs f \<longleftrightarrow>
     (\<forall>j < length cs. \<forall>b. read_chunk_at md5 f (chunk_offset S T j) (length (cs ! j)) = Inr b \<longrightarrow> b = cs ! j)"

definition whole_file :: "(bytes \<Rightarrow> bytes) \<Rightarrow> nat \<Rightarrow> nat \<Rightarrow> bytes list \<Rightarrow> bytes \<Rightarrow> bool" where
  "whole_file md5 S T cs f \<longleftrightarrow> (\<forall>j < length cs. read_chunk_at md5 f (chunk_offset S T j) (length (cs ! j)) = Inr (cs ! j))"

definition good_slice :: "(bytes \<Rightarrow> bytes) \<Rightarrow> nat \<Rightarrow> nat \<Rightarrow> bytes list \<Rightarrow> disk_slice \<Rightarrow> bool" where
  "good_slice md5 S T cs s \<longleftrightarrow>
     (\<forall>f. v_committed (w_vol (fst s)) (sl_fileName (w_slice (fst s))) = Some f \<longrightarrow> honest_file md5 S T cs f) \<and>
     (\<forall>f. sl_inputFh (w_slice (fst s)) = Some f \<longrightarrow> honest_file md5 S T cs f)"

definition fits :: "bytes list \<Rightarrow> sworld \<Rightarrow> bool" where
  "fits cs w \<longleftrightarrow> (\<forall>c \<in> set cs. 16 + int (length c) \<le> sr_chunkSize (sl_ref (w_slice w)))"

definition live_slice :: "(bytes \<Rightarrow> bytes) \<Rightarrow> nat \<Rightarrow> nat \<Rightarrow> bytes list \<Rightarrow> disk_slice \<Rightarrow> bool" where
  "live_slice md5 S T cs s \<longleftrightarrow> snd s = [] \<and> isReadable (w_vol (fst s)) \<and> present (v_mountPoint (w_vol (fst s))) \<and>
     fits cs (fst s) \<and> (\<exists>f. v_committed (w_vol (fst s)) (sl_fileName (w_slice (fst s))) = Some f \<and>
       48 \<le> length f \<and> validateHeader (sl_ref (w_slice (fst s))) (take 48 f) = None \<and> whole_file md5 S T cs f)"

definition opened_slice :: "(bytes \<Rightarrow> bytes) \<Rightarrow> nat \<Rightarrow> nat \<Rightarrow> bytes list \<Rightarrow> disk_slice \<Rightarrow> bool" where
  "opened_slice md5 S T cs s \<longleftrightarrow> snd s = [] \<and> fits cs (fst s) \<and> (\<exists>f. reading (fst s) f \<and> whole_file md5 S T cs f)"

text \<open>No shutdown is in progress, and no system call fails with its code.\<close>

definition calm_slice :: "disk_slice \<Rightarrow> bool" where
  "calm_slice s \<longleftrightarrow> (\<forall>env \<in> set (snd s). \<forall>k. \<not> se_aborted env k \<and> (\<forall>e. se_fs env k = Some e \<longrightarrow> \<not> isIOAbortError e))"

lemma calm_env: "calm_slice (w, es) \<Longrightarrow> \<not> se_aborted (next_env es) k \<and> (\<forall>e. se_fs (next_env es) k = Some e \<longrightarrow> \<not> isIOAbortError e)"
  by (cases es) (auto simp: calm_slice_def next_env_def)

lemma calm_tl: "calm_slice (w, es) \<Longrightarrow> calm_slice (w', tl es)"
  by (cases es) (auto simp: calm_slice_def)

lemma decorate_abort: "isIOAbortError (decorateError s c e) \<longleftrightarrow> isIOAbortError e \<or> (err_code e = None \<and> c = ''IOABORT'')"
  by (auto simp: isIOAbortError_def decorateError_def or_else_def split: option.splits)

lemma validateHeader_code: "validateHeader r h = Some e \<Longrightarrow> err_code e = Some ''EHEADER''"
  by (auto simp: validateHeader_def split: if_splits)

lemma read_chunk_at_code: "read_chunk_at md5 f off n = Inl e \<Longrightarrow> \<not> isIOAbortError e"
  by (auto simp: read_chunk_at_def isIOAbortError_def Let_def split: if_splits)

lemma openCommittedFh_code:
  "openCommittedFh fs n v = Inl e \<Longrightarrow> (\<forall>e'. fs = Some e' \<longrightarrow> \<not> isIOAbortError e') \<Longrightarrow> \<not> isIOAbortError e"
  by (auto simp: openCommittedFh_def isIOAbortError_def split: if_splits option.splits)

lemma etimeout_code [simp]: "\<not> isIOAbortError etimeout" by (simp add: etimeout_def isIOAbortError_def)

text \<open>What opening a slice leaves alone, whatever its outcome.\<close>

lemma open_frame:
  assumes "slice_open md5 env w = (r, w')"
  shows "w_vol w' = w_vol w" "sl_fileName (w_slice w') = sl_fileName (w_slice w)" "sl_ref (w_slice w') = sl_ref (w_slice w)"
    "sl_inputFh (w_slice w') \<in> {None, sl_inputFh (w_slice w), v_committed (w_vol w) (sl_fileName (w_slice w))}"
  using assms
  by (auto simp: slice_open_def Let_def cleanupInputHandle_def openCommittedFh_def idle_def split: if_splits sum.splits option.splits)

lemma open_not_abort:
  assumes "slice_open md5 env w = (Some e, w')" "\<And>k. \<not> se_aborted env k" "\<And>k e. se_fs env k = Some e \<Longrightarrow> \<not> isIOAbortError e"
  shows "\<not> isIOAbortError e"
proof -
  have hdr: "\<not> isIOAbortError (decorateError s ''EOPEN'' (mk_error (or_else (err_code x) (Some ''EOPEN'')) m))"
    if "\<not> isIOAbortError x" for x m s
    using that unfolding decorate_abort by (cases "err_code x") (simp_all add: isIOAbortError_def or_else_def)
  have vh: "\<not> isIOAbortError x" if "validateHeader q h = Some x" for q h x
    using validateHeader_code [OF that] by (simp add: isIOAbortError_def)
  show ?thesis
    using assms(1,2) openCommittedFh_code [of "se_fs env 0"] assms(3) vh
    by (auto simp: slice_open_def Let_def decorate_abort intro!: hdr split: if_splits sum.splits option.splits)
      (auto simp: isIOAbortError_def)
qed

lemma readChunk_cases:
  assumes "slice_readChunk md5 env n w = (r, w')"
  shows "w_vol w' = w_vol w" "\<exists>c. w_slice w' = (w_slice w)\<lparr>sl_cursorOffset := c\<rparr>"
    "\<And>b. r = Inr b \<Longrightarrow> \<exists>f. sl_inputFh (w_slice w) = Some f \<and> read_chunk_at md5 f (sl_cursorOffset (w_slice w)) n = Inr b"
    "\<And>e. r = Inl e \<Longrightarrow> (\<And>k. \<not> se_aborted env k) \<Longrightarrow> (\<And>k e. se_fs env k = Some e \<Longrightarrow> \<not> isIOAbortError e) \<Longrightarrow> \<not> isIOAbortError e"
proof -
  have up: "\<exists>c. s = s\<lparr>sl_cursorOffset := c\<rparr>" for s :: slice by (rule exI [of _ "sl_cursorOffset s"]) simp
  show "w_vol w' = w_vol w" "\<And>b. r = Inr b \<Longrightarrow> \<exists>f. sl_inputFh (w_slice w) = Some f \<and> read_chunk_at md5 f (sl_cursorOffset (w_slice w)) n = Inr b"
    using assms by (auto simp: slice_readChunk_def Let_def split: if_splits sum.splits option.splits)
  show "\<exists>c. w_slice w' = (w_slice w)\<lparr>sl_cursorOffset := c\<rparr>"
    using assms up by (auto simp: slice_readChunk_def Let_def split: if_splits sum.splits option.splits)
  show "\<not> isIOAbortError e" if "r = Inl e" "\<And>k. \<not> se_aborted env k" "\<And>k e. se_fs env k = Some e \<Longrightarrow> \<not> isIOAbortError e" for e
    using assms that read_chunk_at_code
    by (auto simp: slice_readChunk_def Let_def decorate_abort split: if_splits sum.splits option.splits)
      (auto simp: isIOAbortError_def)
qed

lemma readSliceChunk_cases:
  assumes "readSliceChunk md5 S T j c s = (res, s')"
  shows "w_vol (fst s') = w_vol (fst s)" "\<exists>c. w_slice (fst s') = (w_slice (fst s))\<lparr>sl_cursorOffset := c\<rparr>" "snd s' = tl (snd s)"
    "\<And>b. res = Inr b \<Longrightarrow> \<exists>f. sl_inputFh (w_slice (fst s)) = Some f \<and> read_chunk_at md5 f (chunk_offset S T j) c = Inr b"
    "\<And>e. res = Inl e \<Longrightarrow> calm_slice s \<Longrightarrow> \<not> isIOAbortError e"
proof -
  obtain w es where s: "s = (w, es)" by (cases s)
  obtain w' where r: "slice_readChunk md5 (next_env es) c (upd_slice (seekToChunkIndex S T j) w) = (res, w')" "s' = (w', tl es)"
    using assms by (auto simp: readSliceChunk_def s split: prod.splits)
  note rc = readChunk_cases [OF r(1)]
  show "w_vol (fst s') = w_vol (fst s)" "snd s' = tl (snd s)" using rc(1) by (simp_all add: r(2) s)
  show "\<exists>c. w_slice (fst s') = (w_slice (fst s))\<lparr>sl_cursorOffset := c\<rparr>" using rc(2) by (simp add: r(2) s seekToChunkIndex_def)
  show "\<And>b. res = Inr b \<Longrightarrow> \<exists>f. sl_inputFh (w_slice (fst s)) = Some f \<and> read_chunk_at md5 f (chunk_offset S T j) c = Inr b"
    using rc(3) by (simp add: s seekToChunkIndex_def)
  show "\<And>e. res = Inl e \<Longrightarrow> calm_slice s \<Longrightarrow> \<not> isIOAbortError e" using rc(4) calm_env by (simp add: s)
qed

interpretation source: slice_source "readSliceChunk md5 S T" "on_slice (slice_open md5)" "good_slice md5 S T"
  "live_slice md5 S T" "opened_slice md5 S T" calm_slice for md5 S T
proof
  fix cs s j res s' r c
  show "good_slice md5 S T cs s' \<and> (\<forall>b. res = Inr b \<longrightarrow> b = cs ! j)"
    if "good_slice md5 S T cs s" "j < length cs" "readSliceChunk md5 S T j (length (cs ! j)) s = (res, s')"
    using that(1,2) readSliceChunk_cases(1,2,4) [OF that(3)] by (fastforce simp: good_slice_def honest_file_def)
  show "good_slice md5 S T cs s'" if "good_slice md5 S T cs s" "on_slice (slice_open md5) s = (r, s')"
  proof -
    have "slice_open md5 (next_env (snd s)) (fst s) = (r, fst s')" using that(2) by (auto simp: on_slice_def split: prod.splits)
    from open_frame [OF this] show ?thesis using that(1) by (auto simp: good_slice_def)
  qed
  show "\<exists>s'. on_slice (slice_open md5) s = (None, s') \<and> opened_slice md5 S T cs s'" if lv: "live_slice md5 S T cs s"
  proof -
    obtain f where f: "v_committed (w_vol (fst s)) (sl_fileName (w_slice (fst s))) = Some f" "48 \<le> length f"
      "validateHeader (sl_ref (w_slice (fst s))) (take 48 f) = None" "whole_file md5 S T cs f"
      and l: "snd s = []" "isReadable (w_vol (fst s))" "present (v_mountPoint (w_vol (fst s)))" "fits cs (fst s)"
      using lv by (auto simp: live_slice_def)
    then show ?thesis
      by (simp add: on_slice_def next_env_def slice_open_def openCommittedFh_def Let_def opened_slice_def reading_def
          idle_def fits_def)
  qed
  show "\<exists>s'. readSliceChunk md5 S T j (length (cs ! j)) s = (Inr (cs ! j), s') \<and> opened_slice md5 S T cs s'"
    if "opened_slice md5 S T cs s" "j < length cs"
  proof -
    have "16 + int (length (cs ! j)) \<le> sr_chunkSize (sl_ref (w_slice (fst s)))"
      using that by (simp add: opened_slice_def fits_def)
    then have "(sr_chunkSize (sl_ref (w_slice (fst s))) < 16 + int (length (cs ! j))) = False" by simp
    then show ?thesis
      using that by (auto simp: opened_slice_def readSliceChunk_def next_env_def slice_readChunk_def reading_def whole_file_def
          fits_def seekToChunkIndex_def CHUNK_HEADER_SIZE_def Let_def simp del: not_less)
  qed
  show "calm_slice s' \<and> (\<forall>e. r = Some e \<longrightarrow> \<not> isIOAbortError e)" if "calm_slice s" "on_slice (slice_open md5) s = (r, s')"
  proof -
    have o: "slice_open md5 (next_env (snd s)) (fst s) = (r, fst s')" and "snd s' = tl (snd s)"
      using that(2) by (auto simp: on_slice_def split: prod.splits)
    then show ?thesis using that(1) calm_tl [of "fst s" "snd s" "fst s'"] open_not_abort [of md5 "next_env (snd s)" "fst s"]
      calm_env [of "fst s" "snd s"] by (cases s') auto
  qed
  show "calm_slice s' \<and> (\<forall>e. res = Inl e \<longrightarrow> \<not> isIOAbortError e)" if "calm_slice s" "readSliceChunk md5 S T j c s = (res, s')"
    using that(1) readSliceChunk_cases(3,5) [OF that(2)] calm_tl [of "fst s" "snd s" "fst s'"] by (cases s') auto
qed

text \<open>A committed slice file as the writer leaves it, on a volume that serves reads.\<close>

definition stored_slice :: "(bytes \<Rightarrow> bytes) \<Rightarrow> bytes list \<Rightarrow> disk_slice \<Rightarrow> bool" where
  "stored_slice md5 cs s \<longleftrightarrow> snd s = [] \<and> isReadable (w_vol (fst s)) \<and> present (v_mountPoint (w_vol (fst s))) \<and>
     length (sr_idBuf (sl_ref (w_slice (fst s)))) = 12 \<and> fits cs (fst s) \<and>
     (\<exists>h. slice_header md5 (sl_ref (w_slice (fst s))) = Inr h \<and>
        v_committed (w_vol (fst s)) (sl_fileName (w_slice (fst s))) = Some (h @ records md5 cs))"

lemma records_append: "records md5 (xs @ ys) = records md5 xs @ records md5 ys"
  by (simp add: records_def)

lemma read_record_nth:
  assumes "digest16 md5" "j < length cs"
  shows "read_chunk_at md5 (h @ records md5 cs) (length h + length (records md5 (take j cs))) (length (cs ! j)) = Inr (cs ! j)"
proof -
  have "h @ records md5 cs = (h @ records md5 (take j cs)) @ chunk_record md5 (cs ! j) @ records md5 (drop (Suc j) cs)"
    using id_take_nth_drop [OF assms(2)] records_append by (metis append.assoc records_simps(2))
  then show ?thesis using read_chunk_record [OF assms(1), of "h @ records md5 (take j cs)"] by simp
qed

lemma length_records_slice:
  assumes "write_job g par enc P" "i < totalSlices g" "j < set_count g" "digest16 md5"
  shows "48 + length (records md5 (take j (slice_chunks par g P i))) = chunk_offset (b_startChunkDataSize g) (b_standardChunkDataSize g) j"
  using assms(3)
proof (induction j)
  case 0
  then show ?case by (simp add: chunk_offset_def)
next
  case (Suc j)
  have len: "length (slice_chunks par g P i) = set_count g" by (simp add: slice_chunks_def)
  have "length (records md5 (take (Suc j) (slice_chunks par g P i))) = length (records md5 (take j (slice_chunks par g P i))) + 16 + csize g j"
    using Suc.prems len chunk_length [OF assms(1) _ assms(2), of j] digest16D [OF assms(4)]
    by (simp add: take_Suc_conv_app_nth records_append chunk_record_def)
  moreover have "csize g j = (if j = 0 then b_startChunkDataSize g else b_standardChunkDataSize g)"
    using Suc.prems by (auto simp: csize_def set_count_def split: if_splits)
  ultimately show ?case using Suc by (cases j) (simp_all add: chunk_offset_def)
qed

lemma stored_live:
  assumes "write_job g par enc P" "i < totalSlices g" "digest16 md5" "stored_slice md5 (slice_chunks par g P i) s"
  shows "live_slice md5 (b_startChunkDataSize g) (b_standardChunkDataSize g) (slice_chunks par g P i) s"
proof -
  let ?cs = "slice_chunks par g P i"
  obtain h where h: "slice_header md5 (sl_ref (w_slice (fst s))) = Inr h" and id: "length (sr_idBuf (sl_ref (w_slice (fst s)))) = 12"
    and f: "v_committed (w_vol (fst s)) (sl_fileName (w_slice (fst s))) = Some (h @ records md5 ?cs)"
    using assms(4) by (auto simp: stored_slice_def)
  note hf = header_fields [OF h id assms(3)]
  have v: "validateHeader (sl_ref (w_slice (fst s))) h = None" using hf by (simp add: validateHeader_def)
  have "read_chunk_at md5 (h @ records md5 ?cs) (chunk_offset (b_startChunkDataSize g) (b_standardChunkDataSize g) j) (length (?cs ! j)) = Inr (?cs ! j)"
    if "j < length ?cs" for j
    using read_record_nth [OF assms(3) that, of h] length_records_slice [OF assms(1,2) _ assms(3), of j] that hf(1)
    by (simp add: slice_chunks_def)
  then show ?thesis using assms(4) f v hf(1) by (auto simp: live_slice_def stored_slice_def whole_file_def)
qed

lemma configureInternals_geom:
  assumes "configureInternals rs mem pl b = Inr b'" "configureInternals rs mem pl c = Inr c'"
    and "(b_size b, b_chunkSize b, b_dataSliceCount b, b_paritySliceCount b) = (b_size c, b_chunkSize c, b_dataSliceCount c, b_paritySliceCount c)"
  shows "geom b' = geom c'"
  using assms by (auto simp: configureInternals_def geom_def split: option.splits)

lemma configureInternals_setSize:
  "configureInternals rs mem pl b = Inr b' \<Longrightarrow> b_standardChunkSetDataSize b' = b_standardChunkDataSize b' * b_dataSliceCount b'"
  by (auto simp: configureInternals_def split: option.splits)

lemma new_reader_dims [simp]:
  "b_size (new_reader sz C d p) = sz" "b_chunkSize (new_reader sz C d p) = C"
  "b_dataSliceCount (new_reader sz C d p) = d" "b_paritySliceCount (new_reader sz C d p) = p"
  by (simp_all add: new_reader_def new_base_def base.defs)

lemma padded_bound: "base_ok g \<Longrightarrow> coff g (set_count g) \<le> b_size g + b_dataSliceCount g * b_chunkSize g"
proof -
  assume ok: "base_ok g"
  have s: "Suc (set_count g - 1) = set_count g" by (simp add: set_count_def)
  have "coff g (set_count g) = coff g (set_count g - 1) + csize g (set_count g - 1) * b_dataSliceCount g"
    using coff_Suc [of g "set_count g - 1"] s by simp
  also have "\<dots> \<le> b_size g + b_chunkSize g * b_dataSliceCount g"
    using ok csize_le [OF ok, of "set_count g - 1"] by (intro add_mono mult_le_mono1) (auto simp: base_ok_def)
  finally show ?thesis by (simp add: mult.commute)
qed

text \<open>
  An object of \<open>sz\<close> bytes in \<open>d\<close> data and \<open>p\<close> parity slices, under a plan derived by
  \<open>populatePlanDerivedFields\<close>, whose layout is \<open>g\<close>. The numbers stay within what a double represents.
\<close>

definition object_layout ::
  "(nat \<Rightarrow> nat \<Rightarrow> js_error option) \<Rightarrow> (nat \<Rightarrow> bytes) \<Rightarrow> plan \<Rightarrow> nat \<Rightarrow> nat \<Rightarrow> nat \<Rightarrow> nat \<Rightarrow> base \<Rightarrow> bool" where
  "object_layout rsCreate mem pl' sz C d p g \<longleftrightarrow>
     configureInternals rsCreate mem (Some pl') (new_base sz C d p) = Inr g \<and>
     (\<exists>pl. populatePlanDerivedFields pl = Inr pl' \<and> p_fileSize pl = Some (int sz) \<and>
        p_dataSliceCount pl = Some (int d) \<and> p_chunkSize pl = Some (int C)) \<and>
     plan_ok (int sz) (int d) (int C) \<and> 0 < p \<and> d + p \<le> 32 \<and> sz + d * C < MAX_SAFE_INTEGER \<and> (\<forall>n. length (mem n) = n)"

text \<open>Enough slices are available and as the writer left them, and no shutdown interferes.\<close>

definition readable_quorum :: "(bytes \<Rightarrow> bytes) \<Rightarrow> (bytes \<Rightarrow> bytes) \<Rightarrow> base \<Rightarrow> bytes \<Rightarrow> nat list \<Rightarrow> nat \<Rightarrow> nat \<Rightarrow> (nat \<Rightarrow> disk_slice) \<Rightarrow> bool" where
  "readable_quorum md5 par g P un d p sl \<longleftrightarrow>
     (\<exists>A \<subseteq> {..<d + p}. d \<le> card A \<and>
        (\<forall>i \<in> A. isAvailable un (fst (sl i)) \<and> stored_slice md5 (slice_chunks par g P i) (sl i))) \<and>
     (\<forall>i < d + p. calm_slice (sl i))"

lemma layout_facts:
  assumes "object_layout rsCreate mem pl' sz C d p g" "rs_law d p enc par" "length D = sz"
  shows "write_job g par enc (padded g D)" "coff g (set_count g) < MAX_SAFE_INTEGER" "take sz (padded g D) = D"
    "b_size g = sz" "b_chunkSize g = C" "b_dataSliceCount g = d" "b_paritySliceCount g = p"
    "\<exists>r1. configureInternals rsCreate mem (Some pl') (new_reader sz C d p :: 's reader) = Inr r1 \<and> base_ok r1 \<and>
       length (b_chunkSetBuffer r1) = b_standardChunkDataSize r1 * totalSlices r1 \<and>
       b_dataSliceCount r1 = d \<and> b_paritySliceCount r1 = p \<and> base.more r1 = base.more (new_reader sz C d p :: 's reader) \<and>
       geom g = geom r1 \<and> b_standardChunkSetDataSize r1 = b_standardChunkDataSize g * b_dataSliceCount g"
proof -
  let ?new = "new_reader sz C d p :: 's reader"
  obtain pl where conf: "configureInternals rsCreate mem (Some pl') (new_base sz C d p) = Inr g"
    and pl: "populatePlanDerivedFields pl = Inr pl'" "p_fileSize pl = Some (int sz)" "p_dataSliceCount pl = Some (int d)"
      "p_chunkSize pl = Some (int C)" "plan_ok (int sz) (int d) (int C)" "0 < p" "d + p \<le> 32"
      "sz + d * C < MAX_SAFE_INTEGER" "\<And>n. length (mem n) = n"
    using assms(1) by (auto simp: object_layout_def)
  have rs: "rsCreate d p = None" and gsz: "b_size g = sz" "b_chunkSize g = C"
    using conf by (auto simp: configureInternals_def new_base_def split: option.splits)
  obtain r1 where r1: "configureInternals rsCreate mem (Some pl') ?new = Inr r1" "base_ok r1"
    "length (b_chunkSetBuffer r1) = b_standardChunkDataSize r1 * totalSlices r1"
    "base.more r1 = base.more ?new" "b_dataSliceCount r1 = d" "b_paritySliceCount r1 = p"
    using configureInternals_ok [of pl pl' ?new rsCreate mem] pl rs by auto
  have g: "geom g = geom r1" by (rule configureInternals_geom [OF conf r1(1)]) (simp add: new_base_def)
  note gs = geom_spec [OF g]
  have ok: "base_ok g" using r1(2) gs by simp
  have dims: "b_dataSliceCount g = d" "b_paritySliceCount g = p" using gs r1 by simp_all
  have P: "length (padded g D) = coff g (set_count g)" "take sz (padded g D) = D"
    using padded_props [OF ok, of D] gsz assms(3) by simp_all
  show "write_job g par enc (padded g D)" using ok P(1) assms(2) by (simp add: write_job_def dims)
  show "coff g (set_count g) < MAX_SAFE_INTEGER" using padded_bound [OF ok] pl(8) unfolding gsz dims by linarith
  show "\<exists>r1. configureInternals rsCreate mem (Some pl') ?new = Inr r1 \<and> base_ok r1 \<and>
       length (b_chunkSetBuffer r1) = b_standardChunkDataSize r1 * totalSlices r1 \<and>
       b_dataSliceCount r1 = d \<and> b_paritySliceCount r1 = p \<and> base.more r1 = base.more ?new \<and>
       geom g = geom r1 \<and> b_standardChunkSetDataSize r1 = b_standardChunkDataSize g * b_dataSliceCount g"
    using r1 g configureInternals_setSize [OF r1(1)] gs by simp
  show "take sz (padded g D) = D" "b_size g = sz" "b_chunkSize g = C" "b_dataSliceCount g = d" "b_paritySliceCount g = p"
    using P(2) gsz dims by simp_all
qed

text \<open>A reader prepared on the slices of the disks.\<close>

lemma prepared:
  fixes sl :: "nat \<Rightarrow> disk_slice"
  assumes lay: "object_layout rsCreate mem pl' sz C d p g" "rs_law d p enc par" "length D = sz" and md5: "digest16 md5"
    and good: "\<forall>i < d + p. good_slice md5 (b_startChunkDataSize g) (b_standardChunkDataSize g) (slice_chunks par g (padded g D) i) (sl i)"
    and prep: "reader_prepare rsCreate mem (Some pl') (\<lambda>i. Inr (sl i)) (\<lambda>i. isAvailable un (fst (sl i)))
        (on_slice (slice_open md5)) (new_reader sz C d p) = (out, r)"
  shows "out = None \<longrightarrow> geom r = geom g \<and> b_standardChunkSetDataSize r = b_standardChunkDataSize g * b_dataSliceCount g \<and>
      length (b_chunkSetBuffer r) = b_standardChunkDataSize g * totalSlices g \<and>
      all_good (good_slice md5 (b_startChunkDataSize g) (b_standardChunkDataSize g)) par g (padded g D) r \<and>
      distinct (rd_availableParityIdxs r) \<and> set (rd_availableParityIdxs r) \<subseteq> {b_dataSliceCount g..<totalSlices g}" (is ?safe)
    and "readable_quorum md5 par g (padded g D) un d p sl \<Longrightarrow> out = None \<and>
      (\<exists>A. keeps (live_slice md5 (b_startChunkDataSize g) (b_standardChunkDataSize g))
        (opened_slice md5 (b_startChunkDataSize g) (b_standardChunkDataSize g)) calm_slice par g (padded g D) A r \<and> quorum g A r)"
proof -
  note lf = layout_facts [OF lay]
  obtain r1 where r1: "configureInternals rsCreate mem (Some pl') (new_reader sz C d p :: disk_slice reader) = Inr r1"
    "base_ok r1" "length (b_chunkSetBuffer r1) = b_standardChunkDataSize r1 * totalSlices r1" "b_dataSliceCount r1 = d"
    "b_paritySliceCount r1 = p" "base.more r1 = base.more (new_reader sz C d p :: disk_slice reader)" "geom g = geom r1"
    and sds: "b_standardChunkSetDataSize r1 = b_standardChunkDataSize g * b_dataSliceCount g"
    using lf(8) by blast
  have gd: "good_slice md5 (b_startChunkDataSize g) (b_standardChunkDataSize g) (slice_chunks par g (padded g D) i) (sl i)"
    if "i < d + p" for i using good that by simp
  note pr = source.reader_prepare_ok [OF r1 gd prep]
  show ?safe using pr(1) sds by simp
  assume q: "readable_quorum md5 par g (padded g D) un d p sl"
  then obtain A where A: "A \<subseteq> {..<d + p}" "d \<le> card A"
    and st: "\<forall>i \<in> A. isAvailable un (fst (sl i)) \<and> stored_slice md5 (slice_chunks par g (padded g D) i) (sl i)"
    and cl: "\<forall>i < d + p. calm_slice (sl i)" by (auto simp: readable_quorum_def)
  have "\<forall>i \<in> A. isAvailable un (fst (sl i)) \<and>
      live_slice md5 (b_startChunkDataSize g) (b_standardChunkDataSize g) (slice_chunks par g (padded g D) i) (sl i)"
    using stored_live [OF lf(1) _ md5] A(1) st unfolding lf(6,7) by blast
  from pr(2) [OF _ A cl this] show "out = None \<and>
      (\<exists>A. keeps (live_slice md5 (b_startChunkDataSize g) (b_standardChunkDataSize g))
        (opened_slice md5 (b_startChunkDataSize g) (b_standardChunkDataSize g)) calm_slice par g (padded g D) A r \<and> quorum g A r)"
    by blast
qed

lemma read_object_ok:
  fixes sl :: "nat \<Rightarrow> disk_slice"
  assumes "object_layout rsCreate mem pl' sz C d p g" and "rs_law d p enc par" "length D = sz" "digest16 md5"
    and "\<forall>i < d + p. good_slice md5 (b_startChunkDataSize g) (b_standardChunkDataSize g) (slice_chunks par g (padded g D) i) (sl i)"
    and "reader_prepare rsCreate mem (Some pl') (\<lambda>i. Inr (sl i)) (\<lambda>i. isAvailable un (fst (sl i)))
        (on_slice (slice_open md5)) (new_reader sz C d p) = (out, r)"
    and "rd = readSliceChunk md5 (b_startChunkDataSize g) (b_standardChunkDataSize g)"
    and "a < b" "b \<le> sz"
  shows "(out = None \<longrightarrow> (\<exists>res r'. read_to_end rd (on_slice (slice_open md5)) enc (setReadRange a b r) = Some (res, r') \<and>
        (\<forall>bs. res = Inr bs \<longrightarrow> bs = take (b - a) (drop a D)))) \<and>
    (readable_quorum md5 par g (padded g D) un d p sl \<longrightarrow> out = None \<and>
      (\<exists>r'. read_to_end rd (on_slice (slice_open md5)) enc (setReadRange a b r) = Some (Inr (take (b - a) (drop a D)), r')))"
proof -
  define P where "P = padded g D"
  note lf = layout_facts [OF assms(1-3), folded P_def]
  have ok: "base_ok g" using lf(1) by (simp add: write_job_def)
  note prep = prepared [OF assms(1-6), folded P_def]
  have sub: "sub P a b = sub D a b" using assms(8,9) lf(3) by (metis drop_take take_take min.absorb1)
  have "sz \<le> coff g (set_count g)" using ok lf(4) by (simp add: base_ok_def)
  then have ab: "a < coff g (set_count g)" "b \<le> coff g (set_count g)" using assms(8,9) by simp_all
  have seek: "\<exists>res r'. read_to_end rd (on_slice (slice_open md5)) enc (setReadRange a b r) = Some (res, r') \<and>
      (\<forall>bs. res = Inr bs \<longrightarrow> bs = sub D a b) \<and>
      (keeps (live_slice md5 S T) (opened_slice md5 S T) calm_slice par g P A r \<and> quorum g A r \<longrightarrow> (\<exists>bs. res = Inr bs))"
    if "out = None" and ST: "S = b_startChunkDataSize g" "T = b_standardChunkDataSize g" for A S T
  proof -
    have rg: "geom r = geom g \<and> b_standardChunkSetDataSize r = b_standardChunkDataSize g * b_dataSliceCount g \<and>
        length (b_chunkSetBuffer r) = b_standardChunkDataSize g * totalSlices g \<and> all_good (good_slice md5 S T) par g P r \<and>
        distinct (rd_availableParityIdxs r) \<and> set (rd_availableParityIdxs r) \<subseteq> {b_dataSliceCount g..<totalSlices g}"
      using prep(1) that by blast
    obtain k where k: "k < set_count g" "reader_at (good_slice md5 S T) par g P k (setReadRange a b r)"
      "b_dataOffset (setReadRange a b r) = coff g k" "coff g k \<le> a" "a < coff g (Suc k)"
      "rd_startOffset (setReadRange a b r) = a" "rd_endOffset (setReadRange a b r) = b"
      "\<not> rd_hasReadSegment (setReadRange a b r)" and kp: "rd_availableParityIdxs (setReadRange a b r) = rd_availableParityIdxs r"
      "rd_slices (setReadRange a b r) = rd_slices r" "rd_openSliceIdxs (setReadRange a b r) = rd_openSliceIdxs r"
      "rd_failedSlices (setReadRange a b r) = rd_failedSlices r"
      using setReadRange_ok [OF ok, of r "good_slice md5 S T" par P a b] rg ab by auto
    have kq: "keeps lv op cl par g P A (setReadRange a b r) = keeps lv op cl par g P A r"
      "quorum g A (setReadRange a b r) = quorum g A r" for lv op cl
      using kp by (simp_all add: keeps_def quorum_def)
    have "max a (coff g k) = a" using k by simp
    then show ?thesis
      using source.read_to_end_ok [OF lf(1,2) k(1,2,3,8), of A] k(4-7) ab assms(8) sub
      by (simp add: assms(7) ST [symmetric] kq del: coff_Suc)
  qed
  show ?thesis using seek [OF _ refl refl] prep(2) unfolding P_def [symmetric] by blast
qed

text \<open>
  C2. Download. Take an object stored under a plan of the planner's shape, and slice files all of which yield a
  chunk that passes its checksum only if it is the right one (otherwise they may be lost, cut or damaged in any
  way; files that are consistent in themselves but belong to other contents are excluded). Any range read
  after a successful \<open>prepare\<close> returns, and returns exactly that range of the object or an error. When at least as
  many slices as the object has data slices are on readable volumes, not marked unavailable, and as the writer
  left them, and no operation on any slice is aborted by a shutdown, then \<open>prepare\<close> and every range
  read succeed.
\<close>

theorem object_read_correct:
  fixes sl :: "nat \<Rightarrow> disk_slice"
  assumes "object_layout rsCreate mem pl' sz C d p g" and "rs_law d p enc par" "length D = sz" "digest16 md5"
    and "\<forall>i < d + p. good_slice md5 (b_startChunkDataSize g) (b_standardChunkDataSize g) (slice_chunks par g (padded g D) i) (sl i)"
    and "reader_prepare rsCreate mem (Some pl') (\<lambda>i. Inr (sl i)) (\<lambda>i. isAvailable un (fst (sl i)))
        (on_slice (slice_open md5)) (new_reader sz C d p) = (out, r)"
    and "rd = readSliceChunk md5 (b_startChunkDataSize g) (b_standardChunkDataSize g)"
    and "a < b" "b \<le> sz"
  shows "(out = None \<longrightarrow> (\<exists>res r'. read_to_end rd (on_slice (slice_open md5)) enc (setReadRange a b r) = Some (res, r') \<and>
        (\<forall>bs. res = Inr bs \<longrightarrow> bs = take (b - a) (drop a D)))) \<and>
    (readable_quorum md5 par g (padded g D) un d p sl \<longrightarrow> out = None \<and>
      (\<exists>r'. read_to_end rd (on_slice (slice_open md5)) enc (setReadRange a b r) = Some (Inr (take (b - a) (drop a D)), r')))"
  by (rule read_object_ok [OF assms])

section \<open>A small download\<close>

text \<open>The object of the small upload, with the file of slice 0 lost.\<close>

definition small_stored :: "base \<Rightarrow> bytes \<Rightarrow> nat \<Rightarrow> disk_slice" where
  "small_stored g D i =
     (let s = new_slice (small_ref i) ''0102030405060708090a0b0c'' i 80 False NormalPriority;
          f = projr (slice_header sum_digest (small_ref i)) @ records sum_digest (slice_chunks xor_par g (padded g D) i)
      in (\<lparr>w_slice = s, w_vol = sample_volume\<lparr>v_committed := (if i = 0 then Map.empty else [sl_fileName s \<mapsto> f])\<rparr>,
           w_pm = pm_empty\<rparr>, []))"

lemma small_readable: "isReadable sample_volume" "present (v_mountPoint sample_volume)"
  by code_simp+

lemma small_stored_ok:
  assumes "write_job g xor_par xor_enc (padded g D)" "b_chunkSize g = 72" "b_dataSliceCount g = 2" "b_paritySliceCount g = 1"
  shows "i = 1 \<or> i = 2 \<Longrightarrow> stored_slice sum_digest (slice_chunks xor_par g (padded g D) i) (small_stored g D i)"
    "isAvailable [] (fst (small_stored g D i))" "calm_slice (small_stored g D i)"
    "good_slice sum_digest S T cs (small_stored g D 0)"
proof -
  assume i: "i = 1 \<or> i = 2"
  have "base_ok g" using assms(1) by (simp add: write_job_def)
  then have "b_standardChunkDataSize g = 56" using assms(2) by (simp add: base_ok_def)
  then have "\<forall>c \<in> set (slice_chunks xor_par g (padded g D) i). length c \<le> 56"
    using chunk_length(1) [OF assms(1), of _ i] csize_le [OF \<open>base_ok g\<close>] i assms(3,4) by (auto simp: slice_chunks_def)
  moreover obtain h where "slice_header sum_digest (small_ref i) = Inr h"
    using i by (auto simp: slice_header_def small_ref_def writeIntLE_def writeUInt8_def Let_def)
  ultimately show "stored_slice sum_digest (slice_chunks xor_par g (padded g D) i) (small_stored g D i)"
    using i small_readable by (auto simp: stored_slice_def small_stored_def fits_def new_slice_def small_ref_def isReadable_def)
qed (use small_readable in \<open>simp_all add: small_stored_def isAvailable_def calm_slice_def good_slice_def new_slice_def isReadable_def Let_def\<close>)

abbreviation small_populated :: plan where
  "small_populated \<equiv> projr (populatePlanDerivedFields small_plan)"

lemma small_layout:
  obtains g where "configureInternals (\<lambda>_ _. None) (\<lambda>n. replicate n 0) (Some small_populated) (new_base 20 72 2 1) = Inr g"
    "object_layout (\<lambda>_ _. None) (\<lambda>n. replicate n 0) small_populated 20 72 2 1 g"
proof -
  have ok: "plan_ok 20 2 72" by (simp add: plan_ok_def)
  have pl: "populatePlanDerivedFields small_plan = Inr small_populated"
    using populate_layout [OF _ _ _ ok, of small_plan] by (auto simp: small_plan_def)
  obtain g where g: "configureInternals (\<lambda>_ _. None) (\<lambda>n. replicate n 0) (Some small_populated) (new_base 20 72 2 1) = Inr g"
    using configureInternals_ok [OF pl, of "new_base 20 72 2 1" "\<lambda>_ _. None" "\<lambda>n. replicate n 0"] ok
    by (auto simp: new_base_def small_plan_def MAX_SAFE_INTEGER_def)
  moreover have "object_layout (\<lambda>_ _. None) (\<lambda>n. replicate n 0) small_populated 20 72 2 1 g"
    using g pl ok by (auto simp: object_layout_def MAX_SAFE_INTEGER_def small_plan_def intro!: exI [of _ small_plan])
  ultimately show thesis by (rule that)
qed

lemma sum_digest16 [simp]: "digest16 sum_digest" by (simp add: digest16_def sum_digest_def)

lemma small_files:
  assumes lay: "object_layout (\<lambda>_ _. None) (\<lambda>n. replicate n 0) small_populated 20 72 2 1 g" and D: "length D = 20"
  shows "\<forall>i < 2 + 1. good_slice sum_digest (b_startChunkDataSize g) (b_standardChunkDataSize g)
      (slice_chunks xor_par g (padded g D) i) (small_stored g D i)" (is ?good)
    and "readable_quorum sum_digest xor_par g (padded g D) [] 2 1 (small_stored g D)"
proof -
  note lf = layout_facts [OF lay xor_law D]
  note st = small_stored_ok [OF lf(1,5-7)]
  show ?good
  proof (intro allI impI)
    fix i :: nat assume "i < 2 + 1"
    then consider "i = 0" | "i = 1 \<or> i = 2" by linarith
    then show "good_slice sum_digest (b_startChunkDataSize g) (b_standardChunkDataSize g)
      (slice_chunks xor_par g (padded g D) i) (small_stored g D i)"
    proof cases
      case 2
      from stored_live [OF lf(1) _ sum_digest16 st(1) [OF 2]] 2 lf(6,7) show ?thesis
        by (auto simp: live_slice_def good_slice_def whole_file_def honest_file_def small_stored_def new_slice_def Let_def)
    qed (use st(4) in simp)
  qed
  show "readable_quorum sum_digest xor_par g (padded g D) [] 2 1 (small_stored g D)"
    unfolding readable_quorum_def using st(1-3) by (auto intro!: exI [of _ "{1, 2}"])
qed

theorem object_read_correct_witness:
  "\<exists>g r r'. configureInternals (\<lambda>_ _. None) (\<lambda>n. replicate n 0) (Some small_populated) (new_base 20 72 2 1) = Inr g \<and>
     reader_prepare (\<lambda>_ _. None) (\<lambda>n. replicate n 0) (Some small_populated)
       (\<lambda>i. Inr (small_stored g (replicate 20 7) i)) (\<lambda>i. isAvailable [] (fst (small_stored g (replicate 20 7) i)))
       (on_slice (slice_open sum_digest)) (new_reader 20 72 2 1) = (None, r) \<and>
     read_to_end (readSliceChunk sum_digest (b_startChunkDataSize g) (b_standardChunkDataSize g))
       (on_slice (slice_open sum_digest)) xor_enc (setReadRange 3 8 r) = Some (Inr (replicate 5 7), r')"
proof -
  obtain g where g: "configureInternals (\<lambda>_ _. None) (\<lambda>n. replicate n 0) (Some small_populated) (new_base 20 72 2 1) = Inr g"
    and lay: "object_layout (\<lambda>_ _. None) (\<lambda>n. replicate n 0) small_populated 20 72 2 1 g" by (rule small_layout)
  let ?D = "replicate 20 7 :: bytes"
  obtain out r where prep: "reader_prepare (\<lambda>_ _. None) (\<lambda>n. replicate n 0) (Some small_populated)
       (\<lambda>i. Inr (small_stored g ?D i)) (\<lambda>i. isAvailable [] (fst (small_stored g ?D i)))
       (on_slice (slice_open sum_digest)) (new_reader 20 72 2 1) = (out, r)" by force
  from object_read_correct [OF lay xor_law _ sum_digest16 small_files(1) [OF lay] prep refl, of 3 8] small_files(2) [OF lay, of ?D]
  show ?thesis using g prep by auto
qed

end
