(* ===== verification/Slice_Repair.thy ===== *)
theory Slice_Repair
  imports Object_Read
begin

text \<open>
  Restoring redundancy: \<open>SliceRepairer\<close> rebuilds one slice file from the survivors behind a
  whole-object checksum. The slice being written is used through the interface \<open>slice_target\<close>,
  an extension of the writer's \<open>slice_sink\<close>, and interpreted on the slices of the disks.
\<close>

section \<open>The repairer\<close>

definition targetVolumeId :: "nat list \<Rightarrow> nat list \<Rightarrow> nat \<Rightarrow> js_error + nat" where
  "targetVolumeId dataVols parityVols i =
    (if i < length dataVols then Inr (dataVols ! i)
     else if i - length dataVols < length parityVols then Inr (parityVols ! (i - length dataVols))
     else Inl (plain_error ''invalid slice index''))"

definition assertTargetWritable :: "(nat \<Rightarrow> volume option) \<Rightarrow> nat list \<Rightarrow> nat list \<Rightarrow> nat \<Rightarrow> js_error option" where
  "assertTargetWritable getVolume dataVols parityVols i =
    (case targetVolumeId dataVols parityVols i of Inl e \<Rightarrow> Some e
     | Inr vid \<Rightarrow>
       (case getVolume vid of
          Some v \<Rightarrow> if isWritable v then None else Some (coded_error ''EVOLUMEUNWRITABLE'' ''volume is not writable'')
        | None \<Rightarrow> Some (coded_error ''EVOLUMEUNWRITABLE'' ''volume is not writable'')))"

text \<open>
  The loop of \<open>repair\<close>: every chunk set is rebuilt in full, its data region is added to what is hashed
  (when the object has an md5), capped at the object's size, and the chunk of the slice is written.
\<close>

partial_function (option) repairLoop ::
  "'s slice_read \<Rightarrow> 's slice_op \<Rightarrow> rs_encode \<Rightarrow> 't slice_put \<Rightarrow> nat \<Rightarrow> nat \<Rightarrow> nat \<Rightarrow> bool \<Rightarrow> 's reader \<Rightarrow> 't \<Rightarrow> bytes
     \<Rightarrow> (js_error option \<times> 's reader \<times> 't \<times> bytes) option" where
  "repairLoop rdc opn enc put d sz i gate r t hashed =
    (case reconstructFullChunkSet rdc opn enc r of
       (Inl e, r1) \<Rightarrow> Some (Some e, r1, t, hashed)
     | (Inr None, r1) \<Rightarrow> Some (None, r1, t, hashed)
     | (Inr (Some (buf, c)), r1) \<Rightarrow>
         let hashed1 = (if gate then hashed @ take (min (d * c) (sz - length hashed)) buf else hashed) in
         (case put (buf_slice buf (i * c) (i * c + c)) t of
            (Some e, t1) \<Rightarrow> Some (Some e, r1, t1, hashed1)
          | (None, t1) \<Rightarrow> repairLoop rdc opn enc put d sz i gate r1 t1 hashed1))"

declare repairLoop.simps [code]

definition ecorrupt :: js_error where
  "ecorrupt = coded_error ''ECORRUPT'' ''reconstruction does not match stored object md5; refusing to overwrite slice''"

text \<open>The operations of the slice that is written.\<close>

record 't target_ops =
  t_create :: "'t slice_op"
  t_put :: "'t slice_put"
  t_close :: "'t slice_op"
  t_commit :: "'t slice_op"
  t_delete :: "'t slice_op"

text \<open>
  \<open>repair\<close>: \<open>check\<close> is the outcome of \<open>assertTargetWritable\<close>, \<open>prep\<close> of the reader's \<open>prepare\<close> and
  \<open>mk\<close> of the slice's constructor. The error (if any), the closed reader and the target are returned.
\<close>

definition repair ::
  "'s slice_read \<Rightarrow> 's slice_op \<Rightarrow> 's slice_op \<Rightarrow> rs_encode \<Rightarrow> (bytes \<Rightarrow> bytes) \<Rightarrow> 't target_ops \<Rightarrow> js_error option
     \<Rightarrow> js_error option \<times> 's reader \<Rightarrow> js_error + 't \<Rightarrow> bytes option \<Rightarrow> nat \<Rightarrow> nat \<Rightarrow> nat
     \<Rightarrow> (js_error option \<times> 's reader option \<times> 't option) option" where
  "repair rdc opn cls enc md5 T check prep mk expectedMd5 d sz i =
    (let fail = (\<lambda>e r t. Some (Some e, Some (reader_close cls r), Some (snd (t_delete T t)))) in
     case check of Some e \<Rightarrow> Some (Some e, None, None)
     | None \<Rightarrow>
     (case prep of (Some e, r) \<Rightarrow> Some (Some e, Some (reader_close cls r), None)
      | (None, r0) \<Rightarrow>
        let r = setReadRange 0 sz r0 in
        (case mk of Inl e \<Rightarrow> Some (Some e, Some (reader_close cls r), None)
         | Inr t0 \<Rightarrow>
           (case t_create T t0 of (Some e, t1) \<Rightarrow> fail e r t1
            | (None, t1) \<Rightarrow>
              Option.bind (repairLoop rdc opn enc (t_put T) d sz i (expectedMd5 \<noteq> None) r t1 []) (\<lambda>(res, r1, t2, hashed).
                case res of Some e \<Rightarrow> fail e r1 t2
                | None \<Rightarrow>
                  (case t_close T t2 of (Some e, t3) \<Rightarrow> fail e r1 t3
                   | (None, t3) \<Rightarrow>
                     if expectedMd5 \<noteq> None \<and> expectedMd5 \<noteq> Some (md5 hashed) then fail ecorrupt r1 t3
                     else (case t_commit T t3 of (Some e, t4) \<Rightarrow> fail e r1 t4
                           | (None, t4) \<Rightarrow> Some (None, Some (reader_close cls r1), Some t4))))))))"

section \<open>A full chunk set\<close>

context slice_source
begin

lemma reconstruct_ok:
  assumes job: "write_job g par enc P" and k: "k < set_count g" and at: "reader_at good par g P k r"
    and off: "b_dataOffset r = coff g k" "coff g (set_count g) < MAX_SAFE_INTEGER"
    and res: "reconstructFullChunkSet rdc opn enc r = (out, r')"
  shows "(\<forall>x. out = Inr x \<longrightarrow> (\<exists>buf. x = Some (buf, csize g k) \<and> length buf = totalSlices g * csize g k \<and>
        (\<forall>i < totalSlices g. shard (csize g k) i buf = slice_chunk par g P i k)) \<and>
      b_dataOffset r' = coff g (Suc k) \<and> rd_availableParityIdxs r' = rd_availableParityIdxs r \<and> geom r' = geom g \<and>
      (Suc k < set_count g \<longrightarrow> reader_at good par g P (Suc k) r')) \<and>
    (keeps live opened calm par g P A r \<and> quorum g A r \<longrightarrow> (\<exists>x. out = Inr x) \<and> keeps live opened calm par g P A r')"
proof -
  let ?c = "csize g k" and ?d = "b_dataSliceCount g"
  have ok: "base_ok g" using job by (simp add: write_job_def)
  have g: "geom r = geom g" and cfg: "configured r k" using at by (simp_all add: reader_at_def)
  note gs = geom_spec [OF g]
  have c: "b_chunkDataSize r = ?c" using cfg gs by (simp add: configured_def)
  have "coff g k \<le> coff g (set_count g - 1)" using k by (intro coff_mono) simp
  then have noteof: "\<not> hasReachedEOF r" using off gs ok by (simp add: hasReachedEOF_def base_ok_def)
  obtain o1 r1 where A1: "assembleDataRegion rdc opn enc True r = (o1, r1)"
    by (cases "assembleDataRegion rdc opn enc True r") auto
  note as = assemble_ok [OF job k at A1, of A]
  have st: "steady r r1" using as by blast
  note sd = steadyD [OF st]
  show ?thesis
  proof (cases o1)
    case (Some e)
    then have "out = Inl e" "r' = r1" using res noteof A1 by (auto simp: reconstructFullChunkSet_def Let_def)
    then show ?thesis using as Some by auto
  next
    case None
    define r1' where "r1' = r1\<lparr>b_rsSourcesBits := bits_from [0..<?d], b_rsTargetsBits := bits_from [?d..<totalSlices g]\<rparr>"
    have st1: "steady r r1'" using st steady_upd(4) steady_trans unfolding r1'_def by blast
    note sd1 = steadyD [OF st1]
    have lb1: "length (b_chunkSetBuffer r1') = b_standardChunkDataSize g * totalSlices g" using sd1(13) at by (simp add: reader_at_def)
    have "\<exists>buf. computeParity enc r1' = Inr (r1'\<lparr>b_chunkSetBuffer := buf\<rparr>) \<and> length buf = length (b_chunkSetBuffer r1') \<and>
      (\<forall>i < totalSlices g. shard ?c i buf =
         (if i \<in> set [?d..<totalSlices g] then slice_chunk par g P i k else shard ?c i (b_chunkSetBuffer r1')))"
    proof (rule computeParity_gen [OF job k _ _ lb1, of "[0..<?d]"])
      show "shard ?c i (b_chunkSetBuffer r1') = slice_chunk par g P i k" if "i \<in> set [0..<?d]" for i
        using as None that by (simp add: r1'_def)
    qed (use sd1(1,2) g cfg in \<open>auto simp: r1'_def\<close>)
    then obtain buf where cp: "computeParity enc r1' = Inr (r1'\<lparr>b_chunkSetBuffer := buf\<rparr>)" "length buf = length (b_chunkSetBuffer r1')"
      "\<forall>i < totalSlices g. shard ?c i buf =
         (if i \<in> set [?d..<totalSlices g] then slice_chunk par g P i k else shard ?c i (b_chunkSetBuffer r1'))" by blast
    define r2 where "r2 = r1'\<lparr>b_chunkSetBuffer := buf\<rparr>"
    have st2: "steady r r2" using st1 steady_upd(1) [OF cp(2)] steady_trans unfolding r2_def by blast
    note sd2 = steadyD [OF st2]
    have "all_good good par g P r2" using as by (simp add: r2_def r1'_def all_good_def)
    then have at2: "reader_at good par g P k r2" using at sd2 by (simp add: reader_at_def)
    have "coff g (Suc k) \<le> coff g (set_count g)" using k by (intro coff_mono) simp
    then obtain r3 where r3: "advanceChunkSet r2 = (None, r3)" "same_reader r2 r3" "b_dataOffset r3 = coff g (Suc k)" "geom r3 = geom g"
      "Suc k < set_count g \<longrightarrow> reader_at good par g P (Suc k) r3"
      using advance_ok [OF ok k at2] sd2(3) off by (auto simp del: coff_Suc)
    have dims: "b_dataSliceCount r1 = ?d" "b_paritySliceCount r1 = b_paritySliceCount g" using sd gs by simp_all
    have fit: "totalSlices g * ?c \<le> length buf" using cp(2) lb1 csize_le [OF ok] by (simp add: mult.commute)
    have out: "out = Inr (Some (take (totalSlices g * ?c) buf, ?c))" "r' = r3"
      using res noteof A1 None cp(1) r3(1) dims
      by (simp_all add: reconstructFullChunkSet_def Let_def c r1'_def r2_def buf_slice_def)
    have sh: "shard ?c i (take (totalSlices g * ?c) buf) = slice_chunk par g P i k" if i: "i < totalSlices g" for i
    proof -
      have "(i + 1) * ?c \<le> totalSlices g * ?c" using i by (intro mult_le_mono1) simp
      then have "shard ?c i (take (totalSlices g * ?c) buf) = shard ?c i buf" by (rule shard_take)
      then show ?thesis using cp(3) as None i by (auto simp: r1'_def)
    qed
    have kp: "keeps live opened calm par g P A r1 \<Longrightarrow> keeps live opened calm par g P A r3"
      using keeps_same [OF r3(2), of live opened calm par g P A] by (simp add: r2_def r1'_def keeps_def)
    show ?thesis using as None kp r3 sd2(8) sh fit by (auto simp: out same_reader_def)
  qed
qed

end

text \<open>The data region of a rebuilt chunk set is the chunk set of the object.\<close>

lemma region_cset:
  assumes "length P = coff g (set_count g)" "k < set_count g" "length buf = totalSlices g * csize g k"
    and "\<And>i. i < totalSlices g \<Longrightarrow> shard (csize g k) i buf = slice_chunk par g P i k"
  shows "take (b_dataSliceCount g * csize g k) buf = cset g P k"
proof (rule shards_eq [of _ "b_dataSliceCount g" "csize g k"])
  have X: "length (cset g P k) = b_dataSliceCount g * csize g k"
    using length_cset [of g k P] coff_mono [of "Suc k" "set_count g" g] assms(1,2) by (simp add: mult.commute)
  then show "length (cset g P k) = b_dataSliceCount g * csize g k" .
  show "length (take (b_dataSliceCount g * csize g k) buf) = b_dataSliceCount g * csize g k" using assms(3) by simp
  fix i assume i: "i < b_dataSliceCount g"
  have le: "(i + 1) * csize g k \<le> b_dataSliceCount g * csize g k" using i by (intro mult_le_mono1) simp
  then have "shard (csize g k) i (take (b_dataSliceCount g * csize g k) buf) = slice_chunk par g P i k"
    using assms(4) [of i] i by (simp add: shard_take)
  then show "shard (csize g k) i (take (b_dataSliceCount g * csize g k) buf) = shard (csize g k) i (cset g P k)"
    using le X by (simp add: slice_chunk_def shard_append_left)
qed

lemma hash_step:
  assumes "base_ok g" "length P = coff g (set_count g)" "k < set_count g" "length buf = totalSlices g * csize g k"
    and "\<And>i. i < totalSlices g \<Longrightarrow> shard (csize g k) i buf = slice_chunk par g P i k"
  shows "take (min (coff g k) (b_size g)) P @
      take (min (b_dataSliceCount g * csize g k) (b_size g - length (take (min (coff g k) (b_size g)) P))) buf =
    take (min (coff g (Suc k)) (b_size g)) P"
proof -
  let ?n = "b_dataSliceCount g * csize g k" and ?o = "coff g k" and ?sz = "b_size g"
  have "?o \<le> coff g (set_count g - 1)" using assms(3) by (intro coff_mono) simp
  then have o: "?o < ?sz" "?sz \<le> length P" using assms(1,2) by (simp_all add: base_ok_def)
  have m: "min ?n (?sz - ?o) \<le> ?n" by simp
  have "take (min ?n (?sz - ?o)) buf = take (min ?n (?sz - ?o)) (take ?n buf)" by (simp add: min_def)
  also have "\<dots> = take (min ?n (?sz - ?o)) (take ?n (drop ?o P))"
    using region_cset [OF assms(2-5)] by (simp add: cset_def mult.commute)
  also have "\<dots> = take (min ?n (?sz - ?o)) (drop ?o P)" by (simp add: min_def)
  finally have "take ?o P @ take (min ?n (?sz - ?o)) buf = take (?o + min ?n (?sz - ?o)) P" by (simp add: take_add)
  moreover have "?o + min ?n (?sz - ?o) = min (coff g (Suc k)) ?sz"
    using o(1) unfolding coff_Suc mult.commute [of "csize g k"] by (simp only: min_def split: if_splits) linarith
  ultimately show ?thesis using o by (simp add: min_def del: coff_Suc)
qed

section \<open>Writing the target\<close>

text \<open>
  What repair relies on: nothing but \<open>commit\<close> touches the committed files, and it installs a file \<open>f\<close> that the
  slice holds. Whether a slice that holds \<open>bs\<close> commits exactly \<open>bs\<close> or less is \<open>lands\<close>.
\<close>

locale slice_target = slice_sink put "\<lambda>_. holds" recd accepts
  for put :: "'t slice_put" and holds :: "'t \<Rightarrow> bytes \<Rightarrow> bool" and recd :: "bytes \<Rightarrow> bytes" and accepts :: "nat \<Rightarrow> 't \<Rightarrow> bool" +
  fixes lands :: "bytes \<Rightarrow> bytes \<Rightarrow> bool" and create close commit del :: "'t slice_op" and files :: "'t \<Rightarrow> string \<rightharpoonup> bytes" and name :: "'t \<Rightarrow> string"
    and header :: "'t \<Rightarrow> bytes" and fresh :: "'t \<Rightarrow> bool" and ready :: "nat \<Rightarrow> 't \<Rightarrow> bool" and closed :: "'t \<Rightarrow> bool"
  assumes create_ok: "create s = (r, s') \<Longrightarrow> fresh s \<Longrightarrow>
      fresh s' \<and> files s' = files s \<and> name s' = name s \<and> (r = None \<longrightarrow> holds s' (header s))"
    and put_frame: "put b s = (r, s') \<Longrightarrow> fresh s \<Longrightarrow> fresh s' \<and> files s' = files s \<and> name s' = name s"
    and close_ok: "close s = (r, s') \<Longrightarrow> fresh s \<Longrightarrow>
      fresh s' \<and> files s' = files s \<and> name s' = name s \<and> (\<forall>bs. holds s bs \<longrightarrow> holds s' bs)"
    and commit_ok: "commit s = (r, s') \<Longrightarrow> fresh s \<Longrightarrow> holds s bs \<Longrightarrow> name s' = name s \<and> (r \<noteq> None \<longrightarrow> fresh s') \<and>
      (files s' = files s \<or> (\<exists>f. lands bs f \<and> files s' = (files s)(name s \<mapsto> f))) \<and>
      (r = None \<longrightarrow> (\<exists>f. lands bs f \<and> files s' = (files s)(name s \<mapsto> f)))"
    and delete_ok: "del s = (r, s') \<Longrightarrow> fresh s \<Longrightarrow> files s' = files s"
    and create_total: "ready n s \<Longrightarrow> \<exists>s'. create s = (None, s') \<and> accepts n s'"
    and close_total: "accepts n s \<Longrightarrow> \<exists>s'. close s = (None, s') \<and> closed s'"
    and commit_total: "closed s \<Longrightarrow> \<exists>s'. commit s = (None, s')"

locale slice_rebuild = slice_source rdc opn good live opened calm +
  slice_target put holds recd accepts lands create close commit del files name header fresh ready closed
  for rdc :: "'s slice_read" and opn :: "'s slice_op" and good live opened :: "bytes list \<Rightarrow> 's \<Rightarrow> bool" and calm :: "'s \<Rightarrow> bool"
    and put :: "'t slice_put" and holds :: "'t \<Rightarrow> bytes \<Rightarrow> bool" and recd :: "bytes \<Rightarrow> bytes" and accepts :: "nat \<Rightarrow> 't \<Rightarrow> bool"
    and lands :: "bytes \<Rightarrow> bytes \<Rightarrow> bool" and create close commit del :: "'t slice_op" and files :: "'t \<Rightarrow> string \<rightharpoonup> bytes" and name :: "'t \<Rightarrow> string"
    and header :: "'t \<Rightarrow> bytes" and fresh :: "'t \<Rightarrow> bool" and ready :: "nat \<Rightarrow> 't \<Rightarrow> bool" and closed :: "'t \<Rightarrow> bool"
begin

lemma repairLoop_ok:
  assumes job: "write_job g par enc P" and max: "coff g (set_count g) < MAX_SAFE_INTEGER" and i: "i < totalSlices g"
    and "k \<le> set_count g" "b_dataOffset r = coff g k" "geom r = geom g" "k < set_count g \<longrightarrow> reader_at good par g P k r"
    and "fresh t" "holds t (H @ concat (map (\<lambda>j. recd (slice_chunk par g P i j)) [0..<k]))"
    and "gate \<longrightarrow> hashed = take (min (coff g k) (b_size g)) P"
  shows "\<exists>res r' t' hs. repairLoop rdc opn enc put (b_dataSliceCount g) (b_size g) i gate r t hashed = Some (res, r', t', hs) \<and>
    fresh t' \<and> files t' = files t \<and> name t' = name t \<and>
    (res = None \<longrightarrow> holds t' (H @ concat (map (\<lambda>j. recd (slice_chunk par g P i j)) [0..<set_count g])) \<and>
      (gate \<longrightarrow> hs = take (b_size g) P)) \<and>
    (keeps live opened calm par g P A r \<and> quorum g A r \<and> accepts (b_standardChunkDataSize g) t \<longrightarrow>
      res = None \<and> accepts (b_standardChunkDataSize g) t')"
  using assms(4-)
proof (induction "set_count g - k" arbitrary: k r t hashed)
  case 0
  have ok: "base_ok g" using job by (simp add: write_job_def)
  have k: "k = set_count g" using 0 by simp
  then have sz: "b_size g \<le> b_dataOffset r" "b_size r = b_size g" using 0 ok geom_spec [of r g] by (simp_all add: base_ok_def)
  then have "reconstructFullChunkSet rdc opn enc r = (Inr None, r)" by (simp add: reconstructFullChunkSet_def hasReachedEOF_def)
  then have "repairLoop rdc opn enc put (b_dataSliceCount g) (b_size g) i gate r t hashed = Some (None, r, t, hashed)"
    by (subst repairLoop.simps) simp
  then show ?case using 0 k sz by (auto simp: min_def split: if_splits)
next
  case (Suc x)
  let ?c = "csize g k" and ?d = "b_dataSliceCount g"
  have ok: "base_ok g" and lenP: "length P = coff g (set_count g)" using job by (simp_all add: write_job_def)
  have k: "k < set_count g" using Suc.hyps(2) by simp
  have at: "reader_at good par g P k r" using Suc.prems k by simp
  obtain out r1 where R: "reconstructFullChunkSet rdc opn enc r = (out, r1)" by (cases "reconstructFullChunkSet rdc opn enc r") auto
  note rc = reconstruct_ok [OF job k at Suc.prems(2) max R, of A]
  show ?case
  proof (cases out)
    case (Inl e)
    then have "repairLoop rdc opn enc put ?d (b_size g) i gate r t hashed = Some (Some e, r1, t, hashed)"
      by (subst repairLoop.simps) (simp add: R)
    then show ?thesis using Suc.prems(5) rc Inl by auto
  next
    case (Inr y)
    obtain buf where y: "y = Some (buf, ?c)" and lb: "length buf = totalSlices g * ?c"
      and sh: "\<forall>i < totalSlices g. shard ?c i buf = slice_chunk par g P i k"
      and r1: "b_dataOffset r1 = coff g (Suc k)" "rd_availableParityIdxs r1 = rd_availableParityIdxs r" "geom r1 = geom g"
        "Suc k < set_count g \<longrightarrow> reader_at good par g P (Suc k) r1"
      and kp: "keeps live opened calm par g P A r \<and> quorum g A r \<Longrightarrow> keeps live opened calm par g P A r1 \<and> quorum g A r1"
      using rc Inr by (auto simp: quorum_def simp del: coff_Suc)
    define hashed1 where "hashed1 = (if gate then hashed @ take (min (?d * ?c) (b_size g - length hashed)) buf else hashed)"
    have chunk: "buf_slice buf (i * ?c) (i * ?c + ?c) = slice_chunk par g P i k"
      using sh i by (simp add: buf_slice_def shard_def)
    have lc: "length (slice_chunk par g P i k) \<le> b_standardChunkDataSize g"
      using chunk_length(1) [OF job k i] csize_le [OF ok, of k] by simp
    obtain o1 t1 where W: "put (slice_chunk par g P i k) t = (o1, t1)" by (cases "put (slice_chunk par g P i k) t") auto
    note fr = put_frame [OF W Suc.prems(5)]
    have acc: "accepts (b_standardChunkDataSize g) t \<Longrightarrow> o1 = None \<and> accepts (b_standardChunkDataSize g) t1"
      using put_total [OF _ lc] W by fastforce
    have step: "repairLoop rdc opn enc put ?d (b_size g) i gate r t hashed =
        (case o1 of Some e \<Rightarrow> Some (Some e, r1, t1, hashed1)
         | None \<Rightarrow> repairLoop rdc opn enc put ?d (b_size g) i gate r1 t1 hashed1)"
      unfolding hashed1_def by (subst repairLoop.simps) (simp add: R Inr y chunk W Let_def split: option.split)
    show ?thesis
    proof (cases o1)
      case (Some e)
      then show ?thesis using step fr acc by auto
    next
      case None
      have cont: "holds t1 (H @ concat (map (\<lambda>j. recd (slice_chunk par g P i j)) [0..<Suc k]))"
        using put_ok [OF _ Suc.prems(6), of "slice_chunk par g P i k" t1] W None by simp
      have h1: "gate \<longrightarrow> hashed1 = take (min (coff g (Suc k)) (b_size g)) P"
        using Suc.prems(7) hash_step [OF ok lenP k lb, of par] sh by (simp add: hashed1_def del: coff_Suc)
      have "\<exists>res r' t' hs. repairLoop rdc opn enc put ?d (b_size g) i gate r1 t1 hashed1 = Some (res, r', t', hs) \<and>
        fresh t' \<and> files t' = files t1 \<and> name t' = name t1 \<and>
        (res = None \<longrightarrow> holds t' (H @ concat (map (\<lambda>j. recd (slice_chunk par g P i j)) [0..<set_count g])) \<and>
          (gate \<longrightarrow> hs = take (b_size g) P)) \<and>
        (keeps live opened calm par g P A r1 \<and> quorum g A r1 \<and> accepts (b_standardChunkDataSize g) t1 \<longrightarrow>
          res = None \<and> accepts (b_standardChunkDataSize g) t')"
        using Suc.hyps(2) k r1 fr cont h1 by (intro Suc.hyps(1)) auto
      then show ?thesis using step None fr acc kp by (auto simp del: coff_Suc)
    qed
  qed
qed

lemma repair_ok:
  fixes md5 :: "bytes \<Rightarrow> bytes" and expd :: "bytes option"
  assumes job: "write_job g par enc P" and max: "coff g (set_count g) < MAX_SAFE_INTEGER" and i: "i < totalSlices g"
    and rd: "fst prep = None \<Longrightarrow> geom (snd prep) = geom g \<and>
      b_standardChunkSetDataSize (snd prep) = b_standardChunkDataSize g * b_dataSliceCount g \<and>
      length (b_chunkSetBuffer (snd prep)) = b_standardChunkDataSize g * totalSlices g \<and> all_good good par g P (snd prep) \<and>
      distinct (rd_availableParityIdxs (snd prep)) \<and> set (rd_availableParityIdxs (snd prep)) \<subseteq> {b_dataSliceCount g..<totalSlices g}"
    and t0: "fresh t0"
  defines "F \<equiv> header t0 @ concat (map (\<lambda>j. recd (slice_chunk par g P i j)) [0..<set_count g])"
    and "pass \<equiv> expd = None \<or> expd = Some (md5 (take (b_size g) P))"
    and "T \<equiv> \<lparr>t_create = create, t_put = put, t_close = close, t_commit = commit, t_delete = del\<rparr>"
  shows "\<exists>out ro to. repair rdc opn cls enc md5 T chk prep (Inr t0) expd (b_dataSliceCount g) (b_size g) i = Some (out, ro, to) \<and>
    (\<forall>t. to = Some t \<longrightarrow> files t = files t0 \<or> pass \<and> (\<exists>f. lands F f \<and> files t = (files t0)(name t0 \<mapsto> f))) \<and>
    (out = None \<longrightarrow> pass \<and> (\<exists>t f. to = Some t \<and> lands F f \<and> files t = (files t0)(name t0 \<mapsto> f))) \<and>
    (chk = None \<and> fst prep = None \<and> keeps live opened calm par g P A (snd prep) \<and> quorum g A (snd prep) \<and>
      ready (b_standardChunkDataSize g) t0 \<and> pass \<longrightarrow> out = None)"
proof (cases "chk = None \<and> fst prep = None")
  case False
  then show ?thesis
    by (cases prep; cases chk) (auto simp: repair_def Let_def split: option.splits)
next
  case True
  obtain r0 where prep: "prep = (None, r0)" using True by (cases prep) auto
  have ok: "base_ok g" using job by (simp add: write_job_def)
  have "0 < set_count g" by (simp add: set_count_def)
  then have pos: "0 < coff g (set_count g)" using coff_less [OF ok, of 0 "set_count g"] by simp
  define r where "r = setReadRange 0 (b_size g) r0"
  obtain k where k: "k < set_count g" "reader_at good par g P k r" "b_dataOffset r = coff g k" "coff g k = 0"
    and kp: "rd_availableParityIdxs r = rd_availableParityIdxs r0" "rd_slices r = rd_slices r0"
      "rd_openSliceIdxs r = rd_openSliceIdxs r0" "rd_failedSlices r = rd_failedSlices r0"
    using setReadRange_ok [OF ok, of r0 good par P 0 "b_size g"] rd pos prep by (auto simp: r_def)
  have k0: "k = 0" using coff_less [OF ok, of 0 k] k by (cases k) simp_all
  have geo: "geom r = geom g" using k(2) by (simp add: reader_at_def)
  have kq: "keeps lv op cl par g P A r = keeps lv op cl par g P A r0" "quorum g A r = quorum g A r0" for lv op cl
    using kp by (simp_all add: keeps_def quorum_def)
  have dl: "files (snd (del t)) = files t" if "fresh t" for t using delete_ok [of t "fst (del t)" "snd (del t)"] that by simp
  obtain o1 t1 where C: "create t0 = (o1, t1)" by (cases "create t0") auto
  note c1 = create_ok [OF C t0]
  have ops: "t_create T = create" "t_put T = put" "t_close T = close" "t_commit T = commit" "t_delete T = del" by (simp_all add: T_def)
  have run: "repair rdc opn cls enc md5 T chk prep (Inr t0) expd (b_dataSliceCount g) (b_size g) i =
    (case o1 of Some e \<Rightarrow> Some (Some e, Some (reader_close cls r), Some (snd (t_delete T t1)))
     | None \<Rightarrow> Option.bind (repairLoop rdc opn enc (t_put T) (b_dataSliceCount g) (b_size g) i (expd \<noteq> None) r t1 []) (\<lambda>(res, r1, t2, hashed).
        case res of Some e \<Rightarrow> Some (Some e, Some (reader_close cls r1), Some (snd (t_delete T t2)))
        | None \<Rightarrow> (case t_close T t2 of (Some e, t3) \<Rightarrow> Some (Some e, Some (reader_close cls r1), Some (snd (t_delete T t3)))
           | (None, t3) \<Rightarrow>
             if expd \<noteq> None \<and> expd \<noteq> Some (md5 hashed) then Some (Some ecorrupt, Some (reader_close cls r1), Some (snd (t_delete T t3)))
             else (case t_commit T t3 of (Some e, t4) \<Rightarrow> Some (Some e, Some (reader_close cls r1), Some (snd (t_delete T t4)))
                   | (None, t4) \<Rightarrow> Some (None, Some (reader_close cls r1), Some t4)))))"
    unfolding r_def using True C by (simp add: repair_def Let_def prep ops(1) del: not_None_eq cong: option.case_cong)
  note run = run [unfolded ops]
  show ?thesis
  proof (cases o1)
    case (Some e)
    then show ?thesis using run c1 dl [of t1] create_total [of "b_standardChunkDataSize g" t0] C by auto
  next
    case o1: None
    obtain res r1 t2 hs where L: "repairLoop rdc opn enc put (b_dataSliceCount g) (b_size g) i (expd \<noteq> None) r t1 [] = Some (res, r1, t2, hs)"
      "fresh t2" "files t2 = files t1" "name t2 = name t1"
      "res = None \<longrightarrow> holds t2 F \<and> (expd \<noteq> None \<longrightarrow> hs = take (b_size g) P)"
      "keeps live opened calm par g P A r \<and> quorum g A r \<and> accepts (b_standardChunkDataSize g) t1 \<longrightarrow>
         res = None \<and> accepts (b_standardChunkDataSize g) t2"
      using repairLoop_ok [OF job max i, of 0 r t1 "header t0" "expd \<noteq> None" "[]" A] k k0 c1 o1 geo by (auto simp: F_def)
    have acc: "ready (b_standardChunkDataSize g) t0 \<Longrightarrow> accepts (b_standardChunkDataSize g) t1"
      using create_total C o1 by fastforce
    show ?thesis
    proof (cases res)
      case (Some e)
      then show ?thesis using run o1 L c1 dl [of t2] acc kq prep by auto
    next
      case res: None
      obtain o3 t3 where CL: "close t2 = (o3, t3)" by (cases "close t2") auto
      note c3 = close_ok [OF CL L(2)]
      have cl: "accepts (b_standardChunkDataSize g) t2 \<Longrightarrow> o3 = None \<and> closed t3" using close_total CL by fastforce
      show ?thesis
      proof (cases o3)
        case (Some e)
        then show ?thesis using run o1 L(1-4) L(6) res CL c1 c3 dl [of t3] acc cl kq prep by auto
      next
        case o3: None
        have pass: "(expd \<noteq> None \<and> expd \<noteq> Some (md5 hs)) = (\<not> pass)" using L(5) res by (auto simp: pass_def)
        show ?thesis
        proof (cases pass)
          case False
          then show ?thesis using run o1 L(1-4) res CL o3 c1 c3 dl [of t3] pass by auto
        next
          case True
          obtain o4 t4 where CM: "commit t3 = (o4, t4)" by (cases "commit t3") auto
          have "fresh t3" using c3 by blast
          moreover have h3: "holds t3 F" using c3 L(5) res by simp
          ultimately have c4: "name t4 = name t3" "o4 \<noteq> None \<longrightarrow> fresh t4"
              "files t4 = files t3 \<or> (\<exists>f. lands F f \<and> files t4 = (files t3)(name t3 \<mapsto> f))"
              "o4 = None \<longrightarrow> (\<exists>f. lands F f \<and> files t4 = (files t3)(name t3 \<mapsto> f))"
            using commit_ok [OF CM] by blast+
          have "closed t3 \<Longrightarrow> o4 = None" using commit_total CM by fastforce
          then show ?thesis
            using run o1 L(1-4) L(6) res CL o3 c1 c3 c4 CM pass True dl [of t4] acc cl kq prep by (cases o4) auto
        qed
      qed
    qed
  qed
qed

end

section \<open>Repair on the slices of the disks\<close>

definition disk_target :: "(bytes \<Rightarrow> bytes) \<Rightarrow> disk_slice target_ops" where
  "disk_target md5 = \<lparr>t_create = on_slice (slice_create md5), t_put = put_slice md5, t_close = on_slice slice_close,
     t_commit = on_slice slice_commit, t_delete = on_slice slice_delete\<rparr>"

definition stored_files :: "disk_slice \<Rightarrow> string \<rightharpoonup> bytes" where
  "stored_files s = v_committed (w_vol (fst s))"

definition slice_name :: "disk_slice \<Rightarrow> string" where
  "slice_name s = sl_fileName (w_slice (fst s))"

definition uncommitted :: "disk_slice \<Rightarrow> bool" where
  "uncommitted s \<longleftrightarrow> \<not> sl_isCommitted (w_slice (fst s))"

definition ready_slice :: "(bytes \<Rightarrow> bytes) \<Rightarrow> nat \<Rightarrow> disk_slice \<Rightarrow> bool" where
  "ready_slice md5 n s \<longleftrightarrow> snd s = [] \<and> (\<exists>h. ready_to_write md5 (fst s) h) \<and> 16 + int n \<le> sr_chunkSize (sl_ref (w_slice (fst s)))"

definition has_temporary :: "disk_slice \<Rightarrow> bool" where
  "has_temporary s \<longleftrightarrow> guard_writable (w_vol (fst s)) = None \<and> v_tmp (w_vol (fst s)) (slice_name s) \<noteq> None"

definition closed_slice :: "disk_slice \<Rightarrow> bool" where
  "closed_slice s \<longleftrightarrow> snd s = [] \<and> has_temporary s \<and> \<not> sl_isPerformingIO (w_slice (fst s))"

lemmas target_defs = stored_files_def slice_name_def uncommitted_def on_slice_def

lemma create_disk:
  assumes "slice_create md5 env w = (r, w')"
  shows "v_committed (w_vol w') = v_committed (w_vol w)" "sl_fileName (w_slice w') = sl_fileName (w_slice w)"
    "sl_isCommitted (w_slice w') = sl_isCommitted (w_slice w)"
proof -
  have d: "v_committed (snd (deleteTemporaryFile fs n v)) = v_committed v" for fs n v
    by (simp add: deleteTemporaryFile_def split: option.splits)
  show "v_committed (w_vol w') = v_committed (w_vol w)" "sl_fileName (w_slice w') = sl_fileName (w_slice w)"
    "sl_isCommitted (w_slice w') = sl_isCommitted (w_slice w)"
    using assms by (auto simp: slice_create_def createTemporaryFh_def appendTemporary_def cleanupOutputHandle_def d Let_def
        split: if_splits option.splits sum.splits)
qed

lemma close_disk:
  assumes "slice_close env w = (r, w')"
  shows "w_vol w' = w_vol w" "sl_fileName (w_slice w') = sl_fileName (w_slice w)" "sl_isCommitted (w_slice w') = sl_isCommitted (w_slice w)"
  using assms by (auto simp: slice_close_def Let_def split: if_splits option.splits slice_mode.splits)

lemma put_disk:
  assumes "slice_writeChunk md5 env data w = (r, w')"
  shows "v_committed (w_vol w') = v_committed (w_vol w)" "sl_fileName (w_slice w') = sl_fileName (w_slice w)"
    "sl_isCommitted (w_slice w') = sl_isCommitted (w_slice w)"
  using assms by (auto simp: slice_writeChunk_def Let_def appendTemporary_def split: if_splits option.splits)

lemma commit_disk:
  assumes "slice_commit env w = (r, w')"
  shows "sl_fileName (w_slice w') = sl_fileName (w_slice w)" "r \<noteq> None \<longrightarrow> sl_isCommitted (w_slice w') = sl_isCommitted (w_slice w)"
    "v_committed (w_vol w') = v_committed (w_vol w) \<and> r \<noteq> None \<or>
     (\<exists>f. v_tmp (w_vol w) (sl_fileName (w_slice w)) = Some f \<and> v_committed (w_vol w') = (v_committed (w_vol w))(sl_fileName (w_slice w) \<mapsto> f))"
  using assms by (auto simp: slice_commit_def commitTemporaryFile_def Let_def split: if_splits option.splits)

lemma delete_disk:
  assumes "slice_delete env w = (r, w')" "\<not> sl_isCommitted (w_slice w)"
  shows "v_committed (w_vol w') = v_committed (w_vol w)"
proof -
  have "v_committed (releaseReservation n v) = v_committed v" for n v by (simp add: releaseReservation_def)
  then show ?thesis
    using assms by (auto simp: slice_delete_def deleteTemporaryFile_def Let_def split: if_splits option.splits)
qed

text \<open>
  With \<open>b\<close> set the target's writes are all whole: what it holds and commits is exactly what was written.
\<close>

definition target_holds :: "bool \<Rightarrow> disk_slice \<Rightarrow> bytes \<Rightarrow> bool" where
  "target_holds b = slice_held (\<lambda>_. b) 0"

definition target_lands :: "bool \<Rightarrow> bytes \<Rightarrow> bytes \<Rightarrow> bool" where
  "target_lands b full f \<longleftrightarrow> (f = full \<or> length f < length full) \<and> (b \<longrightarrow> f = full)"

definition fresh_target :: "bool \<Rightarrow> disk_slice \<Rightarrow> bool" where
  "fresh_target b s \<longleftrightarrow> uncommitted s \<and> (b \<longrightarrow> never_short s)"

interpretation target: slice_target "put_slice md5" "target_holds b" "chunk_record md5"
  "\<lambda>n s. accepts_chunks n s \<and> has_temporary s" "target_lands b" "on_slice (slice_create md5)" "on_slice slice_close" "on_slice slice_commit"
  "on_slice slice_delete" stored_files slice_name "own_header md5" "fresh_target b" "ready_slice md5" closed_slice for md5 b
proof
  fix s s' :: disk_slice and r d n bs and i :: nat
  have tl: "(b \<longrightarrow> never_short s) \<Longrightarrow> b \<longrightarrow> never_short (w, tl (snd s))" for w using never_short_next by blast
  show "target_holds b s' (bs @ chunk_record md5 d)" if "put_slice md5 d s = (None, s')" "target_holds b s bs"
    using put_held that unfolding target_holds_def by blast
  show "\<exists>s'. put_slice md5 d s = (None, s') \<and> accepts_chunks n s' \<and> has_temporary s'"
    if "accepts_chunks n s \<and> has_temporary s" "length d \<le> n"
    using that by (auto simp: put_slice_def accepts_chunks_def next_env_def slice_writeChunk_def writing_def Let_def
        CHUNK_HEADER_SIZE_def has_temporary_def slice_name_def appendTemporary_def)
  show "fresh_target b s' \<and> stored_files s' = stored_files s \<and> slice_name s' = slice_name s \<and>
      (r = None \<longrightarrow> target_holds b s' (own_header md5 s))"
    if c: "on_slice (slice_create md5) s = (r, s')" "fresh_target b s"
  proof -
    have "r = None \<Longrightarrow> target_holds b s' (own_header md5 s)"
      using create_held [of md5 s s' 0] c by (auto simp: target_holds_def fresh_target_def slice_held_def)
    then show ?thesis
      using c create_disk [of md5 "next_env (snd s)" "fst s" r "fst s'"] tl [of "fst s'"]
      by (auto simp: target_defs fresh_target_def split: prod.splits)
  qed
  show "fresh_target b s' \<and> stored_files s' = stored_files s \<and> slice_name s' = slice_name s"
    if "put_slice md5 d s = (r, s')" "fresh_target b s"
    using that put_disk [of md5 "next_env (snd s)" d "fst s" r "fst s'"] tl [of "fst s'"]
    by (auto simp: target_defs fresh_target_def put_slice_def split: prod.splits)
  show "fresh_target b s' \<and> stored_files s' = stored_files s \<and> slice_name s' = slice_name s \<and>
      (\<forall>bs. target_holds b s bs \<longrightarrow> target_holds b s' bs)"
    if "on_slice slice_close s = (r, s')" "fresh_target b s"
    using that close_disk [of "next_env (snd s)" "fst s" r "fst s'"] tl [of "fst s'"]
    by (auto simp: target_defs fresh_target_def target_holds_def slice_held_def slice_bytes_def split: prod.splits)
  show "slice_name s' = slice_name s \<and> (r \<noteq> None \<longrightarrow> fresh_target b s') \<and>
      (stored_files s' = stored_files s \<or> (\<exists>f. target_lands b bs f \<and> stored_files s' = (stored_files s)(slice_name s \<mapsto> f))) \<and>
      (r = None \<longrightarrow> (\<exists>f. target_lands b bs f \<and> stored_files s' = (stored_files s)(slice_name s \<mapsto> f)))"
    if c: "on_slice slice_commit s = (r, s')" "fresh_target b s" "target_holds b s bs"
  proof -
    have "target_lands b bs (slice_bytes s)" using c(3) by (auto simp: target_holds_def target_lands_def slice_held_def)
    moreover have "slice_name s' = slice_name s" "r \<noteq> None \<longrightarrow> fresh_target b s'"
        "stored_files s' = stored_files s \<and> r \<noteq> None \<or> stored_files s' = (stored_files s)(slice_name s \<mapsto> slice_bytes s)"
      using c(1,2) commit_disk [of "next_env (snd s)" "fst s" r "fst s'"] tl [of "fst s'"]
      by (auto simp: target_defs fresh_target_def slice_bytes_def split: prod.splits)
    ultimately show ?thesis by blast
  qed
  show "stored_files s' = stored_files s" if "on_slice slice_delete s = (r, s')" "fresh_target b s"
    using that delete_disk [of "next_env (snd s)" "fst s" r "fst s'"] by (auto simp: target_defs fresh_target_def split: prod.splits)
  show "\<exists>s'. on_slice (slice_create md5) s = (None, s') \<and> accepts_chunks n s' \<and> has_temporary s'" if rdy: "ready_slice md5 n s"
  proof -
    obtain h where h: "ready_to_write md5 (fst s) h" "snd s = []" "16 + int n \<le> sr_chunkSize (sl_ref (w_slice (fst s)))"
      using rdy by (auto simp: ready_slice_def)
    then have "guard_writable (w_vol (fst s)) = None" by (simp add: ready_to_write_def)
    with create_quiet [OF h(1)] h(2,3) show ?thesis
      by (auto simp: on_slice_def next_env_def accepts_chunks_def has_temporary_def slice_name_def)
  qed
  show "\<exists>s'. on_slice slice_close s = (None, s') \<and> closed_slice s'" if "accepts_chunks n s \<and> has_temporary s"
    using that close_quiet [of "fst s"] by (auto simp: accepts_chunks_def on_slice_def next_env_def closed_slice_def has_temporary_def slice_name_def)
  show "\<exists>s'. on_slice slice_commit s = (None, s')" if "closed_slice s"
    using that by (auto simp: closed_slice_def has_temporary_def slice_name_def on_slice_def next_env_def slice_commit_def commitTemporaryFile_def Let_def)
qed

interpretation rebuild: slice_rebuild "readSliceChunk md5 S T" "on_slice (slice_open md5)" "good_slice md5 S T"
  "live_slice md5 S T" "opened_slice md5 S T" calm_slice "put_slice md5" "target_holds b" "chunk_record md5"
  "\<lambda>n s. accepts_chunks n s \<and> has_temporary s" "target_lands b" "on_slice (slice_create md5)" "on_slice slice_close"
  "on_slice slice_commit" "on_slice slice_delete" stored_files slice_name "own_header md5" "fresh_target b" "ready_slice md5"
  closed_slice for md5 S T b ..


section \<open>A small repair\<close>


end
