(* ===== verification/Slice_Verify.thy ===== *)
theory Slice_Verify
  imports Slice_Repair
begin

text \<open>
  The out-of-band verifier of one slice (\<open>slice-verifier.ts\<close>) and the copy-first relocation of a slice to
  another volume, which is validated by it (\<open>slice-relocator.ts\<close>).
\<close>

section \<open>The verifier\<close>

datatype verify_mode = LightMode | FullMode

definition ehdrsum :: js_error where
  "ehdrsum = coded_error ''EHDRSUM'' ''slice header advisory md5 mismatch''"

definition resolveVolumeId :: "nat \<Rightarrow> nat list \<Rightarrow> nat list \<Rightarrow> nat \<Rightarrow> nat option" where
  "resolveVolumeId d dataVols parityVols i =
    (if i < d then (if i < length dataVols then Some (dataVols ! i) else None)
     else if i - d < length parityVols then Some (parityVols ! (i - d)) else None)"

text \<open>The catch clause of \<open>verifySlice\<close>: the error gets the slice and volume it does not carry yet.\<close>

definition enrich :: "nat \<Rightarrow> nat option \<Rightarrow> js_error \<Rightarrow> js_error" where
  "enrich i vid e = e\<lparr>err_sliceIndex := or_else (err_sliceIndex e) (Some i), err_volumeId := or_else (err_volumeId e) vid\<rparr>"

definition readAndTrack :: "(bytes \<Rightarrow> bytes) \<Rightarrow> nat \<Rightarrow> disk_slice \<Rightarrow> js_error option \<times> disk_slice" where
  "readAndTrack md5 c s =
    (case slice_readChunk md5 (next_env (snd s)) c (fst s) of
       (Inl e, w) \<Rightarrow> (Some e, (w, tl (snd s)))
     | (Inr _, w) \<Rightarrow> (None, (w, tl (snd s))))"

fun readEach :: "(bytes \<Rightarrow> bytes) \<Rightarrow> nat list \<Rightarrow> disk_slice \<Rightarrow> js_error option \<times> disk_slice" where
  "readEach md5 [] s = (None, s)"
| "readEach md5 (c # cs) s = (case readAndTrack md5 c s of (Some e, s1) \<Rightarrow> (Some e, s1) | (None, s1) \<Rightarrow> readEach md5 cs s1)"

text \<open>
  \<open>verifyOpenSlice\<close>: the start chunk, the standard chunks the plan counts, and the end chunk if it has one,
  each with the chunk size of the state that is configured for it.
\<close>

definition verifyOpenSlice :: "(bytes \<Rightarrow> bytes) \<Rightarrow> base \<Rightarrow> plan option \<Rightarrow> disk_slice \<Rightarrow> js_error option \<times> disk_slice" where
  "verifyOpenSlice md5 b plan s =
    (if b_size b = 0 then (None, s)
     else case plan of None \<Rightarrow> (Some (plain_error ''plan is not configured''), s)
     | Some p \<Rightarrow>
       let n = nat (case p_standardChunkCountPerSlice p of None \<Rightarrow> 0 | Some k \<Rightarrow> k);
           e = (case p_endChunkDataSize p of None \<Rightarrow> 0 | Some k \<Rightarrow> k);
           sizes = [b_chunkDataSize (configureStartState b)] @ replicate n (b_chunkDataSize (configureMiddleState b)) @
                   (if 0 < e then [b_chunkDataSize (configureEndState b)] else [])
       in readEach md5 sizes (upd_slice seekToHead (fst s), snd s))"

definition verifySlice ::
  "(bytes \<Rightarrow> bytes) \<Rightarrow> verify_mode \<Rightarrow> bool \<Rightarrow> base \<Rightarrow> plan option \<Rightarrow> nat option \<Rightarrow> nat \<Rightarrow> disk_slice \<Rightarrow> js_error option \<times> disk_slice" where
  "verifySlice md5 mode checkHeaderMd5 b plan vid i s =
    (case on_slice (slice_open md5) s of
       (Some e, s1) \<Rightarrow> (Some (enrich i vid e), s1)
     | (None, s1) \<Rightarrow>
       (case (if checkHeaderMd5 \<and> sl_headerMd5Ok (w_slice (fst s1)) = Some False then (Some ehdrsum, s1)
              else case mode of LightMode \<Rightarrow> (None, s1) | FullMode \<Rightarrow> verifyOpenSlice md5 b plan s1) of
          (r, s2) \<Rightarrow> (map_option (enrich i vid) r, snd (on_slice slice_close s2))))"

section \<open>What a verified slice is\<close>

definition chunk_ok :: "(bytes \<Rightarrow> bytes) \<Rightarrow> bytes \<Rightarrow> nat \<Rightarrow> nat \<Rightarrow> bool" where
  "chunk_ok md5 f off n \<longleftrightarrow> \<not> isl (read_chunk_at md5 f off n)"

text \<open>The file passes \<open>open\<close>, the header checksum when it is asked for, and every chunk's checksum in full mode.\<close>

definition verified_file :: "(bytes \<Rightarrow> bytes) \<Rightarrow> verify_mode \<Rightarrow> bool \<Rightarrow> base \<Rightarrow> slice_ref \<Rightarrow> bytes \<Rightarrow> bool" where
  "verified_file md5 mode chk b ref f \<longleftrightarrow> 48 \<le> length f \<and> validateHeader ref (take 48 f) = None \<and>
     (chk \<longrightarrow> advisoryHeaderMd5Ok md5 (take 48 f)) \<and>
     (mode = FullMode \<longrightarrow> (\<forall>j < set_count b.
        chunk_ok md5 f (chunk_offset (b_startChunkDataSize b) (b_standardChunkDataSize b) j) (csize b j)))"

lemma readAndTrack_cases:
  assumes "reading (fst s) f" "readAndTrack md5 c s = (r, s')"
  shows "r = None \<Longrightarrow> chunk_ok md5 f (sl_cursorOffset (w_slice (fst s))) c \<and>
      sl_cursorOffset (w_slice (fst s')) = sl_cursorOffset (w_slice (fst s)) + 16 + c"
    and "reading (fst s') f \<and> sl_ref (w_slice (fst s')) = sl_ref (w_slice (fst s)) \<and> snd s' = tl (snd s) \<and> w_vol (fst s') = w_vol (fst s)"
    and "snd s = [] \<Longrightarrow> 16 + int c \<le> sr_chunkSize (sl_ref (w_slice (fst s))) \<Longrightarrow>
      chunk_ok md5 f (sl_cursorOffset (w_slice (fst s))) c \<Longrightarrow> r = None"
  using assms
  by (auto simp: readAndTrack_def slice_readChunk_def reading_def chunk_ok_def next_env_def Let_def CHUNK_HEADER_SIZE_def
      isl_def split: prod.splits sum.splits option.splits if_splits)

text \<open>Where the chunks of sizes \<open>cs\<close> lie from \<open>off\<close> on.\<close>

fun laid_out :: "(bytes \<Rightarrow> bytes) \<Rightarrow> bytes \<Rightarrow> nat \<Rightarrow> nat list \<Rightarrow> bool" where
  "laid_out md5 f off [] \<longleftrightarrow> True"
| "laid_out md5 f off (c # cs) \<longleftrightarrow> chunk_ok md5 f off c \<and> laid_out md5 f (off + 16 + c) cs"

lemma laid_out_nth:
  "laid_out md5 f off cs \<longleftrightarrow> (\<forall>j < length cs. chunk_ok md5 f (off + sum_list (map ((+) 16) (take j cs))) (cs ! j))"
proof (induction cs arbitrary: off)
  case (Cons c cs)
  show ?case unfolding laid_out.simps Cons.IH by (auto simp: less_Suc_eq_0_disj add.assoc)
qed simp

lemma readEach_ok:
  assumes "reading (fst s) f" "readEach md5 cs s = (r, s')"
  shows "(r = None \<longrightarrow> laid_out md5 f (sl_cursorOffset (w_slice (fst s))) cs) \<and> reading (fst s') f \<and> w_vol (fst s') = w_vol (fst s) \<and>
    (snd s = [] \<and> (\<forall>c \<in> set cs. 16 + int c \<le> sr_chunkSize (sl_ref (w_slice (fst s)))) \<and>
      laid_out md5 f (sl_cursorOffset (w_slice (fst s))) cs \<longrightarrow> r = None)"
  using assms
proof (induction cs arbitrary: s)
  case (Cons c cs)
  obtain o1 s1 where R: "readAndTrack md5 c s = (o1, s1)" by (cases "readAndTrack md5 c s")
  note rc = readAndTrack_cases [OF Cons.prems(1) R]
  show ?case
  proof (cases o1)
    case None
    then have "readEach md5 cs s1 = (r, s')" using Cons.prems(2) R by simp
    from Cons.IH [OF _ this] show ?thesis using rc None by (auto simp: add.assoc)
  next
    case (Some e)
    then show ?thesis using Cons.prems R rc by auto
  qed
qed simp

lemma chunk_offset_sum:
  assumes "j < set_count b"
  shows "48 + sum_list (map ((+) 16) (take j (map (csize b) [0..<set_count b]))) =
    chunk_offset (b_startChunkDataSize b) (b_standardChunkDataSize b) j"
  using assms
proof (induction j)
  case (Suc j)
  have "csize b j = (if j = 0 then b_startChunkDataSize b else b_standardChunkDataSize b)"
    using Suc.prems by (auto simp: csize_def set_count_def split: if_splits)
  then show ?case using Suc by (cases j) (simp_all add: take_Suc_conv_app_nth chunk_offset_def)
qed (simp add: chunk_offset_def)

lemma laid_out_slice:
  "laid_out md5 f 48 (map (csize b) [0..<set_count b]) \<longleftrightarrow>
   (\<forall>j < set_count b. chunk_ok md5 f (chunk_offset (b_startChunkDataSize b) (b_standardChunkDataSize b) j) (csize b j))"
  unfolding laid_out_nth using chunk_offset_sum [of _ b] by (simp cong: conj_cong imp_cong)

text \<open>The plan a configured base was made from.\<close>

definition plan_of_base :: "base \<Rightarrow> plan \<Rightarrow> bool" where
  "plan_of_base b p \<longleftrightarrow> p_standardChunkCountPerSlice p = Some (int (b_standardChunkCountPerSlice b)) \<and>
     p_endChunkDataSize p = Some (int (b_endChunkDataSize b))"

lemma verify_sizes:
  assumes "plan_of_base b p"
  shows "verifyOpenSlice md5 b (Some p) s = (if b_size b = 0 then (None, s)
    else readEach md5 (map (csize b) [0..<set_count b]) (upd_slice seekToHead (fst s), snd s))"
proof -
  let ?n = "b_standardChunkCountPerSlice b"
  have "[b_startChunkDataSize b] @ replicate ?n (b_standardChunkDataSize b) @ (if 0 < b_endChunkDataSize b then [b_endChunkDataSize b] else [])
      = map (csize b) [0..<set_count b]" (is "?l = ?r")
  proof (rule nth_equalityI)
    show "length ?l = length ?r" by (simp add: set_count_def)
    fix j assume "j < length ?l"
    then show "?l ! j = ?r ! j" by (auto simp: csize_def set_count_def nth_append nth_Cons' split: if_splits)
  qed
  moreover have "b_chunkDataSize (configureStartState b) = b_startChunkDataSize b"
    "b_chunkDataSize (configureMiddleState b) = b_standardChunkDataSize b" "b_chunkDataSize (configureEndState b) = b_endChunkDataSize b"
    by (simp_all add: configure_defs)
  ultimately show ?thesis using assms
    by (cases "b_size b = 0") (simp_all add: verifyOpenSlice_def plan_of_base_def Let_def del: readEach.simps append_Cons split del: if_split cong: if_cong)
qed

lemma open_success:
  assumes "slice_open md5 env w = (None, w')"
  shows "\<exists>f. v_committed (w_vol w) (sl_fileName (w_slice w)) = Some f \<and> 48 \<le> length f \<and>
    validateHeader (sl_ref (w_slice w)) (take 48 f) = None \<and> reading w' f \<and>
    sl_headerMd5Ok (w_slice w') = Some (advisoryHeaderMd5Ok md5 (take 48 f)) \<and> sl_ref (w_slice w') = sl_ref (w_slice w)"
  using assms
  by (auto simp: slice_open_def openCommittedFh_def Let_def reading_def idle_def split: if_splits option.splits sum.splits)

lemma open_success_total:
  assumes "isReadable (w_vol w)" "present (v_mountPoint (w_vol w))" "v_committed (w_vol w) (sl_fileName (w_slice w)) = Some f"
    and "48 \<le> length f" "validateHeader (sl_ref (w_slice w)) (take 48 f) = None"
  shows "\<exists>w'. slice_open md5 quiet_env w = (None, w')"
  using assms by (simp add: slice_open_def openCommittedFh_def Let_def)

lemma verifySlice_spec:
  assumes "verifySlice md5 mode chk b (Some p) vid i s = (r, s')" and "plan_of_base b p" "0 < b_size b"
    and "w = fst s"
  shows "(r = None \<longrightarrow> (\<exists>f. v_committed (w_vol w) (sl_fileName (w_slice w)) = Some f \<and>
        verified_file md5 mode chk b (sl_ref (w_slice w)) f)) \<and>
    (snd s = [] \<and> isReadable (w_vol w) \<and> present (v_mountPoint (w_vol w)) \<and>
      (\<exists>f. v_committed (w_vol w) (sl_fileName (w_slice w)) = Some f \<and> verified_file md5 mode chk b (sl_ref (w_slice w)) f) \<and>
      (\<forall>j < set_count b. 16 + int (csize b j) \<le> sr_chunkSize (sl_ref (w_slice w))) \<longrightarrow> r = None) \<and>
    w_vol (fst s') = w_vol w \<and> (\<forall>e. r = Some e \<longrightarrow> err_sliceIndex e \<noteq> None)"
proof -
  obtain o1 w1 where O: "slice_open md5 (next_env (snd s)) w = (o1, w1)" by (cases "slice_open md5 (next_env (snd s)) w")
  have on: "on_slice (slice_open md5) s = (o1, (w1, tl (snd s)))" by (simp add: on_slice_def O assms(4) [symmetric])
  have vol1: "w_vol w1 = w_vol w" using open_frame(1) [OF O] .
  have en: "err_sliceIndex (enrich i vid e) \<noteq> None" for e by (simp add: enrich_def or_else_def split: option.split)
  show ?thesis
  proof (cases o1)
    case (Some e)
    have "\<not> (snd s = [] \<and> isReadable (w_vol w) \<and> present (v_mountPoint (w_vol w)) \<and>
      (\<exists>f. v_committed (w_vol w) (sl_fileName (w_slice w)) = Some f \<and> verified_file md5 mode chk b (sl_ref (w_slice w)) f))"
    proof
      assume q: "snd s = [] \<and> isReadable (w_vol w) \<and> present (v_mountPoint (w_vol w)) \<and>
        (\<exists>f. v_committed (w_vol w) (sl_fileName (w_slice w)) = Some f \<and> verified_file md5 mode chk b (sl_ref (w_slice w)) f)"
      then have "\<exists>w'. slice_open md5 quiet_env w = (None, w')"
        using open_success_total [of w] by (auto simp: verified_file_def)
      then show False using O Some q by (simp add: next_env_def)
    qed
    then show ?thesis using assms(1) on Some vol1 en by (auto simp: verifySlice_def)
  next
    case None
    then obtain f where f: "v_committed (w_vol w) (sl_fileName (w_slice w)) = Some f" "48 \<le> length f"
      "validateHeader (sl_ref (w_slice w)) (take 48 f) = None" "reading w1 f"
      "sl_headerMd5Ok (w_slice w1) = Some (advisoryHeaderMd5Ok md5 (take 48 f))" "sl_ref (w_slice w1) = sl_ref (w_slice w)"
      using open_success O by blast
    obtain r2 s2 where B: "(if chk \<and> sl_headerMd5Ok (w_slice w1) = Some False then (Some ehdrsum, (w1, tl (snd s)))
        else case mode of LightMode \<Rightarrow> (None, (w1, tl (snd s))) | FullMode \<Rightarrow> verifyOpenSlice md5 b (Some p) (w1, tl (snd s))) = (r2, s2)"
      by (metis surj_pair)
    have r: "r = map_option (enrich i vid) r2" "s' = snd (on_slice slice_close s2)"
      using assms(1) on None B by (auto simp: verifySlice_def)
    have vol: "w_vol (fst s') = w_vol (fst s2)"
      unfolding r(2) using close_disk(1) [of "next_env (snd s2)" "fst s2"] by (simp add: on_slice_def split: prod.splits)
    let ?cs = "map (csize b) [0..<set_count b]"
    have full: "(r2 = None \<longrightarrow> laid_out md5 f 48 ?cs) \<and> w_vol (fst s2) = w_vol w \<and>
        (snd s = [] \<and> (\<forall>c \<in> set ?cs. 16 + int c \<le> sr_chunkSize (sl_ref (w_slice w))) \<and> laid_out md5 f 48 ?cs \<longrightarrow> r2 = None)"
      if "mode = FullMode" "\<not> (chk \<and> sl_headerMd5Ok (w_slice w1) = Some False)"
    proof -
      have "readEach md5 ?cs (upd_slice seekToHead w1, tl (snd s)) = (r2, s2)"
        using B that verify_sizes [OF assms(2)] assms(3) by simp
      from readEach_ok [OF _ this, of f] show ?thesis
        using f(4,6) vol1 by (auto simp: reading_def seekToHead_def)
    qed
    have cs: "set ?cs = csize b ` {..<set_count b}" by auto
    show ?thesis
      using B full f r vol vol1 en cs unfolding verified_file_def laid_out_slice [symmetric]
      by (cases mode) (auto split: if_splits)
  qed
qed

text \<open>
  C28. Verification is exact. If \<open>verifySlice\<close> reports no error, the slice's file is on the volume, its header is
  the slice's own (with a matching header checksum when that is checked), and in full mode every chunk
  matches its checksum at the very position the reader seeks to. On a quiet, readable volume a file
  like that is accepted. Either way the stored files are untouched and an error names the slice.
\<close>

theorem verifySlice_exact:
  assumes "verifySlice md5 mode chk b (Some p) vid i s = (r, s')" and "plan_of_base b p" "0 < b_size b"
    and "w = fst s"
  shows "(r = None \<longrightarrow> (\<exists>f. v_committed (w_vol w) (sl_fileName (w_slice w)) = Some f \<and>
        verified_file md5 mode chk b (sl_ref (w_slice w)) f)) \<and>
    (snd s = [] \<and> isReadable (w_vol w) \<and> present (v_mountPoint (w_vol w)) \<and>
      (\<exists>f. v_committed (w_vol w) (sl_fileName (w_slice w)) = Some f \<and> verified_file md5 mode chk b (sl_ref (w_slice w)) f) \<and>
      (\<forall>j < set_count b. 16 + int (csize b j) \<le> sr_chunkSize (sl_ref (w_slice w))) \<longrightarrow> r = None) \<and>
    w_vol (fst s') = w_vol w \<and> (\<forall>e. r = Some e \<longrightarrow> err_sliceIndex e \<noteq> None)"
  by (rule verifySlice_spec [OF assms])

lemma layout_plan_of_base:
  assumes "object_layout rsCreate mem pl' sz C d p g"
  shows "plan_of_base g pl'"
proof -
  obtain pl where pl: "populatePlanDerivedFields pl = Inr pl'" "p_fileSize pl = Some (int sz)" "p_dataSliceCount pl = Some (int d)"
      "p_chunkSize pl = Some (int C)" and ok: "plan_ok (int sz) (int d) (int C)"
    and conf: "configureInternals rsCreate mem (Some pl') (new_base sz C d p) = Inr g"
    using assms by (auto simp: object_layout_def)
  let ?l = "mk_layout (int sz) (int d) (int C)"
  have l: "layout_of pl' = Some ?l" using populate_layout [OF pl(2-4) ok] pl(1) by auto
  then have "p_standardChunkCountPerSlice pl' = Some (ly_count ?l)" "p_endChunkDataSize pl' = Some (ly_end ?l)"
    by (auto simp: layout_of_def split: option.splits) (metis layout.select_convs)+
  then show ?thesis using conf l count_bounds(1) [OF ok] end_bounds(1) [OF ok]
    by (auto simp: configureInternals_def plan_of_base_def split: option.splits)
qed

lemma stored_verified:
  assumes job: "write_job g par enc P" and i: "i < totalSlices g" and md5: "digest16 md5" and st: "stored_slice md5 (slice_chunks par g P i) s"
    and f: "v_committed (w_vol (fst s)) (sl_fileName (w_slice (fst s))) = Some f"
  shows "verified_file md5 mode chk g (sl_ref (w_slice (fst s))) f"
proof -
  have lv: "whole_file md5 (b_startChunkDataSize g) (b_standardChunkDataSize g) (slice_chunks par g P i) f" "48 \<le> length f"
    "validateHeader (sl_ref (w_slice (fst s))) (take 48 f) = None"
    using stored_live [OF job i md5 st] f by (auto simp: live_slice_def)
  have "advisoryHeaderMd5Ok md5 (take 48 f)"
    using st f header_fields(1,7) [OF _ _ md5] by (fastforce simp: stored_slice_def)
  moreover have "chunk_ok md5 f (chunk_offset (b_startChunkDataSize g) (b_standardChunkDataSize g) j) (csize g j)" if "j < set_count g" for j
  proof -
    have "read_chunk_at md5 f (chunk_offset (b_startChunkDataSize g) (b_standardChunkDataSize g) j) (csize g j) = Inr (slice_chunk par g P i j)"
      using lv(1) chunk_length [OF job that i] by (auto simp: whole_file_def)
    then show ?thesis by (simp add: chunk_ok_def)
  qed
  ultimately show ?thesis using lv(2,3) by (simp add: verified_file_def)
qed

theorem verifySlice_exact_witness:
  "\<exists>g. configureInternals (\<lambda>_ _. None) (\<lambda>n. replicate n 0) (Some small_populated) (new_base 20 72 2 1) = Inr g \<and>
     fst (verifySlice sum_digest FullMode True g (Some small_populated) (Some 1) 1 (small_stored g (replicate 20 7) 1)) = None"
proof -
  obtain g where g: "configureInternals (\<lambda>_ _. None) (\<lambda>n. replicate n 0) (Some small_populated) (new_base 20 72 2 1) = Inr g"
    and lay: "object_layout (\<lambda>_ _. None) (\<lambda>n. replicate n 0) small_populated 20 72 2 1 g" by (rule small_layout)
  let ?D = "replicate 20 7 :: bytes"
  let ?s = "small_stored g ?D 1"
  obtain r s' where v: "verifySlice sum_digest FullMode True g (Some small_populated) (Some 1) 1 ?s = (r, s')"
    by (cases "verifySlice sum_digest FullMode True g (Some small_populated) (Some 1) 1 ?s")
  note lf = layout_facts [OF lay xor_law, of ?D, simplified length_replicate, OF refl]
  have st: "stored_slice sum_digest (slice_chunks xor_par g (padded g ?D) 1) ?s"
    using small_stored_ok(1) [OF lf(1,5-7)] by blast
  have i: "1 < totalSlices g" using lf(6,7) by simp
  have ok: "base_ok g" using lf(1) by (simp add: write_job_def)
  have fit: "16 + int (csize g j) \<le> sr_chunkSize (sl_ref (w_slice (fst ?s)))" for j
    using csize_le [OF ok, of j] ok lf(5) by (simp add: base_ok_def small_stored_def new_slice_def small_ref_def Let_def)
  have "\<exists>f. v_committed (w_vol (fst ?s)) (sl_fileName (w_slice (fst ?s))) = Some f" using st by (auto simp: stored_slice_def)
  then have "\<exists>f. v_committed (w_vol (fst ?s)) (sl_fileName (w_slice (fst ?s))) = Some f \<and>
      verified_file sum_digest FullMode True g (sl_ref (w_slice (fst ?s))) f"
    using stored_verified [OF lf(1) i sum_digest16 st] by blast
  moreover have "0 < b_size g" using lf(4) by simp
  ultimately have "r = None"
    using verifySlice_exact [OF v layout_plan_of_base [OF lay] _ refl] st fit by (auto simp: stored_slice_def)
  then show ?thesis using g v by (intro exI [of _ g]) simp
qed

end
