(* ===== verification/Slice_Relocate.thy ===== *)
theory Slice_Relocate
  imports Slice_Verify
begin

text \<open>
  Moving a slice to another volume by copying its file (\<open>slice-relocator.ts\<close>): the copy is flushed and
  committed on the target, then validated by the slice verifier, and dropped if it does not pass.
\<close>

section \<open>Copying\<close>

text \<open>The outcomes of the calls of one relocation: how many bytes a read or write moves, or its error.\<close>

record copy_env =
  ce_open :: "js_error option"
  ce_create :: "js_error option"
  ce_read :: "nat \<Rightarrow> js_error + nat"
  ce_write :: "nat \<Rightarrow> js_error + nat"
  ce_sync :: "js_error option"
  ce_close :: "js_error option"
  ce_commit :: "js_error option"
  ce_commitSync :: "js_error option"
  ce_delete :: "js_error option"
  ce_drop :: "js_error option"

text \<open>The inner loop: write what is left of the buffer until it is all written.\<close>

partial_function (option) writeFully ::
  "(nat \<Rightarrow> js_error + nat) \<Rightarrow> bytes \<Rightarrow> nat \<Rightarrow> bytes \<Rightarrow> (js_error option \<times> nat \<times> bytes) option" where
  "writeFully wr buf k out =
    (if buf = [] then Some (None, k, out)
     else case wr k of Inl e \<Rightarrow> Some (Some e, Suc k, out)
     | Inr n \<Rightarrow> writeFully wr (drop n buf) (Suc k) (out @ take n buf))"

text \<open>The outer loop: read up to a megabyte at \<open>pos\<close>, write it, until a read returns nothing.\<close>

partial_function (option) copyLoop ::
  "(nat \<Rightarrow> js_error + nat) \<Rightarrow> (nat \<Rightarrow> js_error + nat) \<Rightarrow> bytes \<Rightarrow> nat \<Rightarrow> nat \<Rightarrow> nat \<Rightarrow> bytes \<Rightarrow> (js_error option \<times> bytes) option" where
  "copyLoop rd wr f pos kr kw out =
    (case rd kr of Inl e \<Rightarrow> Some (Some e, out)
     | Inr n \<Rightarrow>
       let buf = take (min n 1048576) (drop pos f) in
       if buf = [] then Some (None, out)
       else Option.bind (writeFully wr buf kw out) (\<lambda>(r, kw', out').
         case r of Some e \<Rightarrow> Some (Some e, out')
         | None \<Rightarrow> copyLoop rd wr f (pos + length buf) (Suc kr) kw' out'))"

declare writeFully.simps [code] copyLoop.simps [code]

definition copyFile :: "copy_env \<Rightarrow> volume \<Rightarrow> string \<Rightarrow> volume \<Rightarrow> (bool \<times> volume) option" where
  "copyFile env src name tgt =
    (let fail = (\<lambda>v. Some (False, snd (deleteTemporaryFile (ce_delete env) name v))) in
     case openCommittedFh (ce_open env) name src of Inl _ \<Rightarrow> Some (False, tgt)
     | Inr f \<Rightarrow>
       (case createTemporaryFh (ce_create env) name tgt of
          (Some e, v) \<Rightarrow> fail v
        | (None, v) \<Rightarrow>
          Option.bind (copyLoop (ce_read env) (ce_write env) f 0 0 0 []) (\<lambda>(r, out).
            let v1 = appendTemporary name out v in
            case or_else r (or_else (ce_sync env) (ce_close env)) of Some e \<Rightarrow> fail v1
            | None \<Rightarrow>
              (case commitTemporaryFile (ce_commit env) (ce_commitSync env) name v1 of
                 (Some e, v2) \<Rightarrow> fail v2
               | (None, v2) \<Rightarrow> Some (True, v2)))))"

text \<open>\<open>mk\<close> builds the verifier's slice object on the target volume as the copy left it.\<close>

definition relocateByCopy ::
  "(bytes \<Rightarrow> bytes) \<Rightarrow> bool \<Rightarrow> base \<Rightarrow> plan option \<Rightarrow> nat option \<Rightarrow> nat \<Rightarrow> copy_env \<Rightarrow> (volume \<Rightarrow> disk_slice) \<Rightarrow> volume \<Rightarrow> string \<Rightarrow> volume
     \<Rightarrow> (bool \<times> volume) option" where
  "relocateByCopy md5 verifyHeaderMd5 b plan vid i env mk src name tgt =
    (if \<not> isReadable src \<or> \<not> isWritable tgt then Some (False, tgt)
     else Option.bind (copyFile env src name tgt) (\<lambda>(ok, v).
       if \<not> ok then Some (False, v)
       else case fst (verifySlice md5 FullMode verifyHeaderMd5 b plan vid i (mk v)) of
         None \<Rightarrow> Some (True, v)
       | Some e \<Rightarrow> Some (False, snd (deleteCommittedFile (ce_drop env) name v))))"

section \<open>The loops copy the file\<close>

text \<open>Reads and writes that succeed move at least one byte, unless a read is at the end of the file.\<close>

definition progressing :: "copy_env \<Rightarrow> bool" where
  "progressing env \<longleftrightarrow> (\<forall>k n. ce_read env k = Inr n \<or> ce_write env k = Inr n \<longrightarrow> 0 < n)"

definition calls_succeed :: "copy_env \<Rightarrow> bool" where
  "calls_succeed env \<longleftrightarrow> ce_open env = None \<and> ce_create env = None \<and> ce_sync env = None \<and> ce_close env = None \<and>
     ce_commit env = None \<and> ce_commitSync env = None \<and> (\<forall>k e. ce_read env k \<noteq> Inl e \<and> ce_write env k \<noteq> Inl e)"

lemma writeFully_ok:
  assumes "\<And>k n. wr k = Inr n \<Longrightarrow> 0 < n"
  shows "\<exists>r k' o'. writeFully wr buf k out = Some (r, k', o') \<and> (r = None \<longrightarrow> o' = out @ buf) \<and>
    ((\<forall>k e. wr k \<noteq> Inl e) \<longrightarrow> r = None)"
proof (induction "length buf" arbitrary: buf k out rule: less_induct)
  case less
  show ?case
  proof (cases "buf = []")
    case True
    then show ?thesis by (subst writeFully.simps) simp
  next
    case False
    show ?thesis
    proof (cases "wr k")
      case (Inl e)
      then show ?thesis using False by (subst writeFully.simps) auto
    next
      case (Inr n)
      have "0 < n" using assms [OF Inr] .
      then have "length (drop n buf) < length buf" using False by simp
      from less [OF this, of "Suc k" "out @ take n buf"] show ?thesis
        using False Inr by (subst writeFully.simps) simp
    qed
  qed
qed

lemma take_length_take: "take (length (take m xs)) xs = take m xs"
  by (cases "m \<le> length xs") simp_all

lemma copyLoop_ok:
  assumes "\<And>k n. rd k = Inr n \<Longrightarrow> 0 < n" "\<And>k n. wr k = Inr n \<Longrightarrow> 0 < n"
  shows "\<exists>r o'. copyLoop rd wr f pos kr kw out = Some (r, o') \<and> (r = None \<longrightarrow> o' = out @ drop pos f) \<and>
    ((\<forall>k e. rd k \<noteq> Inl e \<and> wr k \<noteq> Inl e) \<longrightarrow> r = None)"
proof (induction "length f - pos" arbitrary: pos kr kw out rule: less_induct)
  case less
  show ?case
  proof (cases "rd kr")
    case (Inl e)
    then show ?thesis by (subst copyLoop.simps) auto
  next
    case (Inr n)
    define buf where "buf = take (min n 1048576) (drop pos f)"
    have n: "0 < min n 1048576" using assms(1) [OF Inr] by simp
    show ?thesis
    proof (cases "buf = []")
      case True
      then have "drop pos f = []" using n by (auto simp: buf_def)
      then show ?thesis using True Inr by (subst copyLoop.simps) (simp add: buf_def)
    next
      case False
      obtain r k' o' where W: "writeFully wr buf kw out = Some (r, k', o')" "r = None \<longrightarrow> o' = out @ buf"
        "(\<forall>k e. wr k \<noteq> Inl e) \<longrightarrow> r = None" using writeFully_ok [of wr buf kw out] assms(2) by blast
      have step: "copyLoop rd wr f pos kr kw out = (case r of Some e \<Rightarrow> Some (Some e, o')
          | None \<Rightarrow> copyLoop rd wr f (pos + length buf) (Suc kr) k' o')"
        using Inr False W(1) by (subst copyLoop.simps) (simp add: buf_def [symmetric])
      show ?thesis
      proof (cases r)
        case (Some e)
        then show ?thesis using step W(3) by auto
      next
        case None
        have lt: "pos < length f" using False by (auto simp: buf_def)
        then have "length f - (pos + length buf) < length f - pos" using False by (auto simp: length_greater_0_conv [symmetric] simp del: length_greater_0_conv)
        from less [OF this, of "Suc kr" k' o'] obtain r2 o2 where
          IH: "copyLoop rd wr f (pos + length buf) (Suc kr) k' o' = Some (r2, o2)" "r2 = None \<longrightarrow> o2 = o' @ drop (pos + length buf) f"
            "(\<forall>k e. rd k \<noteq> Inl e \<and> wr k \<noteq> Inl e) \<longrightarrow> r2 = None" by blast
        have "buf = take (length buf) (drop pos f)" unfolding buf_def by (rule take_length_take [symmetric])
        then have "buf @ drop (pos + length buf) f = drop pos f"
          using append_take_drop_id [of "length buf" "drop pos f"] by (simp add: add.commute)
        then show ?thesis using step None W(2) IH by simp
      qed
    qed
  qed
qed

section \<open>Relocation\<close>

lemma delete_tmp_files: "v_committed (snd (deleteTemporaryFile fs name v)) = v_committed v"
  by (simp add: deleteTemporaryFile_def split: option.splits)

lemma copyFile_ok:
  assumes "progressing env"
  shows "\<exists>ok v. copyFile env src name tgt = Some (ok, v) \<and>
    (ok \<longrightarrow> (\<exists>f. v_committed src name = Some f \<and> v_committed v = (v_committed tgt)(name \<mapsto> f))) \<and>
    (\<forall>m. m \<noteq> name \<longrightarrow> v_committed v m = v_committed tgt m)"
proof (cases "openCommittedFh (ce_open env) name src")
  case (Inl e)
  then show ?thesis by (intro exI [of _ False]) (simp add: copyFile_def Let_def)
next
  case (Inr f)
  have src: "v_committed src name = Some f" using Inr by (auto simp: openCommittedFh_def split: if_splits option.splits)
  obtain o1 v where C: "createTemporaryFh (ce_create env) name tgt = (o1, v)" by (cases "createTemporaryFh (ce_create env) name tgt")
  have cv: "v_committed v = v_committed tgt" "o1 = None \<Longrightarrow> v_tmp v name = Some []"
    using C by (auto simp: createTemporaryFh_def split: option.splits)
  obtain r out where L: "copyLoop (ce_read env) (ce_write env) f 0 0 0 [] = Some (r, out)" "r = None \<longrightarrow> out = f"
    using copyLoop_ok [of "ce_read env" "ce_write env" f 0 0 0 "[]"] assms by (auto simp: progressing_def)
  show ?thesis
    using Inr C L src cv delete_tmp_files [of "ce_delete env" name]
    by (cases o1; cases "or_else r (or_else (ce_sync env) (ce_close env))")
      (auto simp: copyFile_def Let_def commitTemporaryFile_def appendTemporary_def or_else_def split: option.splits)
qed

lemma copyFile_total:
  assumes "progressing env" "\<And>k e. ce_read env k \<noteq> Inl e" "\<And>k e. ce_write env k \<noteq> Inl e"
    and "ce_open env = None" "ce_create env = None" "ce_sync env = None" "ce_close env = None" "ce_commit env = None" "ce_commitSync env = None"
    and "isReadable src" "present (v_mountPoint src)" "v_committed src name = Some f" "guard_writable tgt = None"
  shows "\<exists>v. copyFile env src name tgt = Some (True, v) \<and> v = tgt\<lparr>v_tmp := (v_tmp tgt)(name := None), v_committed := (v_committed tgt)(name \<mapsto> f)\<rparr>"
proof -
  have "copyLoop (ce_read env) (ce_write env) f 0 0 0 [] = Some (None, f)"
    using copyLoop_ok [of "ce_read env" "ce_write env" f 0 0 0 "[]"] assms(1-3) by (auto simp: progressing_def)
  then show ?thesis
    using assms by (simp add: copyFile_def Let_def openCommittedFh_def createTemporaryFh_def commitTemporaryFile_def appendTemporary_def or_else_def)
qed

text \<open>
  C29. Relocation. \<open>relocateByCopy\<close> returns as long as successful reads and writes make progress. It answers
  true only when the target volume holds a byte-for-byte copy of the source file that passes the full
  verification for that slice; no other file of the target changes. With both volumes working and an
  intact source it does answer true.
\<close>

theorem relocate_validated:
  assumes "progressing env" "plan_of_base b p" "0 < b_size b"
    and "\<And>v. w_vol (fst (mk v)) = v \<and> sl_fileName (w_slice (fst (mk v))) = name \<and> sl_ref (w_slice (fst (mk v))) = ref"
  shows "\<exists>ok v. relocateByCopy md5 chk b (Some p) vid i env mk src name tgt = Some (ok, v) \<and>
    (ok \<longrightarrow> (\<exists>f. v_committed src name = Some f \<and> v_committed v = (v_committed tgt)(name \<mapsto> f) \<and>
      verified_file md5 FullMode chk b ref f)) \<and>
    (\<forall>m. m \<noteq> name \<longrightarrow> v_committed v m = v_committed tgt m) \<and>
    (calls_succeed env \<and> (\<forall>v. snd (mk v) = []) \<and>
      isReadable src \<and> present (v_mountPoint src) \<and> guard_writable tgt = None \<and>
      (\<exists>f. v_committed src name = Some f \<and> verified_file md5 FullMode chk b ref f) \<and>
      (\<forall>j < set_count b. 16 + int (csize b j) \<le> sr_chunkSize ref) \<longrightarrow> ok)"
proof -
  obtain ok v where C: "copyFile env src name tgt = Some (ok, v)"
    "ok \<longrightarrow> (\<exists>f. v_committed src name = Some f \<and> v_committed v = (v_committed tgt)(name \<mapsto> f))"
    "\<forall>m. m \<noteq> name \<longrightarrow> v_committed v m = v_committed tgt m"
    using copyFile_ok [OF assms(1)] by blast
  obtain r s' where V: "verifySlice md5 FullMode chk b (Some p) vid i (mk v) = (r, s')"
    by (cases "verifySlice md5 FullMode chk b (Some p) vid i (mk v)")
  note ve = verifySlice_spec [OF V assms(2,3) refl]
  have run: "relocateByCopy md5 chk b (Some p) vid i env mk src name tgt =
    (if \<not> isReadable src \<or> \<not> isWritable tgt then Some (False, tgt) else if \<not> ok then Some (False, v)
     else case r of None \<Rightarrow> Some (True, v) | Some e \<Rightarrow> Some (False, snd (deleteCommittedFile (ce_drop env) name v)))"
    by (simp add: relocateByCopy_def C(1) V)
  have dc: "v_committed (snd (deleteCommittedFile fs name u)) m = v_committed u m" if "m \<noteq> name" for fs u m
    using that by (simp add: deleteCommittedFile_def split: option.splits)
  have mk: "w_vol (fst (mk v)) = v" "sl_fileName (w_slice (fst (mk v))) = name" "sl_ref (w_slice (fst (mk v))) = ref"
    using assms(4) by simp_all
  define working where "working \<longleftrightarrow> calls_succeed env \<and> (\<forall>v. snd (mk v) = []) \<and>
      isReadable src \<and> present (v_mountPoint src) \<and> guard_writable tgt = None \<and>
      (\<exists>f. v_committed src name = Some f \<and> verified_file md5 FullMode chk b ref f) \<and>
      (\<forall>j < set_count b. 16 + int (csize b j) \<le> sr_chunkSize ref)"
  have live: "isReadable src \<and> isWritable tgt \<and> ok \<and> r = None" if w: working
  proof -
    obtain f where f: "v_committed src name = Some f" "verified_file md5 FullMode chk b ref f" using w by (auto simp: working_def)
    have e: "ce_open env = None" "ce_create env = None" "ce_sync env = None" "ce_close env = None" "ce_commit env = None" "ce_commitSync env = None"
      and rw: "\<And>k e. ce_read env k \<noteq> Inl e" "\<And>k e. ce_write env k \<noteq> Inl e"
      using w by (auto simp: working_def calls_succeed_def)
    have g: "isReadable src" "present (v_mountPoint src)" "guard_writable tgt = None" using w by (simp_all add: working_def)
    have "copyFile env src name tgt = Some (True, tgt\<lparr>v_tmp := (v_tmp tgt)(name := None), v_committed := (v_committed tgt)(name \<mapsto> f)\<rparr>)"
      using copyFile_total [OF assms(1) rw e g(1,2) f(1) g(3)] by auto
    then have v: "ok" "v = tgt\<lparr>v_tmp := (v_tmp tgt)(name := None), v_committed := (v_committed tgt)(name \<mapsto> f)\<rparr>" using C(1) by simp_all
    have wr: "isWritable tgt" "isReadable v" "present (v_mountPoint v)"
      using g(3) by (auto simp: v guard_writable_def isWritable_def isReadable_def split: if_splits)
    have "v_committed v name = Some f" by (simp add: v)
    then have "r = None" using ve wr f w by (auto simp: mk working_def)
    then show ?thesis using g wr v by simp
  qed
  show ?thesis
  proof (cases "isReadable src \<and> isWritable tgt \<and> ok")
    case False
    then have "relocateByCopy md5 chk b (Some p) vid i env mk src name tgt = Some (False, if isReadable src \<and> isWritable tgt then v else tgt)"
      using run by auto
    then show ?thesis using live False C(3) unfolding working_def [symmetric] by auto
  next
    case True
    then show ?thesis
    proof (cases r)
      case None
      then obtain f where f: "v_committed v name = Some f" "verified_file md5 FullMode chk b ref f" using ve by (auto simp: mk)
      obtain f' where f': "v_committed src name = Some f'" "v_committed v = (v_committed tgt)(name \<mapsto> f')" using C(2) True by blast
      have "relocateByCopy md5 chk b (Some p) vid i env mk src name tgt = Some (True, v)" using run True None by simp
      moreover have "f' = f" using f(1) f'(2) by simp
      ultimately show ?thesis unfolding working_def [symmetric] using f(2) f' C(3) by blast
    next
      case (Some e)
      then show ?thesis using run True live dc C(3) unfolding working_def [symmetric] by auto
    qed
  qed
qed

definition working_env :: copy_env where
  "working_env = \<lparr>ce_open = None, ce_create = None, ce_read = (\<lambda>_. Inr 1048576), ce_write = (\<lambda>_. Inr 40), ce_sync = None,
     ce_close = None, ce_commit = None, ce_commitSync = None, ce_delete = None, ce_drop = None\<rparr>"

definition slice_on :: "nat \<Rightarrow> volume \<Rightarrow> disk_slice" where
  "slice_on i v = (\<lparr>w_slice = new_slice (small_ref i) ''0102030405060708090a0b0c'' i 80 False NormalPriority, w_vol = v, w_pm = pm_empty\<rparr>, [])"

theorem relocate_validated_witness:
  "\<exists>g v f. configureInternals (\<lambda>_ _. None) (\<lambda>n. replicate n 0) (Some small_populated) (new_base 20 72 2 1) = Inr g \<and>
     relocateByCopy sum_digest True g (Some small_populated) (Some 5) 1 working_env (slice_on 1)
       (w_vol (fst (small_stored g (replicate 20 7) 1))) (sl_fileName (w_slice (fst (slice_on 1 sample_volume)))) sample_volume = Some (True, v) \<and>
     v_committed v (sl_fileName (w_slice (fst (slice_on 1 sample_volume)))) = Some f"
proof -
  obtain g where g: "configureInternals (\<lambda>_ _. None) (\<lambda>n. replicate n 0) (Some small_populated) (new_base 20 72 2 1) = Inr g"
    and lay: "object_layout (\<lambda>_ _. None) (\<lambda>n. replicate n 0) small_populated 20 72 2 1 g" by (rule small_layout)
  let ?D = "replicate 20 7 :: bytes" and ?n = "sl_fileName (w_slice (fst (slice_on 1 sample_volume)))"
  let ?s = "small_stored g ?D 1"
  note lf = layout_facts [OF lay xor_law, of ?D, simplified length_replicate, OF refl]
  have st: "stored_slice sum_digest (slice_chunks xor_par g (padded g ?D) 1) ?s"
    using small_stored_ok(1) [OF lf(1,5-7)] by blast
  have ok: "base_ok g" using lf(1) by (simp add: write_job_def)
  have sl: "sl_ref (w_slice (fst ?s)) = small_ref 1" "sl_fileName (w_slice (fst ?s)) = ?n"
    by (simp_all add: small_stored_def slice_on_def new_slice_def Let_def)
  obtain f where f: "v_committed (w_vol (fst ?s)) ?n = Some f" using st sl by (auto simp: stored_slice_def)
  then have vf: "verified_file sum_digest FullMode True g (small_ref 1) f"
    using stored_verified [OF lf(1) _ sum_digest16 st, of f FullMode True] sl lf(6,7) by simp
  have fit: "16 + int (csize g j) \<le> sr_chunkSize (small_ref 1)" for j
    using csize_le [OF ok, of j] ok lf(5) by (simp add: base_ok_def small_ref_def)
  have vol: "isReadable (w_vol (fst ?s))" "present (v_mountPoint (w_vol (fst ?s)))" using st by (simp_all add: stored_slice_def)
  have mk: "w_vol (fst (slice_on 1 v)) = v \<and> sl_fileName (w_slice (fst (slice_on 1 v))) = ?n \<and> sl_ref (w_slice (fst (slice_on 1 v))) = small_ref 1" for v
    by (simp add: slice_on_def new_slice_def)
  have pr: "progressing working_env" by (simp add: progressing_def working_env_def)
  have "0 < b_size g" using lf(4) by simp
  from relocate_validated [OF pr layout_plan_of_base [OF lay] this mk, of sum_digest True "Some 5" 1 "w_vol (fst ?s)" sample_volume]
  obtain k v where R: "relocateByCopy sum_digest True g (Some small_populated) (Some 5) 1 working_env (slice_on 1) (w_vol (fst ?s)) ?n sample_volume = Some (k, v)"
    "k \<Longrightarrow> \<exists>f. v_committed (w_vol (fst ?s)) ?n = Some f \<and> v_committed v = (v_committed sample_volume)(?n \<mapsto> f)"
    and live: "calls_succeed working_env \<Longrightarrow> \<forall>v. snd (slice_on 1 v) = [] \<Longrightarrow> k"
    using f vf fit vol sample_guard(1) by blast
  have k using live by (simp add: calls_succeed_def working_env_def slice_on_def)
  moreover from R(2) [OF this] have "v_committed v ?n = Some f" using f by auto
  ultimately show ?thesis using g R(1) by auto
qed

end
