(* ===== verification/Planner.thy ===== *)
theory Planner
  imports Plan_Layout Volume_State "HOL-Library.Multiset"
begin

text \<open>
  Placement of a new object (\<open>planner.ts\<close>, \<open>failure-domain.ts\<close>): the writable volumes in rounds over the
  device groups, most free space first within a group, one slice per volume, with the space reserved
  on each. The shuffle of the chosen volumes is lodash's, a parameter that permutes its argument.
\<close>

section \<open>Ordering the volumes\<close>

definition free_space :: "volume \<Rightarrow> int" where
  "free_space v = (case v_bytesFree v of None \<Rightarrow> 0 | Some n \<Rightarrow> n) - v_bytesPending v"

text \<open>
  Adding a volume to the object of groups. A new property of a JavaScript object comes after the existing
  ones, except that the non-negative integer keys come first, in ascending order.
\<close>

fun add_group :: "int option \<Rightarrow> volume \<Rightarrow> (int option \<times> volume list) list \<Rightarrow> (int option \<times> volume list) list" where
  "add_group k v [] = [(k, [v])]"
| "add_group k v ((k', vs) # G) =
     (if k' = k then (k', vs @ [v]) # G
      else if k \<notin> fst ` set G \<and> (\<exists>n. k = Some n \<and> 0 \<le> n \<and> (case k' of None \<Rightarrow> True | Some m \<Rightarrow> m < 0 \<or> n < m))
        then (k, [v]) # (k', vs) # G
      else (k', vs) # add_group k v G)"

definition sort_by_free :: "volume list \<Rightarrow> volume list" where
  "sort_by_free vs = sort_key (\<lambda>v. - free_space v) vs"

text \<open>One pass takes the next volume of every group; passes follow until all volumes are placed.\<close>

partial_function (option) alternateLoop ::
  "nat \<Rightarrow> (int option \<times> volume list) list \<Rightarrow> volume list \<Rightarrow> volume list option" where
  "alternateLoop n G acc =
    (if length acc < n
     then alternateLoop n (map (\<lambda>(k, vs). (k, tl vs)) G) (acc @ concat (map (\<lambda>(k, vs). take 1 vs) G))
     else Some acc)"

declare alternateLoop.simps [code]

definition getSortedVolumesByBytesFreeWithAlternatingGroups :: "volume list \<Rightarrow> volume list option" where
  "getSortedVolumesByBytesFreeWithAlternatingGroups volumes =
     alternateLoop (length volumes)
       (map (\<lambda>(k, vs). (k, sort_by_free vs)) (fold (\<lambda>v. add_group (v_deviceGroup v) v) volumes [])) []"

definition getSortedVolumesByBytesFree :: "volume list \<Rightarrow> volume list" where
  "getSortedVolumesByBytesFree volumes = sort_by_free volumes"

section \<open>Making a plan\<close>

record plan_config =
  cfg_dataSliceCount :: int
  cfg_paritySliceCount :: int
  cfg_chunkSize :: int

definition getWritableVolumes :: "volume list \<Rightarrow> volume list" where
  "getWritableVolumes fleet = filter (\<lambda>v. isWritable v \<and> \<not> v_isDeleted v) fleet"

text \<open>\<open>_reserveSliceCapacity\<close>, on the fleet the available volumes belong to.\<close>

definition reserveSliceCapacity :: "plan \<Rightarrow> nat list \<Rightarrow> nat set \<Rightarrow> volume list \<Rightarrow> volume list" where
  "reserveSliceCapacity p ids known fleet =
     fold (\<lambda>i. map (\<lambda>v. if v_id v = i \<and> i \<in> known then reserveSpace (case p_sliceSize p of None \<Rightarrow> 0 | Some n \<Rightarrow> n) v else v)) ids fleet"

definition not_enough :: js_error where
  "not_enough = plain_error ''not enough volumes available for planned slice count''"

text \<open>
  An exception of \<open>computeSliceSize\<close>. The counts and the chunk size are set here, so the first cannot
  occur; the second stands for a slice size that is not a finite number (no data slices).
\<close>

definition plan_failure :: "plan_error \<Rightarrow> js_error" where
  "plan_failure e = (case e of PlanNotConfigured \<Rightarrow> plain_error ''plan is not configured''
     | PlanNonFinite \<Rightarrow> plain_error ''slice size is not finite'')"

definition generatePlan ::
  "(volume list \<Rightarrow> volume list) \<Rightarrow> plan_config \<Rightarrow> int \<Rightarrow> volume list \<Rightarrow> (js_error + plan \<times> volume list) option" where
  "generatePlan shuffle cfg fileSize fleet =
    (let plan0 = new_plan\<lparr>p_fileSize := Some fileSize, p_dataSliceCount := Some (cfg_dataSliceCount cfg),
           p_paritySliceCount := Some (cfg_paritySliceCount cfg), p_chunkSize := Some (cfg_chunkSize cfg)\<rparr>;
         available = getWritableVolumes fleet; total = nat (totalSliceCount plan0)
     in if length available < total then Some (Inl not_enough)
        else Option.bind (getSortedVolumesByBytesFreeWithAlternatingGroups available) (\<lambda>alternating.
          let sorted = (if length alternating < total then getSortedVolumesByBytesFree available else alternating) in
          if length sorted < total then Some (Inl not_enough)
          else
            let target = shuffle (take total sorted); d = nat (cfg_dataSliceCount cfg); p = nat (cfg_paritySliceCount cfg);
                plan1 = plan0\<lparr>p_dataVolumes := map v_id (take d target), p_parityVolumes := map v_id (take p (drop d target))\<rparr>
            in case computeSliceSize plan1 of
                 Inl e \<Rightarrow> Some (Inl (plan_failure e))
               | Inr plan2 \<Rightarrow>
                 let known = set (map v_id available) in
                 Some (Inr (plan2, reserveSliceCapacity plan2 (p_parityVolumes plan2) known
                              (reserveSliceCapacity plan2 (p_dataVolumes plan2) known fleet)))))"

section \<open>Failure domains\<close>

datatype failure_domain = UnknownDomain | Ungrouped nat | Grouped int

definition failureDomainOf :: "volume option \<Rightarrow> failure_domain" where
  "failureDomainOf v = (case v of None \<Rightarrow> UnknownDomain
     | Some v \<Rightarrow> (case v_deviceGroup v of None \<Rightarrow> Ungrouped (v_id v) | Some g \<Rightarrow> Grouped g))"

definition domainLoadForObject :: "nat list \<Rightarrow> nat option \<Rightarrow> (nat \<Rightarrow> volume option) \<Rightarrow> failure_domain \<Rightarrow> nat option" where
  "domainLoadForObject ids moving getVolume =
     fold (\<lambda>i load. if Some i = moving then load
        else let dom = failureDomainOf (getVolume i) in load(dom \<mapsto> (case load dom of None \<Rightarrow> 0 | Some n \<Rightarrow> n) + 1)) ids Map.empty"

definition domainLoadFor :: "volume \<Rightarrow> (failure_domain \<Rightarrow> nat option) \<Rightarrow> nat" where
  "domainLoadFor candidate load = (case load (failureDomainOf (Some candidate)) of None \<Rightarrow> 0 | Some n \<Rightarrow> n)"

section \<open>The order uses every volume once\<close>

lemma mset_add_group: "mset (concat (map snd (add_group k v G))) = add_mset v (mset (concat (map snd G)))"
  by (induction k v G rule: add_group.induct) simp_all

lemma add_group_keys:
  assumes "distinct (map fst G)"
  shows "distinct (map fst (add_group k v G))" "set (map fst (add_group k v G)) = insert k (set (map fst G))"
  using assms by (induction k v G rule: add_group.induct) force+

lemma add_group_key_of:
  "\<forall>(k', vs) \<in> set G. \<forall>u \<in> set vs. v_deviceGroup u = k' \<Longrightarrow> v_deviceGroup v = k \<Longrightarrow>
   \<forall>(k', vs) \<in> set (add_group k v G). \<forall>u \<in> set vs. v_deviceGroup u = k'"
  by (induction k v G rule: add_group.induct) auto

text \<open>Groups with distinct keys, each with the volumes of that key.\<close>

definition grouped :: "(int option \<times> volume list) list \<Rightarrow> bool" where
  "grouped G \<longleftrightarrow> distinct (map fst G) \<and> (\<forall>(k, vs) \<in> set G. \<forall>u \<in> set vs. v_deviceGroup u = k)"

lemma grouped_volumes:
  "grouped (fold (\<lambda>v. add_group (v_deviceGroup v) v) vs G) \<and>
   mset (concat (map snd (fold (\<lambda>v. add_group (v_deviceGroup v) v) vs G))) = mset vs + mset (concat (map snd G))"
  if "grouped G"
  using that
proof (induction vs arbitrary: G)
  case (Cons v vs)
  have "grouped (add_group (v_deviceGroup v) v G)"
    using Cons.prems add_group_keys [of G] add_group_key_of [of G v "v_deviceGroup v"] by (simp add: grouped_def)
  from Cons.IH [OF this] show ?case by (simp add: mset_add_group)
qed simp

text \<open>The volumes of one group in a list, and their number.\<close>

abbreviation of_group :: "int option \<Rightarrow> volume list \<Rightarrow> volume list" where
  "of_group k vs \<equiv> filter (\<lambda>v. v_deviceGroup v = k) vs"

definition in_group :: "int option \<Rightarrow> volume list \<Rightarrow> nat" where
  "in_group k vs = length (of_group k vs)"

lemma in_group_simps [simp]:
  "in_group k [] = 0" "in_group k (xs @ ys) = in_group k xs + in_group k ys"
  by (simp_all add: in_group_def)

lemma in_group_take_le: "in_group k (take n xs) \<le> in_group k xs"
  by (metis append_take_drop_id in_group_simps(2) le_add1)

lemma grouped_Cons:
  "grouped ((k, vs) # G) \<longleftrightarrow> k \<notin> fst ` set G \<and> (\<forall>u \<in> set vs. v_deviceGroup u = k) \<and> grouped G"
  by (auto simp: grouped_def)

lemma of_group_one: "\<forall>u \<in> set vs. v_deviceGroup u = k \<Longrightarrow> of_group j vs = (if j = k then vs else [])"
  by (auto simp: filter_id_conv filter_empty_conv)

lemma of_group_absent: "grouped G \<Longrightarrow> k \<notin> fst ` set G \<Longrightarrow> of_group k (concat (map snd G)) = []"
  by (force simp: filter_empty_conv grouped_def)

lemma of_group_add:
  assumes "grouped G" "v_deviceGroup v = j"
  shows "of_group k (concat (map snd (add_group j v G))) = of_group k (concat (map snd G)) @ (if j = k then [v] else [])"
  using assms
proof (induction j v G rule: add_group.induct)
  case (2 j v k' vs G)
  have g: "grouped G" "k' \<notin> fst ` set G" "\<forall>u \<in> set vs. v_deviceGroup u = k'"
    using "2.prems"(1) by (simp_all add: grouped_Cons)
  then show ?case
    using "2.IH" "2.prems"(2) by (cases "j = k"; cases "k' = j") (auto simp del: filter_concat simp: of_group_one of_group_absent)
qed auto

lemma of_group_fold:
  assumes "grouped G"
  shows "of_group k (concat (map snd (fold (\<lambda>v. add_group (v_deviceGroup v) v) vs G))) = of_group k (concat (map snd G)) @ of_group k vs"
  using assms
proof (induction vs arbitrary: G)
  case (Cons v vs)
  have "grouped (add_group (v_deviceGroup v) v G)" using grouped_volumes [OF Cons.prems, of "[v]"] by simp
  from Cons.IH [OF this] show ?case by (simp add: of_group_add Cons.prems)
qed simp

lemma grouped_map:
  assumes "grouped G" "\<And>vs. set (f vs) \<subseteq> set vs"
  shows "grouped (map (\<lambda>(k, vs). (k, f vs)) G)"
  using assms(1)
proof (induction G)
  case (Cons a G)
  then show ?case using assms(2) by (cases a) (auto simp: grouped_Cons image_iff)
qed simp

lemma of_group_sorted:
  assumes "grouped G"
  shows "of_group k (concat (map snd (map (\<lambda>(k, vs). (k, sort_by_free vs)) G))) = sort_by_free (of_group k (concat (map snd G)))"
  using assms
proof (induction G)
  case (Cons a G)
  obtain k' vs where a: "a = (k', vs)" by (cases a)
  have g: "grouped G" "k' \<notin> fst ` set G" "\<forall>u \<in> set vs. v_deviceGroup u = k'"
    using Cons.prems by (simp_all add: a grouped_Cons)
  then show ?case using Cons.IH
    by (cases "k = k'") (simp_all add: a of_group_absent sort_by_free_def filter_sort of_group_one)
qed (simp add: sort_by_free_def)

section \<open>Rounds over the groups\<close>

abbreviation heads :: "(int option \<times> volume list) list \<Rightarrow> volume list" where
  "heads G \<equiv> concat (map (\<lambda>(k, vs). take 1 vs) G)"

abbreviation tails :: "(int option \<times> volume list) list \<Rightarrow> (int option \<times> volume list) list" where
  "tails G \<equiv> map (\<lambda>(k, vs). (k, tl vs)) G"

lemma grouped_tails: "grouped G \<Longrightarrow> grouped (tails G)"
  by (rule grouped_map) (auto dest: list.set_sel(2) simp: tl_def split: list.splits)

lemma heads_tails: "mset (heads G) + mset (concat (map snd (tails G))) = mset (concat (map snd G))"
proof (induction G)
  case (Cons a G)
  obtain k vs where a: "a = (k, vs)" by (cases a)
  show ?case using Cons by (cases vs) (auto simp: a ac_simps)
qed simp

lemma of_group_heads:
  assumes "grouped G"
  shows "of_group k (heads G) @ of_group k (concat (map snd (tails G))) = of_group k (concat (map snd G)) \<and>
    of_group k (heads G) = take 1 (of_group k (concat (map snd G)))"
  using assms
proof (induction G)
  case (Cons a G)
  obtain k' vs where a: "a = (k', vs)" by (cases a)
  have g: "grouped G" "k' \<notin> fst ` set G" "\<forall>u \<in> set vs. v_deviceGroup u = k'"
    using Cons.prems by (simp_all add: a grouped_Cons)
  have e: "of_group k (concat (map snd G)) = []" if "k = k'" using of_group_absent g that by simp
  show ?case using Cons.IH [OF g(1)] e g(3) by (cases vs; cases "k = k'") (auto simp: a of_group_one)
qed simp

text \<open>No group is more than one volume ahead of a group that still has volumes to give.\<close>

definition balanced :: "volume list \<Rightarrow> bool" where
  "balanced vs \<longleftrightarrow> (\<forall>n k h. in_group k (take n vs) \<le> in_group h (take n vs) + 1 \<or> in_group h (take n vs) = in_group h vs)"

lemma balanced_round:
  assumes "balanced vs" and one: "\<And>k. in_group k us \<le> 1"
    and rest: "\<And>k. in_group k us = 0 \<Longrightarrow> in_group k vs = 0"
  shows "balanced (us @ vs)"
  unfolding balanced_def
proof (intro allI)
  fix n k h
  show "in_group k (take n (us @ vs)) \<le> in_group h (take n (us @ vs)) + 1 \<or> in_group h (take n (us @ vs)) = in_group h (us @ vs)"
  proof (cases "n \<le> length us")
    case True
    then show ?thesis using one [of k] in_group_take_le [of k n us] by simp
  next
    case False
    let ?t = "take (n - length us) vs"
    have t: "take n (us @ vs) = us @ ?t" using False by simp
    have b: "in_group k ?t \<le> in_group h ?t + 1 \<or> in_group h ?t = in_group h vs" using assms(1) unfolding balanced_def by blast
    show ?thesis
    proof (cases "in_group h us = 0")
      case True
      then show ?thesis using rest [OF True] in_group_take_le [of h "n - length us" vs] by (simp add: t del: take_append)
    next
      case nz: False
      then have "in_group h us = 1" using one [of h] by simp
      then show ?thesis using b one [of k] by (auto simp: t simp del: take_append)
    qed
  qed
qed

lemma alternateLoop_spec:
  assumes "grouped G" "length acc + length (concat (map snd G)) = n"
  shows "\<exists>res. alternateLoop n G acc = Some (acc @ res) \<and> mset res = mset (concat (map snd G)) \<and> balanced res \<and>
    (\<forall>k. of_group k res = of_group k (concat (map snd G)))"
  using assms
proof (induction "length (concat (map snd G))" arbitrary: G acc rule: less_induct)
  case less
  show ?case
  proof (cases "concat (map snd G) = []")
    case True
    then have "alternateLoop n G acc = Some (acc @ [])" using less.prems(2) unfolding True by (subst alternateLoop.simps) simp
    then show ?thesis using True by (intro exI [of _ "[]"]) (simp add: balanced_def)
  next
    case False
    note g = less.prems(1)
    have len: "length (heads G) + length (concat (map snd (tails G))) = length (concat (map snd G))"
      using arg_cong [OF heads_tails [of G], of size] by (simp only: size_union size_mset)
    have "heads G \<noteq> []"
      using False by (force simp: Suc_le_eq)
    then have "0 < length (heads G)" by blast
    then have lt: "length (concat (map snd (tails G))) < length (concat (map snd G))" using len by linarith
    obtain res where r: "alternateLoop n (tails G) (acc @ heads G) = Some ((acc @ heads G) @ res)"
        "mset res = mset (concat (map snd (tails G)))" "balanced res" "\<forall>k. of_group k res = of_group k (concat (map snd (tails G)))"
      using less.hyps [OF lt grouped_tails [OF g], of "acc @ heads G"] len less.prems(2) by auto
    have "length acc < n" using less.prems(2) lt by linarith
    then have run: "alternateLoop n G acc = Some (acc @ (heads G @ res))"
      using r(1) by (subst alternateLoop.simps) simp
    have og: "of_group k (heads G @ res) = of_group k (concat (map snd G))" for k
      unfolding filter_append r(4) [rule_format] using of_group_heads [OF g, of k] by blast
    have "balanced (heads G @ res)"
    proof (rule balanced_round [OF r(3)])
      fix k
      show "in_group k (heads G) \<le> 1" using of_group_heads [OF g, of k] by (simp add: in_group_def)
      show "in_group k res = 0" if "in_group k (heads G) = 0"
        using that of_group_heads [OF g, of k] r(4) by (auto simp: in_group_def)
    qed
    then show ?thesis using run r(2) og heads_tails [of G] by (intro exI [of _ "heads G @ res"]) simp
  qed
qed

lemma alternating_spec:
  "\<exists>res. getSortedVolumesByBytesFreeWithAlternatingGroups vs = Some res \<and> mset res = mset vs \<and> balanced res \<and>
    (\<forall>k. of_group k res = sort_by_free (of_group k vs))"
proof -
  let ?G = "fold (\<lambda>v. add_group (v_deviceGroup v) v) vs []"
  let ?S = "map (\<lambda>(k, vs). (k, sort_by_free vs)) ?G"
  have e: "grouped []" by (simp add: grouped_def)
  have g: "grouped ?G" and m: "mset (concat (map snd ?G)) = mset vs" using grouped_volumes [OF e, of vs] by simp_all
  have gs: "grouped ?S" by (rule grouped_map [OF g]) (simp add: sort_by_free_def)
  have ms: "mset (concat (map snd ?S)) = mset vs"
    using m by (simp add: sort_by_free_def mset_concat o_def case_prod_beta)
  have len: "length [] + length (concat (map snd ?S)) = length vs" using arg_cong [OF ms, of size] by simp
  from alternateLoop_spec [OF gs len] obtain res where r: "alternateLoop (length vs) ?S [] = Some res"
    "mset res = mset vs" "balanced res" "\<forall>k. of_group k res = of_group k (concat (map snd ?S))" using ms by auto
  have "of_group k res = sort_by_free (of_group k vs)" for k
    unfolding r(4) [rule_format] of_group_sorted [OF g] of_group_fold [OF e] by simp
  then show ?thesis
    using r(1-3) by (intro exI [of _ res]) (simp add: getSortedVolumesByBytesFreeWithAlternatingGroups_def)
qed

section \<open>The plan\<close>

lemma reserveSpace_id [simp]: "v_id (reserveSpace n v) = v_id v" "v_deviceGroup (reserveSpace n v) = v_deviceGroup v"
  by (simp_all add: reserveSpace_def)

lemma reserve_all:
  assumes "p_sliceSize p = Some n" "distinct ids" "set ids \<subseteq> known"
  shows "reserveSliceCapacity p ids known fleet = map (\<lambda>v. if v_id v \<in> set ids then reserveSpace n v else v) fleet"
  using assms(2, 3)
proof (induction ids arbitrary: fleet)
  case (Cons i ids)
  have "reserveSliceCapacity p (i # ids) known fleet =
      reserveSliceCapacity p ids known (map (\<lambda>v. if v_id v = i then reserveSpace n v else v) fleet)"
    using Cons.prems assms(1) by (simp add: reserveSliceCapacity_def cong: if_cong)
  also have "\<dots> = map (\<lambda>v. if v_id v \<in> set (i # ids) then reserveSpace n v else v) fleet"
    using Cons by (auto simp: Cons.IH)
  finally show ?case .
qed (simp add: reserveSliceCapacity_def)

text \<open>A prefix of the order has, group by group, the volumes with the most free space.\<close>

lemma prefix_most_free:
  assumes "of_group k res = sort_by_free vs" "v \<in> set (take n res)" "u \<in> set (drop n res)"
    "v_deviceGroup v = k" "v_deviceGroup u = k"
  shows "free_space u \<le> free_space v"
proof -
  have "of_group k (take n res) @ of_group k (drop n res) = sort_by_free vs"
    using assms(1) by (metis append_take_drop_id filter_append)
  then have "sorted (map (\<lambda>v. - free_space v) (of_group k (take n res) @ of_group k (drop n res)))"
    by (simp only: sort_by_free_def sorted_sort_key)
  then show ?thesis using assms(2-) by (auto simp: sorted_append)
qed

text \<open>The volumes of a fleet with one of the given ids.\<close>

definition chosen :: "nat list \<Rightarrow> volume list \<Rightarrow> volume list" where
  "chosen ids fleet = filter (\<lambda>v. v_id v \<in> set ids) fleet"

lemma distinct_submap: "mset ts \<subseteq># mset xs \<Longrightarrow> distinct (map f xs) \<Longrightarrow> distinct (map f ts)"
proof -
  assume "mset ts \<subseteq># mset xs" and d: "distinct (map f xs)"
  then obtain us where "mset xs = mset (ts @ us)" by (metis ex_mset mset_append subset_mset.add_diff_inverse)
  then have "mset (map f xs) = mset (map f (ts @ us))" by (metis mset_map)
  then show ?thesis using d mset_eq_imp_distinct_iff by fastforce
qed

lemma mset_chosen:
  assumes "distinct (map v_id fleet)" "mset ts \<subseteq># mset fleet" "mset (map v_id ts) = mset ids"
  shows "mset (chosen ids fleet) = mset ts"
proof -
  have sub: "set ts \<subseteq> set fleet" using assms(2) by (metis set_mset_mono set_mset_mset)
  have df: "distinct fleet" "inj_on v_id (set fleet)" using assms(1) by (simp_all add: distinct_map)
  have dt: "distinct ts" using distinct_submap [OF assms(2), of id] df(1) by simp
  have ids: "set ids = v_id ` set ts" using assms(3) by (metis set_map set_mset_mset)
  have "set (chosen ids fleet) = set ts" using sub df(2) by (auto simp: chosen_def ids dest: inj_onD)
  then show ?thesis using df(1) dt by (metis chosen_def distinct_filter set_eq_iff_mset_eq_distinct)
qed

lemma in_group_mset: "mset xs = mset ys \<Longrightarrow> in_group k xs = in_group k ys"
  unfolding in_group_def by (metis mset_filter size_mset)

lemma reserve_both:
  assumes "p_sliceSize p = Some n" "distinct (is @ js)" "set (is @ js) \<subseteq> known"
  shows "reserveSliceCapacity p js known (reserveSliceCapacity p is known fleet) =
    map (\<lambda>v. if v_id v \<in> set (is @ js) then reserveSpace n v else v) fleet"
  using assms(2, 3) by (auto simp: reserve_all [OF assms(1)])

text \<open>What \<open>generatePlan\<close> does when there are enough volumes: it reserves on a shuffled prefix of the order.\<close>

lemma generatePlan_run:
  assumes ids: "distinct (map v_id fleet)" and perm: "\<And>vs. mset (shuffle vs) = mset vs"
    and ok: "plan_ok sz (cfg_dataSliceCount cfg) (cfg_chunkSize cfg)" and par: "0 \<le> cfg_paritySliceCount cfg"
    and av: "av = getWritableVolumes fleet"
    and enough: "nat (cfg_dataSliceCount cfg + cfg_paritySliceCount cfg) \<le> length av"
  obtains p n res t where "generatePlan shuffle cfg sz fleet =
        Some (Inr (p, map (\<lambda>v. if v_id v \<in> set (p_dataVolumes p @ p_parityVolumes p) then reserveSpace n v else v) fleet))"
      "p_sliceSize p = Some n" "p_fileSize p = Some sz" "int (length (p_dataVolumes p)) = cfg_dataSliceCount cfg"
      "int (length (p_parityVolumes p)) = cfg_paritySliceCount cfg" "distinct (p_dataVolumes p @ p_parityVolumes p)"
      "set (p_dataVolumes p @ p_parityVolumes p) \<subseteq> v_id ` set av"
      "mset (chosen (p_dataVolumes p @ p_parityVolumes p) fleet) = mset (take t res)"
      "mset res = mset av" "balanced res" "\<forall>k. of_group k res = sort_by_free (of_group k av)"
proof -
  define d where "d = nat (cfg_dataSliceCount cfg)"
  define q where "q = nat (cfg_paritySliceCount cfg)"
  define p0 where "p0 = new_plan\<lparr>p_fileSize := Some sz, p_dataSliceCount := Some (cfg_dataSliceCount cfg),
     p_paritySliceCount := Some (cfg_paritySliceCount cfg), p_chunkSize := Some (cfg_chunkSize cfg)\<rparr>"
  have dpos: "0 < cfg_dataSliceCount cfg" using ok by (simp add: plan_ok_def)
  have tot: "nat (totalSliceCount p0) = d + q" "nat (cfg_dataSliceCount cfg + cfg_paritySliceCount cfg) = d + q"
    using dpos par by (simp_all add: p0_def totalSliceCount_def d_def q_def nat_add_distrib)
  obtain res where res: "getSortedVolumesByBytesFreeWithAlternatingGroups av = Some res" "mset res = mset av" "balanced res"
      "\<forall>k. of_group k res = sort_by_free (of_group k av)"
    using alternating_spec [of av] by blast
  have len: "length res = length av" using arg_cong [OF res(2), of size] by simp
  define ts where "ts = shuffle (take (d + q) res)"
  have mts: "mset ts = mset (take (d + q) res)" by (simp add: ts_def perm)
  have lts: "length ts = d + q" using arg_cong [OF mts, of size] enough len tot by simp
  define p1 where "p1 = p0\<lparr>p_dataVolumes := map v_id (take d ts), p_parityVolumes := map v_id (take q (drop d ts))\<rparr>"
  obtain p n where p: "populatePlanDerivedFields p1 = Inr p" "p_sliceSize p = Some n" "p_fileSize p = Some sz"
      "p_dataVolumes p = map v_id (take d ts)" "p_parityVolumes p = map v_id (drop d ts)"
    using populate_layout [of p1 sz "cfg_dataSliceCount cfg" "cfg_chunkSize cfg"] ok lts by (auto simp: p1_def p0_def)
  have vols: "p_dataVolumes p @ p_parityVolumes p = map v_id ts" by (simp add: p(4, 5) flip: map_append)
  have "set ts = set (take (d + q) res)" using mts by (metis set_mset_mset)
  then have inav: "set ts \<subseteq> set av" using res(2) set_take_subset [of "d + q" res] by (metis set_mset_mset subset_trans)
  have sub: "mset ts \<subseteq># mset fleet"
    unfolding mts using res(2)
    by (metis (no_types, lifting) append_take_drop_id av getWritableVolumes_def mset_append mset_filter
        mset_subset_eq_add_left multiset_filter_subset subset_mset.order_trans)
  have dv: "distinct (p_dataVolumes p @ p_parityVolumes p)" unfolding vols using sub ids by (rule distinct_submap)
  have known: "set (p_dataVolumes p @ p_parityVolumes p) \<subseteq> set (map v_id av)" unfolding vols using inav by auto
  have "generatePlan shuffle cfg sz fleet = Some (Inr (p, reserveSliceCapacity p (p_parityVolumes p) (set (map v_id av))
        (reserveSliceCapacity p (p_dataVolumes p) (set (map v_id av)) fleet)))"
    unfolding generatePlan_def av [symmetric] p0_def [symmetric] tot(1) Let_def
    using enough len tot(2) by (simp add: res(1) ts_def [symmetric] d_def [symmetric] q_def [symmetric]
        p1_def [symmetric] computeSliceSize_def p(1) del: take_drop)
  also have "\<dots> = Some (Inr (p, map (\<lambda>v. if v_id v \<in> set (p_dataVolumes p @ p_parityVolumes p) then reserveSpace n v else v) fleet))"
    by (simp only: reserve_both [OF p(2) dv known])
  finally have run: "generatePlan shuffle cfg sz fleet = \<dots>" .
  have counts: "int (length (p_dataVolumes p)) = cfg_dataSliceCount cfg" "int (length (p_parityVolumes p)) = cfg_paritySliceCount cfg"
    using lts dpos par by (simp_all add: p(4, 5) d_def q_def)
  have ch: "mset (chosen (p_dataVolumes p @ p_parityVolumes p) fleet) = mset (take (d + q) res)"
    unfolding vols using mset_chosen [OF ids sub refl] mts by simp
  show ?thesis
    by (rule that [OF run p(2, 3) counts dv _ ch res(2-4)]) (use known in simp)
qed

text \<open>
  C30. A plan is refused exactly when fewer volumes are writable than the object has slices. Otherwise it
  names the configured number of data and parity volumes, all different and all writable; the planned
  slice size is reserved once on each of them and nothing else in the fleet changes; no device group has
  two more slices than a group with an unused volume, and within a group the chosen volumes are those
  with the most free space.
\<close>

theorem plan_places_slices:
  fixes fleet :: "volume list"
  assumes ids: "distinct (map v_id fleet)" and perm: "\<And>vs. mset (shuffle vs) = mset vs"
    and ok: "plan_ok sz (cfg_dataSliceCount cfg) (cfg_chunkSize cfg)" and par: "0 \<le> cfg_paritySliceCount cfg"
  shows "if length (getWritableVolumes fleet) < nat (cfg_dataSliceCount cfg + cfg_paritySliceCount cfg)
    then generatePlan shuffle cfg sz fleet = Some (Inl not_enough)
    else \<exists>p n. let vols = p_dataVolumes p @ p_parityVolumes p; used = chosen vols fleet in
      generatePlan shuffle cfg sz fleet =
        Some (Inr (p, map (\<lambda>v. if v_id v \<in> set vols then reserveSpace n v else v) fleet)) \<and>
      p_sliceSize p = Some n \<and> p_fileSize p = Some sz \<and>
      int (length (p_dataVolumes p)) = cfg_dataSliceCount cfg \<and> int (length (p_parityVolumes p)) = cfg_paritySliceCount cfg \<and>
      distinct vols \<and> set vols \<subseteq> v_id ` set (getWritableVolumes fleet) \<and>
      (\<forall>k h. in_group k used \<le> in_group h used + 1 \<or> in_group h used = in_group h (getWritableVolumes fleet)) \<and>
      (\<forall>v \<in> set used. \<forall>u \<in> set (getWritableVolumes fleet) - set used.
         v_deviceGroup u = v_deviceGroup v \<longrightarrow> free_space u \<le> free_space v)"
proof (cases "length (getWritableVolumes fleet) < nat (cfg_dataSliceCount cfg + cfg_paritySliceCount cfg)")
  case True
  then show ?thesis by (simp add: generatePlan_def totalSliceCount_def Let_def)
next
  case False
  define av where "av = getWritableVolumes fleet"
  obtain p n res t where p: "generatePlan shuffle cfg sz fleet =
        Some (Inr (p, map (\<lambda>v. if v_id v \<in> set (p_dataVolumes p @ p_parityVolumes p) then reserveSpace n v else v) fleet))"
      "p_sliceSize p = Some n" "p_fileSize p = Some sz" "int (length (p_dataVolumes p)) = cfg_dataSliceCount cfg"
      "int (length (p_parityVolumes p)) = cfg_paritySliceCount cfg" "distinct (p_dataVolumes p @ p_parityVolumes p)"
      "set (p_dataVolumes p @ p_parityVolumes p) \<subseteq> v_id ` set av"
    and used: "mset (chosen (p_dataVolumes p @ p_parityVolumes p) fleet) = mset (take t res)"
    and res: "mset res = mset av" "balanced res" "\<forall>k. of_group k res = sort_by_free (of_group k av)"
    using False by (auto simp: av_def intro: generatePlan_run [OF ids perm ok par refl])
  let ?u = "chosen (p_dataVolumes p @ p_parityVolumes p) fleet"
  have bal: "in_group k ?u \<le> in_group h ?u + 1 \<or> in_group h ?u = in_group h av" for k h
    using res(2) in_group_mset [OF used] in_group_mset [OF res(1)] unfolding balanced_def by metis
  have us: "set ?u = set (take t res)" using used by (metis set_mset_mset)
  have "set av = set (take t res) \<union> set (drop t res)" using res(1) by (metis append_take_drop_id set_append set_mset_mset)
  then have free: "free_space u \<le> free_space v" if "v \<in> set ?u" "u \<in> set av - set ?u" "v_deviceGroup u = v_deviceGroup v" for u v
    using prefix_most_free [of "v_deviceGroup v" res "of_group (v_deviceGroup v) av" v t u] res(3) that us by auto
  have "let vols = p_dataVolumes p @ p_parityVolumes p; used = chosen vols fleet in
      generatePlan shuffle cfg sz fleet =
        Some (Inr (p, map (\<lambda>v. if v_id v \<in> set vols then reserveSpace n v else v) fleet)) \<and>
      p_sliceSize p = Some n \<and> p_fileSize p = Some sz \<and>
      int (length (p_dataVolumes p)) = cfg_dataSliceCount cfg \<and> int (length (p_parityVolumes p)) = cfg_paritySliceCount cfg \<and>
      distinct vols \<and> set vols \<subseteq> v_id ` set av \<and>
      (\<forall>k h. in_group k used \<le> in_group h used + 1 \<or> in_group h used = in_group h av) \<and>
      (\<forall>v \<in> set used. \<forall>u \<in> set av - set used. v_deviceGroup u = v_deviceGroup v \<longrightarrow> free_space u \<le> free_space v)"
    unfolding Let_def using p bal free by blast
  then show ?thesis using False unfolding av_def by (subst if_not_P) blast+
qed

definition sample_volume :: "nat \<Rightarrow> int option \<Rightarrow> int \<Rightarrow> volume" where
  "sample_volume i g free = (new_volume \<lparr>vc_id = i, vc_uuid = ''u'', vc_enabled = True, vc_healthy = True, vc_read_only = False,
     vc_is_deleted = False, vc_is_draining = False, vc_partition_size = 0, vc_data_size = 0, vc_parity_size = None,
     vc_verifyErrors = None, vc_pending_sector_high_water = None\<rparr> Map.empty Map.empty None)
     \<lparr>v_isStarted := True, v_deviceGroup := g, v_bytesFree := Some free\<rparr>"

theorem plan_places_slices_witness:
  "\<exists>p fleet. generatePlan rev \<lparr>cfg_dataSliceCount = 2, cfg_paritySliceCount = 1, cfg_chunkSize = 4096\<rparr> 1000
     [sample_volume 1 (Some 0) 500, sample_volume 2 (Some 0) 900, sample_volume 3 None 100, sample_volume 4 None 7] = Some (Inr (p, fleet)) \<and>
   distinct (p_dataVolumes p @ p_parityVolumes p) \<and> length (p_dataVolumes p) = 2 \<and> length (p_parityVolumes p) = 1"
proof -
  let ?cfg = "\<lparr>cfg_dataSliceCount = 2, cfg_paritySliceCount = 1, cfg_chunkSize = 4096\<rparr>"
  let ?f = "[sample_volume 1 (Some 0) 500, sample_volume 2 (Some 0) 900, sample_volume 3 None 100, sample_volume 4 None 7]"
  have w: "length (getWritableVolumes ?f) = 4"
    by (simp add: getWritableVolumes_def sample_volume_def new_volume_def isWritable_def)
  have "distinct (map v_id ?f)" by (simp add: sample_volume_def new_volume_def)
  from plan_places_slices [OF this, of rev 1000 ?cfg] w show ?thesis
    by (auto simp: plan_ok_def Let_def)
qed

end
