(* ===== verification/Journal_Files.thy ===== *)
theory Journal_Files
  imports Strubs_Prelude "HOL-Library.AList" "HOL-Library.List_Lexorder" "HOL-Library.Char_ord"
begin

text \<open>
  The segment files of the namespace journal (the functions at the end of \<^verbatim>\<open>lib/io/journal.ts\<close>, with the
  directory sync of \<^verbatim>\<open>lib/io/helpers.ts\<close>). Every volume has one journal directory, kept by its mount point
  as an association list in directory order. System calls are numbered: \<open>jw_fail c k\<close> is the failure
  of the \<open>k\<close>-th call, one of kind \<open>c\<close>, and \<open>jw_partial k\<close> what a failed or short one leaves behind. A missing file is not
  such a failure but follows from the state. The lemmas show that the listings and comparisons
  change nothing, that the chunked comparison and the backward scan compute their specifications, and
  that seeding a volume with another's segments never destroys a byte that is not also at the source.
\<close>

section \<open>System calls\<close>

datatype syscall = Readdir | Open | Stat | Read | Truncate | CopyFile | Write | Sync | Close | Mkdir

record jworld =
  jw_dirs :: "string \<Rightarrow> (string \<times> bytes) list"
  jw_calls :: nat
  jw_fail :: "syscall \<Rightarrow> nat \<Rightarrow> js_error option"
  jw_partial :: "nat \<Rightarrow> nat option"

type_synonym 'a fs = "jworld \<Rightarrow> (js_error + 'a) \<times> jworld"

abbreviation jfile :: "jworld \<Rightarrow> string \<Rightarrow> string \<Rightarrow> bytes option" where
  "jfile w m f \<equiv> map_of (jw_dirs w m) f"

definition enoent :: js_error where
  "enoent = coded_error ''ENOENT'' ''no such file or directory''"

abbreviation missing :: "js_error \<Rightarrow> bool" where
  "missing e \<equiv> err_code e = Some ''ENOENT''"

definition returnE :: "'a \<Rightarrow> 'a fs" where
  "returnE x w = (Inr x, w)"

definition throwE :: "js_error \<Rightarrow> 'a fs" where
  "throwE e w = (Inl e, w)"

definition bindE :: "'a fs \<Rightarrow> ('a \<Rightarrow> 'b fs) \<Rightarrow> 'b fs" where
  "bindE m f w = (case m w of (Inl e, w') \<Rightarrow> (Inl e, w') | (Inr x, w') \<Rightarrow> f x w')"

definition catchE :: "'a fs \<Rightarrow> (js_error \<Rightarrow> 'a fs) \<Rightarrow> 'a fs" where
  "catchE m h w = (case m w of (Inl e, w') \<Rightarrow> h e w' | (Inr x, w') \<Rightarrow> (Inr x, w'))"

text \<open>\<open>try { m } finally { c }\<close>: an error of the clean-up replaces the result.\<close>

definition finallyE :: "'a fs \<Rightarrow> unit fs \<Rightarrow> 'a fs" where
  "finallyE m c w = (case m w of (r, w1) \<Rightarrow> (case c w1 of (Inl e, w2) \<Rightarrow> (Inl e, w2) | (Inr _, w2) \<Rightarrow> (r, w2)))"

fun forE :: "'a list \<Rightarrow> ('a \<Rightarrow> unit fs) \<Rightarrow> unit fs" where
  "forE [] f = returnE ()"
| "forE (x # xs) f = bindE (f x) (\<lambda>_. forE xs f)"

text \<open>A call with no effect on the files: it succeeds or fails.\<close>

definition call :: "syscall \<Rightarrow> unit fs" where
  "call c w = ((case jw_fail w c (jw_calls w) of None \<Rightarrow> Inr () | Some e \<Rightarrow> Inl e), w\<lparr>jw_calls := Suc (jw_calls w)\<rparr>)"

definition set_file :: "string \<Rightarrow> string \<Rightarrow> bytes \<Rightarrow> jworld \<Rightarrow> jworld" where
  "set_file m f b w = w\<lparr>jw_dirs := (jw_dirs w)(m := AList.update f b (jw_dirs w m))\<rparr>"

definition remove_file :: "string \<Rightarrow> string \<Rightarrow> jworld \<Rightarrow> jworld" where
  "remove_file m f w = w\<lparr>jw_dirs := (jw_dirs w)(m := AList.delete f (jw_dirs w m))\<rparr>"

definition readdir :: "string \<Rightarrow> string list fs" where
  "readdir m = bindE (call Readdir) (\<lambda>_ w. (Inr (map fst (jw_dirs w m)), w))"

definition fs_content :: "string \<Rightarrow> string \<Rightarrow> bytes fs" where
  "fs_content m f w = (case jfile w m f of None \<Rightarrow> (Inl enoent, w) | Some b \<Rightarrow> (Inr b, w))"

text \<open>\<open>open(path, 'r')\<close> and \<open>open(path, 'r+')\<close>, and \<open>stat(path).size\<close>.\<close>

definition fs_open :: "string \<Rightarrow> string \<Rightarrow> unit fs" where
  "fs_open m f = bindE (fs_content m f) (\<lambda>_. call Open)"

definition fs_stat :: "string \<Rightarrow> string \<Rightarrow> nat fs" where
  "fs_stat m f = bindE (fs_content m f) (\<lambda>b. bindE (call Stat) (\<lambda>_. returnE (length b)))"

text \<open>\<open>fh.read(buf, 0, n, off)\<close> on an open file: the bytes that are there.\<close>

definition fs_read :: "string \<Rightarrow> string \<Rightarrow> nat \<Rightarrow> nat \<Rightarrow> bytes fs" where
  "fs_read m f off n = bindE (fs_content m f) (\<lambda>b. bindE (call Read) (\<lambda>_. returnE (take n (drop off b))))"

definition fs_truncate :: "string \<Rightarrow> string \<Rightarrow> nat \<Rightarrow> unit fs" where
  "fs_truncate m f n = bindE (fs_content m f) (\<lambda>b. bindE (call Truncate) (\<lambda>_ w. (Inr (), set_file m f (take n b) w)))"

text \<open>
  \<open>copyFile(src, dst)\<close>. When it fails it may have removed the destination or left a part of the source in it,
  or have failed before it touched the destination.
\<close>

datatype copy_debris = Untouched | Removed | Partial nat

definition debris_of :: "nat option \<Rightarrow> copy_debris" where
  "debris_of p = (case p of None \<Rightarrow> Untouched | Some 0 \<Rightarrow> Removed | Some (Suc n) \<Rightarrow> Partial n)"

definition fs_copyFile :: "string \<Rightarrow> string \<Rightarrow> string \<Rightarrow> unit fs" where
  "fs_copyFile m m' f = bindE (fs_content m f) (\<lambda>b w.
     case call CopyFile w of
       (Inr _, w') \<Rightarrow> (Inr (), set_file m' f b w')
     | (Inl e, w') \<Rightarrow> (Inl e, (case debris_of (jw_partial w (jw_calls w)) of
           Untouched \<Rightarrow> w' | Removed \<Rightarrow> remove_file m' f w' | Partial n \<Rightarrow> set_file m' f (take n b) w')))"

text \<open>
  \<open>fh.write(body)\<close> on a file opened for appending: the number of bytes written. A failed write may have left a
  part of the body, and a successful one may be short.
\<close>

definition fs_append :: "string \<Rightarrow> string \<Rightarrow> bytes \<Rightarrow> nat fs" where
  "fs_append m f body w =
    (let k = jw_calls w; w' = w\<lparr>jw_calls := Suc k\<rparr>; old = (case jfile w m f of None \<Rightarrow> [] | Some b \<Rightarrow> b);
         n = (case jw_partial w k of None \<Rightarrow> (if jw_fail w Write k = None then length body else 0) | Some n \<Rightarrow> min n (length body));
         w'' = set_file m f (old @ take n body) w'
     in (case jw_fail w Write k of None \<Rightarrow> (Inr n, w'') | Some e \<Rightarrow> (Inl e, w'')))"

definition fsyncDirectory :: "string \<Rightarrow> unit fs" where
  "fsyncDirectory m = bindE (call Open) (\<lambda>_. finallyE
     (catchE (call Sync) (\<lambda>e. if err_code e \<noteq> Some ''EINVAL'' \<and> err_code e \<noteq> Some ''ENOTSUP'' \<and> err_code e \<noteq> Some ''EPERM''
        then throwE e else returnE ())) (call Close))"

section \<open>Segment names\<close>

definition is_segment_name :: "string \<Rightarrow> bool" where
  "is_segment_name f \<longleftrightarrow> takeWhile is_digit f \<noteq> [] \<and> dropWhile is_digit f = ''.jsonl''"

definition segment_number :: "string \<Rightarrow> nat" where
  "segment_number f = fold (\<lambda>c n. 10 * n + (of_char c - 48)) (takeWhile is_digit f) 0"

text \<open>\<open>`${String(n).padStart(6, '0')}.jsonl`\<close>\<close>

definition segment_file :: "nat \<Rightarrow> string" where
  "segment_file n = (let s = decimal n in replicate (6 - length s) (CHR ''0'') @ s @ ''.jsonl'')"

section \<open>Listing\<close>

definition listSegments :: "string \<Rightarrow> string list fs" where
  "listSegments m = catchE (bindE (readdir m) (\<lambda>fs. returnE (filter is_segment_name fs)))
     (\<lambda>e. if missing e then returnE [] else throwE e)"

fun sizesLoop :: "string \<Rightarrow> string list \<Rightarrow> (string \<times> nat) list fs" where
  "sizesLoop m [] = returnE []"
| "sizesLoop m (f # fs) =
     bindE (catchE (bindE (fs_stat m f) (\<lambda>n. returnE (Some n))) (\<lambda>e. if missing e then returnE None else throwE e))
       (\<lambda>r. bindE (sizesLoop m fs) (\<lambda>rest. returnE ((case r of None \<Rightarrow> [] | Some n \<Rightarrow> [(f, n)]) @ rest)))"

definition listSegmentSizes :: "string \<Rightarrow> (string \<times> nat) list fs" where
  "listSegmentSizes m = bindE (listSegments m) (sizesLoop m)"

section \<open>Comparing\<close>

definition COMPARE_CHUNK :: nat where "COMPARE_CHUNK = 1024 * 1024"

text \<open>The two reads of a round are issued together; the error reported is that of the first file if both fail.\<close>

function agreeLoop :: "string \<Rightarrow> string \<Rightarrow> string \<Rightarrow> nat \<Rightarrow> nat \<Rightarrow> nat \<Rightarrow> bool fs" where
  "agreeLoop ma mb f buf len off w =
    (if len \<le> off \<or> buf = 0 then (Inr True, w)
     else let want = min buf (len - off) in
       case fs_read ma f off want w of (ra, w1) \<Rightarrow>
       case fs_read mb f off want w1 of (rb, w2) \<Rightarrow>
         (case ra of Inl e \<Rightarrow> (Inl e, w2) | Inr a \<Rightarrow> (case rb of Inl e \<Rightarrow> (Inl e, w2) | Inr b \<Rightarrow>
            if length a \<noteq> want \<or> length b \<noteq> want then (Inr False, w2)
            else if a \<noteq> b then (Inr False, w2)
            else agreeLoop ma mb f buf len (off + want) w2)))"
  by pat_completeness auto

termination
  by (relation "measure (\<lambda>(ma, mb, f, buf, len, off, w). len - off)") auto

declare agreeLoop.simps [simp del]

definition agreeOnPrefix :: "string \<Rightarrow> string \<Rightarrow> string \<Rightarrow> nat \<Rightarrow> bool fs" where
  "agreeOnPrefix ma mb f len =
    (if len = 0 then returnE True
     else bindE (fs_open ma f) (\<lambda>_. finallyE
       (bindE (fs_open mb f) (\<lambda>_. finallyE (agreeLoop ma mb f (min COMPARE_CHUNK len) len 0) (call Close))) (call Close)))"

definition LINEAGE_PROBE_BYTES :: nat where "LINEAGE_PROBE_BYTES = 4 * 1024 * 1024"

definition sameLineage :: "string \<Rightarrow> string \<Rightarrow> bool fs" where
  "sameLineage ma mb =
     bindE (listSegmentSizes ma) (\<lambda>a. bindE (listSegmentSizes mb) (\<lambda>b.
       case sort (filter (\<lambda>s. s \<in> fst ` set b) (map fst a)) of
         [] \<Rightarrow> returnE False
       | s # _ \<Rightarrow> agreeOnPrefix ma mb s (min (min (the (map_of a s)) (the (map_of b s))) LINEAGE_PROBE_BYTES)))"

section \<open>Rolling back\<close>

definition truncateSegmentTo :: "string \<Rightarrow> string \<Rightarrow> nat \<Rightarrow> unit fs" where
  "truncateSegmentTo m f n =
     bindE (catchE (bindE (fs_open m f) (\<lambda>_. returnE True)) (\<lambda>e. if missing e then returnE False else throwE e)) (\<lambda>opened.
       if \<not> opened then returnE ()
       else finallyE (bindE (fs_stat m f) (\<lambda>size. if size \<le> n then returnE () else bindE (fs_truncate m f n) (\<lambda>_. call Sync))) (call Close))"

definition TAIL_CHUNK :: nat where "TAIL_CHUNK = 64 * 1024"

abbreviation newline :: byte where "newline \<equiv> 10"

text \<open>\<open>buf.lastIndexOf(0x0a)\<close>\<close>

definition last_newline :: "bytes \<Rightarrow> nat option" where
  "last_newline b = (let r = dropWhile (\<lambda>x. x \<noteq> newline) (rev b) in if r = [] then None else Some (length r - 1))"

text \<open>The loop of \<open>rollBackTornTail\<close>: the number of bytes up to and including the last newline.\<close>

function tailLoop :: "string \<Rightarrow> string \<Rightarrow> nat \<Rightarrow> nat fs" where
  "tailLoop m f fin w =
    (if fin = 0 then (Inr 0, w)
     else let start = fin - TAIL_CHUNK in
       case fs_read m f start (fin - start) w of (Inl e, w') \<Rightarrow> (Inl e, w')
       | (Inr b, w') \<Rightarrow> (case last_newline b of Some i \<Rightarrow> (Inr (Suc (start + i)), w') | None \<Rightarrow> tailLoop m f start w'))"
  by pat_completeness auto

termination
  by (relation "measure (\<lambda>(m, f, fin, w). fin)") (auto simp: TAIL_CHUNK_def)

declare tailLoop.simps [simp del]

definition rollBackTornTail :: "string \<Rightarrow> string \<Rightarrow> unit fs" where
  "rollBackTornTail m f =
     bindE (catchE (bindE (fs_open m f) (\<lambda>_. returnE True)) (\<lambda>e. if missing e then returnE False else throwE e)) (\<lambda>opened.
       if \<not> opened then returnE ()
       else finallyE (bindE (fs_stat m f) (\<lambda>size.
         if size = 0 then returnE ()
         else bindE (tailLoop m f size) (\<lambda>complete.
           if complete = size then returnE () else bindE (fs_truncate m f complete) (\<lambda>_. call Sync)))) (call Close))"

section \<open>Seeding\<close>

definition divergence_error :: js_error where
  "divergence_error = plain_error ''journal segment has DIVERGED''"

definition no_segments_error :: js_error where
  "no_segments_error = plain_error ''refusing to seed: it has no journal segments''"

text \<open>\<open>fsp.stat(dst).catch(() => null)\<close>\<close>

definition stat_or_null :: "string \<Rightarrow> string \<Rightarrow> nat option fs" where
  "stat_or_null m f = catchE (bindE (fs_stat m f) (\<lambda>n. returnE (Some n))) (\<lambda>_. returnE None)"

text \<open>One segment: skipped when the target has it in full, copied otherwise, and synchronised either way.\<close>

definition copySegment :: "string \<Rightarrow> string \<Rightarrow> string \<Rightarrow> unit fs" where
  "copySegment from to f =
    (let sync = bindE (fs_open to f) (\<lambda>_. finallyE (call Sync) (call Close));
         copy = bindE (fs_copyFile from to f) (\<lambda>_. sync)
     in bindE (fs_stat from f) (\<lambda>src. bindE (stat_or_null to f) (\<lambda>dst.
       case dst of
         None \<Rightarrow> copy
       | Some n \<Rightarrow> bindE (agreeOnPrefix from to f (min src n)) (\<lambda>ok.
           if \<not> ok then throwE divergence_error else if src \<le> n then sync else copy))))"

definition copySegments :: "string \<Rightarrow> string \<Rightarrow> unit fs" where
  "copySegments from to =
     bindE (listSegments from) (\<lambda>fs0. let fs = sort fs0 in
       if fs = [] then throwE no_segments_error
       else bindE (call Mkdir) (\<lambda>_. bindE (forE fs (copySegment from to)) (\<lambda>_. fsyncDirectory to)))"

section \<open>Calls that change no file\<close>

text \<open>Only the number of calls made may change.\<close>

definition reads :: "'a fs \<Rightarrow> bool" where
  "reads m \<longleftrightarrow> (\<forall>w. \<exists>k. snd (m w) = w\<lparr>jw_calls := k\<rparr>)"

named_theorems reads_intros \<open>operations of the journal that only read\<close>

lemma readsD: "reads m \<Longrightarrow> m w = (r, w') \<Longrightarrow> \<exists>k. w' = w\<lparr>jw_calls := k\<rparr>"
  unfolding reads_def by (metis snd_conv)

lemma reads_same:
  assumes "reads m" "m w = (r, w')"
  shows "jw_dirs w' = jw_dirs w" "jw_fail w' = jw_fail w" "jw_partial w' = jw_partial w"
  using readsD [OF assms] by auto

lemma same_calls: "\<exists>k. w = w\<lparr>jw_calls := k\<rparr>"
  by (rule exI [of _ "jw_calls w"]) simp

lemma reads_basic [reads_intros]: "reads (returnE x)" "reads (throwE e)" "reads (call c)" "reads (fs_content m f)"
  by (auto simp: reads_def returnE_def throwE_def call_def fs_content_def same_calls split: option.split)

lemma reads_bindE [reads_intros]:
  assumes "reads m" "\<And>x. reads (f x)" shows "reads (bindE m f)"
  unfolding reads_def
proof
  fix w
  obtain r w1 where m: "m w = (r, w1)" by fastforce
  from readsD [OF assms(1) m] obtain k where k: "w1 = w\<lparr>jw_calls := k\<rparr>" by blast
  show "\<exists>k. snd (bindE m f w) = w\<lparr>jw_calls := k\<rparr>"
  proof (cases r)
    case (Inr x)
    have "\<exists>j. snd (f x w1) = w1\<lparr>jw_calls := j\<rparr>" using assms(2) [of x] unfolding reads_def by blast
    then show ?thesis by (auto simp: bindE_def m Inr k)
  qed (use k in \<open>auto simp: bindE_def m\<close>)
qed

lemma reads_catchE [reads_intros]:
  assumes "reads m" "\<And>e. reads (h e)" shows "reads (catchE m h)"
  unfolding reads_def
proof
  fix w
  obtain r w1 where m: "m w = (r, w1)" by fastforce
  from readsD [OF assms(1) m] obtain k where k: "w1 = w\<lparr>jw_calls := k\<rparr>" by blast
  show "\<exists>k. snd (catchE m h w) = w\<lparr>jw_calls := k\<rparr>"
  proof (cases r)
    case (Inl e)
    have "\<exists>j. snd (h e w1) = w1\<lparr>jw_calls := j\<rparr>" using assms(2) [of e] unfolding reads_def by blast
    then show ?thesis by (auto simp: catchE_def m Inl k)
  qed (use k in \<open>auto simp: catchE_def m\<close>)
qed

lemma reads_finallyE [reads_intros]:
  assumes "reads m" "reads c" shows "reads (finallyE m c)"
  unfolding reads_def
proof
  fix w
  obtain r w1 where m: "m w = (r, w1)" by fastforce
  obtain s w2 where c: "c w1 = (s, w2)" by fastforce
  from readsD [OF assms(1) m] readsD [OF assms(2) c] obtain k where k: "w2 = w\<lparr>jw_calls := k\<rparr>" by auto
  then show "\<exists>k. snd (finallyE m c w) = w\<lparr>jw_calls := k\<rparr>" by (auto simp: finallyE_def m c split: sum.split)
qed

lemma reads_readdir [reads_intros]: "reads (readdir m)"
  unfolding readdir_def by (rule reads_bindE) (auto simp: reads_basic, auto simp: reads_def same_calls)

lemma reads_files [reads_intros]: "reads (fs_open m f)" "reads (fs_stat m f)" "reads (fs_read m f off n)" "reads (fsyncDirectory m)"
  unfolding fs_open_def fs_stat_def fs_read_def fsyncDirectory_def by (intro reads_intros; simp add: reads_basic)+

lemma reads_listSegments [reads_intros]: "reads (listSegments m)"
  unfolding listSegments_def by (intro reads_intros) (simp add: reads_basic)

lemma reads_sizesLoop: "reads (sizesLoop m fs)"
  by (induction fs) (auto intro!: reads_intros)

lemma reads_listSegmentSizes [reads_intros]: "reads (listSegmentSizes m)"
  unfolding listSegmentSizes_def by (intro reads_intros reads_sizesLoop)

section \<open>The chunked comparison\<close>

lemma bindE_Inr:
  "bindE m f w = (Inr y, w') \<longleftrightarrow> (\<exists>x w1. m w = (Inr x, w1) \<and> f x w1 = (Inr y, w'))"
  by (auto simp: bindE_def split: prod.splits sum.splits)

lemma finallyE_Inr:
  "finallyE m c w = (Inr y, w') \<longleftrightarrow> (\<exists>w1. m w = (Inr y, w1) \<and> c w1 = (Inr (), w'))"
  by (auto simp: finallyE_def split: prod.splits sum.splits)

lemma call_Inr: "call c w = (Inr x, w') \<longleftrightarrow> jw_fail w c (jw_calls w) = None \<and> w' = w\<lparr>jw_calls := Suc (jw_calls w)\<rparr>"
  by (auto simp: call_def split: option.splits)

lemma fs_read_Inr:
  "fs_read m f off n w = (Inr b, w') \<Longrightarrow> \<exists>c. jfile w m f = Some c \<and> b = take n (drop off c) \<and> jw_dirs w' = jw_dirs w"
  by (auto simp: fs_read_def bindE_Inr fs_content_def call_Inr returnE_def split: option.splits)

lemma take_split_eq:
  assumes "length x = n" "length y = n" "x = take n (drop k a)" "y = take n (drop k b)"
  shows "take (n + j) (drop k a) = take (n + j) (drop k b) \<longleftrightarrow>
    x = y \<and> take j (drop (k + n) a) = take j (drop (k + n) b)"
  using assms by (simp add: take_add add.commute [of k n])

lemma agreeLoop_spec:
  assumes "agreeLoop ma mb f buf len off w = (Inr r, w')" "0 < buf" "jfile w ma f = Some a" "jfile w mb f = Some b"
  shows "r \<longleftrightarrow> (len \<le> off \<or> len \<le> length a \<and> len \<le> length b \<and> take (len - off) (drop off a) = take (len - off) (drop off b))"
  using assms
proof (induction ma mb f buf len off w arbitrary: r w' rule: agreeLoop.induct)
  case (1 ma mb f buf len off w)
  show ?case
  proof (cases "len \<le> off")
    case True
    then show ?thesis using "1.prems"(1) by (subst (asm) agreeLoop.simps) simp
  next
    case False
    define want where "want = min buf (len - off)"
    have pos: "0 < want" "want \<le> len - off" using False "1.prems"(2) by (auto simp: want_def)
    obtain ra w1 where ra: "fs_read ma f off want w = (ra, w1)" by fastforce
    obtain rb w2 where rb: "fs_read mb f off want w1 = (rb, w2)" by fastforce
    note run = "1.prems"(1) [unfolded agreeLoop.simps [of ma mb f buf len off w] want_def [symmetric] Let_def ra rb prod.case]
    obtain x y where xy: "ra = Inr x" "rb = Inr y" using run False "1.prems"(2) by (auto split: sum.splits)
    have d: "jw_dirs w1 = jw_dirs w" "jw_dirs w2 = jw_dirs w" and x: "x = take want (drop off a)" and y: "y = take want (drop off b)"
      using fs_read_Inr [OF ra [unfolded xy]] fs_read_Inr [OF rb [unfolded xy]] "1.prems"(3, 4) by auto
    show ?thesis
    proof (cases "length x = want \<and> length y = want \<and> x = y")
      case ok: True
      have rest: "agreeLoop ma mb f buf len (off + want) w2 = (Inr r, w')"
        using run ok False "1.prems"(2) by (simp add: xy)
      have IH: "r \<longleftrightarrow> (len \<le> off + want \<or> len \<le> length a \<and> len \<le> length b \<and>
          take (len - (off + want)) (drop (off + want) a) = take (len - (off + want)) (drop (off + want) b))"
        using "1.IH" [OF _ want_def ra [symmetric] rb [symmetric] xy(1) xy(2)] rest ok False "1.prems"(2-4) d by simp
      have lens: "off + want \<le> length a" "off + want \<le> length b" using ok x y pos by auto
      have "take (len - off) (drop off a) = take (len - off) (drop off b) \<longleftrightarrow>
          take (len - (off + want)) (drop (off + want) a) = take (len - (off + want)) (drop (off + want) b)"
        using take_split_eq [of x want y off a b "len - (off + want)"] ok x y pos by (simp add: add.commute)
      then show ?thesis using IH False lens pos by auto
    next
      case bad: False
      then have "\<not> r" using run False "1.prems"(2) by (auto simp: xy split: if_splits)
      moreover have "\<not> (len \<le> length a \<and> len \<le> length b \<and> take (len - off) (drop off a) = take (len - off) (drop off b))"
      proof (safe)
        assume l: "len \<le> length a" "len \<le> length b" and e: "take (len - off) (drop off a) = take (len - off) (drop off b)"
        have "length x = want" "length y = want" using l pos x y by auto
        moreover have "x = y" using arg_cong [OF e, of "take want"] pos x y by (simp add: min_absorb1)
        ultimately show False using bad by simp
      qed
      ultimately show ?thesis using False by simp
    qed
  qed
qed

lemma reads_agreeLoop: "reads (agreeLoop ma mb f buf len off)"
  unfolding reads_def
proof
  fix w
  show "\<exists>k. snd (agreeLoop ma mb f buf len off w) = w\<lparr>jw_calls := k\<rparr>"
  proof (induction ma mb f buf len off w rule: agreeLoop.induct)
    case (1 ma mb f buf len off w)
    define want where "want = min buf (len - off)"
    obtain ra w1 where ra: "fs_read ma f off want w = (ra, w1)" by fastforce
    obtain rb w2 where rb: "fs_read mb f off want w1 = (rb, w2)" by fastforce
    obtain k where k: "w2 = w\<lparr>jw_calls := k\<rparr>"
      using readsD [OF reads_files(3) ra] readsD [OF reads_files(3) rb] by auto
    show ?case
    proof (cases "len \<le> off \<or> buf = 0 \<or> (\<exists>e. ra = Inl e) \<or> (\<exists>e. rb = Inl e)")
      case True
      then show ?thesis
        by (auto simp: agreeLoop.simps [of ma mb f buf len off w] Let_def want_def [symmetric] ra rb same_calls k split: sum.splits)
    next
      case False
      then obtain x y where xy: "ra = Inr x" "rb = Inr y" by (metis sum.exhaust_sel)
      show ?thesis
        using "1.IH" [OF _ want_def ra [symmetric] rb [symmetric] xy(1) xy(2)] False
        by (auto simp: agreeLoop.simps [of ma mb f buf len off w] Let_def want_def [symmetric] ra rb k xy)
    qed
  qed
qed

lemma reads_agreeOnPrefix [reads_intros]: "reads (agreeOnPrefix ma mb f len)"
  unfolding agreeOnPrefix_def by (auto intro!: reads_intros reads_agreeLoop)

lemma reads_sameLineage [reads_intros]: "reads (sameLineage ma mb)"
  unfolding sameLineage_def by (auto intro!: reads_intros split: list.split)

lemma agreeOnPrefix_spec:
  assumes "agreeOnPrefix ma mb f len w = (Inr r, w')" "jfile w ma f = Some a" "jfile w mb f = Some b"
  shows "r \<longleftrightarrow> len = 0 \<or> len \<le> length a \<and> len \<le> length b \<and> take len a = take len b"
proof (cases "len = 0")
  case True
  then show ?thesis using assms(1) by (simp add: agreeOnPrefix_def returnE_def)
next
  case False
  obtain w1 w2 w3 where o: "fs_open ma f w = (Inr (), w1)" "fs_open mb f w1 = (Inr (), w2)"
      and l: "agreeLoop ma mb f (min COMPARE_CHUNK len) len 0 w2 = (Inr r, w3)"
    using assms(1) False by (auto simp: agreeOnPrefix_def bindE_Inr finallyE_Inr)
  have "jw_dirs w2 = jw_dirs w" using reads_same(1) [OF reads_files(1) o(1)] reads_same(1) [OF reads_files(1) o(2)] by simp
  then show ?thesis using agreeLoop_spec [OF l] False assms(2, 3) by (simp add: COMPARE_CHUNK_def)
qed

section \<open>Seeding loses nothing\<close>

lemma jfile_set [simp]: "jfile (set_file m f b w) m' f' = (if m' = m \<and> f' = f then Some b else jfile w m' f')"
  by (simp add: set_file_def AList.update_conv')

lemma jfile_remove [simp]: "jfile (remove_file m f w) m' f' = (if m' = m \<and> f' = f then None else jfile w m' f')"
  by (simp add: remove_file_def AList.delete_conv')

lemma set_file_frame [simp]:
  "jw_fail (set_file m f b w) = jw_fail w" "jw_fail (remove_file m f w) = jw_fail w"
  "jw_calls (set_file m f b w) = jw_calls w" "jw_partial (set_file m f b w) = jw_partial w"
  by (simp_all add: set_file_def remove_file_def)

lemma prefix_of_agree: "n \<le> length a \<Longrightarrow> n \<le> length b \<Longrightarrow> take n a = take n b \<Longrightarrow> n = length a \<Longrightarrow> prefix a b"
  by (metis take_all_iff take_is_prefix order_refl)

text \<open>What one copy does to the target's file: it grows, or what it held is at the source.\<close>

definition copied :: "string \<Rightarrow> string \<Rightarrow> string \<Rightarrow> jworld \<Rightarrow> js_error + unit \<Rightarrow> jworld \<Rightarrow> bool" where
  "copied from to f w r w' \<longleftrightarrow> jw_fail w' = jw_fail w \<and> (\<forall>m g. (m, g) \<noteq> (to, f) \<longrightarrow> jfile w' m g = jfile w m g) \<and>
     (jfile w from f = None \<longrightarrow> jfile w' to f = jfile w to f) \<and>
     (\<forall>s. jfile w from f = Some s \<longrightarrow>
        (\<forall>t. jfile w to f = Some t \<longrightarrow> prefix t s \<or> jfile w' to f = Some t) \<and>
        (r = Inr () \<longrightarrow> (\<exists>t. jfile w' to f = Some t \<and> prefix s t)))"

lemma copyFile_effect:
  assumes "fs_copyFile from to f w = (r, w')"
  shows "jw_fail w' = jw_fail w" "(m, g) \<noteq> (to, f) \<Longrightarrow> jfile w' m g = jfile w m g"
    "r = Inr x \<Longrightarrow> jfile w' to f = jfile w from f" "jfile w from f = None \<Longrightarrow> r = Inl enoent \<and> w' = w"
  using assms by (auto simp: fs_copyFile_def bindE_def fs_content_def call_def split: option.splits copy_debris.splits)

text \<open>A volume is asked for the size of a file it does have and answers.\<close>

definition stats_work :: "jworld \<Rightarrow> bool" where
  "stats_work w \<longleftrightarrow> (\<forall>k. jw_fail w Stat k = None)"

lemma fs_stat_works:
  assumes "stats_work w" "fs_stat m f w = (r, w')"
  shows "r = (case jfile w m f of None \<Rightarrow> Inl enoent | Some b \<Rightarrow> Inr (length b))" "jw_dirs w' = jw_dirs w" "jw_fail w' = jw_fail w"
  using assms by (auto simp: fs_stat_def bindE_def fs_content_def call_def returnE_def stats_work_def split: option.splits)

lemma stat_or_null_works:
  assumes "stats_work w" "stat_or_null m f w = (r, w')"
  shows "r = Inr (map_option length (jfile w m f))" "jw_dirs w' = jw_dirs w" "jw_fail w' = jw_fail w"
proof -
  obtain r1 w1 where s: "fs_stat m f w = (r1, w1)" by fastforce
  show "r = Inr (map_option length (jfile w m f))" "jw_dirs w' = jw_dirs w" "jw_fail w' = jw_fail w"
    using assms(2) fs_stat_works [OF assms(1) s]
    by (auto simp: stat_or_null_def catchE_def bindE_def s returnE_def split: option.splits)
qed

lemma copied_same:
  assumes "jw_dirs w' = jw_dirs w" "jw_fail w' = jw_fail w"
    "r = Inr () \<Longrightarrow> \<exists>t s. jfile w to f = Some t \<and> jfile w from f = Some s \<and> prefix s t"
  shows "copied from to f w r w'"
  using assms by (auto simp: copied_def)

lemma copied_cong: "jw_dirs w0 = jw_dirs w \<Longrightarrow> jw_fail w0 = jw_fail w \<Longrightarrow> copied from to f w0 r w' \<Longrightarrow> copied from to f w r w'"
  by (simp add: copied_def)

lemma copy_copied:
  assumes "from \<noteq> to" "\<And>s t. jfile w from f = Some s \<Longrightarrow> jfile w to f = Some t \<Longrightarrow> prefix t s" "reads y"
    "bindE (fs_copyFile from to f) (\<lambda>_. y) w = (r, w')"
  shows "copied from to f w r w'"
proof -
  obtain r1 w1 where c: "fs_copyFile from to f w = (r1, w1)" by fastforce
  note eff = copyFile_effect [OF c]
  show ?thesis
  proof (cases r1)
    case (Inl e)
    then show ?thesis using assms(2, 4) eff by (auto simp: copied_def bindE_def c)
  next
    case (Inr x)
    then have y: "y w1 = (r, w')" using assms(4) by (simp add: bindE_def c)
    have d: "jw_dirs w' = jw_dirs w1" "jw_fail w' = jw_fail w1" using reads_same [OF assms(3) y] by simp_all
    show ?thesis unfolding copied_def d using assms(2) eff(1, 2) eff(3) [OF Inr] eff(4) Inr by auto
  qed
qed

lemma copySegment_copied:
  assumes "from \<noteq> to" "stats_work w" "copySegment from to f w = (r, w')"
  shows "copied from to f w r w'"
proof -
  define sync where "sync = bindE (fs_open to f) (\<lambda>_. finallyE (call Sync) (call Close))"
  have sync: "reads sync" unfolding sync_def by (intro reads_intros)
  note run = assms(3) [unfolded copySegment_def sync_def [symmetric] Let_def]
  obtain r1 w1 where s1: "fs_stat from f w = (r1, w1)" by fastforce
  note f1 = fs_stat_works [OF assms(2) s1]
  show ?thesis
  proof (cases "jfile w from f")
    case None
    then show ?thesis using run f1 by (intro copied_same) (auto simp: bindE_def s1)
  next
    case (Some s)
    obtain r2 w2 where s2: "stat_or_null to f w1 = (r2, w2)" by fastforce
    have "stats_work w1" using assms(2) f1(3) by (simp add: stats_work_def)
    note f2 = stat_or_null_works [OF this s2]
    have same: "jw_dirs w2 = jw_dirs w" "jw_fail w2 = jw_fail w" using f1 f2 by simp_all
    show ?thesis
    proof (cases "jfile w to f")
      case None
      then have "bindE (fs_copyFile from to f) (\<lambda>_. sync) w2 = (r, w')" using run f1 f2 Some by (simp add: bindE_def s1 s2)
      then have "copied from to f w2 r w'" using assms(1) None same sync by (intro copy_copied) auto
      then show ?thesis by (rule copied_cong [OF same])
    next
      case to: (Some t)
      obtain r3 w3 where a: "agreeOnPrefix from to f (min (length s) (length t)) w2 = (r3, w3)" by fastforce
      have same3: "jw_dirs w3 = jw_dirs w" "jw_fail w3 = jw_fail w" using reads_same [OF reads_agreeOnPrefix a] same by simp_all
      have rest: "(case r3 of Inl e \<Rightarrow> (Inl e, w3) | Inr ok \<Rightarrow> (if \<not> ok then throwE divergence_error
          else if length s \<le> length t then sync else bindE (fs_copyFile from to f) (\<lambda>_. sync)) w3) = (r, w')"
        using run f1 f2 Some to by (simp add: bindE_def s1 s2 a split: sum.splits)
      show ?thesis
      proof (cases "r3 = Inr True")
        case False
        then have "w' = w3 \<and> (\<exists>e. r = Inl e)" using rest by (auto simp: throwE_def split: sum.splits)
        then show ?thesis using same3 by (intro copied_same) auto
      next
        case True
        have ag: "take (min (length s) (length t)) s = take (min (length s) (length t)) t"
          using agreeOnPrefix_spec [OF a [unfolded True], of s t] same Some to by auto
        show ?thesis
        proof (cases "length s \<le> length t")
          case le: True
          have p: "prefix s t" using ag le by (metis min_absorb1 order_refl take_all take_is_prefix)
          have "sync w3 = (r, w')" using rest True le by simp
          then show ?thesis using reads_same [OF sync, of w3] same3 to Some p by (intro copied_same) auto
        next
          case gt: False
          have p: "prefix t s" using ag gt by (metis linear min_absorb2 order_refl take_all take_is_prefix)
          have "bindE (fs_copyFile from to f) (\<lambda>_. sync) w3 = (r, w')" using rest True gt by simp
          then have "copied from to f w3 r w'" using assms(1) same3 sync p Some to by (intro copy_copied) auto
          then show ?thesis by (rule copied_cong [OF same3])
        qed
      qed
    qed
  qed
qed

lemma copied_grows:
  assumes "copied from to f w (Inr ()) w'" "jfile w to f = Some t"
  shows "\<exists>t'. jfile w' to f = Some t' \<and> prefix t t'"
proof (cases "jfile w from f")
  case (Some s)
  then show ?thesis using assms unfolding copied_def by (metis prefix_order.order_refl prefix_order.order_trans)
qed (use assms in \<open>auto simp: copied_def\<close>)

text \<open>The same for all the segments of a seed.\<close>

definition seeded :: "string \<Rightarrow> string \<Rightarrow> string list \<Rightarrow> jworld \<Rightarrow> js_error + unit \<Rightarrow> jworld \<Rightarrow> bool" where
  "seeded from to fs w r w' \<longleftrightarrow> jw_fail w' = jw_fail w \<and> (\<forall>m g. m \<noteq> to \<or> g \<notin> set fs \<longrightarrow> jfile w' m g = jfile w m g) \<and>
     (\<forall>f t. jfile w to f = Some t \<longrightarrow> (\<exists>m u. m \<in> {from, to} \<and> jfile w' m f = Some u \<and> prefix t u)) \<and>
     (r = Inr () \<longrightarrow> (\<forall>f t. jfile w to f = Some t \<longrightarrow> (\<exists>u. jfile w' to f = Some u \<and> prefix t u)) \<and>
        (\<forall>f s. f \<in> set fs \<and> jfile w from f = Some s \<longrightarrow> (\<exists>t. jfile w' to f = Some t \<and> prefix s t)))"

lemma seeded_same: "jw_dirs w' = jw_dirs w \<Longrightarrow> jw_fail w' = jw_fail w \<Longrightarrow> r \<noteq> Inr () \<or> fs = [] \<Longrightarrow> seeded from to fs w r w'"
  by (auto simp: seeded_def)

lemma seeded_Cons:
  assumes "from \<noteq> to" "copied from to f w (Inr ()) w1" "seeded from to fs w1 r w'"
  shows "seeded from to (f # fs) w r w'"
proof -
  have c: "jfile w1 m g = jfile w m g" if "(m, g) \<noteq> (to, f)" for m g using assms(2) that unfolding copied_def by blast
  have grow1: "\<exists>t1. jfile w1 to g = Some t1 \<and> prefix t t1" if "jfile w to g = Some t" for g t
    using that c [of to g] copied_grows [OF assms(2), of t] by (cases "g = f") auto
  have nl: "\<exists>m u. m \<in> {from, to} \<and> jfile w' m g = Some u \<and> prefix t u" if tg: "jfile w to g = Some t" for g t
  proof -
    obtain t1 where t1: "jfile w1 to g = Some t1" "prefix t t1"
      using grow1 [OF tg] by blast
    then show ?thesis using assms(3) prefix_order.trans unfolding seeded_def by metis
  qed
  have gr: "\<exists>u. jfile w' to g = Some u \<and> prefix t u" if "r = Inr ()" "jfile w1 to g = Some t" for g t
    using assms(3) that unfolding seeded_def by blast
  have gr0: "\<exists>u. jfile w' to g = Some u \<and> prefix t u" if r: "r = Inr ()" and tg: "jfile w to g = Some t" for g t
  proof -
    obtain t1 where t1: "jfile w1 to g = Some t1" "prefix t t1"
      using grow1 [OF tg] by blast
    then show ?thesis using gr [OF r t1(1)] prefix_order.trans by blast
  qed
  have src: "\<exists>t. jfile w' to g = Some t \<and> prefix s t" if r: "r = Inr ()" and g: "g \<in> set (f # fs)" "jfile w from g = Some s" for g s
  proof (cases "g = f")
    case True
    then obtain t1 where t1: "jfile w1 to g = Some t1" "prefix s t1" using assms(2) g(2) unfolding copied_def by blast
    then show ?thesis using gr [OF r t1(1)] prefix_order.trans by blast
  next
    case False
    then show ?thesis using assms(1, 3) c [of "from" g] r g unfolding seeded_def by auto
  qed
  show ?thesis unfolding seeded_def
  proof (intro conjI allI impI)
    show "jw_fail w' = jw_fail w" using assms(2, 3) by (simp add: copied_def seeded_def)
    fix m g assume "m \<noteq> to \<or> g \<notin> set (f # fs)"
    then show "jfile w' m g = jfile w m g" using assms(3) c [of m g] unfolding seeded_def by auto
  qed (use nl gr0 src in blast)+
qed

lemma forE_seeded:
  assumes "from \<noteq> to" "stats_work w" "forE fs (copySegment from to) w = (r, w')"
  shows "seeded from to fs w r w'"
  using assms(2, 3)
proof (induction fs arbitrary: w)
  case Nil
  then show ?case by (auto simp: returnE_def intro: seeded_same)
next
  case (Cons f fs)
  obtain r1 w1 where c: "copySegment from to f w = (r1, w1)" by fastforce
  note cp = copySegment_copied [OF assms(1) Cons.prems(1) c]
  show ?case
  proof (cases r1)
    case (Inl e)
    then have "r = Inl e" "w' = w1" using Cons.prems(2) by (simp_all add: bindE_def c)
    then show ?thesis using cp assms(1) Inl unfolding copied_def seeded_def
      by simp (metis prefix_order.order_refl option.exhaust)
  next
    case (Inr x)
    then have "forE fs (copySegment from to) w1 = (r, w')" using Cons.prems(2) by (simp add: bindE_def c)
    moreover have "stats_work w1" using Cons.prems(1) cp by (simp add: copied_def stats_work_def)
    ultimately show ?thesis using Cons.IH seeded_Cons [OF assms(1)] cp Inr by auto
  qed
qed

text \<open>The names a listing returns.\<close>

lemma listSegments_Inr:
  assumes "listSegments m w = (Inr fs, w')" "\<forall>k e. jw_fail w Readdir k = Some e \<longrightarrow> \<not> missing e"
  shows "fs = filter is_segment_name (map fst (jw_dirs w m))"
  using assms by (auto simp: listSegments_def catchE_def bindE_def readdir_def call_def returnE_def throwE_def
      split: option.splits if_splits)

text \<open>
  C33. Seeding a volume with the journal of another, provided no \<open>stat\<close> fails and no directory that is there is
  reported as missing. Whatever other call fails, no file changes outside the target's directory, and every
  history the target had is still there, at the target or at the source it was being topped up from; on
  success the target's files only grew and each segment of the source is a prefix of the target's segment of
  that name. Where \<open>stat\<close> does fail, a segment of the target can be overwritten (\<open>unreadable_target_overwritten\<close>).
\<close>

theorem seeding_loses_nothing:
  assumes "from \<noteq> to" "stats_work w" "\<forall>k e. jw_fail w Readdir k = Some e \<longrightarrow> \<not> missing e"
    and "copySegments from to w = (r, w')"
  shows "(\<forall>m f. m \<noteq> to \<longrightarrow> jfile w' m f = jfile w m f) \<and>
    (\<forall>f t. jfile w to f = Some t \<longrightarrow> (\<exists>m u. m \<in> {from, to} \<and> jfile w' m f = Some u \<and> prefix t u)) \<and>
    (r = Inr () \<longrightarrow>
      (\<forall>f t. jfile w to f = Some t \<longrightarrow> (\<exists>u. jfile w' to f = Some u \<and> prefix t u)) \<and>
      (\<forall>f s. is_segment_name f \<and> jfile w from f = Some s \<longrightarrow> (\<exists>t. jfile w' to f = Some t \<and> prefix s t)))"
proof -
  obtain r1 w1 where l: "listSegments from w = (r1, w1)" by fastforce
  note s1 = reads_same [OF reads_listSegments l]
  have same: ?thesis if "jw_dirs w' = jw_dirs w" "r \<noteq> Inr ()" using that by auto
  show ?thesis
  proof (cases r1)
    case (Inl e)
    then show ?thesis using assms(4) s1 by (intro same) (auto simp: copySegments_def bindE_def l)
  next
    case (Inr fs)
    obtain r2 w2 where m: "call Mkdir w1 = (r2, w2)" by fastforce
    note s2 = reads_same [OF reads_basic(3) m]
    obtain r3 w3 where f: "forE (sort fs) (copySegment from to) w2 = (r3, w3)" by fastforce
    obtain r4 w4 where y: "fsyncDirectory to w3 = (r4, w4)" by fastforce
    note s4 = reads_same [OF reads_files(4) y]
    have "stats_work w2" using assms(2) s1 s2 by (simp add: stats_work_def)
    from forE_seeded [OF assms(1) this f] have sd: "seeded from to (sort fs) w r3 w3"
      using s1(1, 2) s2(1, 2) unfolding seeded_def by simp
    have fs: "fs = filter is_segment_name (map fst (jw_dirs w from))" using listSegments_Inr [OF l [unfolded Inr] assms(3)] .
    have se: "sort fs = [] \<longleftrightarrow> fs = []" by (metis length_0_conv length_sort)
    have run: "w' = (if fs = [] then w1 else case r2 of Inl e \<Rightarrow> w2 | Inr _ \<Rightarrow> (case r3 of Inl e \<Rightarrow> w3 | Inr _ \<Rightarrow> w4))"
      "r = (if fs = [] then Inl no_segments_error else case r2 of Inl e \<Rightarrow> Inl e | Inr _ \<Rightarrow> (case r3 of Inl e \<Rightarrow> Inl e | Inr _ \<Rightarrow> r4))"
      using assms(4) Inr by (auto simp: copySegments_def bindE_def Let_def l m f y throwE_def se split: sum.splits if_splits)
    show ?thesis
    proof (cases "fs = [] \<or> (\<exists>e. r2 = Inl e)")
      case True
      then show ?thesis using run s1 s2 by (intro same) auto
    next
      case False
      then have d: "jw_dirs w' = jw_dirs w3" and ok: "r = Inr () \<Longrightarrow> r3 = Inr ()"
        using run s4 by (auto split: sum.splits)
      have seg: "f \<in> set fs" if "is_segment_name f" "jfile w from f = Some s" for f s
        using that by (force simp: fs dest!: map_of_SomeD)
      show ?thesis using sd ok seg unfolding seeded_def d set_sort by blast
    qed
  qed
qed

text \<open>Two volumes with one segment each, on which every system call succeeds.\<close>

definition two_disks :: "bytes \<Rightarrow> bytes \<Rightarrow> jworld" where
  "two_disks a b = \<lparr>jw_dirs = (\<lambda>m. if m = ''a'' then [(''000000.jsonl'', a)] else if m = ''b'' then [(''000000.jsonl'', b)] else []),
     jw_calls = 0, jw_fail = (\<lambda>_ _. None), jw_partial = (\<lambda>_. None)\<rparr>"

lemma is_segment_zero [simp]: "is_segment_name ''000000.jsonl''"
  by (simp add: is_segment_name_def is_digit_def)

lemma seeds_run:
  "fst (copySegments ''a'' ''b'' (two_disks [1, 10, 2, 10] [1, 10])) = Inr ()"
  by (simp add: copySegments_def two_disks_def listSegments_def readdir_def catchE_def bindE_def call_def returnE_def
      copySegment_def fs_stat_def fs_content_def stat_or_null_def agreeOnPrefix_def fs_open_def finallyE_def COMPARE_CHUNK_def
      agreeLoop.simps fs_read_def fs_copyFile_def set_file_def fsyncDirectory_def Let_def)

theorem seeding_loses_nothing_witness:
  "\<exists>t. jfile (snd (copySegments ''a'' ''b'' (two_disks [1, 10, 2, 10] [1, 10]))) ''b'' ''000000.jsonl'' = Some t \<and>
     prefix [1, 10, 2, 10] t"
proof -
  let ?w = "two_disks [1, 10, 2, 10] [1, 10]"
  have w: "stats_work ?w" "\<forall>k e. jw_fail ?w Readdir k = Some e \<longrightarrow> \<not> missing e"
    by (simp_all add: stats_work_def two_disks_def)
  have f: "jfile ?w ''a'' ''000000.jsonl'' = Some [1, 10, 2, 10]" by (simp add: two_disks_def)
  have "copySegments ''a'' ''b'' ?w = (Inr (), snd (copySegments ''a'' ''b'' ?w))"
    by (metis seeds_run prod.collapse)
  from seeding_loses_nothing [OF _ w this] show ?thesis using f is_segment_zero by blast
qed

text \<open>The two volumes when the second call about the size of a file, the one on the target, fails.\<close>

definition sick_target :: "bytes \<Rightarrow> bytes \<Rightarrow> jworld" where
  "sick_target a b = (two_disks a b)\<lparr>jw_fail := (\<lambda>c k. if c = Stat \<and> k = 3 then Some (coded_error ''EIO'' ''input/output error'') else None)\<rparr>"

text \<open>
  A target whose file cannot be measured for any reason, not only because it is missing, is taken to
  have none: \<open>copySegments\<close> then overwrites it without the comparison, succeeds, and destroys a history
  that is neither at the target nor at the source any more.
\<close>

theorem unreadable_target_overwritten:
  "fst (copySegments ''a'' ''b'' (sick_target [1, 10] [7, 10, 8, 10])) = Inr () \<and>
   jfile (sick_target [1, 10] [7, 10, 8, 10]) ''b'' ''000000.jsonl'' = Some [7, 10, 8, 10] \<and>
   jfile (snd (copySegments ''a'' ''b'' (sick_target [1, 10] [7, 10, 8, 10]))) ''b'' ''000000.jsonl'' = Some [1, 10]"
  by (simp add: copySegments_def two_disks_def sick_target_def listSegments_def readdir_def catchE_def bindE_def call_def returnE_def
      copySegment_def fs_stat_def fs_content_def stat_or_null_def fs_open_def finallyE_def fs_copyFile_def set_file_def fsyncDirectory_def Let_def)

section \<open>Torn tails\<close>

text \<open>The complete lines of a file, each with its newline.\<close>

fun complete_lines :: "bytes \<Rightarrow> bytes list" where
  "complete_lines [] = []"
| "complete_lines (x # xs) = (if x = newline then [x] # complete_lines xs
     else case complete_lines xs of [] \<Rightarrow> [] | l # ls \<Rightarrow> (x # l) # ls)"

lemma complete_lines_none: "newline \<notin> set b \<Longrightarrow> complete_lines b = []"
  by (induction b) auto

lemma complete_lines_append: "complete_lines ((a @ [newline]) @ b) = complete_lines (a @ [newline]) @ complete_lines b"
proof (induction a)
  case (Cons x a)
  have "complete_lines (a @ [newline]) \<noteq> []" by (induction a) (auto split: list.splits)
  then show ?case using Cons by (cases "complete_lines (a @ [newline])") auto
qed simp

lemma concat_complete_lines: "concat (complete_lines (a @ [newline])) = a @ [newline]"
proof (induction a)
  case (Cons x a)
  then show ?case by (cases "complete_lines (a @ [newline])") auto
qed simp

text \<open>The bytes up to the last newline.\<close>

definition complete_length :: "bytes \<Rightarrow> nat" where
  "complete_length b = (case last_newline b of None \<Rightarrow> 0 | Some i \<Rightarrow> Suc i)"

lemma dropWhile_is_Nil: "dropWhile (\<lambda>x. x \<noteq> y) xs = [] \<longleftrightarrow> y \<notin> set xs"
  by (auto simp: dropWhile_eq_Nil_conv)

lemma complete_length_append:
  "complete_length (a @ c) = (case last_newline c of None \<Rightarrow> complete_length a | Some i \<Rightarrow> length a + Suc i)"
proof (cases "newline \<in> set c")
  case True
  then have "dropWhile (\<lambda>x. x \<noteq> newline) (rev c @ rev a) = dropWhile (\<lambda>x. x \<noteq> newline) (rev c) @ rev a"
    by (intro dropWhile_append1 [of newline]) auto
  moreover have ne: "dropWhile (\<lambda>x. x \<noteq> newline) (rev c) \<noteq> []" using True by (simp add: dropWhile_is_Nil)
  then have "0 < length (dropWhile (\<lambda>x. x \<noteq> newline) (rev c))" by blast
  ultimately show ?thesis using ne True by (auto simp: complete_length_def last_newline_def Let_def)
next
  case False
  then have no: "\<forall>x \<in> set c. x \<noteq> newline" by metis
  then have "dropWhile (\<lambda>x. x \<noteq> newline) (rev c @ rev a) = dropWhile (\<lambda>x. x \<noteq> newline) (rev a)"
    by (intro dropWhile_append2) auto
  moreover have "dropWhile (\<lambda>x. x \<noteq> newline) (rev c) = []" using no by simp
  ultimately show ?thesis using no by (simp add: complete_length_def last_newline_def Let_def)
qed

lemma complete_length_le: "complete_length b \<le> length b"
  unfolding complete_length_def last_newline_def Let_def
  by (auto simp: Suc_le_eq) (metis Suc_pred' length_dropWhile_le length_greater_0_conv length_rev)

lemma complete_part: "concat (complete_lines b) = take (complete_length b) b \<and> complete_lines (take (complete_length b) b) = complete_lines b"
proof (cases "newline \<in> set b")
  case True
  then obtain p q where b: "b = (p @ [newline]) @ q" "newline \<notin> set q" using split_list_last [of newline b] by auto
  have q: "last_newline q = None" using b(2) by (simp add: last_newline_def Let_def dropWhile_eq_Nil_conv)
  have "last_newline [newline] = Some 0" by (simp add: last_newline_def)
  then have l: "complete_length b = length (p @ [newline])"
    unfolding b(1) complete_length_append [of "p @ [newline]" q] complete_length_append [of p "[newline]"] by (simp add: q)
  have "take (complete_length b) b = take (length (p @ [newline])) ((p @ [newline]) @ q)" unfolding l using b(1) by simp
  then have "take (complete_length b) b = p @ [newline]" by simp
  then show ?thesis unfolding b(1) complete_lines_append
    by (simp add: complete_lines_none [OF b(2)] concat_complete_lines)
next
  case False
  then have "last_newline b = None" by (simp add: last_newline_def Let_def dropWhile_eq_Nil_conv)
  then show ?thesis using False by (simp add: complete_length_def complete_lines_none)
qed

lemma tailLoop_spec:
  assumes "tailLoop m f fin w = (Inr n, w')" "jfile w m f = Some b" "fin \<le> length b"
  shows "n = complete_length (take fin b)"
  using assms
proof (induction m f fin w arbitrary: w' rule: tailLoop.induct)
  case (1 m f fin w)
  show ?case
  proof (cases "fin = 0")
    case True
    then show ?thesis using "1.prems"(1) by (simp add: tailLoop.simps [of m f 0 w] complete_length_def last_newline_def)
  next
    case False
    define start where "start = fin - TAIL_CHUNK"
    note run = "1.prems"(1) [unfolded tailLoop.simps [of m f fin w] start_def [symmetric] Let_def]
    obtain r w1 where rd: "fs_read m f start (fin - start) w = (r, w1)" by fastforce
    obtain x where r: "r = Inr x" using run rd False by (cases r) auto
    have d: "jw_dirs w1 = jw_dirs w" and x: "x = take (fin - start) (drop start b)"
      using fs_read_Inr [OF rd [unfolded r]] "1.prems"(2) by auto
    have sp: "take fin b = take start b @ x"
      unfolding x by (metis start_def diff_le_self le_add_diff_inverse take_add)
    have st: "length (take start b) = start" using "1.prems"(3) by (simp add: start_def)
    show ?thesis
    proof (cases "last_newline x")
      case None
      then have "tailLoop m f start w1 = (Inr n, w')" using run rd r False by simp
      then have "n = complete_length (take start b)"
        using "1.IH" [OF False start_def rd [symmetric] r None] "1.prems"(2, 3) d by (simp add: start_def)
      then show ?thesis by (simp add: sp complete_length_append None)
    next
      case (Some i)
      then show ?thesis using run rd r False st by (simp add: sp complete_length_append)
    qed
  qed
qed

lemma reads_tailLoop: "reads (tailLoop m f fin)"
  unfolding reads_def
proof
  fix w
  show "\<exists>k. snd (tailLoop m f fin w) = w\<lparr>jw_calls := k\<rparr>"
  proof (induction m f fin w rule: tailLoop.induct)
    case (1 m f fin w)
    define start where "start = fin - TAIL_CHUNK"
    obtain r w1 where rd: "fs_read m f start (fin - start) w = (r, w1)" by fastforce
    obtain k where k: "w1 = w\<lparr>jw_calls := k\<rparr>" using readsD [OF reads_files(3) rd] by auto
    show ?case
    proof (cases "fin \<noteq> 0 \<and> (\<exists>x. r = Inr x \<and> last_newline x = None)")
      case True
      then obtain x where x: "r = Inr x" "last_newline x = None" by blast
      show ?thesis using "1.IH" [OF _ start_def rd [symmetric] x] True
        by (auto simp: tailLoop.simps [of m f fin w] start_def [symmetric] Let_def rd k x)
    next
      case False
      then show ?thesis
        by (auto simp: tailLoop.simps [of m f fin w] start_def [symmetric] Let_def rd k same_calls split: sum.splits option.splits)
    qed
  qed
qed

lemma fs_truncate_effect:
  assumes "fs_truncate m f n w = (r, w')"
  shows "jw_fail w' = jw_fail w" "(m', g) \<noteq> (m, f) \<Longrightarrow> jfile w' m' g = jfile w m' g"
    "jfile w m f = Some b \<Longrightarrow> jfile w' m f = Some (if r = Inr () then take n b else b)"
    "jfile w m f = None \<Longrightarrow> w' = w"
  using assms by (auto simp: fs_truncate_def bindE_def fs_content_def call_def split: option.splits)

text \<open>What cutting a file back may do to it: nothing, or the cut.\<close>

definition cut_to :: "string \<Rightarrow> string \<Rightarrow> nat \<Rightarrow> jworld \<Rightarrow> js_error + unit \<Rightarrow> jworld \<Rightarrow> bool" where
  "cut_to m f n w r w' \<longleftrightarrow> jw_fail w' = jw_fail w \<and> (\<forall>m' g. (m', g) \<noteq> (m, f) \<longrightarrow> jfile w' m' g = jfile w m' g) \<and>
     (case jfile w m f of None \<Rightarrow> jfile w' m f = None | Some b \<Rightarrow> jfile w' m f = Some (take n b) \<or> jfile w' m f = Some b \<and> r \<noteq> Inr ())"

lemma cut_to_same: "jw_dirs w' = jw_dirs w \<Longrightarrow> jw_fail w' = jw_fail w \<Longrightarrow>
   (\<And>b. jfile w m f = Some b \<Longrightarrow> r = Inr () \<Longrightarrow> length b \<le> n) \<Longrightarrow> cut_to m f n w r w'"
  by (auto simp: cut_to_def split: option.splits)

lemma cut_to_after_reads:
  "reads x \<Longrightarrow> x w = (r0, w0) \<Longrightarrow> cut_to m f n w0 r w' \<Longrightarrow> cut_to m f n w r w'"
  using reads_same [of x w r0 w0] by (simp add: cut_to_def)

lemma cut_to_finally:
  assumes "finallyE x c w = (r, w')" "reads c" "\<And>r1 w1. x w = (r1, w1) \<Longrightarrow> cut_to m f n w r1 w1"
  shows "cut_to m f n w r w'"
proof -
  obtain r1 w1 where x: "x w = (r1, w1)" by fastforce
  obtain r2 w2 where c: "c w1 = (r2, w2)" by fastforce
  have "w' = w2" "r = Inr () \<Longrightarrow> r1 = Inr ()" using assms(1) by (auto simp: finallyE_def x c split: sum.splits)
  then show ?thesis using assms(3) [OF x] reads_same [OF assms(2) c] unfolding cut_to_def by (simp split: option.splits) blast
qed

lemma cut_to_truncate:
  assumes "bindE (fs_truncate m f n) (\<lambda>_. c) w = (r, w')" "reads c"
  shows "cut_to m f n w r w'"
proof -
  obtain r1 w1 where t: "fs_truncate m f n w = (r1, w1)" by fastforce
  note eff = fs_truncate_effect [OF t]
  show ?thesis
  proof (cases r1)
    case (Inl e)
    then show ?thesis using assms(1) eff by (auto simp: bindE_def t cut_to_def split: option.splits)
  next
    case (Inr x)
    then have c: "c w1 = (r, w')" using assms(1) by (simp add: bindE_def t)
    have "jfile w m f \<noteq> None" using t Inr by (auto simp: fs_truncate_def bindE_def fs_content_def split: option.splits)
    then show ?thesis using eff Inr reads_same [OF assms(2) c] by (auto simp: cut_to_def split: option.splits)
  qed
qed

lemma open_or_missing:
  assumes "catchE (bindE (fs_open m f) (\<lambda>_. returnE True)) (\<lambda>e. if missing e then returnE False else throwE e) w = (r, w')"
    "\<forall>k e. jw_fail w Open k = Some e \<longrightarrow> \<not> missing e"
  shows "r = Inr False \<longleftrightarrow> jfile w m f = None" "jfile w m f = None \<Longrightarrow> r = Inr False"
  using assms by (auto simp: catchE_def bindE_def fs_open_def fs_content_def call_def returnE_def throwE_def enoent_def
      split: option.splits if_splits)

lemma truncateSegmentTo_cut:
  assumes "truncateSegmentTo m f n w = (r, w')" "\<forall>k e. jw_fail w Open k = Some e \<longrightarrow> \<not> missing e"
  shows "cut_to m f n w r w'"
proof -
  let ?o = "catchE (bindE (fs_open m f) (\<lambda>_. returnE True)) (\<lambda>e. if missing e then returnE False else throwE e)"
  have ro: "reads ?o" by (auto intro!: reads_intros)
  obtain r0 w0 where o: "?o w = (r0, w0)" by fastforce
  note op = open_or_missing [OF o assms(2)]
  show ?thesis
  proof (cases r0)
    case (Inl e)
    then show ?thesis using assms(1) reads_same [OF ro o] by (intro cut_to_same) (auto simp: truncateSegmentTo_def bindE_def o)
  next
    case (Inr opened)
    show ?thesis
    proof (cases opened)
      case False
      then show ?thesis using assms(1) reads_same [OF ro o] Inr op
        by (intro cut_to_same) (auto simp: truncateSegmentTo_def bindE_def o returnE_def)
    next
      case True
      let ?x = "bindE (fs_stat m f) (\<lambda>size. if size \<le> n then returnE () else bindE (fs_truncate m f n) (\<lambda>_. call Sync))"
      have fin: "finallyE ?x (call Close) w0 = (r, w')" using assms(1) Inr True by (simp add: truncateSegmentTo_def bindE_def o)
      have "cut_to m f n w0 r1 w1" if x: "?x w0 = (r1, w1)" for r1 w1
      proof -
        obtain r2 w2 where st: "fs_stat m f w0 = (r2, w2)" by fastforce
        note s2 = reads_same [OF reads_files(2) st]
        show ?thesis
        proof (cases r2)
          case (Inl e)
          then show ?thesis using x s2 by (intro cut_to_same) (auto simp: bindE_def st)
        next
          case size: (Inr size)
          have len: "jfile w0 m f = Some b \<Longrightarrow> size = length b" for b
            using st size by (auto simp: fs_stat_def bindE_def fs_content_def call_def returnE_def split: option.splits)
          show ?thesis
          proof (cases "size \<le> n")
            case True
            then show ?thesis using x s2 size len by (intro cut_to_same) (auto simp: bindE_def st returnE_def)
          next
            case False
            then have "bindE (fs_truncate m f n) (\<lambda>_. call Sync) w2 = (r1, w1)" using x size by (simp add: bindE_def st)
            then show ?thesis by (intro cut_to_after_reads [OF reads_files(2) st] cut_to_truncate) (auto intro: reads_intros)
          qed
        qed
      qed
      from cut_to_finally [OF fin reads_basic(3) this] show ?thesis by (rule cut_to_after_reads [OF ro o])
    qed
  qed
qed

lemma rollBackTornTail_cut:
  assumes "rollBackTornTail m f w = (r, w')" "\<forall>k e. jw_fail w Open k = Some e \<longrightarrow> \<not> missing e"
  shows "cut_to m f (case jfile w m f of None \<Rightarrow> 0 | Some b \<Rightarrow> complete_length b) w r w'"
proof -
  let ?n = "case jfile w m f of None \<Rightarrow> 0 | Some b \<Rightarrow> complete_length b"
  let ?o = "catchE (bindE (fs_open m f) (\<lambda>_. returnE True)) (\<lambda>e. if missing e then returnE False else throwE e)"
  have ro: "reads ?o" by (auto intro!: reads_intros)
  obtain r0 w0 where o: "?o w = (r0, w0)" by fastforce
  note op = open_or_missing [OF o assms(2)]
  show ?thesis
  proof (cases "r0 = Inr True")
    case False
    then show ?thesis using assms(1) reads_same [OF ro o] op
      by (intro cut_to_same) (auto simp: rollBackTornTail_def bindE_def o returnE_def split: sum.splits if_splits)
  next
    case True
    then obtain b where b: "jfile w m f = Some b" using op by auto
    let ?x = "bindE (fs_stat m f) (\<lambda>size. if size = 0 then returnE () else bindE (tailLoop m f size) (\<lambda>complete.
           if complete = size then returnE () else bindE (fs_truncate m f complete) (\<lambda>_. call Sync)))"
    have fin: "finallyE ?x (call Close) w0 = (r, w')" using assms(1) True by (simp add: rollBackTornTail_def bindE_def o)
    have b0: "jfile w0 m f = Some b" using reads_same(1) [OF ro o] b by simp
    have "cut_to m f ?n w0 r1 w1" if x: "?x w0 = (r1, w1)" for r1 w1
    proof -
      obtain r2 w2 where st: "fs_stat m f w0 = (r2, w2)" by fastforce
      note s2 = reads_same [OF reads_files(2) st]
      show ?thesis
      proof (cases "r2 = Inr (length b) \<and> length b \<noteq> 0")
        case False
        then show ?thesis using x s2 st b0 b complete_length_le [of b]
          by (intro cut_to_same)
             (auto simp: bindE_def fs_stat_def fs_content_def call_def returnE_def split: option.splits if_splits)
      next
        case sz: True
        obtain r3 w3 where t: "tailLoop m f (length b) w2 = (r3, w3)" by fastforce
        note s3 = reads_same [OF reads_tailLoop t]
        show ?thesis
        proof (cases "\<exists>c. r3 = Inr c \<and> c \<noteq> length b")
          case True
          then obtain c where c: "r3 = Inr c" "c \<noteq> length b" by blast
          have "c = complete_length b" using tailLoop_spec [OF t [unfolded c(1)]] b0 s2(1) by simp
          then have "bindE (fs_truncate m f ?n) (\<lambda>_. call Sync) w3 = (r1, w1)" using x sz c by (simp add: bindE_def st t b)
          then have "cut_to m f ?n w3 r1 w1" by (rule cut_to_truncate) (rule reads_basic)
          then show ?thesis using s2 s3 by (simp add: cut_to_def)
        next
          case False
          then have "w1 = w3" "r1 = Inr () \<Longrightarrow> r3 = Inr (length b)" using x sz by (auto simp: bindE_def st t returnE_def split: sum.splits if_splits)
          then show ?thesis using s2 s3 tailLoop_spec [of m f "length b" w2 "length b" w3 b] t b0 b by (intro cut_to_same) auto
        qed
      qed
    qed
    from cut_to_finally [OF fin reads_basic(3) this] show ?thesis by (rule cut_to_after_reads [OF ro o])
  qed
qed



end
