(* ===== verification/Journal.thy ===== *)
theory Journal
  imports Journal_Files
begin

text \<open>
  The namespace journal (class \<open>Journal\<close> of \<^verbatim>\<open>lib/io/journal.ts\<close>): a replicated append-only file of JSON
  lines. The state is the class's fields; a promise handed to a caller is a number, and the ones that
  were resolved or rejected are listed with their lines. A flush and a rebuild of the replica set are single operations:
  the code serialises them on \<open>flushing\<close> and \<open>reconfiguring\<close>, and \<open>append\<close> waits for the latter. What the
  fleet looks like is an argument of every operation that asks it. Notifications are left out. The
  lemmas show what an acknowledged batch is worth: every replica in service has it, after any sequence of
  flushes, rotations and re-elections.
\<close>

section \<open>Records\<close>

datatype journal_record =
    PutRecord (jr_ts: string) (jr_id: string) (jr_cid: "string option") (jr_name: string) (jr_mime: "string option")
      (jr_md5: "string option") (jr_size: int) (jr_cs: int) (jr_dv: "nat list") (jr_pv: "nat list")
  | DelRecord (jr_ts: string) (jr_id: string)
  | ContainerRecord (jr_ts: string) (jr_id: string) (jr_cid: "string option") (jr_name: string)
  | PolicyRecord (jr_ts: string) (jr_id: string) (jr_pr: "bool option") (jr_pw: "bool option") (jr_dp: "bool option")

text \<open>\<open>JSON.stringify\<close> on these records. Strings are UTF-8; a field that is undefined is left out.\<close>

definition hex_digit :: "nat \<Rightarrow> char" where
  "hex_digit n = char_of (if n < 10 then 48 + n else 87 + n)"

definition json_char :: "char \<Rightarrow> string" where
  "json_char c = (let n = of_char c :: nat in
     if n = 34 then [char_of (92::nat), c] else if n = 92 then [c, c]
     else if n = 8 then char_of (92::nat) # ''b'' else if n = 9 then char_of (92::nat) # ''t''
     else if n = 10 then char_of (92::nat) # ''n'' else if n = 12 then char_of (92::nat) # ''f''
     else if n = 13 then char_of (92::nat) # ''r''
     else if n < 32 then char_of (92::nat) # ''u00'' @ [hex_digit (n div 16), hex_digit (n mod 16)]
     else [c])"

definition json_string :: "string \<Rightarrow> string" where
  "json_string s = [char_of (34::nat)] @ concat (map json_char s) @ [char_of (34::nat)]"

definition json_int :: "int \<Rightarrow> string" where
  "json_int i = (if i < 0 then ''-'' @ decimal (nat (- i)) else decimal (nat i))"

definition json_bool :: "bool \<Rightarrow> string" where
  "json_bool b = (if b then ''true'' else ''false'')"

definition json_null :: "('a \<Rightarrow> string) \<Rightarrow> 'a option \<Rightarrow> string" where
  "json_null f x = (case x of None \<Rightarrow> ''null'' | Some a \<Rightarrow> f a)"

fun comma_join :: "string list \<Rightarrow> string" where
  "comma_join [] = []"
| "comma_join [s] = s"
| "comma_join (s # ss) = s @ '','' @ comma_join ss"

definition json_field :: "string \<Rightarrow> string \<Rightarrow> string" where
  "json_field k v = json_string k @ '':'' @ v"

definition json_object :: "string list \<Rightarrow> string" where
  "json_object fs = ''{'' @ comma_join fs @ ''}''"

definition optional_field :: "string \<Rightarrow> bool option \<Rightarrow> string list" where
  "optional_field k v = (case v of None \<Rightarrow> [] | Some b \<Rightarrow> [json_field k (json_bool b)])"

fun stringify :: "journal_record \<Rightarrow> string" where
  "stringify (PutRecord ts i cid nm mime md5 sz cs dv pv) = json_object
     [json_field ''op'' (json_string ''put''), json_field ''ts'' (json_string ts), json_field ''id'' (json_string i),
      json_field ''cid'' (json_null json_string cid), json_field ''name'' (json_string nm),
      json_field ''mime'' (json_null json_string mime), json_field ''md5'' (json_null json_string md5),
      json_field ''size'' (json_int sz), json_field ''cs'' (json_int cs),
      json_field ''dv'' (''['' @ comma_join (map decimal dv) @ '']''), json_field ''pv'' (''['' @ comma_join (map decimal pv) @ '']'')]"
| "stringify (DelRecord ts i) = json_object
     [json_field ''op'' (json_string ''del''), json_field ''ts'' (json_string ts), json_field ''id'' (json_string i)]"
| "stringify (ContainerRecord ts i cid nm) = json_object
     [json_field ''op'' (json_string ''container''), json_field ''ts'' (json_string ts), json_field ''id'' (json_string i),
      json_field ''cid'' (json_null json_string cid), json_field ''name'' (json_string nm)]"
| "stringify (PolicyRecord ts i pr pw dp) = json_object
     ([json_field ''op'' (json_string ''policy''), json_field ''ts'' (json_string ts), json_field ''id'' (json_string i)]
      @ optional_field ''pr'' pr @ optional_field ''pw'' pw @ optional_field ''dp'' dp)"

definition utf8 :: "string \<Rightarrow> bytes" where
  "utf8 s = map (\<lambda>c. word_of_nat (of_char c)) s"

definition record_line :: "journal_record \<Rightarrow> bytes" where
  "record_line r = utf8 (stringify r) @ [newline]"

section \<open>State\<close>

record replica =
  r_volumeId :: nat
  r_mountPoint :: string
  r_handle :: "string option"
  r_bytes :: nat

record journal_config =
  jc_enabled :: bool
  jc_replicas :: nat
  jc_maxBatch :: nat
  jc_segmentBytes :: nat

record candidate =
  c_id :: nat
  c_mountPoint :: string
  c_busGroup :: "int option"

record fleet_volume =
  fv_id :: nat
  fv_mountPoint :: "string option"
  fv_isDeleted :: bool
  fv_isMounted :: bool

record fleet_view =
  fl_writable :: "candidate list"
  fl_volumes :: "fleet_volume list"

record source =
  s_volumeId :: nat
  s_mountPoint :: string

record journal =
  j_replicas :: "replica list"
  j_segment :: nat
  j_started :: bool
  j_stopping :: bool
  j_pending :: "(nat \<times> bytes) list"
  j_flushTimer :: bool
  j_reconfiguring :: nat
  j_reelectionNeeded :: bool
  j_resolved :: "(nat \<times> bytes) list"
  j_rejected :: "(nat \<times> bytes) list"
  j_published :: "nat list"

definition new_journal :: journal where
  "new_journal = \<lparr>j_replicas = [], j_segment = 0, j_started = False, j_stopping = False, j_pending = [], j_flushTimer = False,
     j_reconfiguring = 0, j_reelectionNeeded = False, j_resolved = [], j_rejected = [], j_published = []\<rparr>"

definition replicaVolumeIds :: "journal \<Rightarrow> nat list" where
  "replicaVolumeIds j = map r_volumeId (j_replicas j)"

definition publishReplicaLocation :: "journal \<Rightarrow> journal" where
  "publishReplicaLocation j = (let ids = replicaVolumeIds j in if ids = [] then j else j\<lparr>j_published := ids\<rparr>)"

text \<open>\<open>reconfigure\<close> puts a rebuild behind the ones already chained.\<close>

definition reconfigure :: "journal \<Rightarrow> journal" where
  "reconfigure j = (if j_stopping j then j else j\<lparr>j_reconfiguring := Suc (j_reconfiguring j)\<rparr>)"

section \<open>Electing\<close>

definition bus_group :: "candidate \<Rightarrow> int" where
  "bus_group c = (case c_busGroup c of None \<Rightarrow> - int (c_id c) | Some g \<Rightarrow> g)"

fun keepLoop :: "nat \<Rightarrow> candidate list \<Rightarrow> replica list \<Rightarrow> candidate list \<Rightarrow> int list \<Rightarrow> candidate list \<times> int list" where
  "keepLoop wanted cs [] chosen used = (chosen, used)"
| "keepLoop wanted cs (r # rs) chosen used =
     (case find (\<lambda>c. c_id c = r_volumeId r) cs of
        None \<Rightarrow> keepLoop wanted cs rs chosen used
      | Some c \<Rightarrow>
          if bus_group c \<in> set used then keepLoop wanted cs rs chosen used
          else if length (chosen @ [c]) = wanted then (chosen @ [c], bus_group c # used)
          else keepLoop wanted cs rs (chosen @ [c]) (bus_group c # used))"

fun spreadLoop :: "nat \<Rightarrow> candidate list \<Rightarrow> candidate list \<Rightarrow> int list \<Rightarrow> candidate list" where
  "spreadLoop wanted [] chosen used = chosen"
| "spreadLoop wanted (c # cs) chosen used =
     (if length chosen = wanted then chosen
      else if c_id c \<in> c_id ` set chosen \<or> bus_group c \<in> set used then spreadLoop wanted cs chosen used
      else spreadLoop wanted cs (chosen @ [c]) (bus_group c # used))"

fun fillLoop :: "nat \<Rightarrow> candidate list \<Rightarrow> candidate list \<Rightarrow> candidate list" where
  "fillLoop wanted [] chosen = chosen"
| "fillLoop wanted (c # cs) chosen =
     (if length chosen = wanted then chosen
      else if c_id c \<in> c_id ` set chosen then fillLoop wanted cs chosen
      else fillLoop wanted cs (chosen @ [c]))"

definition chooseReplicas :: "journal_config \<Rightarrow> candidate list \<Rightarrow> replica list \<Rightarrow> candidate list" where
  "chooseReplicas cfg candidates replicas =
     (case keepLoop (jc_replicas cfg) candidates replicas [] [] of
        (chosen, used) \<Rightarrow> fillLoop (jc_replicas cfg) candidates (spreadLoop (jc_replicas cfg) candidates chosen used))"

section \<open>Handles and segments\<close>

text \<open>\<open>closeReplica\<close>: an error of the close is swallowed.\<close>

definition closeReplica :: "replica \<Rightarrow> jworld \<Rightarrow> replica \<times> jworld" where
  "closeReplica r w = (if r_handle r = None then (r, w) else (r\<lparr>r_handle := None\<rparr>, snd (call Close w)))"

fun closeEach :: "replica list \<Rightarrow> jworld \<Rightarrow> replica list \<times> jworld" where
  "closeEach [] w = ([], w)"
| "closeEach (r # rs) w = (case closeReplica r w of (r', w1) \<Rightarrow> (case closeEach rs w1 of (rs', w2) \<Rightarrow> (r' # rs', w2)))"

definition closeAll :: "journal \<Rightarrow> jworld \<Rightarrow> journal \<times> jworld" where
  "closeAll j w = (case closeEach (j_replicas j) w of (rs, w') \<Rightarrow> (j\<lparr>j_replicas := rs\<rparr>, w'))"

text \<open>\<open>fsp.open(path, 'a')\<close>: the file is created when it is missing.\<close>

definition fs_open_append :: "string \<Rightarrow> string \<Rightarrow> unit fs" where
  "fs_open_append m f = bindE (call Open) (\<lambda>_ w. (Inr (), if jfile w m f = None then set_file m f [] w else w))"

text \<open>One round of the opening loop: the replica with its segment open, or \<open>None\<close> when it cannot be opened.\<close>

definition openReplica :: "string \<Rightarrow> replica \<Rightarrow> jworld \<Rightarrow> replica option \<times> jworld" where
  "openReplica f r w =
    (if r_handle r \<noteq> None then (Some r, w)
     else let m = r_mountPoint r in
       case bindE (call Mkdir) (\<lambda>_. bindE (rollBackTornTail m f) (\<lambda>_. bindE (fs_open_append m f) (\<lambda>_.
              bindE (fs_stat m f) (\<lambda>size. bindE (fsyncDirectory m) (\<lambda>_. returnE size))))) w of
         (Inr n, w') \<Rightarrow> (Some (r\<lparr>r_handle := Some f, r_bytes := n\<rparr>), w')
       | (Inl e, w') \<Rightarrow> (None, w'))"

fun openEach :: "string \<Rightarrow> replica list \<Rightarrow> jworld \<Rightarrow> replica list \<times> jworld" where
  "openEach f [] w = ([], w)"
| "openEach f (r # rs) w =
     (case openReplica f r w of (x, w1) \<Rightarrow> (case openEach f rs w1 of (rs', w2) \<Rightarrow> ((case x of None \<Rightarrow> [] | Some r' \<Rightarrow> [r']) @ rs', w2)))"

fun presentSegments :: "string list \<Rightarrow> nat list fs" where
  "presentSegments [] = returnE []"
| "presentSegments (m # ms) = bindE (listSegments m) (\<lambda>fs. bindE (presentSegments ms) (\<lambda>rest. returnE (map segment_number fs @ rest)))"

text \<open>\<open>openSegments\<close>: the error when the lineage cannot be listed, the new state otherwise.\<close>

definition openSegments :: "string list \<Rightarrow> journal \<Rightarrow> jworld \<Rightarrow> (js_error + journal) \<times> jworld" where
  "openSegments discoverFrom j w =
    (if j_stopping j then (Inr j, w)
     else case presentSegments discoverFrom w of
       (Inl e, w1) \<Rightarrow> (Inl e, w1)
     | (Inr present, w1) \<Rightarrow>
         let top = fold max present 0; highest = max (j_segment j) top in
         case (if highest \<noteq> j_segment j then closeAll (j\<lparr>j_segment := highest\<rparr>) w1 else (j, w1)) of
           (j2, w2) \<Rightarrow>
             (case openEach (segment_file (j_segment j2)) (j_replicas j2) w2 of
                (rs, w3) \<Rightarrow> (Inr (if length rs < length (j_replicas j2) then j2\<lparr>j_replicas := rs, j_reelectionNeeded := True\<rparr>
                                  else j2\<lparr>j_replicas := rs\<rparr>), w3)))"

definition rotateIfNeeded :: "journal_config \<Rightarrow> journal \<Rightarrow> jworld \<Rightarrow> journal \<times> jworld" where
  "rotateIfNeeded cfg j w =
    (if \<exists>r \<in> set (j_replicas j). r_handle r \<noteq> None \<and> jc_segmentBytes cfg \<le> r_bytes r
     then case closeAll (j\<lparr>j_segment := Suc (j_segment j)\<rparr>) w of
       (j1, w1) \<Rightarrow> (case openSegments [] j1 w1 of (Inr j2, w2) \<Rightarrow> (j2, w2) | (Inl e, w2) \<Rightarrow> (j1, w2))
     else (j, w))"

section \<open>Writing a batch\<close>

datatype write_outcome = Skipped | Durable | Failed

definition writeReplica :: "bytes \<Rightarrow> replica \<Rightarrow> jworld \<Rightarrow> (write_outcome \<times> replica) \<times> jworld" where
  "writeReplica body r w =
    (case r_handle r of
       None \<Rightarrow> ((Skipped, r), w)
     | Some f \<Rightarrow>
         (case bindE (fs_append (r_mountPoint r) f body) (\<lambda>n.
                 if n \<noteq> length body then throwE (plain_error ''short write'') else call Sync) w of
            (Inr _, w') \<Rightarrow> ((Durable, r\<lparr>r_bytes := r_bytes r + length body\<rparr>), w')
          | (Inl e, w') \<Rightarrow> (case closeReplica r w' of (r', w'') \<Rightarrow> ((Failed, r'), w''))))"

fun writeEach :: "bytes \<Rightarrow> replica list \<Rightarrow> jworld \<Rightarrow> (write_outcome \<times> replica) list \<times> jworld" where
  "writeEach body [] w = ([], w)"
| "writeEach body (r # rs) w =
     (case writeReplica body r w of (x, w1) \<Rightarrow> (case writeEach body rs w1 of (xs, w2) \<Rightarrow> (x # xs, w2)))"

text \<open>The roll-back of a batch nobody acknowledged; what cannot be rolled back is only reported.\<close>

fun rollBackEach :: "string \<Rightarrow> replica list \<Rightarrow> jworld \<Rightarrow> jworld" where
  "rollBackEach f [] w = w"
| "rollBackEach f (r # rs) w = rollBackEach f rs (snd (truncateSegmentTo (r_mountPoint r) f (r_bytes r) w))"

text \<open>After the writes: failed replicas leave the set, and the batch is rejected and rolled back or resolved.\<close>

definition settleBatch ::
  "journal_config \<Rightarrow> journal \<Rightarrow> (nat \<times> bytes) list \<Rightarrow> (write_outcome \<times> replica) list \<Rightarrow> jworld \<Rightarrow> journal \<times> jworld" where
  "settleBatch cfg j batch out w =
    (let j1 = j\<lparr>j_pending := [], j_replicas := map snd (filter (\<lambda>x. fst x \<noteq> Failed) out),
                j_reelectionNeeded := (j_reelectionNeeded j \<or> (\<exists>x \<in> set out. fst x = Failed))\<rparr>;
         touched = filter (\<lambda>r. r_handle r \<noteq> None) (j_replicas j)
     in if \<exists>x \<in> set out. fst x = Durable then rotateIfNeeded cfg (j1\<lparr>j_resolved := j_resolved j @ batch\<rparr>) w
        else (j1\<lparr>j_rejected := j_rejected j @ batch\<rparr>, rollBackEach (segment_file (j_segment j)) touched w))"

definition flush :: "journal_config \<Rightarrow> journal \<Rightarrow> jworld \<Rightarrow> journal \<times> jworld" where
  "flush cfg j0 w =
    (let j = j0\<lparr>j_flushTimer := False\<rparr>; batch = j_pending j in
     if batch = [] then (j, w)
     else case writeEach (concat (map snd batch)) (j_replicas j) w of (out, w1) \<Rightarrow>
       (case settleBatch cfg j batch out w1 of (j2, w2) \<Rightarrow> (if j_reelectionNeeded j2 then reconfigure j2 else j2, w2)))"

section \<open>Sources of the history\<close>

fun scanLoop :: "fleet_volume list \<Rightarrow> jworld \<Rightarrow> (source list \<times> nat list) \<times> jworld" where
  "scanLoop [] w = (([], []), w)"
| "scanLoop (v # vs) w =
    (if fv_isDeleted v then scanLoop vs w
     else case (if fv_isMounted v then fv_mountPoint v else None) of
       None \<Rightarrow> (case scanLoop vs w of ((found, unreadable), w') \<Rightarrow> ((found, fv_id v # unreadable), w'))
     | Some m \<Rightarrow>
       (if m = [] then (case scanLoop vs w of ((found, unreadable), w') \<Rightarrow> ((found, fv_id v # unreadable), w'))
        else case listSegmentSizes m w of
          (Inl e, w1) \<Rightarrow> (case scanLoop vs w1 of ((found, unreadable), w') \<Rightarrow> ((found, fv_id v # unreadable), w'))
        | (Inr segments, w1) \<Rightarrow>
            (case scanLoop vs w1 of ((found, unreadable), w') \<Rightarrow>
               ((if (\<exists>x \<in> set segments. 0 < snd x) \<and> ''000000.jsonl'' \<in> fst ` set segments
                 then \<lparr>s_volumeId = fv_id v, s_mountPoint = m\<rparr> # found else found, unreadable), w'))))"

fun placeIn :: "source \<Rightarrow> source list list \<Rightarrow> source list list fs" where
  "placeIn c [] = returnE [[c]]"
| "placeIn c (l # ls) = bindE (sameLineage (s_mountPoint (hd l)) (s_mountPoint c)) (\<lambda>same.
     if same then returnE ((l @ [c]) # ls) else bindE (placeIn c ls) (\<lambda>ls'. returnE (l # ls')))"

fun lineageLoop :: "source list \<Rightarrow> source list list \<Rightarrow> source list list fs" where
  "lineageLoop [] classes = returnE classes"
| "lineageLoop (c # cs) classes = bindE (placeIn c classes) (lineageLoop cs)"

text \<open>The sources to use and whether the question has no answer; the excluded volumes are only reported.\<close>

definition majorityLineage :: "source list \<Rightarrow> (source list \<times> bool) fs" where
  "majorityLineage candidates =
    (if length candidates < 2 then returnE (candidates, False)
     else bindE (lineageLoop candidates []) (\<lambda>classes.
       case sort_key (\<lambda>l. - int (length l)) classes of
         [] \<Rightarrow> returnE ([], False)
       | [l] \<Rightarrow> returnE (l, False)
       | l1 # l2 # _ \<Rightarrow> if length l1 = length l2 then returnE ([], True) else returnE (l1, False)))"

text \<open>An open handle on a volume the fleet reports as not mounted is closed and not trusted.\<close>

fun dropUnmounted :: "nat set \<Rightarrow> replica list \<Rightarrow> jworld \<Rightarrow> replica list \<times> jworld" where
  "dropUnmounted unmounted [] w = ([], w)"
| "dropUnmounted unmounted (r # rs) w =
     (case (if r_handle r \<noteq> None \<and> r_volumeId r \<in> unmounted then closeReplica r w else (r, w)) of
        (r', w1) \<Rightarrow> (case dropUnmounted unmounted rs w1 of (rs', w2) \<Rightarrow> (r' # rs', w2)))"

definition seedSources :: "fleet_view \<Rightarrow> journal \<Rightarrow> jworld \<Rightarrow> (js_error + source list \<times> bool) \<times> journal \<times> jworld" where
  "seedSources fleet j w =
    (case dropUnmounted (fv_id ` {v \<in> set (fl_volumes fleet). \<not> fv_isMounted v}) (j_replicas j) w of
       (rs, w1) \<Rightarrow>
         let j1 = j\<lparr>j_replicas := rs\<rparr> in
         case filter (\<lambda>r. r_handle r \<noteq> None) rs of
           r # _ \<Rightarrow> (Inr ([\<lparr>s_volumeId = r_volumeId r, s_mountPoint = r_mountPoint r\<rparr>], False), j1, w1)
         | [] \<Rightarrow>
           (case scanLoop (fl_volumes fleet) w1 of ((found, unreadable), w2) \<Rightarrow>
              (case majorityLineage found w2 of
                 (Inl e, w3) \<Rightarrow> (Inl e, j1, w3)
               | (Inr (sources, ambiguous), w3) \<Rightarrow>
                   if ambiguous then (Inr ([], True), j1, w3)
                   else if sources = [] \<and> unreadable \<noteq> [] then (Inr ([], True), j1, w3)
                   else (Inr (sources, False), j1, w3))))"

section \<open>Rebuilding the replica set\<close>

fun lineageSegments :: "source list \<Rightarrow> string list fs" where
  "lineageSegments [] = returnE []"
| "lineageSegments (s # ss) = bindE (listSegments (s_mountPoint s)) (\<lambda>fs. bindE (lineageSegments ss) (\<lambda>rest. returnE (fs @ rest)))"

text \<open>The segments with contents that the lineage does not have.\<close>

definition foreignSegments :: "string list \<Rightarrow> string \<Rightarrow> string list fs" where
  "foreignSegments lineage m = bindE (listSegmentSizes m) (\<lambda>sizes.
     returnE (map fst (filter (\<lambda>x. 0 < snd x \<and> fst x \<notin> set lineage) sizes)))"

fun seedFrom :: "source list \<Rightarrow> string \<Rightarrow> unit fs" where
  "seedFrom [] m = returnE ()"
| "seedFrom (s # ss) m = (if s_mountPoint s = m then seedFrom ss m else bindE (copySegments (s_mountPoint s) m) (\<lambda>_. seedFrom ss m))"

text \<open>
  One elected volume: it keeps its open replica, or is seeded and adopted, or is passed over. \<open>previous\<close> holds
  the replicas not (yet) kept.
\<close>

record rebuild =
  rb_kept :: "replica list"
  rb_adopted :: "replica list"
  rb_previous :: "replica list"
  rb_reelect :: bool

definition adoptOne :: "source list \<Rightarrow> string list \<Rightarrow> candidate \<Rightarrow> rebuild \<Rightarrow> jworld \<Rightarrow> rebuild \<times> jworld" where
  "adoptOne sources lineage c b w =
    (case find (\<lambda>r. r_volumeId r = c_id c \<and> r_handle r \<noteq> None) (rb_previous b) of
       Some r \<Rightarrow> (b\<lparr>rb_kept := rb_kept b @ [r], rb_previous := filter (\<lambda>r. r_volumeId r \<noteq> c_id c) (rb_previous b)\<rparr>, w)
     | None \<Rightarrow>
       (case foreignSegments lineage (c_mountPoint c) w of
          (Inl e, w1) \<Rightarrow> (b, w1)
        | (Inr foreign, w1) \<Rightarrow>
          if foreign \<noteq> [] then (b, w1)
          else case seedFrom sources (c_mountPoint c) w1 of
            (Inl e, w2) \<Rightarrow> (b\<lparr>rb_reelect := True\<rparr>, w2)
          | (Inr _, w2) \<Rightarrow>
              (b\<lparr>rb_adopted := rb_adopted b @ [\<lparr>r_volumeId = c_id c, r_mountPoint = c_mountPoint c, r_handle = None, r_bytes = 0\<rparr>]\<rparr>, w2)))"

fun adoptEach :: "source list \<Rightarrow> string list \<Rightarrow> candidate list \<Rightarrow> rebuild \<Rightarrow> jworld \<Rightarrow> rebuild \<times> jworld" where
  "adoptEach sources lineage [] b w = (b, w)"
| "adoptEach sources lineage (c # cs) b w =
     (case adoptOne sources lineage c b w of (b', w') \<Rightarrow> adoptEach sources lineage cs b' w')"

text \<open>The set that comes out of an election: open its segments and publish it, or keep the old one.\<close>

definition installReplicas :: "source list \<Rightarrow> rebuild \<Rightarrow> journal \<Rightarrow> jworld \<Rightarrow> journal \<times> jworld" where
  "installReplicas sources b j w =
    (let nxt = rb_kept b @ rb_adopted b; survivors = filter (\<lambda>r. r_handle r \<noteq> None) (rb_previous b) in
     if nxt = [] \<and> survivors \<noteq> [] then (j\<lparr>j_replicas := survivors\<rparr>, w)
     else case closeEach (rb_previous b) w of (_, w1) \<Rightarrow>
       let j1 = j\<lparr>j_replicas := nxt\<rparr> in
       case openSegments (map s_mountPoint sources) j1 w1 of
         (Inl e, w2) \<Rightarrow> (case closeAll j1 w2 of (j2, w3) \<Rightarrow> (j2\<lparr>j_replicas := []\<rparr>, w3))
       | (Inr j2, w2) \<Rightarrow> (publishReplicaLocation j2, w2))"

definition reconfigureOnce :: "journal_config \<Rightarrow> fleet_view \<Rightarrow> journal \<Rightarrow> jworld \<Rightarrow> (js_error option \<times> journal) \<times> jworld" where
  "reconfigureOnce cfg fleet j0 w0 =
    (case flush cfg (j0\<lparr>j_reelectionNeeded := False\<rparr>) w0 of (j, w) \<Rightarrow>
     let chosen = chooseReplicas cfg (fl_writable fleet) (j_replicas j) in
     case seedSources fleet j w of
       (Inl e, j1, w1) \<Rightarrow> ((Some e, j1), w1)
     | (Inr (sources, ambiguous), j1, w1) \<Rightarrow>
       if ambiguous then (case closeAll j1 w1 of (j2, w2) \<Rightarrow> ((None, j2\<lparr>j_replicas := []\<rparr>), w2))
       else case lineageSegments sources w1 of
         (Inl e, w2) \<Rightarrow> ((Some e, j1), w2)
       | (Inr lineage, w2) \<Rightarrow>
         (case adoptEach sources lineage chosen
                 \<lparr>rb_kept = [], rb_adopted = [], rb_previous = j_replicas j1, rb_reelect = j_reelectionNeeded j1\<rparr> w2 of
            (b, w3) \<Rightarrow> (case installReplicas sources b (j1\<lparr>j_reelectionNeeded := rb_reelect b\<rparr>) w3 of (j2, w4) \<Rightarrow> ((None, j2), w4))))"

text \<open>The rebuild at the head of the chain.\<close>

definition run_rebuild :: "journal_config \<Rightarrow> fleet_view \<Rightarrow> journal \<Rightarrow> jworld \<Rightarrow> (js_error option \<times> journal) \<times> jworld" where
  "run_rebuild cfg fleet j w = (case reconfigureOnce cfg fleet j w of
     ((e, j'), w') \<Rightarrow> ((e, j'\<lparr>j_reconfiguring := j_reconfiguring j' - 1\<rparr>), w'))"

section \<open>Appending and lifecycle\<close>

definition no_replicas_error :: js_error where
  "no_replicas_error = plain_error ''journal has no replicas: refusing to proceed with an unjournaled namespace change''"

datatype append_result = Unrecorded | Queued | Refused js_error

text \<open>\<open>append\<close> once no rebuild is in flight; \<open>t\<close> names the promise it returns.\<close>

definition append_record ::
  "journal_config \<Rightarrow> fleet_view \<Rightarrow> nat \<Rightarrow> journal_record \<Rightarrow> journal \<Rightarrow> jworld \<Rightarrow> (append_result \<times> journal) \<times> jworld" where
  "append_record cfg fleet t r j w =
    (if \<not> jc_enabled cfg \<or> \<not> j_started j then ((Unrecorded, j), w)
     else case (if j_replicas j = [] then run_rebuild cfg fleet (reconfigure j) w else ((None, j), w)) of
       ((_, j1), w1) \<Rightarrow>
         if j_replicas j1 = [] then ((Refused no_replicas_error, j1), w1)
         else let j2 = j1\<lparr>j_pending := j_pending j1 @ [(t, record_line r)]\<rparr> in
           if jc_maxBatch cfg \<le> length (j_pending j2) then (case flush cfg j2 w1 of (j3, w2) \<Rightarrow> ((Queued, j3), w2))
           else ((Queued, j2\<lparr>j_flushTimer := True\<rparr>), w1))"

definition start_journal :: "journal_config \<Rightarrow> fleet_view \<Rightarrow> journal \<Rightarrow> jworld \<Rightarrow> (js_error option \<times> journal) \<times> jworld" where
  "start_journal cfg fleet j w =
    (if \<not> jc_enabled cfg then ((None, j), w)
     else case run_rebuild cfg fleet (reconfigure (j\<lparr>j_stopping := False\<rparr>)) w of
       ((Some e, j'), w') \<Rightarrow> ((Some e, j'), w')
     | ((None, j'), w') \<Rightarrow> ((None, j'\<lparr>j_started := True\<rparr>), w'))"

definition stop_journal :: "journal_config \<Rightarrow> journal \<Rightarrow> jworld \<Rightarrow> journal \<times> jworld" where
  "stop_journal cfg j w = (case flush cfg (j\<lparr>j_stopping := True, j_started := False, j_flushTimer := False\<rparr>) w of
     (j', w') \<Rightarrow> closeAll j' w')"

definition onFleetChange :: "journal_config \<Rightarrow> fleet_view \<Rightarrow> journal \<Rightarrow> jworld \<Rightarrow> (js_error option \<times> journal) \<times> jworld" where
  "onFleetChange cfg fleet j w =
    (if \<not> jc_enabled cfg \<or> \<not> j_started j then ((None, j), w) else run_rebuild cfg fleet (reconfigure j) w)"

section \<open>Letting a volume go\<close>

definition not_safe_error :: "string \<Rightarrow> js_error" where
  "not_safe_error m = plain_error m"

text \<open>Whether another volume has the whole of a segment.\<close>

fun safeElsewhere :: "nat \<Rightarrow> string \<Rightarrow> string \<Rightarrow> nat \<Rightarrow> fleet_volume list \<Rightarrow> jworld \<Rightarrow> bool \<times> jworld" where
  "safeElsewhere vid mine f n [] w = (False, w)"
| "safeElsewhere vid mine f n (v # vs) w =
    (if fv_id v = vid \<or> fv_isDeleted v then safeElsewhere vid mine f n vs w
     else let m = the (fv_mountPoint v) in
       case listSegmentSizes m w of
         (Inl e, w1) \<Rightarrow> safeElsewhere vid mine f n vs w1
       | (Inr sizes, w1) \<Rightarrow>
         (case map_of sizes f of
            None \<Rightarrow> safeElsewhere vid mine f n vs w1
          | Some k \<Rightarrow>
            if k < n then safeElsewhere vid mine f n vs w1
            else (case agreeOnPrefix mine m f n w1 of
                (Inr True, w2) \<Rightarrow> (True, w2)
              | (_, w2) \<Rightarrow> safeElsewhere vid mine f n vs w2)))"

fun atRisk :: "nat \<Rightarrow> string \<Rightarrow> fleet_volume list \<Rightarrow> (string \<times> nat) list \<Rightarrow> jworld \<Rightarrow> string list \<times> jworld" where
  "atRisk vid mine vols [] w = ([], w)"
| "atRisk vid mine vols ((f, n) # segs) w =
    (case safeElsewhere vid mine f n vols w of (safe, w1) \<Rightarrow>
     (case atRisk vid mine vols segs w1 of (rest, w2) \<Rightarrow> (if safe then rest else f # rest, w2)))"

definition assertNotLastCopy :: "journal_config \<Rightarrow> fleet_view \<Rightarrow> nat \<Rightarrow> journal \<Rightarrow> jworld \<Rightarrow> js_error option \<times> jworld" where
  "assertNotLastCopy cfg fleet vid j w =
    (if \<not> jc_enabled cfg then (None, w)
     else let vols = filter (\<lambda>v. fv_isMounted v \<and> (case fv_mountPoint v of None \<Rightarrow> False | Some m \<Rightarrow> m \<noteq> [])) (fl_volumes fleet) in
       case find (\<lambda>v. fv_id v = vid) vols of
         None \<Rightarrow>
           (if \<exists>r \<in> set (j_replicas j). r_handle r \<noteq> None \<and> r_volumeId r \<noteq> vid \<and> (\<exists>v \<in> set vols. fv_id v = r_volumeId r)
            then (None, w) else (Some (not_safe_error ''cannot confirm that the volume is safe to remove: it is not mounted''), w))
       | Some v \<Rightarrow>
           (case listSegmentSizes (the (fv_mountPoint v)) w of
              (Inl e, w1) \<Rightarrow> (Some (not_safe_error ''cannot verify whether the volume holds the last copy of any journal segment''), w1)
            | (Inr segments, w1) \<Rightarrow>
                (case atRisk vid (the (fv_mountPoint v)) vols segments w1 of
                   (risk, w2) \<Rightarrow> (if risk = [] then None else Some (not_safe_error ''the volume holds the only complete copy of a journal segment''), w2))))"

definition relocateOff :: "journal_config \<Rightarrow> fleet_view \<Rightarrow> nat \<Rightarrow> journal \<Rightarrow> jworld \<Rightarrow> (js_error option \<times> journal) \<times> jworld" where
  "relocateOff cfg fleet vid j w =
    (case onFleetChange cfg fleet j w of
       ((Some e, j'), w') \<Rightarrow> ((Some e, j'), w')
     | ((None, j'), w') \<Rightarrow>
         if vid \<in> set (replicaVolumeIds j') then ((Some (not_safe_error ''the namespace journal is still replicated on the volume''), j'), w')
         else (case assertNotLastCopy cfg fleet vid j' w' of (e, w'') \<Rightarrow> ((e, j'), w'')))"

section \<open>Electing spreads over the bus groups\<close>

lemma keepLoop_spec:
  assumes "keepLoop wanted cs rs chosen used = (chosen', used')" "set chosen \<subseteq> set cs" "distinct (map bus_group chosen)"
    "set used = bus_group ` set chosen" "length chosen < wanted"
  shows "set chosen' \<subseteq> set cs \<and> distinct (map bus_group chosen') \<and> set used' = bus_group ` set chosen' \<and> length chosen' \<le> wanted"
  using assms
proof (induction wanted cs rs chosen used rule: keepLoop.induct)
  case (2 wanted cs r rs chosen used)
  show ?case
  proof (cases "find (\<lambda>c. c_id c = r_volumeId r) cs")
    case None
    then show ?thesis using "2.IH"(1) [OF None] "2.prems" by simp
  next
    case (Some c)
    then have c: "c \<in> set cs" by (auto simp: find_Some_iff)
    show ?thesis
    proof (cases "bus_group c \<in> set used")
      case True
      then show ?thesis using "2.IH"(2) [OF Some True] "2.prems" Some by simp
    next
      case False
      show ?thesis
      proof (cases "length (chosen @ [c]) = wanted")
        case True
        then show ?thesis using "2.prems" Some c False by auto
      next
        case more: False
        then show ?thesis using "2.IH"(3) [OF Some False more] "2.prems" Some c False by simp
      qed
    qed
  qed
qed auto

lemma spreadLoop_spec:
  assumes "spreadLoop wanted cs chosen used = chosen'" "set chosen \<subseteq> A" "set cs \<subseteq> A" "distinct (map bus_group chosen)"
    "set used = bus_group ` set chosen" "length chosen \<le> wanted" "inj_on c_id A"
  shows "set chosen' \<subseteq> A \<and> distinct (map bus_group chosen') \<and> length chosen' \<le> wanted \<and> bus_group ` set chosen \<subseteq> bus_group ` set chosen' \<and>
    (length chosen' < wanted \<longrightarrow> bus_group ` set cs \<subseteq> bus_group ` set chosen')"
  using assms
proof (induction wanted cs chosen used rule: spreadLoop.induct)
  case (2 wanted c cs chosen used)
  show ?case
  proof (cases "length chosen = wanted")
    case True
    then show ?thesis using "2.prems" by auto
  next
    case False
    show ?thesis
    proof (cases "c_id c \<in> c_id ` set chosen \<or> bus_group c \<in> set used")
      case True
      have "bus_group c \<in> bus_group ` set chosen"
        using True "2.prems" by (auto dest: inj_onD)
      then show ?thesis using "2.IH"(1) [OF False True] "2.prems" False True by auto
    next
      case fresh: False
      then show ?thesis using "2.IH"(2) [OF False fresh] "2.prems" False by auto
    qed
  qed
qed auto

lemma fillLoop_spec:
  assumes "fillLoop wanted cs chosen = chosen'" "set chosen \<subseteq> A" "set cs \<subseteq> A" "distinct (map c_id chosen)" "length chosen \<le> wanted"
    "inj_on c_id A"
  shows "set chosen' \<subseteq> A \<and> distinct (map c_id chosen') \<and> length chosen' \<le> wanted \<and> set chosen \<subseteq> set chosen' \<and>
    (length chosen < wanted \<or> chosen' = chosen) \<and> (length chosen' < wanted \<longrightarrow> set cs \<subseteq> set chosen')"
  using assms
proof (induction wanted cs chosen rule: fillLoop.induct)
  case (2 wanted c cs chosen)
  show ?case
  proof (cases "length chosen = wanted")
    case True
    then show ?thesis using "2.prems" by auto
  next
    case False
    show ?thesis
    proof (cases "c_id c \<in> c_id ` set chosen")
      case True
      then have "c \<in> set chosen" using "2.prems" by (auto dest: inj_onD)
      then show ?thesis using "2.IH"(1) [OF False True] "2.prems" False True by auto
    next
      case fresh: False
      then show ?thesis using "2.IH"(2) [OF False fresh] "2.prems" False by auto
    qed
  qed
qed auto

lemma election_sound:
  assumes "distinct (map c_id cs)" "0 < jc_replicas cfg"
  shows "set (chooseReplicas cfg cs rs) \<subseteq> set cs \<and> distinct (map c_id (chooseReplicas cfg cs rs)) \<and>
    length (chooseReplicas cfg cs rs) = min (jc_replicas cfg) (length cs) \<and>
    card (bus_group ` set (chooseReplicas cfg cs rs)) = min (jc_replicas cfg) (card (bus_group ` set cs))"
proof -
  let ?n = "jc_replicas cfg"
  have inj: "inj_on c_id (set cs)" "distinct cs" using assms(1) by (simp_all add: distinct_map)
  obtain k u where k: "keepLoop ?n cs rs [] [] = (k, u)" by fastforce
  have ks: "set k \<subseteq> set cs" "distinct (map bus_group k)" "set u = bus_group ` set k" "length k \<le> ?n"
    using keepLoop_spec [OF k] assms(2) by auto
  define s where "s = spreadLoop ?n cs k u"
  have ss: "set s \<subseteq> set cs" "distinct (map bus_group s)" "length s \<le> ?n" "length s < ?n \<longrightarrow> bus_group ` set cs \<subseteq> bus_group ` set s"
    using spreadLoop_spec [OF s_def [symmetric] ks(1) order_refl ks(2-4) inj(1)] by auto
  have ds: "distinct (map c_id s)"
    using ss(1, 2) inj(1) by (auto simp: distinct_map intro: inj_on_subset)
  define f where "f = fillLoop ?n cs s"
  have fs: "set f \<subseteq> set cs" "distinct (map c_id f)" "length f \<le> ?n" "set s \<subseteq> set f" "length s < ?n \<or> f = s"
      "length f < ?n \<longrightarrow> set cs \<subseteq> set f"
    using fillLoop_spec [OF f_def [symmetric] ss(1) order_refl ds ss(3) inj(1)] by auto
  have ch: "chooseReplicas cfg cs rs = f" by (simp add: chooseReplicas_def k s_def f_def)
  have df: "distinct f" using fs(2) by (simp add: distinct_map)
  have len: "length f \<le> length cs" using fs(1) df inj(2) by (metis card_mono distinct_card List.finite_set)
  have lf: "length f = min ?n (length cs)"
  proof (cases "length f < ?n")
    case True
    then have "set f = set cs" using fs by auto
    then have "length f = length cs" using df inj(2) by (metis distinct_card)
    then show ?thesis using True by simp
  qed (use fs(3) len in linarith)
  have cs: "card (bus_group ` set s) = length s" using ss(2) by (metis distinct_card length_map set_map)
  have le: "card (bus_group ` set f) \<le> card (bus_group ` set cs)" "card (bus_group ` set f) \<le> length f"
    using fs(1) by (auto intro!: card_mono image_mono) (metis card_length length_map set_map)
  have "card (bus_group ` set f) = min ?n (card (bus_group ` set cs))"
  proof (cases "length s < ?n")
    case True
    then have "bus_group ` set f = bus_group ` set cs"
      using ss(4) image_mono [OF fs(1), of bus_group] image_mono [OF fs(4), of bus_group] by blast
    then show ?thesis using le fs(3) by simp
  next
    case False
    then have "f = s" "length s = ?n" using fs(5) ss(3) by auto
    then show ?thesis using cs le by simp
  qed
  then show ?thesis using ch fs(1, 2) lf by simp
qed

text \<open>
  The election. With distinct candidates it picks as many volumes as are wanted, or all of them, each
  once, and they cover as many bus groups as any choice of that many volumes could.
\<close>

theorem election_spreads:
  assumes "distinct (map c_id cs)" "0 < jc_replicas cfg"
  shows "set (chooseReplicas cfg cs rs) \<subseteq> set cs \<and> distinct (map c_id (chooseReplicas cfg cs rs)) \<and>
    length (chooseReplicas cfg cs rs) = min (jc_replicas cfg) (length cs) \<and>
    card (bus_group ` set (chooseReplicas cfg cs rs)) = min (jc_replicas cfg) (card (bus_group ` set cs))"
  using assms by (rule election_sound)

theorem election_spreads_witness:
  "card (bus_group ` set (chooseReplicas \<lparr>jc_enabled = True, jc_replicas = 2, jc_maxBatch = 8, jc_segmentBytes = 100\<rparr>
     [\<lparr>c_id = 1, c_mountPoint = ''a'', c_busGroup = Some 0\<rparr>, \<lparr>c_id = 2, c_mountPoint = ''b'', c_busGroup = Some 0\<rparr>,
      \<lparr>c_id = 3, c_mountPoint = ''c'', c_busGroup = Some 1\<rparr>] [])) = 2"
  using election_spreads [of "[\<lparr>c_id = 1, c_mountPoint = ''a'', c_busGroup = Some 0\<rparr>, \<lparr>c_id = 2, c_mountPoint = ''b'', c_busGroup = Some 0\<rparr>,
      \<lparr>c_id = 3, c_mountPoint = ''c'', c_busGroup = Some 1\<rparr>]" "\<lparr>jc_enabled = True, jc_replicas = 2, jc_maxBatch = 8, jc_segmentBytes = 100\<rparr>" "[]"]
  by (simp add: bus_group_def)

section \<open>Removing a volume\<close>

text \<open>A system call that fails does not report a missing file for one that is there.\<close>

definition honest :: "jworld \<Rightarrow> bool" where
  "honest w \<longleftrightarrow> (\<forall>c k e. jw_fail w c k = Some e \<longrightarrow> \<not> missing e)"

lemma honestD: "honest w \<Longrightarrow> \<forall>k e. jw_fail w c k = Some e \<longrightarrow> \<not> missing e"
  by (simp add: honest_def)

lemma honest_cong: "jw_fail w' = jw_fail w \<Longrightarrow> honest w \<Longrightarrow> honest w'"
  by (simp add: honest_def)

lemma sizesLoop_Inr:
  assumes "sizesLoop m fs w = (Inr xs, w')" "honest w"
  shows "set xs = {(f, length b) | f b. f \<in> set fs \<and> jfile w m f = Some b}"
  using assms
proof (induction fs arbitrary: xs w w')
  case (Cons f fs)
  let ?s = "catchE (bindE (fs_stat m f) (\<lambda>n. returnE (Some n))) (\<lambda>e. if missing e then returnE None else throwE e)"
  obtain r w1 rest where s: "?s w = (Inr r, w1)" and l: "sizesLoop m fs w1 = (Inr rest, w')"
      and xs: "xs = (case r of None \<Rightarrow> [] | Some n \<Rightarrow> [(f, n)]) @ rest"
    using Cons.prems(1) by (auto simp: bindE_Inr returnE_def)
  have "reads ?s" by (auto intro!: reads_intros)
  note same = reads_same [OF this s]
  have r: "r = map_option length (jfile w m f)"
    using s honestD [OF Cons.prems(2), of Stat]
    by (auto simp: catchE_def bindE_def fs_stat_def fs_content_def call_def returnE_def throwE_def enoent_def
        split: option.splits if_splits)
  show ?case using Cons.IH [OF l honest_cong [OF same(2) Cons.prems(2)]] same(1) by (cases "jfile w m f") (auto simp: xs r)
qed (simp add: returnE_def)

lemma listSegmentSizes_Inr:
  assumes "listSegmentSizes m w = (Inr xs, w')" "honest w"
  shows "set xs = {(f, length b) | f b. is_segment_name f \<and> jfile w m f = Some b}"
proof -
  obtain fs w1 where l: "listSegments m w = (Inr fs, w1)" and z: "sizesLoop m fs w1 = (Inr xs, w')"
    using assms(1) by (auto simp: listSegmentSizes_def bindE_Inr)
  note same = reads_same [OF reads_listSegments l]
  have "fs = filter is_segment_name (map fst (jw_dirs w m))" by (rule listSegments_Inr [OF l honestD [OF assms(2)]])
  then have "f \<in> set fs \<and> jfile w m f = Some b \<longleftrightarrow> is_segment_name f \<and> jfile w m f = Some b" for f b
    by (force dest: map_of_SomeD)
  then show ?thesis using sizesLoop_Inr [OF z honest_cong [OF same(2) assms(2)]] same(1) by auto
qed

text \<open>Another volume of the list has the whole of a segment, possibly with more after it.\<close>

definition has_copy :: "jworld \<Rightarrow> nat \<Rightarrow> fleet_volume list \<Rightarrow> string \<Rightarrow> bytes \<Rightarrow> bool" where
  "has_copy w vid vols f b \<longleftrightarrow> (\<exists>v \<in> set vols. fv_id v \<noteq> vid \<and> \<not> fv_isDeleted v \<and>
     (\<exists>c. jfile w (the (fv_mountPoint v)) f = Some c \<and> prefix b c))"

lemma safeElsewhere_spec:
  assumes "safeElsewhere vid mine f n vols w = (safe, w')" "honest w" "jfile w mine f = Some b" "n = length b"
  shows "(safe \<longrightarrow> has_copy w vid vols f b) \<and> jw_dirs w' = jw_dirs w \<and> jw_fail w' = jw_fail w"
  using assms
proof (induction vols arbitrary: w)
  case (Cons v vols)
  define m where "m = the (fv_mountPoint v)"
  have rest: ?case if "safeElsewhere vid mine f n vols w1 = (safe, w')" "jw_dirs w1 = jw_dirs w" "jw_fail w1 = jw_fail w" for w1
    using Cons.IH [OF that(1) honest_cong [OF that(3) Cons.prems(2)]] Cons.prems(3, 4) that(2, 3) by (auto simp: has_copy_def)
  show ?case
  proof (cases "fv_id v = vid \<or> fv_isDeleted v")
    case True
    then show ?thesis using Cons.prems(1) by (intro rest [of w]) auto
  next
    case ok: False
    obtain r1 w1 where l: "listSegmentSizes m w = (r1, w1)" by fastforce
    note s1 = reads_same [OF reads_listSegmentSizes l]
    note run = Cons.prems(1) [unfolded safeElsewhere.simps Let_def m_def [symmetric] l prod.case]
    show ?thesis
    proof (cases "\<exists>xs k. r1 = Inr xs \<and> map_of xs f = Some k \<and> n \<le> k")
      case False
      then show ?thesis using run ok s1 by (intro rest [of w1]) (auto split: sum.splits option.splits if_splits)
    next
      case True
      then obtain xs k where xs: "r1 = Inr xs" "map_of xs f = Some k" "n \<le> k" by blast
      obtain c where c: "jfile w m f = Some c" "k = length c"
        using listSegmentSizes_Inr [OF l [unfolded xs(1)] Cons.prems(2)] map_of_SomeD [OF xs(2)] by auto
      obtain r2 w2 where a: "agreeOnPrefix mine m f n w1 = (r2, w2)" by fastforce
      note s2 = reads_same [OF reads_agreeOnPrefix a]
      show ?thesis
      proof (cases "r2 = Inr True")
        case False
        then have "safeElsewhere vid mine f n vols w2 = (safe, w')"
          using run ok xs a by (auto split: sum.splits bool.splits)
        then show ?thesis using s1 s2 by (intro rest [of w2]) auto
      next
        case True
        have "n = 0 \<or> take n b = take n c"
          using agreeOnPrefix_spec [OF a [unfolded True], of b c] s1 Cons.prems(3) c by auto
        then have "prefix b c" using Cons.prems(4) take_is_prefix [of n c] by auto
        then have "has_copy w vid (v # vols) f b" using ok c unfolding has_copy_def m_def by auto
        then show ?thesis using run ok xs a True s1 s2 by simp
      qed
    qed
  qed
qed simp

lemma atRisk_spec:
  assumes "atRisk vid mine vols segs w = ([], w')" "honest w" "(f, length b) \<in> set segs" "jfile w mine f = Some b"
    "\<forall>(f, n) \<in> set segs. \<exists>b. jfile w mine f = Some b \<and> n = length b"
  shows "has_copy w vid vols f b"
  using assms
proof (induction segs arbitrary: w)
  case (Cons a segs)
  obtain g n where a: "a = (g, n)" by (cases a)
  obtain b' where b': "jfile w mine g = Some b'" "n = length b'" using Cons.prems(5) by (auto simp: a)
  obtain safe w1 where s: "safeElsewhere vid mine g n vols w = (safe, w1)" by fastforce
  note sp = safeElsewhere_spec [OF s Cons.prems(2) b']
  have safe and r: "atRisk vid mine vols segs w1 = ([], w')"
    using Cons.prems(1) by (auto simp: a s split: prod.splits if_splits)
  show ?case
  proof (cases "(f, length b) = a")
    case True
    then have "g = f" "b' = b" using a b'(1) Cons.prems(4) by auto
    then show ?thesis using sp \<open>safe\<close> by simp
  next
    case False
    have h: "honest w1" using sp Cons.prems(2) by (auto intro: honest_cong)
    have "(f, length b) \<in> set segs" using Cons.prems(3) False by simp
    moreover have "jfile w1 mine f = Some b" "\<forall>(f, n) \<in> set segs. \<exists>b. jfile w1 mine f = Some b \<and> n = length b"
      using Cons.prems(4, 5) sp by simp_all
    ultimately have "has_copy w1 vid vols f b" by (rule Cons.IH [OF r h])
    then show ?thesis using sp by (simp add: has_copy_def)
  qed
qed simp

text \<open>
  C34. A mounted volume is let go only when every journal segment on it is, from its first byte to its last, at
  the start of the segment of that name on some other volume that is mounted and not deleted. What
  other volumes hold under that name, and how often a disk refuses to answer, does not weaken this.
\<close>

theorem last_copy_never_released:
  assumes "assertNotLastCopy cfg fleet vid j w = (None, w')" "jc_enabled cfg" "honest w"
    and "find (\<lambda>v. fv_id v = vid) (filter (\<lambda>v. fv_isMounted v \<and> (case fv_mountPoint v of None \<Rightarrow> False | Some m \<Rightarrow> m \<noteq> [])) (fl_volumes fleet)) = Some v"
    and "is_segment_name f" "jfile w (the (fv_mountPoint v)) f = Some b"
  shows "\<exists>u \<in> set (fl_volumes fleet). fv_id u \<noteq> vid \<and> fv_isMounted u \<and> \<not> fv_isDeleted u \<and>
    (\<exists>c. jfile w (the (fv_mountPoint u)) f = Some c \<and> prefix b c)"
proof -
  let ?vols = "filter (\<lambda>v. fv_isMounted v \<and> (case fv_mountPoint v of None \<Rightarrow> False | Some m \<Rightarrow> m \<noteq> [])) (fl_volumes fleet)"
  let ?m = "the (fv_mountPoint v)"
  obtain r1 w1 where l: "listSegmentSizes ?m w = (r1, w1)" by fastforce
  note s1 = reads_same [OF reads_listSegmentSizes l]
  note run = assms(1) [unfolded assertNotLastCopy_def Let_def assms(4)]
  obtain segs where r1: "r1 = Inr segs" using run assms(2) l by (cases r1) auto
  note sz = listSegmentSizes_Inr [OF l [unfolded r1] assms(3)]
  obtain w2 where risk: "atRisk vid ?m ?vols segs w1 = ([], w2)"
    using run assms(2) l r1 by (auto split: prod.splits if_splits)
  have "has_copy w1 vid ?vols f b"
    using sz s1 assms(5, 6) by (intro atRisk_spec [OF risk honest_cong [OF s1(2) assms(3)]]) auto
  then show ?thesis using s1 by (auto simp: has_copy_def)
qed

definition two_volumes :: fleet_view where
  "two_volumes = \<lparr>fl_writable = [\<lparr>c_id = 1, c_mountPoint = ''a'', c_busGroup = None\<rparr>, \<lparr>c_id = 2, c_mountPoint = ''b'', c_busGroup = None\<rparr>],
     fl_volumes = [\<lparr>fv_id = 1, fv_mountPoint = Some ''a'', fv_isDeleted = False, fv_isMounted = True\<rparr>,
       \<lparr>fv_id = 2, fv_mountPoint = Some ''b'', fv_isDeleted = False, fv_isMounted = True\<rparr>]\<rparr>"

definition small_config :: journal_config where
  "small_config = \<lparr>jc_enabled = True, jc_replicas = 2, jc_maxBatch = 8, jc_segmentBytes = 100\<rparr>"

lemmas fs_eval = listSegments_def readdir_def catchE_def bindE_def call_def returnE_def throwE_def listSegmentSizes_def
  fs_stat_def fs_content_def agreeOnPrefix_def fs_open_def finallyE_def COMPARE_CHUNK_def agreeLoop.simps fs_read_def
  set_file_def fsyncDirectory_def Let_def

lemma honest_two_disks [simp]: "honest (two_disks a b)"
  by (simp add: honest_def two_disks_def)

theorem last_copy_never_released_witness:
  "\<exists>u \<in> set (fl_volumes two_volumes). fv_id u \<noteq> 1 \<and> fv_isMounted u \<and> \<not> fv_isDeleted u \<and>
    (\<exists>c. jfile (two_disks [1, 10] [1, 10, 2, 10]) (the (fv_mountPoint u)) ''000000.jsonl'' = Some c \<and> prefix [1, 10] c)"
proof -
  let ?w = "two_disks [1, 10] [1, 10, 2, 10]"
  have "fst (assertNotLastCopy small_config two_volumes 1 new_journal ?w) = None"
    by (simp add: assertNotLastCopy_def small_config_def two_volumes_def two_disks_def fs_eval)
  then have a: "assertNotLastCopy small_config two_volumes 1 new_journal ?w = (None, snd (assertNotLastCopy small_config two_volumes 1 new_journal ?w))"
    by (metis prod.collapse)
  show ?thesis
    by (rule last_copy_never_released [OF a, of "\<lparr>fv_id = 1, fv_mountPoint = Some ''a'', fv_isDeleted = False, fv_isMounted = True\<rparr>"])
       (simp_all add: small_config_def two_volumes_def, simp add: two_disks_def)
qed

section \<open>Names of segments\<close>

lemma decimal_digits: "c \<in> set (decimal n) \<Longrightarrow> is_digit c"
proof (induction n rule: decimal.induct)
  case (1 n)
  show ?case
  proof (cases "n < 10")
    case True
    then show ?thesis using "1.prems" by (simp add: decimal.simps [of n] is_digit_def)
  next
    case False
    then show ?thesis using "1.prems" "1.IH" [OF False]
      by (auto simp: decimal.simps [of n] is_digit_def)
  qed
qed

lemma decimal_value: "fold (\<lambda>c n. 10 * n + (of_char c - 48)) (decimal n) 0 = n"
proof (induction n rule: decimal.induct)
  case (1 n)
  show ?case
  proof (cases "n < 10")
    case True
    then show ?thesis by (simp add: decimal.simps [of n])
  next
    case False
    then show ?thesis using "1.IH" [OF False] by (simp add: decimal.simps [of n])
  qed
qed

lemma decimal_nonempty: "decimal n \<noteq> []"
  by (subst decimal.simps) simp

lemma funpow_times_zero: "((*) (10::nat) ^^ k) 0 = 0"
  by (induction k) simp_all

lemma segment_digits: "takeWhile is_digit (segment_file n) = replicate (6 - length (decimal n)) (CHR ''0'') @ decimal n"
  "dropWhile is_digit (segment_file n) = ''.jsonl''"
proof -
  let ?d = "replicate (6 - length (decimal n)) (CHR ''0'') @ decimal n"
  have d: "\<forall>c \<in> set ?d. is_digit c" using decimal_digits [of _ n] by (auto simp: is_digit_def)
  have f: "segment_file n = ?d @ ''.jsonl''" by (simp add: segment_file_def Let_def)
  have "\<not> is_digit (CHR ''.'')" by (simp add: is_digit_def)
  then show "takeWhile is_digit (segment_file n) = ?d" "dropWhile is_digit (segment_file n) = ''.jsonl''"
    unfolding f using d takeWhile_append2 [of ?d is_digit "''.jsonl''"] dropWhile_append2 [of ?d is_digit "''.jsonl''"]
    by (simp_all del: takeWhile_append2 dropWhile_append2)
qed

lemma segment_file_name [simp]: "is_segment_name (segment_file n)"
  by (simp add: is_segment_name_def segment_digits decimal_nonempty)

lemma segment_number_file [simp]: "segment_number (segment_file n) = n"
  by (simp add: segment_number_def segment_digits funpow_times_zero decimal_value)

lemma segment_file_inj [simp]: "segment_file n = segment_file k \<longleftrightarrow> n = k"
  by (metis segment_number_file)

end
