(* ===== verification/Journal_Ack.thy ===== *)
theory Journal_Ack
  imports Journal
begin

text \<open>
  What an acknowledged record is worth. Each volume's history is the sequence of complete lines in its segments,
  in the order of the segments. The invariant says that every replica with an open handle is
  positioned at the end of a complete line of the active segment and has every line that was acknowledged
  since the set was last elected from the platters alone. Flushing, rotating and re-electing keep it,
  whatever system calls fail.
\<close>

section \<open>Histories\<close>

definition lines_at :: "jworld \<Rightarrow> string \<Rightarrow> nat \<Rightarrow> bytes list" where
  "lines_at w m i = (case jfile w m (segment_file i) of None \<Rightarrow> [] | Some b \<Rightarrow> complete_lines b)"

definition history :: "jworld \<Rightarrow> string \<Rightarrow> nat \<Rightarrow> bytes list" where
  "history w m n = concat (map (lines_at w m) [0..<Suc n])"

definition ended :: "bytes \<Rightarrow> bool" where
  "ended b \<longleftrightarrow> b = [] \<or> (\<exists>p. b = p @ [newline])"

definition is_line :: "bytes \<Rightarrow> bool" where
  "is_line l \<longleftrightarrow> (\<exists>p. l = p @ [newline] \<and> newline \<notin> set p)"

lemma complete_lines_ended: "ended a \<Longrightarrow> complete_lines (a @ b) = complete_lines a @ complete_lines b"
  unfolding ended_def using complete_lines_append [of _ b] by auto

lemma complete_lines_line: "is_line l \<Longrightarrow> complete_lines l = [l]"
proof -
  have "newline \<notin> set p \<Longrightarrow> complete_lines (p @ [newline]) = [p @ [newline]]" for p
    by (induction p) auto
  then show "is_line l \<Longrightarrow> complete_lines l = [l]" by (auto simp: is_line_def)
qed

lemma ended_line: "is_line l \<Longrightarrow> ended l"
  by (auto simp: is_line_def ended_def)

lemma ended_append: "ended a \<Longrightarrow> ended b \<Longrightarrow> ended (a @ b)"
  unfolding ended_def by (metis append_Nil2 append_assoc)

lemma complete_lines_batch: "\<forall>l \<in> set ls. is_line l \<Longrightarrow> complete_lines (concat ls) = ls \<and> ended (concat ls)"
proof (induction ls)
  case (Cons l ls)
  then show ?case by (simp add: complete_lines_ended ended_line complete_lines_line ended_append)
qed (simp add: ended_def)

lemma complete_lines_prefix: "prefix a b \<Longrightarrow> prefix (complete_lines a) (complete_lines b)"
proof -
  assume "prefix a b"
  then obtain x where b: "b = a @ x" by (auto elim: prefixE)
  show ?thesis
  proof (cases "newline \<in> set a")
    case True
    then obtain p q where a: "a = (p @ [newline]) @ q" "newline \<notin> set q" using split_list_last [of newline a] by auto
    have "complete_lines b = complete_lines (p @ [newline]) @ complete_lines (q @ x)"
      using complete_lines_append [of p "q @ x"] by (simp add: b a(1))
    moreover have "complete_lines a = complete_lines (p @ [newline])"
      unfolding a(1) complete_lines_append by (simp add: complete_lines_none [OF a(2)])
    ultimately show ?thesis by simp
  qed (simp add: complete_lines_none)
qed

lemma ended_concat_lines: "ended (concat (complete_lines b))"
proof (cases "newline \<in> set b")
  case True
  then obtain p q where b: "b = (p @ [newline]) @ q" "newline \<notin> set q" using split_list_last [of newline b] by auto
  show ?thesis unfolding b(1) complete_lines_append
    by (simp add: complete_lines_none [OF b(2)] concat_complete_lines ended_def)
qed (simp add: complete_lines_none ended_def)

lemma subseq_concat_map: "(\<And>i. i \<in> set is \<Longrightarrow> subseq (f i) (g i)) \<Longrightarrow> subseq (concat (map f is)) (concat (map g is))"
  by (induction "is") (auto intro: list_emb_append_mono)

lemma history_mono: "(\<And>i. i \<le> n \<Longrightarrow> subseq (lines_at w m i) (lines_at w' m' i)) \<Longrightarrow> subseq (history w m n) (history w' m' n)"
  unfolding history_def by (rule subseq_concat_map) auto

lemma history_le: "n \<le> k \<Longrightarrow> prefix (history w m n) (history w m k)"
proof -
  assume "n \<le> k"
  then have "[0..<Suc k] = [0..<Suc n] @ [Suc n..<Suc k]" by (metis Suc_le_mono le0 upt_add_eq_append le_add_diff_inverse)
  then show ?thesis by (simp add: history_def del: upt_Suc)
qed

section \<open>A record is one line\<close>

definition one_line :: "string \<Rightarrow> bool" where
  "one_line s \<longleftrightarrow> (\<forall>c \<in> set s. of_char c \<noteq> (10::nat))"

lemma one_line_simps [simp]:
  "one_line []" "one_line (c # s) \<longleftrightarrow> of_char c \<noteq> (10::nat) \<and> one_line s" "one_line (s @ t) \<longleftrightarrow> one_line s \<and> one_line t"
  by (auto simp: one_line_def)

lemma one_line_char: "one_line (json_char c)"
proof -
  have "of_char (hex_digit n) \<noteq> (10::nat)" if "n < 16" for n
    using that by (auto simp: hex_digit_def)
  moreover have "of_char c mod 16 < (16::nat)" "of_char c div 16 < (16::nat)" by (simp_all add: less_mult_imp_div_less)
  ultimately show ?thesis by (simp add: json_char_def Let_def)
qed

lemma one_line_string [simp]: "one_line (json_string s)"
  using one_line_char by (auto simp: json_string_def one_line_def)

lemma one_line_decimal [simp]: "one_line (decimal n)"
  using decimal_digits [of _ n] by (fastforce simp: one_line_def is_digit_def)

lemma one_line_join: "\<forall>s \<in> set ss. one_line s \<Longrightarrow> one_line (comma_join ss)"
  by (induction ss rule: comma_join.induct) auto

lemma one_line_values [simp]: "one_line (json_int i)" "one_line (json_null json_string x)" "one_line (json_bool b)"
  "one_line (comma_join (map decimal ns))" "one_line v \<Longrightarrow> one_line (json_field k v)"
  by (auto simp: json_int_def json_null_def json_bool_def json_field_def one_line_join split: option.split)

lemma one_line_object: "\<forall>s \<in> set fs. one_line s \<Longrightarrow> one_line (json_object fs)"
  by (simp add: json_object_def one_line_join)

lemma one_line_stringify: "one_line (stringify r)"
  by (cases r) (auto intro!: one_line_object simp: optional_field_def split: option.splits)

lemma newline_of_char: "(word_of_nat (of_char c) :: byte) = newline \<longleftrightarrow> of_char c = (10::nat)"
proof -
  have "(of_char c :: nat) < 256" by (simp add: of_char_def)
  then have "unat (word_of_nat (of_char c) :: byte) = of_char c" by (simp add: unat_of_nat)
  moreover have "unat newline = 10" by simp
  ultimately show ?thesis by (metis word_unat_eq_iff)
qed

lemma record_line_is_line: "is_line (record_line r)"
  using one_line_stringify [of r] unfolding is_line_def record_line_def utf8_def one_line_def
  by (auto simp: newline_of_char)

section \<open>Opening and closing\<close>

text \<open>A replica in service: its handle is on the active segment, at the end of a complete line.\<close>

definition serving :: "jworld \<Rightarrow> nat \<Rightarrow> replica \<Rightarrow> bool" where
  "serving w n r \<longleftrightarrow> r_handle r = Some (segment_file n) \<and>
     (\<exists>b. jfile w (r_mountPoint r) (segment_file n) = Some b \<and> r_bytes r = length b \<and> ended b)"

lemma serving_frame:
  "serving w n r \<Longrightarrow> (\<And>g. jfile w' (r_mountPoint r) g = jfile w (r_mountPoint r) g) \<Longrightarrow> serving w' n r"
  by (simp add: serving_def)

lemma lines_at_frame: "(\<And>g. jfile w' m g = jfile w m g) \<Longrightarrow> lines_at w' m i = lines_at w m i"
  by (simp add: lines_at_def)

lemma history_frame: "(\<And>g. jfile w' m g = jfile w m g) \<Longrightarrow> history w' m n = history w m n"
proof -
  assume "\<And>g. jfile w' m g = jfile w m g"
  then have "lines_at w' m = lines_at w m" by (simp add: lines_at_def fun_eq_iff)
  then show ?thesis by (simp add: history_def)
qed

lemma closeReplica_spec:
  assumes "closeReplica r w = (r', w')"
  shows "r' = r\<lparr>r_handle := None\<rparr>" "jw_dirs w' = jw_dirs w" "jw_fail w' = jw_fail w"
  using assms by (auto simp: closeReplica_def call_def split: if_splits)

lemma closeEach_spec:
  assumes "closeEach rs w = (rs', w')"
  shows "rs' = map (\<lambda>r. r\<lparr>r_handle := None\<rparr>) rs \<and> jw_dirs w' = jw_dirs w \<and> jw_fail w' = jw_fail w"
  using assms
proof (induction rs arbitrary: rs' w w')
  case (Cons r rs)
  obtain r1 w1 where c: "closeReplica r w = (r1, w1)" by fastforce
  obtain rs1 w2 where e: "closeEach rs w1 = (rs1, w2)" by fastforce
  show ?case using Cons.IH [OF e] closeReplica_spec [OF c] Cons.prems by (simp add: c e)
qed simp

lemma fs_open_append_Inr:
  assumes "fs_open_append m f w = (r, w')"
  shows "jw_fail w' = jw_fail w" "(m', g) \<noteq> (m, f) \<Longrightarrow> jfile w' m' g = jfile w m' g"
    "jfile w' m f = jfile w m f \<or> jfile w m f = None \<and> jfile w' m f = Some []" "r = Inr x \<Longrightarrow> jfile w' m f \<noteq> None"
  using assms by (auto simp: fs_open_append_def bindE_def call_def split: option.splits if_splits)

text \<open>What opening does to the files: none changes but the one opened, and that one keeps its complete lines.\<close>

definition opens :: "string \<Rightarrow> nat \<Rightarrow> jworld \<Rightarrow> jworld \<Rightarrow> bool" where
  "opens m n w w' \<longleftrightarrow> jw_fail w' = jw_fail w \<and> (\<forall>m' g. m' \<noteq> m \<longrightarrow> jfile w' m' g = jfile w m' g) \<and>
     (\<forall>i. lines_at w' m i = lines_at w m i)"

lemma opens_trans: "opens m n w w1 \<Longrightarrow> opens m n w1 w2 \<Longrightarrow> opens m n w w2"
  by (simp add: opens_def)

lemma opens_same: "jw_dirs w' = jw_dirs w \<Longrightarrow> jw_fail w' = jw_fail w \<Longrightarrow> opens m n w w'"
  by (simp add: opens_def lines_at_def)

lemma opens_tail:
  assumes "rollBackTornTail m (segment_file n) w = (r, w')" "honest w"
  shows "opens m n w w'" "r = Inr () \<Longrightarrow> jfile w' m (segment_file n) = Some b \<Longrightarrow> ended b"
proof -
  let ?f = "segment_file n"
  note c = rollBackTornTail_cut [OF assms(1) honestD [OF assms(2)], unfolded cut_to_def]
  have "lines_at w' m i = lines_at w m i" for i
    using c complete_part by (cases "i = n") (auto simp: lines_at_def split: option.splits)
  then show "opens m n w w'" using c by (auto simp: opens_def)
  assume "r = Inr ()" "jfile w' m ?f = Some b"
  then show "ended b" using c complete_part ended_concat_lines by (auto split: option.splits)
qed

lemma opens_append:
  assumes "fs_open_append m (segment_file n) w = (r, w')"
  shows "opens m n w w'" "(\<And>b. jfile w m (segment_file n) = Some b \<Longrightarrow> ended b) \<Longrightarrow> jfile w' m (segment_file n) = Some b \<Longrightarrow> ended b"
proof -
  note o = fs_open_append_Inr [OF assms]
  have "lines_at w' m i = lines_at w m i" for i
    using o(2) [of m "segment_file i"] o(3) by (cases "i = n") (auto simp: lines_at_def)
  then show "opens m n w w'" using o(1, 2) by (simp add: opens_def)
  show "(\<And>b. jfile w m (segment_file n) = Some b \<Longrightarrow> ended b) \<Longrightarrow> jfile w' m (segment_file n) = Some b \<Longrightarrow> ended b"
    using o(3) by (metis ended_def option.inject)
qed

lemma openReplica_spec:
  assumes "openReplica (segment_file n) r w = (x, w')" "honest w" "r_handle r = None"
  shows "opens (r_mountPoint r) n w w' \<and>
    (\<forall>q. x = Some q \<longrightarrow> serving w' n q \<and> r_volumeId q = r_volumeId r \<and> r_mountPoint q = r_mountPoint r)"
proof -
  let ?m = "r_mountPoint r" let ?f = "segment_file n"
  obtain r1 w1 where c1: "call Mkdir w = (r1, w1)" by fastforce
  obtain r2 w2 where c2: "rollBackTornTail ?m ?f w1 = (r2, w2)" by fastforce
  obtain r3 w3 where c3: "fs_open_append ?m ?f w2 = (r3, w3)" by fastforce
  obtain r4 w4 where c4: "fs_stat ?m ?f w3 = (r4, w4)" by fastforce
  obtain r5 w5 where c5: "fsyncDirectory ?m w4 = (r5, w5)" by fastforce
  note s1 = reads_same [OF reads_basic(3) c1] and s4 = reads_same [OF reads_files(2) c4] and s5 = reads_same [OF reads_files(4) c5]
  have h1: "honest w1" using honest_cong [OF s1(2) assms(2)] .
  note t2 = opens_tail [OF c2 h1] and t3 = opens_append [OF c3]
  have o1: "opens ?m n w w1" by (rule opens_same [OF s1(1, 2)])
  note o2 = opens_trans [OF o1 t2(1)]
  note o3 = opens_trans [OF o2 t3(1)]
  note o4 = opens_trans [OF o3 opens_same [OF s4(1, 2)]]
  note o5 = opens_trans [OF o4 opens_same [OF s5(1, 2)]]
  note run = assms(1) [unfolded openReplica_def Let_def assms(3)]
  show ?thesis
  proof (cases "\<exists>e. r1 = Inl e \<or> r2 = Inl e \<or> r3 = Inl e \<or> r4 = Inl e \<or> r5 = Inl e")
    case True
    then have "x = None" "w' \<in> {w1, w2, w3, w4, w5}"
      using run by (auto simp: bindE_def c1 c2 c3 c4 c5 split: sum.splits)
    then show ?thesis using o1 o2 o3 o4 o5 by auto
  next
    case False
    then obtain k where ok: "r1 = Inr ()" "r2 = Inr ()" "r3 = Inr ()" "r4 = Inr k" "r5 = Inr ()"
      by (metis (full_types) old.unit.exhaust sum.exhaust)
    have x: "x = Some (r\<lparr>r_handle := Some ?f, r_bytes := k\<rparr>)" "w' = w5"
      using run by (auto simp: bindE_def c1 c2 c3 c4 c5 ok returnE_def)
    obtain b where b: "jfile w3 ?m ?f = Some b" "k = length b"
      using c4 ok by (auto simp: fs_stat_def bindE_def fs_content_def call_def returnE_def split: option.splits)
    have "ended b" using t3(2) [OF t2(2) b(1)] ok by simp
    then show ?thesis using x b s4 s5 o5 by (auto simp: serving_def)
  qed
qed

text \<open>Several replicas on different mount points.\<close>

lemma openEach_spec:
  assumes "openEach (segment_file n) rs w = (rs', w')" "honest w" "distinct (map r_mountPoint rs)"
    "\<forall>r \<in> set rs. r_handle r = None \<or> serving w n r"
  shows "jw_fail w' = jw_fail w \<and> (\<forall>m i. lines_at w' m i = lines_at w m i) \<and>
    (\<forall>m g. m \<notin> r_mountPoint ` set rs \<longrightarrow> jfile w' m g = jfile w m g) \<and>
    subseq (map r_volumeId rs') (map r_volumeId rs) \<and>
    (\<forall>q \<in> set rs'. serving w' n q \<and> (\<exists>r \<in> set rs. r_volumeId q = r_volumeId r \<and> r_mountPoint q = r_mountPoint r))"
  using assms
proof (induction rs arbitrary: rs' w w')
  case (Cons r rs)
  obtain x w1 where o: "openReplica (segment_file n) r w = (x, w1)" by fastforce
  obtain qs w2 where e: "openEach (segment_file n) rs w1 = (qs, w2)" by fastforce
  have res: "rs' = (case x of None \<Rightarrow> [] | Some q \<Rightarrow> [q]) @ qs" "w' = w2" using Cons.prems(1) by (simp_all add: o e)
  have hd: "opens (r_mountPoint r) n w w1 \<and>
      (\<forall>q. x = Some q \<longrightarrow> serving w1 n q \<and> r_volumeId q = r_volumeId r \<and> r_mountPoint q = r_mountPoint r)"
  proof (cases "r_handle r")
    case None
    show ?thesis by (rule openReplica_spec [OF o Cons.prems(2) None])
  next
    case (Some f)
    then have "x = Some r" "w1 = w" using o by (auto simp: openReplica_def)
    then show ?thesis using Cons.prems(4) Some by (auto intro: opens_same)
  qed
  then have op: "jw_fail w1 = jw_fail w" "\<And>m' g. m' \<noteq> r_mountPoint r \<Longrightarrow> jfile w1 m' g = jfile w m' g"
      "\<And>i. lines_at w1 (r_mountPoint r) i = lines_at w (r_mountPoint r) i"
    by (auto simp: opens_def)
  have notin: "r_mountPoint r \<notin> r_mountPoint ` set rs" using Cons.prems(3) by simp
  have sv: "\<forall>q \<in> set rs. r_handle q = None \<or> serving w1 n q"
  proof
    fix q assume q: "q \<in> set rs"
    then have "r_mountPoint q \<noteq> r_mountPoint r" using notin by (metis image_eqI)
    then show "r_handle q = None \<or> serving w1 n q" using Cons.prems(4) q op(2) serving_frame [of w n q w1] by auto
  qed
  have "distinct (map r_mountPoint rs)" using Cons.prems(3) by simp
  note IH = Cons.IH [OF e honest_cong [OF op(1) Cons.prems(2)] this sv]
  have ih: "jw_fail w2 = jw_fail w1" "\<And>m i. lines_at w2 m i = lines_at w1 m i"
      "\<And>m g. m \<notin> r_mountPoint ` set rs \<Longrightarrow> jfile w2 m g = jfile w1 m g" "subseq (map r_volumeId qs) (map r_volumeId rs)"
      "\<And>q. q \<in> set qs \<Longrightarrow> serving w2 n q \<and> (\<exists>r \<in> set rs. r_volumeId q = r_volumeId r \<and> r_mountPoint q = r_mountPoint r)"
    using IH by blast+
  have lines: "lines_at w2 m i = lines_at w m i" for m i
    using ih(2) op(2, 3) by (cases "m = r_mountPoint r") (auto simp: lines_at_def)
  have srv: "serving w2 n q" if "x = Some q" for q
  proof (rule serving_frame [of w1])
    show "serving w1 n q" using hd that by simp
    show "jfile w2 (r_mountPoint q) g = jfile w1 (r_mountPoint q) g" for g using hd that ih(3) notin by simp
  qed
  have sub: "subseq (map r_volumeId rs') (map r_volumeId (r # rs))"
    using ih(4) hd by (cases x) (auto simp: res)
  have frame: "jfile w2 m g = jfile w m g" if "m \<notin> r_mountPoint ` set (r # rs)" for m g
    using that ih(3) op(2) by simp
  have each: "serving w2 n q \<and> (\<exists>r \<in> set (r # rs). r_volumeId q = r_volumeId r \<and> r_mountPoint q = r_mountPoint r)" if "q \<in> set rs'" for q
  proof (cases "q \<in> set qs")
    case True
    then show ?thesis using ih(5) by (meson list.set_intros(2))
  next
    case False
    then have x: "x = Some q" using that unfolding res by (cases x) auto
    then have "r_volumeId q = r_volumeId r" "r_mountPoint q = r_mountPoint r" using hd by blast+
    then show ?thesis using srv [OF x] by (intro conjI bexI [of _ r] list.set_intros(1)) assumption+
  qed
  show ?case using ih(1) op(1) lines sub frame each unfolding res(2) by simp
qed simp

lemma presentSegments_reads [reads_intros]: "reads (presentSegments ms)"
  by (induction ms) (auto intro!: reads_intros)

lemma distinct_subseq: "subseq xs ys \<Longrightarrow> distinct ys \<Longrightarrow> distinct xs"
  by (auto simp: subseq_conv_nths intro: distinct_nthsI)

text \<open>The part of the invariant about the replica set.\<close>

definition set_ok :: "(nat \<Rightarrow> string) \<Rightarrow> replica list \<Rightarrow> bool" where
  "set_ok mnt rs \<longleftrightarrow> distinct (map r_volumeId rs) \<and> (\<forall>r \<in> set rs. r_mountPoint r = mnt (r_volumeId r))"

lemma set_ok_mounts: "inj mnt \<Longrightarrow> set_ok mnt rs \<Longrightarrow> distinct (map r_mountPoint rs)"
proof -
  assume "inj mnt" "set_ok mnt rs"
  moreover from this have "map r_mountPoint rs = map mnt (map r_volumeId rs)" by (auto simp: set_ok_def)
  ultimately show ?thesis by (auto simp: set_ok_def distinct_map inj_on_def)
qed

definition acked :: "bytes list \<Rightarrow> replica list \<Rightarrow> jworld \<Rightarrow> nat \<Rightarrow> bool" where
  "acked H rs w n \<longleftrightarrow> (\<forall>r \<in> set rs. subseq H (history w (r_mountPoint r) n))"

text \<open>The fields that opening segments leaves alone.\<close>

definition same_books :: "journal \<Rightarrow> journal \<Rightarrow> bool" where
  "same_books j j' \<longleftrightarrow> j_pending j' = j_pending j \<and> j_resolved j' = j_resolved j \<and> j_rejected j' = j_rejected j"

lemma openSegments_ok:
  assumes "openSegments ms j w = (res, w')" "honest w" "inj mnt" "set_ok mnt (j_replicas j)" "\<not> j_stopping j"
    "\<forall>r \<in> set (j_replicas j). r_handle r = None \<or> serving w (j_segment j) r" "acked H (j_replicas j) w (j_segment j)"
  shows "jw_fail w' = jw_fail w \<and>
    (\<forall>j'. res = Inr j' \<longrightarrow> set_ok mnt (j_replicas j') \<and> (\<forall>r \<in> set (j_replicas j'). serving w' (j_segment j') r) \<and>
       acked H (j_replicas j') w' (j_segment j') \<and> same_books j j' \<and> j_stopping j' = j_stopping j)"
proof -
  obtain r1 w1 where p: "presentSegments ms w = (r1, w1)" by fastforce
  note s1 = reads_same [OF presentSegments_reads p]
  show ?thesis
  proof (cases r1)
    case (Inl e)
    then show ?thesis using assms(1, 5) s1 by (auto simp: openSegments_def p)
  next
    case (Inr present)
    define n where "n = max (j_segment j) (fold max present 0)"
    define j0 where "j0 = (if n \<noteq> j_segment j then j\<lparr>j_segment := n, j_replicas := map (\<lambda>r. r\<lparr>r_handle := None\<rparr>) (j_replicas j)\<rparr> else j)"
    obtain j2 w2 where c: "(if n \<noteq> j_segment j then closeAll (j\<lparr>j_segment := n\<rparr>) w1 else (j, w1)) = (j2, w2)" by fastforce
    obtain rs0 w0 where cl: "closeEach (j_replicas j) w1 = (rs0, w0)" by fastforce
    note ce = closeEach_spec [OF cl]
    have j2: "j2 = j0" "jw_dirs w2 = jw_dirs w" "jw_fail w2 = jw_fail w"
      using c s1 ce by (auto simp: closeAll_def j0_def cl split: if_splits)
    have n: "j_segment j0 = n" "j_segment j \<le> n" by (auto simp: j0_def n_def)
    have same: "map r_volumeId (j_replicas j0) = map r_volumeId (j_replicas j)" "r_mountPoint ` set (j_replicas j0) = r_mountPoint ` set (j_replicas j)"
      by (auto simp: j0_def image_image)
    obtain rs w3 where o: "openEach (segment_file n) (j_replicas j0) w2 = (rs, w3)" by fastforce
    have ok0: "set_ok mnt (j_replicas j0)" using assms(4) by (auto simp: set_ok_def j0_def o_def)
    have sv: "\<forall>r \<in> set (j_replicas j0). r_handle r = None \<or> serving w2 n r"
      using assms(6) j2(2) by (auto simp: j0_def serving_def)
    note oe = openEach_spec [OF o honest_cong [OF j2(3) assms(2)] set_ok_mounts [OF assms(3) ok0] sv]
    have run: "(case (if n \<noteq> j_segment j then closeAll (j\<lparr>j_segment := n\<rparr>) w1 else (j, w1)) of
           (j2, w2) \<Rightarrow>
             (case openEach (segment_file (j_segment j2)) (j_replicas j2) w2 of
                (rs, w3) \<Rightarrow> (Inr (if length rs < length (j_replicas j2) then j2\<lparr>j_replicas := rs, j_reelectionNeeded := True\<rparr>
                                  else j2\<lparr>j_replicas := rs\<rparr>), w3))) = (res, w')"
      using assms(1, 5) by (simp only: openSegments_def p Inr Let_def n_def if_False prod.case sum.case)
    have res: "w' = w3" "res = Inr (if length rs < length (j_replicas j0) then j0\<lparr>j_replicas := rs, j_reelectionNeeded := True\<rparr> else j0\<lparr>j_replicas := rs\<rparr>)"
      using run o by (simp_all add: c j2(1) n(1))
    have "set_ok mnt rs"
      using oe ok0 distinct_subseq [of "map r_volumeId rs"] unfolding set_ok_def by (metis (no_types, lifting))
    moreover have "acked H rs w3 n" unfolding acked_def
    proof
      fix r assume "r \<in> set rs"
      then obtain q where q: "q \<in> set (j_replicas j)" "r_mountPoint q = r_mountPoint r" using oe same(2) by (metis (no_types, lifting) image_iff)
      have "lines_at w3 (r_mountPoint r) = lines_at w (r_mountPoint r)" using oe j2(2) by (auto simp: lines_at_def fun_eq_iff)
      then have "history w3 (r_mountPoint r) n = history w (r_mountPoint r) n" by (simp add: history_def)
      moreover have "subseq H (history w (r_mountPoint r) (j_segment j))" using assms(7) q by (auto simp: acked_def)
      ultimately show "subseq H (history w3 (r_mountPoint r) n)"
        using history_le [OF n(2)] prefix_imp_subseq subseq_order.trans by metis
    qed
    ultimately show ?thesis using res oe j2(3) n(1) by (auto simp: same_books_def j0_def)
  qed
qed

section \<open>Writing and rotating\<close>

lemma fs_append_spec:
  assumes "fs_append m f body w = (r, w')" "jfile w m f = Some b"
  shows "jw_fail w' = jw_fail w" "(m', g) \<noteq> (m, f) \<Longrightarrow> jfile w' m' g = jfile w m' g"
    "r = Inr (length body) \<Longrightarrow> jfile w' m f = Some (b @ body)" "\<exists>part. jfile w' m f = Some (b @ part)"
  using assms by (auto simp: fs_append_def Let_def split: option.splits)

text \<open>A batch on one replica: durable and appended as a whole, or failed; other volumes and segments are untouched.\<close>

definition wrote :: "bytes \<Rightarrow> nat \<Rightarrow> replica \<Rightarrow> jworld \<Rightarrow> write_outcome \<times> replica \<Rightarrow> jworld \<Rightarrow> bool" where
  "wrote body n r w x w' \<longleftrightarrow> r_volumeId (snd x) = r_volumeId r \<and> r_mountPoint (snd x) = r_mountPoint r \<and> fst x \<noteq> Skipped \<and>
     (\<exists>b part. jfile w (r_mountPoint r) (segment_file n) = Some b \<and> jfile w' (r_mountPoint r) (segment_file n) = Some (b @ part)) \<and>
     (fst x = Durable \<longrightarrow> r_handle (snd x) = r_handle r \<and> (\<exists>b. jfile w (r_mountPoint r) (segment_file n) = Some b \<and>
        jfile w' (r_mountPoint r) (segment_file n) = Some (b @ body) \<and> r_bytes (snd x) = r_bytes r + length body))"

lemma writeReplica_spec:
  assumes "writeReplica body r w = (x, w')" "serving w n r"
  shows "wrote body n r w x w' \<and> jw_fail w' = jw_fail w \<and> (\<forall>m g. (m, g) \<noteq> (r_mountPoint r, segment_file n) \<longrightarrow> jfile w' m g = jfile w m g)"
proof -
  let ?m = "r_mountPoint r" let ?f = "segment_file n"
  obtain b where b: "r_handle r = Some ?f" "jfile w ?m ?f = Some b" using assms(2) by (auto simp: serving_def)
  obtain r1 w1 where a: "fs_append ?m ?f body w = (r1, w1)" by fastforce
  note eff = fs_append_spec [OF a b(2)]
  obtain r2 w2 where c: "(if r1 = Inr (length body) then call Sync w1 else (Inl (case r1 of Inl e \<Rightarrow> e | Inr _ \<Rightarrow> plain_error ''short write''), w1)) = (r2, w2)"
    by fastforce
  have s: "jw_dirs w2 = jw_dirs w1" "jw_fail w2 = jw_fail w1"
    using c reads_same [OF reads_basic(3)] by (auto split: if_splits)
  have run: "bindE (fs_append ?m ?f body) (\<lambda>k. if k \<noteq> length body then throwE (plain_error ''short write'') else call Sync) w = (r2, w2)"
    using c by (cases r1) (auto simp: bindE_def a throwE_def split: if_splits)
  show ?thesis
  proof (cases r2)
    case (Inl e)
    obtain r' w3 where cl: "closeReplica r w2 = (r', w3)" by fastforce
    have "x = (Failed, r')" "w' = w3" using assms(1) run Inl by (simp_all add: writeReplica_def b(1) cl)
    then show ?thesis using closeReplica_spec [OF cl] s eff(1, 2, 4) b by (auto simp: wrote_def)
  next
    case (Inr u)
    then have ok: "r1 = Inr (length body)" using c by (auto split: if_splits)
    have "x = (Durable, r\<lparr>r_bytes := r_bytes r + length body\<rparr>)" "w' = w2" using assms(1) run Inr by (simp_all add: writeReplica_def b(1))
    then show ?thesis using s eff(1, 2) eff(3) [OF ok] b by (auto simp: wrote_def)
  qed
qed

lemma writeEach_spec:
  assumes "writeEach body rs w = (out, w')" "\<forall>r \<in> set rs. serving w n r" "distinct (map r_mountPoint rs)"
  shows "jw_fail w' = jw_fail w \<and> (\<forall>m g. m \<notin> r_mountPoint ` set rs \<or> g \<noteq> segment_file n \<longrightarrow> jfile w' m g = jfile w m g) \<and>
    list_all2 (\<lambda>r x. wrote body n r w x w') rs out"
  using assms
proof (induction rs arbitrary: out w w')
  case (Cons r rs)
  obtain x w1 where a: "writeReplica body r w = (x, w1)" by fastforce
  obtain xs w2 where e: "writeEach body rs w1 = (xs, w2)" by fastforce
  have res: "out = x # xs" "w' = w2" using Cons.prems(1) by (simp_all add: a e)
  note h = writeReplica_spec [OF a, of n]
  have hd: "wrote body n r w x w1" "jw_fail w1 = jw_fail w" "\<And>m g. (m, g) \<noteq> (r_mountPoint r, segment_file n) \<Longrightarrow> jfile w1 m g = jfile w m g"
    using h Cons.prems(2) by auto
  have notin: "r_mountPoint r \<notin> r_mountPoint ` set rs" and dis: "distinct (map r_mountPoint rs)" using Cons.prems(3) by simp_all
  have other: "jfile w1 (r_mountPoint q) g = jfile w (r_mountPoint q) g" if "q \<in> set rs" for q g
    using hd(3) [of "r_mountPoint q" g] notin that by (metis Pair_inject image_eqI)
  have "\<forall>q \<in> set rs. serving w1 n q" using Cons.prems(2) other by (auto simp: serving_def)
  note ih = Cons.IH [OF e this dis]
  have all: "list_all2 (\<lambda>r x. wrote body n r w x w2) rs xs"
  proof (rule list.rel_mono_strong)
    show "list_all2 (\<lambda>r x. wrote body n r w1 x w2) rs xs" using ih by blast
    show "wrote body n q w y w2" if "q \<in> set rs" "wrote body n q w1 y w2" for q y
      using that other unfolding wrote_def by simp
  qed
  have "wrote body n r w x w2" using hd(1) ih notin by (auto simp: wrote_def)
  then show ?case using all ih hd(2, 3) by (auto simp: res)
qed simp

text \<open>
  The invariant: every replica is in service on the active segment and has the lines in \<open>H\<close>, and what waits to
  be written is whole lines.
\<close>

definition journal_ok :: "(nat \<Rightarrow> string) \<Rightarrow> bytes list \<Rightarrow> journal \<Rightarrow> jworld \<Rightarrow> bool" where
  "journal_ok mnt H j w \<longleftrightarrow> honest w \<and> set_ok mnt (j_replicas j) \<and> (\<forall>r \<in> set (j_replicas j). serving w (j_segment j) r) \<and>
     acked H (j_replicas j) w (j_segment j) \<and> (\<forall>x \<in> set (j_pending j). is_line (snd x)) \<and> \<not> j_stopping j"

lemma rotate_ok:
  assumes "journal_ok mnt H j w" "inj mnt" "rotateIfNeeded cfg j w = (j', w')"
  shows "journal_ok mnt H j' w'" "same_books j j'"
proof -
  have "journal_ok mnt H j' w' \<and> same_books j j'"
  proof (cases "\<exists>r \<in> set (j_replicas j). r_handle r \<noteq> None \<and> jc_segmentBytes cfg \<le> r_bytes r")
    case False
    then have "j' = j" "w' = w" using assms(3) unfolding rotateIfNeeded_def by (simp_all only: if_False prod.inject)
    then show ?thesis using assms(1) by (simp add: same_books_def)
  next
    case True
    obtain rs0 w1 where cl: "closeEach (j_replicas j) w = (rs0, w1)" by fastforce
    note ce = closeEach_spec [OF cl]
    define j1 where "j1 = j\<lparr>j_segment := Suc (j_segment j), j_replicas := rs0\<rparr>"
    obtain res w2 where o: "openSegments [] j1 w1 = (res, w2)" by fastforce
    obtain j2 where j2: "res = Inr j2" using o by (auto simp: openSegments_def returnE_def Let_def split: if_splits prod.splits)
    have run: "j' = j2" "w' = w2" using assms(3) True o j2 by (auto simp: rotateIfNeeded_def closeAll_def cl j1_def)
    have ok: "set_ok mnt (j_replicas j1)" "acked H (j_replicas j1) w1 (j_segment j1)" "\<forall>r \<in> set (j_replicas j1). r_handle r = None"
      using assms(1) ce prefix_imp_subseq [OF history_le [of "j_segment j" "Suc (j_segment j)" w1]]
      by (auto simp: journal_ok_def set_ok_def acked_def j1_def o_def history_def lines_at_def [abs_def] simp del: upt_Suc
          elim!: ballE intro: subseq_order.trans)
    have h1: "honest w1" using assms(1) ce by (auto simp: journal_ok_def intro: honest_cong)
    have ns: "\<not> j_stopping j1" using assms(1) by (simp add: journal_ok_def j1_def)
    have "\<forall>r \<in> set (j_replicas j1). r_handle r = None \<or> serving w1 (j_segment j1) r" using ok(3) by blast
    note os = openSegments_ok [OF o h1 assms(2) ok(1) ns this ok(2)]
    have "honest w2" using os honest_cong [OF _ h1] by blast
    then show ?thesis using os j2 run assms(1) unfolding journal_ok_def by (auto simp: same_books_def j1_def)
  qed
  then show "journal_ok mnt H j' w'" "same_books j j'" by blast+
qed

lemma rollBackEach_keeps:
  assumes "honest w"
  shows "jw_fail (rollBackEach f rs w) = jw_fail w \<and> (\<forall>m g. m \<notin> r_mountPoint ` set rs \<or> g \<noteq> f \<longrightarrow> jfile (rollBackEach f rs w) m g = jfile w m g)"
  using assms
proof (induction rs arbitrary: w)
  case (Cons r rs)
  obtain x w1 where t: "truncateSegmentTo (r_mountPoint r) f (r_bytes r) w = (x, w1)" by fastforce
  note c = truncateSegmentTo_cut [OF t honestD [OF Cons.prems], unfolded cut_to_def]
  have "honest w1" using c Cons.prems by (auto intro: honest_cong)
  from Cons.IH [OF this] show ?case using c by (auto simp: t)
qed simp

lemma journal_ok_reconfigure [simp]: "journal_ok mnt H (reconfigure j) w = journal_ok mnt H j w"
  "j_resolved (reconfigure j) = j_resolved j" "j_pending (reconfigure j) = j_pending j" "j_replicas (reconfigure j) = j_replicas j"
  "j_rejected (reconfigure j) = j_rejected j"
  by (simp_all add: journal_ok_def reconfigure_def)

lemma history_grows:
  assumes "jfile w m (segment_file n) = Some b" "jfile w' m (segment_file n) = Some (b @ concat ls)" "ended b" "\<forall>l \<in> set ls. is_line l"
    "\<And>g. g \<noteq> segment_file n \<Longrightarrow> jfile w' m g = jfile w m g"
  shows "history w' m n = history w m n @ ls"
proof -
  have "lines_at w' m i = lines_at w m i" if "i < n" for i using assms(5) that by (simp add: lines_at_def)
  then have "map (lines_at w' m) [0..<n] = map (lines_at w m) [0..<n]" by simp
  moreover have "lines_at w' m n = lines_at w m n @ ls"
    using assms(1-4) complete_lines_batch [OF assms(4)] by (simp add: lines_at_def complete_lines_ended)
  ultimately show ?thesis by (simp add: history_def del: map_eq_conv)
qed

lemma durable_ok:
  assumes ok: "journal_ok mnt H j w" and "inj mnt" "writeEach (concat (map snd batch)) (j_replicas j) w = (out, w')" "batch = j_pending j"
  shows "journal_ok mnt (H @ map snd batch) (j\<lparr>j_flushTimer := t, j_pending := [],
      j_replicas := map snd (filter (\<lambda>x. fst x \<noteq> Failed) out), j_reelectionNeeded := e, j_resolved := rs\<rparr>) w'"
proof -
  let ?n = "j_segment j" let ?b = "concat (map snd batch)"
  have ok': "honest w" "set_ok mnt (j_replicas j)" "\<forall>r \<in> set (j_replicas j). serving w ?n r" "acked H (j_replicas j) w ?n"
      "\<forall>x \<in> set batch. is_line (snd x)" "\<not> j_stopping j"
    using ok by (auto simp: journal_ok_def assms(4))
  have lines: "\<forall>l \<in> set (map snd batch). is_line l" using ok'(5) by auto
  note we = writeEach_spec [OF assms(3) ok'(3) set_ok_mounts [OF assms(2) ok'(2)]]
  have ids: "map (r_volumeId \<circ> snd) out = map r_volumeId (j_replicas j)"
    using we by (auto simp: list_all2_conv_all_nth wrote_def intro!: nth_equalityI)
  have each: "serving w' ?n q \<and> r_mountPoint q = mnt (r_volumeId q) \<and> subseq (H @ map snd batch) (history w' (r_mountPoint q) ?n)"
    if q: "(oc, q) \<in> set out" "oc \<noteq> Failed" for oc q
  proof -
    obtain i where i: "i < length out" "out ! i = (oc, q)" using q(1) by (auto simp: in_set_conv_nth)
    define r where "r = j_replicas j ! i"
    have r: "r \<in> set (j_replicas j)" "wrote ?b ?n r w (oc, q) w'"
      using we i by (auto simp: list_all2_conv_all_nth r_def)
    have "oc = Durable" using r(2) q(2) by (cases oc) (auto simp: wrote_def)
    then obtain b where b: "r_handle q = r_handle r" "jfile w (r_mountPoint r) (segment_file ?n) = Some b"
        "jfile w' (r_mountPoint r) (segment_file ?n) = Some (b @ ?b)" "r_bytes q = r_bytes r + length ?b" "r_mountPoint q = r_mountPoint r" "r_volumeId q = r_volumeId r"
      using r(2) by (auto simp: wrote_def)
    have sv: "r_handle r = Some (segment_file ?n)" "r_bytes r = length b" "ended b"
      using ok'(3) r(1) b(2) by (auto simp: serving_def)
    have "history w' (r_mountPoint r) ?n = history w (r_mountPoint r) ?n @ map snd batch"
      using we by (intro history_grows [OF b(2) b(3) sv(3) lines]) auto
    moreover have "subseq H (history w (r_mountPoint r) ?n)" using ok'(4) r(1) by (simp add: acked_def)
    moreover have "ended (b @ ?b)" using sv(3) complete_lines_batch [OF lines] by (simp add: ended_append)
    ultimately show ?thesis using b sv ok'(2) r(1) by (auto simp: serving_def set_ok_def intro: list_emb_append_mono)
  qed
  have dis: "distinct (map r_volumeId (map snd (filter (\<lambda>x. fst x \<noteq> Failed) out)))"
    using ids ok'(2) distinct_map_filter [of "r_volumeId \<circ> snd" out] by (simp add: set_ok_def)
  have "honest w'" using we ok'(1) by (auto intro: honest_cong)
  then show ?thesis using each dis ok'(6) by (auto simp: journal_ok_def set_ok_def acked_def)
qed

lemma flush_ok:
  assumes ok: "journal_ok mnt H j w" and "inj mnt" "flush cfg j w = (j', w')"
  shows "\<exists>done. j_resolved j' = j_resolved j @ (if done then j_pending j else []) \<and> j_pending j' = [] \<and>
    j_rejected j' = j_rejected j @ (if done then [] else j_pending j) \<and>
    journal_ok mnt (H @ (if done then map snd (j_pending j) else [])) j' w' \<and> (\<not> done \<longrightarrow> j_replicas j' = [] \<or> j_pending j = [])"
proof (cases "j_pending j = []")
  case True
  then show ?thesis using assms by (auto simp: flush_def Let_def journal_ok_def)
next
  case False
  define batch where "batch = j_pending j"
  obtain out w1 where wr: "writeEach (concat (map snd batch)) (j_replicas j) w = (out, w1)" by fastforce
  define dur where "dur \<longleftrightarrow> (\<exists>x \<in> set out. fst x = Durable)"
  define e where "e \<longleftrightarrow> (j_reelectionNeeded j \<or> (\<exists>x \<in> set out. fst x = Failed))"
  define j1 where "j1 = j\<lparr>j_flushTimer := False, j_pending := [], j_replicas := map snd (filter (\<lambda>x. fst x \<noteq> Failed) out), j_reelectionNeeded := e\<rparr>"
  obtain js ws where sb: "settleBatch cfg (j\<lparr>j_flushTimer := False\<rparr>) batch out w1 = (js, ws)" by fastforce
  have res: "w' = ws" "j' = (if j_reelectionNeeded js then reconfigure js else js)"
    using assms(3) False wr sb by (simp_all add: flush_def Let_def batch_def)
  have st: "(js, ws) = (if dur then rotateIfNeeded cfg (j1\<lparr>j_resolved := j_resolved j @ batch\<rparr>) w1
      else (j1\<lparr>j_rejected := j_rejected j @ batch\<rparr>, rollBackEach (segment_file (j_segment j)) (filter (\<lambda>r. r_handle r \<noteq> None) (j_replicas j)) w1))"
    using sb unfolding settleBatch_def Let_def dur_def e_def j1_def by (simp cong: if_cong)
  have d: "journal_ok mnt (H @ map snd batch) (j1\<lparr>j_resolved := x\<rparr>) w1" for x
    using durable_ok [OF ok assms(2) wr batch_def, where t = False and e = e and rs = x] by (simp add: j1_def)
  show ?thesis
  proof (cases dur)
    case True
    obtain j2 w2 where r: "rotateIfNeeded cfg (j1\<lparr>j_resolved := j_resolved j @ batch\<rparr>) w1 = (j2, w2)" by fastforce
    note ro = rotate_ok [OF d assms(2) r]
    have "j' = (if j_reelectionNeeded j2 then reconfigure j2 else j2)" "w' = w2" using res r True st by simp_all
    then show ?thesis using ro by (intro exI [of _ True]) (auto simp: same_books_def j1_def batch_def)
  next
    case nd: False
    have all: "\<forall>r \<in> set (j_replicas j). serving w (j_segment j) r" and so: "set_ok mnt (j_replicas j)" using ok by (auto simp: journal_ok_def)
    note we = writeEach_spec [OF wr all set_ok_mounts [OF assms(2) so]]
    have "\<forall>x \<in> set out. fst x = Failed"
    proof
      fix x assume "x \<in> set out"
      then have "fst x \<noteq> Durable" "fst x \<noteq> Skipped"
        using nd we by (auto simp: dur_def list_all2_conv_all_nth in_set_conv_nth wrote_def)
      then show "fst x = Failed" by (cases "fst x") auto
    qed
    then have "filter (\<lambda>x. fst x \<noteq> Failed) out = []" by (simp add: filter_empty_conv)
    then have none: "j_replicas j1 = []" by (simp add: j1_def)
    have h1: "honest w1" using we ok by (auto simp: journal_ok_def intro: honest_cong)
    then have h: "honest ws" using rollBackEach_keeps [OF h1] nd st by (auto intro: honest_cong)
    have f: "js = j1\<lparr>j_rejected := j_rejected j @ batch\<rparr>" using nd st by simp
    have "journal_ok mnt H j' w'" using h none ok unfolding res f by (simp add: journal_ok_def set_ok_def acked_def j1_def reconfigure_def)
    then show ?thesis using none unfolding res f by (intro exI [of _ False]) (auto simp: j1_def batch_def)
  qed
qed

section \<open>Seeding a new replica\<close>

text \<open>
  What a successful copy guarantees does not depend on which calls failed on the way: the source's segment is
  at the start of the target's.
\<close>

definition copied_over :: "string \<Rightarrow> string \<Rightarrow> string list \<Rightarrow> jworld \<Rightarrow> js_error + unit \<Rightarrow> jworld \<Rightarrow> bool" where
  "copied_over a b fs w r w' \<longleftrightarrow> jw_fail w' = jw_fail w \<and> (\<forall>m g. m \<noteq> b \<or> g \<notin> set fs \<longrightarrow> jfile w' m g = jfile w m g) \<and>
     (r = Inr () \<longrightarrow> (\<forall>f \<in> set fs. \<forall>s. jfile w a f = Some s \<longrightarrow> (\<exists>t. jfile w' b f = Some t \<and> prefix s t)))"

lemma copied_over_reads:
  "reads x \<Longrightarrow> x w = (r0, w0) \<Longrightarrow> copied_over a b fs w0 r w' \<Longrightarrow> copied_over a b fs w r w'"
  using reads_same [of x w r0 w0] by (simp add: copied_over_def)

lemma copied_over_stop: "jw_dirs w' = jw_dirs w \<Longrightarrow> jw_fail w' = jw_fail w \<Longrightarrow> r \<noteq> Inr () \<Longrightarrow> copied_over a b fs w r w'"
  by (simp add: copied_over_def)

lemma fs_stat_Inr: "fs_stat m f w = (Inr n, w') \<Longrightarrow> \<exists>b. jfile w m f = Some b \<and> n = length b"
  by (auto simp: fs_stat_def bindE_def fs_content_def call_def returnE_def split: option.splits)

lemma copySegment_over:
  assumes "copySegment a b f w = (r, w')" "a \<noteq> b"
  shows "copied_over a b [f] w r w'"
proof -
  define sync where "sync = bindE (fs_open b f) (\<lambda>_. finallyE (call Sync) (call Close))"
  have sync: "reads sync" unfolding sync_def by (intro reads_intros)
  have copy: "copied_over a b [f] w0 r0 w0'" if "bindE (fs_copyFile a b f) (\<lambda>_. sync) w0 = (r0, w0')" for w0 r0 w0'
  proof -
    obtain r1 w1 where c: "fs_copyFile a b f w0 = (r1, w1)" by fastforce
    note eff = copyFile_effect [OF c]
    show ?thesis
    proof (cases r1)
      case (Inl e)
      then show ?thesis using that eff by (auto simp: bindE_def c copied_over_def)
    next
      case (Inr u)
      then have "sync w1 = (r0, w0')" using that by (simp add: bindE_def c)
      then show ?thesis using reads_same [OF sync] eff Inr assms(2) by (auto simp: copied_over_def)
    qed
  qed
  note run = assms(1) [unfolded copySegment_def sync_def [symmetric] Let_def]
  obtain r1 w1 where s1: "fs_stat a f w = (r1, w1)" by fastforce
  note f1 = reads_same [OF reads_files(2) s1]
  show ?thesis
  proof (cases r1)
    case (Inl e)
    then show ?thesis using run f1 by (intro copied_over_stop) (auto simp: bindE_def s1)
  next
    case (Inr n)
    obtain s where s: "jfile w a f = Some s" "n = length s" using fs_stat_Inr [OF s1 [unfolded Inr]] by blast
    obtain r2 w2 where s2: "stat_or_null b f w1 = (r2, w2)" by fastforce
    have rd: "reads (stat_or_null b f)" unfolding stat_or_null_def by (intro reads_intros)
    obtain dst where dst: "r2 = Inr dst" using s2 by (auto simp: stat_or_null_def catchE_def returnE_def split: prod.splits sum.splits)
    have go: "copied_over a b [f] w r w'" if "copied_over a b [f] w2 r w'"
      using copied_over_reads [OF reads_files(2) s1 copied_over_reads [OF rd s2 that]] .
    show ?thesis
    proof (cases dst)
      case None
      then show ?thesis using run Inr dst by (intro go copy) (simp add: bindE_def s1 s2)
    next
      case (Some k)
      obtain r3 w3 where ag: "agreeOnPrefix a b f (min n k) w2 = (r3, w3)" by fastforce
      note f2 = reads_same [OF rd s2] and f3 = reads_same [OF reads_agreeOnPrefix ag]
      obtain t where t: "jfile w1 b f = Some t" "k = length t"
        using s2 dst Some fs_stat_Inr [of b f w1] by (auto simp: stat_or_null_def catchE_def bindE_def returnE_def split: prod.splits sum.splits)
      have rest: "(case r3 of Inl e \<Rightarrow> (Inl e, w3) | Inr ok \<Rightarrow> (if \<not> ok then throwE divergence_error
          else if n \<le> k then sync else bindE (fs_copyFile a b f) (\<lambda>_. sync)) w3) = (r, w')"
        using run Inr dst Some by (simp add: bindE_def s1 s2 ag split: sum.splits)
      show ?thesis
      proof (cases "r3 = Inr True")
        case False
        then have "w' = w3" "r \<noteq> Inr ()" using rest by (auto simp: throwE_def split: sum.splits)
        then show ?thesis using f1 f2 f3 by (intro copied_over_stop) auto
      next
        case True
        have same: "take (min n k) s = take (min n k) t"
          using agreeOnPrefix_spec [OF ag [unfolded True], of s t] f1 f2 s t by auto
        show ?thesis
        proof (cases "n \<le> k")
          case le: True
          have "prefix s t" using same le s(2) t(2) by (metis min_absorb1 order_refl take_all take_is_prefix)
          moreover have "sync w3 = (r, w')" using rest True le by simp
          ultimately show ?thesis using reads_same [OF sync] f1 f2 f3 s t by (auto simp: copied_over_def)
        next
          case gt: False
          then have "copied_over a b [f] w3 r w'" using rest True by (intro copy) simp
          then show ?thesis by (intro go copied_over_reads [OF reads_agreeOnPrefix ag])
        qed
      qed
    qed
  qed
qed

lemma forE_over:
  assumes "forE fs (copySegment a b) w = (r, w')" "a \<noteq> b"
  shows "copied_over a b fs w r w'"
  using assms(1)
proof (induction fs arbitrary: w)
  case (Cons f fs)
  obtain r1 w1 where c: "copySegment a b f w = (r1, w1)" by fastforce
  note co = copySegment_over [OF c assms(2)]
  show ?case
  proof (cases r1)
    case (Inl e)
    then show ?thesis using Cons.prems co by (auto simp: bindE_def c copied_over_def)
  next
    case (Inr u)
    then have "forE fs (copySegment a b) w1 = (r, w')" using Cons.prems by (simp add: bindE_def c)
    note ih = Cons.IH [OF this]
    have "\<exists>t. jfile w' b g = Some t \<and> prefix s t" if "r = Inr ()" "g \<in> set (f # fs)" "jfile w a g = Some s" for g s
      using that ih co Inr assms(2) by (cases "g \<in> set fs") (auto simp: copied_over_def)
    then show ?thesis using ih co by (auto simp: copied_over_def)
  qed
qed (simp add: returnE_def copied_over_def)

lemma copySegments_over:
  assumes "copySegments a b w = (r, w')" "a \<noteq> b" "honest w"
  shows "jw_fail w' = jw_fail w \<and> (\<forall>m g. m \<noteq> b \<longrightarrow> jfile w' m g = jfile w m g) \<and>
    (r = Inr () \<longrightarrow> (\<forall>i. prefix (lines_at w a i) (lines_at w' b i)))"
proof -
  obtain r1 w1 where l: "listSegments a w = (r1, w1)" by fastforce
  note f1 = reads_same [OF reads_listSegments l]
  obtain r2 w2 where m: "call Mkdir w1 = (r2, w2)" by fastforce
  note f2 = reads_same [OF reads_basic(3) m]
  show ?thesis
  proof (cases "\<exists>fs. r1 = Inr fs \<and> fs \<noteq> [] \<and> r2 = Inr ()")
    case False
    then have "w' \<in> {w1, w2}" "r \<noteq> Inr ()" using assms(1)
      by (auto simp: copySegments_def bindE_def Let_def l m throwE_def split: sum.splits if_splits)
    then show ?thesis using f1 f2 by auto
  next
    case True
    then obtain fs where fs: "r1 = Inr fs" "fs \<noteq> []" "r2 = Inr ()" by blast
    have se: "sort fs \<noteq> []" using fs(2) by (metis length_0_conv length_sort)
    obtain r3 w3 where fe: "forE (sort fs) (copySegment a b) w2 = (r3, w3)" by fastforce
    note co = forE_over [OF fe assms(2)]
    obtain r4 w4 where y: "fsyncDirectory b w3 = (r4, w4)" by fastforce
    note f4 = reads_same [OF reads_files(4) y]
    have res: "w' = (case r3 of Inl e \<Rightarrow> w3 | Inr _ \<Rightarrow> w4)" "r = Inr () \<Longrightarrow> r3 = Inr ()"
      using assms(1) fs se by (auto simp: copySegments_def bindE_def Let_def l m fe y split: sum.splits)
    have "set fs = {f \<in> fst ` set (jw_dirs w a). is_segment_name f}"
      using listSegments_Inr [OF l [unfolded fs(1)] honestD [OF assms(3)]] by auto
    then have seg: "jfile w a (segment_file i) = Some s \<Longrightarrow> segment_file i \<in> set fs" for i s
      by (force dest: map_of_SomeD)
    have "prefix (lines_at w a i) (lines_at w' b i)" if ok: "r = Inr ()" for i
    proof (cases "jfile w a (segment_file i)")
      case (Some s)
      then have "\<exists>t. jfile w3 b (segment_file i) = Some t \<and> prefix s t"
        using co seg [OF Some] res(2) [OF ok] f1 f2 by (auto simp: copied_over_def)
      then obtain t where "jfile w3 b (segment_file i) = Some t" "prefix s t" by blast
      then show ?thesis using res f4 ok complete_lines_prefix by (auto simp: lines_at_def Some split: sum.splits)
    qed (simp add: lines_at_def)
    then show ?thesis using co f1 f2 f4 res(1) by (auto simp: copied_over_def split: sum.splits)
  qed
qed

lemma seedFrom_frame:
  assumes "seedFrom ss m w = (r, w')" "honest w"
  shows "jw_fail w' = jw_fail w \<and> (\<forall>m' g. m' \<noteq> m \<longrightarrow> jfile w' m' g = jfile w m' g)"
  using assms
proof (induction ss arbitrary: w)
  case (Cons s ss)
  show ?case
  proof (cases "s_mountPoint s = m")
    case True
    then show ?thesis using Cons by simp
  next
    case False
    obtain r1 w1 where c: "copySegments (s_mountPoint s) m w = (r1, w1)" by fastforce
    note co = copySegments_over [OF c False Cons.prems(2)]
    have "honest w1" using co Cons.prems(2) by (auto intro: honest_cong)
    then show ?thesis using Cons.IH [of w1] Cons.prems(1) False co by (cases r1) (auto simp: bindE_def c)
  qed
qed (simp add: returnE_def)

lemma seedFrom_one:
  assumes "seedFrom [s] m w = (Inr (), w')" "honest w" "s_mountPoint s \<noteq> m"
  shows "subseq (history w (s_mountPoint s) n) (history w' m n)"
proof -
  obtain w1 where c: "copySegments (s_mountPoint s) m w = (Inr (), w1)" "w' = w1"
    using assms(1, 3) by (auto simp: bindE_Inr returnE_def)
  show ?thesis unfolding c(2)
    using copySegments_over [OF c(1) assms(3, 2)] by (intro history_mono prefix_imp_subseq) auto
qed

lemma reads_foreign [reads_intros]: "reads (foreignSegments l m)" "reads (lineageSegments ss)"
  unfolding foreignSegments_def by (auto intro!: reads_intros) (induction ss; auto intro!: reads_intros)

text \<open>
  Half-way through a rebuild: the replicas kept and those not yet considered are in service with all of \<open>H\<close>, the
  adopted ones have it on disk, and nothing is listed twice.
\<close>

definition rebuild_ok :: "(nat \<Rightarrow> string) \<Rightarrow> bytes list \<Rightarrow> nat \<Rightarrow> rebuild \<Rightarrow> jworld \<Rightarrow> bool" where
  "rebuild_ok mnt H n b w \<longleftrightarrow> honest w \<and> set_ok mnt (rb_kept b @ rb_adopted b) \<and> set_ok mnt (rb_previous b) \<and>
     (\<forall>r \<in> set (rb_kept b). serving w n r) \<and> (\<forall>r \<in> set (rb_adopted b). r_handle r = None) \<and>
     (\<forall>r \<in> set (rb_previous b). r_handle r = None \<or> serving w n r \<and> r_volumeId r \<notin> r_volumeId ` set (rb_kept b @ rb_adopted b)) \<and>
     acked H (rb_kept b @ rb_adopted b @ filter (\<lambda>r. r_handle r \<noteq> None) (rb_previous b)) w n"

text \<open>The sources are one replica in service, or nothing is promised.\<close>

definition source_ok :: "bytes list \<Rightarrow> source list \<Rightarrow> rebuild \<Rightarrow> bool" where
  "source_ok H ss b \<longleftrightarrow> H = [] \<or> (\<exists>r \<in> set (rb_kept b @ filter (\<lambda>r. r_handle r \<noteq> None) (rb_previous b)).
     ss = [\<lparr>s_volumeId = r_volumeId r, s_mountPoint = r_mountPoint r\<rparr>])"

lemma rebuild_ok_frame:
  assumes "rebuild_ok mnt H n b w" "inj mnt" "jw_fail w' = jw_fail w" "\<And>m g. m \<noteq> mnt i \<Longrightarrow> jfile w' m g = jfile w m g"
    "i \<notin> r_volumeId ` set (rb_kept b @ rb_adopted b)" "\<And>r. r \<in> set (rb_previous b) \<Longrightarrow> r_handle r \<noteq> None \<Longrightarrow> r_volumeId r \<noteq> i"
  shows "rebuild_ok mnt H n b w'"
proof -
  have same: "jfile w' (r_mountPoint r) g = jfile w (r_mountPoint r) g"
    if "r \<in> set (rb_kept b @ rb_adopted b @ filter (\<lambda>r. r_handle r \<noteq> None) (rb_previous b))" for r g
  proof -
    have "r_mountPoint r = mnt (r_volumeId r)" "r_volumeId r \<noteq> i"
      using that assms(1, 5, 6) by (auto simp: rebuild_ok_def set_ok_def)
    then show ?thesis using assms(2, 4) by (metis injD)
  qed
  have h: "history w' (r_mountPoint r) n = history w (r_mountPoint r) n"
    if "r \<in> set (rb_kept b @ rb_adopted b @ filter (\<lambda>r. r_handle r \<noteq> None) (rb_previous b))" for r
    using same [OF that] by (rule history_frame)
  have "acked H (rb_kept b @ rb_adopted b @ filter (\<lambda>r. r_handle r \<noteq> None) (rb_previous b)) w' n"
    using assms(1) h unfolding rebuild_ok_def acked_def by metis
  moreover have "serving w' n r" if "r \<in> set (rb_kept b @ filter (\<lambda>r. r_handle r \<noteq> None) (rb_previous b))" "serving w n r" for r
    using serving_frame [OF that(2)] same [of r] that(1) by auto
  ultimately show ?thesis using assms(1, 3) honest_cong [OF assms(3)] unfolding rebuild_ok_def by auto
qed

lemma adoptOne_ok:
  assumes ok: "rebuild_ok mnt H n b w" and src: "source_ok H ss b" and inj: "inj mnt" and run: "adoptOne ss lin c b w = (b', w')"
    and c: "c_mountPoint c = mnt (c_id c)" "c_id c \<notin> r_volumeId ` set (rb_kept b @ rb_adopted b)"
  shows "rebuild_ok mnt H n b' w' \<and> source_ok H ss b' \<and>
    r_volumeId ` set (rb_kept b' @ rb_adopted b') \<subseteq> insert (c_id c) (r_volumeId ` set (rb_kept b @ rb_adopted b))"
proof (cases "find (\<lambda>r. r_volumeId r = c_id c \<and> r_handle r \<noteq> None) (rb_previous b)")
  case (Some r)
  then have r: "r \<in> set (rb_previous b)" "r_volumeId r = c_id c" "r_handle r \<noteq> None" by (auto simp: find_Some_iff)
  have b': "b' = b\<lparr>rb_kept := rb_kept b @ [r], rb_previous := filter (\<lambda>r. r_volumeId r \<noteq> c_id c) (rb_previous b)\<rparr>" "w' = w"
    using run [unfolded adoptOne_def Some option.case] by simp_all
  have u: "q = r" if "q \<in> set (rb_previous b)" "r_volumeId q = c_id c" for q
  proof -
    have "inj_on r_volumeId (set (rb_previous b))" using ok by (simp add: rebuild_ok_def set_ok_def distinct_map)
    then show ?thesis using that r(1, 2) by (metis inj_onD)
  qed
  have "set (rb_kept b' @ rb_adopted b' @ filter (\<lambda>r. r_handle r \<noteq> None) (rb_previous b')) \<subseteq>
      set (rb_kept b @ rb_adopted b @ filter (\<lambda>r. r_handle r \<noteq> None) (rb_previous b))" using r by (auto simp: b')
  then have "acked H (rb_kept b' @ rb_adopted b' @ filter (\<lambda>r. r_handle r \<noteq> None) (rb_previous b')) w' n"
    using ok unfolding rebuild_ok_def acked_def b'(2) by blast
  then have "rebuild_ok mnt H n b' w'"
    using ok r c(2) unfolding rebuild_ok_def b' by (auto simp: set_ok_def distinct_map_filter)
  moreover have "source_ok H ss b'" using src u unfolding source_ok_def b' by auto
  ultimately show ?thesis using r by (auto simp: b')
next
  case None
  then have no: "r_volumeId r \<noteq> c_id c" if "r \<in> set (rb_previous b)" "r_handle r \<noteq> None" for r
    using that by (auto simp: find_None_iff)
  let ?m = "c_mountPoint c"
  obtain r1 w1 where f: "foreignSegments lin ?m w = (r1, w1)" by fastforce
  note f1 = reads_same [OF reads_foreign(1) f]
  have ok1: "rebuild_ok mnt H n b w1"
    using rebuild_ok_frame [OF ok inj f1(2), of "c_id c"] f1(1) c(2) no by simp
  obtain r2 w2 where sd: "seedFrom ss ?m w1 = (r2, w2)" by fastforce
  have h1: "honest w1" using ok1 by (simp add: rebuild_ok_def)
  note fr = seedFrom_frame [OF sd h1]
  have ok2: "rebuild_ok mnt H n b w2"
  proof (rule rebuild_ok_frame [OF ok1 inj, of w2 "c_id c"])
    show "jw_fail w2 = jw_fail w1" "m \<noteq> mnt (c_id c) \<Longrightarrow> jfile w2 m g = jfile w1 m g" for m g using fr c(1) by simp_all
  qed (use c(2) no in auto)
  show ?thesis
  proof (cases "r1 = Inr [] \<and> r2 = Inr ()")
    case False
    then have "(b', w') \<in> {(b, w1), (b\<lparr>rb_reelect := True\<rparr>, w2)}"
      using run [unfolded adoptOne_def None option.case f prod.case] sd by (auto split: sum.splits if_splits)
    then consider "b' = b" "w' = w1" | "b' = b\<lparr>rb_reelect := True\<rparr>" "w' = w2" by blast
    then show ?thesis
    proof cases
      case 1
      then show ?thesis using ok1 src by blast
    next
      case 2
      have "rebuild_ok mnt H n b' w'" "source_ok H ss b'"
        using ok2 src unfolding 2 rebuild_ok_def source_ok_def by simp_all
      then show ?thesis unfolding 2 by auto
    qed
  next
    case True
    define a where "a = \<lparr>r_volumeId = c_id c, r_mountPoint = ?m, r_handle = None, r_bytes = 0\<rparr>"
    have b': "b' = b\<lparr>rb_adopted := rb_adopted b @ [a]\<rparr>" "w' = w2"
      using run [unfolded adoptOne_def None option.case f prod.case] sd True by (auto simp: a_def)
    have "subseq H (history w2 ?m n)"
    proof (cases "H = []")
      case False
      then obtain r where r: "r \<in> set (rb_kept b @ filter (\<lambda>r. r_handle r \<noteq> None) (rb_previous b))"
          "ss = [\<lparr>s_volumeId = r_volumeId r, s_mountPoint = r_mountPoint r\<rparr>]"
        using src by (auto simp: source_ok_def)
      have "r_volumeId r \<noteq> c_id c"
      proof (cases "r \<in> set (rb_kept b)")
        case True
        then show ?thesis using c(2) by force
      next
        case False
        then show ?thesis using r(1) no by simp
      qed
      moreover have "r_mountPoint r = mnt (r_volumeId r)" using r(1) ok by (auto simp: rebuild_ok_def set_ok_def)
      ultimately have ne: "r_mountPoint r \<noteq> ?m" using c(1) inj by (auto dest: injD)
      have "subseq H (history w1 (r_mountPoint r) n)" using ok1 r(1) by (auto simp: rebuild_ok_def acked_def)
      then show ?thesis
        using seedFrom_one [of "\<lparr>s_volumeId = r_volumeId r, s_mountPoint = r_mountPoint r\<rparr>" ?m w1 w2 n] sd True r(2) h1 ne
        by (auto intro: subseq_order.trans)
    qed simp
    then have "rebuild_ok mnt H n b' w'"
      using ok2 c no unfolding rebuild_ok_def b' by (auto simp: set_ok_def acked_def a_def)
    then show ?thesis using src by (auto simp: b' source_ok_def a_def)
  qed
qed

lemma adoptEach_ok:
  assumes "rebuild_ok mnt H n b w" "source_ok H ss b" "inj mnt" "adoptEach ss lin cs b w = (b', w')"
    "\<forall>c \<in> set cs. c_mountPoint c = mnt (c_id c) \<and> c_id c \<notin> r_volumeId ` set (rb_kept b @ rb_adopted b)" "distinct (map c_id cs)"
  shows "rebuild_ok mnt H n b' w'"
  using assms
proof (induction cs arbitrary: b w)
  case (Cons c cs)
  obtain b1 w1 where o: "adoptOne ss lin c b w = (b1, w1)" by fastforce
  note a = adoptOne_ok [OF Cons.prems(1-3) o]
  have a': "rebuild_ok mnt H n b1 w1" "source_ok H ss b1"
      "r_volumeId ` set (rb_kept b1 @ rb_adopted b1) \<subseteq> insert (c_id c) (r_volumeId ` set (rb_kept b @ rb_adopted b))"
    using a Cons.prems(5) by simp_all
  have "\<forall>d \<in> set cs. c_mountPoint d = mnt (c_id d) \<and> c_id d \<notin> r_volumeId ` set (rb_kept b1 @ rb_adopted b1)"
  proof
    fix d assume d: "d \<in> set cs"
    then have "c_id d \<noteq> c_id c" using Cons.prems(6) by (metis distinct.simps(2) image_eqI list.simps(9) set_map)
    then show "c_mountPoint d = mnt (c_id d) \<and> c_id d \<notin> r_volumeId ` set (rb_kept b1 @ rb_adopted b1)"
      using a'(3) Cons.prems(5) d by (metis insertE list.set_intros(2) subsetD)
  qed
  then show ?case using Cons.IH [OF a'(1, 2) Cons.prems(3)] Cons.prems(4, 6) by (simp add: o)
qed simp

lemma install_ok:
  assumes ok: "rebuild_ok mnt H (j_segment j) b w" and "inj mnt" "\<not> j_stopping j" "installReplicas ss b j w = (j', w')"
    and pend: "\<forall>x \<in> set (j_pending j). is_line (snd x)"
  shows "journal_ok mnt H j' w' \<and> same_books j j'"
proof -
  let ?n = "rb_kept b @ rb_adopted b" let ?s = "filter (\<lambda>r. r_handle r \<noteq> None) (rb_previous b)"
  show ?thesis
  proof (cases "?n = [] \<and> ?s \<noteq> []")
    case True
    then have "j' = j\<lparr>j_replicas := ?s\<rparr>" "w' = w" using assms(4) by (simp_all add: installReplicas_def Let_def)
    moreover have "set_ok mnt ?s" "\<forall>r \<in> set ?s. serving w (j_segment j) r" "honest w"
      using ok by (auto simp: rebuild_ok_def set_ok_def distinct_map_filter)
    moreover have "acked H ?s w (j_segment j)" using ok unfolding rebuild_ok_def acked_def set_append by blast
    ultimately show ?thesis using assms(3) pend by (simp add: journal_ok_def same_books_def)
  next
    case False
    obtain ps w1 where cl: "closeEach (rb_previous b) w = (ps, w1)" by fastforce
    note ce = closeEach_spec [OF cl]
    define j1 where "j1 = j\<lparr>j_replicas := ?n\<rparr>"
    obtain res w2 where o: "openSegments (map s_mountPoint ss) j1 w1 = (res, w2)" by fastforce
    have h1: "honest w1" using ok ce by (auto simp: rebuild_ok_def intro: honest_cong)
    have pre: "set_ok mnt (j_replicas j1)" "\<not> j_stopping j1" "\<forall>r \<in> set (j_replicas j1). r_handle r = None \<or> serving w1 (j_segment j1) r"
        "acked H (j_replicas j1) w1 (j_segment j1)"
      using ok ce assms(3) by (auto simp: rebuild_ok_def j1_def serving_def acked_def history_def lines_at_def [abs_def] simp del: upt_Suc)
    note os = openSegments_ok [OF o h1 assms(2) pre]
    have h2: "honest w2" using os honest_cong [OF _ h1] by blast
    show ?thesis
    proof (cases res)
      case (Inl e)
      obtain qs w3 where c2: "closeEach ?n w2 = (qs, w3)" by fastforce
      have "j' = j\<lparr>j_replicas := []\<rparr>" "w' = w3"
        using assms(4) False cl o Inl c2 by (auto simp: installReplicas_def Let_def closeAll_def j1_def [symmetric]) (simp_all add: j1_def closeAll_def)
      moreover have "honest w3" using closeEach_spec [OF c2] h2 by (auto intro: honest_cong)
      ultimately show ?thesis using assms(3) pend by (simp add: journal_ok_def same_books_def set_ok_def acked_def)
    next
      case (Inr j2)
      then have "j' = publishReplicaLocation j2" "w' = w2"
        using assms(4) False cl o by (auto simp: installReplicas_def Let_def j1_def [symmetric])
      then show ?thesis using os Inr h2 pend assms(3) by (auto simp: journal_ok_def same_books_def publishReplicaLocation_def Let_def j1_def)
    qed
  qed
qed

section \<open>Re-electing\<close>

lemma dropUnmounted_spec:
  assumes "dropUnmounted U rs w = (rs', w')"
  shows "jw_dirs w' = jw_dirs w \<and> jw_fail w' = jw_fail w \<and> map r_volumeId rs' = map r_volumeId rs \<and>
    (\<forall>r' \<in> set rs'. \<exists>r \<in> set rs. r' = r \<or> r' = r\<lparr>r_handle := None\<rparr>)"
  using assms
proof (induction rs arbitrary: rs' w)
  case (Cons r rs)
  obtain r1 w1 where c: "(if r_handle r \<noteq> None \<and> r_volumeId r \<in> U then closeReplica r w else (r, w)) = (r1, w1)" by fastforce
  obtain rs1 w2 where d: "dropUnmounted U rs w1 = (rs1, w2)" by fastforce
  have res: "rs' = r1 # rs1" "w' = w2" using Cons.prems c d by (simp_all split: prod.splits)
  have r1: "r1 = r \<or> r1 = r\<lparr>r_handle := None\<rparr>" "jw_dirs w1 = jw_dirs w" "jw_fail w1 = jw_fail w"
    using c closeReplica_spec [of r w r1 w1] by (auto simp only: split: if_splits)
  have ids: "r_volumeId r1 = r_volumeId r" using r1(1) by auto
  note ih = Cons.IH [OF d [folded res(2)]]
  have "\<exists>q \<in> set (r # rs). r' = q \<or> r' = q\<lparr>r_handle := None\<rparr>" if "r' \<in> set rs'" for r'
    using that r1(1) ih unfolding res(1) by (metis list.set_intros set_ConsD)
  then show ?case using ih r1(2, 3) ids unfolding res(1) by simp
qed simp

lemma scanLoop_reads:
  assumes "scanLoop vs w = (x, w')"
  shows "jw_dirs w' = jw_dirs w \<and> jw_fail w' = jw_fail w"
  using assms
proof (induction vs arbitrary: x w)
  case (Cons v vs)
  have step: ?case if "scanLoop vs w1 = (y, w')" "jw_dirs w1 = jw_dirs w" "jw_fail w1 = jw_fail w" for y w1
    using Cons.IH [OF that(1)] that(2, 3) by simp
  show ?case
  proof (cases "fv_isDeleted v \<or> \<not> fv_isMounted v \<or> fv_mountPoint v = None \<or> fv_mountPoint v = Some []")
    case True
    obtain y w2 where "scanLoop vs w = (y, w2)" by fastforce
    then show ?thesis using Cons.prems True by (intro step [of w y]) (auto split: option.splits if_splits prod.splits)
  next
    case False
    then obtain m where m: "fv_mountPoint v = Some m" "m \<noteq> []" by auto
    obtain r1 w1 where l: "listSegmentSizes m w = (r1, w1)" by fastforce
    obtain y w2 where y: "scanLoop vs w1 = (y, w2)" by fastforce
    have "w' = w2" using Cons.prems False m l y by (auto split: sum.splits prod.splits)
    then show ?thesis using reads_same [OF reads_listSegmentSizes l] y by (intro step [of w1 y]) auto
  qed
qed simp

lemma reads_lineage [reads_intros]: "reads (majorityLineage cs)"
proof -
  have p: "reads (placeIn c ls)" for c ls by (induction ls) (auto intro!: reads_intros)
  have "reads (lineageLoop cs ls)" for ls by (induction cs arbitrary: ls) (auto intro!: reads_intros p)
  then show ?thesis unfolding majorityLineage_def by (auto intro!: reads_intros split: list.split)
qed

text \<open>A re-election starts from a replica in service, on a volume the fleet does not report as unmounted.\<close>

definition from_live :: "journal_config \<Rightarrow> fleet_view \<Rightarrow> journal \<Rightarrow> jworld \<Rightarrow> bool" where
  "from_live cfg fleet j w \<longleftrightarrow> (case seedSources fleet (fst (flush cfg (j\<lparr>j_reelectionNeeded := False\<rparr>) w)) (snd (flush cfg (j\<lparr>j_reelectionNeeded := False\<rparr>) w)) of
     (_, j1, _) \<Rightarrow> (\<exists>r \<in> set (j_replicas j1). r_handle r \<noteq> None))"

lemma seedSources_spec:
  assumes "seedSources fleet j w = (res, j1, w1)" "journal_ok mnt H j w"
  shows "jw_dirs w1 = jw_dirs w \<and> jw_fail w1 = jw_fail w \<and> j1 = j\<lparr>j_replicas := j_replicas j1\<rparr> \<and>
    map r_volumeId (j_replicas j1) = map r_volumeId (j_replicas j) \<and>
    (\<forall>r' \<in> set (j_replicas j1). \<exists>r \<in> set (j_replicas j). r' = r \<or> r' = r\<lparr>r_handle := None\<rparr>) \<and>
    ((\<exists>r \<in> set (j_replicas j1). r_handle r \<noteq> None) \<longrightarrow>
       (\<exists>r \<in> set (j_replicas j1). r_handle r \<noteq> None \<and> res = Inr ([\<lparr>s_volumeId = r_volumeId r, s_mountPoint = r_mountPoint r\<rparr>], False)))"
proof -
  obtain rs w0 where d: "dropUnmounted (fv_id ` {v \<in> set (fl_volumes fleet). \<not> fv_isMounted v}) (j_replicas j) w = (rs, w0)" by fastforce
  note ds = dropUnmounted_spec [OF d]
  show ?thesis
  proof (cases "filter (\<lambda>r. r_handle r \<noteq> None) rs")
    case (Cons r rest)
    then have "r \<in> set rs" "r_handle r \<noteq> None" by (auto simp: filter_eq_Cons_iff)
    moreover have "j1 = j\<lparr>j_replicas := rs\<rparr>" "w1 = w0" "res = Inr ([\<lparr>s_volumeId = r_volumeId r, s_mountPoint = r_mountPoint r\<rparr>], False)"
      using assms(1) unfolding seedSources_def d prod.case Let_def Cons list.case by auto
    ultimately show ?thesis using ds by auto
  next
    case Nil
    then have none: "\<forall>r \<in> set rs. r_handle r = None" by (auto simp: filter_empty_conv)
    obtain x w2 where sc: "scanLoop (fl_volumes fleet) w0 = (x, w2)" by fastforce
    obtain found unr where x: "x = (found, unr)" by fastforce
    obtain r3 w3 where ml: "majorityLineage found w2 = (r3, w3)" by fastforce
    note f2 = scanLoop_reads [OF sc] and f3 = reads_same [OF reads_lineage ml]
    have "j1 = j\<lparr>j_replicas := rs\<rparr>" "w1 = w3"
      using assms(1) unfolding seedSources_def d prod.case Let_def Nil list.case sc x ml by (auto split: sum.splits prod.splits if_splits)
    then show ?thesis using ds f2 f3 none by auto
  qed
qed

text \<open>What the fleet reports is consistent: one mount point per volume, and each volume once.\<close>

definition fleet_ok :: "(nat \<Rightarrow> string) \<Rightarrow> fleet_view \<Rightarrow> bool" where
  "fleet_ok mnt fleet \<longleftrightarrow> distinct (map c_id (fl_writable fleet)) \<and> (\<forall>c \<in> set (fl_writable fleet). c_mountPoint c = mnt (c_id c))"

lemma journal_ok_flag [simp]: "journal_ok mnt H (j\<lparr>j_reelectionNeeded := e\<rparr>) w = journal_ok mnt H j w"
  by (simp add: journal_ok_def)

lemma journal_ok_Nil: "journal_ok mnt H j w \<Longrightarrow> journal_ok mnt [] j w"
  by (simp add: journal_ok_def acked_def)

lemma openSegments_no_replicas:
  "j_replicas j = [] \<Longrightarrow> openSegments [] j w = (res, w') \<Longrightarrow> \<exists>j'. res = Inr j' \<and> j_replicas j' = []"
  by (auto simp: openSegments_def returnE_def Let_def closeAll_def split: if_splits prod.splits)

lemma flush_no_replicas:
  assumes "j_replicas j = []" "flush cfg j w = (j', w')"
  shows "j_replicas j' = []"
  using assms by (auto simp: flush_def Let_def settleBatch_def split: if_splits prod.splits)

lemma flush_no_replicas_resolved:
  assumes "j_replicas j = []" "flush cfg j w = (j', w')"
  shows "j_resolved j' = j_resolved j"
  using assms by (auto simp: flush_def Let_def settleBatch_def reconfigure_def split: if_splits prod.splits)

lemma reconfigure_rest_ok:
  assumes ok: "journal_ok mnt H j w" and inj: "inj mnt" and fl: "fleet_ok mnt fleet" and pos: "0 < jc_replicas cfg"
    and sd: "seedSources fleet j w = (Inr (sources, amb), j1, w1)" and live: "H = [] \<or> (\<exists>r \<in> set (j_replicas j1). r_handle r \<noteq> None)"
    and lin: "lineageSegments sources w1 = (Inr lineage, w2)"
    and ad: "adoptEach sources lineage (chooseReplicas cfg (fl_writable fleet) (j_replicas j))
                 \<lparr>rb_kept = [], rb_adopted = [], rb_previous = j_replicas j1, rb_reelect = j_reelectionNeeded j1\<rparr> w2 = (b, w3)"
    and ins: "installReplicas sources b (j1\<lparr>j_reelectionNeeded := rb_reelect b\<rparr>) w3 = (j2, w4)"
  shows "journal_ok mnt H j2 w4 \<and> same_books j j2"
proof -
  let ?b0 = "\<lparr>rb_kept = [], rb_adopted = [], rb_previous = j_replicas j1, rb_reelect = j_reelectionNeeded j1\<rparr>"
  note ss = seedSources_spec [OF sd ok]
  note f2 = reads_same [OF reads_foreign(2) lin]
  have same: "jw_dirs w2 = jw_dirs w" "jw_fail w2 = jw_fail w" using ss f2 by simp_all
  have j1: "j1 = j\<lparr>j_replicas := j_replicas j1\<rparr>" using ss by blast
  have seg: "j_segment j1 = j_segment j" "j_pending j1 = j_pending j" "\<not> j_stopping j1" "same_books j j1"
    by (subst j1, use ok in \<open>simp add: journal_ok_def same_books_def\<close>)+
  have each: "\<exists>r \<in> set (j_replicas j). r' = r \<or> r' = r\<lparr>r_handle := None\<rparr>" if "r' \<in> set (j_replicas j1)" for r'
    using ss that by blast
  have okp: "set_ok mnt (j_replicas j1)"
  proof -
    have "r_mountPoint r' = mnt (r_volumeId r')" if "r' \<in> set (j_replicas j1)" for r'
      using each [OF that] ok by (auto simp: journal_ok_def set_ok_def)
    then show ?thesis using ss ok by (simp add: set_ok_def journal_ok_def)
  qed
  have sv: "serving w2 (j_segment j1) r" "subseq H (history w2 (r_mountPoint r) (j_segment j1))"
    if r: "r \<in> set (j_replicas j1)" "r_handle r \<noteq> None" for r
  proof -
    have "r \<in> set (j_replicas j)" using each [OF r(1)] r(2) by auto
    then have "serving w (j_segment j) r" "subseq H (history w (r_mountPoint r) (j_segment j))"
      using ok by (auto simp: journal_ok_def acked_def)
    then show "serving w2 (j_segment j1) r" "subseq H (history w2 (r_mountPoint r) (j_segment j1))"
      using history_frame [of w2 "r_mountPoint r" w] same(1) seg(1) by (simp_all add: serving_def)
  qed
  have h2: "honest w2" using ok same(2) by (auto simp: journal_ok_def intro: honest_cong)
  have r0: "rebuild_ok mnt H (j_segment j1) ?b0 w2"
  proof -
    have "\<forall>r \<in> set (j_replicas j1). r_handle r = None \<or> serving w2 (j_segment j1) r" using sv(1) by blast
    moreover have "acked H (filter (\<lambda>r. r_handle r \<noteq> None) (j_replicas j1)) w2 (j_segment j1)" using sv(2) by (simp add: acked_def)
    ultimately show ?thesis using h2 okp unfolding rebuild_ok_def by (simp add: set_ok_def [of mnt "[]"])
  qed
  have s0: "source_ok H sources ?b0" using ss live by (auto simp: source_ok_def)
  have ch: "set (chooseReplicas cfg (fl_writable fleet) (j_replicas j)) \<subseteq> set (fl_writable fleet)"
      "distinct (map c_id (chooseReplicas cfg (fl_writable fleet) (j_replicas j)))"
    using election_sound [of "fl_writable fleet" cfg "j_replicas j"] fl pos by (auto simp: fleet_ok_def)
  have "rebuild_ok mnt H (j_segment j1) b w3"
    by (rule adoptEach_ok [OF r0 s0 inj ad _ ch(2)]) (use ch(1) fl in \<open>auto simp: fleet_ok_def\<close>)
  then have "journal_ok mnt H j2 w4 \<and> same_books (j1\<lparr>j_reelectionNeeded := rb_reelect b\<rparr>) j2"
    using seg ok by (intro install_ok [OF _ inj _ ins]) (auto simp: journal_ok_def)
  then show ?thesis using seg(4) by (simp add: same_books_def)
qed

lemma reconfigureOnce_ok:
  assumes ok: "journal_ok mnt H j0 w0" and inj: "inj mnt" and fl: "fleet_ok mnt fleet" and pos: "0 < jc_replicas cfg"
    and run: "reconfigureOnce cfg fleet j0 w0 = ((e, j'), w')" "e = None \<or> j_replicas j0 = []"
  shows "\<exists>done. j_resolved j' = j_resolved j0 @ (if done then j_pending j0 else []) \<and> j_pending j' = [] \<and>
    (j_replicas j0 = [] \<longrightarrow> j_resolved j' = j_resolved j0) \<and>
    journal_ok mnt (if from_live cfg fleet j0 w0 then H @ (if done then map snd (j_pending j0) else []) else []) j' w'"
proof -
  let ?j = "j0\<lparr>j_reelectionNeeded := False\<rparr>"
  obtain j w where fs: "flush cfg ?j w0 = (j, w)" by fastforce
  have sel: "j_pending ?j = j_pending j0" "j_resolved ?j = j_resolved j0" by simp_all
  have okj: "journal_ok mnt H ?j w0" using ok by simp
  obtain dn where dn: "j_resolved j = j_resolved j0 @ (if dn then j_pending j0 else [])" "j_pending j = []"
      "journal_ok mnt (H @ (if dn then map snd (j_pending j0) else [])) j w"
    using flush_ok [OF okj inj fs, unfolded sel] by blast
  define H1 where "H1 = H @ (if dn then map snd (j_pending j0) else [])"
  have ok1: "journal_ok mnt H1 j w" using dn(3) by (simp add: H1_def)
  obtain res j1 w1 where sd: "seedSources fleet j w = (res, j1, w1)" by (metis prod_cases3)
  note ss = seedSources_spec [OF sd ok1]
  have fl_def: "from_live cfg fleet j0 w0 \<longleftrightarrow> (\<exists>r \<in> set (j_replicas j1). r_handle r \<noteq> None)"
    by (simp add: from_live_def fs sd)
  define H2 where "H2 = (if from_live cfg fleet j0 w0 then H1 else [])"
  have ok2: "journal_ok mnt H2 j w" using ok1 journal_ok_Nil by (auto simp: H2_def)
  have j1: "j1 = j\<lparr>j_replicas := j_replicas j1\<rparr>" using ss by blast
  have books: "j_resolved j1 = j_resolved j" "j_pending j1 = []" "\<not> j_stopping j1"
    by (subst j1, use ok1 dn in \<open>simp add: journal_ok_def\<close>)+
  have hon: "honest w1" using ok1 ss by (auto simp: journal_ok_def intro: honest_cong)
  have empty: "journal_ok mnt H2 (j1\<lparr>j_replicas := []\<rparr>) x" if "honest x" for x
    using that books by (simp add: journal_ok_def set_ok_def acked_def)
  have fin: ?thesis if "journal_ok mnt H2 j' w'" "j_resolved j' = j_resolved j" "j_pending j' = []"
    using that(1) [unfolded H2_def H1_def] that(2, 3) dn(1) flush_no_replicas_resolved [OF _ fs]
    by (intro exI [of _ dn] conjI) simp_all
  have noreps: "j_replicas j = []" if "j_replicas j0 = []"
    using flush_no_replicas [of ?j cfg w0 j w] fs that by simp
  have erred: "journal_ok mnt H2 j1 x" if "j_replicas j0 = []" "honest x" for x
  proof -
    have "j_replicas j1 = []" using ss noreps [OF that(1)] by simp
    then have "j1 = j1\<lparr>j_replicas := []\<rparr>" by simp
    then show ?thesis using empty [OF that(2)] by metis
  qed
  note run' = run(1) [unfolded reconfigureOnce_def fs prod.case Let_def sd]
  show ?thesis
  proof (cases res)
    case (Inl err)
    then have "e = Some err" "j' = j1" "w' = w1" using run' by simp_all
    then show ?thesis using run(2) erred hon books by (intro fin) auto
  next
    case (Inr sa)
    obtain sources amb where sa: "sa = (sources, amb)" by fastforce
    show ?thesis
    proof (cases amb)
      case True
      obtain rs2 w2 where cl: "closeEach (j_replicas j1) w1 = (rs2, w2)" by fastforce
      have "j' = j1\<lparr>j_replicas := []\<rparr>" "w' = w2" using run' Inr sa True by (auto simp: closeAll_def cl)
      moreover have "honest w2" using closeEach_spec [OF cl] hon by (auto intro: honest_cong)
      ultimately show ?thesis using empty books by (intro fin) auto
    next
      case False
      obtain r2 w2 where l: "lineageSegments sources w1 = (r2, w2)" by fastforce
      show ?thesis
      proof (cases r2)
        case Inl': (Inl err)
        have "honest w2" using reads_same(2) [OF reads_foreign(2) l] hon by (auto intro: honest_cong)
        moreover have "e = Some err" "j' = j1" "w' = w2" using run' Inr sa False l Inl' by simp_all
        ultimately show ?thesis using run(2) erred books by (intro fin) auto
      next
        case Inr': (Inr lineage)
        let ?b0 = "\<lparr>rb_kept = [], rb_adopted = [], rb_previous = j_replicas j1, rb_reelect = j_reelectionNeeded j1\<rparr>"
        obtain b w3 where ad: "adoptEach sources lineage (chooseReplicas cfg (fl_writable fleet) (j_replicas j)) ?b0 w2 = (b, w3)" by fastforce
        obtain j2 w4 where ins: "installReplicas sources b (j1\<lparr>j_reelectionNeeded := rb_reelect b\<rparr>) w3 = (j2, w4)" by fastforce
        have out: "j' = j2" "w' = w4" using run' Inr sa False l Inr' ad ins by simp_all
        have live: "H2 = [] \<or> (\<exists>r \<in> set (j_replicas j1). r_handle r \<noteq> None)" using fl_def by (auto simp: H2_def)
        have "journal_ok mnt H2 j2 w4 \<and> same_books j j2"
          using reconfigure_rest_ok [OF ok2 inj fl pos _ live l [unfolded Inr'] ad ins] sd Inr sa by simp
        then show ?thesis using dn(2) by (intro fin) (auto simp: out same_books_def)
      qed
    qed
  qed
qed

section \<open>Acknowledged records\<close>

text \<open>
  Runs of the journal. \<open>k\<close> counts the promises that were resolved before the replica set was last elected without
  a replica in service; rebuilds that fail half-way are left out here.
\<close>

inductive journal_run :: "journal_config \<Rightarrow> (nat \<Rightarrow> string) \<Rightarrow> journal \<Rightarrow> jworld \<Rightarrow> nat \<Rightarrow> bool" for cfg mnt where
  started: "honest w \<Longrightarrow> fleet_ok mnt fleet \<Longrightarrow> start_journal cfg fleet new_journal w = ((None, j'), w') \<Longrightarrow>
    journal_run cfg mnt j' w' 0"
| appended: "journal_run cfg mnt j w k \<Longrightarrow> j_reconfiguring j = 0 \<Longrightarrow> fleet_ok mnt fleet \<Longrightarrow>
    append_record cfg fleet t r j w = ((res, j'), w') \<Longrightarrow>
    journal_run cfg mnt j' w' (if j_replicas j = [] then length (j_resolved j) else k)"
| flushed: "journal_run cfg mnt j w k \<Longrightarrow> flush cfg j w = (j', w') \<Longrightarrow> journal_run cfg mnt j' w' k"
| requested: "journal_run cfg mnt j w k \<Longrightarrow> journal_run cfg mnt (reconfigure j) w k"
| rebuilt: "journal_run cfg mnt j w k \<Longrightarrow> fleet_ok mnt fleet \<Longrightarrow> run_rebuild cfg fleet j w = ((None, j'), w') \<Longrightarrow>
    journal_run cfg mnt j' w' (if from_live cfg fleet j w then k else length (j_resolved j'))"

definition run_ok :: "(nat \<Rightarrow> string) \<Rightarrow> journal \<Rightarrow> jworld \<Rightarrow> nat \<Rightarrow> bool" where
  "run_ok mnt j w k \<longleftrightarrow> k \<le> length (j_resolved j) \<and> journal_ok mnt (map snd (drop k (j_resolved j))) j w"

lemma run_ok_flush:
  assumes "run_ok mnt j w k" "inj mnt" "flush cfg j w = (j', w')"
  shows "run_ok mnt j' w' k"
proof -
  obtain dn where dn: "j_resolved j' = j_resolved j @ (if dn then j_pending j else [])"
      "journal_ok mnt (map snd (drop k (j_resolved j)) @ (if dn then map snd (j_pending j) else [])) j' w'"
    using flush_ok [OF _ assms(2, 3)] assms(1) unfolding run_ok_def by blast
  then show ?thesis using assms(1) by (cases dn) (auto simp: run_ok_def)
qed

lemma run_ok_rebuild:
  assumes "run_ok mnt j w k" "inj mnt" "fleet_ok mnt fleet" "0 < jc_replicas cfg" "run_rebuild cfg fleet j w = ((e, j'), w')"
    "e = None \<or> j_replicas j = []"
  shows "run_ok mnt j' w' (if from_live cfg fleet j w then k else length (j_resolved j'))"
proof -
  obtain e1 j1 w1 where r: "reconfigureOnce cfg fleet j w = ((e1, j1), w1)" by (metis prod.collapse)
  have out: "e = e1" "j' = j1\<lparr>j_reconfiguring := j_reconfiguring j1 - 1\<rparr>" "w' = w1" using assms(5) by (simp_all add: run_rebuild_def r)
  have ok: "journal_ok mnt (map snd (drop k (j_resolved j))) j w" using assms(1) by (simp add: run_ok_def)
  obtain dn where dn: "j_resolved j1 = j_resolved j @ (if dn then j_pending j else [])"
      "journal_ok mnt (if from_live cfg fleet j w then map snd (drop k (j_resolved j)) @ (if dn then map snd (j_pending j) else []) else []) j1 w1"
    using reconfigureOnce_ok [OF ok assms(2-4) r] assms(6) out(1) by blast
  have same: "journal_ok mnt X j' w' = journal_ok mnt X j1 w1" for X by (simp add: out journal_ok_def)
  show ?thesis
  proof (cases "from_live cfg fleet j w")
    case True
    then show ?thesis using dn assms(1) same by (cases dn) (auto simp: run_ok_def out(2))
  next
    case False
    then show ?thesis using dn(2) same by (simp add: run_ok_def)
  qed
qed

lemma run_ok_push:
  assumes "run_ok mnt j w k"
  shows "run_ok mnt (j\<lparr>j_pending := j_pending j @ [(t, record_line r)], j_flushTimer := b\<rparr>) w k"
    "run_ok mnt (j\<lparr>j_pending := j_pending j @ [(t, record_line r)]\<rparr>) w k"
  using assms record_line_is_line by (auto simp: run_ok_def journal_ok_def)

lemma from_live_empty: "j_replicas j = [] \<Longrightarrow> \<not> from_live cfg fleet j w"
proof -
  assume e: "j_replicas j = []"
  obtain j1 w1 where f: "flush cfg (j\<lparr>j_reelectionNeeded := False\<rparr>) w = (j1, w1)" by fastforce
  have n: "j_replicas j1 = []" using flush_no_replicas [OF _ f] e by simp
  show ?thesis unfolding from_live_def f
    by (auto simp: seedSources_def n Let_def split: prod.splits sum.splits if_splits)
qed

lemma run_ok_append:
  assumes "run_ok mnt j w k" "inj mnt" "fleet_ok mnt fleet" "0 < jc_replicas cfg" "append_record cfg fleet t r j w = ((res, j'), w')"
  shows "run_ok mnt j' w' (if j_replicas j = [] then length (j_resolved j) else k)"
proof -
  define k' where "k' = (if j_replicas j = [] then length (j_resolved j) else k)"
  have ok0: "run_ok mnt j w k'"
    using assms(1) journal_ok_Nil by (auto simp: run_ok_def k'_def)
  show ?thesis
  proof (cases "\<not> jc_enabled cfg \<or> \<not> j_started j")
    case True
    then show ?thesis using assms(5) ok0 by (auto simp: append_record_def k'_def)
  next
    case False
    obtain e j1 w1 where m: "(if j_replicas j = [] then run_rebuild cfg fleet (reconfigure j) w else ((None, j), w)) = ((e, j1), w1)"
      by (metis prod.collapse)
    have ok1: "run_ok mnt j1 w1 k'"
    proof (cases "j_replicas j = []")
      case True
      have "run_ok mnt (reconfigure j) w k'" using ok0 by (simp add: run_ok_def)
      from run_ok_rebuild [OF this assms(2-4)] m True from_live_empty [of "reconfigure j"]
      have l: "run_ok mnt j1 w1 (length (j_resolved j1))" by simp
      obtain e2 j2 w2 where r2: "reconfigureOnce cfg fleet (reconfigure j) w = ((e2, j2), w2)" by (metis prod.collapse)
      have okr: "journal_ok mnt (map snd (drop k' (j_resolved j))) (reconfigure j) w" using ok0 by (simp add: run_ok_def)
      have "j_resolved j2 = j_resolved j" using reconfigureOnce_ok [OF okr assms(2-4) r2] True by auto
      then have "j_resolved j1 = j_resolved j" using m True r2 by (auto simp: run_rebuild_def)
      then show ?thesis using l by (simp add: k'_def True)
    qed (use m ok0 in simp)
    note run = assms(5) [unfolded append_record_def m prod.case Let_def]
    have "run_ok mnt j' w' k'"
    proof (cases "j_replicas j1 = [] \<or> length (j_pending j1 @ [(t, record_line r)]) < jc_maxBatch cfg")
      case True
      then have "j' \<in> {j1, j1\<lparr>j_pending := j_pending j1 @ [(t, record_line r)], j_flushTimer := True\<rparr>} \<and> w' = w1"
        using run False by (auto split: if_splits)
      then show ?thesis using ok1 run_ok_push(1) [OF ok1, where t = t and r = r and b = True] by auto
    next
      case fl: False
      then have "flush cfg (j1\<lparr>j_pending := j_pending j1 @ [(t, record_line r)]\<rparr>) w1 = (j', w')"
        using run False by (auto split: if_splits prod.splits)
      then show ?thesis by (rule run_ok_flush [OF run_ok_push(2) [OF ok1] assms(2)])
    qed
    then show ?thesis by (simp add: k'_def)
  qed
qed

lemma journal_run_ok:
  assumes "journal_run cfg mnt j w k" "inj mnt" "0 < jc_replicas cfg"
  shows "run_ok mnt j w k"
  using assms(1)
proof induction
  case (started w fleet j' w')
  have new: "run_ok mnt (reconfigure (new_journal\<lparr>j_stopping := False\<rparr>)) w 0"
    using started(1) by (simp add: run_ok_def journal_ok_def new_journal_def set_ok_def acked_def reconfigure_def)
  show ?case
  proof (cases "jc_enabled cfg")
    case False
    then show ?thesis using started new by (auto simp: start_journal_def run_ok_def journal_ok_def new_journal_def reconfigure_def)
  next
    case True
    obtain e j1 w1 where r: "run_rebuild cfg fleet (reconfigure (new_journal\<lparr>j_stopping := False\<rparr>)) w = ((e, j1), w1)" by (metis prod.collapse)
    have e: "e = None" "j' = j1\<lparr>j_started := True\<rparr>" "w' = w1" using started(3) True r by (auto simp: start_journal_def split: option.splits)
    have "run_ok mnt j1 w1 (length (j_resolved j1))"
      using run_ok_rebuild [OF new assms(2) started(2) assms(3) r] from_live_empty [of "reconfigure (new_journal\<lparr>j_stopping := False\<rparr>)"] e
      by (simp add: new_journal_def)
    moreover have "j_resolved j1 = []"
    proof -
      obtain e2 j2 w2 where r2: "reconfigureOnce cfg fleet (reconfigure (new_journal\<lparr>j_stopping := False\<rparr>)) w = ((e2, j2), w2)" by (metis prod.collapse)
      have "journal_ok mnt [] (reconfigure (new_journal\<lparr>j_stopping := False\<rparr>)) w" using new journal_ok_Nil by (auto simp: run_ok_def)
      then have "j_resolved j2 = []" using reconfigureOnce_ok [OF _ assms(2) started(2) assms(3) r2] by (auto simp: new_journal_def)
      then show ?thesis using r r2 by (auto simp: run_rebuild_def)
    qed
    ultimately show ?thesis using e by (simp add: run_ok_def journal_ok_def)
  qed
next
  case (appended j w k fleet t r res j' w')
  then show ?case by (intro run_ok_append [OF _ assms(2) _ assms(3)])
next
  case (flushed j w k j' w')
  show ?case by (rule run_ok_flush [OF flushed.IH assms(2) flushed.hyps(2)])
next
  case (requested j w k)
  then show ?case by (simp add: run_ok_def)
next
  case (rebuilt j w k fleet j' w')
  then show ?case using run_ok_rebuild [OF _ assms(2) _ assms(3)] by blast
qed


definition tiny_config :: journal_config where
  "tiny_config = \<lparr>jc_enabled = True, jc_replicas = 2, jc_maxBatch = 1, jc_segmentBytes = 1000\<rparr>"

definition two_mounts :: "nat \<Rightarrow> string" where
  "two_mounts i = (if i = 1 then ''a'' else if i = 2 then ''b'' else replicate (i + 3) (CHR ''x''))"

lemma inj_two_mounts: "inj two_mounts"
proof (rule injI)
  fix x y assume e: "two_mounts x = two_mounts y"
  have l: "length (two_mounts i) = (if i = 1 \<or> i = 2 then 1 else i + 3)" for i by (simp add: two_mounts_def)
  show "x = y" using e arg_cong [OF e, of length, unfolded l]
    by (cases "x = 1"; cases "x = 2"; cases "y = 1"; cases "y = 2") (simp_all add: two_mounts_def)
qed

definition tiny_append :: "journal_config \<Rightarrow> (append_result \<times> journal) \<times> jworld" where
  "tiny_append cfg = (case start_journal cfg two_volumes new_journal (two_disks [] []) of
     ((_, j), w) \<Rightarrow> append_record cfg two_volumes 7 (DelRecord ''t'' ''x'') j w)"

lemma tiny_appended:
  "fst (fst (start_journal tiny_config two_volumes new_journal (two_disks [] []))) = None"
  "j_reconfiguring (snd (fst (start_journal tiny_config two_volumes new_journal (two_disks [] [])))) = 0"
  "j_replicas (snd (fst (start_journal tiny_config two_volumes new_journal (two_disks [] [])))) \<noteq> []"
  "j_resolved (snd (fst (tiny_append tiny_config))) = [(7, record_line (DelRecord ''t'' ''x''))]"
  "map r_mountPoint (j_replicas (snd (fst (tiny_append tiny_config)))) = [''a'', ''b'']"
  by code_simp+


section \<open>A rejected batch\<close>

lemma rotate_books: "rotateIfNeeded cfg j w = (j', w') \<Longrightarrow> j_resolved j' = j_resolved j"
  by (auto simp: rotateIfNeeded_def openSegments_def closeAll_def returnE_def Let_def split: if_splits prod.splits)

lemma truncateSegmentTo_works:
  assumes "truncateSegmentTo m f n w = (r, w')" "\<forall>k. jw_fail w Open k = None \<and> jw_fail w Stat k = None \<and> jw_fail w Truncate k = None"
    "jfile w m f = Some b"
  shows "jfile w' m f = Some (take n b)"
proof -
  have s: "jfile w'' m f = jfile w0 m f" if "call c w0 = (x, w'')" for c w0 x w'' using that by (auto simp: call_def)
  show ?thesis using assms
    by (auto simp: truncateSegmentTo_def catchE_def bindE_def fs_open_def fs_content_def call_def returnE_def throwE_def
        finallyE_def fs_stat_def fs_truncate_def split: option.splits if_splits sum.splits prod.splits)
qed

lemma rollBackEach_works:
  assumes "honest w" "\<forall>k. jw_fail w Open k = None \<and> jw_fail w Stat k = None \<and> jw_fail w Truncate k = None"
    "distinct (map r_mountPoint rs)" "r \<in> set rs" "jfile w (r_mountPoint r) f = Some b"
  shows "jfile (rollBackEach f rs w) (r_mountPoint r) f = Some (take (r_bytes r) b)"
  using assms
proof (induction rs arbitrary: w)
  case (Cons q rs)
  obtain x w1 where t: "truncateSegmentTo (r_mountPoint q) f (r_bytes q) w = (x, w1)" by fastforce
  note c = truncateSegmentTo_cut [OF t honestD [OF Cons.prems(1)], unfolded cut_to_def]
  have h: "honest w1" using c Cons.prems(1) by (auto intro: honest_cong)
  show ?case
  proof (cases "r = q")
    case True
    have "r_mountPoint q \<notin> r_mountPoint ` set rs" using Cons.prems(3) by simp
    then show ?thesis using truncateSegmentTo_works [OF t Cons.prems(2)] Cons.prems(5) True rollBackEach_keeps [OF h, of f rs] by (simp add: t)
  next
    case False
    then have r: "r \<in> set rs" "r_mountPoint r \<noteq> r_mountPoint q" using Cons.prems(3, 4) by (auto simp: image_iff)
    then have "jfile w1 (r_mountPoint r) f = Some b" using c Cons.prems(5) by auto
    then show ?thesis using Cons.IH [OF h _ _ r(1)] Cons.prems(2, 3) c by (simp add: t)
  qed
qed simp

text \<open>
  C32. A batch that no replica acknowledged is rejected as a whole, to every caller waiting for it, no replica stays
  in the set, and once the roll-back's own calls succeed not one byte of it is left on any volume.
\<close>

theorem rejected_batch_leaves_nothing:
  assumes "journal_run cfg mnt j w k" "inj mnt" "0 < jc_replicas cfg" "flush cfg j w = (j', w')"
    and "j_rejected j' \<noteq> j_rejected j"
    and calls: "\<forall>k. jw_fail w Open k = None \<and> jw_fail w Stat k = None \<and> jw_fail w Truncate k = None"
  shows "j_rejected j' = j_rejected j @ j_pending j \<and> j_resolved j' = j_resolved j \<and> j_replicas j' = [] \<and>
    (\<forall>m f. jfile w' m f = jfile w m f)"
proof -
  define batch where "batch = j_pending j"
  have jo: "journal_ok mnt (map snd (drop k (j_resolved j))) j w" using journal_run_ok [OF assms(1-3)] by (simp add: run_ok_def)
  then have ok: "honest w" "set_ok mnt (j_replicas j)" "\<forall>r \<in> set (j_replicas j). serving w (j_segment j) r" by (auto simp: journal_ok_def)
  obtain dn where dn: "j_resolved j' = j_resolved j @ (if dn then j_pending j else [])" "j_rejected j' = j_rejected j @ (if dn then [] else j_pending j)"
      "\<not> dn \<longrightarrow> j_replicas j' = [] \<or> j_pending j = []"
    using flush_ok [OF jo assms(2, 4)] by blast
  have ne: "j_pending j \<noteq> []" "\<not> dn" using dn(2) assms(5) by auto
  obtain out w1 where wr: "writeEach (concat (map snd batch)) (j_replicas j) w = (out, w1)" by fastforce
  note dis = set_ok_mounts [OF assms(2) ok(2)]
  note we = writeEach_spec [OF wr ok(3) dis]
  have w': "w' = rollBackEach (segment_file (j_segment j)) (j_replicas j) w1"
  proof -
    have all: "filter (\<lambda>r. r_handle r \<noteq> None) (j_replicas j) = j_replicas j" using ok(3) by (auto simp: filter_id_conv serving_def)
    show ?thesis
    proof (cases "\<exists>x \<in> set out. fst x = Durable")
      case True
      then have "j_resolved j' = j_resolved j @ batch"
        using assms(4) ne(1) wr rotate_books [of cfg] by (auto simp: flush_def Let_def settleBatch_def batch_def split: prod.splits)
      then show ?thesis using dn(1) ne by (simp add: batch_def)
    next
      case False
      then show ?thesis using assms(4) ne(1) wr all by (auto simp: flush_def Let_def settleBatch_def batch_def split: prod.splits)
    qed
  qed
  have h1: "honest w1" and c1: "\<forall>k. jw_fail w1 Open k = None \<and> jw_fail w1 Stat k = None \<and> jw_fail w1 Truncate k = None"
    using we ok(1) calls by (auto intro: honest_cong)
  have "jfile w' m f = jfile w m f" for m f
  proof (cases "m \<in> r_mountPoint ` set (j_replicas j) \<and> f = segment_file (j_segment j)")
    case False
    then show ?thesis using we rollBackEach_keeps [OF h1] unfolding w' by auto
  next
    case True
    then obtain r where r: "r \<in> set (j_replicas j)" "m = r_mountPoint r" by blast
    obtain i where i: "i < length (j_replicas j)" "r = j_replicas j ! i" using r(1) by (metis in_set_conv_nth)
    have "wrote (concat (map snd batch)) (j_segment j) r w (out ! i) w1" using we i by (simp add: list_all2_conv_all_nth)
    then obtain b part where b: "jfile w m f = Some b" "jfile w1 m f = Some (b @ part)" using True r(2) by (auto simp: wrote_def)
    have "r_bytes r = length b" using ok(3) r b True by (auto simp: serving_def)
    then show ?thesis using rollBackEach_works [OF h1 c1 dis r(1)] b r(2) True unfolding w' by simp
  qed
  then show ?thesis using dn ne by simp
qed

definition no_writes :: jworld where
  "no_writes = (two_disks [] [])\<lparr>jw_fail := \<lambda>c k. if c = Write then Some (plain_error ''EIO'') else None\<rparr>"

definition waiting_config :: journal_config where
  "waiting_config = tiny_config\<lparr>jc_maxBatch := 2\<rparr>"

definition waiting_append :: "(append_result \<times> journal) \<times> jworld" where
  "waiting_append = (case start_journal waiting_config two_volumes new_journal no_writes of
     ((_, j), w) \<Rightarrow> append_record waiting_config two_volumes 7 (DelRecord ''t'' ''x'') j w)"

lemma waiting_start:
  "fst (fst (start_journal waiting_config two_volumes new_journal no_writes)) = None"
  "j_reconfiguring (snd (fst (start_journal waiting_config two_volumes new_journal no_writes))) = 0"
  "j_replicas (snd (fst (start_journal waiting_config two_volumes new_journal no_writes))) \<noteq> []"
  "jw_fail (snd waiting_append) Open k = None"
  "jw_fail (snd waiting_append) Stat k = None"
  "jw_fail (snd waiting_append) Truncate k = None"
  by code_simp+

lemma waiting_flush:
  "map fst (j_rejected (fst (flush waiting_config (snd (fst waiting_append)) (snd waiting_append)))) = [7]"
  "j_rejected (snd (fst waiting_append)) = []"
  by code_simp+

theorem rejected_batch_leaves_nothing_witness:
  "jfile (snd (flush waiting_config (snd (fst waiting_append)) (snd waiting_append))) ''a'' ''000000.jsonl'' =
   jfile (snd waiting_append) ''a'' ''000000.jsonl''"
proof -
  obtain e j1 w1 where s: "start_journal waiting_config two_volumes new_journal no_writes = ((e, j1), w1)" by (metis prod.collapse)
  obtain q j2 w2 where a: "append_record waiting_config two_volumes 7 (DelRecord ''t'' ''x'') j1 w1 = ((q, j2), w2)" by (metis prod.collapse)
  have wa: "waiting_append = ((q, j2), w2)" by (simp add: waiting_append_def s a)
  obtain j3 w3 where f: "flush waiting_config j2 w2 = (j3, w3)" by fastforce
  note t = waiting_start [unfolded s wa fst_conv snd_conv]
  note u = waiting_flush [unfolded wa fst_conv snd_conv f]
  have pos: "0 < jc_replicas waiting_config" by (simp add: waiting_config_def tiny_config_def)
  have fl: "fleet_ok two_mounts two_volumes" by (simp add: fleet_ok_def two_volumes_def two_mounts_def)
  have h: "honest no_writes" by (simp add: honest_def no_writes_def)
  have "journal_run waiting_config two_mounts j1 w1 0"
    by (rule journal_run.started [OF h fl]) (use s t(1) in simp)
  from journal_run.appended [OF this t(2) fl a] t(3) have run: "journal_run waiting_config two_mounts j2 w2 0" by simp
  have "j_rejected j3 \<noteq> j_rejected j2" using u by auto
  then show ?thesis
    using rejected_batch_leaves_nothing [OF run inj_two_mounts pos f] t(4-6) by (simp add: wa f)
qed

section \<open>A rebuild that fails half-way\<close>

definition volume_gone :: fleet_view where
  "volume_gone = \<lparr>fl_writable = [\<lparr>c_id = 2, c_mountPoint = ''b'', c_busGroup = None\<rparr>],
     fl_volumes = [\<lparr>fv_id = 1, fv_mountPoint = Some ''a'', fv_isDeleted = False, fv_isMounted = False\<rparr>,
       \<lparr>fv_id = 2, fv_mountPoint = Some ''b'', fv_isDeleted = False, fv_isMounted = True\<rparr>]\<rparr>"

definition hole_config :: journal_config where
  "hole_config = tiny_config\<lparr>jc_segmentBytes := 1\<rparr>"

text \<open>Directory listings fail from the \<open>n\<close>-th call on.\<close>

definition late_failures :: "nat \<Rightarrow> jworld" where
  "late_failures n = (two_disks [] [])\<lparr>jw_fail := \<lambda>c k. if c = Readdir \<and> n \<le> k then Some (plain_error ''EIO'') else None\<rparr>"

text \<open>A start and one acknowledged record, then a fleet change whose rebuild fails, and one more record.\<close>

definition hole_start :: "(append_result \<times> journal) \<times> jworld" where
  "hole_start = (case start_journal hole_config two_volumes new_journal (late_failures 44) of ((_, j), w) \<Rightarrow>
     append_record hole_config two_volumes 1 (DelRecord ''t'' ''x'') j w)"

definition hole_run :: "(js_error option \<times> journal) \<times> jworld" where
  "hole_run =
    (case hole_start of ((_, j2), w2) \<Rightarrow>
     case onFleetChange hole_config volume_gone j2 w2 of ((e, j3), w3) \<Rightarrow>
     case append_record hole_config volume_gone 2 (DelRecord ''t'' ''y'') j3 w3 of ((_, j4), w4) \<Rightarrow> ((e, j4), w4))"

lemma hole_start_all:
  "case hole_start of ((_, j), w) \<Rightarrow>
     j = \<lparr>j_replicas = [\<lparr>r_volumeId = 1, r_mountPoint = ''a'', r_handle = Some (segment_file 1), r_bytes = 0\<rparr>,
       \<lparr>r_volumeId = 2, r_mountPoint = ''b'', r_handle = Some (segment_file 1), r_bytes = 0\<rparr>],
     j_segment = 1, j_started = True, j_stopping = False, j_pending = [], j_flushTimer = False, j_reconfiguring = 0,
     j_reelectionNeeded = False, j_resolved = [(1, record_line (DelRecord ''t'' ''x''))], j_rejected = [], j_published = [1, 2]\<rparr> \<and>
     jw_dirs w ''a'' = [(segment_file 0, record_line (DelRecord ''t'' ''x'')), (segment_file 1, [])] \<and>
     jw_dirs w ''b'' = [(segment_file 0, record_line (DelRecord ''t'' ''x'')), (segment_file 1, [])] \<and>
     jw_calls w = 44"
  by code_simp

lemma hole_start_fail:
  "jw_fail (snd hole_start) c k = (if c = Readdir \<and> 44 \<le> k then Some (plain_error ''EIO'') else None)"
  "jw_partial (snd hole_start) k = None"
  by code_simp+

lemmas hole_start_facts = hole_start_all [unfolded split_beta, THEN conjunct1]
lemmas hole_start_files = hole_start_all [unfolded split_beta, THEN conjunct2, THEN conjunct1]
  hole_start_all [unfolded split_beta, THEN conjunct2, THEN conjunct2, THEN conjunct1]
lemmas hole_start_calls = hole_start_all [unfolded split_beta, THEN conjunct2, THEN conjunct2, THEN conjunct2] hole_start_fail

lemma gone: "fv_id ` {v \<in> set (fl_volumes volume_gone). \<not> fv_isMounted v} = {1}"
proof -
  have "{v \<in> set (fl_volumes volume_gone). \<not> fv_isMounted v} = {hd (fl_volumes volume_gone)}" by (auto simp: volume_gone_def)
  then show ?thesis by (simp add: volume_gone_def)
qed

definition unplugged :: "replica list" where
  "unplugged = [\<lparr>r_volumeId = 1, r_mountPoint = ''a'', r_handle = None, r_bytes = 0\<rparr>,
     \<lparr>r_volumeId = 2, r_mountPoint = ''b'', r_handle = Some (segment_file 1), r_bytes = 0\<rparr>]"

lemma hole_seed:
  "seedSources volume_gone (reconfigure (snd (fst hole_start))) (snd hole_start) =
     (Inr ([\<lparr>s_volumeId = 2, s_mountPoint = ''b''\<rparr>], False), (reconfigure (snd (fst hole_start)))\<lparr>j_replicas := unplugged\<rparr>,
      (snd hole_start)\<lparr>jw_calls := 45\<rparr>)"
  unfolding seedSources_def gone
  by (simp add: hole_start_facts hole_start_calls reconfigure_def closeReplica_def call_def unplugged_def)

lemma hole_fleet_change:
  "onFleetChange hole_config volume_gone (snd (fst hole_start)) (snd hole_start) =
    ((Some (plain_error ''EIO''), (snd (fst hole_start))\<lparr>j_replicas := unplugged\<rparr>), (snd hole_start)\<lparr>jw_calls := 46\<rparr>)"
proof -
  have n: "(reconfigure (snd (fst hole_start)))\<lparr>j_reelectionNeeded := False\<rparr> = reconfigure (snd (fst hole_start))"
    by (simp add: hole_start_facts reconfigure_def)
  have f: "flush hole_config (reconfigure (snd (fst hole_start))) (snd hole_start) = (reconfigure (snd (fst hole_start)), snd hole_start)"
    by (simp add: hole_start_facts reconfigure_def flush_def)
  have l: "lineageSegments [\<lparr>s_volumeId = 2, s_mountPoint = ''b''\<rparr>] ((snd hole_start)\<lparr>jw_calls := 45\<rparr>) =
      (Inl (plain_error ''EIO''), (snd hole_start)\<lparr>jw_calls := 46\<rparr>)"
    by (simp add: hole_start_calls listSegments_def readdir_def catchE_def bindE_def call_def throwE_def)
  have o: "reconfigureOnce hole_config volume_gone (reconfigure (snd (fst hole_start))) (snd hole_start) =
      ((Some (plain_error ''EIO''), (reconfigure (snd (fst hole_start)))\<lparr>j_replicas := unplugged\<rparr>), (snd hole_start)\<lparr>jw_calls := 46\<rparr>)"
    unfolding reconfigureOnce_def n f prod.case hole_seed sum.case Let_def l by simp
  show ?thesis
    unfolding onFleetChange_def run_rebuild_def o by (simp add: hole_start_facts hole_config_def tiny_config_def reconfigure_def)
qed

lemma openReplica_fresh:
  assumes "jfile w m f = None" "r_handle r = None" "r_mountPoint r = m" "\<And>c k. c \<noteq> Readdir \<Longrightarrow> jw_fail w c k = None"
  shows "openReplica f r w = (Some (r\<lparr>r_handle := Some f, r_bytes := 0\<rparr>), set_file m f [] (w\<lparr>jw_calls := jw_calls w + 6\<rparr>))"
  using assms by (simp add: openReplica_def Let_def bindE_def call_def rollBackTornTail_def catchE_def fs_open_def fs_content_def
      enoent_def returnE_def fs_open_append_def fs_stat_def fsyncDirectory_def finallyE_def set_file_def update_conv')

definition hole_line :: bytes where
  "hole_line = record_line (DelRecord ''t'' ''y'')"

definition hole_written :: jworld where
  "hole_written = set_file ''b'' (segment_file 1) hole_line ((snd hole_start)\<lparr>jw_calls := 48\<rparr>)"

lemma hole_write:
  "writeEach hole_line unplugged ((snd hole_start)\<lparr>jw_calls := 46\<rparr>) =
    ([(Skipped, hd unplugged), (Durable, (last unplugged)\<lparr>r_bytes := length hole_line\<rparr>)], hole_written)"
  by (simp add: unplugged_def writeReplica_def bindE_def fs_append_def Let_def hole_start_files hole_start_calls call_def hole_written_def set_file_def)

definition hole_opened :: jworld where
  "hole_opened = set_file ''b'' (segment_file 2) [] (set_file ''a'' (segment_file 2) [] (hole_written\<lparr>jw_calls := 61\<rparr>))"

lemma hole_files:
  "jw_dirs hole_opened ''a'' = [(segment_file 0, record_line (DelRecord ''t'' ''x'')), (segment_file 1, []), (segment_file 2, [])]"
  "jw_dirs hole_opened ''b'' = [(segment_file 0, record_line (DelRecord ''t'' ''x'')), (segment_file 1, hole_line), (segment_file 2, [])]"
  by (simp_all add: hole_opened_def hole_written_def set_file_def hole_start_files)

lemma hole_rotate:
  assumes "j_replicas j = [hd unplugged, (last unplugged)\<lparr>r_bytes := length hole_line\<rparr>]" "j_segment j = 1" "\<not> j_stopping j"
  shows "rotateIfNeeded hole_config j hole_written =
    (j\<lparr>j_segment := 2, j_replicas := map (\<lambda>r. r\<lparr>r_handle := Some (segment_file 2), r_bytes := 0\<rparr>) unplugged\<rparr>, hole_opened)"
proof -
  have w: "jw_fail hole_written c k = (if c = Readdir \<and> 44 \<le> k then Some (plain_error ''EIO'') else None)" "jw_calls hole_written = 48"
    "jfile hole_written ''a'' (segment_file 2) = None" "jfile hole_written ''b'' (segment_file 2) = None" for c k
    by (simp_all add: hole_written_def set_file_def hole_start_calls hole_start_files)
  have o: "openReplica (segment_file 2) (hd unplugged) (hole_written\<lparr>jw_calls := 49\<rparr>) =
      (Some ((hd unplugged)\<lparr>r_handle := Some (segment_file 2), r_bytes := 0\<rparr>), set_file ''a'' (segment_file 2) [] (hole_written\<lparr>jw_calls := 55\<rparr>))"
    using openReplica_fresh [of "hole_written\<lparr>jw_calls := 49\<rparr>" "''a''" "segment_file 2" "hd unplugged"] w by (simp add: unplugged_def)
  let ?r = "\<lparr>r_volumeId = 2, r_mountPoint = ''b'', r_handle = None, r_bytes = length hole_line\<rparr>"
  have o': "openReplica (segment_file 2) ?r (set_file ''a'' (segment_file 2) [] (hole_written\<lparr>jw_calls := 55\<rparr>)) =
      (Some (?r\<lparr>r_handle := Some (segment_file 2), r_bytes := 0\<rparr>), hole_opened)"
    using openReplica_fresh [of "set_file ''a'' (segment_file 2) [] (hole_written\<lparr>jw_calls := 55\<rparr>)" "''b''" "segment_file 2" ?r] w
    by (simp add: hole_opened_def set_file_def)
  have l: "1 \<le> length hole_line" by (simp add: hole_line_def record_line_def)
  have d: "Suc (j_segment j) = 2" using assms(2) by simp
  let ?j = "j\<lparr>j_segment := 2, j_replicas := [hd unplugged, ?r]\<rparr>"
  have c: "closeAll (j\<lparr>j_segment := 2\<rparr>) hole_written = (?j, hole_written\<lparr>jw_calls := 49\<rparr>)"
    using assms w by (simp add: unplugged_def closeAll_def closeReplica_def call_def)
  have e: "openEach (segment_file 2) [hd unplugged, ?r] (hole_written\<lparr>jw_calls := 49\<rparr>) =
      (map (\<lambda>r. r\<lparr>r_handle := Some (segment_file 2), r_bytes := 0\<rparr>) unplugged, hole_opened)"
    by (simp only: openEach.simps o o' prod.case option.case) (simp add: unplugged_def)
  have p: "openSegments [] ?j (hole_written\<lparr>jw_calls := 49\<rparr>) =
      (Inr (j\<lparr>j_segment := 2, j_replicas := map (\<lambda>r. r\<lparr>r_handle := Some (segment_file 2), r_bytes := 0\<rparr>) unplugged\<rparr>), hole_opened)"
    using assms(3) e by (simp add: openSegments_def returnE_def Let_def) (simp add: unplugged_def)
  have full: "\<exists>r \<in> set (j_replicas j). r_handle r \<noteq> None \<and> jc_segmentBytes hole_config \<le> r_bytes r"
    using assms(1) l by (simp add: hole_config_def unplugged_def)
  show ?thesis using full unfolding rotateIfNeeded_def d c prod.case p sum.case by simp
qed

lemma hole_append:
  "append_record hole_config volume_gone 2 (DelRecord ''t'' ''y'') ((snd (fst hole_start))\<lparr>j_replicas := unplugged\<rparr>)
      ((snd hole_start)\<lparr>jw_calls := 46\<rparr>) =
    ((Queued, (snd (fst hole_start))\<lparr>j_resolved := j_resolved (snd (fst hole_start)) @ [(2, hole_line)], j_segment := 2,
        j_replicas := map (\<lambda>r. r\<lparr>r_handle := Some (segment_file 2), r_bytes := 0\<rparr>) unplugged\<rparr>), hole_opened)"
proof -
  let ?j = "(snd (fst hole_start))\<lparr>j_replicas := unplugged, j_pending := [(2, hole_line)]\<rparr>"
  have f: "flush hole_config ?j ((snd hole_start)\<lparr>jw_calls := 46\<rparr>) =
     ((snd (fst hole_start))\<lparr>j_resolved := j_resolved (snd (fst hole_start)) @ [(2, hole_line)], j_segment := 2,
        j_replicas := map (\<lambda>r. r\<lparr>r_handle := Some (segment_file 2), r_bytes := 0\<rparr>) unplugged\<rparr>, hole_opened)"
    by (simp add: flush_def Let_def hole_write settleBatch_def hole_rotate hole_start_facts)
  show ?thesis
    using f by (simp add: append_record_def hole_config_def tiny_config_def hole_start_facts unplugged_def hole_line_def)
qed

text \<open>
  There is a run in which records get lost from a replica. A rebuild that fails after it closed the handle of an unmounted volume
  leaves that replica in the set. It misses the next acknowledged batch, is reopened by the rotation that follows, and serves from then on with a
  hole in its history, although every record was acknowledged.
\<close>

theorem failed_rebuild_leaves_hole:
  "case hole_run of ((e, j), w) \<Rightarrow>
     e = Some (plain_error ''EIO'') \<and>
     map r_mountPoint (j_replicas j) = [''a'', ''b''] \<and> list_all (\<lambda>r. r_handle r \<noteq> None) (j_replicas j) \<and>
     map fst (j_resolved j) = [1, 2] \<and>
     history w ''b'' (j_segment j) = map snd (j_resolved j) \<and>
     history w ''a'' (j_segment j) = [snd (hd (j_resolved j))]"
proof -
  have one: "complete_lines (record_line r) = [record_line r]" for r
    using record_line_is_line [of r] by (rule complete_lines_line)
  have run: "hole_run = ((Some (plain_error ''EIO''), (snd (fst hole_start))\<lparr>j_resolved := j_resolved (snd (fst hole_start)) @ [(2, hole_line)], j_segment := 2,
        j_replicas := map (\<lambda>r. r\<lparr>r_handle := Some (segment_file 2), r_bytes := 0\<rparr>) unplugged\<rparr>), hole_opened)"
    by (simp add: hole_run_def split_beta hole_fleet_change hole_append)
  obtain l1 where l1: "record_line (DelRecord ''t'' ''x'') = l1" by blast
  have c: "complete_lines l1 = [l1]" "complete_lines hole_line = [hole_line]" unfolding l1 [symmetric] hole_line_def by (rule one)+
  have h: "history hole_opened ''a'' 2 = [l1]" "history hole_opened ''b'' 2 = [l1, hole_line]"
    by (simp_all add: history_def lines_at_def hole_files l1 c upt_rec)
  show ?thesis
    unfolding run by (simp add: hole_start_facts l1 h) (simp add: unplugged_def)
qed

end
