(* ===== verification/Object_Ids.thy ===== *)
theory Object_Ids
  imports Journal Slice_Ops
begin

text \<open>
  Object identifiers and the names of slice files (\<open>generateObjectId\<close> and \<open>isSliceFileName\<close> of
  \<^verbatim>\<open>lib/io/helpers.ts\<close>), with the hexadecimal form the rest of the program uses. The process-wide counter is
  explicit. Node's integer writes throw when a value is outside the signed range of its width. The lemmas show
  that identifiers of one process do not repeat within a cycle of the counter, that every second half of a
  cycle is refused, and that the names of slice files are recognised and taken apart exactly.
\<close>

section \<open>Identifiers\<close>

definition hostId :: "(bytes \<Rightarrow> bytes) \<Rightarrow> bytes \<Rightarrow> bytes" where
  "hostId md5 hostname = drop 13 (md5 hostname)"

definition objectIdPid :: "nat \<Rightarrow> nat" where
  "objectIdPid pid = pid mod 256"

definition out_of_range :: js_error where
  "out_of_range = coded_error ''ERR_OUT_OF_RANGE'' ''The value is out of range''"

text \<open>\<open>buf.writeIntBE(v, off, n)\<close> for a value that is not negative.\<close>

definition be_bytes :: "nat \<Rightarrow> nat \<Rightarrow> bytes" where
  "be_bytes n v = map (\<lambda>i. of_nat (v div 256 ^ (n - 1 - i))) [0..<n]"

definition writeIntBE :: "nat \<Rightarrow> nat \<Rightarrow> js_error + bytes" where
  "writeIntBE n v = (if v < 2 ^ (8 * n - 1) then Inr (be_bytes n v) else Inl out_of_range)"

text \<open>The identifier, or the exception of the write that is out of range, and the counter.\<close>

definition generateObjectId :: "(bytes \<Rightarrow> bytes) \<Rightarrow> bytes \<Rightarrow> nat \<Rightarrow> nat \<Rightarrow> nat \<Rightarrow> (js_error + bytes) \<times> nat" where
  "generateObjectId md5 hostname pid time objectIdCounter =
    (let counter = Suc objectIdCounter; objectIndex = counter mod 2 ^ 24 in
     (case writeIntBE 4 time of Inl e \<Rightarrow> Inl e
      | Inr t \<Rightarrow> (case writeIntBE 2 (objectIdPid pid) of Inl e \<Rightarrow> Inl e
        | Inr p \<Rightarrow> (case writeIntBE 3 objectIndex of Inl e \<Rightarrow> Inl e
          | Inr i \<Rightarrow> Inr (t @ hostId md5 hostname @ p @ i))), counter))"

text \<open>The identifiers of a process: one call at each of the given times.\<close>

fun generate_ids :: "(bytes \<Rightarrow> bytes) \<Rightarrow> bytes \<Rightarrow> nat \<Rightarrow> nat list \<Rightarrow> nat \<Rightarrow> (js_error + bytes) list" where
  "generate_ids md5 hostname pid [] c = []"
| "generate_ids md5 hostname pid (t # ts) c =
     (case generateObjectId md5 hostname pid t c of (r, c') \<Rightarrow> r # generate_ids md5 hostname pid ts c')"

section \<open>Hexadecimal\<close>

definition hex_nibble :: "nat \<Rightarrow> char" where
  "hex_nibble n = (if n < 10 then char_of (48 + n) else char_of (87 + n))"

definition nibble_of :: "char \<Rightarrow> nat option" where
  "nibble_of c = (let n = of_char c :: nat in
     if 48 \<le> n \<and> n \<le> 57 then Some (n - 48) else if 97 \<le> n \<and> n \<le> 102 then Some (n - 87)
     else if 65 \<le> n \<and> n \<le> 70 then Some (n - 55) else None)"

text \<open>\<open>buf.toString('hex')\<close> and \<open>Buffer.from(s, 'hex')\<close>; the latter stops at the first pair that is not hexadecimal.\<close>

definition to_hex :: "bytes \<Rightarrow> string" where
  "to_hex bs = concat (map (\<lambda>b. [hex_nibble (unat b div 16), hex_nibble (unat b mod 16)]) bs)"

fun from_hex :: "string \<Rightarrow> bytes" where
  "from_hex (a # b # cs) = (case (nibble_of a, nibble_of b) of
     (Some x, Some y) \<Rightarrow> of_nat (16 * x + y) # from_hex cs | _ \<Rightarrow> [])"
| "from_hex _ = []"

section \<open>Names of slice files\<close>

definition is_hex_lower :: "char \<Rightarrow> bool" where
  "is_hex_lower c \<longleftrightarrow> is_digit c \<or> (97::nat) \<le> of_char c \<and> (of_char c::nat) \<le> 102"

definition isSliceFileName :: "string \<Rightarrow> bool" where
  "isSliceFileName name \<longleftrightarrow> 24 \<le> length name \<and> list_all is_hex_lower (take 24 name) \<and>
     (case drop 24 name of [] \<Rightarrow> False | c # ds \<Rightarrow> c = CHR ''.'' \<and> ds \<noteq> [] \<and> list_all is_digit ds)"

section \<open>Reading numbers\<close>

definition is_space :: "char \<Rightarrow> bool" where
  "is_space c \<longleftrightarrow> (let n = of_char c :: nat in 9 \<le> n \<and> n \<le> 13 \<or> n = 32)"

definition digits_value :: "string \<Rightarrow> nat" where
  "digits_value ds = fold (\<lambda>c n. 10 * n + (of_char c - 48)) ds 0"

text \<open>\<open>Number.parseInt(s, 10)\<close>; \<open>None\<close> is \<open>NaN\<close>.\<close>

definition parseInt :: "string \<Rightarrow> int option" where
  "parseInt s =
    (let t = dropWhile is_space s;
         neg = (case t of c # _ \<Rightarrow> c = CHR ''-'' | [] \<Rightarrow> False);
         u = (case t of c # cs \<Rightarrow> if c = CHR ''-'' \<or> c = CHR ''+'' then cs else t | [] \<Rightarrow> []);
         ds = takeWhile is_digit u
     in if ds = [] then None else Some (if neg then - int (digits_value ds) else int (digits_value ds)))"

section \<open>Lemmas\<close>

lemma digit_not_space: "is_digit c \<Longrightarrow> \<not> is_space c"
  by (simp add: is_digit_def is_space_def Let_def)

lemma parseInt_decimal [simp]: "parseInt (decimal n) = Some (int n)"
proof -
  have d: "\<forall>c \<in> set (decimal n). is_digit c" using decimal_digits by blast
  obtain c cs where c: "decimal n = c # cs" using decimal_nonempty [of n] by (cases "decimal n") auto
  then have "is_digit c" using d by simp
  then have "\<not> is_space c" "c \<noteq> CHR ''-''" "c \<noteq> CHR ''+''" by (auto simp: digit_not_space is_digit_def)
  moreover have "takeWhile is_digit (decimal n) = decimal n" using d by simp
  moreover have "digits_value (decimal n) = n" using decimal_value [of n] by (simp add: digits_value_def)
  ultimately show ?thesis by (simp add: parseInt_def Let_def c)
qed

lemma nibble_cases: "n < 16 \<Longrightarrow> n = 0 \<or> n = 1 \<or> n = 2 \<or> n = 3 \<or> n = 4 \<or> n = 5 \<or> n = 6 \<or> n = 7 \<or> n = 8 \<or> n = 9 \<or> n = 10 \<or>
    n = 11 \<or> n = 12 \<or> n = 13 \<or> n = 14 \<or> n = (15::nat)"
  by arith

lemma nibble_of_hex [simp]: "n < 16 \<Longrightarrow> nibble_of (hex_nibble n) = Some n"
  by (drule nibble_cases) (auto simp: nibble_of_def hex_nibble_def)

lemma hex_nibble_lower: "n < 16 \<Longrightarrow> is_hex_lower (hex_nibble n)"
  by (drule nibble_cases) (auto simp: is_hex_lower_def is_digit_def hex_nibble_def)

lemma to_hex_simps [simp]: "to_hex [] = []"
  "to_hex (b # bs) = hex_nibble (unat b div 16) # hex_nibble (unat b mod 16) # to_hex bs"
  by (simp_all add: to_hex_def)

lemma byte_nibbles: "unat (b :: byte) div 16 < 16" "unat b mod 16 < 16" "of_nat (16 * (unat b div 16) + unat b mod 16) = b"
proof -
  have "unat b < 256" using unsigned_less [of b, where 'a = nat] by simp
  then show "unat b div 16 < 16" by (simp add: less_mult_imp_div_less)
qed simp_all

lemma from_hex_to_hex [simp]: "from_hex (to_hex bs) = bs"
  by (induction bs) (simp_all add: byte_nibbles del: of_nat_add of_nat_mult)

lemma length_to_hex [simp]: "length (to_hex bs) = 2 * length bs"
  by (induction bs) simp_all

lemma to_hex_lower: "list_all is_hex_lower (to_hex bs)"
  by (induction bs) (simp_all add: hex_nibble_lower byte_nibbles)

lemma length_be_bytes [simp]: "length (be_bytes n v) = n"
  by (simp add: be_bytes_def)

lemma be_bytes3: "be_bytes 3 v = [of_nat (v div 65536), of_nat (v div 256), of_nat v]"
  by (simp add: be_bytes_def upt_rec)

lemma be_bytes3_inj:
  assumes "be_bytes 3 u = be_bytes 3 v" "u < 2 ^ 24" "v < 2 ^ 24"
  shows "u = v"
proof -
  have e: "(of_nat x :: byte) = of_nat y \<longleftrightarrow> x mod 256 = y mod 256" for x y
    by (simp add: word_of_nat_eq_iff take_bit_eq_mod)
  have "u div 65536 mod 256 = v div 65536 mod 256" "u div 256 mod 256 = v div 256 mod 256" "u mod 256 = v mod 256"
    using assms(1) by (simp_all add: be_bytes3 e)
  moreover have "x = 65536 * (x div 65536 mod 256) + 256 * (x div 256 mod 256) + x mod 256" if "x < 2 ^ 24" for x :: nat
  proof -
    have "x div 65536 < 256" using that by (simp add: less_mult_imp_div_less)
    then have "x div 65536 mod 256 = x div 256 div 256" by (simp add: div_mult2_eq [symmetric])
    moreover have "x div 256 = 256 * (x div 256 div 256) + x div 256 mod 256" "x = 256 * (x div 256) + x mod 256" by simp_all
    ultimately show ?thesis by linarith
  qed
  ultimately show ?thesis using assms(2, 3) by metis
qed

lemma generate_Inr:
  "fst (generateObjectId md5 h pid t c) = Inr x \<longleftrightarrow>
     t < 2 ^ 31 \<and> Suc c mod 2 ^ 24 < 2 ^ 23 \<and> x = be_bytes 4 t @ hostId md5 h @ be_bytes 2 (objectIdPid pid) @ be_bytes 3 (Suc c mod 2 ^ 24)"
proof -
  have "objectIdPid pid < 2 ^ 15" by (simp add: objectIdPid_def order_less_trans [of _ 256])
  then show ?thesis by (auto simp: generateObjectId_def Let_def writeIntBE_def split: sum.splits if_splits)
qed

lemma generate_counter [simp]: "snd (generateObjectId md5 h pid t c) = Suc c"
  by (simp add: generateObjectId_def Let_def)

lemma generate_ids_nth:
  "k < length ts \<Longrightarrow> generate_ids md5 h pid ts c ! k = fst (generateObjectId md5 h pid (ts ! k) (c + k))"
proof (induction ts arbitrary: c k)
  case (Cons t ts)
  then show ?case by (cases k) (simp_all add: split_beta)
qed simp

lemma length_generate_ids [simp]: "length (generate_ids md5 h pid ts c) = length ts"
  by (induction ts arbitrary: c) (simp_all add: split_beta)

lemma cycle_inj:
  assumes "j < k" "k < j + n" "Suc j mod n = Suc k mod n"
  shows False
proof -
  have "n dvd Suc k - Suc j" using assms(1, 3) by (metis mod_eq_dvd_iff_nat Suc_le_mono less_imp_le)
  then show False using assms(1, 2) by (auto dest: dvd_imp_le)
qed

text \<open>
  Object identifiers of one process do not repeat within a cycle of its counter, whatever the clock does: of
  any \<open>2^24\<close> or fewer consecutive calls, no two return the same identifier.
\<close>

theorem generated_ids_unique:
  assumes "length ts \<le> 2 ^ 24" "j < length ts" "k < length ts" "j \<noteq> k"
    and "generate_ids md5 h pid ts c ! j = Inr a" "generate_ids md5 h pid ts c ! k = Inr b"
  shows "a \<noteq> b"
proof
  assume "a = b"
  have g: "fst (generateObjectId md5 h pid (ts ! j) (c + j)) = Inr a" "fst (generateObjectId md5 h pid (ts ! k) (c + k)) = Inr a"
    using assms \<open>a = b\<close> by (simp_all add: generate_ids_nth)
  have "be_bytes 3 (Suc (c + j) mod 2 ^ 24) = be_bytes 3 (Suc (c + k) mod 2 ^ 24)"
    using g unfolding generate_Inr by auto
  then have "Suc (c + j) mod 2 ^ 24 = Suc (c + k) mod 2 ^ 24" by (rule be_bytes3_inj) simp_all
  then show False
    using cycle_inj [of "c + j" "c + k" "2 ^ 24"] cycle_inj [of "c + k" "c + j" "2 ^ 24"] assms(1-4) by linarith
qed

theorem generated_ids_unique_witness:
  "projr (generate_ids (\<lambda>_. replicate 16 7) [] 9 [100, 100] 5 ! 0) \<noteq> projr (generate_ids (\<lambda>_. replicate 16 7) [] 9 [100, 100] 5 ! 1)"
proof (rule generated_ids_unique)
  let ?g = "generate_ids (\<lambda>_. replicate 16 7) [] 9 [100, 100] 5"
  show "?g ! 0 = Inr (projr (?g ! 0))" "?g ! 1 = Inr (projr (?g ! 1))"
    by (simp_all add: generateObjectId_def Let_def writeIntBE_def objectIdPid_def)
qed simp_all

text \<open>
  Of any \<open>2^24\<close> consecutive calls of \<open>generateObjectId\<close> half are refused: the index is masked to 24 bits but
  written as a signed 24-bit integer, so that the upper half of its range throws. Before the year 2038 that is
  the only way it fails; from then on every call throws.
\<close>

theorem half_of_ids_refused:
  "card {k \<in> {c..<c + 2 ^ 24}. \<exists>x. fst (generateObjectId md5 h pid time k) = Inr x} = (if time < 2 ^ 31 then 2 ^ 23 else 0)"
proof -
  let ?n = "2 ^ 24 :: nat"
  let ?f = "\<lambda>k. Suc k mod ?n"
  have inj: "inj_on ?f {c..<c + ?n}"
  proof (rule inj_onI)
    fix x y assume "x \<in> {c..<c + ?n}" "y \<in> {c..<c + ?n}" "?f x = ?f y"
    then show "x = y" using cycle_inj [of x y ?n] cycle_inj [of y x ?n] by force
  qed
  have "?f ` {c..<c + ?n} \<subseteq> {..<?n}" by auto
  moreover have "card (?f ` {c..<c + ?n}) = card {..<?n}" using card_image [OF inj] by simp
  ultimately have sur: "?f ` {c..<c + ?n} = {..<?n}" by (intro card_subset_eq) simp_all
  have "?f ` {k \<in> {c..<c + ?n}. ?f k < 2 ^ 23} = {..<2 ^ 23}"
  proof (intro equalityI subsetI)
    fix i :: nat assume i: "i \<in> {..<2 ^ 23}"
    then have "i \<in> ?f ` {c..<c + ?n}" unfolding sur by simp
    then show "i \<in> ?f ` {k \<in> {c..<c + ?n}. ?f k < 2 ^ 23}" using i by auto
  qed auto
  moreover have "inj_on ?f {k \<in> {c..<c + ?n}. ?f k < 2 ^ 23}" by (rule inj_on_subset [OF inj]) auto
  ultimately have "card {k \<in> {c..<c + ?n}. ?f k < 2 ^ 23} = 2 ^ 23" using card_image by fastforce
  then show ?thesis by (simp add: generate_Inr)
qed

lemma slice_name_parts:
  assumes "length idBuf = 12"
  shows "isSliceFileName (to_hex idBuf @ ''.'' @ decimal i)"
proof -
  have "list_all is_digit (decimal i)" using decimal_digits by (auto simp: list_all_iff)
  then show ?thesis using assms by (simp add: isSliceFileName_def to_hex_lower decimal_nonempty)
qed

text \<open>
  Every slice of an object is committed under a name that the volume scanners take for a slice file, and
  the names of different slices differ, of the same object or not. None of the recovery artifacts kept beside
  the slices has such a name.
\<close>

theorem slice_names_exact:
  assumes "length idBuf = 12" "length idBuf' = 12"
  shows "isSliceFileName (sl_fileName (new_slice r (to_hex idBuf) vid res hasRes pr)) \<and>
    (sl_fileName (new_slice r (to_hex idBuf) vid res hasRes pr) = sl_fileName (new_slice r' (to_hex idBuf') vid' res' hasRes' pr') \<longleftrightarrow>
      idBuf = idBuf' \<and> sr_sliceIndex r = sr_sliceIndex r') \<and>
    list_all (\<lambda>n. \<not> isSliceFileName n) [''.identity'', ''.tmp'', ''.bootstrap.json'', ''.journal'', ''000000.jsonl'']"
proof -
  have d: "decimal m = decimal n \<longleftrightarrow> m = n" for m n by (metis decimal_value)
  have h: "to_hex idBuf = to_hex idBuf' \<longleftrightarrow> idBuf = idBuf'" by (metis from_hex_to_hex)
  show ?thesis
    using slice_name_parts [OF assms(1), of "sr_sliceIndex r"] assms h d
    by (auto simp: new_slice_def isSliceFileName_def)
qed

theorem slice_names_exact_witness:
  "isSliceFileName (sl_fileName (new_slice \<lparr>sr_idBuf = replicate 12 171, sr_size = 1, sr_dataSliceCount = 2, sr_paritySliceCount = 1,
     sr_sliceIndex = 2, sr_chunkSize = 72\<rparr> (to_hex (replicate 12 171)) 1 0 False NormalPriority))"
  by (rule slice_names_exact [of _ "replicate 12 171", THEN conjunct1]) simp_all

end
