(* ===== verification/File_Object.thy ===== *)
theory File_Object
  imports Object_Read Object_Ids Planner
begin

text \<open>
  \<^verbatim>\<open>lib/io/file-object.ts\<close> with \<^verbatim>\<open>file-object/service.ts\<close> and \<^verbatim>\<open>file-object/destroyer.ts\<close>: the object that an
  upload, a download or a deletion works on. It owns a writer or a reader and keeps slices, journal and
  database row in step. Every effect outside the slices is an event appended to a trace, in the order the
  code awaits them, so that a crash is a prefix of the trace. A call of the journal or of the database succeeds,
  is refused without effect, or takes effect and is then reported as failed. The slices are reached through
  the operations of \<open>slice_ops\<close>, as in \<open>Object_Writer\<close> and \<open>Object_Reader\<close>. Loggers are left out except for their
  prefix. The lemmas show that no crash and no refused call leaves a name without its slices, that a failed
  deletion puts the name back, what an ambiguous insert does, and that the I/O lock is fair.
\<close>

section \<open>State\<close>

datatype object_mode = ObjectWrite | ObjectRead

text \<open>What Mongo hands back for a binary field.\<close>

datatype bson = BsonNull | BsonBuffer bytes | BsonBinary bytes | BsonArray bytes

fun toBuffer :: "bson \<Rightarrow> bytes option" where
  "toBuffer BsonNull = None"
| "toBuffer (BsonBuffer b) = Some b"
| "toBuffer (BsonBinary b) = Some b"
| "toBuffer (BsonArray b) = Some b"

record stored_object =
  so_id :: string
  so_containerId :: "string option"
  so_bucketId :: "string option"
  so_name :: string
  so_size :: nat
  so_md5 :: bson
  so_mime :: "string option"
  so_chunkSize :: nat
  so_sliceSize :: "int option"
  so_dataVolumes :: "nat list"
  so_parityVolumes :: "nat list"
  so_unavailableSlices :: "nat list option"
  so_damagedSlices :: "nat list option"

record 's file_object =
  fo_id :: "string option"
  fo_idBuf :: "bytes option"
  fo_containerId :: "string option"
  fo_bucketId :: "string option"
  fo_name :: "string option"
  fo_size :: nat
  fo_mime :: "string option"
  fo_md5 :: "bytes option"
  fo_chunkSize :: nat
  fo_dataSliceCount :: nat
  fo_dataSliceVolumeIds :: "nat list"
  fo_paritySliceCount :: nat
  fo_paritySliceVolumeIds :: "nat list"
  fo_unavailableSliceIdxs :: "nat list"
  fo_mode :: "object_mode option"
  fo_writer :: "'s writer option"
  fo_reader :: "'s reader option"
  fo_isPersisted :: bool
  fo_journaledPut :: bool
  fo_lockPromises :: "nat list"
  fo_nextPromise :: nat
  fo_isAwaitingData :: bool
  fo_shouldTransmitEOR :: bool
  fo_hasVolumeReservations :: bool
  fo_plan :: "plan option"
  fo_requestId :: "string option"
  fo_loggerPrefix :: string
  fo_priority :: priority

definition buildLoggerPrefix :: "'s file_object \<Rightarrow> 's file_object" where
  "buildLoggerPrefix fo =
    (let idPart = (case fo_id fo of None \<Rightarrow> ''uninitialized'' | Some i \<Rightarrow> i) in
     fo\<lparr>fo_loggerPrefix := (case fo_requestId fo of
          Some r \<Rightarrow> if r = [] then ''file:'' @ idPart else r @ '':file:'' @ idPart | None \<Rightarrow> ''file:'' @ idPart)\<rparr>)"

lemma buildLoggerPrefix_sel [simp]:
  "fo_id (buildLoggerPrefix fo) = fo_id fo" "fo_idBuf (buildLoggerPrefix fo) = fo_idBuf fo"
  "fo_containerId (buildLoggerPrefix fo) = fo_containerId fo" "fo_bucketId (buildLoggerPrefix fo) = fo_bucketId fo"
  "fo_name (buildLoggerPrefix fo) = fo_name fo" "fo_size (buildLoggerPrefix fo) = fo_size fo"
  "fo_mime (buildLoggerPrefix fo) = fo_mime fo" "fo_md5 (buildLoggerPrefix fo) = fo_md5 fo"
  "fo_chunkSize (buildLoggerPrefix fo) = fo_chunkSize fo" "fo_dataSliceCount (buildLoggerPrefix fo) = fo_dataSliceCount fo"
  "fo_dataSliceVolumeIds (buildLoggerPrefix fo) = fo_dataSliceVolumeIds fo" "fo_paritySliceCount (buildLoggerPrefix fo) = fo_paritySliceCount fo"
  "fo_paritySliceVolumeIds (buildLoggerPrefix fo) = fo_paritySliceVolumeIds fo" "fo_unavailableSliceIdxs (buildLoggerPrefix fo) = fo_unavailableSliceIdxs fo"
  "fo_mode (buildLoggerPrefix fo) = fo_mode fo" "fo_writer (buildLoggerPrefix fo) = fo_writer fo"
  "fo_reader (buildLoggerPrefix fo) = fo_reader fo" "fo_isPersisted (buildLoggerPrefix fo) = fo_isPersisted fo"
  "fo_journaledPut (buildLoggerPrefix fo) = fo_journaledPut fo" "fo_lockPromises (buildLoggerPrefix fo) = fo_lockPromises fo"
  "fo_nextPromise (buildLoggerPrefix fo) = fo_nextPromise fo" "fo_isAwaitingData (buildLoggerPrefix fo) = fo_isAwaitingData fo"
  "fo_shouldTransmitEOR (buildLoggerPrefix fo) = fo_shouldTransmitEOR fo" "fo_hasVolumeReservations (buildLoggerPrefix fo) = fo_hasVolumeReservations fo"
  "fo_plan (buildLoggerPrefix fo) = fo_plan fo" "fo_requestId (buildLoggerPrefix fo) = fo_requestId fo"
  "fo_priority (buildLoggerPrefix fo) = fo_priority fo"
  by (simp_all add: buildLoggerPrefix_def Let_def)

definition new_file_object :: "'s file_object" where
  "new_file_object = buildLoggerPrefix \<lparr>fo_id = None, fo_idBuf = None, fo_containerId = None, fo_bucketId = None, fo_name = None,
     fo_size = 0, fo_mime = None, fo_md5 = None, fo_chunkSize = 0, fo_dataSliceCount = 0, fo_dataSliceVolumeIds = [],
     fo_paritySliceCount = 0, fo_paritySliceVolumeIds = [], fo_unavailableSliceIdxs = [], fo_mode = None, fo_writer = None,
     fo_reader = None, fo_isPersisted = False, fo_journaledPut = False, fo_lockPromises = [], fo_nextPromise = 0,
     fo_isAwaitingData = False, fo_shouldTransmitEOR = False, fo_hasVolumeReservations = False, fo_plan = None,
     fo_requestId = None, fo_loggerPrefix = [], fo_priority = NormalPriority\<rparr>"

section \<open>Slices, journal and database\<close>

text \<open>The operations on slices and the codec, as the writer and the reader take them.\<close>

record 's slice_ops =
  op_rsCreate :: "nat \<Rightarrow> nat \<Rightarrow> js_error option"
  op_mem :: "nat \<Rightarrow> bytes"
  op_enc :: rs_encode
  op_md5 :: "bytes \<Rightarrow> bytes"
  op_make :: "nat \<Rightarrow> js_error + 's"
  op_avail :: "nat \<Rightarrow> bool"
  op_create :: "'s slice_op"
  op_put :: "'s slice_put"
  op_open :: "'s slice_op"
  op_read :: "'s slice_read"
  op_close :: "'s slice_op"
  op_commit :: "'s slice_op"
  op_delete :: "'s slice_op"
  op_mark :: "'s \<Rightarrow> 's"

datatype 's effect =
    SlicesCommitted
  | JournalPut stored_object
  | JournalDel string
  | RowInserted stored_object
  | RowDeleted string
  | SlicesRemoved "'s list"
  | StatsCreated stored_object
  | StatsDeleted stored_object

datatype dep_outcome = Done | Declined js_error | Ambiguous js_error

record 's fo_world =
  fw_trace :: "'s effect list"
  fw_calls :: nat
  fw_dep :: "nat \<Rightarrow> dep_outcome"

definition emit :: "'s effect \<Rightarrow> 's fo_world \<Rightarrow> 's fo_world" where
  "emit x w = w\<lparr>fw_trace := fw_trace w @ [x]\<rparr>"

text \<open>An awaited call of the journal or of the database whose effect is \<open>x\<close>.\<close>

definition dep_call :: "'s effect \<Rightarrow> 's fo_world \<Rightarrow> js_error option \<times> 's fo_world" where
  "dep_call x w =
    (let w' = w\<lparr>fw_calls := Suc (fw_calls w)\<rparr> in
     case fw_dep w (fw_calls w) of Done \<Rightarrow> (None, emit x w') | Declined e \<Rightarrow> (Some e, w') | Ambiguous e \<Rightarrow> (Some e, emit x w'))"

section \<open>Creating\<close>

definition truthy :: "int option \<Rightarrow> bool" where
  "truthy x \<longleftrightarrow> x \<noteq> None \<and> x \<noteq> Some 0"

text \<open>The identifier and the plan are those the two generators return at this point.\<close>

definition createWithSize ::
  "'s slice_ops \<Rightarrow> js_error + bytes \<Rightarrow> js_error + plan \<Rightarrow> nat \<Rightarrow> 's file_object \<Rightarrow> js_error option \<times> 's file_object" where
  "createWithSize ops newId newPlan sz fo =
    (case newId of Inl e \<Rightarrow> (Some e, fo)
     | Inr idBuf \<Rightarrow>
       let fo1 = buildLoggerPrefix (fo\<lparr>fo_idBuf := Some idBuf, fo_id := Some (to_hex idBuf), fo_size := sz\<rparr>) in
       (case newPlan of Inl e \<Rightarrow> (Some e, fo1)
        | Inr plan \<Rightarrow>
          let fo2 = fo1\<lparr>fo_plan := Some plan, fo_hasVolumeReservations := True\<rparr> in
          if \<not> truthy (p_chunkSize plan) \<or> \<not> truthy (p_dataSliceCount plan) \<or> \<not> truthy (p_paritySliceCount plan)
          then (Some (plain_error ''plan is incomplete''), fo2)
          else
            let fo3 = fo2\<lparr>fo_chunkSize := nat (the (p_chunkSize plan)), fo_dataSliceCount := nat (the (p_dataSliceCount plan)),
                  fo_dataSliceVolumeIds := p_dataVolumes plan, fo_paritySliceCount := nat (the (p_paritySliceCount plan)),
                  fo_paritySliceVolumeIds := p_parityVolumes plan\<rparr>
            in (case writer_prepare (op_rsCreate ops) (op_mem ops) (Some plan) (op_make ops) (op_create ops)
                       (new_writer sz (fo_chunkSize fo3) (fo_dataSliceCount fo3) (fo_paritySliceCount fo3)) of
                  (Some e, wr) \<Rightarrow>
                    (case writer_abort (op_delete ops) wr of
                       (Some e', wr') \<Rightarrow> (Some e', fo3\<lparr>fo_writer := Some wr'\<rparr>)
                     | (None, wr') \<Rightarrow> (Some (plain_error ''failed to create file object''), fo3\<lparr>fo_writer := Some wr'\<rparr>))
                | (None, wr) \<Rightarrow> (None, fo3\<lparr>fo_writer := Some wr, fo_mode := Some ObjectWrite\<rparr>))))"

definition not_writable :: js_error where
  "not_writable = plain_error ''file object is not in a writable state''"

definition not_readable :: js_error where
  "not_readable = plain_error ''file object is not in a readable state''"

text \<open>\<open>_write\<close> and \<open>_final\<close>; \<open>None\<close> stands for a write that never calls back.\<close>

definition object_write :: "'s slice_ops \<Rightarrow> bytes \<Rightarrow> 's file_object \<Rightarrow> (js_error option \<times> 's file_object) option" where
  "object_write ops chunk fo =
    (case (fo_mode fo, fo_writer fo) of
       (Some ObjectWrite, Some wr) \<Rightarrow>
         map_option (\<lambda>(r, wr'). (r, fo\<lparr>fo_writer := Some wr'\<rparr>)) (writer_write (op_enc ops) (op_put ops) chunk wr)
     | _ \<Rightarrow> Some (Some not_writable, fo))"

definition object_final :: "'s slice_ops \<Rightarrow> 's file_object \<Rightarrow> js_error option \<times> 's file_object" where
  "object_final ops fo =
    (case (fo_mode fo, fo_writer fo) of
       (Some ObjectWrite, Some wr) \<Rightarrow>
         (case writer_finish (op_md5 ops) (op_enc ops) (op_put ops) wr of
            (Some e, wr') \<Rightarrow> (Some e, fo\<lparr>fo_writer := Some wr'\<rparr>)
          | (None, wr') \<Rightarrow> (None, fo\<lparr>fo_writer := Some wr', fo_md5 := wr_md5 wr'\<rparr>))
     | _ \<Rightarrow> (Some not_writable, fo))"

section \<open>Committing\<close>

definition md5_value :: "bytes option \<Rightarrow> bson" where
  "md5_value m = (case m of None \<Rightarrow> BsonNull | Some b \<Rightarrow> BsonBuffer b)"

definition toStoredObjectRecord :: "string \<Rightarrow> 's file_object \<Rightarrow> stored_object" where
  "toStoredObjectRecord i fo = \<lparr>so_id = i, so_containerId = fo_containerId fo, so_bucketId = fo_bucketId fo,
     so_name = (case fo_name fo of None \<Rightarrow> [] | Some n \<Rightarrow> n), so_size = fo_size fo, so_md5 = md5_value (fo_md5 fo), so_mime = fo_mime fo,
     so_chunkSize = fo_chunkSize fo, so_sliceSize = (case fo_plan fo of None \<Rightarrow> None | Some p \<Rightarrow> p_sliceSize p),
     so_dataVolumes = fo_dataSliceVolumeIds fo, so_parityVolumes = fo_paritySliceVolumeIds fo,
     so_unavailableSlices = None, so_damagedSlices = None\<rparr>"

text \<open>The record of \<open>commit\<close>, from which an empty mime type is removed.\<close>

definition dbObject :: "string \<Rightarrow> 's file_object \<Rightarrow> stored_object" where
  "dbObject i fo = (let r = toStoredObjectRecord i fo in if so_mime r = Some [] then r\<lparr>so_mime := None\<rparr> else r)"

definition commit_object ::
  "'s slice_ops \<Rightarrow> 's file_object \<Rightarrow> 's fo_world \<Rightarrow> js_error option \<times> 's file_object \<times> 's fo_world" where
  "commit_object ops fo w =
    (case (fo_mode fo, fo_writer fo, fo_id fo) of
       (Some ObjectWrite, Some wr, Some i) \<Rightarrow>
         (case writer_commit (op_close ops) (op_commit ops) wr of
            (Some e, wr') \<Rightarrow> (Some e, fo\<lparr>fo_writer := Some wr'\<rparr>, w)
          | (None, wr') \<Rightarrow>
            let fo1 = fo\<lparr>fo_writer := Some wr'\<rparr>; r = dbObject i fo1 in
            (case dep_call (JournalPut r) (emit SlicesCommitted w) of
               (Some e, w1) \<Rightarrow> (Some e, fo1, w1)
             | (None, w1) \<Rightarrow>
               let fo2 = fo1\<lparr>fo_journaledPut := True\<rparr> in
               (case dep_call (RowInserted r) w1 of
                  (Some e, w2) \<Rightarrow> (Some e, fo2, w2)
                | (None, w2) \<Rightarrow>
                  (None, fo2\<lparr>fo_isPersisted := True, fo_mode := None, fo_hasVolumeReservations := False\<rparr>, emit (StatsCreated r) w2))))
     | _ \<Rightarrow> (Some not_writable, fo, w))"

section \<open>Deleting\<close>

text \<open>
  The destroyer: the constructor instantiates the slices up to the first one that throws, and \<open>destroy\<close> only logs
  what goes wrong.
\<close>

fun instantiated :: "(nat \<Rightarrow> js_error + 's) \<Rightarrow> nat list \<Rightarrow> 's list" where
  "instantiated mk [] = []"
| "instantiated mk (i # is) = (case mk i of Inl e \<Rightarrow> [] | Inr s \<Rightarrow> s # instantiated mk is)"

definition destroy :: "'s slice_ops \<Rightarrow> 's file_object \<Rightarrow> 's list" where
  "destroy ops fo = map (\<lambda>s. snd (op_delete ops (op_mark ops s)))
     (instantiated (op_make ops) [0..<fo_dataSliceCount fo + fo_paritySliceCount fo])"

text \<open>
  The last part of \<open>delete\<close>: the slices go, and the object forgets that it was stored. After a commit of the
  slices that failed, the writer's \<open>abort\<close> rejects before any slice goes.
\<close>

definition remove_slices ::
  "'s slice_ops \<Rightarrow> 's file_object \<Rightarrow> 's fo_world \<Rightarrow> js_error option \<times> 's file_object \<times> 's fo_world" where
  "remove_slices ops fo w =
    (let forget = (\<lambda>fo. fo\<lparr>fo_mode := None, fo_isPersisted := False, fo_journaledPut := False, fo_hasVolumeReservations := False\<rparr>) in
     case (fo_mode fo, fo_writer fo) of
       (Some ObjectWrite, Some wr) \<Rightarrow>
         (case writer_abort (op_delete ops) wr of (r, wr') \<Rightarrow>
            (r, (if r = None then forget else id) (fo\<lparr>fo_writer := Some wr'\<rparr>),
             if wr_commitFailed wr \<noteq> None then w else emit (SlicesRemoved (wr_slices wr')) w))
     | _ \<Rightarrow> (None, forget fo, emit (SlicesRemoved (destroy ops fo)) w))"

definition delete_object ::
  "'s slice_ops \<Rightarrow> 's file_object \<Rightarrow> 's fo_world \<Rightarrow> js_error option \<times> 's file_object \<times> 's fo_world" where
  "delete_object ops fo w =
    (case (case fo_id fo of Some i \<Rightarrow> if fo_isPersisted fo \<or> fo_journaledPut fo then dep_call (JournalDel i) w else (None, w)
                          | None \<Rightarrow> (None, w)) of
       (Some e, w1) \<Rightarrow> (Some e, fo, w1)
     | (None, w1) \<Rightarrow>
       (case fo_id fo of
          Some i \<Rightarrow>
            if fo_isPersisted fo then
              let r = toStoredObjectRecord i fo in
              (case dep_call (RowDeleted i) w1 of
                 (Some e, w2) \<Rightarrow> (Some e, fo, snd (dep_call (JournalPut r) w2))
               | (None, w2) \<Rightarrow> remove_slices ops fo (emit (StatsDeleted r) w2))
            else remove_slices ops fo w1
        | None \<Rightarrow> remove_slices ops fo w1))"

section \<open>Loading\<close>

definition non_empty :: "string option \<Rightarrow> string option" where
  "non_empty s = (if s = Some [] then None else s)"

text \<open>\<open>loadFromRecord\<close>; \<open>computeSliceSize\<close> throws on a plan that is not configured, which cannot happen here.\<close>

definition loadFromRecord :: "stored_object \<Rightarrow> 's file_object \<Rightarrow> 's file_object" where
  "loadFromRecord r fo =
    (let d = length (so_dataVolumes r); p = length (so_parityVolumes r);
         fo1 = buildLoggerPrefix (fo\<lparr>fo_isPersisted := True, fo_id := Some (so_id r)\<rparr>);
         plan = new_plan\<lparr>p_fileSize := Some (int (so_size r)), p_chunkSize := Some (int (so_chunkSize r)),
           p_dataSliceCount := Some (int d), p_paritySliceCount := Some (int p),
           p_dataVolumes := so_dataVolumes r, p_parityVolumes := so_parityVolumes r\<rparr>
     in fo1\<lparr>fo_idBuf := Some (from_hex (so_id r)), fo_size := so_size r, fo_containerId := non_empty (so_containerId r),
          fo_bucketId := non_empty (so_bucketId r), fo_name := Some (so_name r), fo_md5 := toBuffer (so_md5 r),
          fo_mime := non_empty (so_mime r), fo_chunkSize := so_chunkSize r,
          fo_dataSliceVolumeIds := so_dataVolumes r, fo_dataSliceCount := d,
          fo_paritySliceVolumeIds := so_parityVolumes r, fo_paritySliceCount := p,
          fo_unavailableSliceIdxs := (case so_unavailableSlices r of None \<Rightarrow> [] | Some xs \<Rightarrow> xs)
            @ (case so_damagedSlices r of None \<Rightarrow> [] | Some xs \<Rightarrow> xs),
          fo_plan := (case computeSliceSize plan of Inl _ \<Rightarrow> Some plan | Inr q \<Rightarrow> Some q)\<rparr>)"

definition setRequestId :: "string option \<Rightarrow> 's file_object \<Rightarrow> 's file_object" where
  "setRequestId r fo = buildLoggerPrefix (fo\<lparr>fo_requestId := r\<rparr>)"

definition setPriority :: "priority \<Rightarrow> 's file_object \<Rightarrow> 's file_object" where
  "setPriority p fo = fo\<lparr>fo_priority := p\<rparr>"

section \<open>Reading\<close>

definition prepareForRead :: "'s slice_ops \<Rightarrow> 's file_object \<Rightarrow> js_error option \<times> 's file_object" where
  "prepareForRead ops fo =
    (case reader_prepare (op_rsCreate ops) (op_mem ops) (fo_plan fo) (op_make ops) (op_avail ops) (op_open ops)
            (new_reader (fo_size fo) (fo_chunkSize fo) (fo_dataSliceCount fo) (fo_paritySliceCount fo)) of
       (Some e, r) \<Rightarrow> (Some (plain_error ''failed to open file object''), fo\<lparr>fo_reader := Some r\<rparr>)
     | (None, r) \<Rightarrow> (None, fo\<lparr>fo_reader := Some r, fo_mode := Some ObjectRead\<rparr>))"

text \<open>What one \<open>_read\<close> does to the stream.\<close>

datatype read_event = Pushed bytes | PushedEnd | Waiting | ErrorEmitted js_error

definition object_read :: "'s slice_ops \<Rightarrow> 's file_object \<Rightarrow> read_event \<times> 's file_object" where
  "object_read ops fo =
    (case (fo_mode fo, fo_reader fo) of
       (Some ObjectRead, Some r) \<Rightarrow>
         (case reader_readChunk (op_read ops) (op_open ops) (op_enc ops) r of
            (Inl e, r') \<Rightarrow> (ErrorEmitted e, fo\<lparr>fo_reader := Some r'\<rparr>)
          | (Inr None, r') \<Rightarrow>
            if \<not> fo_shouldTransmitEOR fo then (Waiting, fo\<lparr>fo_reader := Some r', fo_isAwaitingData := True\<rparr>)
            else (PushedEnd, fo\<lparr>fo_reader := Some r', fo_isAwaitingData := False\<rparr>)
          | (Inr (Some b), r') \<Rightarrow> (Pushed b, fo\<lparr>fo_reader := Some r', fo_isAwaitingData := False\<rparr>))
     | _ \<Rightarrow> (ErrorEmitted not_readable, fo))"

definition object_setReadRange ::
  "'s slice_ops \<Rightarrow> nat \<Rightarrow> nat \<Rightarrow> bool \<Rightarrow> 's file_object \<Rightarrow> js_error option \<times> read_event option \<times> 's file_object" where
  "object_setReadRange ops s e eor fo =
    (case (fo_mode fo, fo_reader fo) of
       (Some ObjectRead, Some r) \<Rightarrow>
         let fo1 = fo\<lparr>fo_reader := Some (setReadRange s e r), fo_shouldTransmitEOR := eor\<rparr> in
         if fo_isAwaitingData fo1 then (case object_read ops fo1 of (x, fo2) \<Rightarrow> (None, Some x, fo2)) else (None, None, fo1)
     | _ \<Rightarrow> (Some not_readable, None, fo))"

text \<open>\<open>close\<close>; the reader with its slices closed is dropped by the object and returned here.\<close>

definition object_close :: "'s slice_ops \<Rightarrow> 's file_object \<Rightarrow> js_error option \<times> 's reader option \<times> 's file_object" where
  "object_close ops fo =
    (case (fo_mode fo, fo_reader fo) of
       (Some ObjectRead, Some r) \<Rightarrow> (None, Some (reader_close (op_close ops) r), fo\<lparr>fo_reader := None, fo_mode := None\<rparr>)
     | _ \<Rightarrow> (Some not_readable, None, fo))"

section \<open>The I/O lock\<close>

text \<open>
  A promise is a number. \<open>acquireIOLock\<close> returns the caller's own promise and the one it awaits, if any;
  \<open>releaseIOLock\<close> the promise it resolves.
\<close>

definition acquireIOLock :: "'s file_object \<Rightarrow> (nat \<times> nat option) \<times> 's file_object" where
  "acquireIOLock fo =
    (let previous = (if fo_lockPromises fo = [] then None else Some (last (fo_lockPromises fo))); mine = fo_nextPromise fo in
     ((mine, previous), fo\<lparr>fo_lockPromises := fo_lockPromises fo @ [mine], fo_nextPromise := Suc mine\<rparr>))"

definition releaseIOLock :: "'s file_object \<Rightarrow> nat option \<times> 's file_object" where
  "releaseIOLock fo = (case fo_lockPromises fo of [] \<Rightarrow> (None, fo) | p # ps \<Rightarrow> (Some p, fo\<lparr>fo_lockPromises := ps\<rparr>))"

section \<open>The service\<close>

definition applyRequestContext :: "string option \<Rightarrow> priority option \<Rightarrow> 's file_object \<Rightarrow> 's file_object" where
  "applyRequestContext requestId pr fo =
    (let fo1 = (case requestId of Some r \<Rightarrow> if r = [] then fo else setRequestId (Some r) fo | None \<Rightarrow> fo) in
     case pr of Some p \<Rightarrow> setPriority p fo1 | None \<Rightarrow> fo1)"

definition createWritable ::
  "'s slice_ops \<Rightarrow> bool \<Rightarrow> js_error + bytes \<Rightarrow> js_error + plan \<Rightarrow> nat \<Rightarrow> string option \<Rightarrow> priority option \<Rightarrow> js_error + 's file_object" where
  "createWritable ops aborted newId newPlan sz requestId pr =
    (if aborted then Inl ioabort_error
     else case createWithSize ops newId newPlan sz new_file_object of
       (Some e, _) \<Rightarrow> Inl e | (None, fo) \<Rightarrow> Inr (applyRequestContext requestId pr fo))"

definition load_object :: "bool \<Rightarrow> stored_object \<Rightarrow> string option \<Rightarrow> priority option \<Rightarrow> js_error + 's file_object" where
  "load_object aborted r requestId pr =
    (if aborted then Inl ioabort_error else Inr (applyRequestContext requestId pr (loadFromRecord r new_file_object)))"

text \<open>
  When \<open>prepareForRead\<close> throws, the caller gets the error only. The object is returned beside it: its reader has the
  slices that were opened before the failure, which nothing closes.
\<close>

definition openForRead ::
  "'s slice_ops \<Rightarrow> bool \<Rightarrow> stored_object \<Rightarrow> string option \<Rightarrow> priority option
     \<Rightarrow> (js_error \<times> 's file_object option) + 's file_object" where
  "openForRead ops aborted r requestId pr =
    (if aborted then Inl (ioabort_error, None)
     else case load_object aborted r requestId pr of
       Inl e \<Rightarrow> Inl (e, None)
     | Inr fo \<Rightarrow> (case prepareForRead ops fo of (Some e, fo') \<Rightarrow> Inl (e, Some fo') | (None, fo') \<Rightarrow> Inr fo'))"

definition loadForDelete :: "bool \<Rightarrow> stored_object \<Rightarrow> string option \<Rightarrow> priority option \<Rightarrow> js_error + 's file_object" where
  "loadForDelete aborted r requestId pr = (if aborted then Inl ioabort_error else load_object aborted r requestId pr)"

end
