(* ===== verification/Object_Http.thy ===== *)
theory Object_Http
  imports File_Object
begin

text \<open>
  The object requests of the HTTP server (\<^verbatim>\<open>lib/server/http\<close>: \<open>object-put-request.ts\<close>, \<open>object-get-request.ts\<close>,
  \<open>object-delete-request.ts\<close>, \<open>object-head-request.ts\<close>, \<open>object-response-headers.ts\<close>). A request is its headers and the
  events of its body; a response is its status, headers and body. A stream delivers its chunks in order: the
  first failed write ends an upload, and a download pulls until the end of its range or an error. Headers have
  one value, and strings are taken as ASCII where the code changes their case.
  Numbers in headers are below 2^53.
\<close>

section \<open>Numbers in headers\<close>

definition parseNumberHeader :: "string option \<Rightarrow> int option" where
  "parseNumberHeader h = (case h of None \<Rightarrow> None | Some s \<Rightarrow> if s = [] then None else parseInt s)"

section \<open>Responses\<close>

record response =
  rs_status :: nat
  rs_headers :: "(string \<times> string) list"
  rs_body :: bytes
  rs_complete :: bool

definition ascii :: "string \<Rightarrow> bytes" where
  "ascii s = map (\<lambda>c. of_nat (of_char c)) s"

definition setHeader :: "string \<Rightarrow> string \<Rightarrow> (string \<times> string) list \<Rightarrow> (string \<times> string) list" where
  "setHeader k v hs = AList.update k v hs"

definition applyObjectIdentityHeaders :: "stored_object \<Rightarrow> (string \<times> string) list \<Rightarrow> (string \<times> string) list" where
  "applyObjectIdentityHeaders r hs =
    (let hs1 = setHeader ''X-Object-Id'' (so_id r) hs in
     case non_empty (so_containerId r) of None \<Rightarrow> hs1 | Some c \<Rightarrow> setHeader ''X-Container-Id'' c hs1)"

definition applyFileMetadataHeaders :: "stored_object \<Rightarrow> (string \<times> string) list \<Rightarrow> (string \<times> string) list" where
  "applyFileMetadataHeaders r hs =
    (let hs1 = (case toBuffer (so_md5 r) of None \<Rightarrow> hs | Some m \<Rightarrow> setHeader ''Content-MD5'' (to_hex m) hs) in
     case non_empty (so_mime r) of None \<Rightarrow> hs1 | Some m \<Rightarrow> setHeader ''Content-Type'' m hs1)"

fun join_with :: "string \<Rightarrow> string list \<Rightarrow> string" where
  "join_with s [] = []"
| "join_with s [x] = x"
| "join_with s (x # y # xs) = x @ s @ join_with s (y # xs)"

definition applySliceHeaders :: "stored_object \<Rightarrow> (string \<times> string) list \<Rightarrow> (string \<times> string) list" where
  "applySliceHeaders r hs =
     setHeader ''X-Chunk-Size'' (decimal (so_chunkSize r))
    (setHeader ''X-Parity-Slice-Volumes'' (join_with '','' (map decimal (so_parityVolumes r)))
    (setHeader ''X-Parity-Slice-Count'' (decimal (length (so_parityVolumes r)))
    (setHeader ''X-Data-Slice-Volumes'' (join_with '','' (map decimal (so_dataVolumes r)))
    (setHeader ''X-Data-Slice-Count'' (decimal (length (so_dataVolumes r))) hs))))"

definition lower :: "char \<Rightarrow> char" where
  "lower c = (let n = of_char c :: nat in if 65 \<le> n \<and> n \<le> 90 then char_of (n + 32) else c)"

definition trim :: "string \<Rightarrow> string" where
  "trim s = rev (dropWhile is_space (rev (dropWhile is_space s)))"

definition INLINE_SAFE :: "string list" where
  "INLINE_SAFE = [''image/png'', ''image/jpeg'', ''image/gif'', ''image/webp'', ''image/avif'', ''image/bmp'', ''image/x-icon'', ''image/tiff'']"

definition isInlineSafe :: "string option \<Rightarrow> bool" where
  "isInlineSafe mime = (case non_empty mime of None \<Rightarrow> False
     | Some m \<Rightarrow> let type = map lower (trim (takeWhile (\<lambda>c. c \<noteq> CHR '';'') m)) in
         type \<in> set INLINE_SAFE \<or> prefix ''video/'' type \<or> prefix ''audio/'' type \<or> type = ''application/octet-stream'')"

definition apostrophed :: "string \<Rightarrow> string" where
  "apostrophed s = [CHR 0x27] @ s @ [CHR 0x27]"

definition CSP_INERT_MEDIA :: string where
  "CSP_INERT_MEDIA = ''default-src '' @ apostrophed ''none'' @ ''; media-src '' @ apostrophed ''self'' @ ''; img-src '' @ apostrophed ''self''"

definition CSP_LOCKDOWN :: string where
  "CSP_LOCKDOWN = ''default-src '' @ apostrophed ''none'' @ ''; sandbox''"

definition applyObjectSecurityHeaders :: "stored_object \<Rightarrow> (string \<times> string) list \<Rightarrow> (string \<times> string) list" where
  "applyObjectSecurityHeaders r hs =
    (let hs1 = setHeader ''X-Content-Type-Options'' ''nosniff'' hs in
     if isInlineSafe (so_mime r) then setHeader ''Content-Security-Policy'' CSP_INERT_MEDIA hs1
     else let hs2 = setHeader ''Content-Security-Policy'' CSP_LOCKDOWN hs1 in
       if map_of hs2 ''Content-Disposition'' = None then setHeader ''Content-Disposition'' ''attachment'' hs2 else hs2)"

definition sanitizeDispositionFilename :: "string \<Rightarrow> string" where
  "sanitizeDispositionFilename name =
     take 255 (filter (\<lambda>c. 31 < (of_char c :: nat)) (filter (\<lambda>c. c \<notin> {CHR 0x0D, CHR 0x0A, CHR 0x22, CHR 0x5C}) name))"

definition quoted :: "string \<Rightarrow> string" where
  "quoted s = [CHR 0x22] @ s @ [CHR 0x22]"

section \<open>Uploads\<close>

datatype upload_event = UploadEnd | UploadAborted | UploadError js_error

record put_request =
  pr_url :: string
  pr_contentLength :: "string option"
  pr_contentMd5 :: "string option"
  pr_contentType :: "string option"
  pr_requestId :: string
  pr_chunks :: "bytes list"
  pr_end :: upload_event

text \<open>What the program outside the request decides: shutdown, the new identifier and plan, and the container of a path.\<close>

record put_env =
  pe_aborted :: bool
  pe_newId :: "js_error + bytes"
  pe_newPlan :: "js_error + plan"
  pe_container :: "string list \<Rightarrow> js_error + string option \<times> string option"

datatype 's upload = Uploaded "'s file_object" | LengthMismatch nat nat | ClientAborted | UploadFailed js_error

datatype put_result = Responded response | Threw js_error | Silent

fun receive_chunks :: "'s slice_ops \<Rightarrow> bytes list \<Rightarrow> 's file_object \<Rightarrow> (js_error option \<times> 's file_object) option" where
  "receive_chunks ops [] fo = Some (None, fo)"
| "receive_chunks ops (c # cs) fo =
     (case object_write ops c fo of
        None \<Rightarrow> None
      | Some (Some e, fo') \<Rightarrow> Some (Some e, fo')
      | Some (None, fo') \<Rightarrow> receive_chunks ops cs fo')"

text \<open>\<open>object.delete()\<close> where a failure is only logged.\<close>

definition discard :: "'s slice_ops \<Rightarrow> 's file_object \<Rightarrow> 's fo_world \<Rightarrow> 's file_object \<times> 's fo_world" where
  "discard ops fo w = snd (delete_object ops fo w)"

definition receiveUpload ::
  "'s slice_ops \<Rightarrow> put_env \<Rightarrow> put_request \<Rightarrow> nat \<Rightarrow> 's fo_world \<Rightarrow> ('s upload \<times> 's fo_world) option" where
  "receiveUpload ops env rq bytesExpected w =
    (case createWritable ops (pe_aborted env) (pe_newId env) (pe_newPlan env) bytesExpected (Some (''http-'' @ pr_requestId rq)) None of
       Inl e \<Rightarrow> Some (UploadFailed e, w)
     | Inr fo \<Rightarrow>
       (case receive_chunks ops (pr_chunks rq) fo of
          None \<Rightarrow> None
        | Some (Some e, fo1) \<Rightarrow> Some (UploadFailed e, snd (discard ops fo1 w))
        | Some (None, fo1) \<Rightarrow>
          (case pr_end rq of
             UploadAborted \<Rightarrow> Some (ClientAborted, snd (discard ops fo1 w))
           | UploadError e \<Rightarrow> Some (UploadFailed e, snd (discard ops fo1 w))
           | UploadEnd \<Rightarrow>
             let bytesReceived = sum_list (map length (pr_chunks rq)) in
             if bytesExpected \<noteq> bytesReceived then Some (LengthMismatch bytesExpected bytesReceived, snd (discard ops fo1 w))
             else (case object_final ops fo1 of
                 (Some e, fo2) \<Rightarrow> Some (UploadFailed e, snd (discard ops fo2 w))
               | (None, fo2) \<Rightarrow> Some (Uploaded fo2, w)))))"

fun split_on :: "char \<Rightarrow> string \<Rightarrow> string list" where
  "split_on d [] = [[]]"
| "split_on d (c # cs) = (if c = d then [] # split_on d cs else (case split_on d cs of [] \<Rightarrow> [[c]] | x # xs \<Rightarrow> (c # x) # xs))"

lemma split_on_free: "d \<notin> set xs \<Longrightarrow> split_on d xs = [xs]"
  by (induction xs) auto

lemma split_on_field: "d \<notin> set xs \<Longrightarrow> split_on d (xs @ d # ys) = xs # split_on d ys"
  by (induction xs) auto

definition extractPathComponents :: "string \<Rightarrow> string \<times> string list" where
  "extractPathComponents url =
    (let path = (case url of c # cs \<Rightarrow> if c = CHR ''/'' then cs else url | [] \<Rightarrow> []); cs = split_on (CHR ''/'') path in
     (last cs, butlast cs))"

definition created_response :: "'s file_object \<Rightarrow> string option \<Rightarrow> response" where
  "created_response fo md5Hex = \<lparr>rs_status = 201, rs_headers =
     [(''x-object-id'', case fo_id fo of None \<Rightarrow> [] | Some i \<Rightarrow> i), (''x-container-id'', case fo_containerId fo of None \<Rightarrow> [] | Some i \<Rightarrow> i)]
       @ (case md5Hex of None \<Rightarrow> [] | Some m \<Rightarrow> [(''content-md5'', m)]), rs_body = [], rs_complete = True\<rparr>"

definition plain_response :: "nat \<Rightarrow> (string \<times> string) list \<Rightarrow> string \<Rightarrow> response" where
  "plain_response n hs message = \<lparr>rs_status = n, rs_headers = hs, rs_body = ascii message, rs_complete = True\<rparr>"

definition finalizeUpload ::
  "'s slice_ops \<Rightarrow> put_env \<Rightarrow> put_request \<Rightarrow> 's file_object \<Rightarrow> 's fo_world \<Rightarrow> (js_error + response) \<times> 's file_object \<times> 's fo_world" where
  "finalizeUpload ops env rq fo w =
    (let md5Hex = map_option to_hex (fo_md5 fo) in
     if (case (non_empty (pr_contentMd5 rq), md5Hex) of (Some a, Some b) \<Rightarrow> b \<noteq> [] \<and> a \<noteq> b | _ \<Rightarrow> False)
     then (case delete_object ops fo w of (Some e, fo', w') \<Rightarrow> (Inl e, fo', w') | (None, fo', w') \<Rightarrow> (Inr (plain_response 456 [(''X-Received-MD5'', case md5Hex of None \<Rightarrow> [] | Some m \<Rightarrow> m)] ''MD5 mismatch''), fo', w'))
     else
       let fo1 = (case non_empty (pr_contentType rq) of None \<Rightarrow> fo | Some m \<Rightarrow> fo\<lparr>fo_mime := Some m\<rparr>) in
       (case extractPathComponents (pr_url rq) of (fileName, containerComponents) \<Rightarrow>
          if fileName = []
          then (case delete_object ops fo1 w of (Some e, fo', w') \<Rightarrow> (Inl e, fo', w')
                | (None, fo', w') \<Rightarrow> (Inl (plain_error ''missing file name''), fo', w'))
          else
            (case (if containerComponents = [] then Inr fo1
                   else map_sum id (\<lambda>(c, b). fo1\<lparr>fo_containerId := c, fo_bucketId := b\<rparr>) (pe_container env containerComponents)) of
               Inl e \<Rightarrow> (Inl e, fo1, w)
             | Inr fo2 \<Rightarrow>
               (case commit_object ops (fo2\<lparr>fo_name := Some fileName\<rparr>) w of
                  (Some e, fo3, w1) \<Rightarrow> (Inl e, fo3, w1)
                | (None, fo3, w1) \<Rightarrow> (Inr (created_response fo3 (if md5Hex = Some [] then None else md5Hex)), fo3, w1)))))"

definition process_put :: "'s slice_ops \<Rightarrow> put_env \<Rightarrow> put_request \<Rightarrow> 's fo_world \<Rightarrow> (put_result \<times> 's fo_world) option" where
  "process_put ops env rq w =
    (case parseNumberHeader (pr_contentLength rq) of
       None \<Rightarrow> Some (Responded (plain_response 400 [] ''Invalid Content-Length''), w)
     | Some n \<Rightarrow>
       if n \<le> 0 then Some (Responded (plain_response 400 [] ''Invalid Content-Length''), w)
       else
         (case receiveUpload ops env rq (nat n) w of
            None \<Rightarrow> None
          | Some (LengthMismatch a b, w1) \<Rightarrow> Some (Responded (plain_response 455
              [(''X-Received-Bytes'', decimal b), (''X-Expected-Bytes'', decimal a)] ''length mismatch''), w1)
          | Some (ClientAborted, w1) \<Rightarrow> Some (Silent, w1)
          | Some (UploadFailed e, w1) \<Rightarrow> Some (Threw e, w1)
          | Some (Uploaded fo, w1) \<Rightarrow>
            (case finalizeUpload ops env rq fo w1 of
               (Inr rsp, fo', w2) \<Rightarrow> Some (Responded rsp, w2)
             | (Inl e, fo', w2) \<Rightarrow> Some (Threw e, snd (discard ops fo' w2)))))"

section \<open>Downloads\<close>

definition cut_short :: bytes where
  "cut_short = [10, 10] @ ascii ''STRUBS encountered an error. transfer incomplete.''"

text \<open>Pulling the stream until it ends or fails.\<close>

partial_function (option) stream_all :: "'s slice_ops \<Rightarrow> 's file_object \<Rightarrow> ((js_error option \<times> bytes) \<times> 's file_object) option" where
  "stream_all ops fo =
    (case object_read ops fo of
       (ErrorEmitted e, fo1) \<Rightarrow> Some ((Some e, []), fo1)
     | (PushedEnd, fo1) \<Rightarrow> Some ((None, []), fo1)
     | (Waiting, fo1) \<Rightarrow> None
     | (Pushed b, fo1) \<Rightarrow> Option.bind (stream_all ops fo1) (\<lambda>((r, bs), fo2). Some ((r, b @ bs), fo2)))"

declare stream_all.simps [code]

definition strip_bytes :: "string \<Rightarrow> string" where
  "strip_bytes h = (case List.find (\<lambda>i. prefix ''bytes='' (drop i h)) [0..<length h] of None \<Rightarrow> h | Some i \<Rightarrow> take i h @ drop (i + 6) h)"

text \<open>The range of a \<open>Range\<close> header, or \<open>None\<close> when it is refused.\<close>

definition requested_range :: "string \<Rightarrow> nat \<Rightarrow> (nat \<times> nat) option" where
  "requested_range h sz =
    (let parts = split_on (CHR ''-'') (strip_bytes h);
         endStr = (case tl parts of [] \<Rightarrow> [] | x # _ \<Rightarrow> x);
         endValue = (if endStr = [] then None else parseInt endStr)
     in case parseInt (hd parts) of
          None \<Rightarrow> None
        | Some s \<Rightarrow>
          if s < 0 \<or> int sz \<le> s then None
          else let e = (case endValue of None \<Rightarrow> int sz | Some v \<Rightarrow> min (v + 1) (int sz)) in
            if e \<le> s then None else Some (nat s, nat e))"

record get_request =
  gr_range :: "string option"
  gr_downloadAs :: "string option"
  gr_requestId :: string

definition base_headers :: "stored_object \<Rightarrow> get_request \<Rightarrow> (string \<times> string) list" where
  "base_headers r rq =
    (let hs = setHeader ''Accept-Ranges'' ''bytes'' (applySliceHeaders r (applyFileMetadataHeaders r (applyObjectIdentityHeaders r [])));
         hs1 = (case non_empty (gr_downloadAs rq) of None \<Rightarrow> hs
                | Some d \<Rightarrow> setHeader ''Content-Disposition'' (''attachment; filename='' @ quoted (sanitizeDispositionFilename d)) hs)
     in applyObjectSecurityHeaders r hs1)"

text \<open>
  The response, with the file object as the request leaves it and the reader its close returned, if it was closed.
  After a read error the response is destroyed, and its close event closes the object.
\<close>

definition serve_range ::
  "'s slice_ops \<Rightarrow> nat \<Rightarrow> (string \<times> string) list \<Rightarrow> nat \<Rightarrow> nat \<Rightarrow> 's file_object \<Rightarrow> (response \<times> 's reader option \<times> 's file_object) option" where
  "serve_range ops status hs s e fo =
    (case object_setReadRange ops s e True fo of
       (Some err, _, fo1) \<Rightarrow> Some (\<lparr>rs_status = 500, rs_headers = hs, rs_body = cut_short, rs_complete = False\<rparr>, None, fo1)
     | (None, _, fo1) \<Rightarrow>
       (case stream_all ops fo1 of
          None \<Rightarrow> None
        | Some ((r, bs), fo2) \<Rightarrow>
          (case object_close ops fo2 of (_, rd, fo3) \<Rightarrow>
             Some (\<lparr>rs_status = status, rs_headers = hs, rs_body = bs @ (if r = None then [] else cut_short), rs_complete = (r = None)\<rparr>, rd, fo3))))"

text \<open>
  When the object cannot be opened the answer is 500, and what \<open>openForRead\<close> left behind (an object without a mode
  whose reader may have open slices) is returned as it is.
\<close>

definition process_get ::
  "'s slice_ops \<Rightarrow> bool \<Rightarrow> stored_object \<Rightarrow> get_request \<Rightarrow> (response \<times> 's reader option \<times> 's file_object option) option" where
  "process_get ops aborted r rq =
    (let hs = base_headers r rq in
     case openForRead ops aborted r (Some (''http-'' @ gr_requestId rq)) None of
       Inl (e, left) \<Rightarrow> Some (\<lparr>rs_status = 500, rs_headers = hs, rs_body = cut_short, rs_complete = False\<rparr>, None, left)
     | Inr fo \<Rightarrow>
       (case non_empty (gr_range rq) of
          None \<Rightarrow> map_option (\<lambda>(rsp, rd, fo'). (rsp, rd, Some fo'))
            (serve_range ops 200 (setHeader ''Content-Length'' (decimal (fo_size fo)) hs) 0 (fo_size fo) fo)
        | Some h \<Rightarrow>
          (case requested_range h (fo_size fo) of
             None \<Rightarrow> Some (\<lparr>rs_status = 416, rs_headers = hs, rs_body = [], rs_complete = True\<rparr>, None, Some fo)
           | Some (s, e) \<Rightarrow> map_option (\<lambda>(rsp, rd, fo'). (rsp, rd, Some fo'))
               (serve_range ops 206 (setHeader ''Content-Range'' (''bytes '' @ decimal s @ ''-'' @ decimal (e - 1) @ ''/'' @ decimal (fo_size fo))
                 (setHeader ''Content-Length'' (decimal (e - s)) hs)) s e fo))))"

section \<open>Deletions and HEAD\<close>

definition process_delete ::
  "'s slice_ops \<Rightarrow> bool \<Rightarrow> stored_object \<Rightarrow> string \<Rightarrow> 's fo_world \<Rightarrow> response \<times> 's fo_world" where
  "process_delete ops aborted r requestId w =
    (let hs = applySliceHeaders r (applyObjectIdentityHeaders r []);
         failed = \<lparr>rs_status = 500, rs_headers = hs, rs_body = [10, 10] @ ascii ''STRUBS encountered an error.'', rs_complete = False\<rparr>
     in case loadForDelete aborted r (Some (''http-'' @ requestId)) None of
       Inl e \<Rightarrow> (failed, w)
     | Inr fo \<Rightarrow> (case delete_object ops fo w of
         (Some e, fo', w') \<Rightarrow> (failed, w')
       | (None, fo', w') \<Rightarrow> (\<lparr>rs_status = 200, rs_headers = hs, rs_body = [], rs_complete = True\<rparr>, w')))"

definition process_head :: "bool \<Rightarrow> stored_object \<Rightarrow> response" where
  "process_head isContainer r =
    (let hs = applyObjectIdentityHeaders r [] in
     \<lparr>rs_status = 200, rs_headers = (if isContainer then setHeader ''X-Is-Container'' ''true'' hs
        else applyObjectSecurityHeaders r (applySliceHeaders r (applyFileMetadataHeaders r (setHeader ''Content-Length'' (decimal (so_size r)) hs)))),
      rs_body = [], rs_complete = True\<rparr>)"

end
