(* ===== verification/Writer_Frame.thy ===== *)
theory Writer_Frame
  imports Object_Writer
begin

text \<open>
  What the loops of the writer leave alone. \<open>write_frame\<close> is the interface of a property of writers that every
  slice write keeps and that only the writer's own fields decide; whatever has it survives the loops of
  \<open>_writeBuffer\<close> and \<open>write\<close>. It is interpreted for the books of an upload (its hash and its abort flag) and for
  what a slice write keeps of every slice.
\<close>

section \<open>The interface\<close>

lemma computeParity_more: "computeParity enc w = Inr w' \<Longrightarrow> base.more w' = base.more w"
  by (auto simp: computeParity_def Let_def split: sum.splits prod.splits)

lemma next_set_more: "next_set w = Inr w' \<Longrightarrow> base.more w' = base.more w"
  by (auto simp: next_set_def configureNextChunkGroup_def split: if_splits)

locale write_frame =
  fixes put :: "'s slice_put" and J :: "'s writer \<Rightarrow> bool"
  assumes queued: "queueSliceWrite put i d w = (r, w') \<Longrightarrow> J w \<Longrightarrow> J w'"
    and own_fields: "base.more w' = base.more w \<Longrightarrow> J w \<Longrightarrow> J w'"
begin

lemma data_slices: "writeDataSlices put w = (r, w') \<Longrightarrow> J w \<Longrightarrow> J w'"
proof (induction "Suc (b_dataSliceCount w) - b_chunkSetNextSliceIndex w" arbitrary: w rule: less_induct)
  case less
  show ?case
  proof (cases "b_chunkSetNextSliceOffset w \<le> b_chunkSetBufferPosition w \<and> b_chunkSetNextSliceIndex w \<le> b_dataSliceCount w")
    case False
    then show ?thesis using less.prems by (subst (asm) writeDataSlices.simps) (simp only: if_False, simp)
  next
    case True
    define i where "i = b_chunkSetNextSliceIndex w - 1"
    obtain q w1 where q: "queueSliceWrite put i (buf_slice (b_chunkSetBuffer w) (b_chunkDataSize w * i)
        (b_chunkDataSize w * b_chunkSetNextSliceIndex w)) w = (q, w1)" by fastforce
    have J1: "J w1" by (rule queued [OF q less.prems(2)])
    let ?w2 = "w1\<lparr>b_chunkSetNextSliceIndex := Suc (b_chunkSetNextSliceIndex w1),
      b_chunkSetNextSliceOffset := b_chunkSetNextSliceOffset w1 + b_chunkDataSize w\<rparr>"
    have J2: "J ?w2" by (rule own_fields [OF _ J1]) simp
    have n: "b_chunkSetNextSliceIndex w1 = b_chunkSetNextSliceIndex w" "b_dataSliceCount w1 = b_dataSliceCount w"
      using queueSliceWrite_frame [OF q] by auto
    show ?thesis
    proof (cases q)
      case None
      have "writeDataSlices put ?w2 = (r, w')"
        using less.prems(1) True q None by (subst (asm) writeDataSlices.simps) (simp add: Let_def i_def)
      then show ?thesis using less.hyps [of ?w2] J2 n True by (simp add: Suc_diff_le)
    next
      case (Some e)
      then show ?thesis using less.prems(1) True q J1 by (subst (asm) writeDataSlices.simps) (simp add: Let_def i_def)
    qed
  qed
qed

lemma parity_slices: "writeParitySlices put is w = (r, w') \<Longrightarrow> J w \<Longrightarrow> J w'"
proof (induction "is" arbitrary: w)
  case (Cons i "is")
  then show ?case by (auto simp: Let_def split: prod.splits option.splits intro: queued)
qed simp

lemma buffer: "writeBuffer enc put w = (r, w') \<Longrightarrow> J w \<Longrightarrow> J w'"
  unfolding writeBuffer_def computeAndWriteParity_def
  by (auto split: prod.splits option.splits if_splits sum.splits
      dest!: data_slices parity_slices computeParity_more next_set_more intro: own_fields)

lemma loop: "writeLoop enc put buf w = Some y \<Longrightarrow> J w \<Longrightarrow> J (snd y)"
proof -
  have "p = put \<longrightarrow> J w \<longrightarrow> J (snd y)" if "writeLoop enc p buf w = Some y" for p
  proof (rule writeLoop.raw_induct [OF _ that, of "\<lambda>enc p buf w y. p = put \<longrightarrow> J w \<longrightarrow> J (snd y)"], intro impI)
    fix f :: "rs_encode \<Rightarrow> 's slice_put \<Rightarrow> bytes \<Rightarrow> 's writer \<Rightarrow> (js_error option \<times> 's writer) option"
      and enc p and buf :: bytes and y and w :: "'s writer"
    assume ih: "\<And>enc p buf w y. f enc p buf w = Some y \<Longrightarrow> p = put \<longrightarrow> J w \<longrightarrow> J (snd y)" and p: "p = put" and J: "J w"
    let ?n = "min (length buf) (b_chunkSetBufferRemaining w)"
    let ?w1 = "w\<lparr>b_chunkSetBuffer := buf_copy (b_chunkSetBuffer w) (b_chunkSetBufferPosition w) (take ?n buf),
        b_chunkSetBufferPosition := b_chunkSetBufferPosition w + ?n, b_chunkSetBufferRemaining := b_chunkSetBufferRemaining w - ?n,
        b_dataOffset := b_dataOffset w + ?n\<rparr>"
    assume "(if buf = [] then Some (None, w)
       else
         let n = min (length buf) (b_chunkSetBufferRemaining w);
             w1 = w\<lparr>b_chunkSetBuffer := buf_copy (b_chunkSetBuffer w) (b_chunkSetBufferPosition w) (take n buf),
                    b_chunkSetBufferPosition := b_chunkSetBufferPosition w + n,
                    b_chunkSetBufferRemaining := b_chunkSetBufferRemaining w - n,
                    b_dataOffset := b_dataOffset w + n\<rparr>
         in case (if b_chunkSetBufferRemaining w1 = 0 \<or> b_chunkSetNextSliceOffset w1 \<le> b_chunkSetBufferPosition w1
                  then writeBuffer enc p w1 else (None, w1)) of
              (Some e, w2) \<Rightarrow> Some (Some e, w2)
            | (None, w2) \<Rightarrow> f enc p (drop n buf) w2) = Some y"
    note run = this [unfolded Let_def]
    obtain r w2 where b: "(if b_chunkSetBufferRemaining ?w1 = 0 \<or> b_chunkSetNextSliceOffset ?w1 \<le> b_chunkSetBufferPosition ?w1
        then writeBuffer enc p ?w1 else (None, ?w1)) = (r, w2)" by fastforce
    have "J ?w1" by (rule own_fields [OF _ J]) simp
    then have w2: "J w2" using b buffer p by (auto split: if_splits)
    show "J (snd y)"
      using run w2 J p ih [of enc p "drop ?n buf" w2 y] unfolding b by (auto split: if_splits option.splits)
  qed
  then show "writeLoop enc put buf w = Some y \<Longrightarrow> J w \<Longrightarrow> J (snd y)" by blast
qed

end

section \<open>The books of an upload\<close>

definition wr_books :: "'s writer \<Rightarrow> bool \<times> bytes option" where
  "wr_books w = (wr_isAborting w, wr_hashed w)"

lemma more_books: "base.more w' = base.more w \<Longrightarrow> wr_books w' = wr_books w"
  using writer_more [of w' w] by (simp add: wr_books_def)

interpretation books: write_frame put "\<lambda>w. wr_books w = b" for put b
proof
  show "wr_books w' = b" if "queueSliceWrite put i d w = (r, w')" "wr_books w = b" for i d w r w'
    using queueSliceWrite_frame [OF that(1)] that(2) by (auto simp: wr_books_def)
  show "wr_books w' = b" if "base.more w' = base.more w" "wr_books w = b" for w w' :: "'a writer"
    using more_books [OF that(1)] that(2) by simp
qed

lemma writer_write_books:
  "writer_write enc put d w = Some (r, w') \<Longrightarrow> wr_isAborting w' = wr_isAborting w \<and>
     (r = None \<longrightarrow> wr_hashed w' = map_option (\<lambda>h. h @ d) (wr_hashed w))"
  by (auto simp: writer_write_def Let_def wr_books_def dest!: books.loop [OF _ refl] split: if_splits option.splits)

lemma writer_finish_books:
  assumes "writer_finish md5 enc put w = (r, w')"
  shows "wr_isAborting w' = wr_isAborting w \<and> (r = None \<longrightarrow> (\<exists>h. wr_hashed w = Some h \<and> wr_md5 w' = Some (md5 h)))"
proof -
  let ?w = "w\<lparr>b_chunkSetBuffer := take (b_chunkSetBufferPosition w) (b_chunkSetBuffer w)
      @ replicate (length (b_chunkSetBuffer w) - b_chunkSetBufferPosition w) 0,
      b_chunkSetBufferPosition := b_chunkSetDataSize w, b_chunkSetBufferRemaining := 0\<rparr>"
  obtain r1 w1 where b: "(if 0 < b_chunkSetBufferPosition w then writeBuffer enc put ?w else (None, w)) = (r1, w1)" by fastforce
  have "wr_books w1 = wr_books w"
    using b books.buffer [of enc put ?w r1 w1 "wr_books ?w"] by (auto simp: wr_books_def split: if_splits)
  then show ?thesis
    using assms unfolding writer_finish_def b by (auto simp: wr_books_def split: if_splits option.splits)
qed

section \<open>What a slice write keeps of every slice\<close>

definition all_slices :: "(nat \<Rightarrow> 's \<Rightarrow> bool) \<Rightarrow> nat \<Rightarrow> 's writer \<Rightarrow> bool" where
  "all_slices R n w \<longleftrightarrow> length (wr_slices w) = n \<and> (\<forall>i < n. R i (wr_slices w ! i))"

lemma all_slices_write_frame:
  assumes "\<And>i d s r s'. put d s = (r, s') \<Longrightarrow> R i s \<Longrightarrow> R i s'"
  shows "write_frame put (all_slices R n)"
proof
  show "all_slices R n w'" if "queueSliceWrite put i d w = (r, w')" "all_slices R n w" for i d w r w'
  proof -
    have "R k ((wr_slices w)[i := s'] ! k)" if "put d (wr_slices w ! i) = (q, s')" "k < n" for k q s'
      using that \<open>all_slices R n w\<close> assms [OF that(1), of i] by (cases "k = i") (auto simp: all_slices_def)
    then show ?thesis
      using that by (auto simp: queueSliceWrite_def all_slices_def split: option.splits if_splits prod.splits)
  qed
  show "all_slices R n w'" if "base.more w' = base.more w" "all_slices R n w" for w w'
    using writer_more(1) [OF that(1)] that(2) by (simp add: all_slices_def)
qed

lemma all_slices_eq: "wr_slices w' = wr_slices w \<Longrightarrow> all_slices R n w' = all_slices R n w"
  by (simp add: all_slices_def)

lemma write_parts_keeps:
  assumes "\<And>i d s r s'. put d s = (r, s') \<Longrightarrow> R i s \<Longrightarrow> R i s'"
  shows "write_parts enc put ds w = Some (r, w') \<Longrightarrow> all_slices R n w \<Longrightarrow> all_slices R n w'"
proof (induction ds arbitrary: w)
  case (Cons d ds)
  obtain r1 w1 where w: "writer_write enc put d w = Some (r1, w1)" using Cons.prems(1) by (auto split: option.splits)
  have "all_slices R n w1"
    using w Cons.prems(2) write_frame.loop [OF all_slices_write_frame [where put = put and R = R and n = n, OF assms]]
    by (auto simp: writer_write_def Let_def all_slices_def split: if_splits option.splits)
  then show ?case using Cons w by (cases r1) auto
qed simp

lemma writer_finish_keeps:
  assumes "\<And>i d s r s'. put d s = (r, s') \<Longrightarrow> R i s \<Longrightarrow> R i s'" "writer_finish md5 enc put w = (r, w')" "all_slices R n w"
  shows "all_slices R n w'"
proof -
  let ?w = "w\<lparr>b_chunkSetBuffer := take (b_chunkSetBufferPosition w) (b_chunkSetBuffer w)
      @ replicate (length (b_chunkSetBuffer w) - b_chunkSetBufferPosition w) 0,
      b_chunkSetBufferPosition := b_chunkSetDataSize w, b_chunkSetBufferRemaining := 0\<rparr>"
  obtain r1 w1 where b: "(if 0 < b_chunkSetBufferPosition w then writeBuffer enc put ?w else (None, w)) = (r1, w1)" by fastforce
  have "all_slices R n ?w" using assms(3) by (simp add: all_slices_def)
  then have "all_slices R n w1"
    using b write_frame.buffer [OF all_slices_write_frame [where put = put and R = R and n = n, OF assms(1)], where enc = enc and w = ?w and r = r1 and w' = w1] assms(3) by (auto split: if_splits)
  then show ?thesis
    using assms(2,3) unfolding writer_finish_def b by (auto simp: all_slices_def split: if_splits option.splits)
qed

end
