(* ===== verification/File_Object_Safety.thy ===== *)
theory File_Object_Safety
  imports File_Object Writer_Frame
begin

text \<open>
  What \<open>File_Object\<close> promises. Runs of one object are sequences of its operations, in any order and with any
  outcome of the calls; a crash stops a run between two events of its trace. The invariant says when the row
  and the name in the journal may exist, and every operation keeps it.
\<close>

lemma writer_commit_isAborting:
  "writer_commit cl cm w = (r, w') \<Longrightarrow> wr_isAborting w' = wr_isAborting w \<and> (r = None \<longrightarrow> \<not> wr_isAborting w)"
  by (auto simp: writer_commit_def split: if_splits option.splits prod.splits)

lemma writer_abort_isAborting: "writer_abort dl w = (r, w') \<Longrightarrow> wr_isAborting w'"
  by (auto simp: writer_abort_def Let_def split: option.splits)

lemma writer_abort_blocked: "writer_abort dl w = (None, w') \<Longrightarrow> wr_commitFailed w = None"
  by (auto simp: writer_abort_def split: option.splits)

section \<open>Traces\<close>

text \<open>Whether the row is in the database, whether the journal's last word on the object names it, and whether its slices are on the platters.\<close>

definition row_present :: "string \<Rightarrow> 's effect list \<Rightarrow> bool" where
  "row_present i tr = fold (\<lambda>x b. case x of RowInserted r \<Rightarrow> b \<or> so_id r = i | RowDeleted j \<Rightarrow> b \<and> j \<noteq> i | _ \<Rightarrow> b) tr False"

definition named_put :: "string \<Rightarrow> 's effect list \<Rightarrow> bool" where
  "named_put i tr = fold (\<lambda>x b. case x of JournalPut r \<Rightarrow> b \<or> so_id r = i | JournalDel j \<Rightarrow> b \<and> j \<noteq> i | _ \<Rightarrow> b) tr False"

definition slices_present :: "'s effect list \<Rightarrow> bool" where
  "slices_present tr = fold (\<lambda>x b. case x of SlicesCommitted \<Rightarrow> True | SlicesRemoved _ \<Rightarrow> False | _ \<Rightarrow> b) tr False"

definition slices_removed :: "'s effect list \<Rightarrow> bool" where
  "slices_removed tr = list_ex (\<lambda>x. case x of SlicesRemoved _ \<Rightarrow> True | _ \<Rightarrow> False) tr"

text \<open>A name, in the database or in the journal, has its slices.\<close>

definition no_phantom :: "string \<Rightarrow> 's effect list \<Rightarrow> bool" where
  "no_phantom i tr \<longleftrightarrow> (row_present i tr \<or> named_put i tr \<longrightarrow> slices_present tr)"

text \<open>It does at every point of the trace, and slices are never committed after they were removed.\<close>

fun safe :: "string \<Rightarrow> 's effect list \<Rightarrow> 's effect list \<Rightarrow> bool" where
  "safe i past [] \<longleftrightarrow> no_phantom i past"
| "safe i past (x # xs) \<longleftrightarrow> no_phantom i past \<and> (x = SlicesCommitted \<longrightarrow> \<not> slices_removed past) \<and> safe i (past @ [x]) xs"

lemma trace_append [simp]:
  "row_present i (tr @ xs) = fold (\<lambda>x b. case x of RowInserted r \<Rightarrow> b \<or> so_id r = i | RowDeleted j \<Rightarrow> b \<and> j \<noteq> i | _ \<Rightarrow> b) xs (row_present i tr)"
  "named_put i (tr @ xs) = fold (\<lambda>x b. case x of JournalPut r \<Rightarrow> b \<or> so_id r = i | JournalDel j \<Rightarrow> b \<and> j \<noteq> i | _ \<Rightarrow> b) xs (named_put i tr)"
  "slices_present (tr @ xs) = fold (\<lambda>x b. case x of SlicesCommitted \<Rightarrow> True | SlicesRemoved _ \<Rightarrow> False | _ \<Rightarrow> b) xs (slices_present tr)"
  "slices_removed (tr @ xs) = (slices_removed tr \<or> list_ex (\<lambda>x. case x of SlicesRemoved _ \<Rightarrow> True | _ \<Rightarrow> False) xs)"
  unfolding row_present_def named_put_def slices_present_def slices_removed_def fold_append list_ex_append comp_apply by (rule refl)+

lemma trace_Nil [simp]: "\<not> row_present i []" "\<not> named_put i []" "\<not> slices_present []" "\<not> slices_removed []"
  by (simp_all add: row_present_def named_put_def slices_present_def slices_removed_def)

lemma safe_append [simp]: "safe i past (xs @ ys) \<longleftrightarrow> safe i past xs \<and> safe i (past @ xs) ys"
proof (induction xs arbitrary: past)
  case Nil
  then show ?case by (cases ys) auto
next
  case (Cons x xs)
  then show ?case using Cons [of "past @ [x]"] by (simp del: trace_append)
qed

lemma safe_prefix: "safe i [] tr \<Longrightarrow> prefix p tr \<Longrightarrow> no_phantom i p"
  by (auto simp: prefix_def) (metis append_Nil safe.elims(2))

lemma dep_call_cases:
  assumes "dep_call x w = (r, w')" "\<forall>k e. fw_dep w k \<noteq> Ambiguous e"
  shows "fw_dep w' = fw_dep w \<and> (if r = None then fw_trace w' = fw_trace w @ [x] else fw_trace w' = fw_trace w)"
  using assms by (auto simp: dep_call_def Let_def emit_def split: dep_outcome.splits)

section \<open>Runs of one object\<close>

inductive fo_run :: "'s slice_ops \<Rightarrow> string \<Rightarrow> 's file_object \<Rightarrow> 's fo_world \<Rightarrow> bool" for ops i where
  created: "createWithSize ops (Inr idBuf) newPlan sz new_file_object = (r, fo) \<Longrightarrow> i = to_hex idBuf \<Longrightarrow> fw_trace w = [] \<Longrightarrow> fo_run ops i fo w"
| loaded: "so_id rec = i \<Longrightarrow> fw_trace w = [SlicesCommitted, JournalPut rec, RowInserted rec] \<Longrightarrow>
    fo_run ops i (loadFromRecord rec new_file_object) w"
| written: "fo_run ops i fo w \<Longrightarrow> object_write ops d fo = Some (r, fo') \<Longrightarrow> fo_run ops i fo' w"
| finished: "fo_run ops i fo w \<Longrightarrow> object_final ops fo = (r, fo') \<Longrightarrow> fo_run ops i fo' w"
| described: "fo_run ops i fo w \<Longrightarrow> fo_run ops i (fo\<lparr>fo_name := nm, fo_mime := mi, fo_containerId := ci, fo_bucketId := bi\<rparr>) w"
| context_set: "fo_run ops i fo w \<Longrightarrow> fo_run ops i (applyRequestContext rq pr fo) w"
| committed: "fo_run ops i fo w \<Longrightarrow> commit_object ops fo w = (r, fo', w') \<Longrightarrow> fo_run ops i fo' w'"
| deleted: "fo_run ops i fo w \<Longrightarrow> delete_object ops fo w = (r, fo', w') \<Longrightarrow> fo_run ops i fo' w'"
| prepared: "fo_run ops i fo w \<Longrightarrow> prepareForRead ops fo = (r, fo') \<Longrightarrow> fo_run ops i fo' w"
| ranged: "fo_run ops i fo w \<Longrightarrow> object_setReadRange ops s e eor fo = (r, x, fo') \<Longrightarrow> fo_run ops i fo' w"
| pulled: "fo_run ops i fo w \<Longrightarrow> object_read ops fo = (x, fo') \<Longrightarrow> fo_run ops i fo' w"
| closed: "fo_run ops i fo w \<Longrightarrow> object_close ops fo = (r, x, fo') \<Longrightarrow> fo_run ops i fo' w"
| locked: "fo_run ops i fo w \<Longrightarrow> acquireIOLock fo = (x, fo') \<Longrightarrow> fo_run ops i fo' w"
| unlocked: "fo_run ops i fo w \<Longrightarrow> releaseIOLock fo = (x, fo') \<Longrightarrow> fo_run ops i fo' w"

text \<open>The invariant: what the two flags and the mode say about the trace.\<close>

definition fo_inv :: "string \<Rightarrow> 's file_object \<Rightarrow> 's fo_world \<Rightarrow> bool" where
  "fo_inv i fo w \<longleftrightarrow> safe i [] (fw_trace w) \<and> fo_id fo = Some i \<and> (row_present i (fw_trace w) \<longrightarrow> fo_isPersisted fo) \<and>
     (named_put i (fw_trace w) \<longrightarrow> fo_isPersisted fo \<or> fo_journaledPut fo) \<and>
     (fo_isPersisted fo \<longrightarrow> slices_present (fw_trace w) \<and> fo_mode fo \<noteq> Some ObjectWrite) \<and>
     (slices_removed (fw_trace w) \<and> fo_mode fo = Some ObjectWrite \<longrightarrow> (\<exists>wr. fo_writer fo = Some wr \<and> wr_isAborting wr))"

text \<open>Operations that only touch the object keep it when they leave the flags alone and do not revive the writer.\<close>

lemma fo_inv_keep:
  assumes "fo_inv i fo w" "fo_id fo' = fo_id fo" "fo_isPersisted fo' = fo_isPersisted fo" "fo_journaledPut fo' = fo_journaledPut fo"
    "fo_mode fo' = Some ObjectWrite \<Longrightarrow> fo_mode fo = Some ObjectWrite \<and>
      (\<forall>wr. fo_writer fo = Some wr \<and> wr_isAborting wr \<longrightarrow> (\<exists>wr'. fo_writer fo' = Some wr' \<and> wr_isAborting wr'))"
  shows "fo_inv i fo' w"
  using assms unfolding fo_inv_def by auto

lemma commit_keeps:
  assumes inv: "fo_inv i fo w" and c: "commit_object ops fo w = (r, fo', w')" and at: "\<forall>k e. fw_dep w k \<noteq> Ambiguous e"
  shows "fo_inv i fo' w' \<and> fw_dep w' = fw_dep w"
proof (cases "\<exists>wr. fo_mode fo = Some ObjectWrite \<and> fo_writer fo = Some wr")
  case False
  then have "fo' = fo" "w' = w" using c by (auto simp: commit_object_def split: option.splits object_mode.splits)
  then show ?thesis using inv by simp
next
  case True
  then obtain wr where wr: "fo_mode fo = Some ObjectWrite" "fo_writer fo = Some wr" by blast
  have id: "fo_id fo = Some i" and np: "\<not> fo_isPersisted fo" using inv wr by (auto simp: fo_inv_def)
  obtain r1 wr' where wc: "writer_commit (op_close ops) (op_commit ops) wr = (r1, wr')" by fastforce
  note ab = writer_commit_isAborting [OF wc]
  define fo1 where "fo1 = fo\<lparr>fo_writer := Some wr'\<rparr>"
  note run = c [unfolded commit_object_def wr id option.case object_mode.case prod.case wc Let_def, folded fo1_def]
  show ?thesis
  proof (cases r1)
    case (Some e)
    then have "fo' = fo1" "w' = w" using run by simp_all
    moreover have "fo_inv i fo1 w" by (rule fo_inv_keep [OF inv]) (auto simp: fo1_def wr ab)
    ultimately show ?thesis by simp
  next
    case None
    have nr: "\<not> slices_removed (fw_trace w)" using inv ab None wr by (auto simp: fo_inv_def)
    define rec where "rec = dbObject i fo1"
    have rid: "so_id rec = i" by (simp add: rec_def dbObject_def toStoredObjectRecord_def Let_def)
    obtain r2 w1 where d1: "dep_call (JournalPut rec) (emit SlicesCommitted w) = (r2, w1)" by fastforce
    obtain r3 w2 where d2: "dep_call (RowInserted rec) w1 = (r3, w2)" by fastforce
    have at1: "\<forall>k e. fw_dep (emit SlicesCommitted w) k \<noteq> Ambiguous e" using at by (simp add: emit_def)
    note t1 = dep_call_cases [OF d1 at1]
    have at2: "\<forall>k e. fw_dep w1 k \<noteq> Ambiguous e" using t1 at by (simp add: emit_def)
    note t2 = dep_call_cases [OF d2 at2]
    have fo1: "fo_id fo1 = Some i" "\<not> fo_isPersisted fo1" "fo_journaledPut fo1 = fo_journaledPut fo" "fo_mode fo1 = Some ObjectWrite" "fo_writer fo1 = Some wr'"
      using id np wr by (simp_all add: fo1_def)
    have base: "safe i [] (fw_trace w)" "\<not> row_present i (fw_trace w)" "named_put i (fw_trace w) \<longrightarrow> fo_journaledPut fo"
        "no_phantom i (fw_trace w)"
      using inv np safe_prefix [of i "fw_trace w" "fw_trace w"] by (auto simp: fo_inv_def)
    show ?thesis
    proof (cases r2)
      case (Some e)
      then have "fo' = fo1" "w' = w1" using run None d1 by (simp_all add: rec_def)
      then show ?thesis using t1 Some base nr fo1 by (auto simp: fo_inv_def emit_def no_phantom_def)
    next
      case j: None
      show ?thesis
      proof (cases r3)
        case (Some e)
        then have "fo' = fo1\<lparr>fo_journaledPut := True\<rparr>" "w' = w2" using run None j d1 d2 by (simp_all add: rec_def)
        then show ?thesis using t1 t2 Some j base nr fo1 rid by (auto simp: fo_inv_def emit_def no_phantom_def)
      next
        case ins: None
        then have "fo' = fo1\<lparr>fo_journaledPut := True, fo_isPersisted := True, fo_mode := None, fo_hasVolumeReservations := False\<rparr>"
            "w' = emit (StatsCreated rec) w2" using run None j d1 d2 by (simp_all add: rec_def)
        then show ?thesis using t1 t2 ins j base nr fo1 rid by (auto simp: fo_inv_def emit_def no_phantom_def)
      qed
    qed
  qed
qed

lemma remove_keeps:
  assumes "fo_inv i fo w" "\<not> row_present i (fw_trace w)" "\<not> named_put i (fw_trace w)" "remove_slices ops fo w = (r, fo', w')"
  shows "fo_inv i fo' w' \<and> fw_dep w' = fw_dep w"
proof (cases "\<exists>wr. fo_mode fo = Some ObjectWrite \<and> fo_writer fo = Some wr")
  case True
  then obtain wr where wr: "fo_mode fo = Some ObjectWrite" "fo_writer fo = Some wr" by blast
  obtain r1 wr' where a: "writer_abort (op_delete ops) wr = (r1, wr')" by fastforce
  note ab = writer_abort_isAborting [OF a]
  have np: "\<not> fo_isPersisted fo" using assms(1) wr by (auto simp: fo_inv_def)
  show ?thesis
  proof (cases "wr_commitFailed wr")
    case None
    then show ?thesis
      using assms wr a ab np by (cases "r1 = None") (auto simp: remove_slices_def Let_def fo_inv_def emit_def no_phantom_def)
  next
    case (Some e)
    then have "r1 \<noteq> None" using writer_abort_blocked a by fastforce
    then have "fo' = fo\<lparr>fo_writer := Some wr'\<rparr>" "w' = w" using assms(4) wr a Some by (auto simp: remove_slices_def Let_def)
    then show ?thesis using assms(1-3) wr ab np by (auto simp: fo_inv_def no_phantom_def)
  qed
next
  case False
  then have "fo' = fo\<lparr>fo_mode := None, fo_isPersisted := False, fo_journaledPut := False, fo_hasVolumeReservations := False\<rparr>"
      "w' = emit (SlicesRemoved (destroy ops fo)) w"
    using assms(4) by (auto simp: remove_slices_def Let_def split: option.splits object_mode.splits)
  then show ?thesis using assms(1-3) by (auto simp: fo_inv_def emit_def no_phantom_def)
qed

lemma fo_inv_trace:
  assumes "fo_inv i fo w" "fw_trace w' = fw_trace w @ [x]"
    "x = JournalDel i \<or> x = RowDeleted i \<or> (\<exists>r. x = StatsDeleted r) \<or> (\<exists>r. x = JournalPut r \<and> fo_isPersisted fo)"
  shows "fo_inv i fo w'"
  using assms by (auto simp: fo_inv_def no_phantom_def dest: safe_prefix)

lemma delete_keeps:
  assumes inv: "fo_inv i fo w" and c: "delete_object ops fo w = (r, fo', w')" and at: "\<forall>k e. fw_dep w k \<noteq> Ambiguous e"
  shows "fo_inv i fo' w' \<and> fw_dep w' = fw_dep w"
proof -
  have id: "fo_id fo = Some i" using inv by (simp add: fo_inv_def)
  note run = c [unfolded delete_object_def id option.case]
  show ?thesis
  proof (cases "fo_isPersisted fo \<or> fo_journaledPut fo")
    case False
    then have "\<not> row_present i (fw_trace w)" "\<not> named_put i (fw_trace w)" using inv by (auto simp: fo_inv_def)
    then show ?thesis using run False remove_keeps [OF inv] by simp
  next
    case True
    obtain r1 w1 where d1: "dep_call (JournalDel i) w = (r1, w1)" by fastforce
    note t1 = dep_call_cases [OF d1 at]
    show ?thesis
    proof (cases r1)
      case (Some e)
      then have "fo' = fo" "w' = w1" using run True d1 by simp_all
      then show ?thesis using t1 Some inv by (simp add: fo_inv_def)
    next
      case None
      then have inv1: "fo_inv i fo w1" using fo_inv_trace [OF inv, of w1 "JournalDel i"] t1 by simp
      have nn: "\<not> named_put i (fw_trace w1)" using t1 None by simp
      have at1: "\<forall>k e. fw_dep w1 k \<noteq> Ambiguous e" using t1 at by simp
      show ?thesis
      proof (cases "fo_isPersisted fo")
        case False
        then have "\<not> row_present i (fw_trace w1)" using inv1 by (auto simp: fo_inv_def)
        then show ?thesis using run True None d1 False remove_keeps [OF inv1 _ nn] t1 by simp
      next
        case p: True
        define rec where "rec = toStoredObjectRecord i fo"
        obtain r2 w2 where d2: "dep_call (RowDeleted i) w1 = (r2, w2)" by fastforce
        note t2 = dep_call_cases [OF d2 at1]
        have at2: "\<forall>k e. fw_dep w2 k \<noteq> Ambiguous e" using t2 at1 by simp
        show ?thesis
        proof (cases r2)
          case (Some e)
          obtain r3 w3 where d3: "dep_call (JournalPut rec) w2 = (r3, w3)" by fastforce
          note d3' = d3 [unfolded rec_def]
          note t3 = dep_call_cases [OF d3 at2]
          have out: "fo' = fo" "w' = w3" using run [unfolded d1 prod.case None option.case if_P [OF True] if_P [OF p] Let_def d2 Some d3'] by simp_all
          have "fo_inv i fo w2" using inv1 t2 Some by (simp add: fo_inv_def)
          then show ?thesis using out t1 t2 t3 p fo_inv_trace [of i fo w2 w3 "JournalPut rec"] by (cases r3) (auto simp: fo_inv_def)
        next
          case del: None
          have inv2: "fo_inv i fo w2" using fo_inv_trace [OF inv1, of w2 "RowDeleted i"] t2 del by simp
          let ?w3 = "emit (StatsDeleted rec) w2"
          have inv3: "fo_inv i fo ?w3" using fo_inv_trace [OF inv2, of ?w3 "StatsDeleted rec"] by (simp add: emit_def)
          have "\<not> row_present i (fw_trace ?w3)" "\<not> named_put i (fw_trace ?w3)" using t2 del nn by (simp_all add: emit_def)
          moreover have "remove_slices ops fo ?w3 = (r, fo', w')" using run True None d1 p d2 del by (simp add: rec_def)
          ultimately show ?thesis using remove_keeps [OF inv3] t1 t2 by (simp add: emit_def)
        qed
      qed
    qed
  qed
qed

lemma createWithSize_new:
  assumes "createWithSize ops (Inr idBuf) newPlan sz new_file_object = (r, fo)"
  shows "fo_id fo = Some (to_hex idBuf) \<and> \<not> fo_isPersisted fo \<and> \<not> fo_journaledPut fo"
  using assms by (auto simp: createWithSize_def Let_def new_file_object_def buildLoggerPrefix_def split: sum.splits if_splits prod.splits option.splits)

lemma commit_dep: "commit_object ops fo w = (r, fo', w') \<Longrightarrow> fw_dep w' = fw_dep w"
  by (auto simp: commit_object_def dep_call_def emit_def Let_def split: option.splits object_mode.splits prod.splits dep_outcome.splits)

lemma delete_dep: "delete_object ops fo w = (r, fo', w') \<Longrightarrow> fw_dep w' = fw_dep w"
  by (auto simp: delete_object_def remove_slices_def dep_call_def emit_def Let_def
      split: option.splits object_mode.splits prod.splits dep_outcome.splits if_splits)

lemma fo_run_inv:
  assumes "fo_run ops i fo w" "\<forall>k e. fw_dep w k \<noteq> Ambiguous e"
  shows "fo_inv i fo w"
  using assms
proof (induction)
  case (created idBuf newPlan sz r fo w)
  then show ?case using createWithSize_new [OF created(1)] by (simp add: fo_inv_def no_phantom_def)
next
  case (loaded rec w)
  then show ?case
    by (simp add: fo_inv_def no_phantom_def loadFromRecord_def Let_def buildLoggerPrefix_def new_file_object_def
        row_present_def named_put_def slices_present_def slices_removed_def)
next
  case (written fo w d r fo')
  have inv: "fo_inv i fo w" using written by simp
  show ?case
    by (rule fo_inv_keep [OF inv])
      (use written(2) in \<open>auto simp: object_write_def split: option.splits object_mode.splits dest!: writer_write_books\<close>)
next
  case (finished fo w r fo')
  have inv: "fo_inv i fo w" using finished by simp
  show ?case
    by (rule fo_inv_keep [OF inv])
      (use finished(2) in \<open>auto simp: object_final_def split: option.splits object_mode.splits prod.splits dest!: writer_finish_books\<close>)
next
  case (described fo w nm mi ci bi)
  show ?case
    by (rule fo_inv_keep [OF described.IH [OF described.prems]]) auto
next
  case (context_set fo w rq pr)
  show ?case
    by (rule fo_inv_keep [OF context_set.IH [OF context_set.prems]])
    (auto simp: applyRequestContext_def setRequestId_def setPriority_def buildLoggerPrefix_def Let_def split: option.splits)
next
  case (committed fo w r fo' w')
  then show ?case using commit_keeps [OF _ committed(2)] commit_dep [OF committed(2)] by auto
next
  case (deleted fo w r fo' w')
  then show ?case using delete_keeps [OF _ deleted(2)] delete_dep [OF deleted(2)] by auto
next
  case (prepared fo w r fo')
  show ?case
    by (rule fo_inv_keep [OF prepared.IH [OF prepared.prems]])
      (use prepared(2) in \<open>auto simp: prepareForRead_def split: prod.splits option.splits\<close>)
next
  case (ranged fo w s e eor r x fo')
  show ?case
    by (rule fo_inv_keep [OF ranged.IH [OF ranged.prems]])
      (use ranged(2) in \<open>auto simp: object_setReadRange_def object_read_def Let_def split: prod.splits option.splits object_mode.splits if_splits sum.splits\<close>)
next
  case (pulled fo w x fo')
  show ?case
    by (rule fo_inv_keep [OF pulled.IH [OF pulled.prems]])
      (use pulled(2) in \<open>auto simp: object_read_def split: prod.splits option.splits object_mode.splits if_splits sum.splits\<close>)
next
  case (closed fo w r x fo')
  show ?case
    by (rule fo_inv_keep [OF closed.IH [OF closed.prems]])
      (use closed(2) in \<open>auto simp: object_close_def split: prod.splits option.splits object_mode.splits\<close>)
next
  case (locked fo w x fo')
  show ?case
    by (rule fo_inv_keep [OF locked.IH [OF locked.prems]])
      (use locked(2) in \<open>auto simp: acquireIOLock_def Let_def\<close>)
next
  case (unlocked fo w x fo')
  show ?case
    by (rule fo_inv_keep [OF unlocked.IH [OF unlocked.prems]])
      (use unlocked(2) in \<open>auto simp: releaseIOLock_def split: list.splits\<close>)
qed

section \<open>Names and slices\<close>

text \<open>
  C16. Stored or deleted, and wherever the process dies, an object that has a row in the database or whose last
  record in the journal is a \<open>put\<close> has its committed slices on the platters, and slices that were removed are
  never committed again. This holds for every order of the object's operations and every pattern of refused
  calls, as long as a call that reports a failure had no effect.
\<close>

theorem names_have_slices:
  assumes "fo_run ops i fo w" "\<forall>k e. fw_dep w k \<noteq> Ambiguous e" "prefix p (fw_trace w)"
  shows "(row_present i p \<or> named_put i p \<longrightarrow> slices_present p) \<and> safe i [] (fw_trace w)"
  using fo_run_inv [OF assms(1,2)] safe_prefix [OF _ assms(3)] by (auto simp: fo_inv_def no_phantom_def)

definition idle_ops :: "unit slice_ops" where
  "idle_ops = \<lparr>op_rsCreate = (\<lambda>_ _. None), op_mem = (\<lambda>n. replicate n 0), op_enc = (\<lambda>_ _ a b. Inr (a, b)), op_md5 = (\<lambda>_. []), op_make = (\<lambda>_. Inr ()),
     op_avail = (\<lambda>_. True), op_create = (\<lambda>s. (None, s)), op_put = (\<lambda>_ s. (None, s)), op_open = (\<lambda>s. (None, s)), op_read = (\<lambda>_ _ s. (Inr [], s)),
     op_close = (\<lambda>s. (None, s)), op_commit = (\<lambda>s. (None, s)), op_delete = (\<lambda>s. (None, s)), op_mark = id\<rparr>"

definition small_record :: stored_object where
  "small_record = \<lparr>so_id = ''0a'', so_containerId = None, so_bucketId = None, so_name = ''n'', so_size = 20, so_md5 = BsonNull, so_mime = None,
     so_chunkSize = 72, so_sliceSize = None, so_dataVolumes = [1, 2], so_parityVolumes = [3], so_unavailableSlices = None, so_damagedSlices = None\<rparr>"

definition stored_world :: "(nat \<Rightarrow> dep_outcome) \<Rightarrow> unit fo_world" where
  "stored_world dep = \<lparr>fw_trace = [SlicesCommitted, JournalPut small_record, RowInserted small_record], fw_calls = 0, fw_dep = dep\<rparr>"

theorem names_have_slices_witness:
  "safe ''0a'' [] (fw_trace (snd (snd (delete_object idle_ops (loadFromRecord small_record new_file_object) (stored_world (\<lambda>_. Done))))))"
proof -
  let ?fo = "loadFromRecord small_record new_file_object :: unit file_object" and ?w = "stored_world (\<lambda>_. Done)"
  obtain r fo' w' where d: "delete_object idle_ops ?fo ?w = (r, fo', w')" by (metis prod.collapse)
  have "fo_run idle_ops ''0a'' ?fo ?w" by (rule fo_run.loaded) (simp_all add: small_record_def stored_world_def)
  then have run: "fo_run idle_ops ''0a'' fo' w'" using d by (rule fo_run.deleted)
  have "fw_dep w' = (\<lambda>_. Done)" using delete_dep [OF d] by (simp add: stored_world_def)
  then have "\<forall>k e. fw_dep w' k \<noteq> Ambiguous e" by simp
  from names_have_slices [OF run this, of "[]"] show ?thesis by (simp add: d)
qed

text \<open>
  A deletion that fails for a stored object changes nothing but the journal: the row and the slices stay, the
  object can be deleted again, and the journal's last word names the object again unless the compensating
  record was refused too.
\<close>

theorem failed_delete_keeps_object:
  assumes "fo_run ops i fo w" "\<forall>k e. fw_dep w k \<noteq> Ambiguous e" "fo_isPersisted fo" "delete_object ops fo w = (Some e, fo', w')"
  shows "fo' = fo \<and> row_present i (fw_trace w') = row_present i (fw_trace w) \<and> slices_present (fw_trace w') \<and>
    (named_put i (fw_trace w) \<longrightarrow> named_put i (fw_trace w') \<or> fw_dep w (fw_calls w + 2) \<noteq> Done)"
proof -
  note inv = fo_run_inv [OF assms(1,2)]
  have id: "fo_id fo = Some i" and sp: "slices_present (fw_trace w)" and nw: "fo_mode fo \<noteq> Some ObjectWrite"
    using inv assms(3) by (auto simp: fo_inv_def)
  have rm: "remove_slices ops fo v \<noteq> (Some e, x, y)" for v x y
    using nw by (auto simp: remove_slices_def Let_def split: option.splits object_mode.splits)
  have amb: "fw_dep w k \<noteq> Ambiguous e" for k e using assms(2) by simp
  show ?thesis
  proof (cases "fw_dep w (fw_calls w)")
    case (Declined e1)
    then show ?thesis using assms(3,4) id sp by (auto simp: delete_object_def dep_call_def Let_def)
  next
    case Done
    show ?thesis
    proof (cases "fw_dep w (Suc (fw_calls w))")
      case (Declined e2)
      then show ?thesis
        using assms(3,4) id sp Done amb [of "Suc (Suc (fw_calls w))"]
        by (cases "fw_dep w (Suc (Suc (fw_calls w)))")
           (auto simp: delete_object_def dep_call_def Let_def emit_def toStoredObjectRecord_def)
    next
      case d: Done
      then show ?thesis using assms(3,4) id Done rm by (simp add: delete_object_def dep_call_def Let_def emit_def)
    qed (use amb in blast)
  qed (use amb in blast)
qed

definition row_refused :: "nat \<Rightarrow> dep_outcome" where
  "row_refused k = (if k = 1 then Declined (plain_error ''timeout'') else Done)"

theorem failed_delete_keeps_object_witness:
  "fst (delete_object idle_ops (loadFromRecord small_record new_file_object) (stored_world row_refused)) = Some (plain_error ''timeout'') \<and>
   named_put ''0a'' (fw_trace (snd (snd (delete_object idle_ops (loadFromRecord small_record new_file_object) (stored_world row_refused)))))"
proof -
  let ?fo = "loadFromRecord small_record new_file_object :: unit file_object" and ?w = "stored_world row_refused"
  obtain r fo' w' where d: "delete_object idle_ops ?fo ?w = (r, fo', w')" by (metis prod.collapse)
  have per: "fo_isPersisted ?fo" by (simp add: loadFromRecord_def Let_def buildLoggerPrefix_def)
  have r: "r = Some (plain_error ''timeout'')"
    using d by (simp add: delete_object_def loadFromRecord_def Let_def buildLoggerPrefix_def small_record_def stored_world_def
        dep_call_def emit_def row_refused_def)
  have run: "fo_run idle_ops ''0a'' ?fo ?w" by (rule fo_run.loaded) (simp_all add: small_record_def stored_world_def)
  have "named_put ''0a'' (fw_trace ?w)" "fw_dep ?w (fw_calls ?w + 2) = Done" "\<forall>k e. fw_dep ?w k \<noteq> Ambiguous e"
    by (simp_all add: named_put_def stored_world_def small_record_def row_refused_def)
  then show ?thesis using failed_delete_keeps_object [OF run _ per d [unfolded r]] by (simp add: d r)
qed

text \<open>
  C38. An insert that reaches the database but is reported as failed leaves a phantom: the clean-up after the
  failed commit journals the deletion and removes the slices, but not the row, because the object does not
  know that it was persisted.
\<close>

theorem ambiguous_insert_leaves_phantom:
  assumes "fo_run ops i fo w" "\<forall>k e. fw_dep w k \<noteq> Ambiguous e"
    and "commit_object ops fo v = (Some e, fo1, w1)" and "v = w\<lparr>fw_dep := (fw_dep w)(Suc (fw_calls w) := Ambiguous e)\<rparr>"
    and "fw_calls w1 = fw_calls w + 2" and "delete_object ops fo1 w1 = (None, fo2, w2)"
  shows "row_present i (fw_trace w2) \<and> \<not> slices_present (fw_trace w2) \<and> \<not> named_put i (fw_trace w2)"
proof -
  note inv = fo_run_inv [OF assms(1,2)]
  have id: "fo_id fo = Some i" using inv by (simp add: fo_inv_def)
  obtain wr where wr: "fo_mode fo = Some ObjectWrite" "fo_writer fo = Some wr"
    using assms(3-5) by (auto simp: commit_object_def split: option.splits object_mode.splits)
  have np: "\<not> fo_isPersisted fo" using inv wr by (auto simp: fo_inv_def)
  obtain r1 wr' where wc: "writer_commit (op_close ops) (op_commit ops) wr = (r1, wr')" by fastforce
  define fo0 where "fo0 = fo\<lparr>fo_writer := Some wr'\<rparr>"
  have rid: "so_id (dbObject i fo0) = i" by (simp add: dbObject_def toStoredObjectRecord_def Let_def)
  have st: "r1 = None" "fo1 = fo0\<lparr>fo_journaledPut := True\<rparr>"
      "fw_trace w1 = fw_trace w @ [SlicesCommitted, JournalPut (dbObject i fo0), RowInserted (dbObject i fo0)]" "fw_calls w1 = fw_calls w + 2"
    using assms(2-5) id wr wc
    by (auto simp: commit_object_def dep_call_def emit_def Let_def fo0_def split: option.splits dep_outcome.splits)
  have f: "fo_id fo1 = Some i" "\<not> fo_isPersisted fo1" "fo_journaledPut fo1" "fo_mode fo1 = Some ObjectWrite" "fo_writer fo1 = Some wr'"
    using id np wr by (simp_all add: st fo0_def)
  obtain r w3 where j: "dep_call (JournalDel i) w1 = (r, w3)" by fastforce
  have r: "r = None" and run: "remove_slices ops fo1 w3 = (None, fo2, w2)"
    using assms(6) f j by (auto simp: delete_object_def split: option.splits)
  have "fw_trace w3 = fw_trace w1 @ [JournalDel i]" using j r by (auto simp: dep_call_def Let_def emit_def split: dep_outcome.splits)
  moreover have "\<exists>ss. fw_trace w2 = fw_trace w3 @ [SlicesRemoved ss]"
    using run f by (auto simp: remove_slices_def Let_def emit_def dest!: writer_abort_blocked split: prod.splits if_splits)
  ultimately show ?thesis by (auto simp: st rid)
qed

lemma find_only_None: "List.find (\<lambda>r. \<exists>y. r = Some y) (map (\<lambda>x. None) xs) = None"
  by (simp add: find_None_iff)

lemma settle_idle: "settle_all (\<lambda>s. (None, s)) ss = (None, ss)"
  by (simp add: settle_all_def Let_def comp_def find_only_None)

lemma idle_created:
  obtains fo where "createWithSize idle_ops (Inr [10]) (Inr small_populated) 20 new_file_object = (None, fo)"
    "fo_mode fo = Some ObjectWrite" "fo_id fo = Some ''0a''"
    "\<exists>wr. fo_writer fo = Some wr \<and> \<not> wr_isAborting wr \<and> wr_pending wr = (\<lambda>_. None)"
proof -
  have ok: "plan_ok 20 2 72" by (simp add: plan_ok_def)
  have pl: "populatePlanDerivedFields small_plan = Inr small_populated" "layout_of small_populated = Some (mk_layout 20 2 72)"
      "p_chunkSize small_populated = Some 72" "p_dataSliceCount small_populated = Some 2" "p_paritySliceCount small_populated = Some 1"
    using populate_layout [OF _ _ _ ok, of small_plan] by (auto simp: small_plan_def)
  obtain w where w: "writer_prepare (op_rsCreate idle_ops) (op_mem idle_ops) (Some small_populated) (op_make idle_ops) (op_create idle_ops)
      (new_writer 20 72 2 1) = (None, w)"
    using prepare_total [OF pl(1,2), of "op_rsCreate idle_ops" 2 1 "op_create idle_ops" "\<lambda>_. ()" "op_mem idle_ops" 20 72] by (auto simp: idle_ops_def)
  have a: "\<not> wr_isAborting w" "wr_pending w = (\<lambda>_. None)"
    using prepare_ok [OF w pl(1)] ok by (simp_all add: small_plan_def MAX_SAFE_INTEGER_def idle_ops_def)
  have h: "to_hex [10] = ''0a''" by code_simp
  obtain r fo where c: "createWithSize idle_ops (Inr [10]) (Inr small_populated) 20 new_file_object = (r, fo)" by fastforce
  have "r = None" "fo_mode fo = Some ObjectWrite" "fo_id fo = Some (to_hex [10])" "fo_writer fo = Some w"
    using c w pl by (auto simp: createWithSize_def Let_def truthy_def buildLoggerPrefix_def new_file_object_def)
  then show thesis using that c a unfolding h by blast
qed

theorem ambiguous_insert_leaves_phantom_witness:
  "\<exists>w2 :: unit fo_world. row_present ''0a'' (fw_trace w2) \<and> \<not> slices_present (fw_trace w2) \<and> \<not> named_put ''0a'' (fw_trace w2)"
proof -
  obtain fo where fo: "createWithSize idle_ops (Inr [10]) (Inr small_populated) 20 new_file_object = (None, fo)"
      "fo_mode fo = Some ObjectWrite" "fo_id fo = Some ''0a''"
      "\<exists>wr. fo_writer fo = Some wr \<and> \<not> wr_isAborting wr \<and> wr_pending wr = (\<lambda>_. None)" by (rule idle_created)
  define w :: "unit fo_world" where "w = \<lparr>fw_trace = [], fw_calls = 0, fw_dep = (\<lambda>_. Done)\<rparr>"
  let ?e = "plain_error ''timeout''"
  let ?v = "w\<lparr>fw_dep := (fw_dep w)(Suc (fw_calls w) := Ambiguous ?e)\<rparr>"
  have run: "fo_run idle_ops ''0a'' fo w" by (rule fo_run.created [OF fo(1)]) (code_simp, simp add: w_def)
  obtain wr where wr: "fo_writer fo = Some wr" "\<not> wr_isAborting wr" "wr_pending wr = (\<lambda>_. None)" using fo(4) by blast
  obtain r fo1 w1 where c: "commit_object idle_ops fo ?v = (r, fo1, w1)" by (metis prod.collapse)
  have st: "r = Some ?e" "fw_calls w1 = 2" "fo_mode fo1 = Some ObjectWrite" "fo_id fo1 = Some ''0a''" "fo_isPersisted fo1 = fo_isPersisted fo"
      "fw_dep w1 = fw_dep ?v" "fo_journaledPut fo1" "fo_writer fo1 = Some (wr\<lparr>wr_commitFailed := None\<rparr>)"
    using c fo(2,3) wr by (auto simp: commit_object_def writer_commit_def idle_ops_def settle_idle dep_call_def emit_def Let_def w_def)
  obtain r2 fo2 w2 where d: "delete_object idle_ops fo1 w1 = (r2, fo2, w2)" by (metis prod.collapse)
  have np: "\<not> fo_isPersisted fo" using createWithSize_new [OF fo(1)] by simp
  have ab: "fst (writer_abort (op_delete idle_ops) (wr\<lparr>wr_commitFailed := None\<rparr>)) = None"
    using wr(3) by (simp add: writer_abort_def Let_def idle_ops_def comp_def find_only_None)
  have r2: "r2 = None"
    using d st np ab by (auto simp: delete_object_def dep_call_def w_def Let_def emit_def remove_slices_def split: prod.splits if_splits)
  have "\<forall>k e. fw_dep w k \<noteq> Ambiguous e" by (simp add: w_def)
  from ambiguous_insert_leaves_phantom [OF run this c [unfolded st(1)] refl _ d [unfolded r2]] st(2)
  show ?thesis by (auto simp: w_def)
qed

section \<open>Storing and loading an object\<close>

lemma generatePlan_plan:
  assumes "generatePlan shuffle cfg n fleet = Some (Inr (plan, fleet'))" "\<And>vs. mset (shuffle vs) = mset vs"
    "0 \<le> cfg_dataSliceCount cfg" "0 \<le> cfg_paritySliceCount cfg"
  shows "\<exists>dv pv. int (length dv) = cfg_dataSliceCount cfg \<and> int (length pv) = cfg_paritySliceCount cfg \<and>
    computeSliceSize (new_plan\<lparr>p_fileSize := Some n, p_dataSliceCount := Some (cfg_dataSliceCount cfg),
      p_paritySliceCount := Some (cfg_paritySliceCount cfg), p_chunkSize := Some (cfg_chunkSize cfg), p_dataVolumes := dv, p_parityVolumes := pv\<rparr>) = Inr plan"
proof -
  have len: "length (shuffle vs) = length vs" for vs using assms(2) by (metis size_mset)
  let ?n = "nat (cfg_dataSliceCount cfg + cfg_paritySliceCount cfg)"
  obtain sorted where sorted: "\<not> length sorted < ?n" and c: "computeSliceSize (new_plan\<lparr>p_fileSize := Some n, p_dataSliceCount := Some (cfg_dataSliceCount cfg),
      p_paritySliceCount := Some (cfg_paritySliceCount cfg), p_chunkSize := Some (cfg_chunkSize cfg),
      p_dataVolumes := map v_id (take (nat (cfg_dataSliceCount cfg)) (shuffle (take ?n sorted))),
      p_parityVolumes := map v_id (take (nat (cfg_paritySliceCount cfg)) (drop (nat (cfg_dataSliceCount cfg)) (shuffle (take ?n sorted))))\<rparr>) = Inr plan"
    using assms(1) by (auto simp: generatePlan_def Let_def totalSliceCount_def bind_eq_Some_conv split: if_splits sum.splits)
  have l: "length (shuffle (take ?n sorted)) = ?n" using sorted by (simp add: len)
  have "int (length (map v_id (take (nat (cfg_dataSliceCount cfg)) (shuffle (take ?n sorted))))) = cfg_dataSliceCount cfg"
    "int (length (map v_id (take (nat (cfg_paritySliceCount cfg)) (drop (nat (cfg_dataSliceCount cfg)) (shuffle (take ?n sorted)))))) = cfg_paritySliceCount cfg"
    using assms(3,4) l by auto
  then show ?thesis using c by blast
qed

lemma created_object:
  assumes "createWithSize ops (Inr idBuf) (Inr plan) sz fo0 = (None, fo)"
  shows "\<exists>wr. fo = (buildLoggerPrefix (fo0\<lparr>fo_idBuf := Some idBuf, fo_id := Some (to_hex idBuf), fo_size := sz\<rparr>))
    \<lparr>fo_plan := Some plan, fo_hasVolumeReservations := True, fo_chunkSize := nat (the (p_chunkSize plan)),
     fo_dataSliceCount := nat (the (p_dataSliceCount plan)), fo_dataSliceVolumeIds := p_dataVolumes plan,
     fo_paritySliceCount := nat (the (p_paritySliceCount plan)), fo_paritySliceVolumeIds := p_parityVolumes plan,
     fo_writer := Some wr, fo_mode := Some ObjectWrite\<rparr>"
  using assms unfolding createWithSize_def Let_def sum.case by (auto split: if_splits prod.splits option.splits)

text \<open>
  The record of an object is complete: an object placed by the planner, described and stored, and then loaded
  from its record, has the same identifier, metadata, slice placement and chunk layout as the one that wrote it.
\<close>

theorem stored_object_reloads:
  fixes fo :: "'s file_object"
  assumes "generatePlan shuffle cfg (int sz) fleet = Some (Inr (plan, fleet'))" "\<And>vs. mset (shuffle vs) = mset vs"
    and "plan_ok (int sz) (cfg_dataSliceCount cfg) (cfg_chunkSize cfg)" "0 \<le> cfg_paritySliceCount cfg"
    and "createWithSize ops (Inr idBuf) (Inr plan) sz new_file_object = (None, fo)"
    and "stored = fo\<lparr>fo_name := Some nm, fo_mime := mi, fo_containerId := ci, fo_bucketId := bi, fo_md5 := m\<rparr>" "ci \<noteq> Some []" "bi \<noteq> Some []"
    and "back = loadFromRecord (dbObject (to_hex idBuf) stored) (new_file_object :: 's file_object)"
  shows "fo_id back = fo_id stored \<and> fo_idBuf back = fo_idBuf stored \<and> fo_size back = fo_size stored \<and> fo_name back = fo_name stored \<and>
    fo_mime back = non_empty (fo_mime stored) \<and> fo_containerId back = fo_containerId stored \<and> fo_bucketId back = fo_bucketId stored \<and>
    fo_md5 back = fo_md5 stored \<and> fo_chunkSize back = fo_chunkSize stored \<and> fo_dataSliceCount back = fo_dataSliceCount stored \<and>
    fo_paritySliceCount back = fo_paritySliceCount stored \<and> fo_dataSliceVolumeIds back = fo_dataSliceVolumeIds stored \<and>
    fo_paritySliceVolumeIds back = fo_paritySliceVolumeIds stored \<and> fo_plan back = fo_plan stored"
proof -
  have nn: "0 \<le> cfg_dataSliceCount cfg" and nc: "int (nat (cfg_chunkSize cfg)) = cfg_chunkSize cfg" using assms(3) by (simp_all add: plan_ok_def)
  obtain dv pv where len: "int (length dv) = cfg_dataSliceCount cfg" "int (length pv) = cfg_paritySliceCount cfg"
    and c: "computeSliceSize (new_plan\<lparr>p_fileSize := Some (int sz), p_dataSliceCount := Some (cfg_dataSliceCount cfg),
      p_paritySliceCount := Some (cfg_paritySliceCount cfg), p_chunkSize := Some (cfg_chunkSize cfg), p_dataVolumes := dv, p_parityVolumes := pv\<rparr>) = Inr plan"
    using generatePlan_plan [OF assms(1,2) nn assms(4)] by blast
  have pl: "p_dataSliceCount plan = Some (cfg_dataSliceCount cfg)" "p_paritySliceCount plan = Some (cfg_paritySliceCount cfg)"
      "p_chunkSize plan = Some (cfg_chunkSize cfg)" "p_dataVolumes plan = dv" "p_parityVolumes plan = pv"
    using populate_layout [of "new_plan\<lparr>p_fileSize := Some (int sz), p_dataSliceCount := Some (cfg_dataSliceCount cfg),
      p_paritySliceCount := Some (cfg_paritySliceCount cfg), p_chunkSize := Some (cfg_chunkSize cfg), p_dataVolumes := dv, p_parityVolumes := pv\<rparr>", OF _ _ _ assms(3)]
      c [unfolded computeSliceSize_def] by auto
  have n: "nat (cfg_dataSliceCount cfg) = length dv" "nat (cfg_paritySliceCount cfg) = length pv" using len by simp_all
  have fo: "fo_id fo = Some (to_hex idBuf)" "fo_idBuf fo = Some idBuf" "fo_size fo = sz" "fo_plan fo = Some plan"
      "fo_chunkSize fo = nat (cfg_chunkSize cfg)" "fo_dataSliceCount fo = length dv" "fo_paritySliceCount fo = length pv"
      "fo_dataSliceVolumeIds fo = dv" "fo_paritySliceVolumeIds fo = pv"
    using created_object [OF assms(5)] by (auto simp: pl n buildLoggerPrefix_def Let_def)
  have c': "computeSliceSize (new_plan\<lparr>p_fileSize := Some (int sz), p_chunkSize := Some (cfg_chunkSize cfg),
      p_dataSliceCount := Some (int (length dv)), p_paritySliceCount := Some (int (length pv)), p_dataVolumes := dv, p_parityVolumes := pv\<rparr>) = Inr plan"
    using c len by (simp add: new_plan_def)
  have m: "toBuffer (md5_value x) = x" for x by (simp add: md5_value_def split: option.splits)
  define r where "r = dbObject (to_hex idBuf) stored"
  have r: "so_id r = to_hex idBuf" "so_size r = sz" "so_name r = nm" "so_md5 r = md5_value m" "so_chunkSize r = nat (cfg_chunkSize cfg)"
      "so_dataVolumes r = dv" "so_parityVolumes r = pv" "so_containerId r = ci" "so_bucketId r = bi" "so_mime r = non_empty mi"
    by (simp_all add: r_def dbObject_def toStoredObjectRecord_def Let_def assms(6) fo non_empty_def)
  show ?thesis
    unfolding assms(9) r_def [symmetric]
    by (simp add: loadFromRecord_def Let_def r fo m buildLoggerPrefix_def nc c' assms(6-8) non_empty_def del: int_nat_eq)
qed

theorem stored_object_reloads_witness:
  "\<exists>plan fleet' fo. generatePlan rev \<lparr>cfg_dataSliceCount = 2, cfg_paritySliceCount = 1, cfg_chunkSize = 4096\<rparr> (int 1000)
     [sample_volume 1 (Some 0) 500, sample_volume 2 (Some 0) 900, sample_volume 3 None 100, sample_volume 4 None 7] = Some (Inr (plan, fleet')) \<and>
   createWithSize idle_ops (Inr [10, 11]) (Inr plan) 1000 new_file_object = (None, fo) \<and>
   fo_plan (loadFromRecord (dbObject (to_hex [10, 11]) (fo\<lparr>fo_name := Some ''n'', fo_mime := None, fo_containerId := None, fo_bucketId := None,
     fo_md5 := None\<rparr>)) (new_file_object :: unit file_object)) = Some plan"
proof -
  let ?cfg = "\<lparr>cfg_dataSliceCount = 2, cfg_paritySliceCount = 1, cfg_chunkSize = 4096\<rparr>"
  let ?f = "[sample_volume 1 (Some 0) 500, sample_volume 2 (Some 0) 900, sample_volume 3 None 100, sample_volume 4 None 7]"
  have ok: "plan_ok (int 1000) (cfg_dataSliceCount ?cfg) (cfg_chunkSize ?cfg)" by (simp add: plan_ok_def)
  have w: "\<not> length (getWritableVolumes ?f) < nat (cfg_dataSliceCount ?cfg + cfg_paritySliceCount ?cfg)"
    by (simp add: getWritableVolumes_def sample_volume_def new_volume_def isWritable_def)
  have "distinct (map v_id ?f)" by (simp add: sample_volume_def new_volume_def)
  then obtain plan fleet' where g: "generatePlan rev ?cfg (int 1000) ?f = Some (Inr (plan, fleet'))"
    using generatePlan_run [of ?f rev "int 1000" ?cfg] ok w by fastforce
  obtain dv pv where c: "computeSliceSize (new_plan\<lparr>p_fileSize := Some (int 1000), p_dataSliceCount := Some 2,
      p_paritySliceCount := Some 1, p_chunkSize := Some 4096, p_dataVolumes := dv, p_parityVolumes := pv\<rparr>) = Inr plan"
    using generatePlan_plan [OF g] by auto
  define base where "base = new_plan\<lparr>p_fileSize := Some (int 1000), p_dataSliceCount := Some 2,
      p_paritySliceCount := Some 1, p_chunkSize := Some 4096, p_dataVolumes := dv, p_parityVolumes := pv\<rparr>"
  have pl: "layout_of plan = Some (mk_layout 1000 2 4096)" "p_chunkSize plan = Some 4096" "p_dataSliceCount plan = Some 2" "p_paritySliceCount plan = Some 1"
    using populate_layout [of base 1000 2 4096] c ok by (auto simp: base_def [symmetric] computeSliceSize_def) (auto simp: base_def)
  obtain wr where "writer_prepare (op_rsCreate idle_ops) (op_mem idle_ops) (Some plan) (op_make idle_ops) (op_create idle_ops)
      (new_writer 1000 4096 2 1) = (None, wr)"
    using prepare_total [OF c [unfolded computeSliceSize_def] pl(1), of "op_rsCreate idle_ops" 2 1 "op_create idle_ops" "\<lambda>_. ()" "op_mem idle_ops" 1000 4096]
    by (auto simp: idle_ops_def)
  then obtain fo where fo: "createWithSize idle_ops (Inr [10, 11]) (Inr plan) 1000 new_file_object = (None, fo)" "fo_plan fo = Some plan"
    using pl by (auto simp: createWithSize_def Let_def truthy_def buildLoggerPrefix_def new_file_object_def)
  show ?thesis
    using g fo stored_object_reloads [OF g _ ok _ fo(1) refl _ _ refl, where ci = None and bi = None and mi = None and m = None and nm = "''n''"] by simp
qed

section \<open>The I/O lock\<close>

text \<open>
  Uses of the lock: \<open>waits\<close> is the promise each caller awaits, \<open>res\<close> the resolved promises. A caller has the lock
  once the promise it awaits, if any, is resolved.
\<close>

inductive lock_run :: "'s file_object \<Rightarrow> (nat \<Rightarrow> nat option) \<Rightarrow> nat set \<Rightarrow> bool" where
  unlocked: "lock_run new_file_object (\<lambda>_. None) {}"
| acquired: "lock_run fo waits res \<Longrightarrow> acquireIOLock fo = ((t, prev), fo') \<Longrightarrow> lock_run fo' (waits(t := prev)) res"
| released: "lock_run fo waits res \<Longrightarrow> releaseIOLock fo = (Some t, fo') \<Longrightarrow> lock_run fo' waits (insert t res)"

definition granted :: "(nat \<Rightarrow> nat option) \<Rightarrow> nat set \<Rightarrow> nat \<Rightarrow> bool" where
  "granted waits res t \<longleftrightarrow> (case waits t of None \<Rightarrow> True | Some u \<Rightarrow> u \<in> res)"

definition chained :: "nat list \<Rightarrow> (nat \<Rightarrow> nat option) \<Rightarrow> nat set \<Rightarrow> bool" where
  "chained q waits res \<longleftrightarrow> distinct q \<and> set q \<inter> res = {} \<and> (\<forall>k. Suc k < length q \<longrightarrow> waits (q ! Suc k) = Some (q ! k)) \<and>
     (q \<noteq> [] \<longrightarrow> granted waits res (hd q))"

lemma chained_drop:
  assumes "chained (p # q) waits res"
  shows "chained q waits (insert p res)"
proof -
  have w: "waits (q ! Suc k) = Some (q ! k)" if "Suc k < length q" for k
    using assms that by (auto simp: chained_def dest: spec [of _ "Suc k"])
  have "granted waits (insert p res) (hd q)" if "q \<noteq> []"
    using assms that by (auto simp: chained_def granted_def hd_conv_nth dest: spec [of _ 0])
  then show ?thesis using assms w by (auto simp: chained_def)
qed

lemma lock_run_chained:
  assumes "lock_run fo waits res"
  shows "chained (fo_lockPromises fo) waits res \<and> (\<forall>t \<in> set (fo_lockPromises fo) \<union> res. t < fo_nextPromise fo)"
  using assms
proof induction
  case unlocked
  then show ?case by (simp add: chained_def new_file_object_def buildLoggerPrefix_def Let_def)
next
  case (acquired fo waits res t prev fo')
  let ?q = "fo_lockPromises fo"
  have t: "t = fo_nextPromise fo" "prev = (if ?q = [] then None else Some (last ?q))" "fo_lockPromises fo' = ?q @ [t]" "fo_nextPromise fo' = Suc t"
    using acquired(2) by (auto simp: acquireIOLock_def Let_def)
  have fresh: "t \<notin> set ?q" "t \<notin> res" using acquired.IH t(1) by auto
  have old: "(waits(t := prev)) u = waits u" if "u \<in> set ?q" for u using that fresh by auto
  have "(waits(t := prev)) ((?q @ [t]) ! Suc k) = Some ((?q @ [t]) ! k)" if "Suc k < length (?q @ [t])" for k
  proof (cases "Suc k < length ?q")
    case True
    then show ?thesis using acquired.IH old [of "?q ! Suc k"] by (simp add: chained_def nth_append)
  next
    case False
    then have k: "length ?q = Suc k" using that by simp
    then have "last ?q = ?q ! k" by (metis diff_Suc_1 last_conv_nth length_0_conv nat.distinct(1))
    then show ?thesis using t(2) k by (auto simp: nth_append)
  qed
  moreover have "granted (waits(t := prev)) res (hd (?q @ [t]))"
    using acquired.IH old [of "hd ?q"] t(2) by (cases ?q) (auto simp: chained_def granted_def)
  moreover have "distinct (?q @ [t])" "set (?q @ [t]) \<inter> res = {}" using acquired.IH fresh unfolding chained_def by auto
  ultimately have "chained (?q @ [t]) (waits(t := prev)) res" unfolding chained_def by blast
  moreover have "\<forall>u \<in> set (?q @ [t]) \<union> res. u < Suc t" using acquired.IH t(1) by (auto simp: less_Suc_eq)
  ultimately show ?case unfolding t(3,4) by blast
next
  case (released fo waits res t fo')
  obtain q where "fo_lockPromises fo = t # q" "fo_lockPromises fo' = q" "fo_nextPromise fo' = fo_nextPromise fo"
    using released(2) by (auto simp: releaseIOLock_def split: list.splits)
  then show ?case using released.IH chained_drop [of t q waits res] by auto
qed

text \<open>
  The I/O lock of an object is exclusive and first come, first served: of the callers in line exactly the
  first has it, and the caller with \<open>k\<close> others before it has it after \<open>k\<close> releases.
\<close>

theorem io_lock_fair:
  assumes "lock_run fo waits res"
  shows "(\<forall>t \<in> set (fo_lockPromises fo). granted waits res t \<longleftrightarrow> t = hd (fo_lockPromises fo)) \<and>
    (\<forall>k < length (fo_lockPromises fo). granted waits (res \<union> set (take k (fo_lockPromises fo))) (fo_lockPromises fo ! k) \<and>
      hd (fo_lockPromises (((snd \<circ> releaseIOLock) ^^ k) fo)) = fo_lockPromises fo ! k)"
proof -
  let ?q = "fo_lockPromises fo"
  have c: "chained ?q waits res" using lock_run_chained [OF assms] by simp
  have next_waits: "waits (?q ! Suc k) = Some (?q ! k)" if "Suc k < length ?q" for k using c that unfolding chained_def by blast
  have "granted waits res t \<longleftrightarrow> t = hd ?q" if mem: "t \<in> set ?q" for t
  proof -
    obtain k where k: "k < length ?q" "t = ?q ! k" using mem by (metis in_set_conv_nth)
    show ?thesis
    proof (cases k)
      case 0
      then have "t = hd ?q" using k by (metis hd_conv_nth length_0_conv not_less0)
      then show ?thesis using c k unfolding chained_def by auto
    next
      case (Suc j)
      have "waits t = Some (?q ! j)" using next_waits [of j] k Suc by simp
      moreover have "?q ! j \<in> set ?q" using k Suc by simp
      then have "?q ! j \<notin> res" using c unfolding chained_def by blast
      moreover have "distinct ?q" "0 < length ?q" using c k Suc unfolding chained_def by auto
      then have "t \<noteq> ?q ! 0" using k Suc nth_eq_iff_index_eq [of ?q k 0] by simp
      then have "t \<noteq> hd ?q" using k by (metis hd_conv_nth length_0_conv not_less0)
      ultimately show ?thesis by (simp add: granted_def)
    qed
  qed
  moreover have "granted waits (res \<union> set (take k ?q)) (?q ! k)" if "k < length ?q" for k
  proof (cases k)
    case 0
    then have "?q ! k = hd ?q" using that by (metis hd_conv_nth length_0_conv not_less0)
    then show ?thesis using c that 0 unfolding chained_def by auto
  next
    case (Suc j)
    then have "waits (?q ! k) = Some (?q ! j)" using next_waits [of j] that by simp
    moreover have "?q ! j \<in> set (take k ?q)" using that Suc by (auto simp: in_set_conv_nth intro!: exI [of _ j])
    ultimately show ?thesis by (simp add: granted_def)
  qed
  moreover have "fo_lockPromises (((snd \<circ> releaseIOLock) ^^ k) fo) = drop k ?q" for k
  proof (induction k)
    case (Suc k)
    have "fo_lockPromises (snd (releaseIOLock x)) = tl (fo_lockPromises x)" for x :: "'a file_object"
      by (simp add: releaseIOLock_def split: list.splits)
    then show ?case using Suc by (simp add: drop_Suc tl_drop)
  qed simp
  ultimately show ?thesis by (auto simp: hd_drop_conv_nth)
qed

theorem io_lock_fair_witness:
  "\<not> granted ((\<lambda>_. None)(0 := None, 1 := Some 0)) {} 1 \<and> granted ((\<lambda>_. None)(0 := None, 1 := Some 0)) {0} 1"
proof -
  let ?a = "snd (acquireIOLock (new_file_object :: unit file_object))"
  let ?b = "snd (acquireIOLock ?a)"
  have s: "acquireIOLock (new_file_object :: unit file_object) = ((0, None), ?a)" "acquireIOLock ?a = ((1, Some 0), ?b)"
      "fo_lockPromises ?b = [0, 1]"
    by (simp_all add: acquireIOLock_def Let_def new_file_object_def buildLoggerPrefix_def)
  have "lock_run ?b ((\<lambda>_. None)(0 := None, 1 := Some 0)) {}"
    by (rule lock_run.acquired [OF lock_run.acquired [OF lock_run.unlocked s(1)] s(2)])
  from io_lock_fair [OF this] show ?thesis unfolding s(3) by (auto dest: spec [of _ 1])
qed

end
