(* ===== verification/Object_Roundtrip.thy ===== *)
theory Object_Roundtrip
  imports Object_Read Writer_Frame
begin

text \<open>
  An object from the upload to the download: the writer of \<open>Object_Writer\<close> on the slices of the disks, its
  commit, and the reader of \<open>Object_Reader\<close> on the slices of a later process, some of which may be lost.
\<close>

section \<open>The slices of an upload\<close>

text \<open>A slice as the plan hands it to an upload: on a writable volume, and no system call fails.\<close>

definition upload_slice :: "(bytes \<Rightarrow> bytes) \<Rightarrow> nat \<Rightarrow> nat \<Rightarrow> disk_slice \<Rightarrow> bool" where
  "upload_slice md5 C i s \<longleftrightarrow> snd s = [] \<and> (\<exists>h. ready_to_write md5 (fst s) h) \<and>
     length (sr_idBuf (sl_ref (w_slice (fst s)))) = 12 \<and> sr_chunkSize (sl_ref (w_slice (fst s))) = int C \<and>
     sr_sliceIndex (sl_ref (w_slice (fst s))) = i"

text \<open>The slice after its creation and any number of writes.\<close>

definition uploading :: "disk_slice \<Rightarrow> disk_slice \<Rightarrow> bool" where
  "uploading s0 s \<longleftrightarrow> snd s = [] \<and> writing (fst s) \<and> sl_ref (w_slice (fst s)) = sl_ref (w_slice (fst s0)) \<and>
     sl_fileName (w_slice (fst s)) = sl_fileName (w_slice (fst s0)) \<and>
     (\<exists>t. w_vol (fst s) = (w_vol (fst s0))\<lparr>v_tmp := t\<rparr>)"

lemma put_uploading: "put_slice md5 data s = (r, s') \<Longrightarrow> uploading s0 s \<Longrightarrow> uploading s0 s'"
  by (auto simp: put_slice_def uploading_def next_env_def slice_writeChunk_def writing_def Let_def appendTemporary_def
      split: prod.splits if_splits option.splits)

lemma create_uploading:
  assumes "upload_slice md5 C i s" "n + 16 \<le> C"
  shows "\<exists>h s'. on_slice (slice_create md5) s = (None, s') \<and> uploading s s' \<and> accepts_chunks n s' \<and>
    slice_header md5 (sl_ref (w_slice (fst s))) = Inr h \<and> slice_bytes s' = h"
proof -
  obtain h where h: "ready_to_write md5 (fst s) h" using assms(1) by (auto simp: upload_slice_def)
  from create_quiet [OF h] assms h show ?thesis
    by (auto simp: on_slice_def next_env_def upload_slice_def uploading_def accepts_chunks_def slice_bytes_def ready_to_write_def)
qed

definition committed_as :: "bytes \<Rightarrow> disk_slice \<Rightarrow> disk_slice \<Rightarrow> bool" where
  "committed_as f s0 s \<longleftrightarrow> snd s = [] \<and> sl_ref (w_slice (fst s)) = sl_ref (w_slice (fst s0)) \<and>
     sl_fileName (w_slice (fst s)) = sl_fileName (w_slice (fst s0)) \<and> guard_writable (w_vol (fst s)) = None \<and>
     v_committed (w_vol (fst s)) (sl_fileName (w_slice (fst s))) = Some f"

lemma guard_applied [simp]: "guard_writable (applyCommittedBytes r n t v) = guard_writable v"
proof -
  have "v_isHealthy (applyCommittedBytes r n t v) = v_isHealthy v" "v_isReadOnly (applyCommittedBytes r n t v) = v_isReadOnly v"
    "v_isDraining (applyCommittedBytes r n t v) = v_isDraining v"
    by (simp_all add: book_defs Let_def split: slice_type.split option.split)
  then show ?thesis by (simp add: guard_writable_def isWritable_def)
qed

lemma commit_uploading:
  assumes "uploading s0 s" "slice_bytes s = f" "f \<noteq> []" "guard_writable (w_vol (fst s0)) = None"
  shows "\<exists>s1 s2. on_slice slice_close s = (None, s1) \<and> on_slice slice_commit s1 = (None, s2) \<and> committed_as f s0 s2"
proof -
  obtain w1 where w1: "slice_close quiet_env (fst s) = (None, w1)" "w_vol w1 = w_vol (fst s)"
    "sl_fileName (w_slice w1) = sl_fileName (w_slice (fst s))" "sl_ref (w_slice w1) = sl_ref (w_slice (fst s))"
    "\<not> sl_isPerformingIO (w_slice w1)"
    using close_quiet [of "fst s"] assms(1) by (auto simp: uploading_def)
  have u: "snd s = []" "sl_ref (w_slice (fst s)) = sl_ref (w_slice (fst s0))"
    "sl_fileName (w_slice (fst s)) = sl_fileName (w_slice (fst s0))" 
    using assms(1) by (simp_all add: uploading_def)
  obtain t where v: "w_vol (fst s) = (w_vol (fst s0))\<lparr>v_tmp := t\<rparr>" using assms(1) by (auto simp: uploading_def)
  have tmp: "v_tmp (w_vol (fst s)) (sl_fileName (w_slice (fst s0))) = Some f"
    using assms(2,3) u(3) by (auto simp: slice_bytes_def split: option.splits)
  have g: "guard_writable (w_vol (fst s)) = None" using assms(4) by (simp add: v)
  show ?thesis
    using w1 u tmp g
    by (auto simp: on_slice_def next_env_def slice_commit_def commitTemporaryFile_def committed_as_def Let_def)
qed

lemma settle_each:
  assumes "\<And>i. i < length ss \<Longrightarrow> op (ss ! i) = (None, f i)"
  shows "settle_all op ss = (None, map f [0..<length ss])"
proof -
  have "map op ss = map (\<lambda>i. (None, f i)) [0..<length ss]" by (rule nth_equalityI) (simp_all add: assms)
  then have "map snd (map op ss) = map f [0..<length ss]" by (simp add: comp_def)
  moreover have "fst (settle_all op ss) = None" unfolding settle_all_None by (auto simp: in_set_conv_nth assms)
  ultimately show ?thesis by (simp add: prod_eq_iff) (simp add: settle_all_def Let_def)
qed

section \<open>The slices of a download\<close>

text \<open>A fresh slice on the volume as it was left, and one whose file is gone or whose volume fails otherwise.\<close>

definition reopens :: "disk_slice \<Rightarrow> disk_slice \<Rightarrow> bool" where
  "reopens s s' \<longleftrightarrow> snd s' = [] \<and> sl_ref (w_slice (fst s')) = sl_ref (w_slice (fst s)) \<and>
     sl_fileName (w_slice (fst s')) = sl_fileName (w_slice (fst s)) \<and> sl_inputFh (w_slice (fst s')) = None \<and>
     w_vol (fst s') = w_vol (fst s)"

definition lost_slice :: "disk_slice \<Rightarrow> bool" where
  "lost_slice s \<longleftrightarrow> calm_slice s \<and> sl_inputFh (w_slice (fst s)) = None \<and>
     v_committed (w_vol (fst s)) (sl_fileName (w_slice (fst s))) = None"

lemma reopened_stored:
  assumes "upload_slice md5 C i s0" "slice_header md5 (sl_ref (w_slice (fst s0))) = Inr h"
    "committed_as (h @ records md5 cs) s0 s" "reopens s s'" "\<forall>c \<in> set cs. 16 + length c \<le> C"
  shows "stored_slice md5 cs s'" "isReadable (w_vol (fst s'))" "sr_sliceIndex (sl_ref (w_slice (fst s'))) = i" "calm_slice s'"
  using assms
  by (auto simp: stored_slice_def committed_as_def reopens_def upload_slice_def fits_def guard_writable_def isWritable_def isReadable_def
      calm_slice_def split: if_splits)

lemma stored_good:
  assumes "write_job g par enc P" "i < totalSlices g" "digest16 md5" "stored_slice md5 (slice_chunks par g P i) s" "sl_inputFh (w_slice (fst s)) = None"
  shows "good_slice md5 (b_startChunkDataSize g) (b_standardChunkDataSize g) (slice_chunks par g P i) s"
  using stored_live [OF assms(1-4)] assms(5) by (auto simp: live_slice_def good_slice_def whole_file_def honest_file_def)

lemma lost_good: "lost_slice s \<Longrightarrow> good_slice md5 S T cs s"
  by (simp add: lost_slice_def good_slice_def)

section \<open>The upload\<close>

lemma write_parts_isAborting: "write_parts enc put ds w = Some (r, w') \<Longrightarrow> wr_isAborting w' = wr_isAborting w"
  by (induction ds arbitrary: w) (auto split: option.splits prod.splits dest!: writer_write_books)

lemma prepare_geom:
  assumes "writer_prepare rsCreate mem (Some pl') mk create (new_writer sz C d p :: 's writer) = (None, w)"
    "configureInternals rsCreate mem (Some pl') (new_base sz C d p) = Inr g"
  shows "geom w = geom g"
proof -
  obtain w1 where w1: "configureInternals rsCreate mem (Some pl') (new_writer sz C d p :: 's writer) = Inr w1"
    using assms(1) by (auto simp: writer_prepare_def writer_configureInternals_def split: sum.splits)
  have "geom w1 = geom g"
    by (rule configureInternals_geom [OF w1 assms(2)]) (simp add: new_writer_def new_base_def base.defs)
  then show ?thesis
    using assms(1) by (auto simp: writer_prepare_def writer_configureInternals_def w1 Let_def split: sum.splits prod.splits)
qed

lemma upload_ok:
  fixes mk :: "nat \<Rightarrow> disk_slice"
  assumes lay: "object_layout rsCreate mem pl' sz C d p g" and law: "rs_law d p enc par" and md5: "digest16 md5"
    and mk: "\<And>i. i < d + p \<Longrightarrow> upload_slice md5 C i (mk i)"
    and D: "concat parts = D" "length D = sz"
  shows "\<exists>w w1 w2 w3. writer_prepare rsCreate mem (Some pl') (\<lambda>i. Inr (mk i)) (on_slice (slice_create md5)) (new_writer sz C d p) = (None, w) \<and>
    write_parts enc (put_slice md5) parts w = Some (None, w1) \<and> writer_finish md5 enc (put_slice md5) w1 = (None, w2) \<and>
    wr_md5 w2 = Some (md5 D) \<and> writer_commit (on_slice slice_close) (on_slice slice_commit) w2 = (None, w3) \<and>
    length (wr_slices w3) = d + p \<and> (\<forall>i < d + p. \<exists>h. slice_header md5 (sl_ref (w_slice (fst (mk i)))) = Inr h \<and>
      committed_as (h @ records md5 (slice_chunks par g (padded g D) i)) (mk i) (wr_slices w3 ! i))"
proof -
  obtain pl where conf: "configureInternals rsCreate mem (Some pl') (new_base sz C d p) = Inr g"
    and pl: "populatePlanDerivedFields pl = Inr pl'" "p_fileSize pl = Some (int sz)" "p_dataSliceCount pl = Some (int d)"
      "p_chunkSize pl = Some (int C)" "plan_ok (int sz) (int d) (int C)" and dims: "0 < p" "d + p \<le> 32"
      "sz < MAX_SAFE_INTEGER" "\<And>n. length (mem n) = n"
    using lay by (auto simp: object_layout_def)
  have rs: "rsCreate d p = None" using conf by (auto simp: configureInternals_def new_base_def split: option.splits)
  note lf = layout_facts [OF lay law D(2)]
  have ok: "base_ok g" using lf(1) by (simp add: write_job_def)
  then have T: "b_standardChunkDataSize g + 16 \<le> C" using lf(5) by (simp add: base_ok_def)
  note cr = create_uploading [OF mk T]
  have lo: "layout_of pl' = Some (mk_layout (int sz) (int d) (int C))" using populate_layout [OF pl(2-5)] pl(1) by auto
  have fst: "fst (on_slice (slice_create md5) (mk i)) = None" if "i < d + p" for i using cr [OF that] by auto
  obtain w where w: "writer_prepare rsCreate mem (Some pl') (\<lambda>i. Inr (mk i)) (on_slice (slice_create md5)) (new_writer sz C d p) = (None, w)"
    and ws: "wr_slices w = map (\<lambda>i. snd (on_slice (slice_create md5) (mk i))) [0..<d + p]"
    using prepare_total [where create = "on_slice (slice_create md5)" and f = mk and rsCreate = rsCreate and d = d and p = p, OF pl(1) lo rs fst] by blast
  have gw: "geom w = geom g" by (rule prepare_geom [OF w conf])
  note gs = geom_spec [OF gw]
  have P: "padded w D = padded g D" using gs by (simp add: padded_def)
  have up: "all_slices (\<lambda>i. uploading (mk i)) (d + p) w" using cr by (force simp: all_slices_def ws)
  have acc: "\<forall>i < d + p. accepts_chunks (b_standardChunkDataSize w) (wr_slices w ! i)" using cr gs by (force simp: ws)
  obtain w1 w2 where w1: "write_parts enc (put_slice md5) parts w = Some (None, w1)" and w2: "writer_finish md5 enc (put_slice md5) w1 = (None, w2)"
    and m: "wr_md5 w2 = Some (md5 D)" and content: "\<And>i. i < d + p \<Longrightarrow> slice_bytes (wr_slices w2 ! i) =
         slice_bytes (wr_slices w ! i) @ records md5 (slice_chunks par g (padded g D) i)"
  proof -
    have "\<forall>i < d + p. slice_held (\<lambda>_. True) i (wr_slices w ! i) (slice_bytes (wr_slices w ! i))"
      using up by (auto simp: slice_held_def never_short_def all_slices_def uploading_def)
    from write_object_ok [OF w pl dims law D this, of md5] acc show thesis
      using that unfolding P gs(4,6) slice_chunks_def by (auto simp: slice_held_def)
  qed
  have put: "put_slice md5 x s = (r, s') \<Longrightarrow> uploading (mk i) s \<Longrightarrow> uploading (mk i) s'" for i x s r s' by (rule put_uploading)
  have up1: "all_slices (\<lambda>i. uploading (mk i)) (d + p) w1" by (rule write_parts_keeps [OF put w1 up])
  have up2: "all_slices (\<lambda>i. uploading (mk i)) (d + p) w2" by (rule writer_finish_keeps [OF put w2 up1])
  have "\<exists>h s1 s2. slice_header md5 (sl_ref (w_slice (fst (mk i)))) = Inr h \<and> on_slice slice_close (wr_slices w2 ! i) = (None, s1) \<and>
      on_slice slice_commit s1 = (None, s2) \<and> committed_as (h @ records md5 (slice_chunks par g (padded g D) i)) (mk i) s2" if i: "i < d + p" for i
  proof -
    obtain h where h: "slice_header md5 (sl_ref (w_slice (fst (mk i)))) = Inr h" "slice_bytes (wr_slices w ! i) = h"
      using cr [OF i] i by (auto simp: ws)
    have mki: "length (sr_idBuf (sl_ref (w_slice (fst (mk i))))) = 12" "guard_writable (w_vol (fst (mk i))) = None"
      using mk [OF i] by (auto simp: upload_slice_def ready_to_write_def)
    have "length h = 48" by (rule header_fields(1) [OF h(1) mki(1) md5])
    then show ?thesis
      using commit_uploading [of "mk i" "wr_slices w2 ! i", OF _ content [OF i] _ mki(2)] up2 i h by (fastforce simp: all_slices_def)
  qed
  then obtain hd s1 s2 where c: "\<And>i. i < d + p \<Longrightarrow> slice_header md5 (sl_ref (w_slice (fst (mk i)))) = Inr (hd i) \<and>
      on_slice slice_close (wr_slices w2 ! i) = (None, s1 i) \<and> on_slice slice_commit (s1 i) = (None, s2 i) \<and>
      committed_as (hd i @ records md5 (slice_chunks par g (padded g D) i)) (mk i) (s2 i)" by metis
  have n: "length (wr_slices w2) = d + p" using up2 by (simp add: all_slices_def)
  have "settle_all (on_slice slice_close) (wr_slices w2) = (None, map s1 [0..<d + p])"
    using settle_each [of "wr_slices w2" "on_slice slice_close" s1] c n by simp
  moreover have "settle_all (on_slice slice_commit) (map s1 [0..<d + p]) = (None, map s2 [0..<d + p])"
    using settle_each [of "map s1 [0..<d + p]" "on_slice slice_commit" s2] c by simp
  moreover have "\<not> wr_isAborting w2"
    using prepare_ok [OF w pl dims] write_parts_isAborting [OF w1] writer_finish_books [OF w2] by simp
  ultimately have "writer_commit (on_slice slice_close) (on_slice slice_commit) w2 = (None, w2\<lparr>wr_slices := map s2 [0..<d + p], wr_commitFailed := None\<rparr>)"
    by (simp add: writer_commit_def)
  then show ?thesis using w w1 w2 m c by fastforce
qed

section \<open>The download\<close>

text \<open>The slices a later process finds for an upload whose slices are \<open>ss\<close>, those in \<open>L\<close> lost.\<close>

definition found :: "nat set \<Rightarrow> disk_slice list \<Rightarrow> (nat \<Rightarrow> disk_slice) \<Rightarrow> bool" where
  "found L ss sl \<longleftrightarrow> (\<forall>i < length ss. if i \<in> L then lost_slice (sl i) else reopens (ss ! i) (sl i))"

lemma found_readable:
  assumes lay: "object_layout rsCreate mem pl' sz C d p g" and law: "rs_law d p enc par" and md5: "digest16 md5" and D: "length D = sz"
    and mk: "\<And>i. i < d + p \<Longrightarrow> upload_slice md5 C i (mk i)"
    and st: "\<forall>i < d + p. \<exists>h. slice_header md5 (sl_ref (w_slice (fst (mk i)))) = Inr h \<and>
      committed_as (h @ records md5 (slice_chunks par g (padded g D) i)) (mk i) (ss ! i)"
    and f: "found L ss sl" "length ss = d + p" and L: "L \<subseteq> {..<d + p}" "card L \<le> p" "set un \<subseteq> L"
  shows "\<forall>i < d + p. good_slice md5 (b_startChunkDataSize g) (b_standardChunkDataSize g) (slice_chunks par g (padded g D) i) (sl i)"
    "readable_quorum md5 par g (padded g D) un d p sl"
proof -
  note lf = layout_facts [OF lay law D]
  have ok: "base_ok g" using lf(1) by (simp add: write_job_def)
  have fit: "\<forall>c \<in> set (slice_chunks par g (padded g D) i). 16 + length c \<le> C" if "i < d + p" for i
  proof
    fix c assume "c \<in> set (slice_chunks par g (padded g D) i)"
    then obtain j where j: "j < set_count g" "c = slice_chunk par g (padded g D) i j" by (auto simp: slice_chunks_def)
    have "length c = csize g j" using chunk_length(1) [OF lf(1) j(1), of i] that lf(6,7) by (simp add: j(2))
    then show "16 + length c \<le> C" using csize_le [OF ok, of j] lf(5) ok by (simp add: base_ok_def)
  qed
  have kept: "stored_slice md5 (slice_chunks par g (padded g D) i) (sl i) \<and> isReadable (w_vol (fst (sl i))) \<and>
      sr_sliceIndex (sl_ref (w_slice (fst (sl i)))) = i \<and> calm_slice (sl i) \<and> sl_inputFh (w_slice (fst (sl i))) = None"
    if i: "i < d + p" "i \<notin> L" for i
  proof -
    obtain h where h: "slice_header md5 (sl_ref (w_slice (fst (mk i)))) = Inr h"
        "committed_as (h @ records md5 (slice_chunks par g (padded g D) i)) (mk i) (ss ! i)" using st i by blast
    have r: "reopens (ss ! i) (sl i)" using f i by (simp add: found_def)
    show ?thesis using reopened_stored [OF mk [OF i(1)] h r fit [OF i(1)]] r by (simp add: reopens_def)
  qed
  show "\<forall>i < d + p. good_slice md5 (b_startChunkDataSize g) (b_standardChunkDataSize g) (slice_chunks par g (padded g D) i) (sl i)"
  proof (intro allI impI)
    fix i assume i: "i < d + p"
    show "good_slice md5 (b_startChunkDataSize g) (b_standardChunkDataSize g) (slice_chunks par g (padded g D) i) (sl i)"
    proof (cases "i \<in> L")
      case True
      then show ?thesis using f i by (auto simp: found_def intro: lost_good)
    next
      case False
      then show ?thesis using stored_good [OF lf(1) _ md5] kept [OF i False] i lf(6,7) by simp
    qed
  qed
  have "d \<le> card ({..<d + p} - L)" using L(1,2) card_Diff_subset [of L "{..<d + p}"] finite_subset [OF L(1)] by simp
  moreover have "\<forall>i \<in> {..<d + p} - L. isAvailable un (fst (sl i)) \<and> stored_slice md5 (slice_chunks par g (padded g D) i) (sl i)"
    using kept L(3) by (auto simp: isAvailable_def)
  moreover have "calm_slice (sl i)" if "i < d + p" for i
    using kept [OF that] f that by (cases "i \<in> L") (auto simp: found_def lost_slice_def)
  ultimately show "readable_quorum md5 par g (padded g D) un d p sl"
    unfolding readable_quorum_def by (intro conjI allI impI exI [of _ "{..<d + p} - L"]) auto
qed

text \<open>
  C3. What is uploaded is what is downloaded. Take an object of any size, a plan of the planner's shape, a code that
  obeys the Reed-Solomon law, and slices on writable volumes. However the client splits the bytes, creating the
  slices, every write, the finish and the commit succeed. Whatever later process then opens the object, any range
  of it is read back byte for byte, as long as no more slices are lost than the object has parity slices.
\<close>

theorem upload_then_download:
  fixes mk :: "nat \<Rightarrow> disk_slice"
  assumes "object_layout rsCreate mem pl' sz C d p g" "rs_law d p enc par" "digest16 md5"
    and "\<And>i. i < d + p \<Longrightarrow> upload_slice md5 C i (mk i)"
    and "concat parts = D" "length D = sz" "a < b" "b \<le> sz"
    and "L \<subseteq> {..<d + p}" "card L \<le> p" "set un \<subseteq> L"
  shows "\<exists>w w1 w2 w3. writer_prepare rsCreate mem (Some pl') (\<lambda>i. Inr (mk i)) (on_slice (slice_create md5)) (new_writer sz C d p) = (None, w) \<and>
    write_parts enc (put_slice md5) parts w = Some (None, w1) \<and> writer_finish md5 enc (put_slice md5) w1 = (None, w2) \<and>
    wr_md5 w2 = Some (md5 D) \<and> writer_commit (on_slice slice_close) (on_slice slice_commit) w2 = (None, w3) \<and>
    (\<forall>sl. found L (wr_slices w3) sl \<longrightarrow>
      (\<exists>r r'. reader_prepare rsCreate mem (Some pl') (\<lambda>i. Inr (sl i)) (\<lambda>i. isAvailable un (fst (sl i)))
          (on_slice (slice_open md5)) (new_reader sz C d p) = (None, r) \<and>
        read_to_end (readSliceChunk md5 (b_startChunkDataSize g) (b_standardChunkDataSize g)) (on_slice (slice_open md5)) enc
          (setReadRange a b r) = Some (Inr (take (b - a) (drop a D)), r')))"
proof -
  obtain w w1 w2 w3 where u: "writer_prepare rsCreate mem (Some pl') (\<lambda>i. Inr (mk i)) (on_slice (slice_create md5)) (new_writer sz C d p) = (None, w)"
      "write_parts enc (put_slice md5) parts w = Some (None, w1)" "writer_finish md5 enc (put_slice md5) w1 = (None, w2)"
      "wr_md5 w2 = Some (md5 D)" "writer_commit (on_slice slice_close) (on_slice slice_commit) w2 = (None, w3)"
    and n: "length (wr_slices w3) = d + p" and st: "\<forall>i < d + p. \<exists>h. slice_header md5 (sl_ref (w_slice (fst (mk i)))) = Inr h \<and>
      committed_as (h @ records md5 (slice_chunks par g (padded g D) i)) (mk i) (wr_slices w3 ! i)"
    using upload_ok [OF assms(1-6)] by blast
  have "\<exists>r r'. reader_prepare rsCreate mem (Some pl') (\<lambda>i. Inr (sl i)) (\<lambda>i. isAvailable un (fst (sl i)))
          (on_slice (slice_open md5)) (new_reader sz C d p) = (None, r) \<and>
        read_to_end (readSliceChunk md5 (b_startChunkDataSize g) (b_standardChunkDataSize g)) (on_slice (slice_open md5)) enc
          (setReadRange a b r) = Some (Inr (take (b - a) (drop a D)), r')" if f: "found L (wr_slices w3) sl" for sl
  proof -
    note fr = found_readable [OF assms(1-3,6,4) st f n assms(9-11)]
    obtain out r where prep: "reader_prepare rsCreate mem (Some pl') (\<lambda>i. Inr (sl i)) (\<lambda>i. isAvailable un (fst (sl i)))
          (on_slice (slice_open md5)) (new_reader sz C d p) = (out, r)" by fastforce
    from read_object_ok [OF assms(1,2,6,3) fr(1) prep refl assms(7,8)] fr(2) prep show ?thesis by blast
  qed
  then show ?thesis using u by blast
qed

section \<open>A small object\<close>

lemma small_upload: "i < 3 \<Longrightarrow> upload_slice sum_digest 72 i (small_slice i)"
proof -
  assume "i < 3"
  then obtain h where "slice_header sum_digest (small_ref i) = Inr h"
    by (auto simp: slice_header_def small_ref_def writeIntLE_def writeUInt8_def Let_def)
  then show ?thesis using sample_guard
    by (auto simp: upload_slice_def ready_to_write_def small_slice_def new_slice_def small_ref_def)
qed

theorem upload_then_download_witness:
  "\<exists>w w1 w2 w3. writer_prepare (\<lambda>_ _. None) (\<lambda>n. replicate n 0) (Some small_populated) (\<lambda>i. Inr (small_slice i))
      (on_slice (slice_create sum_digest)) (new_writer 20 72 2 1) = (None, w) \<and>
    write_parts xor_enc (put_slice sum_digest) [replicate 7 1, replicate 13 2] w = Some (None, w1) \<and>
    writer_finish sum_digest xor_enc (put_slice sum_digest) w1 = (None, w2) \<and>
    wr_md5 w2 = Some (sum_digest (replicate 7 1 @ replicate 13 2)) \<and>
    writer_commit (on_slice slice_close) (on_slice slice_commit) w2 = (None, w3) \<and>
    (\<forall>sl. found {0} (wr_slices w3) sl \<longrightarrow>
      (\<exists>(g :: base) r r'. reader_prepare (\<lambda>_ _. None) (\<lambda>n. replicate n 0) (Some small_populated) (\<lambda>i. Inr (sl i)) (\<lambda>i. isAvailable [0] (fst (sl i)))
          (on_slice (slice_open sum_digest)) (new_reader 20 72 2 1) = (None, r) \<and>
        read_to_end (readSliceChunk sum_digest (b_startChunkDataSize g) (b_standardChunkDataSize g)) (on_slice (slice_open sum_digest)) xor_enc
          (setReadRange 5 9 r) = Some (Inr [1, 1, 2, 2], r')))"
proof -
  obtain g where lay: "object_layout (\<lambda>_ _. None) (\<lambda>n. replicate n 0) small_populated 20 72 2 1 g" by (rule small_layout)
  let ?D = "replicate 7 1 @ replicate 13 2 :: bytes"
  have D: "concat [replicate 7 1, replicate 13 2] = ?D" "length ?D = 20" by simp_all
  have s: "upload_slice sum_digest 72 i (small_slice i)" if "i < 2 + 1" for i using small_upload that by simp
  have L: "{0 :: nat} \<subseteq> {..<2 + 1}" "card {0 :: nat} \<le> 1" "set [0 :: nat] \<subseteq> {0}" by simp_all
  have r: "take (9 - 5) (drop 5 ?D) = [1, 1, 2, 2]" by code_simp
  note up = upload_then_download [OF lay xor_law sum_digest16 s D _ _ L, of 5 9, unfolded r]
  obtain w w1 w2 w3 where u: "writer_prepare (\<lambda>_ _. None) (\<lambda>n. replicate n 0) (Some small_populated) (\<lambda>i. Inr (small_slice i))
      (on_slice (slice_create sum_digest)) (new_writer 20 72 2 1) = (None, w)"
    "write_parts xor_enc (put_slice sum_digest) [replicate 7 1, replicate 13 2] w = Some (None, w1)"
    "writer_finish sum_digest xor_enc (put_slice sum_digest) w1 = (None, w2)" "wr_md5 w2 = Some (sum_digest ?D)"
    "writer_commit (on_slice slice_close) (on_slice slice_commit) w2 = (None, w3)"
    and rd: "\<And>sl. found {0} (wr_slices w3) sl \<Longrightarrow>
      \<exists>r r'. reader_prepare (\<lambda>_ _. None) (\<lambda>n. replicate n 0) (Some small_populated) (\<lambda>i. Inr (sl i)) (\<lambda>i. isAvailable [0] (fst (sl i)))
          (on_slice (slice_open sum_digest)) (new_reader 20 72 2 1) = (None, r) \<and>
        read_to_end (readSliceChunk sum_digest (b_startChunkDataSize g) (b_standardChunkDataSize g)) (on_slice (slice_open sum_digest)) xor_enc
          (setReadRange 5 9 r) = Some (Inr [1, 1, 2, 2], r')"
    using up by auto
  have "\<forall>sl. found {0} (wr_slices w3) sl \<longrightarrow>
      (\<exists>(g :: base) r r'. reader_prepare (\<lambda>_ _. None) (\<lambda>n. replicate n 0) (Some small_populated) (\<lambda>i. Inr (sl i)) (\<lambda>i. isAvailable [0] (fst (sl i)))
          (on_slice (slice_open sum_digest)) (new_reader 20 72 2 1) = (None, r) \<and>
        read_to_end (readSliceChunk sum_digest (b_startChunkDataSize g) (b_standardChunkDataSize g)) (on_slice (slice_open sum_digest)) xor_enc
          (setReadRange 5 9 r) = Some (Inr [1, 1, 2, 2], r'))"
    using rd by blast
  with u show ?thesis by blast
qed

end
