(* ===== verification/Object_Http_Put.thy ===== *)
theory Object_Http_Put
  imports Object_Http File_Object_Safety Object_Roundtrip
begin

text \<open>
  What the uploads of \<open>Object_Http\<close> guarantee: what an acknowledged upload has stored, that a good upload is accepted,
  and what an upload that is not acknowledged leaves behind.
\<close>

section \<open>What an upload does\<close>

lemma prepare_hashed:
  assumes "writer_prepare rsCreate mem plan mk create (new_writer sz C d p) = (r, w)"
  shows "wr_hashed w = Some []"
proof -
  let ?n = "new_writer sz C d p :: 'a writer"
  have n: "wr_hashed ?n = Some []" by (simp add: new_writer_def base.defs writer.defs)
  show ?thesis
  proof (cases "configureInternals rsCreate mem plan ?n")
    case (Inl e)
    then show ?thesis using assms n by (simp add: writer_prepare_def writer_configureInternals_def)
  next
    case (Inr w1)
    then have "base.more w1 = base.more ?n" by (auto simp: configureInternals_def split: option.splits)
    moreover define w2 where "w2 = configureStartState (w1\<lparr>b_rsSourcesBits := bits_from [0..<b_dataSliceCount w1],
        b_rsTargetsBits := bits_from [b_dataSliceCount w1..<totalSlices w1]\<rparr>)"
    ultimately have "base.more w2 = base.more ?n" by simp
    then have "wr_hashed w2 = Some []" using writer_more(5) n by metis
    then show ?thesis
      using assms Inr by (auto simp: writer_prepare_def writer_configureInternals_def Let_def w2_def [symmetric] split: sum.splits prod.splits)
  qed
qed

lemma receive_chunks_ok:
  assumes "receive_chunks ops cs fo = Some (r, fo')" "fo_mode fo = Some ObjectWrite" "fo_writer fo = Some wr" "wr_hashed wr = Some h"
  shows "\<exists>wr'. fo' = fo\<lparr>fo_writer := Some wr'\<rparr> \<and> (r = None \<longrightarrow> wr_hashed wr' = Some (h @ concat cs))"
  using assms
proof (induction cs arbitrary: fo wr h)
  case Nil
  then show ?case by (auto intro!: exI [of _ wr])
next
  case (Cons c cs)
  obtain r1 wr1 where w: "writer_write (op_enc ops) (op_put ops) c wr = Some (r1, wr1)"
    using Cons.prems by (auto simp: object_write_def split: option.splits)
  then have o: "object_write ops c fo = Some (r1, fo\<lparr>fo_writer := Some wr1\<rparr>)"
    using Cons.prems by (simp add: object_write_def)
  show ?case
  proof (cases r1)
    case (Some e)
    then show ?thesis using Cons.prems o by auto
  next
    case None
    have "wr_hashed wr1 = Some (h @ c)" using writer_write_books [OF w] None Cons.prems(4) by simp
    then show ?thesis using Cons.IH [of "fo\<lparr>fo_writer := Some wr1\<rparr>" wr1 "h @ c"] Cons.prems o None by auto
  qed
qed

lemma receive_chunks_run:
  "receive_chunks ops cs fo = Some (r, fo') \<Longrightarrow> fo_run ops i fo w \<Longrightarrow> fo_run ops i fo' w"
proof (induction cs arbitrary: fo)
  case (Cons c cs)
  obtain r1 fo1 where o: "object_write ops c fo = Some (r1, fo1)" using Cons.prems(1) by (auto split: option.splits)
  have run: "fo_run ops i fo1 w" by (rule fo_run.written [OF Cons.prems(2) o])
  show ?case using Cons.prems(1) Cons.IH [OF _ run] run o by (cases r1) auto
qed simp

lemma created_writable:
  assumes "createWritable ops ab newId newPlan sz rq pr = Inr fo"
  shows "\<exists>idBuf plan fo0 wr. newId = Inr idBuf \<and> newPlan = Inr plan \<and> createWithSize ops (Inr idBuf) (Inr plan) sz new_file_object = (None, fo0) \<and>
    fo = applyRequestContext rq pr fo0 \<and> fo_mode fo = Some ObjectWrite \<and> fo_id fo = Some (to_hex idBuf) \<and> fo_size fo = sz \<and>
    \<not> fo_isPersisted fo \<and> fo_writer fo = Some wr \<and> wr_hashed wr = Some []"
proof -
  obtain fo0 where c: "createWithSize ops newId newPlan sz new_file_object = (None, fo0)" and fo: "fo = applyRequestContext rq pr fo0"
    using assms by (auto simp: createWritable_def split: if_splits prod.splits option.splits)
  obtain idBuf plan where ids: "newId = Inr idBuf" "newPlan = Inr plan"
    using c by (auto simp: createWithSize_def Let_def split: sum.splits)
  note c' = c [unfolded ids]
  obtain wr where wr: "fo_writer fo0 = Some wr" "wr_hashed wr = Some []" "fo_mode fo0 = Some ObjectWrite" "fo_size fo0 = sz"
    using c' unfolding createWithSize_def Let_def sum.case
    by (auto split: if_splits prod.splits option.splits dest!: prepare_hashed)
  note n = createWithSize_new [OF c']
  show ?thesis
    using c' wr n fo ids
    by (auto simp: applyRequestContext_def setRequestId_def setPriority_def Let_def split: option.splits)
qed

lemma received:
  assumes "receiveUpload ops env rq n w = Some (Uploaded fo, w')"
  shows "w' = w \<and> length (concat (pr_chunks rq)) = n \<and> fo_mode fo = Some ObjectWrite \<and> fo_size fo = n \<and> \<not> fo_isPersisted fo \<and>
    fo_md5 fo = Some (op_md5 ops (concat (pr_chunks rq))) \<and> (\<exists>idBuf. pe_newId env = Inr idBuf \<and> fo_id fo = Some (to_hex idBuf))"
proof -
  obtain fo0 where c: "createWritable ops (pe_aborted env) (pe_newId env) (pe_newPlan env) n (Some (''http-'' @ pr_requestId rq)) None = Inr fo0"
    using assms by (auto simp: receiveUpload_def split: sum.splits)
  obtain idBuf wr where cw: "pe_newId env = Inr idBuf" "fo_mode fo0 = Some ObjectWrite" "fo_id fo0 = Some (to_hex idBuf)" "fo_size fo0 = n"
      "\<not> fo_isPersisted fo0" "fo_writer fo0 = Some wr" "wr_hashed wr = Some []"
    using created_writable [OF c] by blast
  note run = assms [unfolded receiveUpload_def c sum.case]
  obtain r fo1 where rc: "receive_chunks ops (pr_chunks rq) fo0 = Some (r, fo1)" using run by (auto split: option.splits)
  obtain wr1 where wr1: "fo1 = fo0\<lparr>fo_writer := Some wr1\<rparr>" "r = None \<longrightarrow> wr_hashed wr1 = Some (concat (pr_chunks rq))"
    using receive_chunks_ok [OF rc cw(2,6,7)] by auto
  have r: "r = None" and e: "pr_end rq = UploadEnd" and l: "n = sum_list (map length (pr_chunks rq))"
    using run rc by (auto simp: Let_def split: option.splits upload_event.splits if_splits prod.splits)
  obtain wr2 where f: "writer_finish (op_md5 ops) (op_enc ops) (op_put ops) wr1 = (None, wr2)"
      "fo = fo1\<lparr>fo_writer := Some wr2, fo_md5 := wr_md5 wr2\<rparr>" and w: "w' = w"
    using run rc r e l cw(2) wr1(1) by (auto simp: Let_def object_final_def split: prod.splits option.splits)
  have "wr_md5 wr2 = Some (op_md5 ops (concat (pr_chunks rq)))"
    using writer_finish_books [OF f(1)] wr1(2) r by auto
  then show ?thesis using cw wr1(1) f(2) w l by (simp add: length_concat)
qed

lemma committed_trace:
  assumes "commit_object ops fo w = (None, fo', w')"
  shows "\<exists>i. fo_id fo = Some i \<and> fw_trace w' = fw_trace w @ [SlicesCommitted, JournalPut (dbObject i fo), RowInserted (dbObject i fo), StatsCreated (dbObject i fo)] \<and>
    fo_isPersisted fo' \<and> fo_id fo' = fo_id fo"
proof -
  have db: "dbObject i (fo\<lparr>fo_writer := x\<rparr>) = dbObject i fo" for i x by (simp add: dbObject_def toStoredObjectRecord_def)
  show ?thesis
    using assms by (auto simp: commit_object_def dep_call_def emit_def Let_def db split: option.splits object_mode.splits prod.splits dep_outcome.splits)
qed

text \<open>
  C4. An acknowledged upload is stored. When the server answers 201, the body has as many bytes as announced,
  the slices were committed and the object then journaled and inserted, once and in that order, under the
  identifier in the response, with the name from the path, the size of the body and the md5 of exactly the
  bytes received; and that md5 is the one the client sent, if it sent one.
\<close>

theorem acknowledged_put_stored:
  assumes "process_put ops env rq w = Some (Responded rsp, w')" "rs_status rsp = 201" "\<And>b. op_md5 ops b \<noteq> []"
  shows "\<exists>r. fw_trace w' = fw_trace w @ [SlicesCommitted, JournalPut r, RowInserted r, StatsCreated r] \<and>
    parseNumberHeader (pr_contentLength rq) = Some (int (length (concat (pr_chunks rq)))) \<and>
    so_size r = length (concat (pr_chunks rq)) \<and> so_md5 r = BsonBuffer (op_md5 ops (concat (pr_chunks rq))) \<and>
    so_name r = fst (extractPathComponents (pr_url rq)) \<and> so_name r \<noteq> [] \<and>
    map_of (rs_headers rsp) ''x-object-id'' = Some (so_id r) \<and> pe_newId env = Inr (from_hex (so_id r)) \<and>
    (\<forall>m. pr_contentMd5 rq = Some m \<and> m \<noteq> [] \<longrightarrow> m = to_hex (op_md5 ops (concat (pr_chunks rq))))"
proof -
  obtain n where n: "parseNumberHeader (pr_contentLength rq) = Some n" "0 < n"
    using assms(1,2) by (auto simp: process_put_def plain_response_def split: option.splits if_splits)
  obtain fo w1 where u: "receiveUpload ops env rq (nat n) w = Some (Uploaded fo, w1)"
    using assms(1,2) n by (auto simp: process_put_def plain_response_def split: option.splits prod.splits upload.splits)
  note rv = received [OF u]
  obtain fo' w2 where f: "finalizeUpload ops env rq fo w1 = (Inr rsp, fo', w2)" and w': "w' = w2"
    using assms(1) n u by (auto simp: process_put_def split: option.splits prod.splits sum.splits)
  define b where "b = concat (pr_chunks rq)"
  have md: "fo_md5 fo = Some (op_md5 ops b)" "to_hex (op_md5 ops b) \<noteq> []"
    using rv assms(3) [of b] by (auto simp: b_def) (cases "op_md5 ops (concat (pr_chunks rq))"; simp)
  obtain idBuf where idb: "pe_newId env = Inr idBuf" "fo_id fo = Some (to_hex idBuf)" using rv by blast
  have m: "pr_contentMd5 rq = Some m \<and> m \<noteq> [] \<longrightarrow> m = to_hex (op_md5 ops b)" for m
    using f assms(2) md by (auto simp: finalizeUpload_def Let_def non_empty_def plain_response_def split: if_splits prod.splits option.splits)
  obtain fileName cs where p: "extractPathComponents (pr_url rq) = (fileName, cs)" by fastforce
  define fo1 where "fo1 = (case non_empty (pr_contentType rq) of None \<Rightarrow> fo | Some m \<Rightarrow> fo\<lparr>fo_mime := Some m\<rparr>)"
  have ne: "\<not> (case (non_empty (pr_contentMd5 rq), map_option to_hex (fo_md5 fo)) of (Some a, Some b) \<Rightarrow> b \<noteq> [] \<and> a \<noteq> b | _ \<Rightarrow> False)"
    using m md by (auto simp: non_empty_def split: option.splits)
  note run = f [unfolded finalizeUpload_def Let_def, unfolded if_not_P [OF ne], unfolded p prod.case, folded fo1_def]
  have fn: "fileName \<noteq> []" using run by (auto split: if_splits prod.splits option.splits)
  obtain fo2 where fo2: "(if cs = [] then Inr fo1 else map_sum id (\<lambda>(c, b). fo1\<lparr>fo_containerId := c, fo_bucketId := b\<rparr>) (pe_container env cs)) = Inr fo2"
    using run fn by (auto split: if_splits sum.splits)
  have keep: "fo_id fo2 = fo_id fo" "fo_size fo2 = fo_size fo" "fo_md5 fo2 = fo_md5 fo"
    using fo2 by (auto simp: fo1_def map_sum_def split: if_splits sum.splits option.splits prod.splits)
  have c: "commit_object ops (fo2\<lparr>fo_name := Some fileName\<rparr>) w1 = (None, fo', w2)"
    and rsp: "rsp = created_response fo' (if map_option to_hex (fo_md5 fo) = Some [] then None else map_option to_hex (fo_md5 fo))"
    using run fn unfolding fo2 sum.case by (auto split: prod.splits option.splits)
  define r where "r = dbObject (to_hex idBuf) (fo2\<lparr>fo_name := Some fileName\<rparr>)"
  have tr: "fw_trace w2 = fw_trace w1 @ [SlicesCommitted, JournalPut r, RowInserted r, StatsCreated r]" "fo_id fo' = Some (to_hex idBuf)"
    using committed_trace [OF c] keep idb by (auto simp: r_def)
  have rf: "so_id r = to_hex idBuf" "so_size r = length b" "so_md5 r = BsonBuffer (op_md5 ops b)" "so_name r = fileName"
    using keep rv md by (simp_all add: r_def dbObject_def toStoredObjectRecord_def Let_def md5_value_def b_def)
  have len: "int (length b) = n" using rv n(2) by (simp add: b_def)
  show ?thesis
    unfolding b_def [symmetric]
    by (rule exI [of _ r]) (use tr rf rv w' n(1) len idb fn p m in \<open>auto simp: rsp created_response_def\<close>)
qed

section \<open>Uploads on the disks\<close>

definition disk_ops :: "(bytes \<Rightarrow> bytes) \<Rightarrow> rs_encode \<Rightarrow> nat \<Rightarrow> nat \<Rightarrow> nat list \<Rightarrow> (nat \<Rightarrow> disk_slice) \<Rightarrow> disk_slice slice_ops" where
  "disk_ops md5 enc S T un mk = \<lparr>op_rsCreate = (\<lambda>_ _. None), op_mem = (\<lambda>n. replicate n 0), op_enc = enc, op_md5 = md5,
     op_make = (\<lambda>i. Inr (mk i)), op_avail = (\<lambda>i. isAvailable un (fst (mk i))), op_create = on_slice (slice_create md5),
     op_put = put_slice md5, op_open = on_slice (slice_open md5), op_read = readSliceChunk md5 S T,
     op_close = on_slice slice_close, op_commit = on_slice slice_commit, op_delete = on_slice slice_delete,
     op_mark = (\<lambda>(w, es). (w\<lparr>w_slice := markAsCommitted (w_slice w)\<rparr>, es))\<rparr>"

lemma receive_chunks_parts:
  "fo_mode fo = Some ObjectWrite \<Longrightarrow> fo_writer fo = Some wr \<Longrightarrow>
   receive_chunks ops cs fo = map_option (\<lambda>(r, wr'). (r, fo\<lparr>fo_writer := Some wr'\<rparr>)) (write_parts (op_enc ops) (op_put ops) cs wr)"
proof (induction cs arbitrary: fo wr)
  case (Cons c cs)
  show ?case
  proof (cases "writer_write (op_enc ops) (op_put ops) c wr")
    case (Some y)
    obtain r wr1 where y: "y = (r, wr1)" by fastforce
    show ?thesis
      using Cons.prems Cons.IH [of "fo\<lparr>fo_writer := Some wr1\<rparr>" wr1] Some y
      by (cases r) (auto simp: object_write_def option.map_comp comp_def split_def)
  qed (use Cons.prems in \<open>simp add: object_write_def\<close>)
qed simp

lemma created_on_disks:
  assumes lay: "object_layout (\<lambda>_ _. None) (\<lambda>n. replicate n 0) plan sz C d p g" and pc: "p_paritySliceCount plan = Some (int p)"
    and w: "writer_prepare (\<lambda>_ _. None) (\<lambda>n. replicate n 0) (Some plan) (\<lambda>i. Inr (mk i)) (on_slice (slice_create md5)) (new_writer sz C d p) = (None, wr)"
  shows "\<exists>fo. createWritable (disk_ops md5 enc S T un mk) False (Inr idBuf) (Inr plan) sz rq pr = Inr fo \<and> fo_mode fo = Some ObjectWrite \<and>
    fo_writer fo = Some wr \<and> fo_id fo = Some (to_hex idBuf)"
proof -
  obtain pl where pl: "populatePlanDerivedFields pl = Inr plan" "p_fileSize pl = Some (int sz)" "p_dataSliceCount pl = Some (int d)"
      "p_chunkSize pl = Some (int C)" "plan_ok (int sz) (int d) (int C)" and p: "0 < p"
    using lay by (auto simp: object_layout_def)
  have q: "p_chunkSize plan = Some (int C)" "p_dataSliceCount plan = Some (int d)" "0 < C" "0 < d"
    using populate_layout [OF pl(2-5)] pl(1,5) by (auto simp: plan_ok_def)
  let ?ops = "disk_ops md5 enc S T un mk"
  obtain r fo where c: "createWithSize ?ops (Inr idBuf) (Inr plan) sz new_file_object = (r, fo)" by fastforce
  have "r = None \<and> fo_mode fo = Some ObjectWrite \<and> fo_writer fo = Some wr \<and> fo_id fo = Some (to_hex idBuf)"
    using c w q p pc by (auto simp: createWithSize_def disk_ops_def truthy_def Let_def new_file_object_def)
  then show ?thesis using c
    by (auto simp: createWritable_def applyRequestContext_def setRequestId_def setPriority_def Let_def split: option.splits)
qed

lemma accept_upload:
  assumes "object_layout (\<lambda>_ _. None) (\<lambda>n. replicate n 0) plan sz C d p g" "rs_law d p enc par" "digest16 md5"
    and "\<And>i. i < d + p \<Longrightarrow> upload_slice md5 C i (mk i)" "p_paritySliceCount plan = Some (int p)"
    and "\<not> pe_aborted env" "pe_newId env = Inr idBuf" "pe_newPlan env = Inr plan" "\<And>cs. \<exists>c. pe_container env cs = Inr c"
    and "concat (pr_chunks rq) = D" "length D = sz" "parseNumberHeader (pr_contentLength rq) = Some (int sz)"
    and "pr_end rq = UploadEnd" "pr_contentMd5 rq \<in> {None, Some (to_hex (md5 D))}" "fst (extractPathComponents (pr_url rq)) \<noteq> []"
    and "\<And>k. fw_dep w k = Done"
  shows "\<exists>rsp w'. process_put (disk_ops md5 enc S T [] mk) env rq w = Some (Responded rsp, w') \<and> rs_status rsp = 201"
proof -
  have sz: "0 < sz" using assms(1) by (auto simp: object_layout_def plan_ok_def)
  let ?ops = "disk_ops md5 enc S T [] mk"
  obtain w0 w1 w2 w3 where u: "writer_prepare (\<lambda>_ _. None) (\<lambda>n. replicate n 0) (Some plan) (\<lambda>i. Inr (mk i)) (on_slice (slice_create md5)) (new_writer sz C d p) = (None, w0)"
      "write_parts enc (put_slice md5) (pr_chunks rq) w0 = Some (None, w1)" "writer_finish md5 enc (put_slice md5) w1 = (None, w2)"
      "wr_md5 w2 = Some (md5 D)" "writer_commit (on_slice slice_close) (on_slice slice_commit) w2 = (None, w3)"
    using upload_ok [OF assms(1-4,10,11)] by blast
  obtain fo where c: "createWritable ?ops False (Inr idBuf) (Inr plan) sz (Some (''http-'' @ pr_requestId rq)) None = Inr fo"
      and fo: "fo_mode fo = Some ObjectWrite" "fo_writer fo = Some w0" "fo_id fo = Some (to_hex idBuf)"
    using created_on_disks [where enc = enc and S = S and T = T and un = "[]" and idBuf = idBuf, OF assms(1,5) u(1)] by blast
  let ?fo1 = "fo\<lparr>fo_writer := Some w1\<rparr>" and ?fo2 = "fo\<lparr>fo_writer := Some w2, fo_md5 := Some (md5 D)\<rparr>"
  have ops: "op_enc ?ops = enc" "op_put ?ops = put_slice md5" "op_md5 ?ops = md5" "op_close ?ops = on_slice slice_close" "op_commit ?ops = on_slice slice_commit"
    by (simp_all add: disk_ops_def)
  have rc: "receive_chunks ?ops (pr_chunks rq) fo = Some (None, ?fo1)" using receive_chunks_parts [OF fo(1,2), of ?ops] u(2) by (simp add: ops)
  have fin: "object_final ?ops ?fo1 = (None, ?fo2)" using fo(1) u(3,4) by (simp add: object_final_def ops)
  have len: "sum_list (map length (pr_chunks rq)) = sz" using assms(10,11) by (metis length_concat)
  have up: "receiveUpload ?ops env rq sz w = Some (Uploaded ?fo2, w)"
    using assms(6-8,13) c rc fin len by (simp add: receiveUpload_def Let_def)
  obtain fileName cs where p: "extractPathComponents (pr_url rq) = (fileName, cs)" "fileName \<noteq> []"
    using assms(15) by (cases "extractPathComponents (pr_url rq)") simp
  have commit: "\<exists>fo' w'. commit_object ?ops fo4 w = (None, fo', w')"
    if "fo_mode fo4 = Some ObjectWrite" "fo_writer fo4 = Some w2" "fo_id fo4 = Some (to_hex idBuf)" for fo4
    using that u(5) assms(16) by (simp add: commit_object_def ops dep_call_def emit_def Let_def)
  define fo3 where "fo3 = (case non_empty (pr_contentType rq) of None \<Rightarrow> ?fo2 | Some m \<Rightarrow> ?fo2\<lparr>fo_mime := Some m\<rparr>)"
  have fo3: "fo_mode fo3 = Some ObjectWrite" "fo_writer fo3 = Some w2" "fo_id fo3 = Some (to_hex idBuf)"
    using fo by (simp_all add: fo3_def split: option.split)
  obtain cb where cb: "pe_container env cs = Inr cb" using assms(9) by blast
  have md: "\<not> (case (non_empty (pr_contentMd5 rq), map_option to_hex (fo_md5 ?fo2)) of (Some a, Some b) \<Rightarrow> b \<noteq> [] \<and> a \<noteq> b | _ \<Rightarrow> False)"
    using assms(14) by (auto simp: non_empty_def split: option.splits)
  define fo4 where "fo4 = (if cs = [] then fo3 else fo3\<lparr>fo_containerId := fst cb, fo_bucketId := snd cb\<rparr>)\<lparr>fo_name := Some fileName\<rparr>"
  obtain fo' w' where cm: "commit_object ?ops fo4 w = (None, fo', w')" using commit [of fo4] fo3 by (cases "cs = []") (auto simp: fo4_def)
  have "\<exists>rsp. finalizeUpload ?ops env rq ?fo2 w = (Inr rsp, fo', w') \<and> rs_status rsp = 201"
    unfolding finalizeUpload_def Let_def if_not_P [OF md] unfolding p(1) prod.case fo3_def [symmetric]
    using p(2) cb cm by (cases cb; cases "cs = []") (simp_all add: fo4_def created_response_def)
  then show ?thesis using up assms(12) sz by (auto simp: process_put_def)
qed

text \<open>
  C37. A good upload is accepted. When the slices of the plan are on writable volumes, no call fails, the body has
  the announced length and the announced md5 (if one is announced), and the path names a file, the server
  answers 201, for every size and however the body is split into chunks.
\<close>

theorem good_upload_accepted:
  assumes "object_layout (\<lambda>_ _. None) (\<lambda>n. replicate n 0) plan sz C d p g" "rs_law d p enc par" "digest16 md5"
    and "\<And>i. i < d + p \<Longrightarrow> upload_slice md5 C i (mk i)" "p_paritySliceCount plan = Some (int p)"
    and "\<not> pe_aborted env" "pe_newId env = Inr idBuf" "pe_newPlan env = Inr plan" "\<And>cs. \<exists>c. pe_container env cs = Inr c"
    and "concat (pr_chunks rq) = D" "length D = sz" "parseNumberHeader (pr_contentLength rq) = Some (int sz)"
    and "pr_end rq = UploadEnd" "pr_contentMd5 rq \<in> {None, Some (to_hex (md5 D))}" "fst (extractPathComponents (pr_url rq)) \<noteq> []"
    and "\<And>k. fw_dep w k = Done"
  shows "\<exists>rsp w'. process_put (disk_ops md5 enc S T [] mk) env rq w = Some (Responded rsp, w') \<and> rs_status rsp = 201"
  by (rule accept_upload [OF assms])

section \<open>What a rejected upload leaves\<close>

definition rows_of :: "'s fo_world \<Rightarrow> stored_object list" where
  "rows_of w = concat (map (\<lambda>x. case x of RowInserted r \<Rightarrow> [r] | _ \<Rightarrow> []) (fw_trace w))"

definition atomic_calls :: "'s fo_world \<Rightarrow> bool" where
  "atomic_calls w \<longleftrightarrow> (\<forall>k e. fw_dep w k \<noteq> Ambiguous e)"

lemma rows_emit [simp]: "rows_of (emit x w) = rows_of w @ (case x of RowInserted r \<Rightarrow> [r] | _ \<Rightarrow> [])"
  by (simp add: rows_of_def emit_def)

lemma dep_call_rows:
  assumes "dep_call x w = (r, w')" "atomic_calls w"
  shows "atomic_calls w' \<and> rows_of w' = rows_of w @ (if r = None then (case x of RowInserted y \<Rightarrow> [y] | _ \<Rightarrow> []) else [])"
  using assms by (auto simp: dep_call_def atomic_calls_def Let_def rows_of_def emit_def split: dep_outcome.splits)

lemma emit_atomic [simp]: "atomic_calls (emit x w) = atomic_calls w"
  by (simp add: atomic_calls_def emit_def)

lemma dep_call_no_row:
  "atomic_calls w \<Longrightarrow> (\<And>y. x \<noteq> RowInserted y) \<Longrightarrow> atomic_calls (snd (dep_call x w)) \<and> rows_of (snd (dep_call x w)) = rows_of w"
  by (cases "dep_call x w") (auto dest!: dep_call_rows split: effect.splits)

lemma remove_rows: "rows_of (snd (snd (remove_slices ops fo w))) = rows_of w \<and> (atomic_calls w \<longrightarrow> atomic_calls (snd (snd (remove_slices ops fo w))))"
  by (auto simp: remove_slices_def Let_def split: option.splits object_mode.splits prod.splits)

lemma delete_rows:
  assumes "delete_object ops fo w = (r, fo', w')" "atomic_calls w"
  shows "rows_of w' = rows_of w \<and> atomic_calls w'"
proof -
  let ?c = "case fo_id fo of Some i \<Rightarrow> if fo_isPersisted fo \<or> fo_journaledPut fo then dep_call (JournalDel i) w else (None, w) | None \<Rightarrow> (None, w)"
  obtain r1 w1 where c: "?c = (r1, w1)" by fastforce
  have w1: "rows_of w1 = rows_of w" "atomic_calls w1"
    using c assms(2) dep_call_no_row [OF assms(2), of "JournalDel (the (fo_id fo))"] by (auto split: option.splits if_splits)
  have rm: "remove_slices ops fo v = (r, fo', w') \<Longrightarrow> atomic_calls v \<Longrightarrow> rows_of w' = rows_of v \<and> atomic_calls w'" for v
    using remove_rows [of ops fo v] by auto
  show ?thesis
  proof (cases r1)
    case (Some e)
    then show ?thesis using assms(1) c w1 by (auto simp: delete_object_def)
  next
    case None
    show ?thesis
    proof (cases "\<exists>i. fo_id fo = Some i \<and> fo_isPersisted fo")
      case False
      then have "remove_slices ops fo w1 = (r, fo', w')"
        using assms(1) None unfolding delete_object_def c by (auto split: option.splits)
      then show ?thesis using rm w1 by simp
    next
      case True
      then obtain i where i: "fo_id fo = Some i" "fo_isPersisted fo" by blast
      obtain r2 w2 where d: "dep_call (RowDeleted i) w1 = (r2, w2)" by fastforce
      have w2: "rows_of w2 = rows_of w1" "atomic_calls w2" using dep_call_no_row [OF w1(2), of "RowDeleted i"] d by auto
      note run = assms(1) [unfolded delete_object_def c]
      show ?thesis
      proof (cases r2)
        case (Some e)
        then have "w' = snd (dep_call (JournalPut (toStoredObjectRecord i fo)) w2)" using run i d None by (auto simp: Let_def)
        then show ?thesis using dep_call_no_row [OF w2(2), of "JournalPut (toStoredObjectRecord i fo)"] w1 w2 by simp
      next
        case None2: None
        then have "remove_slices ops fo (emit (StatsDeleted (toStoredObjectRecord i fo)) w2) = (r, fo', w')" using run i d None by (simp add: Let_def)
        then show ?thesis using rm [of "emit (StatsDeleted (toStoredObjectRecord i fo)) w2"] w1 w2 by simp
      qed
    qed
  qed
qed

lemma discard_rows: "atomic_calls w \<Longrightarrow> rows_of (snd (discard ops fo w)) = rows_of w"
  using delete_rows [of ops fo w] by (cases "delete_object ops fo w") (auto simp: discard_def)

lemma commit_rows: "commit_object ops fo w = (r, fo', w') \<Longrightarrow> atomic_calls w \<Longrightarrow>
    atomic_calls w' \<and> (r \<noteq> None \<longrightarrow> rows_of w' = rows_of w)"
  unfolding commit_object_def Let_def
  by (fastforce split: option.splits prod.splits object_mode.splits dest: dep_call_rows)

lemma finalize_cases:
  assumes "finalizeUpload ops env rq fo w = (q, fo', w2)"
  shows "(\<exists>fo1 r. delete_object ops fo1 w = (r, fo', w2)) \<or> w2 = w \<or>
    (\<exists>fo1 r. commit_object ops fo1 w = (r, fo', w2) \<and> (r = None \<longrightarrow> (\<exists>rsp. q = Inr rsp \<and> rs_status rsp = 201)))"
proof -
  define md5Hex where "md5Hex = map_option to_hex (fo_md5 fo)"
  define bad where "bad = (case (non_empty (pr_contentMd5 rq), md5Hex) of (Some a, Some b) \<Rightarrow> b \<noteq> [] \<and> a \<noteq> b | _ \<Rightarrow> False)"
  define fo1 where "fo1 = (case non_empty (pr_contentType rq) of None \<Rightarrow> fo | Some m \<Rightarrow> fo\<lparr>fo_mime := Some m\<rparr>)"
  obtain name cs where p: "extractPathComponents (pr_url rq) = (name, cs)" by fastforce
  define placed where "placed = (if cs = [] then Inr fo1 else map_sum id (\<lambda>(c, b). fo1\<lparr>fo_containerId := c, fo_bucketId := b\<rparr>) (pe_container env cs))"
  obtain r1 d1 v1 where d1: "delete_object ops fo w = (r1, d1, v1)" by (metis prod.collapse)
  obtain r2 d2 v2 where d2: "delete_object ops fo1 w = (r2, d2, v2)" by (metis prod.collapse)
  note run = assms [unfolded finalizeUpload_def Let_def, folded md5Hex_def, folded bad_def fo1_def, unfolded p prod.case, folded placed_def]
  consider "bad" | "\<not> bad" "name = []" | e where "\<not> bad" "name \<noteq> []" "placed = Inl e" | fo2 where "\<not> bad" "name \<noteq> []" "placed = Inr fo2"
    by (cases placed) auto
  then show ?thesis
  proof cases
    case 4
    obtain r3 d3 v3 where c: "commit_object ops (fo2\<lparr>fo_name := Some name\<rparr>) w = (r3, d3, v3)" by (metis prod.collapse)
    have "d3 = fo'" "v3 = w2" "r3 = None \<longrightarrow> (\<exists>rsp. q = Inr rsp \<and> rs_status rsp = 201)"
      using run 4 c by (cases r3; auto simp: created_response_def)+
    then show ?thesis using c by blast
  qed (use run d1 d2 in \<open>cases r1; cases r2; force\<close>)+
qed

text \<open>
  An upload that is not acknowledged is not stored. When the server does not answer 201, whatever went wrong
  (a bad header, a shutdown, a failed write, a length or md5 that does not match, an abort, a journal or a
  database that declines), no object was inserted in the database.
\<close>

theorem rejected_put_inserts_nothing:
  assumes "process_put ops env rq w = Some (res, w')" "atomic_calls w"
    and "\<not> (\<exists>rsp. res = Responded rsp \<and> rs_status rsp = 201)"
  shows "rows_of w' = rows_of w"
proof -
  have up: "case u of Uploaded fo \<Rightarrow> w1 = w | _ \<Rightarrow> rows_of w1 = rows_of w"
    if "receiveUpload ops env rq n w = Some (u, w1)" for n u w1
    using that discard_rows [OF assms(2)]
    by (auto simp: receiveUpload_def Let_def split: sum.splits option.splits prod.splits upload_event.splits if_splits)
  have fin: "rows_of w2 = rows_of w \<and> atomic_calls w2"
    if "finalizeUpload ops env rq fo w = (q, fo', w2)" "\<not> (\<exists>rsp. q = Inr rsp \<and> rs_status rsp = 201)" for fo q fo' w2
    using finalize_cases [OF that(1)] that(2) assms(2) by (auto dest: delete_rows commit_rows)
  consider n where "parseNumberHeader (pr_contentLength rq) = Some n" "0 < n" | "w' = w"
    using assms(1) by (auto simp: process_put_def split: option.splits if_splits)
  then show ?thesis
  proof cases
    case 1
    obtain u w1 where u: "receiveUpload ops env rq (nat n) w = Some (u, w1)" using assms(1) 1 by (auto simp: process_put_def split: option.splits)
    show ?thesis
    proof (cases u)
      case (Uploaded fo)
      obtain q fo' w2 where q: "finalizeUpload ops env rq fo w = (q, fo', w2)" by (metis prod.collapse)
      have w1: "w1 = w" using up [OF u] Uploaded by simp
      show ?thesis
        using assms(1,3) 1 u Uploaded q fin [OF q] w1 discard_rows [of w2 ops fo'] by (cases q) (auto simp: process_put_def)
    qed (use assms(1) 1 u up [OF u] in \<open>auto simp: process_put_def\<close>)
  qed simp
qed

section \<open>A small upload\<close>

definition small_put :: put_request where
  "small_put = \<lparr>pr_url = ''/a'', pr_contentLength = Some ''20'', pr_contentMd5 = None, pr_contentType = Some ''text/plain'',
     pr_requestId = ''1'', pr_chunks = [replicate 7 1, replicate 13 2], pr_end = UploadEnd\<rparr>"

definition small_env :: put_env where
  "small_env = \<lparr>pe_aborted = False, pe_newId = Inr [10], pe_newPlan = Inr small_populated, pe_container = (\<lambda>_. Inr (None, None))\<rparr>"

definition fresh_world :: "'s fo_world" where
  "fresh_world = \<lparr>fw_trace = [], fw_calls = 0, fw_dep = (\<lambda>_. Done)\<rparr>"

abbreviation small_ops :: "disk_slice slice_ops" where
  "small_ops \<equiv> disk_ops sum_digest xor_enc 56 56 [] small_slice"

lemma small_request: "parseNumberHeader (Some ''20'') = Some 20" "extractPathComponents ''/a'' = (''a'', [])"
  by code_simp+

lemma small_parity: "p_paritySliceCount small_populated = Some 1"
proof -
  have ok: "plan_ok 20 2 72" by (simp add: plan_ok_def)
  show ?thesis using populate_layout [OF _ _ _ ok, of small_plan] by (auto simp: small_plan_def)
qed

theorem good_upload_accepted_witness:
  "\<exists>rsp w'. process_put small_ops small_env small_put fresh_world = Some (Responded rsp, w') \<and> rs_status rsp = 201"
proof -
  obtain g where lay: "object_layout (\<lambda>_ _. None) (\<lambda>n. replicate n 0) small_populated 20 72 2 1 g" by (rule small_layout)
  show ?thesis
    by (rule good_upload_accepted [where D = "replicate 7 1 @ replicate 13 2", OF lay xor_law sum_digest16])
      (simp_all add: small_upload small_parity small_env_def small_put_def fresh_world_def small_request)
qed

theorem acknowledged_put_stored_witness:
  "\<exists>r rsp w'. process_put small_ops small_env small_put fresh_world = Some (Responded rsp, w') \<and>
    fw_trace w' = [SlicesCommitted, JournalPut r, RowInserted r, StatsCreated r] \<and> so_size r = 20 \<and> so_name r = ''a'' \<and>
    so_md5 r = BsonBuffer (sum_digest (replicate 7 1 @ replicate 13 2))"
proof -
  obtain g where lay: "object_layout (\<lambda>_ _. None) (\<lambda>n. replicate n 0) small_populated 20 72 2 1 g" by (rule small_layout)
  have "\<exists>rsp w'. process_put small_ops small_env small_put fresh_world = Some (Responded rsp, w') \<and> rs_status rsp = 201"
    by (rule accept_upload [where D = "replicate 7 1 @ replicate 13 2", OF lay xor_law sum_digest16])
      (simp_all add: small_upload small_parity small_env_def small_put_def fresh_world_def small_request)
  then obtain rsp w' where p: "process_put small_ops small_env small_put fresh_world = Some (Responded rsp, w')" "rs_status rsp = 201" by blast
  have ne: "op_md5 small_ops b \<noteq> []" for b by (simp add: disk_ops_def sum_digest_def)
  obtain r where "fw_trace w' = [SlicesCommitted, JournalPut r, RowInserted r, StatsCreated r]" "so_size r = 20" "so_name r = ''a''"
      "so_md5 r = BsonBuffer (sum_digest (replicate 7 1 @ replicate 13 2))"
    using acknowledged_put_stored [OF p ne] by (auto simp: small_put_def small_request fresh_world_def disk_ops_def)
  then show ?thesis using p(1) by blast
qed

theorem rejected_put_inserts_nothing_witness:
  "\<exists>w'. process_put small_ops small_env (small_put\<lparr>pr_end := UploadAborted\<rparr>) fresh_world = Some (Silent, w') \<and> rows_of w' = []"
proof -
  obtain g where lay: "object_layout (\<lambda>_ _. None) (\<lambda>n. replicate n 0) small_populated 20 72 2 1 g" by (rule small_layout)
  have s: "upload_slice sum_digest 72 i (small_slice i)" if "i < 2 + 1" for i using small_upload that by simp
  have D: "concat [replicate 7 1, replicate 13 2] = (replicate 7 1 @ replicate 13 2 :: bytes)" "length (replicate 7 1 @ replicate 13 2 :: bytes) = 20"
    by simp_all
  obtain w0 w1 where u: "writer_prepare (\<lambda>_ _. None) (\<lambda>n. replicate n 0) (Some small_populated) (\<lambda>i. Inr (small_slice i))
      (on_slice (slice_create sum_digest)) (new_writer 20 72 2 1) = (None, w0)"
      "write_parts xor_enc (put_slice sum_digest) [replicate 7 1, replicate 13 2] w0 = Some (None, w1)"
    using upload_ok [OF lay xor_law sum_digest16 s D] by blast
  obtain fo where c: "createWritable small_ops False (Inr [10]) (Inr small_populated) 20 (Some (''http-'' @ ''1'')) None = Inr fo"
      and fo: "fo_mode fo = Some ObjectWrite" "fo_writer fo = Some w0"
    using created_on_disks [where enc = xor_enc and S = 56 and T = 56 and un = "[]" and idBuf = "[10]", OF lay _ u(1)] small_parity by auto
  have e: "op_enc small_ops = xor_enc" "op_put small_ops = put_slice sum_digest" by (simp_all add: disk_ops_def)
  have rc: "receive_chunks small_ops [replicate 7 1, replicate 13 2] fo = Some (None, fo\<lparr>fo_writer := Some w1\<rparr>)"
    unfolding receive_chunks_parts [OF fo] e u(2) by simp
  have "\<exists>w'. process_put small_ops small_env (small_put\<lparr>pr_end := UploadAborted\<rparr>) fresh_world = Some (Silent, w')"
    using c rc by (simp add: process_put_def small_put_def small_env_def small_request receiveUpload_def del: receive_chunks.simps)
  then obtain w' where p: "process_put small_ops small_env (small_put\<lparr>pr_end := UploadAborted\<rparr>) fresh_world = Some (Silent, w')" by blast
  have "atomic_calls (fresh_world :: disk_slice fo_world)" "rows_of (fresh_world :: disk_slice fo_world) = []"
    by (simp_all add: atomic_calls_def fresh_world_def rows_of_def)
  with rejected_put_inserts_nothing [OF p] p show ?thesis by auto
qed

end
