(* ===== verification/Object_Http_Get.thy ===== *)
theory Object_Http_Get
  imports Object_Http_Put
begin

text \<open>
  What the downloads of \<open>Object_Http\<close> guarantee: the bytes a client gets, the ranges a header selects, the headers
  that protect a browser, and when the object is closed again.
\<close>

section \<open>What a download does\<close>

text \<open>The requested bytes: the whole object, or what the header selects.\<close>

definition wanted :: "get_request \<Rightarrow> nat \<Rightarrow> (nat \<times> nat) option" where
  "wanted rq sz = (case non_empty (gr_range rq) of None \<Rightarrow> Some (0, sz) | Some h \<Rightarrow> requested_range h sz)"

lemma wanted_within: "wanted rq sz = Some (a, b) \<Longrightarrow> 0 < sz \<Longrightarrow> a < b \<and> b \<le> sz"
  by (auto simp: wanted_def requested_range_def Let_def split: option.splits if_splits)

lemma stream_read_to_end:
  "read_to_end (op_read ops) (op_open ops) (op_enc ops) r = Some y \<Longrightarrow> fo_mode fo = Some ObjectRead \<Longrightarrow> fo_reader fo = Some r \<Longrightarrow>
   fo_shouldTransmitEOR fo \<Longrightarrow> \<exists>res bs fo' r'. stream_all ops fo = Some ((res, bs), fo') \<and> fo_mode fo' = Some ObjectRead \<and> fo_reader fo' = Some r' \<and>
     (case fst y of Inl e \<Rightarrow> res = Some e | Inr x \<Rightarrow> res = None \<and> bs = x)"
proof -
  have "\<forall>fo. op_read ops = rdc \<and> op_open ops = opn \<and> op_enc ops = enc \<and> fo_mode fo = Some ObjectRead \<and> fo_reader fo = Some r \<and> fo_shouldTransmitEOR fo \<longrightarrow>
     (\<exists>res bs fo' r'. stream_all ops fo = Some ((res, bs), fo') \<and> fo_mode fo' = Some ObjectRead \<and> fo_reader fo' = Some r' \<and>
       (case fst y of Inl e \<Rightarrow> res = Some e | Inr x \<Rightarrow> res = None \<and> bs = x))"
    if "read_to_end rdc opn enc r = Some y" for rdc opn enc
  proof (rule read_to_end.raw_induct [OF _ that, of "\<lambda>rdc opn enc r y. \<forall>fo. op_read ops = rdc \<and> op_open ops = opn \<and> op_enc ops = enc \<and>
       fo_mode fo = Some ObjectRead \<and> fo_reader fo = Some r \<and> fo_shouldTransmitEOR fo \<longrightarrow>
       (\<exists>res bs fo' r'. stream_all ops fo = Some ((res, bs), fo') \<and> fo_mode fo' = Some ObjectRead \<and> fo_reader fo' = Some r' \<and>
       (case fst y of Inl e \<Rightarrow> res = Some e | Inr x \<Rightarrow> res = None \<and> bs = x))"], intro allI impI, elim conjE)
    fix f :: "'a slice_read \<Rightarrow> 'a slice_op \<Rightarrow> rs_encode \<Rightarrow> 'a reader \<Rightarrow> ((js_error + bytes) \<times> 'a reader) option"
      and rdc opn enc r y and fo :: "'a file_object"
    assume ih: "\<And>rdc opn enc r y. f rdc opn enc r = Some y \<Longrightarrow> \<forall>fo. op_read ops = rdc \<and> op_open ops = opn \<and> op_enc ops = enc \<and>
       fo_mode fo = Some ObjectRead \<and> fo_reader fo = Some r \<and> fo_shouldTransmitEOR fo \<longrightarrow>
       (\<exists>res bs fo' r'. stream_all ops fo = Some ((res, bs), fo') \<and> fo_mode fo' = Some ObjectRead \<and> fo_reader fo' = Some r' \<and>
       (case fst y of Inl e \<Rightarrow> res = Some e | Inr x \<Rightarrow> res = None \<and> bs = x))"
      and ops: "op_read ops = rdc" "op_open ops = opn" "op_enc ops = enc"
      and fo: "fo_mode fo = Some ObjectRead" "fo_reader fo = Some r" "fo_shouldTransmitEOR fo"
    assume run: "(case reader_readChunk rdc opn enc r of
       (Inl e, r1) \<Rightarrow> Some (Inl e, r1)
     | (Inr None, r1) \<Rightarrow> Some (Inr [], r1)
     | (Inr (Some b), r1) \<Rightarrow>
         Option.bind (f rdc opn enc r1) (\<lambda>(res, r2).
           Some (case res of Inl e \<Rightarrow> (Inl e, r2) | Inr bs \<Rightarrow> (Inr (b @ bs), r2)))) = Some y"
    obtain q r1 where c: "reader_readChunk rdc opn enc r = (q, r1)" by fastforce
    show "\<exists>res bs fo' r'. stream_all ops fo = Some ((res, bs), fo') \<and> fo_mode fo' = Some ObjectRead \<and> fo_reader fo' = Some r' \<and>
       (case fst y of Inl e \<Rightarrow> res = Some e | Inr x \<Rightarrow> res = None \<and> bs = x)"
    proof (cases q)
      case (Inl e)
      then show ?thesis using run c fo ops by (subst stream_all.simps) (auto simp: object_read_def)
    next
      case (Inr qb)
      show ?thesis
      proof (cases qb)
        case None
        then show ?thesis using run c fo ops Inr by (subst stream_all.simps) (auto simp: object_read_def)
      next
        case (Some b)
        obtain y1 where y1: "f rdc opn enc r1 = Some y1" using run c Inr Some by (auto simp: Option.bind_eq_Some_conv)
        let ?fo1 = "fo\<lparr>fo_reader := Some r1, fo_isAwaitingData := False\<rparr>"
        obtain res bs fo' r' where s: "stream_all ops ?fo1 = Some ((res, bs), fo')" "fo_mode fo' = Some ObjectRead" "fo_reader fo' = Some r'"
            "case fst y1 of Inl e \<Rightarrow> res = Some e | Inr x \<Rightarrow> res = None \<and> bs = x"
          using ih [OF y1, THEN spec [of _ ?fo1]] ops fo by auto
        have "stream_all ops fo = Some ((res, b @ bs), fo')"
          using s(1) c fo ops Inr Some by (subst stream_all.simps) (auto simp: object_read_def)
        moreover have "case fst y of Inl e \<Rightarrow> res = Some e | Inr x \<Rightarrow> res = None \<and> b @ bs = x"
          using run c Inr Some y1 s(4) by (auto split: sum.splits prod.splits)
        ultimately show ?thesis using s(2,3) by blast
      qed
    qed
  qed
  then show "read_to_end (op_read ops) (op_open ops) (op_enc ops) r = Some y \<Longrightarrow> fo_mode fo = Some ObjectRead \<Longrightarrow> fo_reader fo = Some r \<Longrightarrow>
   fo_shouldTransmitEOR fo \<Longrightarrow> ?thesis" by blast
qed

text \<open>The plan \<open>loadFromRecord\<close> derives from a record.\<close>

definition record_plan :: "stored_object \<Rightarrow> plan" where
  "record_plan r = new_plan\<lparr>p_fileSize := Some (int (so_size r)), p_chunkSize := Some (int (so_chunkSize r)),
     p_dataSliceCount := Some (int (length (so_dataVolumes r))), p_paritySliceCount := Some (int (length (so_parityVolumes r))),
     p_dataVolumes := so_dataVolumes r, p_parityVolumes := so_parityVolumes r\<rparr>"

lemma serve_read:
  assumes "fo_mode fo = Some ObjectRead" "fo_reader fo = Some r" "\<not> fo_isAwaitingData fo"
    and "read_to_end (op_read ops) (op_open ops) (op_enc ops) (setReadRange s e r) = Some y"
  shows "\<exists>rsp rd fo'. serve_range ops status hs s e fo = Some (rsp, rd, fo') \<and> rs_status rsp = status \<and> rs_headers rsp = hs \<and> rd \<noteq> None \<and>
    fo_mode fo' = None \<and> fo_reader fo' = None \<and> (case fst y of Inl _ \<Rightarrow> \<not> rs_complete rsp | Inr x \<Rightarrow> rs_complete rsp \<and> rs_body rsp = x)"
proof -
  let ?fo = "fo\<lparr>fo_reader := Some (setReadRange s e r), fo_shouldTransmitEOR := True\<rparr>"
  have sr: "object_setReadRange ops s e True fo = (None, None, ?fo)" using assms(1-3) by (simp add: object_setReadRange_def)
  obtain res bs fo1 r1 where st: "stream_all ops ?fo = Some ((res, bs), fo1)" "fo_mode fo1 = Some ObjectRead" "fo_reader fo1 = Some r1"
      "case fst y of Inl e \<Rightarrow> res = Some e | Inr x \<Rightarrow> res = None \<and> bs = x"
    using stream_read_to_end [OF assms(4), of ?fo] assms(1) by auto
  show ?thesis using sr st by (auto simp: serve_range_def object_close_def split: sum.splits)
qed

lemma opened_for_read:
  assumes "openForRead ops ab r rid None = Inr fo" "computeSliceSize (record_plan r) = Inr plan"
  shows "\<exists>rdr. reader_prepare (op_rsCreate ops) (op_mem ops) (Some plan) (op_make ops) (op_avail ops) (op_open ops)
      (new_reader (so_size r) (so_chunkSize r) (length (so_dataVolumes r)) (length (so_parityVolumes r))) = (None, rdr) \<and>
    fo_mode fo = Some ObjectRead \<and> fo_reader fo = Some rdr \<and> \<not> fo_isAwaitingData fo \<and> fo_size fo = so_size r"
  using assms
  by (auto simp: openForRead_def load_object_def prepareForRead_def applyRequestContext_def setRequestId_def setPriority_def loadFromRecord_def
      record_plan_def new_file_object_def Let_def split: if_splits option.splits prod.splits)

lemma opens_for_read:
  assumes "computeSliceSize (record_plan r) = Inr plan"
    and "reader_prepare (op_rsCreate ops) (op_mem ops) (Some plan) (op_make ops) (op_avail ops) (op_open ops)
      (new_reader (so_size r) (so_chunkSize r) (length (so_dataVolumes r)) (length (so_parityVolumes r))) = (None, rdr)"
  shows "\<exists>fo. openForRead ops False r rid None = Inr fo"
  using assms
  by (auto simp: openForRead_def load_object_def prepareForRead_def applyRequestContext_def setRequestId_def loadFromRecord_def
      record_plan_def Let_def split: option.splits prod.splits)

text \<open>What \<open>reader.prepare\<close> does for the object of a record: the error, if any, and the reader as it leaves it.\<close>

definition prepared_reader :: "'s slice_ops \<Rightarrow> stored_object \<Rightarrow> js_error option \<times> 's reader" where
  "prepared_reader ops r =
     reader_prepare (op_rsCreate ops) (op_mem ops) (fo_plan (loadFromRecord r (new_file_object :: 's file_object)))
       (op_make ops) (op_avail ops) (op_open ops)
       (new_reader (so_size r) (so_chunkSize r) (length (so_dataVolumes r)) (length (so_parityVolumes r)))"

lemma open_outcome:
  "(\<forall>fo. openForRead ops ab r rid None = Inr fo \<longrightarrow> (\<exists>rdr. prepared_reader ops r = (None, rdr) \<and> fo_reader fo = Some rdr \<and>
       fo_mode fo = Some ObjectRead \<and> \<not> fo_isAwaitingData fo \<and> fo_size fo = so_size r)) \<and>
   (\<forall>e fo. openForRead ops ab r rid None = Inl (e, Some fo) \<longrightarrow> (\<exists>e' rdr. prepared_reader ops r = (Some e', rdr) \<and>
       fo_reader fo = Some rdr \<and> fo_mode fo = None))"
  by (auto simp: openForRead_def load_object_def prepareForRead_def applyRequestContext_def setRequestId_def loadFromRecord_def
      prepared_reader_def new_file_object_def Let_def split: if_splits option.splits prod.splits)

text \<open>
  C5. A download returns the object. Take the record of an object of the planner's shape and slice files in which
  a chunk that passes its checksum is the right one. A GET is answered; when the answer is complete, its body is
  the object, or for a range request (206) exactly the bytes of the range; the body has the announced length and
  the object is closed. When as many slices as the object has data slices are readable and intact, the
  answer is complete.
\<close>

theorem download_returns_object:
  fixes mk :: "nat \<Rightarrow> disk_slice"
  assumes "computeSliceSize (record_plan r) = Inr plan"
    and "object_layout (\<lambda>_ _. None) (\<lambda>n. replicate n 0) plan (so_size r) (so_chunkSize r) (length (so_dataVolumes r)) (length (so_parityVolumes r)) g"
    and "rs_law (length (so_dataVolumes r)) (length (so_parityVolumes r)) enc par" "digest16 md5" "length D = so_size r"
    and "\<forall>i < length (so_dataVolumes r) + length (so_parityVolumes r).
      good_slice md5 (b_startChunkDataSize g) (b_standardChunkDataSize g) (slice_chunks par g (padded g D) i) (mk i)"
    and "wanted rq (so_size r) = Some (a, b)"
    and "ops = disk_ops md5 enc (b_startChunkDataSize g) (b_standardChunkDataSize g) (fo_unavailableSliceIdxs (loadFromRecord r (new_file_object :: disk_slice file_object))) mk"
  shows "\<exists>rsp rd fo. process_get ops False r rq = Some (rsp, rd, fo) \<and>
    (rs_complete rsp \<longrightarrow> rs_status rsp = (if non_empty (gr_range rq) = None then 200 else 206) \<and> rs_body rsp = take (b - a) (drop a D) \<and>
      map_of (rs_headers rsp) ''Content-Length'' = Some (decimal (length (rs_body rsp))) \<and> (\<exists>fo'. fo = Some fo' \<and> fo_mode fo' = None)) \<and>
    (readable_quorum md5 par g (padded g D) (fo_unavailableSliceIdxs (loadFromRecord r (new_file_object :: disk_slice file_object)))
       (length (so_dataVolumes r)) (length (so_parityVolumes r)) mk \<longrightarrow> rs_complete rsp)"
proof -
  let ?un = "fo_unavailableSliceIdxs (loadFromRecord r (new_file_object :: disk_slice file_object))"
  let ?d = "length (so_dataVolumes r)" and ?p = "length (so_parityVolumes r)"
  let ?hs = "base_headers r rq" and ?rid = "Some (''http-'' @ gr_requestId rq)"
  have sz: "0 < so_size r" using assms(2) by (auto simp: object_layout_def plan_ok_def)
  have ab: "a < b" "b \<le> so_size r" using wanted_within [OF assms(7) sz] by simp_all
  have ops: "op_rsCreate ops = (\<lambda>_ _. None)" "op_mem ops = (\<lambda>n. replicate n 0)" "op_make ops = (\<lambda>i. Inr (mk i))" "op_enc ops = enc"
      "op_avail ops = (\<lambda>i. isAvailable ?un (fst (mk i)))" "op_open ops = on_slice (slice_open md5)"
      "op_read ops = readSliceChunk md5 (b_startChunkDataSize g) (b_standardChunkDataSize g)"
    by (simp_all add: assms(8) disk_ops_def)
  obtain out rdr where prep: "reader_prepare (\<lambda>_ _. None) (\<lambda>n. replicate n 0) (Some plan) (\<lambda>i. Inr (mk i)) (\<lambda>i. isAvailable ?un (fst (mk i)))
      (on_slice (slice_open md5)) (new_reader (so_size r) (so_chunkSize r) ?d ?p) = (out, rdr)" by fastforce
  note read = read_object_ok [OF assms(2,3,5,4,6) prep refl ab]
  show ?thesis
  proof (cases "openForRead ops False r ?rid None")
    case (Inl e)
    obtain e' left where Inl: "openForRead ops False r ?rid None = Inl (e', left)" using Inl by (cases e) simp
    have "out \<noteq> None"
    proof
      assume "out = None"
      from opens_for_read [OF assms(1), of ops rdr ?rid] this Inl prep show False by (simp add: ops)
    qed
    then show ?thesis using Inl read by (auto simp: process_get_def)
  next
    case (Inr fo)
    have fo: "fo_mode fo = Some ObjectRead" "fo_reader fo = Some rdr" "\<not> fo_isAwaitingData fo" "fo_size fo = so_size r" "out = None"
      using opened_for_read [OF Inr assms(1)] prep by (simp_all add: ops)
    obtain y where y: "read_to_end (op_read ops) (op_open ops) (op_enc ops) (setReadRange a b rdr) = Some y"
        "\<forall>bs. fst y = Inr bs \<longrightarrow> bs = take (b - a) (drop a D)"
        "readable_quorum md5 par g (padded g D) ?un ?d ?p mk \<longrightarrow> (\<exists>bs. fst y = Inr bs)"
      using read fo(5) unfolding ops by force
    note serve = serve_read [OF fo(1-3) y(1)]
    have len: "length (take (b - a) (drop a D)) = b - a" using ab assms(5) by simp
    show ?thesis
    proof (cases "non_empty (gr_range rq)")
      case None
      let ?h = "setHeader ''Content-Length'' (decimal (so_size r)) ?hs"
      have "a = 0" "b = so_size r" using assms(7) None by (auto simp: wanted_def)
      moreover obtain rsp rd fo' where s: "serve_range ops 200 ?h a b fo = Some (rsp, rd, fo')" "rs_status rsp = 200" "rs_headers rsp = ?h" "rd \<noteq> None"
          "fo_mode fo' = None" "case fst y of Inl _ \<Rightarrow> \<not> rs_complete rsp | Inr x \<Rightarrow> rs_complete rsp \<and> rs_body rsp = x"
        using serve [of 200 ?h] by blast
      ultimately have "process_get ops False r rq = Some (rsp, rd, Some fo')" using Inr None fo(4) by (simp add: process_get_def)
      then show ?thesis
        using s(2-6) y(2,3) None len \<open>a = 0\<close> \<open>b = so_size r\<close> by (cases "fst y") (auto simp: setHeader_def update_conv)
    next
      case (Some h)
      let ?h = "setHeader ''Content-Range'' (''bytes '' @ decimal a @ ''-'' @ decimal (b - 1) @ ''/'' @ decimal (so_size r))
        (setHeader ''Content-Length'' (decimal (b - a)) ?hs)"
      have "requested_range h (so_size r) = Some (a, b)" using assms(7) Some by (simp add: wanted_def)
      moreover obtain rsp rd fo' where s: "serve_range ops 206 ?h a b fo = Some (rsp, rd, fo')" "rs_status rsp = 206" "rs_headers rsp = ?h" "rd \<noteq> None"
          "fo_mode fo' = None" "case fst y of Inl _ \<Rightarrow> \<not> rs_complete rsp | Inr x \<Rightarrow> rs_complete rsp \<and> rs_body rsp = x"
        using serve [of 206 ?h] by blast
      ultimately have "process_get ops False r rq = Some (rsp, rd, Some fo')" using Inr Some fo(4) by (simp add: process_get_def)
      then show ?thesis
        using s(2-6) y(2,3) Some len by (cases "fst y") (auto simp: setHeader_def update_conv)
    qed
  qed
qed

lemma stream_all_open:
  "stream_all ops fo = Some y \<Longrightarrow> fo_mode fo = Some ObjectRead \<Longrightarrow> fo_reader fo \<noteq> None \<Longrightarrow>
    fo_mode (snd y) = Some ObjectRead \<and> fo_reader (snd y) \<noteq> None"
proof -
  have "fo_mode fo = Some ObjectRead \<and> fo_reader fo \<noteq> None \<longrightarrow> fo_mode (snd y) = Some ObjectRead \<and> fo_reader (snd y) \<noteq> None"
    if "stream_all ops fo = Some y"
  proof (rule stream_all.raw_induct [OF _ that, of "\<lambda>ops fo y. fo_mode fo = Some ObjectRead \<and> fo_reader fo \<noteq> None \<longrightarrow>
      fo_mode (snd y) = Some ObjectRead \<and> fo_reader (snd y) \<noteq> None"], intro impI, elim conjE)
    fix f :: "'a slice_ops \<Rightarrow> 'a file_object \<Rightarrow> ((js_error option \<times> bytes) \<times> 'a file_object) option" and ops fo y
    assume ih: "\<And>ops fo y. f ops fo = Some y \<Longrightarrow> fo_mode fo = Some ObjectRead \<and> fo_reader fo \<noteq> None \<longrightarrow>
        fo_mode (snd y) = Some ObjectRead \<and> fo_reader (snd y) \<noteq> None"
      and run: "(case object_read ops fo of
       (ErrorEmitted e, fo1) \<Rightarrow> Some ((Some e, []), fo1)
     | (PushedEnd, fo1) \<Rightarrow> Some ((None, []), fo1)
     | (Waiting, fo1) \<Rightarrow> None
     | (Pushed b, fo1) \<Rightarrow> Option.bind (f ops fo1) (\<lambda>((r, bs), fo2). Some ((r, b @ bs), fo2))) = Some y"
      and fo: "fo_mode fo = Some ObjectRead" "fo_reader fo \<noteq> None"
    obtain x fo1 where x: "object_read ops fo = (x, fo1)" by fastforce
    have fo1: "fo_mode fo1 = Some ObjectRead" "fo_reader fo1 \<noteq> None"
      using x fo by (auto simp: object_read_def split: option.splits prod.splits sum.splits if_splits)
    show "fo_mode (snd y) = Some ObjectRead \<and> fo_reader (snd y) \<noteq> None"
      using run x fo1 ih [of ops fo1] by (cases x) (auto simp: Option.bind_eq_Some_conv)
  qed
  then show "stream_all ops fo = Some y \<Longrightarrow> fo_mode fo = Some ObjectRead \<Longrightarrow> fo_reader fo \<noteq> None \<Longrightarrow>
    fo_mode (snd y) = Some ObjectRead \<and> fo_reader (snd y) \<noteq> None" by blast
qed

lemma serve_closes:
  assumes "serve_range ops status hs s e fo = Some (rsp, rd, fo')" "fo_mode fo = Some ObjectRead" "fo_reader fo \<noteq> None" "\<not> fo_isAwaitingData fo"
  shows "rs_status rsp = status \<and> (\<exists>rdr. rd = Some (reader_close (op_close ops) rdr)) \<and> fo_mode fo' = None \<and> fo_reader fo' = None"
proof -
  obtain r where r: "fo_reader fo = Some r" using assms(3) by blast
  let ?fo = "fo\<lparr>fo_reader := Some (setReadRange s e r), fo_shouldTransmitEOR := True\<rparr>"
  have sr: "object_setReadRange ops s e True fo = (None, None, ?fo)" using assms(2,4) r by (simp add: object_setReadRange_def)
  obtain res bs fo1 where st: "stream_all ops ?fo = Some ((res, bs), fo1)"
    using assms(1) sr by (auto simp: serve_range_def split: option.splits prod.splits)
  then show ?thesis using assms(1,2) sr stream_all_open [OF st] by (auto simp: serve_range_def object_close_def)
qed

text \<open>A slice whose file is open and which counts as a user of its volume.\<close>

definition held_open :: "disk_slice \<Rightarrow> bool" where
  "held_open s \<longleftrightarrow> sl_inputFh (w_slice (fst s)) \<noteq> None \<and> sl_hold (w_slice (fst s)) \<noteq> None"

lemma open_held: "on_slice (slice_open md5) s = (None, s') \<Longrightarrow> held_open s'"
  by (auto simp: on_slice_def slice_open_def held_open_def Let_def registerPriorityHold_def idle_def
      split: prod.splits if_splits sum.splits option.splits)

lemma open_each_held:
  "open_each (on_slice (slice_open md5)) is ss = (rs, ss') \<Longrightarrow> distinct is \<Longrightarrow> \<forall>i \<in> set is. i < length ss \<Longrightarrow>
     map fst rs = is \<and> length ss' = length ss \<and> (\<forall>i. i \<notin> set is \<longrightarrow> ss' ! i = ss ! i) \<and> (\<forall>i. (i, None) \<in> set rs \<longrightarrow> held_open (ss' ! i))"
proof (induction "is" arbitrary: ss rs ss')
  case (Cons i "is")
  obtain q s where q: "on_slice (slice_open md5) (ss ! i) = (q, s)" by (rule prod.exhaust)
  obtain rs1 where rs1: "open_each (on_slice (slice_open md5)) is (ss[i := s]) = (rs1, ss')" "rs = (i, q) # rs1"
    using Cons.prems(1) q by (auto split: prod.splits)
  have ih: "map fst rs1 = is" "length ss' = length ss" "\<forall>j. j \<notin> set is \<longrightarrow> ss' ! j = ss[i := s] ! j"
      "\<forall>j. (j, None) \<in> set rs1 \<longrightarrow> held_open (ss' ! j)"
    using Cons.IH [OF rs1(1)] Cons.prems(2,3) by auto
  have "q = None \<Longrightarrow> held_open (ss' ! i)" using open_held q ih(3) Cons.prems(2,3) by simp
  then show ?case using ih rs1(2) Cons.prems(2) by auto
qed simp

lemma note_opened_idxs:
  "note_opened rs r = (out, r') \<Longrightarrow> rd_slices r' = rd_slices r \<and> (\<forall>i \<in> set (rd_openSliceIdxs r'). i \<in> set (rd_openSliceIdxs r) \<or> (i, None) \<in> set rs)"
proof (induction rs r arbitrary: out r' rule: note_opened.induct)
  case (2 i rs r)
  then show ?case by fastforce
next
  case (3 i e rs r)
  then show ?case by (fastforce simp: handleSliceFault_def Let_def split: if_splits)
qed simp

lemma prepared_held:
  assumes "prepared_reader (disk_ops md5 enc S T un mk) r = (out, rdr)" "i \<in> set (rd_openSliceIdxs rdr)"
  shows "held_open (rd_slices rdr ! i)"
proof -
  let ?nr = "new_reader (so_size r) (so_chunkSize r) (length (so_dataVolumes r)) (length (so_parityVolumes r)) :: disk_slice reader"
  let ?ops = "disk_ops md5 enc S T un mk"
  have new: "rd_openSliceIdxs x = [] \<and> rd_slices x = []" if "base.more x = base.more ?nr" for x :: "disk_slice reader"
    using that by (cases x) (simp add: new_reader_def new_base_def base.defs reader.defs)
  obtain r1 where r1: "configureInternals (op_rsCreate ?ops) (op_mem ?ops) (fo_plan (loadFromRecord r (new_file_object :: disk_slice file_object))) ?nr = Inr r1"
    using assms new [of ?nr] by (cases "configureInternals (op_rsCreate ?ops) (op_mem ?ops) (fo_plan (loadFromRecord r (new_file_object :: disk_slice file_object))) ?nr")
      (auto simp: prepared_reader_def reader_prepare_def)
  have m1: "base.more (configureStartState r1) = base.more ?nr"
    using r1 by (auto simp: configureInternals_def split: option.splits)
  define r2 where "r2 = configureStartState r1"
  have r2: "rd_openSliceIdxs r2 = []" "rd_slices r2 = []" using new [OF m1] by (simp_all add: r2_def)
  note run = assms(1) [unfolded prepared_reader_def reader_prepare_def r1 Let_def sum.case, folded r2_def]
  obtain ss where ss: "instantiateSlices (op_make ?ops) [0..<totalSlices r2] [] = Inr ss"
    using run assms(2) r2 by (auto split: sum.splits)
  have len: "length ss = totalSlices r2" using length_instantiate [OF ss] by simp
  let ?ds = "filter (op_avail ?ops) [0..<b_dataSliceCount r2]"
  obtain rs ss' where o: "open_each (op_open ?ops) ?ds ss = (rs, ss')" by (rule prod.exhaust)
  have "\<forall>j \<in> set ?ds. j < length ss" by (auto simp: len)
  then have h: "\<forall>j. (j, None) \<in> set rs \<longrightarrow> held_open (ss' ! j)" using open_each_held [of md5 ?ds ss rs ss'] o by (simp add: disk_ops_def)
  let ?x = "r2\<lparr>rd_startOffset := 0, rd_endOffset := b_size r2,
      rd_availableParityIdxs := rd_availableParityIdxs r2 @ filter (op_avail ?ops) [b_dataSliceCount r2..<totalSlices r2],
      rd_failedSlices := rd_failedSlices r2 @ filter (\<lambda>i. \<not> op_avail ?ops i) [0..<totalSlices r2], rd_slices := ss'\<rparr>"
  obtain q r4 where n: "note_opened rs ?x = (q, r4)" by (rule prod.exhaust)
  have "rdr = r4 \<or> rdr = r4\<lparr>rd_currentChunkSetIndex := 0\<rparr>"
    using run ss o n assms(2) r2 by (auto split: if_splits option.splits)
  then show ?thesis using note_opened_idxs [OF n] assms(2) r2 h by fastforce
qed

text \<open>
  C40. Downloads that leave slices open. When the object cannot be opened (500) or the range is refused (416), every
  slice that the request had opened by then keeps its file handle and its priority hold: the request closes nothing,
  and nothing refers to the object any more that could. Every other answered GET closes the reader's open slices,
  whether the body was complete or not.
\<close>

theorem get_leaves_slices_open:
  fixes mk :: "nat \<Rightarrow> disk_slice"
  assumes "process_get ops aborted r rq = Some (rsp, rd, Some fo)" and "ops = disk_ops md5 enc S T un mk"
    and "prepared_reader ops r = (out, rdr)"
  shows "if out \<noteq> None \<or> wanted rq (so_size r) = None
    then rs_status rsp = (if out \<noteq> None then 500 else 416) \<and> rd = None \<and> fo_reader fo = Some rdr \<and>
      (\<forall>i \<in> set (rd_openSliceIdxs rdr). held_open (rd_slices rdr ! i))
    else rs_status rsp \<in> {200, 206} \<and> (\<exists>rdr'. rd = Some (reader_close (op_close ops) rdr')) \<and> fo_mode fo = None \<and> fo_reader fo = None"
proof -
  let ?rid = "Some (''http-'' @ gr_requestId rq)"
  note op = open_outcome [of ops aborted r ?rid]
  have held: "\<forall>i \<in> set (rd_openSliceIdxs rdr). held_open (rd_slices rdr ! i)" using prepared_held assms(2,3) by blast
  show ?thesis
  proof (cases "openForRead ops aborted r ?rid None")
    case (Inl x)
    obtain e left where x: "x = (e, left)" by fastforce
    then have "rs_status rsp = 500" "rd = None" "left = Some fo" using assms(1) Inl by (auto simp: process_get_def Let_def)
    then show ?thesis using op Inl x assms(3) held by auto
  next
    case (Inr fo0)
    have fo0: "out = None" "fo_reader fo0 = Some rdr" "fo_mode fo0 = Some ObjectRead" "\<not> fo_isAwaitingData fo0" "fo_size fo0 = so_size r"
      using op Inr assms(3) by auto
    have served: ?thesis if "serve_range ops st hs a b fo0 = Some (rsp, rd, fo)" "wanted rq (so_size r) = Some (a, b)" "st \<in> {200, 206}" for st hs a b
      using serve_closes [OF that(1) fo0(3) _ fo0(4)] fo0(1,2) that(2,3) by auto
    show ?thesis
    proof (cases "non_empty (gr_range rq)")
      case None
      then have "wanted rq (so_size r) = Some (0, so_size r)" by (simp add: wanted_def)
      then show ?thesis using served [of 200 _ 0 "so_size r"] assms(1) Inr fo0(5) None by (auto simp: process_get_def Let_def)
    next
      case (Some h)
      show ?thesis
      proof (cases "requested_range h (so_size r)")
        case None
        then show ?thesis using assms(1) Inr fo0 held Some by (auto simp: process_get_def Let_def wanted_def)
      next
        case (Some ab)
        obtain a b where ab: "ab = (a, b)" by fastforce
        have "wanted rq (so_size r) = Some (a, b)" using Some ab \<open>non_empty (gr_range rq) = Some h\<close> by (simp add: wanted_def)
        then show ?thesis using served [of 206 _ a b] assms(1) Inr fo0(5) Some ab \<open>non_empty (gr_range rq) = Some h\<close>
          by (auto simp: process_get_def Let_def)
      qed
    qed
  qed
qed

section \<open>Ranges\<close>

lemma decimal_no_dash: "CHR ''-'' \<notin> set (decimal n)"
  using decimal_digits [of "CHR ''-''" n] by (auto simp: is_digit_def)

lemma strip_prefix: "strip_bytes (''bytes='' @ s) = s"
proof -
  have "[0..<length (''bytes='' @ s)] = 0 # [1..<length (''bytes='' @ s)]" by (subst upt_rec) simp
  then show ?thesis by (simp add: strip_bytes_def)
qed

text \<open>
  Ranges are read as RFC 9110 reads them, for a range with a first position: \<open>bytes=a-b\<close> selects the bytes
  from \<open>a\<close> to \<open>b\<close> inclusive, cut at the end of the object, \<open>bytes=a-\<close> those from \<open>a\<close> on, and a range that selects no byte
  is refused. A suffix range \<open>bytes=-b\<close> is refused as well. Whatever the header, an accepted range is not
  empty and lies within the object.
\<close>

theorem range_header_selects:
  "requested_range (''bytes='' @ decimal a @ ''-'' @ decimal b) sz = (if a < sz \<and> a \<le> b then Some (a, min (b + 1) sz) else None) \<and>
   requested_range (''bytes='' @ decimal a @ ''-'') sz = (if a < sz then Some (a, sz) else None) \<and>
   requested_range (''bytes=-'' @ decimal b) sz = None \<and>
   (case requested_range h sz of None \<Rightarrow> True | Some (s, e) \<Rightarrow> s < e \<and> e \<le> sz)"
proof (intro conjI)
  have s: "split_on (CHR ''-'') (decimal a @ ''-'' @ decimal b) = [decimal a, decimal b]"
      "split_on (CHR ''-'') (decimal a @ ''-'') = [decimal a, []]" "split_on (CHR ''-'') (''-'' @ decimal b) = [[], decimal b]"
    using split_on_field [OF decimal_no_dash, of a] split_on_free [OF decimal_no_dash] by simp_all
  have b: "strip_bytes (''bytes=-'' @ decimal b) = ''-'' @ decimal b" using strip_prefix [of "''-'' @ decimal b"] by simp
  show "requested_range (''bytes='' @ decimal a @ ''-'' @ decimal b) sz = (if a < sz \<and> a \<le> b then Some (a, min (b + 1) sz) else None)"
    unfolding requested_range_def strip_prefix s by (auto simp: Let_def decimal_nonempty min_def)
  show "requested_range (''bytes='' @ decimal a @ ''-'') sz = (if a < sz then Some (a, sz) else None)"
    unfolding requested_range_def strip_prefix s by (auto simp: Let_def)
  show "requested_range (''bytes=-'' @ decimal b) sz = None"
    unfolding requested_range_def b s by (simp add: Let_def parseInt_def)
  show "case requested_range h sz of None \<Rightarrow> True | Some (s, e) \<Rightarrow> s < e \<and> e \<le> sz"
    by (auto simp: requested_range_def Let_def split: option.splits)
qed

section \<open>What a browser may do with an object\<close>

lemma sanitized: "set (sanitizeDispositionFilename name) \<inter> {CHR 0x0D, CHR 0x0A, CHR 0x22, CHR 0x5C} = {} \<and>
    (\<forall>c \<in> set (sanitizeDispositionFilename name). 31 < (of_char c :: nat)) \<and> length (sanitizeDispositionFilename name) \<le> 255"
  by (auto simp: sanitizeDispositionFilename_def dest!: in_set_takeD)

lemma header_lookup [simp]: "map_of (setHeader k v hs) = (map_of hs)(k \<mapsto> v)"
  by (simp add: setHeader_def update_conv')

lemma lookup_identity [simp]: "k \<notin> {''X-Object-Id'', ''X-Container-Id''} \<Longrightarrow> map_of (applyObjectIdentityHeaders r hs) k = map_of hs k"
  by (simp add: applyObjectIdentityHeaders_def Let_def split: option.split)

lemma lookup_metadata [simp]: "k \<notin> {''Content-MD5'', ''Content-Type''} \<Longrightarrow> map_of (applyFileMetadataHeaders r hs) k = map_of hs k"
  by (simp add: applyFileMetadataHeaders_def Let_def split: option.split)

lemma lookup_slices [simp]: "k \<notin> {''X-Chunk-Size'', ''X-Parity-Slice-Volumes'', ''X-Parity-Slice-Count'', ''X-Data-Slice-Volumes'', ''X-Data-Slice-Count''} \<Longrightarrow>
    map_of (applySliceHeaders r hs) k = map_of hs k"
  by (simp add: applySliceHeaders_def)

text \<open>
  Stored content cannot act in a browser. Every download forbids guessing its type. Content that is not on the
  list of inert types (HTML and SVG are not on it, with any parameters and in any case) runs in a sandbox without
  sources and is downloaded instead of shown. And whatever file name the client asks for, the one in the header
  has no quote, backslash or control character, so it cannot leave its quotes or start another header.
\<close>

theorem active_content_locked_down:
  "let hs = map_of (base_headers r rq); name = (case non_empty (gr_downloadAs rq) of None \<Rightarrow> [] | Some d \<Rightarrow> sanitizeDispositionFilename d)
   in hs ''X-Content-Type-Options'' = Some ''nosniff'' \<and>
     (if isInlineSafe (so_mime r) then hs ''Content-Security-Policy'' = Some CSP_INERT_MEDIA
      else hs ''Content-Security-Policy'' = Some CSP_LOCKDOWN \<and> hs ''Content-Disposition'' \<noteq> None) \<and>
     hs ''Content-Disposition'' \<in> {None, Some ''attachment'', Some (''attachment; filename='' @ quoted name)} \<and>
     list_all (\<lambda>c. 31 < (of_char c :: nat) \<and> c \<notin> {CHR 0x22, CHR 0x5C}) name \<and> length name \<le> 255 \<and>
     \<not> isInlineSafe (Some (''text/html'' @ (if t = [] then [] else CHR '';'' # t))) \<and> \<not> isInlineSafe (Some ''Image/SVG+xml'') \<and> \<not> isInlineSafe None"
proof -
  have html: "takeWhile (\<lambda>c. c \<noteq> CHR '';'') (''text/html'' @ (if t = [] then [] else CHR '';'' # t)) = ''text/html''" by simp
  have types: "\<not> isInlineSafe (Some (''text/html'' @ (if t = [] then [] else CHR '';'' # t)))"
  proof -
    have ne: "(Some (''text/html'' @ x) = Some []) = False" for x :: string by simp
    have l: "map lower (trim ''text/html'') = ''text/html''" by code_simp
    show ?thesis unfolding isInlineSafe_def non_empty_def ne if_False option.case html l by (simp add: INLINE_SAFE_def Let_def)
  qed
  have svg: "\<not> isInlineSafe (Some ''Image/SVG+xml'')" "\<not> isInlineSafe None" by code_simp+
  have name: "list_all (\<lambda>c. 31 < (of_char c :: nat) \<and> c \<notin> {CHR 0x22, CHR 0x5C}) (sanitizeDispositionFilename d)"
      "length (sanitizeDispositionFilename d) \<le> 255" for d using sanitized [of d] by (auto simp: list_all_iff)
  show ?thesis
    using types svg name
    by (simp add: base_headers_def applyObjectSecurityHeaders_def Let_def split: option.split)
qed

section \<open>A small download\<close>

definition page_record :: stored_object where
  "page_record = \<lparr>so_id = ''0a'', so_containerId = None, so_bucketId = None, so_name = ''a'', so_size = 20, so_md5 = BsonNull,
     so_mime = Some ''text/html'', so_chunkSize = 72, so_sliceSize = None, so_dataVolumes = [0, 1], so_parityVolumes = [2],
     so_unavailableSlices = None, so_damagedSlices = None\<rparr>"

definition range_get :: "string \<Rightarrow> get_request" where
  "range_get h = \<lparr>gr_range = Some h, gr_downloadAs = None, gr_requestId = ''1''\<rparr>"

lemma small_wanted: "wanted (range_get ''bytes=5-8'') 20 = Some (5, 9)" "wanted (range_get ''bytes=30-'') 20 = None"
  by code_simp+

lemma page_record_layout:
  obtains plan g where "computeSliceSize (record_plan page_record) = Inr plan"
    "object_layout (\<lambda>_ _. None) (\<lambda>n. replicate n 0) plan 20 72 2 1 g"
    "object_layout (\<lambda>_ _. None) (\<lambda>n. replicate n 0) small_populated 20 72 2 1 g"
proof -
  have ok: "plan_ok 20 2 72" by (simp add: plan_ok_def)
  have r: "p_fileSize (record_plan page_record) = Some 20" "p_dataSliceCount (record_plan page_record) = Some 2" "p_chunkSize (record_plan page_record) = Some 72"
    by (simp_all add: record_plan_def page_record_def)
  obtain plan where p: "populatePlanDerivedFields (record_plan page_record) = Inr plan" "layout_of plan = Some (mk_layout 20 2 72)"
    using populate_layout [OF r ok] by blast
  have q: "layout_of small_populated = Some (mk_layout 20 2 72)"
    using populate_layout [OF _ _ _ ok, of small_plan] by (auto simp: small_plan_def)
  obtain g where g: "configureInternals (\<lambda>_ _. None) (\<lambda>n. replicate n 0) (Some small_populated) (new_base 20 72 2 1) = Inr g"
    and lay: "object_layout (\<lambda>_ _. None) (\<lambda>n. replicate n 0) small_populated 20 72 2 1 g" by (rule small_layout)
  have "configureInternals (\<lambda>_ _. None) (\<lambda>n. replicate n 0) (Some plan) (new_base 20 72 2 1) = Inr g"
    using g p(2) q by (simp add: configureInternals_def)
  then have "object_layout (\<lambda>_ _. None) (\<lambda>n. replicate n 0) plan 20 72 2 1 g"
    using p(1) r ok by (auto simp: object_layout_def MAX_SAFE_INTEGER_def intro!: exI [of _ "record_plan page_record"])
  then show thesis using that p(1) lay by (simp add: computeSliceSize_def)
qed

theorem download_returns_object_witness:
  "\<exists>(g :: base) rsp rd fo. process_get (disk_ops sum_digest xor_enc (b_startChunkDataSize g) (b_standardChunkDataSize g) [] (small_stored g (replicate 20 7)))
      False page_record (range_get ''bytes=5-8'') = Some (rsp, rd, fo) \<and> rs_status rsp = 206 \<and> rs_body rsp = [7, 7, 7, 7]"
proof -
  obtain plan g where c: "computeSliceSize (record_plan page_record) = Inr plan"
    and lay: "object_layout (\<lambda>_ _. None) (\<lambda>n. replicate n 0) plan 20 72 2 1 g" "object_layout (\<lambda>_ _. None) (\<lambda>n. replicate n 0) small_populated 20 72 2 1 g"
    by (rule page_record_layout)
  have d: "so_size page_record = 20" "so_chunkSize page_record = 72" "length (so_dataVolumes page_record) = 2" "length (so_parityVolumes page_record) = 1"
      "fo_unavailableSliceIdxs (loadFromRecord page_record (new_file_object :: disk_slice file_object)) = []" by (simp_all add: page_record_def loadFromRecord_def Let_def)
  let ?ops = "disk_ops sum_digest xor_enc (b_startChunkDataSize g) (b_standardChunkDataSize g) [] (small_stored g (replicate 20 7))"
  note files = small_files [OF lay(2), of "replicate 20 7"]
  obtain rsp rd fo where g: "process_get ?ops False page_record (range_get ''bytes=5-8'') = Some (rsp, rd, fo)"
      "rs_complete rsp \<longrightarrow> rs_status rsp = (if non_empty (gr_range (range_get ''bytes=5-8'')) = None then 200 else 206) \<and>
        rs_body rsp = take (9 - 5) (drop 5 (replicate 20 7))" "rs_complete rsp"
    using download_returns_object [OF c, unfolded d, OF lay(1) xor_law sum_digest16 _ files(1) small_wanted(1) refl] files(2) by auto
  have "non_empty (gr_range (range_get ''bytes=5-8'')) \<noteq> None" by (simp add: range_get_def non_empty_def)
  moreover have "take (9 - 5) (drop 5 (replicate 20 (7 :: 8 word))) = [7, 7, 7, 7]" by code_simp
  ultimately have "rs_status rsp = 206" "rs_body rsp = [7, 7, 7, 7]" using g(2,3) by auto
  then show ?thesis using g(1) by blast
qed

text \<open>Slices of which only the headers matter, and the same slices when a shutdown interrupts the second one as it opens.\<close>

definition header_slice :: "nat \<Rightarrow> disk_slice" where
  "header_slice i = (\<lparr>w_slice = new_slice (small_ref i) ''0a'' i 0 False NormalPriority,
     w_vol = Volume_State.sample_volume\<lparr>v_committed := (\<lambda>_. Some (projr (slice_header sum_digest (small_ref i))))\<rparr>, w_pm = pm_empty\<rparr>, [])"

definition interrupted_slice :: "nat \<Rightarrow> disk_slice" where
  "interrupted_slice i = (fst (header_slice i), if i = 1 then [quiet_env\<lparr>se_aborted := (\<lambda>k. k = 1)\<rparr>] else [])"

lemma header_slices_open:
  "fst (prepared_reader (disk_ops sum_digest xor_enc 56 56 [] header_slice) page_record) = None"
  "rd_openSliceIdxs (snd (prepared_reader (disk_ops sum_digest xor_enc 56 56 [] header_slice) page_record)) = [0, 1]"
  "fst (prepared_reader (disk_ops sum_digest xor_enc 56 56 [] interrupted_slice) page_record) \<noteq> None"
  "rd_openSliceIdxs (snd (prepared_reader (disk_ops sum_digest xor_enc 56 56 [] interrupted_slice) page_record)) = [0]"
  by code_simp+

lemma open_of_prepared:
  "\<exists>fo. openForRead ops False r (Some rid) None =
     (if fst (prepared_reader ops r) = None then Inr fo else Inl (plain_error ''failed to open file object'', Some fo)) \<and> fo_size fo = so_size r"
  by (auto simp: openForRead_def load_object_def prepareForRead_def applyRequestContext_def setRequestId_def loadFromRecord_def
      prepared_reader_def Let_def split: option.splits prod.splits)

theorem get_leaves_slices_open_witness:
  "(\<exists>rsp fo rdr. process_get (disk_ops sum_digest xor_enc 56 56 [] header_slice) False page_record (range_get ''bytes=30-'') = Some (rsp, None, Some fo) \<and>
     rs_status rsp = 416 \<and> fo_reader fo = Some rdr \<and> held_open (rd_slices rdr ! 0) \<and> held_open (rd_slices rdr ! 1)) \<and>
   (\<exists>rsp fo rdr. process_get (disk_ops sum_digest xor_enc 56 56 [] interrupted_slice) False page_record (range_get ''bytes=5-8'') = Some (rsp, None, Some fo) \<and>
     rs_status rsp = 500 \<and> fo_reader fo = Some rdr \<and> held_open (rd_slices rdr ! 0))"
proof
  let ?ops = "disk_ops sum_digest xor_enc 56 56 [] header_slice" and ?ops' = "disk_ops sum_digest xor_enc 56 56 [] interrupted_slice"
  have sz: "so_size page_record = 20" by (simp add: page_record_def)
  have h: "non_empty (gr_range (range_get ''bytes=30-'')) = Some ''bytes=30-''" "requested_range ''bytes=30-'' 20 = None"
    by code_simp+
  obtain rdr where p: "prepared_reader ?ops page_record = (None, rdr)" "rd_openSliceIdxs rdr = [0, 1]"
    using header_slices_open(1,2) by (cases "prepared_reader ?ops page_record") simp
  obtain fo where "openForRead ?ops False page_record (Some (''http-'' @ gr_requestId (range_get ''bytes=30-''))) None = Inr fo" "fo_size fo = 20"
    using open_of_prepared [of ?ops page_record "''http-'' @ gr_requestId (range_get ''bytes=30-'')"] p(1) sz by auto
  then obtain rsp rd where g: "process_get ?ops False page_record (range_get ''bytes=30-'') = Some (rsp, rd, Some fo)"
    using h by (simp add: process_get_def Let_def)
  show "\<exists>rsp fo rdr. process_get ?ops False page_record (range_get ''bytes=30-'') = Some (rsp, None, Some fo) \<and>
     rs_status rsp = 416 \<and> fo_reader fo = Some rdr \<and> held_open (rd_slices rdr ! 0) \<and> held_open (rd_slices rdr ! 1)"
    using get_leaves_slices_open [OF g refl p(1)] g p(2) by (auto simp: sz small_wanted(2))
  obtain e rdr' where p': "prepared_reader ?ops' page_record = (Some e, rdr')" "rd_openSliceIdxs rdr' = [0]"
    using header_slices_open(3,4) by (cases "prepared_reader ?ops' page_record") auto
  obtain e' fo' where "openForRead ?ops' False page_record (Some (''http-'' @ gr_requestId (range_get ''bytes=5-8''))) None = Inl (e', Some fo')"
    using open_of_prepared [of ?ops' page_record "''http-'' @ gr_requestId (range_get ''bytes=5-8'')"] p'(1) by auto
  then obtain rsp' rd' where g': "process_get ?ops' False page_record (range_get ''bytes=5-8'') = Some (rsp', rd', Some fo')"
    by (simp add: process_get_def Let_def)
  show "\<exists>rsp fo rdr. process_get ?ops' False page_record (range_get ''bytes=5-8'') = Some (rsp, None, Some fo) \<and>
     rs_status rsp = 500 \<and> fo_reader fo = Some rdr \<and> held_open (rd_slices rdr ! 0)"
    using get_leaves_slices_open [OF g' refl p'(1)] g' p'(2) by auto
qed

end
