(* ===== verification/Recovery.thy ===== *)
theory Recovery
  imports Object_Ids "HOL-Library.Product_Lexorder" "HOL-Library.Multiset"
begin

text \<open>
  Recovery from the platters (\<^verbatim>\<open>lib/recovery/recovery.ts\<close>): the header of a slice file, the refusal to reason about an
  incomplete fleet, the index of every slice file, and the record of an object rebuilt from the headers of
  its slices. Recovery only reads; a disk gives the same answer to the same call throughout, and a file
  opened for reading closes without an error. Log messages are left out, and with them the advisory checksum,
  which decides nothing else.
\<close>

section \<open>Reading a header\<close>

record platter_fs =
  pf_readdir :: "string \<Rightarrow> js_error + string list"
  pf_open :: "string \<Rightarrow> js_error option"
  pf_read :: "string \<Rightarrow> js_error + bytes"

record slice_header_fields =
  sh_id :: string
  sh_size :: int
  sh_dataSliceCount :: nat
  sh_paritySliceCount :: nat
  sh_sliceIndex :: nat
  sh_chunkSize :: int

datatype header_read = HeaderOk slice_header_fields | HeaderAbsent | HeaderCorrupt | HeaderUnreadable string

definition MAX_SLICES :: nat where "MAX_SLICES = 32"

text \<open>\<open>code ?? String(err)\<close>\<close>

definition why_failed :: "js_error \<Rightarrow> string" where
  "why_failed e = (case err_code e of Some c \<Rightarrow> c | None \<Rightarrow> ''Error: '' @ err_message e)"

text \<open>\<open>s.slice(s.lastIndexOf('.') + 1)\<close>\<close>

definition after_last_dot :: "string \<Rightarrow> string" where
  "after_last_dot s = rev (takeWhile (\<lambda>c. c \<noteq> CHR ''.'') (rev s))"

definition decode_header :: "bytes \<Rightarrow> slice_header_fields" where
  "decode_header buf = \<lparr>sh_id = to_hex (buf_slice buf 23 35), sh_size = readIntLE (buf_slice buf 35 40),
     sh_dataSliceCount = unat (buf ! 40), sh_paritySliceCount = unat (buf ! 41), sh_sliceIndex = unat (buf ! 42),
     sh_chunkSize = readIntLE (buf_slice buf 43 46)\<rparr>"

definition sane_header :: "slice_header_fields \<Rightarrow> bool" where
  "sane_header h \<longleftrightarrow> \<not> sh_dataSliceCount h < 1 \<and> \<not> sh_dataSliceCount h + sh_paritySliceCount h > MAX_SLICES \<and>
     \<not> sh_sliceIndex h \<ge> sh_dataSliceCount h + sh_paritySliceCount h \<and> \<not> (sh_chunkSize h \<le> 0 \<or> sh_size h < 0)"

definition readSliceHeaderResult :: "platter_fs \<Rightarrow> string \<Rightarrow> header_read" where
  "readSliceHeaderResult fs path =
    (case pf_open fs path of
       Some e \<Rightarrow> if missing e then HeaderAbsent else HeaderUnreadable (why_failed e)
     | None \<Rightarrow> case pf_read fs path of
         Inl e \<Rightarrow> HeaderUnreadable (why_failed e)
       | Inr buf \<Rightarrow>
         if int (length buf) < FILE_HEADER_SIZE then HeaderCorrupt
         else if take 4 buf \<noteq> SLICE_MAGIC then HeaderCorrupt
         else let header = decode_header buf in
           if \<not> sane_header header then HeaderCorrupt
           else case parseInt (after_last_dot path) of
               Some n \<Rightarrow> if n \<noteq> int (sh_sliceIndex header) then HeaderCorrupt else HeaderOk header
             | None \<Rightarrow> HeaderOk header)"

definition readSliceHeader :: "platter_fs \<Rightarrow> string \<Rightarrow> slice_header_fields option" where
  "readSliceHeader fs path = (case readSliceHeaderResult fs path of HeaderOk h \<Rightarrow> Some h | _ \<Rightarrow> None)"

section \<open>The fleet\<close>

record platter =
  pl_volumeId :: nat
  pl_mountPoint :: string

record recovery_volume =
  rv_id :: nat
  rv_isDeleted :: bool
  rv_isMounted :: bool
  rv_isStarted :: bool
  rv_mountPoint :: "string option"

definition usable_mount :: "recovery_volume \<Rightarrow> string option" where
  "usable_mount v = (if rv_isStarted v \<and> rv_isMounted v \<and> rv_mountPoint v \<noteq> Some [] then rv_mountPoint v else None)"

fun plattersLoop :: "recovery_volume list \<Rightarrow> platter list \<Rightarrow> nat list \<Rightarrow> platter list \<times> nat list" where
  "plattersLoop [] platters gone = (platters, gone)"
| "plattersLoop (v # vs) platters gone =
    (if rv_isDeleted v then plattersLoop vs platters gone
     else case usable_mount v of
         Some m \<Rightarrow> plattersLoop vs (platters @ [\<lparr>pl_volumeId = rv_id v, pl_mountPoint = m\<rparr>]) gone
       | None \<Rightarrow> plattersLoop vs platters (gone @ [rv_id v]))"

definition plattersOrRefuse :: "recovery_volume list \<Rightarrow> js_error + platter list" where
  "plattersOrRefuse volumes =
    (case plattersLoop volumes [] [] of (platters, gone) \<Rightarrow>
       if platters = [] \<and> gone = []
       then Inl (plain_error ''refusing to draw conclusions about the array: the fleet reports NO volumes at all'')
       else if gone \<noteq> []
       then Inl (plain_error ''refusing to draw conclusions about the array while volume(s) are not mounted'')
       else Inr platters)"

section \<open>The slice index\<close>

type_synonym slots = "16 word list"
type_synonym slice_index = "string \<rightharpoonup> slots"
type_synonym slice_entry = "string \<times> nat \<times> nat"

definition readdirStrict :: "platter_fs \<Rightarrow> string \<Rightarrow> string list \<times> string list" where
  "readdirStrict fs dir =
    (case pf_readdir fs dir of Inr es \<Rightarrow> (es, []) | Inl e \<Rightarrow> ([], if missing e then [] else [dir]))"

definition is_hex_dir :: "string \<Rightarrow> bool" where
  "is_hex_dir d \<longleftrightarrow> length d = 2 \<and> list_all is_hex_lower d"

definition hexDirs :: "platter_fs \<Rightarrow> string \<Rightarrow> string list \<times> string list" where
  "hexDirs fs dir = (case readdirStrict fs dir of (ds, unreadable) \<Rightarrow> (filter is_hex_dir ds, unreadable))"

text \<open>The id and the slice index in the name of a file, if it is a slice file the index has a slot for.\<close>

definition slice_of_entry :: "string \<Rightarrow> (string \<times> nat) option" where
  "slice_of_entry entry =
    (if \<not> isSliceFileName entry then None
     else let i = parseInt (after_last_dot entry); oid = take (length entry - length (after_last_dot entry) - 1) entry in
       case i of None \<Rightarrow> None | Some n \<Rightarrow> if n < 0 \<or> n \<ge> int MAX_SLICES then None else Some (oid, nat n))"

definition scan_shard :: "platter_fs \<Rightarrow> nat \<Rightarrow> string \<Rightarrow> slice_entry list \<times> string list" where
  "scan_shard fs vid dir = (case readdirStrict fs dir of (es, unreadable) \<Rightarrow>
     (List.map_filter (\<lambda>e. map_option (\<lambda>(oid, i). (oid, i, vid)) (slice_of_entry e)) es, unreadable))"

text \<open>One level of the walk: every two-digit directory, in the order of the listing.\<close>

definition walk_level :: "platter_fs \<Rightarrow> (string \<Rightarrow> slice_entry list \<times> string list) \<Rightarrow> string \<Rightarrow> slice_entry list \<times> string list" where
  "walk_level fs inner dir = (case hexDirs fs dir of (ds, unreadable) \<Rightarrow>
     let rs = map (\<lambda>d. inner (dir @ ''/'' @ d)) ds in (concat (map fst rs), unreadable @ concat (map snd rs)))"

definition scan_platter :: "platter_fs \<Rightarrow> platter \<Rightarrow> slice_entry list \<times> string list" where
  "scan_platter fs p =
    walk_level fs (walk_level fs (walk_level fs (scan_shard fs (pl_volumeId p)))) (pl_mountPoint p @ ''/strubs'')"

text \<open>The first copy found keeps the slot; a slot holds the volume id plus one in 16 bits.\<close>

definition index_entry :: "slice_entry \<Rightarrow> slice_index \<Rightarrow> slice_index" where
  "index_entry e index = (case e of (oid, i, vid) \<Rightarrow>
     let slots = (case index oid of None \<Rightarrow> replicate MAX_SLICES 0 | Some s \<Rightarrow> s)
     in index(oid \<mapsto> (if slots ! i = 0 then slots[i := of_nat (vid + 1)] else slots)))"

text \<open>
  The workers walk the platters concurrently, so the files of different platters are met in an order that the
  disks decide: \<open>merge\<close> is that order.
\<close>

definition buildSliceIndex ::
  "platter_fs \<Rightarrow> (slice_entry list list \<Rightarrow> slice_entry list) \<Rightarrow> platter list \<Rightarrow> js_error + slice_index" where
  "buildSliceIndex fs merge platters =
    (let scans = map (scan_platter fs) platters; unreadable = concat (map snd scans)
     in if unreadable \<noteq> [] then Inl (plain_error ''refusing to report on the array: directories could not be read'')
        else Inr (fold index_entry (merge (map fst scans)) Map.empty))"

definition shard_dir :: "string \<Rightarrow> string \<Rightarrow> string" where
  "shard_dir mountPoint oid =
     mountPoint @ ''/strubs/'' @ take 2 oid @ ''/'' @ take 2 (drop 2 oid) @ ''/'' @ take 2 (drop 4 oid)"

definition slicePath :: "string \<Rightarrow> string \<Rightarrow> nat \<Rightarrow> string" where
  "slicePath mountPoint oid i = shard_dir mountPoint oid @ ''/'' @ oid @ ''.'' @ decimal i"

section \<open>Looking for the slices of one object\<close>

fun locateEntries :: "string \<Rightarrow> nat \<Rightarrow> string \<Rightarrow> string list \<Rightarrow> (int \<times> nat \<times> string) list \<Rightarrow> (int \<times> nat \<times> string) list" where
  "locateEntries oid vid dir [] found = found"
| "locateEntries oid vid dir (entry # es) found =
    (if \<not> isSliceFileName entry \<or> \<not> prefix (oid @ ''.'') entry then locateEntries oid vid dir es found
     else case parseInt (after_last_dot entry) of None \<Rightarrow> locateEntries oid vid dir es found
     | Some i \<Rightarrow>
       if map_of found i \<noteq> None then locateEntries oid vid dir es found
       else locateEntries oid vid dir es (found @ [(i, vid, dir @ ''/'' @ entry)]))"

fun locateLoop :: "platter_fs \<Rightarrow> string \<Rightarrow> platter list \<Rightarrow> (int \<times> nat \<times> string) list \<Rightarrow> js_error + (int \<times> nat \<times> string) list" where
  "locateLoop fs oid [] found = Inr found"
| "locateLoop fs oid (p # ps) found =
    (let dir = shard_dir (pl_mountPoint p) oid in
     case pf_readdir fs dir of
       Inl e \<Rightarrow> if missing e then locateLoop fs oid ps found
                else Inl (plain_error ''cannot read the shard directory: refusing to report on the object'')
     | Inr es \<Rightarrow> locateLoop fs oid ps (locateEntries oid (pl_volumeId p) dir es found))"

definition locateSlices :: "platter_fs \<Rightarrow> string \<Rightarrow> platter list \<Rightarrow> js_error + (int \<times> nat \<times> string) list" where
  "locateSlices fs oid platters = locateLoop fs oid platters []"

section \<open>The record of an object, rebuilt\<close>

datatype verdict = Recoverable | Below_quorum | Uncorroborated_geometry | Indeterminate

record rebuilt_record =
  rr_id :: string
  rr_size :: "int option"
  rr_chunkSize :: "int option"
  rr_dataVolumes :: "nat list"
  rr_parityVolumes :: "nat list"

record synthesis =
  sy_record :: "rebuilt_record option"
  sy_recoverable :: bool
  sy_found :: nat
  sy_needed :: nat
  sy_unknown :: nat
  sy_reason :: verdict

type_synonym shape = "int \<times> nat \<times> nat \<times> int"

definition shapeOf :: "slice_header_fields \<Rightarrow> shape" where
  "shapeOf h = (sh_size h, sh_dataSliceCount h, sh_paritySliceCount h, sh_chunkSize h)"

definition slot :: "slots \<Rightarrow> nat \<Rightarrow> nat" where
  "slot slots i = (if i < length slots then unat (slots ! i) else 0)"

definition volume_or :: "nat \<Rightarrow> slots \<Rightarrow> nat \<Rightarrow> nat" where
  "volume_or placeholder slots i = (if slot slots i \<noteq> 0 then slot slots i - 1 else placeholder)"

text \<open>The header of slice \<open>i\<close> where it is usable, and whether its disk would not answer.\<close>

definition readHeader :: "platter_fs \<Rightarrow> (nat \<Rightarrow> string option) \<Rightarrow> string \<Rightarrow> slots \<Rightarrow> nat \<Rightarrow> slice_header_fields option \<times> bool" where
  "readHeader fs mountOf oid slots i =
    (case (if slot slots i \<noteq> 0 then mountOf (slot slots i - 1) else None) of
       None \<Rightarrow> (None, False)
     | Some mnt \<Rightarrow>
       if mnt = [] then (None, False)
       else case readSliceHeaderResult fs (slicePath mnt oid i) of
           HeaderOk h \<Rightarrow> (if sh_id h = oid then Some h else None, False)
         | HeaderUnreadable _ \<Rightarrow> (None, True)
         | _ \<Rightarrow> (None, False))"

record tally =
  ta_header :: slice_header_fields
  ta_volumes :: "nat list"
  ta_slices :: nat

type_synonym votes = "(shape \<times> tally) list"

definition count_vote :: "slots \<Rightarrow> (nat \<Rightarrow> slice_header_fields option) \<Rightarrow> nat \<Rightarrow> votes \<Rightarrow> votes" where
  "count_vote slots headers i votes =
    (case headers i of None \<Rightarrow> votes
     | Some h \<Rightarrow>
       let t = (case map_of votes (shapeOf h) of Some t \<Rightarrow> t | None \<Rightarrow> \<lparr>ta_header = h, ta_volumes = [], ta_slices = 0\<rparr>)
       in AList.update (shapeOf h) (t\<lparr>ta_volumes := List.insert (slot slots i - 1) (ta_volumes t), ta_slices := Suc (ta_slices t)\<rparr>) votes)"

text \<open>Most volumes first, then most slices; the sort is stable.\<close>

definition rank :: "shape \<times> tally \<Rightarrow> int \<times> int" where
  "rank v = (- int (length (ta_volumes (snd v))), - int (ta_slices (snd v)))"

definition settle_vote :: "votes \<Rightarrow> nat \<Rightarrow> (shape \<times> tally) option" where
  "settle_vote votes readable =
    (case sort_key rank votes of
       [] \<Rightarrow> None
     | winner # others \<Rightarrow>
       if (case others of [] \<Rightarrow> False | second # _ \<Rightarrow> rank second = rank winner) then None
       else if ta_slices (snd winner) < 2 \<and> readable > 1 then None
       else Some winner)"

text \<open>No header could be read: the configured geometry, if there is one, is the only bar left.\<close>

definition judge_silent :: "string \<Rightarrow> slots \<Rightarrow> nat \<Rightarrow> (nat \<times> nat) option \<Rightarrow> nat list \<Rightarrow> synthesis option" where
  "judge_silent oid slots placeholder geometry unknown =
    (if unknown = [] then None
     else
       let couldClear = (case geometry of None \<Rightarrow> True | Some (d, p) \<Rightarrow> length (filter (\<lambda>i. i < d + p) unknown) \<ge> d)
       in if \<not> couldClear then None
          else Some \<lparr>sy_record = map_option (\<lambda>(d, p). \<lparr>rr_id = oid, rr_size = None, rr_chunkSize = None,
                   rr_dataVolumes = map (volume_or placeholder slots) [0..<d],
                   rr_parityVolumes = map (\<lambda>i. volume_or placeholder slots (d + i)) [0..<p]\<rparr>) geometry,
                 sy_recoverable = False, sy_found = 0, sy_needed = (case geometry of None \<Rightarrow> 0 | Some (d, p) \<Rightarrow> d),
                 sy_unknown = length unknown, sy_reason = Indeterminate\<rparr>)"

record rescue =
  re_volumes :: "nat list"
  re_unknown :: "nat list"
  re_found :: nat

text \<open>The other copies of one slice: the first intact one, and whether a disk on the way would not answer.\<close>

fun otherCopy :: "platter_fs \<Rightarrow> string \<Rightarrow> shape \<Rightarrow> nat \<Rightarrow> nat option \<Rightarrow> platter list \<Rightarrow> nat option \<times> bool" where
  "otherCopy fs oid winning i already [] = (None, False)"
| "otherCopy fs oid winning i already (p # ps) =
    (if Some (pl_volumeId p) = already then otherCopy fs oid winning i already ps
     else case readSliceHeaderResult fs (slicePath (pl_mountPoint p) oid i) of
         HeaderUnreadable _ \<Rightarrow> (fst (otherCopy fs oid winning i already ps), True)
       | HeaderOk h \<Rightarrow> if sh_id h \<noteq> oid \<or> shapeOf h \<noteq> winning then otherCopy fs oid winning i already ps
                        else (Some (pl_volumeId p), False)
       | _ \<Rightarrow> otherCopy fs oid winning i already ps)"

text \<open>The volumes of the data and the parity slices are one list here, cut at the data count at the end.\<close>

fun rescueLoop ::
  "platter_fs \<Rightarrow> string \<Rightarrow> slots \<Rightarrow> (nat \<Rightarrow> slice_header_fields option) \<Rightarrow> shape \<Rightarrow> nat \<Rightarrow> platter list \<Rightarrow> nat list \<Rightarrow> rescue \<Rightarrow> rescue" where
  "rescueLoop fs oid slots headers winning d platters [] r = r"
| "rescueLoop fs oid slots headers winning d platters (i # rest) r =
    (if \<not> re_found r < d then r
     else if (case headers i of Some h \<Rightarrow> shapeOf h = winning | None \<Rightarrow> False)
       then rescueLoop fs oid slots headers winning d platters rest r
     else rescueLoop fs oid slots headers winning d platters rest
       (case otherCopy fs oid winning i (if slot slots i \<noteq> 0 then Some (slot slots i - 1) else None) platters of (copy, silent) \<Rightarrow>
          let seen = (if silent then List.insert i (re_unknown r) else re_unknown r)
          in case copy of None \<Rightarrow> r\<lparr>re_unknown := seen\<rparr>
             | Some v \<Rightarrow> r\<lparr>re_volumes := (re_volumes r)[i := v], re_unknown := removeAll i seen, re_found := Suc (re_found r)\<rparr>))"

definition quorate :: "nat \<Rightarrow> nat \<Rightarrow> bool" where
  "quorate found d \<longleftrightarrow> found \<ge> 2 \<and> found \<ge> d"

definition rescue_pass ::
  "platter_fs \<Rightarrow> string \<Rightarrow> slots \<Rightarrow> (nat \<Rightarrow> slice_header_fields option) \<Rightarrow> shape \<Rightarrow> nat \<Rightarrow> nat \<Rightarrow> platter list option \<Rightarrow> rescue \<Rightarrow> rescue" where
  "rescue_pass fs oid slots headers winning d sliceTotal platters r =
    (case platters of
       Some ps \<Rightarrow> if \<not> quorate (re_found r) d then rescueLoop fs oid slots headers winning d ps [0..<sliceTotal] r else r
     | None \<Rightarrow> r)"

definition pass_judgement :: "string \<Rightarrow> slice_header_fields \<Rightarrow> rescue \<Rightarrow> synthesis" where
  "pass_judgement oid agreed r =
    (let d = sh_dataSliceCount agreed; sliceTotal = d + sh_paritySliceCount agreed;
         recoverable = quorate (re_found r) d;
         unknownInGeometry = length (filter (\<lambda>i. i < sliceTotal) (re_unknown r));
         indeterminate = (\<not> recoverable \<and> unknownInGeometry > 0 \<and> re_found r + unknownInGeometry \<ge> d)
     in \<lparr>sy_record = Some \<lparr>rr_id = oid, rr_size = Some (sh_size agreed), rr_chunkSize = Some (sh_chunkSize agreed),
           rr_dataVolumes = take d (re_volumes r), rr_parityVolumes = drop d (re_volumes r)\<rparr>,
         sy_recoverable = recoverable, sy_found = re_found r, sy_needed = d, sy_unknown = unknownInGeometry,
         sy_reason = (if recoverable then Recoverable else if indeterminate then Indeterminate
            else if re_found r \<ge> 2 then Below_quorum else Uncorroborated_geometry)\<rparr>)"

definition present_slots :: "slots \<Rightarrow> nat list" where
  "present_slots slots = filter (\<lambda>i. slot slots i \<noteq> 0) [0..<MAX_SLICES]"

text \<open>The headers that could be read, and the slices whose disks would not answer.\<close>

definition header_of :: "platter_fs \<Rightarrow> (nat \<Rightarrow> string option) \<Rightarrow> string \<Rightarrow> slots \<Rightarrow> nat \<Rightarrow> slice_header_fields option" where
  "header_of fs mountOf oid slots i = (if i \<in> set (present_slots slots) then fst (readHeader fs mountOf oid slots i) else None)"

definition silent_slices :: "platter_fs \<Rightarrow> (nat \<Rightarrow> string option) \<Rightarrow> string \<Rightarrow> slots \<Rightarrow> nat list" where
  "silent_slices fs mountOf oid slots = filter (\<lambda>i. snd (readHeader fs mountOf oid slots i)) (present_slots slots)"

definition rebuild_from ::
  "platter_fs \<Rightarrow> string \<Rightarrow> slots \<Rightarrow> nat \<Rightarrow> platter list option \<Rightarrow> (nat \<Rightarrow> slice_header_fields option) \<Rightarrow> nat list \<Rightarrow> shape \<times> tally \<Rightarrow> synthesis" where
  "rebuild_from fs oid slots placeholder platters headers unknown w =
    (let agreed = ta_header (snd w); d = sh_dataSliceCount agreed; sliceTotal = d + sh_paritySliceCount agreed
     in pass_judgement oid agreed (rescue_pass fs oid slots headers (fst w) d sliceTotal platters
          \<lparr>re_volumes = map (volume_or placeholder slots) [0..<sliceTotal], re_unknown = unknown, re_found = ta_slices (snd w)\<rparr>))"

definition synthesiseRecordFromIndex ::
  "platter_fs \<Rightarrow> string \<Rightarrow> slots option \<Rightarrow> (nat \<Rightarrow> string option) \<Rightarrow> nat \<Rightarrow> platter list option \<Rightarrow> (nat \<times> nat) option \<Rightarrow> synthesis option" where
  "synthesiseRecordFromIndex fs oid indexed mountOf placeholder platters geometry =
    (case indexed of None \<Rightarrow> None
     | Some slots \<Rightarrow>
       let present = present_slots slots; headers = header_of fs mountOf oid slots;
           unknown = silent_slices fs mountOf oid slots;
           readable = length (filter (\<lambda>i. headers i \<noteq> None) present)
       in if readable = 0 then judge_silent oid slots placeholder geometry unknown
          else map_option (rebuild_from fs oid slots placeholder platters headers unknown)
            (settle_vote (fold (count_vote slots headers) present []) readable))"

section \<open>Headers and paths\<close>

lemma after_last_dot_number [simp]: "after_last_dot (s @ ''.'' @ decimal i) = decimal i"
proof -
  have d: "\<forall>c \<in> set (decimal i). c \<noteq> CHR ''.''" using decimal_digits [of "CHR ''.''" i] by (auto simp: is_digit_def)
  have "takeWhile (\<lambda>c. c \<noteq> CHR ''.'') (rev (decimal i) @ CHR ''.'' # rev s) = rev (decimal i)"
    using d by (subst takeWhile_append2) auto
  then show ?thesis by (simp add: after_last_dot_def)
qed

lemma after_last_dot_path [simp]: "after_last_dot (slicePath mnt oid i) = decimal i"
  using after_last_dot_number [of "shard_dir mnt oid @ ''/'' @ oid" i] by (simp add: slicePath_def)

lemma header_at_path:
  assumes "readSliceHeaderResult fs (slicePath mnt oid i) = HeaderOk h"
  shows "sane_header h" "sh_sliceIndex h = i"
  using assms by (auto simp: readSliceHeaderResult_def Let_def split: option.splits if_splits sum.splits)

definition intact_copy :: "platter_fs \<Rightarrow> string \<Rightarrow> shape \<Rightarrow> string \<Rightarrow> nat \<Rightarrow> bool" where
  "intact_copy fs oid sh mnt i \<longleftrightarrow>
     (case readSliceHeaderResult fs (slicePath mnt oid i) of HeaderOk h \<Rightarrow> sh_id h = oid \<and> shapeOf h = sh | _ \<Rightarrow> False)"

lemma intact_copy_iff:
  "intact_copy fs oid sh mnt i \<longleftrightarrow> (\<exists>h. readSliceHeaderResult fs (slicePath mnt oid i) = HeaderOk h \<and> sh_id h = oid \<and> shapeOf h = sh)"
  by (auto simp: intact_copy_def split: header_read.splits)

lemma intact_copy_bounds:
  assumes "intact_copy fs oid (sz, d, p, c) mnt i"
  shows "1 \<le> d" "i < d + p" "d + p \<le> MAX_SLICES"
  using assms header_at_path [of fs mnt oid i] by (auto simp: intact_copy_iff shapeOf_def sane_header_def)

section \<open>The vote\<close>

definition agreeing :: "(nat \<Rightarrow> slice_header_fields option) \<Rightarrow> shape \<Rightarrow> nat list \<Rightarrow> nat list" where
  "agreeing headers sh xs = filter (\<lambda>i. case headers i of Some h \<Rightarrow> shapeOf h = sh | None \<Rightarrow> False) xs"

definition volumes_of :: "slots \<Rightarrow> nat list \<Rightarrow> nat list" where
  "volumes_of slots is = fold (\<lambda>i. List.insert (slot slots i - 1)) is []"

lemma set_volumes_of [simp]: "set (volumes_of slots is) = (\<lambda>i. slot slots i - 1) ` set is"
  and distinct_volumes_of [simp]: "distinct (volumes_of slots is)"
  by (induction "is" rule: rev_induct) (simp_all add: volumes_of_def)

lemma volumes_of_snoc [simp]: "volumes_of slots (is @ [i]) = List.insert (slot slots i - 1) (volumes_of slots is)"
  by (simp add: volumes_of_def)

lemma agreeing_snoc [simp]: "agreeing headers sh (xs @ [i]) =
    agreeing headers sh xs @ (case headers i of Some h \<Rightarrow> if shapeOf h = sh then [i] else [] | None \<Rightarrow> [])"
  by (simp add: agreeing_def split: option.splits)

lemma set_agreeing: "i \<in> set (agreeing headers sh xs) \<longleftrightarrow> i \<in> set xs \<and> (\<exists>h. headers i = Some h \<and> shapeOf h = sh)"
  by (auto simp: agreeing_def split: option.splits)

definition tally_of :: "slots \<Rightarrow> (nat \<Rightarrow> slice_header_fields option) \<Rightarrow> shape \<Rightarrow> nat list \<Rightarrow> tally option" where
  "tally_of slots headers sh xs = (case agreeing headers sh xs of [] \<Rightarrow> None
     | i # _ \<Rightarrow> Some \<lparr>ta_header = the (headers i), ta_volumes = volumes_of slots (agreeing headers sh xs),
                   ta_slices = length (agreeing headers sh xs)\<rparr>)"

abbreviation cast_votes :: "slots \<Rightarrow> (nat \<Rightarrow> slice_header_fields option) \<Rightarrow> nat list \<Rightarrow> votes" where
  "cast_votes slots headers xs \<equiv> fold (count_vote slots headers) xs []"

lemma cast_votes_snoc: "cast_votes slots headers (xs @ [i]) = count_vote slots headers i (cast_votes slots headers xs)"
  by simp

lemma votes_tally: "map_of (cast_votes slots headers xs) sh = tally_of slots headers sh xs"
proof (induction xs arbitrary: sh rule: rev_induct)
  case (snoc i xs)
  define vs where "vs = cast_votes slots headers xs"
  have IH: "map_of vs sh' = tally_of slots headers sh' xs" for sh' using snoc.IH by (simp add: vs_def)
  show ?case
    unfolding cast_votes_snoc vs_def [symmetric] using IH
    by (cases "headers i")
      (auto simp: count_vote_def update_conv tally_of_def volumes_of_def Let_def split: list.splits option.splits)
qed (simp add: tally_of_def agreeing_def)

lemma distinct_votes: "distinct (map fst (cast_votes slots headers xs))"
  by (induction xs rule: rev_induct) (auto simp: count_vote_def distinct_update Let_def split: option.splits)

lemma vote_mem: "(sh, t) \<in> set (cast_votes slots headers xs) \<longleftrightarrow> tally_of slots headers sh xs = Some t"
  using map_of_eq_Some_iff [OF distinct_votes] votes_tally by metis

lemma settle_vote_winner:
  assumes "settle_vote votes n = Some w" "distinct votes"
  shows "w \<in> set votes" "v \<in> set votes \<Longrightarrow> v \<noteq> w \<Longrightarrow> rank w < rank v" "ta_slices (snd w) < 2 \<Longrightarrow> n \<le> 1"
proof -
  from assms(1) obtain others where o: "sort_key rank votes = w # others" and
      e: "\<forall>x xs. others = x # xs \<longrightarrow> rank x \<noteq> rank w" and n: "\<not> (ta_slices (snd w) < 2 \<and> n > 1)"
    by (auto simp: settle_vote_def split: list.splits if_splits)
  have st: "set (w # others) = set votes" using o by (metis set_sort)
  then show "w \<in> set votes" by auto
  show "ta_slices (snd w) < 2 \<Longrightarrow> n \<le> 1" using n by simp
  have sorted: "sorted (map rank (w # others))" using o by (metis sorted_sort_key)
  assume "v \<in> set votes" "v \<noteq> w"
  then have v: "v \<in> set others" using st by auto
  then obtain x xs where x: "others = x # xs" by (cases others) auto
  have "rank w < rank x" using sorted e x by (auto simp: order_less_le)
  also have "rank x \<le> rank v" using sorted v x by auto
  finally show "rank w < rank v" .
qed

lemma settle_vote_dominant:
  assumes "w \<in> set votes" "\<And>v. v \<in> set votes \<Longrightarrow> v \<noteq> w \<Longrightarrow> rank w < rank v" "2 \<le> ta_slices (snd w) \<or> n \<le> 1" "distinct votes"
  shows "settle_vote votes n = Some w"
proof -
  obtain x xs where x: "sort_key rank votes = x # xs" using assms(1) by (metis set_sort list.set_cases)
  have st: "set (x # xs) = set votes" using x by (metis set_sort)
  have sorted: "sorted (map rank (x # xs))" using x by (metis sorted_sort_key)
  have "x = w"
  proof (rule ccontr)
    assume "x \<noteq> w"
    moreover have "x \<in> set votes" using st by auto
    ultimately have "rank w < rank x" by (intro assms(2))
    moreover have "rank x \<le> rank w" using sorted assms(1) st by fastforce
    ultimately show False by simp
  qed
  moreover have "case xs of [] \<Rightarrow> True | y # ys \<Rightarrow> rank y \<noteq> rank x"
  proof (cases xs)
    case (Cons y ys)
    have "distinct (x # xs)" using x assms(4) by (metis distinct_sort)
    then have "y \<noteq> w" "y \<in> set votes" using Cons \<open>x = w\<close> st by auto
    then show ?thesis using assms(2) [of y] Cons \<open>x = w\<close> by auto
  qed simp
  ultimately show ?thesis using x assms(3) by (auto simp: settle_vote_def split: list.splits)
qed

section \<open>The rescue pass\<close>

definition intact_on :: "platter_fs \<Rightarrow> string \<Rightarrow> shape \<Rightarrow> platter list \<Rightarrow> nat \<Rightarrow> nat \<Rightarrow> bool" where
  "intact_on fs oid sh ps i v \<longleftrightarrow> (\<exists>p \<in> set ps. pl_volumeId p = v \<and> intact_copy fs oid sh (pl_mountPoint p) i)"

lemma otherCopy_intact: "fst (otherCopy fs oid sh i already ps) = Some v \<Longrightarrow> intact_on fs oid sh ps i v"
  by (induction ps) (auto simp: intact_on_def intact_copy_def split: header_read.splits if_splits)

text \<open>A set of slices, one per credit, each with an intact copy on the volume the record will name.\<close>

definition backed :: "platter_fs \<Rightarrow> string \<Rightarrow> shape \<Rightarrow> platter list \<Rightarrow> nat \<Rightarrow> rescue \<Rightarrow> nat set \<Rightarrow> bool" where
  "backed fs oid sh ps n r I \<longleftrightarrow> length (re_volumes r) = n \<and> I \<subseteq> {..<n} \<and> card I = re_found r \<and>
     (\<forall>i \<in> I. intact_on fs oid sh ps i (re_volumes r ! i))"

lemma backed_rescued:
  assumes "backed fs oid sh ps n r I" "i \<notin> I" "i < n" "intact_on fs oid sh ps i v"
  shows "backed fs oid sh ps n (r\<lparr>re_volumes := (re_volumes r)[i := v], re_unknown := u, re_found := Suc (re_found r)\<rparr>) (insert i I)"
proof -
  have "finite I" using assms(1) finite_subset unfolding backed_def by blast
  then show ?thesis using assms unfolding backed_def by (auto simp: nth_list_update)
qed

lemma rescueLoop_backed:
  assumes "backed fs oid sh ps n r I" "set xs \<subseteq> {..<n}" "distinct xs"
    "\<forall>i \<in> I \<inter> set xs. \<exists>h. headers i = Some h \<and> shapeOf h = sh"
  shows "\<exists>I'. I \<subseteq> I' \<and> backed fs oid sh ps n (rescueLoop fs oid slots headers sh d ps xs r) I'"
  using assms
proof (induction xs arbitrary: r I)
  case (Cons i xs)
  let ?own = "\<exists>h. headers i = Some h \<and> shapeOf h = sh"
  have c: "(case headers i of Some h \<Rightarrow> shapeOf h = sh | None \<Rightarrow> False) \<longleftrightarrow> ?own" by (auto split: option.splits)
  obtain copy silent where oc: "otherCopy fs oid sh i (if slot slots i \<noteq> 0 then Some (slot slots i - 1) else None) ps = (copy, silent)"
    by fastforce
  let ?seen = "if silent then List.insert i (re_unknown r) else re_unknown r"
  show ?case
  proof (cases "re_found r < d \<and> \<not> ?own")
    case False
    then show ?thesis using Cons c by auto
  next
    case True
    show ?thesis
    proof (cases copy)
      case None
      have "backed fs oid sh ps n (r\<lparr>re_unknown := ?seen\<rparr>) I" using Cons.prems(1) by (simp add: backed_def)
      from Cons.IH [OF this] show ?thesis using Cons.prems True c oc None by auto
    next
      case (Some v)
      have i: "i \<notin> I" "i < n" using Cons.prems True by auto
      have "intact_on fs oid sh ps i v" using otherCopy_intact oc Some by (metis fst_conv)
      note step = backed_rescued [OF Cons.prems(1) i this, of "removeAll i ?seen"]
      obtain I' where "insert i I \<subseteq> I'" "backed fs oid sh ps n (rescueLoop fs oid slots headers sh d ps xs
          (r\<lparr>re_volumes := (re_volumes r)[i := v], re_unknown := removeAll i ?seen, re_found := Suc (re_found r)\<rparr>)) I'"
        using Cons.IH [OF step] Cons.prems by auto
      then show ?thesis using True c oc Some by (intro exI [of _ I']) (auto simp del: removeAll.simps)
    qed
  qed
qed auto

lemma rescue_pass_backed:
  assumes "backed fs oid sh ps n r I" "\<forall>i \<in> I. \<exists>h. headers i = Some h \<and> shapeOf h = sh"
  shows "\<exists>I'. I \<subseteq> I' \<and> backed fs oid sh ps n (rescue_pass fs oid slots headers sh d n (Some ps) r) I'"
proof (cases "quorate (re_found r) d")
  case False
  have "set [0..<n] \<subseteq> {..<n}" by auto
  from rescueLoop_backed [OF assms(1) this, of headers slots d] show ?thesis using assms(2) False by (simp add: rescue_pass_def)
qed (use assms in \<open>auto simp: rescue_pass_def\<close>)

section \<open>No record without intact slices\<close>

lemma readHeader_intact:
  assumes "fst (readHeader fs mountOf oid slots i) = Some h" "\<forall>v m. mountOf v = Some m \<longrightarrow> \<lparr>pl_volumeId = v, pl_mountPoint = m\<rparr> \<in> set ps"
  shows "intact_on fs oid (shapeOf h) ps i (volume_or x slots i)" "slot slots i \<noteq> 0"
proof -
  from assms(1) obtain m where s: "slot slots i \<noteq> 0" and m: "mountOf (slot slots i - 1) = Some m" and
      h: "readSliceHeaderResult fs (slicePath m oid i) = HeaderOk h" "sh_id h = oid"
    by (auto simp: readHeader_def split: option.splits if_splits header_read.splits)
  show "slot slots i \<noteq> 0" by (rule s)
  have "\<lparr>pl_volumeId = slot slots i - 1, pl_mountPoint = m\<rparr> \<in> set ps" using assms(2) m by blast
  then show "intact_on fs oid (shapeOf h) ps i (volume_or x slots i)"
    using s h by (force simp: intact_on_def intact_copy_iff volume_or_def)
qed

lemma distinct_present [simp]: "distinct (present_slots slots)"
  by (simp add: present_slots_def)

lemma present_bound: "i \<in> set (present_slots slots) \<longleftrightarrow> slot slots i \<noteq> 0 \<and> i < MAX_SLICES"
  by (auto simp: present_slots_def)

lemma tally_of_Some:
  "tally_of slots headers sh xs = Some t \<Longrightarrow> ta_slices t = length (agreeing headers sh xs) \<and>
     ta_volumes t = volumes_of slots (agreeing headers sh xs) \<and> agreeing headers sh xs \<noteq> [] \<and> shapeOf (ta_header t) = sh"
proof -
  assume t: "tally_of slots headers sh xs = Some t"
  then obtain i js where a: "agreeing headers sh xs = i # js" by (auto simp: tally_of_def split: list.splits)
  then have "i \<in> set (agreeing headers sh xs)" by simp
  then obtain h where "headers i = Some h" "shapeOf h = sh" by (auto simp: set_agreeing)
  then show ?thesis using t a by (auto simp: tally_of_def)
qed

text \<open>
  C6. Whatever the disks hold and whichever of them fail, an object is called recoverable only when at least two of
  its slices, and as many as its data count, are intact where the rebuilt record says they are: a file
  under the name of that slice, on the volume the record names for it, whose header has the id of the object, the
  index of the slice and exactly the geometry of the record. No single header decides the shape of an object.
\<close>

theorem recoverable_has_quorum:
  assumes syn: "synthesiseRecordFromIndex fs oid indexed mountOf placeholder (Some ps) geometry = Some s"
    and rec: "sy_recoverable s"
    and mounts: "\<forall>v m. mountOf v = Some m \<longrightarrow> \<lparr>pl_volumeId = v, pl_mountPoint = m\<rparr> \<in> set ps"
  shows "\<exists>rc sz c I. sy_record s = Some rc \<and> rr_id rc = oid \<and> rr_size rc = Some sz \<and> rr_chunkSize rc = Some c \<and>
    sy_needed s = length (rr_dataVolumes rc) \<and> 2 \<le> card I \<and> length (rr_dataVolumes rc) \<le> card I \<and>
    I \<subseteq> {..<length (rr_dataVolumes rc) + length (rr_parityVolumes rc)} \<and>
    (\<forall>i \<in> I. \<exists>p \<in> set ps. pl_volumeId p = (rr_dataVolumes rc @ rr_parityVolumes rc) ! i \<and>
       (\<exists>h. readSliceHeaderResult fs (slicePath (pl_mountPoint p) oid i) = HeaderOk h \<and> sh_id h = oid \<and> sh_sliceIndex h = i \<and>
          shapeOf h = (sz, length (rr_dataVolumes rc), length (rr_parityVolumes rc), c)))"
proof -
  from syn obtain slots where ix: "indexed = Some slots" by (auto simp: synthesiseRecordFromIndex_def split: option.splits)
  let ?xs = "present_slots slots"
  define headers where "headers = header_of fs mountOf oid slots"
  define unknown where "unknown = silent_slices fs mountOf oid slots"
  define n where "n = length (filter (\<lambda>i. headers i \<noteq> None) ?xs)"
  have eq: "Some s = (if n = 0 then judge_silent oid slots placeholder geometry unknown
      else map_option (rebuild_from fs oid slots placeholder (Some ps) headers unknown) (settle_vote (cast_votes slots headers ?xs) n))"
    by (rule sym, rule syn [unfolded synthesiseRecordFromIndex_def ix Let_def option.case, folded headers_def unknown_def, folded n_def])
  have "n \<noteq> 0" using eq rec by (auto simp: judge_silent_def Let_def split: if_splits)
  then obtain w where w: "settle_vote (cast_votes slots headers ?xs) n = Some w" and
      s: "s = rebuild_from fs oid slots placeholder (Some ps) headers unknown w" using eq
    by (cases "settle_vote (cast_votes slots headers ?xs) n") simp_all
  obtain sh t where wt: "w = (sh, t)" by fastforce
  have t: "tally_of slots headers sh ?xs = Some t"
    using settle_vote_winner(1) [OF w] distinct_votes [THEN distinct_map [THEN iffD1], THEN conjunct1] vote_mem wt by metis
  obtain sz d p c where sh: "sh = (sz, d, p, c)" by (cases sh)
  have g: "sh_size (ta_header t) = sz" "sh_dataSliceCount (ta_header t) = d" "sh_paritySliceCount (ta_header t) = p" "sh_chunkSize (ta_header t) = c"
    using tally_of_Some [OF t] sh by (auto simp: shapeOf_def)
  let ?A = "set (agreeing headers sh ?xs)"
  let ?r = "\<lparr>re_volumes = map (volume_or placeholder slots) [0..<d + p], re_unknown = unknown, re_found = ta_slices t\<rparr>"
  have own: "\<forall>i \<in> ?A. \<exists>h. headers i = Some h \<and> shapeOf h = sh" by (simp add: set_agreeing)
  have io: "intact_on fs oid sh ps i (volume_or placeholder slots i)" if "i \<in> ?A" for i
    using readHeader_intact(1) [OF _ mounts, of fs oid slots i _ placeholder] that by (auto simp: set_agreeing headers_def header_of_def split: if_splits)
  have lt: "i < d + p" if "i \<in> ?A" for i
    using io [OF that] intact_copy_bounds(2) unfolding intact_on_def sh by blast
  have "backed fs oid sh ps (d + p) ?r ?A"
    unfolding backed_def using tally_of_Some [OF t] io lt distinct_card [of "agreeing headers sh ?xs"]
    by (auto simp: agreeing_def)
  from rescue_pass_backed [OF this own] obtain I where
    I: "backed fs oid sh ps (d + p) (rescue_pass fs oid slots headers sh d (d + p) (Some ps) ?r) I" by blast
  define r where "r = rescue_pass fs oid slots headers sh d (d + p) (Some ps) ?r"
  have sr: "s = pass_judgement oid (ta_header t) r" using s by (simp add: rebuild_from_def Let_def wt r_def g)
  have q: "quorate (re_found r) d" using rec by (simp add: sr pass_judgement_def Let_def g)
  have len: "length (re_volumes r) = d + p" using I by (simp add: backed_def r_def)
  let ?rc = "\<lparr>rr_id = oid, rr_size = Some sz, rr_chunkSize = Some c, rr_dataVolumes = take d (re_volumes r), rr_parityVolumes = drop d (re_volumes r)\<rparr>"
  have "sy_record s = Some ?rc" "sy_needed s = d" by (simp_all add: sr pass_judgement_def Let_def g)
  moreover have "\<exists>p' \<in> set ps. pl_volumeId p' = re_volumes r ! i \<and> (\<exists>h. readSliceHeaderResult fs (slicePath (pl_mountPoint p') oid i) = HeaderOk h \<and>
      sh_id h = oid \<and> sh_sliceIndex h = i \<and> shapeOf h = (sz, d, p, c))" if "i \<in> I" for i
  proof -
    have "intact_on fs oid sh ps i (re_volumes r ! i)" using I that by (simp add: backed_def r_def)
    then show ?thesis using header_at_path(2) unfolding intact_on_def intact_copy_iff sh by blast
  qed
  ultimately show ?thesis using I q len
    by (intro exI [of _ ?rc] exI [of _ sz] exI [of _ c] exI [of _ I]) (auto simp: backed_def r_def [symmetric] quorate_def)
qed

section \<open>Disks that do not answer\<close>

text \<open>The slices credited or still unread, inside the geometry of the object.\<close>

definition budget :: "nat \<Rightarrow> rescue \<Rightarrow> nat" where
  "budget n r = re_found r + card (set (re_unknown r) \<inter> {..<n})"

lemma budget_silent: "budget n r \<le> budget n (r\<lparr>re_unknown := (if b then List.insert i (re_unknown r) else re_unknown r)\<rparr>)"
  unfolding budget_def by (auto intro!: card_mono)

lemma budget_rescued:
  "budget n r \<le> budget n (r\<lparr>re_volumes := vs, re_unknown := removeAll i (if b then List.insert i (re_unknown r) else re_unknown r),
     re_found := Suc (re_found r)\<rparr>)"
proof -
  let ?U = "set (re_unknown r) \<inter> {..<n}"
  have "card ?U \<le> card (insert i (?U - {i}))" by (rule card_mono) auto
  also have "\<dots> \<le> Suc (card (?U - {i}))" by (rule card_insert_le_m1) auto
  also have "?U - {i} = set (removeAll i (if b then List.insert i (re_unknown r) else re_unknown r)) \<inter> {..<n}" by auto
  finally show ?thesis by (simp add: budget_def)
qed

lemma rescueLoop_budget:
  "budget n r \<le> budget n (rescueLoop fs oid slots headers sh d ps xs r) \<and>
   (distinct (re_unknown r) \<longrightarrow> distinct (re_unknown (rescueLoop fs oid slots headers sh d ps xs r)))"
proof (induction xs arbitrary: r)
  case (Cons i xs)
  obtain copy silent where oc: "otherCopy fs oid sh i (if slot slots i \<noteq> 0 then Some (slot slots i - 1) else None) ps = (copy, silent)"
    by fastforce
  let ?r = "case copy of None \<Rightarrow> r\<lparr>re_unknown := (if silent then List.insert i (re_unknown r) else re_unknown r)\<rparr>
     | Some v \<Rightarrow> r\<lparr>re_volumes := (re_volumes r)[i := v],
         re_unknown := removeAll i (if silent then List.insert i (re_unknown r) else re_unknown r), re_found := Suc (re_found r)\<rparr>"
  have "budget n r \<le> budget n ?r" using budget_silent budget_rescued by (cases copy) (simp_all only: option.case)
  moreover have "distinct (re_unknown r) \<longrightarrow> distinct (re_unknown ?r)" by (auto simp: distinct_removeAll split: option.splits)
  moreover note Cons.IH [of ?r]
  ultimately have "budget n r \<le> budget n (rescueLoop fs oid slots headers sh d ps xs ?r) \<and>
      (distinct (re_unknown r) \<longrightarrow> distinct (re_unknown (rescueLoop fs oid slots headers sh d ps xs ?r)))"
    by (meson order_trans)
  then show ?case using Cons.IH [of r] by (simp only: rescueLoop.simps oc prod.case Let_def) (auto split: option.splits if_splits)
qed simp

lemma rescue_pass_budget:
  "budget n r \<le> budget n (rescue_pass fs oid slots headers sh d n platters r)"
  "distinct (re_unknown r) \<Longrightarrow> distinct (re_unknown (rescue_pass fs oid slots headers sh d n platters r))"
  using rescueLoop_budget by (auto simp: rescue_pass_def split: option.splits)

lemma unread_count: "distinct u \<Longrightarrow> length (filter (\<lambda>i. i < n) u) = card (set u \<inter> {..<n})"
  using distinct_card [of "filter (\<lambda>i. i < n) u"] by (simp add: Int_def lessThan_def conj_commute)

lemma judgement_not_lost:
  assumes "distinct (re_unknown r)" "2 \<le> budget (d + p) r" "d \<le> budget (d + p) r"
    "sh_dataSliceCount h = d" "sh_paritySliceCount h = p"
  shows "sy_reason (pass_judgement oid h r) \<in> {Recoverable, Indeterminate} \<and>
    sy_recoverable (pass_judgement oid h r) = (sy_reason (pass_judgement oid h r) = Recoverable)"
  using assms unread_count [OF assms(1), of "d + p"] by (auto simp: pass_judgement_def Let_def budget_def quorate_def)

lemma agreeing_length: "\<forall>i \<in> set xs. headers i = None \<or> (\<exists>h. headers i = Some h \<and> shapeOf h = sh) \<Longrightarrow>
   length (agreeing headers sh xs) = length (filter (\<lambda>i. headers i \<noteq> None) xs)"
  unfolding agreeing_def by (rule arg_cong [of _ _ length], rule filter_cong) (auto split: option.splits)

lemma only_one_shape:
  assumes "\<forall>i \<in> set xs. headers i = None \<or> (\<exists>h. headers i = Some h \<and> shapeOf h = sh)" "filter (\<lambda>i. headers i \<noteq> None) xs \<noteq> []"
  shows "\<exists>t. settle_vote (cast_votes slots headers xs) (length (filter (\<lambda>i. headers i \<noteq> None) xs)) = Some (sh, t) \<and>
    tally_of slots headers sh xs = Some t"
proof -
  let ?n = "length (filter (\<lambda>i. headers i \<noteq> None) xs)"
  have len: "length (agreeing headers sh xs) = ?n" by (rule agreeing_length [OF assms(1)])
  then obtain t where t: "tally_of slots headers sh xs = Some t"
    using assms(2) by (cases "agreeing headers sh xs") (auto simp: tally_of_def)
  have "settle_vote (cast_votes slots headers xs) ?n = Some (sh, t)"
  proof (rule settle_vote_dominant)
    show "(sh, t) \<in> set (cast_votes slots headers xs)" using t by (simp add: vote_mem)
    show "2 \<le> ta_slices (snd (sh, t)) \<or> ?n \<le> 1" using tally_of_Some [OF t] len by simp linarith
    show "distinct (cast_votes slots headers xs)" using distinct_votes distinct_map by blast
    fix v assume "v \<in> set (cast_votes slots headers xs)" "v \<noteq> (sh, t)"
    moreover obtain sh' t' where v: "v = (sh', t')" by fastforce
    ultimately have t': "tally_of slots headers sh' xs = Some t'" and "sh' \<noteq> sh" using t by (auto simp: vote_mem)
    then have "agreeing headers sh' xs = []" using assms(1) by (fastforce simp: agreeing_def filter_empty_conv split: option.splits)
    then show "rank (sh, t) < rank v" using tally_of_Some [OF t'] by simp
  qed
  then show ?thesis using t by blast
qed

text \<open>
  C11. A disk that does not answer never turns an object into a lost one. If every slice the index knows of an
  object either has an intact header of its geometry or is on a disk that fails to open or read it, and there are at least two
  of them and as many as the object needs, then the object is reported as recoverable or as
  indeterminate, never as absent or below quorum, whatever the other disks hold.
\<close>

theorem silent_disks_never_condemn:
  assumes each: "\<forall>i \<in> set (present_slots slots). i < d + p \<and> (i \<in> set (silent_slices fs mountOf oid slots) \<or>
      (\<exists>h. header_of fs mountOf oid slots i = Some h \<and> shapeOf h = (sz, d, p, c)))"
    and enough: "2 \<le> length (present_slots slots)" "d \<le> length (present_slots slots)"
    and geometry: "geometry = None \<or> geometry = Some (d, p)"
  shows "\<exists>s. synthesiseRecordFromIndex fs oid (Some slots) mountOf placeholder platters geometry = Some s \<and>
    sy_reason s \<in> {Recoverable, Indeterminate} \<and> sy_recoverable s = (sy_reason s = Recoverable)"
proof -
  let ?xs = "present_slots slots"
  define headers where "headers = header_of fs mountOf oid slots"
  define unknown where "unknown = silent_slices fs mountOf oid slots"
  define n where "n = length (filter (\<lambda>i. headers i \<noteq> None) ?xs)"
  have eq: "synthesiseRecordFromIndex fs oid (Some slots) mountOf placeholder platters geometry =
      (if n = 0 then judge_silent oid slots placeholder geometry unknown
       else map_option (rebuild_from fs oid slots placeholder platters headers unknown) (settle_vote (cast_votes slots headers ?xs) n))"
    unfolding synthesiseRecordFromIndex_def Let_def option.case headers_def unknown_def n_def by (rule refl)
  have du: "distinct unknown" and us: "set unknown \<subseteq> set ?xs" by (auto simp: unknown_def silent_slices_def)
  have excl: "i \<in> set unknown \<Longrightarrow> headers i = None" for i
    by (auto simp: unknown_def silent_slices_def headers_def header_of_def readHeader_def split: option.splits if_splits header_read.splits)
  have hs: "\<forall>i \<in> set ?xs. headers i = None \<or> (\<exists>h. headers i = Some h \<and> shapeOf h = (sz, d, p, c))"
    using each excl by (auto simp: headers_def unknown_def)
  have "set ?xs = set (filter (\<lambda>i. headers i \<noteq> None) ?xs) \<union> set unknown" using each us by (auto simp: headers_def unknown_def)
  moreover have "set (filter (\<lambda>i. headers i \<noteq> None) ?xs) \<inter> set unknown = {}" using excl by auto
  ultimately have "card (set ?xs) = card (set (filter (\<lambda>i. headers i \<noteq> None) ?xs)) + card (set unknown)"
    by (metis List.finite_set card_Un_disjoint)
  then have split: "length ?xs = n + length unknown" using du distinct_card [of ?xs] distinct_card [of unknown]
      distinct_card [of "filter (\<lambda>i. headers i \<noteq> None) ?xs"] by (simp add: n_def)
  show ?thesis
  proof (cases "n = 0")
    case True
    have "filter (\<lambda>i. i < d + p) unknown = unknown" using us each by (auto simp: filter_id_conv)
    then show ?thesis using eq True split enough geometry by (auto simp: judge_silent_def)
  next
    case False
    then have "filter (\<lambda>i. headers i \<noteq> None) ?xs \<noteq> []" by (auto simp: n_def)
    from only_one_shape [OF hs this, of slots] obtain t where t: "settle_vote (cast_votes slots headers ?xs) n = Some ((sz, d, p, c), t)"
        "tally_of slots headers (sz, d, p, c) ?xs = Some t" by (auto simp: n_def)
    define r0 where "r0 = \<lparr>re_volumes = map (volume_or placeholder slots) [0..<d + p], re_unknown = unknown, re_found = ta_slices t\<rparr>"
    define r where "r = rescue_pass fs oid slots headers (sz, d, p, c) d (d + p) platters r0"
    have g: "sh_dataSliceCount (ta_header t) = d" "sh_paritySliceCount (ta_header t) = p"
      using tally_of_Some [OF t(2)] by (auto simp: shapeOf_def)
    have "set unknown \<inter> {..<d + p} = set unknown" using us each by auto
    then have "budget (d + p) r0 = length ?xs"
      using tally_of_Some [OF t(2)] agreeing_length [OF hs] split distinct_card [OF du] by (simp add: budget_def r0_def n_def)
    then have "2 \<le> budget (d + p) r" "d \<le> budget (d + p) r" "distinct (re_unknown r)"
      using enough rescue_pass_budget(1) [of "d + p" r0] rescue_pass_budget(2) [of r0] du unfolding r_def
      by (auto intro: order_trans simp: r0_def)
    from judgement_not_lost [OF this(3,1,2) g] show ?thesis using eq False t(1)
      by (simp add: rebuild_from_def Let_def g r_def r0_def)
  qed
qed

section \<open>The vote of the majority\<close>

abbreviation vouching :: "platter_fs \<Rightarrow> (nat \<Rightarrow> string option) \<Rightarrow> string \<Rightarrow> slots \<Rightarrow> shape \<Rightarrow> nat list" where
  "vouching fs mountOf oid slots sh \<equiv> agreeing (header_of fs mountOf oid slots) sh (present_slots slots)"

text \<open>
  C13. When the slices of one geometry are spread over more volumes than those of any other, and there are at least
  two of them and as many as that geometry needs, the object is recovered with exactly that geometry,
  each slice on the volume the index has for it (a placeholder where it has none), whatever any
  other header says.
\<close>

theorem majority_shape_restored:
  assumes enough: "2 \<le> length (vouching fs mountOf oid slots (sz, d, p, c))" "d \<le> length (vouching fs mountOf oid slots (sz, d, p, c))"
    and most: "\<forall>sh. sh \<noteq> (sz, d, p, c) \<longrightarrow> length (volumes_of slots (vouching fs mountOf oid slots sh)) <
      length (volumes_of slots (vouching fs mountOf oid slots (sz, d, p, c)))"
  shows "\<exists>u. synthesiseRecordFromIndex fs oid (Some slots) mountOf placeholder platters geometry =
    Some \<lparr>sy_record = Some \<lparr>rr_id = oid, rr_size = Some sz, rr_chunkSize = Some c,
            rr_dataVolumes = map (volume_or placeholder slots) [0..<d],
            rr_parityVolumes = map (volume_or placeholder slots) [d..<d + p]\<rparr>,
          sy_recoverable = True, sy_found = length (vouching fs mountOf oid slots (sz, d, p, c)), sy_needed = d,
          sy_unknown = u, sy_reason = Recoverable\<rparr>"
proof -
  let ?xs = "present_slots slots" and ?headers = "header_of fs mountOf oid slots"
  let ?A = "vouching fs mountOf oid slots (sz, d, p, c)" and ?n = "length (filter (\<lambda>i. ?headers i \<noteq> None) ?xs)"
  obtain t where t: "tally_of slots ?headers (sz, d, p, c) ?xs = Some t"
    using enough by (cases ?A) (auto simp: tally_of_def)
  have w: "settle_vote (cast_votes slots ?headers ?xs) ?n = Some ((sz, d, p, c), t)"
  proof (rule settle_vote_dominant)
    show "((sz, d, p, c), t) \<in> set (cast_votes slots ?headers ?xs)" using t by (simp add: vote_mem)
    show "2 \<le> ta_slices (snd ((sz, d, p, c), t)) \<or> ?n \<le> 1" using tally_of_Some [OF t] enough by simp
    show "distinct (cast_votes slots ?headers ?xs)" using distinct_votes distinct_map by blast
    fix v assume v: "v \<in> set (cast_votes slots ?headers ?xs)" "v \<noteq> ((sz, d, p, c), t)"
    obtain sh' t' where sh: "v = (sh', t')" by fastforce
    with v have t': "tally_of slots ?headers sh' ?xs = Some t'" and "sh' \<noteq> (sz, d, p, c)" using t by (auto simp: vote_mem)
    with most have "length (volumes_of slots (vouching fs mountOf oid slots sh')) < length (volumes_of slots ?A)" by blast
    then show "rank ((sz, d, p, c), t) < rank v" using tally_of_Some [OF t] tally_of_Some [OF t'] sh by (simp add: rank_def)
  qed
  have "?A \<noteq> []" using enough by auto
  then obtain i where "i \<in> set ?A" by (cases ?A) auto
  then have "filter (\<lambda>i. ?headers i \<noteq> None) ?xs \<noteq> []" by (auto simp: set_agreeing filter_empty_conv)
  then have n: "?n \<noteq> 0" by simp
  have g: "sh_size (ta_header t) = sz" "sh_dataSliceCount (ta_header t) = d" "sh_paritySliceCount (ta_header t) = p" "sh_chunkSize (ta_header t) = c"
    using tally_of_Some [OF t] by (auto simp: shapeOf_def)
  have q: "quorate (ta_slices t) d" using tally_of_Some [OF t] enough by (simp add: quorate_def)
  have "synthesiseRecordFromIndex fs oid (Some slots) mountOf placeholder platters geometry =
      Some (rebuild_from fs oid slots placeholder platters ?headers (silent_slices fs mountOf oid slots) ((sz, d, p, c), t))"
    using n w unfolding synthesiseRecordFromIndex_def Let_def option.case by simp
  moreover have "rescue_pass fs oid slots ?headers (sz, d, p, c) d (d + p) platters r = r" if "re_found r = ta_slices t" for r
    using q that by (simp add: rescue_pass_def split: option.splits)
  moreover have "take d (map f [0..<d + p]) = map f [0..<d]" "drop d (map f [0..<d + p]) = map f [d..<d + p]" for f :: "nat \<Rightarrow> nat"
    by (simp_all add: take_map drop_map)
  ultimately show ?thesis using q tally_of_Some [OF t] by (simp add: rebuild_from_def pass_judgement_def Let_def g)
qed

section \<open>What the index says\<close>

definition listed :: "platter_fs \<Rightarrow> string \<Rightarrow> string \<Rightarrow> bool" where
  "listed fs dir x \<longleftrightarrow> (case pf_readdir fs dir of Inr es \<Rightarrow> x \<in> set es | Inl _ \<Rightarrow> False)"

definition sick :: "platter_fs \<Rightarrow> string \<Rightarrow> bool" where
  "sick fs dir \<longleftrightarrow> (case pf_readdir fs dir of Inr _ \<Rightarrow> False | Inl e \<Rightarrow> \<not> missing e)"

definition subdir :: "platter_fs \<Rightarrow> string \<Rightarrow> string \<Rightarrow> bool" where
  "subdir fs dir dir' \<longleftrightarrow> (\<exists>d. listed fs dir d \<and> is_hex_dir d \<and> dir' = dir @ ''/'' @ d)"

abbreviation root_of :: "platter \<Rightarrow> string" where
  "root_of p \<equiv> pl_mountPoint p @ ''/strubs''"

text \<open>A platter holds slice \<open>i\<close> of an object, or a directory of its slice tree cannot be read.\<close>

definition holds_slice :: "platter_fs \<Rightarrow> platter \<Rightarrow> string \<Rightarrow> nat \<Rightarrow> bool" where
  "holds_slice fs p oid i \<longleftrightarrow> (\<exists>a b c e. subdir fs (root_of p) a \<and> subdir fs a b \<and> subdir fs b c \<and> listed fs c e \<and>
     slice_of_entry e = Some (oid, i))"

definition sick_platter :: "platter_fs \<Rightarrow> platter \<Rightarrow> bool" where
  "sick_platter fs p \<longleftrightarrow> sick fs (root_of p) \<or> (\<exists>a. subdir fs (root_of p) a \<and> (sick fs a \<or>
     (\<exists>b. subdir fs a b \<and> (sick fs b \<or> (\<exists>c. subdir fs b c \<and> sick fs c)))))"

lemma walk_level_mem:
  "x \<in> set (fst (walk_level fs inner dir)) \<longleftrightarrow> (\<exists>d. subdir fs dir d \<and> x \<in> set (fst (inner d)))"
  by (auto simp: walk_level_def hexDirs_def readdirStrict_def subdir_def listed_def Let_def split: sum.splits)

lemma walk_level_sick:
  "snd (walk_level fs inner dir) \<noteq> [] \<longleftrightarrow> sick fs dir \<or> (\<exists>d. subdir fs dir d \<and> snd (inner d) \<noteq> [])"
  by (auto simp: walk_level_def hexDirs_def readdirStrict_def subdir_def listed_def sick_def Let_def split: sum.splits)

lemma scan_shard_mem:
  "(oid, i, v) \<in> set (fst (scan_shard fs vid dir)) \<longleftrightarrow> v = vid \<and> (\<exists>e. listed fs dir e \<and> slice_of_entry e = Some (oid, i))"
  by (cases "pf_readdir fs dir") (auto simp: scan_shard_def readdirStrict_def listed_def List.map_filter_def image_iff)

lemma scan_shard_sick: "snd (scan_shard fs vid dir) \<noteq> [] \<longleftrightarrow> sick fs dir"
  by (auto simp: scan_shard_def readdirStrict_def sick_def split: sum.splits)

lemma scan_platter_mem: "(oid, i, v) \<in> set (fst (scan_platter fs p)) \<longleftrightarrow> v = pl_volumeId p \<and> holds_slice fs p oid i"
  unfolding scan_platter_def walk_level_mem scan_shard_mem holds_slice_def by blast

lemma scan_platter_sick: "snd (scan_platter fs p) \<noteq> [] \<longleftrightarrow> sick_platter fs p"
  unfolding scan_platter_def walk_level_sick scan_shard_sick sick_platter_def by blast

lemma slice_of_entry_bound: "slice_of_entry e = Some (oid, i) \<Longrightarrow> i < MAX_SLICES"
  by (auto simp: slice_of_entry_def Let_def split: if_splits option.splits)

definition index_slot :: "slice_index \<Rightarrow> string \<Rightarrow> nat \<Rightarrow> nat" where
  "index_slot index oid i = (case index oid of None \<Rightarrow> 0 | Some s \<Rightarrow> slot s i)"

definition slots_ok :: "slice_index \<Rightarrow> bool" where
  "slots_ok index \<longleftrightarrow> (\<forall>oid s. index oid = Some s \<longrightarrow> length s = MAX_SLICES)"

lemma index_entry_slot:
  assumes "slots_ok index" "i < MAX_SLICES" "v < 65535"
  shows "slots_ok (index_entry (oid, i, v) index) \<and> index_slot (index_entry (oid, i, v) index) oid' j =
    (if oid' = oid \<and> j = i \<and> index_slot index oid i = 0 then v + 1 else index_slot index oid' j)"
proof -
  have u: "unat (of_nat (Suc v) :: 16 word) = Suc v" using assms(3) by (simp add: unat_of_nat del: of_nat_Suc)
  show ?thesis
  proof (cases "index oid")
    case None
    then show ?thesis using assms u
      by (auto simp: index_entry_def slots_ok_def index_slot_def slot_def Let_def nth_list_update simp del: of_nat_Suc split: option.splits)
  next
    case (Some s)
    then have "length s = MAX_SLICES" using assms(1) by (auto simp: slots_ok_def)
    then show ?thesis using assms u Some
      by (auto simp: index_entry_def slots_ok_def index_slot_def slot_def Let_def nth_list_update unat_eq_zero simp del: of_nat_Suc)
  qed
qed

lemma index_fold:
  assumes "slots_ok index" "\<forall>(oid, i, v) \<in> set es. i < MAX_SLICES \<and> v < 65535"
  shows "(index_slot (fold index_entry es index) oid i \<noteq> 0 \<longleftrightarrow> index_slot index oid i \<noteq> 0 \<or> (\<exists>v. (oid, i, v) \<in> set es)) \<and>
    (index_slot index oid i = 0 \<longrightarrow> index_slot (fold index_entry es index) oid i \<noteq> 0 \<longrightarrow>
      (oid, i, index_slot (fold index_entry es index) oid i - 1) \<in> set es) \<and>
    (index_slot index oid i \<noteq> 0 \<longrightarrow> index_slot (fold index_entry es index) oid i = index_slot index oid i)"
  using assms
proof (induction es arbitrary: index)
  case (Cons e es)
  obtain oid' j v where e: "e = (oid', j, v)" by (cases e)
  have s: "slots_ok (index_entry e index)" "index_slot (index_entry e index) oid i =
      (if oid = oid' \<and> i = j \<and> index_slot index oid' j = 0 then v + 1 else index_slot index oid i)"
    using index_entry_slot [of index j v oid' oid i] Cons.prems e by auto
  have "\<forall>(oid, i, v) \<in> set es. i < MAX_SLICES \<and> v < 65535" using Cons.prems by auto
  from Cons.IH [OF s(1) this] show ?case using s(2) e by (auto split: if_splits)
qed simp

text \<open>
  C12. The slice index is never a partial picture. If one directory of a slice tree cannot be read for any
  reason but its absence, the scan is refused; otherwise, in whatever order the concurrent walks meet the
  files, an object has an entry for a slice exactly when some platter holds a slice file of that name, and the entry
  names a platter that does. This holds for every volume id up to 65534.
\<close>

theorem index_complete:
  assumes merge: "\<forall>xss. mset (merge xss) = mset (concat xss)" and vols: "\<forall>p \<in> set ps. pl_volumeId p < 65535"
  shows "case buildSliceIndex fs merge ps of
      Inl _ \<Rightarrow> \<exists>p \<in> set ps. sick_platter fs p
    | Inr index \<Rightarrow> (\<forall>p \<in> set ps. \<not> sick_platter fs p) \<and>
        (\<forall>oid i. (index_slot index oid i \<noteq> 0 \<longleftrightarrow> (\<exists>p \<in> set ps. holds_slice fs p oid i)) \<and>
          (index_slot index oid i \<noteq> 0 \<longrightarrow> (\<exists>p \<in> set ps. pl_volumeId p = index_slot index oid i - 1 \<and> holds_slice fs p oid i)))"
proof -
  define es where "es = merge (map fst (map (scan_platter fs) ps))"
  have "set es = set (concat (map fst (map (scan_platter fs) ps)))"
    using merge unfolding es_def by (metis mset_eq_setD)
  then have es: "(oid, i, v) \<in> set es \<longleftrightarrow> (\<exists>p \<in> set ps. v = pl_volumeId p \<and> holds_slice fs p oid i)" for oid i v
    by (auto simp: scan_platter_mem [symmetric])
  have "\<forall>(oid, i, v) \<in> set es. i < MAX_SLICES \<and> v < 65535"
    using vols slice_of_entry_bound by (fastforce simp: es holds_slice_def)
  moreover have "slots_ok Map.empty" by (simp add: slots_ok_def)
  ultimately have ix: "index_slot (fold index_entry es Map.empty) oid i \<noteq> 0 \<longleftrightarrow> (\<exists>v. (oid, i, v) \<in> set es)"
      "index_slot (fold index_entry es Map.empty) oid i \<noteq> 0 \<Longrightarrow> (oid, i, index_slot (fold index_entry es Map.empty) oid i - 1) \<in> set es"
    for oid i using index_fold [of Map.empty es oid i] by (simp_all add: index_slot_def)
  have sk: "concat (map snd (map (scan_platter fs) ps)) = [] \<longleftrightarrow> (\<forall>p \<in> set ps. \<not> sick_platter fs p)"
    using scan_platter_sick by auto
  show ?thesis
  proof (cases "\<forall>p \<in> set ps. \<not> sick_platter fs p")
    case True
    have "buildSliceIndex fs merge ps = Inr (fold index_entry es Map.empty)"
      unfolding buildSliceIndex_def Let_def es_def sk using True by simp
    moreover have "\<exists>p \<in> set ps. pl_volumeId p = index_slot (fold index_entry es Map.empty) oid i - 1 \<and> holds_slice fs p oid i"
      if "index_slot (fold index_entry es Map.empty) oid i \<noteq> 0" for oid i using ix(2) [OF that] es by fastforce
    ultimately show ?thesis using True ix(1) es by auto
  next
    case False
    then show ?thesis using sk by (auto simp: buildSliceIndex_def Let_def)
  qed
qed

section \<open>A small array\<close>

text \<open>Two disks with the two slices of a 1+1 object of 100 bytes; the second disk may not answer.\<close>

definition small_id :: string where
  "small_id = replicate 24 (CHR ''a'')"

definition small_header :: "byte \<Rightarrow> bytes" where
  "small_header i = SLICE_MAGIC @ [1, 48, 0] @ replicate 16 0 @ replicate 12 170 @ [100, 0, 0, 0, 0] @ [1, 1, i] @ [0, 1, 0] @ [0, 0]"

definition small_fs :: "bool \<Rightarrow> platter_fs" where
  "small_fs silent = \<lparr>
     pf_readdir = (\<lambda>d. if d \<in> {''/a/strubs'', ''/a/strubs/aa'', ''/a/strubs/aa/aa'', ''/b/strubs'', ''/b/strubs/aa'', ''/b/strubs/aa/aa''}
        then Inr [''.identity'', ''aa''] else if d = ''/a/strubs/aa/aa/aa'' then Inr [small_id @ ''.0'']
        else if d = ''/b/strubs/aa/aa/aa'' then Inr [small_id @ ''.1''] else Inl enoent),
     pf_open = (\<lambda>f. if f = slicePath ''/a'' small_id 0 then None
        else if f = slicePath ''/b'' small_id 1 then (if silent then Some (coded_error ''EIO'' ''i/o error'') else None) else Some enoent),
     pf_read = (\<lambda>f. if f = slicePath ''/a'' small_id 0 then Inr (small_header 0) else Inr (small_header 1))\<rparr>"

definition small_platters :: "platter list" where
  "small_platters = [\<lparr>pl_volumeId = 1, pl_mountPoint = ''/a''\<rparr>, \<lparr>pl_volumeId = 2, pl_mountPoint = ''/b''\<rparr>]"

definition small_mounts :: "nat \<Rightarrow> string option" where
  "small_mounts = map_of [(1, ''/a''), (2, ''/b'')]"

definition small_slots :: slots where
  "small_slots = [2, 3] @ replicate 30 0"

abbreviation small_fields :: "nat \<Rightarrow> slice_header_fields" where
  "small_fields i \<equiv> \<lparr>sh_id = small_id, sh_size = 100, sh_dataSliceCount = 1, sh_paritySliceCount = 1, sh_sliceIndex = i, sh_chunkSize = 256\<rparr>"

lemma small_reads:
  "readSliceHeaderResult (small_fs True) (slicePath ''/a'' small_id 0) = HeaderOk (small_fields 0)"
  "readSliceHeaderResult (small_fs False) (slicePath ''/a'' small_id 0) = HeaderOk (small_fields 0)"
  "readSliceHeaderResult (small_fs True) (slicePath ''/b'' small_id 1) = HeaderUnreadable ''EIO''"
  "readSliceHeaderResult (small_fs False) (slicePath ''/b'' small_id 1) = HeaderOk (small_fields 1)"
  by code_simp+

lemma small_slot: "slot small_slots 0 = 2" "slot small_slots (Suc 0) = 3"
  by (simp_all add: slot_def small_slots_def)

lemma small_present: "present_slots small_slots = [0, 1]"
  by (simp add: present_slots_def small_slots_def slot_def MAX_SLICES_def upt_rec)

lemma small_array:
  "header_of (small_fs b) small_mounts small_id small_slots =
     (\<lambda>i. if i = 0 then Some (small_fields 0) else if i = 1 \<and> \<not> b then Some (small_fields 1) else None)"
  "silent_slices (small_fs b) small_mounts small_id small_slots = (if b then [1] else [])"
  using small_reads
  by (cases b; auto simp: header_of_def silent_slices_def small_present readHeader_def small_slot small_mounts_def)+

lemma small_mounts_platters:
  "\<forall>v m. small_mounts v = Some m \<longrightarrow> \<lparr>pl_volumeId = v, pl_mountPoint = m\<rparr> \<in> set small_platters"
  by (simp add: small_mounts_def small_platters_def)

lemma small_agreeing:
  "agreeing (header_of (small_fs False) small_mounts small_id small_slots) sh (present_slots small_slots) =
     (if sh = (100, 1, 1, 256) then [0, 1] else [])"
  by (auto simp: agreeing_def small_array small_present shapeOf_def)

theorem silent_disks_never_condemn_witness:
  "\<exists>s. synthesiseRecordFromIndex (small_fs True) small_id (Some small_slots) small_mounts 1 (Some small_platters) (Some (1, 1)) = Some s \<and>
    sy_reason s \<in> {Recoverable, Indeterminate} \<and> sy_recoverable s = (sy_reason s = Recoverable)"
  using silent_disks_never_condemn [of small_slots 1 1 "small_fs True" small_mounts small_id 100 256 "Some (1, 1)" 1 "Some small_platters"]
  by (simp add: small_array small_present shapeOf_def)

theorem majority_shape_restored_witness:
  "\<exists>u. synthesiseRecordFromIndex (small_fs False) small_id (Some small_slots) small_mounts 1 (Some small_platters) (Some (1, 1)) =
    Some \<lparr>sy_record = Some \<lparr>rr_id = small_id, rr_size = Some 100, rr_chunkSize = Some 256,
            rr_dataVolumes = map (volume_or 1 small_slots) [0..<1], rr_parityVolumes = map (volume_or 1 small_slots) [1..<1 + 1]\<rparr>,
          sy_recoverable = True, sy_found = length (vouching (small_fs False) small_mounts small_id small_slots (100, 1, 1, 256)), sy_needed = 1,
          sy_unknown = u, sy_reason = Recoverable\<rparr>"
  by (rule majority_shape_restored) (simp_all add: small_agreeing, simp add: volumes_of_def small_slot)

lemma small_synthesis: "synthesiseRecordFromIndex (small_fs False) small_id (Some small_slots) small_mounts 1 (Some small_platters) (Some (1, 1)) =
    Some (rebuild_from (small_fs False) small_id small_slots 1 (Some small_platters)
      (header_of (small_fs False) small_mounts small_id small_slots) [] ((100, 1, 1, 256), \<lparr>ta_header = small_fields 0, ta_volumes = [2, 1], ta_slices = Suc (Suc 0)\<rparr>))"
  by (simp add: synthesiseRecordFromIndex_def small_array small_present Let_def count_vote_def shapeOf_def small_slot settle_vote_def)

theorem recoverable_has_quorum_witness:
  "\<exists>s rc I. synthesiseRecordFromIndex (small_fs False) small_id (Some small_slots) small_mounts 1 (Some small_platters) (Some (1, 1)) = Some s \<and>
    sy_record s = Some rc \<and> rr_id rc = small_id \<and> 2 \<le> card (I :: nat set)"
proof -
  obtain s where s: "synthesiseRecordFromIndex (small_fs False) small_id (Some small_slots) small_mounts 1 (Some small_platters) (Some (1, 1)) = Some s"
      "sy_recoverable s"
    using small_synthesis by (simp add: rebuild_from_def Let_def rescue_pass_def quorate_def pass_judgement_def)
  from recoverable_has_quorum [OF s small_mounts_platters] s(1) show ?thesis by blast
qed

lemma small_not_sick: "\<not> sick_platter (small_fs False) p"
proof -
  have "\<not> sick (small_fs False) d" for d by (simp add: sick_def small_fs_def enoent_def split: sum.splits)
  then show ?thesis by (simp add: sick_platter_def)
qed

theorem index_complete_witness:
  "case buildSliceIndex (small_fs False) concat small_platters of Inl _ \<Rightarrow> False | Inr index \<Rightarrow> index_slot index small_id 1 \<noteq> 0"
proof -
  have l: "subdir (small_fs False) ''/b/strubs'' ''/b/strubs/aa''" "subdir (small_fs False) ''/b/strubs/aa'' ''/b/strubs/aa/aa''"
      "subdir (small_fs False) ''/b/strubs/aa/aa'' ''/b/strubs/aa/aa/aa''"
    by (simp_all add: subdir_def listed_def small_fs_def is_hex_dir_def is_hex_lower_def)
  have "listed (small_fs False) ''/b/strubs/aa/aa/aa'' (small_id @ ''.1'')" by (simp add: listed_def small_fs_def)
  moreover have "slice_of_entry (small_id @ ''.1'') = Some (small_id, 1)" by code_simp
  ultimately have "holds_slice (small_fs False) \<lparr>pl_volumeId = 2, pl_mountPoint = ''/b''\<rparr> small_id 1"
    using l unfolding holds_slice_def by auto
  then show ?thesis
    using index_complete [of concat small_platters "small_fs False"] small_not_sick by (auto simp: small_platters_def split: sum.splits)
qed

end
