(* ===== verification/Json.thy ===== *)
theory Json
  imports Strubs_Prelude Complex_Main
begin

text \<open>Parsed JSON. A number is the rational a double denotes, or infinite where the literal overflows.\<close>

datatype json = JNull | JBool bool | JNumber rat | JInfinite | JString string | JArray "json list" | JObject "(string \<times> json) list"

fun json_get :: "json \<Rightarrow> string \<Rightarrow> json option" where
  "json_get (JObject fs) k = map_of fs k"
| "json_get _ k = None"

end
