(* ===== verification/Restore.thy ===== *)
theory Restore
  imports Recovery Object_Http Json
begin

text \<open>
  The restore of the namespace (\<^verbatim>\<open>lib/recovery/restore.ts\<close>): the records of the snapshot, the replay of the
  journal on top of them, the choice of the journal segments, and the check of every name against the platters.
  A JavaScript \<open>Map\<close> is an association list in insertion order. JSON text, hashing and gzip are
  parameters. Log messages, progress and the staging directory are left out.
\<close>

section \<open>Records\<close>

record container_row =
  ct_id :: string
  ct_cid :: "string option"
  ct_name :: string
  ct_pr :: "bool option"
  ct_pw :: "bool option"
  ct_dp :: "bool option"

record put_row =
  pt_id :: string
  pt_cid :: "string option"
  pt_name :: string
  pt_mime :: json
  pt_md5 :: json
  pt_size :: rat
  pt_cs :: rat

datatype restore_record = RContainer container_row | RPut put_row | RDel string
  | RPolicy string "bool option" "bool option" "bool option"

definition type_error :: js_error where
  "type_error = plain_error ''TypeError: Cannot read properties of null''"

definition non_empty_string :: "json option \<Rightarrow> bool" where
  "non_empty_string x \<longleftrightarrow> (case x of Some (JString s) \<Rightarrow> s \<noteq> [] | _ \<Rightarrow> False)"

definition null_or_string :: "json option \<Rightarrow> bool" where
  "null_or_string x \<longleftrightarrow> (case x of Some JNull \<Rightarrow> True | Some (JString _) \<Rightarrow> True | _ \<Rightarrow> False)"

definition absent_or_boolean :: "json option \<Rightarrow> bool" where
  "absent_or_boolean x \<longleftrightarrow> (case x of None \<Rightarrow> True | Some (JBool _) \<Rightarrow> True | _ \<Rightarrow> False)"

definition finite_number :: "json option \<Rightarrow> bool" where
  "finite_number x \<longleftrightarrow> (case x of Some (JNumber _) \<Rightarrow> True | _ \<Rightarrow> False)"

text \<open>Reading a property of \<open>null\<close> throws; the other values have properties, possibly undefined.\<close>

definition isCoherent :: "json \<Rightarrow> js_error + bool" where
  "isCoherent r =
    (let op = json_get r ''op''; flags = (absent_or_boolean (json_get r ''pr'') \<and> absent_or_boolean (json_get r ''pw'') \<and>
           absent_or_boolean (json_get r ''dp''))
     in if r = JNull then Inl type_error
        else if \<not> non_empty_string (json_get r ''id'') then Inr False
        else if op = Some (JString ''container'')
          then Inr (flags \<and> non_empty_string (json_get r ''name'') \<and> null_or_string (json_get r ''cid''))
        else if op = Some (JString ''del'') then Inr True
        else if op = Some (JString ''policy'') then Inr flags
        else if op = Some (JString ''put'')
          then Inr (non_empty_string (json_get r ''name'') \<and> null_or_string (json_get r ''cid'') \<and>
            finite_number (json_get r ''size'') \<and> finite_number (json_get r ''cs''))
        else Inr False)"

text \<open>The fields the restore reads of a record, as \<open>RestoreRecord\<close> types them.\<close>

definition as_string :: "json option \<Rightarrow> string" where
  "as_string x = (case x of Some (JString s) \<Rightarrow> s | _ \<Rightarrow> [])"

definition as_parent :: "json option \<Rightarrow> string option" where
  "as_parent x = (case x of Some (JString s) \<Rightarrow> Some s | _ \<Rightarrow> None)"

definition as_flag :: "json option \<Rightarrow> bool option" where
  "as_flag x = (case x of Some (JBool b) \<Rightarrow> Some b | _ \<Rightarrow> None)"

definition as_number :: "json option \<Rightarrow> rat" where
  "as_number x = (case x of Some (JNumber q) \<Rightarrow> q | _ \<Rightarrow> 0)"

definition or_null :: "json option \<Rightarrow> json" where
  "or_null x = (case x of Some v \<Rightarrow> v | None \<Rightarrow> JNull)"

definition restore_record_of :: "json \<Rightarrow> restore_record option" where
  "restore_record_of r =
    (let op = json_get r ''op''; oid = as_string (json_get r ''id''); cid = as_parent (json_get r ''cid''); name = as_string (json_get r ''name'');
         pr = as_flag (json_get r ''pr''); pw = as_flag (json_get r ''pw''); dp = as_flag (json_get r ''dp'')
     in if op = Some (JString ''container'')
          then Some (RContainer \<lparr>ct_id = oid, ct_cid = cid, ct_name = name, ct_pr = pr, ct_pw = pw, ct_dp = dp\<rparr>)
        else if op = Some (JString ''put'')
          then Some (RPut \<lparr>pt_id = oid, pt_cid = cid, pt_name = name, pt_mime = or_null (json_get r ''mime''),
                 pt_md5 = or_null (json_get r ''md5''), pt_size = as_number (json_get r ''size''), pt_cs = as_number (json_get r ''cs'')\<rparr>)
        else if op = Some (JString ''del'') then Some (RDel oid)
        else if op = Some (JString ''policy'') then Some (RPolicy oid pr pw dp)
        else None)"

section \<open>The snapshot\<close>

record namespace =
  ns_containers :: "(string \<times> container_row) list"
  ns_objects :: "(string \<times> put_row) list"
  ns_deleted :: "(string \<times> put_row) list"
  ns_declined :: nat

definition empty_namespace :: namespace where
  "empty_namespace = \<lparr>ns_containers = [], ns_objects = [], ns_deleted = [], ns_declined = 0\<rparr>"

record snapshot_read =
  sr_namespace :: namespace
  sr_trailer :: "json option"
  sr_hashed :: bytes

definition snapshot_record :: "restore_record option \<Rightarrow> namespace \<Rightarrow> namespace" where
  "snapshot_record r ns = (case r of
      Some (RContainer c) \<Rightarrow> ns\<lparr>ns_containers := AList.update (ct_id c) c (ns_containers ns)\<rparr>
    | Some (RPut p) \<Rightarrow> ns\<lparr>ns_objects := AList.update (pt_id p) p (ns_objects ns)\<rparr>
    | _ \<Rightarrow> ns)"

definition snapshot_line :: "(string \<Rightarrow> json option) \<Rightarrow> string \<Rightarrow> snapshot_read \<Rightarrow> js_error + snapshot_read" where
  "snapshot_line parse line st =
    (if line = [] then Inr st
     else case parse line of
         None \<Rightarrow> Inl (plain_error ''SyntaxError: Unexpected token in JSON'')
       | Some r \<Rightarrow>
         if r = JNull then Inl type_error
         else if json_get r ''op'' = Some (JString ''end'') then Inr (st\<lparr>sr_trailer := Some r\<rparr>)
         else if isCoherent r \<noteq> Inr True
           then Inl (plain_error ''the snapshot contains a record that is not a coherent namespace entry'')
         else Inr (st\<lparr>sr_hashed := sr_hashed st @ utf8 line @ [10], sr_namespace := snapshot_record (restore_record_of r) (sr_namespace st)\<rparr>))"

fun snapshotLoop :: "(string \<Rightarrow> json option) \<Rightarrow> string list \<Rightarrow> snapshot_read \<Rightarrow> js_error + snapshot_read" where
  "snapshotLoop parse [] st = Inr st"
| "snapshotLoop parse (line # rest) st = bind_err (snapshot_line parse line st) (snapshotLoop parse rest)"

definition readSnapshot :: "(string \<Rightarrow> json option) \<Rightarrow> (bytes \<Rightarrow> string) \<Rightarrow> string list \<Rightarrow> js_error + namespace" where
  "readSnapshot parse sha256 snapshotLines =
    bind_err (snapshotLoop parse snapshotLines \<lparr>sr_namespace = empty_namespace, sr_trailer = None, sr_hashed = []\<rparr>) (\<lambda>st.
      let ns = sr_namespace st in
      case sr_trailer st of
        None \<Rightarrow> Inl (plain_error ''the snapshot has no end trailer: it is TRUNCATED'')
      | Some t \<Rightarrow>
        if json_get t ''containers'' \<noteq> Some (JNumber (of_nat (length (ns_containers ns)))) \<or>
           json_get t ''objects'' \<noteq> Some (JNumber (of_nat (length (ns_objects ns))))
        then Inl (plain_error ''the snapshot does not contain what it claims'')
        else if json_get t ''sha256'' \<noteq> Some (JString (sha256 (sr_hashed st)))
        then Inl (plain_error ''the snapshot does not match its own checksum'')
        else Inr ns)"

section \<open>The journal\<close>

text \<open>A public flag may only be cleared, a protection only be set; the number counts a refusal.\<close>

definition open_flag :: "bool option \<Rightarrow> bool option \<Rightarrow> bool option \<times> nat" where
  "open_flag want have = (case want of None \<Rightarrow> (have, 0)
     | Some w \<Rightarrow> if w \<and> have \<noteq> Some True then (have, 1) else (Some w, 0))"

definition protect_flag :: "bool option \<Rightarrow> bool option \<Rightarrow> bool option \<times> nat" where
  "protect_flag want have = (case want of None \<Rightarrow> (have, 0)
     | Some w \<Rightarrow> if \<not> w \<and> have = Some True then (have, 1) else (Some w, 0))"

definition replay_container :: "container_row \<Rightarrow> namespace \<Rightarrow> namespace" where
  "replay_container c ns =
    (let had = map_of (ns_containers ns) (ct_id c)
     in ns\<lparr>ns_containers := AList.update (ct_id c) (c\<lparr>ct_pr := Option.bind had ct_pr, ct_pw := Option.bind had ct_pw,
          ct_dp := Option.bind had ct_dp\<rparr>) (ns_containers ns)\<rparr>)"

definition replay_policy :: "string \<Rightarrow> bool option \<Rightarrow> bool option \<Rightarrow> bool option \<Rightarrow> namespace \<Rightarrow> namespace" where
  "replay_policy cid pr pw dp ns =
    (case map_of (ns_containers ns) cid of
       None \<Rightarrow> ns
     | Some bucket \<Rightarrow>
       let r = open_flag pr (ct_pr bucket); w = open_flag pw (ct_pw bucket); d = protect_flag dp (ct_dp bucket)
       in ns\<lparr>ns_containers := AList.update cid (bucket\<lparr>ct_pr := fst r, ct_pw := fst w, ct_dp := fst d\<rparr>) (ns_containers ns),
             ns_declined := ns_declined ns + snd r + snd w + snd d\<rparr>)"

definition replay_del :: "string \<Rightarrow> namespace \<Rightarrow> namespace" where
  "replay_del oid ns =
    (if map_of (ns_containers ns) oid \<noteq> None then ns\<lparr>ns_containers := AList.delete oid (ns_containers ns)\<rparr>
     else ns\<lparr>ns_deleted := (case map_of (ns_objects ns) oid of Some named \<Rightarrow> AList.update oid named (ns_deleted ns) | None \<Rightarrow> ns_deleted ns),
             ns_objects := AList.delete oid (ns_objects ns)\<rparr>)"

fun replay_record :: "restore_record \<Rightarrow> namespace \<Rightarrow> namespace" where
  "replay_record (RContainer c) ns = replay_container c ns"
| "replay_record (RPolicy cid pr pw dp) ns = replay_policy cid pr pw dp ns"
| "replay_record (RPut p) ns = ns\<lparr>ns_objects := AList.update (pt_id p) p (ns_objects ns), ns_deleted := AList.delete (pt_id p) (ns_deleted ns)\<rparr>"
| "replay_record (RDel oid) ns = replay_del oid ns"

definition replay_line :: "(string \<Rightarrow> json option) \<Rightarrow> bool \<Rightarrow> string \<Rightarrow> namespace \<Rightarrow> js_error + namespace" where
  "replay_line parse isLastLineOfLastSegment line ns =
    (if line = [] then Inr ns
     else case parse line of
         None \<Rightarrow> if isLastLineOfLastSegment then Inr ns
                 else Inl (plain_error ''journal segment has an unreadable record and it is not the last one'')
       | Some r \<Rightarrow>
         (case isCoherent r of
            Inl e \<Rightarrow> Inl e
          | Inr False \<Rightarrow> if isLastLineOfLastSegment then Inr ns
              else Inl (plain_error ''journal segment has a record that parses but is not an operation this understands'')
          | Inr True \<Rightarrow> Inr (case restore_record_of r of None \<Rightarrow> ns | Some rec \<Rightarrow> replay_record rec ns)))"

definition lastRecordIndex :: "string list \<Rightarrow> int" where
  "lastRecordIndex ls = (if ls \<noteq> [] \<and> last ls = [] then int (length ls) - 2 else int (length ls) - 1)"

fun replayLines :: "(string \<Rightarrow> json option) \<Rightarrow> (nat \<Rightarrow> bool) \<Rightarrow> nat \<Rightarrow> string list \<Rightarrow> namespace \<Rightarrow> js_error + namespace" where
  "replayLines parse isLast n [] ns = Inr ns"
| "replayLines parse isLast n (line # rest) ns =
     bind_err (replay_line parse (isLast n) line ns) (replayLines parse isLast (Suc n) rest)"

definition replaySegment :: "(string \<Rightarrow> json option) \<Rightarrow> bool \<Rightarrow> string \<Rightarrow> namespace \<Rightarrow> js_error + namespace" where
  "replaySegment parse lastSegment content ns =
    (let ls = split_on (CHR 0x0A) content
     in replayLines parse (\<lambda>n. lastSegment \<and> int n = lastRecordIndex ls) 0 ls ns)"

fun replayJournal :: "(string \<Rightarrow> json option) \<Rightarrow> (string \<Rightarrow> js_error + string) \<Rightarrow> string list \<Rightarrow> namespace \<Rightarrow> js_error + namespace" where
  "replayJournal parse readText [] ns = Inr ns"
| "replayJournal parse readText (segment # rest) ns =
     bind_err (readText segment) (\<lambda>content.
       bind_err (replaySegment parse (rest = []) content ns) (replayJournal parse readText rest))"

section \<open>Folders\<close>

definition truthy_id :: "string option \<Rightarrow> string option" where
  "truthy_id x = (if x = Some [] then None else x)"

text \<open>\<open>bucketOf\<close>: climb to the topmost folder that is in the namespace, or stop where a cycle closes.\<close>

function bucketLoop :: "(string \<times> container_row) list \<Rightarrow> string option \<Rightarrow> string option \<Rightarrow> string set \<Rightarrow> string option" where
  "bucketLoop containers current topmost seen =
    (case truthy_id current of
       None \<Rightarrow> topmost
     | Some k \<Rightarrow> (case map_of containers k of
          None \<Rightarrow> topmost
        | Some c \<Rightarrow> if k \<in> seen then topmost else bucketLoop containers (ct_cid c) (Some k) (insert k seen)))"
  by pat_completeness auto

termination
proof (relation "measure (\<lambda>(containers, _, _, seen). card (fst ` set containers - seen))", goal_cases)
  case (2 containers current topmost seen k c)
  then have "k \<in> fst ` set containers - seen" by (force dest: map_of_SomeD)
  then have "fst ` set containers - insert k seen \<subset> fst ` set containers - seen" by blast
  then show ?case by (simp add: psubset_card_mono)
qed simp

declare bucketLoop.simps [simp del]

definition bucketOf :: "(string \<times> container_row) list \<Rightarrow> string option \<Rightarrow> string option" where
  "bucketOf containers cid = bucketLoop containers cid None {}"

text \<open>\<open>orderParentsFirst\<close>: of two rows with one id, the map keeps the last. Emitted ids are those of the output.\<close>

definition parent_row :: "container_row list \<Rightarrow> container_row \<Rightarrow> container_row option" where
  "parent_row cs c = Option.bind (truthy_id (ct_cid c)) (map_of (rev (map (\<lambda>c. (ct_id c, c)) cs)))"

definition emit :: "container_row \<Rightarrow> container_row list \<Rightarrow> container_row list" where
  "emit c out = (if ct_id c \<in> ct_id ` set out then out else out @ [c])"

lemma parent_row_mem: "parent_row cs c = Some q \<Longrightarrow> q \<in> set cs"
  by (auto simp: parent_row_def bind_eq_Some_conv dest: map_of_SomeD)

function visit :: "container_row list \<Rightarrow> container_row \<Rightarrow> string set \<Rightarrow> container_row list \<Rightarrow> container_row list" where
  "visit cs c seen out =
    (if ct_id c \<in> ct_id ` set out \<or> ct_id c \<in> seen then emit c out
     else emit c (case parent_row cs c of None \<Rightarrow> out | Some q \<Rightarrow> visit cs q (insert (ct_id c) seen) out))"
  by pat_completeness auto

termination
proof (relation "measure (\<lambda>(cs, c, seen, _). card (insert (ct_id c) (ct_id ` set cs) - seen))", goal_cases)
  case (2 cs c seen out q)
  then have "insert (ct_id q) (ct_id ` set cs) - insert (ct_id c) seen \<subset> insert (ct_id c) (ct_id ` set cs) - seen"
    by (auto dest: parent_row_mem)
  then show ?case by (simp add: psubset_card_mono)
qed simp

declare visit.simps [simp del]

definition orderParentsFirst :: "container_row list \<Rightarrow> container_row list" where
  "orderParentsFirst containers = fold (\<lambda>c out. visit containers c {} out) containers []"

section \<open>The segments of the journal\<close>

text \<open>The segment numbers missing between 0 and the highest present.\<close>

fun gapsBetween :: "int list \<Rightarrow> int list" where
  "gapsBetween (a # b # rest) = [a + 1..b - 1] @ gapsBetween (b # rest)"
| "gapsBetween _ = []"

definition missingSegments :: "int list \<Rightarrow> int list" where
  "missingSegments numbers = (case numbers of [] \<Rightarrow> [] | n # _ \<Rightarrow> [0..n - 1] @ gapsBetween numbers)"

definition assertNoJournalGaps :: "string list \<Rightarrow> bool \<Rightarrow> js_error option" where
  "assertNoJournalGaps segmentNames force =
    (if segmentNames = [] then None
     else if None \<in> set (map parseInt segmentNames)
       then Some (plain_error ''the journal contains a segment whose name is not a number'')
     else if missingSegments (sort (map (\<lambda>n. the (parseInt n)) segmentNames)) = [] then None
     else if \<not> force then Some (plain_error ''journal segment(s) are MISSING from every replica'')
     else None)"

record journal_disks =
  jd_readdir :: "string \<Rightarrow> js_error + string list"
  jd_stat :: "string \<Rightarrow> js_error + nat"
  jd_read :: "string \<Rightarrow> js_error + bytes"

definition journal_dir :: "string \<Rightarrow> string" where
  "journal_dir mountPoint = mountPoint @ ''/strubs/.journal''"

definition mounted_at :: "fleet_volume \<Rightarrow> string option" where
  "mounted_at v = (if fv_isMounted v then truthy_id (fv_mountPoint v) else None)"

text \<open>The manifest names no journal volume: then no mounted volume may have a journal directory.\<close>

fun strayJournals :: "journal_disks \<Rightarrow> fleet_volume list \<Rightarrow> js_error + nat list" where
  "strayJournals fs [] = Inr []"
| "strayJournals fs (v # vs) =
    (case mounted_at v of
       None \<Rightarrow> strayJournals fs vs
     | Some m \<Rightarrow> (case jd_stat fs (journal_dir m) of
          Inr _ \<Rightarrow> bind_err (strayJournals fs vs) (\<lambda>ids. Inr (fv_id v # ids))
        | Inl e \<Rightarrow> if missing e then strayJournals fs vs
                   else Inl (plain_error ''volume would not say whether it carries a namespace journal'')))"

type_synonym best_copies = "(string \<times> string \<times> nat) list"

definition consider_copy :: "journal_disks \<Rightarrow> string \<Rightarrow> string \<Rightarrow> nat \<Rightarrow> best_copies \<Rightarrow> js_error + best_copies" where
  "consider_copy fs f path sz best =
    (case map_of best f of
       None \<Rightarrow> Inr (AList.update f (path, sz) best)
     | Some (curPath, curSize) \<Rightarrow>
       (case (if sz > curSize then (curPath, path) else (path, curPath)) of (a, b) \<Rightarrow>
          bind_err (jd_read fs a) (\<lambda>short. bind_err (jd_read fs b) (\<lambda>long.
            if take (length short) long \<noteq> short then Inl (plain_error ''two copies of a journal segment DIVERGE'')
            else Inr (if sz > curSize then AList.update f (path, sz) best else best)))))"

fun segmentFiles :: "journal_disks \<Rightarrow> string \<Rightarrow> string list \<Rightarrow> best_copies \<Rightarrow> js_error + best_copies" where
  "segmentFiles fs dir [] best = Inr best"
| "segmentFiles fs dir (f # rest) best =
    (if \<not> is_segment_name f then
       (if prefix ''.'' f then segmentFiles fs dir rest best
        else Inl (plain_error ''the journal directory contains a file which is not a segment''))
     else case jd_stat fs (dir @ ''/'' @ f) of
         Inl _ \<Rightarrow> Inl (plain_error ''journal segment could not be measured'')
       | Inr sz \<Rightarrow> bind_err (consider_copy fs f (dir @ ''/'' @ f) sz best) (segmentFiles fs dir rest))"

fun replicaLoop :: "journal_disks \<Rightarrow> nat set \<Rightarrow> fleet_volume list \<Rightarrow> nat \<times> best_copies \<Rightarrow> js_error + nat \<times> best_copies" where
  "replicaLoop fs journalVolumes [] st = Inr st"
| "replicaLoop fs journalVolumes (v # vs) st =
    (case mounted_at v of
       None \<Rightarrow> replicaLoop fs journalVolumes vs st
     | Some m \<Rightarrow>
       if fv_id v \<notin> journalVolumes then replicaLoop fs journalVolumes vs st
       else (case jd_readdir fs (journal_dir m) of
           Inl e \<Rightarrow> if missing e then replicaLoop fs journalVolumes vs st
                    else Inl (plain_error ''the journal on the volume could not be read'')
         | Inr files \<Rightarrow> bind_err (segmentFiles fs (journal_dir m) files (snd st)) (\<lambda>best.
             replicaLoop fs journalVolumes vs (Suc (fst st), best))))"

text \<open>
  \<open>localeCompare\<close> orders names of digits and \<open>.jsonl\<close> as their characters are ordered. The result pairs each
  segment with the path of its best copy.
\<close>

definition journalSegments :: "journal_disks \<Rightarrow> nat list \<Rightarrow> fleet_volume list \<Rightarrow> bool \<Rightarrow> js_error + (string \<times> string) list" where
  "journalSegments fs journalVolumes volumes force =
    (if journalVolumes = [] then
       bind_err (strayJournals fs volumes) (\<lambda>withJournals.
         if withJournals \<noteq> [] then Inl (plain_error ''the bootstrap manifest does not say which volumes carry the namespace journal'')
         else Inr [])
     else bind_err (replicaLoop fs (set journalVolumes) volumes (0, [])) (\<lambda>(replicasRead, best).
       if replicasRead = 0 then Inl (plain_error ''not one of the journal volumes could be read'')
       else if best = [] then Inl (plain_error ''there is NOT ONE SEGMENT on any of the journal volumes'')
       else let segments = sort_key fst best in
         case assertNoJournalGaps (map fst segments) force of
           Some e \<Rightarrow> Inl e
         | None \<Rightarrow> Inr (map (\<lambda>(f, path, _). (f, path)) segments)))"

section \<open>The database\<close>

record object_row =
  or_id :: string
  or_size :: rat
  or_chunkSize :: rat
  or_dataVolumes :: "nat list"
  or_parityVolumes :: "nat list"
  or_containerId :: "string option"
  or_bucketId :: "string option"
  or_name :: string
  or_mime :: json
  or_md5 :: json

datatype db_event = BeginRestore | WriteContainer container_row string | WriteObject object_row | PruneOutside "string set"
  | EndRestore | NamespaceRestored

text \<open>
  What the database was told, in order; the \<open>k\<close>-th call fails as \<open>fail k\<close> says, and the restore stops there (the writes
  that the other workers may still make after a failed one are left out).
\<close>

type_synonym 'a db = "db_event list \<Rightarrow> (js_error + 'a) \<times> db_event list"

definition returnD :: "'a \<Rightarrow> 'a db" where
  "returnD x evs = (Inr x, evs)"

definition liftD :: "js_error + 'a \<Rightarrow> 'a db" where
  "liftD r evs = (r, evs)"

definition bindD :: "'a db \<Rightarrow> ('a \<Rightarrow> 'b db) \<Rightarrow> 'b db" where
  "bindD m f evs = (case m evs of (Inl e, evs') \<Rightarrow> (Inl e, evs') | (Inr x, evs') \<Rightarrow> f x evs')"

definition tell :: "(nat \<Rightarrow> js_error option) \<Rightarrow> db_event \<Rightarrow> unit db" where
  "tell fail ev evs = (case fail (length evs) of None \<Rightarrow> (Inr (), evs @ [ev]) | Some e \<Rightarrow> (Inl e, evs))"

definition whenD :: "bool \<Rightarrow> unit db \<Rightarrow> unit db" where
  "whenD b m = (if b then m else returnD ())"

section \<open>The check against the platters\<close>

definition hasAnySlice :: "slice_index \<Rightarrow> string \<Rightarrow> bool" where
  "hasAnySlice index oid \<longleftrightarrow> (case index oid of None \<Rightarrow> False | Some slots \<Rightarrow> list_ex (\<lambda>v. v \<noteq> 0) slots)"

text \<open>A deletion is honoured only when no slice is left; the number counts those that are not.\<close>

definition reconcileDeletes :: "slice_index \<Rightarrow> (string \<times> put_row) list \<Rightarrow> (string \<times> put_row) list \<Rightarrow> (string \<times> put_row) list \<times> nat" where
  "reconcileDeletes index deleted objects =
    fold (\<lambda>(oid, named) (objs, n). if hasAnySlice index oid then (AList.update oid named objs, Suc n) else (objs, n)) deleted (objects, 0)"

record survey =
  sv_fs :: platter_fs
  sv_platters :: "platter list"
  sv_index :: slice_index
  sv_geometry :: "nat \<times> nat"

definition mount_of :: "platter list \<Rightarrow> nat \<Rightarrow> string option" where
  "mount_of platters = map_of (rev (map (\<lambda>p. (pl_volumeId p, pl_mountPoint p)) platters))"

definition placeholder_of :: "platter list \<Rightarrow> nat" where
  "placeholder_of platters = (case platters of [] \<Rightarrow> 0 | p # _ \<Rightarrow> pl_volumeId p)"

definition rebuild_object :: "survey \<Rightarrow> string \<Rightarrow> synthesis option" where
  "rebuild_object sv oid = synthesiseRecordFromIndex (sv_fs sv) oid (sv_index sv oid) (mount_of (sv_platters sv))
     (placeholder_of (sv_platters sv)) (Some (sv_platters sv)) (Some (sv_geometry sv))"

datatype outcome = Missing | Dropped | Unrecoverable | Undescribed | Named object_row bool

definition named_row :: "(string \<times> container_row) list \<Rightarrow> put_row \<Rightarrow> rebuilt_record \<Rightarrow> object_row" where
  "named_row containers named rc = \<lparr>or_id = rr_id rc,
     or_size = (case rr_size rc of Some n \<Rightarrow> of_int n | None \<Rightarrow> pt_size named),
     or_chunkSize = (case rr_chunkSize rc of Some n \<Rightarrow> of_int n | None \<Rightarrow> pt_cs named),
     or_dataVolumes = rr_dataVolumes rc, or_parityVolumes = rr_parityVolumes rc, or_containerId = pt_cid named,
     or_bucketId = bucketOf containers (pt_cid named), or_name = pt_name named, or_mime = pt_mime named, or_md5 = pt_md5 named\<rparr>"

definition verify_object :: "survey \<Rightarrow> string set \<Rightarrow> (string \<times> container_row) list \<Rightarrow> string \<times> put_row \<Rightarrow> outcome" where
  "verify_object sv inSnapshot containers x =
    (case rebuild_object sv (fst x) of
       None \<Rightarrow> if \<not> hasAnySlice (sv_index sv) (fst x) then (if fst x \<in> inSnapshot then Missing else Dropped) else Unrecoverable
     | Some rebuilt \<Rightarrow>
       if sy_reason rebuilt \<noteq> Indeterminate \<and> \<not> sy_recoverable rebuilt then Unrecoverable
       else case sy_record rebuilt of
           None \<Rightarrow> Undescribed
         | Some rc \<Rightarrow> Named (named_row containers (snd x) rc) (sy_reason rebuilt = Indeterminate))"

record restore_summary =
  su_containers :: nat
  su_objectsInNamespace :: nat
  su_objectsRestored :: nat
  su_objectsMissing :: nat
  su_objectsUnrecoverable :: nat
  su_rowsPruned :: nat
  su_policiesDeclined :: nat
  su_objectsIndeterminate :: nat
  su_snapshotUsed :: string
  su_fellBackToPrevious :: bool
  su_currentSnapshotError :: "string option"
  su_delsIgnored :: nat
  su_putsDropped :: nat

definition count_outcome :: "outcome \<Rightarrow> restore_summary \<Rightarrow> restore_summary" where
  "count_outcome v su = (case v of
      Missing \<Rightarrow> su\<lparr>su_objectsMissing := Suc (su_objectsMissing su)\<rparr>
    | Dropped \<Rightarrow> su\<lparr>su_putsDropped := Suc (su_putsDropped su)\<rparr>
    | Unrecoverable \<Rightarrow> su\<lparr>su_objectsUnrecoverable := Suc (su_objectsUnrecoverable su)\<rparr>
    | Undescribed \<Rightarrow> su\<lparr>su_objectsIndeterminate := Suc (su_objectsIndeterminate su)\<rparr>
    | Named _ indeterminate \<Rightarrow>
        if indeterminate then su\<lparr>su_objectsIndeterminate := Suc (su_objectsIndeterminate su)\<rparr>
        else su\<lparr>su_objectsRestored := Suc (su_objectsRestored su)\<rparr>)"

text \<open>The containers, parents first, and then every object with its verdict; the set is the ids to keep.\<close>

fun writeContainers :: "(nat \<Rightarrow> js_error option) \<Rightarrow> (string \<times> container_row) list \<Rightarrow> container_row list \<Rightarrow> unit db" where
  "writeContainers fail containers [] = returnD ()"
| "writeContainers fail containers (c # cs) =
     bindD (tell fail (WriteContainer c (case bucketOf containers (ct_cid c) of Some b \<Rightarrow> b | None \<Rightarrow> ct_id c)))
       (\<lambda>_. writeContainers fail containers cs)"

fun verifyEach ::
  "(nat \<Rightarrow> js_error option) \<Rightarrow> bool \<Rightarrow> (string \<times> put_row \<Rightarrow> outcome) \<Rightarrow> (string \<times> put_row) list \<Rightarrow> restore_summary \<times> string set \<Rightarrow> (restore_summary \<times> string set) db" where
  "verifyEach fail apply verdict [] st = returnD st"
| "verifyEach fail apply verdict (x # xs) st =
    (case verdict x of
       Named row b \<Rightarrow> bindD (whenD apply (tell fail (WriteObject row)))
         (\<lambda>_. verifyEach fail apply verdict xs (count_outcome (Named row b) (fst st), insert (fst x) (snd st)))
     | v \<Rightarrow> verifyEach fail apply verdict xs (count_outcome v (fst st), snd st))"

section \<open>A restore\<close>

record restore_deps =
  rd_fleetRestoreIncomplete :: "js_error + bool"
  rd_journalLocationUncertain :: bool
  rd_platters :: "bool \<Rightarrow> js_error + platter list"
  rd_restoreInFlight :: "js_error + bool"
  rd_namespaceRestorePending :: "js_error + bool"
  rd_objectsInDatabase :: "js_error + nat"
  rd_fetchSnapshot :: "string \<Rightarrow> js_error + bytes"
  rd_unpack :: "bytes \<Rightarrow> js_error + string list"
  rd_parse :: "string \<Rightarrow> json option"
  rd_sha256 :: "bytes \<Rightarrow> string"
  rd_journalSegments :: "bool \<Rightarrow> js_error + string list"
  rd_readText :: "string \<Rightarrow> js_error + string"
  rd_fs :: platter_fs
  rd_merge :: "slice_entry list list \<Rightarrow> slice_entry list"
  rd_fleetGeometry :: "nat \<times> nat"
  rd_pruned :: "string set \<Rightarrow> nat"
  rd_fail :: "nat \<Rightarrow> js_error option"

definition refuse_if :: "bool \<Rightarrow> string \<Rightarrow> js_error + unit" where
  "refuse_if b m = (if b then Inl (plain_error m) else Inr ())"

text \<open>The refusals before anything is read or written; the first call of \<open>platters()\<close> is number \<open>False\<close>.\<close>

definition restore_guards :: "restore_deps \<Rightarrow> string option \<Rightarrow> bool \<Rightarrow> bool \<Rightarrow> js_error + string" where
  "restore_guards deps snapshot apply force =
    bind_err (rd_fleetRestoreIncomplete deps) (\<lambda>interrupted.
    bind_err (refuse_if interrupted ''refusing to restore the namespace: a fleet restore did not finish'') (\<lambda>_.
    bind_err (refuse_if (rd_journalLocationUncertain deps) ''some bootstrap manifests could not be read'') (\<lambda>_.
    bind_err (rd_platters deps False) (\<lambda>_.
    case snapshot of None \<Rightarrow> Inl (plain_error ''no snapshot pointer in any bootstrap manifest'')
    | Some objectId \<Rightarrow>
      bind_err (rd_restoreInFlight deps) (\<lambda>inFlight.
      bind_err (if inFlight then Inr True else rd_namespaceRestorePending deps) (\<lambda>resuming.
      if apply \<and> \<not> force \<and> \<not> resuming
      then bind_err (rd_objectsInDatabase deps) (\<lambda>existing.
             bind_err (refuse_if (existing > 0) ''refusing to restore into a database that already holds objects'') (\<lambda>_. Inr objectId))
      else Inr objectId))))))"

text \<open>The snapshot, its id, and the failure of the current one when the previous one is used.\<close>

definition fetch_with_fallback :: "restore_deps \<Rightarrow> string \<Rightarrow> string option \<Rightarrow> js_error + bytes \<times> string \<times> js_error option" where
  "fetch_with_fallback deps objectId previous =
    (case rd_fetchSnapshot deps objectId of
       Inr b \<Rightarrow> Inr (b, objectId, None)
     | Inl e \<Rightarrow> (case truthy_id previous of
          None \<Rightarrow> Inl e
        | Some prev \<Rightarrow> bind_err (rd_fetchSnapshot deps prev) (\<lambda>b. Inr (b, prev, Some e))))"

text \<open>The namespace the records describe, and the ids that came from the snapshot.\<close>

definition rebuild_namespace :: "restore_deps \<Rightarrow> bool \<Rightarrow> bytes \<Rightarrow> js_error + namespace \<times> string set" where
  "rebuild_namespace deps force snapshotFile =
    bind_err (rd_unpack deps snapshotFile) (\<lambda>ls.
    bind_err (readSnapshot (rd_parse deps) (rd_sha256 deps) ls) (\<lambda>ns.
    bind_err (rd_journalSegments deps force) (\<lambda>segments.
    bind_err (replayJournal (rd_parse deps) (rd_readText deps) segments ns) (\<lambda>ns'.
      Inr (ns', fst ` set (ns_objects ns))))))"

definition survey_platters :: "restore_deps \<Rightarrow> js_error + survey" where
  "survey_platters deps =
    bind_err (rd_platters deps True) (\<lambda>ps.
    bind_err (buildSliceIndex (rd_fs deps) (rd_merge deps) ps) (\<lambda>index.
      Inr \<lparr>sv_fs = rd_fs deps, sv_platters = ps, sv_index = index, sv_geometry = rd_fleetGeometry deps\<rparr>))"

definition first_summary :: "namespace \<Rightarrow> nat \<Rightarrow> nat \<Rightarrow> string \<Rightarrow> js_error option \<Rightarrow> restore_summary" where
  "first_summary ns objectCount delsIgnored used currentError =
    \<lparr>su_containers = length (ns_containers ns), su_objectsInNamespace = objectCount, su_objectsRestored = 0, su_objectsMissing = 0,
     su_objectsUnrecoverable = 0, su_rowsPruned = 0, su_policiesDeclined = 0, su_objectsIndeterminate = 0, su_snapshotUsed = used,
     su_fellBackToPrevious = (currentError \<noteq> None),
     su_currentSnapshotError = Option.bind currentError (\<lambda>e. if err_message e = [] then None else Some (err_message e)),
     su_delsIgnored = delsIgnored, su_putsDropped = 0\<rparr>"

definition apply_namespace ::
  "restore_deps \<Rightarrow> bool \<Rightarrow> survey \<Rightarrow> string set \<Rightarrow> namespace \<Rightarrow> (string \<times> put_row) list \<Rightarrow> restore_summary \<Rightarrow> restore_summary db" where
  "apply_namespace deps apply sv inSnapshot ns objects su =
    (let containers = ns_containers ns; fail = rd_fail deps; rows = map snd containers in
     bindD (whenD apply (writeContainers fail containers (orderParentsFirst rows))) (\<lambda>_.
     bindD (verifyEach fail apply (verify_object sv inSnapshot containers) objects (su, ct_id ` set rows)) (\<lambda>(su', kept).
     bindD (whenD apply (tell fail (PruneOutside kept))) (\<lambda>_.
     bindD (whenD apply (tell fail EndRestore)) (\<lambda>_.
     bindD (whenD apply (tell fail NamespaceRestored)) (\<lambda>_.
       returnD (su'\<lparr>su_rowsPruned := (if apply then rd_pruned deps kept else 0), su_policiesDeclined := ns_declined ns\<rparr>)))))))"

definition restore_run :: "restore_deps \<Rightarrow> string option \<Rightarrow> bool \<Rightarrow> bool \<Rightarrow> string option \<Rightarrow> restore_summary db" where
  "restore_run deps snapshot apply force previous =
    bindD (liftD (restore_guards deps snapshot apply force)) (\<lambda>objectId.
    bindD (whenD apply (tell (rd_fail deps) BeginRestore)) (\<lambda>_.
    bindD (liftD (fetch_with_fallback deps objectId previous)) (\<lambda>(file, used, currentError).
    bindD (liftD (rebuild_namespace deps force file)) (\<lambda>(ns, inSnapshot).
    bindD (liftD (survey_platters deps)) (\<lambda>sv.
      case reconcileDeletes (sv_index sv) (ns_deleted ns) (ns_objects ns) of (objects, delsIgnored) \<Rightarrow>
        apply_namespace deps apply sv inSnapshot ns objects
          (first_summary ns (length objects) delsIgnored used currentError))))))"

end
