(* ===== verification/Restore_Journal.thy ===== *)
theory Restore_Journal
  imports Restore Journal_Ack
begin

text \<open>
  What the replay of the journal does to the namespace: it applies exactly the coherent records, in order, and
  fails on any other line but the last record of the last segment; per object the last record decides and no
  name is forgotten; and no sequence of records opens a bucket or strips its protection.
\<close>

section \<open>The records of the journal\<close>

definition line_record :: "(string \<Rightarrow> json option) \<Rightarrow> string \<Rightarrow> restore_record option" where
  "line_record parse line = (if line = [] then None else case parse line of None \<Rightarrow> None
     | Some r \<Rightarrow> if isCoherent r = Inr True then restore_record_of r else None)"

definition journal_records :: "(string \<Rightarrow> json option) \<Rightarrow> string list \<Rightarrow> restore_record list" where
  "journal_records parse texts = List.map_filter (line_record parse) (concat (map (split_on (CHR 0x0A)) texts))"

lemma coherent_record: "isCoherent r = Inr True \<Longrightarrow> \<exists>rec. restore_record_of r = Some rec"
  by (auto simp: isCoherent_def restore_record_of_def Let_def split: if_splits)

text \<open>A line the replay can read.\<close>

definition good_line :: "(string \<Rightarrow> json option) \<Rightarrow> string \<Rightarrow> bool" where
  "good_line parse line \<longleftrightarrow> line = [] \<or> line_record parse line \<noteq> None"

lemma replay_line_Inr:
  "replay_line parse b line ns = Inr ns' \<Longrightarrow>
     ns' = (case line_record parse line of None \<Rightarrow> ns | Some r \<Rightarrow> replay_record r ns) \<and> (b \<or> good_line parse line)"
  by (auto simp: replay_line_def line_record_def good_line_def dest: coherent_record split: if_splits option.splits sum.splits bool.splits)

lemma replay_good_line:
  "good_line parse line \<Longrightarrow> replay_line parse b line ns = Inr (case line_record parse line of None \<Rightarrow> ns | Some r \<Rightarrow> replay_record r ns)"
  by (auto simp: replay_line_def line_record_def good_line_def split: if_splits option.splits)

lemma map_filter_Cons: "List.map_filter f (x # xs) = (case f x of None \<Rightarrow> List.map_filter f xs | Some y \<Rightarrow> y # List.map_filter f xs)"
  by (simp add: List.map_filter_def split: option.splits)

lemma map_filter_append: "List.map_filter f (xs @ ys) = List.map_filter f xs @ List.map_filter f ys"
  by (simp add: List.map_filter_def)

lemma replayLines_Inr:
  "replayLines parse isLast n ls ns = Inr ns' \<Longrightarrow> ns' = fold replay_record (List.map_filter (line_record parse) ls) ns \<and>
     (\<forall>k < length ls. isLast (n + k) \<or> good_line parse (ls ! k))"
proof (induction ls arbitrary: n ns)
  case (Cons line ls)
  then obtain ns1 where l: "replay_line parse (isLast n) line ns = Inr ns1" and
      r: "replayLines parse isLast (Suc n) ls ns1 = Inr ns'" by (auto simp: bind_err_eq_Inr)
  have "isLast (n + k) \<or> good_line parse ((line # ls) ! k)" if "k < length (line # ls)" for k
    using Cons.IH [OF r] replay_line_Inr [OF l] that by (cases k) auto
  then show ?case using Cons.IH [OF r] replay_line_Inr [OF l] by (auto simp: map_filter_Cons split: option.splits)
qed (simp add: List.map_filter_def)

lemma replayLines_good:
  "\<forall>k < length ls. good_line parse (ls ! k) \<Longrightarrow>
     replayLines parse isLast n ls ns = Inr (fold replay_record (List.map_filter (line_record parse) ls) ns)"
proof (induction ls arbitrary: n ns)
  case (Cons line ls)
  have "good_line parse line" "\<forall>k < length ls. good_line parse (ls ! k)" using Cons.prems by (auto simp: All_less_Suc2)
  then show ?case using Cons.IH by (auto simp: replay_good_line map_filter_Cons split: option.splits)
qed (simp add: List.map_filter_def)

lemma replayJournal_Inr:
  "replayJournal parse readText segs ns = Inr ns' \<Longrightarrow> \<exists>texts. map readText segs = map Inr texts \<and>
     ns' = fold replay_record (journal_records parse texts) ns \<and>
     (\<forall>i < length texts. \<forall>k < length (split_on (CHR 0x0A) (texts ! i)). good_line parse (split_on (CHR 0x0A) (texts ! i) ! k) \<or>
        Suc i = length texts \<and> int k = lastRecordIndex (split_on (CHR 0x0A) (texts ! i)))"
proof (induction segs arbitrary: ns)
  case (Cons seg segs)
  then obtain content ns1 where t: "readText seg = Inr content" and l: "replaySegment parse (segs = []) content ns = Inr ns1" and
      r: "replayJournal parse readText segs ns1 = Inr ns'" by (auto simp: bind_err_eq_Inr)
  obtain texts where texts: "map readText segs = map Inr texts" "ns' = fold replay_record (journal_records parse texts) ns1" and
      ok: "\<forall>i < length texts. \<forall>k < length (split_on (CHR 0x0A) (texts ! i)). good_line parse (split_on (CHR 0x0A) (texts ! i) ! k) \<or>
        Suc i = length texts \<and> int k = lastRecordIndex (split_on (CHR 0x0A) (texts ! i))"
    using Cons.IH [OF r] by blast
  have len: "segs = [] \<longleftrightarrow> texts = []" using texts(1) by (metis map_is_Nil_conv)
  note l' = replayLines_Inr [OF l [unfolded replaySegment_def Let_def]]
  show ?case
  proof (intro exI [of _ "content # texts"] conjI allI impI)
    show "ns' = fold replay_record (journal_records parse (content # texts)) ns"
      using l' texts(2) by (simp add: journal_records_def map_filter_append)
    fix i k assume "i < length (content # texts)" "k < length (split_on (CHR 0x0A) ((content # texts) ! i))"
    then show "good_line parse (split_on (CHR 0x0A) ((content # texts) ! i) ! k) \<or>
        Suc i = length (content # texts) \<and> int k = lastRecordIndex (split_on (CHR 0x0A) ((content # texts) ! i))"
      using l' ok len by (cases i) auto
  qed (simp add: t texts(1))
qed (simp add: journal_records_def List.map_filter_def)

lemma replayJournal_good:
  assumes "map readText segs = map Inr texts" "\<forall>content \<in> set texts. \<forall>l \<in> set (split_on (CHR 0x0A) content). good_line parse l"
  shows "replayJournal parse readText segs ns = Inr (fold replay_record (journal_records parse texts) ns)"
  using assms
proof (induction segs arbitrary: texts ns)
  case (Cons seg segs)
  then obtain content texts' where t: "texts = content # texts'" "readText seg = Inr content" "map readText segs = map Inr texts'"
    by (cases texts) auto
  then show ?case using Cons.prems Cons.IH [of texts']
    by (simp add: replaySegment_def Let_def replayLines_good journal_records_def map_filter_append)
qed (simp add: journal_records_def List.map_filter_def)

section \<open>Buckets are never opened\<close>

text \<open>A flag that only closes: what is public afterwards was public before; a protection disappears only with its folder.\<close>

definition opened :: "container_row option \<Rightarrow> bool" where
  "opened x \<longleftrightarrow> (\<exists>c. x = Some c \<and> (ct_pr c = Some True \<or> ct_pw c = Some True))"

definition closer :: "namespace \<Rightarrow> namespace \<Rightarrow> bool" where
  "closer ns ns' \<longleftrightarrow> (\<forall>cid c'. map_of (ns_containers ns') cid = Some c' \<longrightarrow>
     (ct_pr c' = Some True \<longrightarrow> (\<exists>c. map_of (ns_containers ns) cid = Some c \<and> ct_pr c = Some True)) \<and>
     (ct_pw c' = Some True \<longrightarrow> (\<exists>c. map_of (ns_containers ns) cid = Some c \<and> ct_pw c = Some True)))"

definition keeps_protection :: "string \<Rightarrow> namespace \<Rightarrow> namespace \<Rightarrow> bool" where
  "keeps_protection cid ns ns' \<longleftrightarrow> (\<forall>c. map_of (ns_containers ns) cid = Some c \<and> ct_dp c = Some True \<longrightarrow>
     (\<exists>c'. map_of (ns_containers ns') cid = Some c' \<and> ct_dp c' = Some True))"

lemma closer_trans: "closer a b \<Longrightarrow> closer b c \<Longrightarrow> closer a c"
  unfolding closer_def by meson

lemma closer_record: "closer ns (replay_record r ns)"
  by (cases r) (auto simp: closer_def replay_container_def replay_policy_def replay_del_def open_flag_def Let_def update_conv delete_conv
      bind_eq_Some_conv split: option.splits if_splits)

lemma closer_fold: "closer ns (fold replay_record rs ns)"
proof (induction rs arbitrary: ns)
  case (Cons r rs)
  show ?case using closer_trans [OF closer_record Cons.IH] by simp
qed (simp add: closer_def)

lemma protection_record: "r \<noteq> RDel cid \<Longrightarrow> keeps_protection cid ns (replay_record r ns)"
  by (cases r) (auto simp: keeps_protection_def replay_container_def replay_policy_def replay_del_def protect_flag_def Let_def
      update_conv delete_conv split: option.splits if_splits)

lemma protection_fold: "RDel cid \<notin> set rs \<Longrightarrow> keeps_protection cid ns (fold replay_record rs ns)"
proof (induction rs arbitrary: ns)
  case (Cons r rs)
  have "keeps_protection cid (replay_record r ns) (fold replay_record rs (replay_record r ns))" using Cons by auto
  moreover have "keeps_protection cid ns (replay_record r ns)" using Cons.prems by (intro protection_record) auto
  ultimately show ?case unfolding keeps_protection_def by (auto dest: spec)
qed (simp add: keeps_protection_def)

text \<open>
  C8. Whatever records the journal holds, forged, left over from rejected batches or both, replaying it never opens a
  bucket: a folder that is publicly readable or writable afterwards was so in the snapshot. And a
  folder the snapshot protects against deletions is still protected, unless the journal deletes the folder.
\<close>

theorem journal_never_opens_bucket:
  assumes "replayJournal parse readText segs ns = Inr ns'"
  shows "(\<forall>cid c'. map_of (ns_containers ns') cid = Some c' \<longrightarrow>
      (ct_pr c' = Some True \<longrightarrow> (\<exists>c. map_of (ns_containers ns) cid = Some c \<and> ct_pr c = Some True)) \<and>
      (ct_pw c' = Some True \<longrightarrow> (\<exists>c. map_of (ns_containers ns) cid = Some c \<and> ct_pw c = Some True))) \<and>
    (\<exists>texts. map readText segs = map Inr texts \<and>
      (\<forall>cid c. map_of (ns_containers ns) cid = Some c \<and> ct_dp c = Some True \<longrightarrow> RDel cid \<notin> set (journal_records parse texts) \<longrightarrow>
        (\<exists>c'. map_of (ns_containers ns') cid = Some c' \<and> ct_dp c' = Some True)))"
proof -
  from replayJournal_Inr [OF assms] obtain texts where t: "map readText segs = map Inr texts"
    and ns': "ns' = fold replay_record (journal_records parse texts) ns" by blast
  show ?thesis using closer_fold [of ns "journal_records parse texts"] protection_fold [of _ "journal_records parse texts" ns] t
    unfolding ns' closer_def keeps_protection_def by blast
qed

section \<open>The last record decides\<close>

text \<open>The specification: per object, the last record about it, and the last name it had.\<close>

fun object_after :: "string \<Rightarrow> restore_record list \<Rightarrow> put_row option \<Rightarrow> put_row option" where
  "object_after oid [] old = old"
| "object_after oid (RPut p # rs) old = object_after oid rs (if pt_id p = oid then Some p else old)"
| "object_after oid (RDel i # rs) old = object_after oid rs (if i = oid then None else old)"
| "object_after oid (_ # rs) old = object_after oid rs old"

fun last_name :: "string \<Rightarrow> restore_record list \<Rightarrow> put_row option \<Rightarrow> put_row option" where
  "last_name oid [] old = old"
| "last_name oid (RPut p # rs) old = last_name oid rs (if pt_id p = oid then Some p else old)"
| "last_name oid (_ # rs) old = last_name oid rs old"

definition folder_id :: "string \<Rightarrow> restore_record list \<Rightarrow> bool" where
  "folder_id oid rs \<longleftrightarrow> list_ex (\<lambda>r. case r of RContainer c \<Rightarrow> ct_id c = oid | _ \<Rightarrow> False) rs"

lemma replay_object_record:
  assumes "map_of (ns_containers ns) oid = None" "\<not> folder_id oid [r]"
  shows "map_of (ns_containers (replay_record r ns)) oid = None \<and>
    map_of (ns_objects (replay_record r ns)) oid = object_after oid [r] (map_of (ns_objects ns) oid) \<and>
    map_of (ns_deleted (replay_record r ns)) oid = (if r = RDel oid \<and> map_of (ns_objects ns) oid \<noteq> None then map_of (ns_objects ns) oid
      else case r of RPut p \<Rightarrow> if pt_id p = oid then None else map_of (ns_deleted ns) oid | _ \<Rightarrow> map_of (ns_deleted ns) oid)"
  using assms by (cases r)
    (auto simp: folder_id_def replay_container_def replay_policy_def replay_del_def Let_def update_conv delete_conv split: option.splits if_splits)

lemma replay_objects:
  assumes "map_of (ns_containers ns) oid = None" "\<not> folder_id oid rs"
    "map_of (ns_objects ns) oid = None \<longrightarrow> map_of (ns_deleted ns) oid = old" "map_of (ns_objects ns) oid \<noteq> None \<longrightarrow> map_of (ns_objects ns) oid = old"
  shows "map_of (ns_objects (fold replay_record rs ns)) oid = object_after oid rs (map_of (ns_objects ns) oid) \<and>
    (map_of (ns_objects (fold replay_record rs ns)) oid = None \<longrightarrow> map_of (ns_deleted (fold replay_record rs ns)) oid = last_name oid rs old)"
  using assms
proof (induction rs arbitrary: ns old)
  case (Cons r rs)
  have f: "\<not> folder_id oid [r]" "\<not> folder_id oid rs" using Cons.prems(2) by (auto simp: folder_id_def)
  note step = replay_object_record [OF Cons.prems(1) f(1)]
  let ?old = "last_name oid [r] old"
  have "map_of (ns_objects (replay_record r ns)) oid = None \<longrightarrow> map_of (ns_deleted (replay_record r ns)) oid = ?old"
      "map_of (ns_objects (replay_record r ns)) oid \<noteq> None \<longrightarrow> map_of (ns_objects (replay_record r ns)) oid = ?old"
    using step Cons.prems(3,4) by (cases r; auto split: if_splits)+
  from Cons.IH [OF _ f(2) this] step show ?case by (cases r) auto
qed auto

text \<open>
  C9. The replay over association lists refines the obvious specification, object by object: when it succeeds, every line
  but possibly the last record of the last segment was a coherent record, an object has the name its last \<open>put\<close> gives it, or the
  snapshot's if there is none, unless a later \<open>del\<close> took it; and then the name it had is held aside with
  the deletions, so no name is forgotten before the platters are asked. Conversely a journal of coherent lines is always accepted.
\<close>

theorem replay_refines_last_word:
  assumes fresh: "ns_deleted ns = []" and texts: "map readText segs = map Inr texts"
  shows "((\<forall>content \<in> set texts. \<forall>l \<in> set (split_on (CHR 0x0A) content). good_line parse l) \<longrightarrow> (\<exists>ns'. replayJournal parse readText segs ns = Inr ns')) \<and>
    (case replayJournal parse readText segs ns of Inl _ \<Rightarrow> True | Inr ns' \<Rightarrow>
      (\<forall>i < length texts. \<forall>k < length (split_on (CHR 0x0A) (texts ! i)). good_line parse (split_on (CHR 0x0A) (texts ! i) ! k) \<or>
        Suc i = length texts \<and> int k = lastRecordIndex (split_on (CHR 0x0A) (texts ! i))) \<and>
      (\<forall>oid. map_of (ns_containers ns) oid = None \<and> \<not> folder_id oid (journal_records parse texts) \<longrightarrow>
        map_of (ns_objects ns') oid = object_after oid (journal_records parse texts) (map_of (ns_objects ns) oid) \<and>
        (map_of (ns_objects ns') oid = None \<longrightarrow>
          map_of (ns_deleted ns') oid = last_name oid (journal_records parse texts) (map_of (ns_objects ns) oid))))"
proof (intro conjI impI)
  assume "\<forall>content \<in> set texts. \<forall>l \<in> set (split_on (CHR 0x0A) content). good_line parse l"
  then show "\<exists>ns'. replayJournal parse readText segs ns = Inr ns'" using replayJournal_good [OF texts] by blast
next
  show "case replayJournal parse readText segs ns of Inl _ \<Rightarrow> True | Inr ns' \<Rightarrow>
      (\<forall>i < length texts. \<forall>k < length (split_on (CHR 0x0A) (texts ! i)). good_line parse (split_on (CHR 0x0A) (texts ! i) ! k) \<or>
        Suc i = length texts \<and> int k = lastRecordIndex (split_on (CHR 0x0A) (texts ! i))) \<and>
      (\<forall>oid. map_of (ns_containers ns) oid = None \<and> \<not> folder_id oid (journal_records parse texts) \<longrightarrow>
        map_of (ns_objects ns') oid = object_after oid (journal_records parse texts) (map_of (ns_objects ns) oid) \<and>
        (map_of (ns_objects ns') oid = None \<longrightarrow>
          map_of (ns_deleted ns') oid = last_name oid (journal_records parse texts) (map_of (ns_objects ns) oid)))"
  proof (cases "replayJournal parse readText segs ns")
    case (Inr ns')
    from replayJournal_Inr [OF Inr] obtain texts' where t: "map readText segs = map Inr texts'"
      "ns' = fold replay_record (journal_records parse texts') ns"
      "\<forall>i < length texts'. \<forall>k < length (split_on (CHR 0x0A) (texts' ! i)). good_line parse (split_on (CHR 0x0A) (texts' ! i) ! k) \<or>
        Suc i = length texts' \<and> int k = lastRecordIndex (split_on (CHR 0x0A) (texts' ! i))" by blast
    have "texts' = texts" using t(1) texts by (metis inj_map_eq_map inj_Inr)
    moreover have "map_of (ns_objects ns') oid = object_after oid (journal_records parse texts) (map_of (ns_objects ns) oid) \<and>
        (map_of (ns_objects ns') oid = None \<longrightarrow>
          map_of (ns_deleted ns') oid = last_name oid (journal_records parse texts) (map_of (ns_objects ns) oid))"
      if "map_of (ns_containers ns) oid = None" "\<not> folder_id oid (journal_records parse texts)" for oid
      using replay_objects [OF that, of "map_of (ns_objects ns) oid"] fresh t(2) \<open>texts' = texts\<close> by simp
    ultimately show ?thesis using t(3) Inr by simp
  qed simp
qed

section \<open>What the journal writes\<close>

text \<open>What \<open>JSON.parse\<close> makes of the text of a record, and the record as the restore types it.\<close>

definition json_or_null :: "string option \<Rightarrow> json" where
  "json_or_null x = (case x of None \<Rightarrow> JNull | Some s \<Rightarrow> JString s)"

definition json_flag :: "string \<Rightarrow> bool option \<Rightarrow> (string \<times> json) list" where
  "json_flag k v = (case v of None \<Rightarrow> [] | Some b \<Rightarrow> [(k, JBool b)])"

fun json_of_record :: "journal_record \<Rightarrow> json" where
  "json_of_record (PutRecord ts i cid nm mime md5 sz cs dv pv) = JObject
     [(''op'', JString ''put''), (''ts'', JString ts), (''id'', JString i), (''cid'', json_or_null cid), (''name'', JString nm),
      (''mime'', json_or_null mime), (''md5'', json_or_null md5), (''size'', JNumber (of_int sz)), (''cs'', JNumber (of_int cs)),
      (''dv'', JArray (map (\<lambda>v. JNumber (of_nat v)) dv)), (''pv'', JArray (map (\<lambda>v. JNumber (of_nat v)) pv))]"
| "json_of_record (DelRecord ts i) = JObject [(''op'', JString ''del''), (''ts'', JString ts), (''id'', JString i)]"
| "json_of_record (ContainerRecord ts i cid nm) = JObject
     [(''op'', JString ''container''), (''ts'', JString ts), (''id'', JString i), (''cid'', json_or_null cid), (''name'', JString nm)]"
| "json_of_record (PolicyRecord ts i pr pw dp) = JObject
     ([(''op'', JString ''policy''), (''ts'', JString ts), (''id'', JString i)] @ json_flag ''pr'' pr @ json_flag ''pw'' pw @ json_flag ''dp'' dp)"

fun typed_record :: "journal_record \<Rightarrow> restore_record" where
  "typed_record (PutRecord ts i cid nm mime md5 sz cs dv pv) = RPut \<lparr>pt_id = i, pt_cid = cid, pt_name = nm,
     pt_mime = json_or_null mime, pt_md5 = json_or_null md5, pt_size = of_int sz, pt_cs = of_int cs\<rparr>"
| "typed_record (DelRecord ts i) = RDel i"
| "typed_record (ContainerRecord ts i cid nm) = RContainer \<lparr>ct_id = i, ct_cid = cid, ct_name = nm, ct_pr = None, ct_pw = None, ct_dp = None\<rparr>"
| "typed_record (PolicyRecord ts i pr pw dp) = RPolicy i pr pw dp"

definition proper_record :: "journal_record \<Rightarrow> bool" where
  "proper_record r \<longleftrightarrow> jr_id r \<noteq> [] \<and> (case r of PutRecord _ _ _ nm _ _ _ _ _ _ \<Rightarrow> nm \<noteq> [] | ContainerRecord _ _ _ nm \<Rightarrow> nm \<noteq> [] | _ \<Rightarrow> True)"

definition text_of :: "bytes \<Rightarrow> string" where
  "text_of bs = map (\<lambda>b. char_of (unat b)) bs"

lemma text_of_utf8 [simp]: "text_of (utf8 s) = s"
proof -
  have "char_of (unat (word_of_nat (of_char c) :: byte)) = c" for c :: char
  proof -
    have "(of_char c :: nat) < 256" by (simp add: of_char_def)
    then show ?thesis by (simp add: unat_of_nat)
  qed
  then show ?thesis by (simp add: text_of_def utf8_def o_def)
qed

lemma text_of_append [simp]: "text_of (a @ b) = text_of a @ text_of b" and text_of_Nil [simp]: "text_of [] = []"
  by (simp_all add: text_of_def)

lemma text_of_newline [simp]: "text_of (newline # bs) = CHR 0x0A # text_of bs"
proof -
  have "char_of (10 :: nat) = CHR 0x0A" by code_simp
  then show ?thesis by (simp add: text_of_def)
qed

lemma json_or_null_ok [simp]: "null_or_string (Some (json_or_null x))" "as_parent (Some (json_or_null x)) = x"
  by (simp_all add: json_or_null_def null_or_string_def as_parent_def split: option.split)

lemma json_flag_get [simp]:
  "map_of (json_flag k v) k' = (if k = k' then map_option JBool v else None)"
  by (simp add: json_flag_def split: option.split)

lemma flag_ok [simp]: "absent_or_boolean (map_option JBool v)" "as_flag (map_option JBool v) = v" "absent_or_boolean None" "as_flag None = None"
  by (cases v; simp add: absent_or_boolean_def as_flag_def)+

lemma written_record:
  assumes "proper_record r"
  shows "isCoherent (json_of_record r) = Inr True \<and> restore_record_of (json_of_record r) = Some (typed_record r)"
proof (cases r)
  case (PolicyRecord ts i pr pw dp)
  have "map_of (json_flag ''pr'' pr @ json_flag ''pw'' pw @ json_flag ''dp'' dp) = (\<lambda>k. if k = ''pr'' then map_option JBool pr
      else if k = ''pw'' then map_option JBool pw else if k = ''dp'' then map_option JBool dp else None)"
    by (rule ext) (simp add: map_add_def split: option.split)
  then show ?thesis using assms unfolding PolicyRecord json_of_record.simps
    by (simp add: proper_record_def isCoherent_def restore_record_of_def non_empty_string_def as_string_def Let_def del: map_of_append)
qed (use assms in \<open>simp_all add: proper_record_def isCoherent_def restore_record_of_def non_empty_string_def finite_number_def as_string_def
       as_number_def or_null_def Let_def\<close>)

lemma stringify_one_line: "CHR 0x0A \<notin> set (stringify r)"
  using one_line_stringify [of r] by (auto simp: one_line_def)

text \<open>The lines of a segment the journal wrote, with a torn record behind them.\<close>

lemma split_segment:
  "CHR 0x0A \<notin> set torn \<Longrightarrow> split_on (CHR 0x0A) (text_of (concat (map record_line rs)) @ torn) = map stringify rs @ [torn]"
  by (induction rs) (simp_all add: record_line_def split_on_free split_on_field [OF stringify_one_line])

lemma written_line:
  assumes "parse (stringify r) = Some (json_of_record r)" "proper_record r"
  shows "line_record parse (stringify r) = Some (typed_record r)"
proof -
  have "stringify r \<noteq> []" by (cases r) (simp_all add: json_object_def)
  then show ?thesis using written_record [OF assms(2)] assms(1) by (simp add: line_record_def)
qed

lemma map_filter_written:
  assumes "\<forall>r \<in> set rs. parse (stringify r) = Some (json_of_record r)" "list_all proper_record rs"
  shows "List.map_filter (line_record parse) (map stringify rs) = map typed_record rs"
  using assms
proof (induction rs)
  case (Cons r rs)
  then show ?case by (simp add: map_filter_Cons written_line)
qed (simp add: List.map_filter_def)

lemma replay_written:
  assumes "\<forall>r \<in> set rs. parse (stringify r) = Some (json_of_record r)" "list_all proper_record rs"
  shows "replaySegment parse b (text_of (concat (map record_line rs))) ns = Inr (fold replay_record (map typed_record rs) ns)"
proof -
  have sp: "split_on (CHR 0x0A) (text_of (concat (map record_line rs))) = map stringify rs @ [[]]"
    using split_segment [of "[]" rs] by simp
  have "\<forall>k < length (map stringify rs @ [[]]). good_line parse ((map stringify rs @ [[]]) ! k)"
  proof (intro allI impI)
    fix k assume "k < length (map stringify rs @ [[]])"
    then show "good_line parse ((map stringify rs @ [[]]) ! k)"
      using written_line [of parse "rs ! k"] assms by (auto simp: nth_append good_line_def list_all_iff)
  qed
  moreover have "List.map_filter (line_record parse) (map stringify rs @ [[]]) = map typed_record rs"
    by (simp add: map_filter_append map_filter_written [OF assms]) (simp add: List.map_filter_def line_record_def)
  ultimately show ?thesis unfolding replaySegment_def Let_def sp by (simp add: replayLines_good)
qed

lemma replayLines_append:
  "replayLines parse isLast n (ls @ ls') ns = bind_err (replayLines parse isLast n ls ns) (replayLines parse isLast (n + length ls) ls')"
proof (induction ls arbitrary: n ns)
  case (Cons l ls)
  show ?case by (cases "replay_line parse (isLast n) l ns") (simp_all add: Cons.IH)
qed simp

lemma replay_torn:
  assumes "\<forall>r \<in> set rs. parse (stringify r) = Some (json_of_record r)" "list_all proper_record rs" "CHR 0x0A \<notin> set torn" "parse torn = None"
  shows "replaySegment parse True (text_of (concat (map record_line rs)) @ torn) ns = Inr (fold replay_record (map typed_record rs) ns)"
proof (cases "torn = []")
  case True
  then show ?thesis using replay_written [OF assms(1,2)] by simp
next
  case False
  have "\<forall>k < length (map stringify rs). good_line parse (map stringify rs ! k)"
    using written_line [of parse] assms(1,2) by (auto simp: good_line_def list_all_iff)
  note r = replayLines_good [OF this]
  have "replay_line parse True torn ns' = Inr ns'" for ns' using assms(4) by (simp add: replay_line_def)
  then show ?thesis using False
    by (simp add: replaySegment_def Let_def split_segment [OF assms(3)] replayLines_append r map_filter_written [OF assms(1,2)] lastRecordIndex_def)
qed

text \<open>
  C10. What the journal writes, the restore replays. Given that \<open>JSON.parse\<close> inverts \<open>JSON.stringify\<close> on its records, the segments
  of any sequence of records with ids and names, cut into segments anywhere and followed by a record torn
  in the middle, are replayed exactly: every record once, in order, with no refusal.
\<close>

theorem journal_written_then_replayed:
  assumes law: "\<forall>r \<in> set (concat rss @ rs). parse (stringify r) = Some (json_of_record r)"
    and proper: "list_all proper_record (concat rss @ rs)"
    and torn: "CHR 0x0A \<notin> set torn" "parse torn = None"
    and segs: "map readText segs = map (\<lambda>rs. Inr (text_of (concat (map record_line rs)))) rss @ [Inr (text_of (concat (map record_line rs)) @ torn)]"
  shows "replayJournal parse readText segs ns = Inr (fold replay_record (map typed_record (concat rss @ rs)) ns)"
  using law proper segs
proof (induction rss arbitrary: segs ns)
  case Nil
  then obtain seg where "segs = [seg]" "readText seg = Inr (text_of (concat (map record_line rs)) @ torn)" by auto
  then show ?case using replay_torn [of rs parse torn ns] torn Nil.prems by simp
next
  case (Cons rs1 rss)
  then obtain seg segs' where seg: "segs = seg # segs'" "readText seg = Inr (text_of (concat (map record_line rs1)))"
      "map readText segs' = map (\<lambda>rs. Inr (text_of (concat (map record_line rs)))) rss @ [Inr (text_of (concat (map record_line rs)) @ torn)]"
    by (cases segs) auto
  then show ?case using Cons.IH [of segs'] Cons.prems(1,2) replay_written [of rs1 parse] by simp
qed

section \<open>A small history\<close>

definition small_history :: "journal_record list" where
  "small_history = [DelRecord ''t'' ''o'', PolicyRecord ''t'' ''b'' (Some True) None (Some False)]"

definition small_parse :: "string \<Rightarrow> json option" where
  "small_parse s = map_of (map (\<lambda>r. (stringify r, json_of_record r)) small_history) s"

definition small_namespace :: namespace where
  "small_namespace = \<lparr>ns_containers = [(''b'', \<lparr>ct_id = ''b'', ct_cid = None, ct_name = ''bucket'', ct_pr = None, ct_pw = None, ct_dp = Some True\<rparr>)],
     ns_objects = [(''o'', \<lparr>pt_id = ''o'', pt_cid = Some ''b'', pt_name = ''file'', pt_mime = JNull, pt_md5 = JNull, pt_size = 1, pt_cs = 1\<rparr>)],
     ns_deleted = [], ns_declined = 0\<rparr>"

definition small_texts :: "string list" where
  "small_texts = [text_of (concat (map record_line small_history)) @ ''{'']"

lemma small_law: "\<forall>r \<in> set small_history. small_parse (stringify r) = Some (json_of_record r)"
  by (simp add: small_parse_def small_history_def json_object_def json_field_def json_string_def json_char_def)

lemma small_torn: "small_parse ''{'' = None"
  by (simp add: small_parse_def small_history_def json_object_def json_field_def json_string_def)

theorem journal_written_then_replayed_witness:
  "replayJournal small_parse (\<lambda>_. Inr (hd small_texts)) [''000000.jsonl''] small_namespace =
     Inr (fold replay_record (map typed_record (concat [] @ small_history)) small_namespace)"
  by (rule journal_written_then_replayed [of "[]" small_history small_parse "''{''"])
    (use small_law small_torn in \<open>simp_all add: small_texts_def\<close>, simp add: small_history_def proper_record_def)

lemma small_replay: "replayJournal small_parse (\<lambda>_. Inr (hd small_texts)) [''000000.jsonl''] small_namespace =
     Inr (fold replay_record (map typed_record small_history) small_namespace)"
  using replay_torn [of small_history small_parse "''{''"] small_law small_torn
  by (simp add: small_texts_def) (simp add: small_history_def proper_record_def)

theorem journal_never_opens_bucket_witness:
  "\<exists>ns' c. replayJournal small_parse (\<lambda>_. Inr (hd small_texts)) [''000000.jsonl''] small_namespace = Inr ns' \<and>
     map_of (ns_containers ns') ''b'' = Some c \<and> ct_pr c \<noteq> Some True \<and> ct_dp c = Some True \<and> ns_declined ns' = 2"
proof -
  define ns' where "ns' = fold replay_record (map typed_record small_history) small_namespace"
  obtain c where c: "map_of (ns_containers ns') ''b'' = Some c" "ct_dp c = Some True" "ns_declined ns' = 2"
    unfolding ns'_def by (simp add: small_history_def small_namespace_def replay_del_def replay_policy_def open_flag_def protect_flag_def Let_def)
  have "ct_pr c \<noteq> Some True"
    using journal_never_opens_bucket [OF small_replay [folded ns'_def], THEN conjunct1, rule_format, OF c(1), THEN conjunct1]
    by (auto simp: small_namespace_def)
  then show ?thesis using c small_replay [folded ns'_def] by blast
qed

theorem replay_refines_last_word_witness:
  "\<exists>ns'. replayJournal small_parse (\<lambda>_. Inr (hd small_texts)) [''000000.jsonl''] small_namespace = Inr ns' \<and>
     map_of (ns_objects ns') ''o'' = None \<and> map_of (ns_deleted ns') ''o'' = map_of (ns_objects small_namespace) ''o''"
proof -
  have sp: "split_on (CHR 0x0A) (hd small_texts) = map stringify small_history @ [''{'']"
    using split_segment [of "''{''" small_history] by (simp add: small_texts_def)
  have tn: "line_record small_parse ''{'' = None" using small_torn by (simp add: line_record_def)
  have "journal_records small_parse small_texts = map typed_record small_history"
    using sp tn map_filter_written [OF small_law] by (simp add: journal_records_def small_texts_def map_filter_append)
      (simp add: List.map_filter_def small_history_def proper_record_def)
  then show ?thesis
    using replay_refines_last_word [of small_namespace "\<lambda>_. Inr (hd small_texts)" "[''000000.jsonl'']" small_texts small_parse] small_replay
    by (simp add: small_texts_def small_history_def folder_id_def small_namespace_def)
qed

end
