(* ===== verification/Restore_Namespace.thy ===== *)
theory Restore_Namespace
  imports Restore
begin

text \<open>
  The order in which folders are written, the bucket of a path, and a whole restore: what is counted, what the
  database is told, and which names survive.
\<close>

section \<open>Parents first\<close>

definition child_of :: "container_row list \<Rightarrow> (container_row \<times> container_row) set" where
  "child_of cs = {(q, c). c \<in> set cs \<and> parent_row cs c = Some q}"

text \<open>Every row stands behind its parent.\<close>

definition parents_precede :: "container_row list \<Rightarrow> container_row list \<Rightarrow> bool" where
  "parents_precede cs out \<longleftrightarrow> (\<forall>xs c ys q. out = xs @ c # ys \<longrightarrow> parent_row cs c = Some q \<longrightarrow> q \<in> set xs)"

lemma parents_precede_snoc:
  "parents_precede cs (out @ [c]) \<longleftrightarrow> parents_precede cs out \<and> (\<forall>q. parent_row cs c = Some q \<longrightarrow> q \<in> set out)"
proof
  assume l: "parents_precede cs (out @ [c])"
  have "parents_precede cs out" unfolding parents_precede_def
  proof (intro allI impI)
    fix xs d ys q assume "out = xs @ d # ys" "parent_row cs d = Some q"
    then show "q \<in> set xs" using l unfolding parents_precede_def by (metis append.assoc append_Cons)
  qed
  then show "parents_precede cs out \<and> (\<forall>q. parent_row cs c = Some q \<longrightarrow> q \<in> set out)"
    using l unfolding parents_precede_def by blast
next
  assume r: "parents_precede cs out \<and> (\<forall>q. parent_row cs c = Some q \<longrightarrow> q \<in> set out)"
  show "parents_precede cs (out @ [c])" unfolding parents_precede_def
  proof (intro allI impI)
    fix xs d ys q assume eq: "out @ [c] = xs @ d # ys" and q: "parent_row cs d = Some q"
    show "q \<in> set xs"
    proof (cases ys rule: rev_cases)
      case Nil
      then show ?thesis using eq q r by simp
    next
      case (snoc zs z)
      then have "out = xs @ d # zs" using eq by simp
      then show ?thesis using r q unfolding parents_precede_def by blast
    qed
  qed
qed

lemma parents_precede_Nil [simp]: "parents_precede cs []"
  by (simp add: parents_precede_def)

lemma same_row: "distinct (map ct_id cs) \<Longrightarrow> c \<in> set cs \<Longrightarrow> d \<in> set cs \<Longrightarrow> ct_id c = ct_id d \<Longrightarrow> c = d"
  by (metis distinct_map inj_onD)

text \<open>\<open>visit\<close> appends rows it has not emitted, \<open>c\<close> among them; without a cycle, each behind its parent.\<close>

lemma emit_rows:
  assumes "distinct (map ct_id cs)" "c \<in> set cs" "set out \<subseteq> set cs" "distinct (map ct_id out)"
  shows "set out \<subseteq> set (emit c out) \<and> set (emit c out) \<subseteq> set cs \<and> c \<in> set (emit c out) \<and> distinct (map ct_id (emit c out))"
  using assms same_row [OF assms(1,2)] by (auto simp: emit_def)

lemma visit_rows:
  assumes "distinct (map ct_id cs)" "c \<in> set cs" "set out \<subseteq> set cs" "distinct (map ct_id out)"
  shows "set out \<subseteq> set (visit cs c seen out) \<and> set (visit cs c seen out) \<subseteq> set cs \<and> c \<in> set (visit cs c seen out) \<and>
    distinct (map ct_id (visit cs c seen out))"
  using assms
proof (induction cs c seen out rule: visit.induct)
  case (1 cs c seen out)
  show ?case
  proof (cases "ct_id c \<in> ct_id ` set out \<or> ct_id c \<in> seen")
    case True
    then show ?thesis using emit_rows [OF 1(2-5)] by (simp add: visit.simps [of cs c])
  next
    case False
    show ?thesis
    proof (cases "parent_row cs c")
      case None
      then show ?thesis using emit_rows [OF 1(2-5)] False by (simp add: visit.simps [of cs c])
    next
      case (Some q)
      note IH = 1(1) [OF False Some 1(2) parent_row_mem [OF Some] 1(4,5)]
      then show ?thesis using emit_rows [OF 1(2,3), of "visit cs q (insert (ct_id c) seen) out"] False Some by (auto simp: visit.simps [of cs c])
    qed
  qed
qed

lemma visit_ordered:
  assumes "distinct (map ct_id cs)" "acyclic (child_of cs)" "c \<in> set cs" "set out \<subseteq> set cs" "distinct (map ct_id out)"
    "parents_precede cs out" "\<forall>d \<in> set cs. ct_id d \<in> seen \<longrightarrow> (c, d) \<in> (child_of cs)\<^sup>+"
  shows "parents_precede cs (visit cs c seen out)"
  using assms
proof (induction cs c seen out rule: visit.induct)
  case (1 cs c seen out)
  have ns: "ct_id c \<notin> seen" using 1(8) 1(4) 1(3) by (auto simp: acyclic_def)
  show ?case
  proof (cases "ct_id c \<in> ct_id ` set out")
    case True
    then show ?thesis using 1(7) by (simp add: visit.simps [of cs c] emit_def)
  next
    case False
    with ns have f: "\<not> (ct_id c \<in> ct_id ` set out \<or> ct_id c \<in> seen)" by simp
    show ?thesis
    proof (cases "parent_row cs c")
      case None
      then show ?thesis using 1(7) f by (simp add: visit.simps [of cs c] emit_def parents_precede_snoc)
    next
      case (Some q)
      have qc: "(q, c) \<in> child_of cs" using Some 1(4) by (simp add: child_of_def)
      have "(q, d) \<in> (child_of cs)\<^sup>+" if "d \<in> set cs" "ct_id d \<in> insert (ct_id c) seen" for d
        using that qc 1(8) same_row [OF 1(2) that(1) 1(4)] by (auto intro: trancl_into_trancl2)
      then have IH: "parents_precede cs (visit cs q (insert (ct_id c) seen) out)"
        using 1(1) [OF f Some 1(2,3) parent_row_mem [OF Some] 1(5-7)] by blast
      have "q \<in> set (visit cs q (insert (ct_id c) seen) out)"
        using visit_rows [OF 1(2) parent_row_mem [OF Some] 1(5,6)] by blast
      then show ?thesis using IH f Some by (auto simp: visit.simps [of cs c] emit_def parents_precede_snoc)
    qed
  qed
qed

lemma fold_visit:
  assumes "distinct (map ct_id cs)" "set xs \<subseteq> set cs" "set out \<subseteq> set cs" "distinct (map ct_id out)"
    "acyclic (child_of cs) \<longrightarrow> parents_precede cs out"
  shows "let res = fold (\<lambda>c out. visit cs c {} out) xs out in set out \<union> set xs \<subseteq> set res \<and> set res \<subseteq> set cs \<and>
    distinct (map ct_id res) \<and> (acyclic (child_of cs) \<longrightarrow> parents_precede cs res)"
  using assms
proof (induction xs arbitrary: out)
  case (Cons c xs)
  have c: "c \<in> set cs" "set xs \<subseteq> set cs" using Cons.prems(2) by auto
  note v = visit_rows [OF Cons.prems(1) c(1) Cons.prems(3,4), of "{}"]
  have "acyclic (child_of cs) \<longrightarrow> parents_precede cs (visit cs c {} out)"
    using visit_ordered [OF Cons.prems(1) _ c(1) Cons.prems(3,4), of "{}"] Cons.prems(5) by auto
  with Cons.IH [OF Cons.prems(1) c(2), of "visit cs c {} out"] v show ?case by (auto simp: Let_def)
qed simp

text \<open>
  C15. Ordering the folders for writing ends on every namespace, cycles included, and loses, repeats or invents none:
  the result is a permutation of the folders. Unless folders contain each other in a cycle, every folder
  is written after the folder that contains it.
\<close>

theorem folders_ordered:
  assumes "distinct (map ct_id cs)"
  shows "mset (orderParentsFirst cs) = mset cs \<and>
    (acyclic (child_of cs) \<longrightarrow> (\<forall>xs c ys q. orderParentsFirst cs = xs @ c # ys \<longrightarrow> parent_row cs c = Some q \<longrightarrow> q \<in> set xs))"
proof -
  have r: "set cs \<subseteq> set (orderParentsFirst cs)" "set (orderParentsFirst cs) \<subseteq> set cs" "distinct (map ct_id (orderParentsFirst cs))"
      "acyclic (child_of cs) \<longrightarrow> parents_precede cs (orderParentsFirst cs)"
    using fold_visit [OF assms, of cs "[]"] by (auto simp: orderParentsFirst_def Let_def)
  have "distinct cs" "distinct (orderParentsFirst cs)" using assms r(3) by (simp_all add: distinct_map)
  then have "mset (orderParentsFirst cs) = mset cs" using r(1,2) set_eq_iff_mset_eq_distinct by blast
  then show ?thesis using r(4) by (simp add: parents_precede_def)
qed

section \<open>Well-formed namespaces\<close>

text \<open>One row per id, under its own id, and no object both named and held aside as deleted.\<close>

definition rows_ok :: "(string \<times> container_row) list \<Rightarrow> bool" where
  "rows_ok xs \<longleftrightarrow> (\<forall>(k, c) \<in> set xs. ct_id c = k)"

definition namespace_ok :: "namespace \<Rightarrow> bool" where
  "namespace_ok ns \<longleftrightarrow> distinct (map fst (ns_containers ns)) \<and> distinct (map fst (ns_objects ns)) \<and> distinct (map fst (ns_deleted ns)) \<and>
     rows_ok (ns_containers ns) \<and> fst ` set (ns_objects ns) \<inter> fst ` set (ns_deleted ns) = {}"

lemma set_update: "set (AList.update k v xs) \<subseteq> insert (k, v) (set xs)"
  by (induction xs) auto

lemma fst_update: "fst ` set (AList.update k v xs) = insert k (fst ` set xs)"
  by (induction xs) auto

lemma fst_delete: "fst ` set (AList.delete k xs) = fst ` set xs - {k}"
  by (auto simp: AList.delete_eq image_iff)

lemma set_delete: "set (AList.delete k xs) \<subseteq> set xs"
  by (auto simp: AList.delete_eq)

lemma rows_ok_update [simp]: "rows_ok xs \<Longrightarrow> ct_id d = k \<Longrightarrow> rows_ok (AList.update k d xs)"
  using set_update [of k d xs] by (auto simp: rows_ok_def)

lemma rows_ok_delete [simp]: "rows_ok xs \<Longrightarrow> rows_ok (AList.delete k xs)"
  using set_delete [of k xs] by (auto simp: rows_ok_def)

lemma namespace_ok_empty: "namespace_ok empty_namespace"
  by (simp add: namespace_ok_def empty_namespace_def rows_ok_def)

lemma namespace_ok_snapshot: "namespace_ok ns \<Longrightarrow> ns_deleted ns = [] \<Longrightarrow>
    namespace_ok (snapshot_record r ns) \<and> ns_deleted (snapshot_record r ns) = []"
  by (cases r; cases "the r") (simp_all add: namespace_ok_def snapshot_record_def distinct_update)

lemma map_of_ok: "namespace_ok ns \<Longrightarrow> map_of (ns_containers ns) k = Some c \<Longrightarrow> ct_id c = k"
  by (auto simp: namespace_ok_def rows_ok_def dest: map_of_SomeD)

lemma namespace_ok_replay:
  assumes "namespace_ok ns"
  shows "namespace_ok (replay_record r ns)"
proof (cases r)
  case (RContainer c)
  show ?thesis using assms
    by (auto simp: RContainer namespace_ok_def replay_container_def Let_def distinct_update)
next
  case (RPut p)
  show ?thesis using assms
    by (auto simp: RPut namespace_ok_def distinct_update distinct_delete fst_update fst_delete)
next
  case (RDel oid)
  show ?thesis
  proof (cases "map_of (ns_containers ns) oid")
    case None
    then show ?thesis using assms
      by (auto simp: RDel namespace_ok_def replay_del_def distinct_update distinct_delete fst_update fst_delete split: option.splits)
  next
    case (Some c)
    then show ?thesis using assms
      by (auto simp: RDel namespace_ok_def replay_del_def distinct_delete)
  qed
next
  case (RPolicy cid pr pw dp)
  show ?thesis
  proof (cases "map_of (ns_containers ns) cid")
    case (Some c)
    then show ?thesis using assms map_of_ok [OF assms Some]
      by (auto simp: RPolicy namespace_ok_def replay_policy_def Let_def distinct_update)
  qed (simp add: RPolicy replay_policy_def assms)
qed

lemma namespace_ok_line: "replay_line parse b line ns = Inr ns' \<Longrightarrow> namespace_ok ns \<Longrightarrow> namespace_ok ns'"
  by (auto simp: replay_line_def namespace_ok_replay split: if_splits option.splits sum.splits bool.splits)

lemma namespace_ok_lines: "replayLines parse isLast n ls ns = Inr ns' \<Longrightarrow> namespace_ok ns \<Longrightarrow> namespace_ok ns'"
  by (induction ls arbitrary: n ns) (auto simp: bind_err_eq_Inr dest: namespace_ok_line)

lemma namespace_ok_journal: "replayJournal parse readText segs ns = Inr ns' \<Longrightarrow> namespace_ok ns \<Longrightarrow> namespace_ok ns'"
  by (induction segs arbitrary: ns) (auto simp: bind_err_eq_Inr replaySegment_def Let_def dest: namespace_ok_lines)

lemma snapshotLoop_ok:
  "snapshotLoop parse ls st = Inr st' \<Longrightarrow> namespace_ok (sr_namespace st) \<and> ns_deleted (sr_namespace st) = [] \<Longrightarrow>
     namespace_ok (sr_namespace st') \<and> ns_deleted (sr_namespace st') = []"
proof (induction ls arbitrary: st)
  case (Cons l ls)
  then obtain st1 where l: "snapshot_line parse l st = Inr st1" and r: "snapshotLoop parse ls st1 = Inr st'"
    by (auto simp: bind_err_eq_Inr)
  have "namespace_ok (sr_namespace st1) \<and> ns_deleted (sr_namespace st1) = []"
    using l Cons.prems(2) namespace_ok_snapshot by (auto simp: snapshot_line_def split: if_splits option.splits)
  then show ?case using Cons.IH [OF r] by blast
qed simp

lemma readSnapshot_ok: "readSnapshot parse sha256 ls = Inr ns \<Longrightarrow> namespace_ok ns \<and> ns_deleted ns = []"
  using snapshotLoop_ok [of parse ls "\<lparr>sr_namespace = empty_namespace, sr_trailer = None, sr_hashed = []\<rparr>"] namespace_ok_empty
  by (auto simp: readSnapshot_def bind_err_eq_Inr Let_def empty_namespace_def split: option.splits if_splits)

lemma rebuild_namespace_ok: "rebuild_namespace deps force file = Inr (ns, inSnapshot) \<Longrightarrow> namespace_ok ns"
  by (auto simp: rebuild_namespace_def bind_err_eq_Inr dest: readSnapshot_ok namespace_ok_journal)

section \<open>Names after the platters were asked\<close>

definition final_name :: "namespace \<Rightarrow> slice_index \<Rightarrow> string \<Rightarrow> put_row option" where
  "final_name ns index oid = (case map_of (ns_objects ns) oid of Some named \<Rightarrow> Some named
     | None \<Rightarrow> if hasAnySlice index oid then map_of (ns_deleted ns) oid else None)"

lemma reconcile_step:
  "map_of (fst (fold (\<lambda>(oid, named) (objs, n). if hasAnySlice index oid then (AList.update oid named objs, Suc n) else (objs, n)) del (objs, n))) oid =
     (if hasAnySlice index oid \<and> oid \<in> fst ` set del then map_of (rev del) oid else map_of objs oid)"
proof (induction del arbitrary: objs n)
  case (Cons x del)
  obtain k v where x: "x = (k, v)" by fastforce
  have "map_of (rev del @ [(k, v)]) oid = (if oid \<in> fst ` set del then map_of (rev del) oid else if oid = k then Some v else None)"
  proof (cases "map_of (rev del) oid")
    case None
    then have "oid \<notin> fst ` set del" by (simp add: map_of_eq_None_iff)
    then show ?thesis using None by (simp add: map_add_def)
  next
    case (Some w)
    then have "oid \<in> fst ` set del" by (metis map_of_eq_None_iff option.distinct(1) set_rev)
    then show ?thesis using Some by (simp add: map_add_def)
  qed
  note rest = this
  show ?case
  proof (cases "hasAnySlice index k")
    case True
    then show ?thesis by (simp add: x Cons.IH update_conv rest del: map_of_append) auto
  next
    case False
    then show ?thesis by (simp add: x Cons.IH rest del: map_of_append) auto
  qed
qed simp

lemma reconciled_names:
  assumes "namespace_ok ns"
  shows "map_of (fst (reconcileDeletes index (ns_deleted ns) (ns_objects ns))) oid = final_name ns index oid"
proof -
  have d: "distinct (map fst (ns_deleted ns))" using assms by (simp add: namespace_ok_def)
  then have r: "map_of (rev (ns_deleted ns)) oid = map_of (ns_deleted ns) oid"
    by (metis distinct_rev map_of_inject_set rev_map set_rev)
  have "oid \<in> fst ` set (ns_deleted ns) \<Longrightarrow> map_of (ns_objects ns) oid = None"
    using assms by (auto simp: namespace_ok_def map_of_eq_None_iff)
  moreover have "oid \<notin> fst ` set (ns_deleted ns) \<Longrightarrow> map_of (ns_deleted ns) oid = None" by (simp add: map_of_eq_None_iff)
  ultimately show ?thesis unfolding reconcileDeletes_def reconcile_step r final_name_def by (auto split: option.splits)
qed

lemma distinct_reconciled: "distinct (map fst objs) \<Longrightarrow> distinct (map fst (fst (reconcileDeletes index del objs)))"
proof -
  have "distinct (map fst objs) \<Longrightarrow> distinct (map fst (fst (fold (\<lambda>(oid, named) (objs, n). if hasAnySlice index oid then (AList.update oid named objs, Suc n) else (objs, n)) del (objs, n))))" for n
    by (induction del arbitrary: objs n) (auto simp: distinct_update)
  then show "distinct (map fst objs) \<Longrightarrow> ?thesis" by (simp add: reconcileDeletes_def)
qed

section \<open>What the database is told\<close>

definition rows_named :: "(string \<times> put_row \<Rightarrow> outcome) \<Rightarrow> (string \<times> put_row) list \<Rightarrow> object_row list" where
  "rows_named verdict xs = List.map_filter (\<lambda>x. case verdict x of Named row _ \<Rightarrow> Some row | _ \<Rightarrow> None) xs"

lemma bindD_Inr: "bindD m f evs = (Inr y, evs') \<longleftrightarrow> (\<exists>x evs1. m evs = (Inr x, evs1) \<and> f x evs1 = (Inr y, evs'))"
  by (auto simp: bindD_def split: prod.splits sum.splits)

lemma tell_Inr: "tell fail ev evs = (Inr u, evs') \<longleftrightarrow> fail (length evs) = None \<and> evs' = evs @ [ev]"
  by (auto simp: tell_def split: option.splits)

lemma whenD_Inr: "whenD b (tell fail ev) evs = (Inr u, evs') \<Longrightarrow> evs' = (if b then evs @ [ev] else evs)"
  by (auto simp: whenD_def returnD_def tell_Inr split: if_splits)

lemma writeContainers_Inr: "writeContainers fail cts rows evs = (Inr u, evs') \<Longrightarrow>
    evs' = evs @ map (\<lambda>c. WriteContainer c (case bucketOf cts (ct_cid c) of Some b \<Rightarrow> b | None \<Rightarrow> ct_id c)) rows"
proof (induction rows arbitrary: evs)
  case (Cons c rows)
  then obtain evs1 where "evs1 = evs @ [WriteContainer c (case bucketOf cts (ct_cid c) of Some b \<Rightarrow> b | None \<Rightarrow> ct_id c)]"
      and r: "writeContainers fail cts rows evs1 = (Inr u, evs')"
    by (auto simp: bindD_Inr tell_Inr)
  then show ?case using Cons.IH [OF r] by simp
qed (simp add: returnD_def)

definition is_named :: "outcome \<Rightarrow> bool" where
  "is_named v \<longleftrightarrow> (case v of Named _ _ \<Rightarrow> True | _ \<Rightarrow> False)"

lemma verifyEach_Inr:
  "verifyEach fail apply verdict xs st evs = (Inr st', evs') \<Longrightarrow>
     evs' = evs @ (if apply then map WriteObject (rows_named verdict xs) else []) \<and>
     snd st' = snd st \<union> fst ` {x \<in> set xs. is_named (verdict x)} \<and> fst st' = fold (count_outcome \<circ> verdict) xs (fst st)"
proof (induction xs arbitrary: st evs)
  case (Cons x xs)
  show ?case
  proof (cases "is_named (verdict x)")
    case True
    then obtain row b where v: "verdict x = Named row b" by (auto simp: is_named_def split: outcome.splits)
    then obtain evs1 where w: "whenD apply (tell fail (WriteObject row)) evs = (Inr (), evs1)" and
        r: "verifyEach fail apply verdict xs (count_outcome (Named row b) (fst st), insert (fst x) (snd st)) evs1 = (Inr st', evs')"
      using Cons.prems by (auto simp: bindD_Inr)
    show ?thesis using Cons.IH [OF r] whenD_Inr [OF w] v True
      by (auto simp: rows_named_def List.map_filter_def)
  next
    case False
    then have r: "verifyEach fail apply verdict xs (count_outcome (verdict x) (fst st), snd st) evs = (Inr st', evs')"
      using Cons.prems by (cases "verdict x") (simp_all add: is_named_def)
    have "rows_named verdict (x # xs) = rows_named verdict xs"
      using False by (cases "verdict x") (simp_all add: rows_named_def List.map_filter_def is_named_def)
    then show ?thesis using Cons.IH [OF r] False by auto
  qed
qed (simp add: returnD_def rows_named_def List.map_filter_def)

section \<open>A whole restore\<close>

definition accounted :: "restore_summary \<Rightarrow> nat" where
  "accounted su = su_objectsRestored su + su_objectsMissing su + su_objectsUnrecoverable su + su_objectsIndeterminate su + su_putsDropped su"

lemma count_outcome_frame:
  "accounted (count_outcome v su) = Suc (accounted su) \<and> su_objectsInNamespace (count_outcome v su) = su_objectsInNamespace su"
  by (cases v) (simp_all add: count_outcome_def accounted_def)

lemma count_outcomes:
  "accounted (fold (count_outcome \<circ> verdict) xs su) = accounted su + length xs \<and>
   su_objectsInNamespace (fold (count_outcome \<circ> verdict) xs su) = su_objectsInNamespace su"
  by (induction xs arbitrary: su) (simp_all add: count_outcome_frame)

lemma apply_namespace_Inr:
  assumes "apply_namespace deps apply sv inSnapshot ns objects su evs = (Inr su', evs')"
  defines "verdict \<equiv> verify_object sv inSnapshot (ns_containers ns)"
  shows "\<exists>folders. evs' = evs @ (if apply then map (\<lambda>c. WriteContainer c (case bucketOf (ns_containers ns) (ct_cid c) of Some b \<Rightarrow> b | None \<Rightarrow> ct_id c))
        (orderParentsFirst (map snd (ns_containers ns))) @ map WriteObject (rows_named verdict objects) @
        [PruneOutside (ct_id ` snd ` set (ns_containers ns) \<union> fst ` {x \<in> set objects. is_named (verdict x)}), EndRestore, NamespaceRestored] else []) \<and>
      accounted su' = accounted su + length objects \<and> su_objectsInNamespace su' = su_objectsInNamespace su"
proof -
  let ?w = "whenD apply (writeContainers (rd_fail deps) (ns_containers ns) (orderParentsFirst (map snd (ns_containers ns))))"
  from assms(1) obtain e1 e2 e3 e4 st where
    w: "?w evs = (Inr (), e1)" and
    v: "verifyEach (rd_fail deps) apply verdict objects (su, ct_id ` snd ` set (ns_containers ns)) e1 = (Inr st, e2)" and
    p: "whenD apply (tell (rd_fail deps) (PruneOutside (snd st))) e2 = (Inr (), e3)" and
    n: "whenD apply (tell (rd_fail deps) EndRestore) e3 = (Inr (), e4)" and
    r: "whenD apply (tell (rd_fail deps) NamespaceRestored) e4 = (Inr (), evs')" and
    su': "su' = (fst st)\<lparr>su_rowsPruned := (if apply then rd_pruned deps (snd st) else 0), su_policiesDeclined := ns_declined ns\<rparr>"
    unfolding apply_namespace_def Let_def verdict_def [symmetric] bindD_Inr by (auto simp: bindD_Inr returnD_def split: prod.splits)
  have e1: "e1 = evs @ (if apply then map (\<lambda>c. WriteContainer c (case bucketOf (ns_containers ns) (ct_cid c) of Some b \<Rightarrow> b | None \<Rightarrow> ct_id c))
        (orderParentsFirst (map snd (ns_containers ns))) else [])"
    using w writeContainers_Inr by (cases "apply") (auto simp: whenD_def returnD_def)
  note ev = verifyEach_Inr [OF v] whenD_Inr [OF p] whenD_Inr [OF n] whenD_Inr [OF r]
  have "accounted su' = accounted (fst st)" "su_objectsInNamespace su' = su_objectsInNamespace (fst st)"
    by (simp_all add: su' accounted_def)
  then show ?thesis using ev e1 count_outcomes [of verdict objects su] by auto
qed

lemma liftD_Inr: "liftD r evs = (Inr x, evs') \<longleftrightarrow> r = Inr x \<and> evs' = evs"
  by (auto simp: liftD_def)

lemma bindD_lift_elim:
  "bindD (liftD r) f evs = (Inr y, evs') \<Longrightarrow> (\<And>x. r = Inr x \<Longrightarrow> f x evs = (Inr y, evs') \<Longrightarrow> P) \<Longrightarrow> P"
  "bindD (liftD r2) (\<lambda>(a, b). f2 a b) evs = (Inr y, evs') \<Longrightarrow> (\<And>a b. r2 = Inr (a, b) \<Longrightarrow> f2 a b evs = (Inr y, evs') \<Longrightarrow> P) \<Longrightarrow> P"
  "bindD (liftD r3) (\<lambda>(a, b, c). f3 a b c) evs = (Inr y, evs') \<Longrightarrow> (\<And>a b c. r3 = Inr (a, b, c) \<Longrightarrow> f3 a b c evs = (Inr y, evs') \<Longrightarrow> P) \<Longrightarrow> P"
  by (auto simp: bindD_Inr liftD_def)

lemma bindD_elim: "bindD m f evs = (Inr y, evs') \<Longrightarrow> (\<And>x evs1. m evs = (Inr x, evs1) \<Longrightarrow> f x evs1 = (Inr y, evs') \<Longrightarrow> P) \<Longrightarrow> P"
  by (auto simp: bindD_Inr)

lemma restore_run_Inr:
  assumes "restore_run deps snapshot apply force previous [] = (Inr su, evs)"
  obtains objectId stored used err ns inSnapshot sv objects n where
    "restore_guards deps snapshot apply force = Inr objectId" "fetch_with_fallback deps objectId previous = Inr (stored, used, err)"
    "rebuild_namespace deps force stored = Inr (ns, inSnapshot)" "survey_platters deps = Inr sv"
    "reconcileDeletes (sv_index sv) (ns_deleted ns) (ns_objects ns) = (objects, n)"
    "apply_namespace deps apply sv inSnapshot ns objects (first_summary ns (length objects) n used err) (if apply then [BeginRestore] else []) = (Inr su, evs)"
proof -
  from assms obtain objectId e1 stored used err ns inSnapshot sv where
    g: "restore_guards deps snapshot apply force = Inr objectId" and
    b: "whenD apply (tell (rd_fail deps) BeginRestore) [] = (Inr (), e1)" and
    f: "fetch_with_fallback deps objectId previous = Inr (stored, used, err)" and
    r: "rebuild_namespace deps force stored = Inr (ns, inSnapshot)" and s: "survey_platters deps = Inr sv" and
    a: "(case reconcileDeletes (sv_index sv) (ns_deleted ns) (ns_objects ns) of (objects, n) \<Rightarrow>
       apply_namespace deps apply sv inSnapshot ns objects (first_summary ns (length objects) n used err)) e1 = (Inr su, evs)"
    unfolding restore_run_def by (elim bindD_lift_elim bindD_elim) auto
  have "e1 = (if apply then [BeginRestore] else [])" using whenD_Inr [OF b] by simp
  then show ?thesis using that [OF g f r s] a
    by (cases "reconcileDeletes (sv_index sv) (ns_deleted ns) (ns_objects ns)") simp
qed

text \<open>A computation that does not say \<open>NamespaceRestored\<close>.\<close>

definition quiet :: "'a db \<Rightarrow> bool" where
  "quiet m \<longleftrightarrow> (\<forall>evs. NamespaceRestored \<in> set (snd (m evs)) \<longrightarrow> NamespaceRestored \<in> set evs)"

lemma quiet_bindD: "quiet m \<Longrightarrow> (\<And>x. quiet (f x)) \<Longrightarrow> quiet (bindD m f)"
proof -
  assume m: "quiet m" and f: "\<And>x. quiet (f x)"
  have "NamespaceRestored \<in> set evs" if "NamespaceRestored \<in> set (snd (bindD m f evs))" for evs
  proof (cases "m evs")
    case (Pair r evs1)
    have "NamespaceRestored \<in> set evs1" using that Pair f by (cases r) (auto simp: bindD_def quiet_def)
    then show ?thesis using m Pair unfolding quiet_def by (metis snd_conv)
  qed
  then show ?thesis by (simp add: quiet_def)
qed

lemma quiet_simple [simp]: "quiet (returnD x)" "quiet (liftD r)" "ev \<noteq> NamespaceRestored \<Longrightarrow> quiet (tell fail ev)"
  by (auto simp: quiet_def returnD_def liftD_def tell_def split: option.splits)

lemma quiet_whenD [simp]: "quiet m \<Longrightarrow> quiet (whenD b m)"
  by (simp add: whenD_def)

lemma quiet_writeContainers [simp]: "quiet (writeContainers fail cts rows)"
  by (induction rows) (auto intro: quiet_bindD)

lemma quiet_verifyEach [simp]: "quiet (verifyEach fail apply verdict xs st)"
  by (induction xs arbitrary: st) (auto intro: quiet_bindD split: outcome.splits)

lemma rows_named_mem: "row \<in> set (rows_named verdict xs) \<longleftrightarrow> (\<exists>x b. x \<in> set xs \<and> verdict x = Named row b)"
proof (induction xs)
  case (Cons x xs)
  then show ?case by (cases "verdict x") (auto simp: rows_named_def List.map_filter_def simp del: split_paired_Ex)
qed (simp add: rows_named_def List.map_filter_def)

lemma rebuilt_has_record: "rebuild_object sv oid = Some s \<Longrightarrow> \<exists>rc. sy_record s = Some rc \<and> rr_id rc = oid"
proof -
  obtain d p where g: "sv_geometry sv = (d, p)" by fastforce
  show "rebuild_object sv oid = Some s \<Longrightarrow> ?thesis"
    by (auto simp: rebuild_object_def synthesiseRecordFromIndex_def g Let_def judge_silent_def rebuild_from_def pass_judgement_def
        split: option.splits if_splits)
qed

definition readable :: "synthesis \<Rightarrow> bool" where
  "readable s \<longleftrightarrow> sy_recoverable s \<or> sy_reason s = Indeterminate"

lemma verify_object_named:
  "verify_object sv inSnapshot cts (oid, named) = Named row b \<longleftrightarrow>
     (\<exists>s rc. rebuild_object sv oid = Some s \<and> readable s \<and> sy_record s = Some rc \<and> row = named_row cts named rc \<and> b = (sy_reason s = Indeterminate))"
  by (auto simp: verify_object_def readable_def split: option.splits)

text \<open>A computation that says it only when it succeeds.\<close>

definition says_when_done :: "'a db \<Rightarrow> bool" where
  "says_when_done m \<longleftrightarrow> (\<forall>evs e evs'. m evs = (Inl e, evs') \<longrightarrow> NamespaceRestored \<in> set evs' \<longrightarrow> NamespaceRestored \<in> set evs)"

lemma says_bindD: "quiet m \<Longrightarrow> (\<And>x. says_when_done (f x)) \<Longrightarrow> says_when_done (bindD m f)"
proof -
  assume m: "quiet m" and f: "\<And>x. says_when_done (f x)"
  have "NamespaceRestored \<in> set evs" if b: "bindD m f evs = (Inl e, evs')" and n: "NamespaceRestored \<in> set evs'" for evs e evs'
  proof (cases "m evs")
    case (Pair r evs1)
    have "NamespaceRestored \<in> set evs1"
      using b n Pair f unfolding says_when_done_def by (cases r) (auto simp: bindD_def)
    then show ?thesis using m Pair unfolding quiet_def by (metis snd_conv)
  qed
  then show ?thesis by (auto simp: says_when_done_def)
qed

lemma says_last: "says_when_done (bindD (whenD b (tell fail NamespaceRestored)) (\<lambda>_. returnD y))"
  by (auto simp: says_when_done_def bindD_def whenD_def returnD_def tell_def split: option.splits)

lemma says_case: "(\<And>a b. says_when_done (g a b)) \<Longrightarrow> says_when_done (case x of (a, b) \<Rightarrow> g a b)"
  by (cases x) simp

lemma says_apply: "says_when_done (apply_namespace deps apply sv inSnapshot ns objects su)"
  unfolding apply_namespace_def Let_def by (intro says_bindD says_last says_case) simp_all

lemma says_run: "says_when_done (restore_run deps snapshot apply force previous)"
  unfolding restore_run_def by (intro says_bindD says_case says_apply) simp_all

definition silent :: "'a db \<Rightarrow> bool" where
  "silent m \<longleftrightarrow> (\<forall>evs. snd (m evs) = evs)"

lemma silent_bindD: "silent m \<Longrightarrow> (\<And>x. silent (f x)) \<Longrightarrow> silent (bindD m f)"
  by (auto simp: silent_def bindD_def split: prod.splits sum.splits) (metis snd_conv)+

lemma silent_case: "(\<And>a b. silent (g a b)) \<Longrightarrow> silent (case x of (a, b) \<Rightarrow> g a b)"
  by (cases x) simp

lemma silent_simple [simp]: "silent (returnD x)" "silent (liftD r)" "silent (whenD False m)"
  by (simp_all add: silent_def returnD_def liftD_def whenD_def)

lemma silent_verifyEach [simp]: "silent (verifyEach fail False verdict xs st)"
  by (induction xs arbitrary: st) (auto intro: silent_bindD split: outcome.splits)

lemma silent_run: "silent (restore_run deps snapshot False force previous)"
  unfolding restore_run_def apply_namespace_def Let_def
  by (intro silent_bindD silent_case) simp_all

text \<open>
  A restore reports what it did. A dry run tells the database nothing. A restore that fails never declares the
  namespace restored, whichever step fails. One that succeeds has told the database, in this order, that it begins, every
  folder and every object it keeps, what to prune, and only then that it is done; and its summary puts every
  name of the rebuilt namespace under exactly one heading.
\<close>

theorem restore_reports_truth:
  "case restore_run deps snapshot apply force previous [] of
     (Inl e, evs) \<Rightarrow> NamespaceRestored \<notin> set evs \<and> (apply \<or> evs = [])
   | (Inr su, evs) \<Rightarrow>
       su_objectsInNamespace su = su_objectsRestored su + su_objectsMissing su + su_objectsUnrecoverable su + su_objectsIndeterminate su + su_putsDropped su \<and>
       (if apply then \<exists>folders rows kept. evs = BeginRestore # map (\<lambda>(c, b). WriteContainer c b) folders @ map WriteObject rows @
            [PruneOutside kept, EndRestore, NamespaceRestored]
        else evs = [])"
proof -
  obtain r evs where run: "restore_run deps snapshot apply force previous [] = (r, evs)" by fastforce
  show ?thesis
  proof (cases r)
    case (Inl e)
    have "apply \<or> evs = []" using silent_run [of deps snapshot force previous] run unfolding silent_def by (cases "apply") (auto dest: spec [of _ "[]"])
    moreover have "NamespaceRestored \<notin> set evs" using says_run run Inl unfolding says_when_done_def by fastforce
    ultimately show ?thesis using run Inl by simp
  next
    case (Inr su)
    from restore_run_Inr [OF run [unfolded Inr]] obtain used err ns inSnapshot sv objects n where
      a: "apply_namespace deps apply sv inSnapshot ns objects (first_summary ns (length objects) n used err) (if apply then [BeginRestore] else []) = (Inr su, evs)"
      by metis
    let ?b = "\<lambda>c. case bucketOf (ns_containers ns) (ct_cid c) of Some b \<Rightarrow> b | None \<Rightarrow> ct_id c"
    let ?rows = "orderParentsFirst (map snd (ns_containers ns))"
    have m: "map (\<lambda>c. WriteContainer c (?b c)) ?rows = map (\<lambda>(c, b). WriteContainer c b) (map (\<lambda>c. (c, ?b c)) ?rows)" by simp
    note d = apply_namespace_Inr [OF a]
    have "accounted su = su_objectsInNamespace su" using d by (auto simp: accounted_def first_summary_def)
    moreover have "if apply then \<exists>folders rows kept. evs = BeginRestore # map (\<lambda>(c, b). WriteContainer c b) folders @ map WriteObject rows @
            [PruneOutside kept, EndRestore, NamespaceRestored] else evs = []"
      using d unfolding m by (cases "apply") (auto intro!: exI [of _ "map (\<lambda>c. (c, ?b c)) ?rows"])
    ultimately show ?thesis using run Inr by (simp add: accounted_def)
  qed
qed

text \<open>
  C7. A restore keeps exactly the names the platters can vouch for. When it has been applied, an object of the rebuilt
  namespace, or one whose deletion was journaled but whose slices are still there, is written under its
  name and kept whenever its slices can be read or their disks do not answer; nothing is written for an
  object that was deleted and has no slices, nor for one whose slices do not back it.
\<close>

theorem restore_keeps_readable_names:
  assumes run: "restore_run deps snapshot True force previous [] = (Inr su, evs)"
  shows "\<exists>ns inSnapshot sv. (\<exists>stored. rebuild_namespace deps force stored = Inr (ns, inSnapshot)) \<and> survey_platters deps = Inr sv \<and>
    (\<forall>oid named s. final_name ns (sv_index sv) oid = Some named \<longrightarrow> rebuild_object sv oid = Some s \<longrightarrow> readable s \<longrightarrow>
      (\<exists>rc. sy_record s = Some rc \<and> WriteObject (named_row (ns_containers ns) named rc) \<in> set evs) \<and>
      (\<forall>kept. PruneOutside kept \<in> set evs \<longrightarrow> oid \<in> kept)) \<and>
    (\<forall>row. WriteObject row \<in> set evs \<longrightarrow> (\<exists>s named. final_name ns (sv_index sv) (or_id row) = Some named \<and>
      rebuild_object sv (or_id row) = Some s \<and> readable s \<and> or_name row = pt_name named))"
proof -
  from restore_run_Inr [OF run] obtain stored used err ns inSnapshot sv objects n where
    r: "rebuild_namespace deps force stored = Inr (ns, inSnapshot)" and s: "survey_platters deps = Inr sv" and
    o: "reconcileDeletes (sv_index sv) (ns_deleted ns) (ns_objects ns) = (objects, n)" and
    a: "apply_namespace deps True sv inSnapshot ns objects (first_summary ns (length objects) n used err) [BeginRestore] = (Inr su, evs)"
    by (metis (full_types))
  have ok: "namespace_ok ns" by (rule rebuild_namespace_ok [OF r])
  have names: "map_of objects oid = final_name ns (sv_index sv) oid" for oid
    using reconciled_names [OF ok, of "sv_index sv" oid] o by simp
  have dist: "distinct (map fst objects)"
    using distinct_reconciled [of "ns_objects ns" "sv_index sv" "ns_deleted ns"] ok o by (simp add: namespace_ok_def)
  have mem: "(oid, named) \<in> set objects \<longleftrightarrow> final_name ns (sv_index sv) oid = Some named" for oid named
    using map_of_eq_Some_iff [OF dist] names by simp
  let ?verdict = "verify_object sv inSnapshot (ns_containers ns)"
  let ?kept = "ct_id ` snd ` set (ns_containers ns) \<union> fst ` {x \<in> set objects. is_named (?verdict x)}"
  have evs: "evs = BeginRestore # map (\<lambda>c. WriteContainer c (case bucketOf (ns_containers ns) (ct_cid c) of Some b \<Rightarrow> b | None \<Rightarrow> ct_id c))
        (orderParentsFirst (map snd (ns_containers ns))) @ map WriteObject (rows_named ?verdict objects) @ [PruneOutside ?kept, EndRestore, NamespaceRestored]"
    using apply_namespace_Inr [OF a] by auto
  have w: "WriteObject row \<in> set evs \<longleftrightarrow> row \<in> set (rows_named ?verdict objects)" for row unfolding evs by auto
  have k: "PruneOutside kept \<in> set evs \<longleftrightarrow> kept = ?kept" for kept unfolding evs by auto
  show ?thesis
  proof (rule exI [of _ ns], rule exI [of _ inSnapshot], rule exI [of _ sv], intro conjI allI impI)
    show "\<exists>stored. rebuild_namespace deps force stored = Inr (ns, inSnapshot)" using r by blast
    show "survey_platters deps = Inr sv" by (rule s)
  next
    fix oid named sy
    assume n: "final_name ns (sv_index sv) oid = Some named" and y: "rebuild_object sv oid = Some sy" "readable sy"
    obtain rc where rc: "sy_record sy = Some rc" using rebuilt_has_record [OF y(1)] by blast
    have v: "?verdict (oid, named) = Named (named_row (ns_containers ns) named rc) (sy_reason sy = Indeterminate)"
      using y rc by (simp add: verify_object_named)
    show "\<exists>rc. sy_record sy = Some rc \<and> WriteObject (named_row (ns_containers ns) named rc) \<in> set evs"
      using rc v n unfolding w rows_named_mem mem [symmetric] by blast
  next
    fix oid named sy kept
    assume n: "final_name ns (sv_index sv) oid = Some named" and y: "rebuild_object sv oid = Some sy" "readable sy"
      and p: "PruneOutside kept \<in> set evs"
    have "is_named (?verdict (oid, named))"
      using y rebuilt_has_record [OF y(1)] by (auto simp: is_named_def verify_object_def readable_def)
    then show "oid \<in> kept" using p n unfolding k mem [symmetric] by force
  next
    fix row assume "WriteObject row \<in> set evs"
    then obtain oid named b where x: "(oid, named) \<in> set objects" "?verdict (oid, named) = Named row b"
      unfolding w rows_named_mem by auto
    then obtain sy rc where y: "rebuild_object sv oid = Some sy" "readable sy" "sy_record sy = Some rc" "row = named_row (ns_containers ns) named rc"
      by (auto simp: verify_object_named)
    have "or_id row = oid" "or_name row = pt_name named" using rebuilt_has_record [OF y(1)] y(3,4) by (auto simp: named_row_def)
    then show "\<exists>s named. final_name ns (sv_index sv) (or_id row) = Some named \<and> rebuild_object sv (or_id row) = Some s \<and> readable s \<and> or_name row = pt_name named"
      using y x(1) mem by auto
  qed
qed

section \<open>A small restore\<close>

definition two_folders :: "container_row list" where
  "two_folders = [\<lparr>ct_id = ''c'', ct_cid = Some ''b'', ct_name = ''inner'', ct_pr = None, ct_pw = None, ct_dp = None\<rparr>,
     \<lparr>ct_id = ''b'', ct_cid = None, ct_name = ''bucket'', ct_pr = None, ct_pw = None, ct_dp = None\<rparr>]"

theorem folders_ordered_witness: "map ct_id two_folders = [''c'', ''b''] \<and> mset (orderParentsFirst two_folders) = mset two_folders"
  using folders_ordered [of two_folders] by (simp add: two_folders_def)

definition small_put :: json where
  "small_put = JObject [(''op'', JString ''put''), (''id'', JString small_id), (''cid'', JNull), (''name'', JString ''file''), (''size'', JNumber 100), (''cs'', JNumber 256)]"

definition small_end :: json where
  "small_end = JObject [(''op'', JString ''end''), (''containers'', JNumber 0), (''objects'', JNumber 1), (''sha256'', JString ''ok'')]"

definition small_deps :: restore_deps where
  "small_deps = \<lparr>rd_fleetRestoreIncomplete = Inr False, rd_journalLocationUncertain = False, rd_platters = (\<lambda>_. Inr small_platters),
     rd_restoreInFlight = Inr False, rd_namespaceRestorePending = Inr True, rd_objectsInDatabase = Inr 0, rd_fetchSnapshot = (\<lambda>_. Inr []),
     rd_unpack = (\<lambda>_. Inr [''put'', ''end'']), rd_parse = (\<lambda>l. if l = ''put'' then Some small_put else if l = ''end'' then Some small_end else None),
     rd_sha256 = (\<lambda>_. ''ok''), rd_journalSegments = (\<lambda>_. Inr []), rd_readText = (\<lambda>_. Inl enoent), rd_fs = small_fs False, rd_merge = concat,
     rd_fleetGeometry = (1, 1), rd_pruned = (\<lambda>_. 0), rd_fail = (\<lambda>_. None)\<rparr>"

lemma small_lines [simp]:
  "small_put \<noteq> JNull" "small_end \<noteq> JNull" "json_get small_put ''op'' = Some (JString ''put'')" "json_get small_end ''op'' = Some (JString ''end'')"
  "json_get small_end ''containers'' = Some (JNumber 0)" "json_get small_end ''objects'' = Some (JNumber 1)" "json_get small_end ''sha256'' = Some (JString ''ok'')"
  "isCoherent small_put = Inr True"
  "restore_record_of small_put = Some (RPut \<lparr>pt_id = small_id, pt_cid = None, pt_name = ''file'', pt_mime = JNull, pt_md5 = JNull, pt_size = 100, pt_cs = 256\<rparr>)"
  by (simp_all add: small_put_def small_end_def isCoherent_def non_empty_string_def null_or_string_def finite_number_def absent_or_boolean_def
      restore_record_of_def as_string_def as_parent_def as_number_def or_null_def small_id_def)

lemma tellD [simp]: "tell (\<lambda>_. None) ev evs = (Inr (), evs @ [ev])"
  by (simp add: tell_def)

lemma small_run: "\<exists>su evs. restore_run small_deps (Some ''snap'') True False None [] = (Inr su, evs)"
proof -
  have w: "\<exists>evs'. writeContainers (\<lambda>_. None) cts rows evs = (Inr (), evs')" for cts rows evs
    by (induction rows arbitrary: evs) (simp_all add: returnD_def bindD_def)
  have v: "\<exists>st' evs'. verifyEach (\<lambda>_. None) True verdict xs st evs = (Inr st', evs')" for verdict xs st evs
  proof (induction xs arbitrary: st evs)
    case (Cons x xs)
    then show ?case by (cases "verdict x") (auto simp: bindD_def whenD_def simp del: split_paired_Ex)
  qed (simp add: returnD_def)
  have a: "\<exists>su' evs'. apply_namespace small_deps True sv inS ns objs su evs = (Inr su', evs')" for sv inS ns objs su evs
  proof -
    obtain e1 where e1: "writeContainers (\<lambda>_. None) (ns_containers ns) (orderParentsFirst (map snd (ns_containers ns))) evs = (Inr (), e1)"
      using w by blast
    obtain st e2 where "verifyEach (\<lambda>_. None) True (verify_object sv inS (ns_containers ns)) objs (su, ct_id ` set (map snd (ns_containers ns))) e1 = (Inr st, e2)"
      using v by blast
    then show ?thesis using e1 by (simp add: apply_namespace_def bindD_def whenD_def small_deps_def returnD_def Let_def split: prod.split)
  qed
  have g: "restore_guards small_deps (Some ''snap'') True False = Inr ''snap''"
    by (simp add: restore_guards_def small_deps_def refuse_if_def)
  have r: "\<exists>ns inS. rebuild_namespace small_deps False [] = Inr (ns, inS)"
  proof -
    define ns where "ns = empty_namespace\<lparr>ns_objects := [(small_id, \<lparr>pt_id = small_id, pt_cid = None, pt_name = ''file'', pt_mime = JNull,
        pt_md5 = JNull, pt_size = 100, pt_cs = 256\<rparr>)]\<rparr>"
    have 1: "snapshot_line (rd_parse small_deps) ''put'' st = Inr (st\<lparr>sr_hashed := sr_hashed st @ utf8 ''put'' @ [10], sr_namespace := ns\<rparr>)"
      if "sr_namespace st = empty_namespace" for st
      using that by (simp add: snapshot_line_def small_deps_def snapshot_record_def ns_def empty_namespace_def)
    have 2: "snapshot_line (rd_parse small_deps) ''end'' st = Inr (st\<lparr>sr_trailer := Some small_end\<rparr>)" for st
      by (simp add: snapshot_line_def small_deps_def)
    have d: "rd_sha256 small_deps = (\<lambda>_. ''ok'')" "rd_unpack small_deps = (\<lambda>_. Inr [''put'', ''end''])" "rd_journalSegments small_deps = (\<lambda>_. Inr [])"
      by (simp_all add: small_deps_def)
    have n: "ns_containers ns = []" "length (ns_objects ns) = 1" by (simp_all add: ns_def empty_namespace_def)
    have "readSnapshot (rd_parse small_deps) (rd_sha256 small_deps) [''put'', ''end''] = Inr ns"
      by (simp add: readSnapshot_def 1 2 n d)
    then show ?thesis by (simp add: rebuild_namespace_def d)
  qed
  have b: "\<exists>ix. buildSliceIndex (small_fs False) concat small_platters = Inr ix"
  proof (cases "buildSliceIndex (small_fs False) concat small_platters")
    case (Inl e)
    have "\<forall>p \<in> set small_platters. pl_volumeId p < 65535" by (simp add: small_platters_def)
    then have "\<exists>p \<in> set small_platters. sick_platter (small_fs False) p"
      using index_complete [of concat small_platters "small_fs False"] Inl by simp
    then show ?thesis using small_not_sick by blast
  qed simp
  have "rd_platters small_deps True = Inr small_platters" "rd_fs small_deps = small_fs False" "rd_merge small_deps = concat"
    by (simp_all add: small_deps_def)
  then have s: "\<exists>sv. survey_platters small_deps = Inr sv" using b by (auto simp: survey_platters_def)
  obtain ns inS sv where rs: "rebuild_namespace small_deps False [] = Inr (ns, inS)" "survey_platters small_deps = Inr sv" using r s by blast
  obtain objs n where o: "reconcileDeletes (sv_index sv) (ns_deleted ns) (ns_objects ns) = (objs, n)" by fastforce
  have f: "fetch_with_fallback small_deps ''snap'' None = Inr ([], ''snap'', None)" "rd_fail small_deps = (\<lambda>_. None)"
    by (simp_all add: fetch_with_fallback_def small_deps_def)
  have "restore_run small_deps (Some ''snap'') True False None [] =
      apply_namespace small_deps True sv inS ns objs (first_summary ns (length objs) n ''snap'' None) [BeginRestore]"
    unfolding restore_run_def bindD_def liftD_def whenD_def by (simp add: g f rs o)
  then show ?thesis using a by simp
qed

theorem restore_keeps_readable_names_witness:
  "\<exists>su evs sv. restore_run small_deps (Some ''snap'') True False None [] = (Inr su, evs) \<and> survey_platters small_deps = Inr sv \<and>
     (\<forall>row. WriteObject row \<in> set evs \<longrightarrow> rebuild_object sv (or_id row) \<noteq> None)"
proof -
  obtain su evs where r: "restore_run small_deps (Some ''snap'') True False None [] = (Inr su, evs)" using small_run by blast
  from restore_keeps_readable_names [OF r] r show ?thesis by fastforce
qed

end
