(* ===== verification/Restore_Segments.thy ===== *)
theory Restore_Segments
  imports Restore
begin

text \<open>
  Which copies of the journal segments a restore replays: no gap in the numbers unless forced, and of every segment a
  copy that extends every other copy of it on the volumes the manifest names.
\<close>

section \<open>Gaps\<close>

lemma segment_name_number: "is_segment_name f \<Longrightarrow> parseInt f = Some (int (segment_number f))"
proof -
  assume f: "is_segment_name f"
  then obtain c cs where c: "f = c # cs" "is_digit c" by (cases f) (auto simp: is_segment_name_def split: if_splits)
  then have "\<not> is_space c" "c \<noteq> CHR ''-''" "c \<noteq> CHR ''+''" by (auto simp: digit_not_space is_digit_def)
  then show ?thesis using c by (simp add: parseInt_def Let_def segment_number_def digits_value_def)
qed

lemma gapsBetween_empty:
  "sorted (a # xs) \<Longrightarrow> gapsBetween (a # xs) = [] \<longleftrightarrow> {a..last (a # xs)} \<subseteq> set (a # xs)"
proof (induction xs arbitrary: a)
  case (Cons b ys)
  have s: "a \<le> b" "sorted (b # ys)" "\<forall>y \<in> set (b # ys). b \<le> y" using Cons.prems by auto
  define L where "L = last (b # ys)"
  have l: "L \<in> set (b # ys)" unfolding L_def by (rule last_in_set) simp
  have "[a + 1..b - 1] = [] \<and> {b..L} \<subseteq> set (b # ys) \<longleftrightarrow> {a..L} \<subseteq> insert a (set (b # ys))"
  proof
    assume h: "[a + 1..b - 1] = [] \<and> {b..L} \<subseteq> set (b # ys)"
    then have "b \<le> a + 1" by (simp add: upto.simps split: if_splits)
    then have "{a..L} \<subseteq> insert a {b..L}" by auto
    then show "{a..L} \<subseteq> insert a (set (b # ys))" using h by blast
  next
    assume h: "{a..L} \<subseteq> insert a (set (b # ys))"
    have "b \<le> a + 1"
    proof (rule ccontr)
      assume n: "\<not> b \<le> a + 1"
      then have "a + 1 \<in> {a..L}" using s(3) l by fastforce
      with h have "a + 1 \<in> insert a (set (b # ys))" by (rule subsetD)
      then have "a + 1 \<in> set (b # ys)" by simp
      then show False using s(3) n by auto
    qed
    moreover have "{b..L} \<subseteq> set (b # ys)"
    proof
      fix x assume x: "x \<in> {b..L}"
      then have "x \<in> {a..L}" using s(1) by simp
      with h have "x \<in> insert a (set (b # ys))" by (rule subsetD)
      then show "x \<in> set (b # ys)" using x s(1) by (cases "x = a") auto
    qed
    ultimately show "[a + 1..b - 1] = [] \<and> {b..L} \<subseteq> set (b # ys)" by simp
  qed
  then show ?case using Cons.IH [OF s(2)] by (simp add: L_def)
qed simp

lemma sorted_le_last: "sorted xs \<Longrightarrow> x \<in> set xs \<Longrightarrow> x \<le> last xs"
  by (induction xs) auto

lemma missing_none:
  assumes "sorted (map int ns)" "ns \<noteq> []"
  shows "missingSegments (map int ns) = [] \<longleftrightarrow> (\<exists>k. set ns = {0..<k})"
proof -
  obtain a xs where ax: "map int ns = a # xs" using assms(2) by (cases ns) auto
  have ge: "0 \<le> a" using ax by (cases ns) auto
  have "missingSegments (map int ns) = [] \<longleftrightarrow> a = 0 \<and> {a..last (a # xs)} \<subseteq> int ` set ns"
  proof -
    have "missingSegments (a # xs) = [] \<longleftrightarrow> a = 0 \<and> gapsBetween (a # xs) = []" using ge by (auto simp: missingSegments_def)
    moreover have "set (a # xs) = int ` set ns" by (metis ax list.set_map)
    ultimately show ?thesis using gapsBetween_empty [of a xs] assms(1) unfolding ax by simp
  qed
  also have "\<dots> \<longleftrightarrow> (\<exists>k. set ns = {0..<k})"
  proof
    assume h: "a = 0 \<and> {a..last (a # xs)} \<subseteq> int ` set ns"
    define m where "m = last ns"
    have last: "last (a # xs) = int m" using ax assms(2) by (metis last_map m_def)
    have "x \<le> m" if "x \<in> set ns" for x
    proof -
      have "int x \<in> set (a # xs)" using that ax by (metis imageI list.set_map)
      then have "int x \<le> last (a # xs)" using sorted_le_last assms(1) unfolding ax by blast
      then show ?thesis using last by simp
    qed
    moreover have "x \<in> set ns" if "x \<le> m" for x
    proof -
      have "int x \<in> {a..last (a # xs)}" using that h last by simp
      then have "int x \<in> int ` set ns" using h by (metis subsetD)
      then show ?thesis by auto
    qed
    ultimately have "set ns = {0..<Suc m}" by (auto simp: less_Suc_eq_le)
    then show "\<exists>k. set ns = {0..<k}" by blast
  next
    assume "\<exists>k. set ns = {0..<k}"
    then obtain k where k: "set ns = {0..<k}" by blast
    have s: "set (a # xs) = int ` {0..<k}" using ax k by (metis list.set_map)
    have "set ns \<noteq> {}" using assms(2) by simp
    then have "k \<noteq> 0" unfolding k by auto
    then have "0 \<in> set (a # xs)" unfolding s by force
    then have "a = 0" using assms(1) ge unfolding ax by auto
    moreover have "{a..last (a # xs)} \<subseteq> int ` set ns"
    proof
      fix x assume x: "x \<in> {a..last (a # xs)}"
      have "last (a # xs) \<in> int ` {0..<k}" using s last_in_set [of "a # xs"] by auto
      then have "0 \<le> x" "x < int k" using x \<open>a = 0\<close> by auto
      then show "x \<in> int ` set ns" unfolding k by (metis atLeastLessThan_iff imageI nat_0_le nonneg_int_cases of_nat_less_iff zero_le)
    qed
    ultimately show "a = 0 \<and> {a..last (a # xs)} \<subseteq> int ` set ns" by simp
  qed
  finally show ?thesis .
qed

text \<open>
  The gap check accepts exactly the complete journals: the numbers of the segments are \<open>0\<close> up to some \<open>n\<close> with none
  missing, at the front or in between, whatever the order and padding of the names; only a forced restore gets past it otherwise.
\<close>

lemma gap_accepts:
  assumes "list_all is_segment_name names"
  shows "assertNoJournalGaps names force = None \<longleftrightarrow> force \<or> (\<exists>n. segment_number ` set names = {0..<n})"
proof (cases "names = []")
  case True
  then show ?thesis by (auto simp: assertNoJournalGaps_def intro!: exI [of _ 0])
next
  case False
  have p: "map parseInt names = map (\<lambda>f. Some (int (segment_number f))) names"
    using assms by (auto simp: list_all_iff segment_name_number)
  have t: "map (\<lambda>n. the (parseInt n)) names = map (\<lambda>f. int (segment_number f)) names"
    using assms by (auto simp: list_all_iff segment_name_number)
  have "sort (map (\<lambda>f. int (segment_number f)) names) = map int (sort (map segment_number names))"
    by (rule properties_for_sort) (simp_all add: sorted_map image_mset.compositionality o_def)
  moreover have "sort (map segment_number names) \<noteq> []" using False by (metis length_0_conv length_map length_sort)
  ultimately have "missingSegments (sort (map (\<lambda>f. int (segment_number f)) names)) = [] \<longleftrightarrow> (\<exists>n. segment_number ` set names = {0..<n})"
    using missing_none [of "sort (map segment_number names)"] by (simp add: sorted_map)
  then show ?thesis using False by (auto simp: assertNoJournalGaps_def p t)
qed

section \<open>The best copies\<close>

text \<open>The copy at \<open>q\<close> is the one at \<open>p\<close> or holds everything it holds, byte for byte, and perhaps more behind it.\<close>

definition extends :: "journal_disks \<Rightarrow> string \<Rightarrow> string \<Rightarrow> bool" where
  "extends fs p q \<longleftrightarrow> p = q \<or> (\<exists>a b. jd_read fs p = Inr a \<and> jd_read fs q = Inr b \<and> prefix a b)"

lemma extends_refl [simp]: "extends fs p p"
  by (simp add: extends_def)

lemma extends_trans: "extends fs p q \<Longrightarrow> extends fs q r \<Longrightarrow> extends fs p r"
  unfolding extends_def by (metis Inr_inject prefix_order.trans)

text \<open>\<open>best\<close> has one copy of each segment met so far, and it extends every copy of it that was met.\<close>

definition covers :: "journal_disks \<Rightarrow> best_copies \<Rightarrow> (string \<times> string) set \<Rightarrow> bool" where
  "covers fs best met \<longleftrightarrow> distinct (map fst best) \<and> (\<forall>(f, p) \<in> met. \<exists>q n. map_of best f = Some (q, n) \<and> extends fs p q) \<and>
     (\<forall>f q n. map_of best f = Some (q, n) \<longrightarrow> (f, q) \<in> met)"

lemma covers_update:
  assumes "covers fs best met" "\<And>q n. map_of best f = Some (q, n) \<Longrightarrow> extends fs q path"
  shows "covers fs (AList.update f (path, sz) best) (insert (f, path) met)"
  unfolding covers_def
proof (intro conjI)
  show "distinct (map fst (AList.update f (path, sz) best))" using assms(1) by (simp add: covers_def distinct_update)
  show "\<forall>(g, p) \<in> insert (f, path) met. \<exists>q n. map_of (AList.update f (path, sz) best) g = Some (q, n) \<and> extends fs p q"
  proof (clarify)
    fix g p assume gp: "(g, p) \<in> insert (f, path) met"
    show "\<exists>q n. map_of (AList.update f (path, sz) best) g = Some (q, n) \<and> extends fs p q"
    proof (cases "g = f \<and> p = path")
      case False
      then have "(g, p) \<in> met" using gp by auto
      then obtain q n where q: "map_of best g = Some (q, n)" "extends fs p q" using assms(1) unfolding covers_def by blast
      show ?thesis
      proof (cases "g = f")
        case True
        then show ?thesis using assms(2) q extends_trans by (auto simp: update_conv)
      next
        case False
        then show ?thesis using q by (simp add: update_conv)
      qed
    qed (simp add: update_conv)
  qed
  show "\<forall>g q n. map_of (AList.update f (path, sz) best) g = Some (q, n) \<longrightarrow> (g, q) \<in> insert (f, path) met"
    using assms(1) unfolding covers_def by (auto simp: update_conv simp del: map_of_eq_Some_iff)
qed

lemma covers_consider:
  assumes "covers fs best met" "consider_copy fs f path sz best = Inr best'"
  shows "covers fs best' (insert (f, path) met)"
proof (cases "map_of best f")
  case None
  then have "best' = AList.update f (path, sz) best" using assms(2) by (simp add: consider_copy_def)
  then show ?thesis using covers_update [OF assms(1), of f path sz] None by simp
next
  case (Some c)
  obtain cur n where c: "c = (cur, n)" by fastforce
  show ?thesis
  proof (cases "sz > n")
    case True
    then obtain short long where r: "jd_read fs cur = Inr short" "jd_read fs path = Inr long" "take (length short) long = short" and
        best': "best' = AList.update f (path, sz) best"
      using assms(2) Some c by (auto simp: consider_copy_def bind_err_eq_Inr split: if_splits)
    have "extends fs cur path" using r unfolding extends_def by (metis append_take_drop_id prefixI)
    then show ?thesis unfolding best' using covers_update [OF assms(1), of f path sz] Some c by simp
  next
    case False
    then obtain short long where r: "jd_read fs path = Inr short" "jd_read fs cur = Inr long" "take (length short) long = short" and
        best': "best' = best"
      using assms(2) Some c by (auto simp: consider_copy_def bind_err_eq_Inr split: if_splits)
    have "extends fs path cur" using r unfolding extends_def by (metis append_take_drop_id prefixI)
    then show ?thesis using assms(1) Some c unfolding covers_def best' by auto
  qed
qed

lemma covers_files:
  "covers fs best met \<Longrightarrow> segmentFiles fs dir files best = Inr best' \<Longrightarrow>
     covers fs best' (met \<union> {(f, dir @ ''/'' @ f) | f. f \<in> set files \<and> is_segment_name f})"
proof (induction files arbitrary: best met)
  case (Cons f files)
  show ?case
  proof (cases "is_segment_name f")
    case True
    then obtain sz best1 where "consider_copy fs f (dir @ ''/'' @ f) sz best = Inr best1" and r: "segmentFiles fs dir files best1 = Inr best'"
      using Cons.prems(2) by (auto simp: bind_err_eq_Inr split: sum.splits)
    from covers_consider [OF Cons.prems(1) this(1)] have "covers fs best1 (insert (f, dir @ ''/'' @ f) met)" .
    from Cons.IH [OF this r] show ?thesis
    proof (rule back_subst [of "covers fs best'"])
      show "insert (f, dir @ ''/'' @ f) met \<union> {(f, dir @ ''/'' @ f) | f. f \<in> set files \<and> is_segment_name f} =
        met \<union> {(g, dir @ ''/'' @ g) | g. g \<in> set (f # files) \<and> is_segment_name g}" using True by auto
    qed
  next
    case False
    then have r: "segmentFiles fs dir files best = Inr best'" using Cons.prems(2) by (auto split: if_splits)
    have "{(g, dir @ ''/'' @ g) | g. g \<in> set (f # files) \<and> is_segment_name g} = {(g, dir @ ''/'' @ g) | g. g \<in> set files \<and> is_segment_name g}"
      using False by auto
    then show ?thesis using Cons.IH [OF Cons.prems(1) r] by simp
  qed
qed simp

text \<open>The copies of segments on the mounted volumes the manifest names.\<close>

definition replica_copies :: "journal_disks \<Rightarrow> nat set \<Rightarrow> fleet_volume list \<Rightarrow> (string \<times> string) set" where
  "replica_copies fs journalVolumes vs = {(f, journal_dir m @ ''/'' @ f) | f m v files. v \<in> set vs \<and> mounted_at v = Some m \<and>
     fv_id v \<in> journalVolumes \<and> jd_readdir fs (journal_dir m) = Inr files \<and> f \<in> set files \<and> is_segment_name f}"

lemma replica_copies_Cons:
  "replica_copies fs jv (v # vs) = replica_copies fs jv [v] \<union> replica_copies fs jv vs"
  by (auto simp: replica_copies_def)

lemma covers_replicas:
  "covers fs (snd st) met \<Longrightarrow> replicaLoop fs jv vs st = Inr st' \<Longrightarrow> covers fs (snd st') (met \<union> replica_copies fs jv vs)"
proof (induction vs arbitrary: st met)
  case Nil
  then show ?case by (simp add: replica_copies_def)
next
  case (Cons v vs)
  show ?case
  proof (cases "\<exists>m files. mounted_at v = Some m \<and> fv_id v \<in> jv \<and> jd_readdir fs (journal_dir m) = Inr files")
    case True
    then obtain m files where m: "mounted_at v = Some m" "fv_id v \<in> jv" "jd_readdir fs (journal_dir m) = Inr files" by blast
    then obtain best where b: "segmentFiles fs (journal_dir m) files (snd st) = Inr best" and
        r: "replicaLoop fs jv vs (Suc (fst st), best) = Inr st'"
      using Cons.prems(2) by (auto simp: bind_err_eq_Inr)
    have e: "replica_copies fs jv [v] = {(f, journal_dir m @ ''/'' @ f) | f. f \<in> set files \<and> is_segment_name f}"
      using m by (auto simp: replica_copies_def)
    have "covers fs (snd (Suc (fst st), best)) (met \<union> replica_copies fs jv [v])" using covers_files [OF Cons.prems(1) b] by (simp add: e)
    from Cons.IH [OF this r] show ?thesis unfolding replica_copies_Cons [of fs jv v vs] Un_assoc .
  next
    case False
    then have r: "replicaLoop fs jv vs st = Inr st'" using Cons.prems(2) by (auto split: option.splits if_splits sum.splits)
    have "replica_copies fs jv [v] = {}" using False by (auto simp: replica_copies_def)
    then show ?thesis using Cons.IH [OF Cons.prems(1) r] by (simp add: replica_copies_Cons [of fs jv v vs])
  qed
qed

text \<open>
  C14. The journal a restore replays is never a stale or divergent one. When the segments are returned, each is one of the
  copies on the mounted volumes the manifest names, and every other copy of it on those volumes is a byte-for-byte prefix of it; no
  segment found there is left out, each comes once, in the order of the names, and without a gap unless
  the restore is forced.
\<close>

theorem replayed_segments_complete:
  assumes run: "journalSegments fs journalVolumes volumes force = Inr segs" and named: "journalVolumes \<noteq> []"
  shows "sorted (map fst segs) \<and> distinct (map fst segs) \<and> set segs \<subseteq> replica_copies fs (set journalVolumes) volumes \<and>
    (\<forall>(f, p) \<in> replica_copies fs (set journalVolumes) volumes. \<exists>q. (f, q) \<in> set segs \<and> extends fs p q) \<and>
    (force \<or> (\<exists>n. segment_number ` fst ` set segs = {0..<n}))"
proof -
  from run named obtain n best where l: "replicaLoop fs (set journalVolumes) volumes (0, []) = Inr (n, best)" and
      g: "assertNoJournalGaps (map fst (sort_key fst best)) force = None" and
      segs: "segs = map (\<lambda>(f, path, _). (f, path)) (sort_key fst best)"
    by (auto simp: journalSegments_def bind_err_eq_Inr Let_def split: if_splits option.splits prod.splits)
  have "covers fs (snd (0 :: nat, [])) {}" by (simp add: covers_def)
  from covers_replicas [OF this l] have c: "covers fs best (replica_copies fs (set journalVolumes) volumes)" by simp
  have mem: "(f, q) \<in> set segs \<longleftrightarrow> (\<exists>k. map_of best f = Some (q, k))" for f q
    using c unfolding covers_def segs by (force simp: image_iff)
  have f: "map fst segs = map fst (sort_key fst best)" unfolding segs by (simp add: case_prod_beta o_def)
  have "mset (map fst (sort_key fst best)) = mset (map fst best)" by simp
  then have "distinct (map fst segs)" using c unfolding f covers_def by (metis mset_eq_imp_distinct_iff)
  moreover have "sorted (map fst segs)" unfolding f by (rule sorted_sort_key)
  moreover have sub: "set segs \<subseteq> replica_copies fs (set journalVolumes) volumes"
    using c mem unfolding covers_def by auto
  moreover have "\<forall>(f, p) \<in> replica_copies fs (set journalVolumes) volumes. \<exists>q. (f, q) \<in> set segs \<and> extends fs p q"
    using c mem unfolding covers_def by fastforce
  moreover have "force \<or> (\<exists>n. segment_number ` fst ` set segs = {0..<n})"
  proof -
    have "list_all is_segment_name (map fst segs)" using sub by (auto simp: list_all_iff replica_copies_def)
    from gap_accepts [OF this, of force] g f have "force \<or> (\<exists>n. segment_number ` set (map fst segs) = {0..<n})" by metis
    then show ?thesis by (simp add: image_image)
  qed
  ultimately show ?thesis by blast
qed

text \<open>Two replicas of the first segment; the second one is short.\<close>

definition two_replicas :: journal_disks where
  "two_replicas = \<lparr>jd_readdir = (\<lambda>d. Inr [segment_file 0]), jd_stat = (\<lambda>p. Inr (if hd (tl p) = CHR ''a'' then 2 else 1)),
     jd_read = (\<lambda>p. Inr (if hd (tl p) = CHR ''a'' then [1, 2] else [1]))\<rparr>"

definition journal_fleet :: "fleet_volume list" where
  "journal_fleet = [\<lparr>fv_id = 1, fv_mountPoint = Some ''/b'', fv_isDeleted = False, fv_isMounted = True\<rparr>,
     \<lparr>fv_id = 2, fv_mountPoint = Some ''/a'', fv_isDeleted = False, fv_isMounted = True\<rparr>]"

theorem replayed_segments_complete_witness:
  "journalSegments two_replicas [1, 2] journal_fleet False = Inr [(segment_file 0, journal_dir ''/a'' @ ''/'' @ segment_file 0)] \<and>
   extends two_replicas (journal_dir ''/b'' @ ''/'' @ segment_file 0) (journal_dir ''/a'' @ ''/'' @ segment_file 0)"
proof
  have "segment_number ` set [segment_file 0] = {0..<1}" by simp
  then have g: "assertNoJournalGaps [segment_file 0] False = None"
    by (intro gap_accepts [THEN iffD2] disjI2 exI [of _ 1]) simp_all
  show run: "journalSegments two_replicas [1, 2] journal_fleet False = Inr [(segment_file 0, journal_dir ''/a'' @ ''/'' @ segment_file 0)]"
    by (simp add: journalSegments_def journal_fleet_def two_replicas_def mounted_at_def truthy_id_def consider_copy_def journal_dir_def g)
  have "(segment_file 0, journal_dir ''/b'' @ ''/'' @ segment_file 0) \<in> replica_copies two_replicas (set [1, 2]) journal_fleet"
  proof -
    let ?v = "\<lparr>fv_id = 1, fv_mountPoint = Some ''/b'', fv_isDeleted = False, fv_isMounted = True\<rparr>"
    have "?v \<in> set journal_fleet" "mounted_at ?v = Some ''/b''" "jd_readdir two_replicas (journal_dir ''/b'') = Inr [segment_file 0]"
      by (simp_all add: journal_fleet_def mounted_at_def truthy_id_def two_replicas_def)
    moreover have "fv_id ?v \<in> set [1, 2]" "segment_file 0 \<in> set [segment_file 0]" by simp_all
    ultimately show ?thesis unfolding replica_copies_def using segment_file_name [of 0] by blast
  qed
  then show "extends two_replicas (journal_dir ''/b'' @ ''/'' @ segment_file 0) (journal_dir ''/a'' @ ''/'' @ segment_file 0)"
    using replayed_segments_complete [OF run] by auto
qed

end
