(* ===== verification/Secret_Hash.thy ===== *)
theory Secret_Hash
  imports Object_Http
begin

text \<open>
  Stored secrets (\<^verbatim>\<open>lib/server/http/secret-hash.ts\<close>) and the functions of Node that the authentication of requests
  uses. The library functions are arguments; \<open>crypto_law\<close> states what they document.
\<close>

section \<open>Node's functions\<close>

record crypto_ops =
  cy_scrypt :: "string \<Rightarrow> bytes \<Rightarrow> js_error + bytes"
  cy_sha256 :: "string \<Rightarrow> string"
  cy_hmac :: "bytes \<Rightarrow> string \<Rightarrow> string"
  cy_base64 :: "bytes \<Rightarrow> string"
  cy_unbase64 :: "string \<Rightarrow> bytes"
  cy_utf8 :: "bytes \<Rightarrow> string"
  cy_number :: "string \<Rightarrow> nat option"

text \<open>
  Base64 is decoded to what was encoded and its alphabet has no colon and no dollar sign, nor has a digest in base64;
  a derived key has the requested length; the decimal digits of a number are read as that number.
\<close>

definition crypto_law :: "crypto_ops \<Rightarrow> bool" where
  "crypto_law ops \<longleftrightarrow> (\<forall>b. cy_unbase64 ops (cy_base64 ops b) = b) \<and>
     (\<forall>b. CHR ''$'' \<notin> set (cy_base64 ops b)) \<and> (\<forall>s. CHR '':'' \<notin> set (cy_sha256 ops s)) \<and>
     (\<forall>n. cy_number ops (decimal n) = Some n) \<and>
     (\<forall>s salt k. cy_scrypt ops s salt = Inr k \<longrightarrow> length k = 32)"

section \<open>Secrets\<close>

definition SCRYPT_N :: nat where "SCRYPT_N = 16384"
definition SCRYPT_r :: nat where "SCRYPT_r = 8"
definition SCRYPT_p :: nat where "SCRYPT_p = 1"
definition SCRYPT_KEYLEN :: nat where "SCRYPT_KEYLEN = 32"
definition SALT_BYTES :: nat where "SALT_BYTES = 16"

definition scryptHash :: "crypto_ops \<Rightarrow> bytes \<Rightarrow> string \<Rightarrow> js_error + string" where
  "scryptHash ops salt secret = (case cy_scrypt ops secret salt of
     Inl e \<Rightarrow> Inl e
   | Inr key \<Rightarrow> Inr (''scrypt$'' @ decimal SCRYPT_N @ ''$'' @ decimal SCRYPT_r @ ''$'' @ decimal SCRYPT_p @ ''$'' @
       cy_base64 ops salt @ ''$'' @ cy_base64 ops key))"

definition scryptVerify :: "crypto_ops \<Rightarrow> string \<Rightarrow> string \<Rightarrow> bool" where
  "scryptVerify ops secret stored = (case split_on (CHR ''$'') stored of
     [scheme, n, r, p, saltB64, hashB64] \<Rightarrow>
       if scheme \<noteq> ''scrypt'' then False
       else let salt = cy_unbase64 ops saltB64; expected = cy_unbase64 ops hashB64 in
         if length expected \<noteq> SCRYPT_KEYLEN \<or> length salt \<noteq> SALT_BYTES \<or> cy_number ops n \<noteq> Some SCRYPT_N \<or>
            cy_number ops r \<noteq> Some SCRYPT_r \<or> cy_number ops p \<noteq> Some SCRYPT_p then False
         else (case cy_scrypt ops secret salt of Inl e \<Rightarrow> False | Inr key \<Rightarrow> length key = length expected \<and> key = expected)
   | _ \<Rightarrow> False)"

lemma decimal_no_dollar: "CHR ''$'' \<notin> set (decimal n)"
  using decimal_digits by (fastforce simp: is_digit_def)

text \<open>A hash verifies the secret it was made from, and another secret only where the derived keys agree.\<close>

lemma scrypt_hash_verifies:
  assumes "crypto_law ops" and "length salt = SALT_BYTES" and "scryptHash ops salt secret = Inr stored"
  shows "scryptVerify ops other stored \<longleftrightarrow> cy_scrypt ops other salt = cy_scrypt ops secret salt"
proof -
  obtain key where key: "cy_scrypt ops secret salt = Inr key" and
      stored: "stored = ''scrypt$'' @ decimal SCRYPT_N @ ''$'' @ decimal SCRYPT_r @ ''$'' @ decimal SCRYPT_p @ ''$'' @
        cy_base64 ops salt @ ''$'' @ cy_base64 ops key"
    using assms(3) by (auto simp: scryptHash_def split: sum.splits)
  have "split_on (CHR ''$'') stored =
      [''scrypt'', decimal SCRYPT_N, decimal SCRYPT_r, decimal SCRYPT_p, cy_base64 ops salt, cy_base64 ops key]"
    using assms(1) split_on_field[of "CHR ''$''" "''scrypt''"]
    by (simp add: stored split_on_field split_on_free decimal_no_dollar crypto_law_def)
  then show ?thesis using assms(1,2) key
    by (auto simp: scryptVerify_def crypto_law_def Let_def SCRYPT_KEYLEN_def split: sum.splits)
qed

end
