(* ===== verification/Object_Authz.thy ===== *)
theory Object_Authz
  imports Container_Store Secret_Hash
begin

text \<open>
  Who may use the object API (\<^verbatim>\<open>lib/server/http/object-authz.ts\<close>): the switch with its cache and its single read in
  flight, the counters, the cache of verified credentials with its epoch, and the decision. A request stops at every
  \<open>await\<close>; \<open>authz_step\<close> lets requests, administrators and other writers of the database interleave. A read of the
  switch and of a credential sees the database at one moment and reaches the code at a later one. Logs and the
  last-used stamp of a credential are left out.
\<close>

section \<open>Requests\<close>

definition lower_alnum :: "char \<Rightarrow> bool" where
  "lower_alnum c \<longleftrightarrow> (let n = of_char c :: nat in 48 \<le> n \<and> n \<le> 57 \<or> 97 \<le> n \<and> n \<le> 122)"

definition isValidBucketName :: "string \<Rightarrow> bool" where
  "isValidBucketName name \<longleftrightarrow> 3 \<le> length name \<and> length name \<le> 63 \<and> lower_alnum (hd name) \<and> lower_alnum (last name) \<and>
     list_all (\<lambda>c. lower_alnum c \<or> c = CHR ''-'') name"

definition id_form :: "string \<Rightarrow> bool" where
  "id_form path \<longleftrightarrow> length path = 26 \<and> take 2 path = ''/$'' \<and> list_all (\<lambda>c. is_hex_lower (lower c)) (drop 2 path)"

datatype bucket_ref = ById | ByPath string | NoBucket

definition url_path :: "string \<Rightarrow> string" where
  "url_path rawUrl = takeWhile (\<lambda>c. c \<noteq> CHR ''?'') rawUrl"

definition bucketRefFromPath :: "string \<Rightarrow> bucket_ref" where
  "bucketRefFromPath rawUrl =
    (let path = url_path rawUrl; bucket = takeWhile (\<lambda>c. c \<noteq> CHR ''/'') (dropWhile (\<lambda>c. c = CHR ''/'') path) in
     if id_form path then ById else if bucket = [] then NoBucket else ByPath bucket)"

record identity =
  ident_accessKeyId :: string
  ident_secret :: string

definition base64_char :: "char \<Rightarrow> bool" where
  "base64_char c \<longleftrightarrow> (let n = of_char c :: nat in 48 \<le> n \<and> n \<le> 57 \<or> 65 \<le> n \<and> n \<le> 90 \<or> 97 \<le> n \<and> n \<le> 122 \<or> c \<in> set ''+/='')"

definition parseBasicAuth :: "crypto_ops \<Rightarrow> string option \<Rightarrow> identity option" where
  "parseBasicAuth ops header = (case header of None \<Rightarrow> None | Some h \<Rightarrow>
     let t = trim h; rest = drop 5 t; code = dropWhile is_space rest in
     if take 5 t \<noteq> ''Basic'' \<or> code = rest \<or> code = [] \<or> \<not> list_all base64_char code then None
     else let decoded = cy_utf8 ops (cy_unbase64 ops code); user = takeWhile (\<lambda>c. c \<noteq> CHR '':'') decoded;
              secret = drop (length user + 1) decoded in
       if CHR '':'' \<notin> set decoded then None
       else if user = [] \<or> secret = [] then None
       else Some \<lparr>ident_accessKeyId = user, ident_secret = secret\<rparr>)"

definition is_write :: "string \<Rightarrow> bool" where
  "is_write methd \<longleftrightarrow> methd \<notin> {''GET'', ''HEAD'', ''OPTIONS''}"

section \<open>Credentials\<close>

record grant =
  gt_bucket :: string
  gt_read :: bool
  gt_write :: bool

record credential =
  cr_secretHash :: string
  cr_grants :: "grant list"
  cr_enabled :: bool
  cr_expiresAt :: "int option"

record cached_verify =
  cv_ok :: bool
  cv_grants :: "grant list"
  cv_expires :: int

definition CRED_TTL_MS :: int where "CRED_TTL_MS = 60000"
definition CRED_CACHE_MAX :: nat where "CRED_CACHE_MAX = 4096"
definition VERIFY_MAX_CONCURRENT :: nat where "VERIFY_MAX_CONCURRENT = 4"
definition ENFORCED_TTL_MS :: int where "ENFORCED_TTL_MS = 5000"
definition COUNTER_MAX_KEYS :: nat where "COUNTER_MAX_KEYS = 1024"
definition OVERFLOW_KEY :: string where "OVERFLOW_KEY = ''(overflow)''"

definition countRequest :: "string \<Rightarrow> bool \<Rightarrow> (string \<times> nat \<times> nat) list \<Rightarrow> (string \<times> nat \<times> nat) list" where
  "countRequest bucketKey hadCredential counters =
    (let bump = (\<lambda>(anon, auth). if hadCredential then (anon, auth + 1) else (anon + 1, auth)) in
     case map_of counters bucketKey of
       Some c \<Rightarrow> AList.update bucketKey (bump c) counters
     | None \<Rightarrow>
         if COUNTER_MAX_KEYS \<le> length counters
         then AList.update OVERFLOW_KEY (bump (case map_of counters OVERFLOW_KEY of None \<Rightarrow> (0, 0) | Some c \<Rightarrow> c)) counters
         else AList.update bucketKey (bump (0, 0)) counters)"

definition credCacheKey :: "crypto_ops \<Rightarrow> identity \<Rightarrow> string" where
  "credCacheKey ops i = ident_accessKeyId i @ '':'' @ cy_sha256 ops (ident_secret i)"

definition sweepCredCache :: "int \<Rightarrow> (string \<times> cached_verify) list \<Rightarrow> (string \<times> cached_verify) list" where
  "sweepCredCache now cache =
    (let live = filter (\<lambda>e. now < cv_expires (snd e)) cache in
     if CRED_CACHE_MAX \<le> length live then drop (length live - CRED_CACHE_MAX + 1) live else live)"

section \<open>State\<close>

datatype decision = Allow | Deny nat string

record resolved_bucket =
  rb_name :: string
  rb_publicRead :: "bool option"
  rb_publicWrite :: "bool option"

datatype flight = Reading nat | ReadDone nat "js_error + bool" | Valued bool | Settled bool

datatype stage = AwaitFlag nat | AwaitBucket string | AwaitObject string | AwaitBucketId string
  | AwaitRecord resolved_bucket nat | GotRecord resolved_bucket nat "js_error + credential option"
  | AwaitScrypt resolved_bucket nat credential | Decided decision

record request =
  rq_url :: string
  rq_isWrite :: bool
  rq_identity :: "identity option"
  rq_now :: int
  rq_stage :: stage

record authz =
  az_enforcedCache :: "(bool \<times> int) option"
  az_enforcedInFlight :: "nat option"
  az_enforcedEpoch :: nat
  az_counters :: "(string \<times> nat \<times> nat) list"
  az_verifyInFlight :: nat
  az_credCacheEpoch :: nat
  az_credCache :: "(string \<times> cached_verify) list"
  az_flights :: "flight list"
  az_requests :: "request list"
  az_flag :: bool
  az_credentials :: "string \<Rightarrow> credential option"
  az_docs :: "content_doc list"

definition initial_authz :: "bool \<Rightarrow> (string \<Rightarrow> credential option) \<Rightarrow> content_doc list \<Rightarrow> authz" where
  "initial_authz flag creds docs = \<lparr>az_enforcedCache = None, az_enforcedInFlight = None, az_enforcedEpoch = 0, az_counters = [],
     az_verifyInFlight = 0, az_credCacheEpoch = 0, az_credCache = [], az_flights = [], az_requests = [], az_flag = flag,
     az_credentials = creds, az_docs = docs\<rparr>"

section \<open>The switch\<close>

datatype flag_answer = FlagKnown bool | FlagInFlight nat

definition joinFlight :: "authz \<Rightarrow> nat \<times> authz" where
  "joinFlight s = (case az_enforcedInFlight s of
     Some f \<Rightarrow> (f, s)
   | None \<Rightarrow> (length (az_flights s), s\<lparr>az_enforcedInFlight := Some (length (az_flights s)),
       az_flights := az_flights s @ [Reading (az_enforcedEpoch s)]\<rparr>))"

definition isAuthEnforced :: "int \<Rightarrow> authz \<Rightarrow> flag_answer \<times> authz" where
  "isAuthEnforced now s = (case az_enforcedCache s of
     Some (v, since) \<Rightarrow> if now - since < ENFORCED_TTL_MS then (FlagKnown v, s) else apfst FlagInFlight (joinFlight s)
   | None \<Rightarrow> apfst FlagInFlight (joinFlight s))"

text \<open>The read of the switch has come back: an error counts as not enforced.\<close>

definition flag_value :: "js_error + bool \<Rightarrow> bool" where
  "flag_value answer = (case answer of Inl e \<Rightarrow> False | Inr v \<Rightarrow> v)"

definition flag_read :: "nat \<Rightarrow> nat \<Rightarrow> js_error + bool \<Rightarrow> int \<Rightarrow> authz \<Rightarrow> authz" where
  "flag_read f epochAtStart answer at s =
    (let value = flag_value answer;
         s' = (if az_enforcedEpoch s = epochAtStart then s\<lparr>az_enforcedCache := Some (value, at)\<rparr> else s)
     in s'\<lparr>az_flights := (az_flights s')[f := Valued value]\<rparr>)"

definition flag_settled :: "nat \<Rightarrow> bool \<Rightarrow> authz \<Rightarrow> authz" where
  "flag_settled f value s = s\<lparr>az_enforcedInFlight := None, az_flights := (az_flights s)[f := Settled value]\<rparr>"

definition invalidateAuthEnforcedCache :: "authz \<Rightarrow> authz" where
  "invalidateAuthEnforcedCache s =
    s\<lparr>az_enforcedCache := None, az_enforcedInFlight := None, az_enforcedEpoch := az_enforcedEpoch s + 1\<rparr>"

section \<open>Verifying a credential\<close>

definition clearCredentialCache :: "authz \<Rightarrow> authz" where
  "clearCredentialCache s = s\<lparr>az_credCache := [], az_credCacheEpoch := az_credCacheEpoch s + 1\<rparr>"

datatype verify_start = Answered "grant list option" | Started nat

definition takeSlot :: "authz \<Rightarrow> verify_start \<times> authz" where
  "takeSlot s = (if VERIFY_MAX_CONCURRENT \<le> az_verifyInFlight s then (Answered None, s)
     else (Started (az_credCacheEpoch s), s\<lparr>az_verifyInFlight := az_verifyInFlight s + 1\<rparr>))"

definition verifyCredential :: "crypto_ops \<Rightarrow> identity \<Rightarrow> int \<Rightarrow> authz \<Rightarrow> verify_start \<times> authz" where
  "verifyCredential ops i now s =
    (case map_of (az_credCache s) (credCacheKey ops i) of
       Some c \<Rightarrow> if now < cv_expires c then (Answered (if cv_ok c then Some (cv_grants c) else None), s) else takeSlot s
     | None \<Rightarrow> takeSlot s)"

definition releaseSlot :: "authz \<Rightarrow> authz" where
  "releaseSlot s = s\<lparr>az_verifyInFlight := az_verifyInFlight s - 1\<rparr>"

text \<open>What happens after the slot is given back.\<close>

definition rememberVerified ::
  "crypto_ops \<Rightarrow> identity \<Rightarrow> int \<Rightarrow> nat \<Rightarrow> grant list option \<Rightarrow> authz \<Rightarrow> authz" where
  "rememberVerified ops i now epochAtStart grants s =
    (if az_credCacheEpoch s \<noteq> epochAtStart then s
     else let cache = (if CRED_CACHE_MAX \<le> length (az_credCache s) then sweepCredCache now (az_credCache s) else az_credCache s)
          in s\<lparr>az_credCache := AList.update (credCacheKey ops i)
               \<lparr>cv_ok = grants \<noteq> None, cv_grants = (case grants of None \<Rightarrow> [] | Some g \<Rightarrow> g), cv_expires = now + CRED_TTL_MS\<rparr> cache\<rparr>)"

definition usable :: "int \<Rightarrow> credential \<Rightarrow> bool" where
  "usable now r \<longleftrightarrow> cr_enabled r \<and> (case cr_expiresAt r of None \<Rightarrow> True | Some t \<Rightarrow> now < t)"

section \<open>The decision\<close>

definition unknown_bucket :: "identity option \<Rightarrow> decision" where
  "unknown_bucket i = (if i = None then Deny 401 ''authentication required'' else Deny 403 ''unknown or unauthorized bucket'')"

definition unavailable :: decision where
  "unavailable = Deny 503 ''authorization temporarily unavailable''"

definition toResolved :: "content_doc \<Rightarrow> resolved_bucket" where
  "toResolved d = \<lparr>rb_name = cd_name d, rb_publicRead = cd_publicRead d, rb_publicWrite = cd_publicWrite d\<rparr>"

definition anonymous_decision :: "bool \<Rightarrow> resolved_bucket \<Rightarrow> decision" where
  "anonymous_decision isWrite b =
    (if (if isWrite then rb_publicWrite b else rb_publicRead b) = Some True then Allow else Deny 401 ''authentication required'')"

definition grants_decision :: "bool \<Rightarrow> resolved_bucket \<Rightarrow> grant list option \<Rightarrow> decision" where
  "grants_decision isWrite b grants = (case grants of
     None \<Rightarrow> Deny 401 ''invalid credentials''
   | Some gs \<Rightarrow> if list_ex (\<lambda>g. (gt_bucket g = rb_name b \<or> gt_bucket g = ''*'') \<and> (if isWrite then gt_write g else gt_read g)) gs
               then Allow else Deny 403 ''not permitted for this bucket'')"

text \<open>From the switch to the first lookup of the bucket.\<close>

definition flagged :: "bool \<Rightarrow> request \<Rightarrow> request" where
  "flagged enforced rq =
    (if \<not> enforced then rq\<lparr>rq_stage := Decided Allow\<rparr>
     else case bucketRefFromPath (rq_url rq) of
            NoBucket \<Rightarrow> rq\<lparr>rq_stage := Decided (unknown_bucket (rq_identity rq))\<rparr>
          | ById \<Rightarrow> rq\<lparr>rq_stage := AwaitObject (map lower (drop 2 (url_path (rq_url rq))))\<rparr>
          | ByPath b \<Rightarrow> if isValidBucketName b then rq\<lparr>rq_stage := AwaitBucket b\<rparr>
                        else rq\<lparr>rq_stage := Decided (unknown_bucket (rq_identity rq))\<rparr>)"

definition authorizeObjectRequest ::
  "crypto_ops \<Rightarrow> string \<Rightarrow> string \<Rightarrow> string option \<Rightarrow> int \<Rightarrow> authz \<Rightarrow> request \<times> authz" where
  "authorizeObjectRequest ops rawUrl methd authHeader now s =
    (let i = parseBasicAuth ops authHeader;
         key = (case bucketRefFromPath rawUrl of ByPath b \<Rightarrow> b | ById \<Rightarrow> ''(by-id)'' | NoBucket \<Rightarrow> ''(root)'');
         s1 = s\<lparr>az_counters := countRequest key (i \<noteq> None) (az_counters s)\<rparr>;
         rq = \<lparr>rq_url = rawUrl, rq_isWrite = is_write methd, rq_identity = i, rq_now = now, rq_stage = Decided Allow\<rparr>
     in case isAuthEnforced now s1 of
          (FlagKnown v, s2) \<Rightarrow> (flagged v rq, s2)
        | (FlagInFlight f, s2) \<Rightarrow> (rq\<lparr>rq_stage := AwaitFlag f\<rparr>, s2))"

text \<open>The row of the object that an id names.\<close>

definition object_found :: "js_error + content_doc option \<Rightarrow> request \<Rightarrow> request" where
  "object_found answer rq = (case answer of
     Inl e \<Rightarrow> rq\<lparr>rq_stage := Decided unavailable\<rparr>
   | Inr None \<Rightarrow> rq\<lparr>rq_stage := Decided (unknown_bucket (rq_identity rq))\<rparr>
   | Inr (Some d) \<Rightarrow> (case cd_bucketId d of
        None \<Rightarrow> rq\<lparr>rq_stage := Decided (unknown_bucket (rq_identity rq))\<rparr>
      | Some b \<Rightarrow> rq\<lparr>rq_stage := AwaitBucketId b\<rparr>))"

definition bucket_found :: "crypto_ops \<Rightarrow> js_error + content_doc option \<Rightarrow> request \<Rightarrow> authz \<Rightarrow> request \<times> authz" where
  "bucket_found ops answer rq s = (case answer of
     Inl e \<Rightarrow> (rq\<lparr>rq_stage := Decided unavailable\<rparr>, s)
   | Inr None \<Rightarrow> (rq\<lparr>rq_stage := Decided (unknown_bucket (rq_identity rq))\<rparr>, s)
   | Inr (Some d) \<Rightarrow> let b = toResolved d in
       (case rq_identity rq of
          None \<Rightarrow> (rq\<lparr>rq_stage := Decided (anonymous_decision (rq_isWrite rq) b)\<rparr>, s)
        | Some i \<Rightarrow> (case verifyCredential ops i (rq_now rq) s of
             (Answered grants, s') \<Rightarrow> (rq\<lparr>rq_stage := Decided (grants_decision (rq_isWrite rq) b grants)\<rparr>, s')
           | (Started epoch, s') \<Rightarrow> (rq\<lparr>rq_stage := AwaitRecord b epoch\<rparr>, s'))))"

definition verified ::
  "crypto_ops \<Rightarrow> identity \<Rightarrow> resolved_bucket \<Rightarrow> nat \<Rightarrow> grant list option \<Rightarrow> request \<Rightarrow> authz \<Rightarrow> request \<times> authz" where
  "verified ops i b epoch grants rq s =
    (rq\<lparr>rq_stage := Decided (grants_decision (rq_isWrite rq) b grants)\<rparr>,
     rememberVerified ops i (rq_now rq) epoch grants (releaseSlot s))"

definition record_found ::
  "crypto_ops \<Rightarrow> identity \<Rightarrow> resolved_bucket \<Rightarrow> nat \<Rightarrow> js_error + credential option \<Rightarrow> request \<Rightarrow> authz \<Rightarrow> request \<times> authz" where
  "record_found ops i b epoch answer rq s = (case answer of
     Inl e \<Rightarrow> (rq\<lparr>rq_stage := Decided unavailable\<rparr>, releaseSlot s)
   | Inr None \<Rightarrow> verified ops i b epoch None rq s
   | Inr (Some r) \<Rightarrow> if usable (rq_now rq) r then (rq\<lparr>rq_stage := AwaitScrypt b epoch r\<rparr>, s) else verified ops i b epoch None rq s)"

definition scrypt_done ::
  "crypto_ops \<Rightarrow> identity \<Rightarrow> resolved_bucket \<Rightarrow> nat \<Rightarrow> credential \<Rightarrow> request \<Rightarrow> authz \<Rightarrow> request \<times> authz" where
  "scrypt_done ops i b epoch r rq s =
    verified ops i b epoch (if scryptVerify ops (ident_secret i) (cr_secretHash r) then Some (cr_grants r) else None) rq s"

section \<open>Steps\<close>

definition set_request :: "nat \<Rightarrow> request \<times> authz \<Rightarrow> authz" where
  "set_request n = (\<lambda>(rq, s). s\<lparr>az_requests := (az_requests s)[n := rq]\<rparr>)"

inductive authz_step :: "crypto_ops \<Rightarrow> authz \<Rightarrow> authz \<Rightarrow> bool" for ops where
  request_starts: "authorizeObjectRequest ops rawUrl methd authHeader now s = (rq, s') \<Longrightarrow>
    authz_step ops s (s'\<lparr>az_requests := az_requests s' @ [rq]\<rparr>)"
| flag_seen: "f < length (az_flights s) \<Longrightarrow> az_flights s ! f = Reading epoch \<Longrightarrow> answer \<in> {Inl e, Inr (az_flag s)} \<Longrightarrow>
    authz_step ops s (s\<lparr>az_flights := (az_flights s)[f := ReadDone epoch answer]\<rparr>)"
| flag_returns: "f < length (az_flights s) \<Longrightarrow> az_flights s ! f = ReadDone epoch answer \<Longrightarrow>
    authz_step ops s (flag_read f epoch answer at s)"
| flag_settles: "f < length (az_flights s) \<Longrightarrow> az_flights s ! f = Valued v \<Longrightarrow> authz_step ops s (flag_settled f v s)"
| flag_awaited: "n < length (az_requests s) \<Longrightarrow> rq_stage (az_requests s ! n) = AwaitFlag f \<Longrightarrow> f < length (az_flights s) \<Longrightarrow>
    az_flights s ! f = Settled v \<Longrightarrow> authz_step ops s (set_request n (flagged v (az_requests s ! n), s))"
| bucket_named_step: "n < length (az_requests s) \<Longrightarrow> rq_stage (az_requests s ! n) = AwaitBucket b \<Longrightarrow>
    (case answer of Inl e \<Rightarrow> True | Inr r \<Rightarrow> find_answer (az_docs s) (bucket_named b) r) \<Longrightarrow>
    authz_step ops s (set_request n (bucket_found ops answer (az_requests s ! n) s))"
| object_step: "n < length (az_requests s) \<Longrightarrow> rq_stage (az_requests s ! n) = AwaitObject i \<Longrightarrow>
    (case answer of Inl e \<Rightarrow> True | Inr r \<Rightarrow> find_answer (az_docs s) (by_id i) r) \<Longrightarrow>
    authz_step ops s (set_request n (object_found answer (az_requests s ! n), s))"
| bucket_id_step: "n < length (az_requests s) \<Longrightarrow> rq_stage (az_requests s ! n) = AwaitBucketId b \<Longrightarrow>
    (case answer of Inl e \<Rightarrow> True | Inr r \<Rightarrow> find_answer (az_docs s) (bucket_by_id b) r) \<Longrightarrow>
    authz_step ops s (set_request n (bucket_found ops answer (az_requests s ! n) s))"
| record_seen: "n < length (az_requests s) \<Longrightarrow> rq_stage (az_requests s ! n) = AwaitRecord b epoch \<Longrightarrow>
    rq_identity (az_requests s ! n) = Some i \<Longrightarrow> answer \<in> {Inl e, Inr (az_credentials s (ident_accessKeyId i))} \<Longrightarrow>
    authz_step ops s (set_request n ((az_requests s ! n)\<lparr>rq_stage := GotRecord b epoch answer\<rparr>, s))"
| record_returns: "n < length (az_requests s) \<Longrightarrow> rq_stage (az_requests s ! n) = GotRecord b epoch answer \<Longrightarrow>
    rq_identity (az_requests s ! n) = Some i \<Longrightarrow>
    authz_step ops s (set_request n (record_found ops i b epoch answer (az_requests s ! n) s))"
| scrypt_returns: "n < length (az_requests s) \<Longrightarrow> rq_stage (az_requests s ! n) = AwaitScrypt b epoch r \<Longrightarrow>
    rq_identity (az_requests s ! n) = Some i \<Longrightarrow>
    authz_step ops s (set_request n (scrypt_done ops i b epoch r (az_requests s ! n) s))"
| flag_written: "authz_step ops s (s\<lparr>az_flag := v\<rparr>)"
| flag_invalidated: "authz_step ops s (invalidateAuthEnforcedCache s)"
| credential_written: "authz_step ops s (s\<lparr>az_credentials := creds\<rparr>)"
| credentials_cleared: "authz_step ops s (clearCredentialCache s)"
| rows_written: "authz_step ops s (s\<lparr>az_docs := docs\<rparr>)"
| activity_reset: "authz_step ops s (s\<lparr>az_counters := []\<rparr>)"

inductive authz_run :: "crypto_ops \<Rightarrow> authz \<Rightarrow> bool" for ops where
  authz_start: "authz_run ops (initial_authz flag creds docs)"
| authz_more: "authz_run ops s \<Longrightarrow> authz_step ops s s' \<Longrightarrow> authz_run ops s'"

end
