(* ===== verification/Container_Paths.thy ===== *)
theory Container_Paths
  imports Container_Store
begin

text \<open>
  Where a path leads. The invariant of \<open>Container_Store\<close>: every folder stands on a chain of folders up to a bucket
  and carries that bucket, every cache entry names a folder that is there, and every call in progress stands
  where the components it has consumed lead. It holds in every interleaving, so a finished lookup has the row its path
  spells, in the bucket its first component names.
\<close>

section \<open>Folders and their paths\<close>

inductive folder_at :: "content_doc list \<Rightarrow> content_doc \<Rightarrow> string list \<Rightarrow> string \<Rightarrow> bool" for docs where
  folder_top: "d \<in> set docs \<Longrightarrow> cd_isContainer d \<Longrightarrow> cd_containerId d = None \<Longrightarrow> folder_at docs d [cd_name d] (cd_id d)"
| folder_sub: "folder_at docs p ns b \<Longrightarrow> d \<in> set docs \<Longrightarrow> cd_isContainer d \<Longrightarrow> cd_containerId d = Some (cd_id p) \<Longrightarrow>
    folder_at docs d (ns @ [cd_name d]) b"

lemma folder_at_in: "folder_at docs d ns b \<Longrightarrow> d \<in> set docs \<and> cd_isContainer d \<and> ns \<noteq> []"
  by (induction rule: folder_at.induct) auto

definition well_placed :: "content_doc list \<Rightarrow> content_doc \<Rightarrow> bool" where
  "well_placed docs d \<longleftrightarrow>
    (if cd_isContainer d then \<exists>ns b. folder_at docs d ns b \<and> cd_bucketId d = Some b
     else case cd_containerId d of None \<Rightarrow> cd_bucketId d = None
          | Some c \<Rightarrow> \<exists>p ns b. folder_at docs p ns b \<and> cd_id p = c \<and> cd_bucketId d = Some b)"

definition docs_ok :: "content_doc list \<Rightarrow> bool" where
  "docs_ok docs \<longleftrightarrow> distinct (map cd_id docs) \<and> distinct (map (\<lambda>d. (cd_containerId d, cd_name d)) docs) \<and>
     (\<forall>d\<in>set docs. valid_id (cd_id d) \<and> well_placed docs d)"

lemma docs_okD:
  assumes "docs_ok docs" and "d \<in> set docs"
  shows "valid_id (cd_id d)" and "well_placed docs d"
  using assms by (auto simp: docs_ok_def)

lemma same_id: "docs_ok docs \<Longrightarrow> d \<in> set docs \<Longrightarrow> e \<in> set docs \<Longrightarrow> cd_id d = cd_id e \<Longrightarrow> d = e"
  by (auto simp: docs_ok_def distinct_map inj_on_def)

lemma same_name:
  "docs_ok docs \<Longrightarrow> d \<in> set docs \<Longrightarrow> e \<in> set docs \<Longrightarrow> cd_containerId d = cd_containerId e \<Longrightarrow> cd_name d = cd_name e \<Longrightarrow> d = e"
  by (auto simp: docs_ok_def distinct_map inj_on_def)

lemma folder_at_unique:
  assumes "folder_at docs d ns b" and "docs_ok docs"
  shows "folder_at docs e ns' b' \<Longrightarrow> d = e \<Longrightarrow> ns = ns' \<and> b = b'"
  using assms
proof (induction arbitrary: e ns' b' rule: folder_at.induct)
  case (folder_top d)
  from folder_top.prems(1) show ?case by (cases rule: folder_at.cases) (use folder_top in auto)
next
  case (folder_sub p ns b d)
  note outer = folder_sub.hyps folder_sub.IH folder_sub.prems
  from outer(6) show ?case
  proof (cases rule: folder_at.cases)
    case folder_top
    then show ?thesis using outer(4,7) by simp
  next
    case (folder_sub q ns2)
    have "cd_id p = cd_id q" using folder_sub outer(4,7) by simp
    then have "p = q" using folder_at_in[OF outer(1)] folder_at_in[OF folder_sub(2)] outer(8) by (intro same_id[of docs]) auto
    then show ?thesis using outer(5)[OF folder_sub(2)] outer(7,8) folder_sub(1) by simp
  qed
qed

text \<open>Where the components consumed so far lead: the root, or a folder with its bucket.\<close>

definition position :: "content_doc list \<Rightarrow> string option \<Rightarrow> string option \<Rightarrow> string list \<Rightarrow> bool" where
  "position docs c b ns \<longleftrightarrow> c = None \<and> b = None \<and> ns = [] \<or>
     (\<exists>p b'. folder_at docs p ns b' \<and> c = Some (cd_id p) \<and> b = Some b')"

lemma position_root [simp]: "position docs None None []"
  by (simp add: position_def)

lemma position_valid: "docs_ok docs \<Longrightarrow> position docs (Some i) b ns \<Longrightarrow> valid_id i"
  by (auto simp: position_def dest: folder_at_in docs_okD(1))

lemma position_bucket:
  assumes "docs_ok docs" and "folder_at docs p ns b"
  shows "cd_bucketId p = Some b"
proof -
  have "well_placed docs p" using assms docs_okD(2) folder_at_in by blast
  then obtain ns' b' where "folder_at docs p ns' b'" "cd_bucketId p = Some b'"
    using folder_at_in[OF assms(2)] by (auto simp: well_placed_def)
  then show ?thesis using folder_at_unique[OF assms(2,1)] by blast
qed

text \<open>One component further.\<close>

lemma position_enter:
  assumes pos: "position docs (rv_containerId rv) (rv_bucketId rv) ns"
    and d: "d \<in> set docs" "cd_isContainer d" "cd_containerId d = rv_containerId rv"
  shows "position docs (rv_containerId (enter (cd_id d) rv)) (rv_bucketId (enter (cd_id d) rv)) (ns @ [cd_name d])"
proof (cases "rv_containerId rv")
  case None
  then have "ns = []" "rv_bucketId rv = None" using pos by (auto simp: position_def)
  moreover have "folder_at docs d [cd_name d] (cd_id d)" using d None by (intro folder_top) auto
  ultimately show ?thesis by (auto simp: position_def enter_def)
next
  case (Some i)
  then obtain p b where p: "folder_at docs p ns b" "i = cd_id p" "rv_bucketId rv = Some b" using pos by (auto simp: position_def)
  have "folder_at docs d (ns @ [cd_name d]) b" using folder_sub[OF p(1)] d Some p(2) by auto
  then show ?thesis using p(3) by (auto simp: position_def enter_def)
qed

text \<open>The bucket is the folder at the top that the first component names.\<close>

lemma bucket_is_first:
  assumes "folder_at docs p ns b"
  shows "\<exists>r\<in>set docs. cd_id r = b \<and> bucket_named (hd ns) r"
  using assms
proof (induction rule: folder_at.induct)
  case (folder_top d)
  then show ?case by (auto simp: bucket_named_def)
next
  case (folder_sub p ns b d)
  then show ?case using folder_at_in[OF folder_sub.hyps(1)] by auto
qed

section \<open>Change of the rows\<close>

text \<open>Folders stay where they are; their policy may change.\<close>

definition same_folder :: "content_doc \<Rightarrow> content_doc \<Rightarrow> bool" where
  "same_folder d e \<longleftrightarrow> cd_id e = cd_id d \<and> cd_containerId e = cd_containerId d \<and> cd_bucketId e = cd_bucketId d \<and>
     cd_name e = cd_name d \<and> cd_isContainer e = cd_isContainer d"

definition keeps_folders :: "content_doc list \<Rightarrow> content_doc list \<Rightarrow> bool" where
  "keeps_folders docs docs' \<longleftrightarrow> (\<forall>d\<in>set docs. cd_isContainer d \<longrightarrow> (\<exists>e\<in>set docs'. same_folder d e))"

lemma keeps_folders_refl [simp]: "keeps_folders docs docs"
  by (auto simp: keeps_folders_def same_folder_def)

lemma keeps_folders_append [simp]: "keeps_folders docs (docs @ ds)"
  by (auto simp: keeps_folders_def same_folder_def)

lemma folder_at_keeps:
  assumes "folder_at docs d ns b" and k: "keeps_folders docs docs'"
  shows "\<exists>e. same_folder d e \<and> folder_at docs' e ns b"
  using assms(1)
proof (induction rule: folder_at.induct)
  case (folder_top d)
  then obtain e where e: "e \<in> set docs'" "same_folder d e" using k by (auto simp: keeps_folders_def)
  then have "folder_at docs' e [cd_name e] (cd_id e)" using folder_top by (intro folder_at.folder_top) (auto simp: same_folder_def)
  then show ?case using e by (auto simp: same_folder_def)
next
  case (folder_sub p ns b d)
  obtain q where q: "same_folder p q" "folder_at docs' q ns b" using folder_sub.IH by blast
  obtain e where e: "e \<in> set docs'" "same_folder d e" using folder_sub.hyps k by (auto simp: keeps_folders_def)
  have "folder_at docs' e (ns @ [cd_name e]) b"
    using folder_sub.hyps q e by (intro folder_at.folder_sub[OF q(2)]) (auto simp: same_folder_def)
  then show ?case using e by (auto simp: same_folder_def)
qed

lemma position_keeps: "position docs c b ns \<Longrightarrow> keeps_folders docs docs' \<Longrightarrow> position docs' c b ns"
proof (cases c)
  case (Some i)
  assume p: "position docs c b ns" and k: "keeps_folders docs docs'"
  then obtain p b' where "folder_at docs p ns b'" "i = cd_id p" "b = Some b'" using Some by (auto simp: position_def)
  then show ?thesis using folder_at_keeps[OF _ k] Some by (force simp: position_def same_folder_def)
qed (auto simp: position_def)

lemma well_placed_keeps:
  assumes "well_placed docs d" and "keeps_folders docs docs'" and "same_folder d e" and "cd_isContainer d \<longrightarrow> e \<in> set docs' \<and> docs_ok docs \<and> distinct (map cd_id docs')"
  shows "well_placed docs' e"
proof (cases "cd_isContainer d")
  case True
  then obtain ns b where f: "folder_at docs d ns b" "cd_bucketId d = Some b" using assms(1) by (auto simp: well_placed_def)
  obtain e' where e': "same_folder d e'" "folder_at docs' e' ns b" using folder_at_keeps[OF f(1) assms(2)] by blast
  have "inj_on cd_id (set docs')" using assms(4) True by (simp add: distinct_map)
  moreover have "cd_id e' = cd_id e" using assms(3) e'(1) by (simp add: same_folder_def)
  ultimately have "e' = e" using assms(4) True folder_at_in[OF e'(2)] by (simp add: inj_on_def)
  then show ?thesis using e' f(2) assms(3) True by (auto simp: well_placed_def same_folder_def)
next
  case False
  show ?thesis
  proof (cases "cd_containerId d")
    case None
    then show ?thesis using assms(1,3) False by (simp add: well_placed_def same_folder_def)
  next
    case (Some c)
    then obtain p ns b where f: "folder_at docs p ns b" "cd_id p = c" "cd_bucketId d = Some b"
      using assms(1) False by (auto simp: well_placed_def)
    obtain q where "same_folder p q" "folder_at docs' q ns b" using folder_at_keeps[OF f(1) assms(2)] by blast
    then show ?thesis using f(2,3) assms(3) False Some by (auto simp: well_placed_def same_folder_def)
  qed
qed

section \<open>The cache\<close>

lemma toKey_eq:
  assumes "toKey n p = toKey n' p'" and "\<And>i. p = Some i \<Longrightarrow> valid_id i" and "\<And>i. p' = Some i \<Longrightarrow> valid_id i"
  shows "n = n' \<and> p = p'"
proof -
  have key: "\<exists>h. toKey m q = h @ ''::'' @ m \<and> CHR '':'' \<notin> set h \<and> h = (case q of None \<Rightarrow> ''root'' | Some i \<Rightarrow> i)"
    if "\<And>i. q = Some i \<Longrightarrow> valid_id i" for m q
    using that by (cases q) (auto simp: toKey_def valid_id_def)
  define h where "h = (case p of None \<Rightarrow> ''root'' | Some i \<Rightarrow> i)"
  define h' where "h' = (case p' of None \<Rightarrow> ''root'' | Some i \<Rightarrow> i)"
  have hh: "CHR '':'' \<notin> set h" "CHR '':'' \<notin> set h'" "toKey n p = h @ ''::'' @ n" "toKey n' p' = h' @ ''::'' @ n'"
    using key[of p n] key[of p' n'] assms(2,3) by (auto simp: h_def h'_def)
  have "takeWhile ((\<noteq>) CHR '':'') (toKey n p) = h" "takeWhile ((\<noteq>) CHR '':'') (toKey n' p') = h'"
    using hh by (auto simp: takeWhile_append2 takeWhile_tail)
  then have "h = h'" using assms(1) by simp
  moreover have "n = n'" using assms(1) hh calculation by simp
  moreover have "p = p'" using calculation(1) assms(2,3)
    by (cases p; cases p') (auto simp: h_def h'_def valid_id_def)
  ultimately show ?thesis by simp
qed

definition cached_folder :: "content_doc list \<Rightarrow> string \<times> cache_entry \<Rightarrow> bool" where
  "cached_folder docs = (\<lambda>(k, e). k = toKey (ch_name e) (ch_parentId e) \<and>
     (\<exists>d\<in>set docs. cd_isContainer d \<and> cd_id d = ch_id e \<and> cd_name d = ch_name e \<and> cd_containerId d = ch_parentId e))"

definition cache_ok :: "content_doc list \<Rightarrow> container_cache \<Rightarrow> bool" where
  "cache_ok docs c \<longleftrightarrow> (\<forall>x\<in>set (cc_entries c). cached_folder docs x)"

lemma cached_folder_keeps: "cached_folder docs x \<Longrightarrow> keeps_folders docs docs' \<Longrightarrow> cached_folder docs' x"
  by (cases x) (fastforce simp: cached_folder_def keeps_folders_def same_folder_def)

lemma cache_ok_keeps: "cache_ok docs c \<Longrightarrow> keeps_folders docs docs' \<Longrightarrow> cache_ok docs' c"
  by (auto simp: cache_ok_def dest: cached_folder_keeps)

lemma cache_ok_subset: "cache_ok docs c \<Longrightarrow> set (cc_entries c') \<subseteq> set (cc_entries c) \<Longrightarrow> cache_ok docs c'"
  by (auto simp: cache_ok_def)

lemma delete_each_subset: "set (fold (\<lambda>e. AList.delete (fst e)) es xs) \<subseteq> set xs"
proof (induction es arbitrary: xs)
  case (Cons e es)
  have "set (AList.delete (fst e) xs) \<subseteq> set xs" by (auto simp: AList.delete_eq)
  then show ?case using Cons.IH[of "AList.delete (fst e) xs"] by simp
qed simp

lemma evict_subset: "set (cc_entries (evictOverflow c)) \<subseteq> set (cc_entries c)"
  using delete_each_subset by (auto simp: evictOverflow_def Let_def)

lemma update_subset: "set (AList.update k v xs) \<subseteq> insert (k, v) (set xs)"
  by (induction xs) auto

lemma cache_remember_ok:
  assumes "cache_ok docs c" and "d \<in> set docs" "cd_isContainer d" and "cd_containerId d = p"
  shows "cache_ok docs (cache_remember (cd_id d) (cd_name d) p now c)"
proof -
  have "cached_folder docs (toKey (cd_name d) p, \<lparr>ch_id = cd_id d, ch_parentId = p, ch_name = cd_name d, ch_lastUsed = now\<rparr>)"
    using assms(2-4) by (auto simp: cached_folder_def)
  then show ?thesis using assms(1) evict_subset[of "c\<lparr>cc_entries := AList.update (toKey (cd_name d) p)
      \<lparr>ch_id = cd_id d, ch_parentId = p, ch_name = cd_name d, ch_lastUsed = now\<rparr> (cc_entries c)\<rparr>"]
    update_subset[of "toKey (cd_name d) p" "\<lparr>ch_id = cd_id d, ch_parentId = p, ch_name = cd_name d, ch_lastUsed = now\<rparr>" "cc_entries c"]
    unfolding cache_ok_def cache_remember_def by (auto dest!: subsetD)
qed

lemma cache_sweep_ok: "cache_ok docs c \<Longrightarrow> cache_ok docs (cache_sweep now c)"
  by (rule cache_ok_subset) (auto simp: cache_sweep_def dest!: subsetD[OF evict_subset])

text \<open>An answer from the cache is the folder of that name at that place.\<close>

lemma cache_get_ok:
  assumes ok: "cache_ok docs c" and docs: "docs_ok docs" and got: "cache_get name p now c = (r, c')"
    and p: "\<And>i. p = Some i \<Longrightarrow> valid_id i"
  shows "cache_ok docs c'"
    and "r = Some i \<Longrightarrow> \<exists>d\<in>set docs. cd_isContainer d \<and> cd_id d = i \<and> cd_name d = name \<and> cd_containerId d = p"
proof -
  have hit: "e \<in> set (cc_entries c) \<Longrightarrow> fst e = toKey name p \<Longrightarrow>
      \<exists>d\<in>set docs. cd_isContainer d \<and> cd_id d = ch_id (snd e) \<and> cd_name d = name \<and> cd_containerId d = p \<and>
        ch_name (snd e) = name \<and> ch_parentId (snd e) = p" for e
  proof -
    assume e: "e \<in> set (cc_entries c)" "fst e = toKey name p"
    then obtain d where d: "d \<in> set docs" "cd_isContainer d" "cd_id d = ch_id (snd e)" "cd_name d = ch_name (snd e)"
        "cd_containerId d = ch_parentId (snd e)" "fst e = toKey (ch_name (snd e)) (ch_parentId (snd e))"
      using ok by (fastforce simp: cache_ok_def cached_folder_def)
    have "valid_id j" if "cd_containerId d = Some j" for j
    proof -
      obtain ns b where f: "folder_at docs d ns b" using docs_okD(2)[OF docs d(1)] d(2) by (auto simp: well_placed_def)
      then show ?thesis using that
        by (cases rule: folder_at.cases) (auto dest!: folder_at_in docs_okD(1)[OF docs])
    qed
    then have "name = ch_name (snd e) \<and> p = ch_parentId (snd e)" using e(2) d(5,6) p by (intro toKey_eq) auto
    then show ?thesis using d by auto
  qed
  show "cache_ok docs c'"
  proof (cases "map_of (cc_entries c) (toKey name p)")
    case None
    then show ?thesis using got ok by (auto simp: cache_get_def)
  next
    case (Some e)
    have "cached_folder docs (toKey name p, e\<lparr>ch_lastUsed := now\<rparr>)"
      using hit[OF map_of_SomeD[OF Some]] by (auto simp: cached_folder_def)
    then show ?thesis using got Some ok update_subset[of "toKey name p" "e\<lparr>ch_lastUsed := now\<rparr>" "cc_entries c"]
      by (auto simp: cache_get_def Let_def cache_ok_def AList.delete_eq split: if_splits dest!: subsetD)
  qed
  show "r = Some i \<Longrightarrow> \<exists>d\<in>set docs. cd_isContainer d \<and> cd_id d = i \<and> cd_name d = name \<and> cd_containerId d = p"
    using got hit[OF map_of_SomeD] by (fastforce simp: cache_get_def Let_def split: option.splits if_splits)
qed

section \<open>Calls in progress\<close>

abbreviation given :: "string list \<Rightarrow> string list" where
  "given cs \<equiv> filter (\<lambda>c. c \<noteq> []) cs"

definition on_the_way :: "content_doc list \<Rightarrow> string list \<Rightarrow> resolver \<Rightarrow> string list \<Rightarrow> bool" where
  "on_the_way docs target rv next \<longleftrightarrow>
     (\<exists>done. position docs (rv_containerId rv) (rv_bucketId rv) done \<and> done @ next @ given (rv_components rv) = target)"

definition heading :: "content_doc list \<Rightarrow> string list \<Rightarrow> resolver \<Rightarrow> bool" where
  "heading docs target rv \<longleftrightarrow> (case rv_at rv of
     Rejected e \<Rightarrow> True
   | Compensated d e \<Rightarrow> True
   | Resolved \<Rightarrow> position docs (rv_containerId rv) (rv_bucketId rv) target
   | LookedUp n \<Rightarrow> on_the_way docs target rv [n]
   | Journaled i n \<Rightarrow> valid_id i \<and> on_the_way docs target rv [n]
   | Inserted d \<Rightarrow> \<exists>i n. d = folder_row i n rv \<and> valid_id i \<and> on_the_way docs target rv [n])"

lemma heading_keeps:
  assumes "heading docs target rv" and k: "keeps_folders docs docs'"
  shows "heading docs' target rv"
  using assms(1) position_keeps[OF _ k] by (fastforce simp: heading_def on_the_way_def split: waiting_for.splits)

lemma folder_place: "docs_ok docs \<Longrightarrow> position docs c b ns \<Longrightarrow> c = Some i \<Longrightarrow> valid_id i"
  using position_valid by blast

lemma walk_heading:
  assumes "docs_ok docs"
  shows "walk_components now newId cs rv c = (rv', c') \<Longrightarrow> valid_id newId \<Longrightarrow> cache_ok docs c \<Longrightarrow>
    position docs (rv_containerId rv) (rv_bucketId rv) done \<Longrightarrow> done @ given cs = target \<Longrightarrow> cache_ok docs c' \<and> heading docs target rv'"
proof (induction now newId cs rv c arbitrary: "done" rule: walk_components.induct)
  case (1 now newId rv c)
  then show ?case by (auto simp: heading_def)
next
  case (2 now newId name rest rv c)
  show ?case
  proof (cases "name = []")
    case True
    then show ?thesis using 2 by simp
  next
    case False
    obtain r c1 where g: "cache_get name (rv_containerId rv) now c = (r, c1)" by fastforce
    note got = cache_get_ok[OF 2(5) assms(1) g folder_place[OF assms(1) 2(6)]]
    show ?thesis
    proof (cases r)
      case None
      then have "on_the_way docs target (rv\<lparr>rv_components := rest\<rparr>) [name]" using 2(6,7) False by (auto simp: on_the_way_def)
      then show ?thesis using 2(3) None g False got(1) 2(4)
        by (auto simp: heading_def not_found_def on_the_way_def Let_def split: if_splits)
    next
      case (Some i)
      then obtain d where d: "d \<in> set docs" "cd_isContainer d" "cd_id d = i" "cd_name d = name" "cd_containerId d = rv_containerId rv"
        using got(2) by blast
      have "position docs (rv_containerId (enter i rv)) (rv_bucketId (enter i rv)) (done @ [name])"
        using position_enter[OF 2(6) d(1,2,5)] d(3,4) by simp
      then show ?thesis using 2(2)[OF False g[symmetric]] 2(3,4,7) Some g False got(1) by auto
    qed
  qed
qed

lemma entered_heading:
  assumes "docs_ok docs" and "valid_id newId" and "cache_ok docs c" and way: "on_the_way docs target rv [cd_name d]"
    and d: "d \<in> set docs" "cd_isContainer d" "cd_containerId d = rv_containerId rv"
    and run: "entered now newId d rv c = (rv', c')"
  shows "cache_ok docs c' \<and> heading docs target rv'"
proof -
  obtain ns where ns: "position docs (rv_containerId rv) (rv_bucketId rv) ns" "ns @ [cd_name d] @ given (rv_components rv) = target"
    using way by (auto simp: on_the_way_def)
  show ?thesis using walk_heading[OF assms(1) run[unfolded entered_def] assms(2) cache_remember_ok[OF assms(3) d] position_enter[OF ns(1) d]] ns(2)
    by simp
qed

text \<open>A finished lookup: the row at the end of the path, in the bucket of the path.\<close>

definition spelled :: "content_doc list \<Rightarrow> string list \<Rightarrow> content_doc \<Rightarrow> bool" where
  "spelled docs path d \<longleftrightarrow> cd_name d = last path \<and>
     (\<exists>b. position docs (cd_containerId d) b (given (butlast path)) \<and> (cd_containerId d \<noteq> None \<longrightarrow> cd_bucketId d = b))"

definition call_ok :: "content_doc list \<Rightarrow> string list \<Rightarrow> call \<Rightarrow> bool" where
  "call_ok docs path k \<longleftrightarrow> (case k of
     Finished (Inl e) \<Rightarrow> True
   | Finished (Inr d) \<Rightarrow> spelled docs path d
   | Pending p rv \<Rightarrow> heading docs (given (butlast path)) rv \<and>
       (case p of FetchObject n \<Rightarrow> n = last path
        | StoreObject d \<Rightarrow> cd_name d = last path \<and> \<not> cd_isContainer d \<and> valid_id (cd_id d)))"

definition store_ok :: "content_store \<Rightarrow> bool" where
  "store_ok s \<longleftrightarrow> docs_ok (st_docs s) \<and> cache_ok (st_docs s) (st_cache s) \<and>
     (\<forall>n path k. st_calls s n = Some (path, k) \<longrightarrow> call_ok (st_docs s) path k)"

lemma call_ok_keeps: "call_ok docs path k \<Longrightarrow> keeps_folders docs docs' \<Longrightarrow> call_ok docs' path k"
  by (fastforce simp: call_ok_def spelled_def intro: heading_keeps position_keeps split: call.splits sum.splits)

lemma store_okI:
  assumes "store_ok s" and "keeps_folders (st_docs s) (st_docs s')" and "docs_ok (st_docs s')"
    and "cache_ok (st_docs s') (st_cache s')" and "st_calls s' = (st_calls s)(n \<mapsto> (path, k))" and "call_ok (st_docs s') path k"
  shows "store_ok s'"
  using assms call_ok_keeps[OF _ assms(2)] by (auto simp: store_ok_def)

lemma store_ok_calls:
  assumes "store_ok s" and "keeps_folders (st_docs s) (st_docs s')" and "docs_ok (st_docs s')"
    and "cache_ok (st_docs s') (st_cache s')" and "st_calls s' = st_calls s"
  shows "store_ok s'"
  using assms call_ok_keeps[OF _ assms(2)] by (auto simp: store_ok_def)

section \<open>Every step keeps the invariant\<close>

lemma docs_ok_keeps:
  assumes "docs_ok docs" and "distinct (map cd_id docs')" and "distinct (map (\<lambda>d. (cd_containerId d, cd_name d)) docs')"
    and "keeps_folders docs docs'" and from_docs: "\<And>e. e \<in> set docs' \<Longrightarrow> \<exists>d\<in>set docs. same_folder d e"
  shows "docs_ok docs'"
proof -
  have "valid_id (cd_id e) \<and> well_placed docs' e" if e: "e \<in> set docs'" for e
  proof -
    obtain d where "d \<in> set docs" "same_folder d e" using from_docs[OF e] by blast
    then show ?thesis using well_placed_keeps[OF docs_okD(2)[OF assms(1)] assms(4)] assms(1,2) docs_okD(1)[OF assms(1)] e
      by (auto simp: same_folder_def)
  qed
  then show ?thesis using assms(2,3) by (simp add: docs_ok_def)
qed

lemma docs_ok_append:
  assumes "docs_ok docs" and "\<not> duplicate docs d" and "valid_id (cd_id d)" and "well_placed (docs @ [d]) d"
  shows "docs_ok (docs @ [d])"
proof -
  have d: "distinct (map cd_id (docs @ [d]))" "distinct (map (\<lambda>d. (cd_containerId d, cd_name d)) (docs @ [d]))"
    using assms(1,2) by (auto simp: docs_ok_def duplicate_def list_ex_iff)
  have "well_placed (docs @ [d]) e" if "e \<in> set docs" for e
    using well_placed_keeps[of docs e "docs @ [d]" e] docs_okD(2)[OF assms(1) that] assms(1) d(1) that by (simp add: same_folder_def)
  then show ?thesis using assms d by (auto simp: docs_ok_def)
qed

lemma new_folder:
  assumes "position docs (rv_containerId rv) (rv_bucketId rv) ns"
  shows "well_placed (docs @ [folder_row i n rv]) (folder_row i n rv)"
proof -
  let ?d = "folder_row i n rv"
  have d: "?d \<in> set (docs @ [?d])" "cd_isContainer ?d" "cd_containerId ?d = rv_containerId rv" by (auto simp: folder_row_def)
  show ?thesis
  proof (cases "rv_containerId rv")
    case None
    then have "folder_at (docs @ [?d]) ?d [cd_name ?d] (cd_id ?d)" using d by (intro folder_top) auto
    moreover have "rv_bucketId rv = None" using assms None by (auto simp: position_def)
    ultimately show ?thesis using d(2) unfolding well_placed_def by (auto simp: folder_row_def)
  next
    case (Some c)
    then obtain q b' where q: "folder_at docs q ns b'" "c = cd_id q" "rv_bucketId rv = Some b'" using assms by (auto simp: position_def)
    obtain q' where q': "same_folder q q'" "folder_at (docs @ [?d]) q' ns b'" using folder_at_keeps[OF q(1) keeps_folders_append] by blast
    then have "folder_at (docs @ [?d]) ?d (ns @ [cd_name ?d]) b'"
      using d Some q(2) by (intro folder_sub[OF q'(2)]) (auto simp: same_folder_def)
    then show ?thesis using d(2) q(3) unfolding well_placed_def by (auto simp: folder_row_def)
  qed
qed

text \<open>An object in a folder has the bucket of the path to the folder.\<close>

lemma in_bucket:
  assumes "docs_ok docs" and d: "d \<in> set docs" "cd_containerId d = Some c" and pos: "position docs (Some c) b ns"
  shows "cd_bucketId d = b"
proof -
  obtain p b' where p: "folder_at docs p ns b'" "cd_id p = c" "b = Some b'" using pos by (auto simp: position_def)
  have "\<exists>q ms b2. folder_at docs q ms b2 \<and> cd_id q = c \<and> cd_bucketId d = Some b2"
  proof (cases "cd_isContainer d")
    case True
    then obtain ms b2 where f: "folder_at docs d ms b2" "cd_bucketId d = Some b2" using docs_okD(2)[OF assms(1) d(1)] by (auto simp: well_placed_def)
    from f(1) show ?thesis by (cases rule: folder_at.cases) (use d f in auto)
  next
    case False
    then show ?thesis using docs_okD(2)[OF assms(1) d(1)] d(2) by (auto simp: well_placed_def)
  qed
  then obtain q ms b2 where q: "folder_at docs q ms b2" "cd_id q = c" "cd_bucketId d = Some b2" by blast
  have "p = q" using folder_at_in[OF p(1)] folder_at_in[OF q(1)] p(2) q(2) by (intro same_id[OF assms(1)]) auto
  then show ?thesis using folder_at_unique[OF p(1) assms(1) q(1)] p(3) q(3) by simp
qed

lemma looked_up_ok:
  assumes ok: "docs_ok docs" "cache_ok docs c" and i: "valid_id newId" and way: "on_the_way docs target rv [name]"
    and found: "case answer of Inl e \<Rightarrow> True | Inr r \<Rightarrow> find_answer docs (named_in (rv_containerId rv) name) r"
    and run: "looked_up now newId name answer rv c = (rv', c')"
  shows "cache_ok docs c' \<and> heading docs target rv'"
proof (cases answer)
  case (Inl e)
  then show ?thesis using run ok by (auto simp: looked_up_def heading_def)
next
  case (Inr r)
  show ?thesis
  proof (cases r)
    case None
    then show ?thesis using run ok way i Inr by (auto simp: looked_up_def not_found_def heading_def on_the_way_def split: if_splits)
  next
    case (Some d)
    then have d: "d \<in> set docs" "cd_containerId d = rv_containerId rv" "cd_name d = name"
      using found Inr by (auto simp: find_answer_def named_in_def)
    show ?thesis
    proof (cases "cd_isContainer d")
      case True
      then show ?thesis using entered_heading[OF ok(1) i ok(2) _ d(1) True d(2)] run way d(3) Inr Some by (simp add: looked_up_def)
    next
      case False
      then show ?thesis using run ok Inr Some by (auto simp: looked_up_def heading_def)
    qed
  qed
qed

text \<open>A folder inserted, by an answer that was heard or not.\<close>

lemma inserted_ok:
  assumes ok: "docs_ok docs" "cache_ok docs c" and i: "valid_id newId" and head: "heading docs target rv" and at: "rv_at rv = Inserted d"
    and row: "insert_row d out docs = Some (answer, docs')" and run: "inserted now newId d answer rv c = (rv', c')"
  shows "docs_ok docs' \<and> keeps_folders docs docs' \<and> cache_ok docs' c' \<and> heading docs' target rv'"
proof -
  obtain j n ns where d: "d = folder_row j n rv" "valid_id j" and way: "on_the_way docs target rv [n]"
      and ns: "position docs (rv_containerId rv) (rv_bucketId rv) ns"
    using head at by (auto simp: heading_def on_the_way_def)
  have docs': "docs' = docs \<and> answer \<noteq> None \<or> docs' = docs @ [d] \<and> \<not> duplicate docs d"
    using row by (auto simp: insert_row_def split: insert_outcome.splits if_splits)
  have keep: "docs_ok docs'" "keeps_folders docs docs'"
    using docs' ok(1) docs_ok_append[OF ok(1), of d] new_folder[OF ns, of j n] d by (auto simp: folder_row_def)
  show ?thesis
  proof (cases answer)
    case None
    then have "docs' = docs @ [d]" using docs' by simp
    then have mem: "d \<in> set docs'" "cd_isContainer d" "cd_containerId d = rv_containerId rv" using d by (auto simp: folder_row_def)
    have "on_the_way docs' target rv [cd_name d]" using way d position_keeps[OF _ keep(2)] by (auto simp: on_the_way_def folder_row_def)
    then show ?thesis using entered_heading[OF keep(1) i cache_ok_keeps[OF ok(2) keep(2)] _ mem] run None keep by (simp add: inserted_def)
  next
    case (Some e)
    then show ?thesis using run keep cache_ok_keeps[OF ok(2) keep(2)] by (auto simp: inserted_def heading_def)
  qed
qed

text \<open>An object row.\<close>

lemma stored_ok:
  assumes ok: "docs_ok docs" and pos: "position docs (rv_containerId rv) (rv_bucketId rv) ns"
    and rec: "createObjectRecord d rv = Inr d'" and d: "\<not> cd_isContainer d" "valid_id (cd_id d)"
    and row: "insert_row d' out docs = Some (answer, docs')"
  shows "docs_ok docs' \<and> keeps_folders docs docs' \<and> cd_name d' = cd_name d \<and>
    position docs' (cd_containerId d') (cd_bucketId d') ns"
proof -
  have d': "d' = d\<lparr>cd_containerId := rv_containerId rv, cd_bucketId := rv_bucketId rv\<rparr>" using rec by (auto simp: createObjectRecord_def split: if_splits)
  have docs': "docs' = docs \<or> docs' = docs @ [d'] \<and> \<not> duplicate docs d'"
    using row by (auto simp: insert_row_def split: insert_outcome.splits if_splits)
  have "well_placed docs d'" using pos d d' unfolding well_placed_def position_def by fastforce
  then have "well_placed (docs @ [d']) d'" using well_placed_keeps[OF _ keeps_folders_append] d d' by (auto simp: same_folder_def)
  then have keep: "docs_ok docs'" "keeps_folders docs docs'" using docs' ok docs_ok_append[OF ok, of d'] d d' by auto
  then show ?thesis using position_keeps[OF pos keep(2)] d' by simp
qed

text \<open>A lookup that ends.\<close>

lemma fetched_ok:
  assumes ok: "docs_ok docs" "cache_ok docs c" and pos: "position docs cid b (given (butlast path))"
    and found: "case answer of Inl e \<Rightarrow> True | Inr r \<Rightarrow> find_answer docs (named_in cid (last path)) r"
    and run: "fetched now answer c = (r', c')"
  shows "cache_ok docs c' \<and> call_ok docs path (Finished r')"
proof (cases "\<exists>d. answer = Inr (Some d)")
  case True
  then obtain d where d: "answer = Inr (Some d)" "d \<in> set docs" "cd_containerId d = cid" "cd_name d = last path"
    using found by (auto simp: find_answer_def named_in_def)
  have "spelled docs path d" using pos d in_bucket[OF ok(1) d(2)] by (auto simp: spelled_def)
  then show ?thesis using run d ok(2) cache_remember_ok[OF ok(2) d(2)] by (auto simp: fetched_def call_ok_def split: if_splits)
next
  case False
  then show ?thesis using run ok(2) by (auto simp: fetched_def call_ok_def split: sum.splits option.splits)
qed

text \<open>Deleting an object and setting a policy.\<close>

lemma deleted_ok:
  assumes "docs_ok docs" and "d \<in> set docs" and "\<not> cd_isContainer d"
  shows "docs_ok (filter (\<lambda>x. \<not> by_id (cd_id d) x) docs) \<and> keeps_folders docs (filter (\<lambda>x. \<not> by_id (cd_id d) x) docs)"
proof -
  have k: "keeps_folders docs (filter (\<lambda>x. \<not> by_id (cd_id d) x) docs)"
    using assms(3) same_id[OF assms(1) _ assms(2)] by (fastforce simp: keeps_folders_def by_id_def same_folder_def)
  have "docs_ok (filter (\<lambda>x. \<not> by_id (cd_id d) x) docs)" using assms(1)
    by (intro docs_ok_keeps[OF assms(1) _ _ k]) (auto simp: docs_ok_def distinct_map_filter same_folder_def)
  then show ?thesis using k by blast
qed

lemma policy_ok:
  assumes ok: "docs_ok docs"
  shows "docs_ok (snd (setBucketPolicy i pr pw dp docs)) \<and> keeps_folders docs (snd (setBucketPolicy i pr pw dp docs))"
proof -
  define f where "f d = (if bucket_by_id i d
    then d\<lparr>cd_publicRead := (case pr of None \<Rightarrow> cd_publicRead d | Some b \<Rightarrow> Some b),
           cd_publicWrite := (case pw of None \<Rightarrow> cd_publicWrite d | Some b \<Rightarrow> Some b),
           cd_deleteProtected := (case dp of None \<Rightarrow> cd_deleteProtected d | Some b \<Rightarrow> Some b)\<rparr> else d)" for d
  have same: "same_folder d (f d)" for d by (simp add: f_def same_folder_def)
  have k: "keeps_folders docs (map f docs)" using same by (auto simp: keeps_folders_def)
  have ids: "map cd_id (map f docs) = map cd_id docs" and
      names: "map (\<lambda>d. (cd_containerId d, cd_name d)) (map f docs) = map (\<lambda>d. (cd_containerId d, cd_name d)) docs"
    by (auto simp: f_def)
  have "distinct (map cd_id (map f docs))" "distinct (map (\<lambda>d. (cd_containerId d, cd_name d)) (map f docs))"
    unfolding ids names using ok by (auto simp: docs_ok_def)
  then have "docs_ok (map f docs)" using same by (intro docs_ok_keeps[OF ok _ _ k]) auto
  moreover have "snd (setBucketPolicy i pr pw dp docs) = docs \<or> snd (setBucketPolicy i pr pw dp docs) = map f docs"
    by (auto simp: setBucketPolicy_def f_def[abs_def])
  ultimately show ?thesis using ok k by auto
qed

lemma store_run_ok:
  assumes "docs_ok docs0" and "store_run docs0 s"
  shows "store_ok s"
  using assms(2)
proof (induction rule: store_run.induct)
  case run_start
  then show ?case using assms(1) by (simp add: store_ok_def initial_store_def cache_ok_def new_cache_def)
next
  case (run_step s s')
  have ok: "docs_ok (st_docs s)" "cache_ok (st_docs s) (st_cache s)"
    and calls: "\<And>n path k. st_calls s n = Some (path, k) \<Longrightarrow> call_ok (st_docs s) path k"
    using run_step.IH by (auto simp: store_ok_def)
  note upd = store_okI[OF run_step.IH]
  from run_step.hyps(2) show ?case
  proof (cases rule: store_step.cases)
    case (step_get n newId now path k c)
    have "cache_ok (st_docs s) c \<and> call_ok (st_docs s) (split_on (CHR ''/'') path) k"
      using step_get(4) walk_heading[OF ok(1) _ step_get(3) ok(2), of now "butlast (split_on (CHR ''/'') path)"
          "new_resolver (butlast (split_on (CHR ''/'') path)) False" _ _ "[]"] ok(2)
      by (auto simp: getObjectByPath_def Let_def call_ok_def new_resolver_def split: if_splits prod.splits)
    then show ?thesis using upd ok by (auto simp: step_get(1) set_call_def)
  next
    case (step_put n newId url fileName components d now rv c)
    have "cache_ok (st_docs s) c \<and> heading (st_docs s) (given components) rv"
      using walk_heading[OF ok(1) step_put(9) step_put(3) ok(2), of "[]" "given components"] by (simp add: new_resolver_def)
    then show ?thesis using upd ok step_put(5-8) by (auto simp: step_put(1) set_call_def call_ok_def)
  next
    case (step_lookup n path p rv name newId answer now rv' c)
    have "on_the_way (st_docs s) (given (butlast path)) rv [name]"
      using calls[OF step_lookup(2)] step_lookup(3) by (simp add: call_ok_def heading_def)
    then have "cache_ok (st_docs s) c \<and> heading (st_docs s) (given (butlast path)) rv'"
      using looked_up_ok[OF ok step_lookup(4) _ step_lookup(5,6)] by blast
    then show ?thesis using upd ok calls[OF step_lookup(2)] by (auto simp: step_lookup(1) set_call_def call_ok_def)
  next
    case (step_journal n path p rv newId name js answer)
    have "heading (st_docs s) (given (butlast path)) (journaled newId name answer rv)"
      using calls[OF step_journal(2)] step_journal(3)
      by (fastforce simp: call_ok_def heading_def journaled_def on_the_way_def folder_row_def split: option.splits)
    then show ?thesis using upd ok calls[OF step_journal(2)] by (auto simp: step_journal(1) set_call_def call_ok_def)
  next
    case (step_insert n path p rv d newId out answer docs now rv' c)
    have "heading (st_docs s) (given (butlast path)) rv" using calls[OF step_insert(2)] by (simp add: call_ok_def)
    then have new: "docs_ok docs \<and> keeps_folders (st_docs s) docs \<and> cache_ok docs c \<and> heading docs (given (butlast path)) rv'"
      using inserted_ok[OF ok step_insert(4) _ step_insert(3,5,6)] by blast
    then show ?thesis using upd calls[OF step_insert(2)] by (auto simp: step_insert(1) set_call_def call_ok_def)
  next
    case (step_compensate n path p rv d e js)
    then show ?thesis using upd ok calls[OF step_compensate(2)] by (auto simp: step_compensate(1) set_call_def call_ok_def heading_def)
  next
    case (step_fail n path p rv e)
    then show ?thesis using upd ok by (auto simp: step_fail(1) set_call_def call_ok_def)
  next
    case (step_fetch n path objectName rv answer now r' c)
    have pos: "position (st_docs s) (rv_containerId rv) (rv_bucketId rv) (given (butlast path))" "objectName = last path"
      using calls[OF step_fetch(2)] step_fetch(3) by (auto simp: call_ok_def heading_def)
    have "cache_ok (st_docs s) c \<and> call_ok (st_docs s) path (Finished r')"
      by (rule fetched_ok[OF ok pos(1) step_fetch(4)[unfolded pos(2)] step_fetch(5)])
    then show ?thesis using upd ok by (auto simp: step_fetch(1) set_call_def)
  next
    case (step_refuse n path d rv e)
    then show ?thesis using upd ok by (auto simp: step_refuse(1) set_call_def call_ok_def)
  next
    case (step_store n path d rv d' out answer docs)
    have pos: "position (st_docs s) (rv_containerId rv) (rv_bucketId rv) (given (butlast path))"
        "cd_name d = last path" "\<not> cd_isContainer d" "valid_id (cd_id d)"
      using calls[OF step_store(2)] step_store(3) by (auto simp: call_ok_def heading_def)
    note new = stored_ok[OF ok(1) pos(1) step_store(4) pos(3,4) step_store(5)]
    have "call_ok docs path (Finished (case answer of Some e \<Rightarrow> Inl e | None \<Rightarrow> Inr d'))"
      using new pos(2) by (auto simp: call_ok_def spelled_def split: option.splits)
    then show ?thesis using upd new cache_ok_keeps[OF ok(2)] by (auto simp: step_store(1) set_call_def)
  next
    case (step_delete d)
    note k = deleted_ok[OF ok(1) step_delete(2,3)]
    then show ?thesis using store_ok_calls[OF run_step.IH] cache_ok_keeps[OF ok(2)] by (simp add: step_delete(1))
  next
    case (step_policy i pr pw dp)
    note k = policy_ok[OF ok(1), of i pr pw dp]
    then show ?thesis using store_ok_calls[OF run_step.IH] cache_ok_keeps[OF ok(2)] by (simp add: step_policy)
  next
    case (step_sweep now)
    then show ?thesis using store_ok_calls[OF run_step.IH, of s'] ok cache_sweep_ok[OF ok(2)] by simp
  qed
qed

lemma store_okD:
  assumes "store_ok s"
  shows "docs_ok (st_docs s)" and "cache_ok (st_docs s) (st_cache s)" and "st_calls s n = Some (path, k) \<Longrightarrow> call_ok (st_docs s) path k"
  using assms by (auto simp: store_ok_def)

section \<open>What a lookup finds\<close>

text \<open>A small store: a bucket, and an object in it.\<close>

definition example_bucket :: content_doc where
  "example_bucket = \<lparr>cd_id = ''00000000000000000000000a'', cd_containerId = None, cd_bucketId = Some ''00000000000000000000000a'',
     cd_name = ''photos'', cd_isContainer = True, cd_isFile = False, cd_publicRead = None, cd_publicWrite = None, cd_deleteProtected = None\<rparr>"

definition example_object :: content_doc where
  "example_object = \<lparr>cd_id = ''00000000000000000000000b'', cd_containerId = Some ''00000000000000000000000a'',
     cd_bucketId = Some ''00000000000000000000000a'', cd_name = ''cat'', cd_isContainer = False, cd_isFile = True,
     cd_publicRead = None, cd_publicWrite = None, cd_deleteProtected = None\<rparr>"

lemma example_docs_ok: "docs_ok [example_bucket, example_object]"
proof -
  have b: "folder_at [example_bucket, example_object] example_bucket [cd_name example_bucket] (cd_id example_bucket)"
    by (rule folder_top) (simp_all add: example_bucket_def)
  then have "well_placed [example_bucket, example_object] example_bucket"
    unfolding well_placed_def by (auto simp: example_bucket_def)
  moreover have "well_placed [example_bucket, example_object] example_object"
    using b unfolding well_placed_def by (auto simp: example_object_def example_bucket_def)
  ultimately show ?thesis by (auto simp: docs_ok_def valid_id_def) (simp_all add: example_bucket_def example_object_def)
qed

lemma example_run:
  "\<exists>s. store_run [example_bucket, example_object] s \<and> st_docs s = [example_bucket, example_object] \<and>
     st_calls s 0 = Some ([''photos'', ''cat''], Finished (Inr example_object))"
proof -
  let ?docs = "[example_bucket, example_object]"
  have id: "valid_id ''00000000000000000000000c''" by (simp add: valid_id_def)
  define rv where "rv = (new_resolver [''photos''] False)\<lparr>rv_components := [], rv_at := LookedUp ''photos''\<rparr>"
  define s1 where "s1 = set_call 0 [''photos'', ''cat''] (Pending (FetchObject ''cat'') rv) (initial_store ?docs)"
  have "getObjectByPath 0 ''00000000000000000000000c'' ''photos/cat'' new_cache = (Pending (FetchObject ''cat'') rv, new_cache)"
    by (simp add: getObjectByPath_def new_resolver_def cache_get_def new_cache_def rv_def Let_def)
  then have "store_step (initial_store ?docs) s1"
    using step_get[of "initial_store ?docs" 0 "''00000000000000000000000c''" 0 "''photos/cat''"] id
    by (simp add: s1_def initial_store_def set_call_def)
  then have r1: "store_run ?docs s1" using run_step run_start by blast
  obtain rv2 c where l: "looked_up 0 ''00000000000000000000000c'' ''photos'' (Inr (Some example_bucket)) rv (st_cache s1) = (rv2, c)" by fastforce
  then have rv2: "rv_at rv2 = Resolved" "rv_containerId rv2 = Some ''00000000000000000000000a''"
    by (auto simp: looked_up_def example_bucket_def entered_def rv_def new_resolver_def enter_def)
  define s2 where "s2 = set_call 0 [''photos'', ''cat''] (Pending (FetchObject ''cat'') rv2) (s1\<lparr>st_cache := c\<rparr>)"
  have "store_step s1 s2" unfolding s2_def
    by (rule step_lookup[OF _ _ id _ l])
       (auto simp: s1_def set_call_def initial_store_def rv_def new_resolver_def find_answer_def named_in_def example_bucket_def)
  then have r2: "store_run ?docs s2" using run_step r1 by blast
  define s3 where "s3 = set_call 0 [''photos'', ''cat''] (Finished (Inr example_object)) (s2\<lparr>st_cache := st_cache s2\<rparr>)"
  have "store_step s2 s3" unfolding s3_def
    by (rule step_fetch[where answer = "Inr (Some example_object)" and now = 0])
       (auto simp: s2_def s1_def set_call_def initial_store_def rv2 find_answer_def named_in_def fetched_def example_object_def)
  then have "store_run ?docs s3" using run_step r2 by blast
  moreover have "st_docs s3 = ?docs" by (simp add: s3_def s2_def s1_def set_call_def initial_store_def)
  moreover have "st_calls s3 0 = Some ([''photos'', ''cat''], Finished (Inr example_object))"
    by (simp add: s3_def set_call_def)
  ultimately show ?thesis by blast
qed

lemma only_bucket:
  assumes "docs_ok docs" and "r \<in> set docs" and "bucket_named n r"
  shows "filter (bucket_named n) docs = [r]"
proof -
  have "\<forall>d\<in>set docs. bucket_named n d \<longleftrightarrow> d = r" using same_name[OF assms(1) _ assms(2)] assms(3) by (auto simp: bucket_named_def)
  then have "filter (bucket_named n) docs = filter ((=) r) docs" by (intro filter_cong) auto
  also have "\<dots> = [r]"
  proof -
    have "distinct docs" using assms(1) by (auto simp: docs_ok_def distinct_map)
    then show ?thesis using assms(2) by (induction docs) (auto simp: filter_empty_conv)
  qed
  finally show ?thesis .
qed

lemma spelled_bucket:
  assumes "docs_ok docs" and "spelled docs path d"
  shows "case given (butlast path) of
      [] \<Rightarrow> cd_containerId d = None
    | b # _ \<Rightarrow> \<exists>p r. folder_at docs p (given (butlast path)) (cd_id r) \<and> cd_containerId d = Some (cd_id p) \<and>
        filter (bucket_named b) docs = [r] \<and> cd_bucketId d = Some (cd_id r)"
proof -
  obtain bk where bk: "position docs (cd_containerId d) bk (given (butlast path))" "cd_containerId d \<noteq> None \<longrightarrow> cd_bucketId d = bk"
    using assms(2) by (auto simp: spelled_def)
  show ?thesis
  proof (cases "cd_containerId d")
    case None
    then show ?thesis using bk(1) by (auto simp: position_def)
  next
    case (Some c)
    then obtain p b where p: "folder_at docs p (given (butlast path)) b" "c = cd_id p" "bk = Some b" using bk(1) by (auto simp: position_def)
    obtain r where r: "r \<in> set docs" "cd_id r = b" "bucket_named (hd (given (butlast path))) r" using bucket_is_first[OF p(1)] by blast
    have "given (butlast path) \<noteq> []" using folder_at_in[OF p(1)] by blast
    then show ?thesis using p r bk(2) Some only_bucket[OF assms(1) r(1,3)] by (auto split: list.splits)
  qed
qed

lemma found_spelled:
  assumes "docs_ok docs0" and "store_run docs0 s" and "st_calls s n = Some (path, Finished (Inr d))"
  shows "docs_ok (st_docs s)" and "spelled (st_docs s) path d"
  using store_okD[OF store_run_ok[OF assms(1,2)]] assms(3) by (fastforce simp: call_ok_def)+

text \<open>
  C17. Whatever calls interleave and whatever fails, a path leads to the row it spells out, folder by folder, and
  the row carries the one bucket that the first component of the path names. So the bucket that is checked
  by name and the bucket of what is served are the same.
\<close>

theorem lookup_stays_in_its_bucket:
  assumes "docs_ok docs0" and "store_run docs0 s" and "st_calls s n = Some (path, Finished (Inr d))"
  shows "cd_name d = last path \<and>
    (case given (butlast path) of
       [] \<Rightarrow> cd_containerId d = None
     | b # _ \<Rightarrow> \<exists>p r. folder_at (st_docs s) p (given (butlast path)) (cd_id r) \<and> cd_containerId d = Some (cd_id p) \<and>
         filter (bucket_named b) (st_docs s) = [r] \<and> cd_bucketId d = Some (cd_id r))"
proof
  have found: "spelled (st_docs s) path d" by (rule found_spelled[OF assms])
  then show "cd_name d = last path" by (simp add: spelled_def)
  show "case given (butlast path) of
       [] \<Rightarrow> cd_containerId d = None
     | b # _ \<Rightarrow> \<exists>p r. folder_at (st_docs s) p (given (butlast path)) (cd_id r) \<and> cd_containerId d = Some (cd_id p) \<and>
         filter (bucket_named b) (st_docs s) = [r] \<and> cd_bucketId d = Some (cd_id r)"
    by (rule spelled_bucket[OF found_spelled(1)[OF assms] found])
qed

theorem lookup_stays_in_its_bucket_witness:
  "\<exists>s p r. store_run [example_bucket, example_object] s \<and> folder_at (st_docs s) p [''photos''] (cd_id r) \<and>
     filter (bucket_named ''photos'') (st_docs s) = [r] \<and> cd_bucketId example_object = Some (cd_id r)"
proof -
  obtain s where s: "store_run [example_bucket, example_object] s" "st_calls s 0 = Some ([''photos'', ''cat''], Finished (Inr example_object))"
    using example_run by blast
  show ?thesis using lookup_stays_in_its_bucket[OF example_docs_ok s] s(1) by auto
qed

section \<open>Folders in the journal\<close>

definition noted :: "content_doc list \<Rightarrow> container_note list \<Rightarrow> string \<Rightarrow> bool" where
  "noted docs0 js i \<longleftrightarrow> (\<exists>e\<in>set docs0. cd_id e = i) \<or> (\<exists>c n. ContainerNote i c n \<in> set js)"

definition parents_noted :: "content_doc list \<Rightarrow> container_note list \<Rightarrow> bool" where
  "parents_noted docs0 js \<longleftrightarrow> (\<forall>xs i c n ys. js = xs @ ContainerNote i (Some c) n # ys \<longrightarrow> noted docs0 xs c)"

definition folder_noted :: "content_doc list \<Rightarrow> container_note list \<Rightarrow> content_doc \<Rightarrow> bool" where
  "folder_noted docs0 js d \<longleftrightarrow> (\<exists>e\<in>set docs0. same_folder d e) \<or> ContainerNote (cd_id d) (cd_containerId d) (cd_name d) \<in> set js"

definition journal_ok :: "content_doc list \<Rightarrow> content_store \<Rightarrow> bool" where
  "journal_ok docs0 s \<longleftrightarrow> (\<forall>d\<in>set (st_docs s). cd_isContainer d \<longrightarrow> folder_noted docs0 (st_journal s) d) \<and>
     parents_noted docs0 (st_journal s) \<and>
     (\<forall>n path p rv d. st_calls s n = Some (path, Pending p rv) \<longrightarrow> rv_at rv = Inserted d \<longrightarrow> folder_noted docs0 (st_journal s) d)"

lemma same_folder_refl [simp]: "same_folder d d"
  by (simp add: same_folder_def)

lemma folder_noted_more: "folder_noted docs0 js d \<Longrightarrow> folder_noted docs0 (js @ ks) d"
  by (auto simp: folder_noted_def)

lemma folder_noted_id: "folder_noted docs0 js d \<Longrightarrow> noted docs0 js (cd_id d)"
  by (auto simp: folder_noted_def noted_def same_folder_def)

lemma folder_noted_same: "folder_noted docs0 js d \<Longrightarrow> same_folder d e \<Longrightarrow> folder_noted docs0 js e"
  by (auto simp: folder_noted_def same_folder_def)

lemma parents_noted_snoc:
  assumes "parents_noted docs0 js" and "\<And>c. note = ContainerNote i (Some c) n \<Longrightarrow> noted docs0 js c"
    and "note = ContainerNote i c0 n \<or> note = RemoveNote i"
  shows "parents_noted docs0 (js @ [note])"
  unfolding parents_noted_def
proof (intro allI impI)
  fix xs i' c n' ys
  assume e: "js @ [note] = xs @ ContainerNote i' (Some c) n' # ys"
  show "noted docs0 xs c"
  proof (cases ys rule: rev_cases)
    case Nil
    then show ?thesis using e assms(2,3) by auto
  next
    case (snoc zs z)
    then have "js = xs @ ContainerNote i' (Some c) n' # zs" using e by simp
    then show ?thesis using assms(1) by (simp add: parents_noted_def)
  qed
qed

text \<open>A step that leaves the journal alone adds no folder but the one that was journaled.\<close>

lemma journal_okI:
  assumes "journal_ok docs0 s" and "st_journal s' = st_journal s"
    and "\<And>d. d \<in> set (st_docs s') \<Longrightarrow> cd_isContainer d \<Longrightarrow>
      d \<in> set (st_docs s) \<or> (\<exists>e\<in>set (st_docs s). same_folder e d) \<or> folder_noted docs0 (st_journal s) d"
    and "\<And>n path p rv d. st_calls s' n = Some (path, Pending p rv) \<Longrightarrow> rv_at rv = Inserted d \<Longrightarrow> st_calls s n = Some (path, Pending p rv)"
  shows "journal_ok docs0 s'"
proof -
  have "folder_noted docs0 (st_journal s) d" if d: "d \<in> set (st_docs s')" "cd_isContainer d" for d
  proof (cases "folder_noted docs0 (st_journal s) d")
    case False
    then obtain e where "e \<in> set (st_docs s)" "same_folder e d" using assms(3)[OF d] same_folder_refl by blast
    moreover have "cd_isContainer e" using calculation(2) d(2) by (simp add: same_folder_def)
    ultimately show ?thesis using assms(1) folder_noted_same by (auto simp: journal_ok_def)
  qed
  then show ?thesis using assms(1,2,4) unfolding journal_ok_def by metis
qed

lemma walk_not_inserting: "walk_components now newId cs rv c = (rv', c') \<Longrightarrow> rv_at rv' \<noteq> Inserted d"
  by (induction now newId cs rv c rule: walk_components.induct) (auto simp: not_found_def Let_def split: if_splits option.splits prod.splits)

lemma lookup_not_inserting: "looked_up now newId name answer rv c = (rv', c') \<Longrightarrow> rv_at rv' \<noteq> Inserted d"
  by (auto simp: looked_up_def not_found_def entered_def split: sum.splits option.splits if_splits dest: walk_not_inserting)

lemma insert_not_inserting: "inserted now newId e answer rv c = (rv', c') \<Longrightarrow> rv_at rv' \<noteq> Inserted d"
  by (auto simp: inserted_def entered_def split: option.splits dest: walk_not_inserting)

lemma get_not_inserting: "getObjectByPath now newId path c = (Pending p rv, c') \<Longrightarrow> rv_at rv \<noteq> Inserted d"
  by (auto simp: getObjectByPath_def Let_def split: if_splits prod.splits dest: walk_not_inserting)

lemma insert_row_in: "insert_row d out docs = Some (answer, docs') \<Longrightarrow> e \<in> set docs' \<Longrightarrow> e \<in> set docs \<or> e = d"
  by (auto simp: insert_row_def split: insert_outcome.splits if_splits)

lemma policy_in: "e \<in> set (snd (setBucketPolicy i pr pw dp docs)) \<Longrightarrow> \<exists>d\<in>set docs. same_folder d e"
  by (auto simp: setBucketPolicy_def same_folder_def split: if_splits)

lemma journal_ok_note:
  assumes "journal_ok docs0 s" and "st_docs s' = st_docs s" and "st_journal s' = st_journal s @ js"
    and "parents_noted docs0 (st_journal s @ js)"
    and "\<And>m path p rv d. st_calls s' m = Some (path, Pending p rv) \<Longrightarrow> rv_at rv = Inserted d \<Longrightarrow>
      st_calls s m = Some (path, Pending p rv) \<or> folder_noted docs0 (st_journal s @ js) d"
  shows "journal_ok docs0 s'"
  using assms(1,2,3,4) assms(5) folder_noted_more unfolding journal_ok_def by metis

lemma journaled_place:
  assumes "docs_ok docs" and "heading docs target rv" and "rv_at rv = Journaled i n" and "rv_containerId rv = Some c"
  shows "\<exists>q\<in>set docs. cd_isContainer q \<and> cd_id q = c"
  using assms(2-4) folder_at_in by (fastforce simp: heading_def on_the_way_def position_def)

lemma journal_step:
  assumes "journal_ok docs0 s" and ok: "store_ok s" and "store_step s s'"
  shows "journal_ok docs0 s'"
  using assms(3)
proof (cases rule: store_step.cases)
  case (step_get n newId now path k c)
  then show ?thesis using assms(1) by (intro journal_okI[OF assms(1)]) (auto simp: set_call_def dest: get_not_inserting split: if_splits)
next
  case (step_put n newId url fileName components d now rv c)
  then show ?thesis using assms(1) by (intro journal_okI[OF assms(1)]) (auto simp: set_call_def dest: walk_not_inserting split: if_splits)
next
  case (step_lookup n path p rv name newId answer now rv' c)
  then show ?thesis using assms(1) by (intro journal_okI[OF assms(1)]) (auto simp: set_call_def dest: lookup_not_inserting split: if_splits)
next
  case (step_journal n path p rv newId name js answer)
  have at: "heading (st_docs s) (given (butlast path)) rv" using store_okD(3)[OF ok step_journal(2)] by (simp add: call_ok_def)
  have parents: "parents_noted docs0 (st_journal s @ js)"
  proof (cases "js = []")
    case True
    then show ?thesis using assms(1) by (simp add: journal_ok_def)
  next
    case False
    then have "js = [ContainerNote newId (rv_containerId rv) name]" using step_journal(4) by blast
    moreover have "noted docs0 (st_journal s) c" if "rv_containerId rv = Some c" for c
      using journaled_place[OF store_okD(1)[OF ok] at step_journal(3) that] assms(1) folder_noted_id by (fastforce simp: journal_ok_def)
    ultimately show ?thesis using assms(1)
      parents_noted_snoc[of docs0 "st_journal s" "ContainerNote newId (rv_containerId rv) name" newId name "rv_containerId rv"]
      by (auto simp: journal_ok_def)
  qed
  have "folder_noted docs0 (st_journal s @ js) d" if "rv_at (journaled newId name answer rv) = Inserted d" for d
    using that step_journal(4,5) by (auto simp: journaled_def folder_noted_def folder_row_def split: option.splits)
  then show ?thesis using step_journal parents by (intro journal_ok_note[OF assms(1)]) (auto simp: set_call_def split: if_splits)
next
  case (step_insert n path p rv d newId out answer docs now rv' c)
  have "folder_noted docs0 (st_journal s) d" using assms(1) step_insert(2,3) by (auto simp: journal_ok_def)
  moreover have "e \<in> set (st_docs s) \<or> e = d" if "e \<in> set docs" for e using insert_row_in[OF step_insert(5) that] .
  ultimately show ?thesis using step_insert(1,6) assms(1)
    by (intro journal_okI[OF assms(1)]) (auto simp: set_call_def dest: insert_not_inserting split: if_splits)
next
  case (step_compensate n path p rv d e js)
  have "parents_noted docs0 (st_journal s @ js)"
    using step_compensate(4) assms(1) parents_noted_snoc[of docs0 "st_journal s" "RemoveNote (cd_id d)" "cd_id d"]
    by (auto simp: journal_ok_def)
  then show ?thesis using step_compensate by (intro journal_ok_note[OF assms(1)]) (auto simp: set_call_def split: if_splits)
next
  case (step_store n path d rv d' out answer docs)
  have "\<not> cd_isContainer d'"
    using store_okD(3)[OF ok step_store(2)] step_store(4) by (auto simp: call_ok_def createObjectRecord_def split: if_splits)
  moreover have "e \<in> set (st_docs s) \<or> e = d'" if "e \<in> set docs" for e using insert_row_in[OF step_store(5) that] .
  ultimately show ?thesis using step_store(1) assms(1) by (intro journal_okI[OF assms(1)]) (auto simp: set_call_def split: if_splits)
next
  case (step_policy i pr pw dp)
  then show ?thesis using assms(1) policy_in by (intro journal_okI[OF assms(1)]) auto
next
  case (step_delete d)
  then show ?thesis using assms(1) by (intro journal_okI[OF assms(1)]) auto
qed (use assms(1) in \<open>intro journal_okI[OF assms(1)]; auto simp: set_call_def split: if_splits\<close>)+

text \<open>
  C18. In every interleaving, every folder that is not from before was journaled before its row was inserted, as the row
  has it, and the journal has every folder behind its parent.
\<close>

theorem folders_journaled_first:
  assumes "docs_ok docs0" and "store_run docs0 s"
  shows "(\<forall>d\<in>set (st_docs s). cd_isContainer d \<longrightarrow> folder_noted docs0 (st_journal s) d) \<and> parents_noted docs0 (st_journal s)"
proof -
  have "journal_ok docs0 s" using assms(2)
  proof (induction rule: store_run.induct)
    case run_start
    then show ?case by (auto simp: journal_ok_def initial_store_def folder_noted_def parents_noted_def intro!: bexI)
  next
    case (run_step s s')
    then show ?case using journal_step store_run_ok[OF assms(1)] by blast
  qed
  then show ?thesis by (simp add: journal_ok_def)
qed

text \<open>An upload to a folder that is not there yet.\<close>

lemma example_upload:
  "\<exists>s d. store_run [] s \<and> d \<in> set (st_docs s) \<and> cd_isContainer d \<and> cd_name d = ''photos'' \<and>
     st_journal s = [ContainerNote ''00000000000000000000000c'' None ''photos'']"
proof -
  let ?i = "''00000000000000000000000c''"
  have id: "valid_id ?i" by (simp add: valid_id_def)
  define o' where "o' = example_object\<lparr>cd_containerId := None, cd_bucketId := None\<rparr>"
  define rv where "rv = (new_resolver [''photos''] True)\<lparr>rv_components := [], rv_at := LookedUp ''photos''\<rparr>"
  define s1 where "s1 = set_call 0 [''photos'', ''cat''] (Pending (StoreObject o') rv) (initial_store [])"
  have "walk_components 0 ?i [''photos''] (new_resolver [''photos''] True) new_cache = (rv, new_cache)"
    by (simp add: new_resolver_def cache_get_def new_cache_def rv_def)
  moreover have "extractPathComponents ''/photos/cat'' = (''cat'', [''photos''])" by code_simp
  ultimately have "store_step (initial_store []) s1"
    using step_put[of "initial_store []" 0 ?i "''/photos/cat''" "''cat''" "[''photos'']" o' 0 rv new_cache] id
    by (simp add: s1_def initial_store_def set_call_def o'_def example_object_def valid_id_def)
  then have r1: "store_run [] s1" using run_step run_start by blast
  define rv2 where "rv2 = rv\<lparr>rv_shouldSkipLookup := True, rv_at := Journaled ?i ''photos''\<rparr>"
  define s2 where "s2 = set_call 0 [''photos'', ''cat''] (Pending (StoreObject o') rv2) (s1\<lparr>st_cache := st_cache s1\<rparr>)"
  have "store_step s1 s2" unfolding s2_def
    by (rule step_lookup[OF _ _ id, where answer = "Inr None" and now = 0 and name = "''photos''"])
       (auto simp: s1_def set_call_def initial_store_def rv_def rv2_def new_resolver_def find_answer_def looked_up_def not_found_def)
  then have r2: "store_run [] s2" using run_step r1 by blast
  define s3 where "s3 = set_call 0 [''photos'', ''cat''] (Pending (StoreObject o') (journaled ?i ''photos'' None rv2))
    (s2\<lparr>st_journal := st_journal s2 @ [ContainerNote ?i (rv_containerId rv2) ''photos'']\<rparr>)"
  have "store_step s2 s3" unfolding s3_def
    by (rule step_journal) (auto simp: s2_def set_call_def rv2_def)
  then have r3: "store_run [] s3" using run_step r2 by blast
  let ?d = "folder_row ?i ''photos'' rv2"
  obtain rv4 c where ins: "inserted 0 ?i ?d None (journaled ?i ''photos'' None rv2) (st_cache s3) = (rv4, c)" by fastforce
  define s4 where "s4 = set_call 0 [''photos'', ''cat''] (Pending (StoreObject o') rv4) (s3\<lparr>st_docs := [?d], st_cache := c\<rparr>)"
  have "store_step s3 s4" unfolding s4_def
    by (rule step_insert[OF _ _ id _ ins, where out = InsertDone])
       (auto simp: s3_def s2_def s1_def set_call_def initial_store_def journaled_def insert_row_def duplicate_def)
  then have "store_run [] s4" using run_step r3 by blast
  moreover have "st_docs s4 = [?d]" "st_journal s4 = [ContainerNote ?i None ''photos'']"
    by (simp_all add: s4_def s3_def s2_def s1_def set_call_def initial_store_def rv2_def rv_def new_resolver_def)
  moreover have "cd_isContainer ?d" "cd_name ?d = ''photos''" by (simp_all add: folder_row_def)
  ultimately show ?thesis by (intro exI[of _ s4] exI[of _ ?d]) simp
qed

theorem folders_journaled_first_witness:
  "\<exists>s d. store_run [] s \<and> d \<in> set (st_docs s) \<and> folder_noted [] (st_journal s) d"
proof -
  obtain s d where s: "store_run [] s" "d \<in> set (st_docs s)" "cd_isContainer d" using example_upload by blast
  have "docs_ok []" by (simp add: docs_ok_def)
  then show ?thesis using folders_journaled_first[OF _ s(1)] s by blast
qed

end
