(* ===== verification/Object_Authz_Safety.thy ===== *)
theory Object_Authz_Safety
  imports Object_Authz Container_Paths
begin

text \<open>
  What \<open>Object_Authz\<close> promises in every interleaving: the bounds on its caches and on concurrent verifications, and that once
  the switch is on and the caches were cleared, whatever is allowed is backed by a row the database held
  since: a public bucket, or a credential that was enabled, matched the secret and carried the grant.
\<close>

section \<open>Bounds\<close>

definition verifying :: "request \<Rightarrow> bool" where
  "verifying rq \<longleftrightarrow> (case rq_stage rq of AwaitRecord b e \<Rightarrow> True | GotRecord b e a \<Rightarrow> True | AwaitScrypt b e r \<Rightarrow> True | _ \<Rightarrow> False)"

lemma length_filter_update:
  "i < length xs \<Longrightarrow> length (filter P (xs[i := y])) + (if P (xs ! i) then 1 else 0) = length (filter P xs) + (if P y then 1 else 0)"
proof (induction xs arbitrary: i)
  case (Cons x xs)
  then show ?case by (cases i) (auto split: if_splits)
qed simp

lemma length_update: "length (AList.update k v xs) = (if k \<in> fst ` set xs then length xs else length xs + 1)"
  using arg_cong[OF AList.update_keys[of k v xs], of length] by auto

definition counters_ok :: "(string \<times> nat \<times> nat) list \<Rightarrow> bool" where
  "counters_ok cs \<longleftrightarrow> length cs \<le> COUNTER_MAX_KEYS + (if OVERFLOW_KEY \<in> fst ` set cs then 1 else 0)"

lemma countRequest_ok: "counters_ok cs \<Longrightarrow> counters_ok (countRequest key h cs)"
proof (cases "map_of cs key")
  case None
  assume ok: "counters_ok cs"
  show ?thesis
  proof (cases "COUNTER_MAX_KEYS \<le> length cs")
    case True
    then show ?thesis using ok None unfolding counters_ok_def countRequest_def
      by (simp add: Let_def length_update dom_update[simplified dom_map_of_conv_image_fst] split: if_splits)
  next
    case False
    then show ?thesis using None unfolding counters_ok_def countRequest_def by (simp add: Let_def length_update)
  qed
next
  case (Some c)
  assume ok: "counters_ok cs"
  have "key \<in> fst ` set cs" using map_of_SomeD[OF Some] by force
  then show ?thesis using ok Some unfolding counters_ok_def countRequest_def
    by (auto simp: Let_def length_update dom_update[simplified dom_map_of_conv_image_fst])
qed

definition bounded :: "authz \<Rightarrow> bool" where
  "bounded s \<longleftrightarrow> az_verifyInFlight s = length (filter verifying (az_requests s)) \<and> az_verifyInFlight s \<le> VERIFY_MAX_CONCURRENT \<and>
     length (az_credCache s) \<le> CRED_CACHE_MAX \<and> counters_ok (az_counters s)"

lemma remember_bounded:
  assumes "length (az_credCache s) \<le> CRED_CACHE_MAX"
  shows "length (az_credCache (rememberVerified ops i now e g s)) \<le> CRED_CACHE_MAX"
proof -
  have "length (sweepCredCache now c) < CRED_CACHE_MAX" for c
    by (auto simp: sweepCredCache_def Let_def CRED_CACHE_MAX_def)
  then have "length (sweepCredCache now c) < CRED_CACHE_MAX \<and> length (sweepCredCache now c) \<le> CRED_CACHE_MAX" for c
    by (simp add: less_imp_le)
  then show ?thesis using assms by (auto simp: rememberVerified_def Let_def length_update Suc_le_eq)
qed

lemma remember_slots [simp]:
  "az_verifyInFlight (rememberVerified ops i now e g s) = az_verifyInFlight s"
  "az_requests (rememberVerified ops i now e g s) = az_requests s"
  "az_counters (rememberVerified ops i now e g s) = az_counters s"
  by (auto simp: rememberVerified_def Let_def)

lemma release_slots [simp]:
  "az_verifyInFlight (releaseSlot s) = az_verifyInFlight s - 1" "az_requests (releaseSlot s) = az_requests s"
  "az_counters (releaseSlot s) = az_counters s" "az_credCache (releaseSlot s) = az_credCache s"
  by (simp_all add: releaseSlot_def)

lemma bounded_set:
  assumes "bounded s" and "n < length (az_requests s)" and "az_requests s' = az_requests s"
    and "az_verifyInFlight s' + (if verifying (az_requests s ! n) then 1 else 0) = az_verifyInFlight s + (if verifying rq then 1 else 0)"
    and "az_verifyInFlight s' \<le> VERIFY_MAX_CONCURRENT" and "length (az_credCache s') \<le> CRED_CACHE_MAX" and "counters_ok (az_counters s')"
  shows "bounded (set_request n (rq, s'))"
  using assms length_filter_update[of n "az_requests s" verifying rq] by (simp add: bounded_def set_request_def)

lemma bounded_swap:
  assumes "bounded s" and "n < length (az_requests s)" and "verifying rq \<longleftrightarrow> verifying (az_requests s ! n)"
  shows "bounded (set_request n (rq, s))"
  using assms bounded_set[OF assms(1,2) refl, of rq] by (auto simp: bounded_def)

text \<open>The slots held are counted, so a verification that ends gives back one that was taken.\<close>

lemma verifying_counted:
  "bounded s \<Longrightarrow> n < length (az_requests s) \<Longrightarrow> verifying (az_requests s ! n) \<Longrightarrow> 0 < az_verifyInFlight s"
  using filter_empty_conv[of verifying "az_requests s"] by (auto simp: bounded_def)

lemma verified_bounded:
  assumes "bounded s" and "n < length (az_requests s)" and "verifying (az_requests s ! n)"
  shows "bounded (set_request n (verified ops i b e g (az_requests s ! n) s))"
proof -
  have "0 < az_verifyInFlight s" by (rule verifying_counted[OF assms])
  then show ?thesis unfolding verified_def using assms remember_bounded[of "releaseSlot s"]
    by (intro bounded_set[OF assms(1,2)]) (auto simp: bounded_def verifying_def[of "_\<lparr>rq_stage := _\<rparr>"])
qed

lemma bucket_found_bounded:
  assumes "bounded s" and "n < length (az_requests s)" and "\<not> verifying (az_requests s ! n)"
  shows "bounded (set_request n (bucket_found ops answer (az_requests s ! n) s))"
proof -
  obtain rq s' where r: "bucket_found ops answer (az_requests s ! n) s = (rq, s')" by fastforce
  have "az_requests s' = az_requests s \<and> az_credCache s' = az_credCache s \<and> az_counters s' = az_counters s \<and>
      az_verifyInFlight s' = az_verifyInFlight s + (if verifying rq then 1 else 0) \<and> az_verifyInFlight s' \<le> VERIFY_MAX_CONCURRENT"
    using r assms(1) unfolding bucket_found_def
    by (auto simp: verifyCredential_def takeSlot_def verifying_def bounded_def Let_def split: sum.splits option.splits if_splits)
  then show ?thesis unfolding r using assms by (intro bounded_set[OF assms(1,2)]) (auto simp: bounded_def)
qed

lemma isAuthEnforced_frame:
  "isAuthEnforced now s = (r, s') \<Longrightarrow> az_requests s' = az_requests s \<and> az_verifyInFlight s' = az_verifyInFlight s \<and>
     az_credCache s' = az_credCache s \<and> az_counters s' = az_counters s \<and> az_credCacheEpoch s' = az_credCacheEpoch s \<and>
     az_enforcedCache s' = az_enforcedCache s \<and> az_enforcedEpoch s' = az_enforcedEpoch s \<and> az_flag s' = az_flag s \<and>
     az_credentials s' = az_credentials s \<and> az_docs s' = az_docs s"
  by (auto simp: isAuthEnforced_def joinFlight_def split: option.splits if_splits)

lemma flagged_not_verifying: "\<not> verifying (flagged v rq)"
  by (auto simp: flagged_def verifying_def split: bucket_ref.splits)

lemma started_bounded:
  assumes "bounded s" and "authorizeObjectRequest ops u m h now s = (rq, s')"
  shows "bounded (s'\<lparr>az_requests := az_requests s' @ [rq]\<rparr>)"
proof -
  obtain s1 r where s1: "isAuthEnforced now s1 = (r, s')" "s1 = s\<lparr>az_counters := az_counters s1\<rparr>" "counters_ok (az_counters s1)"
      and "\<not> verifying rq"
    using assms countRequest_ok unfolding authorizeObjectRequest_def
    by (auto simp: Let_def bounded_def flagged_not_verifying split: prod.splits flag_answer.splits) (auto simp: verifying_def)
  then show ?thesis using assms(1) isAuthEnforced_frame[OF s1(1)]
    by (auto simp: bounded_def) (metis authz.select_convs authz.surjective authz.update_convs(4))+
qed

lemma bounded_step: "authz_step ops s s' \<Longrightarrow> bounded s \<Longrightarrow> bounded s'"
proof (induction rule: authz_step.cases)
  case (request_starts rawUrl methd authHeader now s rq s')
  then show ?case using started_bounded by blast
next
  case (flag_awaited n s f v)
  have "\<not> verifying (az_requests s ! n)" using flag_awaited(4) by (simp add: verifying_def)
  then show ?case using flag_awaited bounded_swap flagged_not_verifying by blast
next
  case (bucket_named_step n s b answer)
  then show ?case using bucket_found_bounded by (simp add: verifying_def)
next
  case (object_step n s i answer)
  have "\<not> verifying (object_found answer (az_requests s ! n))" "\<not> verifying (az_requests s ! n)"
    using object_step(4) by (auto simp: object_found_def verifying_def split: sum.splits option.splits)
  then show ?case using object_step bounded_swap by blast
next
  case (bucket_id_step n s b answer)
  then show ?case using bucket_found_bounded by (simp add: verifying_def)
next
  case (record_seen n s b epoch i answer e)
  then show ?case using bounded_swap[of s n] by (simp add: verifying_def)
next
  case (record_returns n s b epoch answer i)
  have v: "verifying (az_requests s ! n)" using record_returns(4) by (simp add: verifying_def)
  have b: "bounded s" using record_returns by simp
  have "bounded (set_request n ((az_requests s ! n)\<lparr>rq_stage := Decided unavailable\<rparr>, releaseSlot s))"
    using verifying_counted[OF b record_returns(3) v] v b record_returns(3)
    by (intro bounded_set[OF b]) (auto simp: bounded_def verifying_def[of "_\<lparr>rq_stage := _\<rparr>"])
  moreover have "bounded (set_request n ((az_requests s ! n)\<lparr>rq_stage := AwaitScrypt b epoch r\<rparr>, s))" for b epoch r
    using v by (intro bounded_swap[OF b record_returns(3)]) (simp add: verifying_def)
  ultimately show ?case using verified_bounded[OF b record_returns(3) v] record_returns(2)
    by (auto simp: record_found_def split: sum.splits option.splits)
next
  case (scrypt_returns n s b epoch r i)
  have v: "verifying (az_requests s ! n)" using scrypt_returns(4) by (simp add: verifying_def)
  then show ?case using verified_bounded scrypt_returns by (simp add: scrypt_done_def)
qed (auto simp: bounded_def flag_read_def flag_settled_def invalidateAuthEnforcedCache_def clearCredentialCache_def counters_ok_def Let_def)

text \<open>
  C23. At every moment, whatever requests interleave and however they end, at most four verifications run, as many as the
  counter says, and the cache of verified credentials and the counters of the buckets stay within their bounds.
\<close>

theorem authz_bounded:
  assumes "authz_run ops s"
  shows "az_verifyInFlight s = length (filter verifying (az_requests s)) \<and> az_verifyInFlight s \<le> 4 \<and>
    length (az_credCache s) \<le> 4096 \<and> length (az_counters s) \<le> 1025"
proof -
  have "bounded s" using assms
  proof (induction rule: authz_run.induct)
    case (authz_start flag creds docs)
    then show ?case by (simp add: bounded_def initial_authz_def counters_ok_def)
  qed (rule bounded_step)
  then show ?thesis
    by (auto simp: bounded_def VERIFY_MAX_CONCURRENT_def CRED_CACHE_MAX_def counters_ok_def COUNTER_MAX_KEYS_def split: if_splits)
qed

section \<open>After the caches were cleared\<close>

text \<open>The epochs that stale reads carry are those of the past.\<close>

definition stage_epoch :: "request \<Rightarrow> nat option" where
  "stage_epoch rq = (case rq_stage rq of AwaitRecord b e \<Rightarrow> Some e | GotRecord b e a \<Rightarrow> Some e | AwaitScrypt b e r \<Rightarrow> Some e | _ \<Rightarrow> None)"

definition flight_epoch :: "flight \<Rightarrow> nat option" where
  "flight_epoch f = (case f of Reading e \<Rightarrow> Some e | ReadDone e a \<Rightarrow> Some e | _ \<Rightarrow> None)"

definition epochs_past :: "authz \<Rightarrow> bool" where
  "epochs_past s \<longleftrightarrow> (\<forall>f\<in>set (az_flights s). \<forall>e. flight_epoch f = Some e \<longrightarrow> e \<le> az_enforcedEpoch s) \<and>
     (\<forall>rq\<in>set (az_requests s). \<forall>e. stage_epoch rq = Some e \<longrightarrow> e \<le> az_credCacheEpoch s)"

lemma stage_epoch_simps [simp]:
  "stage_epoch (rq\<lparr>rq_stage := AwaitRecord b e\<rparr>) = Some e" "stage_epoch (rq\<lparr>rq_stage := GotRecord b e a\<rparr>) = Some e"
  "stage_epoch (rq\<lparr>rq_stage := AwaitScrypt b e r\<rparr>) = Some e" "stage_epoch (rq\<lparr>rq_stage := Decided d\<rparr>) = None"
  "stage_epoch (rq\<lparr>rq_stage := AwaitBucket n\<rparr>) = None" "stage_epoch (rq\<lparr>rq_stage := AwaitObject n\<rparr>) = None"
  "stage_epoch (rq\<lparr>rq_stage := AwaitBucketId n\<rparr>) = None" "stage_epoch (rq\<lparr>rq_stage := AwaitFlag f\<rparr>) = None"
  by (simp_all add: stage_epoch_def)

lemma flagged_epoch [simp]: "stage_epoch (flagged v rq) = None"
  by (auto simp: flagged_def split: bucket_ref.splits)

lemma object_found_epoch [simp]: "stage_epoch (object_found answer rq) = None"
  by (auto simp: object_found_def split: sum.splits option.splits)

lemma bucket_found_epoch:
  "bucket_found ops answer rq s = (rq', s') \<Longrightarrow> (stage_epoch rq' = None \<or> stage_epoch rq' = Some (az_credCacheEpoch s)) \<and>
     az_flights s' = az_flights s \<and> az_requests s' = az_requests s \<and> az_enforcedEpoch s' = az_enforcedEpoch s \<and>
     az_credCacheEpoch s' = az_credCacheEpoch s \<and> az_credCache s' = az_credCache s \<and>
     az_enforcedCache s' = az_enforcedCache s \<and> az_enforcedInFlight s' = az_enforcedInFlight s"
  by (auto simp: bucket_found_def verifyCredential_def takeSlot_def Let_def split: sum.splits option.splits if_splits)

lemma remember_frame [simp]:
  "az_flights (rememberVerified ops i now e g s) = az_flights s" "az_enforcedEpoch (rememberVerified ops i now e g s) = az_enforcedEpoch s"
  "az_credCacheEpoch (rememberVerified ops i now e g s) = az_credCacheEpoch s"
  "az_enforcedCache (rememberVerified ops i now e g s) = az_enforcedCache s"
  "az_enforcedInFlight (rememberVerified ops i now e g s) = az_enforcedInFlight s"
  by (auto simp: rememberVerified_def Let_def)

lemma release_frame [simp]:
  "az_flights (releaseSlot s) = az_flights s" "az_enforcedEpoch (releaseSlot s) = az_enforcedEpoch s"
  "az_credCacheEpoch (releaseSlot s) = az_credCacheEpoch s" "az_enforcedCache (releaseSlot s) = az_enforcedCache s"
  "az_enforcedInFlight (releaseSlot s) = az_enforcedInFlight s"
  by (simp_all add: releaseSlot_def)

lemma record_found_epoch:
  "record_found ops i b e answer rq s = (rq', s') \<Longrightarrow> (stage_epoch rq' = None \<or> stage_epoch rq' = Some e) \<and>
     az_flights s' = az_flights s \<and> az_requests s' = az_requests s \<and> az_enforcedEpoch s' = az_enforcedEpoch s \<and>
     az_credCacheEpoch s' = az_credCacheEpoch s"
  by (auto simp: record_found_def verified_def split: sum.splits option.splits if_splits)

lemma set_requestD: "rq \<in> set (az_requests (set_request n (r, s))) \<Longrightarrow> rq = r \<or> rq \<in> set (az_requests s)"
  by (auto simp: set_request_def dest: set_update_subset_insert[THEN subsetD])

lemma set_flightD: "f \<in> set (fs[i := x]) \<Longrightarrow> f = x \<or> f \<in> set fs"
  by (auto dest: set_update_subset_insert[THEN subsetD])

lemma epochs_set:
  assumes "epochs_past s" and "\<And>e. stage_epoch rq = Some e \<Longrightarrow> e \<le> az_credCacheEpoch s"
    and "az_flights s' = az_flights s" "az_requests s' = az_requests s" "az_enforcedEpoch s' = az_enforcedEpoch s"
      "az_credCacheEpoch s' = az_credCacheEpoch s"
  shows "epochs_past (set_request n (rq, s'))"
  using assms set_requestD[of _ n rq s'] unfolding epochs_past_def by (fastforce simp: set_request_def)

lemma epochs_flight:
  assumes "epochs_past s" and "az_flights s' = (az_flights s)[f := x]" and "\<And>e. flight_epoch x = Some e \<Longrightarrow> e \<le> az_enforcedEpoch s"
    and "az_requests s' = az_requests s" "az_enforcedEpoch s' = az_enforcedEpoch s" "az_credCacheEpoch s' = az_credCacheEpoch s"
  shows "epochs_past s'"
  using assms set_flightD unfolding epochs_past_def by fastforce

lemma started_frame:
  assumes "authorizeObjectRequest ops u m h now s = (rq, s')"
  shows "stage_epoch rq = None \<and> az_requests s' = az_requests s \<and> az_enforcedEpoch s' = az_enforcedEpoch s \<and>
     az_credCacheEpoch s' = az_credCacheEpoch s \<and> az_credCache s' = az_credCache s \<and> az_enforcedCache s' = az_enforcedCache s \<and>
     (az_flights s' = az_flights s \<and> az_enforcedInFlight s' = az_enforcedInFlight s \<or>
      az_flights s' = az_flights s @ [Reading (az_enforcedEpoch s)] \<and> az_enforcedInFlight s' = Some (length (az_flights s)))"
  using assms unfolding authorizeObjectRequest_def Let_def isAuthEnforced_def joinFlight_def
  by (auto split: option.splits if_splits) (auto simp: stage_epoch_def)

lemma epochs_step: "authz_step ops s s' \<Longrightarrow> epochs_past s \<Longrightarrow> epochs_past s'"
proof (induction rule: authz_step.cases)
  case (request_starts rawUrl methd authHeader now s rq s')
  have "stage_epoch rq = None" using request_starts(3) by (auto dest: started_frame)
  then show ?case using request_starts started_frame[OF request_starts(3)] by (auto simp: epochs_past_def flight_epoch_def)
next
  case (bucket_named_step n s b answer)
  then show ?case by (cases "bucket_found ops answer (az_requests s ! n) s") (auto intro!: epochs_set dest!: bucket_found_epoch)
next
  case (bucket_id_step n s b answer)
  then show ?case by (cases "bucket_found ops answer (az_requests s ! n) s") (auto intro!: epochs_set dest!: bucket_found_epoch)
next
  case (record_seen n s b epoch i answer e)
  have "stage_epoch (az_requests s ! n) = Some epoch" using record_seen(4) by (simp add: stage_epoch_def)
  then show ?case using record_seen by (auto intro!: epochs_set) (auto simp: epochs_past_def)
next
  case (record_returns n s b epoch answer i)
  have "stage_epoch (az_requests s ! n) = Some epoch" using record_returns(4) by (simp add: stage_epoch_def)
  then have "epoch \<le> az_credCacheEpoch s" using record_returns by (auto simp: epochs_past_def)
  then show ?case using record_returns
    by (cases "record_found ops i b epoch answer (az_requests s ! n) s") (auto intro!: epochs_set dest!: record_found_epoch)
next
  case (scrypt_returns n s b epoch r i)
  then show ?case by (auto simp: scrypt_done_def verified_def intro!: epochs_set)
next
  case (flag_awaited n s f v)
  then show ?case by (auto intro!: epochs_set)
next
  case (object_step n s i answer)
  then show ?case by (auto intro!: epochs_set)
next
  case (flag_seen f s epoch answer e)
  have "az_flights s ! f \<in> set (az_flights s)" using flag_seen(3) by (rule nth_mem)
  then have "epoch \<le> az_enforcedEpoch s" using flag_seen unfolding epochs_past_def by (fastforce simp: flight_epoch_def)
  then show ?case using flag_seen by (intro epochs_flight[of s s' f]) (auto simp: flight_epoch_def)
next
  case (flag_returns f s epoch answer at)
  then show ?case by (intro epochs_flight[of s s' f]) (auto simp: flight_epoch_def flag_read_def Let_def)
next
  case (flag_settles f s v)
  then show ?case by (intro epochs_flight[of s s' f]) (auto simp: flight_epoch_def flag_settled_def)
qed (auto simp: epochs_past_def invalidateAuthEnforcedCache_def clearCredentialCache_def intro: le_SucI)

lemma run_epochs: "authz_run ops s \<Longrightarrow> epochs_past s"
proof (induction rule: authz_run.induct)
  case (authz_start flag creds docs)
  then show ?case by (simp add: epochs_past_def initial_authz_def)
qed (rule epochs_step)

text \<open>What the database vouched for since: \<open>R\<close> holds of the credentials that match an identity, \<open>D\<close> of the open buckets.\<close>

definition open_to_all :: "bool \<Rightarrow> content_doc \<Rightarrow> bool" where
  "open_to_all w d \<longleftrightarrow> cd_containerId d = None \<and> cd_isContainer d \<and> (if w then cd_publicWrite d else cd_publicRead d) = Some True"

definition vouches :: "crypto_ops \<Rightarrow> identity \<Rightarrow> credential \<Rightarrow> bool" where
  "vouches ops i r \<longleftrightarrow> cr_enabled r \<and> scryptVerify ops (ident_secret i) (cr_secretHash r)"

definition identities :: "authz \<Rightarrow> identity set" where
  "identities s = {i. \<exists>rq\<in>set (az_requests s). rq_identity rq = Some i}"

definition held ::
  "crypto_ops \<Rightarrow> (identity \<Rightarrow> credential \<Rightarrow> bool) \<Rightarrow> (bool \<Rightarrow> content_doc \<Rightarrow> bool) \<Rightarrow> nat \<Rightarrow> authz \<Rightarrow> bool" where
  "held ops R D f0 s \<longleftrightarrow> az_flag s \<and>
     (\<forall>f e ep. f0 \<le> f \<longrightarrow> f < length (az_flights s) \<longrightarrow> az_flights s ! f \<noteq> ReadDone ep (Inl e)) \<and>
     (\<forall>i r. az_credentials s (ident_accessKeyId i) = Some r \<longrightarrow> vouches ops i r \<longrightarrow> R i r) \<and>
     (\<forall>d\<in>set (az_docs s). \<forall>w. open_to_all w d \<longrightarrow> D w d) \<and>
     inj_on (cy_sha256 ops) (ident_secret ` identities s)"

inductive authz_since ::
  "crypto_ops \<Rightarrow> (identity \<Rightarrow> credential \<Rightarrow> bool) \<Rightarrow> (bool \<Rightarrow> content_doc \<Rightarrow> bool) \<Rightarrow> authz \<Rightarrow> authz \<Rightarrow> bool" for ops R D s0 where
  since_start: "held ops R D (length (az_flights s0)) s0 \<Longrightarrow> authz_since ops R D s0 s0"
| since_step: "authz_since ops R D s0 s \<Longrightarrow> authz_step ops s s' \<Longrightarrow> held ops R D (length (az_flights s0)) s' \<Longrightarrow> authz_since ops R D s0 s'"

definition names_bucket :: "request \<Rightarrow> resolved_bucket \<Rightarrow> bool" where
  "names_bucket rq b \<longleftrightarrow> (case bucketRefFromPath (rq_url rq) of ByPath n \<Rightarrow> rb_name b = n | ById \<Rightarrow> True | NoBucket \<Rightarrow> False)"

definition backed :: "(identity \<Rightarrow> credential \<Rightarrow> bool) \<Rightarrow> (bool \<Rightarrow> content_doc \<Rightarrow> bool) \<Rightarrow> request \<Rightarrow> bool" where
  "backed R D rq \<longleftrightarrow> (case rq_identity rq of
     None \<Rightarrow> \<exists>d. D (rq_isWrite rq) d \<and> names_bucket rq (toResolved d)
   | Some i \<Rightarrow> \<exists>b r. R i r \<and> names_bucket rq b \<and> grants_decision (rq_isWrite rq) b (Some (cr_grants r)) = Allow)"

text \<open>
  Requests, the switch and the cache since then. A verification that began earlier has an epoch below \<open>e0\<close>, which is
  over, so its result is not kept.
\<close>

definition stage_good :: "crypto_ops \<Rightarrow> (identity \<Rightarrow> credential \<Rightarrow> bool) \<Rightarrow> nat \<Rightarrow> request \<Rightarrow> bool" where
  "stage_good ops R e0 rq \<longleftrightarrow> (case rq_stage rq of
     GotRecord b e a \<Rightarrow> e0 \<le> e \<longrightarrow> (\<forall>i r. rq_identity rq = Some i \<longrightarrow> a = Inr (Some r) \<longrightarrow> vouches ops i r \<longrightarrow> R i r)
   | AwaitScrypt b e r \<Rightarrow> e0 \<le> e \<longrightarrow> cr_enabled r \<and> (\<forall>i. rq_identity rq = Some i \<longrightarrow> vouches ops i r \<longrightarrow> R i r)
   | _ \<Rightarrow> True)"

definition stage_backed :: "(identity \<Rightarrow> credential \<Rightarrow> bool) \<Rightarrow> (bool \<Rightarrow> content_doc \<Rightarrow> bool) \<Rightarrow> nat \<Rightarrow> nat \<Rightarrow> request \<Rightarrow> bool" where
  "stage_backed R D f0 e0 rq \<longleftrightarrow> (case rq_stage rq of
     AwaitFlag f \<Rightarrow> f0 \<le> f
   | AwaitBucket b \<Rightarrow> bucketRefFromPath (rq_url rq) = ByPath b
   | AwaitObject i \<Rightarrow> bucketRefFromPath (rq_url rq) = ById
   | AwaitBucketId i \<Rightarrow> bucketRefFromPath (rq_url rq) = ById
   | AwaitRecord b e \<Rightarrow> names_bucket rq b \<and> e0 \<le> e
   | GotRecord b e a \<Rightarrow> names_bucket rq b \<and> e0 \<le> e
   | AwaitScrypt b e r \<Rightarrow> names_bucket rq b \<and> e0 \<le> e
   | Decided d \<Rightarrow> d = Allow \<longrightarrow> backed R D rq)"

definition request_ok ::
  "crypto_ops \<Rightarrow> (identity \<Rightarrow> credential \<Rightarrow> bool) \<Rightarrow> (bool \<Rightarrow> content_doc \<Rightarrow> bool) \<Rightarrow> nat \<Rightarrow> nat \<Rightarrow> bool \<Rightarrow> request \<Rightarrow> bool" where
  "request_ok ops R D f0 e0 recent rq \<longleftrightarrow>
     (\<forall>i. rq_identity rq = Some i \<longrightarrow> CHR '':'' \<notin> set (ident_accessKeyId i)) \<and> stage_good ops R e0 rq \<and>
     (recent \<longrightarrow> stage_backed R D f0 e0 rq)"

definition flight_true :: "flight \<Rightarrow> bool" where
  "flight_true f \<longleftrightarrow> (case f of Reading e \<Rightarrow> True | ReadDone e a \<Rightarrow> a = Inr True | Valued v \<Rightarrow> v | Settled v \<Rightarrow> v)"

definition switch_ok :: "nat \<Rightarrow> authz \<Rightarrow> bool" where
  "switch_ok f0 s \<longleftrightarrow> f0 \<le> length (az_flights s) \<and> (\<forall>t. az_enforcedCache s \<noteq> Some (False, t)) \<and>
     (\<forall>f. az_enforcedInFlight s = Some f \<longrightarrow> f0 \<le> f) \<and>
     (\<forall>f e. f < f0 \<longrightarrow> flight_epoch (az_flights s ! f) = Some e \<longrightarrow> e < az_enforcedEpoch s) \<and>
     (\<forall>f. f0 \<le> f \<longrightarrow> f < length (az_flights s) \<longrightarrow> flight_true (az_flights s ! f))"

definition cache_backed ::
  "crypto_ops \<Rightarrow> (identity \<Rightarrow> credential \<Rightarrow> bool) \<Rightarrow> identity set \<Rightarrow> (string \<times> cached_verify) list \<Rightarrow> bool" where
  "cache_backed ops R I cache \<longleftrightarrow> (\<forall>(k, c)\<in>set cache. cv_ok c \<longrightarrow>
     (\<exists>i\<in>I. \<exists>r. k = credCacheKey ops i \<and> CHR '':'' \<notin> set (ident_accessKeyId i) \<and> R i r \<and> cv_grants c = cr_grants r))"

definition since_ok ::
  "crypto_ops \<Rightarrow> (identity \<Rightarrow> credential \<Rightarrow> bool) \<Rightarrow> (bool \<Rightarrow> content_doc \<Rightarrow> bool) \<Rightarrow> nat \<Rightarrow> nat \<Rightarrow> nat \<Rightarrow> authz \<Rightarrow> bool" where
  "since_ok ops R D f0 e0 n0 s \<longleftrightarrow> switch_ok f0 s \<and> e0 \<le> az_credCacheEpoch s \<and> n0 \<le> length (az_requests s) \<and> cache_backed ops R (identities s) (az_credCache s) \<and>
     (\<forall>n<length (az_requests s). request_ok ops R D f0 e0 (n0 \<le> n) (az_requests s ! n))"

lemma cache_backed_subset:
  "cache_backed ops R I cache \<Longrightarrow> set cache' \<subseteq> set cache \<Longrightarrow> I \<subseteq> J \<Longrightarrow> cache_backed ops R J cache'"
  unfolding cache_backed_def by blast

lemma sweep_subset: "set (sweepCredCache now c) \<subseteq> set c"
  by (auto simp: sweepCredCache_def Let_def dest: in_set_dropD)

lemma remember_backed:
  assumes "cache_backed ops R I (az_credCache s)"
    and "az_credCacheEpoch s = e \<Longrightarrow> g \<noteq> None \<Longrightarrow> i \<in> I \<and> CHR '':'' \<notin> set (ident_accessKeyId i) \<and> (\<exists>r. R i r \<and> g = Some (cr_grants r))"
  shows "cache_backed ops R I (az_credCache (rememberVerified ops i now e g s))"
proof (cases "az_credCacheEpoch s = e")
  case True
  define c where "c = (if CRED_CACHE_MAX \<le> length (az_credCache s) then sweepCredCache now (az_credCache s) else az_credCache s)"
  define v where "v = \<lparr>cv_ok = g \<noteq> None, cv_grants = (case g of None \<Rightarrow> [] | Some g \<Rightarrow> g), cv_expires = now + CRED_TTL_MS\<rparr>"
  have "cache_backed ops R I c" using cache_backed_subset[OF assms(1)] sweep_subset by (auto simp: c_def)
  moreover have "cv_ok v \<Longrightarrow> \<exists>j\<in>I. \<exists>r. credCacheKey ops i = credCacheKey ops j \<and> CHR '':'' \<notin> set (ident_accessKeyId j) \<and> R j r \<and> cv_grants v = cr_grants r"
    using assms(2)[OF True] by (auto simp: v_def intro!: bexI[of _ i])
  ultimately have "cache_backed ops R I (AList.update (credCacheKey ops i) v c)"
    using update_subset[of "credCacheKey ops i" v c] unfolding cache_backed_def by fastforce
  then show ?thesis using True by (simp add: rememberVerified_def c_def v_def Let_def)
qed (use assms(1) in \<open>simp add: rememberVerified_def\<close>)

text \<open>A hit in the cache is an earlier verification of the same identity.\<close>

lemma credCacheKey_eq:
  assumes "credCacheKey ops i = credCacheKey ops j" and "CHR '':'' \<notin> set (ident_accessKeyId i)" "CHR '':'' \<notin> set (ident_accessKeyId j)"
  shows "ident_accessKeyId i = ident_accessKeyId j \<and> cy_sha256 ops (ident_secret i) = cy_sha256 ops (ident_secret j)"
proof -
  have "takeWhile ((\<noteq>) CHR '':'') (credCacheKey ops i) = ident_accessKeyId i" if "CHR '':'' \<notin> set (ident_accessKeyId i)" for i
    using that by (simp add: credCacheKey_def takeWhile_tail) (metis (mono_tags, lifting) takeWhile_eq_all_conv)
  then have "ident_accessKeyId i = ident_accessKeyId j" using assms by metis
  then show ?thesis using assms(1) by (simp add: credCacheKey_def)
qed

lemma switch_old:
  "switch_ok f0 s \<Longrightarrow> f < f0 \<Longrightarrow> flight_epoch (az_flights s ! f) = Some e \<Longrightarrow> e < az_enforcedEpoch s"
  by (auto simp: switch_ok_def)

lemma switch_cong:
  "switch_ok f0 s \<Longrightarrow> az_flights s' = az_flights s \<Longrightarrow> az_enforcedEpoch s' = az_enforcedEpoch s \<Longrightarrow>
   az_enforcedCache s' = az_enforcedCache s \<Longrightarrow> az_enforcedInFlight s' = az_enforcedInFlight s \<Longrightarrow> switch_ok f0 s'"
  by (simp add: switch_ok_def)

lemma identities_set:
  assumes "n < length (az_requests s)" and "rq_identity rq = rq_identity (az_requests s ! n)" and "az_requests s' = az_requests s"
  shows "identities (set_request n (rq, s')) = identities s"
proof -
  have "rq_identity ` set ((az_requests s)[n := rq]) = rq_identity ` set (az_requests s)"
    using assms(1,2) by (metis list.set_map list_update_id map_update)
  then show ?thesis using assms(3) by (auto simp: identities_def set_request_def image_iff set_eq_iff) metis+
qed

lemma since_set:
  assumes ok: "since_ok ops R D f0 e0 n0 s" and n: "n < length (az_requests s)" and same: "rq_identity rq = rq_identity (az_requests s ! n)"
    and frame: "az_flights s' = az_flights s" "az_requests s' = az_requests s" "az_enforcedEpoch s' = az_enforcedEpoch s"
      "az_credCacheEpoch s' = az_credCacheEpoch s" "az_enforcedCache s' = az_enforcedCache s" "az_enforcedInFlight s' = az_enforcedInFlight s"
    and cache: "cache_backed ops R (identities s) (az_credCache s')"
    and rq: "request_ok ops R D f0 e0 (n0 \<le> n) rq"
  shows "since_ok ops R D f0 e0 n0 (set_request n (rq, s'))"
proof -
  have "request_ok ops R D f0 e0 (n0 \<le> m) ((az_requests s)[n := rq] ! m)" if "m < length (az_requests s)" for m
    using ok rq that by (cases "m = n") (auto simp: since_ok_def)
  moreover have "switch_ok f0 (set_request n (rq, s'))" 
    by (rule switch_cong[of f0 s]) (use ok frame in \<open>simp_all add: since_ok_def set_request_def\<close>)
  moreover have "az_requests (set_request n (rq, s')) = (az_requests s)[n := rq]" "az_credCache (set_request n (rq, s')) = az_credCache s'"
      "az_credCacheEpoch (set_request n (rq, s')) = az_credCacheEpoch s"
    using frame by (simp_all add: set_request_def)
  moreover have "n0 \<le> length (az_requests s) \<and> e0 \<le> az_credCacheEpoch s" using ok by (simp add: since_ok_def)
  ultimately show ?thesis using cache unfolding since_ok_def identities_set[OF n same frame(2)] by simp
qed

lemma since_frame:
  assumes "since_ok ops R D f0 e0 n0 s" and "switch_ok f0 s'" and "az_requests s' = az_requests s"
    and "az_credCache s' = az_credCache s \<or> az_credCache s' = []" and "az_credCacheEpoch s \<le> az_credCacheEpoch s'"
  shows "since_ok ops R D f0 e0 n0 s'"
proof -
  have "cache_backed ops R (identities s') (az_credCache s')"
    using assms(1,3,4) by (auto simp: since_ok_def identities_def cache_backed_def)
  then show ?thesis using assms(1,2,3,5) by (auto simp: since_ok_def)
qed

lemma since_other:
  assumes "since_ok ops R D f0 e0 n0 s" and "az_flights s' = az_flights s" "az_enforcedEpoch s' = az_enforcedEpoch s"
    "az_enforcedCache s' = az_enforcedCache s" "az_enforcedInFlight s' = az_enforcedInFlight s" "az_requests s' = az_requests s"
    and "az_credCache s' = az_credCache s \<or> az_credCache s' = []" and "az_credCacheEpoch s \<le> az_credCacheEpoch s'"
  shows "since_ok ops R D f0 e0 n0 s'"
proof -
  have "switch_ok f0 s'" by (rule switch_cong[OF _ assms(2-5)]) (use assms(1) in \<open>simp add: since_ok_def\<close>)
  then show ?thesis by (rule since_frame[OF assms(1) _ assms(6-8)])
qed

lemma switch_flight:
  assumes "switch_ok f0 s" and "f < length (az_flights s)" and "az_flights s' = (az_flights s)[f := x]" and "az_enforcedEpoch s' = az_enforcedEpoch s"
    and "az_enforcedInFlight s' = az_enforcedInFlight s \<or> az_enforcedInFlight s' = None" and "\<And>t. az_enforcedCache s' \<noteq> Some (False, t)"
    and "f < f0 \<Longrightarrow> flight_epoch x = None \<or> flight_epoch x = flight_epoch (az_flights s ! f)"
    and "f0 \<le> f \<Longrightarrow> flight_true x"
  shows "switch_ok f0 s'"
proof -
  have "e < az_enforcedEpoch s" if "m < f0" "flight_epoch ((az_flights s)[f := x] ! m) = Some e" for m e
    using switch_old[OF assms(1)] assms(2,7) that by (cases "m = f") auto
  moreover have "flight_true ((az_flights s)[f := x] ! m)" if "f0 \<le> m" "m < length (az_flights s)" for m
    using assms(1,2,8) that by (cases "m = f") (auto simp: switch_ok_def)
  ultimately show ?thesis using assms(1,3-6) unfolding switch_ok_def by auto
qed

lemma flagged_ok:
  assumes "recent \<longrightarrow> v" and "\<forall>i. rq_identity rq = Some i \<longrightarrow> CHR '':'' \<notin> set (ident_accessKeyId i)"
  shows "request_ok ops R D f0 e0 recent (flagged v rq)"
  using assms by (auto simp: request_ok_def stage_good_def stage_backed_def flagged_def unknown_bucket_def split: bucket_ref.splits)

lemma flagged_identity [simp]: "rq_identity (flagged v rq) = rq_identity rq"
  by (auto simp: flagged_def split: bucket_ref.splits)

lemma identity_clean: "parseBasicAuth ops h = Some i \<Longrightarrow> CHR '':'' \<notin> set (ident_accessKeyId i)"
  by (auto simp: parseBasicAuth_def Let_def split: option.splits if_splits dest!: set_takeWhileD)

text \<open>A new request waits for a read of the switch that began since, or has the answer of one.\<close>

lemma started_since:
  assumes ok: "since_ok ops R D f0 e0 n0 s" and run: "authorizeObjectRequest ops u m h now s = (rq, s')"
  shows "since_ok ops R D f0 e0 n0 (s'\<lparr>az_requests := az_requests s' @ [rq]\<rparr>)"
proof -
  note f = started_frame[OF run]
  have sw: "switch_ok f0 s" using ok by (simp add: since_ok_def)
  have "switch_ok f0 (s'\<lparr>az_requests := az_requests s' @ [rq]\<rparr>)" using sw f by (auto simp: switch_ok_def nth_append flight_true_def)
  moreover have new: "request_ok ops R D f0 e0 True rq"
  proof -
    have known: "v" if "az_enforcedCache s = Some (v, t)" for v t using sw that by (cases v) (auto simp: switch_ok_def)
    have flight: "f0 \<le> f" if "az_enforcedInFlight s = Some f" for f using sw that by (auto simp: switch_ok_def)
    have "f0 \<le> length (az_flights s)" using sw by (simp add: switch_ok_def)
    then show ?thesis using run known flight identity_clean[of ops h] unfolding authorizeObjectRequest_def Let_def isAuthEnforced_def joinFlight_def
      by (auto split: option.splits if_splits intro!: flagged_ok) (auto simp: request_ok_def stage_good_def stage_backed_def)
  qed
  moreover have "identities s \<subseteq> identities (s'\<lparr>az_requests := az_requests s' @ [rq]\<rparr>)" using f by (auto simp: identities_def)
  ultimately show ?thesis using ok f cache_backed_subset[of ops R "identities s" "az_credCache s"]
    by (auto simp: since_ok_def nth_append less_Suc_eq)
qed

lemma unknown_not_allowed [simp]: "unknown_bucket i \<noteq> Allow" "unavailable \<noteq> Allow"
  by (auto simp: unknown_bucket_def unavailable_def)

lemma names_stage [simp]: "names_bucket (rq\<lparr>rq_stage := x\<rparr>) b = names_bucket rq b"
  by (simp add: names_bucket_def)

lemma backed_stage [simp]: "backed R D (rq\<lparr>rq_stage := x\<rparr>) = backed R D rq"
  by (cases "rq_identity rq") (simp_all add: backed_def)

text \<open>A hit in the cache carries the grants of a credential that was vouched for.\<close>

lemma cache_hit:
  assumes cached: "cache_backed ops R I cache" and inj: "inj_on (cy_sha256 ops) (ident_secret ` I)"
    and i: "i \<in> I" "CHR '':'' \<notin> set (ident_accessKeyId i)" and hit: "map_of cache (credCacheKey ops i) = Some c" "cv_ok c"
  shows "\<exists>r. R i r \<and> cv_grants c = cr_grants r"
proof -
  obtain j r where j: "j \<in> I" "credCacheKey ops i = credCacheKey ops j" "CHR '':'' \<notin> set (ident_accessKeyId j)" "R j r" "cv_grants c = cr_grants r"
    using cached hit map_of_SomeD[OF hit(1)] by (fastforce simp: cache_backed_def)
  have "ident_accessKeyId i = ident_accessKeyId j" "cy_sha256 ops (ident_secret i) = cy_sha256 ops (ident_secret j)"
    using credCacheKey_eq[OF j(2) i(2) j(3)] by simp_all
  moreover have "ident_secret i = ident_secret j" using inj_onD[OF inj calculation(2)] i(1) j(1) by simp
  ultimately have "i = j" by simp
  then show ?thesis using j by blast
qed

lemma names_resolved:
  assumes "stage_backed R D f0 e0 rq" and "rq_stage rq = AwaitBucket b \<and> bucket_named b d \<or> rq_stage rq = AwaitBucketId b \<and> bucket_by_id b d"
  shows "names_bucket rq (toResolved d)"
  using assms by (auto simp: stage_backed_def names_bucket_def toResolved_def bucket_named_def)

lemma found_open:
  assumes "held ops R D f0 s" and "d \<in> set (az_docs s)" and "bucket_named b d \<or> bucket_by_id b d" and "anonymous_decision w (toResolved d) = Allow"
  shows "D w d"
proof -
  have "open_to_all w d" using assms(3,4)
    by (auto simp: open_to_all_def bucket_named_def bucket_by_id_def anonymous_decision_def toResolved_def split: if_splits)
  then show ?thesis using assms(1,2) by (auto simp: held_def)
qed

lemma bucket_found_since:
  assumes ok: "since_ok ops R D f0 e0 n0 s" and h: "held ops R D f0 s" and n: "n < length (az_requests s)"
    and at: "rq_stage (az_requests s ! n) = AwaitBucket b \<and> q = bucket_named b \<or> rq_stage (az_requests s ! n) = AwaitBucketId b \<and> q = bucket_by_id b"
    and found: "case answer of Inl e \<Rightarrow> True | Inr r \<Rightarrow> find_answer (az_docs s) q r"
  shows "since_ok ops R D f0 e0 n0 (set_request n (bucket_found ops answer (az_requests s ! n) s))"
proof -
  let ?rq = "az_requests s ! n"
  obtain rq' s' where run: "bucket_found ops answer ?rq s = (rq', s')" by fastforce
  have rq: "request_ok ops R D f0 e0 (n0 \<le> n) ?rq" and cache: "cache_backed ops R (identities s) (az_credCache s)"
    and e0: "e0 \<le> az_credCacheEpoch s" using ok n by (auto simp: since_ok_def)
  have hit: "\<exists>r. R i r \<and> cv_grants c = cr_grants r"
    if "rq_identity ?rq = Some i" "map_of (az_credCache s) (credCacheKey ops i) = Some c" "cv_ok c" for i c
    using that rq n h by (intro cache_hit[OF cache]) (auto simp: request_ok_def held_def identities_def)
  have "rq_identity rq' = rq_identity ?rq \<and> stage_good ops R e0 rq' \<and> (n0 \<le> n \<longrightarrow> stage_backed R D f0 e0 rq')"
  proof (cases "\<exists>d. answer = Inr (Some d)")
    case False
    then show ?thesis using run by (auto simp: bucket_found_def stage_good_def stage_backed_def split: sum.splits option.splits)
  next
    case True
    then obtain d where d: "answer = Inr (Some d)" "d \<in> set (az_docs s)" "bucket_named b d \<or> bucket_by_id b d"
        and nb: "n0 \<le> n \<Longrightarrow> names_bucket ?rq (toResolved d)"
      using found at rq names_resolved[of R D f0 e0 ?rq b] by (auto simp: find_answer_def request_ok_def)
    show ?thesis
    proof (cases "rq_identity ?rq")
      case None
      have "backed R D ?rq" if "n0 \<le> n" "anonymous_decision (rq_isWrite ?rq) (toResolved d) = Allow"
        using found_open[OF h d(2,3) that(2)] nb[OF that(1)] None by (auto simp: backed_def intro!: exI[of _ d])
      then show ?thesis using run d(1) None by (auto simp: bucket_found_def Let_def stage_good_def stage_backed_def)
    next
      case (Some i)
      have "backed R D ?rq" if w: "n0 \<le> n" "map_of (az_credCache s) (credCacheKey ops i) = Some c" "cv_ok c"
          "grants_decision (rq_isWrite ?rq) (toResolved d) (Some (cv_grants c)) = Allow" for c
      proof -
        obtain r where "R i r" "cv_grants c = cr_grants r" using hit[OF Some w(2,3)] by blast
        then show ?thesis using nb[OF w(1)] w(4) Some unfolding backed_def by simp metis
      qed
      then show ?thesis using run d nb Some e0
        by (auto simp: bucket_found_def verifyCredential_def takeSlot_def Let_def stage_good_def stage_backed_def grants_decision_def[of _ _ None]
              split: option.splits if_splits)
    qed
  qed
  then show ?thesis unfolding run using bucket_found_epoch[OF run] cache rq
    by (intro since_set[OF ok n]) (auto simp: request_ok_def)
qed

text \<open>A verification that ends.\<close>

lemma verified_since:
  assumes ok: "since_ok ops R D f0 e0 n0 s" and n: "n < length (az_requests s)" and i: "rq_identity (az_requests s ! n) = Some i"
    and g: "e0 \<le> epoch \<Longrightarrow> g \<noteq> None \<Longrightarrow> \<exists>r. R i r \<and> g = Some (cr_grants r)"
    and names: "n0 \<le> n \<Longrightarrow> names_bucket (az_requests s ! n) b \<and> e0 \<le> epoch"
  shows "since_ok ops R D f0 e0 n0 (set_request n (verified ops i b epoch g (az_requests s ! n) s))"
proof -
  let ?rq = "az_requests s ! n"
  have rq: "request_ok ops R D f0 e0 (n0 \<le> n) ?rq" and cache: "cache_backed ops R (identities s) (az_credCache (releaseSlot s))"
    and e0: "e0 \<le> az_credCacheEpoch s" using ok n by (auto simp: since_ok_def)
  have "i \<in> identities s" "CHR '':'' \<notin> set (ident_accessKeyId i)" using n i rq by (auto simp: identities_def request_ok_def)
  then have c: "cache_backed ops R (identities s) (az_credCache (rememberVerified ops i (rq_now ?rq) epoch g (releaseSlot s)))"
    using g e0 by (intro remember_backed[OF cache]) auto
  have "backed R D ?rq" if w: "n0 \<le> n" "grants_decision (rq_isWrite ?rq) b g = Allow"
  proof (cases g)
    case (Some gs)
    then obtain r where "R i r" "g = Some (cr_grants r)" using g names w(1) by blast
    then show ?thesis using names[OF w(1)] w(2) i unfolding backed_def by simp metis
  qed (use w in \<open>simp add: grants_decision_def\<close>)
  then have "request_ok ops R D f0 e0 (n0 \<le> n) (?rq\<lparr>rq_stage := Decided (grants_decision (rq_isWrite ?rq) b g)\<rparr>)"
    using rq by (auto simp: request_ok_def stage_good_def stage_backed_def)
  then show ?thesis unfolding verified_def using c by (intro since_set[OF ok n]) auto
qed

lemma found_identity [simp]:
  "rq_identity (object_found answer rq) = rq_identity rq" "rq_identity (fst (bucket_found ops answer rq s)) = rq_identity rq"
  "rq_identity (fst (verified ops i b e g rq s)) = rq_identity rq" "rq_identity (fst (record_found ops i b e a rq s)) = rq_identity rq"
  "rq_identity (fst (scrypt_done ops i b e r rq s)) = rq_identity rq"
  by (auto simp: object_found_def bucket_found_def verified_def record_found_def scrypt_done_def Let_def split: sum.splits option.splits
      prod.splits verify_start.splits)

lemma found_requests [simp]:
  "az_requests (snd (bucket_found ops answer rq s)) = az_requests s" "az_requests (snd (verified ops i b e g rq s)) = az_requests s"
  "az_requests (snd (record_found ops i b e a rq s)) = az_requests s" "az_requests (snd (scrypt_done ops i b e r rq s)) = az_requests s"
  by (auto simp: bucket_found_def verified_def record_found_def scrypt_done_def Let_def verifyCredential_def takeSlot_def
      split: sum.splits option.splits if_splits)

text \<open>An access key has no colon.\<close>

definition keys_clean :: "authz \<Rightarrow> bool" where
  "keys_clean s \<longleftrightarrow> (\<forall>i\<in>identities s. CHR '':'' \<notin> set (ident_accessKeyId i))"

lemma clean_set:
  assumes "keys_clean s" and "n < length (az_requests s)" and "rq_identity (fst x) = rq_identity (az_requests s ! n)" and "az_requests (snd x) = az_requests s"
  shows "keys_clean (set_request n x)"
  using assms identities_set[of n s "fst x" "snd x"] by (simp add: keys_clean_def)

lemma started_identity: "authorizeObjectRequest ops u m h now s = (rq, s') \<Longrightarrow> rq_identity rq = parseBasicAuth ops h"
  by (auto simp: authorizeObjectRequest_def Let_def split: prod.splits flag_answer.splits)

lemma clean_step: "authz_step ops s s' \<Longrightarrow> keys_clean s \<Longrightarrow> keys_clean s'"
proof (induction rule: authz_step.cases)
  case (request_starts rawUrl methd authHeader now s rq s')
  have rq: "rq_identity rq = parseBasicAuth ops authHeader" "az_requests s' = az_requests s"
    using started_identity[OF request_starts(3)] started_frame[OF request_starts(3)] by simp_all
  then show ?case using request_starts identity_clean[of ops authHeader] by (auto simp: keys_clean_def identities_def)
qed (auto intro!: clean_set,
     auto simp: keys_clean_def identities_def flag_read_def flag_settled_def invalidateAuthEnforcedCache_def clearCredentialCache_def Let_def)

lemma run_clean: "authz_run ops s \<Longrightarrow> keys_clean s"
proof (induction rule: authz_run.induct)
  case (authz_start flag creds docs)
  then show ?case by (simp add: keys_clean_def identities_def initial_authz_def)
qed (rule clean_step)

lemma record_found_since:
  assumes ok: "since_ok ops R D f0 e0 n0 s" and n: "n < length (az_requests s)" and i: "rq_identity (az_requests s ! n) = Some i"
    and at: "rq_stage (az_requests s ! n) = GotRecord b epoch answer"
  shows "since_ok ops R D f0 e0 n0 (set_request n (record_found ops i b epoch answer (az_requests s ! n) s))"
proof -
  let ?rq = "az_requests s ! n"
  have rq: "request_ok ops R D f0 e0 (n0 \<le> n) ?rq" and cache: "cache_backed ops R (identities s) (az_credCache s)"
    using ok n by (auto simp: since_ok_def)
  have names: "n0 \<le> n \<Longrightarrow> names_bucket ?rq b \<and> e0 \<le> epoch" using rq at by (auto simp: request_ok_def stage_backed_def)
  have "since_ok ops R D f0 e0 n0 (set_request n (?rq\<lparr>rq_stage := Decided unavailable\<rparr>, releaseSlot s))"
    using rq cache by (intro since_set[OF ok n]) (auto simp: request_ok_def stage_good_def stage_backed_def)
  moreover have "since_ok ops R D f0 e0 n0 (set_request n (?rq\<lparr>rq_stage := AwaitScrypt b epoch r\<rparr>, s))"
    if "answer = Inr (Some r)" "usable (rq_now ?rq) r" for r
    using that rq cache names at by (intro since_set[OF ok n]) (auto simp: request_ok_def stage_good_def stage_backed_def usable_def)
  ultimately show ?thesis using verified_since[OF ok n i _ names, of None]
    by (auto simp: record_found_def split: sum.splits option.splits)
qed

lemma since_keeps:
  assumes step: "authz_step ops s s'" and ok: "since_ok ops R D f0 e0 n0 s" and h: "held ops R D f0 s" and h': "held ops R D f0 s'"
  shows "since_ok ops R D f0 e0 n0 s'"
  using step
proof (cases rule: authz_step.cases)
  case (request_starts rawUrl methd authHeader now rq s1)
  then show ?thesis using started_since[OF ok] by simp
next
  case (flag_seen f epoch answer e)
  have sw: "switch_ok f0 s" using ok by (simp add: since_ok_def)
  have "answer = Inr True" if "f0 \<le> f"
    using h' h flag_seen(1,2,4) that by (cases answer) (auto simp: held_def nth_list_update)
  then have "switch_ok f0 s'" using flag_seen sw
    by (intro switch_flight[of f0 s f s' "ReadDone epoch answer"]) (auto simp: flight_epoch_def flight_true_def switch_ok_def)
  then show ?thesis using flag_seen(1) by (intro since_frame[OF ok]) auto
next
  case (flag_returns f epoch answer at)
  have sw: "switch_ok f0 s" using ok by (simp add: since_ok_def)
  have fv: "flag_value answer" if "f0 \<le> f"
    using sw that flag_returns(2,3) by (force simp: switch_ok_def flight_true_def flag_value_def)
  have "f0 \<le> f" if "az_enforcedEpoch s = epoch"
    using switch_old[OF sw, of f epoch] that flag_returns(3) by (force simp: flight_epoch_def not_le[symmetric])
  then have "switch_ok f0 s'" using flag_returns sw fv
    by (intro switch_flight[of f0 s f s' "Valued (flag_value answer)"]) (auto simp: flight_epoch_def flight_true_def switch_ok_def flag_read_def Let_def)
  then show ?thesis using flag_returns(1) by (intro since_frame[OF ok]) (auto simp: flag_read_def Let_def)
next
  case (flag_settles f v)
  have sw: "switch_ok f0 s" using ok by (simp add: since_ok_def)
  then have "f0 \<le> f \<Longrightarrow> v" using flag_settles(2,3) by (force simp: switch_ok_def flight_true_def)
  then have "switch_ok f0 s'" using flag_settles sw
    by (intro switch_flight[of f0 s f s' "Settled v"]) (auto simp: flight_epoch_def flight_true_def switch_ok_def flag_settled_def)
  then show ?thesis using flag_settles(1) by (intro since_frame[OF ok]) (auto simp: flag_settled_def)
next
  case (flag_awaited n f v)
  have rq: "request_ok ops R D f0 e0 (n0 \<le> n) (az_requests s ! n)" and sw: "switch_ok f0 s" using ok flag_awaited(2) by (auto simp: since_ok_def)
  have "v" if "n0 \<le> n" using that rq sw flag_awaited(3-5) by (force simp: request_ok_def stage_backed_def switch_ok_def flight_true_def)
  then have "request_ok ops R D f0 e0 (n0 \<le> n) (flagged v (az_requests s ! n))" using rq by (intro flagged_ok) (auto simp: request_ok_def)
  then show ?thesis unfolding flag_awaited(1) using ok by (intro since_set[OF ok flag_awaited(2)]) (auto simp: since_ok_def)
next
  case (bucket_named_step n b answer)
  then show ?thesis using bucket_found_since[OF ok h bucket_named_step(2)] by blast
next
  case (bucket_id_step n b answer)
  then show ?thesis using bucket_found_since[OF ok h bucket_id_step(2)] by blast
next
  case (object_step n i answer)
  have rq: "request_ok ops R D f0 e0 (n0 \<le> n) (az_requests s ! n)" using ok object_step(2) by (auto simp: since_ok_def)
  then have "request_ok ops R D f0 e0 (n0 \<le> n) (object_found answer (az_requests s ! n))" using object_step(3)
    by (auto simp: object_found_def request_ok_def stage_good_def stage_backed_def split: sum.splits option.splits)
  then show ?thesis unfolding object_step(1) using ok by (intro since_set[OF ok object_step(2)]) (auto simp: since_ok_def)
next
  case (record_seen n b epoch i answer e)
  have rq: "request_ok ops R D f0 e0 (n0 \<le> n) (az_requests s ! n)" using ok record_seen(2) by (auto simp: since_ok_def)
  then have "request_ok ops R D f0 e0 (n0 \<le> n) ((az_requests s ! n)\<lparr>rq_stage := GotRecord b epoch answer\<rparr>)"
    using record_seen(3-5) h by (auto simp: request_ok_def stage_good_def stage_backed_def held_def)
  then show ?thesis unfolding record_seen(1) using ok by (intro since_set[OF ok record_seen(2)]) (auto simp: since_ok_def)
next
  case (record_returns n b epoch answer i)
  then show ?thesis using record_found_since[OF ok] by blast
next
  case (scrypt_returns n b epoch r i)
  have rq: "request_ok ops R D f0 e0 (n0 \<le> n) (az_requests s ! n)" using ok scrypt_returns(2) by (auto simp: since_ok_def)
  then show ?thesis unfolding scrypt_returns(1) scrypt_done_def using scrypt_returns(3,4)
    by (intro verified_since[OF ok scrypt_returns(2,4)]) (auto simp: request_ok_def stage_good_def stage_backed_def vouches_def split: if_splits)
next
  case flag_invalidated
  have "switch_ok f0 s'" using ok by (auto simp: since_ok_def switch_ok_def flag_invalidated invalidateAuthEnforcedCache_def intro: less_SucI)
  then show ?thesis by (intro since_frame[OF ok]) (auto simp: flag_invalidated invalidateAuthEnforcedCache_def)
qed (rule since_other[OF ok]; simp add: clearCredentialCache_def)+

text \<open>At the moment both caches are cleared, what is in flight is of the past.\<close>

lemma since_cleared:
  assumes run: "authz_run ops s" and s0: "s0 = clearCredentialCache (invalidateAuthEnforcedCache s)"
  shows "since_ok ops R D (length (az_flights s0)) (az_credCacheEpoch s0) (length (az_requests s0)) s0"
proof -
  have ep: "epochs_past s" and clean: "keys_clean s" using run_epochs[OF run] run_clean[OF run] by simp_all
  have "e < az_enforcedEpoch s + 1" if "f < length (az_flights s)" "flight_epoch (az_flights s ! f) = Some e" for f e
    using ep that nth_mem[OF that(1)] by (fastforce simp: epochs_past_def less_Suc_eq_le)
  then have "switch_ok (length (az_flights s0)) s0"
    by (auto simp: s0 switch_ok_def clearCredentialCache_def invalidateAuthEnforcedCache_def)
  moreover have "request_ok ops R D f0 (az_credCacheEpoch s + 1) False (az_requests s ! n)" if "n < length (az_requests s)" for n f0
  proof -
    have "\<not> az_credCacheEpoch s + 1 \<le> e" if "stage_epoch (az_requests s ! n) = Some e" for e
      using ep that nth_mem[OF \<open>n < length (az_requests s)\<close>] by (fastforce simp: epochs_past_def)
    moreover have "CHR '':'' \<notin> set (ident_accessKeyId i)" if "rq_identity (az_requests s ! n) = Some i" for i
      using clean that nth_mem[OF \<open>n < length (az_requests s)\<close>] unfolding keys_clean_def identities_def by blast
    ultimately show ?thesis by (auto simp: request_ok_def stage_good_def stage_epoch_def split: stage.splits)
  qed
  ultimately show ?thesis
    by (auto simp: since_ok_def s0 clearCredentialCache_def invalidateAuthEnforcedCache_def cache_backed_def)
qed

lemma since_holds:
  assumes "authz_since ops R D s0 s" and "since_ok ops R D (length (az_flights s0)) e0 n0 s0"
  shows "since_ok ops R D (length (az_flights s0)) e0 n0 s \<and> held ops R D (length (az_flights s0)) s"
  using assms by (induction rule: authz_since.induct) (auto dest: since_keeps)

text \<open>
  C19. Suppose that the switch is on and both caches have just been cleared, as a change of the switch or of a
  credential does. While the switch stays on and its reads do not fail, every request that starts later and is allowed is backed
  by the database as it was since then, however requests and writes interleave: an anonymous one by a
  bucket of that name that was open for the operation (some bucket, where the path is the id of an object), any other by a
  record that was enabled, matched the secret and granted the operation on that bucket. Verifications and reads that began
  earlier never leak into a later request.
\<close>

theorem allowed_requests_are_backed:
  assumes "authz_run ops s" and "s0 = clearCredentialCache (invalidateAuthEnforcedCache s)" and "authz_since ops R D s0 s'"
    and "length (az_requests s0) \<le> n" and "n < length (az_requests s')" and "rq_stage (az_requests s' ! n) = Decided Allow"
  shows "backed R D (az_requests s' ! n)"
proof -
  have "since_ok ops R D (length (az_flights s0)) (az_credCacheEpoch s0) (length (az_requests s0)) s'"
    using since_holds[OF assms(3) since_cleared[OF assms(1,2)]] by blast
  then have "request_ok ops R D (length (az_flights s0)) (az_credCacheEpoch s0) True (az_requests s' ! n)"
    using assms(4,5) by (auto simp: since_ok_def)
  then show ?thesis using assms(6) by (simp add: request_ok_def stage_backed_def)
qed

text \<open>A download from an open bucket.\<close>

definition open_bucket :: content_doc where
  "open_bucket = example_bucket\<lparr>cd_publicRead := Some True\<rparr>"

lemma example_allowed:
  fixes ops :: crypto_ops
  defines "s \<equiv> initial_authz True (\<lambda>k. None) [open_bucket]"
  defines "s0 \<equiv> clearCredentialCache (invalidateAuthEnforcedCache s)"
  shows "\<exists>s'. authz_since ops (\<lambda>i r. False) (\<lambda>w d. \<not> w \<and> d = open_bucket) s0 s' \<and> length (az_requests s') = 1 \<and>
    rq_stage (az_requests s' ! 0) = Decided Allow"
proof -
  let ?since = "authz_since ops (\<lambda>i r. False) (\<lambda>w d. \<not> w \<and> d = open_bucket) s0"
  let ?url = "''/photos/cat''"
  define rq where "rq = \<lparr>rq_url = ?url, rq_isWrite = False, rq_identity = None, rq_now = 0, rq_stage = AwaitFlag 0\<rparr>"
  define t where "t c i fs q = s0\<lparr>az_counters := countRequest ''photos'' False [], az_enforcedCache := c, az_enforcedInFlight := i,
    az_flights := fs, az_requests := [q]\<rparr>" for c i fs q
  have s0: "az_flights s0 = []" "az_requests s0 = []" "az_docs s0 = [open_bucket]" "az_flag s0" "az_credentials s0 = (\<lambda>k. None)"
      "az_enforcedInFlight s0 = None" "az_enforcedCache s0 = None" "az_counters s0 = []" "az_enforcedEpoch s0 = 1"
    by (simp_all add: s0_def s_def initial_authz_def clearCredentialCache_def invalidateAuthEnforcedCache_def)
  have t_sel: "az_flights (t c i fs q) = fs" "az_requests (t c i fs q) = [q]" "az_flag (t c i fs q)" "az_enforcedEpoch (t c i fs q) = 1"
      "az_docs (t c i fs q) = [open_bucket]" for c i fs q
    by (simp_all add: t_def s0)
  have t_upd: "(t c i fs q)\<lparr>az_flights := fs'\<rparr> = t c i fs' q" "set_request 0 (q', t c i [f] q) = t c i [f] q'"
      "flag_read 0 (Suc 0) (Inr True) 0 (t c i [f] q) = t (Some (True, 0)) i [Valued True] q"
      "flag_settled 0 True (t c i [f] q) = t c None [Settled True] q" for c i f fs fs' q q'
    by (rule authz.equality; simp add: t_def s0 flag_read_def flag_value_def flag_settled_def set_request_def)+
  have open': "open_to_all w open_bucket \<longleftrightarrow> \<not> w" for w by (simp add: open_to_all_def open_bucket_def example_bucket_def)
  have held: "held ops (\<lambda>i r. False) (\<lambda>w d. \<not> w \<and> d = open_bucket) 0 (t c i [f] q)" if "rq_identity q = None" "\<forall>ep e. f \<noteq> ReadDone ep (Inl e)" for c i f q
    using that by (auto simp: held_def t_def s0 open' identities_def)
  have r0: "?since s0" by (rule since_start) (auto simp: held_def s0 open' identities_def)
  have ref: "bucketRefFromPath ?url = ByPath ''photos''" by code_simp
  have "authorizeObjectRequest ops ?url ''GET'' None 0 s0 = (rq, (t None (Some 0) [Reading 1] rq)\<lparr>az_requests := []\<rparr>)"
    by (simp add: authorizeObjectRequest_def ref isAuthEnforced_def joinFlight_def s0 rq_def t_def parseBasicAuth_def is_write_def Let_def)
  then have "authz_step ops s0 (t None (Some 0) [Reading 1] rq)"
    using request_starts[of ops ?url "''GET''" None 0 s0] by (fastforce simp: t_def)
  then have r1: "?since (t None (Some 0) [Reading 1] rq)" using since_step[OF r0] held by (simp add: s0 rq_def)
  have "authz_step ops (t None (Some 0) [Reading 1] rq) (t None (Some 0) [ReadDone 1 (Inr True)] rq)"
    using flag_seen[of 0 "t None (Some 0) [Reading 1] rq" 1 "Inr True" _ ops] by (simp add: t_sel t_upd)
  then have r2: "?since (t None (Some 0) [ReadDone 1 (Inr True)] rq)" using since_step[OF r1] held by (simp add: s0 rq_def)
  have "authz_step ops (t None (Some 0) [ReadDone 1 (Inr True)] rq) (t (Some (True, 0)) (Some 0) [Valued True] rq)"
    using flag_returns[of 0 "t None (Some 0) [ReadDone 1 (Inr True)] rq" 1 "Inr True" ops 0] by (simp add: t_sel t_upd)
  then have r3: "?since (t (Some (True, 0)) (Some 0) [Valued True] rq)" using since_step[OF r2] held by (simp add: s0 rq_def)
  have "authz_step ops (t (Some (True, 0)) (Some 0) [Valued True] rq) (t (Some (True, 0)) None [Settled True] rq)"
    using flag_settles[of 0 "t (Some (True, 0)) (Some 0) [Valued True] rq" True ops] by (simp add: t_sel t_upd)
  then have r4: "?since (t (Some (True, 0)) None [Settled True] rq)" using since_step[OF r3] held by (simp add: s0 rq_def)
  have valid: "isValidBucketName ''photos''" by code_simp
  define rq' where "rq' = rq\<lparr>rq_stage := AwaitBucket ''photos''\<rparr>"
  have "flagged True rq = rq'" using ref valid by (simp add: flagged_def rq_def rq'_def)
  then have "authz_step ops (t (Some (True, 0)) None [Settled True] rq) (t (Some (True, 0)) None [Settled True] rq')"
    using flag_awaited[of 0 "t (Some (True, 0)) None [Settled True] rq" 0 True ops] by (simp add: t_sel t_upd) (simp add: rq_def)
  then have r5: "?since (t (Some (True, 0)) None [Settled True] rq')" using since_step[OF r4] held by (simp add: s0 rq_def rq'_def)
  define rq'' where "rq'' = rq'\<lparr>rq_stage := Decided Allow\<rparr>"
  have "bucket_found ops (Inr (Some open_bucket)) rq' u = (rq'', u)" for u
    by (simp add: bucket_found_def rq'_def rq''_def rq_def anonymous_decision_def toResolved_def open_bucket_def)
  moreover have "find_answer [open_bucket] (bucket_named ''photos'') (Some open_bucket)"
    by (simp add: find_answer_def bucket_named_def open_bucket_def example_bucket_def)
  ultimately have "authz_step ops (t (Some (True, 0)) None [Settled True] rq') (t (Some (True, 0)) None [Settled True] rq'')"
    using bucket_named_step[of 0 "t (Some (True, 0)) None [Settled True] rq'" "''photos''" "Inr (Some open_bucket)" ops]
    by (simp add: t_sel t_upd) (simp add: rq'_def)
  then have "?since (t (Some (True, 0)) None [Settled True] rq'')" using since_step[OF r5] held by (simp add: s0 rq_def rq'_def rq''_def)
  moreover have "az_requests (t (Some (True, 0)) None [Settled True] rq'') = [rq'']" by (simp add: t_def)
  ultimately show ?thesis by (intro exI[of _ "t (Some (True, 0)) None [Settled True] rq''"]) (simp add: rq''_def)
qed

theorem allowed_requests_are_backed_witness:
  "\<forall>ops. \<exists>s0 s'. authz_since ops (\<lambda>i r. False) (\<lambda>w d. \<not> w \<and> d = open_bucket) s0 s' \<and>
     backed (\<lambda>i r. False) (\<lambda>w d. \<not> w \<and> d = open_bucket) (az_requests s' ! 0)"
proof
  fix ops
  obtain s' where s': "authz_since ops (\<lambda>i r. False) (\<lambda>w d. \<not> w \<and> d = open_bucket)
        (clearCredentialCache (invalidateAuthEnforcedCache (initial_authz True (\<lambda>k. None) [open_bucket]))) s'"
      "length (az_requests s') = 1" "rq_stage (az_requests s' ! 0) = Decided Allow"
    using example_allowed by blast
  have "backed (\<lambda>i r. False) (\<lambda>w d. \<not> w \<and> d = open_bucket) (az_requests s' ! 0)"
    by (rule allowed_requests_are_backed[OF authz_start refl s'(1) _ _ s'(3)])
       (simp_all add: s'(2) initial_authz_def clearCredentialCache_def invalidateAuthEnforcedCache_def)
  then show "\<exists>s0 s'. authz_since ops (\<lambda>i r. False) (\<lambda>w d. \<not> w \<and> d = open_bucket) s0 s' \<and>
     backed (\<lambda>i r. False) (\<lambda>w d. \<not> w \<and> d = open_bucket) (az_requests s' ! 0)" using s'(1) by blast
qed

theorem authz_bounded_witness:
  "\<forall>ops. az_verifyInFlight (initial_authz True (\<lambda>k. None) []) \<le> 4 \<and> authz_run ops (initial_authz True (\<lambda>k. None) [])"
proof
  fix ops
  show "az_verifyInFlight (initial_authz True (\<lambda>k. None) []) \<le> 4 \<and> authz_run ops (initial_authz True (\<lambda>k. None) [])"
    using authz_bounded[OF authz_start[of ops True "\<lambda>k. None" "[]"]] authz_start by blast
qed

text \<open>A credential that was verified is served from the cache for a minute, also when it has expired meanwhile.\<close>

lemma expired_credential_served:
  assumes "usable now r" and "cr_expiresAt r = Some t" and "t \<le> later" and "later < now + 60000" and "az_credCacheEpoch s = epoch"
  shows "verifyCredential ops i later (rememberVerified ops i now epoch (Some (cr_grants r)) s) =
      (Answered (Some (cr_grants r)), rememberVerified ops i now epoch (Some (cr_grants r)) s) \<and> \<not> usable later r"
  using assms by (auto simp: verifyCredential_def rememberVerified_def Let_def usable_def CRED_TTL_MS_def update_conv')

end
