(* ===== verification/Admin_Auth.thy ===== *)
theory Admin_Auth
  imports Secret_Hash Json "HOL-Library.Countable"
begin

text \<open>
  Administrators (\<^verbatim>\<open>lib/server/http/admin-auth.ts\<close>): the throttle on logins, sessions as signed tokens with an
  epoch that revokes them, bearer tokens, passwords and cookies. The clock is an argument. A new epoch is written, or refused,
  before the next operation; logs and last-used stamps are left out. JSON text, base64url, HMAC and the
  generated secrets are parameters. The lemmas show how many passwords can be tried in a given
  time however attempts overlap, that a session is accepted exactly within its bounds, that one revoked by a
  logout that was stored never comes back, also after a restart, and what a logout that was not stored leaves.
\<close>

section \<open>State\<close>

definition SESSION_IDLE_MS :: int where "SESSION_IDLE_MS = 12 * 60 * 60 * 1000"
definition SESSION_ABSOLUTE_MS :: int where "SESSION_ABSOLUTE_MS = 7 * 24 * 60 * 60 * 1000"
definition SESSION_REFRESH_AFTER_MS :: int where "SESSION_REFRESH_AFTER_MS = 60 * 60 * 1000"
definition CLOCK_SKEW_MS :: int where "CLOCK_SKEW_MS = 60 * 1000"
definition LOGIN_MAX_FAILURES :: nat where "LOGIN_MAX_FAILURES = 5"
definition LOGIN_LOCKOUT_MS :: int where "LOGIN_LOCKOUT_MS = 30 * 1000"
definition LOGIN_MAX_CONCURRENT :: nat where "LOGIN_MAX_CONCURRENT = 3"

record admin_auth =
  aa_sessionSecret :: "bytes option"
  aa_sessionEpoch :: rat
  aa_loginFailures :: nat
  aa_loginLockedUntil :: int
  aa_loginInFlight :: nat

definition new_admin_auth :: admin_auth where
  "new_admin_auth = \<lparr>aa_sessionSecret = None, aa_sessionEpoch = 0, aa_loginFailures = 0, aa_loginLockedUntil = 0, aa_loginInFlight = 0\<rparr>"

section \<open>Logins\<close>

definition isLoginLocked :: "int \<Rightarrow> admin_auth \<Rightarrow> bool" where
  "isLoginLocked now a \<longleftrightarrow> now < aa_loginLockedUntil a \<or> LOGIN_MAX_CONCURRENT \<le> aa_loginInFlight a"

definition recordLoginResult :: "int \<Rightarrow> bool \<Rightarrow> admin_auth \<Rightarrow> admin_auth" where
  "recordLoginResult now ok a =
    (if ok then a\<lparr>aa_loginFailures := 0, aa_loginLockedUntil := 0\<rparr>
     else if LOGIN_MAX_FAILURES \<le> aa_loginFailures a + 1
       then a\<lparr>aa_loginLockedUntil := now + LOGIN_LOCKOUT_MS, aa_loginFailures := 0\<rparr>
     else a\<lparr>aa_loginFailures := aa_loginFailures a + 1\<rparr>)"

text \<open>\<open>verifyLoginPassword\<close> up to the \<open>await\<close> and after it; the password check may throw.\<close>

definition login_acquire :: "int \<Rightarrow> admin_auth \<Rightarrow> bool \<times> admin_auth" where
  "login_acquire now a = (if isLoginLocked now a then (False, a) else (True, a\<lparr>aa_loginInFlight := aa_loginInFlight a + 1\<rparr>))"

definition login_finish :: "int \<Rightarrow> js_error + bool \<Rightarrow> admin_auth \<Rightarrow> admin_auth" where
  "login_finish now answer a =
    (let a' = (case answer of Inl e \<Rightarrow> a | Inr ok \<Rightarrow> recordLoginResult now ok a)
     in a'\<lparr>aa_loginInFlight := aa_loginInFlight a' - 1\<rparr>)"

definition verifyPassword :: "crypto_ops \<Rightarrow> string \<Rightarrow> js_error + json option \<Rightarrow> js_error + bool" where
  "verifyPassword ops password stored = (case stored of
     Inl e \<Rightarrow> Inl e
   | Inr (Some (JString s)) \<Rightarrow> Inr (scryptVerify ops password s)
   | Inr _ \<Rightarrow> Inr False)"

datatype login_event = Attempt int | Checked int "js_error + bool"

definition event_time :: "login_event \<Rightarrow> int" where
  "event_time e = (case e of Attempt t \<Rightarrow> t | Checked t r \<Rightarrow> t)"

text \<open>An answer belongs to an attempt that is in flight.\<close>

fun login_run :: "login_event list \<Rightarrow> admin_auth \<Rightarrow> admin_auth option" where
  "login_run [] a = Some a"
| "login_run (Attempt t # es) a = login_run es (snd (login_acquire t a))"
| "login_run (Checked t r # es) a = (if aa_loginInFlight a = 0 then None else login_run es (login_finish t r a))"

definition wrong_guesses :: "login_event list \<Rightarrow> nat" where
  "wrong_guesses es = length (filter (\<lambda>e. case e of Checked t (Inr ok) \<Rightarrow> \<not> ok | _ \<Rightarrow> False) es)"

definition right_guesses :: "login_event list \<Rightarrow> nat" where
  "right_guesses es = length (filter (\<lambda>e. case e of Checked t (Inr ok) \<Rightarrow> ok | _ \<Rightarrow> False) es)"

lemma guesses_simps [simp]:
  "wrong_guesses [] = 0" "wrong_guesses (Attempt t # es) = wrong_guesses es" "wrong_guesses (Checked t (Inl e) # es) = wrong_guesses es"
  "wrong_guesses (Checked t (Inr ok) # es) = (if ok then 0 else 1) + wrong_guesses es"
  "right_guesses [] = 0" "right_guesses (Attempt t # es) = right_guesses es" "right_guesses (Checked t (Inl e) # es) = right_guesses es"
  "right_guesses (Checked t (Inr ok) # es) = (if ok then 1 else 0) + right_guesses es"
  by (simp_all add: wrong_guesses_def right_guesses_def)

lemma event_time_simps [simp]: "event_time (Attempt t) = t" "event_time (Checked t r) = t"
  by (simp_all add: event_time_def)

text \<open>The state at time \<open>t\<close>: while logins are locked out, at most two attempts and failures are left over.\<close>

definition throttle_ok :: "int \<Rightarrow> admin_auth \<Rightarrow> bool" where
  "throttle_ok t a \<longleftrightarrow> aa_loginFailures a \<le> 4 \<and> aa_loginInFlight a \<le> 3 \<and> aa_loginLockedUntil a \<le> t + 30000 \<and>
     (t < aa_loginLockedUntil a \<longrightarrow> aa_loginFailures a + aa_loginInFlight a \<le> 2)"

text \<open>
  The count since \<open>t0\<close>. A success, which resets the throttle, ends a stretch; \<open>u\<close> is where the last one began, \<open>K\<close> the
  lock-outs of the earlier stretches without the first of each, and \<open>k\<close> the lock-outs since \<open>u\<close>: each takes five
  failures after the one before it has run out.
\<close>

definition throttled :: "int \<Rightarrow> int \<Rightarrow> nat \<Rightarrow> nat \<Rightarrow> admin_auth \<Rightarrow> bool" where
  "throttled t0 t wrong right a \<longleftrightarrow> throttle_ok t a \<and>
     (\<exists>u K k. t0 \<le> u \<and> u \<le> t \<and> wrong \<le> 9 * right + 5 * K + 5 * k + aa_loginFailures a \<and>
       30000 * int K \<le> u - t0 \<and> (0 < k \<longrightarrow> u + 30000 * int k \<le> aa_loginLockedUntil a))"

lemma throttled_later:
  assumes "throttled t0 t n m a" and "t \<le> t'"
  shows "throttled t0 t' n m a"
proof -
  have "throttle_ok t' a" using assms by (auto simp: throttled_def throttle_ok_def)
  then show ?thesis using assms unfolding throttled_def by (meson order_trans)
qed

lemma throttled_attempt: "throttled t0 t n m a \<Longrightarrow> throttled t0 t n m (snd (login_acquire t a))"
  by (auto simp: throttled_def throttle_ok_def login_acquire_def isLoginLocked_def LOGIN_MAX_CONCURRENT_def)

lemma throttled_error: "throttled t0 t n m a \<Longrightarrow> throttled t0 t n m (login_finish t (Inl e) a)"
  by (auto simp: throttled_def throttle_ok_def login_finish_def)

lemma throttled_wrong:
  assumes "throttled t0 t n m a" and "0 < aa_loginInFlight a"
  shows "throttled t0 t (Suc n) m (login_finish t (Inr False) a)"
proof -
  obtain u K k where c: "t0 \<le> u" "u \<le> t" "n \<le> 9 * m + 5 * K + 5 * k + aa_loginFailures a" "30000 * int K \<le> u - t0"
      "0 < k \<longrightarrow> u + 30000 * int k \<le> aa_loginLockedUntil a" and st: "throttle_ok t a"
    using assms(1) by (auto simp: throttled_def)
  show ?thesis
  proof (cases "LOGIN_MAX_FAILURES \<le> aa_loginFailures a + 1")
    case True
    then have f: "aa_loginFailures a = 4" "aa_loginLockedUntil a \<le> t"
      using st assms(2) by (auto simp: throttle_ok_def LOGIN_MAX_FAILURES_def)
    have "throttle_ok t (login_finish t (Inr False) a)"
      using st True by (auto simp: throttle_ok_def login_finish_def recordLoginResult_def LOGIN_LOCKOUT_MS_def)
    moreover have "u + 30000 * int (Suc k) \<le> aa_loginLockedUntil (login_finish t (Inr False) a)"
      using c(2,5) f(2) True by (cases k) (simp_all add: login_finish_def recordLoginResult_def LOGIN_LOCKOUT_MS_def)
    moreover have "Suc n \<le> 9 * m + 5 * K + 5 * Suc k + aa_loginFailures (login_finish t (Inr False) a)" using c(3) f(1) by simp
    ultimately show ?thesis unfolding throttled_def using c(1,2,4) by blast
  next
    case False
    then have "throttle_ok t (login_finish t (Inr False) a)" "aa_loginFailures (login_finish t (Inr False) a) = Suc (aa_loginFailures a)"
        "aa_loginLockedUntil (login_finish t (Inr False) a) = aa_loginLockedUntil a"
      using st assms(2) by (auto simp: throttle_ok_def login_finish_def recordLoginResult_def LOGIN_MAX_FAILURES_def)
    moreover have "Suc n \<le> 9 * m + 5 * K + 5 * k + Suc (aa_loginFailures a)" using c(3) by simp
    ultimately show ?thesis unfolding throttled_def using c(1,2,4,5) by metis
  qed
qed

lemma stretch_end:
  assumes "throttle_ok t a" "u \<le> t" "n \<le> 9 * m + 5 * K + 5 * k + aa_loginFailures a" "30000 * int K \<le> u - t0"
    and "0 < k \<longrightarrow> u + 30000 * int k \<le> aa_loginLockedUntil a"
  shows "\<exists>K'. 30000 * int K' \<le> t - t0 \<and> n \<le> 9 * Suc m + 5 * K'"
proof (cases k)
  case 0
  then show ?thesis using assms(1-4) by (intro exI [of _ K]) (simp add: throttle_ok_def)
next
  case (Suc k')
  then have "30000 * int (K + k') \<le> t - t0" "n \<le> 9 * Suc m + 5 * (K + k')"
    using assms by (auto simp: throttle_ok_def)
  then show ?thesis by blast
qed

lemma throttled_right:
  assumes "throttled t0 t n m a" and "0 \<le> t"
  shows "throttled t0 t n (Suc m) (login_finish t (Inr True) a)"
proof -
  obtain u K k where c: "t0 \<le> u" "u \<le> t" "n \<le> 9 * m + 5 * K + 5 * k + aa_loginFailures a" "30000 * int K \<le> u - t0"
      "0 < k \<longrightarrow> u + 30000 * int k \<le> aa_loginLockedUntil a" and st: "throttle_ok t a"
    using assms(1) by (auto simp: throttled_def)
  obtain K' where K': "30000 * int K' \<le> t - t0" "n \<le> 9 * Suc m + 5 * K'" using stretch_end [OF st c(2-5)] by blast
  have "throttle_ok t (login_finish t (Inr True) a)" using st assms(2) by (auto simp: throttle_ok_def login_finish_def recordLoginResult_def)
  then show ?thesis unfolding throttled_def using c(1,2) K' by (intro conjI exI [of _ t] exI [of _ K'] exI [of _ 0]) simp_all
qed

lemma throttled_step:
  assumes "throttled t0 t n m a" and "login_run [e] a = Some a'" and "t \<le> event_time e" and "0 \<le> t"
  shows "throttled t0 (event_time e) (n + wrong_guesses [e]) (m + right_guesses [e]) a'"
proof -
  have th: "throttled t0 (event_time e) n m a" by (rule throttled_later [OF assms(1,3)])
  show ?thesis
  proof (cases e)
    case (Attempt u)
    then show ?thesis using throttled_attempt th assms(2) by auto
  next
    case (Checked u r)
    then have a': "a' = login_finish u r a" "0 < aa_loginInFlight a" using assms(2) by (auto split: if_splits)
    show ?thesis using th throttled_error throttled_wrong [OF _ a'(2)] throttled_right assms(3,4)
      by (cases r) (auto simp: Checked a'(1))
  qed
qed

lemma login_run_Cons: "login_run (e # es) a = Option.bind (login_run [e] a) (login_run es)"
  by (cases e) simp_all

lemma login_run_append: "login_run (es @ fs) a = Option.bind (login_run es a) (login_run fs)"
  by (induction es a rule: login_run.induct) simp_all

lemma guesses_Cons:
  "wrong_guesses (e # es) = wrong_guesses [e] + wrong_guesses es" "right_guesses (e # es) = right_guesses [e] + right_guesses es"
  by (simp_all add: wrong_guesses_def right_guesses_def)

lemma login_run_throttled:
  assumes "login_run es a = Some a'" and "throttled t0 t n m a" and "0 \<le> t" and "sorted (t # map event_time es)"
    and "\<forall>e\<in>set es. event_time e \<le> tn" and "t \<le> tn"
  shows "throttled t0 tn (n + wrong_guesses es) (m + right_guesses es) a'"
  using assms
proof (induction es arbitrary: a t n m)
  case Nil
  then show ?case using throttled_later by auto
next
  case (Cons e es)
  obtain a1 where a1: "login_run [e] a = Some a1" "login_run es a1 = Some a'"
    using Cons.prems(1) by (auto simp: login_run_Cons [of e es] bind_eq_Some_conv)
  have "throttled t0 (event_time e) (n + wrong_guesses [e]) (m + right_guesses [e]) a1"
    using throttled_step [OF Cons.prems(2) a1(1) _ Cons.prems(3)] Cons.prems(4) by simp
  from Cons.IH [OF a1(2) this] Cons.prems(3-6) show ?case
    by (simp add: guesses_Cons [of e es] add.assoc)
qed

text \<open>
  C24. However login attempts overlap, whatever checks fail or never come back, and whatever happened before since the
  process started: in a stretch of time without a successful login, at most nine passwords are found wrong within
  thirty seconds, and five more for every thirty seconds after that. A successful login resets the throttle,
  also while a lock-out lasts, and so adds nine at most. Never are more than three checks under way.
\<close>

theorem login_guesses_bounded:
  assumes "login_run (before @ es) new_admin_auth = Some a" and "sorted (map event_time (before @ es))"
    and "\<forall>e\<in>set before. 0 \<le> event_time e \<and> event_time e \<le> t0" and "\<forall>e\<in>set es. t0 \<le> event_time e \<and> event_time e \<le> t0 + d"
    and "0 \<le> t0" and "0 \<le> d"
  shows "int (wrong_guesses es) \<le> 9 * (1 + int (right_guesses es)) + 5 * (d div 30000) \<and> aa_loginInFlight a \<le> 3"
proof -
  obtain a0 where a0: "login_run before new_admin_auth = Some a0" "login_run es a0 = Some a"
    using assms(1) by (auto simp: login_run_append bind_eq_Some_conv)
  have "throttle_ok 0 new_admin_auth" by (simp add: throttle_ok_def new_admin_auth_def)
  then have "throttled 0 0 0 0 new_admin_auth" unfolding throttled_def by (intro conjI exI [of _ 0]) simp_all
  from login_run_throttled [OF a0(1) this, of t0] assms(2,3,5)
  have "throttle_ok t0 a0" by (auto simp: throttled_def sorted_append)
  then have "throttled t0 t0 0 0 a0" unfolding throttled_def by (intro conjI exI [of _ t0] exI [of _ 0]) simp_all
  from login_run_throttled [OF a0(2) this assms(5), of "t0 + d"] assms(2,4,6)
  have "throttled t0 (t0 + d) (wrong_guesses es) (right_guesses es) a" by (auto simp: sorted_append)
  then obtain u K k where c: "u \<le> t0 + d" "wrong_guesses es \<le> 9 * right_guesses es + 5 * K + 5 * k + aa_loginFailures a"
      "30000 * int K \<le> u - t0" "0 < k \<longrightarrow> u + 30000 * int k \<le> aa_loginLockedUntil a" and st: "throttle_ok (t0 + d) a"
    by (auto simp: throttled_def)
  obtain K' where K': "30000 * int K' \<le> (t0 + d) - t0" "wrong_guesses es \<le> 9 * Suc (right_guesses es) + 5 * K'"
    using stretch_end [OF st c] by blast
  then have "int K' \<le> d div 30000" by linarith
  moreover have "int (wrong_guesses es) \<le> 9 * (1 + int (right_guesses es)) + 5 * int K'"
    using of_nat_mono [OF K'(2), where 'a = int] by simp
  ultimately show ?thesis using st by (auto simp: throttle_ok_def)
qed

theorem login_guesses_bounded_witness:
  "int (wrong_guesses [Checked 1 (Inr False), Attempt 2, Checked 2 (Inr False), Checked 3 (Inr True)]) \<le> 9 * (1 + 1) + 5 * (2 div 30000)"
proof -
  let ?es = "[Checked 1 (Inr False), Attempt 2, Checked 2 (Inr False), Checked 3 (Inr True)]"
  obtain a where "login_run ([Attempt 0, Attempt 1] @ ?es) new_admin_auth = Some a"
    by (auto simp: login_acquire_def isLoginLocked_def new_admin_auth_def login_finish_def recordLoginResult_def LOGIN_MAX_CONCURRENT_def LOGIN_MAX_FAILURES_def)
  then show ?thesis using login_guesses_bounded[of "[Attempt 0, Attempt 1]" ?es a 1 2] by simp
qed

section \<open>Sessions\<close>

record session_payload =
  sp_iat :: rat
  sp_sat :: rat
  sp_epoch :: rat

text \<open>
  \<open>sc_encode\<close> is the base64url form of the JSON text of a payload, \<open>sc_decode\<close> its reverse, which fails where
  the text is not JSON; \<open>sc_hmac\<close> the signature and \<open>sc_unhex\<close> the key.
\<close>

record session_codec =
  sc_encode :: "session_payload \<Rightarrow> string"
  sc_decode :: "string \<Rightarrow> json option"
  sc_hmac :: "bytes \<Rightarrow> string \<Rightarrow> string"
  sc_unhex :: "string \<Rightarrow> bytes"

definition payload_json :: "session_payload \<Rightarrow> json" where
  "payload_json p = JObject [(''iat'', JNumber (sp_iat p)), (''sat'', JNumber (sp_sat p)), (''epoch'', JNumber (sp_epoch p))]"

text \<open>An encoded payload is decoded to its JSON value, is not empty and has no dot.\<close>

definition session_law :: "session_codec \<Rightarrow> bool" where
  "session_law c \<longleftrightarrow> (\<forall>p. sc_decode c (sc_encode c p) = Some (payload_json p) \<and> sc_encode c p \<noteq> [] \<and> CHR ''.'' \<notin> set (sc_encode c p))"

definition sign :: "session_codec \<Rightarrow> admin_auth \<Rightarrow> string \<Rightarrow> js_error + string" where
  "sign c a body = (case aa_sessionSecret a of
     None \<Rightarrow> Inl (plain_error ''session signing key is not loaded'')
   | Some k \<Rightarrow> Inr (sc_hmac c k body))"

definition mintToken :: "session_codec \<Rightarrow> session_payload \<Rightarrow> admin_auth \<Rightarrow> js_error + string" where
  "mintToken c p a = (let body = sc_encode c p in map_sum id (\<lambda>s. body @ ''.'' @ s) (sign c a body))"

definition payload_of :: "json \<Rightarrow> session_payload option" where
  "payload_of j = (case (json_get j ''iat'', json_get j ''sat'', json_get j ''epoch'') of
     (Some (JNumber i), Some (JNumber s), Some (JNumber e)) \<Rightarrow> Some \<lparr>sp_iat = i, sp_sat = s, sp_epoch = e\<rparr>
   | _ \<Rightarrow> None)"

definition in_bounds :: "int \<Rightarrow> admin_auth \<Rightarrow> session_payload \<Rightarrow> bool" where
  "in_bounds now a p \<longleftrightarrow> sp_epoch p = aa_sessionEpoch a \<and> of_int now - sp_iat p \<le> of_int SESSION_ABSOLUTE_MS \<and>
     of_int now - sp_sat p \<le> of_int SESSION_IDLE_MS \<and> sp_iat p \<le> of_int (now + CLOCK_SKEW_MS) \<and> sp_sat p \<le> of_int (now + CLOCK_SKEW_MS)"

definition readToken :: "session_codec \<Rightarrow> int \<Rightarrow> string option \<Rightarrow> admin_auth \<Rightarrow> session_payload option" where
  "readToken c now token a = (case token of None \<Rightarrow> None | Some t \<Rightarrow>
     let body = takeWhile (\<lambda>c. c \<noteq> CHR ''.'') t; presented = drop (length body + 1) t in
     if CHR ''.'' \<notin> set t \<or> body = [] then None
     else case sign c a body of
       Inl e \<Rightarrow> None
     | Inr expected \<Rightarrow> if presented \<noteq> expected then None
         else (case Option.bind (sc_decode c body) payload_of of
             None \<Rightarrow> None
           | Some p \<Rightarrow> if in_bounds now a p then Some p else None))"

definition createSession :: "session_codec \<Rightarrow> int \<Rightarrow> admin_auth \<Rightarrow> js_error + string" where
  "createSession c now a = mintToken c \<lparr>sp_iat = of_int now, sp_sat = of_int now, sp_epoch = aa_sessionEpoch a\<rparr> a"

definition verifySession :: "session_codec \<Rightarrow> int \<Rightarrow> string option \<Rightarrow> admin_auth \<Rightarrow> bool" where
  "verifySession c now token a \<longleftrightarrow> readToken c now token a \<noteq> None"

definition refreshSession :: "session_codec \<Rightarrow> int \<Rightarrow> string option \<Rightarrow> admin_auth \<Rightarrow> js_error + string option" where
  "refreshSession c now token a = (case readToken c now token a of
     None \<Rightarrow> Inr None
   | Some p \<Rightarrow> if of_int now - sp_sat p < of_int SESSION_REFRESH_AFTER_MS then Inr None
       else map_sum id Some (mintToken c \<lparr>sp_iat = sp_iat p, sp_sat = of_int now, sp_epoch = sp_epoch p\<rparr> a))"

text \<open>What the database keeps: the signing key and the epoch.\<close>

record session_world =
  sw_auth :: admin_auth
  sw_secret :: "json option"
  sw_epoch :: "json option"

definition loadSessionKeys :: "session_codec \<Rightarrow> string \<Rightarrow> session_world \<Rightarrow> session_world" where
  "loadSessionKeys c generated w =
    (let stored = (case sw_secret w of Some (JString s) \<Rightarrow> if 64 \<le> length s then Some s else None | _ \<Rightarrow> None);
         secret = (case stored of Some s \<Rightarrow> s | None \<Rightarrow> generated)
     in w\<lparr>sw_secret := (case stored of Some s \<Rightarrow> sw_secret w | None \<Rightarrow> Some (JString secret)),
          sw_auth := (sw_auth w)\<lparr>aa_sessionSecret := Some (sc_unhex c secret),
            aa_sessionEpoch := (case sw_epoch w of Some (JNumber e) \<Rightarrow> e | _ \<Rightarrow> 0)\<rparr>\<rparr>)"

text \<open>The write of the new epoch may be refused.\<close>

definition destroyAllSessions :: "js_error option \<Rightarrow> session_world \<Rightarrow> js_error option \<times> session_world" where
  "destroyAllSessions answer w =
    (let e = aa_sessionEpoch (sw_auth w) + 1; w1 = w\<lparr>sw_auth := (sw_auth w)\<lparr>aa_sessionEpoch := e\<rparr>\<rparr>
     in (answer, if answer = None then w1\<lparr>sw_epoch := Some (JNumber e)\<rparr> else w1))"

definition verifyBearer :: "crypto_ops \<Rightarrow> (string \<Rightarrow> js_error + (bool \<times> string) option) \<Rightarrow> string option \<Rightarrow> js_error + bool" where
  "verifyBearer ops getBySelector presented = (case presented of None \<Rightarrow> Inr False | Some t \<Rightarrow>
     let selector = takeWhile (\<lambda>c. c \<noteq> CHR ''.'') t; secret = drop (length selector + 1) t in
     if CHR ''.'' \<notin> set t \<or> selector = [] then Inr False
     else (case getBySelector selector of
         Inl e \<Rightarrow> Inl e
       | Inr None \<Rightarrow> Inr False
       | Inr (Some (disabled, secretHash)) \<Rightarrow> Inr (\<not> disabled \<and> scryptVerify ops secret secretHash)))"

definition createToken :: "crypto_ops \<Rightarrow> bytes \<Rightarrow> string \<Rightarrow> string \<Rightarrow> js_error option \<Rightarrow> js_error + (string \<times> bool \<times> string)" where
  "createToken ops salt selector secret answer = (case scryptHash ops salt secret of
     Inl e \<Rightarrow> Inl e
   | Inr h \<Rightarrow> (case answer of Some e \<Rightarrow> Inl e | None \<Rightarrow> Inr (selector @ ''.'' @ secret, False, h)))"

section \<open>Passwords and cookies\<close>

definition isPasswordSet :: "js_error + json option \<Rightarrow> js_error + bool" where
  "isPasswordSet stored = map_sum id (\<lambda>v. case v of Some (JString s) \<Rightarrow> True | _ \<Rightarrow> False) stored"

text \<open>The answer of the write, and what is stored then.\<close>

definition setPassword ::
  "crypto_ops \<Rightarrow> bytes \<Rightarrow> string \<Rightarrow> js_error option \<Rightarrow> json option \<Rightarrow> js_error option \<times> json option" where
  "setPassword ops salt password answer stored =
    (if length password < 8 then (Some (plain_error ''password must be at least 8 characters''), stored)
     else case scryptHash ops salt password of
       Inl e \<Rightarrow> (Some e, stored)
     | Inr h \<Rightarrow> (answer, if answer = None then Some (JString h) else stored))"

definition bootstrap ::
  "crypto_ops \<Rightarrow> session_codec \<Rightarrow> string \<Rightarrow> bytes \<Rightarrow> string \<Rightarrow> js_error option \<Rightarrow> js_error + json option \<Rightarrow> session_world \<Rightarrow>
   js_error option \<times> (js_error + json option) \<times> session_world" where
  "bootstrap ops c key salt generated answer stored w =
    (let w1 = loadSessionKeys c key w in
     case stored of
       Inl e \<Rightarrow> (Some e, stored, w1)
     | Inr v \<Rightarrow> if isPasswordSet stored = Inr True then (None, stored, w1)
         else (case setPassword ops salt generated answer v of (r, v') \<Rightarrow> (r, Inr v', w1)))"

definition SESSION_COOKIE :: string where "SESSION_COOKIE = ''strubs_admin''"

definition parseCookies :: "string option \<Rightarrow> (string \<times> string) list" where
  "parseCookies header = (case header of None \<Rightarrow> [] | Some h \<Rightarrow>
     fold (\<lambda>part out. let name = takeWhile (\<lambda>c. c \<noteq> CHR ''='') part in
         if CHR ''='' \<notin> set part then out else AList.update (trim name) (trim (drop (length name + 1) part)) out)
       (split_on (CHR '';'') h) [])"

definition sessionSetCookie :: "string \<Rightarrow> string" where
  "sessionSetCookie token = SESSION_COOKIE @ ''='' @ token @ ''; HttpOnly; Secure; SameSite=Strict; Path=/; Max-Age='' @
     decimal (nat (SESSION_ABSOLUTE_MS div 1000))"

definition sessionClearCookie :: string where
  "sessionClearCookie = SESSION_COOKIE @ ''=; HttpOnly; Secure; SameSite=Strict; Path=/; Max-Age=0''"

text \<open>A password and a token that were stored are accepted, and the token in the cookie that was set is read back.\<close>

lemma stored_password_accepted:
  assumes "crypto_law ops" and "length salt = SALT_BYTES" and "setPassword ops salt password answer stored = (None, stored')"
  shows "verifyPassword ops password (Inr stored') = Inr True"
  using assms scrypt_hash_verifies[OF assms(1,2)]
  by (auto simp: setPassword_def verifyPassword_def split: if_splits sum.splits)

lemma created_token_accepted:
  assumes "crypto_law ops" and "length salt = SALT_BYTES" and "CHR ''.'' \<notin> set selector" and "selector \<noteq> []"
    and "createToken ops salt selector secret answer = Inr (token, record)"
  shows "verifyBearer ops (\<lambda>s. Inr (if s = selector then Some record else None)) (Some token) = Inr True"
proof -
  obtain h where h: "scryptHash ops salt secret = Inr h" "token = selector @ CHR ''.'' # secret" "record = (False, h)"
    using assms(5) by (auto simp: createToken_def split: sum.splits option.splits)
  have "takeWhile (\<lambda>c. c \<noteq> CHR ''.'') selector = selector" using assms(3) by (auto simp: takeWhile_eq_all_conv)
  then have "takeWhile (\<lambda>c. c \<noteq> CHR ''.'') token = selector" by (simp add: h(2) takeWhile_tail)
  then show ?thesis using scrypt_hash_verifies[OF assms(1,2) h(1)] assms(4) by (simp add: verifyBearer_def Let_def h(2,3))
qed

lemma session_cookie_read:
  assumes "CHR '';'' \<notin> set token" and "trim token = token"
  shows "map_of (parseCookies (Some (SESSION_COOKIE @ ''='' @ token))) SESSION_COOKIE = Some token"
proof -
  have "trim SESSION_COOKIE = SESSION_COOKIE" by code_simp
  moreover have "CHR '';'' \<notin> set (SESSION_COOKIE @ ''='' @ token)" using assms(1) by (simp add: SESSION_COOKIE_def)
  ultimately show ?thesis using assms(2) by (simp add: parseCookies_def split_on_free) (simp add: SESSION_COOKIE_def)
qed

section \<open>Revocation\<close>

text \<open>A token that was minted is read back as its payload, where the bounds allow.\<close>

lemma read_minted:
  assumes "session_law c"
  shows "readToken c now (Some (sc_encode c p @ ''.'' @ s)) a =
    (if sign c a (sc_encode c p) = Inr s \<and> in_bounds now a p then Some p else None)"
proof -
  have free: "CHR ''.'' \<notin> set (sc_encode c p)" and dec: "sc_decode c (sc_encode c p) = Some (payload_json p)" "sc_encode c p \<noteq> []"
    using assms by (simp_all add: session_law_def)
  have "takeWhile (\<lambda>c. c \<noteq> CHR ''.'') (sc_encode c p) = sc_encode c p" using free by (auto simp: takeWhile_eq_all_conv)
  then have "takeWhile (\<lambda>c. c \<noteq> CHR ''.'') (sc_encode c p @ ''.'' @ s) = sc_encode c p" by (simp add: takeWhile_tail)
  moreover have "payload_of (payload_json p) = Some p" by (simp add: payload_of_def payload_json_def)
  ultimately show ?thesis using dec by (auto simp: readToken_def Let_def split: sum.splits)
qed

lemma read_in_bounds: "readToken c now t a = Some p \<Longrightarrow> in_bounds now a p"
  by (auto simp: readToken_def Let_def split: option.splits if_splits sum.splits)

datatype session_event = Login int | Slide int string | Logout "js_error option" | Restart string

text \<open>What happens to sessions, with the tokens handed out so far.\<close>

fun session_step :: "session_codec \<Rightarrow> session_event \<Rightarrow> session_world \<times> string list \<Rightarrow> session_world \<times> string list" where
  "session_step c (Login t) (w, ts) = (w, case createSession c t (sw_auth w) of Inl e \<Rightarrow> ts | Inr tok \<Rightarrow> tok # ts)"
| "session_step c (Slide t tok) (w, ts) = (w, case refreshSession c t (Some tok) (sw_auth w) of Inr (Some tok') \<Rightarrow> tok' # ts | _ \<Rightarrow> ts)"
| "session_step c (Logout r) (w, ts) = (snd (destroyAllSessions r w), ts)"
| "session_step c (Restart g) (w, ts) = (loadSessionKeys c g (w\<lparr>sw_auth := new_admin_auth\<rparr>), ts)"

definition session_run :: "session_codec \<Rightarrow> session_event list \<Rightarrow> session_world \<times> string list \<Rightarrow> session_world \<times> string list" where
  "session_run c es x = fold (session_step c) es x"

definition stored_epoch :: "session_world \<Rightarrow> rat" where
  "stored_epoch w = (case sw_epoch w of Some (JNumber e) \<Rightarrow> e | _ \<Rightarrow> 0)"

lemma load_epoch [simp]:
  "aa_sessionEpoch (sw_auth (loadSessionKeys c g w)) = stored_epoch w" "stored_epoch (loadSessionKeys c g w) = stored_epoch w"
  "stored_epoch (w\<lparr>sw_auth := a\<rparr>) = stored_epoch w"
  by (simp_all add: loadSessionKeys_def stored_epoch_def Let_def)

lemma destroy_epoch [simp]:
  "aa_sessionEpoch (sw_auth (snd (destroyAllSessions r w))) = aa_sessionEpoch (sw_auth w) + 1"
  "stored_epoch (snd (destroyAllSessions r w)) = (if r = None then aa_sessionEpoch (sw_auth w) + 1 else stored_epoch w)"
  by (simp_all add: destroyAllSessions_def stored_epoch_def Let_def)

definition minted_upto :: "session_codec \<Rightarrow> rat \<Rightarrow> string list \<Rightarrow> bool" where
  "minted_upto c e ts \<longleftrightarrow> (\<forall>tok\<in>set ts. \<exists>p s. tok = sc_encode c p @ ''.'' @ s \<and> sp_epoch p \<le> e)"

lemma minted_more: "minted_upto c e ts \<Longrightarrow> e \<le> e' \<Longrightarrow> minted_upto c e' ts"
  by (fastforce simp: minted_upto_def)

lemma mint_shape: "mintToken c p a = Inr tok \<Longrightarrow> \<exists>s. tok = sc_encode c p @ ''.'' @ s"
  by (cases "sign c a (sc_encode c p)") (auto simp: mintToken_def Let_def)

lemma create_shape: "createSession c t a = Inr tok \<Longrightarrow> \<exists>p s. tok = sc_encode c p @ ''.'' @ s \<and> sp_epoch p \<le> aa_sessionEpoch a"
  unfolding createSession_def by (drule mint_shape) fastforce

lemma refresh_shape:
  "refreshSession c t x a = Inr (Some tok) \<Longrightarrow> \<exists>p s. tok = sc_encode c p @ ''.'' @ s \<and> sp_epoch p \<le> aa_sessionEpoch a"
proof -
  assume r: "refreshSession c t x a = Inr (Some tok)"
  then obtain p where p: "readToken c t x a = Some p"
      and m: "mintToken c \<lparr>sp_iat = sp_iat p, sp_sat = of_int t, sp_epoch = sp_epoch p\<rparr> a = Inr tok"
    by (cases "mintToken c \<lparr>sp_iat = sp_iat (the (readToken c t x a)), sp_sat = of_int t, sp_epoch = sp_epoch (the (readToken c t x a))\<rparr> a")
       (auto simp: refreshSession_def split: option.splits if_splits)
  show ?thesis using mint_shape[OF m] read_in_bounds[OF p] by (fastforce simp: in_bounds_def)
qed

text \<open>While every logout is stored, no token is ahead of the epoch.\<close>

lemma run_minted:
  assumes "\<forall>r. Logout (Some r) \<notin> set es" and "stored_epoch (fst x) = aa_sessionEpoch (sw_auth (fst x))"
    and "minted_upto c (aa_sessionEpoch (sw_auth (fst x))) (snd x)" and "session_run c es x = (w, ts)"
  shows "stored_epoch w = aa_sessionEpoch (sw_auth w) \<and> minted_upto c (aa_sessionEpoch (sw_auth w)) ts"
  using assms
proof (induction es arbitrary: x)
  case (Cons e es)
  obtain w1 ts1 where x: "x = (w1, ts1)" by fastforce
  obtain w2 ts2 where st: "session_step c e x = (w2, ts2)" by fastforce
  have "stored_epoch w2 = aa_sessionEpoch (sw_auth w2) \<and> minted_upto c (aa_sessionEpoch (sw_auth w2)) ts2"
  proof (cases e)
    case (Login t)
    then show ?thesis using st x Cons.prems(2,3) create_shape by (auto simp: minted_upto_def split: sum.splits)
  next
    case (Slide t tok)
    then show ?thesis using st x Cons.prems(2,3) refresh_shape by (fastforce simp: minted_upto_def split: sum.splits option.splits)
  next
    case (Logout r)
    then have "r = None" using Cons.prems(1) by (cases r) auto
    then show ?thesis using st x Logout Cons.prems(2,3) minted_more[of c "aa_sessionEpoch (sw_auth w1)" ts1 "aa_sessionEpoch (sw_auth w1) + 1"]
      by auto
  next
    case (Restart g)
    then show ?thesis using st x Cons.prems(2,3) by auto
  qed
  then show ?case using Cons.IH[of "(w2, ts2)"] Cons.prems(1,4) st by (simp add: session_run_def)
qed (simp add: session_run_def)

lemma run_epoch:
  "session_run c es x = (w, ts) \<Longrightarrow> E \<le> stored_epoch (fst x) \<Longrightarrow> E \<le> aa_sessionEpoch (sw_auth (fst x)) \<Longrightarrow> E \<le> aa_sessionEpoch (sw_auth w)"
proof (induction es arbitrary: x)
  case (Cons e es)
  obtain w1 ts1 where x: "x = (w1, ts1)" by fastforce
  obtain w2 ts2 where st: "session_step c e x = (w2, ts2)" by fastforce
  have "E \<le> stored_epoch w2 \<and> E \<le> aa_sessionEpoch (sw_auth w2)"
    using st x Cons.prems(2,3) by (cases e) auto
  then show ?case using Cons.IH[of "(w2, ts2)"] Cons.prems(1) st by (simp add: session_run_def)
qed (simp add: session_run_def)

text \<open>
  C25. A logout or a change of the password that was stored is final, provided every earlier one since the start was stored too: no
  token handed out before is accepted ever after, whatever logins, refreshes, further logouts and restarts follow.
\<close>

theorem logout_is_final:
  assumes "session_law c" and "session_run c (Restart g # before) (w0, []) = (w1, issued)" and "\<forall>r. Logout (Some r) \<notin> set before"
    and "session_run c (Logout None # after) (w1, issued) = (w2, issued')" and "tok \<in> set issued"
  shows "\<not> verifySession c now (Some tok) (sw_auth w2)"
proof -
  let ?b = "loadSessionKeys c g (w0\<lparr>sw_auth := new_admin_auth\<rparr>)"
  have "stored_epoch ?b = aa_sessionEpoch (sw_auth ?b)" by simp
  then have m: "stored_epoch w1 = aa_sessionEpoch (sw_auth w1)" "minted_upto c (aa_sessionEpoch (sw_auth w1)) issued"
    using run_minted[OF assms(3), of "(?b, [])" c w1 issued] assms(2) by (simp_all add: session_run_def minted_upto_def)
  then obtain p s where p: "tok = sc_encode c p @ ''.'' @ s" "sp_epoch p \<le> aa_sessionEpoch (sw_auth w1)" using assms(5) by (auto simp: minted_upto_def)
  have "aa_sessionEpoch (sw_auth w1) + 1 \<le> aa_sessionEpoch (sw_auth w2)"
    using run_epoch[of c "after" "(snd (destroyAllSessions None w1), issued)" w2 issued'] assms(4)
    by (simp add: session_run_def)
  then show ?thesis using p read_minted[OF assms(1)] by (auto simp: verifySession_def in_bounds_def)
qed

text \<open>A codec with the law: payloads as decimal numbers.\<close>

definition plain_codec :: session_codec where
  "plain_codec = \<lparr>sc_encode = (\<lambda>p. decimal (to_nat (sp_iat p, sp_sat p, sp_epoch p))),
     sc_decode = (\<lambda>s. case from_nat (digits_value s) of (i, t, e) \<Rightarrow> Some (payload_json \<lparr>sp_iat = i, sp_sat = t, sp_epoch = e\<rparr>)),
     sc_hmac = (\<lambda>k s. []), sc_unhex = (\<lambda>s. [])\<rparr>"

lemma plain_codec_law: "session_law plain_codec"
  using decimal_digits[of "CHR ''.''"]
  by (auto simp: session_law_def plain_codec_def payload_json_def digits_value_def decimal_value decimal_nonempty is_digit_def)

definition empty_sessions :: session_world where
  "empty_sessions = \<lparr>sw_auth = new_admin_auth, sw_secret = None, sw_epoch = None\<rparr>"

lemma session_run_simps [simp]:
  "session_run c [] x = x" "session_run c (e # es) x = session_run c es (session_step c e x)"
  by (simp_all add: session_run_def)

theorem logout_is_final_witness:
  "\<exists>tok w. fst (session_run plain_codec [Restart [], Login 0, Logout None, Restart []] (empty_sessions, [])) = w \<and>
     tok \<in> set (snd (session_run plain_codec [Restart [], Login 0] (empty_sessions, []))) \<and>
     \<not> verifySession plain_codec 1 (Some tok) (sw_auth w)"
proof -
  obtain w1 issued where r1: "session_run plain_codec [Restart [], Login 0] (empty_sessions, []) = (w1, issued)" by fastforce
  obtain w2 issued' where r2: "session_run plain_codec [Logout None, Restart []] (w1, issued) = (w2, issued')" by fastforce
  have "issued \<noteq> []" using r1 by (auto simp: loadSessionKeys_def createSession_def mintToken_def sign_def Let_def)
  then obtain tok where tok: "tok \<in> set issued" by (cases issued) auto
  have "\<not> verifySession plain_codec 1 (Some tok) (sw_auth w2)"
    by (rule logout_is_final[OF plain_codec_law r1 _ r2 tok]) simp
  moreover have "session_run plain_codec [Restart [], Login 0, Logout None, Restart []] (empty_sessions, []) = (w2, issued')"
    using r1 r2 by (simp del: session_step.simps)
  ultimately show ?thesis using r1 tok by (metis fst_conv snd_conv)
qed

text \<open>
  C26. A logout whose write to the database fails revokes the sessions only until the next start. Take any state in which
  the key is stored and loaded and the stored epoch is the one in memory. A session that was accepted before such a
  logout is refused after it, and accepted again after a restart. A session begun after it is lost at the restart, and
  is accepted again after the next successful logout.
\<close>

theorem lost_logout_revives_session:
  assumes "session_law c" and "sw_secret w = Some (JString k)" and "64 \<le> length k" and "aa_sessionSecret (sw_auth w) = Some (sc_unhex c k)"
    and "stored_epoch w = aa_sessionEpoch (sw_auth w)"
    and "createSession c t (sw_auth w) = Inr old"
    and "session_run c [Logout (Some e), Login t] (w, ts) = (w1, fresh # ts)"
    and "session_run c [Restart g] (w1, fresh # ts) = (w2, ts2)"
    and "session_run c [Logout None] (w2, ts2) = (w3, ts3)"
  shows "verifySession c t (Some old) (sw_auth w) \<and> \<not> verifySession c t (Some old) (sw_auth w1) \<and> verifySession c t (Some old) (sw_auth w2) \<and>
    verifySession c t (Some fresh) (sw_auth w1) \<and> \<not> verifySession c t (Some fresh) (sw_auth w2) \<and> verifySession c t (Some fresh) (sw_auth w3)"
proof -
  let ?E = "aa_sessionEpoch (sw_auth w)" and ?k = "sc_unhex c k"
  define p where "p = (\<lambda>n. \<lparr>sp_iat = of_int t, sp_sat = of_int t, sp_epoch = n\<rparr>)"
  define tok where "tok = (\<lambda>n. sc_encode c (p n) @ ''.'' @ sc_hmac c ?k (sc_encode c (p n)))"
  have make: "createSession c t a = Inr (tok (aa_sessionEpoch a))" if "aa_sessionSecret a = Some ?k" for a
    using that by (simp add: createSession_def mintToken_def sign_def tok_def p_def Let_def)
  have accept: "verifySession c t (Some (tok n)) a \<longleftrightarrow> n = aa_sessionEpoch a" if "aa_sessionSecret a = Some ?k" for a n
    using that unfolding verifySession_def tok_def read_minted[OF assms(1)]
    by (auto simp: in_bounds_def p_def sign_def SESSION_ABSOLUTE_MS_def SESSION_IDLE_MS_def CLOCK_SKEW_MS_def)
  have w1: "w1 = snd (destroyAllSessions (Some e) w)" using assms(7) by simp
  then have s1: "aa_sessionSecret (sw_auth w1) = Some ?k" "aa_sessionEpoch (sw_auth w1) = ?E + 1" "sw_secret w1 = Some (JString k)"
      "stored_epoch w1 = ?E"
    using assms(2,4,5) by (simp_all add: destroyAllSessions_def Let_def stored_epoch_def)
  have w2: "w2 = loadSessionKeys c g (w1\<lparr>sw_auth := new_admin_auth\<rparr>)" using assms(8) by simp
  then have s2: "aa_sessionSecret (sw_auth w2) = Some ?k" "aa_sessionEpoch (sw_auth w2) = ?E"
    using assms(3) s1(3,4) by (simp_all add: loadSessionKeys_def Let_def stored_epoch_def)
  have s3: "aa_sessionSecret (sw_auth w3) = Some ?k" "aa_sessionEpoch (sw_auth w3) = ?E + 1"
    using assms(9) s2 by (auto simp: destroyAllSessions_def Let_def)
  have "old = tok ?E" using make[OF assms(4)] assms(6) by simp
  moreover have "fresh = tok (?E + 1)" using make[OF s1(1)] assms(7) s1(2) w1 by simp
  ultimately show ?thesis using accept[OF assms(4)] accept[OF s1(1)] accept[OF s2(1)] accept[OF s3(1)] s1(2) s2(2) s3(2) by simp
qed

theorem lost_logout_revives_session_witness:
  "\<exists>w w1 w2 old. w = loadSessionKeys plain_codec (replicate 64 (CHR ''a'')) empty_sessions \<and> createSession plain_codec 0 (sw_auth w) = Inr old \<and>
     w1 = snd (destroyAllSessions (Some (plain_error ''refused'')) w) \<and> w2 = loadSessionKeys plain_codec [] (w1\<lparr>sw_auth := new_admin_auth\<rparr>) \<and>
     \<not> verifySession plain_codec 0 (Some old) (sw_auth w1) \<and> verifySession plain_codec 0 (Some old) (sw_auth w2)"
proof -
  let ?k = "replicate 64 (CHR ''a'')"
  define w where "w = loadSessionKeys plain_codec ?k empty_sessions"
  have w: "sw_secret w = Some (JString ?k)" "aa_sessionSecret (sw_auth w) = Some (sc_unhex plain_codec ?k)"
      "stored_epoch w = aa_sessionEpoch (sw_auth w)"
    by (simp_all add: w_def loadSessionKeys_def empty_sessions_def Let_def stored_epoch_def)
  define w1 where "w1 = snd (destroyAllSessions (Some (plain_error ''refused'')) w)"
  define w2 where "w2 = loadSessionKeys plain_codec [] (w1\<lparr>sw_auth := new_admin_auth\<rparr>)"
  have "aa_sessionSecret (sw_auth w1) = Some (sc_unhex plain_codec ?k)" using w(2) by (simp add: w1_def destroyAllSessions_def Let_def)
  then obtain fresh where fresh: "createSession plain_codec 0 (sw_auth w1) = Inr fresh"
    by (simp add: createSession_def mintToken_def sign_def Let_def)
  obtain old where old: "createSession plain_codec 0 (sw_auth w) = Inr old"
    using w(2) by (simp add: createSession_def mintToken_def sign_def Let_def)
  have "session_run plain_codec [Logout (Some (plain_error ''refused'')), Login 0] (w, []) = (w1, [fresh])"
      "session_run plain_codec [Restart []] (w1, [fresh]) = (w2, [fresh])"
      "session_run plain_codec [Logout None] (w2, [fresh]) = (snd (destroyAllSessions None w2), [fresh])"
    by (simp_all add: w1_def [symmetric] w2_def fresh)
  from lost_logout_revives_session[OF plain_codec_law w(1) _ w(2,3) old this]
  show ?thesis using old w_def w1_def w2_def by auto
qed

end
