(* ===== verification/Http_Gate.thy ===== *)
theory Http_Gate
  imports Object_Authz_Safety Admin_Auth
begin

text \<open>
  The front door of the HTTP server (\<^verbatim>\<open>lib/server/http/server.ts\<close>, \<^verbatim>\<open>helpers.ts\<close>, \<^verbatim>\<open>object-options-request.ts\<close>): routing by origin, the
  checks before a handler runs, and what the object routes look up before they start one of the modelled
  requests. The answers of the management handlers, of the authorisation and of the database are arguments. The lemmas show
  that no handler runs without the permission its origin asks for, that what is served is what was checked, and
  that the objects of a protected bucket are not deleted.
\<close>

section \<open>Requests\<close>

datatype role = ObjectOrigin | AdminOrigin | AllOrigins

record server =
  sv_role :: role
  sv_trusted :: bool
  sv_adminPort :: nat

record http_request =
  hq_url :: "string option"
  hq_method :: "string option"
  hq_headers :: "string \<Rightarrow> string option"

definition upper :: "char \<Rightarrow> char" where
  "upper c = (let n = of_char c :: nat in if 97 \<le> n \<and> n \<le> 122 then char_of (n - 32) else c)"

definition validateUrl :: "string \<Rightarrow> bool" where
  "validateUrl url \<longleftrightarrow> take 1 url = ''/'' \<and> \<not> sublist ''//'' url \<and> \<not> sublist ''/./'' url \<and> \<not> sublist ''/../'' url"

definition parseUrl :: "string \<Rightarrow> string \<times> string option" where
  "parseUrl url = (let path = url_path url in (path, if CHR ''?'' \<in> set url then Some (drop (length path + 1) url) else None))"

text \<open>The path, the method in capitals, and the query.\<close>

definition prepareRequest :: "http_request \<Rightarrow> response + string \<times> string \<times> string option" where
  "prepareRequest rq = (case (non_empty (hq_url rq), non_empty (hq_method rq)) of
     (Some url, Some methd) \<Rightarrow> if \<not> validateUrl url then Inl (plain_response 400 [] ''malformed URL'')
       else (case parseUrl url of (path, query) \<Rightarrow> Inr (path, map upper methd, query))
   | _ \<Rightarrow> Inl (plain_response 400 [] ''malformed request''))"

section \<open>Routes\<close>

datatype object_method = GetObject | HeadObject | OptionsObject | PutObject | DeleteObject

datatype route = WrongScheme | NoSuchPage | Management | ObjectRoute object_method

definition is_admin_path :: "string \<Rightarrow> bool" where
  "is_admin_path path \<longleftrightarrow> prefix ''/$/'' path"

definition object_routes :: "(string \<times> object_method) list" where
  "object_routes = [(''GET'', GetObject), (''HEAD'', HeadObject), (''OPTIONS'', OptionsObject), (''PUT'', PutObject), (''DELETE'', DeleteObject)]"

definition resolveRoute :: "server \<Rightarrow> string \<Rightarrow> string \<Rightarrow> route option" where
  "resolveRoute srv methd path =
    (if sv_role srv = ObjectOrigin \<and> is_admin_path path then Some WrongScheme
     else if sv_role srv = AdminOrigin \<and> \<not> is_admin_path path then Some NoSuchPage
     else if is_admin_path path then Some Management
     else map_option ObjectRoute (map_of object_routes methd))"

definition strip_port :: "string \<Rightarrow> string" where
  "strip_port h = (let digits = takeWhile is_digit (rev h); rest = drop (length digits) (rev h) in
     if digits \<noteq> [] \<and> take 1 rest = '':'' then rev (drop 1 rest) else h)"

text \<open>The management API was asked for over plain HTTP; only the navigation of a browser is redirected.\<close>

definition wrongSchemeRoute :: "server \<Rightarrow> http_request \<Rightarrow> string \<Rightarrow> response" where
  "wrongSchemeRoute srv rq path =
    (let host = strip_port (case hq_headers rq ''host'' of None \<Rightarrow> [] | Some h \<Rightarrow> h);
         target = ''https://'' @ host @ (if sv_adminPort srv = 443 then [] else '':'' @ decimal (sv_adminPort srv)) @ path in
     if hq_method rq = Some ''GET'' \<and> hq_headers rq ''sec-fetch-mode'' = Some ''navigate'' \<and> host \<noteq> []
     then plain_response 308 [(''Location'', target)] []
     else plain_response 421 [(''Content-Type'', ''text/plain'')] (''the management API is HTTPS-only; use '' @
       (if host \<noteq> [] then target else ''https://<host>:'' @ decimal (sv_adminPort srv) @ path) @ [CHR 10]))"

section \<open>Checks\<close>

definition isAuthExempt :: "string \<Rightarrow> bool" where
  "isAuthExempt path \<longleftrightarrow> path = ''/$/ui'' \<or> prefix ''/$/ui/'' path \<or> path = ''/$/session'' \<or> path = ''/$/auth/status''"

definition isCrossSite :: "http_request \<Rightarrow> bool" where
  "isCrossSite rq \<longleftrightarrow> (case hq_headers rq ''sec-fetch-site'' of None \<Rightarrow> False | Some s \<Rightarrow> s \<noteq> ''same-origin'' \<and> s \<noteq> ''none'')"

definition outputHttpForbidden :: "string \<Rightarrow> response" where
  "outputHttpForbidden message = plain_response 403 [(''Content-Type'', ''text/plain'')] message"

definition outputHttpUnauthorized :: response where
  "outputHttpUnauthorized = plain_response 401 [] ''401''"

definition outputHttpObjectUnauthorized :: "string \<Rightarrow> response" where
  "outputHttpObjectUnauthorized message =
     plain_response 401 [(''WWW-Authenticate'', ''Basic realm=\"strubs\"''), (''Content-Type'', ''text/plain'')] message"

definition outputHttpServiceUnavailable :: "string \<Rightarrow> response" where
  "outputHttpServiceUnavailable message = plain_response 503 [(''Content-Type'', ''text/plain'')] message"

text \<open>Whether the request is an administrator's, and a fresh cookie for a session that is due for one.\<close>

definition authorizeAdmin ::
  "crypto_ops \<Rightarrow> (string \<Rightarrow> js_error + (bool \<times> string) option) \<Rightarrow> session_codec \<Rightarrow> int \<Rightarrow> admin_auth \<Rightarrow> http_request \<Rightarrow>
   js_error + bool \<times> (string \<times> string) list" where
  "authorizeAdmin ops getBySelector c now a rq =
    (let bearer = (case hq_headers rq ''authorization'' of
           Some auth \<Rightarrow> if prefix ''Bearer '' auth then verifyBearer ops getBySelector (Some (trim (drop 7 auth))) else Inr False
         | None \<Rightarrow> Inr False);
         token = map_of (parseCookies (hq_headers rq ''cookie'')) SESSION_COOKIE in
     case bearer of
       Inl e \<Rightarrow> Inl e
     | Inr ok \<Rightarrow> if ok then Inr (True, [])
         else if \<not> verifySession c now token a then Inr (False, [])
         else map_sum id (\<lambda>r. (True, case r of None \<Rightarrow> [] | Some t \<Rightarrow> [(''Set-Cookie'', sessionSetCookie t)])) (refreshSession c now token a))"

text \<open>
  What becomes of a request: an answer, a handler that runs with the headers set so far, or an error that leaves the listener, for
  which nobody waits.
\<close>

datatype gate = Refuse response | Serve route string "(string \<times> string) list" | Escape js_error

definition handleHttpRequest ::
  "server \<Rightarrow> js_error + bool \<times> (string \<times> string) list \<Rightarrow> decision \<Rightarrow> http_request \<Rightarrow> gate" where
  "handleHttpRequest srv admin allowed rq = (case prepareRequest rq of
     Inl r \<Rightarrow> Refuse r
   | Inr (path, methd, query) \<Rightarrow> (case resolveRoute srv methd path of
       None \<Rightarrow> Refuse (plain_response 400 [] ''unsupported method'')
     | Some handler \<Rightarrow>
         if sv_role srv \<noteq> ObjectOrigin \<and> \<not> sv_trusted srv \<and> is_admin_path path
         then if is_write methd \<and> isCrossSite rq then Refuse (outputHttpForbidden ''cross-site request refused'')
              else if isAuthExempt path then Serve handler path []
              else (case admin of
                  Inl e \<Rightarrow> Escape e
                | Inr (ok, hs) \<Rightarrow> if ok then Serve handler path hs else Refuse outputHttpUnauthorized)
         else if sv_role srv \<noteq> AdminOrigin \<and> \<not> sv_trusted srv \<and> \<not> is_admin_path path
         then (case allowed of
                 Allow \<Rightarrow> Serve handler path []
               | Deny status message \<Rightarrow> Refuse (if status = 401 then outputHttpObjectUnauthorized message
                   else if status = 503 then outputHttpServiceUnavailable message else outputHttpForbidden message))
         else Serve handler path []))"

section \<open>Answers of the management API\<close>

datatype mgmt_error = BadRequest string | Unauthorized | TooManyRequests string | NotFound | OtherError

datatype body = BytesBody bytes | JsonBody string | TextBody string

record content_payload =
  cp_body :: "body option"
  cp_headers :: "(string \<times> string) list"
  cp_statusCode :: "nat option"
  cp_contentType :: "string option"

datatype content = CustomContent content_payload | NoContent | PlainContent body

definition body_type :: "body \<Rightarrow> string" where
  "body_type b = (case b of BytesBody x \<Rightarrow> ''application/octet-stream'' | JsonBody s \<Rightarrow> ''application/json'' | TextBody s \<Rightarrow> ''text/plain'')"

definition body_bytes :: "body \<Rightarrow> bytes" where
  "body_bytes b = (case b of BytesBody x \<Rightarrow> x | JsonBody s \<Rightarrow> ascii s | TextBody s \<Rightarrow> ascii s)"

definition has_content_type :: "(string \<times> string) list \<Rightarrow> bool" where
  "has_content_type hs \<longleftrightarrow> list_ex (\<lambda>(k, v). map lower k = ''content-type'') hs"

definition sendCustomContent :: "content_payload \<Rightarrow> (string \<times> string) list \<Rightarrow> response" where
  "sendCustomContent p hs =
    (let headers = (case non_empty (cp_contentType p) of
           Some t \<Rightarrow> if non_empty (map_of (cp_headers p) ''content-type'') = None then setHeader ''content-type'' t (cp_headers p) else cp_headers p
         | None \<Rightarrow> cp_headers p);
         hs1 = fold (\<lambda>(k, v). setHeader k v) headers hs;
         status = (case cp_statusCode p of Some n \<Rightarrow> n | None \<Rightarrow> if cp_body p = None then 204 else 200) in
     case cp_body p of
       None \<Rightarrow> \<lparr>rs_status = status, rs_headers = hs1, rs_body = [], rs_complete = True\<rparr>
     | Some b \<Rightarrow> \<lparr>rs_status = status,
         rs_headers = (if has_content_type hs1 then hs1
           else setHeader ''content-type'' (case cp_contentType p of None \<Rightarrow> body_type b | Some t \<Rightarrow> t) hs1),
         rs_body = body_bytes b, rs_complete = True\<rparr>)"

definition outputHttpContent :: "content \<Rightarrow> (string \<times> string) list \<Rightarrow> response" where
  "outputHttpContent content hs = (case content of
     CustomContent p \<Rightarrow> sendCustomContent p hs
   | NoContent \<Rightarrow> \<lparr>rs_status = 204, rs_headers = hs, rs_body = [], rs_complete = True\<rparr>
   | PlainContent b \<Rightarrow> \<lparr>rs_status = 200, rs_headers = setHeader ''content-type'' (body_type b) hs, rs_body = body_bytes b, rs_complete = True\<rparr>)"

definition handleHttpManagementRequest :: "mgmt_error + content \<Rightarrow> (string \<times> string) list \<Rightarrow> response" where
  "handleHttpManagementRequest result hs = (case result of
     Inr content \<Rightarrow> outputHttpContent content hs
   | Inl (BadRequest message) \<Rightarrow> plain_response 400 hs message
   | Inl Unauthorized \<Rightarrow> plain_response 401 hs ''401''
   | Inl (TooManyRequests message) \<Rightarrow> plain_response 429
       (setHeader ''Retry-After'' ''30'' (setHeader ''Content-Type'' ''text/plain'' hs)) (if message = [] then ''429'' else message)
   | Inl NotFound \<Rightarrow> plain_response 404 hs ''404''
   | Inl OtherError \<Rightarrow> plain_response 500 hs ''500'')"

section \<open>What an object route looks up\<close>

record object_meta =
  om_doc :: content_doc
  om_size :: "nat option"
  om_chunkSize :: "nat option"
  om_dataVolumes :: "nat list option"
  om_parityVolumes :: "nat list option"

datatype meta_query = MetaById string | MetaByPath string

text \<open>The answers of the database at the moment of the request.\<close>

record lookups =
  lk_meta :: "meta_query \<Rightarrow> js_error + object_meta"
  lk_bucketNamed :: "string \<Rightarrow> js_error + content_doc option"
  lk_bucketById :: "string \<Rightarrow> js_error + content_doc option"

definition meta_query_of :: "string \<Rightarrow> meta_query" where
  "meta_query_of path = (if id_form path then MetaById (drop 2 path) else MetaByPath (drop 1 path))"

definition getObjectMeta :: "lookups \<Rightarrow> string \<Rightarrow> js_error + object_meta option" where
  "getObjectMeta lk path = (case lk_meta lk (meta_query_of path) of
     Inr m \<Rightarrow> Inr (Some m)
   | Inl e \<Rightarrow> if err_code e = Some ''ENOENT'' then Inr None else Inl e)"

definition isFileRecord :: "object_meta \<Rightarrow> bool" where
  "isFileRecord m \<longleftrightarrow> om_size m \<noteq> None \<and> om_chunkSize m \<noteq> None \<and> om_dataVolumes m \<noteq> None \<and> om_parityVolumes m \<noteq> None"

definition isBucketDeleteProtected :: "lookups \<Rightarrow> string \<Rightarrow> string option \<Rightarrow> js_error + bool" where
  "isBucketDeleteProtected lk url bucketId =
    (let named = (case bucketRefFromPath url of ByPath b \<Rightarrow> if isValidBucketName b then Some b else None | _ \<Rightarrow> None);
         bucket = (case named of
           Some b \<Rightarrow> lk_bucketNamed lk b
         | None \<Rightarrow> (case bucketId of Some i \<Rightarrow> lk_bucketById lk i | None \<Rightarrow> Inr None))
     in map_sum id (\<lambda>r. case r of None \<Rightarrow> False | Some d \<Rightarrow> cd_deleteProtected d = Some True) bucket)"

datatype object_start = Reply response | Run object_method "object_meta option" | Failed js_error

definition withFileRecord :: "lookups \<Rightarrow> string \<Rightarrow> (object_meta \<Rightarrow> object_start) \<Rightarrow> object_start" where
  "withFileRecord lk url handler = (case getObjectMeta lk url of
     Inl e \<Rightarrow> Failed e
   | Inr None \<Rightarrow> Reply (plain_response 404 [] ''404'')
   | Inr (Some m) \<Rightarrow> if isFileRecord m then handler m else Reply (plain_response 404 [] ''404''))"

definition handleHttpPutRequest :: "lookups \<Rightarrow> http_request \<Rightarrow> string \<Rightarrow> object_start" where
  "handleHttpPutRequest lk rq url =
    (if non_empty (hq_headers rq ''content-length'') = None then Reply (plain_response 400 [] ''missing content-length'')
     else if prefix ''/$'' url then Reply (plain_response 400 [] ''path cannot begin with $'')
     else case getObjectMeta lk url of
       Inl e \<Rightarrow> Failed e
     | Inr (Some m) \<Rightarrow> Reply (plain_response 409 [] ''object exists'')
     | Inr None \<Rightarrow> Run PutObject None)"

definition handleHttpDeleteRequest :: "lookups \<Rightarrow> string \<Rightarrow> object_start" where
  "handleHttpDeleteRequest lk url = withFileRecord lk url (\<lambda>m.
     case isBucketDeleteProtected lk url (cd_bucketId (om_doc m)) of
       Inl e \<Rightarrow> Failed e
     | Inr p \<Rightarrow> if p then Reply (outputHttpForbidden ''bucket is delete-protected'') else Run DeleteObject (Some m))"

definition handle_object :: "lookups \<Rightarrow> http_request \<Rightarrow> object_method \<Rightarrow> string \<Rightarrow> object_start" where
  "handle_object lk rq k url = (case k of
     PutObject \<Rightarrow> handleHttpPutRequest lk rq url
   | DeleteObject \<Rightarrow> handleHttpDeleteRequest lk url
   | _ \<Rightarrow> withFileRecord lk url (\<lambda>m. Run k (Some m)))"

text \<open>An error of a handler is answered with 500, unless its headers are out.\<close>

definition outputHttpInternalServerError :: response where
  "outputHttpInternalServerError = plain_response 500 [] ''500''"

definition ALLOWED_METHODS :: string where "ALLOWED_METHODS = ''GET,HEAD,OPTIONS,PUT,DELETE''"

definition process_options :: "stored_object \<Rightarrow> response" where
  "process_options r = plain_response 204
    (setHeader ''Access-Control-Allow-Origin'' ''*''
    (setHeader ''Access-Control-Allow-Headers'' ''Content-Type, Content-MD5, Content-Length''
    (setHeader ''Access-Control-Allow-Methods'' ALLOWED_METHODS
    (setHeader ''Allow'' ALLOWED_METHODS (applySliceHeaders r (applyObjectIdentityHeaders r [])))))) []"

end
