(* ===== verification/Http_Gate_Safety.thy ===== *)
theory Http_Gate_Safety
  imports Http_Gate
begin

text \<open>
  What the front door promises: a handler runs only with the permission its origin asks for, the only error that leaves a
  listener, the bucket that was checked is the bucket of the object that is served, and a protected bucket keeps
  its objects.
\<close>

section \<open>Permissions\<close>

lemma authorized_by:
  assumes "authorizeAdmin ops tokens c now a rq = Inr (True, hs)"
  shows "(\<exists>t. hq_headers rq ''authorization'' = Some (''Bearer '' @ t) \<and> verifyBearer ops tokens (Some (trim t)) = Inr True) \<or>
    verifySession c now (map_of (parseCookies (hq_headers rq ''cookie'')) SESSION_COOKIE) a"
  using assms by (auto simp: authorizeAdmin_def Let_def prefix_def split: option.splits sum.splits if_splits)

text \<open>
  C20. No handler runs without the permission its origin asks for. The management API is reached on an
  origin of its own, and there, unless the listener is the trusted socket, only by a request that no browser marks
  as foreign where it changes something, and that carries a bearer token or a session that is valid now, but for the login page and the
  session itself. An object is served on its own origin, and only where the authorisation allowed it.
\<close>

theorem handler_needs_permission:
  assumes "handleHttpRequest srv (authorizeAdmin ops tokens c now a rq) allowed rq = Serve handler path hs"
  shows "\<exists>methd query. prepareRequest rq = Inr (path, methd, query) \<and> resolveRoute srv methd path = Some handler \<and>
    (case handler of
       Management \<Rightarrow> is_admin_path path \<and> sv_role srv \<noteq> ObjectOrigin \<and>
         (sv_trusted srv \<or> \<not> (is_write methd \<and> isCrossSite rq) \<and>
           (isAuthExempt path \<or>
            (\<exists>t. hq_headers rq ''authorization'' = Some (''Bearer '' @ t) \<and> verifyBearer ops tokens (Some (trim t)) = Inr True) \<or>
            verifySession c now (map_of (parseCookies (hq_headers rq ''cookie'')) SESSION_COOKIE) a))
     | ObjectRoute k \<Rightarrow> \<not> is_admin_path path \<and> sv_role srv \<noteq> AdminOrigin \<and> (sv_trusted srv \<or> allowed = Allow)
     | WrongScheme \<Rightarrow> sv_role srv = ObjectOrigin
     | NoSuchPage \<Rightarrow> sv_role srv = AdminOrigin)"
proof -
  obtain methd query where p: "prepareRequest rq = Inr (path, methd, query)" "resolveRoute srv methd path = Some handler"
    using assms by (auto simp: handleHttpRequest_def split: sum.splits prod.splits option.splits if_splits decision.splits)
  show ?thesis
  proof (cases handler)
    case Management
    then have "is_admin_path path" "sv_role srv \<noteq> ObjectOrigin" using p(2) by (auto simp: resolveRoute_def split: if_splits)
    then show ?thesis using assms p Management authorized_by[of ops tokens c now a rq hs]
      by (auto simp: handleHttpRequest_def split: sum.splits prod.splits if_splits)
  next
    case (ObjectRoute k)
    then have "\<not> is_admin_path path" "sv_role srv \<noteq> AdminOrigin" using p(2) by (auto simp: resolveRoute_def split: if_splits)
    then show ?thesis using assms p ObjectRoute
      by (auto simp: handleHttpRequest_def split: sum.splits prod.splits if_splits decision.splits)
  qed (use p in \<open>auto simp: resolveRoute_def split: if_splits\<close>)
qed

definition login_request :: http_request where
  "login_request = \<lparr>hq_url = Some ''/$/session'', hq_method = Some ''POST'', hq_headers = (\<lambda>h. None)\<rparr>"

lemma login_prepared: "prepareRequest login_request = Inr (''/$/session'', ''POST'', None)"
  by code_simp

theorem handler_needs_permission_witness:
  "\<exists>methd query. prepareRequest login_request = Inr (''/$/session'', methd, query) \<and>
     resolveRoute \<lparr>sv_role = AdminOrigin, sv_trusted = False, sv_adminPort = 443\<rparr> methd ''/$/session'' = Some Management \<and>
     \<not> (is_write methd \<and> isCrossSite login_request)"
proof -
  let ?srv = "\<lparr>sv_role = AdminOrigin, sv_trusted = False, sv_adminPort = 443\<rparr>"
  have "handleHttpRequest ?srv (authorizeAdmin ops tokens c 0 a login_request) (Deny 401 []) login_request =
      Serve Management ''/$/session'' []" for ops tokens c a
    unfolding handleHttpRequest_def login_prepared
    by (simp add: resolveRoute_def is_admin_path_def isCrossSite_def isAuthExempt_def login_request_def)
  from handler_needs_permission[OF this] show ?thesis by simp blast
qed

text \<open>
  C39. An error leaves a listener exactly when the lookup of a bearer token fails. Nobody waits for it there, so the
  handler for unhandled rejections in \<^verbatim>\<open>service.ts\<close> ends the whole service, and no valid credential is
  needed for it.
\<close>

theorem only_bearer_lookup_escapes:
  "handleHttpRequest srv (authorizeAdmin ops tokens c now a rq) allowed rq = Escape e \<longleftrightarrow>
    (\<exists>path methd query t. prepareRequest rq = Inr (path, methd, query) \<and> sv_role srv \<noteq> ObjectOrigin \<and> \<not> sv_trusted srv \<and>
       is_admin_path path \<and> \<not> (is_write methd \<and> isCrossSite rq) \<and> \<not> isAuthExempt path \<and>
       hq_headers rq ''authorization'' = Some (''Bearer '' @ t) \<and> CHR ''.'' \<in> set (trim t) \<and>
       takeWhile (\<lambda>c. c \<noteq> CHR ''.'') (trim t) \<noteq> [] \<and> tokens (takeWhile (\<lambda>c. c \<noteq> CHR ''.'') (trim t)) = Inl e)"
  (is "?L \<longleftrightarrow> ?R")
proof
  have "\<exists>r. refreshSession c now x a = Inr r" for x
    by (auto simp: refreshSession_def readToken_def mintToken_def sign_def Let_def split: option.splits sum.splits if_splits)
  then have never: "map_sum id f (refreshSession c now x a) \<noteq> Inl e'" for x f e'
    by (metis map_sum.simps(2) sum.distinct(1))
  have bearer: "verifyBearer ops tokens (Some y) = Inl e' \<longleftrightarrow> CHR ''.'' \<in> set y \<and> takeWhile (\<lambda>c. c \<noteq> CHR ''.'') y \<noteq> [] \<and>
      tokens (takeWhile (\<lambda>c. c \<noteq> CHR ''.'') y) = Inl e'" for y e'
    by (auto simp: verifyBearer_def Let_def split: sum.splits option.splits)
  have admin: "authorizeAdmin ops tokens c now a rq = Inl e \<longleftrightarrow>
      (\<exists>t. hq_headers rq ''authorization'' = Some (''Bearer '' @ t) \<and> verifyBearer ops tokens (Some (trim t)) = Inl e)"
    using never by (auto simp: authorizeAdmin_def Let_def prefix_def split: option.splits sum.splits)
  show "?R" if ?L
    using that admin unfolding handleHttpRequest_def bearer
    by (auto split: sum.splits prod.splits option.splits if_splits decision.splits)
  show ?L if ?R
  proof -
    obtain path methd query t where r: "prepareRequest rq = Inr (path, methd, query)" "sv_role srv \<noteq> ObjectOrigin" "\<not> sv_trusted srv"
       "is_admin_path path" "\<not> (is_write methd \<and> isCrossSite rq)" "\<not> isAuthExempt path"
       "hq_headers rq ''authorization'' = Some (''Bearer '' @ t)" "verifyBearer ops tokens (Some (trim t)) = Inl e"
      using \<open>?R\<close> bearer by blast
    have "resolveRoute srv methd path = Some Management" using r(2,4) by (simp add: resolveRoute_def)
    then show ?thesis using r admin by (simp add: handleHttpRequest_def)
  qed
qed

section \<open>The bucket that is checked\<close>

lemma first_component:
  "\<exists>ys. filter (\<lambda>x. x \<noteq> []) (split_on (CHR ''/'') s) =
    (let b = takeWhile (\<lambda>c. c \<noteq> CHR ''/'') (dropWhile (\<lambda>c. c = CHR ''/'') s) in if b = [] then [] else b # ys)"
proof (induction s)
  case (Cons c s)
  show ?case
  proof (cases "c = CHR ''/''")
    case True
    then show ?thesis using Cons by simp
  next
    case False
    have "split_on (CHR ''/'') s \<noteq> [] \<and> takeWhile (\<lambda>c. c \<noteq> CHR ''/'') s = hd (split_on (CHR ''/'') s)" for s
      by (induction s) (auto split: list.splits)
    then show ?thesis using False by (auto simp: Let_def split: list.splits)
  qed
qed simp

lemma only_match:
  assumes "filter P xs = [r]"
  shows "r \<in> set xs" and "P r" and "\<And>x. x \<in> set xs \<Longrightarrow> P x \<Longrightarrow> x = r"
  using arg_cong[OF assms, of set] by auto

lemma prepared_path:
  assumes "prepareRequest rq = Inr (path, methd, query)"
  shows "url_path path = path" and "\<exists>p. path = CHR ''/'' # p"
proof -
  obtain url where url: "validateUrl url" "path = url_path url"
    using assms by (auto simp: prepareRequest_def parseUrl_def Let_def split: option.splits if_splits)
  show "url_path path = path" using set_takeWhileD by (fastforce simp: url(2) url_path_def takeWhile_eq_all_conv)
  show "\<exists>p. path = CHR ''/'' # p" using url by (cases url) (auto simp: url_path_def validateUrl_def)
qed

lemma checked_bucket:
  assumes "prepareRequest rq = Inr (path, methd, query)" and "\<not> id_form path" and "given (butlast (split_on (CHR ''/'') (drop 1 path))) = b # bs"
  shows "bucketRefFromPath path = ByPath b"
proof -
  obtain p where p: "path = CHR ''/'' # p" using prepared_path(2)[OF assms(1)] by blast
  have "\<exists>ys. filter (\<lambda>x. x \<noteq> []) (split_on (CHR ''/'') p) = b # ys"
    using assms(3) by (cases "split_on (CHR ''/'') p" rule: rev_cases) (auto simp: p)
  then have "takeWhile (\<lambda>c. c \<noteq> CHR ''/'') (dropWhile (\<lambda>c. c = CHR ''/'') p) = b \<and> b \<noteq> []"
    using first_component[of p] by (auto simp: Let_def split: if_splits)
  then show ?thesis using prepared_path(1)[OF assms(1)] assms(2) by (simp add: bucketRefFromPath_def Let_def p)
qed

text \<open>
  C21. The bucket that the authorisation looks at is the bucket of the object that is served. For a request for an object in
  a folder by its path, both take the bucket from the first component, and the row that is found, after
  whatever calls on the store, belongs to the one bucket of that name.
\<close>

theorem served_bucket_was_checked:
  assumes "docs_ok docs0" and "store_run docs0 s" and "prepareRequest rq = Inr (path, methd, query)" and "meta_query_of path = MetaByPath p"
    and "st_calls s n = Some (split_on (CHR ''/'') p, Finished (Inr d))" and "cd_containerId d \<noteq> None"
  shows "\<exists>b r. bucketRefFromPath path = ByPath b \<and> filter (bucket_named b) (st_docs s) = [r] \<and> cd_bucketId d = Some (cd_id r)"
proof -
  have form: "\<not> id_form path" "p = drop 1 path" using assms(4) by (auto simp: meta_query_of_def split: if_splits)
  obtain b bs r where "given (butlast (split_on (CHR ''/'') p)) = b # bs" "filter (bucket_named b) (st_docs s) = [r]" "cd_bucketId d = Some (cd_id r)"
    using spelled_bucket[OF found_spelled[OF assms(1,2,5)]] assms(6) by (auto split: list.splits)
  then show ?thesis using checked_bucket[OF assms(3) form(1)] form(2) by blast
qed

text \<open>
  C22. A protected bucket keeps its objects: a delete that goes ahead is for an object that is not in a bucket that is protected at the
  moment it is looked up, whether the request names the object by its path or by its id.
\<close>

theorem protected_bucket_keeps_objects:
  assumes "docs_ok docs0" and "store_run docs0 s" and "prepareRequest rq = Inr (path, methd, query)"
    and "handleHttpDeleteRequest lk path = Run k (Some m)" and "d = om_doc m" and "cd_containerId d \<noteq> None"
    and "case meta_query_of path of MetaById i \<Rightarrow> d \<in> set (st_docs s) \<and> cd_id d = map lower i
           | MetaByPath p \<Rightarrow> \<exists>n. st_calls s n = Some (split_on (CHR ''/'') p, Finished (Inr d))"
    and "\<forall>b r. lk_bucketNamed lk b = Inr r \<longrightarrow> find_answer (st_docs s) (bucket_named b) r"
    and "\<forall>i r. lk_bucketById lk i = Inr r \<longrightarrow> find_answer (st_docs s) (bucket_by_id i) r"
    and "r \<in> set (st_docs s)" and "bucket_by_id b r" and "cd_bucketId d = Some b"
  shows "cd_deleteProtected r \<noteq> Some True"
proof -
  have ok: "docs_ok (st_docs s)" using store_okD[OF store_run_ok[OF assms(1,2)]] by blast
  have p: "isBucketDeleteProtected lk path (cd_bucketId d) = Inr False"
    using assms(4,5) by (auto simp: handleHttpDeleteRequest_def withFileRecord_def split: sum.splits option.splits if_splits)
  have by_id: "cd_deleteProtected r \<noteq> Some True" if "lk_bucketById lk b = Inr x" "\<not> (case x of None \<Rightarrow> False | Some d \<Rightarrow> cd_deleteProtected d = Some True)" for x
  proof -
    have "find_answer (st_docs s) (bucket_by_id b) x" using assms(9) that(1) by blast
    then have "x = Some r" using assms(10,11) same_id[OF ok]
      by (auto simp: find_answer_def filter_empty_conv bucket_by_id_def split: option.splits)
    then show ?thesis using that(2) by simp
  qed
  show ?thesis
  proof (cases "\<exists>n. bucketRefFromPath path = ByPath n \<and> isValidBucketName n")
    case False
    then show ?thesis using p assms(12) by_id
      by (cases "lk_bucketById lk b") (auto simp: isBucketDeleteProtected_def Let_def split: bucket_ref.splits if_splits)
  next
    case True
    then obtain n where n: "bucketRefFromPath path = ByPath n" "isValidBucketName n" by blast
    then have "\<not> id_form path" using prepared_path(1)[OF assms(3)] by (auto simp: bucketRefFromPath_def Let_def split: if_splits)
    then obtain k' p' where q: "meta_query_of path = MetaByPath p'" "st_calls s k' = Some (split_on (CHR ''/'') p', Finished (Inr d))"
      using assms(7) by (auto simp: meta_query_of_def)
    have "p' = drop 1 path" using q(1) by (simp add: meta_query_of_def split: if_splits)
    then obtain r' where r': "filter (bucket_named n) (st_docs s) = [r']" "cd_bucketId d = Some (cd_id r')"
      using spelled_bucket[OF found_spelled[OF assms(1,2) q(2)]] checked_bucket[OF assms(3) \<open>\<not> id_form path\<close>] n(1) assms(6)
      by (auto split: list.splits)
    have rr: "r' = r" using only_match(1)[OF r'(1)] r'(2) assms(10-12) same_id[OF ok] by (auto simp: bucket_by_id_def)
    obtain x where x: "lk_bucketNamed lk n = Inr x" "\<not> (case x of None \<Rightarrow> False | Some d \<Rightarrow> cd_deleteProtected d = Some True)"
      using p n by (cases "lk_bucketNamed lk n") (auto simp: isBucketDeleteProtected_def Let_def)
    have fa: "find_answer (st_docs s) (bucket_named n) x" using assms(8) x(1) by blast
    have "x = Some r"
    proof (cases x)
      case None
      then show ?thesis using fa r'(1) by (simp add: find_answer_def)
    next
      case (Some y)
      then have "y \<in> set (st_docs s)" "bucket_named n y" using fa by (simp_all add: find_answer_def)
      then show ?thesis using only_match(3)[OF r'(1)] Some rr by simp
    qed
    then show ?thesis using x(2) by simp
  qed
qed

section \<open>An example\<close>

definition cat_request :: http_request where
  "cat_request = \<lparr>hq_url = Some ''/photos/cat?x'', hq_method = Some ''delete'', hq_headers = (\<lambda>h. None)\<rparr>"

lemma cat_prepared: "prepareRequest cat_request = Inr (''/photos/cat'', ''DELETE'', Some ''x'')" "meta_query_of ''/photos/cat'' = MetaByPath ''photos/cat''"
    "bucketRefFromPath ''/photos/cat'' = ByPath ''photos''" "isValidBucketName ''photos''"
  by code_simp+

theorem served_bucket_was_checked_witness:
  "\<exists>s b r. store_run [example_bucket, example_object] s \<and> bucketRefFromPath ''/photos/cat'' = ByPath b \<and>
     filter (bucket_named b) (st_docs s) = [r] \<and> cd_bucketId example_object = Some (cd_id r)"
proof -
  obtain s where s: "store_run [example_bucket, example_object] s" "st_calls s 0 = Some ([''photos'', ''cat''], Finished (Inr example_object))"
    using example_run by blast
  have "split_on (CHR ''/'') ''photos/cat'' = [''photos'', ''cat'']" by code_simp
  then show ?thesis
    using served_bucket_was_checked[OF example_docs_ok s(1) cat_prepared(1,2), of 0 example_object] s
    by (auto simp: example_object_def)
qed

definition cat_meta :: object_meta where
  "cat_meta = \<lparr>om_doc = example_object, om_size = Some 1, om_chunkSize = Some 72, om_dataVolumes = Some [1], om_parityVolumes = Some [2]\<rparr>"

definition cat_lookups :: lookups where
  "cat_lookups = \<lparr>lk_meta = (\<lambda>q. Inr cat_meta),
     lk_bucketNamed = (\<lambda>b. Inr (if b = ''photos'' then Some example_bucket else None)),
     lk_bucketById = (\<lambda>i. Inr (if i = cd_id example_bucket then Some example_bucket else None))\<rparr>"

theorem protected_bucket_keeps_objects_witness:
  "handleHttpDeleteRequest cat_lookups ''/photos/cat'' = Run DeleteObject (Some cat_meta) \<and> cd_deleteProtected example_bucket \<noteq> Some True"
proof -
  have run: "handleHttpDeleteRequest cat_lookups ''/photos/cat'' = Run DeleteObject (Some cat_meta)"
    by (simp add: handleHttpDeleteRequest_def withFileRecord_def getObjectMeta_def cat_lookups_def cat_meta_def isFileRecord_def
        isBucketDeleteProtected_def cat_prepared example_bucket_def)
  obtain s where s: "store_run [example_bucket, example_object] s" "st_docs s = [example_bucket, example_object]"
      "st_calls s 0 = Some ([''photos'', ''cat''], Finished (Inr example_object))"
    using example_run by blast
  have "split_on (CHR ''/'') ''photos/cat'' = [''photos'', ''cat'']" by code_simp
  then have found: "\<exists>n. st_calls s n = Some (split_on (CHR ''/'') ''photos/cat'', Finished (Inr example_object))" using s(3) by auto
  have "cd_deleteProtected example_bucket \<noteq> Some True"
  proof (rule protected_bucket_keeps_objects[OF example_docs_ok s(1) cat_prepared(1) run refl])
    show "\<forall>b r. lk_bucketNamed cat_lookups b = Inr r \<longrightarrow> find_answer (st_docs s) (bucket_named b) r"
      by (auto simp: s(2) cat_lookups_def find_answer_def bucket_named_def example_bucket_def example_object_def)
    show "\<forall>i r. lk_bucketById cat_lookups i = Inr r \<longrightarrow> find_answer (st_docs s) (bucket_by_id i) r"
      by (auto simp: s(2) cat_lookups_def find_answer_def bucket_by_id_def example_bucket_def example_object_def)
  qed (use found in \<open>auto simp: s(2) cat_prepared(2) cat_meta_def bucket_by_id_def example_bucket_def example_object_def\<close>)
  then show ?thesis using run by simp
qed

end
